(* ===== verification/PyBase.thy ===== *)
theory PyBase
  imports Complex_Main "HOL-Library.AList" "HOL-Library.List_Lexorder"
    "HOL-Library.Char_ord" "HOL-Library.Product_Lexorder"
begin

text \<open>
  The prelude: the Python values the services pass around, the parts of Python's
  string, integer and dictionary behaviour they use, the exceptions they raise, and the
  list lemmas the components share.

  \<^item> A JSON-shaped Python value is a \<open>pyval\<close>. A finite \<open>float\<close> carries its exact
    value and the text \<open>repr\<close> prints for it; no modelled operation computes a new float.
  \<^item> A \<open>dict\<close> with string keys is an association list in insertion order, read with
    \<open>dget\<close> (\<open>d.get(k)\<close>), written with \<open>dset\<close> (\<open>d[k] = v\<close>).
  \<^item> A Python string is an Isabelle \<open>string\<close>, one character per code point below 256.
  \<^item> An exception is its class and its message; a fallible pure function returns
    \<open>exn + 'a\<close>.
\<close>

named_theorems py_simps \<open>evaluation of the Python primitives on constructors\<close>

section \<open>Exceptions\<close>

datatype exn_class =
    ValueError | TypeError | KeyError | OverflowError | RuntimeError
  | PermissionError | IntegrityError | NoResultFound
  | ChangeConflictError | ChangeNotUndoableError
  | RelationValidationError | AutoNumberValidationError | MemberFieldValidationError
  | FormulaValidationError | AutomationValidationError | AutomationError | CollaborationError
  | CollaborationConflictError | CollaborationNotFoundError | TaskProfileValidationError

datatype exn = Exn (exn_class: exn_class) (exn_msg: string)

type_synonym 'a res = "exn + 'a"

text \<open>\<open>isinstance(exc, ValueError)\<close>: every validation error of the services derives from it.\<close>

fun is_value_error :: "exn_class \<Rightarrow> bool" where
  "is_value_error ValueError = True"
| "is_value_error ChangeConflictError = True"
| "is_value_error ChangeNotUndoableError = True"
| "is_value_error RelationValidationError = True"
| "is_value_error AutoNumberValidationError = True"
| "is_value_error MemberFieldValidationError = True"
| "is_value_error FormulaValidationError = True"
| "is_value_error AutomationValidationError = True"
| "is_value_error AutomationError = True"
| "is_value_error CollaborationError = True"
| "is_value_error CollaborationConflictError = True"
| "is_value_error CollaborationNotFoundError = True"
| "is_value_error TaskProfileValidationError = True"
| "is_value_error _ = False"

fun bind_res :: "'a res \<Rightarrow> ('a \<Rightarrow> 'b res) \<Rightarrow> 'b res" where
  "bind_res (Inl e) f = Inl e"
| "bind_res (Inr x) f = f x"

fun map_res :: "('a \<Rightarrow> 'b res) \<Rightarrow> 'a list \<Rightarrow> 'b list res" where
  "map_res f [] = Inr []"
| "map_res f (x # xs) = bind_res (f x) (\<lambda>y. bind_res (map_res f xs) (\<lambda>ys. Inr (y # ys)))"

lemma bind_res_Inr [simp]: "bind_res m f = Inr y \<longleftrightarrow> (\<exists>x. m = Inr x \<and> f x = Inr y)"
  by (cases m) auto

lemma bind_res_Inl: "bind_res m f = Inl e \<longleftrightarrow> m = Inl e \<or> (\<exists>x. m = Inr x \<and> f x = Inl e)"
  by (cases m) auto

lemma map_res_Inr: "map_res f xs = Inr ys \<longleftrightarrow> list_all2 (\<lambda>x y. f x = Inr y) xs ys"
proof (induction xs arbitrary: ys)
  case Nil
  then show ?case by auto
next
  case (Cons x xs)
  then show ?case by (cases ys) auto
qed

lemma map_res_Inr_length: "map_res f xs = Inr ys \<Longrightarrow> length ys = length xs"
  by (simp add: map_res_Inr list_all2_lengthD)

section \<open>Values\<close>

datatype pyval =
    PNone
  | PBool bool
  | PInt int
  | PFloat rat string
  | PStr string
  | PList "pyval list"
  | PDict "(string \<times> pyval) list"

type_synonym dict = "(string \<times> pyval) list"

definition dget :: "dict \<Rightarrow> string \<Rightarrow> pyval" where
  "dget d k = (case map_of d k of None \<Rightarrow> PNone | Some v \<Rightarrow> v)"

definition dget_default :: "dict \<Rightarrow> string \<Rightarrow> pyval \<Rightarrow> pyval" where
  "dget_default d k v = (case map_of d k of None \<Rightarrow> v | Some w \<Rightarrow> w)"

definition dhas :: "dict \<Rightarrow> string \<Rightarrow> bool" where
  "dhas d k \<longleftrightarrow> k \<in> set (map fst d)"

definition dset :: "string \<Rightarrow> pyval \<Rightarrow> dict \<Rightarrow> dict" where
  "dset k v d = AList.update k v d"

definition ddel :: "string \<Rightarrow> dict \<Rightarrow> dict" where
  "ddel k d = AList.delete k d"

definition dupdate :: "dict \<Rightarrow> dict \<Rightarrow> dict" where
  "dupdate d new = foldl (\<lambda>acc (k, v). dset k v acc) d new"

definition dkeys :: "dict \<Rightarrow> string list" where
  "dkeys d = map fst d"

abbreviation wf_dict :: "dict \<Rightarrow> bool" where
  "wf_dict d \<equiv> distinct (map fst d)"

lemma dget_Nil [simp]: "dget [] k = PNone"
  by (simp add: dget_def)

lemma dget_Cons [simp]: "dget ((k', v) # d) k = (if k' = k then v else dget d k)"
  by (simp add: dget_def)

lemma dhas_simps [simp]: "dhas [] k \<longleftrightarrow> False" "dhas ((k', v) # d) k \<longleftrightarrow> k' = k \<or> dhas d k"
  by (auto simp: dhas_def)

lemma dget_dset [simp]: "dget (dset k v d) k' = (if k' = k then v else dget d k')"
  by (simp add: dget_def dset_def update_conv')

lemma dhas_dset [simp]: "dhas (dset k v d) k' \<longleftrightarrow> k' = k \<or> dhas d k'"
  by (simp add: dhas_def dset_def dom_update)

lemma map_of_dset: "map_of (dset k v d) = (map_of d)(k \<mapsto> v)"
  by (simp add: dset_def update_conv')

lemma wf_dset [simp, intro]: "wf_dict d \<Longrightarrow> wf_dict (dset k v d)"
  by (simp add: dset_def distinct_update)

lemma wf_ddel [simp, intro]: "wf_dict d \<Longrightarrow> wf_dict (ddel k d)"
  by (simp add: ddel_def distinct_delete)

lemma dhas_ddel [simp]: "dhas (ddel k d) k' \<longleftrightarrow> k' \<noteq> k \<and> dhas d k'"
  by (auto simp: dhas_def ddel_def delete_keys)

lemma dget_ddel [simp]: "dget (ddel k d) k' = (if k' = k then PNone else dget d k')"
  by (simp add: dget_def ddel_def delete_conv')

lemma dget_not_dhas: "\<not> dhas d k \<Longrightarrow> dget d k = PNone"
  by (auto simp: dget_def dhas_def split: option.splits dest!: map_of_SomeD)
     (force simp: image_iff)

lemma dset_simps [py_simps]:
  "dset k v [] = [(k, v)]"
  "dset k v ((k', v') # d) = (if k' = k then (k, v) # d else (k', v') # dset k v d)"
  by (simp_all add: dset_def)

section \<open>Truth, equality and text\<close>

fun py_truth :: "pyval \<Rightarrow> bool" where
  "py_truth PNone = False"
| "py_truth (PBool b) = b"
| "py_truth (PInt n) = (n \<noteq> 0)"
| "py_truth (PFloat q _) = (q \<noteq> 0)"
| "py_truth (PStr s) = (s \<noteq> [])"
| "py_truth (PList xs) = (xs \<noteq> [])"
| "py_truth (PDict d) = (d \<noteq> [])"

text \<open>\<open>a or b\<close>.\<close>

definition py_or :: "pyval \<Rightarrow> pyval \<Rightarrow> pyval" where
  "py_or a b = (if py_truth a then a else b)"

text \<open>A number's exact value: \<open>True\<close> is 1 and \<open>False\<close> is 0 in comparisons.\<close>

fun num_of :: "pyval \<Rightarrow> rat option" where
  "num_of (PBool b) = Some (if b then 1 else 0)"
| "num_of (PInt n) = Some (of_int n)"
| "num_of (PFloat q _) = Some q"
| "num_of _ = None"

text \<open>Python's \<open>==\<close> on JSON values: numbers by value, dictionaries up to order.\<close>

fun py_eq :: "pyval \<Rightarrow> pyval \<Rightarrow> bool"
  and py_eq_list :: "pyval list \<Rightarrow> pyval list \<Rightarrow> bool"
  and py_eq_items :: "dict \<Rightarrow> dict \<Rightarrow> bool"
where
  "py_eq PNone w = (w = PNone)"
| "py_eq (PStr s) w = (w = PStr s)"
| "py_eq (PList xs) w = (case w of PList ys \<Rightarrow> py_eq_list xs ys | _ \<Rightarrow> False)"
| "py_eq (PDict d) w =
     (case w of PDict e \<Rightarrow> length d = length e \<and> py_eq_items d e | _ \<Rightarrow> False)"
| "py_eq (PBool b) w = (num_of w = Some (if b then 1 else 0))"
| "py_eq (PInt n) w = (num_of w = Some (of_int n))"
| "py_eq (PFloat q r) w = (num_of w = Some q)"
| "py_eq_list [] ys = (ys = [])"
| "py_eq_list (x # xs) ys = (case ys of [] \<Rightarrow> False | y # zs \<Rightarrow> py_eq x y \<and> py_eq_list xs zs)"
| "py_eq_items [] e = True"
| "py_eq_items (kv # d) e =
     (case map_of e (fst kv) of None \<Rightarrow> False
      | Some w \<Rightarrow> py_eq (snd kv) w \<and> py_eq_items d e)"

definition py_space :: "char \<Rightarrow> bool" where
  "py_space c \<longleftrightarrow> (let n = (of_char c :: nat) in
     (9 \<le> n \<and> n \<le> 13) \<or> (28 \<le> n \<and> n \<le> 32) \<or> n = 133 \<or> n = 160)"

definition strip :: "string \<Rightarrow> string" where
  "strip s = rev (dropWhile py_space (rev (dropWhile py_space s)))"

definition lower_char :: "char \<Rightarrow> char" where
  "lower_char c = (let n = (of_char c :: nat) in
     if (65 \<le> n \<and> n \<le> 90) \<or> (192 \<le> n \<and> n \<le> 222 \<and> n \<noteq> 215) then char_of (n + 32) else c)"

definition lower :: "string \<Rightarrow> string" where
  "lower s = map lower_char s"

fun is_prefix :: "string \<Rightarrow> string \<Rightarrow> bool" where
  "is_prefix [] _ = True"
| "is_prefix (_ # _) [] = False"
| "is_prefix (x # xs) (y # ys) = (x = y \<and> is_prefix xs ys)"

text \<open>\<open>needle in haystack\<close> on strings.\<close>

fun substring :: "string \<Rightarrow> string \<Rightarrow> bool" where
  "substring p [] = (p = [])"
| "substring p (y # ys) = (is_prefix p (y # ys) \<or> substring p ys)"

fun dec_nat :: "nat \<Rightarrow> string" where
  "dec_nat n = (if n < 10 then [char_of (48 + n)] else dec_nat (n div 10) @ [char_of (48 + n mod 10)])"

declare dec_nat.simps [simp del]

definition dec_int :: "int \<Rightarrow> string" where
  "dec_int i = (if i < 0 then ''-'' @ dec_nat (nat (- i)) else dec_nat (nat i))"

definition hex_digit :: "nat \<Rightarrow> char" where
  "hex_digit n = char_of (if n < 10 then 48 + n else 87 + n)"

definition repr_char :: "char \<Rightarrow> char \<Rightarrow> string" where
  "repr_char q c = (let n = (of_char c :: nat) in
     if c = q \<or> n = 92 then [CHR 0x5C, c]
     else if n = 10 then [CHR 0x5C, CHR ''n'']
     else if n = 13 then [CHR 0x5C, CHR ''r'']
     else if n = 9 then [CHR 0x5C, CHR ''t'']
     else if n < 32 \<or> (127 \<le> n \<and> n \<le> 160) \<or> n = 173
       then [CHR 0x5C, CHR ''x'', hex_digit (n div 16), hex_digit (n mod 16)]
     else [c])"

definition repr_str :: "string \<Rightarrow> string" where
  "repr_str s = (let q = (if CHR 0x27 \<in> set s \<and> CHR 0x22 \<notin> set s then CHR 0x22 else CHR 0x27)
     in [q] @ concat (map (repr_char q) s) @ [q])"

fun join :: "string \<Rightarrow> string list \<Rightarrow> string" where
  "join sep [] = []"
| "join sep [x] = x"
| "join sep (x # y # zs) = x @ sep @ join sep (y # zs)"

fun py_repr :: "pyval \<Rightarrow> string" where
  "py_repr PNone = ''None''"
| "py_repr (PBool b) = (if b then ''True'' else ''False'')"
| "py_repr (PInt n) = dec_int n"
| "py_repr (PFloat _ r) = r"
| "py_repr (PStr s) = repr_str s"
| "py_repr (PList xs) = ''['' @ join '', '' (map py_repr xs) @ '']''"
| "py_repr (PDict d) =
     ''{'' @ join '', '' (map (\<lambda>kv. repr_str (fst kv) @ '': '' @ py_repr (snd kv)) d) @ ''}''"

definition py_str :: "pyval \<Rightarrow> string" where
  "py_str v = (case v of PStr s \<Rightarrow> s | _ \<Rightarrow> py_repr v)"

text \<open>\<open>str(v or '')\<close>.\<close>

definition str_or_empty :: "pyval \<Rightarrow> string" where
  "str_or_empty v = (if py_truth v then py_str v else [])"

section \<open>The built-in \<open>int(...)\<close>\<close>

definition is_digit :: "char \<Rightarrow> bool" where
  "is_digit c \<longleftrightarrow> (48 \<le> (of_char c :: nat) \<and> (of_char c :: nat) \<le> 57)"

text \<open>Decimal digits with single underscores between them; \<open>p\<close> says the last one was a digit.\<close>

fun digits_val :: "nat \<Rightarrow> bool \<Rightarrow> string \<Rightarrow> nat option" where
  "digits_val a p [] = (if p then Some a else None)"
| "digits_val a p (c # cs) =
     (if is_digit c then digits_val (10 * a + (of_char c - 48)) True cs
      else if c = CHR ''_'' \<and> p then digits_val a False cs
      else None)"

definition parse_int :: "string \<Rightarrow> int option" where
  "parse_int s = (case strip s of
       [] \<Rightarrow> None
     | c # cs \<Rightarrow>
         if c = CHR ''-'' then map_option (\<lambda>n. - int n) (digits_val 0 False cs)
         else if c = CHR ''+'' then map_option int (digits_val 0 False cs)
         else map_option int (digits_val 0 False (c # cs)))"

fun py_int :: "pyval \<Rightarrow> int res" where
  "py_int (PInt n) = Inr n"
| "py_int (PBool b) = Inr (if b then 1 else 0)"
| "py_int (PFloat q _) = Inr (if q < 0 then - \<lfloor>- q\<rfloor> else \<lfloor>q\<rfloor>)"
| "py_int (PStr s) = (case parse_int s of
       None \<Rightarrow> Inl (Exn ValueError ''invalid literal for int() with base 10'')
     | Some n \<Rightarrow> Inr n)"
| "py_int _ = Inl (Exn TypeError ''int() argument must be a string or a number'')"

lemma py_int_error: "py_int v = Inl e \<Longrightarrow> exn_class e = ValueError \<or> exn_class e = TypeError"
  by (cases v) (auto split: option.splits)

text \<open>\<open>list(dict.fromkeys(xs))\<close>: the first occurrence of each element, in order.\<close>

definition dedup :: "'a list \<Rightarrow> 'a list" where
  "dedup xs = rev (remdups (rev xs))"

section \<open>Lemmas on dictionaries and lists\<close>

lemma set_dedup [simp]: "set (dedup xs) = set xs"
  by (simp add: dedup_def)

lemma distinct_dedup [simp]: "distinct (dedup xs)"
  by (simp add: dedup_def)

lemma dedup_distinct: "distinct xs \<Longrightarrow> dedup xs = xs"
  by (simp add: dedup_def distinct_remdups_id)

lemma dset_idem: "map_of d k = Some v \<Longrightarrow> dset k v d = d"
  by (induction d) (auto simp: dset_def split: if_splits)

lemma dget_default_dset [simp]: "dget_default (dset k v d) k' w = (if k' = k then v else dget_default d k' w)"
  by (simp add: dget_default_def map_of_dset)

lemma find_SomeD: "find P xs = Some x \<Longrightarrow> x \<in> set xs \<and> P x"
  by (induction xs) (auto split: if_splits)

lemma find_append: "find P (xs @ ys) = (case find P xs of Some x \<Rightarrow> Some x | None \<Rightarrow> find P ys)"
  by (induction xs) auto

lemma find_distinct_key:
  "distinct (map key xs) \<Longrightarrow> x \<in> set xs \<Longrightarrow> find (\<lambda>y. key y = key x) xs = Some x"
  by (induction xs) auto

lemma find_filter_distinct:
  assumes "distinct (map key xs)" "\<And>x y. P x \<Longrightarrow> P y \<Longrightarrow> key x = key y"
  shows "find P (filter Q xs) = (case find P xs of None \<Rightarrow> None | Some x \<Rightarrow> if Q x then Some x else None)"
  using assms(1)
proof (induction xs)
  case (Cons a xs)
  show ?case
  proof (cases "P a")
    case True
    have "\<not> P x" if "x \<in> set xs" for x
    proof
      assume "P x"
      with True assms(2) have "key x = key a" by blast
      with that Cons.prems show False by (metis distinct.simps(2) image_eqI list.simps(9) set_map)
    qed
    then have "find P (filter Q xs) = None" by (auto simp: find_None_iff)
    with True show ?thesis by simp
  next
    case False
    with Cons show ?thesis by simp
  qed
qed simp

lemma find_key_None: "k \<notin> f ` set xs \<Longrightarrow> find (\<lambda>x. f x = k) xs = None"
  by (induction xs) auto

lemma notin_image: "x \<notin> f ` A \<longleftrightarrow> (\<forall>a\<in>A. f a \<noteq> x)"
  by auto

lemma sort_key_sorted: "sorted (map f xs) \<Longrightarrow> sort_key f xs = xs"
  by (induction xs) (auto simp: insort_is_Cons)

lemma distinct_map_filterI: "distinct (map f xs) \<Longrightarrow> distinct (map f (filter P xs))"
  by (simp add: distinct_map_filter)

lemma map_of_rev: "distinct (map fst xs) \<Longrightarrow> map_of (rev xs) = map_of xs"
  by (subst map_of_inject_set) (simp_all add: rev_map flip: rev_map)

lemma upto_join: "a \<le> b \<Longrightarrow> b \<le> c \<Longrightarrow> [a..b - 1] @ [b..c - 1] = [a..c - (1::int)]"
  by (cases "b = c") (simp_all flip: upto_split1)

section \<open>Lemmas on text\<close>

lemma nat_char_digit [simp]: "n < 10 \<Longrightarrow> (of_char (char_of (48 + n) :: char) :: nat) = 48 + n"
  by (simp add: of_char_of)

lemma dec_nat_digits: "c \<in> set (dec_nat n) \<Longrightarrow> is_digit c"
proof (induction n rule: dec_nat.induct)
  case (1 n)
  show ?case
  proof (cases "n < 10")
    case True
    with 1 show ?thesis by (simp add: dec_nat.simps[of n] is_digit_def)
  next
    case False
    with 1 show ?thesis by (auto simp: dec_nat.simps[of n] is_digit_def)
  qed
qed

lemma dec_nat_nonempty [simp]: "dec_nat n \<noteq> []"
  by (subst dec_nat.simps) simp

lemma digits_val_append:
  "\<forall>c\<in>set xs. is_digit c \<Longrightarrow> xs \<noteq> [] \<Longrightarrow>
     digits_val a p (xs @ ys) = digits_val (foldl (\<lambda>a c. 10 * a + (of_char c - 48)) a xs) True ys"
proof (induction xs arbitrary: a p)
  case Nil
  then show ?case by simp
next
  case (Cons x xs)
  then show ?case
    using Cons.IH[of "10 * a + (of_char x - 48)" True] by (cases "xs = []") simp_all
qed

definition undec :: "nat \<Rightarrow> string \<Rightarrow> nat" where
  "undec = foldl (\<lambda>a c. 10 * a + (of_char c - 48))"

lemma undec_dec_nat: "undec 0 (dec_nat n) = n"
proof (induction n rule: dec_nat.induct)
  case (1 n)
  then show ?case by (cases "n < 10") (simp_all add: dec_nat.simps[of n] undec_def)
qed

lemma digits_val_dec_nat: "digits_val 0 False (dec_nat n) = Some n"
  using digits_val_append[of "dec_nat n" 0 False "[]"] dec_nat_digits undec_dec_nat
  by (auto simp: undec_def)

lemma dec_nat_inject [simp]: "dec_nat m = dec_nat n \<longleftrightarrow> m = n"
  by (metis undec_dec_nat)

lemma digit_not_space: "is_digit c \<Longrightarrow> \<not> py_space c"
  by (auto simp: is_digit_def py_space_def Let_def)

lemma strip_no_space: "\<forall>c\<in>set s. \<not> py_space c \<Longrightarrow> strip s = s"
proof -
  assume h: "\<forall>c\<in>set s. \<not> py_space c"
  have "dropWhile py_space s = s" using h by (cases s) auto
  moreover have "dropWhile py_space (rev s) = rev s" using h by (cases s rule: rev_cases) auto
  ultimately show ?thesis by (simp add: strip_def)
qed

lemma dash_not [simp]: "\<not> is_digit (CHR ''-'')" "\<not> py_space (CHR ''-'')" "\<not> is_digit (CHR ''+'')"
  by (simp_all add: is_digit_def py_space_def)

lemma strip_dec_int: "strip (dec_int n) = dec_int n"
  by (rule strip_no_space) (auto simp: dec_int_def dest!: dec_nat_digits digit_not_space)

lemma dec_nat_hd: "dec_nat n = c # cs \<Longrightarrow> is_digit c"
  by (rule dec_nat_digits[of _ n]) simp

lemma parse_int_dec_int: "parse_int (dec_int n) = Some n"
proof (cases "n < 0")
  case True
  then show ?thesis by (simp add: parse_int_def strip_dec_int) (simp add: dec_int_def digits_val_dec_nat)
next
  case False
  then obtain c cs where c: "dec_nat (nat n) = c # cs" by (cases "dec_nat (nat n)") auto
  then have "is_digit c" by (rule dec_nat_hd)
  then have "c \<noteq> CHR ''-''" "c \<noteq> CHR ''+''" by (auto simp: is_digit_def)
  with False c show ?thesis
    using digits_val_dec_nat[of "nat n"] by (simp add: parse_int_def strip_dec_int) (simp add: dec_int_def)
qed

lemma dec_int_inject [simp]: "dec_int m = dec_int n \<longleftrightarrow> m = n"
  by (metis parse_int_dec_int option.inject)

lemma strip_Nil [simp]: "strip [] = []" by (simp add: strip_def)

lemma dropWhile_idem [simp]: "dropWhile P (dropWhile P xs) = dropWhile P xs"
  by (induction xs) auto

lemma strip_front: "s = [] \<or> \<not> py_space (hd s) \<Longrightarrow> strip s = rev (dropWhile py_space (rev s))"
  by (cases s) (auto simp: strip_def)

lemma dropWhile_hd: "dropWhile P xs = [] \<or> \<not> P (hd (dropWhile P xs))"
  by (induction xs) auto

lemma rev_dropWhile_hd: "s = [] \<or> \<not> P (hd s) \<Longrightarrow>
   rev (dropWhile P (rev s)) = [] \<or> \<not> P (hd (rev (dropWhile P (rev s))))"
proof (cases s)
  case (Cons a list)
  assume h: "s = [] \<or> \<not> P (hd s)"
  then have "\<not> P a" using Cons by simp
  then have "dropWhile P (rev s) = dropWhile P (rev list) @ [a]"
    using Cons by (induction list rule: rev_induct) (auto simp: dropWhile_append)
  then show ?thesis using \<open>\<not> P a\<close> by simp
qed simp

lemma strip_idem [simp]: "strip (strip s) = strip s"
proof -
  let ?a = "dropWhile py_space s"
  have "strip s = [] \<or> \<not> py_space (hd (strip s))"
    unfolding strip_def by (rule rev_dropWhile_hd) (rule dropWhile_hd)
  then have "strip (strip s) = rev (dropWhile py_space (rev (strip s)))" by (rule strip_front)
  also have "\<dots> = strip s" by (simp add: strip_def)
  finally show ?thesis .
qed

end
