(* ===== verification/Session.thy ===== *)
theory Session
  imports PyBase
begin

text \<open>
  The persistent state and the database session. One record per ORM class of
  \<open>src/app/models/\<close>, one list of rows per table, and the \<open>AsyncSession\<close> the services
  share: \<open>work\<close> is what its queries see (pending changes are flushed before each query),
  \<open>committed\<close> is what survives a rollback. \<open>uuid4().hex\<close> and \<open>datetime.now(utc)\<close> are
  read from two streams with a position each, so each call sees its own value.

  A service function that talks to the session is an \<open>'a op\<close>: it takes the session and
  returns its result or the exception it raised, with the session it left behind. An
  \<open>insert\<close> of a primary key that is present raises \<open>IntegrityError\<close> and rolls back, as
  the flush would.
\<close>

section \<open>Rows\<close>

record table_field =
  fld_id :: string
  fld_table :: string
  fld_name :: string
  fld_type :: string
  fld_options :: pyval
  fld_property :: pyval
  fld_order :: int

record table_record =
  rec_id :: string
  rec_table :: string
  rec_data :: dict
  rec_order :: int
  rec_creator :: "int option"
  rec_version :: int

record table_view =
  vw_id :: string
  vw_table :: string
  vw_name :: string
  vw_type :: string
  vw_config :: pyval

record table_filter =
  flt_id :: string
  flt_table :: string
  flt_field :: string
  flt_operator :: string
  flt_value :: pyval
  flt_logic :: string
  flt_order :: int

record table_sort =
  srt_id :: string
  srt_table :: string
  srt_field :: string
  srt_dir :: string
  srt_order :: int

record table_group =
  grp_id :: string
  grp_table :: string
  grp_field :: "string option"
  grp_dir :: string

record row_policy =
  pol_table :: string
  pol_mode :: string
  pol_field :: "string option"

record workspace_item =
  itm_id :: string
  itm_ws :: string
  itm_type :: string
  itm_name :: string
  itm_parent :: "string option"
  itm_order :: int
  itm_view :: "string option"

record item_permission =
  ip_item :: string
  ip_user :: int
  ip_level :: string

datatype workspace_role = Owner | Editor | Viewer

record workspace_member =
  mb_user :: int
  mb_ws :: string
  mb_role :: workspace_role

record user =
  usr_id :: int
  usr_name :: string
  usr_email :: string

record change_set =
  cs_id :: string
  cs_ws :: "string option"
  cs_table :: "string option"
  cs_actor_type :: string
  cs_actor :: "int option"
  cs_operation :: string
  cs_source :: "string option"
  cs_trace :: "string option"
  cs_summary :: string
  cs_status :: string
  cs_parent :: "string option"
  cs_undone_at :: "int option"
  cs_undone_by :: "int option"
  cs_created :: int

text \<open>
  The \<open>*_meta\<close> columns of a change item: the dictionary \<open>record_meta\<close> builds, or the
  \<open>{"purged": True}\<close> marker of a purge.
\<close>

datatype change_meta = RecordMeta int "int option" | PurgedMeta

record change_item =
  ci_id :: string
  ci_set :: string
  ci_table :: string
  ci_etype :: string
  ci_entity :: string
  ci_before :: "dict option"
  ci_after :: "dict option"
  ci_bmeta :: "change_meta option"
  ci_ameta :: "change_meta option"
  ci_vbefore :: "int option"
  ci_vafter :: "int option"
  ci_changed :: "string list"
  ci_order :: nat

record recycle_row =
  rb_id :: string
  rb_table :: string
  rb_record :: string
  rb_data :: dict
  rb_order :: int
  rb_creator :: "int option"
  rb_version :: int
  rb_deleted_by :: "int option"
  rb_deleted_at :: int
  rb_set :: "string option"
  rb_status :: string
  rb_restored_at :: "int option"
  rb_restored_by :: "int option"

record automation_rule =
  ar_id :: string
  ar_ws :: string
  ar_table :: string
  ar_name :: string
  ar_description :: "string option"
  ar_enabled :: bool
  ar_trigger :: dict
  ar_conditions :: dict
  ar_actions :: "dict list"
  ar_timezone :: string
  ar_max_retries :: int
  ar_version :: int
  ar_run_as :: "int option"
  ar_next_run :: "int option"
  ar_created_by :: "int option"
  ar_updated_by :: "int option"
  ar_created_at :: int
  ar_updated_at :: int
  ar_deleted_at :: "int option"

record automation_event =
  ev_id :: string
  ev_ws :: string
  ev_table :: string
  ev_record :: "string option"
  ev_source_item :: "string option"
  ev_target :: "string option"
  ev_type :: string
  ev_before :: "dict option"
  ev_after :: "dict option"
  ev_changed :: "string list"
  ev_actor :: "int option"
  ev_source :: "string option"
  ev_trace :: "string option"
  ev_root :: string
  ev_parent_exec :: "string option"
  ev_depth :: int
  ev_status :: string
  ev_available_at :: int
  ev_error_code :: "string option"
  ev_error_message :: "string option"
  ev_created_at :: int
  ev_processed_at :: "int option"

text \<open>One entry of \<open>action_results\<close>: \<open>detail\<close> holds the keys the action itself returned.\<close>

record action_result =
  ax_index :: nat
  ax_type :: string
  ax_status :: string
  ax_error_code :: "string option"
  ax_error_message :: "string option"
  ax_detail :: dict

record automation_execution =
  ex_id :: string
  ex_rule :: string
  ex_rule_version :: int
  ex_event :: string
  ex_root :: string
  ex_parent :: "string option"
  ex_record :: "string option"
  ex_depth :: int
  ex_status :: string
  ex_trace :: string
  ex_attempt :: int
  ex_results :: "action_result list"
  ex_change_sets :: "string list"
  ex_error_code :: "string option"
  ex_error_message :: "string option"
  ex_next_retry :: "int option"
  ex_started_at :: "int option"
  ex_finished_at :: "int option"
  ex_created_at :: int
  ex_updated_at :: int

record notification =
  nt_id :: string
  nt_recipient :: int
  nt_type :: string
  nt_actor :: "int option"
  nt_ws :: "string option"
  nt_table :: "string option"
  nt_record :: "string option"
  nt_comment :: "string option"
  nt_event :: string
  nt_dedupe :: string
  nt_payload :: dict
  nt_created :: int
  nt_read :: "int option"

record comment =
  cm_id :: string
  cm_ws :: string
  cm_table :: string
  cm_record :: string
  cm_author :: "int option"
  cm_parent :: "string option"
  cm_body :: string
  cm_format :: string
  cm_client :: "string option"
  cm_revision :: int
  cm_created :: int
  cm_updated :: int
  cm_deleted :: "int option"

record mention =
  mn_id :: string
  mn_comment :: string
  mn_user :: int
  mn_created :: int

record task_profile =
  tpf_table :: string
  tpf_config :: dict
  tpf_version :: int
  tpf_user :: "int option"

record workspace =
  wsp_id :: string
  wsp_name :: "string option"

record dashboard =
  dsh_id :: string
  dsh_ws :: string
  dsh_description :: "string option"
  dsh_public :: bool
  dsh_token :: "string option"

record dashboard_widget =
  wdg_id :: string
  wdg_dashboard :: string
  wdg_type :: string
  wdg_title :: "string option"
  wdg_scheme :: pyval
  wdg_layout :: pyval
  wdg_config :: pyval
  wdg_order :: int
  wdg_created :: int

section \<open>Tables and sessions\<close>

record tables =
  t_fields :: "table_field list"
  t_records :: "table_record list"
  t_views :: "table_view list"
  t_filters :: "table_filter list"
  t_sorts :: "table_sort list"
  t_groups :: "table_group list"
  t_policies :: "row_policy list"
  t_items :: "workspace_item list"
  t_perms :: "item_permission list"
  t_members :: "workspace_member list"
  t_users :: "user list"
  t_sets :: "change_set list"
  t_changes :: "change_item list"
  t_recycle :: "recycle_row list"
  t_rules :: "automation_rule list"
  t_events :: "automation_event list"
  t_execs :: "automation_execution list"
  t_notes :: "notification list"
  t_workspaces :: "workspace list"
  t_dashboards :: "dashboard list"
  t_widgets :: "dashboard_widget list"
  t_comments :: "comment list"
  t_mentions :: "mention list"
  t_profiles :: "task_profile list"

definition empty_tables :: tables where
  "empty_tables = \<lparr>t_fields = [], t_records = [], t_views = [], t_filters = [], t_sorts = [],
     t_groups = [], t_policies = [], t_items = [], t_perms = [], t_members = [], t_users = [],
     t_sets = [], t_changes = [], t_recycle = [], t_rules = [], t_events = [], t_execs = [],
     t_notes = [], t_workspaces = [], t_dashboards = [], t_widgets = [],
     t_comments = [], t_mentions = [], t_profiles = []\<rparr>"

record session =
  work :: tables
  committed :: tables
  uuids :: "nat \<Rightarrow> string"
  uuid_pos :: nat
  clock :: "nat \<Rightarrow> int"
  clock_pos :: nat

type_synonym 'a op = "session \<Rightarrow> 'a res \<times> session"

section \<open>Operations and how they compose\<close>

definition ret :: "'a \<Rightarrow> 'a op" where
  "ret x = (\<lambda>s. (Inr x, s))"

definition throw :: "exn \<Rightarrow> 'a op" where
  "throw e = (\<lambda>s. (Inl e, s))"

definition bind_op :: "'a op \<Rightarrow> ('a \<Rightarrow> 'b op) \<Rightarrow> 'b op" where
  "bind_op m f = (\<lambda>s. case m s of (Inl e, s') \<Rightarrow> (Inl e, s') | (Inr x, s') \<Rightarrow> f x s')"

definition then_op :: "'a op \<Rightarrow> 'b op \<Rightarrow> 'b op" where
  "then_op m n = bind_op m (\<lambda>_. n)"

definition reads :: "(tables \<Rightarrow> 'a) \<Rightarrow> 'a op" where
  "reads q = (\<lambda>s. (Inr (q (work s)), s))"

definition writes :: "(tables \<Rightarrow> tables) \<Rightarrow> unit op" where
  "writes f = (\<lambda>s. (Inr (), s\<lparr>work := f (work s)\<rparr>))"

definition of_res :: "'a res \<Rightarrow> 'a op" where
  "of_res r = (\<lambda>s. (r, s))"

definition throw_if :: "bool \<Rightarrow> exn \<Rightarrow> unit op" where
  "throw_if b e = (if b then throw e else ret ())"

fun map_op :: "('a \<Rightarrow> 'b op) \<Rightarrow> 'a list \<Rightarrow> 'b list op" where
  "map_op f [] = ret []"
| "map_op f (x # xs) = bind_op (f x) (\<lambda>y. bind_op (map_op f xs) (\<lambda>ys. ret (y # ys)))"

text \<open>\<open>try: m except Exception as exc: h exc\<close>.\<close>

definition catch :: "'a op \<Rightarrow> (exn \<Rightarrow> 'a op) \<Rightarrow> 'a op" where
  "catch m h = (\<lambda>s. case m s of (Inl e, s') \<Rightarrow> h e s' | (Inr x, s') \<Rightarrow> (Inr x, s'))"

definition commit :: "unit op" where
  "commit = (\<lambda>s. (Inr (), s\<lparr>committed := work s\<rparr>))"

definition rollback :: "unit op" where
  "rollback = (\<lambda>s. (Inr (), s\<lparr>work := committed s\<rparr>))"

text \<open>\<open>uuid.uuid4().hex\<close> and \<open>datetime.now(timezone.utc)\<close> (microseconds).\<close>

definition uuid_hex :: "string op" where
  "uuid_hex = (\<lambda>s. (Inr (uuids s (uuid_pos s)), s\<lparr>uuid_pos := Suc (uuid_pos s)\<rparr>))"

definition utcnow :: "int op" where
  "utcnow = (\<lambda>s. (Inr (clock s (clock_pos s)), s\<lparr>clock_pos := Suc (clock_pos s)\<rparr>))"

definition new_id :: "string \<Rightarrow> string op" where
  "new_id prefix = bind_op uuid_hex (\<lambda>h. ret (prefix @ ''_'' @ h))"

text \<open>\<open>db.add(row)\<close> with its flush: a primary key that is present is refused.\<close>

definition insert_row ::
  "(tables \<Rightarrow> 'r list) \<Rightarrow> (('r list \<Rightarrow> 'r list) \<Rightarrow> tables \<Rightarrow> tables) \<Rightarrow> ('r \<Rightarrow> 'k) \<Rightarrow> 'r \<Rightarrow> unit op" where
  "insert_row get upd key r = (\<lambda>s.
     if key r \<in> key ` set (get (work s))
     then (Inl (Exn IntegrityError ''UNIQUE constraint failed''), s\<lparr>work := committed s\<rparr>)
     else (Inr (), s\<lparr>work := upd (\<lambda>rs. rs @ [r]) (work s)\<rparr>))"

text \<open>Assigning attributes of the loaded rows that match, and deleting rows.\<close>

definition update_rows ::
  "(('r list \<Rightarrow> 'r list) \<Rightarrow> tables \<Rightarrow> tables) \<Rightarrow> ('r \<Rightarrow> bool) \<Rightarrow> ('r \<Rightarrow> 'r) \<Rightarrow> unit op" where
  "update_rows upd P f = writes (upd (map (\<lambda>r. if P r then f r else r)))"

definition delete_rows ::
  "(('r list \<Rightarrow> 'r list) \<Rightarrow> tables \<Rightarrow> tables) \<Rightarrow> ('r \<Rightarrow> bool) \<Rightarrow> unit op" where
  "delete_rows upd P = writes (upd (filter (\<lambda>r. \<not> P r)))"

text \<open>\<open>select(...).where(P)\<close> and its \<open>.first()\<close>.\<close>

definition select :: "(tables \<Rightarrow> 'r list) \<Rightarrow> ('r \<Rightarrow> bool) \<Rightarrow> tables \<Rightarrow> 'r list" where
  "select get P t = filter P (get t)"

definition select_first :: "(tables \<Rightarrow> 'r list) \<Rightarrow> ('r \<Rightarrow> bool) \<Rightarrow> tables \<Rightarrow> 'r option" where
  "select_first get P t = find P (get t)"

text \<open>The primary keys.\<close>

definition fld_key :: "table_field \<Rightarrow> string \<times> string" where
  "fld_key f = (fld_id f, fld_table f)"

definition rec_key :: "table_record \<Rightarrow> string \<times> string" where
  "rec_key r = (rec_id r, rec_table r)"

definition vw_key :: "table_view \<Rightarrow> string \<times> string" where
  "vw_key v = (vw_id v, vw_table v)"

definition flt_key :: "table_filter \<Rightarrow> string \<times> string" where
  "flt_key f = (flt_id f, flt_table f)"

definition srt_key :: "table_sort \<Rightarrow> string \<times> string" where
  "srt_key x = (srt_id x, srt_table x)"

definition grp_key :: "table_group \<Rightarrow> string \<times> string" where
  "grp_key g = (grp_id g, grp_table g)"

definition mb_key :: "workspace_member \<Rightarrow> int \<times> string" where
  "mb_key m = (mb_user m, mb_ws m)"

definition ip_key :: "item_permission \<Rightarrow> string \<times> int" where
  "ip_key p = (ip_item p, ip_user p)"

text \<open>Every table has pairwise different primary keys.\<close>

definition keys_ok :: "tables \<Rightarrow> bool" where
  "keys_ok t \<longleftrightarrow>
     distinct (map fld_key (t_fields t)) \<and> distinct (map rec_key (t_records t)) \<and>
     distinct (map vw_key (t_views t)) \<and> distinct (map flt_key (t_filters t)) \<and>
     distinct (map srt_key (t_sorts t)) \<and> distinct (map grp_key (t_groups t)) \<and>
     distinct (map pol_table (t_policies t)) \<and> distinct (map itm_id (t_items t)) \<and>
     distinct (map ip_key (t_perms t)) \<and> distinct (map mb_key (t_members t)) \<and>
     distinct (map usr_id (t_users t)) \<and> distinct (map cs_id (t_sets t)) \<and>
     distinct (map ci_id (t_changes t)) \<and> distinct (map rb_id (t_recycle t)) \<and>
     distinct (map ar_id (t_rules t)) \<and> distinct (map ev_id (t_events t)) \<and>
     distinct (map ex_id (t_execs t)) \<and> distinct (map nt_id (t_notes t)) \<and>
     distinct (map wsp_id (t_workspaces t)) \<and> distinct (map dsh_id (t_dashboards t)) \<and>
     distinct (map wdg_id (t_widgets t)) \<and> distinct (map cm_id (t_comments t)) \<and>
     distinct (map mn_id (t_mentions t)) \<and> distinct (map tpf_table (t_profiles t))"

text \<open>A session on given tables, with the decimal numerals as its identifiers.\<close>

definition session_of :: "tables \<Rightarrow> session" where
  "session_of t = \<lparr>work = t, committed = t, uuids = (\<lambda>n. dec_nat n), uuid_pos = 0, clock = int, clock_pos = 0\<rparr>"

lemma work_session_of [simp]: "work (session_of t) = t"
  by (simp add: session_of_def)

end
