(* ===== verification/Permissions.thy ===== *)
theory Permissions
  imports Session
begin

text \<open>
  \<open>src/app/services/workspace/permissions.py\<close>: the four permission levels, the level a
  workspace role gives, and the two ways the code resolves a user's level on a workspace
  item. \<open>get_effective_permission_for_item\<close> walks the parents of one item (with a set of
  visited ids, so it stops on a cycle); \<open>resolve_permission_for_item\<close> is the memoised
  recursion the workspace listing uses for all items at once (it has no such guard, so it
  is a partial function: \<open>None\<close> is a call that does not return).
\<close>

section \<open>Levels\<close>

definition permission_order :: "string \<Rightarrow> int option" where
  "permission_order p =
     (if p = ''read'' then Some 0 else if p = ''update'' then Some 1
      else if p = ''edit'' then Some 2 else if p = ''manage'' then Some 3 else None)"

definition normalize_permission :: "string \<Rightarrow> string" where
  "normalize_permission p = (if permission_order p \<noteq> None then p else ''read'')"

definition permission_allows :: "string option \<Rightarrow> string \<Rightarrow> bool" where
  "permission_allows current required =
     (case current of
        None \<Rightarrow> False
      | Some c \<Rightarrow>
          if c = [] then False
          else (case permission_order c of None \<Rightarrow> - 1 | Some n \<Rightarrow> n)
             \<ge> (case permission_order required of None \<Rightarrow> 0 | Some n \<Rightarrow> n))"

fun role_permission :: "workspace_role \<Rightarrow> string" where
  "role_permission Owner = ''manage''"
| "role_permission Editor = ''edit''"
| "role_permission Viewer = ''read''"

section \<open>Membership and overrides\<close>

definition get_workspace_member :: "tables \<Rightarrow> int \<Rightarrow> string \<Rightarrow> workspace_member option" where
  "get_workspace_member t user_id ws =
     select_first t_members (\<lambda>m. mb_user m = user_id \<and> mb_ws m = ws) t"

definition get_user_permission_overrides :: "tables \<Rightarrow> string \<Rightarrow> int \<Rightarrow> (string \<rightharpoonup> string)" where
  "get_user_permission_overrides t ws user_id =
     map_of (rev (map (\<lambda>p. (ip_item p, normalize_permission (ip_level p)))
       (select t_perms (\<lambda>p. ip_user p = user_id \<and>
          (\<exists>i\<in>set (t_items t). itm_id i = ip_item p \<and> itm_ws i = ws)) t)))"

partial_function (option) resolve_permission_for_item ::
  "string \<Rightarrow> (string \<Rightarrow> string option) \<Rightarrow> (string \<rightharpoonup> string) \<Rightarrow> string \<Rightarrow> (string \<rightharpoonup> string)
   \<Rightarrow> (string \<times> (string \<rightharpoonup> string)) option" where
  "resolve_permission_for_item item_id parent_map overrides fallback memo =
     (case memo item_id of
        Some p \<Rightarrow> Some (p, memo)
      | None \<Rightarrow>
          (case overrides item_id of
             Some p \<Rightarrow> Some (p, memo(item_id \<mapsto> p))
           | None \<Rightarrow>
               (case parent_map item_id of
                  None \<Rightarrow> Some (fallback, memo(item_id \<mapsto> fallback))
                | Some parent \<Rightarrow>
                    if parent = [] then Some (fallback, memo(item_id \<mapsto> fallback))
                    else Option.bind
                      (resolve_permission_for_item parent parent_map overrides fallback memo)
                      (\<lambda>(p, memo'). Some (p, memo'(item_id \<mapsto> p))))))"

text \<open>The comprehension of the workspace listing over its items, with one memo for all of them.\<close>

fun resolve_all :: "(string \<Rightarrow> string option) \<Rightarrow> (string \<rightharpoonup> string) \<Rightarrow> string \<Rightarrow> string list \<Rightarrow> (string \<rightharpoonup> string)
    \<Rightarrow> (string \<times> string) list option" where
  "resolve_all pm ov fb [] memo = Some []"
| "resolve_all pm ov fb (i # is) memo =
     Option.bind (resolve_permission_for_item i pm ov fb memo) (\<lambda>(p, memo').
     Option.bind (resolve_all pm ov fb is memo') (\<lambda>ps. Some ((i, p) # ps)))"

text \<open>The \<open>while\<close> loop that collects an item's ancestors, the item itself first.\<close>

function item_chain :: "workspace_item list \<Rightarrow> string list \<Rightarrow> workspace_item option \<Rightarrow> string list" where
  "item_chain items seen None = []"
| "item_chain items seen (Some cur) =
     (if itm_id cur \<in> set seen then []
      else itm_id cur #
        (case itm_parent cur of
           None \<Rightarrow> []
         | Some p \<Rightarrow>
             if p = [] then []
             else item_chain items (itm_id cur # seen) (find (\<lambda>i. itm_id i = p) items)))"
  by pat_completeness auto
termination
proof (relation "measure (\<lambda>(items, seen, cur). case cur of None \<Rightarrow> 0
    | Some c \<Rightarrow> card (insert (itm_id c) (itm_id ` set items) - set seen))", goal_cases)
  case 1
  then show ?case by simp
next
  case (2 items seen cur p)
  show ?case
  proof (cases "find (\<lambda>i. itm_id i = p) items")
    case None
    have "card (insert (itm_id cur) (itm_id ` set items) - set seen) > 0"
      using 2 by (subst card_gt_0_iff) auto
    then show ?thesis using None by simp
  next
    case (Some nxt)
    then have "itm_id nxt \<in> itm_id ` set items"
      by (auto simp: find_Some_iff)
    then have "insert (itm_id nxt) (itm_id ` set items) - set (itm_id cur # seen)
        \<subset> insert (itm_id cur) (itm_id ` set items) - set seen"
      using 2 by auto
    then show ?thesis using Some by (simp add: psubset_card_mono)
  qed
qed

fun first_override :: "(string \<rightharpoonup> string) \<Rightarrow> string list \<Rightarrow> string option" where
  "first_override ov [] = None"
| "first_override ov (c # cs) = (case ov c of Some p \<Rightarrow> Some p | None \<Rightarrow> first_override ov cs)"

definition chain_overrides :: "tables \<Rightarrow> int \<Rightarrow> string list \<Rightarrow> (string \<rightharpoonup> string)" where
  "chain_overrides t user_id chain =
     map_of (rev (map (\<lambda>p. (ip_item p, normalize_permission (ip_level p)))
       (select t_perms (\<lambda>p. ip_user p = user_id \<and> ip_item p \<in> set chain) t)))"

definition get_effective_permission_for_item :: "tables \<Rightarrow> int \<Rightarrow> string \<Rightarrow> string option" where
  "get_effective_permission_for_item t user_id item_id =
     (case select_first t_items (\<lambda>i. itm_id i = item_id) t of
        None \<Rightarrow> None
      | Some item \<Rightarrow>
          (case get_workspace_member t user_id (itm_ws item) of
             None \<Rightarrow> None
           | Some member \<Rightarrow>
               let chain = item_chain (t_items t) [] (Some item);
                   ov = chain_overrides t user_id chain
               in (case first_override ov chain of
                     Some p \<Rightarrow> Some p
                   | None \<Rightarrow> Some (role_permission (mb_role member)))))"

section \<open>Lemmas\<close>

lemma permission_order_range: "permission_order p = Some n \<Longrightarrow> 0 \<le> n \<and> n \<le> 3"
  by (auto simp: permission_order_def split: if_splits)

lemma permission_order_names [simp]:
  "permission_order ''read'' = Some 0" "permission_order ''update'' = Some 1"
  "permission_order ''edit'' = Some 2" "permission_order ''manage'' = Some 3"
  "permission_order [] = None"
  by (simp_all add: permission_order_def)

lemma allows_None [simp]: "\<not> permission_allows None r"
  by (simp add: permission_allows_def)

lemma allows_manage_iff: "permission_allows (Some c) ''manage'' \<longleftrightarrow> c = ''manage''"
  by (auto simp: permission_allows_def permission_order_def)

lemma allows_read_iff: "permission_allows (Some c) ''read'' \<longleftrightarrow> permission_order c \<noteq> None"
  by (auto simp: permission_allows_def permission_order_def)

lemma normalize_permission_known [simp]:
  "\<exists>n. permission_order (normalize_permission p) = Some n"
  by (auto simp: normalize_permission_def)

lemma role_permission_known [simp]: "\<exists>n. permission_order (role_permission r) = Some n"
  by (cases r) auto

lemma chain_overrides_known:
  "chain_overrides t u ch c = Some p \<Longrightarrow> permission_order p \<noteq> None"
  by (auto simp: chain_overrides_def normalize_permission_known dest!: map_of_SomeD)

lemma first_override_find:
  "first_override ov cs = Option.bind (find (\<lambda>c. ov c \<noteq> None) cs) ov"
  by (induction cs) (auto split: option.splits)

lemma first_override_Some_iff:
  "first_override ov cs = Some p \<longleftrightarrow>
     (\<exists>i<length cs. ov (cs ! i) = Some p \<and> (\<forall>j<i. ov (cs ! j) = None))"
  by (auto simp: first_override_find bind_eq_Some_conv find_Some_iff)

lemma first_override_None_iff: "first_override ov cs = None \<longleftrightarrow> (\<forall>c\<in>set cs. ov c = None)"
  by (induction cs) (auto split: option.splits)

lemma item_chain_distinct: "distinct (item_chain items seen cur) \<and> set (item_chain items seen cur) \<inter> set seen = {}"
  by (induction items seen cur rule: item_chain.induct) (auto split: option.splits)

lemma item_chain_hd: "itm_id item \<notin> set seen \<Longrightarrow> item_chain items seen (Some item) \<noteq> []
    \<and> hd (item_chain items seen (Some item)) = itm_id item"
  by simp

section \<open>The memoised recursion\<close>

lemma permission_allows_trans: "permission_allows c r \<Longrightarrow> permission_allows (Some r) r' \<Longrightarrow> permission_allows c r'"
  by (auto simp: permission_allows_def dest: permission_order_range split: option.splits if_splits)

lemma resolve_diverges:
  assumes closed: "\<And>c. c \<in> C \<Longrightarrow> ov c = None \<and> (\<exists>p\<in>C. pm c = Some p \<and> p \<noteq> [])"
    and "i \<in> C" "\<forall>c\<in>C. memo c = None"
  shows "resolve_permission_for_item i pm ov fb memo = None"
proof (rule ccontr)
  assume "resolve_permission_for_item i pm ov fb memo \<noteq> None"
  then obtain y where y: "resolve_permission_for_item i pm ov fb memo = Some y" by auto
  have "\<not> (pm = pm \<and> ov = ov \<and> i \<in> C \<and> (\<forall>c\<in>C. memo c = None))"
  proof (rule resolve_permission_for_item.raw_induct[where
      P = "\<lambda>i pm' ov' fb memo y. \<not> (pm' = pm \<and> ov' = ov \<and> i \<in> C \<and> (\<forall>c\<in>C. memo c = None))", OF _ y], goal_cases)
    case (1 f i pm' ov' fb memo y)
    show ?case
    proof
      assume h: "pm' = pm \<and> ov' = ov \<and> i \<in> C \<and> (\<forall>c\<in>C. memo c = None)"
      then obtain p where "p \<in> C" "pm i = Some p" "p \<noteq> []" "ov i = None" "memo i = None"
        using closed by blast
      with h 1(2) obtain z where "f p pm ov fb memo = Some z"
        by (auto simp: bind_eq_Some_conv)
      from 1(1)[OF this] \<open>p \<in> C\<close> h show False by blast
    qed
  qed
  with assms(2,3) show False by blast
qed

definition item_parent :: "workspace_item list \<Rightarrow> string \<Rightarrow> string option" where
  "item_parent items i = Option.bind (find (\<lambda>x. itm_id x = i) items) itm_parent"

inductive rooted :: "(string \<Rightarrow> string option) \<Rightarrow> string \<Rightarrow> bool" for pm where
  root: "pm i = None \<or> pm i = Some [] \<Longrightarrow> rooted pm i"
| up: "pm i = Some p \<Longrightarrow> p \<noteq> [] \<Longrightarrow> rooted pm p \<Longrightarrow> rooted pm i"

lemma resolve_returns:
  "rooted pm i \<Longrightarrow> \<exists>p memo'. resolve_permission_for_item i pm ov fb memo = Some (p, memo')"
proof (induction rule: rooted.induct)
  case (root i)
  then show ?case by (subst resolve_permission_for_item.simps) (auto split: option.splits)
next
  case (up i p)
  then show ?case by (subst resolve_permission_for_item.simps) (auto split: option.splits)
qed


inductive level_at :: "(string \<Rightarrow> string option) \<Rightarrow> (string \<rightharpoonup> string) \<Rightarrow> string \<Rightarrow> string \<Rightarrow> string \<Rightarrow> nat \<Rightarrow> bool"
  for pm ov fb where
  here: "ov i = Some p \<Longrightarrow> level_at pm ov fb i p 0"
| top: "ov i = None \<Longrightarrow> pm i = None \<or> pm i = Some [] \<Longrightarrow> level_at pm ov fb i fb 0"
| inherit: "ov i = None \<Longrightarrow> pm i = Some q \<Longrightarrow> q \<noteq> [] \<Longrightarrow> level_at pm ov fb q p n
    \<Longrightarrow> level_at pm ov fb i p (Suc n)"

inductive_cases level_at_Suc: "level_at pm ov fb i p (Suc n)"

lemma level_at_unique: "level_at pm ov fb i p n \<Longrightarrow> level_at pm ov fb i q m \<Longrightarrow> p = q \<and> n = m"
proof (induction arbitrary: q m rule: level_at.induct)
  case (here i p)
  from here(2,1) show ?case by cases auto
next
  case (top i)
  from top(3,1,2) show ?case by cases auto
next
  case (inherit i r p n)
  from inherit(6) show ?case
  proof cases
    case (inherit r' n')
    then show ?thesis using inherit.hyps inherit.IH by auto
  qed (use inherit.hyps in auto)
qed

definition level_of :: "(string \<Rightarrow> string option) \<Rightarrow> (string \<rightharpoonup> string) \<Rightarrow> string \<Rightarrow> string \<Rightarrow> string \<Rightarrow> bool" where
  "level_of pm ov fb i p \<longleftrightarrow> (\<exists>n. level_at pm ov fb i p n)"

lemma level_of_intros:
  "ov i = Some p \<Longrightarrow> level_of pm ov fb i p"
  "ov i = None \<Longrightarrow> pm i = None \<or> pm i = Some [] \<Longrightarrow> level_of pm ov fb i fb"
  "ov i = None \<Longrightarrow> pm i = Some q \<Longrightarrow> q \<noteq> [] \<Longrightarrow> level_of pm ov fb q p \<Longrightarrow> level_of pm ov fb i p"
  unfolding level_of_def by (blast intro: level_at.intros)+

lemma resolve_sound:
  assumes "resolve_permission_for_item i pm ov fb memo = Some y"
    and "\<forall>k p. memo k = Some p \<longrightarrow> level_of pm ov fb k p"
  shows "level_of pm ov fb i (fst y) \<and> (\<forall>k p. snd y k = Some p \<longrightarrow> level_of pm ov fb k p)"
proof -
  have "(\<forall>k p. memo k = Some p \<longrightarrow> level_of pm ov fb k p) \<longrightarrow>
     level_of pm ov fb i (fst y) \<and> (\<forall>k p. snd y k = Some p \<longrightarrow> level_of pm ov fb k p)"
  proof (rule resolve_permission_for_item.raw_induct[where
      P = "\<lambda>i pm ov fb memo y. (\<forall>k p. memo k = Some p \<longrightarrow> level_of pm ov fb k p) \<longrightarrow>
     level_of pm ov fb i (fst y) \<and> (\<forall>k p. snd y k = Some p \<longrightarrow> level_of pm ov fb k p)", OF _ assms(1)], goal_cases)
    case (1 f i pm ov fb memo y)
    show ?case
    proof
      assume m: "\<forall>k p. memo k = Some p \<longrightarrow> level_of pm ov fb k p"
      from 1(2) m show "level_of pm ov fb i (fst y) \<and> (\<forall>k p. snd y k = Some p \<longrightarrow> level_of pm ov fb k p)"
        by (auto simp: bind_eq_Some_conv split: option.splits if_splits
            intro: level_of_intros dest!: 1(1))
    qed
  qed
  with assms(2) show ?thesis by blast
qed

lemma chain_level:
  assumes "level_at pm ov fb i p n" "i = itm_id cur" "cur \<in> set items" "W cur"
    and "\<forall>s\<in>set seen. \<forall>q m. level_at pm ov fb s q m \<longrightarrow> n < m"
    and pm: "\<And>x. x \<in> set items \<Longrightarrow> W x \<Longrightarrow> pm (itm_id x) = itm_parent x"
    and closed: "\<And>x y. x \<in> set items \<Longrightarrow> W x \<Longrightarrow> y \<in> set items \<Longrightarrow>
        itm_parent x = Some (itm_id y) \<Longrightarrow> W y"
    and missing: "\<And>q. find (\<lambda>x. itm_id x = q) items = None \<Longrightarrow> ov q = None \<and> pm q = None"
  shows "(case first_override ov (item_chain items seen (Some cur)) of Some p' \<Rightarrow> p' | None \<Rightarrow> fb) = p"
  using assms(1-5)
proof (induction arbitrary: cur seen rule: level_at.induct)
  case (here i p)
  then have "itm_id cur \<notin> set seen" by (metis level_at.here less_irrefl)
  with here show ?case by simp
next
  case (top i)
  then have "itm_id cur \<notin> set seen" by (metis level_at.top less_irrefl)
  with top pm[of cur] show ?case by (auto split: option.splits)
next
  case (inherit i q p n)
  then have l: "level_at pm ov fb i p (Suc n)" by (auto intro: level_at.inherit)
  then have "itm_id cur \<notin> set seen" using inherit.prems by blast
  have parent: "itm_parent cur = Some q" using pm[of cur] inherit by simp
  show ?case
  proof (cases "find (\<lambda>x. itm_id x = q) items")
    case None
    then have "ov q = None" "pm q = None" using missing by auto
    with inherit.hyps(4) have "p = fb" by cases auto
    with None parent \<open>itm_id cur \<notin> set seen\<close> inherit show ?thesis by simp
  next
    case (Some y)
    then have y: "y \<in> set items" "itm_id y = q" by (auto simp: find_Some_iff)
    with closed[of cur y] inherit parent have "W y" by simp
    moreover have "\<forall>s\<in>set (i # seen). \<forall>r m. level_at pm ov fb s r m \<longrightarrow> n < m"
      using inherit.prems(4) level_at_unique[OF l] by fastforce
    ultimately have "(case first_override ov (item_chain items (i # seen) (Some y)) of
        Some p' \<Rightarrow> p' | None \<Rightarrow> fb) = p"
      using inherit.IH[of y "i # seen"] y by simp
    with Some parent \<open>itm_id cur \<notin> set seen\<close> inherit show ?thesis by simp
  qed
qed

lemma item_chain_ws:
  assumes "c \<in> set (item_chain items seen cur)"
    and "\<And>x. cur = Some x \<Longrightarrow> x \<in> set items \<and> itm_ws x = ws"
    and "\<forall>x\<in>set items. \<forall>y\<in>set items. itm_ws x = ws \<longrightarrow> itm_parent x = Some (itm_id y) \<longrightarrow> itm_ws y = ws"
  shows "\<exists>x\<in>set items. itm_id x = c \<and> itm_ws x = ws"
  using assms
proof (induction items seen cur rule: item_chain.induct)
  case (1 items seen)
  then show ?case by simp
next
  case (2 items seen cur)
  have cur: "cur \<in> set items" "itm_ws cur = ws" using 2(3) by auto
  show ?case
  proof (cases "itm_id cur \<in> set seen \<or> c = itm_id cur")
    case True
    with 2(2) cur show ?thesis by (auto split: if_splits)
  next
    case False
    with 2(2) obtain p where p: "itm_parent cur = Some p" "p \<noteq> []"
      and c: "c \<in> set (item_chain items (itm_id cur # seen) (find (\<lambda>i. itm_id i = p) items))"
      by (cases "itm_parent cur") (auto split: if_splits)
    have "\<And>x. find (\<lambda>i. itm_id i = p) items = Some x \<Longrightarrow> x \<in> set items \<and> itm_ws x = ws"
    proof -
      fix x assume "find (\<lambda>i. itm_id i = p) items = Some x"
      then have "x \<in> set items" "itm_id x = p" by (auto simp: find_Some_iff)
      with 2(4) cur p(1) show "x \<in> set items \<and> itm_ws x = ws" by blast
    qed
    with 2(1)[OF _ p c _ 2(4)] False show ?thesis by blast
  qed
qed

lemma in_item_chain:
  "c \<in> set (item_chain items seen cur) \<Longrightarrow> (\<exists>x. cur = Some x \<and> itm_id x = c) \<or> c \<in> itm_id ` set items"
proof (induction items seen cur rule: item_chain.induct)
  case (2 items seen cur)
  show ?case
  proof (cases "c = itm_id cur")
    case False
    with 2(2) obtain p where p: "itm_parent cur = Some p" "p \<noteq> []" "itm_id cur \<notin> set seen"
      and c: "c \<in> set (item_chain items (itm_id cur # seen) (find (\<lambda>i. itm_id i = p) items))"
      by (cases "itm_parent cur") (auto split: if_splits)
    from 2(1)[OF p(3) p(1,2) c] show ?thesis by (auto simp: find_Some_iff)
  qed simp
qed simp

lemma map_of_rev_filter_cong:
  "(\<And>p. p \<in> set xs \<Longrightarrow> k p = c \<Longrightarrow> P p = Q p) \<Longrightarrow>
   map_of (rev (map (\<lambda>p. (k p, v p)) (filter P xs))) c = map_of (rev (map (\<lambda>p. (k p, v p)) (filter Q xs))) c"
proof (induction xs)
  case (Cons a xs)
  then show ?case by (cases "k a = c") (auto simp: map_add_def split: option.splits)
qed simp

lemma first_override_cong: "(\<And>c. c \<in> set cs \<Longrightarrow> ov c = ov' c) \<Longrightarrow> first_override ov cs = first_override ov' cs"
  by (induction cs) (auto split: option.splits)

definition workspace_parent_map :: "tables \<Rightarrow> string \<Rightarrow> string \<Rightarrow> string option" where
  "workspace_parent_map t ws = item_parent (select t_items (\<lambda>i. itm_ws i = ws) t)"

definition parents_in_workspace :: "tables \<Rightarrow> bool" where
  "parents_in_workspace t \<longleftrightarrow> (\<forall>x\<in>set (t_items t). \<forall>y\<in>set (t_items t).
     itm_parent x = Some (itm_id y) \<longrightarrow> itm_ws y = itm_ws x)"

lemma level_effective:
  assumes keys: "distinct (map itm_id (t_items t))" and cl: "parents_in_workspace t"
    and item: "item \<in> set (t_items t)" and m: "get_workspace_member t u (itm_ws item) = Some m"
    and l: "level_of (workspace_parent_map t (itm_ws item)) (get_user_permission_overrides t (itm_ws item) u)
       (role_permission (mb_role m)) (itm_id item) p"
  shows "get_effective_permission_for_item t u (itm_id item) = Some p"
proof -
  let ?ws = "itm_ws item" and ?ov = "get_user_permission_overrides t (itm_ws item) u"
  let ?pm = "workspace_parent_map t (itm_ws item)" and ?fb = "role_permission (mb_role m)"
  let ?chain = "item_chain (t_items t) [] (Some item)"
  have f: "find (\<lambda>i. itm_id i = itm_id item) (t_items t) = Some item"
    using find_distinct_key[OF keys item] .
  have closed: "\<And>x y. x \<in> set (t_items t) \<Longrightarrow> itm_ws x = ?ws \<Longrightarrow> y \<in> set (t_items t) \<Longrightarrow>
        itm_parent x = Some (itm_id y) \<Longrightarrow> itm_ws y = ?ws"
    using cl unfolding parents_in_workspace_def by metis
  have pm: "\<And>x. x \<in> set (t_items t) \<Longrightarrow> itm_ws x = ?ws \<Longrightarrow> ?pm (itm_id x) = itm_parent x"
    using find_distinct_key[OF distinct_map_filterI[OF keys]]
    by (simp add: workspace_parent_map_def item_parent_def select_def)
  have missing: "\<And>q. find (\<lambda>x. itm_id x = q) (t_items t) = None \<Longrightarrow> ?ov q = None \<and> ?pm q = None"
    by (auto simp: find_None_iff get_user_permission_overrides_def workspace_parent_map_def
        item_parent_def select_def map_of_eq_None_iff bind_eq_None_conv)
  from l obtain n where "level_at ?pm ?ov ?fb (itm_id item) p n"
    by (auto simp: level_of_def)
  then have "(case first_override ?ov ?chain of Some p' \<Rightarrow> p' | None \<Rightarrow> ?fb) = p"
    by (rule chain_level[where W = "\<lambda>x. itm_ws x = ?ws", OF _ refl item refl _ pm closed missing]) auto
  moreover have "first_override ?ov ?chain = first_override (chain_overrides t u ?chain) ?chain"
  proof (rule first_override_cong)
    fix c assume c: "c \<in> set ?chain"
    have cl2: "\<forall>x\<in>set (t_items t). \<forall>y\<in>set (t_items t). itm_ws x = ?ws \<longrightarrow>
        itm_parent x = Some (itm_id y) \<longrightarrow> itm_ws y = ?ws" using closed by blast
    have "\<exists>x\<in>set (t_items t). itm_id x = c \<and> itm_ws x = ?ws"
      by (rule item_chain_ws[OF c _ cl2]) (use item in simp)
    then obtain x where "x \<in> set (t_items t)" "itm_id x = c" "itm_ws x = ?ws" by blast
    with c show "?ov c = chain_overrides t u ?chain c"
      unfolding get_user_permission_overrides_def chain_overrides_def select_def
      by (intro map_of_rev_filter_cong) auto
  qed
  ultimately show ?thesis
    using f m by (auto simp: get_effective_permission_for_item_def select_first_def Let_def split: option.splits)
qed

lemma resolve_all_sound:
  assumes "resolve_all pm ov fb xs memo = Some ps"
    and "\<forall>k p. memo k = Some p \<longrightarrow> level_of pm ov fb k p"
  shows "map fst ps = xs \<and> (\<forall>(i, p)\<in>set ps. level_of pm ov fb i p)"
  using assms
proof (induction xs arbitrary: memo ps)
  case (Cons i xs)
  from Cons.prems(1) obtain p memo' qs where
    r: "resolve_permission_for_item i pm ov fb memo = Some (p, memo')"
    and q: "resolve_all pm ov fb xs memo' = Some qs" and ps: "ps = (i, p) # qs"
    by (auto simp: bind_eq_Some_conv)
  from resolve_sound[OF r Cons.prems(2)] Cons.IH[OF q] ps show ?case by simp
qed simp

lemma resolve_all_returns:
  "\<forall>i\<in>set xs. rooted pm i \<Longrightarrow> \<exists>ps. resolve_all pm ov fb xs memo = Some ps"
proof (induction xs arbitrary: memo)
  case (Cons i xs)
  then obtain p memo' where "resolve_permission_for_item i pm ov fb memo = Some (p, memo')"
    using resolve_returns by fastforce
  with Cons.IH[of memo'] Cons.prems show ?case by auto
qed simp

text \<open>C39: the workspace listing resolves the items of a workspace one after the other with one shared memo. For a member of the workspace, every level this gives, whether it is computed for the item or read from the memo that the items before it have filled, is the level the per-item resolver gives for that item, and there is one for each item listed; it does not return only if the parents of some item do not lead to a root. Item ids are unique and parents stay inside their workspace.\<close>

theorem resolver_agrees:
  assumes keys: "distinct (map itm_id (t_items t))" and cl: "parents_in_workspace t"
    and items: "set xs \<subseteq> itm_id ` set (select t_items (\<lambda>i. itm_ws i = ws) t)"
    and m: "get_workspace_member t u ws = Some m"
  shows "(case resolve_all (workspace_parent_map t ws) (get_user_permission_overrides t ws u)
            (role_permission (mb_role m)) xs Map.empty of
      None \<Rightarrow> \<exists>i\<in>set xs. \<not> rooted (workspace_parent_map t ws) i
    | Some ps \<Rightarrow> map (\<lambda>(i, p). (i, Some p)) ps = map (\<lambda>i. (i, get_effective_permission_for_item t u i)) xs)"
proof (cases "resolve_all (workspace_parent_map t ws) (get_user_permission_overrides t ws u)
    (role_permission (mb_role m)) xs Map.empty")
  case None
  then have "\<not> (\<forall>i\<in>set xs. rooted (workspace_parent_map t ws) i)"
    using resolve_all_returns[of xs "workspace_parent_map t ws"] by (metis option.distinct(1))
  with None show ?thesis by simp
next
  case (Some ps)
  from resolve_all_sound[OF this] have f: "map fst ps = xs" and
    l: "\<And>i p. (i, p) \<in> set ps \<Longrightarrow> level_of (workspace_parent_map t ws)
       (get_user_permission_overrides t ws u) (role_permission (mb_role m)) i p" by auto
  have "get_effective_permission_for_item t u i = Some p" if "(i, p) \<in> set ps" for i p
  proof -
    from that f items have "i \<in> itm_id ` set (select t_items (\<lambda>i. itm_ws i = ws) t)" by force
    then obtain x where "x \<in> set (t_items t)" "itm_ws x = ws" "i = itm_id x" by (auto simp: select_def)
    with level_effective[OF keys cl, of x u m p] l[OF that] m show ?thesis by simp
  qed
  then have "map (\<lambda>(i, p). (i, Some p)) ps = map (\<lambda>i. (i, get_effective_permission_for_item t u i)) (map fst ps)"
    by auto
  with Some f show ?thesis by simp
qed

definition user_override :: "tables \<Rightarrow> int \<Rightarrow> string \<Rightarrow> string option" where
  "user_override t u c = (if c \<in> itm_id ` set (t_items t)
     then map_option (normalize_permission \<circ> ip_level) (find (\<lambda>p. ip_item p = c \<and> ip_user p = u) (t_perms t))
     else None)"

lemma map_of_map_find: "map_of (map (\<lambda>p. (k p, v p)) (filter P xs)) c = map_option v (find (\<lambda>p. k p = c \<and> P p) xs)"
  by (induction xs) auto

lemma chain_overrides_user:
  assumes "distinct (map ip_key (t_perms t))" "c \<in> set chain" "c \<in> itm_id ` set (t_items t)"
  shows "chain_overrides t u chain c = user_override t u c"
proof -
  have "inj_on ip_key (set (t_perms t))" "distinct (t_perms t)" using assms(1) by (auto simp: distinct_map)
  then have "distinct (map ip_item (filter (\<lambda>p. ip_user p = u \<and> ip_item p \<in> set chain) (t_perms t)))"
    by (auto simp: distinct_map inj_on_def ip_key_def)
  then have "map_of (rev (map (\<lambda>p. (ip_item p, normalize_permission (ip_level p)))
       (filter (\<lambda>p. ip_user p = u \<and> ip_item p \<in> set chain) (t_perms t))))
    = map_of (map (\<lambda>p. (ip_item p, normalize_permission (ip_level p)))
       (filter (\<lambda>p. ip_user p = u \<and> ip_item p \<in> set chain) (t_perms t)))"
    by (intro map_of_rev) (simp add: comp_def)
  moreover have "find (\<lambda>p. ip_item p = c \<and> ip_user p = u \<and> ip_item p \<in> set chain) (t_perms t)
      = find (\<lambda>p. ip_item p = c \<and> ip_user p = u) (t_perms t)"
    using assms(2) by (intro find_cong) auto
  ultimately show ?thesis
    using assms(3) by (simp add: chain_overrides_def select_def user_override_def map_of_map_find comp_def)
qed

lemma effective_chain:
  assumes keys: "distinct (map itm_id (t_items t))" "distinct (map ip_key (t_perms t))"
    and item: "item \<in> set (t_items t)" and m: "get_workspace_member t u (itm_ws item) = Some m"
  shows "get_effective_permission_for_item t u (itm_id item)
    = Some (case first_override (user_override t u) (item_chain (t_items t) [] (Some item)) of
        Some p \<Rightarrow> p | None \<Rightarrow> role_permission (mb_role m))"
proof -
  let ?chain = "item_chain (t_items t) [] (Some item)"
  have "c \<in> itm_id ` set (t_items t)" if "c \<in> set ?chain" for c
    using in_item_chain[OF that] item by auto
  then have "first_override (chain_overrides t u ?chain) ?chain = first_override (user_override t u) ?chain"
    using chain_overrides_user[OF keys(2)] by (intro first_override_cong) blast
  moreover have "find (\<lambda>i. itm_id i = itm_id item) (t_items t) = Some item"
    using find_distinct_key[OF keys(1) item] .
  ultimately show ?thesis
    using m by (auto simp: get_effective_permission_for_item_def select_first_def Let_def split: option.splits)
qed

text \<open>C38: for a member of the item's workspace the effective level is the level of the nearest override on the way from the item up to its root (normalised to one of the four levels), or the level of the member's role when there is none; a user without a membership row has no level on the item, and nobody has a level on an id that no item has.\<close>

theorem effective_permission_nearest:
  assumes "distinct (map itm_id (t_items t))" "distinct (map ip_key (t_perms t))"
  shows "(case find (\<lambda>x. itm_id x = i) (t_items t) of
      None \<Rightarrow> get_effective_permission_for_item t u i = None
    | Some item \<Rightarrow> (case get_workspace_member t u (itm_ws item) of
        None \<Rightarrow> get_effective_permission_for_item t u i = None
      | Some m \<Rightarrow> \<forall>p. level_of (item_parent (t_items t)) (user_override t u) (role_permission (mb_role m)) i p
          \<longrightarrow> get_effective_permission_for_item t u i = Some p))"
proof (cases "find (\<lambda>x. itm_id x = i) (t_items t)")
  case None
  then show ?thesis by (simp add: get_effective_permission_for_item_def select_first_def)
next
  case (Some item)
  note found = Some
  then have item: "item \<in> set (t_items t)" "itm_id item = i" by (auto simp: find_Some_iff)
  show ?thesis
  proof (cases "get_workspace_member t u (itm_ws item)")
    case None
    with found show ?thesis by (simp add: get_effective_permission_for_item_def select_first_def)
  next
    case (Some m)
    have pm: "\<And>x. x \<in> set (t_items t) \<Longrightarrow> True \<Longrightarrow> item_parent (t_items t) (itm_id x) = itm_parent x"
      using find_distinct_key[OF assms(1)] by (simp add: item_parent_def)
    have missing: "\<And>q. find (\<lambda>x. itm_id x = q) (t_items t) = None \<Longrightarrow> user_override t u q = None \<and> item_parent (t_items t) q = None"
      by (simp add: user_override_def item_parent_def) (auto simp: find_None_iff)
    have "get_effective_permission_for_item t u (itm_id item) = Some p"
      if l: "level_of (item_parent (t_items t)) (user_override t u) (role_permission (mb_role m)) (itm_id item) p" for p
    proof -
      from l obtain n where "level_at (item_parent (t_items t)) (user_override t u) (role_permission (mb_role m)) (itm_id item) p n"
        by (auto simp: level_of_def)
      then have "(case first_override (user_override t u) (item_chain (t_items t) [] (Some item)) of
          Some p' \<Rightarrow> p' | None \<Rightarrow> role_permission (mb_role m)) = p"
        by (rule chain_level[where W = "\<lambda>_. True", OF _ refl item(1) _ _ pm _ missing]) auto
      then show ?thesis using effective_chain[OF assms item(1) Some] by simp
    qed
    with found item Some show ?thesis by simp
  qed
qed

definition example_items :: tables where
  "example_items = empty_tables\<lparr>
     t_items := [\<lparr>itm_id = ''f'', itm_ws = ''w'', itm_type = ''folder'', itm_name = [], itm_parent = None, itm_order = 0, itm_view = None\<rparr>,
                 \<lparr>itm_id = ''i'', itm_ws = ''w'', itm_type = ''table'', itm_name = [], itm_parent = Some ''f'', itm_order = 0, itm_view = None\<rparr>],
     t_perms := [\<lparr>ip_item = ''f'', ip_user = 1, ip_level = ''update''\<rparr>],
     t_members := [\<lparr>mb_user = 1, mb_ws = ''w'', mb_role = Editor\<rparr>]\<rparr>"

lemma example_items_level: "level_of (item_parent (t_items example_items)) (user_override example_items 1) fb ''i'' ''update''"
  by (rule level_of_intros(3)[of _ _ _ "''f''"])
     (auto intro!: level_of_intros(1) simp: example_items_def empty_tables_def user_override_def item_parent_def
       normalize_permission_def)

theorem effective_permission_nearest_witness:
  "get_effective_permission_for_item example_items 1 ''i'' = Some ''update''
   \<and> get_effective_permission_for_item example_items 1 ''x'' = None"
proof -
  have h: "distinct (map itm_id (t_items example_items))" "distinct (map ip_key (t_perms example_items))"
    by (simp_all add: example_items_def empty_tables_def)
  have m: "get_workspace_member example_items 1 ''w'' = Some \<lparr>mb_user = 1, mb_ws = ''w'', mb_role = Editor\<rparr>"
    by (simp add: get_workspace_member_def select_first_def example_items_def)
  have f: "find (\<lambda>x. itm_id x = ''i'') (t_items example_items)
      = Some \<lparr>itm_id = ''i'', itm_ws = ''w'', itm_type = ''table'', itm_name = [], itm_parent = Some ''f'', itm_order = 0, itm_view = None\<rparr>"
    "find (\<lambda>x. itm_id x = ''x'') (t_items example_items) = None"
    by (simp_all add: example_items_def empty_tables_def)
  show ?thesis
    using effective_permission_nearest[OF h, where i = "''i''" and u = 1] effective_permission_nearest[OF h, where i = "''x''" and u = 1]
      m f example_items_level by simp
qed

theorem resolver_agrees_witness:
  "resolve_all (workspace_parent_map example_items ''w'') (get_user_permission_overrides example_items ''w'' 1)
     (role_permission Editor) [''f'', ''i''] Map.empty = Some [(''f'', ''update''), (''i'', ''update'')]
   \<and> get_effective_permission_for_item example_items 1 ''f'' = Some ''update''
   \<and> get_effective_permission_for_item example_items 1 ''i'' = Some ''update''"
proof -
  have h: "distinct (map itm_id (t_items example_items))" "parents_in_workspace example_items"
    "set [''f'', ''i''] \<subseteq> itm_id ` set (select t_items (\<lambda>i. itm_ws i = ''w'') example_items)"
    by (simp_all add: example_items_def empty_tables_def parents_in_workspace_def select_def)
  have m: "get_workspace_member example_items 1 ''w'' = Some \<lparr>mb_user = 1, mb_ws = ''w'', mb_role = Editor\<rparr>"
    by (simp add: get_workspace_member_def select_first_def example_items_def)
  have ov: "get_user_permission_overrides example_items ''w'' 1 = [''f'' \<mapsto> ''update'']"
    by (simp add: get_user_permission_overrides_def select_def example_items_def empty_tables_def normalize_permission_def)
  have pm: "workspace_parent_map example_items ''w'' ''i'' = Some ''f''"
    by (simp add: workspace_parent_map_def item_parent_def select_def example_items_def)
  have r: "resolve_all (workspace_parent_map example_items ''w'') (get_user_permission_overrides example_items ''w'' 1)
     (role_permission Editor) [''f'', ''i''] Map.empty = Some [(''f'', ''update''), (''i'', ''update'')]"
    using pm by (simp add: ov resolve_permission_for_item.simps[of "''f''"] resolve_permission_for_item.simps[of "''i''"])
  have "map (\<lambda>i. (i, get_effective_permission_for_item example_items 1 i)) [''f'', ''i'']
      = map (\<lambda>(i, p). (i, Some p)) [(''f'', ''update''), (''i'', ''update'')]"
    using resolver_agrees[OF h m] unfolding workspace_member.select_convs r option.case by (rule sym)
  then have e: "get_effective_permission_for_item example_items 1 ''f'' = Some ''update''"
    "get_effective_permission_for_item example_items 1 ''i'' = Some ''update''" by simp_all
  show ?thesis by (intro conjI r e)
qed

end
