(* ===== verification/RelationEngine.thy ===== *)
theory RelationEngine
  imports PyBase
begin

text \<open>
  \<open>src/app/services/relation_engine.py\<close>: link-to-record fields. A field is the dictionary
  \<open>_field_to_dict\<close> builds; a stored relation value is \<open>None\<close> or a record id for a
  single-link field and a duplicate-free list of record ids for a multi-link field.
\<close>

section \<open>Definitions\<close>

definition max_linked_records :: nat where
  "max_linked_records = 200"

definition max_record_id_length :: nat where
  "max_record_id_length = 256"

definition rel_error :: "string \<Rightarrow> 'a res" where
  "rel_error m = Inl (Exn RelationValidationError m)"

definition is_relation_field :: "dict \<Rightarrow> bool" where
  "is_relation_field field \<longleftrightarrow> lower (str_or_empty (dget field ''type'')) = ''relation''"

definition get_relation_property :: "dict \<Rightarrow> dict" where
  "get_relation_property field = (case dget field ''property'' of PDict d \<Rightarrow> d | _ \<Rightarrow> [])"

definition get_target_table_id :: "dict \<Rightarrow> string" where
  "get_target_table_id field =
     (case dget (get_relation_property field) ''targetTableId'' of PStr s \<Rightarrow> strip s | _ \<Rightarrow> [])"

definition get_display_field_id :: "dict \<Rightarrow> string option" where
  "get_display_field_id field =
     (case dget (get_relation_property field) ''displayFieldId'' of
        PStr s \<Rightarrow> if strip s \<noteq> [] then Some (strip s) else None
      | _ \<Rightarrow> None)"

definition relation_allows_multiple :: "dict \<Rightarrow> bool" where
  "relation_allows_multiple field =
     py_truth (dget_default (get_relation_property field) ''multiple'' (PBool True))"

definition is_str_or_none :: "pyval \<Rightarrow> bool" where
  "is_str_or_none v = (case v of PNone \<Rightarrow> True | PStr _ \<Rightarrow> True | _ \<Rightarrow> False)"

definition is_bool :: "pyval \<Rightarrow> bool" where
  "is_bool v = (case v of PBool _ \<Rightarrow> True | _ \<Rightarrow> False)"

definition validate_relation_field_shape :: "dict \<Rightarrow> unit res" where
  "validate_relation_field_shape field =
     (if \<not> is_relation_field field then Inr ()
      else if get_target_table_id field = []
        then rel_error ''Relation field requires property.targetTableId''
      else if length (get_target_table_id field) > max_record_id_length
        then rel_error ''Relation target table id is too long''
      else if \<not> is_bool (dget_default (get_relation_property field) ''multiple'' (PBool True))
        then rel_error ''Relation property.multiple must be a boolean''
      else if \<not> is_str_or_none (dget (get_relation_property field) ''displayFieldId'')
        then rel_error ''Relation property.displayFieldId must be a string''
      else Inr ())"

fun validate_relation_schema :: "dict list \<Rightarrow> unit res" where
  "validate_relation_schema [] = Inr ()"
| "validate_relation_schema (f # fs) =
     bind_res (validate_relation_field_shape f) (\<lambda>_. validate_relation_schema fs)"

definition normalize_record_id :: "pyval \<Rightarrow> string res" where
  "normalize_record_id v = (case v of
       PStr s \<Rightarrow>
         if strip s = [] then rel_error ''Linked record id cannot be empty''
         else if length (strip s) > max_record_id_length then rel_error ''Linked record id is too long''
         else Inr (strip s)
     | _ \<Rightarrow> rel_error ''Linked record id must be a string'')"

text \<open>The \<open>for raw in raw_values\<close> loop; \<open>acc\<close> is \<open>normalized\<close>, whose elements are \<open>seen\<close>.\<close>

fun normalize_ids :: "string list \<Rightarrow> pyval list \<Rightarrow> string list res" where
  "normalize_ids acc [] = Inr acc"
| "normalize_ids acc (raw # raws) =
     (if raw = PNone \<or> raw = PStr [] then normalize_ids acc raws
      else bind_res (normalize_record_id raw) (\<lambda>rid.
        if rid \<in> set acc then normalize_ids acc raws
        else if length (acc @ [rid]) > max_linked_records
          then rel_error ''Relation field cannot link more than 200 records''
        else normalize_ids (acc @ [rid]) raws))"

definition raw_values :: "pyval \<Rightarrow> pyval list" where
  "raw_values v = (case v of PList xs \<Rightarrow> xs | _ \<Rightarrow> [v])"

definition normalize_relation_value :: "dict \<Rightarrow> pyval \<Rightarrow> pyval res" where
  "normalize_relation_value field v =
     (if \<not> is_relation_field field then Inr v
      else if v = PNone \<or> v = PStr []
        then Inr (if relation_allows_multiple field then PList [] else PNone)
      else bind_res (normalize_ids [] (raw_values v)) (\<lambda>ids.
        if relation_allows_multiple field then Inr (PList (map PStr ids))
        else if length ids > 1 then rel_error ''Single relation field accepts only one linked record''
        else Inr (case ids of [] \<Rightarrow> PNone | i # _ \<Rightarrow> PStr i)))"

definition relation_record_ids :: "dict \<Rightarrow> pyval \<Rightarrow> pyval list res" where
  "relation_record_ids field v =
     bind_res (normalize_relation_value field v) (\<lambda>n. Inr (case n of
         PNone \<Rightarrow> [] | PList xs \<Rightarrow> xs | _ \<Rightarrow> [n]))"

definition remove_linked_record :: "dict \<Rightarrow> pyval \<Rightarrow> string \<Rightarrow> (pyval \<times> bool) res" where
  "remove_linked_record field v deleted =
     (if \<not> is_relation_field field then Inr (v, False)
      else bind_res (normalize_relation_value field v) (\<lambda>n. Inr (case n of
          PList xs \<Rightarrow>
            let nxt = filter (\<lambda>x. \<not> py_eq x (PStr deleted)) xs
            in (PList nxt, \<not> py_eq_list nxt xs)
        | _ \<Rightarrow> if py_eq n (PStr deleted) then (PNone, True) else (n, False))))"

definition relation_fields_targeting :: "dict list \<Rightarrow> string \<Rightarrow> dict list" where
  "relation_fields_targeting fields target =
     filter (\<lambda>f. is_relation_field f \<and> get_target_table_id f = target) fields"

section \<open>Lemmas\<close>

lemma normalize_record_id_Inr:
  "normalize_record_id raw = Inr r \<longleftrightarrow>
     (\<exists>s. raw = PStr s \<and> r = strip s \<and> r \<noteq> [] \<and> length r \<le> max_record_id_length)"
  by (cases raw) (auto simp: normalize_record_id_def rel_error_def)

definition id_ok :: "string \<Rightarrow> bool" where
  "id_ok i \<longleftrightarrow> i \<noteq> [] \<and> strip i = i \<and> length i \<le> max_record_id_length"

lemma normalize_ids_step:
  assumes "normalize_ids acc (raw # raws) = Inr ids" "raw \<noteq> PNone" "raw \<noteq> PStr []"
  obtains s where "raw = PStr s" "id_ok (strip s)"
    "strip s \<in> set acc \<Longrightarrow> normalize_ids acc raws = Inr ids"
    "strip s \<notin> set acc \<Longrightarrow> length acc < max_linked_records \<and> normalize_ids (acc @ [strip s]) raws = Inr ids"
proof -
  from assms obtain r where r: "normalize_record_id raw = Inr r"
    and c: "(if r \<in> set acc then normalize_ids acc raws
        else if length (acc @ [r]) > max_linked_records
          then rel_error ''Relation field cannot link more than 200 records''
        else normalize_ids (acc @ [r]) raws) = Inr ids"
    by auto
  from r obtain s where s: "raw = PStr s" "r = strip s" "r \<noteq> []" "length r \<le> max_record_id_length"
    by (auto simp: normalize_record_id_Inr)
  show ?thesis
  proof (rule that[of s])
    show "raw = PStr s" by fact
    show "id_ok (strip s)" using s by (simp add: id_ok_def)
    show "strip s \<in> set acc \<Longrightarrow> normalize_ids acc raws = Inr ids" using c s by simp
    show "strip s \<notin> set acc \<Longrightarrow> length acc < max_linked_records \<and> normalize_ids (acc @ [strip s]) raws = Inr ids"
      using c s by (auto simp: rel_error_def split: if_splits)
  qed
qed

lemma normalize_ids_spec:
  assumes "normalize_ids acc raws = Inr ids" "distinct acc" "length acc \<le> max_linked_records"
    "\<forall>i\<in>set acc. id_ok i"
  shows "distinct ids \<and> length ids \<le> max_linked_records \<and> (\<forall>i\<in>set ids. id_ok i)
    \<and> set ids = set acc \<union> {strip s | s. PStr s \<in> set raws \<and> s \<noteq> []}"
  using assms
proof (induction raws arbitrary: acc)
  case Nil
  then show ?case by simp
next
  case (Cons raw raws)
  show ?case
  proof (cases "raw = PNone \<or> raw = PStr []")
    case True
    then have "{strip s | s. PStr s \<in> set (raw # raws) \<and> s \<noteq> []} = {strip s | s. PStr s \<in> set raws \<and> s \<noteq> []}"
      by auto
    with True Cons.prems Cons.IH[of acc] show ?thesis by auto
  next
    case False
    then have ne: "raw \<noteq> PNone" "raw \<noteq> PStr []" by auto
    from Cons.prems(1) ne obtain s where s: "raw = PStr s" "id_ok (strip s)"
      and a: "strip s \<in> set acc \<Longrightarrow> normalize_ids acc raws = Inr ids"
      and b: "strip s \<notin> set acc \<Longrightarrow> length acc < max_linked_records \<and> normalize_ids (acc @ [strip s]) raws = Inr ids"
      by (rule normalize_ids_step) blast
    have eq: "{strip x | x. PStr x \<in> set (raw # raws) \<and> x \<noteq> []}
        = insert (strip s) {strip x | x. PStr x \<in> set raws \<and> x \<noteq> []}"
      using s False by auto
    show ?thesis
    proof (cases "strip s \<in> set acc")
      case True
      from Cons.IH[OF a[OF True] Cons.prems(2-4)] True show ?thesis unfolding eq by auto
    next
      case nin: False
      then show ?thesis using Cons.IH[of "acc @ [strip s]"] b s(2) Cons.prems(2-4) unfolding eq by auto
    qed
  qed
qed

lemma normalize_ids_fix:
  assumes "distinct (acc @ ids)" "length (acc @ ids) \<le> max_linked_records"
    "\<forall>i\<in>set ids. id_ok i"
  shows "normalize_ids acc (map PStr ids) = Inr (acc @ ids)"
  using assms
proof (induction ids arbitrary: acc)
  case Nil
  then show ?case by simp
next
  case (Cons i ids)
  then have "normalize_record_id (PStr i) = Inr i" "i \<noteq> []" by (simp_all add: normalize_record_id_def id_ok_def)
  with Cons show ?case by simp
qed

section \<open>Canonical values and removal\<close>

lemma py_eq_list_strs [simp]: "py_eq_list (map PStr xs) (map PStr ys) \<longleftrightarrow> xs = ys"
  by (induction xs arbitrary: ys) (auto split: list.splits simp: map_eq_Cons_conv)

definition relation_ids :: "pyval \<Rightarrow> string list" where
  "relation_ids v = (case v of PStr i \<Rightarrow> [i] | PList xs \<Rightarrow> map py_str xs | _ \<Rightarrow> [])"

lemma relation_ids_list [simp]: "relation_ids (PList (map PStr ids)) = ids"
  by (simp add: relation_ids_def py_str_def comp_def)

lemma normalize_relation_shape:
  assumes "is_relation_field f" "normalize_relation_value f v = Inr w"
  obtains (multi) ids where "relation_allows_multiple f" "w = PList (map PStr ids)" "distinct ids"
      "length ids \<le> max_linked_records" "\<forall>i\<in>set ids. id_ok i"
  | (single) i where "\<not> relation_allows_multiple f" "w = PStr i" "id_ok i"
  | (none) "\<not> relation_allows_multiple f" "w = PNone"
proof (cases "v = PNone \<or> v = PStr []")
  case True
  then show ?thesis
    using assms multi[of "[]"] none
    by (cases "relation_allows_multiple f") (auto simp: normalize_relation_value_def)
next
  case False
  with assms obtain ids where ids: "normalize_ids [] (raw_values v) = Inr ids"
    and w: "(if relation_allows_multiple f then Inr (PList (map PStr ids))
        else if length ids > 1 then rel_error ''Single relation field accepts only one linked record''
        else Inr (case ids of [] \<Rightarrow> PNone | i # _ \<Rightarrow> PStr i)) = Inr w"
    by (auto simp: normalize_relation_value_def simp del: One_nat_def)
  have sp: "distinct ids \<and> length ids \<le> max_linked_records \<and> (\<forall>i\<in>set ids. id_ok i)"
    using normalize_ids_spec[OF ids] by simp
  show ?thesis
  proof (cases "relation_allows_multiple f")
    case True
    with w sp multi show ?thesis by auto
  next
    case nm: False
    show ?thesis
    proof (cases ids)
      case Nil
      with nm w none show ?thesis by auto
    next
      case (Cons i rest)
      with nm w sp single show ?thesis by (auto simp: rel_error_def split: if_splits)
    qed
  qed
qed

lemma normalize_relation_fix:
  assumes "is_relation_field f" "normalize_relation_value f v = Inr w"
  shows "normalize_relation_value f w = Inr w"
  using assms
proof (cases rule: normalize_relation_shape)
  case (multi ids)
  then show ?thesis using assms(1) normalize_ids_fix[of "[]" ids]
    by (simp add: normalize_relation_value_def raw_values_def)
next
  case (single i)
  then show ?thesis using assms(1) normalize_ids_fix[of "[]" "[i]"]
    by (auto simp: normalize_relation_value_def raw_values_def id_ok_def max_linked_records_def)
next
  case none
  with assms(1) show ?thesis by (simp add: normalize_relation_value_def)
qed

lemma filter_map_PStr: "filter (\<lambda>x. \<not> py_eq x (PStr d)) (map PStr ids) = map PStr (filter (\<lambda>i. i \<noteq> d) ids)"
  by (induction ids) auto

text \<open>a relation value the engine accepts is stored in canonical form (a list of at most 200 distinct, trimmed, non-empty ids of at most 256 characters for a multi-link field; one such id or nothing for a single-link field), and normalising the stored form again changes nothing.\<close>

theorem relation_value_canonical:
  assumes "is_relation_field f" "normalize_relation_value f v = Inr w"
  shows "normalize_relation_value f w = Inr w \<and> distinct (relation_ids w)
    \<and> length (relation_ids w) \<le> (if relation_allows_multiple f then 200 else 1)
    \<and> (\<forall>i\<in>set (relation_ids w). i \<noteq> [] \<and> strip i = i \<and> length i \<le> 256)
    \<and> w = (if relation_allows_multiple f then PList (map PStr (relation_ids w))
           else case relation_ids w of [] \<Rightarrow> PNone | i # _ \<Rightarrow> PStr i)"
  using assms
proof (cases rule: normalize_relation_shape)
  case (multi ids)
  then show ?thesis using normalize_relation_fix[OF assms]
    by (auto simp: id_ok_def max_linked_records_def max_record_id_length_def)
next
  case (single i)
  then show ?thesis using normalize_relation_fix[OF assms]
    by (auto simp: id_ok_def max_record_id_length_def relation_ids_def)
next
  case none
  then show ?thesis using normalize_relation_fix[OF assms] by (auto simp: relation_ids_def)
qed

theorem relation_value_canonical_witness:
  "normalize_relation_value [(''type'', PStr ''relation'')] (PList [PStr ''a'', PNone, PStr '' a '', PStr ''b'']) = Inr (PList [PStr ''a'', PStr ''b''])
   \<and> normalize_relation_value [(''type'', PStr ''relation'')] (PList [PStr ''a'', PStr ''b'']) = Inr (PList [PStr ''a'', PStr ''b''])"
proof -
  have f: "is_relation_field [(''type'', PStr ''relation'')]" by code_simp
  have n: "normalize_relation_value [(''type'', PStr ''relation'')] (PList [PStr ''a'', PNone, PStr '' a '', PStr ''b'']) = Inr (PList [PStr ''a'', PStr ''b''])"
    by code_simp
  from relation_value_canonical[OF f n] n show ?thesis by blast
qed

lemma remove_linked_run:
  assumes "is_relation_field f" "normalize_relation_value f v = Inr n"
  shows "\<exists>w. remove_linked_record f v d = Inr (w, d \<in> set (relation_ids n))
     \<and> relation_ids w = filter (\<lambda>i. i \<noteq> d) (relation_ids n) \<and> normalize_relation_value f w = Inr w"
  using assms
proof (cases rule: normalize_relation_shape)
  case (multi ids)
  let ?w = "PList (map PStr (filter (\<lambda>i. i \<noteq> d) ids))"
  have "remove_linked_record f v d = Inr (?w, filter (\<lambda>i. i \<noteq> d) ids \<noteq> ids)"
    using assms multi by (simp add: remove_linked_record_def filter_map_PStr Let_def)
  moreover have "filter (\<lambda>i. i \<noteq> d) ids \<noteq> ids \<longleftrightarrow> d \<in> set ids"
    by (metis (mono_tags, lifting) filter_True filter_id_conv)
  moreover have "normalize_relation_value f ?w = Inr ?w"
    using assms(1) multi normalize_ids_fix[of "[]" "filter (\<lambda>i. i \<noteq> d) ids"] length_filter_le[of "\<lambda>i. i \<noteq> d" ids]
    by (simp add: normalize_relation_value_def raw_values_def)
  ultimately show ?thesis using multi by auto
next
  case (single i)
  then show ?thesis using assms normalize_relation_fix[OF assms]
    by (auto simp: remove_linked_record_def relation_ids_def normalize_relation_value_def)
next
  case none
  then show ?thesis using assms normalize_relation_fix[OF assms]
    by (auto simp: remove_linked_record_def relation_ids_def)
qed

text \<open>Removing a deleted record from a relation value keeps exactly the other links, in order, reports a change exactly when the record was linked, and leaves the value canonical.\<close>

theorem remove_linked_record_spec:
  assumes "is_relation_field f" "normalize_relation_value f v = Inr n"
  shows "\<exists>w. remove_linked_record f v d = Inr (w, d \<in> set (relation_ids n))
     \<and> relation_ids w = filter (\<lambda>i. i \<noteq> d) (relation_ids n) \<and> normalize_relation_value f w = Inr w"
  using assms by (rule remove_linked_run)

theorem remove_linked_record_spec_witness:
  "\<exists>w. remove_linked_record [(''type'', PStr ''relation'')] (PList [PStr ''a'', PStr ''b'', PStr ''c'']) ''b'' = Inr (w, True)
     \<and> relation_ids w = [''a'', ''c'']"
proof -
  have f: "is_relation_field [(''type'', PStr ''relation'')]" by code_simp
  have n: "normalize_relation_value [(''type'', PStr ''relation'')] (PList [PStr ''a'', PStr ''b'', PStr ''c''])
      = Inr (PList [PStr ''a'', PStr ''b'', PStr ''c''])" by code_simp
  from remove_linked_record_spec[OF f n, of "''b''"]
  obtain w where "remove_linked_record [(''type'', PStr ''relation'')] (PList [PStr ''a'', PStr ''b'', PStr ''c'']) ''b''
      = Inr (w, ''b'' \<in> set (relation_ids (PList [PStr ''a'', PStr ''b'', PStr ''c''])))"
    "relation_ids w = filter (\<lambda>i. i \<noteq> ''b'') (relation_ids (PList [PStr ''a'', PStr ''b'', PStr ''c'']))" by blast
  moreover have "relation_ids (PList [PStr ''a'', PStr ''b'', PStr ''c'']) = [''a'', ''b'', ''c'']"
    by (simp add: relation_ids_def py_str_def)
  ultimately show ?thesis by simp
qed

end
