(* ===== verification/RowPermissions.thy ===== *)
theory RowPermissions
  imports Permissions RelationEngine
begin

text \<open>
  \<open>src/app/services/row_permissions.py\<close>: the row policy of a table (everyone, creators,
  or the users a member field names), the visibility of a record under it, the filtering of
  a loaded table for a user with the masking of links to records the user cannot read, and
  the checks the schema operations run before they touch the policy's member field.
\<close>

section \<open>Definitions\<close>

record policy =
  pv_mode :: string
  pv_member :: "string option"
  pv_enabled :: bool

definition row_permission_modes :: "string list" where
  "row_permission_modes = [''all'', ''creator'', ''member_field'']"

definition default_row_permission_policy :: policy where
  "default_row_permission_policy = \<lparr>pv_mode = ''all'', pv_member = None, pv_enabled = False\<rparr>"

definition policy_dict :: "row_policy option \<Rightarrow> policy" where
  "policy_dict p = (case p of
       None \<Rightarrow> default_row_permission_policy
     | Some row \<Rightarrow>
         let mode = (if pol_mode row \<in> set row_permission_modes then pol_mode row else ''all'')
         in \<lparr>pv_mode = mode, pv_member = (if mode = ''member_field'' then pol_field row else None),
             pv_enabled = (mode \<noteq> ''all'')\<rparr>)"

definition get_row_permission_policy :: "tables \<Rightarrow> string \<Rightarrow> policy" where
  "get_row_permission_policy t table_id =
     policy_dict (select_first t_policies (\<lambda>p. pol_table p = table_id) t)"

definition check_policy_field :: "tables \<Rightarrow> string \<Rightarrow> string \<Rightarrow> string option \<Rightarrow> string option res" where
  "check_policy_field t table_id mode member_field_id =
     (if mode \<noteq> ''member_field'' then Inr None
      else case member_field_id of
        None \<Rightarrow> Inl (Exn ValueError ''Member field is required'')
      | Some i \<Rightarrow>
          if i = [] then Inl (Exn ValueError ''Member field is required'')
          else (case select_first t_fields (\<lambda>f. fld_table f = table_id \<and> fld_id f = i) t of
              None \<Rightarrow> Inl (Exn ValueError ''Member field does not exist'')
            | Some f \<Rightarrow>
                if fld_type f \<noteq> ''member''
                then Inl (Exn ValueError ''Row permission field must be a member field'')
                else Inr (Some (fld_id f))))"

definition set_row_permission_policy :: "string \<Rightarrow> string \<Rightarrow> string option \<Rightarrow> policy op" where
  "set_row_permission_policy table_id mode member_field_id =
     (let normalized = lower (strip mode) in
      then_op (throw_if (normalized \<notin> set row_permission_modes)
                (Exn ValueError ''Invalid row permission mode''))
      (bind_op (reads (\<lambda>t. check_policy_field t table_id normalized member_field_id)) (\<lambda>r.
       bind_op (of_res r) (\<lambda>field_id.
       bind_op (reads (select_first t_policies (\<lambda>p. pol_table p = table_id))) (\<lambda>current.
       let row = \<lparr>pol_table = table_id, pol_mode = normalized, pol_field = field_id\<rparr> in
       then_op (case current of
                  None \<Rightarrow> insert_row t_policies t_policies_update pol_table row
                | Some _ \<Rightarrow> update_rows t_policies_update (\<lambda>p. pol_table p = table_id)
                              (\<lambda>p. p\<lparr>pol_mode := normalized, pol_field := field_id\<rparr>))
       (then_op commit (ret (policy_dict (Some row)))))))))"

definition delete_row_permission_policy :: "string \<Rightarrow> unit op" where
  "delete_row_permission_policy table_id =
     bind_op (reads (select_first t_policies (\<lambda>p. pol_table p = table_id))) (\<lambda>current.
       case current of
         None \<Rightarrow> ret ()
       | Some _ \<Rightarrow> then_op (delete_rows t_policies_update (\<lambda>p. pol_table p = table_id)) commit)"

fun member_value_contains_user :: "pyval \<Rightarrow> int \<Rightarrow> bool" where
  "member_value_contains_user (PList xs) u = list_ex (\<lambda>x. member_value_contains_user x u) xs"
| "member_value_contains_user (PDict d) u =
     list_ex (\<lambda>k. dget d k \<noteq> PNone \<and> py_str (dget d k) = dec_int u)
       [''id'', ''userId'', ''user_id'', ''value'']"
| "member_value_contains_user PNone u = False"
| "member_value_contains_user (PBool _) u = False"
| "member_value_contains_user v u = (py_str v = dec_int u)"

definition record_is_visible ::
  "policy \<Rightarrow> int \<Rightarrow> string option \<Rightarrow> int option \<Rightarrow> dict \<Rightarrow> bool" where
  "record_is_visible p user_id table_permission creator d =
     (if permission_allows table_permission ''manage'' then True
      else let mode = (if pv_mode p = [] then ''all'' else pv_mode p) in
        if mode = ''all'' then True
        else if creator = Some user_id then True
        else if mode = ''creator'' then False
        else if mode = ''member_field'' then
          (case pv_member p of
             None \<Rightarrow> False
           | Some field_id \<Rightarrow> field_id \<noteq> [] \<and> member_value_contains_user (dget d field_id) user_id)
        else False)"

definition row_visible :: "policy \<Rightarrow> int \<Rightarrow> string option \<Rightarrow> table_record \<Rightarrow> bool" where
  "row_visible p user_id table_permission r =
     record_is_visible p user_id table_permission (rec_creator r) (rec_data r)"

definition row_permission_restricts_user :: "policy \<Rightarrow> string option \<Rightarrow> bool" where
  "row_permission_restricts_user p table_permission \<longleftrightarrow>
     pv_mode p \<noteq> ''all'' \<and> \<not> permission_allows table_permission ''manage''"

definition allowed_record_ids ::
  "tables \<Rightarrow> string \<Rightarrow> int \<Rightarrow> string option \<Rightarrow> policy option \<Rightarrow> string list" where
  "allowed_record_ids t table_id user_id table_permission pol =
     (let effective = (case pol of Some p \<Rightarrow> p | None \<Rightarrow> get_row_permission_policy t table_id);
          rows = select t_records (\<lambda>r. rec_table r = table_id) t
      in if pv_mode effective = ''all'' \<or> permission_allows table_permission ''manage''
         then map rec_id rows
         else map rec_id (filter (row_visible effective user_id table_permission) rows))"

text \<open>
  \<open>allowed_by_target\<close>: a target table maps to the ids the user may see, or to \<open>None\<close>
  when every record of it is readable.
\<close>

definition target_allowed :: "tables \<Rightarrow> int \<Rightarrow> string \<Rightarrow> string list option" where
  "target_allowed t user_id target =
     (let permission = get_effective_permission_for_item t user_id target in
      if \<not> permission_allows permission ''read'' then Some []
      else let pol = get_row_permission_policy t target in
        if row_permission_restricts_user pol permission
        then Some (allowed_record_ids t target user_id permission (Some pol))
        else None)"

fun allowed_by_target ::
  "tables \<Rightarrow> int \<Rightarrow> (string \<times> string list option) list \<Rightarrow> dict list \<Rightarrow> (string \<times> string list option) list" where
  "allowed_by_target t user_id acc [] = acc"
| "allowed_by_target t user_id acc (f # fs) =
     (let target = get_target_table_id f in
      if target = [] \<or> map_of acc target \<noteq> None then allowed_by_target t user_id acc fs
      else allowed_by_target t user_id (acc @ [(target, target_allowed t user_id target)]) fs)"

definition field_dict_id :: "dict \<Rightarrow> string" where
  "field_dict_id f = str_or_empty (dget f ''id'')"

definition mask_relation_value :: "dict \<Rightarrow> string list \<Rightarrow> pyval \<Rightarrow> pyval" where
  "mask_relation_value field allowed v =
     (let linked = (case relation_record_ids field v of Inl _ \<Rightarrow> [] | Inr ids \<Rightarrow> ids);
          visible = filter (\<lambda>i. py_str i \<in> set allowed) linked
      in if relation_allows_multiple field then PList visible
         else case visible of [] \<Rightarrow> PNone | i # _ \<Rightarrow> i)"

fun sanitize_record :: "(string \<times> string list option) list \<Rightarrow> dict list \<Rightarrow> dict \<Rightarrow> dict" where
  "sanitize_record abt [] rec = rec"
| "sanitize_record abt (f # fs) rec =
     (if field_dict_id f = [] \<or> \<not> dhas rec (field_dict_id f) then sanitize_record abt fs rec
      else case map_of abt (get_target_table_id f) of
          Some (Some allowed) \<Rightarrow>
            sanitize_record abt fs
              (dset (field_dict_id f) (mask_relation_value f allowed (dget rec (field_dict_id f))) rec)
        | _ \<Rightarrow> sanitize_record abt fs rec)"

definition sanitize_relation_values_for_user :: "tables \<Rightarrow> dict list \<Rightarrow> dict list \<Rightarrow> int \<Rightarrow> dict list" where
  "sanitize_relation_values_for_user t flds recs user_id =
     (let relation_fields = filter is_relation_field flds in
      if relation_fields = [] \<or> recs = [] then recs
      else map (sanitize_record (allowed_by_target t user_id [] relation_fields) relation_fields) recs)"

text \<open>A loaded table: its \<open>fields\<close>, its \<open>records\<close> and the other keys of the dictionary.\<close>

record store =
  so_fields :: "dict list"
  so_records :: "dict list"
  so_rest :: dict

definition filter_store_for_user ::
  "tables \<Rightarrow> string \<Rightarrow> store \<Rightarrow> int \<Rightarrow> string option \<Rightarrow> store \<times> policy" where
  "filter_store_for_user t table_id st user_id table_permission =
     (let pol = get_row_permission_policy t table_id;
          source = (if row_permission_restricts_user pol table_permission
            then filter (\<lambda>r. py_str (dget r ''id'')
                   \<in> set (allowed_record_ids t table_id user_id table_permission (Some pol))) (so_records st)
            else so_records st)
      in (st\<lparr>so_records := sanitize_relation_values_for_user t (so_fields st) source user_id\<rparr>, pol))"

definition no_access :: exn where
  "no_access = Exn PermissionError ''Record not found or no access''"

definition require_record_access ::
  "tables \<Rightarrow> string \<Rightarrow> string \<Rightarrow> int \<Rightarrow> string option \<Rightarrow> table_record res" where
  "require_record_access t table_id record_id user_id table_permission =
     (case select_first t_records (\<lambda>r. rec_table r = table_id \<and> rec_id r = record_id) t of
        None \<Rightarrow> Inl no_access
      | Some r \<Rightarrow>
          if \<not> row_visible (get_row_permission_policy t table_id) user_id table_permission r
          then Inl no_access else Inr r)"

definition ensure_permission_field_change_safe ::
  "tables \<Rightarrow> string \<Rightarrow> string \<Rightarrow> bool \<Rightarrow> string option \<Rightarrow> unit res" where
  "ensure_permission_field_change_safe t table_id field_id deleting next_type =
     (let p = get_row_permission_policy t table_id in
      if pv_mode p \<noteq> ''member_field'' \<or> pv_member p \<noteq> Some field_id then Inr ()
      else if deleting then Inl (Exn ValueError
        ''This member field is used by row permissions. Change the row permission rule first.'')
      else if next_type \<noteq> None \<and> next_type \<noteq> Some ''member'' then Inl (Exn ValueError
        ''This member field is used by row permissions and must remain a member field.'')
      else Inr ())"

definition row_scope_cache_key :: "policy \<Rightarrow> int \<Rightarrow> string option \<Rightarrow> string" where
  "row_scope_cache_key p user_id table_permission =
     (if pv_mode p = ''all'' \<or> permission_allows table_permission ''manage'' then ''all''
      else ''user:'' @ dec_int user_id @ '':'' @ pv_mode p @ '':''
        @ (case pv_member p of None \<Rightarrow> ''-'' | Some f \<Rightarrow> if f = [] then ''-'' else f))"

section \<open>Visibility\<close>

lemma row_visible_iff:
  "row_visible p u perm r \<longleftrightarrow> permission_allows perm ''manage'' \<or> pv_mode p = [] \<or> pv_mode p = ''all''
     \<or> rec_creator r = Some u
     \<or> (pv_mode p = ''member_field'' \<and> (\<exists>f. pv_member p = Some f \<and> f \<noteq> [] \<and> member_value_contains_user (dget (rec_data r) f) u))"
  by (auto simp: row_visible_def record_is_visible_def Let_def split: option.splits)

lemma policy_mode_nonempty [simp]: "pv_mode (get_row_permission_policy t tbl) \<noteq> []"
  by (auto simp: get_row_permission_policy_def policy_dict_def default_row_permission_policy_def
      row_permission_modes_def Let_def split: option.splits)

lemma allowed_record_ids_visible:
  "set (allowed_record_ids t tbl u perm (Some (get_row_permission_policy t tbl)))
     = {rec_id r | r. r \<in> set (t_records t) \<and> rec_table r = tbl \<and> row_visible (get_row_permission_policy t tbl) u perm r}"
  by (auto simp: allowed_record_ids_def select_def row_visible_iff Let_def)

definition hide_invisible :: "tables \<Rightarrow> string \<Rightarrow> int \<Rightarrow> string option \<Rightarrow> tables" where
  "hide_invisible t tbl u perm = t\<lparr>t_records := filter (\<lambda>r. rec_table r = tbl \<longrightarrow>
     row_visible (get_row_permission_policy t tbl) u perm r) (t_records t)\<rparr>"

lemma hide_policy [simp]: "get_row_permission_policy (hide_invisible t tbl u perm) x = get_row_permission_policy t x"
  by (simp add: get_row_permission_policy_def hide_invisible_def select_first_def)

text \<open>C5: a row the policy hides from a user is indistinguishable from a row that does not exist: record access gives the same answer (the same error, for every record id) and the user's allowed ids are the same on the database with all the table's rows the user cannot see removed.\<close>

theorem hidden_record_indistinguishable:
  assumes "distinct (map rec_key (t_records t))"
  shows "require_record_access (hide_invisible t tbl u perm) tbl rid u perm = require_record_access t tbl rid u perm
    \<and> allowed_record_ids (hide_invisible t tbl u perm) tbl u perm None = allowed_record_ids t tbl u perm None"
proof
  have f: "find (\<lambda>r. rec_table r = tbl \<and> rec_id r = rid) (filter (\<lambda>r. rec_table r = tbl \<longrightarrow>
     row_visible (get_row_permission_policy t tbl) u perm r) (t_records t))
    = (case find (\<lambda>r. rec_table r = tbl \<and> rec_id r = rid) (t_records t) of None \<Rightarrow> None
       | Some x \<Rightarrow> if rec_table x = tbl \<longrightarrow> row_visible (get_row_permission_policy t tbl) u perm x then Some x else None)"
    by (rule find_filter_distinct[OF assms]) (simp add: rec_key_def)
  have "t_records (hide_invisible t tbl u perm) = filter (\<lambda>r. rec_table r = tbl \<longrightarrow>
     row_visible (get_row_permission_policy t tbl) u perm r) (t_records t)"
    by (simp add: hide_invisible_def)
  with f show "require_record_access (hide_invisible t tbl u perm) tbl rid u perm = require_record_access t tbl rid u perm"
    by (auto simp: require_record_access_def select_first_def split: option.splits dest!: find_SomeD)
  show "allowed_record_ids (hide_invisible t tbl u perm) tbl u perm None = allowed_record_ids t tbl u perm None"
    by (auto simp: allowed_record_ids_def select_def hide_invisible_def Let_def row_visible_iff
        get_row_permission_policy_def select_first_def intro!: arg_cong[where f = "map rec_id"] filter_cong)
qed

definition example_rows :: tables where
  "example_rows = empty_tables\<lparr>
     t_policies := [\<lparr>pol_table = ''t'', pol_mode = ''member_field'', pol_field = Some ''m''\<rparr>],
     t_records := [\<lparr>rec_id = ''r1'', rec_table = ''t'', rec_data = [(''m'', PList [PStr ''5''])], rec_order = 0, rec_creator = None, rec_version = 1\<rparr>,
                   \<lparr>rec_id = ''r2'', rec_table = ''t'', rec_data = [], rec_order = 1, rec_creator = Some 9, rec_version = 1\<rparr>]\<rparr>"

theorem hidden_record_indistinguishable_witness:
  "require_record_access example_rows ''t'' ''r2'' 5 (Some ''edit'') = Inl no_access
   \<and> require_record_access (hide_invisible example_rows ''t'' 5 (Some ''edit'')) ''t'' ''r2'' 5 (Some ''edit'') = Inl no_access"
proof -
  have k: "distinct (map rec_key (t_records example_rows))" by (simp add: example_rows_def rec_key_def)
  have r: "require_record_access example_rows ''t'' ''r2'' 5 (Some ''edit'') = Inl no_access" by code_simp
  from hidden_record_indistinguishable[OF k, of "''t''" 5 "Some ''edit''" "''r2''"] r show ?thesis by simp
qed

section \<open>Filtering a loaded table\<close>

definition readable :: "tables \<Rightarrow> int \<Rightarrow> string \<Rightarrow> table_record \<Rightarrow> bool" where
  "readable t u target r \<longleftrightarrow> permission_allows (get_effective_permission_for_item t u target) ''read''
     \<and> row_visible (get_row_permission_policy t target) u (get_effective_permission_for_item t u target) r"

lemma target_allowed_readable:
  assumes "distinct (map rec_key (t_records t))" "r \<in> set (t_records t)" "rec_table r = target"
    and "case target_allowed t u target of None \<Rightarrow> True | Some al \<Rightarrow> rec_id r \<in> set al"
  shows "readable t u target r"
proof (cases "target_allowed t u target")
  case None
  then show ?thesis
    by (auto simp: target_allowed_def readable_def row_permission_restricts_user_def row_visible_iff Let_def
        split: if_splits)
next
  case (Some al)
  with assms(4) have p: "permission_allows (get_effective_permission_for_item t u target) ''read''"
    and al: "al = allowed_record_ids t target u (get_effective_permission_for_item t u target) (Some (get_row_permission_policy t target))"
    by (auto simp: target_allowed_def Let_def split: if_splits)
  from Some assms(4) al obtain r' where r': "r' \<in> set (t_records t)" "rec_table r' = target" "rec_id r' = rec_id r"
    "row_visible (get_row_permission_policy t target) u (get_effective_permission_for_item t u target) r'"
    by (auto simp: allowed_record_ids_visible)
  then have "rec_key r' = rec_key r" using assms(3) by (simp add: rec_key_def)
  then have "r' = r" using assms(1,2) r'(1) by (metis distinct_map inj_onD)
  with p r' show ?thesis by (simp add: readable_def)
qed

lemma allowed_by_target_sound:
  assumes "\<And>v. map_of acc k = Some v \<Longrightarrow> v = target_allowed t u k"
    and "map_of (allowed_by_target t u acc fs) k = Some v"
  shows "v = target_allowed t u k"
  using assms
proof (induction fs arbitrary: acc)
  case (Cons f fs)
  show ?case
  proof (cases "get_target_table_id f = [] \<or> map_of acc (get_target_table_id f) \<noteq> None")
    case True
    then have "map_of (allowed_by_target t u acc fs) k = Some v" using Cons.prems(2) by (auto simp: Let_def)
    with Cons.prems(1) show ?thesis by (rule Cons.IH)
  next
    case False
    let ?acc = "acc @ [(get_target_table_id f, target_allowed t u (get_target_table_id f))]"
    have "map_of ?acc k = Some v \<Longrightarrow> v = target_allowed t u k" for v
      using Cons.prems(1) by (auto simp: map_add_def split: option.splits if_splits)
    with Cons.IH[of ?acc] Cons.prems(2) False show ?thesis by (simp add: Let_def)
  qed
qed simp

lemma allowed_by_target_complete:
  "map_of acc k \<noteq> None \<or> (k \<noteq> [] \<and> k \<in> get_target_table_id ` set fs) \<Longrightarrow>
   map_of (allowed_by_target t u acc fs) k \<noteq> None"
proof (induction fs arbitrary: acc)
  case (Cons f fs)
  show ?case
  proof (cases "get_target_table_id f = [] \<or> map_of acc (get_target_table_id f) \<noteq> None")
    case True
    then have s: "allowed_by_target t u acc (f # fs) = allowed_by_target t u acc fs" by (simp add: Let_def)
    show ?thesis unfolding s by (rule Cons.IH) (use Cons.prems True in auto)
  next
    case False
    let ?acc = "acc @ [(get_target_table_id f, target_allowed t u (get_target_table_id f))]"
    have s: "allowed_by_target t u acc (f # fs) = allowed_by_target t u ?acc fs"
      using False by (simp add: Let_def)
    have "map_of acc k \<noteq> None \<or> k = get_target_table_id f \<Longrightarrow> map_of ?acc k \<noteq> None"
      by (cases "map_of acc k") simp_all
    then show ?thesis unfolding s by (intro Cons.IH) (use Cons.prems in auto)
  qed
qed simp

lemma allowed_by_target_lookup:
  assumes "f \<in> set fs" "get_target_table_id f \<noteq> []"
  shows "map_of (allowed_by_target t u [] fs) (get_target_table_id f) = Some (target_allowed t u (get_target_table_id f))"
proof -
  have "map_of (allowed_by_target t u [] fs) (get_target_table_id f) \<noteq> None"
    by (rule allowed_by_target_complete) (use assms in auto)
  then obtain v where v: "map_of (allowed_by_target t u [] fs) (get_target_table_id f) = Some v" by auto
  have "v = target_allowed t u (get_target_table_id f)" by (rule allowed_by_target_sound[OF _ v]) simp
  with v show ?thesis by simp
qed

lemma sanitize_record_has [simp]: "dhas (sanitize_record abt fs r) k = dhas r k"
  by (induction fs arbitrary: r) (auto split: option.splits)

lemma sanitize_record_other:
  "k \<notin> field_dict_id ` set fs \<Longrightarrow> dget (sanitize_record abt fs r) k = dget r k"
  by (induction fs arbitrary: r) (auto split: option.splits)

lemma sanitize_record_masked:
  assumes "distinct (map field_dict_id fs)" "f \<in> set fs" "field_dict_id f \<noteq> []" "dhas r (field_dict_id f)"
    and "map_of abt (get_target_table_id f) = Some (Some al)"
  shows "dget (sanitize_record abt fs r) (field_dict_id f) = mask_relation_value f al (dget r (field_dict_id f))"
  using assms
proof (induction fs arbitrary: r)
  case (Cons g fs)
  show ?case
  proof (cases "g = f")
    case True
    with Cons.prems sanitize_record_other show ?thesis by simp
  next
    case False
    then have f: "f \<in> set fs" and ne: "field_dict_id g \<noteq> field_dict_id f"
      using Cons.prems by (auto simp: image_iff)
    obtain r' where r': "sanitize_record abt (g # fs) r = sanitize_record abt fs r'"
      "dget r' (field_dict_id f) = dget r (field_dict_id f)" "dhas r' (field_dict_id f)"
    proof (cases "field_dict_id g = [] \<or> \<not> dhas r (field_dict_id g) \<or> (\<forall>al. map_of abt (get_target_table_id g) \<noteq> Some (Some al))")
      case True
      then have "sanitize_record abt (g # fs) r = sanitize_record abt fs r" by (auto split: option.splits)
      with that Cons.prems show ?thesis by blast
    next
      case False
      then obtain al' where "map_of abt (get_target_table_id g) = Some (Some al')" by blast
      with False that[of "dset (field_dict_id g) (mask_relation_value g al' (dget r (field_dict_id g))) r"] Cons.prems ne
      show ?thesis by simp
    qed
    with Cons.IH[of r'] Cons.prems f show ?thesis by simp
  qed
qed simp

lemma relation_record_ids_strs:
  assumes "is_relation_field f" "relation_record_ids f v = Inr ids"
  shows "\<exists>ss. ids = map PStr ss"
proof -
  from assms(2) obtain n where n: "normalize_relation_value f v = Inr n"
    and ids: "ids = (case n of PNone \<Rightarrow> [] | PList xs \<Rightarrow> xs | _ \<Rightarrow> [n])"
    by (auto simp: relation_record_ids_def)
  from normalize_relation_shape[OF assms(1) n] show ?thesis
    by cases (use ids in \<open>auto intro: exI[of _ "[]"] exI[of _ "[_]"]\<close>)
qed

lemma mask_exposes:
  assumes "is_relation_field f" "i \<in> set (relation_ids (mask_relation_value f al v))"
  shows "i \<in> set al"
proof -
  let ?ids = "case relation_record_ids f v of Inl _ \<Rightarrow> [] | Inr ids \<Rightarrow> ids"
  obtain ss where ss: "?ids = map PStr ss"
    using relation_record_ids_strs[OF assms(1), of v] by (cases "relation_record_ids f v") auto
  have vis: "filter (\<lambda>i. py_str i \<in> set al) ?ids = map PStr (filter (\<lambda>s. s \<in> set al) ss)"
    unfolding ss by (induction ss) (auto simp: py_str_def)
  show ?thesis
  proof (cases "relation_allows_multiple f")
    case True
    with assms(2) show ?thesis unfolding mask_relation_value_def Let_def vis by simp
  next
    case False
    with assms(2) show ?thesis unfolding mask_relation_value_def Let_def vis
      by (cases "filter (\<lambda>s. s \<in> set al) ss")
         (auto simp: relation_ids_def dest: filter_eq_ConsD)
  qed
qed

lemma sanitized_readable:
  assumes "distinct (map rec_key (t_records t))" "distinct (map field_dict_id fs)"
    and "f \<in> set fs" "is_relation_field f" "get_target_table_id f \<noteq> []" "field_dict_id f \<noteq> []" "dhas r (field_dict_id f)"
    and "i \<in> set (relation_ids (dget (sanitize_record (allowed_by_target t u [] fs) fs r) (field_dict_id f)))"
    and "x \<in> set (t_records t)" "rec_table x = get_target_table_id f" "rec_id x = i"
  shows "readable t u (get_target_table_id f) x"
proof (rule target_allowed_readable[OF assms(1,9,10)])
  show "case target_allowed t u (get_target_table_id f) of None \<Rightarrow> True | Some al \<Rightarrow> rec_id x \<in> set al"
  proof (cases "target_allowed t u (get_target_table_id f)")
    case (Some al)
    then have "dget (sanitize_record (allowed_by_target t u [] fs) fs r) (field_dict_id f)
        = mask_relation_value f al (dget r (field_dict_id f))"
      using sanitize_record_masked[OF assms(2,3,6,7)] allowed_by_target_lookup[OF assms(3,5)] by simp
    with Some assms(4,8,11) mask_exposes show ?thesis by auto
  qed simp
qed

definition row_hidden_id :: "tables \<Rightarrow> string \<Rightarrow> int \<Rightarrow> string option \<Rightarrow> string \<Rightarrow> bool" where
  "row_hidden_id t tbl u perm i \<longleftrightarrow> row_permission_restricts_user (get_row_permission_policy t tbl) perm \<and>
     (\<forall>r\<in>set (t_records t). rec_table r = tbl \<longrightarrow> rec_id r = i \<longrightarrow>
        \<not> row_visible (get_row_permission_policy t tbl) u perm r)"

text \<open>C4: filtering a loaded table for a user keeps exactly the records the row policy lets the user see, in order, and no relation field of a kept record still names a record of its target table that the user may not read there (no read permission on the target, or hidden by the target's own policy).\<close>

theorem filter_store_no_leak:
  assumes keys: "distinct (map rec_key (t_records t))"
    and ids: "distinct (map field_dict_id (filter is_relation_field (so_fields st)))"
    and noid: "''id'' \<notin> field_dict_id ` set (so_fields st)"
    and res: "filter_store_for_user t tbl st u perm = (st', pol)"
  shows "map (\<lambda>r. py_str (dget r ''id'')) (so_records st')
      = filter (\<lambda>i. \<not> row_hidden_id t tbl u perm i) (map (\<lambda>r. py_str (dget r ''id'')) (so_records st))
    \<and> (\<forall>r\<in>set (so_records st'). \<forall>f\<in>set (so_fields st). is_relation_field f \<longrightarrow> get_target_table_id f \<noteq> [] \<longrightarrow>
         field_dict_id f \<noteq> [] \<longrightarrow> dhas r (field_dict_id f) \<longrightarrow>
         (\<forall>i\<in>set (relation_ids (dget r (field_dict_id f))). \<forall>x\<in>set (t_records t).
            rec_table x = get_target_table_id f \<longrightarrow> rec_id x = i \<longrightarrow> readable t u (get_target_table_id f) x))"
proof -
  let ?pol = "get_row_permission_policy t tbl" and ?fs = "filter is_relation_field (so_fields st)"
  define src where "src = (if row_permission_restricts_user ?pol perm
            then filter (\<lambda>r. py_str (dget r ''id'') \<in> set (allowed_record_ids t tbl u perm (Some ?pol))) (so_records st)
            else so_records st)"
  have st': "so_records st' = sanitize_relation_values_for_user t (so_fields st) src u"
    using res by (auto simp: filter_store_for_user_def src_def Let_def)
  have hid: "row_hidden_id t tbl u perm i \<longleftrightarrow> row_permission_restricts_user ?pol perm
      \<and> i \<notin> set (allowed_record_ids t tbl u perm (Some ?pol))" for i
    by (auto simp: row_hidden_id_def allowed_record_ids_visible)
  then have srcids: "map (\<lambda>r. py_str (dget r ''id'')) src
     = filter (\<lambda>i. \<not> row_hidden_id t tbl u perm i) (map (\<lambda>r. py_str (dget r ''id'')) (so_records st))"
    by (simp add: src_def filter_map comp_def)
  show ?thesis
  proof (cases "?fs = [] \<or> src = []")
    case True
    then have "so_records st' = src" by (simp add: st' sanitize_relation_values_for_user_def)
    with True srcids show ?thesis by (auto simp: filter_empty_conv)
  next
    case False
    then have eq: "so_records st' = map (sanitize_record (allowed_by_target t u [] ?fs) ?fs) src"
      by (simp add: st' sanitize_relation_values_for_user_def Let_def)
    have n: "''id'' \<notin> field_dict_id ` set ?fs" using noid by auto
    have "map (\<lambda>r. py_str (dget r ''id'')) (so_records st') = map (\<lambda>r. py_str (dget r ''id'')) src"
      by (simp add: eq sanitize_record_other[OF n])
    moreover have "readable t u (get_target_table_id f) x"
      if "r \<in> set (so_records st')" "f \<in> set (so_fields st)" "is_relation_field f" "get_target_table_id f \<noteq> []"
        "field_dict_id f \<noteq> []" "dhas r (field_dict_id f)" "i \<in> set (relation_ids (dget r (field_dict_id f)))"
        "x \<in> set (t_records t)" "rec_table x = get_target_table_id f" "rec_id x = i" for r f i x
    proof -
      from that(1) eq obtain q where q: "r = sanitize_record (allowed_by_target t u [] ?fs) ?fs q" by auto
      with that(6) have "dhas q (field_dict_id f)" by simp
      then show ?thesis
        using sanitized_readable[OF keys ids _ that(3,4,5) _ _ that(8-10)] that(2,3,7) q by simp
    qed
    ultimately show ?thesis using srcids by simp
  qed
qed

definition example_store :: store where
  "example_store = \<lparr>so_fields = [[(''id'', PStr ''l''), (''type'', PStr ''relation''),
       (''property'', PDict [(''targetTableId'', PStr ''t'')])]],
     so_records = [[(''id'', PStr ''r1''), (''l'', PList [PStr ''r2''])], [(''id'', PStr ''r2'')]], so_rest = []\<rparr>"

theorem filter_store_no_leak_witness:
  "map (\<lambda>r. py_str (dget r ''id'')) (so_records (fst (filter_store_for_user example_rows ''t'' example_store 5 (Some ''edit'')))) = [''r1'']"
proof -
  have h: "distinct (map rec_key (t_records example_rows))"
    "distinct (map field_dict_id (filter is_relation_field (so_fields example_store)))"
    "''id'' \<notin> field_dict_id ` set (so_fields example_store)"
    by (code_simp, code_simp, code_simp)
  obtain st' pol where r: "filter_store_for_user example_rows ''t'' example_store 5 (Some ''edit'') = (st', pol)"
    by (cases "filter_store_for_user example_rows ''t'' example_store 5 (Some ''edit'')")
  have "filter (\<lambda>i. \<not> row_hidden_id example_rows ''t'' 5 (Some ''edit'') i)
      (map (\<lambda>r. py_str (dget r ''id'')) (so_records example_store)) = [''r1'']"
    by code_simp
  with filter_store_no_leak[OF h r] r show ?thesis by simp
qed

section \<open>Changing the policy\<close>

lemma policy_update_find:
  "find (\<lambda>p. pol_table p = x) (map (\<lambda>p. if pol_table p = tbl then p\<lparr>pol_mode := m, pol_field := f\<rparr> else p) ps)
   = (if x = tbl then map_option (\<lambda>_. \<lparr>pol_table = tbl, pol_mode = m, pol_field = f\<rparr>) (find (\<lambda>p. pol_table p = x) ps)
      else find (\<lambda>p. pol_table p = x) ps)"
  by (induction ps) auto

text \<open>Setting a row policy either fails and leaves the session as it was, or stores it durably: reading the policy back gives exactly what the call returned, a member-field policy names an existing member field of the table, and the policies of the other tables do not change.\<close>

theorem set_policy_roundtrip:
  assumes run: "set_row_permission_policy tbl mode mf s = (r, s')"
  shows "case r of
      Inl e \<Rightarrow> exn_class e = ValueError \<and> s' = s
    | Inr p \<Rightarrow> get_row_permission_policy (work s') tbl = p \<and> committed s' = work s'
        \<and> (\<forall>x. x \<noteq> tbl \<longrightarrow> get_row_permission_policy (work s') x = get_row_permission_policy (work s) x)
        \<and> (pv_mode p = ''member_field'' \<longrightarrow> (\<exists>f\<in>set (t_fields (work s')).
             fld_table f = tbl \<and> fld_type f = ''member'' \<and> pv_member p = Some (fld_id f)))"
proof -
  let ?mode = "lower (strip mode)"
  show ?thesis
  proof (cases "?mode \<in> set row_permission_modes")
    case False
    with run show ?thesis
      by (auto simp: set_row_permission_policy_def then_op_def bind_op_def throw_if_def throw_def Let_def)
  next
    case True
    show ?thesis
    proof (cases "check_policy_field (work s) tbl ?mode mf")
      case (Inl e)
      moreover have "exn_class e = ValueError"
        using Inl by (auto simp: check_policy_field_def split: option.splits if_splits)
      ultimately show ?thesis using run True
        by (auto simp: set_row_permission_policy_def then_op_def bind_op_def throw_if_def ret_def reads_def of_res_def Let_def)
    next
      case (Inr fid)
      have cf: "?mode = ''member_field'' \<Longrightarrow> \<exists>f\<in>set (t_fields (work s)).
             fld_table f = tbl \<and> fld_type f = ''member'' \<and> fid = Some (fld_id f)"
        using Inr by (auto simp: check_policy_field_def select_first_def split: option.splits if_splits dest!: find_SomeD)
      let ?row = "\<lparr>pol_table = tbl, pol_mode = ?mode, pol_field = fid\<rparr>"
      let ?ps = "t_policies (work s)"
      define ps' where "ps' = (if find (\<lambda>p. pol_table p = tbl) ?ps = None then ?ps @ [?row]
        else map (\<lambda>p. if pol_table p = tbl then p\<lparr>pol_mode := ?mode, pol_field := fid\<rparr> else p) ?ps)"
      have r: "r = Inr (policy_dict (Some ?row))" and w: "work s' = (work s)\<lparr>t_policies := ps'\<rparr>"
        and c: "committed s' = work s'"
        using run True Inr
        by (auto simp: set_row_permission_policy_def then_op_def bind_op_def throw_if_def ret_def reads_def of_res_def Let_def
            update_rows_def writes_def insert_row_def commit_def select_first_def find_None_iff ps'_def dest!: find_SomeD
            split: option.splits prod.splits sum.splits if_splits)
      have look: "find (\<lambda>p. pol_table p = x) ps' = (if x = tbl then Some ?row else find (\<lambda>p. pol_table p = x) ?ps)" for x
        by (auto simp: ps'_def find_append policy_update_find split: option.splits)
      have "pv_mode (policy_dict (Some ?row)) = ?mode" using True by (simp add: policy_dict_def Let_def)
      moreover have "?mode = ''member_field'' \<Longrightarrow> pv_member (policy_dict (Some ?row)) = fid"
        by (simp add: policy_dict_def row_permission_modes_def)
      ultimately show ?thesis
        using cf by (simp add: r w c get_row_permission_policy_def select_first_def look)
    qed
  qed
qed

theorem set_policy_roundtrip_witness:
  "fst (set_row_permission_policy ''t'' '' Creator '' None
      \<lparr>work = example_rows, committed = example_rows, uuids = \<lambda>_. [], uuid_pos = 0, clock = \<lambda>_. 0, clock_pos = 0\<rparr>)
    = Inr \<lparr>pv_mode = ''creator'', pv_member = None, pv_enabled = True\<rparr>
   \<and> pv_mode (get_row_permission_policy (work (snd (set_row_permission_policy ''t'' '' Creator '' None
      \<lparr>work = example_rows, committed = example_rows, uuids = \<lambda>_. [], uuid_pos = 0, clock = \<lambda>_. 0, clock_pos = 0\<rparr>))) ''t'') = ''creator''"
proof -
  let ?s = "\<lparr>work = example_rows, committed = example_rows, uuids = \<lambda>_. [], uuid_pos = 0, clock = \<lambda>_. 0, clock_pos = 0\<rparr>"
  obtain r s' where run: "set_row_permission_policy ''t'' '' Creator '' None ?s = (r, s')"
    by (cases "set_row_permission_policy ''t'' '' Creator '' None ?s")
  have f: "fst (set_row_permission_policy ''t'' '' Creator '' None ?s) = Inr \<lparr>pv_mode = ''creator'', pv_member = None, pv_enabled = True\<rparr>"
    by code_simp
  from set_policy_roundtrip[OF run] run f show ?thesis by auto
qed

end
