(* ===== verification/Operations.thy ===== *)
theory Operations
  imports Session
begin

text \<open>
  What the operations of the services share. The interface \<open>orm_table\<close> is a table of the
  database as the operations use it (read it, replace its rows, its primary key); every table
  of the model is an instance. The predicates on operations: \<open>keeps I\<close> (the invariant \<open>I\<close>
  of the tables survives, error or not), \<open>no_commit\<close> (nothing becomes durable), \<open>atomic_op\<close>
  (an error leaves the durable tables as they were). Each has its rules in a collection, so
  that a composed operation is discharged by applying the collection.
\<close>

named_theorems op_eval \<open>an operation applied to a session\<close>
named_theorems keeps_intro \<open>composition rules for invariants\<close>
named_theorems no_commit_intro \<open>operations that make nothing durable\<close>
named_theorems total_intro \<open>operations that cannot raise\<close>
named_theorems atomic_intro \<open>operations whose errors leave the durable tables alone\<close>

section \<open>Evaluation\<close>

lemma bind_op_eval [op_eval]:
  "bind_op m f s = (case m s of (Inl e, s') \<Rightarrow> (Inl e, s') | (Inr x, s') \<Rightarrow> f x s')"
  by (simp add: bind_op_def)

lemma then_op_eval [op_eval]:
  "then_op m n s = (case m s of (Inl e, s') \<Rightarrow> (Inl e, s') | (Inr x, s') \<Rightarrow> n s')"
  by (simp add: then_op_def bind_op_def)

lemma basic_eval [op_eval]:
  "ret x s = (Inr x, s)" "throw e s = (Inl e, s)" "reads q s = (Inr (q (work s)), s)"
  "writes f s = (Inr (), s\<lparr>work := f (work s)\<rparr>)" "of_res r s = (r, s)"
  "commit s = (Inr (), s\<lparr>committed := work s\<rparr>)" "rollback s = (Inr (), s\<lparr>work := committed s\<rparr>)"
  "throw_if b e s = (if b then (Inl e, s) else (Inr (), s))"
  "uuid_hex s = (Inr (uuids s (uuid_pos s)), s\<lparr>uuid_pos := Suc (uuid_pos s)\<rparr>)"
  "utcnow s = (Inr (clock s (clock_pos s)), s\<lparr>clock_pos := Suc (clock_pos s)\<rparr>)"
  by (simp_all add: ret_def throw_def reads_def writes_def of_res_def commit_def rollback_def throw_if_def
      uuid_hex_def utcnow_def new_id_def bind_op_def)

lemma new_id_eval [op_eval]:
  "new_id p s = (Inr (p @ ''_'' @ uuids s (uuid_pos s)), s\<lparr>uuid_pos := Suc (uuid_pos s)\<rparr>)"
  by (simp add: new_id_def bind_op_def uuid_hex_def ret_def)

lemma update_rows_eval [op_eval]:
  "update_rows upd P f s = (Inr (), s\<lparr>work := upd (map (\<lambda>r. if P r then f r else r)) (work s)\<rparr>)"
  by (simp add: update_rows_def writes_def)

lemma delete_rows_eval [op_eval]:
  "delete_rows upd P s = (Inr (), s\<lparr>work := upd (filter (\<lambda>r. \<not> P r)) (work s)\<rparr>)"
  by (simp add: delete_rows_def writes_def)

lemma bind_op_Inr: "bind_op m f s = (Inr y, s'') \<longleftrightarrow> (\<exists>x s'. m s = (Inr x, s') \<and> f x s' = (Inr y, s''))"
  by (auto simp: bind_op_def split: prod.splits sum.splits)

lemma bind_op_Inl: "bind_op m f s = (Inl e, s'') \<longleftrightarrow>
    m s = (Inl e, s'') \<or> (\<exists>x s'. m s = (Inr x, s') \<and> f x s' = (Inl e, s''))"
  by (auto simp: bind_op_def split: prod.splits sum.splits)

lemma insert_row_Inr: "insert_row get upd key r s = (Inr x, s') \<longleftrightarrow>
    key r \<notin> key ` set (get (work s)) \<and> s' = s\<lparr>work := upd (\<lambda>rs. rs @ [r]) (work s)\<rparr>"
  by (auto simp: insert_row_def)

lemma insert_row_Inl: "insert_row get upd key r s = (Inl e, s') \<longleftrightarrow>
    key r \<in> key ` set (get (work s)) \<and> e = Exn IntegrityError ''UNIQUE constraint failed'' \<and> s' = s\<lparr>work := committed s\<rparr>"
  by (auto simp: insert_row_def)

section \<open>Invariants\<close>

definition keeps :: "(tables \<Rightarrow> bool) \<Rightarrow> 'a op \<Rightarrow> bool" where
  "keeps I m \<longleftrightarrow> (\<forall>s. I (work s) \<longrightarrow> I (committed s) \<longrightarrow> I (work (snd (m s))) \<and> I (committed (snd (m s))))"

lemma keepsD: "keeps I m \<Longrightarrow> m s = (r, s') \<Longrightarrow> I (work s) \<Longrightarrow> I (committed s) \<Longrightarrow> I (work s') \<and> I (committed s')"
  by (metis keeps_def snd_conv)

lemma keeps_bind [keeps_intro]: "keeps I m \<Longrightarrow> (\<And>x. keeps I (f x)) \<Longrightarrow> keeps I (bind_op m f)"
  by (auto simp: keeps_def bind_op_def split: prod.splits sum.splits)

lemma keeps_then [keeps_intro]: "keeps I m \<Longrightarrow> keeps I n \<Longrightarrow> keeps I (then_op m n)"
  unfolding then_op_def by (rule keeps_bind)

lemma keeps_basic [keeps_intro]:
  "keeps I (ret x)" "keeps I (throw e)" "keeps I (reads q)" "keeps I (of_res r)" "keeps I (throw_if b e)"
  "keeps I commit" "keeps I rollback" "keeps I uuid_hex" "keeps I utcnow" "keeps I (new_id p)"
  by (auto simp: keeps_def op_eval)

lemma keeps_writes: "(\<And>t. I t \<Longrightarrow> I (f t)) \<Longrightarrow> keeps I (writes f)"
  by (simp add: keeps_def op_eval)

lemma keeps_map_op [keeps_intro]: "(\<And>x. keeps I (f x)) \<Longrightarrow> keeps I (map_op f xs)"
  by (induction xs) (auto intro!: keeps_intro)

lemma keeps_catch [keeps_intro]: "keeps I m \<Longrightarrow> (\<And>e. keeps I (h e)) \<Longrightarrow> keeps I (catch m h)"
  by (auto simp: keeps_def catch_def split: prod.splits sum.splits)

section \<open>Nothing durable, and errors\<close>

definition no_commit :: "'a op \<Rightarrow> bool" where
  "no_commit m \<longleftrightarrow> (\<forall>s. committed (snd (m s)) = committed s)"

definition total_op :: "'a op \<Rightarrow> bool" where
  "total_op m \<longleftrightarrow> (\<forall>s. \<exists>x. fst (m s) = Inr x)"

definition atomic_op :: "'a op \<Rightarrow> bool" where
  "atomic_op m \<longleftrightarrow> (\<forall>s e s'. m s = (Inl e, s') \<longrightarrow> committed s' = committed s)"

lemma no_commitD: "no_commit m \<Longrightarrow> m s = (r, s') \<Longrightarrow> committed s' = committed s"
  by (metis no_commit_def snd_conv)

lemma no_commit_bind [no_commit_intro]: "no_commit m \<Longrightarrow> (\<And>x. no_commit (f x)) \<Longrightarrow> no_commit (bind_op m f)"
  unfolding no_commit_def bind_op_def by (auto split: prod.splits sum.splits) (metis snd_conv)+

lemma no_commit_then [no_commit_intro]: "no_commit m \<Longrightarrow> no_commit n \<Longrightarrow> no_commit (then_op m n)"
  unfolding then_op_def by (rule no_commit_bind)

lemma no_commit_basic [no_commit_intro]:
  "no_commit (ret x)" "no_commit (throw e)" "no_commit (reads q)" "no_commit (of_res r)" "no_commit (throw_if b e)"
  "no_commit rollback" "no_commit uuid_hex" "no_commit utcnow" "no_commit (new_id p)" "no_commit (writes f)"
  by (auto simp: no_commit_def op_eval)

lemma no_commit_rows [no_commit_intro]:
  "no_commit (insert_row get upd key r)" "no_commit (update_rows upd P f)" "no_commit (delete_rows upd P)"
  by (auto simp: no_commit_def op_eval insert_row_def)

lemma no_commit_map_op [no_commit_intro]: "(\<And>x. no_commit (f x)) \<Longrightarrow> no_commit (map_op f xs)"
  by (induction xs) (auto intro!: no_commit_intro)

lemma total_basic [total_intro]:
  "total_op (ret x)" "total_op (reads q)" "total_op commit" "total_op rollback" "total_op uuid_hex" "total_op utcnow"
  "total_op (new_id p)" "total_op (writes f)" "total_op (update_rows u P g)" "total_op (delete_rows u' P')"
  by (auto simp: total_op_def op_eval)

lemma total_bind [total_intro]: "total_op m \<Longrightarrow> (\<And>x. total_op (f x)) \<Longrightarrow> total_op (bind_op m f)"
  unfolding total_op_def bind_op_def by (auto split: prod.splits sum.splits) (metis fst_conv Inl_Inr_False)+

lemma total_then [total_intro]: "total_op m \<Longrightarrow> total_op n \<Longrightarrow> total_op (then_op m n)"
  unfolding then_op_def by (rule total_bind)

lemma atomic_no_commit: "no_commit m \<Longrightarrow> atomic_op m"
  by (metis atomic_op_def no_commitD)

lemma atomic_total: "total_op m \<Longrightarrow> atomic_op m"
  by (metis atomic_op_def total_op_def fst_conv Inl_Inr_False)

lemma atomic_bind [atomic_intro]: "no_commit m \<Longrightarrow> (\<And>x. atomic_op (f x)) \<Longrightarrow> atomic_op (bind_op m f)"
  unfolding atomic_op_def by (auto simp: bind_op_Inl dest: no_commitD)

lemma atomic_then [atomic_intro]: "no_commit m \<Longrightarrow> atomic_op n \<Longrightarrow> atomic_op (then_op m n)"
  unfolding then_op_def by (rule atomic_bind)

lemma atomic_commit_ret [atomic_intro]: "atomic_op (then_op commit (ret x))"
  by (rule atomic_total) (intro total_intro)

lemma atomic_commit [atomic_intro]: "atomic_op commit"
  by (rule atomic_total) (rule total_basic)

lemma atomic_bind_last: "atomic_op m \<Longrightarrow> (\<And>x. total_op (f x)) \<Longrightarrow> atomic_op (bind_op m f)"
  unfolding atomic_op_def by (auto simp: bind_op_Inl) (metis total_op_def fst_conv Inl_Inr_False)

lemma atomic_then_last: "atomic_op m \<Longrightarrow> total_op n \<Longrightarrow> atomic_op (then_op m n)"
  unfolding then_op_def by (rule atomic_bind_last)

lemma atomic_cases:
  "(b \<Longrightarrow> atomic_op m) \<Longrightarrow> (\<not> b \<Longrightarrow> atomic_op n) \<Longrightarrow> atomic_op (if b then m else n)"
  "atomic_op k \<Longrightarrow> (\<And>y. atomic_op (g y)) \<Longrightarrow> atomic_op (case v of None \<Rightarrow> k | Some y \<Rightarrow> g y)"
  by (simp_all split: option.splits)

lemma no_commit_cases:
  "no_commit m \<Longrightarrow> no_commit n \<Longrightarrow> no_commit (if b then m else n)"
  "no_commit k \<Longrightarrow> (\<And>y. no_commit (g y)) \<Longrightarrow> no_commit (case v of None \<Rightarrow> k | Some y \<Rightarrow> g y)"
  by (simp_all split: option.splits)

text \<open>Tried in this order on a service function that ends in a commit.\<close>

lemmas atomic_steps = atomic_commit_ret atomic_commit atomic_cases atomic_then atomic_bind

section \<open>Which exceptions\<close>

definition raises_in :: "exn_class set \<Rightarrow> 'a op \<Rightarrow> bool" where
  "raises_in C m \<longleftrightarrow> (\<forall>s e s'. m s = (Inl e, s') \<longrightarrow> exn_class e \<in> C)"

lemma raisesD: "raises_in C m \<Longrightarrow> m s = (Inl e, s') \<Longrightarrow> exn_class e \<in> C"
  unfolding raises_in_def by blast

named_theorems raises_intro \<open>the classes of the exceptions an operation raises\<close>

lemma raises_bind [raises_intro]: "raises_in C m \<Longrightarrow> (\<And>x. raises_in C (f x)) \<Longrightarrow> raises_in C (bind_op m f)"
  unfolding raises_in_def bind_op_Inl by blast

lemma raises_then [raises_intro]: "raises_in C m \<Longrightarrow> raises_in C n \<Longrightarrow> raises_in C (then_op m n)"
  unfolding then_op_def by (rule raises_bind)

lemma raises_total: "total_op m \<Longrightarrow> raises_in C m"
  unfolding raises_in_def total_op_def by (metis Inl_Inr_False fst_conv)

lemma raises_basic [raises_intro]:
  "raises_in C (ret x)" "raises_in C (reads q)" "raises_in C commit" "raises_in C rollback"
  "raises_in C uuid_hex" "raises_in C utcnow" "raises_in C (new_id p)" "raises_in C (writes f)"
  "raises_in C (update_rows u P g)" "raises_in C (delete_rows u' P')"
  by (auto intro!: raises_total total_intro)

lemma raises_throw [raises_intro]: "exn_class e \<in> C \<Longrightarrow> raises_in C (throw e)"
  by (simp add: raises_in_def op_eval)

lemma raises_insert [raises_intro]: "IntegrityError \<in> C \<Longrightarrow> raises_in C (insert_row get upd key r)"
  by (auto simp: raises_in_def insert_row_Inl)

lemma raises_map_op [raises_intro]: "(\<And>x. raises_in C (f x)) \<Longrightarrow> raises_in C (map_op f xs)"
  by (induction xs) (auto intro!: raises_intro)

section \<open>What a successful run preserves\<close>

definition inv_ok :: "(tables \<Rightarrow> bool) \<Rightarrow> 'a op \<Rightarrow> bool" where
  "inv_ok I m \<longleftrightarrow> (\<forall>s x s'. m s = (Inr x, s') \<longrightarrow> I (work s) \<longrightarrow> I (work s'))"

lemma inv_okD: "inv_ok I m \<Longrightarrow> m s = (Inr x, s') \<Longrightarrow> I (work s) \<Longrightarrow> I (work s')"
  unfolding inv_ok_def by blast

named_theorems inv_intro \<open>composition rules for what a successful run preserves\<close>

lemma inv_bind [inv_intro]: "inv_ok I m \<Longrightarrow> (\<And>x. inv_ok I (f x)) \<Longrightarrow> inv_ok I (bind_op m f)"
  unfolding inv_ok_def bind_op_Inr by blast

lemma inv_then [inv_intro]: "inv_ok I m \<Longrightarrow> inv_ok I n \<Longrightarrow> inv_ok I (then_op m n)"
  unfolding then_op_def by (rule inv_bind)

lemma inv_basic [inv_intro]:
  "inv_ok I (ret x)" "inv_ok I (throw e)" "inv_ok I (reads q)" "inv_ok I (of_res r)" "inv_ok I (throw_if b e)"
  "inv_ok I commit" "inv_ok I uuid_hex" "inv_ok I utcnow" "inv_ok I (new_id p)"
  by (auto simp: inv_ok_def op_eval)

lemma inv_map_op [inv_intro]: "(\<And>x. inv_ok I (f x)) \<Longrightarrow> inv_ok I (map_op f xs)"
  by (induction xs) (auto intro!: inv_intro)

lemma inv_insert [inv_intro]: "(\<And>t. I t \<Longrightarrow> I (upd (\<lambda>rs. rs @ [r]) t)) \<Longrightarrow> inv_ok I (insert_row get upd key r)"
  by (auto simp: inv_ok_def insert_row_Inr)

lemma inv_update [inv_intro]: "(\<And>t. I t \<Longrightarrow> I (upd (map (\<lambda>r. if P r then f r else r)) t)) \<Longrightarrow> inv_ok I (update_rows upd P f)"
  by (auto simp: inv_ok_def op_eval)

lemma inv_delete [inv_intro]: "(\<And>t. I t \<Longrightarrow> I (upd (filter (\<lambda>r. \<not> P r)) t)) \<Longrightarrow> inv_ok I (delete_rows upd P)"
  by (auto simp: inv_ok_def op_eval)

section \<open>The tables of the database\<close>

locale orm_table =
  fixes get :: "tables \<Rightarrow> 'r list"
    and upd :: "('r list \<Rightarrow> 'r list) \<Rightarrow> tables \<Rightarrow> tables"
    and key :: "'r \<Rightarrow> 'k"
  assumes get_upd: "get (upd f t) = f (get t)"
    and keys_get: "keys_ok t \<Longrightarrow> distinct (map key (get t))"
    and keys_upd: "keys_ok t \<Longrightarrow> distinct (map key (f (get t))) \<Longrightarrow> keys_ok (upd f t)"
begin

lemma insert_keeps: "keeps keys_ok (insert_row get upd key r)"
proof -
  have "keys_ok (upd (\<lambda>rs. rs @ [r]) t)" if "keys_ok t" "key r \<notin> key ` set (get t)" for t
    by (rule keys_upd[OF that(1)]) (use keys_get[OF that(1)] that(2) in auto)
  then show ?thesis by (auto simp: keeps_def insert_row_def)
qed

lemma update_keeps: "(\<And>r. key (f r) = key r) \<Longrightarrow> keeps keys_ok (update_rows upd P f)"
proof -
  assume f: "\<And>r. key (f r) = key r"
  then have m: "map key (map (\<lambda>r. if P r then f r else r) rs) = map key rs" for rs by simp
  have "keys_ok (upd (map (\<lambda>r. if P r then f r else r)) t)" if k: "keys_ok t" for t
    using keys_upd[OF k] keys_get[OF k] m by metis
  then show ?thesis by (simp add: keeps_def op_eval)
qed

lemma delete_keeps: "keeps keys_ok (delete_rows upd P)"
proof -
  have "keys_ok (upd (filter (\<lambda>r. \<not> P r)) t)" if k: "keys_ok t" for t
    using keys_upd[OF k] distinct_map_filterI[OF keys_get[OF k]] by blast
  then show ?thesis by (simp add: keeps_def op_eval)
qed

lemma unique: "keys_ok t \<Longrightarrow> r \<in> set (get t) \<Longrightarrow> r' \<in> set (get t) \<Longrightarrow> key r = key r' \<Longrightarrow> r = r'"
  using keys_get by (metis distinct_map inj_onD)

end

interpretation tf: orm_table t_fields t_fields_update fld_key by unfold_locales (auto simp: keys_ok_def)
interpretation tr: orm_table t_records t_records_update rec_key by unfold_locales (auto simp: keys_ok_def)
interpretation tv: orm_table t_views t_views_update vw_key by unfold_locales (auto simp: keys_ok_def)
interpretation tfl: orm_table t_filters t_filters_update flt_key by unfold_locales (auto simp: keys_ok_def)
interpretation tso: orm_table t_sorts t_sorts_update srt_key by unfold_locales (auto simp: keys_ok_def)
interpretation tgr: orm_table t_groups t_groups_update grp_key by unfold_locales (auto simp: keys_ok_def)
interpretation tpo: orm_table t_policies t_policies_update pol_table by unfold_locales (auto simp: keys_ok_def)
interpretation tit: orm_table t_items t_items_update itm_id by unfold_locales (auto simp: keys_ok_def)
interpretation tpe: orm_table t_perms t_perms_update ip_key by unfold_locales (auto simp: keys_ok_def)
interpretation tme: orm_table t_members t_members_update mb_key by unfold_locales (auto simp: keys_ok_def)
interpretation tus: orm_table t_users t_users_update usr_id by unfold_locales (auto simp: keys_ok_def)
interpretation tcs: orm_table t_sets t_sets_update cs_id by unfold_locales (auto simp: keys_ok_def)
interpretation tci: orm_table t_changes t_changes_update ci_id by unfold_locales (auto simp: keys_ok_def)
interpretation trb: orm_table t_recycle t_recycle_update rb_id by unfold_locales (auto simp: keys_ok_def)
interpretation tar: orm_table t_rules t_rules_update ar_id by unfold_locales (auto simp: keys_ok_def)
interpretation tev: orm_table t_events t_events_update ev_id by unfold_locales (auto simp: keys_ok_def)
interpretation tex: orm_table t_execs t_execs_update ex_id by unfold_locales (auto simp: keys_ok_def)
interpretation tno: orm_table t_notes t_notes_update nt_id by unfold_locales (auto simp: keys_ok_def)
interpretation tws: orm_table t_workspaces t_workspaces_update wsp_id by unfold_locales (auto simp: keys_ok_def)
interpretation tdb: orm_table t_dashboards t_dashboards_update dsh_id by unfold_locales (auto simp: keys_ok_def)
interpretation twd: orm_table t_widgets t_widgets_update wdg_id by unfold_locales (auto simp: keys_ok_def)
interpretation tcm: orm_table t_comments t_comments_update cm_id by unfold_locales (auto simp: keys_ok_def)
interpretation tmn: orm_table t_mentions t_mentions_update mn_id by unfold_locales (auto simp: keys_ok_def)
interpretation ttp: orm_table t_profiles t_profiles_update tpf_table by unfold_locales (auto simp: keys_ok_def)

lemmas table_inserts [keeps_intro] =
  tf.insert_keeps tr.insert_keeps tv.insert_keeps tfl.insert_keeps tso.insert_keeps tgr.insert_keeps
  tpo.insert_keeps tit.insert_keeps tpe.insert_keeps tme.insert_keeps tus.insert_keeps tcs.insert_keeps
  tci.insert_keeps trb.insert_keeps tar.insert_keeps tev.insert_keeps tex.insert_keeps tno.insert_keeps tws.insert_keeps tdb.insert_keeps twd.insert_keeps
  tcm.insert_keeps tmn.insert_keeps ttp.insert_keeps

lemmas table_updates [keeps_intro] =
  tf.update_keeps tr.update_keeps tv.update_keeps tfl.update_keeps tso.update_keeps tgr.update_keeps
  tpo.update_keeps tit.update_keeps tpe.update_keeps tme.update_keeps tus.update_keeps tcs.update_keeps
  tci.update_keeps trb.update_keeps tar.update_keeps tev.update_keeps tex.update_keeps tno.update_keeps tws.update_keeps tdb.update_keeps twd.update_keeps
  tcm.update_keeps tmn.update_keeps ttp.update_keeps

lemmas table_deletes [keeps_intro] =
  tf.delete_keeps tr.delete_keeps tv.delete_keeps tfl.delete_keeps tso.delete_keeps tgr.delete_keeps
  tpo.delete_keeps tit.delete_keeps tpe.delete_keeps tme.delete_keeps tus.delete_keeps tcs.delete_keeps
  tci.delete_keeps trb.delete_keeps tar.delete_keeps tev.delete_keeps tex.delete_keeps tno.delete_keeps tws.delete_keeps tdb.delete_keeps twd.delete_keeps
  tcm.delete_keeps tmn.delete_keeps ttp.delete_keeps

end
