(* ===== verification/ChangeHistory.thy ===== *)
theory ChangeHistory
  imports Operations
begin

text \<open>
  \<open>src/app/services/change_history.py\<close>: the audit log of record changes. A change set and
  its items are appended by every record operation; \<open>undo_change_set\<close> validates all items,
  then applies the inverse of each (restoring deletes first, reverting updates, deleting
  creates last) and appends the inverse as a change set of its own; deleted records wait in
  the recycle bin, from which they are restored (by undoing the delete) or purged together
  with every snapshot the history holds of them.
\<close>

section \<open>Definitions\<close>

definition record_version :: "table_record \<Rightarrow> int" where
  "record_version r = max 1 (if rec_version r \<noteq> 0 then rec_version r else 1)"

definition record_meta :: "table_record \<Rightarrow> change_meta" where
  "record_meta r = RecordMeta (rec_order r) (rec_creator r)"

definition changed_fields :: "dict option \<Rightarrow> dict option \<Rightarrow> string list" where
  "changed_fields before after = (case (before, after) of
       (Some b, Some a) \<Rightarrow>
         sort (filter (\<lambda>k. \<not> py_eq (dget b k) (dget a k)) (dedup (dkeys b @ dkeys a)))
     | (Some b, None) \<Rightarrow> sort (dkeys b)
     | (None, Some a) \<Rightarrow> sort (dkeys a)
     | (None, None) \<Rightarrow> [])"

definition history_workspace_id :: "tables \<Rightarrow> string option \<Rightarrow> string option" where
  "history_workspace_id t table_id = (case table_id of
       None \<Rightarrow> None
     | Some i \<Rightarrow> if i = [] then None
         else map_option itm_ws (select_first t_items (\<lambda>x. itm_id x = i) t))"

text \<open>The dictionaries passed as \<open>items\<close>, and the keyword arguments of \<open>append_change_set\<close>.\<close>

record change_in =
  in_table :: string
  in_etype :: string
  in_entity :: string
  in_before :: "dict option"
  in_after :: "dict option"
  in_bmeta :: "change_meta option"
  in_ameta :: "change_meta option"
  in_vbefore :: "int option"
  in_vafter :: "int option"
  in_changed :: "string list option"

record change_req =
  rq_table :: "string option"
  rq_actor :: "int option"
  rq_operation :: string
  rq_actor_type :: string
  rq_source :: "string option"
  rq_trace :: "string option"
  rq_summary :: string
  rq_status :: string
  rq_parent :: "string option"
  rq_id :: "string option"

definition none_if_empty :: "string option \<Rightarrow> string option" where
  "none_if_empty x = (if x = Some [] then None else x)"

definition str_or :: "string \<Rightarrow> string \<Rightarrow> string" where
  "str_or s d = (if s = [] then d else s)"

definition change_item_row :: "string \<Rightarrow> change_req \<Rightarrow> nat \<Rightarrow> change_in \<Rightarrow> string \<Rightarrow> change_item" where
  "change_item_row change_id rq index item i =
     \<lparr>ci_id = i, ci_set = change_id,
      ci_table = str_or (in_table item) (case rq_table rq of None \<Rightarrow> [] | Some x \<Rightarrow> x),
      ci_etype = str_or (in_etype item) ''record'',
      ci_entity = in_entity item,
      ci_before = in_before item, ci_after = in_after item,
      ci_bmeta = in_bmeta item, ci_ameta = in_ameta item,
      ci_vbefore = in_vbefore item, ci_vafter = in_vafter item,
      ci_changed = (case in_changed item of
          Some c \<Rightarrow> c | None \<Rightarrow> changed_fields (in_before item) (in_after item)),
      ci_order = index\<rparr>"

definition add_change_item :: "string \<Rightarrow> change_req \<Rightarrow> nat \<times> change_in \<Rightarrow> unit op" where
  "add_change_item change_id rq = (\<lambda>(index, item).
     bind_op (new_id ''chi'') (\<lambda>i.
     insert_row t_changes t_changes_update ci_id (change_item_row change_id rq index item i)))"

definition append_change_set :: "change_req \<Rightarrow> change_in list \<Rightarrow> change_set op" where
  "append_change_set rq items =
     bind_op (case rq_id rq of
         Some i \<Rightarrow> if i = [] then new_id ''chg'' else ret i
       | None \<Rightarrow> new_id ''chg'') (\<lambda>change_id.
     bind_op (reads (\<lambda>t. history_workspace_id t (rq_table rq))) (\<lambda>ws.
     bind_op utcnow (\<lambda>now.
     let row = \<lparr>cs_id = change_id, cs_ws = ws, cs_table = rq_table rq,
        cs_actor_type = take 32 (str_or (rq_actor_type rq) ''user''),
        cs_actor = rq_actor rq,
        cs_operation = take 64 (str_or (rq_operation rq) ''update''),
        cs_source = none_if_empty (rq_source rq), cs_trace = none_if_empty (rq_trace rq),
        cs_summary = rq_summary rq, cs_status = rq_status rq, cs_parent = rq_parent rq,
        cs_undone_at = None, cs_undone_by = None, cs_created = now\<rparr> in
     then_op (insert_row t_sets t_sets_update cs_id row)
     (bind_op (map_op (add_change_item change_id rq) (enumerate 0 items)) (\<lambda>_.
       ret row)))))"

definition get_change_set :: "tables \<Rightarrow> string \<Rightarrow> change_set option" where
  "get_change_set t i = select_first t_sets (\<lambda>c. cs_id c = i) t"

definition get_change_items :: "tables \<Rightarrow> string \<Rightarrow> change_item list" where
  "get_change_items t i =
     sort_key (\<lambda>c. (ci_order c, ci_id c)) (select t_changes (\<lambda>c. ci_set c = i) t)"

subsection \<open>Pages\<close>

record history_entry =
  he_set :: change_set
  he_etype :: string
  he_entity :: string
  he_before :: "dict option"
  he_after :: "dict option"
  he_bmeta :: "change_meta option"
  he_ameta :: "change_meta option"
  he_vbefore :: "int option"
  he_vafter :: "int option"
  he_changed :: "string list"

record 'a page =
  pg_items :: "'a list"
  pg_total :: nat
  pg_offset :: int
  pg_limit :: int
  pg_more :: bool

definition page_slice :: "int \<Rightarrow> int \<Rightarrow> 'a list \<Rightarrow> 'a list" where
  "page_slice offset limit xs = take (nat limit) (drop (nat offset) xs)"

definition list_record_history :: "tables \<Rightarrow> string \<Rightarrow> string \<Rightarrow> int \<Rightarrow> int \<Rightarrow> history_entry page" where
  "list_record_history t table_id record_id offset limit =
     (let safe_offset = max 0 offset;
          safe_limit = max 1 (min 200 limit);
          cond = (\<lambda>c. ci_table c = table_id \<and> ci_etype c = ''record'' \<and> ci_entity c = record_id);
          total = length (select t_changes cond t);
          joined = concat (map (\<lambda>c. map (\<lambda>s. (c, s)) (select t_sets (\<lambda>s. cs_id s = ci_set c) t))
                     (select t_changes cond t));
          rows = page_slice safe_offset safe_limit
                   (sort_key (\<lambda>(c, s). (- cs_created s, - int (ci_order c))) joined);
          items = map (\<lambda>(c, s). \<lparr>he_set = s, he_etype = ci_etype c, he_entity = ci_entity c,
              he_before = ci_before c, he_after = ci_after c, he_bmeta = ci_bmeta c,
              he_ameta = ci_ameta c, he_vbefore = ci_vbefore c, he_vafter = ci_vafter c,
              he_changed = ci_changed c\<rparr>) rows
      in \<lparr>pg_items = items, pg_total = total, pg_offset = safe_offset, pg_limit = safe_limit,
          pg_more = (safe_offset + int (length items) < int total)\<rparr>)"

definition newest_first :: "recycle_row list \<Rightarrow> recycle_row list" where
  "newest_first rows = rev (sort_key (\<lambda>r. (rb_deleted_at r, rb_id r)) rows)"

definition list_recycle_bin :: "tables \<Rightarrow> string \<Rightarrow> int \<Rightarrow> int \<Rightarrow> recycle_row page" where
  "list_recycle_bin t table_id offset limit =
     (let safe_offset = max 0 offset;
          safe_limit = max 1 (min 200 limit);
          rows = select t_recycle (\<lambda>r. rb_table r = table_id \<and> rb_status r = ''deleted'') t;
          items = page_slice safe_offset safe_limit (newest_first rows)
      in \<lparr>pg_items = items, pg_total = length rows, pg_offset = safe_offset, pg_limit = safe_limit,
          pg_more = (safe_offset + int (length items) < int (length rows))\<rparr>)"

subsection \<open>Undo\<close>

definition active_record :: "tables \<Rightarrow> string \<Rightarrow> string \<Rightarrow> table_record option" where
  "active_record t table_id record_id =
     select_first t_records (\<lambda>r. rec_table r = table_id \<and> rec_id r = record_id) t"

definition deleted_entry_for_change :: "tables \<Rightarrow> string \<Rightarrow> string \<Rightarrow> string \<Rightarrow> recycle_row option" where
  "deleted_entry_for_change t table_id record_id change_set_id =
     select_first t_recycle (\<lambda>r. rb_table r = table_id \<and> rb_record r = record_id
        \<and> rb_set r = Some change_set_id \<and> rb_status r = ''deleted'') t"

text \<open>\<open>int(x or y or 1)\<close>.\<close>

definition int_or :: "int option \<Rightarrow> int \<Rightarrow> int" where
  "int_or x d = (case x of None \<Rightarrow> d | Some v \<Rightarrow> if v = 0 then d else v)"

definition was_delete :: "change_item \<Rightarrow> bool" where
  "was_delete c \<longleftrightarrow> ci_before c \<noteq> None \<and> ci_after c = None"

definition was_update :: "change_item \<Rightarrow> bool" where
  "was_update c \<longleftrightarrow> ci_before c \<noteq> None \<and> ci_after c \<noteq> None"

definition was_create :: "change_item \<Rightarrow> bool" where
  "was_create c \<longleftrightarrow> ci_before c = None \<and> ci_after c \<noteq> None"

definition ci_key :: "change_item \<Rightarrow> string \<times> string" where
  "ci_key c = (ci_table c, ci_entity c)"

type_synonym active_map = "(string \<times> string) \<rightharpoonup> table_record"
type_synonym recycle_map = "(string \<times> string) \<rightharpoonup> recycle_row"

definition conflict :: "string \<Rightarrow> 'a res" where
  "conflict m = Inl (Exn ChangeConflictError m)"

definition not_undoable :: "string \<Rightarrow> exn" where
  "not_undoable m = Exn ChangeNotUndoableError m"

definition validate_item ::
  "tables \<Rightarrow> string \<Rightarrow> active_map \<times> recycle_map \<Rightarrow> change_item \<Rightarrow> (active_map \<times> recycle_map) res" where
  "validate_item t original_id = (\<lambda>(am, rm) item.
     if ci_etype item \<noteq> ''record''
     then Inl (not_undoable (''Unsupported undo entity type: '' @ ci_etype item))
     else let active = active_record t (ci_table item) (ci_entity item) in
       if was_delete item then
         (case active of
            Some _ \<Rightarrow> conflict (''Record '' @ ci_entity item @ '' was recreated after deletion'')
          | None \<Rightarrow>
              (case deleted_entry_for_change t (ci_table item) (ci_entity item) original_id of
                 None \<Rightarrow> conflict (''Deleted record '' @ ci_entity item @ '' is no longer restorable'')
               | Some recycle \<Rightarrow>
                   if int_or (Some (rb_version recycle)) 1
                        \<noteq> int_or (ci_vafter item) (int_or (Some (rb_version recycle)) 1)
                   then conflict (''Record '' @ ci_entity item @ '' version changed after deletion'')
                   else Inr (am, rm(ci_key item \<mapsto> recycle))))
       else
         (case active of
            None \<Rightarrow> conflict (''Record '' @ ci_entity item @ '' no longer exists'')
          | Some r \<Rightarrow>
              if record_version r \<noteq> int_or (ci_vafter item) 1
              then conflict (''Record '' @ ci_entity item @ '' has newer changes'')
              else Inr (am(ci_key item \<mapsto> r), rm)))"

fun validate_items ::
  "tables \<Rightarrow> string \<Rightarrow> active_map \<times> recycle_map \<Rightarrow> change_item list \<Rightarrow> (active_map \<times> recycle_map) res" where
  "validate_items t original_id maps [] = Inr maps"
| "validate_items t original_id maps (item # items) =
     bind_res (validate_item t original_id maps item) (\<lambda>m. validate_items t original_id m items)"

definition key_error :: exn where
  "key_error = Exn KeyError []"

definition restored_record :: "change_item \<Rightarrow> recycle_row \<Rightarrow> table_record" where
  "restored_record item recycle =
     \<lparr>rec_id = ci_entity item, rec_table = ci_table item,
      rec_data = (case ci_before item of None \<Rightarrow> [] | Some d \<Rightarrow> d),
      rec_order = (case ci_bmeta item of
          Some (RecordMeta n _) \<Rightarrow> int_or (Some n) (rb_order recycle) | _ \<Rightarrow> rb_order recycle),
      rec_creator = (case ci_bmeta item of Some (RecordMeta _ c) \<Rightarrow> c | _ \<Rightarrow> rb_creator recycle),
      rec_version = int_or (ci_vafter item) (int_or (Some (rb_version recycle)) 1) + 1\<rparr>"

definition restore_in :: "change_item \<Rightarrow> recycle_row \<Rightarrow> change_in" where
  "restore_in item recycle = (let restored = restored_record item recycle in
     \<lparr>in_table = ci_table item, in_etype = ''record'', in_entity = ci_entity item,
      in_before = None, in_after = Some (rec_data restored),
      in_bmeta = None, in_ameta = Some (record_meta restored),
      in_vbefore = Some (rec_version restored - 1), in_vafter = Some (rec_version restored),
      in_changed = Some (changed_fields None (Some (rec_data restored)))\<rparr>)"

definition restore_one :: "recycle_map \<Rightarrow> int option \<Rightarrow> change_item \<Rightarrow> change_in op" where
  "restore_one rm actor_id item =
     (case rm (ci_key item) of
        None \<Rightarrow> throw key_error
      | Some recycle \<Rightarrow>
          then_op (insert_row t_records t_records_update rec_key (restored_record item recycle))
          (bind_op utcnow (\<lambda>now.
           then_op (update_rows t_recycle_update (\<lambda>r. rb_id r = rb_id recycle)
             (\<lambda>r. r\<lparr>rb_status := ''restored'', rb_restored_at := Some now, rb_restored_by := actor_id\<rparr>))
           (ret (restore_in item recycle)))))"

definition reverted_record :: "change_item \<Rightarrow> table_record \<Rightarrow> table_record" where
  "reverted_record item r = r\<lparr>
      rec_data := (case ci_before item of None \<Rightarrow> [] | Some d \<Rightarrow> d),
      rec_order := (case ci_bmeta item of Some (RecordMeta n _) \<Rightarrow> n | _ \<Rightarrow> rec_order r),
      rec_creator := (case ci_bmeta item of Some (RecordMeta _ c) \<Rightarrow> c | _ \<Rightarrow> rec_creator r),
      rec_version := record_version r + 1\<rparr>"

definition revert_in :: "change_item \<Rightarrow> table_record \<Rightarrow> change_in" where
  "revert_in item r = (let r' = reverted_record item r in
     \<lparr>in_table = ci_table item, in_etype = ''record'', in_entity = ci_entity item,
      in_before = Some (rec_data r), in_after = Some (rec_data r'),
      in_bmeta = Some (record_meta r), in_ameta = Some (record_meta r'),
      in_vbefore = Some (record_version r), in_vafter = Some (rec_version r'),
      in_changed = Some (changed_fields (Some (rec_data r)) (Some (rec_data r')))\<rparr>)"

text \<open>The loaded objects are updated in place, so the map of active records follows them.\<close>

fun revert_updates :: "active_map \<Rightarrow> change_item list \<Rightarrow> (change_in list \<times> active_map) op" where
  "revert_updates am [] = ret ([], am)"
| "revert_updates am (item # items) =
     (case am (ci_key item) of
        None \<Rightarrow> throw key_error
      | Some r \<Rightarrow>
          then_op (update_rows t_records_update (\<lambda>x. rec_key x = rec_key r) (\<lambda>_. reverted_record item r))
          (bind_op (revert_updates (am(ci_key item \<mapsto> reverted_record item r)) items) (\<lambda>(ins, am').
            ret (revert_in item r # ins, am'))))"

definition recycled_row :: "change_item \<Rightarrow> table_record \<Rightarrow> string \<Rightarrow> int option \<Rightarrow> string \<Rightarrow> int \<Rightarrow> recycle_row" where
  "recycled_row item r undo_id actor_id rid now =
     \<lparr>rb_id = rid, rb_table = ci_table item, rb_record = ci_entity item,
      rb_data = rec_data r, rb_order = rec_order r, rb_creator = rec_creator r,
      rb_version = record_version r + 1, rb_deleted_by = actor_id, rb_deleted_at = now,
      rb_set = Some undo_id, rb_status = ''deleted'', rb_restored_at = None, rb_restored_by = None\<rparr>"

definition delete_in :: "change_item \<Rightarrow> table_record \<Rightarrow> change_in" where
  "delete_in item r =
     \<lparr>in_table = ci_table item, in_etype = ''record'', in_entity = ci_entity item,
      in_before = Some (rec_data r), in_after = None,
      in_bmeta = Some (record_meta r), in_ameta = None,
      in_vbefore = Some (record_version r), in_vafter = Some (record_version r + 1),
      in_changed = Some (changed_fields (Some (rec_data r)) None)\<rparr>"

definition delete_one :: "active_map \<Rightarrow> string \<Rightarrow> int option \<Rightarrow> change_item \<Rightarrow> change_in op" where
  "delete_one am undo_id actor_id item =
     (case am (ci_key item) of
        None \<Rightarrow> throw key_error
      | Some r \<Rightarrow>
          bind_op (new_id ''rcy'') (\<lambda>rid.
          bind_op utcnow (\<lambda>now.
          then_op (insert_row t_recycle t_recycle_update rb_id (recycled_row item r undo_id actor_id rid now))
          (then_op (delete_rows t_records_update (\<lambda>x. rec_key x = rec_key r))
          (ret (delete_in item r))))))"

record undo_result =
  ur_set :: change_set
  ur_undone :: string
  ur_count :: nat
  ur_tables :: "string list"

definition undo_check :: "tables \<Rightarrow> string \<Rightarrow> (change_set \<times> change_item list \<times> active_map \<times> recycle_map) res" where
  "undo_check t change_set_id =
     (case select_first t_sets (\<lambda>c. cs_id c = change_set_id) t of
        None \<Rightarrow> Inl (not_undoable ''ChangeSet not found'')
      | Some original \<Rightarrow>
          if cs_status original \<noteq> ''applied''
          then Inl (not_undoable ''ChangeSet is not in an applied state'')
          else if cs_operation original = ''purge''
          then Inl (not_undoable ''Permanent purge cannot be undone'')
          else let items = get_change_items t (cs_id original) in
            if items = [] then Inl (not_undoable ''ChangeSet has no reversible items'')
            else bind_res (validate_items t (cs_id original) (Map.empty, Map.empty) items) (\<lambda>(am, rm).
              Inr (original, items, am, rm)))"

text \<open>What runs once every item is valid.\<close>

definition undo_apply ::
  "change_set \<Rightarrow> change_item list \<Rightarrow> active_map \<Rightarrow> recycle_map \<Rightarrow> int option \<Rightarrow> string \<Rightarrow> string \<Rightarrow> string option
    \<Rightarrow> undo_result op" where
  "undo_apply original items am rm actor_id actor_type source trace_id =
     bind_op (new_id ''chg'') (\<lambda>undo_id.
     bind_op (map_op (restore_one rm actor_id) (filter was_delete items)) (\<lambda>ins1.
     bind_op (revert_updates am (filter was_update items)) (\<lambda>(ins2, am').
     bind_op (map_op (delete_one am' undo_id actor_id) (filter was_create items)) (\<lambda>ins3.
     bind_op (append_change_set
       \<lparr>rq_table = cs_table original, rq_actor = actor_id, rq_operation = ''undo'',
        rq_actor_type = actor_type, rq_source = Some source, rq_trace = trace_id,
        rq_summary = ''Undo '' @ cs_operation original @ '': '' @ str_or (cs_summary original) (cs_id original),
        rq_status = ''applied'', rq_parent = Some (cs_id original), rq_id = Some undo_id\<rparr>
       (ins1 @ ins2 @ ins3)) (\<lambda>undo_set.
     bind_op utcnow (\<lambda>now.
     then_op (update_rows t_sets_update (\<lambda>c. cs_id c = cs_id original)
       (\<lambda>c. c\<lparr>cs_status := ''undone'', cs_undone_at := Some now, cs_undone_by := actor_id\<rparr>))
     (then_op commit
     (ret \<lparr>ur_set = undo_set, ur_undone = cs_id original,
           ur_count = length (ins1 @ ins2 @ ins3),
           ur_tables = sort (dedup (map ci_table items))\<rparr>))))))))"

definition undo_change_set ::
  "string \<Rightarrow> int option \<Rightarrow> string \<Rightarrow> string \<Rightarrow> string option \<Rightarrow> undo_result op" where
  "undo_change_set change_set_id actor_id actor_type source trace_id =
     bind_op (reads (\<lambda>t. undo_check t change_set_id)) (\<lambda>checked.
     bind_op (of_res checked) (\<lambda>(original, items, am, rm).
       undo_apply original items am rm actor_id actor_type source trace_id))"

subsection \<open>The recycle bin\<close>

definition latest_deleted :: "tables \<Rightarrow> string \<Rightarrow> string \<Rightarrow> recycle_row option" where
  "latest_deleted t table_id record_id =
     (case newest_first (select t_recycle (\<lambda>r. rb_table r = table_id \<and> rb_record r = record_id
              \<and> rb_status r = ''deleted'') t) of
        [] \<Rightarrow> None | r # _ \<Rightarrow> Some r)"

definition restore_recycled_record :: "string \<Rightarrow> string \<Rightarrow> int option \<Rightarrow> undo_result option op" where
  "restore_recycled_record table_id record_id actor_id =
     bind_op (reads (\<lambda>t. latest_deleted t table_id record_id)) (\<lambda>entry.
       case entry of
         None \<Rightarrow> ret None
       | Some e \<Rightarrow>
           (case none_if_empty (rb_set e) of
              None \<Rightarrow> throw (not_undoable ''Recycle entry has no reversible ChangeSet'')
            | Some change_set_id \<Rightarrow>
                bind_op (undo_change_set change_set_id actor_id ''user'' ''recycle_restore'' None) (\<lambda>r.
                  ret (Some r))))"

definition purge_history_item :: "change_item \<Rightarrow> change_item" where
  "purge_history_item c = c\<lparr>ci_before := None, ci_after := None, ci_bmeta := None, ci_ameta := None,
     ci_changed := [''__purged__'']\<rparr>"

definition purge_recycled_record :: "string \<Rightarrow> string \<Rightarrow> int option \<Rightarrow> bool op" where
  "purge_recycled_record table_id record_id actor_id =
     bind_op (reads (\<lambda>t. latest_deleted t table_id record_id)) (\<lambda>entry.
       case entry of
         None \<Rightarrow> ret False
       | Some e \<Rightarrow>
           then_op (case none_if_empty (rb_set e) of
               None \<Rightarrow> ret ()
             | Some origin \<Rightarrow> update_rows t_sets_update (\<lambda>c. cs_id c = origin)
                 (\<lambda>c. c\<lparr>cs_status := ''irreversible''\<rparr>))
           (then_op (update_rows t_changes_update
               (\<lambda>c. ci_table c = table_id \<and> ci_etype c = ''record'' \<and> ci_entity c = record_id)
               purge_history_item)
           (bind_op (append_change_set
               \<lparr>rq_table = Some table_id, rq_actor = actor_id, rq_operation = ''purge'',
                rq_actor_type = ''user'', rq_source = Some ''recycle_bin'', rq_trace = None,
                rq_summary = ''Permanently purge record '' @ record_id, rq_status = ''irreversible'',
                rq_parent = None, rq_id = None\<rparr>
               [\<lparr>in_table = table_id, in_etype = ''record'', in_entity = record_id,
                 in_before = None, in_after = None, in_bmeta = None, in_ameta = Some PurgedMeta,
                 in_vbefore = Some (rb_version e), in_vafter = Some (rb_version e),
                 in_changed = Some [''__purged__'']\<rparr>]) (\<lambda>_.
           then_op (delete_rows t_recycle_update (\<lambda>r. rb_table r = table_id \<and> rb_record r = record_id))
           (then_op commit (ret True))))))"

section \<open>Errors of undo\<close>

lemma append_change_set_no_commit [no_commit_intro]: "no_commit (append_change_set rq items)"
  unfolding append_change_set_def add_change_item_def Let_def
  by (auto intro!: no_commit_intro split: option.splits)

lemma append_change_set_keeps [keeps_intro]: "keeps keys_ok (append_change_set rq items)"
  unfolding append_change_set_def add_change_item_def Let_def
  by (auto intro!: keeps_intro split: option.splits prod.splits)

lemma append_change_set_raises [raises_intro]: "IntegrityError \<in> C \<Longrightarrow> raises_in C (append_change_set rq items)"
  unfolding append_change_set_def add_change_item_def Let_def
  by (auto intro!: raises_intro split: option.splits prod.splits)

lemma restore_one_rules [no_commit_intro, keeps_intro, raises_intro]:
  "no_commit (restore_one rm a i)" "keeps keys_ok (restore_one rm a i)"
  "raises_in {IntegrityError, KeyError} (restore_one rm a i)"
  unfolding restore_one_def Let_def key_error_def
  by (auto intro!: no_commit_intro keeps_intro raises_intro split: option.splits)

lemma delete_one_rules [no_commit_intro, keeps_intro, raises_intro]:
  "no_commit (delete_one am u a i)" "keeps keys_ok (delete_one am u a i)"
  "raises_in {IntegrityError, KeyError} (delete_one am u a i)"
  unfolding delete_one_def Let_def key_error_def
  by (auto intro!: no_commit_intro keeps_intro raises_intro split: option.splits)

lemma revert_updates_rules [no_commit_intro, raises_intro]:
  "no_commit (revert_updates am items)" "raises_in {IntegrityError, KeyError} (revert_updates am items)"
  by (induction items arbitrary: am)
     (auto simp: Let_def key_error_def intro!: no_commit_intro raises_intro split: option.splits prod.splits)

lemma undo_eval:
  "undo_change_set cs a aty src tr s = (case undo_check (work s) cs of
      Inl e \<Rightarrow> (Inl e, s)
    | Inr (original, items, am, rm) \<Rightarrow> undo_apply original items am rm a aty src tr s)"
  by (auto simp: undo_change_set_def op_eval split: sum.splits)

lemma undo_apply_atomic: "atomic_op (undo_apply original items am rm a aty src tr)"
  unfolding undo_apply_def
  by (auto intro!: atomic_intro no_commit_intro split: prod.splits)

lemma undo_apply_raises: "raises_in {IntegrityError, KeyError} (undo_apply original items am rm a aty src tr)"
  unfolding undo_apply_def by (auto intro!: raises_intro split: prod.splits)

lemma undo_atomic: "atomic_op (undo_change_set cs a aty src tr)"
  unfolding undo_change_set_def
  by (auto intro!: atomic_bind no_commit_intro undo_apply_atomic split: prod.splits)

text \<open>C3: undoing a change set is atomic: whatever it raises, nothing becomes durable; and every error that reports that the change set cannot be undone or conflicts with newer work is raised before the first change, with the session exactly as it was.\<close>

theorem undo_error_atomic:
  assumes "undo_change_set cs a aty src tr s = (Inl e, s')"
  shows "committed s' = committed s \<and>
    (s' = s \<and> exn_class e \<in> {ChangeConflictError, ChangeNotUndoableError}
     \<or> exn_class e \<in> {IntegrityError, KeyError})"
proof
  show "committed s' = committed s" using undo_atomic assms by (metis atomic_op_def)
  show "s' = s \<and> exn_class e \<in> {ChangeConflictError, ChangeNotUndoableError} \<or> exn_class e \<in> {IntegrityError, KeyError}"
  proof (cases "undo_check (work s) cs")
    case (Inl e')
    have vi: "validate_item t oid m i = Inl x \<Longrightarrow> exn_class x \<in> {ChangeConflictError, ChangeNotUndoableError}" for t oid m i x
      by (auto simp: validate_item_def conflict_def not_undoable_def Let_def split: prod.splits if_splits option.splits)
    have "validate_items t oid m is = Inl x \<Longrightarrow> exn_class x \<in> {ChangeConflictError, ChangeNotUndoableError}" for t oid m "is" x
    proof (induction "is" arbitrary: m)
      case (Cons i "is")
      then show ?case using vi by (simp add: bind_res_Inl) blast
    qed simp
    with Inl have "exn_class e' \<in> {ChangeConflictError, ChangeNotUndoableError}"
      by (auto simp: undo_check_def not_undoable_def Let_def bind_res_Inl split: option.splits if_splits prod.splits)
    with Inl assms show ?thesis by (auto simp: undo_eval)
  next
    case (Inr x)
    then obtain original items am rm where x: "undo_check (work s) cs = Inr (original, items, am, rm)" by (cases x) auto
    with assms raisesD[OF undo_apply_raises] show ?thesis by (simp add: undo_eval)
  qed
qed

theorem undo_error_atomic_witness:
  "\<exists>e. undo_change_set ''c'' None ''user'' ''undo'' None (session_of empty_tables) = (Inl e, session_of empty_tables)
     \<and> exn_class e = ChangeNotUndoableError"
proof -
  have r: "undo_change_set ''c'' None ''user'' ''undo'' None (session_of empty_tables)
      = (Inl (not_undoable ''ChangeSet not found''), session_of empty_tables)"
    by (simp add: undo_eval undo_check_def select_first_def session_of_def empty_tables_def)
  from undo_error_atomic[OF r] show ?thesis using r by (auto simp: not_undoable_def)
qed

end
