(* ===== verification/ChangeLog.thy ===== *)
theory ChangeLog
  imports ChangeHistory
begin

text \<open>
  Lemmas on the change log that every audited operation shares: looking a record up by its
  table and id, identifiers that are still unused, and what \<open>append_change_set\<close> leaves behind.
\<close>

declare split_paired_All [simp del] split_paired_Ex [simp del]

section \<open>Looking up records\<close>

definition look :: "table_record list \<Rightarrow> string \<times> string \<Rightarrow> table_record option" where
  "look rs k = find (\<lambda>r. rec_table r = fst k \<and> rec_id r = snd k) rs"

definition tkey :: "table_record \<Rightarrow> string \<times> string" where
  "tkey r = (rec_table r, rec_id r)"

lemma active_look: "active_record t a b = look (t_records t) (a, b)"
  by (simp add: active_record_def select_first_def look_def)

lemma look_tkey: "look rs k = find (\<lambda>r. tkey r = k) rs"
  by (simp add: look_def tkey_def prod_eq_iff)

lemma look_Some: "look rs k = Some r \<Longrightarrow> r \<in> set rs \<and> tkey r = k"
  by (auto simp: look_tkey dest!: find_SomeD)

lemma look_None: "look rs k = None \<longleftrightarrow> (\<forall>r\<in>set rs. tkey r \<noteq> k)"
  by (auto simp: look_tkey find_None_iff)

lemma rec_key_tkey: "rec_key r = rec_key r' \<longleftrightarrow> tkey r = tkey r'"
  by (auto simp: rec_key_def tkey_def)

lemma look_unique: "distinct (map rec_key rs) \<Longrightarrow> r \<in> set rs \<Longrightarrow> look rs (tkey r) = Some r"
  unfolding look_tkey by (rule find_distinct_key) (simp_all add: distinct_map inj_on_def rec_key_tkey)

lemma look_append: "look (rs @ [r]) k = (case look rs k of Some x \<Rightarrow> Some x | None \<Rightarrow> if tkey r = k then Some r else None)"
  by (simp add: look_tkey find_append split: option.splits)

lemma look_update:
  "tkey r' = tkey r \<Longrightarrow> look (map (\<lambda>x. if rec_key x = rec_key r then r' else x) rs) k
     = (if k = tkey r then map_option (\<lambda>_. r') (look rs k) else look rs k)"
  by (induction rs) (auto simp: look_tkey rec_key_tkey)

lemma look_delete:
  "look (filter (\<lambda>x. \<not> rec_key x = rec_key r) rs) k = (if k = tkey r then None else look rs k)"
  by (induction rs) (auto simp: look_tkey rec_key_tkey)

section \<open>Fresh identifiers\<close>

definition log_prefixes :: "string set" where
  "log_prefixes = {''chg'', ''chi'', ''rcy''}"

definition gen_id :: "session \<Rightarrow> string \<Rightarrow> nat \<Rightarrow> string" where
  "gen_id s p n = p @ ''_'' @ uuids s n"

definition issued_ids :: "session \<Rightarrow> string set" where
  "issued_ids s = {gen_id s p n | p n. p \<in> log_prefixes \<and> n < uuid_pos s}"

definition log_ids :: "tables \<Rightarrow> string set" where
  "log_ids t = cs_id ` set (t_sets t) \<union> ci_id ` set (t_changes t) \<union> ci_set ` set (t_changes t)
     \<union> rb_id ` set (t_recycle t) \<union> {i. Some i \<in> rb_set ` set (t_recycle t)}"

text \<open>The identifiers still to be drawn differ from each other and from those in the log.\<close>

definition fresh_ids :: "session \<Rightarrow> bool" where
  "fresh_ids s \<longleftrightarrow> inj (uuids s) \<and>
     (\<forall>n\<ge>uuid_pos s. \<forall>p\<in>log_prefixes. gen_id s p n \<notin> log_ids (work s))"

lemma log_prefixes [simp]: "''chg'' \<in> log_prefixes" "''chi'' \<in> log_prefixes" "''rcy'' \<in> log_prefixes"
  by (simp_all add: log_prefixes_def)

lemma new_id_gen: "new_id p s = (Inr (gen_id s p (uuid_pos s)), s\<lparr>uuid_pos := Suc (uuid_pos s)\<rparr>)"
  by (simp add: op_eval gen_id_def)

lemma fresh_next: "fresh_ids s \<Longrightarrow> p \<in> log_prefixes \<Longrightarrow> gen_id s p (uuid_pos s) \<notin> log_ids (work s)"
  by (simp add: fresh_ids_def)

lemma gen_id_inject:
  assumes "inj (uuids s)" "p \<in> log_prefixes" "q \<in> log_prefixes" "gen_id s p n = gen_id s q m"
  shows "n = m"
proof -
  have "length p = length q" using assms(2,3) by (auto simp: log_prefixes_def)
  with assms(4) have "uuids s n = uuids s m" by (simp add: gen_id_def)
  with assms(1) show ?thesis by (auto simp: inj_def)
qed

lemma gen_id_cong: "uuids s' = uuids s \<Longrightarrow> gen_id s' = gen_id s"
  by (simp add: gen_id_def fun_eq_iff)

lemma issued_mono: "uuids s' = uuids s \<Longrightarrow> uuid_pos s \<le> uuid_pos s' \<Longrightarrow> issued_ids s \<subseteq> issued_ids s'"
  unfolding issued_ids_def gen_id_def by fastforce

lemma gen_issued: "p \<in> log_prefixes \<Longrightarrow> n < uuid_pos s \<Longrightarrow> gen_id s p n \<in> issued_ids s"
  unfolding issued_ids_def by blast

lemma fresh_grow:
  assumes "fresh_ids s" "uuids s' = uuids s" "uuid_pos s \<le> uuid_pos s'"
    and "log_ids (work s') \<subseteq> log_ids (work s) \<union> issued_ids s'"
  shows "fresh_ids s'"
proof -
  have inj: "inj (uuids s')" using assms(1,2) by (simp add: fresh_ids_def)
  have "gen_id s' p n \<notin> issued_ids s'" if "n \<ge> uuid_pos s'" "p \<in> log_prefixes" for n p
  proof
    assume "gen_id s' p n \<in> issued_ids s'"
    then obtain q m where "gen_id s' p n = gen_id s' q m" "q \<in> log_prefixes" "m < uuid_pos s'"
      by (auto simp: issued_ids_def)
    with gen_id_inject[OF inj that(2)] that(1) show False by fastforce
  qed
  moreover have "gen_id s' p n \<notin> log_ids (work s)" if "n \<ge> uuid_pos s'" "p \<in> log_prefixes" for n p
    using assms(1,3) that by (simp add: fresh_ids_def gen_id_cong[OF assms(2)])
  ultimately show ?thesis using inj assms(4) unfolding fresh_ids_def by blast
qed

text \<open>What a step of the log may do: new ids come from those issued, nothing becomes durable.\<close>

definition log_step :: "session \<Rightarrow> session \<Rightarrow> bool" where
  "log_step s s' \<longleftrightarrow> committed s' = committed s \<and> uuids s' = uuids s \<and> uuid_pos s \<le> uuid_pos s'
     \<and> t_items (work s') = t_items (work s)
     \<and> log_ids (work s') \<subseteq> log_ids (work s) \<union> issued_ids s'"

lemma log_step_refl [simp]: "log_step s s"
  by (simp add: log_step_def)

lemma log_step_trans: "log_step s s' \<Longrightarrow> log_step s' s'' \<Longrightarrow> log_step s s''"
  using issued_mono[of s'' s'] unfolding log_step_def by (auto 0 3)

lemma log_step_fresh: "log_step s s' \<Longrightarrow> fresh_ids s \<Longrightarrow> fresh_ids s'"
  unfolding log_step_def using fresh_grow by blast

section \<open>Appending to the log\<close>

lemma add_item_run:
  assumes "fresh_ids s" "cid \<in> log_ids (work s)"
  obtains i s' where "add_change_item cid rq (n, it) s = (Inr (), s')" "log_step s s'"
    "work s' = (work s)\<lparr>t_changes := t_changes (work s) @ [change_item_row cid rq n it i]\<rparr>"
proof -
  let ?i = "gen_id s ''chi'' (uuid_pos s)"
  let ?row = "change_item_row cid rq n it ?i"
  let ?s1 = "s\<lparr>uuid_pos := Suc (uuid_pos s), work := (work s)\<lparr>t_changes := t_changes (work s) @ [?row]\<rparr>\<rparr>"
  have "?i \<notin> log_ids (work s)" using fresh_next[OF assms(1)] by simp
  then have ni: "?i \<notin> ci_id ` set (t_changes (work s))" by (auto simp: log_ids_def)
  show ?thesis
  proof (rule that[of ?s1 ?i])
    show "add_change_item cid rq (n, it) s = (Inr (), ?s1)"
      using ni by (simp add: add_change_item_def bind_op_eval new_id_gen insert_row_def change_item_row_def)
    have "?i \<in> issued_ids ?s1"
      using gen_issued[of "''chi''" "uuid_pos s" ?s1] by (simp add: gen_id_def)
    then show "log_step s ?s1"
      using assms(2) by (auto simp: log_step_def log_ids_def change_item_row_def)
  qed simp
qed

lemma log_ids_mono_cid: "log_step s s' \<Longrightarrow> t_sets (work s') = t_sets (work s) \<Longrightarrow> i \<in> cs_id ` set (t_sets (work s)) \<Longrightarrow> i \<in> log_ids (work s')"
  by (simp add: log_ids_def)

lemma add_items_run:
  assumes "fresh_ids s" "cid \<in> cs_id ` set (t_sets (work s))"
  obtains rows s' where "map_op (add_change_item cid rq) (enumerate n0 items) s = (Inr (map (\<lambda>_. ()) items), s')" "log_step s s'"
    "work s' = (work s)\<lparr>t_changes := t_changes (work s) @ rows\<rparr>"
    "list_all2 (\<lambda>(n, it) row. \<exists>i. row = change_item_row cid rq n it i) (enumerate n0 items) rows"
proof -
  have "\<exists>rows s'. map_op (add_change_item cid rq) (enumerate n0 items) s = (Inr (map (\<lambda>_. ()) items), s') \<and> log_step s s'
     \<and> work s' = (work s)\<lparr>t_changes := t_changes (work s) @ rows\<rparr>
     \<and> list_all2 (\<lambda>(n, it) row. \<exists>i. row = change_item_row cid rq n it i) (enumerate n0 items) rows"
    using assms
  proof (induction items arbitrary: n0 s)
    case Nil
    then show ?case by (intro exI[of _ "[]"] exI[of _ s]) (simp add: op_eval)
  next
    case (Cons it items)
    have c: "cid \<in> log_ids (work s)" using Cons.prems(2) by (simp add: log_ids_def)
    from add_item_run[OF Cons.prems(1) c, of rq n0 it] obtain i s1
      where one: "add_change_item cid rq (n0, it) s = (Inr (), s1)" "log_step s s1"
        and w1: "work s1 = (work s)\<lparr>t_changes := t_changes (work s) @ [change_item_row cid rq n0 it i]\<rparr>" by blast
    have "fresh_ids s1" "cid \<in> cs_id ` set (t_sets (work s1))"
      using log_step_fresh[OF one(2) Cons.prems(1)] Cons.prems(2) w1 by simp_all
    from Cons.IH[OF this, of "Suc n0"] obtain rows s'
      where r: "map_op (add_change_item cid rq) (enumerate (Suc n0) items) s1 = (Inr (map (\<lambda>_. ()) items), s')" "log_step s1 s'"
        "work s' = (work s1)\<lparr>t_changes := t_changes (work s1) @ rows\<rparr>"
        "list_all2 (\<lambda>(n, it) row. \<exists>i. row = change_item_row cid rq n it i) (enumerate (Suc n0) items) rows" by blast
    show ?case
      by (rule exI[of _ "change_item_row cid rq n0 it i # rows"], rule exI[of _ s'])
         (use one r w1 log_step_trans[OF one(2) r(2)] in \<open>auto simp: op_eval\<close>)
  qed
  with that show ?thesis by blast
qed

definition change_set_id_for :: "change_req \<Rightarrow> session \<Rightarrow> string" where
  "change_set_id_for rq s = (case rq_id rq of
      Some i \<Rightarrow> if i = [] then gen_id s ''chg'' (uuid_pos s) else i
    | None \<Rightarrow> gen_id s ''chg'' (uuid_pos s))"

lemma append_change_set_run:
  assumes "fresh_ids s" and "\<forall>i. rq_id rq = Some i \<longrightarrow> i \<noteq> [] \<longrightarrow> i \<notin> cs_id ` set (t_sets (work s)) \<and> i \<in> issued_ids s"
  obtains row rows s' where "append_change_set rq items s = (Inr row, s')" "log_step s s'"
    "work s' = (work s)\<lparr>t_sets := t_sets (work s) @ [row], t_changes := t_changes (work s) @ rows\<rparr>"
    "list_all2 (\<lambda>(n, it) r. \<exists>i. r = change_item_row (cs_id row) rq n it i) (enumerate 0 items) rows"
    "cs_id row = change_set_id_for rq s" "cs_id row \<notin> cs_id ` set (t_sets (work s))"
    "cs_status row = rq_status rq" "cs_operation row = take 64 (str_or (rq_operation rq) ''update'')"
    "cs_parent row = rq_parent rq" "cs_table row = rq_table rq"
proof -
  let ?c = "change_set_id_for rq s"
  obtain s1 where s1: "(case rq_id rq of Some i \<Rightarrow> if i = [] then new_id ''chg'' else ret i | None \<Rightarrow> new_id ''chg'') s = (Inr ?c, s1)"
    "log_step s s1" "work s1 = work s" "?c \<in> issued_ids s1" "?c \<notin> cs_id ` set (t_sets (work s))"
  proof -
    let ?s1 = "s\<lparr>uuid_pos := Suc (uuid_pos s)\<rparr>"
    have g: "gen_id s ''chg'' (uuid_pos s) \<in> issued_ids ?s1" "log_step s ?s1"
      using gen_issued[of "''chg''" "uuid_pos s" ?s1] by (simp_all add: gen_id_def log_step_def)
    have n: "gen_id s ''chg'' (uuid_pos s) \<notin> cs_id ` set (t_sets (work s))"
      using fresh_next[OF assms(1), of "''chg''"] by (auto simp: log_ids_def)
    show ?thesis
    proof (cases "rq_id rq = None \<or> rq_id rq = Some []")
      case True
      with g n that[of ?s1] show ?thesis by (auto simp: change_set_id_for_def new_id_gen)
    next
      case False
      with assms(2) that[of s] show ?thesis by (auto simp: change_set_id_for_def op_eval)
    qed
  qed
  define row where "row = \<lparr>cs_id = ?c, cs_ws = history_workspace_id (work s1) (rq_table rq), cs_table = rq_table rq,
        cs_actor_type = take 32 (str_or (rq_actor_type rq) ''user''),
        cs_actor = rq_actor rq, cs_operation = take 64 (str_or (rq_operation rq) ''update''),
        cs_source = none_if_empty (rq_source rq), cs_trace = none_if_empty (rq_trace rq),
        cs_summary = rq_summary rq, cs_status = rq_status rq, cs_parent = rq_parent rq,
        cs_undone_at = None, cs_undone_by = None, cs_created = clock s1 (clock_pos s1)\<rparr>"
  define s2 where "s2 = s1\<lparr>clock_pos := Suc (clock_pos s1), work := (work s1)\<lparr>t_sets := t_sets (work s1) @ [row]\<rparr>\<rparr>"
  have ls2: "log_step s s2"
  proof (rule log_step_trans[OF s1(2)])
    have "?c \<in> issued_ids s2" using s1(4) by (simp add: s2_def issued_ids_def gen_id_def)
    then show "log_step s1 s2" by (auto simp: log_step_def s2_def log_ids_def row_def)
  qed
  have c2: "?c \<in> cs_id ` set (t_sets (work s2))" by (simp add: s2_def row_def)
  obtain rows s' where r: "map_op (add_change_item ?c rq) (enumerate 0 items) s2 = (Inr (map (\<lambda>_. ()) items), s')" "log_step s2 s'"
    "work s' = (work s2)\<lparr>t_changes := t_changes (work s2) @ rows\<rparr>"
    "list_all2 (\<lambda>(n, it) row. \<exists>i. row = change_item_row ?c rq n it i) (enumerate 0 items) rows"
    using add_items_run[OF log_step_fresh[OF ls2 assms(1)] c2, of rq 0 items] by blast
  have ins: "insert_row t_sets t_sets_update cs_id row (s1\<lparr>clock_pos := Suc (clock_pos s1)\<rparr>) = (Inr (), s2)"
    using s1(3,5) by (simp add: insert_row_def s2_def row_def)
  have "append_change_set rq items s = (Inr row, s')"
    using s1(1) ins r(1) unfolding append_change_set_def
    by (simp add: op_eval flip: row_def)
  then show ?thesis
    by (rule that) (use r ls2 s1(3,5) in \<open>auto simp: s2_def row_def intro: log_step_trans\<close>)
qed

end
