(* ===== verification/Undo.thy ===== *)
theory Undo
  imports ChangeLog
begin

text \<open>
  What \<open>undo_change_set\<close>, \<open>purge_recycled_record\<close> and the pages of the recycle bin do:
  the effect of each loop of undo, the effect of the whole, the redo, the erasure.
\<close>

section \<open>The loops of undo\<close>

lemma log_step_same_log:
  "committed s' = committed s \<Longrightarrow> uuids s' = uuids s \<Longrightarrow> uuid_pos s \<le> uuid_pos s' \<Longrightarrow> t_items (work s') = t_items (work s)
   \<Longrightarrow> log_ids (work s') \<subseteq> log_ids (work s) \<Longrightarrow> log_step s s'"
  unfolding log_step_def by blast

lemma restore_one_run:
  assumes "rm (ci_key item) = Some rc" "look (t_records (work s)) (ci_key item) = None"
  obtains s' g where "restore_one rm a item s = (Inr (restore_in item rc), s')" "log_step s s'"
    "work s' = (work s)\<lparr>t_records := t_records (work s) @ [restored_record item rc], t_recycle := map g (t_recycle (work s))\<rparr>"
    "\<And>r. rb_id (g r) = rb_id r \<and> rb_set (g r) = rb_set r"
proof -
  let ?r = "restored_record item rc"
  define g :: "recycle_row \<Rightarrow> recycle_row" where "g = (\<lambda>r. if rb_id r = rb_id rc then r\<lparr>rb_status := ''restored'', rb_restored_at := Some (clock s (clock_pos s)), rb_restored_by := a\<rparr> else r)"
  let ?s' = "s\<lparr>work := (work s)\<lparr>t_records := t_records (work s) @ [?r], t_recycle := map g (t_recycle (work s))\<rparr>, clock_pos := Suc (clock_pos s)\<rparr>"
  have k: "tkey ?r = ci_key item" by (simp add: restored_record_def tkey_def ci_key_def)
  then have "rec_key ?r \<notin> rec_key ` set (t_records (work s))"
    using assms(2) by (auto simp: look_None rec_key_tkey)
  then have run: "restore_one rm a item s = (Inr (restore_in item rc), ?s')"
    using assms(1) by (simp add: restore_one_def op_eval insert_row_def g_def)
  have g: "rb_id (g r) = rb_id r \<and> rb_set (g r) = rb_set r" for r by (simp add: g_def)
  have "log_step s ?s'"
    by (rule log_step_same_log) (use g in \<open>auto simp: log_ids_def\<close>)
  with run g show ?thesis by (intro that[of ?s' g]) auto
qed

lemma restore_loop:
  assumes "distinct (map ci_key items)"
    and "\<forall>i\<in>set items. \<exists>rc. rm (ci_key i) = Some rc \<and> look (t_records (work s)) (ci_key i) = None"
  obtains s' g where "map_op (restore_one rm a) items s = (Inr (map (\<lambda>i. restore_in i (the (rm (ci_key i)))) items), s')"
    "log_step s s'"
    "work s' = (work s)\<lparr>t_records := t_records (work s'), t_recycle := map g (t_recycle (work s))\<rparr>"
    "\<forall>r. rb_id (g r) = rb_id r \<and> rb_set (g r) = rb_set r"
    "\<forall>k. look (t_records (work s')) k = (case find (\<lambda>i. ci_key i = k) items of
        Some i \<Rightarrow> Some (restored_record i (the (rm k))) | None \<Rightarrow> look (t_records (work s)) k)"
proof -
  have "\<exists>s' g. map_op (restore_one rm a) items s = (Inr (map (\<lambda>i. restore_in i (the (rm (ci_key i)))) items), s')
    \<and> log_step s s' \<and> work s' = (work s)\<lparr>t_records := t_records (work s'), t_recycle := map g (t_recycle (work s))\<rparr>
    \<and> (\<forall>r. rb_id (g r) = rb_id r \<and> rb_set (g r) = rb_set r)
    \<and> (\<forall>k. look (t_records (work s')) k = (case find (\<lambda>i. ci_key i = k) items of
        Some i \<Rightarrow> Some (restored_record i (the (rm k))) | None \<Rightarrow> look (t_records (work s)) k))"
    using assms
  proof (induction items arbitrary: s)
    case Nil
    then show ?case by (intro exI[of _ s] exI[of _ "\<lambda>r. r"]) (simp add: op_eval)
  next
    case (Cons i items)
    obtain rc where rc: "rm (ci_key i) = Some rc" "look (t_records (work s)) (ci_key i) = None" using Cons.prems(2) by auto
    obtain s1 g1 where one: "restore_one rm a i s = (Inr (restore_in i rc), s1)" "log_step s s1"
      and w1: "work s1 = (work s)\<lparr>t_records := t_records (work s) @ [restored_record i rc], t_recycle := map g1 (t_recycle (work s))\<rparr>"
      and g1: "\<And>r. rb_id (g1 r) = rb_id r \<and> rb_set (g1 r) = rb_set r" using restore_one_run[of rm i rc s a] rc by blast
    have kk: "tkey (restored_record i rc) = ci_key i" by (simp add: restored_record_def tkey_def ci_key_def)
    have l1: "look (t_records (work s1)) k = (if k = ci_key i then Some (restored_record i rc) else look (t_records (work s)) k)" for k
      using rc(2) by (simp add: w1 look_append kk split: option.splits)
    have p: "\<forall>j\<in>set items. \<exists>rc. rm (ci_key j) = Some rc \<and> look (t_records (work s1)) (ci_key j) = None"
      using Cons.prems unfolding l1 by (force simp: image_iff)
    from Cons.IH[OF _ p] Cons.prems(1) obtain s' g where
      r: "map_op (restore_one rm a) items s1 = (Inr (map (\<lambda>i. restore_in i (the (rm (ci_key i)))) items), s')" "log_step s1 s'"
        "work s' = (work s1)\<lparr>t_records := t_records (work s'), t_recycle := map g (t_recycle (work s1))\<rparr>"
        "\<forall>r. rb_id (g r) = rb_id r \<and> rb_set (g r) = rb_set r"
      and l: "\<forall>k. look (t_records (work s')) k = (case find (\<lambda>i. ci_key i = k) items of
        Some i \<Rightarrow> Some (restored_record i (the (rm k))) | None \<Rightarrow> look (t_records (work s1)) k)" by auto
    have nf: "find (\<lambda>j. ci_key j = ci_key i) items = None" using Cons.prems(1) by (intro find_key_None) simp
    show ?case
    proof (intro exI[of _ s'] exI[of _ "g \<circ> g1"] conjI allI)
      show "map_op (restore_one rm a) (i # items) s = (Inr (map (\<lambda>i. restore_in i (the (rm (ci_key i)))) (i # items)), s')"
        using one r(1) rc(1) by (simp add: op_eval)
      show "log_step s s'" using one(2) r(2) by (rule log_step_trans)
      have "t_recycle (work s1) = map g1 (t_recycle (work s))" by (simp add: w1)
      then show "work s' = (work s)\<lparr>t_records := t_records (work s'), t_recycle := map (g \<circ> g1) (t_recycle (work s))\<rparr>"
        by (subst r(3)) (simp add: w1)
      show "look (t_records (work s')) k = (case find (\<lambda>i. ci_key i = k) (i # items) of
        Some i \<Rightarrow> Some (restored_record i (the (rm k))) | None \<Rightarrow> look (t_records (work s)) k)" for k
        using l nf rc(1) by (cases "ci_key i = k") (auto simp: l1 split: option.splits)
    qed (use r(4) g1 in auto)
  qed
  with that show ?thesis by blast
qed

lemma revert_loop:
  assumes "distinct (map ci_key items)"
    and "\<forall>i\<in>set items. \<exists>r. am (ci_key i) = Some r \<and> look (t_records (work s)) (ci_key i) = Some r"
  obtains s' am' where "revert_updates am items s = (Inr (map (\<lambda>i. revert_in i (the (am (ci_key i)))) items, am'), s')"
    "log_step s s'" "work s' = (work s)\<lparr>t_records := t_records (work s')\<rparr>"
    "\<forall>k. look (t_records (work s')) k = (case find (\<lambda>i. ci_key i = k) items of
        Some i \<Rightarrow> Some (reverted_record i (the (am k))) | None \<Rightarrow> look (t_records (work s)) k)"
    "\<forall>k. k \<notin> ci_key ` set items \<longrightarrow> am' k = am k"
proof -
  have "\<exists>s' am'. revert_updates am items s = (Inr (map (\<lambda>i. revert_in i (the (am (ci_key i)))) items, am'), s')
    \<and> log_step s s' \<and> work s' = (work s)\<lparr>t_records := t_records (work s')\<rparr>
    \<and> (\<forall>k. look (t_records (work s')) k = (case find (\<lambda>i. ci_key i = k) items of
        Some i \<Rightarrow> Some (reverted_record i (the (am k))) | None \<Rightarrow> look (t_records (work s)) k))
    \<and> (\<forall>k. k \<notin> ci_key ` set items \<longrightarrow> am' k = am k)"
    using assms
  proof (induction items arbitrary: s am)
    case Nil
    then show ?case by (intro exI[of _ s] exI[of _ am]) (simp add: op_eval)
  next
    case (Cons i items)
    obtain r where r: "am (ci_key i) = Some r" "look (t_records (work s)) (ci_key i) = Some r" using Cons.prems(2) by auto
    have tk: "tkey r = ci_key i" using look_Some[OF r(2)] by simp
    let ?r' = "reverted_record i r"
    have tk': "tkey ?r' = tkey r" by (simp add: reverted_record_def tkey_def)
    let ?am = "am(ci_key i \<mapsto> ?r')"
    define s1 where "s1 = s\<lparr>work := t_records_update (map (\<lambda>x. if rec_key x = rec_key r then ?r' else x)) (work s)\<rparr>"
    have l1: "look (t_records (work s1)) k = (if k = ci_key i then Some ?r' else look (t_records (work s)) k)" for k
      using look_update[OF tk'] r(2) tk by (simp add: s1_def)
    have ls: "log_step s s1" by (rule log_step_same_log) (auto simp: s1_def log_ids_def)
    have ni: "ci_key i \<notin> ci_key ` set items" using Cons.prems(1) by simp
    have p: "\<forall>j\<in>set items. \<exists>r. ?am (ci_key j) = Some r \<and> look (t_records (work s1)) (ci_key j) = Some r"
    proof
      fix j assume j: "j \<in> set items"
      then have "ci_key j \<noteq> ci_key i" using ni by (metis image_eqI)
      with Cons.prems(2) j show "\<exists>r. ?am (ci_key j) = Some r \<and> look (t_records (work s1)) (ci_key j) = Some r" by (simp add: l1)
    qed
    have d: "distinct (map ci_key items)" using Cons.prems(1) by simp
    from Cons.IH[OF d p] obtain s' am' where
      q: "revert_updates ?am items s1 = (Inr (map (\<lambda>i. revert_in i (the (?am (ci_key i)))) items, am'), s')" "log_step s1 s'"
        "work s' = (work s1)\<lparr>t_records := t_records (work s')\<rparr>"
      and l: "\<forall>k. look (t_records (work s')) k = (case find (\<lambda>i. ci_key i = k) items of
        Some i \<Rightarrow> Some (reverted_record i (the (?am k))) | None \<Rightarrow> look (t_records (work s1)) k)"
      and am: "\<forall>k. k \<notin> ci_key ` set items \<longrightarrow> am' k = ?am k" by blast
    have nf: "find (\<lambda>j. ci_key j = ci_key i) items = None" using ni by (rule find_key_None)
    have same: "map (\<lambda>i. revert_in i (the (?am (ci_key i)))) items = map (\<lambda>i. revert_in i (the (am (ci_key i)))) items"
      using ni by (intro map_cong) (auto simp: image_iff)
    show ?case
    proof (intro exI[of _ s'] exI[of _ am'] conjI allI impI)
      show "revert_updates am (i # items) s = (Inr (map (\<lambda>i. revert_in i (the (am (ci_key i)))) (i # items), am'), s')"
        using q(1) r(1) unfolding same by (simp add: op_eval s1_def)
      show "log_step s s'" using ls q(2) by (rule log_step_trans)
      show "work s' = (work s)\<lparr>t_records := t_records (work s')\<rparr>" by (subst q(3)) (simp add: s1_def)
      show "look (t_records (work s')) k = (case find (\<lambda>i. ci_key i = k) (i # items) of
        Some i \<Rightarrow> Some (reverted_record i (the (am k))) | None \<Rightarrow> look (t_records (work s)) k)" for k
        using l nf r(1) by (cases "ci_key i = k") (auto simp: l1 split: option.splits dest!: find_SomeD)
      show "am' k = am k" if "k \<notin> ci_key ` set (i # items)" for k using am that by simp
    qed
  qed
  with that show ?thesis by blast
qed

lemma delete_one_run:
  assumes "am (ci_key item) = Some r" "tkey r = ci_key item" "fresh_ids s" "u \<in> issued_ids s"
  obtains s' rid now where "delete_one am u a item s = (Inr (delete_in item r), s')" "log_step s s'"
    "work s' = (work s)\<lparr>t_records := filter (\<lambda>x. rec_key x \<noteq> rec_key r) (t_records (work s)),
       t_recycle := t_recycle (work s) @ [recycled_row item r u a rid now]\<rparr>"
proof -
  let ?i = "gen_id s ''rcy'' (uuid_pos s)" and ?now = "clock s (clock_pos s)"
  let ?row = "recycled_row item r u a ?i ?now"
  let ?s' = "s\<lparr>work := (work s)\<lparr>t_records := filter (\<lambda>x. rec_key x \<noteq> rec_key r) (t_records (work s)),
       t_recycle := t_recycle (work s) @ [?row]\<rparr>, uuid_pos := Suc (uuid_pos s), clock_pos := Suc (clock_pos s)\<rparr>"
  have "?i \<notin> rb_id ` set (t_recycle (work s))"
    using fresh_next[OF assms(3), of "''rcy''"] by (auto simp: log_ids_def)
  then have run: "delete_one am u a item s = (Inr (delete_in item r), ?s')"
    using assms(1) by (simp add: delete_one_def bind_op_eval then_op_eval basic_eval delete_rows_eval new_id_gen insert_row_def recycled_row_def)
  have "?i \<in> issued_ids ?s'" "u \<in> issued_ids ?s'"
    using gen_issued[of "''rcy''" "uuid_pos s" ?s'] issued_mono[of ?s' s] assms(4) by (auto simp: gen_id_def)
  then have "log_step s ?s'" by (auto simp: log_step_def log_ids_def recycled_row_def)
  with run show ?thesis by (intro that[of ?s' ?i ?now]) auto
qed

lemma delete_loop:
  assumes "\<forall>i\<in>set items. \<exists>r. am (ci_key i) = Some r \<and> tkey r = ci_key i"
    and "fresh_ids s" "u \<in> issued_ids s"
  obtains s' rows where "map_op (delete_one am u a) items s = (Inr (map (\<lambda>i. delete_in i (the (am (ci_key i)))) items), s')"
    "log_step s s'" "work s' = (work s)\<lparr>t_records := t_records (work s'), t_recycle := t_recycle (work s) @ rows\<rparr>"
    "list_all2 (\<lambda>i row. \<exists>rid now. row = recycled_row i (the (am (ci_key i))) u a rid now) items rows"
    "\<forall>k. look (t_records (work s')) k = (if k \<in> ci_key ` set items then None else look (t_records (work s)) k)"
proof -
  have "\<exists>s' rows. map_op (delete_one am u a) items s = (Inr (map (\<lambda>i. delete_in i (the (am (ci_key i)))) items), s')
    \<and> log_step s s' \<and> work s' = (work s)\<lparr>t_records := t_records (work s'), t_recycle := t_recycle (work s) @ rows\<rparr>
    \<and> list_all2 (\<lambda>i row. \<exists>rid now. row = recycled_row i (the (am (ci_key i))) u a rid now) items rows
    \<and> (\<forall>k. look (t_records (work s')) k = (if k \<in> ci_key ` set items then None else look (t_records (work s)) k))"
    using assms
  proof (induction items arbitrary: s)
    case Nil
    then show ?case by (intro exI[of _ s] exI[of _ "[]"]) (simp add: op_eval)
  next
    case (Cons i items)
    obtain r where r: "am (ci_key i) = Some r" "tkey r = ci_key i" using Cons.prems(1) by auto
    obtain s1 rid now where one: "delete_one am u a i s = (Inr (delete_in i r), s1)" "log_step s s1"
      and w1: "work s1 = (work s)\<lparr>t_records := filter (\<lambda>x. rec_key x \<noteq> rec_key r) (t_records (work s)),
       t_recycle := t_recycle (work s) @ [recycled_row i r u a rid now]\<rparr>"
      using delete_one_run[of am i r s u a] r Cons.prems(2,3) by blast
    have f1: "fresh_ids s1" "u \<in> issued_ids s1"
      using log_step_fresh[OF one(2) Cons.prems(2)] one(2) Cons.prems(3) issued_mono[of s1 s] by (auto simp: log_step_def)
    from Cons.IH[OF _ f1] Cons.prems(1) obtain s' rows where
      q: "map_op (delete_one am u a) items s1 = (Inr (map (\<lambda>i. delete_in i (the (am (ci_key i)))) items), s')" "log_step s1 s'"
        "work s' = (work s1)\<lparr>t_records := t_records (work s'), t_recycle := t_recycle (work s1) @ rows\<rparr>"
        "list_all2 (\<lambda>i row. \<exists>rid now. row = recycled_row i (the (am (ci_key i))) u a rid now) items rows"
      and l: "\<forall>k. look (t_records (work s')) k = (if k \<in> ci_key ` set items then None else look (t_records (work s1)) k)"
      by auto
    show ?case
    proof (intro exI[of _ s'] exI[of _ "recycled_row i r u a rid now # rows"] conjI allI)
      show "map_op (delete_one am u a) (i # items) s = (Inr (map (\<lambda>i. delete_in i (the (am (ci_key i)))) (i # items)), s')"
        using one q(1) r(1) by (simp add: op_eval)
      show "log_step s s'" using one(2) q(2) by (rule log_step_trans)
      show "work s' = (work s)\<lparr>t_records := t_records (work s'), t_recycle := t_recycle (work s) @ recycled_row i r u a rid now # rows\<rparr>"
        by (subst q(3)) (simp add: w1)
      show "list_all2 (\<lambda>i row. \<exists>rid now. row = recycled_row i (the (am (ci_key i))) u a rid now) (i # items) (recycled_row i r u a rid now # rows)"
        using q(4) r(1) by auto
      show "look (t_records (work s')) k = (if k \<in> ci_key ` set (i # items) then None else look (t_records (work s)) k)" for k
        using l r(2) by (simp add: w1 look_delete)
    qed
  qed
  with that show ?thesis by blast
qed

section \<open>What undo does\<close>

definition entry_at :: "tables \<Rightarrow> string \<Rightarrow> string \<times> string \<Rightarrow> recycle_row option" where
  "entry_at t oid k = deleted_entry_for_change t (fst k) (snd k) oid"

definition item_valid :: "tables \<Rightarrow> string \<Rightarrow> change_item \<Rightarrow> bool" where
  "item_valid t oid i \<longleftrightarrow> ci_etype i = ''record'' \<and>
     (if was_delete i then look (t_records t) (ci_key i) = None \<and>
        (\<exists>rc. entry_at t oid (ci_key i) = Some rc \<and>
          int_or (Some (rb_version rc)) 1 = int_or (ci_vafter i) (int_or (Some (rb_version rc)) 1))
      else (\<exists>r. look (t_records t) (ci_key i) = Some r \<and> record_version r = int_or (ci_vafter i) 1))"

lemma item_valid_delete:
  "item_valid t oid i \<Longrightarrow> was_delete i \<Longrightarrow> look (t_records t) (ci_key i) = None \<and> (\<exists>rc. entry_at t oid (ci_key i) = Some rc)"
  by (auto simp: item_valid_def)

lemma item_valid_active:
  "item_valid t oid i \<Longrightarrow> \<not> was_delete i \<Longrightarrow> \<exists>r. look (t_records t) (ci_key i) = Some r \<and> record_version r = int_or (ci_vafter i) 1"
  by (auto simp: item_valid_def)

lemma validate_item_valid:
  "item_valid t oid i \<Longrightarrow> validate_item t oid (am, rm) i = Inr (if was_delete i
     then (am, rm(ci_key i := entry_at t oid (ci_key i))) else (am(ci_key i := look (t_records t) (ci_key i)), rm))"
  by (auto simp: item_valid_def validate_item_def active_look entry_at_def ci_key_def Let_def split: if_splits)

lemma validate_item_invalid: "\<not> item_valid t oid i \<Longrightarrow> validate_item t oid (am, rm) i \<noteq> Inr x"
  by (auto simp: item_valid_def validate_item_def active_look entry_at_def ci_key_def Let_def conflict_def
      split: if_splits option.splits)

lemma validate_items_iff:
  "validate_items t oid (am, rm) items = Inr (am', rm') \<longleftrightarrow> (\<forall>i\<in>set items. item_valid t oid i)
    \<and> am' = (\<lambda>k. if k \<in> ci_key ` {i \<in> set items. \<not> was_delete i} then look (t_records t) k else am k)
    \<and> rm' = (\<lambda>k. if k \<in> ci_key ` {i \<in> set items. was_delete i} then entry_at t oid k else rm k)"
proof (induction items arbitrary: am rm)
  case Nil
  then show ?case by auto
next
  case (Cons i items)
  show ?case
  proof (cases "item_valid t oid i")
    case False
    then have "\<nexists>x. validate_item t oid (am, rm) i = Inr x" using validate_item_invalid by blast
    with False show ?thesis by simp
  next
    case True
    have eq: "{j \<in> set (i # items). P j} = (if P i then insert i {j \<in> set items. P j} else {j \<in> set items. P j})" for P
      by auto
    show ?thesis
      by (cases "was_delete i") (auto simp: validate_item_valid[OF True] Cons.IH True eq fun_eq_iff)
  qed
qed

lemma undo_check_iff:
  "undo_check t cs = Inr (original, items, am, rm) \<longleftrightarrow>
     find (\<lambda>c. cs_id c = cs) (t_sets t) = Some original \<and> cs_status original = ''applied'' \<and> cs_operation original \<noteq> ''purge''
     \<and> items = get_change_items t cs \<and> items \<noteq> [] \<and> (\<forall>i\<in>set items. item_valid t cs i)
     \<and> am = (\<lambda>k. if k \<in> ci_key ` {i \<in> set items. \<not> was_delete i} then look (t_records t) k else None)
     \<and> rm = (\<lambda>k. if k \<in> ci_key ` {i \<in> set items. was_delete i} then entry_at t cs k else None)"
proof (cases "find (\<lambda>c. cs_id c = cs) (t_sets t)")
  case (Some c)
  then have "cs_id c = cs" by (auto dest: find_SomeD)
  show ?thesis
  proof (cases "cs_status c = ''applied'' \<and> cs_operation c \<noteq> ''purge'' \<and> get_change_items t cs \<noteq> []")
    case True
    then have "undo_check t cs = bind_res (validate_items t cs (Map.empty, Map.empty) (get_change_items t cs))
        (\<lambda>(am, rm). Inr (c, get_change_items t cs, am, rm))"
      using Some \<open>cs_id c = cs\<close> by (simp add: undo_check_def select_first_def Let_def)
    then show ?thesis
      using Some True validate_items_iff[of t cs Map.empty Map.empty "get_change_items t cs" am rm] by auto
  next
    case False
    then show ?thesis using Some \<open>cs_id c = cs\<close> by (auto simp: undo_check_def select_first_def)
  qed
qed (simp add: undo_check_def select_first_def)

definition undone_at :: "tables \<Rightarrow> string \<Rightarrow> change_item list \<Rightarrow> string \<times> string \<Rightarrow> table_record option" where
  "undone_at t oid items k = (case find (\<lambda>i. ci_key i = k) items of
      None \<Rightarrow> look (t_records t) k
    | Some i \<Rightarrow>
        if was_delete i then Some (restored_record i (the (entry_at t oid k)))
        else if was_update i then Some (reverted_record i (the (look (t_records t) k)))
        else if was_create i then None
        else look (t_records t) k)"

definition inverse_items :: "tables \<Rightarrow> string \<Rightarrow> change_item list \<Rightarrow> change_in list" where
  "inverse_items t oid items =
     map (\<lambda>i. restore_in i (the (entry_at t oid (ci_key i)))) (filter was_delete items)
     @ map (\<lambda>i. revert_in i (the (look (t_records t) (ci_key i)))) (filter was_update items)
     @ map (\<lambda>i. delete_in i (the (look (t_records t) (ci_key i)))) (filter was_create items)"

lemma find_all2:
  assumes "list_all2 Q xs ys" "distinct (map f xs)" "x \<in> set xs" "\<And>x y. Q x y \<Longrightarrow> (P y \<longleftrightarrow> f x = f x0)" "f x = f x0"
  shows "\<exists>y. find P ys = Some y \<and> Q x y"
  using assms(1-3)
proof (induction rule: list_all2_induct)
  case (Cons a xs b ys)
  show ?case
  proof (cases "a = x")
    case True
    with Cons assms(4)[OF Cons(1)] assms(5) show ?thesis by auto
  next
    case False
    with Cons.prems have "f a \<noteq> f x" "x \<in> set xs" by (auto simp: image_iff)
    with Cons assms(4)[OF Cons(1)] assms(5) show ?thesis by auto
  qed
qed simp

lemma was_exclusive:
  "was_update i \<Longrightarrow> \<not> was_delete i" "was_create i \<Longrightarrow> \<not> was_delete i" "was_create i \<Longrightarrow> \<not> was_update i"
  by (auto simp: was_update_def was_delete_def was_create_def)

lemma undo_loops:
  assumes valid: "\<forall>i\<in>set items. item_valid (work s) oid i" and d: "distinct (map ci_key items)"
    and am: "am = (\<lambda>k. if k \<in> ci_key ` {i \<in> set items. \<not> was_delete i} then look (t_records (work s)) k else None)"
    and rm: "rm = (\<lambda>k. if k \<in> ci_key ` {i \<in> set items. was_delete i} then entry_at (work s) oid k else None)"
    and fresh: "fresh_ids s" and u: "u \<in> issued_ids s" "Some u \<notin> rb_set ` set (t_recycle (work s))"
  obtains s1 s2 s3 am' ins1 ins2 ins3 where
    "map_op (restore_one rm a) (filter was_delete items) s = (Inr ins1, s1)"
    "revert_updates am (filter was_update items) s1 = (Inr (ins2, am'), s2)"
    "map_op (delete_one am' u a) (filter was_create items) s2 = (Inr ins3, s3)"
    "ins1 @ ins2 @ ins3 = inverse_items (work s) oid items"
    "log_step s s3" "t_sets (work s3) = t_sets (work s)" "t_changes (work s3) = t_changes (work s)"
    "\<And>k. look (t_records (work s3)) k = undone_at (work s) oid items k"
    "\<And>i. i \<in> set items \<Longrightarrow> was_create i \<Longrightarrow> \<exists>rid now. entry_at (work s3) u (ci_key i)
        = Some (recycled_row i (the (look (t_records (work s)) (ci_key i))) u a rid now)"
proof -
  have dP: "distinct (map ci_key (filter P items))" for P using d by (rule distinct_map_filterI)
  have uniq: "i = j" if "i \<in> set items" "j \<in> set items" "ci_key i = ci_key j" for i j
    using d that by (auto simp: distinct_map inj_on_def)
  have fnd: "find (\<lambda>i. ci_key i = k) (filter P items) = (case find (\<lambda>i. ci_key i = k) items of None \<Rightarrow> None | Some i \<Rightarrow> if P i then Some i else None)" for P k
    by (rule find_filter_distinct[OF d]) simp
  have v1: "\<forall>i\<in>set (filter was_delete items). \<exists>rc. rm (ci_key i) = Some rc \<and> look (t_records (work s)) (ci_key i) = None"
    using item_valid_delete[of "work s" oid] valid by (auto simp: rm)
  obtain s1 g where r1: "map_op (restore_one rm a) (filter was_delete items) s
        = (Inr (map (\<lambda>i. restore_in i (the (rm (ci_key i)))) (filter was_delete items)), s1)" "log_step s s1"
      "work s1 = (work s)\<lparr>t_records := t_records (work s1), t_recycle := map g (t_recycle (work s))\<rparr>"
    and g: "\<forall>r. rb_id (g r) = rb_id r \<and> rb_set (g r) = rb_set r"
    and l1: "\<forall>k. look (t_records (work s1)) k = (case find (\<lambda>i. ci_key i = k) (filter was_delete items) of
        Some i \<Rightarrow> Some (restored_record i (the (rm k))) | None \<Rightarrow> look (t_records (work s)) k)"
    by (rule restore_loop[OF dP v1]) (rule that; assumption)
  have nodel: "find (\<lambda>j. ci_key j = ci_key i) (filter was_delete items) = None" if "i \<in> set items" "\<not> was_delete i" for i
    using find_distinct_key[OF d that(1)] that(2) by (simp add: fnd)
  have v2: "\<forall>i\<in>set (filter was_update items). \<exists>r. am (ci_key i) = Some r \<and> look (t_records (work s1)) (ci_key i) = Some r"
  proof
    fix i assume "i \<in> set (filter was_update items)"
    then have i: "i \<in> set items" "\<not> was_delete i" using was_exclusive(1) by auto
    with item_valid_active[of "work s" oid i] valid nodel[OF i]
    show "\<exists>r. am (ci_key i) = Some r \<and> look (t_records (work s1)) (ci_key i) = Some r" by (auto simp: am l1)
  qed
  obtain s2 am' where r2: "revert_updates am (filter was_update items) s1
        = (Inr (map (\<lambda>i. revert_in i (the (am (ci_key i)))) (filter was_update items), am'), s2)" "log_step s1 s2"
      "work s2 = (work s1)\<lparr>t_records := t_records (work s2)\<rparr>"
    and l2: "\<forall>k. look (t_records (work s2)) k = (case find (\<lambda>i. ci_key i = k) (filter was_update items) of
        Some i \<Rightarrow> Some (reverted_record i (the (am k))) | None \<Rightarrow> look (t_records (work s1)) k)"
    and am': "\<forall>k. k \<notin> ci_key ` set (filter was_update items) \<longrightarrow> am' k = am k"
    by (rule revert_loop[OF dP v2]) (rule that; assumption)
  have am'c: "am' (ci_key i) = look (t_records (work s)) (ci_key i) \<and> look (t_records (work s)) (ci_key i) \<noteq> None"
    if "i \<in> set items" "was_create i" for i
  proof -
    have "ci_key i \<notin> ci_key ` set (filter was_update items)" using uniq[of i] that was_exclusive(3)[of i] by auto
    with am' that item_valid_active[of "work s" oid i] valid was_exclusive(2)[of i] show ?thesis by (auto simp: am)
  qed
  have f2: "fresh_ids s2" "u \<in> issued_ids s2"
    using log_step_fresh[OF log_step_trans[OF r1(2) r2(2)] fresh] log_step_trans[OF r1(2) r2(2)] u(1) issued_mono[of s2 s]
    by (auto simp: log_step_def)
  have v3: "\<forall>i\<in>set (filter was_create items). \<exists>r. am' (ci_key i) = Some r \<and> tkey r = ci_key i"
  proof
    fix i assume "i \<in> set (filter was_create items)"
    with am'c[of i] obtain r where "am' (ci_key i) = Some r" "look (t_records (work s)) (ci_key i) = Some r" by auto
    with look_Some show "\<exists>r. am' (ci_key i) = Some r \<and> tkey r = ci_key i" by blast
  qed
  obtain s3 rows where r3: "map_op (delete_one am' u a) (filter was_create items) s2
        = (Inr (map (\<lambda>i. delete_in i (the (am' (ci_key i)))) (filter was_create items)), s3)" "log_step s2 s3"
      "work s3 = (work s2)\<lparr>t_records := t_records (work s3), t_recycle := t_recycle (work s2) @ rows\<rparr>"
    and rows: "list_all2 (\<lambda>i row. \<exists>rid now. row = recycled_row i (the (am' (ci_key i))) u a rid now) (filter was_create items) rows"
    and l3: "\<forall>k. look (t_records (work s3)) k = (if k \<in> ci_key ` set (filter was_create items) then None else look (t_records (work s2)) k)"
    by (rule delete_loop[OF v3 f2]) (rule that; assumption)
  have rmv: "rm (ci_key i) = entry_at (work s) oid (ci_key i)" if "i \<in> set items" "was_delete i" for i using that by (auto simp: rm)
  have amv: "am (ci_key i) = look (t_records (work s)) (ci_key i)" if "i \<in> set items" "\<not> was_delete i" for i using that by (auto simp: am)
  have w3: "work s3 = (work s)\<lparr>t_records := t_records (work s3), t_recycle := map g (t_recycle (work s)) @ rows\<rparr>"
  proof -
    obtain R1 where "work s1 = (work s)\<lparr>t_records := R1, t_recycle := map g (t_recycle (work s))\<rparr>" using r1(3) by blast
    moreover obtain R2 where "work s2 = (work s1)\<lparr>t_records := R2\<rparr>" using r2(3) by blast
    moreover obtain R3 where "work s3 = (work s2)\<lparr>t_records := R3, t_recycle := t_recycle (work s2) @ rows\<rparr>" using r3(3) by blast
    ultimately show ?thesis by simp
  qed
  show ?thesis
  proof (rule that[OF r1(1) r2(1) r3(1)])
    show "map (\<lambda>i. restore_in i (the (rm (ci_key i)))) (filter was_delete items) @
      map (\<lambda>i. revert_in i (the (am (ci_key i)))) (filter was_update items) @
      map (\<lambda>i. delete_in i (the (am' (ci_key i)))) (filter was_create items) = inverse_items (work s) oid items"
      unfolding inverse_items_def using rmv amv am'c was_exclusive by (auto intro!: arg_cong2[where f = "(@)"])
    show "log_step s s3" using r1(2) r2(2) r3(2) log_step_trans by blast
    show "t_sets (work s3) = t_sets (work s)" "t_changes (work s3) = t_changes (work s)" by (subst w3, simp)+
    show "look (t_records (work s3)) k = undone_at (work s) oid items k" for k
    proof (cases "find (\<lambda>i. ci_key i = k) items")
      case None
      then have "k \<notin> ci_key ` set (filter was_create items)" by (auto simp: find_None_iff)
      with None show ?thesis by (simp add: undone_at_def l3 l2 l1 fnd)
    next
      case (Some i)
      then have i: "i \<in> set items" "ci_key i = k" by (auto dest: find_SomeD)
      have c: "k \<in> ci_key ` set (filter was_create items) \<longleftrightarrow> was_create i" using i uniq by auto
      have l3': "look (t_records (work s3)) k = (if was_create i then None else look (t_records (work s2)) k)"
        using l3 c by (simp del: set_filter)
      show ?thesis
        using Some i rmv[of i] amv[of i] was_exclusive[of i] unfolding l3' by (simp add: undone_at_def l2 l1 fnd)
    qed
    show "\<exists>rid now. entry_at (work s3) u (ci_key i) = Some (recycled_row i (the (look (t_records (work s)) (ci_key i))) u a rid now)"
      if i: "i \<in> set items" "was_create i" for i
    proof -
      have old: "find (\<lambda>r. rb_table r = ci_table i \<and> rb_record r = ci_entity i \<and> rb_set r = Some u \<and> rb_status r = ''deleted'') (map g (t_recycle (work s))) = None"
        using u(2) g by (auto simp: find_None_iff image_iff)
      have "\<exists>y. find (\<lambda>r. rb_table r = ci_table i \<and> rb_record r = ci_entity i \<and> rb_set r = Some u \<and> rb_status r = ''deleted'') rows = Some y
          \<and> (\<exists>rid now. y = recycled_row i (the (am' (ci_key i))) u a rid now)"
        by (rule find_all2[OF rows dP]) (use i in \<open>auto simp: recycled_row_def ci_key_def\<close>)
      with old am'c[OF i] show ?thesis
        by (subst w3) (auto simp: entry_at_def deleted_entry_for_change_def select_first_def find_append ci_key_def)
    qed
  qed
qed

lemma logged_rows:
  assumes "list_all2 (\<lambda>(n, it) r. \<exists>i. r = change_item_row u rq n it i) (enumerate m its) rows"
  shows "(\<forall>it\<in>set its. \<exists>n i. change_item_row u rq n it i \<in> set rows)
    \<and> (\<forall>r\<in>set rows. ci_set r = u \<and> m \<le> ci_order r \<and> (\<exists>it\<in>set its. \<exists>n i. r = change_item_row u rq n it i))
    \<and> map ci_key rows = map (\<lambda>it. (str_or (in_table it) (case rq_table rq of None \<Rightarrow> [] | Some x \<Rightarrow> x), in_entity it)) its
    \<and> length rows = length its
    \<and> sorted (map (\<lambda>c. (ci_order c, ci_id c)) rows)"
  using assms
proof (induction its arbitrary: m rows)
  case (Cons it its)
  then obtain i rs where r: "rows = change_item_row u rq m it i # rs"
    and rs: "list_all2 (\<lambda>(n, it) r. \<exists>i. r = change_item_row u rq n it i) (enumerate (Suc m) its) rs"
    by (auto simp: list_all2_Cons1)
  let ?r = "change_item_row u rq m it i"
  note ih = Cons.IH[OF rs]
  have a: "ci_set ?r = u \<and> ci_order ?r = m \<and> ci_key ?r = (str_or (in_table it) (case rq_table rq of None \<Rightarrow> [] | Some x \<Rightarrow> x), in_entity it)"
    by (simp add: change_item_row_def ci_key_def)
  have "\<forall>r\<in>set rs. (ci_order ?r, ci_id ?r) \<le> (ci_order r, ci_id r)"
    using ih a by (fastforce simp: less_eq_prod_def)
  with ih a r show ?case by (fastforce intro: Suc_leD)
qed simp

lemma undo_run:
  assumes chk: "undo_check (work s) cs = Inr (original, items, am, rm)"
    and fresh: "fresh_ids s" and d: "distinct (map ci_key items)"
  obtains res s' rq where "undo_change_set cs a aty src tr s = (Inr res, s')"
    "committed s' = work s'" "fresh_ids s'"
    "\<And>k. look (t_records (work s')) k = undone_at (work s) cs items k"
    "find (\<lambda>c. cs_id c = cs_id (ur_set res)) (t_sets (work s')) = Some (ur_set res)"
    "cs_status (ur_set res) = ''applied''" "cs_operation (ur_set res) = ''undo''" "cs_parent (ur_set res) = Some cs"
    "\<exists>c. find (\<lambda>c. cs_id c = cs) (t_sets (work s')) = Some c \<and> cs_status c = ''undone''"
    "list_all2 (\<lambda>(n, it) r. \<exists>i. r = change_item_row (cs_id (ur_set res)) rq n it i)
       (enumerate 0 (inverse_items (work s) cs items)) (get_change_items (work s') (cs_id (ur_set res)))"
    "\<And>i. i \<in> set items \<Longrightarrow> was_create i \<Longrightarrow> \<exists>rid now. entry_at (work s') (cs_id (ur_set res)) (ci_key i)
        = Some (recycled_row i (the (look (t_records (work s)) (ci_key i))) (cs_id (ur_set res)) a rid now)"
proof -
  let ?u = "gen_id s ''chg'' (uuid_pos s)"
  define s0 where "s0 = s\<lparr>uuid_pos := Suc (uuid_pos s)\<rparr>"
  have oid: "cs_id original = cs" and orig: "find (\<lambda>c. cs_id c = cs) (t_sets (work s)) = Some original"
    and valid: "\<forall>i\<in>set items. item_valid (work s) cs i"
    and am: "am = (\<lambda>k. if k \<in> ci_key ` {i \<in> set items. \<not> was_delete i} then look (t_records (work s)) k else None)"
    and rm: "rm = (\<lambda>k. if k \<in> ci_key ` {i \<in> set items. was_delete i} then entry_at (work s) cs k else None)"
    using chk by (auto simp: undo_check_iff dest: find_SomeD)
  have nu: "?u \<notin> log_ids (work s)" using fresh_next[OF fresh, of "''chg''"] by simp
  have w0 [simp]: "work s0 = work s" by (simp add: s0_def)
  have ls0: "log_step s s0" by (rule log_step_same_log) (auto simp: s0_def)
  have iu: "?u \<in> issued_ids s0" using gen_issued[of "''chg''" "uuid_pos s" s0] by (simp add: s0_def gen_id_def)
  obtain s1 s2 s3 am' ins1 ins2 ins3 where loops:
    "map_op (restore_one rm a) (filter was_delete items) s0 = (Inr ins1, s1)"
    "revert_updates am (filter was_update items) s1 = (Inr (ins2, am'), s2)"
    "map_op (delete_one am' ?u a) (filter was_create items) s2 = (Inr ins3, s3)"
    and ins: "ins1 @ ins2 @ ins3 = inverse_items (work s0) cs items"
    and ls3: "log_step s0 s3" and sets3: "t_sets (work s3) = t_sets (work s0)" and ch3: "t_changes (work s3) = t_changes (work s0)"
    and l3: "\<And>k. look (t_records (work s3)) k = undone_at (work s0) cs items k"
    and e3: "\<And>i. i \<in> set items \<Longrightarrow> was_create i \<Longrightarrow> \<exists>rid now. entry_at (work s3) ?u (ci_key i)
        = Some (recycled_row i (the (look (t_records (work s0)) (ci_key i))) ?u a rid now)"
    by (rule undo_loops[of items s0 cs am rm ?u a])
       (use valid d am rm log_step_fresh[OF ls0 fresh] iu nu in \<open>auto simp: log_ids_def\<close>)
  have ls: "log_step s s3" using ls0 ls3 by (rule log_step_trans)
  define rq where "rq = \<lparr>rq_table = cs_table original, rq_actor = a, rq_operation = ''undo'',
        rq_actor_type = aty, rq_source = Some src, rq_trace = tr,
        rq_summary = ''Undo '' @ cs_operation original @ '': '' @ str_or (cs_summary original) (cs_id original),
        rq_status = ''applied'', rq_parent = Some (cs_id original), rq_id = Some ?u\<rparr>"
  have iu3: "?u \<in> issued_ids s3" using iu ls3 issued_mono[of s3 s0] by (auto simp: log_step_def)
  have une: "?u \<noteq> []" by (simp add: gen_id_def)
  have hyp: "\<forall>i. rq_id rq = Some i \<longrightarrow> i \<noteq> [] \<longrightarrow> i \<notin> cs_id ` set (t_sets (work s3)) \<and> i \<in> issued_ids s3"
    using iu3 nu sets3 by (auto simp: log_ids_def rq_def)
  obtain row rows s4 where ap: "append_change_set rq (ins1 @ ins2 @ ins3) s3 = (Inr row, s4)" and ls4: "log_step s3 s4"
    and w4: "work s4 = (work s3)\<lparr>t_sets := t_sets (work s3) @ [row], t_changes := t_changes (work s3) @ rows\<rparr>"
    and rows: "list_all2 (\<lambda>(n, it) r. \<exists>i. r = change_item_row (cs_id row) rq n it i) (enumerate 0 (ins1 @ ins2 @ ins3)) rows"
    and row: "cs_id row = change_set_id_for rq s3" "cs_status row = rq_status rq"
      "cs_operation row = take 64 (str_or (rq_operation rq) ''update'')" "cs_parent row = rq_parent rq"
    by (rule append_change_set_run[OF log_step_fresh[OF ls fresh] hyp]) (rule that; assumption)
  have rid: "cs_id row = ?u" using row(1) une by (simp add: change_set_id_for_def rq_def)
  define mark where "mark = (\<lambda>c. if cs_id c = cs_id original then c\<lparr>cs_status := ''undone'', cs_undone_at := Some (clock s4 (clock_pos s4)), cs_undone_by := a\<rparr> else c :: change_set)"
  define t' where "t' = t_sets_update (map mark) (work s4)"
  define s' where "s' = s4\<lparr>clock_pos := Suc (clock_pos s4), work := t', committed := t'\<rparr>"
  define res where "res = \<lparr>ur_set = row, ur_undone = cs_id original, ur_count = length (ins1 @ ins2 @ ins3),
           ur_tables = sort (dedup (map ci_table items))\<rparr>"
  have run: "undo_change_set cs a aty src tr s = (Inr res, s')"
    using loops ap[unfolded rq_def] unfolding undo_eval chk
    by (simp add: undo_apply_def op_eval s0_def gen_id_def s'_def t'_def mark_def res_def)
  have neq: "cs \<noteq> ?u" 
  proof -
    have "cs \<in> log_ids (work s)" using find_SomeD[OF orig] by (auto simp: log_ids_def)
    with nu show ?thesis by blast
  qed
  have nou: "\<forall>c\<in>set (t_changes (work s)). ci_set c \<noteq> ?u" using nu by (simp add: log_ids_def notin_image)
  have gi: "get_change_items (work s') ?u = rows"
  proof -
    have "filter (\<lambda>c. ci_set c = ?u) (t_changes (work s)) = []" using nou by (auto simp: filter_empty_conv)
    moreover have "filter (\<lambda>c. ci_set c = ?u) rows = rows" using logged_rows[OF rows] rid by (auto simp: filter_id_conv)
    ultimately show ?thesis
      using logged_rows[OF rows] ch3
      by (simp add: get_change_items_def select_def s'_def t'_def w4 sort_key_sorted)
  qed
  show ?thesis
  proof (rule that[OF run, of rq])
    show "committed s' = work s'" by (simp add: s'_def)
    have m: "cs_id (mark c) = cs_id c" for c by (simp add: mark_def)
    have "log_ids (work s') = log_ids (work s4)"
      by (simp add: log_ids_def s'_def t'_def image_image m)
    then show "fresh_ids s'"
      by (intro fresh_grow[OF log_step_fresh[OF ls4 log_step_fresh[OF ls fresh]]]) (auto simp: s'_def)
    show "look (t_records (work s')) k = undone_at (work s) cs items k" for k
      using l3 by (simp add: s'_def t'_def w4)
    have fm: "find (\<lambda>c. cs_id c = x) (map mark cl) = map_option mark (find (\<lambda>c. cs_id c = x) cl)" for x cl
      by (induction cl) (auto simp: m)
    have nf: "find (\<lambda>c. cs_id c = ?u) (t_sets (work s)) = None" using nu by (simp add: find_None_iff log_ids_def notin_image)
    show "find (\<lambda>c. cs_id c = cs_id (ur_set res)) (t_sets (work s')) = Some (ur_set res)"
    proof -
      have "mark row = row" using rid neq oid by (simp add: mark_def)
      with nf rid show ?thesis by (simp add: res_def s'_def t'_def w4 sets3 fm find_append)
    qed
    show "\<exists>c. find (\<lambda>c. cs_id c = cs) (t_sets (work s')) = Some c \<and> cs_status c = ''undone''"
    proof -
      have "cs_status (mark original) = ''undone''" by (simp add: mark_def)
      with orig show ?thesis by (simp add: s'_def t'_def w4 sets3 fm find_append)
    qed
    show "list_all2 (\<lambda>(n, it) r. \<exists>i. r = change_item_row (cs_id (ur_set res)) rq n it i)
       (enumerate 0 (inverse_items (work s) cs items)) (get_change_items (work s') (cs_id (ur_set res)))"
      using rows ins gi rid by (simp add: res_def)
    show "\<exists>rid now. entry_at (work s') (cs_id (ur_set res)) (ci_key i)
        = Some (recycled_row i (the (look (t_records (work s)) (ci_key i))) (cs_id (ur_set res)) a rid now)"
      if "i \<in> set items" "was_create i" for i
      using e3[OF that] rid by (simp add: res_def entry_at_def deleted_entry_for_change_def select_first_def s'_def t'_def w4)
  qed (use row oid in \<open>simp_all add: res_def str_or_def rq_def\<close>)
qed

section \<open>Undo and redo\<close>

definition undoable :: "tables \<Rightarrow> string \<Rightarrow> bool" where
  "undoable t cs \<longleftrightarrow> (\<exists>original. find (\<lambda>c. cs_id c = cs) (t_sets t) = Some original
      \<and> cs_status original = ''applied'' \<and> cs_operation original \<noteq> ''purge'')
    \<and> get_change_items t cs \<noteq> [] \<and> (\<forall>i\<in>set (get_change_items t cs). item_valid t cs i)
    \<and> distinct (map ci_key (get_change_items t cs))"

definition data_at :: "tables \<Rightarrow> string \<times> string \<Rightarrow> dict option" where
  "data_at t k = map_option rec_data (look (t_records t) k)"

definition version_at :: "tables \<Rightarrow> string \<times> string \<Rightarrow> int option" where
  "version_at t k = map_option rec_version (look (t_records t) k)"

lemma undoable_check:
  "undoable t cs \<Longrightarrow> \<exists>original am rm. undo_check t cs = Inr (original, get_change_items t cs, am, rm)"
  by (auto simp: undoable_def undo_check_iff)

lemma undone_at_data:
  assumes valid: "\<forall>i\<in>set items. item_valid t oid i"
  shows "map_option rec_data (undone_at t oid items k) = (case find (\<lambda>i. ci_key i = k) items of
      None \<Rightarrow> data_at t k
    | Some i \<Rightarrow> if ci_before i = None \<and> ci_after i = None then data_at t k else ci_before i)"
proof (cases "find (\<lambda>i. ci_key i = k) items")
  case (Some i)
  then show ?thesis
    by (cases "ci_before i"; cases "ci_after i")
       (simp_all add: undone_at_def data_at_def was_delete_def was_update_def was_create_def restored_record_def reverted_record_def)
qed (simp add: undone_at_def data_at_def)

lemma undo_effect:
  assumes "undoable (work s) cs" "fresh_ids s"
  shows "\<exists>res s'. undo_change_set cs a aty src tr s = (Inr res, s') \<and> committed s' = work s'
    \<and> (\<forall>k. data_at (work s') k = (case find (\<lambda>i. ci_key i = k) (get_change_items (work s) cs) of
          None \<Rightarrow> data_at (work s) k
        | Some i \<Rightarrow> if ci_before i = None \<and> ci_after i = None then data_at (work s) k else ci_before i))
    \<and> (\<forall>k v v'. version_at (work s) k = Some v \<longrightarrow> version_at (work s') k = Some v' \<longrightarrow> v \<le> v')
    \<and> (\<exists>c. find (\<lambda>c. cs_id c = cs) (t_sets (work s')) = Some c \<and> cs_status c = ''undone'')"
proof -
  let ?items = "get_change_items (work s) cs"
  from undoable_check[OF assms(1)] obtain original am rm where chk: "undo_check (work s) cs = Inr (original, ?items, am, rm)" by blast
  have valid: "\<forall>i\<in>set ?items. item_valid (work s) cs i" and d: "distinct (map ci_key ?items)"
    using assms(1) by (auto simp: undoable_def)
  obtain res s' where run: "undo_change_set cs a aty src tr s = (Inr res, s')" and c: "committed s' = work s'"
    and l: "\<And>k. look (t_records (work s')) k = undone_at (work s) cs ?items k"
    and o: "\<exists>c. find (\<lambda>c. cs_id c = cs) (t_sets (work s')) = Some c \<and> cs_status c = ''undone''"
    by (rule undo_run[OF chk assms(2) d]) (rule that; assumption)
  have "v \<le> v'" if "version_at (work s) k = Some v" "version_at (work s') k = Some v'" for k v v'
  proof -
    from that obtain r r' where r: "look (t_records (work s)) k = Some r" "rec_version r = v"
      and r': "undone_at (work s) cs ?items k = Some r'" "rec_version r' = v'" by (auto simp: version_at_def l)
    have le: "rec_version r \<le> record_version r + 1" by (simp add: record_version_def max_def)
    show ?thesis
    proof (cases "find (\<lambda>i. ci_key i = k) ?items")
      case None
      with r r' show ?thesis by (simp add: undone_at_def)
    next
      case (Some i)
      then have i: "i \<in> set ?items" "ci_key i = k" by (auto dest: find_SomeD)
      then have "\<not> was_delete i" using item_valid_delete[of "work s" cs i] valid r(1) by auto
      with Some r r' le show ?thesis by (auto simp: undone_at_def reverted_record_def split: if_splits)
    qed
  qed
  then show ?thesis
    using run o c undone_at_data[OF valid] by (intro exI[of _ res] exI[of _ s']) (auto simp: data_at_def l)
qed

text \<open>C1: undoing a change set that is applied, not a purge, and whose records are as it left them always succeeds; it makes its result durable, gives every record of the change set the data it had before (a created record is gone, a deleted one is back) and leaves every other record alone; versions never go down; and the same change set cannot be undone twice.\<close>

theorem undo_restores:
  assumes "undoable (work s) cs" "fresh_ids s"
  shows "\<exists>res s'. undo_change_set cs a aty src tr s = (Inr res, s') \<and> committed s' = work s'
    \<and> (\<forall>k. data_at (work s') k = (case find (\<lambda>i. ci_key i = k) (get_change_items (work s) cs) of
          None \<Rightarrow> data_at (work s) k
        | Some i \<Rightarrow> if ci_before i = None \<and> ci_after i = None then data_at (work s) k else ci_before i))
    \<and> (\<forall>k v v'. version_at (work s) k = Some v \<longrightarrow> version_at (work s') k = Some v' \<longrightarrow> v \<le> v')
    \<and> undo_change_set cs a aty src tr s' = (Inl (not_undoable ''ChangeSet is not in an applied state''), s')"
proof -
  from undo_effect[OF assms, of a aty src tr] obtain res s' where e: "undo_change_set cs a aty src tr s = (Inr res, s')" "committed s' = work s'"
    "\<forall>k. data_at (work s') k = (case find (\<lambda>i. ci_key i = k) (get_change_items (work s) cs) of
          None \<Rightarrow> data_at (work s) k
        | Some i \<Rightarrow> if ci_before i = None \<and> ci_after i = None then data_at (work s) k else ci_before i)"
    "\<forall>k v v'. version_at (work s) k = Some v \<longrightarrow> version_at (work s') k = Some v' \<longrightarrow> v \<le> v'"
    and u: "\<exists>c. find (\<lambda>c. cs_id c = cs) (t_sets (work s')) = Some c \<and> cs_status c = ''undone''" by blast
  from u have "undo_change_set cs a aty src tr s' = (Inl (not_undoable ''ChangeSet is not in an applied state''), s')"
    by (auto simp: undo_eval undo_check_def select_first_def)
  with e show ?thesis by (intro exI[of _ res] exI[of _ s'] conjI)
qed

lemma inverse_item_cases:
  assumes "it \<in> set (inverse_items t oid items)" "\<forall>i\<in>set items. item_valid t oid i"
  obtains (restored) i where "i \<in> set items" "was_delete i" "it = restore_in i (the (entry_at t oid (ci_key i)))"
  | (reverted) i r where "i \<in> set items" "was_update i" "look (t_records t) (ci_key i) = Some r" "it = revert_in i r"
  | (deleted) i r where "i \<in> set items" "was_create i" "look (t_records t) (ci_key i) = Some r" "it = delete_in i r"
proof -
  from assms(1) consider (a) i where "i \<in> set items" "was_delete i" "it = restore_in i (the (entry_at t oid (ci_key i)))"
    | (b) i where "i \<in> set items" "was_update i" "it = revert_in i (the (look (t_records t) (ci_key i)))"
    | (c) i where "i \<in> set items" "was_create i" "it = delete_in i (the (look (t_records t) (ci_key i)))"
    by (auto simp: inverse_items_def)
  then show ?thesis
  proof cases
    case a
    then show ?thesis by (rule restored)
  next
    case b
    with item_valid_active[of t oid i] assms(2) was_exclusive(1) obtain r where "look (t_records t) (ci_key i) = Some r" by blast
    with b reverted show ?thesis by simp
  next
    case c
    with item_valid_active[of t oid i] assms(2) was_exclusive(2) obtain r where "look (t_records t) (ci_key i) = Some r" by blast
    with c deleted show ?thesis by simp
  qed
qed

lemma in_inverse_items:
  assumes "i \<in> set items"
  shows "was_delete i \<Longrightarrow> restore_in i (the (entry_at t oid (ci_key i))) \<in> set (inverse_items t oid items)"
    "was_update i \<Longrightarrow> revert_in i (the (look (t_records t) (ci_key i))) \<in> set (inverse_items t oid items)"
    "was_create i \<Longrightarrow> delete_in i (the (look (t_records t) (ci_key i))) \<in> set (inverse_items t oid items)"
  using assms by (auto simp: inverse_items_def)

lemma in_items_simps [simp]:
  "in_table (restore_in i rc) = ci_table i" "in_entity (restore_in i rc) = ci_entity i" "in_etype (restore_in i rc) = ''record''"
  "in_table (revert_in i r) = ci_table i" "in_entity (revert_in i r) = ci_entity i" "in_etype (revert_in i r) = ''record''"
  "in_table (delete_in i r) = ci_table i" "in_entity (delete_in i r) = ci_entity i" "in_etype (delete_in i r) = ''record''"
  "in_before (restore_in i rc) = None" "in_after (restore_in i rc) = Some (rec_data (restored_record i rc))"
  "in_before (revert_in i r) = Some (rec_data r)" "in_after (revert_in i r) = Some (rec_data (reverted_record i r))"
  "in_before (delete_in i r) = Some (rec_data r)" "in_after (delete_in i r) = None"
  "in_vafter (restore_in i rc) = Some (rec_version (restored_record i rc))"
  "in_vafter (revert_in i r) = Some (rec_version (reverted_record i r))"
  "in_vafter (delete_in i r) = Some (record_version r + 1)"
  by (simp_all add: restore_in_def revert_in_def delete_in_def Let_def)

lemma row_simps [simp]:
  "ci_before (change_item_row u rq n it i) = in_before it" "ci_after (change_item_row u rq n it i) = in_after it"
  "ci_vafter (change_item_row u rq n it i) = in_vafter it" "ci_entity (change_item_row u rq n it i) = in_entity it"
  "ci_etype (change_item_row u rq n it i) = str_or (in_etype it) ''record''"
  "ci_table (change_item_row u rq n it i) = str_or (in_table it) (case rq_table rq of None \<Rightarrow> [] | Some x \<Rightarrow> x)"
  by (simp_all add: change_item_row_def)

lemma inverse_keys:
  "map (\<lambda>it. (in_table it, in_entity it)) (inverse_items t oid items)
     = map ci_key (filter was_delete items @ filter was_update items @ filter was_create items)"
  by (simp add: inverse_items_def ci_key_def)

lemma inverse_keys_distinct:
  assumes "distinct (map ci_key items)"
  shows "distinct (map ci_key (filter was_delete items @ filter was_update items @ filter was_create items))"
proof -
  have "inj_on ci_key (set items)" "distinct items" using assms by (auto simp: distinct_map)
  moreover have "distinct (filter was_delete items @ filter was_update items @ filter was_create items)"
    using \<open>distinct items\<close> was_exclusive by auto
  ultimately show ?thesis by (simp only: distinct_map) (auto simp: inj_on_def)
qed

text \<open>C2: undo is reversible: when a change set that changed something is undone, the change set that the undo appends can itself be undone, and undoing it gives every record the data it had before the first undo (a redo).\<close>

theorem undo_then_redo:
  assumes "undoable (work s) cs" "fresh_ids s"
    and "\<exists>i\<in>set (get_change_items (work s) cs). ci_before i \<noteq> None \<or> ci_after i \<noteq> None"
    and wf: "\<forall>i\<in>set (get_change_items (work s) cs). ci_table i \<noteq> [] \<and> (\<exists>v\<ge>1. ci_vafter i = Some v)"
  shows "\<exists>res s1 res2 s2. undo_change_set cs a aty src tr s = (Inr res, s1)
    \<and> undo_change_set (cs_id (ur_set res)) a2 aty2 src2 tr2 s1 = (Inr res2, s2)
    \<and> (\<forall>k. data_at (work s2) k = data_at (work s) k)"
proof -
  let ?items = "get_change_items (work s) cs" and ?t = "work s"
  from undoable_check[OF assms(1)] obtain original am rm where chk: "undo_check ?t cs = Inr (original, ?items, am, rm)" by blast
  have valid: "\<forall>i\<in>set ?items. item_valid ?t cs i" and d: "distinct (map ci_key ?items)"
    using assms(1) by (auto simp: undoable_def)
  obtain res s1 rq where run: "undo_change_set cs a aty src tr s = (Inr res, s1)" and f1: "fresh_ids s1"
    and l: "\<And>k. look (t_records (work s1)) k = undone_at ?t cs ?items k"
    and fs: "find (\<lambda>c. cs_id c = cs_id (ur_set res)) (t_sets (work s1)) = Some (ur_set res)"
    and st: "cs_status (ur_set res) = ''applied''" "cs_operation (ur_set res) = ''undo''"
    and rows: "list_all2 (\<lambda>(n, it) r. \<exists>i. r = change_item_row (cs_id (ur_set res)) rq n it i)
       (enumerate 0 (inverse_items ?t cs ?items)) (get_change_items (work s1) (cs_id (ur_set res)))"
    and en: "\<And>i. i \<in> set ?items \<Longrightarrow> was_create i \<Longrightarrow> \<exists>rid now. entry_at (work s1) (cs_id (ur_set res)) (ci_key i)
        = Some (recycled_row i (the (look (t_records ?t) (ci_key i))) (cs_id (ur_set res)) a rid now)"
    by (rule undo_run[OF chk assms(2) d]) (rule that; assumption)
  let ?u = "cs_id (ur_set res)"
  let ?items1 = "get_change_items (work s1) ?u"
  note lr = logged_rows[OF rows]
  have tbl: "in_table it \<noteq> []" if "it \<in> set (inverse_items ?t cs ?items)" for it
    using that valid by (cases rule: inverse_item_cases) (use wf in auto)
  have keyrow: "ci_key (change_item_row ?u rq n it j) = (in_table it, in_entity it)" if "it \<in> set (inverse_items ?t cs ?items)" for n it j
    using tbl[OF that] by (simp add: ci_key_def str_or_def)
  have "map ci_key ?items1 = map (\<lambda>it. (in_table it, in_entity it)) (inverse_items ?t cs ?items)"
    using lr tbl by (auto simp: str_or_def)
  then have d1: "distinct (map ci_key ?items1)"
    using inverse_keys_distinct[OF d] by (simp only: inverse_keys)
  have fnd: "find (\<lambda>r. ci_key r = ci_key i) ?items = Some i" if "i \<in> set ?items" for i
    using find_distinct_key[OF d that] .
  have at: "undone_at ?t cs ?items (ci_key i) = (if was_delete i then Some (restored_record i (the (entry_at ?t cs (ci_key i))))
        else if was_update i then Some (reverted_record i (the (look (t_records ?t) (ci_key i))))
        else if was_create i then None else look (t_records ?t) (ci_key i))" if "i \<in> set ?items" for i
    using fnd[OF that] by (simp add: undone_at_def)
  have valid1: "item_valid (work s1) ?u r" if r: "r \<in> set ?items1" for r
  proof -
    from r lr obtain it n j where it: "it \<in> set (inverse_items ?t cs ?items)" and rr: "r = change_item_row ?u rq n it j" by blast
    show ?thesis using it valid
    proof (cases rule: inverse_item_cases)
      case (restored i)
      have "rec_version (restored_record i rc) \<ge> 2" for rc
        using wf restored(1) by (auto simp: restored_record_def int_or_def)
      then have "record_version (restored_record i (the (entry_at ?t cs (ci_key i)))) = int_or (ci_vafter r) 1"
        unfolding rr restored(3) by (simp add: record_version_def int_or_def) (smt (verit))
      then show ?thesis using restored keyrow[OF it] at[OF restored(1)]
        by (simp add: item_valid_def rr was_delete_def str_or_def l ci_key_def)
    next
      case (reverted i x)
      have "record_version (reverted_record i x) = int_or (ci_vafter r) 1"
        unfolding rr reverted(4) by (simp add: record_version_def int_or_def reverted_record_def)
      moreover have "undone_at ?t cs ?items (ci_key i) = Some (reverted_record i x)"
        using at[OF reverted(1)] reverted(2,3) was_exclusive(1)[OF reverted(2)] by simp
      ultimately show ?thesis using reverted keyrow[OF it]
        by (simp add: item_valid_def rr was_delete_def str_or_def l ci_key_def)
    next
      case (deleted i x)
      obtain rid now where e: "entry_at (work s1) ?u (ci_key i) = Some (recycled_row i x ?u a rid now)"
        using en[OF deleted(1,2)] deleted(3) by auto
      have "rb_version (recycled_row i x ?u a rid now) = record_version x + 1" by (simp add: recycled_row_def)
      moreover have "undone_at ?t cs ?items (ci_key i) = None"
        using at[OF deleted(1)] deleted(2,3) was_exclusive(2,3)[OF deleted(2)] by simp
      ultimately show ?thesis using deleted keyrow[OF it] e
        by (simp add: item_valid_def rr was_delete_def str_or_def l ci_key_def int_or_def)
    qed
  qed
  obtain i0 where "i0 \<in> set ?items" "was_delete i0 \<or> was_update i0 \<or> was_create i0"
    using assms(3) unfolding was_delete_def was_update_def was_create_def by blast
  then have "inverse_items ?t cs ?items \<noteq> []" by (auto simp: inverse_items_def filter_empty_conv)
  then have ne1: "?items1 \<noteq> []" using lr by auto
  have un1: "undoable (work s1) ?u"
    unfolding undoable_def using fs st ne1 valid1 d1 by auto
  from undo_effect[OF un1 f1, of a2 aty2 src2 tr2] obtain res2 s2 where run2: "undo_change_set ?u a2 aty2 src2 tr2 s1 = (Inr res2, s2)"
    and dd: "\<forall>k. data_at (work s2) k = (case find (\<lambda>i. ci_key i = k) ?items1 of
          None \<Rightarrow> data_at (work s1) k
        | Some i \<Rightarrow> if ci_before i = None \<and> ci_after i = None then data_at (work s1) k else ci_before i)" by blast
  have "data_at (work s2) k = data_at ?t k" for k
  proof (cases "find (\<lambda>i. ci_key i = k) ?items1")
    case (Some r)
    then have r: "r \<in> set ?items1" "ci_key r = k" by (auto dest: find_SomeD)
    with lr obtain it n j where it: "it \<in> set (inverse_items ?t cs ?items)" and rr: "r = change_item_row ?u rq n it j" by blast
    have k: "k = (in_table it, in_entity it)" using keyrow[OF it] r(2) rr by simp
    show ?thesis using it valid
    proof (cases rule: inverse_item_cases)
      case (restored i)
      then have "look (t_records ?t) (ci_key i) = None" using item_valid_delete valid by blast
      with restored k dd Some rr show ?thesis by (simp add: data_at_def ci_key_def)
    next
      case (reverted i x)
      with k dd Some rr show ?thesis by (simp add: data_at_def ci_key_def)
    next
      case (deleted i x)
      with k dd Some rr show ?thesis by (simp add: data_at_def ci_key_def)
    qed
  next
    case None
    have "undone_at ?t cs ?items k = look (t_records ?t) k"
    proof (cases "find (\<lambda>i. ci_key i = k) ?items")
      case (Some i)
      then have i: "i \<in> set ?items" "ci_key i = k" by (auto dest: find_SomeD)
      have nk: "it \<in> set (inverse_items ?t cs ?items) \<Longrightarrow> (in_table it, in_entity it) \<noteq> k" for it
      proof
        assume it: "it \<in> set (inverse_items ?t cs ?items)" and k: "(in_table it, in_entity it) = k"
        with lr obtain n j where "change_item_row ?u rq n it j \<in> set ?items1" by blast
        with keyrow[OF it] k None show False by (auto simp: find_None_iff)
      qed
      have "\<not> was_delete i" "\<not> was_update i" "\<not> was_create i"
        using nk[OF in_inverse_items(1)[OF i(1)]] nk[OF in_inverse_items(2)[OF i(1)]] nk[OF in_inverse_items(3)[OF i(1)]] i(2)
        unfolding in_items_simps ci_key_def by blast+
      with at[OF i(1)] i(2) show ?thesis by simp
    qed (simp add: undone_at_def)
    with None dd show ?thesis by (simp add: data_at_def l)
  qed
  with run run2 show ?thesis by blast
qed

definition example_log :: tables where
  "example_log = empty_tables\<lparr>
     t_records := [\<lparr>rec_id = ''r'', rec_table = ''t'', rec_data = [(''x'', PInt 2)], rec_order = 0, rec_creator = None, rec_version = 2\<rparr>],
     t_sets := [\<lparr>cs_id = ''c'', cs_ws = None, cs_table = Some ''t'', cs_actor_type = ''user'', cs_actor = None,
        cs_operation = ''update'', cs_source = None, cs_trace = None, cs_summary = [], cs_status = ''applied'',
        cs_parent = None, cs_undone_at = None, cs_undone_by = None, cs_created = 0\<rparr>],
     t_changes := [\<lparr>ci_id = ''i'', ci_set = ''c'', ci_table = ''t'', ci_etype = ''record'', ci_entity = ''r'',
        ci_before = Some [(''x'', PInt 1)], ci_after = Some [(''x'', PInt 2)],
        ci_bmeta = Some (RecordMeta 0 None), ci_ameta = Some (RecordMeta 0 None),
        ci_vbefore = Some 1, ci_vafter = Some 2, ci_changed = [''x''], ci_order = 0\<rparr>]\<rparr>"

lemma example_log_items: "get_change_items example_log ''c'' = t_changes example_log"
  by (simp add: get_change_items_def select_def example_log_def sort_key_def)

lemma example_log_undoable: "undoable example_log ''c''"
  unfolding undoable_def example_log_items
  by (simp add: example_log_def empty_tables_def item_valid_def was_delete_def look_def ci_key_def record_version_def int_or_def)

lemma fresh_session: "\<forall>i\<in>log_ids t. length i < 4 \<Longrightarrow> fresh_ids (session_of t)"
proof -
  assume a: "\<forall>i\<in>log_ids t. length i < 4"
  have "4 \<le> length (gen_id (session_of t) p n)" if "p \<in> log_prefixes" for p n
    using that by (auto simp: gen_id_def log_prefixes_def)
  with a have "gen_id (session_of t) p n \<notin> log_ids t" if "p \<in> log_prefixes" for p n
    using that by (meson not_le)
  then show "fresh_ids (session_of t)"
    by (simp add: fresh_ids_def inj_def) (simp add: session_of_def)
qed

lemma example_log_fresh: "fresh_ids (session_of example_log)"
  by (rule fresh_session) (simp add: log_ids_def example_log_def empty_tables_def)

theorem undo_restores_witness:
  "\<exists>res s'. undo_change_set ''c'' None ''user'' ''undo'' None (session_of example_log) = (Inr res, s')
     \<and> data_at (work s') (''t'', ''r'') = Some [(''x'', PInt 1)]"
proof -
  have u: "undoable (work (session_of example_log)) ''c''" using example_log_undoable by simp
  have f: "find (\<lambda>i. ci_key i = (''t'', ''r'')) (get_change_items example_log ''c'') = Some (hd (t_changes example_log))"
    "ci_before (hd (t_changes example_log)) = Some [(''x'', PInt 1)]"
    unfolding example_log_items by (simp_all add: example_log_def ci_key_def)
  from undo_restores[OF u example_log_fresh, of None "''user''" "''undo''" None] f show ?thesis by fastforce
qed

theorem undo_then_redo_witness:
  "\<exists>res s1 res2 s2. undo_change_set ''c'' None ''user'' ''undo'' None (session_of example_log) = (Inr res, s1)
    \<and> undo_change_set (cs_id (ur_set res)) None ''user'' ''undo'' None s1 = (Inr res2, s2)
    \<and> data_at (work s2) (''t'', ''r'') = Some [(''x'', PInt 2)]"
proof -
  have u: "undoable (work (session_of example_log)) ''c''" using example_log_undoable by simp
  have h: "\<exists>i\<in>set (get_change_items (work (session_of example_log)) ''c''). ci_before i \<noteq> None \<or> ci_after i \<noteq> None"
    "\<forall>i\<in>set (get_change_items (work (session_of example_log)) ''c''). ci_table i \<noteq> [] \<and> (\<exists>v\<ge>1. ci_vafter i = Some v)"
    by (simp_all add: example_log_items) (simp_all add: example_log_def)
  have d: "data_at (work (session_of example_log)) (''t'', ''r'') = Some [(''x'', PInt 2)]"
    by (simp add: data_at_def look_def example_log_def)
  from undo_then_redo[OF u example_log_fresh h, of None "''user''" "''undo''" None None "''user''" "''undo''" None] d
  show ?thesis by metis
qed

section \<open>Purge\<close>

lemma latest_deleted_Some:
  assumes "latest_deleted t tbl rid = Some e"
  shows "e \<in> set (t_recycle t) \<and> rb_table e = tbl \<and> rb_record e = rid \<and> rb_status e = ''deleted''"
proof -
  have "e \<in> set (newest_first (select t_recycle (\<lambda>r. rb_table r = tbl \<and> rb_record r = rid \<and> rb_status r = ''deleted'') t))"
    using assms by (auto simp: latest_deleted_def split: list.splits)
  then show ?thesis by (simp add: newest_first_def select_def)
qed

definition purged_item :: "change_item \<Rightarrow> bool" where
  "purged_item c \<longleftrightarrow> ci_before c = None \<and> ci_after c = None \<and> ci_bmeta c = None \<and> ci_ameta c \<in> {None, Some PurgedMeta}
     \<and> ci_changed c = [''__purged__'']"

definition about_record :: "string \<Rightarrow> string \<Rightarrow> change_item \<Rightarrow> bool" where
  "about_record tbl rid c \<longleftrightarrow> ci_table c = tbl \<and> ci_etype c = ''record'' \<and> ci_entity c = rid"

text \<open>purging a record that is in the recycle bin always succeeds and is durable: afterwards no change item holds data or metadata of the record, no recycle entry of it (restored ones included) is left, the change set that deleted it cannot be undone any more, and the history of every other record is unchanged.\<close>

theorem purge_erases:
  assumes "latest_deleted (work s) tbl rid = Some e" "fresh_ids s" "tbl \<noteq> []"
  shows "\<exists>s'. purge_recycled_record tbl rid a s = (Inr True, s') \<and> committed s' = work s'
    \<and> (\<forall>c\<in>set (t_changes (work s')). about_record tbl rid c \<longrightarrow> purged_item c)
    \<and> (\<forall>r\<in>set (t_recycle (work s')). \<not> (rb_table r = tbl \<and> rb_record r = rid))
    \<and> filter (\<lambda>c. \<not> about_record tbl rid c) (t_changes (work s')) = filter (\<lambda>c. \<not> about_record tbl rid c) (t_changes (work s))
    \<and> (\<forall>cs. rb_set e = Some cs \<longrightarrow> cs \<noteq> [] \<longrightarrow> \<not> undoable (work s') cs)
    \<and> t_records (work s') = t_records (work s)"
proof -
  define mark where "mark = (\<lambda>c :: change_set. if none_if_empty (rb_set e) = Some (cs_id c) then c\<lparr>cs_status := ''irreversible''\<rparr> else c)"
  define pg where "pg = (\<lambda>c. if about_record tbl rid c then purge_history_item c else c)"
  define s1 where "s1 = s\<lparr>work := t_changes_update (map pg) (t_sets_update (map mark) (work s))\<rparr>"
  have mid: "cs_id (mark c) = cs_id c" for c by (simp add: mark_def)
  have pid: "ci_id (pg c) = ci_id c" "ci_set (pg c) = ci_set c" "about_record tbl rid (pg c) = about_record tbl rid c" for c
    by (simp_all add: pg_def purge_history_item_def about_record_def)
  have ls1: "log_step s s1"
    by (rule log_step_same_log) (simp_all add: s1_def log_ids_def image_image mid pid)
  define rq where "rq = \<lparr>rq_table = Some tbl, rq_actor = a, rq_operation = ''purge'',
                rq_actor_type = ''user'', rq_source = Some ''recycle_bin'', rq_trace = None,
                rq_summary = ''Permanently purge record '' @ rid, rq_status = ''irreversible'',
                rq_parent = None, rq_id = None\<rparr>"
  define it where "it = \<lparr>in_table = tbl, in_etype = ''record'', in_entity = rid,
                 in_before = None, in_after = None, in_bmeta = None, in_ameta = Some PurgedMeta,
                 in_vbefore = Some (rb_version e), in_vafter = Some (rb_version e),
                 in_changed = Some [''__purged__'']\<rparr>"
  have hyp: "\<forall>i. rq_id rq = Some i \<longrightarrow> i \<noteq> [] \<longrightarrow> i \<notin> cs_id ` set (t_sets (work s1)) \<and> i \<in> issued_ids s1"
    by (simp add: rq_def)
  obtain row rows s2 where ap: "append_change_set rq [it] s1 = (Inr row, s2)"
    and w2: "work s2 = (work s1)\<lparr>t_sets := t_sets (work s1) @ [row], t_changes := t_changes (work s1) @ rows\<rparr>"
    and rows: "list_all2 (\<lambda>(n, it) r. \<exists>i. r = change_item_row (cs_id row) rq n it i) (enumerate 0 [it]) rows"
    and rst: "cs_status row = rq_status rq"
    by (rule append_change_set_run[OF log_step_fresh[OF ls1 assms(2)] hyp]) (rule that; assumption)
  from rows obtain i where rows1: "rows = [change_item_row (cs_id row) rq 0 it i]" by (auto simp: list_all2_Cons1)
  let ?new = "change_item_row (cs_id row) rq 0 it i"
  have new: "about_record tbl rid ?new" "purged_item ?new"
    using assms(3) by (simp_all add: change_item_row_def rq_def it_def about_record_def purged_item_def str_or_def)
  define t' where "t' = t_recycle_update (filter (\<lambda>r. \<not> (rb_table r = tbl \<and> rb_record r = rid))) (work s2)"
  let ?s' = "s2\<lparr>work := t', committed := t'\<rparr>"
  have step1: "(case none_if_empty (rb_set e) of
               None \<Rightarrow> ret ()
             | Some origin \<Rightarrow> update_rows t_sets_update (\<lambda>c. cs_id c = origin) (\<lambda>c. c\<lparr>cs_status := ''irreversible''\<rparr>)) s
      = (Inr (), s\<lparr>work := t_sets_update (map mark) (work s)\<rparr>)"
  proof (cases "none_if_empty (rb_set e)")
    case None
    then have "mark = (\<lambda>c. c)" by (simp add: mark_def fun_eq_iff)
    with None show ?thesis by (simp add: op_eval)
  next
    case (Some x)
    then have "mark = (\<lambda>c. if cs_id c = x then c\<lparr>cs_status := ''irreversible''\<rparr> else c)"
      by (auto simp: mark_def fun_eq_iff)
    with Some show ?thesis by (simp add: op_eval)
  qed
  have run: "purge_recycled_record tbl rid a s = (Inr True, ?s')"
    using assms(1) step1 ap[unfolded s1_def pg_def about_record_def rq_def it_def]
    by (simp add: purge_recycled_record_def op_eval t'_def)
  have ni: "\<not> undoable t' cs" if cs: "rb_set e = Some cs" "cs \<noteq> []" for cs
  proof -
    have m: "none_if_empty (rb_set e) = Some cs" using cs by (simp add: none_if_empty_def)
    have fm: "find (\<lambda>c. cs_id c = cs) (map mark cl) = map_option mark (find (\<lambda>c. cs_id c = cs) cl)" for cl
      by (induction cl) (auto simp: mid)
    have irr: "cs_status row = ''irreversible''" using rst by (simp add: rq_def)
    show ?thesis
      using irr by (auto simp: undoable_def t'_def w2 s1_def find_append fm mark_def m dest!: find_SomeD split: option.splits if_splits)
  qed
  show ?thesis
  proof (intro exI[of _ ?s'] conjI run)
    show "\<forall>c\<in>set (t_changes (work ?s')). about_record tbl rid c \<longrightarrow> purged_item c"
      using new by (auto simp: t'_def w2 s1_def rows1 pg_def purge_history_item_def purged_item_def about_record_def)
    show "filter (\<lambda>c. \<not> about_record tbl rid c) (t_changes (work ?s')) = filter (\<lambda>c. \<not> about_record tbl rid c) (t_changes (work s))"
      using new by (simp add: t'_def w2 s1_def rows1 filter_map comp_def pid)
        (rule map_idI, simp add: pg_def)
  qed (use ni in \<open>simp_all add: t'_def w2 s1_def\<close>)
qed


definition example_bin :: tables where
  "example_bin = empty_tables\<lparr>t_recycle := [\<lparr>rb_id = ''b'', rb_table = ''t'', rb_record = ''r'', rb_data = [(''x'', PInt 1)],
     rb_order = 0, rb_creator = None, rb_version = 2, rb_deleted_by = None, rb_deleted_at = 5, rb_set = Some ''c'',
     rb_status = ''deleted'', rb_restored_at = None, rb_restored_by = None\<rparr>]\<rparr>"

theorem purge_erases_witness:
  "\<exists>s'. purge_recycled_record ''t'' ''r'' None (session_of example_bin) = (Inr True, s')
     \<and> filter (\<lambda>r. rb_table r = ''t'' \<and> rb_record r = ''r'') (t_recycle (work s')) = []"
proof -
  have l: "latest_deleted (work (session_of example_bin)) ''t'' ''r'' = Some (hd (t_recycle example_bin))"
    by (simp add: latest_deleted_def newest_first_def select_def example_bin_def sort_key_def)
  have f: "fresh_ids (session_of example_bin)"
    by (rule fresh_session) (simp add: log_ids_def example_bin_def empty_tables_def)
  from purge_erases[OF l f, of None] show ?thesis by (auto simp: filter_empty_conv)
qed

section \<open>Pages\<close>

lemma page_slice_cover:
  assumes "0 < L"
  shows "concat (map (\<lambda>p. page_slice (int p * L) L xs) [0..<n]) = take (n * nat L) xs"
proof (induction n)
  case (Suc n)
  have "nat (int n * L) = n * nat L" using assms by (simp add: nat_mult_distrib)
  moreover have "Suc n * nat L = n * nat L + nat L" by simp
  ultimately show ?case using Suc by (simp add: page_slice_def take_add del: mult_Suc)
qed simp

text \<open>paging through the recycle bin is safe and complete: whatever offset and limit a client asks for, a page has at most 200 entries, all of them deleted entries of that table, and it says that more follow exactly when entries are left; and walking the pages with any limit from 1 to 200 lists every deleted entry of the table exactly once, newest first.\<close>

theorem recycle_bin_pages:
  "length (pg_items (list_recycle_bin t tbl off lm)) \<le> 200
   \<and> (\<forall>r\<in>set (pg_items (list_recycle_bin t tbl off lm)). r \<in> set (t_recycle t) \<and> rb_table r = tbl \<and> rb_status r = ''deleted'')
   \<and> (0 \<le> off \<longrightarrow> off \<le> int (pg_total (list_recycle_bin t tbl off lm)) \<longrightarrow>
        (pg_more (list_recycle_bin t tbl off lm) \<longleftrightarrow>
         pg_items (list_recycle_bin t tbl (off + int (length (pg_items (list_recycle_bin t tbl off lm)))) 1) \<noteq> []))
   \<and> (1 \<le> lm \<longrightarrow> lm \<le> 200 \<longrightarrow> pg_total (list_recycle_bin t tbl 0 lm) \<le> n * nat lm \<longrightarrow>
        concat (map (\<lambda>p. pg_items (list_recycle_bin t tbl (int p * lm) lm)) [0..<n])
        = newest_first (filter (\<lambda>r. rb_table r = tbl \<and> rb_status r = ''deleted'') (t_recycle t)))"
proof -
  let ?rows = "filter (\<lambda>r. rb_table r = tbl \<and> rb_status r = ''deleted'') (t_recycle t)"
  have items: "pg_items (list_recycle_bin t tbl o' l') = page_slice (max 0 o') (max 1 (min 200 l')) (newest_first ?rows)" for o' l'
    by (simp add: list_recycle_bin_def select_def Let_def)
  have len: "length (newest_first ?rows) = length ?rows" by (simp add: newest_first_def)
  show ?thesis
  proof (intro conjI impI)
    show "length (pg_items (list_recycle_bin t tbl off lm)) \<le> 200"
      by (simp add: items page_slice_def)
    show "\<forall>r\<in>set (pg_items (list_recycle_bin t tbl off lm)). r \<in> set (t_recycle t) \<and> rb_table r = tbl \<and> rb_status r = ''deleted''"
      unfolding items page_slice_def by (auto dest!: in_set_takeD in_set_dropD simp: newest_first_def)
    show "pg_more (list_recycle_bin t tbl off lm) \<longleftrightarrow>
         pg_items (list_recycle_bin t tbl (off + int (length (pg_items (list_recycle_bin t tbl off lm)))) 1) \<noteq> []"
      if "0 \<le> off" "off \<le> int (pg_total (list_recycle_bin t tbl off lm))"
    proof -
      let ?k = "length (pg_items (list_recycle_bin t tbl off lm))"
      have "pg_more (list_recycle_bin t tbl off lm) \<longleftrightarrow> off + int ?k < int (length ?rows)"
        using that(1) by (simp add: list_recycle_bin_def select_def Let_def max_def)
      moreover have "pg_items (list_recycle_bin t tbl (off + int ?k) 1) = take 1 (drop (nat (off + int ?k)) (newest_first ?rows))"
        using that(1) by (simp add: items page_slice_def)
      moreover have "off + int ?k < int (length ?rows) \<longleftrightarrow> nat (off + int ?k) < length ?rows"
        using that(1) by linarith
      ultimately show ?thesis by (simp add: len not_le)
    qed
    show "concat (map (\<lambda>p. pg_items (list_recycle_bin t tbl (int p * lm) lm)) [0..<n]) = newest_first ?rows"
      if h: "1 \<le> lm" "lm \<le> 200" "pg_total (list_recycle_bin t tbl 0 lm) \<le> n * nat lm"
    proof -
      have "(\<lambda>p. pg_items (list_recycle_bin t tbl (int p * lm) lm)) = (\<lambda>p. page_slice (int p * lm) lm (newest_first ?rows))"
        using h by (auto simp: items fun_eq_iff max_def)
      then have "concat (map (\<lambda>p. pg_items (list_recycle_bin t tbl (int p * lm) lm)) [0..<n]) = take (n * nat lm) (newest_first ?rows)"
        using page_slice_cover[of lm] h by simp
      moreover have "length (newest_first ?rows) \<le> n * nat lm"
        using h(3) by (simp add: len list_recycle_bin_def select_def Let_def)
      ultimately show ?thesis by simp
    qed
  qed
qed

theorem recycle_bin_pages_witness:
  "concat (map (\<lambda>p. pg_items (list_recycle_bin example_bin ''t'' (int p * 1) 1)) [0..<1]) = t_recycle example_bin
   \<and> length (pg_items (list_recycle_bin example_bin ''t'' 0 100000)) \<le> 200"
proof -
  have n: "newest_first (filter (\<lambda>r. rb_table r = ''t'' \<and> rb_status r = ''deleted'') (t_recycle example_bin)) = t_recycle example_bin"
    by (simp add: newest_first_def example_bin_def sort_key_def)
  have p: "pg_total (list_recycle_bin example_bin ''t'' 0 1) \<le> 1 * nat 1"
    by (simp add: list_recycle_bin_def select_def example_bin_def Let_def)
  from recycle_bin_pages[of example_bin "''t''" 0 1 1] n p recycle_bin_pages[of example_bin "''t''" 0 100000 0]
  show ?thesis by simp
qed

end
