(* ===== verification/RelationStore.thy ===== *)
theory RelationStore
  imports RowPermissions Undo
begin

text \<open>
  \<open>src/app/services/relation_store.py\<close> on the database backend: a relation field is checked
  against the tables of its workspace, the links a client writes are normalised and looked up
  in the target table (under the row policy when a user writes), and deleting a record takes
  the links to it out of every record of the workspace. The table ids are those
  \<open>helpers.normalize_table_id\<close> returns.
\<close>

section \<open>Definitions\<close>

definition normalize_table_id :: "string option \<Rightarrow> string" where
  "normalize_table_id table_id = (case table_id of
       None \<Rightarrow> ''dstDefault'' | Some i \<Rightarrow> if i = [] then ''dstDefault'' else i)"

definition field_to_dict :: "table_field \<Rightarrow> dict" where
  "field_to_dict f =
     [(''id'', PStr (fld_id f)), (''tableId'', PStr (fld_table f)), (''name'', PStr (fld_name f)),
      (''type'', PStr (fld_type f)), (''options'', fld_options f), (''property'', fld_property f)]"

text \<open>\<open>field_map.get(field_id)\<close>: the last field with that id.\<close>

definition field_lookup :: "dict list \<Rightarrow> string \<Rightarrow> dict option" where
  "field_lookup flds k =
     map_of (rev (map (\<lambda>f. (py_str (dget f ''id''), f)) (filter (\<lambda>f. py_truth (dget f ''id'')) flds))) k"

text \<open>\<open>groups.setdefault(k, []).extend(xs)\<close>.\<close>

type_synonym id_groups = "(string \<times> string list) list"

definition extend_group :: "string \<Rightarrow> string list \<Rightarrow> id_groups \<Rightarrow> id_groups" where
  "extend_group k xs g = AList.update k ((case map_of g k of None \<Rightarrow> [] | Some ys \<Rightarrow> ys) @ xs) g"

subsection \<open>Writing links\<close>

definition ensure_target_record_ids_db :: "tables \<Rightarrow> string \<Rightarrow> string list \<Rightarrow> unit res" where
  "ensure_target_record_ids_db t target_table_id record_ids =
     (let unique_ids = dedup record_ids;
          existing = map rec_id (select t_records
            (\<lambda>r. rec_table r = target_table_id \<and> rec_id r \<in> set unique_ids) t)
      in if unique_ids = [] then Inr ()
         else (case filter (\<lambda>i. i \<notin> set existing) unique_ids of
             [] \<Rightarrow> Inr ()
           | missing # _ \<Rightarrow> rel_error (''Linked record does not exist in target table: '' @ missing)))"

definition ensure_target_record_ids_visible_db ::
  "tables \<Rightarrow> string \<Rightarrow> string list \<Rightarrow> int option \<Rightarrow> unit res" where
  "ensure_target_record_ids_visible_db t target_table_id record_ids user_id =
     bind_res (ensure_target_record_ids_db t target_table_id record_ids) (\<lambda>_.
     case user_id of
       None \<Rightarrow> Inr ()
     | Some u \<Rightarrow>
         let permission = get_effective_permission_for_item t u target_table_id in
         if \<not> permission_allows permission ''read''
         then rel_error ''Linked record not found or no access''
         else let pol = get_row_permission_policy t target_table_id in
           if \<not> row_permission_restricts_user pol permission then Inr ()
           else let allowed = allowed_record_ids t target_table_id u permission (Some pol) in
             if filter (\<lambda>i. i \<notin> set allowed) (dedup record_ids) \<noteq> []
             then rel_error ''Linked record not found or no access''
             else Inr ())"

fun ensure_groups_visible :: "tables \<Rightarrow> int option \<Rightarrow> id_groups \<Rightarrow> unit res" where
  "ensure_groups_visible t user_id [] = Inr ()"
| "ensure_groups_visible t user_id ((target, ids) # g) =
     bind_res (ensure_target_record_ids_visible_db t target ids user_id) (\<lambda>_.
       ensure_groups_visible t user_id g)"

text \<open>The loop over \<open>values.items()\<close>: the payload so far and the ids grouped by target.\<close>

fun normalize_links :: "dict list \<Rightarrow> dict \<Rightarrow> dict \<times> id_groups \<Rightarrow> (dict \<times> id_groups) res" where
  "normalize_links flds [] acc = Inr acc"
| "normalize_links flds ((field_id, v) # vals) (next_values, groups) =
     (case field_lookup flds field_id of
        None \<Rightarrow> normalize_links flds vals (next_values, groups)
      | Some f \<Rightarrow>
          if \<not> is_relation_field f then normalize_links flds vals (next_values, groups)
          else bind_res (normalize_relation_value f v) (\<lambda>normalized.
               bind_res (relation_record_ids f normalized) (\<lambda>ids.
                 normalize_links flds vals
                   (dset field_id normalized next_values,
                    extend_group (get_target_table_id f) (map py_str ids) groups))))"

definition normalize_relation_payload_db ::
  "tables \<Rightarrow> dict list \<Rightarrow> dict \<Rightarrow> int option \<Rightarrow> dict res" where
  "normalize_relation_payload_db t flds vals user_id =
     bind_res (normalize_links flds vals (vals, [])) (\<lambda>(next_values, groups).
     bind_res (ensure_groups_visible t user_id groups) (\<lambda>_. Inr next_values))"

fun normalize_link_rows :: "dict list \<Rightarrow> dict list \<Rightarrow> id_groups \<Rightarrow> (dict list \<times> id_groups) res" where
  "normalize_link_rows flds [] groups = Inr ([], groups)"
| "normalize_link_rows flds (row # rows) groups =
     bind_res (normalize_links flds row (row, groups)) (\<lambda>(next_row, groups').
     bind_res (normalize_link_rows flds rows groups') (\<lambda>(next_rows, groups'').
       Inr (next_row # next_rows, groups'')))"

definition normalize_relation_rows_db ::
  "tables \<Rightarrow> dict list \<Rightarrow> dict list \<Rightarrow> int option \<Rightarrow> dict list res" where
  "normalize_relation_rows_db t flds rows user_id =
     bind_res (normalize_link_rows flds rows []) (\<lambda>(next_rows, groups).
     bind_res (ensure_groups_visible t user_id groups) (\<lambda>_. Inr next_rows))"

subsection \<open>Checking and migrating a relation field\<close>

fun write_normalized :: "string \<Rightarrow> (table_record \<times> dict) list \<Rightarrow> nat op" where
  "write_normalized field_id [] = ret 0"
| "write_normalized field_id ((r, normalized) # rows) =
     (if py_eq (dget (rec_data r) field_id) (dget normalized field_id)
      then write_normalized field_id rows
      else then_op (update_rows t_records_update (\<lambda>x. rec_key x = rec_key r)
               (\<lambda>x. x\<lparr>rec_data := dset field_id (dget normalized field_id) (rec_data x)\<rparr>))
           (bind_op (write_normalized field_id rows) (\<lambda>n. ret (Suc n))))"

definition normalize_existing_relation_field_db :: "string \<Rightarrow> dict \<Rightarrow> nat op" where
  "normalize_existing_relation_field_db source_table_id field =
     (if \<not> is_relation_field field then ret 0
      else let field_id = str_or_empty (dget field ''id'') in
        if field_id = [] then of_res (rel_error ''Relation field requires an id'')
        else
          bind_op (reads (select t_records (\<lambda>r. rec_table r = source_table_id))) (\<lambda>records.
          bind_op (reads (\<lambda>t. normalize_relation_rows_db t [field]
              (map (\<lambda>r. [(field_id, dget (rec_data r) field_id)]) records) None)) (\<lambda>normalized.
          bind_op (of_res normalized) (\<lambda>rows.
            write_normalized field_id (zip records rows)))))"

definition check_relation_target :: "tables \<Rightarrow> string \<Rightarrow> dict \<Rightarrow> unit res" where
  "check_relation_target t source_id field =
     (let target_id = get_target_table_id field;
          item = (\<lambda>i. select_first t_items (\<lambda>x. itm_id x = i) t)
      in case item source_id of
           None \<Rightarrow> rel_error ''Source table does not exist in workspace''
         | Some source_item \<Rightarrow>
             if itm_type source_item \<noteq> ''table'' then rel_error ''Source table does not exist in workspace''
             else (case item target_id of
                 None \<Rightarrow> rel_error ''Relation target table does not exist''
               | Some target_item \<Rightarrow>
                   if itm_type target_item \<noteq> ''table'' then rel_error ''Relation target table does not exist''
                   else if itm_ws source_item \<noteq> itm_ws target_item
                   then rel_error ''Relation target table must be in the same workspace''
                   else (case get_display_field_id field of
                       None \<Rightarrow> Inr ()
                     | Some d \<Rightarrow>
                         if select_first t_fields (\<lambda>f. fld_table f = target_id \<and> fld_id f = d) t = None
                         then rel_error ''Relation displayFieldId must reference a field in the target table''
                         else Inr ())))"

definition validate_relation_field_db :: "string option \<Rightarrow> dict \<Rightarrow> unit op" where
  "validate_relation_field_db source_table_id field =
     (if \<not> is_relation_field field then ret ()
      else let source_id = normalize_table_id source_table_id;
               field_id = str_or_empty (dget field ''id'') in
        then_op (of_res (validate_relation_field_shape field))
        (bind_op (reads (\<lambda>t. check_relation_target t source_id field)) (\<lambda>checked.
         then_op (of_res checked)
        (if field_id = [] then ret ()
         else bind_op (reads (select_first t_fields (\<lambda>f. fld_table f = source_id \<and> fld_id f = field_id))) (\<lambda>existing.
           case existing of
             None \<Rightarrow> ret ()
           | Some _ \<Rightarrow> bind_op (normalize_existing_relation_field_db source_id field) (\<lambda>_. ret ()))))))"

subsection \<open>Removing the links to a deleted record\<close>

text \<open>The inner loop: the data so far and the fields it has changed.\<close>

fun remove_links :: "dict list \<Rightarrow> string \<Rightarrow> dict \<times> string list \<Rightarrow> (dict \<times> string list) res" where
  "remove_links [] deleted acc = Inr acc"
| "remove_links (f # flds) deleted (next_data, changed) =
     (let field_id = py_str (dget f ''id'') in
      bind_res (remove_linked_record f (dget next_data field_id) deleted) (\<lambda>(next_value, did_change).
        remove_links flds deleted
          (if did_change then (dset field_id next_value next_data, changed @ [field_id])
           else (next_data, changed))))"

definition unlinked_in :: "table_record \<Rightarrow> dict \<Rightarrow> string list \<Rightarrow> change_in" where
  "unlinked_in r next_data changed =
     \<lparr>in_table = rec_table r, in_etype = ''record'', in_entity = rec_id r,
      in_before = Some (rec_data r), in_after = Some next_data,
      in_bmeta = Some (record_meta r), in_ameta = Some (record_meta r),
      in_vbefore = Some (record_version r), in_vafter = Some (record_version r + 1),
      in_changed = Some (sort (dedup changed))\<rparr>"

definition cleanup_record :: "dict list \<Rightarrow> string \<times> string \<Rightarrow> table_record \<Rightarrow> change_in list op" where
  "cleanup_record flds deleted r =
     (if (rec_table r, rec_id r) = deleted then ret []
      else bind_op (of_res (remove_links flds (snd deleted) (rec_data r, []))) (\<lambda>(next_data, changed).
        if changed = [] then ret []
        else then_op (update_rows t_records_update (\<lambda>x. rec_key x = rec_key r)
               (\<lambda>x. x\<lparr>rec_data := next_data, rec_version := record_version r + 1\<rparr>))
             (ret [unlinked_in r next_data changed])))"

definition cleanup_table :: "string \<times> string \<Rightarrow> string \<times> dict list \<Rightarrow> change_in list op" where
  "cleanup_table deleted = (\<lambda>(source_table_id, flds).
     bind_op (reads (select t_records (\<lambda>r. rec_table r = source_table_id))) (\<lambda>records.
     bind_op (map_op (cleanup_record flds deleted) records) (\<lambda>items. ret (concat items))))"

text \<open>\<open>fields_by_table\<close>: the relation fields of the workspace that target the table, by owner.\<close>

definition workspace_tables :: "tables \<Rightarrow> string \<Rightarrow> string list" where
  "workspace_tables t target_table_id = (case select_first t_items (\<lambda>i. itm_id i = target_table_id) t of
       None \<Rightarrow> []
     | Some target_item \<Rightarrow>
         map itm_id (select t_items (\<lambda>i. itm_ws i = itm_ws target_item \<and> itm_type i = ''table'') t))"

definition targeting_fields :: "tables \<Rightarrow> string \<Rightarrow> table_field list" where
  "targeting_fields t target_table_id = select t_fields (\<lambda>f.
     fld_table f \<in> set (workspace_tables t target_table_id) \<and> fld_type f = ''relation''
     \<and> get_target_table_id (field_to_dict f) = target_table_id) t"

fun group_by_table :: "(string \<times> dict list) list \<Rightarrow> table_field list \<Rightarrow> (string \<times> dict list) list" where
  "group_by_table g [] = g"
| "group_by_table g (f # fs) =
     group_by_table (if fld_table f = [] then g
       else AList.update (fld_table f)
         ((case map_of g (fld_table f) of None \<Rightarrow> [] | Some ys \<Rightarrow> ys) @ [field_to_dict f]) g) fs"

text \<open>Returns the list \<open>change_collector\<close>; the count the code returns is its length.\<close>

definition cleanup_deleted_relation_references_db :: "string \<Rightarrow> string \<Rightarrow> change_in list op" where
  "cleanup_deleted_relation_references_db target_table_id deleted_record_id =
     bind_op (reads (\<lambda>t. group_by_table [] (targeting_fields t target_table_id))) (\<lambda>by_table.
     bind_op (map_op (cleanup_table (target_table_id, deleted_record_id)) by_table) (\<lambda>items.
       ret (concat items)))"


section \<open>Written links exist and are readable\<close>

definition group_ids :: "id_groups \<Rightarrow> string \<Rightarrow> string list" where
  "group_ids g k = (case map_of g k of None \<Rightarrow> [] | Some ids \<Rightarrow> ids)"

lemma group_ids_extend [simp]:
  "group_ids (extend_group k xs g) k' = (if k' = k then group_ids g k @ xs else group_ids g k')"
  by (simp add: group_ids_def extend_group_def update_conv')

lemma relation_record_ids_normal:
  assumes "is_relation_field f" "normalize_relation_value f v = Inr n"
  shows "relation_record_ids f n = Inr (map PStr (relation_ids n))"
  using assms normalize_relation_fix[OF assms]
  by (cases rule: normalize_relation_shape) (auto simp: relation_record_ids_def relation_ids_def py_str_def comp_def)

lemma normalize_links_spec:
  assumes "normalize_links flds vals (nv, g) = Inr (nv', g')" "wf_dict vals"
  shows "(\<forall>k. set (group_ids g k) \<subseteq> set (group_ids g' k))
    \<and> (\<forall>k. \<not> dhas vals k \<longrightarrow> dget nv' k = dget nv k)
    \<and> (\<forall>k. dhas nv' k = (dhas nv k \<or> (dhas vals k \<and> (\<exists>f. field_lookup flds k = Some f \<and> is_relation_field f))))
    \<and> (\<forall>k f. dhas vals k \<longrightarrow> field_lookup flds k = Some f \<longrightarrow> is_relation_field f \<longrightarrow>
          normalize_relation_value f (dget vals k) = Inr (dget nv' k)
          \<and> set (relation_ids (dget nv' k)) \<subseteq> set (group_ids g' (get_target_table_id f)))
    \<and> (\<forall>k. \<not> (\<exists>f. field_lookup flds k = Some f \<and> is_relation_field f) \<longrightarrow> dget nv' k = dget nv k)"
  using assms
proof (induction vals arbitrary: nv g)
  case Nil
  then show ?case by simp
next
  case (Cons kv vals)
  obtain a v where kv: "kv = (a, v)" by (cases kv)
  have na: "\<not> dhas vals a" "wf_dict vals" using Cons.prems(2) kv by (auto simp: dhas_def)
  show ?case
  proof (cases "\<exists>f. field_lookup flds a = Some f \<and> is_relation_field f")
    case False
    then have "normalize_links flds vals (nv, g) = Inr (nv', g')"
      using Cons.prems(1) kv by (cases "field_lookup flds a") auto
    from Cons.IH[OF this na(2)] False na show ?thesis unfolding kv by auto
  next
    case True
    then obtain f where f: "field_lookup flds a = Some f" "is_relation_field f" by blast
    with Cons.prems(1) kv obtain n where n: "normalize_relation_value f v = Inr n" by auto
    let ?g = "extend_group (get_target_table_id f) (relation_ids n) g"
    have "map py_str (map PStr (relation_ids n)) = relation_ids n" by (simp add: py_str_def comp_def)
    with Cons.prems(1) kv f n relation_record_ids_normal[OF f(2) n]
    have r: "normalize_links flds vals (dset a n nv, ?g) = Inr (nv', g')" by simp
    note ih = Cons.IH[OF r na(2)]
    have g: "set (group_ids g k) \<subseteq> set (group_ids g' k)" for k
      using conjunct1[OF ih, rule_format, of k] by (auto split: if_splits)
    have gn: "set (relation_ids n) \<subseteq> set (group_ids g' (get_target_table_id f))"
      using conjunct1[OF ih, rule_format, of "get_target_table_id f"] by auto
    have a: "dget nv' a = n" using ih na(1) by auto
    show ?thesis unfolding kv using ih g gn a f n by (auto split: if_splits)
  qed
qed

lemma ensure_groups_visible_all:
  "ensure_groups_visible t u g = Inr () \<Longrightarrow> (k, ids) \<in> set g \<Longrightarrow> ensure_target_record_ids_visible_db t k ids u = Inr ()"
  by (induction g) auto

lemma ensure_visible_readable:
  assumes "ensure_target_record_ids_visible_db t target ids user = Inr ()" "i \<in> set ids"
  shows "\<exists>r\<in>set (t_records t). rec_table r = target \<and> rec_id r = i \<and> (\<forall>u. user = Some u \<longrightarrow> readable t u target r)"
proof -
  from assms have ex: "ensure_target_record_ids_db t target ids = Inr ()"
    by (auto simp: ensure_target_record_ids_visible_db_def)
  then have "filter (\<lambda>i. i \<notin> rec_id ` {r \<in> set (t_records t). rec_table r = target \<and> rec_id r \<in> set ids}) (dedup ids) = []"
    by (auto simp: ensure_target_record_ids_db_def select_def rel_error_def Let_def simp flip: set_filter split: if_splits list.splits)
  then have "\<forall>i\<in>set ids. i \<in> rec_id ` {r \<in> set (t_records t). rec_table r = target \<and> rec_id r \<in> set ids}"
    by (simp add: filter_empty_conv)
  with assms(2) obtain r where r: "r \<in> set (t_records t)" "rec_table r = target" "rec_id r = i" by auto
  show ?thesis
  proof (cases user)
    case None
    with r show ?thesis by auto
  next
    case (Some u)
    let ?p = "get_effective_permission_for_item t u target" and ?pol = "get_row_permission_policy t target"
    have p: "permission_allows ?p ''read''"
      using assms(1) Some by (auto simp: ensure_target_record_ids_visible_db_def rel_error_def Let_def split: if_splits)
    show ?thesis
    proof (cases "row_permission_restricts_user ?pol ?p")
      case False
      then have "readable t u target r" using p
        by (auto simp: readable_def row_permission_restricts_user_def row_visible_iff)
      with r Some show ?thesis by auto
    next
      case True
      with assms Some p have "filter (\<lambda>i. i \<notin> set (allowed_record_ids t target u ?p (Some ?pol))) (dedup ids) = []"
        by (auto simp: ensure_target_record_ids_visible_db_def rel_error_def Let_def split: if_splits)
      then have "\<forall>i\<in>set ids. i \<in> set (allowed_record_ids t target u ?p (Some ?pol))" by (simp add: filter_empty_conv)
      with assms(2) p Some show ?thesis by (auto simp: allowed_record_ids_visible readable_def)
    qed
  qed
qed

text \<open>C6: when a write payload passes the relation check, every relation field in it holds the canonical form of what the client sent, and every record it links to exists in the target table and, when a user writes, is one that user may read; all other values are untouched.\<close>

theorem written_links_readable:
  assumes "normalize_relation_payload_db t flds vals user = Inr out" "wf_dict vals"
  shows "(\<forall>k f. dhas vals k \<longrightarrow> field_lookup flds k = Some f \<longrightarrow> is_relation_field f \<longrightarrow>
        normalize_relation_value f (dget vals k) = Inr (dget out k)
        \<and> (\<forall>i\<in>set (relation_ids (dget out k)). \<exists>r\<in>set (t_records t).
              rec_table r = get_target_table_id f \<and> rec_id r = i
              \<and> (\<forall>u. user = Some u \<longrightarrow> readable t u (get_target_table_id f) r)))
    \<and> (\<forall>k. \<not> (\<exists>f. field_lookup flds k = Some f \<and> is_relation_field f) \<longrightarrow> dget out k = dget vals k)"
proof -
  from assms(1) obtain g where n: "normalize_links flds vals (vals, []) = Inr (out, g)"
    and e: "ensure_groups_visible t user g = Inr ()"
    by (auto simp: normalize_relation_payload_db_def)
  note sp = normalize_links_spec[OF n assms(2)]
  have vis: "\<exists>r\<in>set (t_records t). rec_table r = k \<and> rec_id r = i \<and> (\<forall>u. user = Some u \<longrightarrow> readable t u k r)"
    if "i \<in> set (group_ids g k)" for i k
  proof -
    from that obtain ids where "map_of g k = Some ids" "i \<in> set ids" by (cases "map_of g k") (auto simp: group_ids_def)
    with ensure_visible_readable[OF ensure_groups_visible_all[OF e]] show ?thesis by (metis map_of_SomeD)
  qed
  show ?thesis
  proof (intro conjI allI impI)
    fix k f assume h: "dhas vals k" "field_lookup flds k = Some f" "is_relation_field f"
    then show "normalize_relation_value f (dget vals k) = Inr (dget out k)" using sp by blast
    have "set (relation_ids (dget out k)) \<subseteq> set (group_ids g (get_target_table_id f))" using sp h by blast
    then show "\<forall>i\<in>set (relation_ids (dget out k)). \<exists>r\<in>set (t_records t). rec_table r = get_target_table_id f \<and> rec_id r = i
        \<and> (\<forall>u. user = Some u \<longrightarrow> readable t u (get_target_table_id f) r)"
      using vis by (meson subsetD)
  next
    fix k assume "\<not> (\<exists>f. field_lookup flds k = Some f \<and> is_relation_field f)"
    then show "dget out k = dget vals k" using sp by blast
  qed
qed

definition example_link_tables :: tables where
  "example_link_tables = empty_tables\<lparr>
     t_items := [\<lparr>itm_id = ''t1'', itm_ws = ''w'', itm_type = ''table'', itm_name = ''A'', itm_parent = None, itm_order = 0, itm_view = None\<rparr>,
                 \<lparr>itm_id = ''t2'', itm_ws = ''w'', itm_type = ''table'', itm_name = ''B'', itm_parent = None, itm_order = 1, itm_view = None\<rparr>],
     t_members := [\<lparr>mb_user = 1, mb_ws = ''w'', mb_role = Viewer\<rparr>],
     t_policies := [\<lparr>pol_table = ''t2'', pol_mode = ''creator'', pol_field = None\<rparr>],
     t_records := [\<lparr>rec_id = ''r1'', rec_table = ''t2'', rec_data = [], rec_order = 1, rec_creator = Some 1, rec_version = 1\<rparr>,
                   \<lparr>rec_id = ''r2'', rec_table = ''t2'', rec_data = [], rec_order = 2, rec_creator = Some 2, rec_version = 1\<rparr>]\<rparr>"

definition example_link_field :: dict where
  "example_link_field = [(''id'', PStr ''f1''), (''type'', PStr ''relation''),
     (''property'', PDict [(''targetTableId'', PStr ''t2'')])]"

theorem written_links_readable_witness:
  "normalize_relation_payload_db example_link_tables [example_link_field] [(''f1'', PStr '' r1 '')] (Some 1)
      = Inr [(''f1'', PList [PStr ''r1''])]
   \<and> normalize_relation_payload_db example_link_tables [example_link_field] [(''f1'', PStr ''r2'')] (Some 1)
      = rel_error ''Linked record not found or no access''
   \<and> (\<exists>r. r \<in> set (t_records example_link_tables) \<and> rec_id r = ''r1'' \<and> readable example_link_tables 1 ''t2'' r)"
proof -
  have n: "normalize_relation_payload_db example_link_tables [example_link_field] [(''f1'', PStr '' r1 '')] (Some 1)
      = Inr [(''f1'', PList [PStr ''r1''])]" by code_simp
  have b: "normalize_relation_payload_db example_link_tables [example_link_field] [(''f1'', PStr ''r2'')] (Some 1)
      = rel_error ''Linked record not found or no access''" by code_simp
  have f: "field_lookup [example_link_field] ''f1'' = Some example_link_field" "is_relation_field example_link_field"
    "get_target_table_id example_link_field = ''t2''" by code_simp+
  from conjunct1[OF written_links_readable[OF n], rule_format, of "''f1''", OF _ _ f(1,2)]
  have "\<exists>r\<in>set (t_records example_link_tables). rec_table r = ''t2'' \<and> rec_id r = ''r1''
      \<and> (\<forall>u. Some 1 = Some u \<longrightarrow> readable example_link_tables u ''t2'' r)"
    using f(3) by (auto simp: relation_ids_def py_str_def)
  with n b show ?thesis by auto
qed

section \<open>No dangling links\<close>

lemma remove_links_other:
  "remove_links flds d (nd, ch) = Inr (nd', ch') \<Longrightarrow> k \<notin> {py_str (dget f ''id'') | f. f \<in> set flds} \<Longrightarrow> dget nd' k = dget nd k"
proof (induction flds arbitrary: nd ch)
  case (Cons f flds)
  then show ?case by (auto simp: Let_def split: if_splits)
qed simp

definition unlinked :: "dict \<Rightarrow> pyval \<Rightarrow> string \<Rightarrow> bool" where
  "unlinked f v d \<longleftrightarrow> (\<exists>ids. relation_record_ids f v = Inr (map PStr ids) \<and> d \<notin> set ids)"

lemma unlinkedI:
  "is_relation_field f \<Longrightarrow> normalize_relation_value f v = Inr n \<Longrightarrow> d \<notin> set (relation_ids n) \<Longrightarrow> unlinked f v d"
  using relation_record_ids_normal[of f v n] normalize_relation_fix[of f v n]
  by (auto simp: unlinked_def relation_record_ids_def)

lemma remove_linked_unlinked:
  assumes "is_relation_field f" "remove_linked_record f v d = Inr (w, c)"
  shows "unlinked f (if c then w else v) d"
proof -
  from assms obtain n where n: "normalize_relation_value f v = Inr n" by (auto simp: remove_linked_record_def)
  from remove_linked_run[OF assms(1) n, of d] assms(2)
  have w: "c = (d \<in> set (relation_ids n))" "relation_ids w = filter (\<lambda>i. i \<noteq> d) (relation_ids n)" "normalize_relation_value f w = Inr w"
    by auto
  show ?thesis using unlinkedI[OF assms(1) n, of d] unlinkedI[OF assms(1) w(3), of d] w(1,2) by auto
qed

lemma remove_links_spec:
  assumes "remove_links flds d (nd, ch) = Inr (nd', ch')" "\<forall>f\<in>set flds. is_relation_field f"
    and "distinct (map (\<lambda>f. py_str (dget f ''id'')) flds)"
  shows "(\<forall>f\<in>set flds. unlinked f (dget nd' (py_str (dget f ''id''))) d) \<and> set ch \<subseteq> set ch' \<and> (ch' = ch \<longrightarrow> nd' = nd)
    \<and> length ch \<le> length ch'"
  using assms
proof (induction flds arbitrary: nd ch)
  case Nil
  then show ?case by simp
next
  case (Cons f flds)
  let ?i = "py_str (dget f ''id'')"
  from Cons.prems(1) obtain w c where w: "remove_linked_record f (dget nd ?i) d = Inr (w, c)"
    and r: "remove_links flds d (if c then (dset ?i w nd, ch @ [?i]) else (nd, ch)) = Inr (nd', ch')"
    by (auto simp: Let_def)
  have u: "unlinked f (if c then w else dget nd ?i) d" by (rule remove_linked_unlinked[OF _ w]) (use Cons.prems(2) in simp)
  have ni: "?i \<notin> {py_str (dget g ''id'') | g. g \<in> set flds}" using Cons.prems(3) by auto
  show ?case
  proof (cases c)
    case True
    with r have r': "remove_links flds d (dset ?i w nd, ch @ [?i]) = Inr (nd', ch')" by simp
    from Cons.IH[OF this] Cons.prems(2,3) remove_links_other[OF r' ni] u True show ?thesis by auto
  next
    case False
    with r have r': "remove_links flds d (nd, ch) = Inr (nd', ch')" by simp
    from Cons.IH[OF this] Cons.prems(2,3) remove_links_other[OF r' ni] u False show ?thesis by auto
  qed
qed

text \<open>The outcome for one record, as a function.\<close>

definition cleaned :: "dict list \<Rightarrow> string \<times> string \<Rightarrow> table_record \<Rightarrow> table_record \<times> change_in list" where
  "cleaned flds deleted r = (if tkey r = deleted then (r, [])
     else case remove_links flds (snd deleted) (rec_data r, []) of
         Inl _ \<Rightarrow> (r, [])
       | Inr (nd, ch) \<Rightarrow> if ch = [] then (r, [])
           else (r\<lparr>rec_data := nd, rec_version := record_version r + 1\<rparr>, [unlinked_in r nd ch]))"

definition links_ok :: "dict list \<Rightarrow> string \<times> string \<Rightarrow> table_record \<Rightarrow> bool" where
  "links_ok flds del r \<longleftrightarrow> tkey r = del \<or> (\<exists>nd ch. remove_links flds (snd del) (rec_data r, []) = Inr (nd, ch))"

lemma cleaned_key [simp]: "rec_key (fst (cleaned flds del r)) = rec_key r" "tkey (fst (cleaned flds del r)) = tkey r"
    "rec_table (fst (cleaned flds del r)) = rec_table r"
  by (auto simp: cleaned_def rec_key_def tkey_def split: sum.splits)

lemma cleaned_Nil [simp]: "cleaned [] del r = (r, [])"
  by (simp add: cleaned_def)

definition on_records :: "(table_record \<Rightarrow> table_record) \<Rightarrow> session \<Rightarrow> session" where
  "on_records h s = s\<lparr>work := t_records_update (map h) (work s)\<rparr>"

lemma on_records_simps [simp]:
  "t_records (work (on_records h s)) = map h (t_records (work s))" "committed (on_records h s) = committed s"
  "t_items (work (on_records h s)) = t_items (work s)" "t_fields (work (on_records h s)) = t_fields (work s)"
  "t_sets (work (on_records h s)) = t_sets (work s)" "t_changes (work (on_records h s)) = t_changes (work s)"
  "t_recycle (work (on_records h s)) = t_recycle (work s)" "uuids (on_records h s) = uuids s"
  "uuid_pos (on_records h s) = uuid_pos s"
  by (simp_all add: on_records_def)

lemma on_records_comp: "on_records g (on_records h s) = on_records (\<lambda>x. g (h x)) s"
  by (simp add: on_records_def comp_def)

lemma on_records_id: "(\<And>x. x \<in> set (t_records (work s)) \<Longrightarrow> h x = x) \<Longrightarrow> on_records h s = s"
  by (simp add: on_records_def map_idI)

lemma on_records_cong:
  assumes "\<And>x. x \<in> set (t_records (work s)) \<Longrightarrow> h x = h' x"
  shows "on_records h s = on_records h' s"
proof -
  have "map h (t_records (work s)) = map h' (t_records (work s))" using assms by simp
  then show ?thesis by (simp add: on_records_def)
qed

lemma cleanup_record_ok: "cleanup_record flds del r s = (Inr its, s') \<Longrightarrow> links_ok flds del r"
  by (auto simp: cleanup_record_def links_ok_def tkey_def bind_op_Inr basic_eval split: if_splits)

lemma cleanup_record_run:
  assumes "cleanup_record flds del r s = (Inr its, s')" "distinct (map rec_key (t_records (work s)))" "r \<in> set (t_records (work s))"
  shows "its = snd (cleaned flds del r) \<and> s' = on_records (\<lambda>x. if x = r then fst (cleaned flds del r) else x) s"
proof (cases "snd (cleaned flds del r) = []")
  case True
  then have c: "cleaned flds del r = (r, [])"
    by (auto simp: cleaned_def split: sum.splits if_splits)
  then have "on_records (\<lambda>x. if x = r then fst (cleaned flds del r) else x) s = s" by (intro on_records_id) simp
  moreover have "its = [] \<and> s' = s" using assms(1) c
    by (auto simp: cleanup_record_def cleaned_def tkey_def op_eval split: if_splits sum.splits prod.splits)
  ultimately show ?thesis using c by simp
next
  case False
  then obtain nd ch where n: "remove_links flds (snd del) (rec_data r, []) = Inr (nd, ch)" "ch \<noteq> []" "tkey r \<noteq> del"
    by (auto simp: cleaned_def split: sum.splits if_splits prod.splits)
  then have c: "cleaned flds del r = (r\<lparr>rec_data := nd, rec_version := record_version r + 1\<rparr>, [unlinked_in r nd ch])"
    by (simp add: cleaned_def)
  have k: "rec_key x = rec_key r \<longleftrightarrow> x = r" if "x \<in> set (t_records (work s))" for x
    using assms(2,3) that by (auto simp: distinct_map inj_on_def)
  have "on_records (\<lambda>x. if rec_key x = rec_key r then x\<lparr>rec_data := nd, rec_version := record_version r + 1\<rparr> else x) s
      = on_records (\<lambda>x. if x = r then fst (cleaned flds del r) else x) s"
    by (rule on_records_cong) (simp add: k c)
  with assms(1) n c show ?thesis
    by (simp add: cleanup_record_def tkey_def op_eval on_records_def)
qed

lemma cleanup_records_run:
  assumes "map_op (cleanup_record flds del) rs s = (Inr itss, s')" "distinct (map rec_key (t_records (work s)))"
    and "set rs \<subseteq> set (t_records (work s))" "distinct rs"
  shows "itss = map (\<lambda>r. snd (cleaned flds del r)) rs \<and> (\<forall>r\<in>set rs. links_ok flds del r)
    \<and> s' = on_records (\<lambda>x. if x \<in> set rs then fst (cleaned flds del x) else x) s"
  using assms
proof (induction rs arbitrary: s itss)
  case Nil
  then show ?case by (simp add: op_eval on_records_id)
next
  case (Cons r rs)
  from Cons.prems(1) obtain its s1 itss' where one: "cleanup_record flds del r s = (Inr its, s1)"
    and rest: "map_op (cleanup_record flds del) rs s1 = (Inr itss', s')" and itss: "itss = its # itss'"
    by (auto simp: bind_op_Inr basic_eval)
  have r: "r \<in> set (t_records (work s))" using Cons.prems(3) by simp
  let ?r' = "fst (cleaned flds del r)"
  have o: "its = snd (cleaned flds del r)" "s1 = on_records (\<lambda>x. if x = r then ?r' else x) s"
    using cleanup_record_run[OF one Cons.prems(2) r] by auto
  have R1: "t_records (work s1) = map (\<lambda>x. if x = r then ?r' else x) (t_records (work s))" by (simp add: o(2))
  have "map rec_key (t_records (work s1)) = map rec_key (t_records (work s))" by (auto simp: R1)
  then have d1: "distinct (map rec_key (t_records (work s1)))" using Cons.prems(2) by simp
  have s1: "set rs \<subseteq> set (t_records (work s1))" using Cons.prems(3,4) by (force simp: R1)
  have ih: "itss' = map (\<lambda>r. snd (cleaned flds del r)) rs" "\<forall>r\<in>set rs. links_ok flds del r"
    "s' = on_records (\<lambda>x. if x \<in> set rs then fst (cleaned flds del x) else x) s1"
    using Cons.IH[OF rest d1 s1] Cons.prems(4) by auto
  have nr: "?r' \<notin> set rs"
  proof
    assume i: "?r' \<in> set rs"
    then have "?r' \<in> set (t_records (work s))" using Cons.prems(3) by auto
    then have "?r' = r" using Cons.prems(2) r by (metis cleaned_key(1) distinct_map inj_onD)
    with i Cons.prems(4) show False by simp
  qed
  have "s' = on_records (\<lambda>x. if x \<in> set (r # rs) then fst (cleaned flds del x) else x) s"
    unfolding ih(3) o(2) on_records_comp
    by (rule on_records_cong) (use nr Cons.prems(4) in auto)
  with o(1) ih(1,2) itss cleanup_record_ok[OF one] show ?case by simp
qed

lemma cleanup_tables_run:
  assumes "map_op (cleanup_table del) g s = (Inr itss, s')" "distinct (map rec_key (t_records (work s)))" "distinct (map fst g)"
  shows "itss = map (\<lambda>(tbl, flds). concat (map (\<lambda>r. snd (cleaned flds del r)) (filter (\<lambda>r. rec_table r = tbl) (t_records (work s))))) g
    \<and> (\<forall>(tbl, flds)\<in>set g. \<forall>r\<in>set (t_records (work s)). rec_table r = tbl \<longrightarrow> links_ok flds del r)
    \<and> s' = on_records (\<lambda>x. case map_of g (rec_table x) of None \<Rightarrow> x | Some flds \<Rightarrow> fst (cleaned flds del x)) s"
  using assms
proof (induction g arbitrary: s itss)
  case Nil
  then show ?case by (simp add: op_eval on_records_id)
next
  case (Cons e g)
  obtain tbl flds where e: "e = (tbl, flds)" by (cases e)
  let ?rs = "filter (\<lambda>r. rec_table r = tbl) (t_records (work s))"
  from Cons.prems(1) obtain its s1 itss' where
    one: "map_op (cleanup_record flds del) ?rs s = (Inr its, s1)"
    and rest: "map_op (cleanup_table del) g s1 = (Inr itss', s')" and itss: "itss = concat its # itss'"
    by (auto simp: bind_op_Inr basic_eval cleanup_table_def e select_def)
  have "distinct ?rs" using Cons.prems(2) by (simp add: distinct_map)
  then have o: "its = map (\<lambda>r. snd (cleaned flds del r)) ?rs"
    "\<forall>r\<in>set ?rs. links_ok flds del r"
    "s1 = on_records (\<lambda>x. if x \<in> set ?rs then fst (cleaned flds del x) else x) s"
    using cleanup_records_run[OF one Cons.prems(2)] by auto
  have o2: "s1 = on_records (\<lambda>x. if rec_table x = tbl then fst (cleaned flds del x) else x) s"
    unfolding o(3) by (rule on_records_cong) auto
  have k: "map rec_key (t_records (work s1)) = map rec_key (t_records (work s))" by (auto simp: o2)
  then have d1: "distinct (map rec_key (t_records (work s1)))" using Cons.prems(2) by simp
  have d2: "distinct (map fst g)" and nt: "tbl \<notin> fst ` set g" using Cons.prems(3) e by auto
  have same: "filter (\<lambda>r. rec_table r = t') (t_records (work s1)) = filter (\<lambda>r. rec_table r = t') (t_records (work s))" if "t' \<noteq> tbl" for t'
  proof -
    have "filter (\<lambda>r. rec_table r = t') (map (\<lambda>x. if rec_table x = tbl then fst (cleaned flds del x) else x) rs)
        = filter (\<lambda>r. rec_table r = t') rs" for rs
      by (induction rs) (use that in auto)
    then show ?thesis by (simp add: o2)
  qed
  have ih: "itss' = map (\<lambda>(tbl, flds). concat (map (\<lambda>r. snd (cleaned flds del r)) (filter (\<lambda>r. rec_table r = tbl) (t_records (work s1))))) g"
    "\<forall>(tbl, flds)\<in>set g. \<forall>r\<in>set (t_records (work s1)). rec_table r = tbl \<longrightarrow> links_ok flds del r"
    "s' = on_records (\<lambda>x. case map_of g (rec_table x) of None \<Rightarrow> x | Some flds \<Rightarrow> fst (cleaned flds del x)) s1"
    using Cons.IH[OF rest d1 d2] by auto
  have "itss' = map (\<lambda>(tbl, flds). concat (map (\<lambda>r. snd (cleaned flds del r)) (filter (\<lambda>r. rec_table r = tbl) (t_records (work s))))) g"
    unfolding ih(1) using nt same by (intro map_cong) (auto simp: image_iff)
  moreover have "map_of g tbl = None" using nt by (simp add: map_of_eq_None_iff)
  then have "s' = on_records (\<lambda>x. case map_of (e # g) (rec_table x) of None \<Rightarrow> x | Some flds \<Rightarrow> fst (cleaned flds del x)) s"
    unfolding ih(3) o2 on_records_comp e
    by (intro on_records_cong) (auto split: option.splits)
  moreover have "\<forall>(tbl, flds)\<in>set g. \<forall>r\<in>set (t_records (work s)). rec_table r = tbl \<longrightarrow> links_ok flds del r"
  proof clarify
    fix tbl' flds' r assume h: "(rec_table r, flds') \<in> set g" "r \<in> set (t_records (work s))"
    then have "rec_table r \<noteq> tbl" using nt by (force simp: image_iff)
    then have "r \<in> set (t_records (work s1))" using h(2) by (force simp: o2)
    with ih(2) h show "links_ok flds' del r" by blast
  qed
  ultimately show ?case using itss o(1,2) e by simp
qed

lemma map_of_group_by:
  "(case map_of (group_by_table g fs) T of None \<Rightarrow> [] | Some ys \<Rightarrow> ys)
    = (case map_of g T of None \<Rightarrow> [] | Some ys \<Rightarrow> ys) @ map field_to_dict (filter (\<lambda>f. fld_table f = T \<and> T \<noteq> []) fs)"
  by (induction fs arbitrary: g) (auto simp: update_conv' split: option.splits)

lemma group_by_distinct: "distinct (map fst g) \<Longrightarrow> distinct (map fst (group_by_table g fs))"
  by (induction fs arbitrary: g) (auto simp: distinct_update)

text \<open>The whole cleanup: every record of the workspace is replaced by its cleaned form.\<close>

definition links_to :: "tables \<Rightarrow> string \<Rightarrow> string \<Rightarrow> dict list" where
  "links_to t target tbl = map field_to_dict (filter (\<lambda>f. fld_table f = tbl \<and> tbl \<noteq> []) (targeting_fields t target))"

lemma cleanup_run:
  assumes "cleanup_deleted_relation_references_db target d s = (Inr its, s')" "distinct (map rec_key (t_records (work s)))"
  shows "s' = on_records (\<lambda>x. fst (cleaned (links_to (work s) target (rec_table x)) (target, d) x)) s"
    and "its = concat (map (\<lambda>tbl. concat (map (\<lambda>r. snd (cleaned (links_to (work s) target tbl) (target, d) r))
          (filter (\<lambda>r. rec_table r = tbl) (t_records (work s))))) (map fst (group_by_table [] (targeting_fields (work s) target))))"
    and "r \<in> set (t_records (work s)) \<Longrightarrow> links_ok (links_to (work s) target (rec_table r)) (target, d) r"
proof -
  let ?g = "group_by_table [] (targeting_fields (work s) target)"
  from assms(1) obtain itss where m: "map_op (cleanup_table (target, d)) ?g s = (Inr itss, s')" and its: "its = concat itss"
    by (auto simp: cleanup_deleted_relation_references_db_def bind_op_Inr basic_eval)
  have dg: "distinct (map fst ?g)" by (rule group_by_distinct) simp
  note r = cleanup_tables_run[OF m assms(2) dg]
  have l: "(case map_of ?g T of None \<Rightarrow> [] | Some ys \<Rightarrow> ys) = links_to (work s) target T" for T
    using map_of_group_by[of "[]" "targeting_fields (work s) target" T] by (simp add: links_to_def)
  show "s' = on_records (\<lambda>x. fst (cleaned (links_to (work s) target (rec_table x)) (target, d) x)) s"
    unfolding conjunct2[OF conjunct2[OF r]] using l by (intro on_records_cong) (metis (no_types, lifting) cleaned_Nil fst_conv option.case(1,2) option.exhaust)
  have "flds = links_to (work s) target tbl" if "(tbl, flds) \<in> set ?g" for tbl flds
    using l[of tbl] map_of_is_SomeI[OF dg that] by simp
  then show "its = concat (map (\<lambda>tbl. concat (map (\<lambda>r. snd (cleaned (links_to (work s) target tbl) (target, d) r))
          (filter (\<lambda>r. rec_table r = tbl) (t_records (work s))))) (map fst ?g))"
    unfolding its conjunct1[OF r] by (auto simp: comp_def intro!: arg_cong[where f = concat] map_cong)
  show "links_ok (links_to (work s) target (rec_table r)) (target, d) r" if "r \<in> set (t_records (work s))"
  proof (cases "map_of ?g (rec_table r)")
    case None
    then have "links_to (work s) target (rec_table r) = []" using l[of "rec_table r"] by simp
    then show ?thesis by (simp add: links_ok_def)
  next
    case (Some flds)
    then have "flds = links_to (work s) target (rec_table r)" using l[of "rec_table r"] by simp
    with r that map_of_SomeD[OF Some] show ?thesis by blast
  qed
qed

lemma field_to_dict_id [simp]: "dget (field_to_dict f) ''id'' = PStr (fld_id f)"
  by (simp add: field_to_dict_def)

lemma targeting_relation: "f \<in> set (targeting_fields t target) \<Longrightarrow> is_relation_field (field_to_dict f)"
  by (auto simp: targeting_fields_def select_def is_relation_field_def field_to_dict_def str_or_empty_def py_str_def
      lower_def lower_char_def Let_def)

lemma cleaned_unlinks:
  assumes "links_ok flds del r" "tkey r \<noteq> del" "\<forall>f\<in>set flds. is_relation_field f"
    and "distinct (map (\<lambda>f. py_str (dget f ''id'')) flds)" "f \<in> set flds"
  shows "unlinked f (dget (rec_data (fst (cleaned flds del r))) (py_str (dget f ''id''))) (snd del)"
proof -
  from assms(1,2) obtain nd ch where n: "remove_links flds (snd del) (rec_data r, []) = Inr (nd, ch)"
    by (auto simp: links_ok_def)
  from remove_links_spec[OF this assms(3,4)] assms(2,5) n show ?thesis by (auto simp: cleaned_def)
qed

text \<open>A cleaned record has no relation field that targets the table and links to the deleted record.\<close>

lemma cleaned_no_links:
  assumes k: "keys_ok t" and ok: "links_ok (links_to t target (rec_table x)) (target, d) x" and x: "tkey x \<noteq> (target, d)"
    and f: "f \<in> set (targeting_fields t target)" "fld_table f = rec_table x" "fld_table f \<noteq> []"
  shows "unlinked (field_to_dict f) (dget (rec_data (fst (cleaned (links_to t target (rec_table x)) (target, d) x))) (fld_id f)) d"
proof -
  let ?fl = "links_to t target (rec_table x)"
  have fl: "field_to_dict f \<in> set ?fl" using f by (auto simp: links_to_def)
  have rel: "\<forall>f\<in>set ?fl. is_relation_field f" using targeting_relation by (auto simp: links_to_def)
  have "distinct (map fld_key (t_fields t))" using k by (rule tf.keys_get)
  then have "distinct (map fld_id (filter (\<lambda>f. fld_table f = rec_table x \<and> rec_table x \<noteq> []) (targeting_fields t target)))"
    by (auto simp: distinct_map inj_on_def fld_key_def targeting_fields_def select_def)
  then have di: "distinct (map (\<lambda>f. py_str (dget f ''id'')) ?fl)" by (simp add: links_to_def comp_def py_str_def)
  from cleaned_unlinks[OF ok x rel di fl] show ?thesis by (simp add: py_str_def)
qed

section \<open>Rules\<close>

lemma write_normalized_rules [no_commit_intro, keeps_intro]:
  "no_commit (write_normalized i rows)" "keeps keys_ok (write_normalized i rows)"
  by (induction i rows rule: write_normalized.induct) (auto intro!: no_commit_intro keeps_intro simp: rec_key_def)

lemma normalize_existing_rules [no_commit_intro, keeps_intro]:
  "no_commit (normalize_existing_relation_field_db tbl f)" "keeps keys_ok (normalize_existing_relation_field_db tbl f)"
  unfolding normalize_existing_relation_field_db_def Let_def by (auto intro!: no_commit_intro keeps_intro)

lemma validate_relation_field_rules [no_commit_intro, keeps_intro]:
  "no_commit (validate_relation_field_db tb f)" "keeps keys_ok (validate_relation_field_db tb f)"
  unfolding validate_relation_field_db_def Let_def by (auto intro!: no_commit_intro keeps_intro split: option.splits)

lemma cleanup_rules [no_commit_intro, keeps_intro]:
  "no_commit (cleanup_deleted_relation_references_db tbl d)" "keeps keys_ok (cleanup_deleted_relation_references_db tbl d)"
  unfolding cleanup_deleted_relation_references_db_def cleanup_table_def cleanup_record_def Let_def
  by (auto intro!: no_commit_intro keeps_intro split: prod.splits simp: rec_key_def)

end
