(* ===== verification/MemberField.thy ===== *)
theory MemberField
  imports Session
begin

text \<open>
  \<open>src/app/services/member_field.py\<close>: member fields hold ids of users who belong to the
  workspace of the table. The property of the field (\<open>multiple\<close>), the extraction of user
  ids from the value shapes clients send, the check against the current members, and the
  check that a schema change leaves the stored values valid.
\<close>

section \<open>Definitions\<close>

definition mem_error :: "string \<Rightarrow> 'a res" where
  "mem_error m = Inl (Exn MemberFieldValidationError m)"

text \<open>The argument is the property the function reads off the field or the mapping.\<close>

definition member_allows_multiple :: "pyval \<Rightarrow> bool res" where
  "member_allows_multiple property_value = (case property_value of
       PDict prop \<Rightarrow> (case dget_default prop ''multiple'' (PBool True) of
           PBool b \<Rightarrow> Inr b
         | _ \<Rightarrow> mem_error ''Member field property.multiple must be boolean'')
     | _ \<Rightarrow> Inr True)"

definition normalize_member_property :: "pyval \<Rightarrow> dict res" where
  "normalize_member_property v =
     (let prop = (case v of PDict d \<Rightarrow> d | _ \<Rightarrow> [])
      in case dget_default prop ''multiple'' (PBool True) of
           PBool b \<Rightarrow> Inr (dset ''multiple'' (PBool b) prop)
         | _ \<Rightarrow> mem_error ''Member field property.multiple must be boolean'')"

definition normalize_member_field_definition :: "dict \<Rightarrow> dict res" where
  "normalize_member_field_definition field_data =
     (if str_or_empty (dget field_data ''type'') \<noteq> ''member'' then Inr field_data
      else bind_res (normalize_member_property (dget field_data ''property'')) (\<lambda>p.
        Inr (dset ''property'' (PDict p) (dset ''options'' PNone field_data))))"

definition member_workspace_id_for_table :: "tables \<Rightarrow> string \<Rightarrow> string res" where
  "member_workspace_id_for_table t table_id =
     (case select_first t_items (\<lambda>i. itm_id i = table_id \<and> itm_type i = ''table'') t of
        None \<Rightarrow> mem_error ''Table workspace not found''
      | Some i \<Rightarrow> if itm_ws i = [] then mem_error ''Table workspace not found'' else Inr (itm_ws i))"

fun role_value :: "workspace_role \<Rightarrow> string" where
  "role_value Owner = ''owner''"
| "role_value Editor = ''editor''"
| "role_value Viewer = ''viewer''"

definition member_option :: "user \<Rightarrow> workspace_member \<Rightarrow> dict" where
  "member_option u m =
     [(''id'', PStr (dec_int (usr_id u))),
      (''label'', PStr (if usr_name u \<noteq> [] then usr_name u
                      else if usr_email u \<noteq> [] then usr_email u else dec_int (usr_id u))),
      (''color'', PStr ''#F3F4F6''),
      (''email'', PStr (usr_email u)),
      (''role'', PStr (role_value (mb_role m)))]"

definition workspace_member_options_for_table :: "tables \<Rightarrow> string \<Rightarrow> dict list res" where
  "workspace_member_options_for_table t table_id =
     bind_res (member_workspace_id_for_table t table_id) (\<lambda>ws.
       Inr (concat (map (\<lambda>u. map (member_option u)
                (filter (\<lambda>m. mb_user m = usr_id u \<and> mb_ws m = ws) (t_members t)))
              (sort_key (\<lambda>u. (usr_name u, usr_email u, usr_id u)) (t_users t)))))"

definition is_member_dict :: "dict \<Rightarrow> bool" where
  "is_member_dict field \<longleftrightarrow> str_or_empty (dget field ''type'') = ''member''"

definition hydrate_member_fields_for_table :: "tables \<Rightarrow> string \<Rightarrow> dict list \<Rightarrow> dict list res" where
  "hydrate_member_fields_for_table t table_id flds =
     (if \<not> list_ex is_member_dict flds then Inr flds
      else bind_res (workspace_member_options_for_table t table_id) (\<lambda>options.
        map_res (\<lambda>field.
          if is_member_dict field
          then bind_res (normalize_member_property
                   (dget (dset ''options'' (PList (map PDict options)) field) ''property'')) (\<lambda>p.
                 Inr (dset ''property'' (PDict p)
                   (dset ''options'' (PList (map PDict options)) field)))
          else Inr field) flds))"

text \<open>The candidate \<open>value.get("id") or value.get("userId") or ...\<close> of a dictionary value.\<close>

definition member_candidate :: "dict \<Rightarrow> pyval" where
  "member_candidate d = py_or (dget d ''id'') (py_or (dget d ''userId'')
     (py_or (dget d ''user_id'') (dget d ''value'')))"

lemma dget_size: "dget d k = PNone \<or> size (dget d k) < size (PDict d)"
  by (induction d) auto

lemma size_py_or: "size (py_or a b) \<le> max (size a) (size b)"
  by (simp add: py_or_def)

lemma member_candidate_cases:
  "member_candidate d = PNone \<or> size (member_candidate d) < size (PDict d)"
  using dget_size[of d "''id''"] dget_size[of d "''userId''"] dget_size[of d "''user_id''"]
    dget_size[of d "''value''"]
  by (auto simp: member_candidate_def py_or_def split: if_splits)

lemma map_res_cong [fundef_cong]:
  "xs = ys \<Longrightarrow> (\<And>x. x \<in> set ys \<Longrightarrow> f x = g x) \<Longrightarrow> map_res f xs = map_res g ys"
  by (induction xs arbitrary: ys) auto

function (sequential) extract_member_ids :: "pyval \<Rightarrow> string list res" where
  "extract_member_ids PNone = Inr []"
| "extract_member_ids (PList xs) =
     bind_res (map_res extract_member_ids xs) (\<lambda>idss. Inr (dedup (concat idss)))"
| "extract_member_ids (PDict d) = extract_member_ids (member_candidate d)"
| "extract_member_ids (PBool b) = mem_error ''Member value must reference a workspace user''"
| "extract_member_ids v =
     (let candidate = strip (py_str v) in Inr (if candidate \<noteq> [] then [candidate] else []))"
  by pat_completeness auto
termination
proof (relation "measure (\<lambda>v. if v = PNone then 0 else Suc (size v))", goal_cases)
  case (2 xs x)
  then have "size x < size (PList xs)" by (induction xs) auto
  then show ?case by simp
next
  case (3 d)
  then show ?case using member_candidate_cases[of d] by auto
qed simp

definition normalize_member_value :: "table_field \<Rightarrow> pyval \<Rightarrow> string list \<Rightarrow> pyval res" where
  "normalize_member_value field v allowed =
     bind_res (extract_member_ids v) (\<lambda>ids.
     case find (\<lambda>i. i \<notin> set allowed) ids of
       Some bad \<Rightarrow> mem_error (''Member '' @ bad @ '' is not a current workspace member'')
     | None \<Rightarrow>
         bind_res (member_allows_multiple (fld_property field)) (\<lambda>multiple.
         if \<not> multiple \<and> length ids > 1
         then mem_error (''Member field '' @ fld_name field @ '' allows only one user'')
         else Inr (if multiple then PList (map PStr ids)
                   else case ids of [] \<Rightarrow> PNone | i # _ \<Rightarrow> PStr i)))"

fun normalize_member_payload :: "table_field list \<Rightarrow> string list \<Rightarrow> dict \<Rightarrow> dict res" where
  "normalize_member_payload [] allowed payload = Inr payload"
| "normalize_member_payload (f # fs) allowed payload =
     (if \<not> dhas payload (fld_id f) then normalize_member_payload fs allowed payload
      else bind_res (normalize_member_value f (dget payload (fld_id f)) allowed) (\<lambda>v.
        normalize_member_payload fs allowed (dset (fld_id f) v payload)))"

definition member_fields_in :: "tables \<Rightarrow> string \<Rightarrow> dict list \<Rightarrow> table_field list" where
  "member_fields_in t table_id payloads =
     (let field_ids = filter (\<lambda>k. k \<noteq> ''id'') (concat (map dkeys payloads))
      in select t_fields (\<lambda>f. fld_table f = table_id \<and> fld_type f = ''member'' \<and> fld_id f \<in> set field_ids) t)"

definition normalize_member_values_in_payloads :: "tables \<Rightarrow> string \<Rightarrow> dict list \<Rightarrow> dict list res" where
  "normalize_member_values_in_payloads t table_id payloads =
     (if member_fields_in t table_id payloads = [] then Inr payloads
      else bind_res (workspace_member_options_for_table t table_id) (\<lambda>options.
        let allowed = map (\<lambda>opt. py_str (dget opt ''id'')) options
        in map_res (normalize_member_payload (member_fields_in t table_id payloads) allowed) payloads))"

definition normalize_member_value_for_field :: "tables \<Rightarrow> string \<Rightarrow> string \<Rightarrow> pyval \<Rightarrow> pyval res" where
  "normalize_member_value_for_field t table_id field_id v =
     bind_res (normalize_member_values_in_payloads t table_id [[(field_id, v)]]) (\<lambda>payload.
       Inr (dget (hd payload) field_id))"

definition legacy_member_count :: "pyval \<Rightarrow> nat res" where
  "legacy_member_count v = bind_res (extract_member_ids v) (\<lambda>ids. Inr (length ids))"

fun check_single_member :: "string \<Rightarrow> table_record list \<Rightarrow> unit res" where
  "check_single_member field_id [] = Inr ()"
| "check_single_member field_id (r # rs) =
     bind_res (legacy_member_count (dget (rec_data r) field_id)) (\<lambda>n.
       if n > 1
       then mem_error (''Cannot switch member field to single-select while record ''
              @ rec_id r @ '' has multiple members'')
       else check_single_member field_id rs)"

definition empty_value :: "pyval \<Rightarrow> bool" where
  "empty_value v \<longleftrightarrow> v = PNone \<or> v = PStr [] \<or> v = PList []"

definition ensure_member_field_change_safe ::
  "tables \<Rightarrow> string \<Rightarrow> string \<Rightarrow> string \<Rightarrow> string \<Rightarrow> pyval \<Rightarrow> unit res" where
  "ensure_member_field_change_safe t table_id field_id old_type next_type next_property =
     (if next_type \<noteq> ''member'' then Inr ()
      else bind_res (bind_res (normalize_member_property next_property) (\<lambda>p. member_allows_multiple (PDict p))) (\<lambda>multiple.
        let rows = select t_records (\<lambda>r. rec_table r = table_id) t
        in if old_type \<noteq> ''member''
           then (if list_ex (\<lambda>r. \<not> empty_value (dget (rec_data r) field_id)) rows
                 then mem_error ''Convert to member field requires existing values to be empty''
                 else Inr ())
           else if multiple then Inr ()
           else check_single_member field_id rows))"

section \<open>Lemmas\<close>

definition clean_id :: "string \<Rightarrow> bool" where
  "clean_id i \<longleftrightarrow> i \<noteq> [] \<and> strip i = i"

lemma extract_member_ids_clean:
  "extract_member_ids v = Inr ids \<Longrightarrow> distinct ids \<and> (\<forall>i\<in>set ids. clean_id i)"
proof (induction v arbitrary: ids rule: extract_member_ids.induct)
  case (2 xs)
  from 2(2) obtain idss where m: "map_res extract_member_ids xs = Inr idss" and i: "ids = dedup (concat idss)"
    by auto
  have "\<forall>i\<in>set is. clean_id i" if "is \<in> set idss" for "is"
  proof -
    from that obtain k where "k < length idss" "is = idss ! k" by (auto simp: in_set_conv_nth)
    with m have "k < length xs" "extract_member_ids (xs ! k) = Inr (idss ! k)"
      by (auto simp: map_res_Inr list_all2_conv_all_nth)
    with 2(1)[of "xs ! k"] \<open>is = idss ! k\<close> show ?thesis by simp
  qed
  with i show ?case by auto
qed (auto simp: mem_error_def clean_id_def Let_def split: if_splits)

lemma extract_clean_str: "clean_id i \<Longrightarrow> extract_member_ids (PStr i) = Inr [i]"
  by (simp add: clean_id_def py_str_def)

lemma extract_clean_list:
  assumes "distinct ids" "\<forall>i\<in>set ids. clean_id i"
  shows "extract_member_ids (PList (map PStr ids)) = Inr ids"
proof -
  have "map_res extract_member_ids (map PStr ids) = Inr (map (\<lambda>i. [i]) ids)"
    using assms(2) by (induction ids) (simp_all add: extract_clean_str del: extract_member_ids.simps)
  moreover have "concat (map (\<lambda>i. [i]) ids) = ids" by (induction ids) auto
  ultimately show ?thesis using assms(1) by (simp add: dedup_distinct)
qed

definition member_ids_of :: "pyval \<Rightarrow> string list" where
  "member_ids_of v = (case v of PStr i \<Rightarrow> [i] | PList xs \<Rightarrow> map py_str xs | _ \<Rightarrow> [])"

lemma member_ids_of_list [simp]: "member_ids_of (PList (map PStr ids)) = ids"
  by (simp add: member_ids_of_def py_str_def comp_def)

lemma normalize_member_value_spec:
  assumes "normalize_member_value f v allowed = Inr w"
  shows "extract_member_ids v = Inr (member_ids_of w) \<and> set (member_ids_of w) \<subseteq> set allowed
    \<and> distinct (member_ids_of w) \<and> (member_allows_multiple (fld_property f) = Inr False \<longrightarrow> length (member_ids_of w) \<le> 1)
    \<and> normalize_member_value f w allowed = Inr w"
proof -
  from assms obtain ids multiple where i: "extract_member_ids v = Inr ids"
    and m: "member_allows_multiple (fld_property f) = Inr multiple"
    and a: "find (\<lambda>i. i \<notin> set allowed) ids = None"
    and s: "\<not> (\<not> multiple \<and> length ids > 1)"
    and w: "w = (if multiple then PList (map PStr ids) else case ids of [] \<Rightarrow> PNone | i # _ \<Rightarrow> PStr i)"
    by (auto simp: normalize_member_value_def mem_error_def split: option.splits if_splits)
  have c: "distinct ids" "\<forall>i\<in>set ids. clean_id i" using extract_member_ids_clean[OF i] by auto
  have ids: "member_ids_of w = ids \<and> extract_member_ids w = Inr ids"
  proof (cases multiple)
    case True
    with w extract_clean_list[OF c] show ?thesis by (simp del: extract_member_ids.simps)
  next
    case False
    with s w c show ?thesis
      by (cases ids) (simp_all add: member_ids_of_def extract_clean_str del: extract_member_ids.simps(2-))
  qed
  have "normalize_member_value f w allowed = Inr w"
    using ids m a s w by (auto simp: normalize_member_value_def)
  moreover have "set ids \<subseteq> set allowed" using a by (auto simp: find_None_iff)
  ultimately show ?thesis using ids i c s m by auto
qed

lemma normalize_member_payload_spec:
  assumes "normalize_member_payload fs allowed p = Inr q" "distinct (map fld_id fs)"
  shows "(\<forall>k. dhas q k = dhas p k)
    \<and> (\<forall>k. k \<notin> fld_id ` set fs \<longrightarrow> dget q k = dget p k)
    \<and> (\<forall>f\<in>set fs. dhas p (fld_id f) \<longrightarrow> normalize_member_value f (dget p (fld_id f)) allowed = Inr (dget q (fld_id f)))"
  using assms
proof (induction fs arbitrary: p)
  case (Cons f fs)
  show ?case
  proof (cases "dhas p (fld_id f)")
    case False
    then have "normalize_member_payload fs allowed p = Inr q" using Cons.prems by simp
    from Cons.IH[OF this] Cons.prems(2) False show ?thesis by simp
  next
    case True
    with Cons.prems obtain v where v: "normalize_member_value f (dget p (fld_id f)) allowed = Inr v"
      and r: "normalize_member_payload fs allowed (dset (fld_id f) v p) = Inr q" by auto
    from Cons.prems(2) have ni: "fld_id f \<notin> fld_id ` set fs" "distinct (map fld_id fs)" by auto
    note ih = Cons.IH[OF r ni(2)]
    from ih ni(1) have "dget q (fld_id f) = v" by simp
    moreover have "normalize_member_value g (dget p (fld_id g)) allowed = Inr (dget q (fld_id g))"
      if "g \<in> set fs" "dhas p (fld_id g)" for g
    proof -
      from that(1) ni(1) have "fld_id g \<noteq> fld_id f" by (metis image_eqI)
      with ih that show ?thesis by (metis dget_dset dhas_dset)
    qed
    moreover have "dhas q k = dhas p k" for k using ih True by auto
    moreover have "dget q k = dget p k" if "k \<notin> fld_id ` set (f # fs)" for k using ih that by auto
    ultimately show ?thesis using v by simp
  qed
qed simp

lemma dset_same: "dhas d k \<Longrightarrow> dset k (dget d k) d = d"
  by (induction d) (auto simp: dset_def)

lemma normalize_member_payload_fix:
  "\<forall>f\<in>set fs. dhas q (fld_id f) \<longrightarrow> normalize_member_value f (dget q (fld_id f)) allowed = Inr (dget q (fld_id f)) \<Longrightarrow>
   normalize_member_payload fs allowed q = Inr q"
  by (induction fs) (auto simp: dset_same)

definition workspace_user_ids :: "tables \<Rightarrow> string \<Rightarrow> string set" where
  "workspace_user_ids t table_id =
     {dec_int (usr_id u) | u m i. u \<in> set (t_users t) \<and> m \<in> set (t_members t) \<and> i \<in> set (t_items t)
        \<and> mb_user m = usr_id u \<and> mb_ws m = itm_ws i \<and> itm_id i = table_id}"

lemma member_options_ids:
  assumes "workspace_member_options_for_table t table_id = Inr os"
  shows "set (map (\<lambda>opt. py_str (dget opt ''id'')) os) \<subseteq> workspace_user_ids t table_id"
proof -
  from assms obtain ws where ws: "member_workspace_id_for_table t table_id = Inr ws"
    and os: "os = concat (map (\<lambda>u. map (member_option u)
                (filter (\<lambda>m. mb_user m = usr_id u \<and> mb_ws m = ws) (t_members t)))
              (sort_key (\<lambda>u. (usr_name u, usr_email u, usr_id u)) (t_users t)))"
    by (auto simp: workspace_member_options_for_table_def)
  from ws obtain i where "i \<in> set (t_items t)" "itm_id i = table_id" "itm_ws i = ws"
    by (auto simp: member_workspace_id_for_table_def select_first_def mem_error_def
        split: option.splits if_splits dest!: find_SomeD)
  then show ?thesis unfolding os workspace_user_ids_def
    by (force simp: member_option_def py_str_def)
qed

lemma member_fields_in_keys:
  "(\<And>k. (\<exists>p\<in>set ps. dhas p k) = (\<exists>q\<in>set qs. dhas q k)) \<Longrightarrow> member_fields_in t tbl ps = member_fields_in t tbl qs"
  by (auto simp: member_fields_in_def select_def dkeys_def dhas_def intro!: filter_cong)

lemma distinct_table_fields:
  assumes "distinct (map fld_key (t_fields t))"
  shows "distinct (map fld_id (filter (\<lambda>f. fld_table f = tbl \<and> P f) (t_fields t)))"
  using assms unfolding distinct_map by (auto simp: inj_on_def fld_key_def)

definition member_payload_ok :: "tables \<Rightarrow> string \<Rightarrow> dict \<Rightarrow> dict \<Rightarrow> bool" where
  "member_payload_ok t tbl p q \<longleftrightarrow> (\<forall>k. dhas q k = dhas p k)
      \<and> (\<forall>k. k \<notin> fld_id ` {f \<in> set (t_fields t). fld_table f = tbl \<and> fld_type f = ''member''} \<longrightarrow> dget q k = dget p k)
      \<and> (\<forall>f\<in>set (t_fields t). fld_table f = tbl \<longrightarrow> fld_type f = ''member'' \<longrightarrow> fld_id f \<noteq> ''id'' \<longrightarrow> dhas p (fld_id f) \<longrightarrow>
           extract_member_ids (dget p (fld_id f)) = Inr (member_ids_of (dget q (fld_id f)))
           \<and> distinct (member_ids_of (dget q (fld_id f)))
           \<and> set (member_ids_of (dget q (fld_id f))) \<subseteq> workspace_user_ids t tbl
           \<and> (member_allows_multiple (fld_property f) = Inr False \<longrightarrow> length (member_ids_of (dget q (fld_id f))) \<le> 1))"

text \<open>when a batch of payloads for a table passes member normalisation, every member field present in a payload holds exactly the user ids the given value named, without duplicates, each of them a user who is a member of the table's workspace, and at most one for a single-select field; nothing else in the payloads changes, and normalising the result again changes nothing.\<close>

theorem member_values_are_members:
  assumes ok: "normalize_member_values_in_payloads t tbl ps = Inr qs"
    and keys: "distinct (map fld_key (t_fields t))"
  shows "normalize_member_values_in_payloads t tbl qs = Inr qs \<and>
    list_all2 (member_payload_ok t tbl) ps qs"
proof (cases "member_fields_in t tbl ps = []")
  case True
  with ok have "qs = ps" by (simp add: normalize_member_values_in_payloads_def)
  moreover have "\<not> dhas p (fld_id f)" if "p \<in> set ps" "f \<in> set (t_fields t)" "fld_table f = tbl" "fld_type f = ''member''" "fld_id f \<noteq> ''id''" for p f
    using True that by (auto simp: member_fields_in_def select_def filter_empty_conv dhas_def dkeys_def Let_def)
  ultimately show ?thesis using ok by (auto simp: list_all2_same member_payload_ok_def)
next
  case False
  let ?fs = "member_fields_in t tbl ps"
  from ok False obtain os where os: "workspace_member_options_for_table t tbl = Inr os"
    and m: "map_res (normalize_member_payload ?fs (map (\<lambda>opt. py_str (dget opt ''id'')) os)) ps = Inr qs"
    by (auto simp: normalize_member_values_in_payloads_def Let_def)
  let ?al = "map (\<lambda>opt. py_str (dget opt ''id'')) os"
  have d: "distinct (map fld_id ?fs)"
    unfolding member_fields_in_def select_def Let_def by (rule distinct_table_fields[OF keys])
  have la: "list_all2 (\<lambda>p q. normalize_member_payload ?fs ?al p = Inr q) ps qs" using m by (simp add: map_res_Inr)
  note sp = normalize_member_payload_spec[OF _ d]
  have hk: "list_all2 (\<lambda>p q. \<forall>k. dhas q k = dhas p k) ps qs"
    using la sp by (auto elim!: list_all2_mono)
  then have "(\<exists>p\<in>set ps. dhas p k) = (\<exists>q\<in>set qs. dhas q k)" for k
    unfolding list_all2_conv_all_nth by (metis in_set_conv_nth)
  then have same: "member_fields_in t tbl qs = ?fs" by (intro member_fields_in_keys[symmetric])
  have "map_res (normalize_member_payload ?fs ?al) qs = Inr qs"
    unfolding map_res_Inr
  proof (rule list_all2_all_nthI)
    fix n assume n: "n < length qs"
    with la have "normalize_member_payload ?fs ?al (ps ! n) = Inr (qs ! n)" by (auto simp: list_all2_conv_all_nth)
    note spn = sp[OF this]
    show "normalize_member_payload ?fs ?al (qs ! n) = Inr (qs ! n)"
    proof (intro normalize_member_payload_fix ballI impI)
      fix f assume "f \<in> set ?fs" "dhas (qs ! n) (fld_id f)"
      with spn have "normalize_member_value f (dget (ps ! n) (fld_id f)) ?al = Inr (dget (qs ! n) (fld_id f))" by simp
      then show "normalize_member_value f (dget (qs ! n) (fld_id f)) ?al = Inr (dget (qs ! n) (fld_id f))"
        using normalize_member_value_spec by blast
    qed
  qed simp
  then have idem: "normalize_member_values_in_payloads t tbl qs = Inr qs"
    using False os same by (simp add: normalize_member_values_in_payloads_def)
  have sub: "set ?al \<subseteq> workspace_user_ids t tbl" using member_options_ids[OF os] .
  have mem: "fld_id f \<in> fld_id ` set ?fs \<and> f \<in> set ?fs"
    if "p \<in> set ps" "dhas p (fld_id f)" "f \<in> set (t_fields t)" "fld_table f = tbl" "fld_type f = ''member''" "fld_id f \<noteq> ''id''" for p f
    using that by (auto simp: member_fields_in_def select_def dhas_def dkeys_def Let_def)
  have fsub: "fld_id ` set ?fs \<subseteq> fld_id ` {f \<in> set (t_fields t). fld_table f = tbl \<and> fld_type f = ''member''}"
    by (auto simp: member_fields_in_def select_def Let_def)
  have one: "member_payload_ok t tbl p q"
    if p: "p \<in> set ps" and pq: "normalize_member_payload ?fs ?al p = Inr q" for p q
  proof -
    have "normalize_member_value f (dget p (fld_id f)) ?al = Inr (dget q (fld_id f))"
      if "f \<in> set (t_fields t)" "fld_table f = tbl" "fld_type f = ''member''" "fld_id f \<noteq> ''id''" "dhas p (fld_id f)" for f
      using sp[OF pq] mem[OF p that(5) that(1-4)] that(5) by blast
    note nv = normalize_member_value_spec[OF this]
    have k: "dhas q k = dhas p k" for k using sp[OF pq] by blast
    have un: "dget q k = dget p k" if "k \<notin> fld_id ` {f \<in> set (t_fields t). fld_table f = tbl \<and> fld_type f = ''member''}" for k
      using sp[OF pq] that fsub by blast
    show ?thesis unfolding member_payload_ok_def
      using k un nv sub by (intro conjI allI ballI impI) (assumption | blast)+
  qed
  show ?thesis using idem la one
    by (simp add: list_all2_conv_all_nth)
qed

definition example_members :: tables where
  "example_members = empty_tables\<lparr>
     t_fields := [\<lparr>fld_id = ''f'', fld_table = ''t'', fld_name = ''Owner'', fld_type = ''member'',
        fld_options = PNone, fld_property = PDict [(''multiple'', PBool True)], fld_order = 0\<rparr>],
     t_items := [\<lparr>itm_id = ''t'', itm_ws = ''w'', itm_type = ''table'', itm_name = [], itm_parent = None, itm_order = 0, itm_view = None\<rparr>],
     t_users := [\<lparr>usr_id = 7, usr_name = ''A'', usr_email = []\<rparr>],
     t_members := [\<lparr>mb_user = 7, mb_ws = ''w'', mb_role = Viewer\<rparr>]\<rparr>"

lemma example_members_normalize:
  "normalize_member_values_in_payloads example_members ''t''
     [[(''f'', PList [PStr ''7'', PStr ''7'']), (''x'', PInt 1)]]
   = Inr [[(''f'', PList [PStr ''7'']), (''x'', PInt 1)]]"
proof -
  have f: "member_fields_in example_members ''t'' [[(''f'', PList [PStr ''7'', PStr ''7'']), (''x'', PInt 1)]]
      = t_fields example_members"
    by (simp add: member_fields_in_def select_def example_members_def dkeys_def)
  have opts: "workspace_member_options_for_table example_members ''t''
      = Inr [member_option \<lparr>usr_id = 7, usr_name = ''A'', usr_email = []\<rparr> \<lparr>mb_user = 7, mb_ws = ''w'', mb_role = Viewer\<rparr>]"
    by (simp add: workspace_member_options_for_table_def member_workspace_id_for_table_def select_first_def
        example_members_def sort_key_def)
  have s: "strip ''7'' = ''7''" "dec_int 7 = ''7''" by code_simp+
  show ?thesis
    by (simp add: normalize_member_values_in_payloads_def f opts)
       (simp add: example_members_def member_option_def py_str_def s normalize_member_value_def dedup_def
         member_allows_multiple_def dget_default_def dset_simps)
qed

theorem member_values_are_members_witness:
  "member_payload_ok example_members ''t''
     [(''f'', PList [PStr ''7'', PStr ''7'']), (''x'', PInt 1)] [(''f'', PList [PStr ''7'']), (''x'', PInt 1)]"
proof -
  have k: "distinct (map fld_key (t_fields example_members))" by (simp add: example_members_def)
  from member_values_are_members[OF example_members_normalize k] show ?thesis by simp
qed

end
