(* ===== verification/AutoNumber.thy ===== *)
theory AutoNumber
  imports PyBase
begin

text \<open>
  \<open>src/app/services/auto_number_engine.py\<close>: the property of an auto-number field (prefix,
  digits, start and the server-owned \<open>nextNumber\<close> counter), its normalisation with every
  error branch, the allocation of a block of numbers, and the display format.
\<close>

section \<open>Definitions\<close>

definition is_auto_number_field :: "dict \<Rightarrow> bool" where
  "is_auto_number_field field \<longleftrightarrow> str_or_empty (dget field ''type'') = ''autoNumber''"

text \<open>\<open>dict(value or {})\<close>.\<close>

definition py_dict :: "pyval \<Rightarrow> dict res" where
  "py_dict v = (case v of
       PDict d \<Rightarrow> Inr d
     | PStr s \<Rightarrow> if s = [] then Inr [] else Inl (Exn ValueError ''dictionary update sequence'')
     | PList xs \<Rightarrow> if xs = [] then Inr [] else Inl (Exn ValueError ''dictionary update sequence'')
     | _ \<Rightarrow> if py_truth v then Inl (Exn TypeError ''object is not iterable'') else Inr [])"

definition an_error :: "string \<Rightarrow> 'a res" where
  "an_error m = Inl (Exn AutoNumberValidationError m)"

definition auto_number_prefix :: "dict \<Rightarrow> string res" where
  "auto_number_prefix prop = (case dget_default prop ''prefix'' (PStr []) of
       PNone \<Rightarrow> Inr []
     | PStr p \<Rightarrow> if length p > 64 then an_error ''Auto-number prefix cannot exceed 64 characters'' else Inr p
     | _ \<Rightarrow> an_error ''Auto-number prefix must be text'')"

definition auto_number_digits :: "dict \<Rightarrow> int res" where
  "auto_number_digits prop = (case py_int (dget_default prop ''digits'' (PInt 3)) of
       Inl _ \<Rightarrow> an_error ''Auto-number digits must be an integer''
     | Inr n \<Rightarrow> if n < 1 \<or> n > 12 then an_error ''Auto-number digits must be between 1 and 12'' else Inr n)"

definition auto_number_start :: "dict \<Rightarrow> int res" where
  "auto_number_start prop = (case py_int (dget_default prop ''start'' (PInt 1)) of
       Inl _ \<Rightarrow> an_error ''Auto-number start must be an integer''
     | Inr n \<Rightarrow> if n < 1 \<or> n > 999999999999
         then an_error ''Auto-number start must be between 1 and 999999999999'' else Inr n)"

definition auto_number_next :: "dict \<Rightarrow> int \<Rightarrow> int option \<Rightarrow> int" where
  "auto_number_next prop start preserve_next = (case preserve_next of
       None \<Rightarrow> max start (case py_int (dget_default prop ''nextNumber'' (PInt start)) of
                 Inl _ \<Rightarrow> start | Inr n \<Rightarrow> n)
     | Some n \<Rightarrow> max start n)"

definition normalize_auto_number_property :: "pyval \<Rightarrow> int option \<Rightarrow> dict res" where
  "normalize_auto_number_property property_value preserve_next =
     bind_res (py_dict property_value) (\<lambda>prop.
     bind_res (auto_number_prefix prop) (\<lambda>prefix.
     bind_res (auto_number_digits prop) (\<lambda>digits.
     bind_res (auto_number_start prop) (\<lambda>start.
       Inr (dset ''nextNumber'' (PInt (auto_number_next prop start preserve_next))
             (dset ''start'' (PInt start)
             (dset ''digits'' (PInt digits)
             (dset ''prefix'' (PStr prefix) prop))))))))"

definition validate_auto_number_field :: "dict \<Rightarrow> unit res" where
  "validate_auto_number_field field =
     (if \<not> is_auto_number_field field then Inr ()
      else bind_res (normalize_auto_number_property (dget field ''property'') None) (\<lambda>_. Inr ()))"

text \<open>\<open>int(prop["nextNumber"])\<close> reads back the integer the normalisation has just stored.\<close>

definition allocate_auto_number_values :: "pyval \<Rightarrow> int \<Rightarrow> (int list \<times> dict) res" where
  "allocate_auto_number_values property_value count =
     bind_res (normalize_auto_number_property property_value None) (\<lambda>prop.
     bind_res (py_int (dget prop ''nextNumber'')) (\<lambda>first.
       let amount = max 0 count
       in Inr ([first..first + amount - 1], dset ''nextNumber'' (PInt (first + amount)) prop)))"

text \<open>\<open>f"{number:0{digits}d}"\<close>.\<close>

definition zero_pad :: "nat \<Rightarrow> int \<Rightarrow> string" where
  "zero_pad width n =
     (let sign = (if n < 0 then ''-'' else []); body = dec_nat (nat \<bar>n\<bar>)
      in sign @ replicate (width - length sign - length body) (CHR ''0'') @ body)"

definition format_auto_number :: "dict \<Rightarrow> pyval \<Rightarrow> string res" where
  "format_auto_number field value =
     (if value = PNone \<or> value = PStr [] then Inr []
      else bind_res (normalize_auto_number_property (dget field ''property'') None) (\<lambda>prop.
        case py_int value of
          Inl _ \<Rightarrow> Inr (py_str value)
        | Inr number \<Rightarrow>
            bind_res (py_int (dget prop ''digits'')) (\<lambda>digits.
              Inr (py_str (dget prop ''prefix'') @ zero_pad (nat digits) number))))"

text \<open>
  Allocations in sequence, each from the property the one before stored back: what the
  record-creating operations do with \<open>field.property\<close>.
\<close>

fun alloc_seq :: "('st \<Rightarrow> int \<Rightarrow> (int list \<times> 'st) res) \<Rightarrow> 'st \<Rightarrow> int list \<Rightarrow> (int list list \<times> 'st) res" where
  "alloc_seq alloc st [] = Inr ([], st)"
| "alloc_seq alloc st (n # ns) =
     bind_res (alloc st n) (\<lambda>(vs, st').
     bind_res (alloc_seq alloc st' ns) (\<lambda>(vss, st''). Inr (vs # vss, st'')))"

section \<open>Normalisation and allocation\<close>

lemma an_error_neq [simp]: "an_error m \<noteq> Inr x" "Inr x \<noteq> an_error m"
  by (simp_all add: an_error_def)

lemma normalize_auto_number_cases:
  assumes "normalize_auto_number_property v pn = Inr p"
  obtains pr prefix digits start where
    "py_dict v = Inr pr" "length prefix \<le> 64" "1 \<le> digits" "digits \<le> 12"
    "1 \<le> start" "start \<le> 999999999999"
    "map_of p ''prefix'' = Some (PStr prefix)" "map_of p ''digits'' = Some (PInt digits)"
    "map_of p ''start'' = Some (PInt start)"
    "map_of p ''nextNumber'' = Some (PInt (auto_number_next pr start pn))"
proof -
  from assms obtain pr prefix digits start where
    h: "py_dict v = Inr pr" "auto_number_prefix pr = Inr prefix"
      "auto_number_digits pr = Inr digits" "auto_number_start pr = Inr start"
    and p: "p = dset ''nextNumber'' (PInt (auto_number_next pr start pn))
             (dset ''start'' (PInt start) (dset ''digits'' (PInt digits)
             (dset ''prefix'' (PStr prefix) pr)))"
    by (auto simp: normalize_auto_number_property_def)
  show ?thesis
  proof (rule that[of pr prefix digits start])
    show "length prefix \<le> 64"
      using h(2) by (auto simp: auto_number_prefix_def split: pyval.splits if_splits)
    show "1 \<le> digits" "digits \<le> 12"
      using h(3) by (auto simp: auto_number_digits_def split: sum.splits if_splits)
    show "1 \<le> start" "start \<le> 999999999999"
      using h(4) by (auto simp: auto_number_start_def split: sum.splits if_splits)
  qed (use h(1) in \<open>simp_all add: p map_of_dset\<close>)
qed

lemma normalize_auto_number_idem:
  assumes "normalize_auto_number_property v pn = Inr p"
  shows "normalize_auto_number_property (PDict p) None = Inr p"
  using assms
proof (rule normalize_auto_number_cases)
  fix pr prefix digits start
  assume "length prefix \<le> 64" "1 \<le> (digits::int)" "digits \<le> 12"
    "1 \<le> start" "start \<le> 999999999999"
    and m: "map_of p ''prefix'' = Some (PStr prefix)" "map_of p ''digits'' = Some (PInt digits)"
    "map_of p ''start'' = Some (PInt start)"
    "map_of p ''nextNumber'' = Some (PInt (auto_number_next pr start pn))"
  moreover have "start \<le> auto_number_next pr start pn"
    by (simp add: auto_number_next_def split: option.splits)
  ultimately show ?thesis
    by (simp add: normalize_auto_number_property_def py_dict_def auto_number_prefix_def
      auto_number_digits_def auto_number_start_def auto_number_next_def dget_default_def dset_idem m)
qed

lemma allocate_spec:
  assumes "allocate_auto_number_values v n = Inr (vs, p)"
  obtains first start where "1 \<le> start" "start \<le> first" "vs = [first..first + max 0 n - 1]"
    "map_of p ''nextNumber'' = Some (PInt (first + max 0 n))"
    "normalize_auto_number_property (PDict p) None = Inr p"
proof -
  from assms obtain q first where q: "normalize_auto_number_property v None = Inr q"
    and f: "py_int (dget q ''nextNumber'') = Inr first"
    and vs: "vs = [first..first + max 0 n - 1]"
    and p: "p = dset ''nextNumber'' (PInt (first + max 0 n)) q"
    by (auto simp: allocate_auto_number_values_def Let_def)
  from q show ?thesis
  proof (rule normalize_auto_number_cases)
    fix pr prefix digits start
    assume b: "length prefix \<le> 64" "1 \<le> (digits::int)" "digits \<le> 12"
      "1 \<le> start" "start \<le> 999999999999"
      and m: "map_of q ''prefix'' = Some (PStr prefix)" "map_of q ''digits'' = Some (PInt digits)"
      "map_of q ''start'' = Some (PInt start)"
      "map_of q ''nextNumber'' = Some (PInt (auto_number_next pr start None))"
    from m(4) f have ff: "first = auto_number_next pr start None" by (simp add: dget_def)
    then have sf: "start \<le> first" by (simp add: auto_number_next_def)
    have pm: "map_of p ''prefix'' = Some (PStr prefix)" "map_of p ''digits'' = Some (PInt digits)"
      "map_of p ''start'' = Some (PInt start)"
      "map_of p ''nextNumber'' = Some (PInt (first + max 0 n))"
      by (simp_all add: p map_of_dset m)
    have "normalize_auto_number_property (PDict p) None = Inr p"
      using b sf by (simp add: normalize_auto_number_property_def py_dict_def auto_number_prefix_def
      auto_number_digits_def auto_number_start_def auto_number_next_def dget_default_def dset_idem pm)
    with that b sf vs pm show ?thesis by blast
  qed
qed
section \<open>The block-allocator interface\<close>

text \<open>
  What the record store relies on: an allocation of \<open>n\<close> values from a counter returns the
  block that starts at the counter and moves the counter past it. Any such allocator hands
  out pairwise different values over a whole run.
\<close>

locale block_allocator =
  fixes alloc :: "'st \<Rightarrow> int \<Rightarrow> (int list \<times> 'st) res"
    and nxt :: "'st \<Rightarrow> int"
  assumes alloc_block: "alloc st n = Inr (vs, st') \<Longrightarrow>
    vs = [nxt st..nxt st + max 0 n - 1] \<and> nxt st' = nxt st + max 0 n"
begin

lemma seq_block:
  "alloc_seq alloc st ns = Inr (vss, st') \<Longrightarrow> concat vss = [nxt st..nxt st' - 1] \<and> nxt st \<le> nxt st'"
proof (induction ns arbitrary: st vss)
  case Nil
  then show ?case by simp
next
  case (Cons n ns)
  then obtain vs st1 vss' where a: "alloc st n = Inr (vs, st1)"
    and r: "alloc_seq alloc st1 ns = Inr (vss', st')" and v: "vss = vs # vss'" by auto
  from alloc_block[OF a] Cons.IH[OF r] v show ?case
    using upto_join[of "nxt st" "nxt st1" "nxt st'"] by auto
qed

lemma seq_distinct: "alloc_seq alloc st ns = Inr (vss, st') \<Longrightarrow> distinct (concat vss)"
  by (simp add: seq_block)

end

lemma undec_zeros: "undec 0 (replicate k (CHR ''0'') @ s) = undec 0 s"
  by (induction k) (simp_all add: undec_def)

lemma zero_pad_inject: "0 \<le> m \<Longrightarrow> 0 \<le> n \<Longrightarrow> zero_pad w m = zero_pad w n \<longleftrightarrow> m = n"
  by (auto simp: zero_pad_def Let_def) (metis undec_zeros undec_dec_nat nat_0_le)

lemma zero_pad_width: "nat w \<le> length (zero_pad (nat w) n)"
  by (simp add: zero_pad_def Let_def)

section \<open>The stored counter as a block allocator\<close>

definition allocate_stored :: "pyval \<Rightarrow> int \<Rightarrow> (int list \<times> pyval) res" where
  "allocate_stored v n = bind_res (allocate_auto_number_values v n) (\<lambda>(vs, p). Inr (vs, PDict p))"

definition next_number :: "pyval \<Rightarrow> int" where
  "next_number v = (case normalize_auto_number_property v None of
       Inl _ \<Rightarrow> 0
     | Inr p \<Rightarrow> (case dget p ''nextNumber'' of PInt n \<Rightarrow> n | _ \<Rightarrow> 0))"

lemma next_number_stored:
  assumes "normalize_auto_number_property v None = Inr p"
  shows "map_of p ''nextNumber'' = Some (PInt (next_number v)) \<and> 1 \<le> next_number v"
  using assms
proof (rule normalize_auto_number_cases)
  fix pr :: dict and start :: int
  assume "1 \<le> start"
    and m: "map_of p ''nextNumber'' = Some (PInt (auto_number_next pr start None))"
  then have "1 \<le> auto_number_next pr start None" by (simp add: auto_number_next_def)
  with m assms show ?thesis by (simp add: next_number_def dget_def)
qed

lemma allocate_stored_block:
  assumes "allocate_stored v n = Inr (vs, w)"
  shows "1 \<le> next_number v \<and> vs = [next_number v..next_number v + max 0 n - 1]
    \<and> next_number w = next_number v + max 0 n"
proof -
  from assms obtain p q first where q: "normalize_auto_number_property v None = Inr q"
    and f: "py_int (dget q ''nextNumber'') = Inr first" and vs: "vs = [first..first + max 0 n - 1]"
    and p: "p = dset ''nextNumber'' (PInt (first + max 0 n)) q" and w: "w = PDict p"
    and a: "allocate_auto_number_values v n = Inr (vs, p)"
    by (auto simp: allocate_stored_def allocate_auto_number_values_def Let_def)
  from next_number_stored[OF q] f have first: "first = next_number v" "1 \<le> first"
    by (auto simp: dget_def)
  from a obtain fr where "map_of p ''nextNumber'' = Some (PInt fr)"
    and "normalize_auto_number_property (PDict p) None = Inr p" by (rule allocate_spec)
  with p w have "next_number w = first + max 0 n"
    by (simp add: next_number_def)
  with first vs show ?thesis by simp
qed

interpretation an: block_allocator allocate_stored next_number
  by unfold_locales (use allocate_stored_block in blast)

lemma auto_numbers_positive:
  "alloc_seq allocate_stored v ns = Inr (vss, v') \<Longrightarrow> n \<in> set (concat vss) \<Longrightarrow> 1 \<le> n"
proof (cases ns)
  case (Cons m ms)
  assume a: "alloc_seq allocate_stored v ns = Inr (vss, v')" and n: "n \<in> set (concat vss)"
  from a Cons obtain vs w where "allocate_stored v m = Inr (vs, w)" by auto
  then have "1 \<le> next_number v" using allocate_stored_block by blast
  moreover have "next_number v \<le> n" using n unfolding an.seq_block[OF a, THEN conjunct1] by simp
  ultimately show ?thesis by simp
qed simp

text \<open>over any sequence of allocations from a stored auto-number property, each starting from the property the previous one wrote back, the numbers handed out are one gap-free increasing run, pairwise different and positive.\<close>

theorem auto_numbers_never_repeat:
  assumes "alloc_seq allocate_stored v ns = Inr (vss, v')"
  shows "concat vss = [next_number v..next_number v' - 1] \<and> distinct (concat vss)
    \<and> (\<forall>n\<in>set (concat vss). 1 \<le> n)"
  using an.seq_block[OF assms] an.seq_distinct[OF assms] auto_numbers_positive[OF assms] by blast

theorem auto_numbers_never_repeat_witness:
  "\<exists>v'. alloc_seq allocate_stored (PDict [(''start'', PInt 7)]) [2, 0, 3] = Inr ([[7, 8], [], [9, 10, 11]], v')
     \<and> distinct (concat [[7, 8], [], [9, 10, 11::int]])"
proof -
  obtain v' where v': "alloc_seq allocate_stored (PDict [(''start'', PInt 7)]) [2, 0, 3]
      = Inr ([[7, 8], [], [9, 10, 11]], v')"
    by (simp add: allocate_stored_def allocate_auto_number_values_def normalize_auto_number_property_def
      py_dict_def auto_number_prefix_def auto_number_digits_def auto_number_start_def
      auto_number_next_def dget_default_def dset_simps upto.simps dget_def)
  with auto_numbers_never_repeat[OF v'] show ?thesis by blast
qed

text \<open>The display text of an auto-number field determines the number: two non-negative numbers that format to the same text under one field are equal.\<close>

theorem auto_number_display_unique:
  assumes "format_auto_number field (PInt m) = Inr s" "format_auto_number field (PInt n) = Inr s"
    and "0 \<le> m" "0 \<le> n"
  shows "m = n"
  using assms by (auto simp: format_auto_number_def zero_pad_inject)

theorem auto_number_display_unique_witness:
  "format_auto_number [(''property'', PDict [(''prefix'', PStr ''T-'')])] (PInt 42) = Inr ''T-042''
   \<and> format_auto_number [(''property'', PDict [(''prefix'', PStr ''T-'')])] (PInt 43) \<noteq> Inr ''T-042''"
proof -
  have f: "format_auto_number [(''property'', PDict [(''prefix'', PStr ''T-'')])] (PInt 42) = Inr ''T-042''"
    by code_simp
  have "format_auto_number [(''property'', PDict [(''prefix'', PStr ''T-'')])] (PInt 43) \<noteq> Inr ''T-042''"
    using auto_number_display_unique[OF f, of 43] by auto
  with f show ?thesis by blast
qed

end
