(* ===== verification/ChangeAudit.thy ===== *)
theory ChangeAudit
  imports RelationStore MemberField AutoNumber
begin

text \<open>
  The contract every audited write of the record store fulfils: when it returns, its result
  is durable, and the log holds one change set which records, for every record whose data
  changed, the data before and after, such that undo accepts it. The interface
  \<open>audited_write\<close> states it; its consequence, that undo brings every record back, is proved
  once and used by each operation.
\<close>

declare split_paired_All [simp del] split_paired_Ex [simp del]

section \<open>A change set that describes a step\<close>

definition in_key :: "change_in \<Rightarrow> string \<times> string" where
  "in_key it = (in_table it, in_entity it)"

text \<open>The entry fits the step from \<open>t\<close> to \<open>t'\<close>, and undo will accept it.\<close>

definition in_fits :: "tables \<Rightarrow> tables \<Rightarrow> string \<Rightarrow> change_in \<Rightarrow> bool" where
  "in_fits t t' cs it \<longleftrightarrow> in_etype it = ''record'' \<and> in_table it \<noteq> []
     \<and> in_before it = data_at t (in_key it) \<and> in_after it = data_at t' (in_key it)
     \<and> (in_before it \<noteq> None \<or> in_after it \<noteq> None)
     \<and> (\<forall>r. look (t_records t') (in_key it) = Some r \<longrightarrow> record_version r = int_or (in_vafter it) 1)
     \<and> (in_after it = None \<longrightarrow> (\<exists>rc. entry_at t' cs (in_key it) = Some rc
          \<and> int_or (Some (rb_version rc)) 1 = int_or (in_vafter it) (int_or (Some (rb_version rc)) 1)))"

definition audited :: "tables \<Rightarrow> tables \<Rightarrow> string \<Rightarrow> bool" where
  "audited t t' cs \<longleftrightarrow> undoable t' cs
     \<and> (\<forall>k. case find (\<lambda>i. ci_key i = k) (get_change_items t' cs) of
          None \<Rightarrow> data_at t' k = data_at t k
        | Some i \<Rightarrow> ci_before i = data_at t k \<and> ci_after i = data_at t' k \<and> (ci_before i \<noteq> None \<or> ci_after i \<noteq> None))"

lemma audited_undo:
  assumes "audited t (work s) cs" "fresh_ids s"
  shows "\<exists>res s'. undo_change_set cs a aty src tr s = (Inr res, s') \<and> committed s' = work s'
    \<and> (\<forall>k. data_at (work s') k = data_at t k)"
proof -
  from assms have u: "undoable (work s) cs" by (simp add: audited_def)
  obtain res s' where r: "undo_change_set cs a aty src tr s = (Inr res, s')" "committed s' = work s'"
    and d: "\<forall>k. data_at (work s') k = (case find (\<lambda>i. ci_key i = k) (get_change_items (work s) cs) of
          None \<Rightarrow> data_at (work s) k
        | Some i \<Rightarrow> if ci_before i = None \<and> ci_after i = None then data_at (work s) k else ci_before i)"
    using undo_effect[OF u assms(2), of a aty src tr] by blast
  have "data_at (work s') k = data_at t k" for k
    using d[rule_format, of k] assms(1)[unfolded audited_def, THEN conjunct2, rule_format, of k]
    by (auto split: option.splits)
  with r show ?thesis by blast
qed

lemma all2_find_key:
  "list_all2 Q xs ys \<Longrightarrow> (\<And>x y. Q x y \<Longrightarrow> f x = g y) \<Longrightarrow>
   rel_option Q (find (\<lambda>x. f x = k) xs) (find (\<lambda>y. g y = k) ys)"
proof (induction rule: list_all2_induct)
  case (Cons x xs y ys)
  then have "f x = g y" by blast
  with Cons show ?case by auto
qed simp

lemma enumerated_all2:
  "list_all2 (\<lambda>(n, it) r. \<exists>i. r = row n it i) (enumerate m its) rows \<Longrightarrow> list_all2 (\<lambda>it r. \<exists>n i. r = row n it i) its rows"
  by (induction its arbitrary: m rows) (auto simp: list_all2_Cons1)

lemma append_step:
  assumes ap: "append_change_set rq its s = (Inr row, s2)" and fresh: "fresh_ids s" and rq: "rq_id rq = None"
  shows "log_step s s2" "fresh_ids s2" "cs_id row \<in> issued_ids s2" "cs_id row \<notin> log_ids (work s)"
    "\<exists>rows. work s2 = (work s)\<lparr>t_sets := t_sets (work s) @ [row], t_changes := t_changes (work s) @ rows\<rparr>"
    "cs_id row \<noteq> []"
proof -
  have hyp: "\<forall>i. rq_id rq = Some i \<longrightarrow> i \<noteq> [] \<longrightarrow> i \<notin> cs_id ` set (t_sets (work s)) \<and> i \<in> issued_ids s"
    using rq by simp
  obtain row' rows s2' where ap': "append_change_set rq its s = (Inr row', s2')" and ls: "log_step s s2'"
    and w: "work s2' = (work s)\<lparr>t_sets := t_sets (work s) @ [row'], t_changes := t_changes (work s) @ rows\<rparr>"
    and id: "cs_id row' = change_set_id_for rq s"
    by (rule append_change_set_run[OF fresh hyp, of its]) (rule that; assumption)
  from ap ap' have eq: "row' = row" "s2' = s2" by simp_all
  show "log_step s s2" using ls eq by simp
  then show "fresh_ids s2" using fresh by (rule log_step_fresh)
  have g: "cs_id row = gen_id s ''chg'' (uuid_pos s)" using id rq eq by (simp add: change_set_id_for_def)
  then show "cs_id row \<noteq> []" by (simp add: gen_id_def)
  show ni: "cs_id row \<notin> log_ids (work s)" using fresh_next[OF fresh, of "''chg''"] by (simp add: g)
  have "cs_id row \<in> log_ids (work s2)" using w eq by (simp add: log_ids_def)
  with ni ls eq show "cs_id row \<in> issued_ids s2" by (auto simp: log_step_def)
  show "\<exists>rows. work s2 = (work s)\<lparr>t_sets := t_sets (work s) @ [row], t_changes := t_changes (work s) @ rows\<rparr>"
    using w eq by blast
qed

text \<open>
  What an operation has to show: after its change set was appended, its entries fit the step
  and every other record kept its data.
\<close>

lemma append_audited:
  assumes ap: "append_change_set rq its s = (Inr row, s2)" and fresh: "fresh_ids s"
    and rq: "rq_id rq = None" "rq_status rq = ''applied''" "rq_operation rq \<noteq> ''purge''" "rq_operation rq \<noteq> []" "length (rq_operation rq) \<le> 64"
    and log: "t_sets t' = t_sets (work s2)" "t_changes t' = t_changes (work s2)"
    and its: "its \<noteq> []" "distinct (map in_key its)" "\<forall>it\<in>set its. in_fits t t' (cs_id row) it"
    and rest: "\<forall>k. k \<notin> in_key ` set its \<longrightarrow> data_at t' k = data_at t k"
  shows "audited t t' (cs_id row)"
proof -
  have hyp: "\<forall>i. rq_id rq = Some i \<longrightarrow> i \<noteq> [] \<longrightarrow> i \<notin> cs_id ` set (t_sets (work s)) \<and> i \<in> issued_ids s"
    using rq(1) by simp
  obtain row' rows s2' where ap': "append_change_set rq its s = (Inr row', s2')"
    and r': "list_all2 (\<lambda>(n, it) r. \<exists>i. r = change_item_row (cs_id row') rq n it i) (enumerate 0 its) rows"
    and w2': "work s2' = (work s)\<lparr>t_sets := t_sets (work s) @ [row'], t_changes := t_changes (work s) @ rows\<rparr>"
    and row': "cs_id row' = change_set_id_for rq s" "cs_id row' \<notin> cs_id ` set (t_sets (work s))" "cs_status row' = rq_status rq"
      "cs_operation row' = take 64 (str_or (rq_operation rq) ''update'')"
    by (rule append_change_set_run[OF fresh hyp, of its]) (rule that; assumption)
  from ap ap' have eq: "row' = row" "s2' = s2" by simp_all
  note rows = r'[unfolded eq] and w2 = w2'[unfolded eq] and row = row'[unfolded eq]
  have "cs_id row \<notin> log_ids (work s)"
    using fresh_next[OF fresh, of "''chg''"] rq(1) by (simp add: row(1) change_set_id_for_def)
  then have nou: "filter (\<lambda>c. ci_set c = cs_id row) (t_changes (work s)) = []"
    by (simp add: log_ids_def notin_image filter_empty_conv)
  note lr = logged_rows[OF rows]
  have "filter (\<lambda>c. ci_set c = cs_id row) rows = rows" using lr by (auto simp: filter_id_conv)
  then have gi: "get_change_items t' (cs_id row) = rows"
    using lr nou by (simp add: get_change_items_def select_def log(2) w2 sort_key_sorted)
  have fits: "\<forall>it\<in>set its. in_table it \<noteq> [] \<and> in_etype it = ''record''" using its(3) by (simp add: in_fits_def)
  have two: "list_all2 (\<lambda>it r. in_key it = ci_key r \<and> ci_etype r = ''record'' \<and> ci_before r = in_before it \<and> ci_after r = in_after it
      \<and> ci_vafter r = in_vafter it) its rows"
  proof -
    have "list_all2 (\<lambda>it r. \<exists>n i. r = change_item_row (cs_id row) rq n it i) its rows"
      by (rule enumerated_all2[OF rows])
    then show ?thesis
      by (rule list.rel_mono_strong) (use fits in \<open>auto simp: change_item_row_def in_key_def ci_key_def str_or_def\<close>)
  qed
  then have keys: "map ci_key rows = map in_key its"
    by (induction rule: list_all2_induct) auto
  have fnd: "find (\<lambda>c. cs_id c = cs_id row) (t_sets t') = Some row"
  proof -
    have "find (\<lambda>c. cs_id c = cs_id row) (t_sets (work s)) = None"
      using row(2) by (simp add: find_None_iff notin_image)
    then show ?thesis by (simp add: log(1) w2 find_append)
  qed
  have inits: "\<exists>it\<in>set its. in_key it = ci_key r \<and> ci_etype r = ''record'' \<and> ci_before r = in_before it \<and> ci_after r = in_after it
      \<and> ci_vafter r = in_vafter it" if "r \<in> set rows" for r
    using two that by (induction rule: list_all2_induct) auto
  have valid: "item_valid t' (cs_id row) r" if "r \<in> set rows" for r
  proof -
    from inits[OF that] obtain it where it: "it \<in> set its" "in_key it = ci_key r" "ci_etype r = ''record''"
      "ci_before r = in_before it" "ci_after r = in_after it" "ci_vafter r = in_vafter it" by blast
    with its(3) have f: "in_fits t t' (cs_id row) it" by blast
    show ?thesis using f it by (cases "look (t_records t') (ci_key r)"; cases "look (t_records t) (ci_key r)")
        (auto simp: in_fits_def item_valid_def was_delete_def data_at_def)
  qed
  have "undoable t' (cs_id row)"
    unfolding undoable_def gi
    using fnd row(3,4) rq valid its(1,2) lr keys by (auto simp: str_or_def)
  moreover have "case find (\<lambda>i. ci_key i = k) rows of
          None \<Rightarrow> data_at t' k = data_at t k
        | Some i \<Rightarrow> ci_before i = data_at t k \<and> ci_after i = data_at t' k \<and> (ci_before i \<noteq> None \<or> ci_after i \<noteq> None)" for k
  proof (cases "find (\<lambda>i. ci_key i = k) rows")
    case None
    then have "k \<notin> set (map ci_key rows)" by (auto simp: find_None_iff)
    with rest keys None show ?thesis by simp
  next
    case (Some r)
    then have r: "r \<in> set rows" "ci_key r = k" by (auto dest: find_SomeD)
    from inits[OF r(1)] obtain it where it: "it \<in> set its" "in_key it = k" "ci_before r = in_before it" "ci_after r = in_after it"
      using r(2) by auto
    with its(3) have "in_fits t t' (cs_id row) it" by blast
    then have "in_before it = data_at t k \<and> in_after it = data_at t' k \<and> (in_before it \<noteq> None \<or> in_after it \<noteq> None)"
      using it(2) by (metis in_fits_def)
    with it Some show ?thesis by force
  qed
  ultimately show ?thesis unfolding audited_def gi by blast
qed

section \<open>The interface\<close>

locale audited_write =
  fixes m :: "'a op" and ready :: "session \<Rightarrow> bool"
  assumes run: "ready s \<Longrightarrow> m s = (Inr x, s') \<Longrightarrow> fresh_ids s' \<and> (s' = s \<or> committed s' = work s'
      \<and> (data_at (work s') = data_at (work s) \<or> (\<exists>cs. audited (work s) (work s') cs)))"
    and fails: "ready s \<Longrightarrow> m s = (Inl e, s') \<Longrightarrow> committed s' = committed s"
begin

text \<open>Either no record changed, or one undo brings every record back.\<close>

lemma undone:
  assumes "ready s" "m s = (Inr x, s')"
  shows "data_at (work s') = data_at (work s)
    \<or> (\<exists>cs. \<forall>a aty src tr. \<exists>res s''. undo_change_set cs a aty src tr s' = (Inr res, s'')
          \<and> committed s'' = work s'' \<and> (\<forall>k. data_at (work s'') k = data_at (work s) k))"
  using run[OF assms] audited_undo by blast

end

end
