(* ===== verification/TableInit.thy ===== *)
theory TableInit
  imports ChangeAudit
begin

text \<open>
  The life of a table's data in \<open>smart_table_store/db_backend.py\<close>: initialising or repairing
  it from a template, deleting it with its history, copying it, loading it.

  A template document is read from a JSON file or from the template catalog by code this
  model does not contain, so it is an argument; \<open>tp_fields = []\<close> stands for a missing or
  empty list, \<open>tp_group = []\<close> for a missing group. The values of text columns are strings;
  any other value is refused with \<open>TypeError\<close>, a missing required key with \<open>KeyError\<close>.
\<close>

declare split_paired_All [simp del] split_paired_Ex [simp del]

section \<open>Definitions\<close>

record template =
  tp_fields :: "dict list"
  tp_views :: "dict list"
  tp_records :: "pyval list"
  tp_filters :: "dict list"
  tp_sorts :: "dict list"
  tp_group :: dict

definition text_value :: "pyval \<Rightarrow> string res" where
  "text_value v = (case v of PStr s \<Rightarrow> Inr s | _ \<Rightarrow> Inl (Exn TypeError ''expected str''))"

text \<open>\<open>d[k]\<close> and \<open>d.get(k, default)\<close> stored in a text column.\<close>

definition text_item :: "dict \<Rightarrow> string \<Rightarrow> string res" where
  "text_item d k = (case map_of d k of None \<Rightarrow> Inl (Exn KeyError k) | Some v \<Rightarrow> text_value v)"

definition text_default :: "dict \<Rightarrow> string \<Rightarrow> string \<Rightarrow> string res" where
  "text_default d k v = text_value (dget_default d k (PStr v))"

definition text_or_null :: "pyval \<Rightarrow> string option res" where
  "text_or_null v = (case v of PNone \<Rightarrow> Inr None | PStr s \<Rightarrow> Inr (Some s) | _ \<Rightarrow> Inl (Exn TypeError ''expected str''))"

text \<open>\<open>str(d.get(k) or default)\<close>.\<close>

definition str_get :: "dict \<Rightarrow> string \<Rightarrow> string \<Rightarrow> string" where
  "str_get d k v = py_str (py_or (dget d k) (PStr v))"

text \<open>The names the code gives to the first field and the first view (UTF-8 bytes).\<close>

definition default_field_name :: string where
  "default_field_name = map char_of [230, 150, 135, 230, 156, 172 :: nat]"

definition default_view_name :: string where
  "default_view_name = map char_of [232, 161, 168, 230, 160, 188, 232, 167, 134, 229, 155, 190 :: nat]"

definition fallback_core_fields :: "dict list" where
  "fallback_core_fields = [[(''id'', PStr ''f1''), (''name'', PStr default_field_name), (''type'', PStr ''text'')]]"

definition fallback_core_views :: "dict list" where
  "fallback_core_views = [[(''id'', PStr ''v1''), (''name'', PStr default_view_name), (''type'', PStr ''grid''),
     (''config'', PDict
       [(''toolbar'', PDict [(''items'', PList (map PStr
           [''insertRow'', ''fields'', ''filter'', ''group'', ''sort'', ''automations'', ''share'']))]),
        (''filters'', PList []), (''sorts'', PList []),
        (''groupConfig'', PDict [(''fieldId'', PNone), (''order'', PStr ''asc'')]),
        (''hiddenFieldIds'', PList [])])]]"

definition table_has_data :: "tables \<Rightarrow> string \<Rightarrow> bool" where
  "table_has_data t table_id \<longleftrightarrow> select_first t_fields (\<lambda>f. fld_table f = table_id) t \<noteq> None"

definition ordered_fields :: "tables \<Rightarrow> string \<Rightarrow> table_field list" where
  "ordered_fields t table_id = sort_key fld_order (select t_fields (\<lambda>f. fld_table f = table_id) t)"

definition ordered_records :: "tables \<Rightarrow> string \<Rightarrow> table_record list" where
  "ordered_records t table_id = sort_key rec_order (select t_records (\<lambda>r. rec_table r = table_id) t)"

subsection \<open>Initialisation and repair\<close>

definition template_field_id :: "nat \<Rightarrow> dict \<Rightarrow> string" where
  "template_field_id idx d = str_get d ''id'' (''f'' @ dec_nat (Suc idx))"

definition init_field :: "string \<Rightarrow> nat \<times> dict \<Rightarrow> unit op" where
  "init_field table_id = (\<lambda>(idx, d).
     insert_row t_fields t_fields_update fld_key
       \<lparr>fld_id = template_field_id idx d, fld_table = table_id,
        fld_name = str_get d ''name'' default_field_name, fld_type = str_get d ''type'' ''text'',
        fld_options = dget d ''options'', fld_property = dget d ''property'', fld_order = int idx\<rparr>)"

text \<open>\<open>next_data.setdefault(field_id, None)\<close> for every template field.\<close>

definition backfill :: "dict list \<Rightarrow> dict \<Rightarrow> dict" where
  "backfill flds d = foldl (\<lambda>acc (idx, f). if dhas acc (template_field_id idx f) then acc
       else dset (template_field_id idx f) PNone acc) d (enumerate 0 flds)"

definition init_view :: "string \<Rightarrow> dict \<Rightarrow> unit op" where
  "init_view table_id d =
     insert_row t_views t_views_update vw_key
       \<lparr>vw_id = str_get d ''id'' ''v1'', vw_table = table_id, vw_name = str_get d ''name'' default_view_name,
        vw_type = str_get d ''type'' ''grid'', vw_config = dget d ''config''\<rparr>"

definition new_record_id :: "string op" where
  "new_record_id = bind_op uuid_hex (\<lambda>h. ret (''r'' @ h))"

definition init_record :: "string \<Rightarrow> nat \<times> pyval \<Rightarrow> bool op" where
  "init_record table_id = (\<lambda>(idx, v). case v of
       PDict d \<Rightarrow>
         bind_op (if py_truth (dget d ''id'') then ret (py_str (dget d ''id'')) else new_record_id) (\<lambda>rid.
         then_op (insert_row t_records t_records_update rec_key
             \<lparr>rec_id = rid, rec_table = table_id, rec_data = filter (\<lambda>kv. fst kv \<noteq> ''id'') d,
              rec_order = int idx, rec_creator = None, rec_version = 1\<rparr>)
           (ret True))
     | _ \<Rightarrow> ret False)"

definition filter_row :: "string \<Rightarrow> string \<Rightarrow> int \<Rightarrow> dict \<Rightarrow> table_filter res" where
  "filter_row table_id fid idx d =
     bind_res (text_item d ''fieldId'') (\<lambda>field_id.
     bind_res (text_item d ''operator'') (\<lambda>opr.
     bind_res (text_default d ''logic'' ''and'') (\<lambda>logic.
       Inr \<lparr>flt_id = fid, flt_table = table_id, flt_field = field_id, flt_operator = opr,
            flt_value = dget d ''value'', flt_logic = logic, flt_order = idx\<rparr>)))"

definition init_filter :: "string \<Rightarrow> nat \<times> dict \<Rightarrow> unit op" where
  "init_filter table_id = (\<lambda>(idx, d).
     bind_op (of_res (filter_row table_id (str_get d ''id'' (''flt_'' @ dec_nat (Suc idx))) (int idx) d)) (\<lambda>row.
       insert_row t_filters t_filters_update flt_key row))"

text \<open>\<open>int(time.time() * 1000)\<close>.\<close>

definition millis :: "string op" where
  "millis = bind_op utcnow (\<lambda>now. ret (dec_int (now div 1000)))"

definition sort_row :: "string \<Rightarrow> string \<Rightarrow> int \<Rightarrow> dict \<Rightarrow> table_sort res" where
  "sort_row table_id sid idx d =
     bind_res (text_item d ''fieldId'') (\<lambda>field_id.
     bind_res (text_item d ''order'') (\<lambda>ord.
       Inr \<lparr>srt_id = sid, srt_table = table_id, srt_field = field_id, srt_dir = ord, srt_order = idx\<rparr>))"

definition init_sort :: "string \<Rightarrow> nat \<times> dict \<Rightarrow> unit op" where
  "init_sort table_id = (\<lambda>(idx, d).
     bind_op (if py_truth (dget d ''id'') then ret (py_str (dget d ''id''))
              else bind_op millis (\<lambda>ms. ret (''s'' @ ms @ ''_'' @ dec_nat idx))) (\<lambda>sid.
     bind_op (of_res (sort_row table_id sid (int idx) d)) (\<lambda>row.
       insert_row t_sorts t_sorts_update srt_key row)))"

definition group_row :: "string \<Rightarrow> dict \<Rightarrow> table_group res" where
  "group_row table_id d =
     bind_res (text_or_null (dget d ''fieldId'')) (\<lambda>field_id.
     bind_res (text_default d ''order'' ''asc'') (\<lambda>ord.
       Inr \<lparr>grp_id = ''grp_'' @ table_id, grp_table = table_id, grp_field = field_id, grp_dir = ord\<rparr>))"

definition init_content :: "string \<Rightarrow> template \<Rightarrow> bool op" where
  "init_content table_id store =
     bind_op (map_op (init_record table_id) (enumerate 0 (tp_records store))) (\<lambda>added.
     then_op (map_op (init_filter table_id) (enumerate 0 (tp_filters store)))
     (then_op (map_op (init_sort table_id) (enumerate 0 (tp_sorts store)))
     (then_op (if tp_group store = [] then ret ()
               else bind_op (of_res (group_row table_id (tp_group store))) (\<lambda>row.
                 insert_row t_groups t_groups_update grp_key row))
     (ret (list_ex (\<lambda>b. b) added \<or> tp_filters store \<noteq> [] \<or> tp_sorts store \<noteq> [] \<or> tp_group store \<noteq> [])))))"

definition is_fresh_table :: "tables \<Rightarrow> string \<Rightarrow> bool" where
  "is_fresh_table t table_id \<longleftrightarrow>
     select t_fields (\<lambda>f. fld_table f = table_id) t = [] \<and> select t_views (\<lambda>v. vw_table v = table_id) t = []
     \<and> select t_records (\<lambda>r. rec_table r = table_id) t = [] \<and> select t_filters (\<lambda>f. flt_table f = table_id) t = []
     \<and> select t_sorts (\<lambda>x. srt_table x = table_id) t = [] \<and> select t_groups (\<lambda>g. grp_table g = table_id) t = []"

definition init_table_db :: "string \<Rightarrow> template \<Rightarrow> bool op" where
  "init_table_db table_id store =
     (let template_fields = (if tp_fields store = [] then fallback_core_fields else tp_fields store);
          template_views = (if tp_views store = [] then fallback_core_views else tp_views store) in
      bind_op (reads (\<lambda>t. (select t_fields (\<lambda>f. fld_table f = table_id) t = [],
                         select t_views (\<lambda>v. vw_table v = table_id) t = [], is_fresh_table t table_id)))
        (\<lambda>(no_fields, no_views, is_fresh).
      then_op (if no_fields
               then then_op (map_op (init_field table_id) (enumerate 0 template_fields))
                 (update_rows t_records_update (\<lambda>r. rec_table r = table_id)
                   (\<lambda>r. r\<lparr>rec_data := backfill template_fields (rec_data r)\<rparr>))
               else ret ())
      (then_op (if no_views then bind_op (map_op (init_view table_id) template_views) (\<lambda>_. ret ()) else ret ())
      (bind_op (if is_fresh then init_content table_id store else ret False) (\<lambda>added.
        let changed = (no_fields \<or> no_views \<or> added) in
        then_op (if changed then commit else ret ()) (ret changed))))))"

definition get_record_creation_fields :: "string \<Rightarrow> template \<Rightarrow> table_field list op" where
  "get_record_creation_fields table_id blank =
     bind_op (reads (\<lambda>t. ordered_fields t table_id)) (\<lambda>flds.
       if flds \<noteq> [] then ret flds
       else then_op (bind_op (init_table_db table_id blank) (\<lambda>_. ret ()))
              (reads (\<lambda>t. ordered_fields t table_id)))"

subsection \<open>Deleting and copying a table's data\<close>

definition delete_table_data_db :: "string \<Rightarrow> unit op" where
  "delete_table_data_db table_id =
     then_op (delete_rows t_fields_update (\<lambda>f. fld_table f = table_id))
     (then_op (delete_rows t_records_update (\<lambda>r. rec_table r = table_id))
     (then_op (delete_rows t_views_update (\<lambda>v. vw_table v = table_id))
     (then_op (delete_rows t_filters_update (\<lambda>f. flt_table f = table_id))
     (then_op (delete_rows t_sorts_update (\<lambda>x. srt_table x = table_id))
     (then_op (delete_rows t_groups_update (\<lambda>g. grp_table g = table_id))
     (then_op (delete_rows t_policies_update (\<lambda>p. pol_table p = table_id))
     (bind_op (reads (\<lambda>t. map cs_id (select t_sets (\<lambda>c. cs_table c = Some table_id) t))) (\<lambda>owned.
      then_op (if owned = [] then ret () else delete_rows t_changes_update (\<lambda>c. ci_set c \<in> set owned))
     (then_op (delete_rows t_changes_update (\<lambda>c. ci_table c = table_id))
     (then_op (delete_rows t_recycle_update (\<lambda>r. rb_table r = table_id))
     (then_op (delete_rows t_sets_update (\<lambda>c. cs_table c = Some table_id))
      commit)))))))))))"

definition insert_all ::
  "(tables \<Rightarrow> 'r list) \<Rightarrow> (('r list \<Rightarrow> 'r list) \<Rightarrow> tables \<Rightarrow> tables) \<Rightarrow> ('r \<Rightarrow> 'k) \<Rightarrow> 'r list \<Rightarrow> unit op" where
  "insert_all get upd key rs = bind_op (map_op (insert_row get upd key) rs) (\<lambda>_. ret ())"

definition copy_table_db :: "string \<Rightarrow> string \<Rightarrow> unit op" where
  "copy_table_db source_table_id target_table_id =
     bind_op (reads (\<lambda>t. t)) (\<lambda>t.
     then_op (insert_all t_fields t_fields_update fld_key
       (map (\<lambda>f. f\<lparr>fld_table := target_table_id\<rparr>) (ordered_fields t source_table_id)))
     (then_op (insert_all t_records t_records_update rec_key
       (map (\<lambda>r. r\<lparr>rec_table := target_table_id, rec_version := 1\<rparr>) (ordered_records t source_table_id)))
     (then_op (insert_all t_views t_views_update vw_key
       (map (\<lambda>v. v\<lparr>vw_table := target_table_id\<rparr>) (select t_views (\<lambda>v. vw_table v = source_table_id) t)))
     (then_op (insert_all t_filters t_filters_update flt_key
       (map (\<lambda>f. f\<lparr>flt_table := target_table_id\<rparr>)
         (sort_key flt_order (select t_filters (\<lambda>f. flt_table f = source_table_id) t))))
     (then_op (insert_all t_sorts t_sorts_update srt_key
       (map (\<lambda>x. x\<lparr>srt_table := target_table_id\<rparr>)
         (sort_key srt_order (select t_sorts (\<lambda>x. srt_table x = source_table_id) t))))
     (then_op (case select_first t_groups (\<lambda>g. grp_table g = source_table_id) t of
         None \<Rightarrow> ret ()
       | Some g \<Rightarrow> insert_row t_groups t_groups_update grp_key
           (g\<lparr>grp_id := ''grp_'' @ target_table_id, grp_table := target_table_id\<rparr>))
     (then_op (case select_first t_policies (\<lambda>p. pol_table p = source_table_id) t of
         None \<Rightarrow> ret ()
       | Some p \<Rightarrow> insert_row t_policies t_policies_update pol_table (p\<lparr>pol_table := target_table_id\<rparr>))
      commit)))))))"

subsection \<open>Loading a table\<close>

definition field_dict :: "table_field \<Rightarrow> dict" where
  "field_dict f =
     [(''id'', PStr (fld_id f)), (''name'', PStr (fld_name f)), (''type'', PStr (fld_type f)),
      (''options'', fld_options f), (''property'', fld_property f)]"

definition record_dict :: "table_record \<Rightarrow> dict" where
  "record_dict r = dset ''id'' (PStr (rec_id r)) (rec_data r)"

definition view_dict :: "table_view \<Rightarrow> dict" where
  "view_dict v =
     [(''id'', PStr (vw_id v)), (''name'', PStr (vw_name v)), (''type'', PStr (vw_type v)), (''config'', vw_config v)]"

definition filter_dict :: "table_filter \<Rightarrow> dict" where
  "filter_dict f =
     [(''id'', PStr (flt_id f)), (''fieldId'', PStr (flt_field f)), (''operator'', PStr (flt_operator f)),
      (''value'', flt_value f), (''logic'', PStr (flt_logic f))]"

definition sort_dict :: "table_sort \<Rightarrow> dict" where
  "sort_dict x = [(''fieldId'', PStr (srt_field x)), (''order'', PStr (srt_dir x))]"

text \<open>\<open>f.property and f.property.get("hidden", False)\<close>; a property is a dictionary or null.\<close>

definition field_hidden :: "table_field \<Rightarrow> bool" where
  "field_hidden f = (case fld_property f of
       PDict d \<Rightarrow> d \<noteq> [] \<and> py_truth (dget_default d ''hidden'' (PBool False)) | _ \<Rightarrow> False)"

definition group_dict :: "table_group option \<Rightarrow> dict" where
  "group_dict g = (case g of
       None \<Rightarrow> [(''fieldId'', PNone), (''order'', PStr ''asc'')]
     | Some x \<Rightarrow> [(''fieldId'', (case grp_field x of None \<Rightarrow> PNone | Some i \<Rightarrow> PStr i)), (''order'', PStr (grp_dir x))])"

definition get_full_store :: "tables \<Rightarrow> string option \<Rightarrow> store" where
  "get_full_store t table_id =
     (let tbl = normalize_table_id table_id; flds = ordered_fields t tbl in
      \<lparr>so_fields = map field_dict flds, so_records = map record_dict (ordered_records t tbl),
       so_rest =
         [(''views'', PList (map (\<lambda>v. PDict (view_dict v)) (select t_views (\<lambda>v. vw_table v = tbl) t))),
          (''hiddenFieldIds'', PList (map (\<lambda>f. PStr (fld_id f)) (filter field_hidden flds))),
          (''filters'', PList (map (\<lambda>f. PDict (filter_dict f))
             (sort_key flt_order (select t_filters (\<lambda>f. flt_table f = tbl) t)))),
          (''sorts'', PList (map (\<lambda>x. PDict (sort_dict x))
             (sort_key srt_order (select t_sorts (\<lambda>x. srt_table x = tbl) t)))),
          (''groupConfig'', PDict (group_dict (select_first t_groups (\<lambda>g. grp_table g = tbl) t)))]\<rparr>)"

section \<open>Initialisation is idempotent and conservative\<close>

lemma map_op_inserts:
  assumes "map_op (\<lambda>x. insert_row get upd key (g x)) xs s = (Inr ys, s')"
    and "\<And>f h t. upd f (upd h t) = upd (\<lambda>x. f (h x)) t" "\<And>t. upd (\<lambda>x. x) t = t"
  shows "s' = s\<lparr>work := upd (\<lambda>rs. rs @ map g xs) (work s)\<rparr>"
  using assms(1)
proof (induction xs arbitrary: s ys)
  case Nil
  then show ?case by (simp add: basic_eval assms(3))
next
  case (Cons x xs)
  then obtain zs where "map_op (\<lambda>x. insert_row get upd key (g x)) xs (s\<lparr>work := upd (\<lambda>rs. rs @ [g x]) (work s)\<rparr>) = (Inr zs, s')"
    by (auto simp: bind_op_Inr insert_row_Inr basic_eval)
  from Cons.IH[OF this] show ?case by (simp add: assms(2))
qed

lemma insert_all_run:
  assumes "insert_all get upd key rs s = (Inr x, s')"
    and "\<And>f h t. upd f (upd h t) = upd (\<lambda>x. f (h x)) t" "\<And>t. upd (\<lambda>x. x) t = t"
  shows "s' = s\<lparr>work := upd (\<lambda>xs. xs @ rs) (work s)\<rparr>"
proof -
  from assms(1) obtain ys where "map_op (\<lambda>x. insert_row get upd key ((\<lambda>y. y) x)) rs s = (Inr ys, s')"
    by (auto simp: insert_all_def bind_op_Inr basic_eval)
  from map_op_inserts[OF this assms(2,3)] show ?thesis by simp
qed

lemma init_fields_run:
  assumes "map_op (init_field T) xs s = (Inr ys, s')"
  obtains rows where "s' = s\<lparr>work := (work s)\<lparr>t_fields := t_fields (work s) @ rows\<rparr>\<rparr>" "length rows = length xs"
    "\<forall>f\<in>set rows. fld_table f = T"
proof -
  define g where "g = (\<lambda>(idx, d). \<lparr>fld_id = template_field_id idx d, fld_table = T,
        fld_name = str_get d ''name'' default_field_name, fld_type = str_get d ''type'' ''text'',
        fld_options = dget d ''options'', fld_property = dget d ''property'', fld_order = int idx\<rparr>)"
  have "init_field T = (\<lambda>x. insert_row t_fields t_fields_update fld_key (g x))"
    by (auto simp: init_field_def g_def)
  with assms map_op_inserts[of t_fields t_fields_update fld_key g xs s ys s']
  have "s' = s\<lparr>work := t_fields_update (\<lambda>rs. rs @ map g xs) (work s)\<rparr>" by simp
  then show ?thesis by (intro that[of "map g xs"]) (auto simp: g_def)
qed

lemma init_views_run:
  assumes "map_op (init_view T) xs s = (Inr ys, s')"
  obtains rows where "s' = s\<lparr>work := (work s)\<lparr>t_views := t_views (work s) @ rows\<rparr>\<rparr>" "length rows = length xs"
    "\<forall>v\<in>set rows. vw_table v = T"
proof -
  define g where "g = (\<lambda>d. \<lparr>vw_id = str_get d ''id'' ''v1'', vw_table = T, vw_name = str_get d ''name'' default_view_name,
        vw_type = str_get d ''type'' ''grid'', vw_config = dget d ''config''\<rparr>)"
  have "init_view T = (\<lambda>x. insert_row t_views t_views_update vw_key (g x))"
    by (auto simp: init_view_def g_def)
  with assms map_op_inserts[of t_views t_views_update vw_key g xs s ys s']
  have "s' = s\<lparr>work := t_views_update (\<lambda>rs. rs @ map g xs) (work s)\<rparr>" by simp
  then show ?thesis by (intro that[of "map g xs"]) (auto simp: g_def)
qed

text \<open>The content step keeps the fields and the views.\<close>

lemma init_content_schema:
  "inv_ok (\<lambda>t. t_fields t = F \<and> t_views t = V) (init_content T st)"
  unfolding init_content_def init_record_def init_filter_def init_sort_def new_record_id_def millis_def
  by (auto intro!: inv_intro split: prod.splits pyval.splits)

lemma select_Nil: "select g P t = [] \<longleftrightarrow> (\<forall>r\<in>set (g t). \<not> P r)"
  by (auto simp: select_def filter_empty_conv)

lemma init_table_db_run:
  assumes "init_table_db T st s = (Inr b, s')"
  shows "(if select t_fields (\<lambda>f. fld_table f = T) (work s) = []
      then \<exists>rows. t_fields (work s') = t_fields (work s) @ rows \<and> rows \<noteq> [] \<and> (\<forall>f\<in>set rows. fld_table f = T)
      else t_fields (work s') = t_fields (work s))
    \<and> (if select t_views (\<lambda>v. vw_table v = T) (work s) = []
      then \<exists>rows. t_views (work s') = t_views (work s) @ rows \<and> rows \<noteq> [] \<and> (\<forall>v\<in>set rows. vw_table v = T)
      else t_views (work s') = t_views (work s))"
proof -
  let ?nf = "select t_fields (\<lambda>f. fld_table f = T) (work s) = []"
  let ?nv = "select t_views (\<lambda>v. vw_table v = T) (work s) = []"
  define tf where "tf = (if tp_fields st = [] then fallback_core_fields else tp_fields st)"
  define tv where "tv = (if tp_views st = [] then fallback_core_views else tp_views st)"
  have ne: "tf \<noteq> []" "tv \<noteq> []" by (auto simp: tf_def tv_def fallback_core_fields_def fallback_core_views_def)
  from assms obtain s1 s2 s3 a u1 u2 where
    f: "(if ?nf then then_op (map_op (init_field T) (enumerate 0 tf))
                 (update_rows t_records_update (\<lambda>r. rec_table r = T) (\<lambda>r. r\<lparr>rec_data := backfill tf (rec_data r)\<rparr>))
               else ret ()) s = (Inr u1, s1)"
    and v: "(if ?nv then bind_op (map_op (init_view T) tv) (\<lambda>_. ret ()) else ret ()) s1 = (Inr u2, s2)"
    and c: "(if is_fresh_table (work s) T then init_content T st else ret False) s2 = (Inr a, s3)"
    and w: "work s' = work s3"
    unfolding init_table_db_def tf_def[symmetric] tv_def[symmetric] Let_def
    by (auto simp: bind_op_Inr basic_eval then_op_def split: if_splits)
  have f': "if ?nf then \<exists>rows. t_fields (work s1) = t_fields (work s) @ rows \<and> rows \<noteq> [] \<and> (\<forall>f\<in>set rows. fld_table f = T)
      else t_fields (work s1) = t_fields (work s)" "t_views (work s1) = t_views (work s)"
  proof -
    have "(if ?nf then \<exists>rows. t_fields (work s1) = t_fields (work s) @ rows \<and> rows \<noteq> [] \<and> (\<forall>f\<in>set rows. fld_table f = T)
      else t_fields (work s1) = t_fields (work s)) \<and> t_views (work s1) = t_views (work s)"
    proof (cases ?nf)
      case True
      with f obtain s0 ys where m: "map_op (init_field T) (enumerate 0 tf) s = (Inr ys, s0)"
        and u: "work s1 = t_records_update (map (\<lambda>r. if rec_table r = T then r\<lparr>rec_data := backfill tf (rec_data r)\<rparr> else r)) (work s0)"
        by (auto simp: bind_op_Inr then_op_def update_rows_eval)
      from init_fields_run[OF m] obtain rows where
        r: "s0 = s\<lparr>work := (work s)\<lparr>t_fields := t_fields (work s) @ rows\<rparr>\<rparr>" "length rows = length (enumerate 0 tf)"
          "\<forall>f\<in>set rows. fld_table f = T" .
      from r(2) ne have "rows \<noteq> []" by auto
      with True u r show ?thesis by auto
    qed (use f in \<open>auto simp: basic_eval\<close>)
    then show "if ?nf then \<exists>rows. t_fields (work s1) = t_fields (work s) @ rows \<and> rows \<noteq> [] \<and> (\<forall>f\<in>set rows. fld_table f = T)
      else t_fields (work s1) = t_fields (work s)" "t_views (work s1) = t_views (work s)" by blast+
  qed
  have v': "(if ?nv then \<exists>rows. t_views (work s2) = t_views (work s1) @ rows \<and> rows \<noteq> [] \<and> (\<forall>v\<in>set rows. vw_table v = T)
      else t_views (work s2) = t_views (work s1)) \<and> t_fields (work s2) = t_fields (work s1)"
  proof (cases ?nv)
    case True
    with v obtain ys where m: "map_op (init_view T) tv s1 = (Inr ys, s2)" by (auto simp: bind_op_Inr basic_eval)
    from init_views_run[OF m] obtain rows where
      r: "s2 = s1\<lparr>work := (work s1)\<lparr>t_views := t_views (work s1) @ rows\<rparr>\<rparr>" "length rows = length tv" "\<forall>v\<in>set rows. vw_table v = T" .
    from r(2) ne have "rows \<noteq> []" by auto
    with True r show ?thesis by auto
  qed (use v in \<open>auto simp: basic_eval\<close>)
  have "t_fields (work s3) = t_fields (work s2) \<and> t_views (work s3) = t_views (work s2)"
  proof (cases "is_fresh_table (work s) T")
    case True
    with c inv_okD[OF init_content_schema[of "t_fields (work s2)" "t_views (work s2)"]] show ?thesis by auto
  qed (use c in \<open>auto simp: basic_eval\<close>)
  with f' v' w show ?thesis by auto
qed

text \<open>initialising a table is idempotent and conservative: after it returns, the table has fields and views, the fields and views it had are untouched, and running it again with any template finds nothing to do, whatever state the first run met (fresh, half initialised or complete).\<close>

theorem init_idempotent:
  assumes "init_table_db T st s = (Inr b, s')"
  shows "table_has_data (work s') T \<and> init_table_db T st' s' = (Inr False, s')
    \<and> (\<exists>rows. t_fields (work s') = t_fields (work s) @ rows) \<and> (\<exists>rows. t_views (work s') = t_views (work s) @ rows)"
proof -
  note r = init_table_db_run[OF assms]
  have f: "select t_fields (\<lambda>f. fld_table f = T) (work s') \<noteq> []"
  proof (cases "select t_fields (\<lambda>f. fld_table f = T) (work s) = []")
    case True
    with r obtain rows where "t_fields (work s') = t_fields (work s) @ rows" "rows \<noteq> []" "\<forall>f\<in>set rows. fld_table f = T" by auto
    then show ?thesis by (cases rows) (auto simp: select_def)
  qed (use r in \<open>simp add: select_def\<close>)
  have v: "select t_views (\<lambda>v. vw_table v = T) (work s') \<noteq> []"
  proof (cases "select t_views (\<lambda>v. vw_table v = T) (work s) = []")
    case True
    with r obtain rows where "t_views (work s') = t_views (work s) @ rows" "rows \<noteq> []" "\<forall>v\<in>set rows. vw_table v = T" by auto
    then show ?thesis by (cases rows) (auto simp: select_def)
  qed (use r in \<open>simp add: select_def\<close>)
  have "\<not> is_fresh_table (work s') T" using f by (simp add: is_fresh_table_def)
  with f v have "init_table_db T st' s' = (Inr False, s')" unfolding init_table_db_def Let_def by (simp add: op_eval)
  moreover have "table_has_data (work s') T"
    using f by (auto simp: table_has_data_def select_first_def select_def find_None_iff filter_empty_conv)
  ultimately show ?thesis using r by (auto split: if_splits)
qed

definition example_template :: template where
  "example_template = \<lparr>tp_fields = [], tp_views = [], tp_records = [PDict [(''f1'', PStr ''x'')], PNone],
     tp_filters = [[(''fieldId'', PStr ''f1''), (''operator'', PStr ''is'')]], tp_sorts = [], tp_group = []\<rparr>"

theorem init_idempotent_witness:
  "\<exists>s'. init_table_db ''t'' example_template (session_of empty_tables) = (Inr True, s')
     \<and> table_has_data (work s') ''t'' \<and> init_table_db ''t'' example_template s' = (Inr False, s')"
proof -
  have "fst (init_table_db ''t'' example_template (session_of empty_tables)) = Inr True" by code_simp
  then obtain s' where r: "init_table_db ''t'' example_template (session_of empty_tables) = (Inr True, s')"
    by (metis prod.collapse)
  from init_idempotent[OF r] r show ?thesis by blast
qed

section \<open>Deletion erases the table\<close>

definition log_closed :: "tables \<Rightarrow> bool" where
  "log_closed t \<longleftrightarrow> (\<forall>c\<in>set (t_changes t). \<exists>cs\<in>set (t_sets t). cs_id cs = ci_set c)"

definition mentions :: "tables \<Rightarrow> string \<Rightarrow> bool" where
  "mentions t T \<longleftrightarrow> (\<exists>f\<in>set (t_fields t). fld_table f = T) \<or> (\<exists>r\<in>set (t_records t). rec_table r = T)
     \<or> (\<exists>v\<in>set (t_views t). vw_table v = T) \<or> (\<exists>f\<in>set (t_filters t). flt_table f = T)
     \<or> (\<exists>x\<in>set (t_sorts t). srt_table x = T) \<or> (\<exists>g\<in>set (t_groups t). grp_table g = T)
     \<or> (\<exists>p\<in>set (t_policies t). pol_table p = T) \<or> (\<exists>c\<in>set (t_changes t). ci_table c = T)
     \<or> (\<exists>r\<in>set (t_recycle t). rb_table r = T) \<or> (\<exists>c\<in>set (t_sets t). cs_table c = Some T)"

definition deleted_tables :: "string \<Rightarrow> tables \<Rightarrow> tables" where
  "deleted_tables T t = t\<lparr>t_fields := filter (\<lambda>f. fld_table f \<noteq> T) (t_fields t),
     t_records := filter (\<lambda>r. rec_table r \<noteq> T) (t_records t), t_views := filter (\<lambda>v. vw_table v \<noteq> T) (t_views t),
     t_filters := filter (\<lambda>f. flt_table f \<noteq> T) (t_filters t), t_sorts := filter (\<lambda>x. srt_table x \<noteq> T) (t_sorts t),
     t_groups := filter (\<lambda>g. grp_table g \<noteq> T) (t_groups t), t_policies := filter (\<lambda>p. pol_table p \<noteq> T) (t_policies t),
     t_changes := filter (\<lambda>c. ci_table c \<noteq> T \<and> (\<forall>cs\<in>set (t_sets t). cs_table cs = Some T \<longrightarrow> cs_id cs \<noteq> ci_set c)) (t_changes t),
     t_recycle := filter (\<lambda>r. rb_table r \<noteq> T) (t_recycle t), t_sets := filter (\<lambda>c. cs_table c \<noteq> Some T) (t_sets t)\<rparr>"

lemma filter_owned:
  "filter (\<lambda>c. ci_table c \<noteq> T) (if map cs_id (filter (\<lambda>c. cs_table c = Some T) S) = [] then C
     else filter (\<lambda>c. ci_set c \<notin> set (map cs_id (filter (\<lambda>c. cs_table c = Some T) S))) C)
   = filter (\<lambda>c. ci_table c \<noteq> T \<and> (\<forall>cs\<in>set S. cs_table cs = Some T \<longrightarrow> cs_id cs \<noteq> ci_set c)) C"
  by (auto simp: filter_empty_conv image_iff intro!: filter_cong)

lemma delete_table_data_run:
  "delete_table_data_db T s = (Inr (), s\<lparr>work := deleted_tables T (work s), committed := deleted_tables T (work s)\<rparr>)"
  unfolding delete_table_data_db_def
  by (cases "map cs_id (filter (\<lambda>c. cs_table c = Some T) (t_sets (work s))) = []")
     (use filter_owned[of T "t_sets (work s)" "t_changes (work s)"] in
      \<open>simp_all add: op_eval select_def deleted_tables_def\<close>)

lemma load_deleted:
  assumes n: "normalize_table_id U \<noteq> T"
  shows "get_full_store (deleted_tables T t) U = get_full_store t U"
proof -
  have e: "(y \<noteq> T \<and> y = normalize_table_id U) = (y = normalize_table_id U)" for y using n by auto
  have "find (\<lambda>g. grp_table g = normalize_table_id U) (filter (\<lambda>g. grp_table g \<noteq> T) gs)
      = find (\<lambda>g. grp_table g = normalize_table_id U) gs" for gs :: "table_group list"
    using n by (induction gs) auto
  then show ?thesis
    by (simp add: deleted_tables_def get_full_store_def ordered_fields_def ordered_records_def
        select_def select_first_def e Let_def)
qed

text \<open>deleting a table's data always succeeds and is durable; afterwards nothing in the store, the row policies, the recycle bin or the change log mentions the table; every change item still in the log has its change set; and every other table loads exactly as before.\<close>

theorem delete_table_erases:
  assumes "delete_table_data_db T s = (r, s')"
  shows "r = Inr () \<and> committed s' = work s' \<and> \<not> mentions (work s') T
    \<and> (log_closed (work s) \<longrightarrow> log_closed (work s'))
    \<and> (\<forall>U. normalize_table_id U \<noteq> T \<longrightarrow> get_full_store (work s') U = get_full_store (work s) U)"
proof -
  from assms have s': "r = Inr ()" "work s' = deleted_tables T (work s)" "committed s' = work s'"
    by (auto simp: delete_table_data_run)
  have "get_full_store (work s') U = get_full_store (work s) U" if "normalize_table_id U \<noteq> T" for U
    using load_deleted[OF that] by (simp add: s'(2))
  moreover have "\<not> mentions (work s') T" by (auto simp: s'(2) deleted_tables_def mentions_def)
  moreover have "log_closed (work s) \<longrightarrow> log_closed (work s')"
    by (auto simp: s'(2) deleted_tables_def log_closed_def)
  ultimately show ?thesis using s' by blast
qed

theorem delete_table_erases_witness:
  "\<exists>s'. delete_table_data_db ''t2'' (session_of example_link_tables) = (Inr (), s') \<and> \<not> mentions (work s') ''t2''
     \<and> mentions example_link_tables ''t2''"
proof -
  obtain r s' where r: "delete_table_data_db ''t2'' (session_of example_link_tables) = (r, s')" by fastforce
  from delete_table_erases[OF r] r show ?thesis by (auto simp: mentions_def example_link_tables_def)
qed

section \<open>Copies\<close>

definition has_no_rows :: "tables \<Rightarrow> string \<Rightarrow> bool" where
  "has_no_rows t T \<longleftrightarrow> is_fresh_table t T \<and> select_first t_policies (\<lambda>p. pol_table p = T) t = None"

lemma copy_table_run:
  assumes "copy_table_db a b s = (Inr x, s')"
  shows "committed s' = work s' \<and> work s' = (let t = work s in t\<lparr>
     t_fields := t_fields t @ map (\<lambda>f. f\<lparr>fld_table := b\<rparr>) (ordered_fields t a),
     t_records := t_records t @ map (\<lambda>r. r\<lparr>rec_table := b, rec_version := 1\<rparr>) (ordered_records t a),
     t_views := t_views t @ map (\<lambda>v. v\<lparr>vw_table := b\<rparr>) (select t_views (\<lambda>v. vw_table v = a) t),
     t_filters := t_filters t @ map (\<lambda>f. f\<lparr>flt_table := b\<rparr>) (sort_key flt_order (select t_filters (\<lambda>f. flt_table f = a) t)),
     t_sorts := t_sorts t @ map (\<lambda>x. x\<lparr>srt_table := b\<rparr>) (sort_key srt_order (select t_sorts (\<lambda>x. srt_table x = a) t)),
     t_groups := t_groups t @ (case select_first t_groups (\<lambda>g. grp_table g = a) t of
         None \<Rightarrow> [] | Some g \<Rightarrow> [g\<lparr>grp_id := ''grp_'' @ b, grp_table := b\<rparr>]),
     t_policies := t_policies t @ (case select_first t_policies (\<lambda>p. pol_table p = a) t of
         None \<Rightarrow> [] | Some p \<Rightarrow> [p\<lparr>pol_table := b\<rparr>])\<rparr>)"
proof -
  let ?t = "work s"
  from assms obtain s1 s2 s3 s4 s5 s6 s7 u1 u2 u3 u4 u5 u6 u7 where
    r: "insert_all t_fields t_fields_update fld_key (map (\<lambda>f. f\<lparr>fld_table := b\<rparr>) (ordered_fields ?t a)) s = (Inr u1, s1)"
      "insert_all t_records t_records_update rec_key (map (\<lambda>r. r\<lparr>rec_table := b, rec_version := 1\<rparr>) (ordered_records ?t a)) s1 = (Inr u2, s2)"
      "insert_all t_views t_views_update vw_key (map (\<lambda>v. v\<lparr>vw_table := b\<rparr>) (select t_views (\<lambda>v. vw_table v = a) ?t)) s2 = (Inr u3, s3)"
      "insert_all t_filters t_filters_update flt_key (map (\<lambda>f. f\<lparr>flt_table := b\<rparr>) (sort_key flt_order (select t_filters (\<lambda>f. flt_table f = a) ?t))) s3 = (Inr u4, s4)"
      "insert_all t_sorts t_sorts_update srt_key (map (\<lambda>x. x\<lparr>srt_table := b\<rparr>) (sort_key srt_order (select t_sorts (\<lambda>x. srt_table x = a) ?t))) s4 = (Inr u5, s5)"
    and g: "(case select_first t_groups (\<lambda>g. grp_table g = a) ?t of None \<Rightarrow> ret ()
       | Some g \<Rightarrow> insert_row t_groups t_groups_update grp_key (g\<lparr>grp_id := ''grp_'' @ b, grp_table := b\<rparr>)) s5 = (Inr u6, s6)"
    and p: "(case select_first t_policies (\<lambda>p. pol_table p = a) ?t of None \<Rightarrow> ret ()
       | Some p \<Rightarrow> insert_row t_policies t_policies_update pol_table (p\<lparr>pol_table := b\<rparr>)) s6 = (Inr u7, s7)"
    and s': "s' = s7\<lparr>committed := work s7\<rparr>"
    unfolding copy_table_db_def by (auto simp: bind_op_Inr then_op_def basic_eval)
  note i = insert_all_run[OF r(1)] insert_all_run[OF r(2)] insert_all_run[OF r(3)] insert_all_run[OF r(4)] insert_all_run[OF r(5)]
  have g': "s6 = s5\<lparr>work := t_groups_update (\<lambda>gs. gs @ (case select_first t_groups (\<lambda>g. grp_table g = a) ?t of
         None \<Rightarrow> [] | Some g \<Rightarrow> [g\<lparr>grp_id := ''grp_'' @ b, grp_table := b\<rparr>])) (work s5)\<rparr>"
    using g by (auto simp: basic_eval insert_row_Inr split: option.splits)
  have p': "s7 = s6\<lparr>work := t_policies_update (\<lambda>ps. ps @ (case select_first t_policies (\<lambda>p. pol_table p = a) ?t of
         None \<Rightarrow> [] | Some p \<Rightarrow> [p\<lparr>pol_table := b\<rparr>])) (work s6)\<rparr>"
    using p by (auto simp: basic_eval insert_row_Inr split: option.splits)
  define gnew where "gnew = (case select_first t_groups (\<lambda>g. grp_table g = a) ?t of
         None \<Rightarrow> [] | Some g \<Rightarrow> [g\<lparr>grp_id := ''grp_'' @ b, grp_table := b\<rparr>])"
  define pnew where "pnew = (case select_first t_policies (\<lambda>p. pol_table p = a) ?t of
         None \<Rightarrow> [] | Some p \<Rightarrow> [p\<lparr>pol_table := b\<rparr>])"
  have w: "work s7 = t_policies_update (\<lambda>ps. ps @ pnew) (work s6)" "work s6 = t_groups_update (\<lambda>gs. gs @ gnew) (work s5)"
    using arg_cong[OF p', of work] arg_cong[OF g', of work] by (simp_all add: pnew_def gnew_def)
  have i1: "work s1 = t_fields_update (\<lambda>xs. xs @ map (\<lambda>f. f\<lparr>fld_table := b\<rparr>) (ordered_fields ?t a)) ?t" using arg_cong[OF i(1), of work] by simp
  have i2: "work s2 = t_records_update (\<lambda>xs. xs @ map (\<lambda>r. r\<lparr>rec_table := b, rec_version := 1\<rparr>) (ordered_records ?t a)) (work s1)" using arg_cong[OF i(2), of work] by simp
  have i3: "work s3 = t_views_update (\<lambda>xs. xs @ map (\<lambda>v. v\<lparr>vw_table := b\<rparr>) (select t_views (\<lambda>v. vw_table v = a) ?t)) (work s2)" using arg_cong[OF i(3), of work] by simp
  have i4: "work s4 = t_filters_update (\<lambda>xs. xs @ map (\<lambda>f. f\<lparr>flt_table := b\<rparr>) (sort_key flt_order (select t_filters (\<lambda>f. flt_table f = a) ?t))) (work s3)" using arg_cong[OF i(4), of work] by simp
  have i5: "work s5 = t_sorts_update (\<lambda>xs. xs @ map (\<lambda>x. x\<lparr>srt_table := b\<rparr>) (sort_key srt_order (select t_sorts (\<lambda>x. srt_table x = a) ?t))) (work s4)" using arg_cong[OF i(5), of work] by simp
  have "committed s' = work s'" by (simp add: s')
  moreover have "work s' = work s7" by (simp add: s')
  ultimately show ?thesis unfolding w i1 i2 i3 i4 i5 Let_def gnew_def[symmetric] pnew_def[symmetric] by simp
qed

lemma filter_copy:
  assumes "filter (\<lambda>x. tb x = b) xs = []" "\<And>x. tb (g x) = b"
  shows "filter (\<lambda>x. tb x = b) (xs @ map g ys) = map g ys"
proof -
  have "filter (\<lambda>x. tb x = b) (map g zs) = map g zs" for zs using assms(2) by (induction zs) auto
  with assms(1) show ?thesis by simp
qed

lemma sort_key_copy:
  "(\<And>x. ord (g x) = ord x) \<Longrightarrow> sort_key ord (map g (sort_key ord ys)) = map g (sort_key ord ys)"
  by (simp add: sort_key_sorted comp_def)

text \<open>C36: a copy of a table into one that has nothing yet loads exactly like the source (fields, records in order, views, filters, sorts, grouping, hidden fields), has the source's row policy, and leaves the source as it was.\<close>

theorem copy_table_roundtrip:
  assumes "copy_table_db a b s = (Inr x, s')" "has_no_rows (work s) b" "a \<noteq> b" "a \<noteq> []" "b \<noteq> []"
  shows "get_full_store (work s') (Some b) = get_full_store (work s) (Some a)
    \<and> get_full_store (work s') (Some a) = get_full_store (work s) (Some a)
    \<and> get_row_permission_policy (work s') b = get_row_permission_policy (work s) a
    \<and> committed s' = work s'"
proof -
  note r = copy_table_run[OF assms(1)]
  let ?t = "work s"
  have n: "normalize_table_id (Some a) = a" "normalize_table_id (Some b) = b"
    using assms(4,5) by (simp_all add: normalize_table_id_def)
  from assms(2) have e: "filter (\<lambda>f. fld_table f = b) (t_fields ?t) = []" "filter (\<lambda>r. rec_table r = b) (t_records ?t) = []"
    "filter (\<lambda>v. vw_table v = b) (t_views ?t) = []" "filter (\<lambda>f. flt_table f = b) (t_filters ?t) = []"
    "filter (\<lambda>x. srt_table x = b) (t_sorts ?t) = []" "find (\<lambda>g. grp_table g = b) (t_groups ?t) = None"
    "find (\<lambda>p. pol_table p = b) (t_policies ?t) = None"
    by (auto simp: has_no_rows_def is_fresh_table_def select_def select_first_def find_None_iff filter_empty_conv)
  have ne: "filter (\<lambda>x. tb x = a) (map g xs) = []" if "\<And>x. tb (g x) = b" for tb :: "'z \<Rightarrow> string" and g xs
    using that assms(3) by (induction xs) auto
  have ba: "(b = a) = False" using assms(3) by simp
  have fh: "field_hidden (f\<lparr>fld_table := b\<rparr>) = field_hidden f" for f :: table_field by (simp add: field_hidden_def)
  have B: "get_full_store (work s') (Some b) = get_full_store ?t (Some a)"
    unfolding get_full_store_def n Let_def
    by (simp add: r Let_def ordered_fields_def ordered_records_def select_def select_first_def
        filter_copy sort_key_copy e find_append comp_def field_dict_def record_dict_def view_dict_def filter_dict_def sort_dict_def
        fh group_dict_def filter_map split: option.splits)
  have A: "get_full_store (work s') (Some a) = get_full_store ?t (Some a)"
    unfolding get_full_store_def n Let_def
    by (simp add: r Let_def ordered_fields_def ordered_records_def select_def select_first_def
        ne ba find_append split: option.splits)
  have P: "get_row_permission_policy (work s') b = get_row_permission_policy ?t a"
    by (auto simp: r Let_def get_row_permission_policy_def select_first_def find_append e policy_dict_def split: option.splits)
  from A B P r show ?thesis by (simp add: Let_def)
qed

theorem copy_table_roundtrip_witness:
  "\<exists>s'. copy_table_db ''t2'' ''t3'' (session_of example_link_tables) = (Inr (), s')
     \<and> so_records (get_full_store (work s') (Some ''t3'')) = [[(''id'', PStr ''r1'')], [(''id'', PStr ''r2'')]]
     \<and> pv_mode (get_row_permission_policy (work s') ''t3'') = ''creator''"
proof -
  have "fst (copy_table_db ''t2'' ''t3'' (session_of example_link_tables)) = Inr ()" by code_simp
  then obtain s' where r: "copy_table_db ''t2'' ''t3'' (session_of example_link_tables) = (Inr (), s')"
    by (metis prod.collapse)
  have n: "has_no_rows (work (session_of example_link_tables)) ''t3''"
    by (simp add: has_no_rows_def is_fresh_table_def select_def select_first_def example_link_tables_def empty_tables_def)
  have "so_records (get_full_store example_link_tables (Some ''t2'')) = [[(''id'', PStr ''r1'')], [(''id'', PStr ''r2'')]]"
    "pv_mode (get_row_permission_policy example_link_tables ''t2'') = ''creator''" by code_simp+
  with copy_table_roundtrip[OF r n] r show ?thesis by simp
qed

section \<open>Rules\<close>

lemma init_table_db_keeps [keeps_intro]: "keeps keys_ok (init_table_db T st)"
  unfolding init_table_db_def init_content_def init_record_def init_filter_def init_sort_def new_record_id_def millis_def
    init_field_def init_view_def Let_def
  by (auto intro!: keeps_intro split: prod.splits pyval.splits simp: rec_key_def)

lemma insert_all_rules [no_commit_intro]: "no_commit (insert_all get upd key rs)"
  unfolding insert_all_def by (auto intro!: no_commit_intro)

lemma table_life_keeps [keeps_intro]:
  "keeps keys_ok (get_record_creation_fields T st)" "keeps keys_ok (delete_table_data_db T)" "keeps keys_ok (copy_table_db a b)"
  unfolding get_record_creation_fields_def delete_table_data_db_def copy_table_db_def insert_all_def
  by (auto intro!: keeps_intro split: option.splits)

lemma copy_table_atomic: "atomic_op (copy_table_db a b)"
  unfolding copy_table_db_def
  by (auto intro!: atomic_intro no_commit_intro split: option.splits)

end
