(* ===== verification/RecordStore.thy ===== *)
theory RecordStore
  imports TableInit
begin

text \<open>
  The records of a table in \<open>smart_table_store/db_backend.py\<close>: creation (one, many, with
  data), update of one field or several, a batch of patches, deletion into the recycle bin.
  Each operation changes the records and appends one change set in the same transaction.
  \<open>aty src tr\<close> are the keyword arguments \<open>actor_type\<close>, \<open>source\<close>, \<open>trace_id\<close>; \<open>blank\<close>
  is the template \<open>blank\<close> that repairs a table without fields.
\<close>

declare split_paired_All [simp del] split_paired_Ex [simp del]

section \<open>Definitions\<close>

definition record_req ::
  "string \<Rightarrow> int option \<Rightarrow> string \<Rightarrow> string \<Rightarrow> string \<Rightarrow> string option \<Rightarrow> string \<Rightarrow> change_req" where
  "record_req tbl user opr aty src tr summary =
     \<lparr>rq_table = Some tbl, rq_actor = user, rq_operation = opr, rq_actor_type = aty,
      rq_source = Some src, rq_trace = tr, rq_summary = summary, rq_status = ''applied'',
      rq_parent = None, rq_id = None\<rparr>"

definition created_in :: "table_record \<Rightarrow> change_in" where
  "created_in r =
     \<lparr>in_table = rec_table r, in_etype = ''record'', in_entity = rec_id r,
      in_before = None, in_after = Some (rec_data r), in_bmeta = None, in_ameta = Some (record_meta r),
      in_vbefore = None, in_vafter = Some 1, in_changed = Some (changed_fields None (Some (rec_data r)))\<rparr>"

definition updated_in :: "table_record \<Rightarrow> table_record \<Rightarrow> string list \<Rightarrow> change_in" where
  "updated_in r r' changed =
     \<lparr>in_table = rec_table r, in_etype = ''record'', in_entity = rec_id r,
      in_before = Some (rec_data r), in_after = Some (rec_data r'),
      in_bmeta = Some (record_meta r), in_ameta = Some (record_meta r'),
      in_vbefore = Some (record_version r), in_vafter = Some (rec_version r'), in_changed = Some changed\<rparr>"

definition deleted_in :: "table_record \<Rightarrow> change_in" where
  "deleted_in r =
     \<lparr>in_table = rec_table r, in_etype = ''record'', in_entity = rec_id r,
      in_before = Some (rec_data r), in_after = None, in_bmeta = Some (record_meta r), in_ameta = None,
      in_vbefore = Some (record_version r), in_vafter = Some (record_version r + 1),
      in_changed = Some (changed_fields (Some (rec_data r)) None)\<rparr>"

subsection \<open>Creation\<close>

text \<open>\<open>func.max(order_index)\<close> of the table, or 0.\<close>

definition max_order :: "tables \<Rightarrow> string \<Rightarrow> int" where
  "max_order t tbl = (case map rec_order (select t_records (\<lambda>r. rec_table r = tbl) t) of
       [] \<Rightarrow> 0 | x # xs \<Rightarrow> fold max xs x)"

text \<open>
  One pass over the fields: the auto-number values by field, each \<open>field.property\<close> replaced
  by the property with the advanced counter.
\<close>

fun allocate_fields :: "table_field list \<Rightarrow> int \<Rightarrow> (string \<times> int list) list op" where
  "allocate_fields [] amount = ret []"
| "allocate_fields (f # flds) amount =
     (if \<not> is_auto_number_field [(''type'', PStr (fld_type f))] then allocate_fields flds amount
      else bind_op (of_res (allocate_auto_number_values (fld_property f) amount)) (\<lambda>(nums, next_property).
           then_op (update_rows t_fields_update (\<lambda>x. fld_key x = fld_key f) (\<lambda>x. x\<lparr>fld_property := PDict next_property\<rparr>))
           (bind_op (allocate_fields flds amount) (\<lambda>autos. ret ((fld_id f, nums) # autos)))))"

text \<open>
  The data of row \<open>i\<close>: the allocated number of an auto-number field, the given value of any
  other field. Field ids are unique in a table, so the first entry of \<open>autos\<close> is the last.
\<close>

definition row_data :: "table_field list \<Rightarrow> (string \<times> int list) list \<Rightarrow> nat \<Rightarrow> dict \<Rightarrow> dict" where
  "row_data flds autos i row = foldl (\<lambda>d f. dset (fld_id f)
       (case map_of autos (fld_id f) of Some nums \<Rightarrow> PInt (nums ! i) | None \<Rightarrow> dget row (fld_id f)) d) [] flds"

definition new_record ::
  "string \<Rightarrow> int option \<Rightarrow> int \<Rightarrow> table_field list \<Rightarrow> (string \<times> int list) list \<Rightarrow> nat \<Rightarrow> dict \<Rightarrow> string \<Rightarrow> table_record" where
  "new_record tbl creator mx flds autos i row rid =
     \<lparr>rec_id = rid, rec_table = tbl, rec_data = row_data flds autos i row,
      rec_order = mx + int i + 1, rec_creator = creator, rec_version = 1\<rparr>"

definition add_record ::
  "string \<Rightarrow> int option \<Rightarrow> int \<Rightarrow> table_field list \<Rightarrow> (string \<times> int list) list \<Rightarrow> nat \<times> dict \<Rightarrow> table_record op" where
  "add_record tbl creator mx flds autos = (\<lambda>(i, row).
     bind_op new_record_id (\<lambda>rid.
     let r = new_record tbl creator mx flds autos i row rid in
     then_op (insert_row t_records t_records_update rec_key r) (ret r)))"

definition create_record ::
  "string option \<Rightarrow> int option \<Rightarrow> string \<Rightarrow> string \<Rightarrow> string option \<Rightarrow> template \<Rightarrow> dict op" where
  "create_record table_id creator aty src tr blank =
     (let tbl = normalize_table_id table_id in
      bind_op (get_record_creation_fields tbl blank) (\<lambda>flds.
      bind_op new_record_id (\<lambda>rid.
      bind_op (allocate_fields flds 1) (\<lambda>autos.
      bind_op (reads (\<lambda>t. max_order t tbl)) (\<lambda>mx.
      let r = new_record tbl creator mx flds autos 0 [] rid in
      then_op (insert_row t_records t_records_update rec_key r)
      (bind_op (append_change_set (record_req tbl creator ''create'' aty src tr (''Create record '' @ rid)) [created_in r]) (\<lambda>_.
       then_op commit (ret (dset ''id'' (PStr rid) (rec_data r))))))))))"

definition create_records ::
  "string option \<Rightarrow> int \<Rightarrow> int option \<Rightarrow> string \<Rightarrow> string \<Rightarrow> string option \<Rightarrow> template \<Rightarrow> dict list op" where
  "create_records table_id count creator aty src tr blank =
     (let tbl = normalize_table_id table_id; amount = max 1 (min 999 count) in
      bind_op (get_record_creation_fields tbl blank) (\<lambda>flds.
      bind_op (allocate_fields flds amount) (\<lambda>autos.
      bind_op (reads (\<lambda>t. max_order t tbl)) (\<lambda>mx.
      bind_op (map_op (add_record tbl creator mx flds autos) (enumerate 0 (replicate (nat amount) []))) (\<lambda>rs.
      bind_op (append_change_set
        (record_req tbl creator ''create'' aty src tr (''Create '' @ dec_int amount @ '' records'')) (map created_in rs)) (\<lambda>_.
      then_op commit (ret (map (\<lambda>r. dset ''id'' (PStr (rec_id r)) (rec_data r)) rs))))))))"

definition create_records_with_data ::
  "string option \<Rightarrow> dict list \<Rightarrow> int option \<Rightarrow> string \<Rightarrow> string \<Rightarrow> string option \<Rightarrow> template \<Rightarrow> dict list op" where
  "create_records_with_data table_id records_data creator aty src tr blank =
     (let tbl = normalize_table_id table_id; amount = int (length records_data) in
      bind_op (get_record_creation_fields tbl blank) (\<lambda>flds.
      bind_op (reads (\<lambda>t. normalize_member_values_in_payloads t tbl records_data)) (\<lambda>normalized.
      bind_op (of_res normalized) (\<lambda>rows.
      bind_op (allocate_fields flds amount) (\<lambda>autos.
      bind_op (reads (\<lambda>t. max_order t tbl)) (\<lambda>mx.
      bind_op (map_op (add_record tbl creator mx flds autos) (enumerate 0 rows)) (\<lambda>rs.
      then_op (if rs = [] then ret ()
        else bind_op (append_change_set (record_req tbl creator ''create'' aty src tr
          (''Create '' @ dec_nat (length rs) @ '' records with data'')) (map created_in rs)) (\<lambda>_. ret ()))
      (then_op commit (ret (map (\<lambda>r. dupdate [(''id'', PStr (rec_id r))] (rec_data r)) rs))))))))))"

subsection \<open>Update\<close>

definition find_record :: "tables \<Rightarrow> string \<Rightarrow> string \<Rightarrow> table_record option" where
  "find_record t tbl record_id = select_first t_records (\<lambda>r. rec_table r = tbl \<and> rec_id r = record_id) t"

definition write_record :: "table_record \<Rightarrow> unit op" where
  "write_record r' = update_rows t_records_update (\<lambda>x. rec_key x = rec_key r') (\<lambda>_. r')"

definition with_data :: "table_record \<Rightarrow> dict \<Rightarrow> table_record" where
  "with_data r d = r\<lparr>rec_data := d, rec_version := record_version r + 1\<rparr>"

definition with_id :: "string \<Rightarrow> dict \<Rightarrow> dict" where
  "with_id i d = dset ''id'' (PStr i) d"

definition update_record ::
  "string option \<Rightarrow> string \<Rightarrow> string \<Rightarrow> pyval \<Rightarrow> int option \<Rightarrow> string \<Rightarrow> string \<Rightarrow> string option \<Rightarrow> dict option op" where
  "update_record table_id record_id field_id v user aty src tr =
     (let tbl = normalize_table_id table_id in
      bind_op (reads (\<lambda>t. find_record t tbl record_id)) (\<lambda>found.
      case found of
        None \<Rightarrow> ret None
      | Some r \<Rightarrow>
          bind_op (reads (\<lambda>t. normalize_member_value_for_field t tbl field_id v)) (\<lambda>normalized.
          bind_op (of_res normalized) (\<lambda>w.
          if py_eq (dget (rec_data r) field_id) w then ret (Some (with_id (rec_id r) (rec_data r)))
          else let r' = with_data r (dset field_id w (rec_data r)) in
            then_op (write_record r')
            (bind_op (append_change_set
              (record_req tbl user ''update'' aty src tr (''Update record '' @ record_id)) [updated_in r r' [field_id]]) (\<lambda>_.
             then_op commit (ret (Some (with_id (rec_id r) (rec_data r'))))))))))"

text \<open>\<open>for field_id, value in ...items(): if value is not None: new_data[field_id] = value\<close>.\<close>

definition merge_given :: "dict \<Rightarrow> dict \<Rightarrow> dict" where
  "merge_given d new = foldl (\<lambda>acc (k, v). if v = PNone then acc else dset k v acc) d new"

definition update_record_fields ::
  "string option \<Rightarrow> string \<Rightarrow> dict \<Rightarrow> int option \<Rightarrow> string \<Rightarrow> string \<Rightarrow> string option \<Rightarrow> dict option op" where
  "update_record_fields table_id record_id fields_data user aty src tr =
     (let tbl = normalize_table_id table_id in
      bind_op (reads (\<lambda>t. find_record t tbl record_id)) (\<lambda>found.
      case found of
        None \<Rightarrow> ret None
      | Some r \<Rightarrow>
          bind_op (reads (\<lambda>t. normalize_member_values_in_payloads t tbl [fields_data])) (\<lambda>normalized.
          bind_op (of_res normalized) (\<lambda>rows.
          let new_data = merge_given (rec_data r) (hd rows);
              changed = changed_fields (Some (rec_data r)) (Some new_data) in
          if changed = [] then ret (Some (with_id (rec_id r) (rec_data r)))
          else let r' = with_data r new_data in
            then_op (write_record r')
            (bind_op (append_change_set (record_req tbl user ''update'' aty src tr
                (''Update '' @ dec_nat (length changed) @ '' fields on record '' @ record_id)) [updated_in r r' changed]) (\<lambda>_.
             then_op commit (ret (Some (with_id (rec_id r) new_data)))))))))"

subsection \<open>Patches\<close>

text \<open>\<open>str(patch[k])\<close>.\<close>

definition patch_item :: "string \<Rightarrow> dict \<Rightarrow> string res" where
  "patch_item k patch = (case map_of patch k of None \<Rightarrow> Inl (Exn KeyError k) | Some v \<Rightarrow> Inr (py_str v))"

type_synonym patch = "string \<times> string \<times> pyval"

definition patches_for :: "string \<Rightarrow> patch list \<Rightarrow> dict" where
  "patches_for record_id patches = map snd (filter (\<lambda>p. fst p = record_id) patches)"

definition patch_record :: "table_record list \<Rightarrow> patch list \<Rightarrow> string \<Rightarrow> change_in list op" where
  "patch_record records patches record_id =
     (case find (\<lambda>r. rec_id r = record_id) records of
        None \<Rightarrow> ret []
      | Some r \<Rightarrow>
          let new_data = dupdate (rec_data r) (patches_for record_id patches);
              changed = changed_fields (Some (rec_data r)) (Some new_data) in
          if changed = [] then ret []
          else let r' = with_data r new_data in
            then_op (write_record r') (ret [updated_in r r' changed]))"

text \<open>The batch as (record id, field id, value) with member values normalised.\<close>

definition patch_triples :: "tables \<Rightarrow> string \<Rightarrow> dict list \<Rightarrow> patch list res" where
  "patch_triples t tbl patches =
     bind_res (map_res (\<lambda>p. bind_res (patch_item ''fieldId'' p) (\<lambda>f. Inr [(f, dget p ''value'')])) patches) (\<lambda>payloads.
     bind_res (normalize_member_values_in_payloads t tbl payloads) (\<lambda>normalized.
     bind_res (map_res (patch_item ''recordId'') patches) (\<lambda>ids.
       Inr (zip ids (map2 (\<lambda>payload row. (fst (hd payload), dget row (fst (hd payload)))) payloads normalized)))))"

definition apply_record_patches ::
  "string option \<Rightarrow> dict list \<Rightarrow> int option \<Rightarrow> string \<Rightarrow> string \<Rightarrow> string option \<Rightarrow> nat op" where
  "apply_record_patches table_id patches user aty src tr =
     (let tbl = normalize_table_id table_id in
      bind_op (reads (\<lambda>t. patch_triples t tbl patches)) (\<lambda>normalized.
      bind_op (of_res normalized) (\<lambda>triples.
      let record_ids = dedup (map fst triples) in
      if record_ids = [] then ret 0
      else
        bind_op (reads (select t_records (\<lambda>r. rec_id r \<in> set record_ids \<and> rec_table r = tbl))) (\<lambda>records.
        bind_op (map_op (patch_record records triples) record_ids) (\<lambda>itss.
        let items = concat itss in
        then_op (if items = [] then ret ()
          else bind_op (append_change_set (record_req tbl user ''batch_update'' aty src tr
            (''Update '' @ dec_nat (length items) @ '' records'')) items) (\<lambda>_. ret ()))
        (then_op commit (ret (length records))))))))"

subsection \<open>Deletion\<close>

definition recycled :: "table_record \<Rightarrow> int option \<Rightarrow> string \<Rightarrow> string \<Rightarrow> int \<Rightarrow> recycle_row" where
  "recycled r user change_set_id rid now =
     \<lparr>rb_id = rid, rb_table = rec_table r, rb_record = rec_id r, rb_data = rec_data r,
      rb_order = rec_order r, rb_creator = rec_creator r, rb_version = record_version r + 1,
      rb_deleted_by = user, rb_deleted_at = now, rb_set = Some change_set_id, rb_status = ''deleted'',
      rb_restored_at = None, rb_restored_by = None\<rparr>"

definition delete_record ::
  "string option \<Rightarrow> string \<Rightarrow> int option \<Rightarrow> string \<Rightarrow> string \<Rightarrow> string option \<Rightarrow> bool op" where
  "delete_record table_id record_id user aty src tr =
     (let tbl = normalize_table_id table_id in
      bind_op (reads (\<lambda>t. find_record t tbl record_id)) (\<lambda>found.
      case found of
        None \<Rightarrow> ret False
      | Some r \<Rightarrow>
          bind_op (cleanup_deleted_relation_references_db tbl record_id) (\<lambda>related.
          bind_op (append_change_set
            (record_req tbl user ''delete'' aty src tr (''Delete record '' @ record_id)) (deleted_in r # related)) (\<lambda>change_set.
          bind_op (new_id ''rcy'') (\<lambda>rid.
          bind_op utcnow (\<lambda>now.
          then_op (insert_row t_recycle t_recycle_update rb_id (recycled r user (cs_id change_set) rid now))
          (then_op (delete_rows t_records_update (\<lambda>x. rec_key x = rec_key r))
          (then_op commit (ret True)))))))))"

section \<open>From a step to its audit\<close>

lemma concat_map_if: "concat (map (\<lambda>x. if P x then [g x] else []) xs) = map g (filter P xs)"
  by (induction xs) auto

lemma dedup_Nil_iff [simp]: "dedup xs = [] \<longleftrightarrow> xs = []"
  by (metis set_dedup set_empty)

lemma find_record_look: "find_record t tbl i = look (t_records t) (tbl, i)"
  by (simp add: find_record_def select_first_def look_def)

lemma record_req_simps [simp]:
  "rq_id (record_req tbl user opr aty src tr sm) = None" "rq_status (record_req tbl user opr aty src tr sm) = ''applied''"
  "rq_operation (record_req tbl user opr aty src tr sm) = opr" "rq_table (record_req tbl user opr aty src tr sm) = Some tbl"
  by (simp_all add: record_req_def)

lemma in_key_simps [simp]:
  "in_key (created_in r) = tkey r" "in_key (updated_in r r' c) = tkey r" "in_key (deleted_in r) = tkey r"
  "in_key (unlinked_in r d c) = tkey r"
  by (simp_all add: in_key_def tkey_def created_in_def updated_in_def deleted_in_def unlinked_in_def)

text \<open>The entry describes a record that the step created or updated.\<close>

definition in_written :: "tables \<Rightarrow> table_record list \<Rightarrow> change_in \<Rightarrow> bool" where
  "in_written t rs it \<longleftrightarrow> in_etype it = ''record'' \<and> in_table it \<noteq> [] \<and> in_before it = data_at t (in_key it)
     \<and> (\<exists>r. look rs (in_key it) = Some r \<and> in_after it = Some (rec_data r) \<and> record_version r = int_or (in_vafter it) 1)"

lemma in_written_fits: "in_written t (t_records t') it \<Longrightarrow> in_fits t t' cs it"
  by (auto simp: in_written_def in_fits_def data_at_def)

lemma written_audited:
  assumes ap: "append_change_set (record_req tbl user opr aty src tr sm) its s1 = (Inr row, s2)"
    and opr: "opr \<in> {''create'', ''update'', ''batch_update''}" and ls: "log_step s s1" and fresh: "fresh_ids s"
    and its: "its \<noteq> []" "distinct (map in_key its)" "\<forall>it\<in>set its. in_written (work s) (t_records (work s1)) it"
    and rest: "\<forall>k. k \<notin> in_key ` set its \<longrightarrow> look (t_records (work s1)) k = look (t_records (work s)) k"
  shows "fresh_ids s2 \<and> audited (work s) (work s2) (cs_id row) \<and> log_step s s2 \<and> t_records (work s2) = t_records (work s1)
    \<and> t_fields (work s2) = t_fields (work s1)"
proof -
  have f1: "fresh_ids s1" using ls fresh by (rule log_step_fresh)
  note st = append_step[OF ap f1 record_req_simps(1)]
  from st(5) have same: "t_records (work s2) = t_records (work s1)" "t_fields (work s2) = t_fields (work s1)" by auto
  have "audited (work s) (work s2) (cs_id row)"
    by (rule append_audited[OF ap f1])
       (use opr its rest in_written_fits same in \<open>auto simp: data_at_def\<close>)
  then show ?thesis using st log_step_trans[OF ls] same by blast
qed

lemma audited_commit:
  "fresh_ids s2 \<Longrightarrow> audited t (work s2) cs \<Longrightarrow> s' = s2\<lparr>committed := work s2\<rparr> \<Longrightarrow>
   committed s' = work s' \<and> fresh_ids s' \<and> audited t (work s') cs"
  by (simp add: fresh_ids_def gen_id_def)

section \<open>Updates\<close>

lemma write_record_run: "write_record r' s = (Inr (), s\<lparr>work := t_records_update (map (\<lambda>x. if rec_key x = rec_key r' then r' else x)) (work s)\<rparr>)"
  by (simp add: write_record_def update_rows_eval)

lemma with_data_simps [simp]:
  "rec_key (with_data r d) = rec_key r" "tkey (with_data r d) = tkey r" "rec_data (with_data r d) = d"
  "rec_table (with_data r d) = rec_table r" "rec_id (with_data r d) = rec_id r" "record_version (with_data r d) = record_version r + 1"
  "rec_version (with_data r d) = record_version r + 1" "rec_order (with_data r d) = rec_order r" "rec_creator (with_data r d) = rec_creator r"
  by (auto simp: with_data_def rec_key_def tkey_def record_version_def max_def)

lemma version_pos: "1 \<le> record_version r"
  by (simp add: record_version_def)

lemma write_step:
  "write_record r' s = (Inr x, s1) \<Longrightarrow> log_step s s1 \<and> t_fields (work s1) = t_fields (work s)
     \<and> t_records (work s1) = map (\<lambda>x. if rec_key x = rec_key r' then r' else x) (t_records (work s))"
  by (auto simp: write_record_run intro!: log_step_same_log simp: log_ids_def)

lemma look_written:
  assumes "look rs k = Some r" "tkey r' = tkey r"
  shows "look (map (\<lambda>x. if rec_key x = rec_key r' then r' else x) rs) k' = (if k' = k then Some r' else look rs k')"
proof -
  have "rec_key r' = rec_key r" using assms(2) by (simp add: rec_key_tkey)
  then show ?thesis using look_update[OF assms(2), of rs k'] assms(1) look_Some[OF assms(1)] by (simp split: if_splits)
qed

lemma updated_written:
  assumes "look (t_records t) (tkey r) = Some r" "rec_table r \<noteq> []" "look rs (tkey r) = Some (with_data r d)"
  shows "in_written t rs (updated_in r (with_data r d) c)"
  unfolding in_written_def in_key_simps using assms version_pos[of r]
  by (simp add: updated_in_def data_at_def int_or_def)

lemma update_tail:
  assumes run: "then_op (write_record (with_data r d)) (bind_op (append_change_set (record_req tbl user ''update'' aty src tr sm)
        [updated_in r (with_data r d) c]) (\<lambda>_. then_op commit (ret x))) s = (Inr y, s')"
    and r: "look (t_records (work s)) k = Some r" "fst k \<noteq> []" and fresh: "fresh_ids s"
  shows "y = x \<and> committed s' = work s' \<and> fresh_ids s' \<and> (\<exists>cs. audited (work s) (work s') cs)
    \<and> (\<forall>k'. look (t_records (work s')) k' = (if k' = k then Some (with_data r d) else look (t_records (work s)) k'))
    \<and> t_fields (work s') = t_fields (work s)"
proof -
  from run obtain s1 s2 row u where w: "write_record (with_data r d) s = (Inr u, s1)"
    and ap: "append_change_set (record_req tbl user ''update'' aty src tr sm) [updated_in r (with_data r d) c] s1 = (Inr row, s2)"
    and s': "s' = s2\<lparr>committed := work s2\<rparr>" "y = x"
    by (auto simp: then_op_def bind_op_Inr basic_eval)
  note st = write_step[OF w]
  from look_Some[OF r(1)] have k: "tkey r = k" by simp
  have l: "look (t_records (work s1)) k' = (if k' = k then Some (with_data r d) else look (t_records (work s)) k')" for k'
    using look_written[OF r(1), of "with_data r d" k'] st by simp
  have "rec_table r \<noteq> []" using r(2) k by (auto simp: tkey_def)
  then have "in_written (work s) (t_records (work s1)) (updated_in r (with_data r d) c)"
    by (intro updated_written) (use r k l in auto)
  then have "fresh_ids s2 \<and> audited (work s) (work s2) (cs_id row) \<and> log_step s s2 \<and> t_records (work s2) = t_records (work s1)
      \<and> t_fields (work s2) = t_fields (work s1)"
    by (intro written_audited[OF ap _ _ fresh]) (use st l k in auto)
  with audited_commit[of s2 "work s" "cs_id row" s'] s' l st show ?thesis by auto
qed

lemma normalize_table_id_ne [simp]: "normalize_table_id x \<noteq> []"
  by (simp add: normalize_table_id_def split: option.splits)

lemma update_record_run:
  assumes run: "update_record T i fid v user aty src tr s = (Inr y, s')" and fresh: "fresh_ids s"
  shows "(look (t_records (work s)) (normalize_table_id T, i) = None \<and> y = None \<and> s' = s)
    \<or> (\<exists>r w. look (t_records (work s)) (normalize_table_id T, i) = Some r
        \<and> normalize_member_value_for_field (work s) (normalize_table_id T) fid v = Inr w
        \<and> (if py_eq (dget (rec_data r) fid) w then s' = s \<and> y = Some (with_id (rec_id r) (rec_data r))
           else y = Some (with_id (rec_id r) (dset fid w (rec_data r))) \<and> committed s' = work s' \<and> fresh_ids s'
             \<and> (\<exists>cs. audited (work s) (work s') cs)
             \<and> (\<forall>k'. look (t_records (work s')) k' = (if k' = (normalize_table_id T, i)
                  then Some (with_data r (dset fid w (rec_data r))) else look (t_records (work s)) k'))
             \<and> t_fields (work s') = t_fields (work s)))"
proof (cases "look (t_records (work s)) (normalize_table_id T, i)")
  case None
  with run show ?thesis by (simp add: update_record_def Let_def find_record_look op_eval)
next
  case (Some r)
  with run obtain w where w: "normalize_member_value_for_field (work s) (normalize_table_id T) fid v = Inr w"
    and r: "(if py_eq (dget (rec_data r) fid) w then ret (Some (with_id (rec_id r) (rec_data r)))
          else then_op (write_record (with_data r (dset fid w (rec_data r))))
            (bind_op (append_change_set
              (record_req (normalize_table_id T) user ''update'' aty src tr (''Update record '' @ i)) [updated_in r (with_data r (dset fid w (rec_data r))) [fid]]) (\<lambda>_.
             then_op commit (ret (Some (with_id (rec_id r) (dset fid w (rec_data r)))))))) s = (Inr y, s')"
    unfolding update_record_def Let_def
    by (auto simp: find_record_look bind_op_Inr[of "reads _"] bind_op_Inr[of "of_res _"] basic_eval cong: if_cong)
  show ?thesis
  proof (cases "py_eq (dget (rec_data r) fid) w")
    case True
    with r w Some show ?thesis by (auto simp: basic_eval)
  next
    case False
    with r have "then_op (write_record (with_data r (dset fid w (rec_data r))))
            (bind_op (append_change_set
              (record_req (normalize_table_id T) user ''update'' aty src tr (''Update record '' @ i)) [updated_in r (with_data r (dset fid w (rec_data r))) [fid]]) (\<lambda>_.
             then_op commit (ret (Some (with_id (rec_id r) (dset fid w (rec_data r))))))) s = (Inr y, s')" by simp
    from update_tail[OF this Some _ fresh] False w Some show ?thesis by (auto intro!: disjI2 exI[of _ r] exI[of _ w])
  qed
qed

lemma update_fields_run:
  assumes run: "update_record_fields T i vals user aty src tr s = (Inr y, s')" and fresh: "fresh_ids s"
  shows "(look (t_records (work s)) (normalize_table_id T, i) = None \<and> y = None \<and> s' = s)
    \<or> (\<exists>r rows. look (t_records (work s)) (normalize_table_id T, i) = Some r
        \<and> normalize_member_values_in_payloads (work s) (normalize_table_id T) [vals] = Inr rows
        \<and> (let d = merge_given (rec_data r) (hd rows) in
           if changed_fields (Some (rec_data r)) (Some d) = [] then s' = s \<and> y = Some (with_id (rec_id r) (rec_data r))
           else y = Some (with_id (rec_id r) d) \<and> committed s' = work s' \<and> fresh_ids s'
             \<and> (\<exists>cs. audited (work s) (work s') cs)
             \<and> (\<forall>k'. look (t_records (work s')) k' = (if k' = (normalize_table_id T, i)
                  then Some (with_data r d) else look (t_records (work s)) k'))
             \<and> t_fields (work s') = t_fields (work s)))"
proof (cases "look (t_records (work s)) (normalize_table_id T, i)")
  case None
  with run show ?thesis by (simp add: update_record_fields_def Let_def find_record_look op_eval)
next
  case (Some r)
  define d where "d rows = merge_given (rec_data r) (hd rows)" for rows :: "dict list"
  define ch where "ch rows = changed_fields (Some (rec_data r)) (Some (d rows))" for rows
  from run Some obtain rows where w: "normalize_member_values_in_payloads (work s) (normalize_table_id T) [vals] = Inr rows"
    and r: "(if ch rows = [] then ret (Some (with_id (rec_id r) (rec_data r)))
          else then_op (write_record (with_data r (d rows)))
            (bind_op (append_change_set (record_req (normalize_table_id T) user ''update'' aty src tr
                (''Update '' @ dec_nat (length (ch rows)) @ '' fields on record '' @ i)) [updated_in r (with_data r (d rows)) (ch rows)]) (\<lambda>_.
             then_op commit (ret (Some (with_id (rec_id r) (d rows))))))) s = (Inr y, s')"
    unfolding update_record_fields_def Let_def
    by (auto simp: find_record_look bind_op_Inr[of "reads _"] bind_op_Inr[of "of_res _"] basic_eval d_def ch_def cong: if_cong)
  show ?thesis
  proof (cases "ch rows = []")
    case True
    with r w Some show ?thesis by (auto simp: basic_eval d_def ch_def Let_def)
  next
    case False
    with r have "then_op (write_record (with_data r (d rows)))
            (bind_op (append_change_set (record_req (normalize_table_id T) user ''update'' aty src tr
                (''Update '' @ dec_nat (length (ch rows)) @ '' fields on record '' @ i)) [updated_in r (with_data r (d rows)) (ch rows)]) (\<lambda>_.
             then_op commit (ret (Some (with_id (rec_id r) (d rows)))))) s = (Inr y, s')" by simp
    from update_tail[OF this Some _ fresh] False w Some show ?thesis
      by (intro disjI2 exI[of _ r] exI[of _ rows]) (simp add: d_def ch_def Let_def)
  qed
qed

section \<open>Patches\<close>

definition patched :: "patch list \<Rightarrow> table_record \<Rightarrow> table_record" where
  "patched patches r = (let d = dupdate (rec_data r) (patches_for (rec_id r) patches) in
     if changed_fields (Some (rec_data r)) (Some d) = [] then r else with_data r d)"

definition patch_items :: "patch list \<Rightarrow> table_record \<Rightarrow> change_in list" where
  "patch_items patches r = (let d = dupdate (rec_data r) (patches_for (rec_id r) patches);
     ch = changed_fields (Some (rec_data r)) (Some d) in if ch = [] then [] else [updated_in r (with_data r d) ch])"

lemma patched_key [simp]: "tkey (patched ps r) = tkey r" "rec_key (patched ps r) = rec_key r"
  by (simp_all add: patched_def Let_def)

lemma patch_items_key: "it \<in> set (patch_items ps r) \<Longrightarrow> in_key it = tkey r"
  by (auto simp: patch_items_def Let_def split: if_splits)

lemma patch_items_written:
  "it \<in> set (patch_items ps r) \<Longrightarrow> look (t_records t) (tkey r) = Some r \<Longrightarrow> rec_table r \<noteq> []
   \<Longrightarrow> look rs (tkey r) = Some (patched ps r) \<Longrightarrow> in_written t rs it"
  by (auto simp: patch_items_def patched_def Let_def split: if_splits intro!: updated_written)

lemma patch_one:
  assumes run: "patch_record records ps i s = (Inr its, s1)"
    and f: "find (\<lambda>r. rec_id r = i) records = R0 i" and l: "look (t_records (work s)) (tbl, i) = R0 i"
  shows "log_step s s1 \<and> t_fields (work s1) = t_fields (work s) \<and> its = (case R0 i of None \<Rightarrow> [] | Some r \<Rightarrow> patch_items ps r)
    \<and> (\<forall>k. look (t_records (work s1)) k = (if k = (tbl, i) then map_option (patched ps) (R0 i) else look (t_records (work s)) k))"
proof (cases "R0 i")
  case None
  with run f l show ?thesis by (auto simp: patch_record_def basic_eval)
next
  case (Some r0)
  have ri: "rec_id r0 = i" using f Some by (auto dest!: find_SomeD)
  define d where "d = dupdate (rec_data r0) (patches_for i ps)"
  show ?thesis
  proof (cases "changed_fields (Some (rec_data r0)) (Some d) = []")
    case True
    with run f l Some ri show ?thesis by (auto simp: patch_record_def basic_eval Let_def d_def patched_def patch_items_def)
  next
    case False
    with run f Some obtain u where w: "write_record (with_data r0 d) s = (Inr u, s1)"
      and its: "its = [updated_in r0 (with_data r0 d) (changed_fields (Some (rec_data r0)) (Some d))]"
      by (auto simp: patch_record_def basic_eval Let_def d_def then_op_def bind_op_Inr simp del: with_data_simps)
    note st = write_step[OF w]
    have "patched ps r0 = with_data r0 d" "patch_items ps r0 = its" using False its ri by (simp_all add: patched_def patch_items_def Let_def d_def)
    moreover from l Some have "look (t_records (work s)) (tbl, i) = Some r0" by simp
    then have "look (t_records (work s1)) k = (if k = (tbl, i) then Some (with_data r0 d) else look (t_records (work s)) k)" for k
      using look_written[of "t_records (work s)" "(tbl, i)" r0 "with_data r0 d" k] st by simp
    ultimately show ?thesis using st Some by auto
  qed
qed

lemma patch_loop:
  assumes "map_op (patch_record records ps) is s = (Inr itss, s1)" "distinct is"
    and "\<forall>i\<in>set is. find (\<lambda>r. rec_id r = i) records = R0 i \<and> look (t_records (work s)) (tbl, i) = R0 i"
  shows "log_step s s1 \<and> t_fields (work s1) = t_fields (work s)
    \<and> itss = map (\<lambda>i. case R0 i of None \<Rightarrow> [] | Some r \<Rightarrow> patch_items ps r) is
    \<and> (\<forall>k. look (t_records (work s1)) k = (if fst k = tbl \<and> snd k \<in> set is then map_option (patched ps) (R0 (snd k))
          else look (t_records (work s)) k))"
  using assms
proof (induction "is" arbitrary: s itss)
  case Nil
  then show ?case by (simp add: basic_eval)
next
  case (Cons i js)
  from Cons.prems(1) obtain its s0 itss' where one: "patch_record records ps i s = (Inr its, s0)"
    and rest: "map_op (patch_record records ps) js s0 = (Inr itss', s1)" and e: "itss = its # itss'"
    by (auto simp: bind_op_Inr basic_eval)
  have o: "log_step s s0 \<and> t_fields (work s0) = t_fields (work s) \<and> its = (case R0 i of None \<Rightarrow> [] | Some r \<Rightarrow> patch_items ps r)
    \<and> (\<forall>k. look (t_records (work s0)) k = (if k = (tbl, i) then map_option (patched ps) (R0 i) else look (t_records (work s)) k))"
    by (rule patch_one[OF one]) (use Cons.prems(3) in auto)
  have p: "\<forall>j\<in>set js. find (\<lambda>r. rec_id r = j) records = R0 j \<and> look (t_records (work s0)) (tbl, j) = R0 j"
    using Cons.prems(2,3) o by auto
  have d: "distinct js" using Cons.prems(2) by simp
  note ih = Cons.IH[OF rest d p]
  have "look (t_records (work s1)) k = (if fst k = tbl \<and> snd k \<in> set (i # js) then map_option (patched ps) (R0 (snd k))
          else look (t_records (work s)) k)" for k
    using ih o by (cases k) auto
  with ih o e log_step_trans[of s s0 s1] show ?case by auto
qed

lemma find_selected:
  "find (\<lambda>r. rec_id r = j) (filter (\<lambda>r. rec_id r \<in> J \<and> rec_table r = tbl) R) = (if j \<in> J then look R (tbl, j) else None)"
  by (induction R) (auto simp: look_def)

lemma apply_patches_run:
  assumes run: "apply_record_patches T patches user aty src tr s = (Inr n, s')" and fresh: "fresh_ids s"
  shows "\<exists>ps. patch_triples (work s) (normalize_table_id T) patches = Inr ps
    \<and> (\<forall>k. look (t_records (work s')) k = (if fst k = normalize_table_id T \<and> snd k \<in> set (map fst ps)
        then map_option (patched ps) (look (t_records (work s)) k) else look (t_records (work s)) k))
    \<and> n = length (filter (\<lambda>r. rec_id r \<in> set (map fst ps) \<and> rec_table r = normalize_table_id T) (t_records (work s)))
    \<and> fresh_ids s' \<and> t_fields (work s') = t_fields (work s)
    \<and> (s' = s \<or> committed s' = work s' \<and>
       ((\<forall>k. look (t_records (work s')) k = look (t_records (work s)) k) \<or> (\<exists>cs. audited (work s) (work s') cs)))"
proof -
  let ?tbl = "normalize_table_id T"
  from run obtain ps where ps: "patch_triples (work s) ?tbl patches = Inr ps"
    by (auto simp: apply_record_patches_def Let_def bind_op_Inr basic_eval)
  let ?ids = "dedup (map fst ps)"
  let ?R = "\<lambda>i. look (t_records (work s)) (?tbl, i)"
  define items where "items = concat (map (\<lambda>i. case ?R i of None \<Rightarrow> [] | Some r \<Rightarrow> patch_items ps r) ?ids)"
  let ?records = "filter (\<lambda>r. rec_id r \<in> set (map fst ps) \<and> rec_table r = ?tbl) (t_records (work s))"
  show ?thesis
  proof (cases "?ids = []")
    case True
    then have e: "ps = []" by simp
    with run ps have "n = 0 \<and> s' = s" unfolding apply_record_patches_def Let_def by (simp add: op_eval)
    with e ps fresh show ?thesis by (intro exI[of _ ps]) simp
  next
    case False
    with run ps obtain itss s1 s2 u where m: "map_op (patch_record ?records ps) ?ids s = (Inr itss, s1)"
      and ap: "(if concat itss = [] then ret ()
          else bind_op (append_change_set (record_req ?tbl user ''batch_update'' aty src tr
            (''Update '' @ dec_nat (length (concat itss)) @ '' records'')) (concat itss)) (\<lambda>_. ret ())) s1 = (Inr u, s2)"
      and s': "s' = s2\<lparr>committed := work s2\<rparr>" "n = length ?records"
      unfolding apply_record_patches_def Let_def
      by (auto simp: bind_op_Inr basic_eval then_op_def select_def simp del: concat_eq_Nil_conv)
    have L: "log_step s s1 \<and> t_fields (work s1) = t_fields (work s)
      \<and> itss = map (\<lambda>i. case ?R i of None \<Rightarrow> [] | Some r \<Rightarrow> patch_items ps r) ?ids
      \<and> (\<forall>k. look (t_records (work s1)) k = (if fst k = ?tbl \<and> snd k \<in> set ?ids then map_option (patched ps) (?R (snd k))
            else look (t_records (work s)) k))"
      by (rule patch_loop[OF m]) (auto simp: find_selected)
    have it: "concat itss = items" using L by (simp add: items_def)
    have look1: "look (t_records (work s1)) k = (if fst k = ?tbl \<and> snd k \<in> set (map fst ps) then map_option (patched ps) (look (t_records (work s)) k)
            else look (t_records (work s)) k)" for k
      using L by (cases k) auto
    have f1: "fresh_ids s1" using L fresh log_step_fresh by blast
    have item: "\<exists>i r. i \<in> set (map fst ps) \<and> ?R i = Some r \<and> it \<in> set (patch_items ps r)" if "it \<in> set items" for it
    proof -
      from that obtain i where i: "i \<in> set (map fst ps)" "it \<in> set (case ?R i of None \<Rightarrow> [] | Some r \<Rightarrow> patch_items ps r)"
        unfolding items_def by auto
      then show ?thesis by (cases "?R i") auto
    qed
    have w: "in_written (work s) (t_records (work s1)) it" if i: "it \<in> set items" for it
    proof -
      from item[OF i] obtain i r where r: "i \<in> set (map fst ps)" "?R i = Some r" "it \<in> set (patch_items ps r)" by blast
      from look_Some[OF r(2)] have k: "tkey r = (?tbl, i)" by simp
      then have "rec_table r \<noteq> []" by (simp add: tkey_def)
      with r k look1[of "(?tbl, i)"] show ?thesis by (intro patch_items_written[OF r(3)]) auto
    qed
    have keys: "map in_key items = map (\<lambda>i. (?tbl, i)) (filter (\<lambda>i. case ?R i of None \<Rightarrow> False | Some r \<Rightarrow> patch_items ps r \<noteq> []) ?ids)"
    proof -
      have one: "map in_key (case ?R i of None \<Rightarrow> [] | Some r \<Rightarrow> patch_items ps r)
         = (if (case ?R i of None \<Rightarrow> False | Some r \<Rightarrow> patch_items ps r \<noteq> []) then [(?tbl, i)] else [])" for i
        using look_Some[of "t_records (work s)" "(?tbl, i)"]
        by (auto simp: patch_items_def Let_def split: option.splits)
      show ?thesis by (simp add: items_def map_concat comp_def one concat_map_if)
    qed
    have dk: "distinct (map in_key items)" unfolding keys by (simp add: distinct_map inj_on_def distinct_filter)
    have unch: "look (t_records (work s1)) k = look (t_records (work s)) k" if "k \<notin> in_key ` set items" for k
    proof (cases "fst k = ?tbl \<and> snd k \<in> set (map fst ps)")
      case True
      then have k: "k = (?tbl, snd k)" by (cases k) simp
      show ?thesis
      proof (cases "?R (snd k)")
        case None
        with k look1[of k] show ?thesis by (cases k) auto
      next
        case (Some r)
        from that have "(?tbl, snd k) \<notin> set (map in_key items)" using k by (metis set_map)
        then have "patch_items ps r = []" using True Some unfolding keys by (force simp: image_iff)
        then have "patched ps r = r" by (auto simp: patch_items_def patched_def Let_def split: if_splits)
        with k look1[of k] Some show ?thesis by (cases k) auto
      qed
    qed (use look1[of k] in auto)
    have fin: "fresh_ids s2 \<and> t_records (work s2) = t_records (work s1) \<and> t_fields (work s2) = t_fields (work s1)
      \<and> ((\<forall>k. look (t_records (work s2)) k = look (t_records (work s)) k) \<or> (\<exists>cs. audited (work s) (work s2) cs))"
    proof (cases "items = []")
      case True
      with ap it have "s2 = s1" by (simp add: basic_eval)
      with True unch f1 show ?thesis by simp
    next
      case ne: False
      with ap it obtain row where "append_change_set (record_req ?tbl user ''batch_update'' aty src tr
            (''Update '' @ dec_nat (length items) @ '' records'')) items s1 = (Inr row, s2)"
        by (auto simp: bind_op_Inr basic_eval)
      then have "fresh_ids s2 \<and> audited (work s) (work s2) (cs_id row) \<and> log_step s s2 \<and> t_records (work s2) = t_records (work s1)
          \<and> t_fields (work s2) = t_fields (work s1)"
        by (rule written_audited[OF _ _ _ fresh ne dk]) (simp, use L in simp, use w in simp, use unch in simp)
      then show ?thesis by blast
    qed
    then have "fresh_ids s'" "committed s' = work s'" "work s' = work s2"
      using s'(1) by (simp_all add: fresh_ids_def gen_id_def)
    note e = this
    show ?thesis
    proof (intro exI[of _ ps] conjI)
      show "\<forall>k. look (t_records (work s')) k = (if fst k = ?tbl \<and> snd k \<in> set (map fst ps)
        then map_option (patched ps) (look (t_records (work s)) k) else look (t_records (work s)) k)"
        using fin look1 e(3) by simp
      show "t_fields (work s') = t_fields (work s)" using fin L e(3) by simp
      show "s' = s \<or> committed s' = work s' \<and>
         ((\<forall>k. look (t_records (work s')) k = look (t_records (work s)) k) \<or> (\<exists>cs. audited (work s) (work s') cs))"
        using fin e(2) unfolding e(3) by blast
    qed (use ps e(1) s'(2) in simp_all)
  qed
qed

section \<open>Creation\<close>

lemma allocate_fields_run:
  "allocate_fields flds n s = (Inr autos, s1) \<Longrightarrow> log_step s s1 \<and> t_records (work s1) = t_records (work s)"
proof (induction flds arbitrary: s autos)
  case Nil
  then show ?case by (simp add: basic_eval)
next
  case (Cons f flds)
  show ?case
  proof (cases "is_auto_number_field [(''type'', PStr (fld_type f))]")
    case False
    with Cons show ?thesis by simp
  next
    case True
    with Cons.prems obtain p autos' where rest: "allocate_fields flds n
        (s\<lparr>work := t_fields_update (map (\<lambda>x. if fld_key x = fld_key f then x\<lparr>fld_property := PDict p\<rparr> else x)) (work s)\<rparr>) = (Inr autos', s1)"
      by (auto simp: bind_op_Inr then_op_def basic_eval update_rows_eval)
    have "log_step s (s\<lparr>work := t_fields_update (map (\<lambda>x. if fld_key x = fld_key f then x\<lparr>fld_property := PDict p\<rparr> else x)) (work s)\<rparr>)"
      by (rule log_step_same_log) (auto simp: log_ids_def)
    from log_step_trans[OF this] Cons.IH[OF rest] show ?thesis by simp
  qed
qed

lemma new_record_id_run:
  "new_record_id s = (Inr i, s1) \<longleftrightarrow> i = ''r'' @ uuids s (uuid_pos s) \<and> s1 = s\<lparr>uuid_pos := Suc (uuid_pos s)\<rparr>"
  by (auto simp: new_record_id_def op_eval)

text \<open>What is known of the row inserted for position \<open>i\<close>.\<close>

definition new_row ::
  "string \<Rightarrow> int option \<Rightarrow> int \<Rightarrow> table_field list \<Rightarrow> (string \<times> int list) list \<Rightarrow> nat \<Rightarrow> dict \<Rightarrow> table_record \<Rightarrow> bool" where
  "new_row tbl creator mx flds autos i row r \<longleftrightarrow> rec_table r = tbl \<and> rec_data r = row_data flds autos i row
     \<and> rec_order r = mx + int i + 1 \<and> rec_creator r = creator \<and> rec_version r = 1"

lemma new_row_new: "new_row tbl creator mx flds autos i row (new_record tbl creator mx flds autos i row rid)"
  by (simp add: new_row_def new_record_def)

lemma new_record_id_field [simp]: "rec_id (new_record tbl creator mx flds autos i row rid) = rid"
  by (simp add: new_record_def)

definition rows_added :: "table_record list \<Rightarrow> table_record list \<Rightarrow> bool" where
  "rows_added R rs \<longleftrightarrow> distinct (map rec_key rs) \<and> (\<forall>r\<in>set rs. rec_key r \<notin> rec_key ` set R)"

lemma add_record_run:
  assumes "add_record tbl creator mx flds autos (i, row) s = (Inr r, s1)"
  shows "new_row tbl creator mx flds autos i row r" "rec_key r \<notin> rec_key ` set (t_records (work s))"
    "s1 = s\<lparr>uuid_pos := Suc (uuid_pos s), work := t_records_update (\<lambda>rs. rs @ [r]) (work s)\<rparr>"
  using assms new_row_new
  by (auto simp: add_record_def bind_op_Inr then_op_def new_record_id_run insert_row_Inr basic_eval Let_def)

lemma add_records_run:
  assumes "map_op (add_record tbl creator mx flds autos) (enumerate m rows) s = (Inr rs, s1)"
  shows "log_step s s1 \<and> t_fields (work s1) = t_fields (work s) \<and> t_records (work s1) = t_records (work s) @ rs
    \<and> rows_added (t_records (work s)) rs \<and> list_all2 (\<lambda>(i, row) r. new_row tbl creator mx flds autos i row r) (enumerate m rows) rs"
  using assms
proof (induction rows arbitrary: m s rs)
  case Nil
  then show ?case by (simp add: basic_eval rows_added_def)
next
  case (Cons row rows)
  from Cons.prems obtain r s0 rs' where one: "add_record tbl creator mx flds autos (m, row) s = (Inr r, s0)"
    and rest: "map_op (add_record tbl creator mx flds autos) (enumerate (Suc m) rows) s0 = (Inr rs', s1)"
    and rs: "rs = r # rs'"
    by (auto simp: bind_op_Inr basic_eval)
  note o = add_record_run[OF one] and ih = Cons.IH[OF rest]
  have "log_step s s0" unfolding o(3) by (rule log_step_same_log) (auto simp: log_ids_def)
  with ih log_step_trans[of s s0 s1] o rs show ?case by (auto simp: rows_added_def)
qed

lemma rec_key_image: "rec_key r \<in> rec_key ` set R \<longleftrightarrow> tkey r \<in> tkey ` set R"
  by (auto simp: image_iff rec_key_tkey)

lemma look_added:
  assumes "rows_added R rs"
  shows "r \<in> set rs \<Longrightarrow> look (R @ rs) (tkey r) = Some r" "r \<in> set rs \<Longrightarrow> look R (tkey r) = None"
    "k \<notin> tkey ` set rs \<Longrightarrow> look (R @ rs) k = look R k"
proof -
  have d: "distinct (map rec_key rs)" and n: "\<forall>r\<in>set rs. tkey r \<notin> tkey ` set R"
    using assms by (auto simp: rows_added_def rec_key_image)
  have app: "look (R @ rs) k = (case look R k of Some x \<Rightarrow> Some x | None \<Rightarrow> look rs k)" for k
    by (simp add: look_def find_append split: option.splits)
  show none: "look R (tkey r) = None" if "r \<in> set rs" for r using n that by (metis look_None image_eqI)
  show "look (R @ rs) (tkey r) = Some r" if "r \<in> set rs" using none[OF that] look_unique[OF d that] by (simp add: app)
  show "look (R @ rs) k = look R k" if "k \<notin> tkey ` set rs"
  proof -
    have "look rs k = None" using that by (auto simp: look_None)
    then show ?thesis by (simp add: app split: option.splits)
  qed
qed

lemma created_tail:
  assumes ap: "append_change_set (record_req tbl user ''create'' aty src tr sm) (map created_in rs) s1 = (Inr row, s2)"
    and ls: "log_step s s1" and fresh: "fresh_ids s" and R: "t_records (work s1) = t_records (work s) @ rs"
    and add: "rows_added (t_records (work s)) rs" and rs: "rs \<noteq> []" "\<forall>r\<in>set rs. rec_table r \<noteq> [] \<and> rec_version r = 1"
  shows "fresh_ids s2 \<and> audited (work s) (work s2) (cs_id row) \<and> log_step s s2 \<and> t_records (work s2) = t_records (work s1)
    \<and> t_fields (work s2) = t_fields (work s1)"
proof (rule written_audited[OF ap _ ls fresh])
  have k: "map in_key (map created_in rs) = map tkey rs" by (simp add: comp_def)
  show "distinct (map in_key (map created_in rs))"
    unfolding k using add by (simp add: rows_added_def distinct_map inj_on_def rec_key_tkey)
  show "\<forall>it\<in>set (map created_in rs). in_written (work s) (t_records (work s1)) it"
    using look_added[OF add] rs(2) R
    by (auto simp: in_written_def created_in_def in_key_def data_at_def tkey_def int_or_def record_version_def)
  show "\<forall>k. k \<notin> in_key ` set (map created_in rs) \<longrightarrow> look (t_records (work s1)) k = look (t_records (work s)) k"
    using look_added(3)[OF add] R k by (metis set_map)
qed (use rs in auto)

lemma creation_fields:
  assumes "table_has_data (work s) tbl"
  shows "get_record_creation_fields tbl blank s = (Inr (ordered_fields (work s) tbl), s)"
proof -
  from assms obtain f where "f \<in> set (t_fields (work s))" "fld_table f = tbl"
    by (auto simp: table_has_data_def select_first_def dest!: find_SomeD)
  then have "ordered_fields (work s) tbl \<noteq> []"
    by (auto simp: ordered_fields_def select_def filter_empty_conv simp flip: set_empty)
  then show ?thesis by (simp add: get_record_creation_fields_def op_eval)
qed

lemma new_rows_all:
  "list_all2 (\<lambda>(i, row) r. new_row tbl creator mx flds autos i row r) (enumerate m rows) rs
    \<Longrightarrow> (\<forall>r\<in>set rs. rec_table r = tbl \<and> rec_version r = 1) \<and> length rs = length rows
      \<and> (\<forall>i<length rs. new_row tbl creator mx flds autos (m + i) (rows ! i) (rs ! i))"
proof (induction rows arbitrary: m rs)
  case (Cons row rows)
  then obtain r rs' where rs: "rs = r # rs'" "new_row tbl creator mx flds autos m row r"
    and rest: "list_all2 (\<lambda>(i, row) r. new_row tbl creator mx flds autos i row r) (enumerate (Suc m) rows) rs'"
    by (auto simp: list_all2_Cons1)
  from Cons.IH[OF rest] rs show ?case
    by (auto simp: new_row_def nth_Cons split: nat.splits) 
qed simp

lemma create_records_run:
  assumes run: "create_records T count creator aty src tr blank s = (Inr out, s')"
    and fresh: "fresh_ids s" and flds: "table_has_data (work s) (normalize_table_id T)"
  shows "\<exists>autos rs s0. allocate_fields (ordered_fields (work s) (normalize_table_id T)) (max 1 (min 999 count)) s = (Inr autos, s0)
    \<and> t_records (work s') = t_records (work s) @ rs \<and> t_fields (work s') = t_fields (work s0)
    \<and> rows_added (t_records (work s)) rs \<and> length rs = nat (max 1 (min 999 count))
    \<and> (\<forall>i<length rs. new_row (normalize_table_id T) creator (max_order (work s) (normalize_table_id T))
          (ordered_fields (work s) (normalize_table_id T)) autos i [] (rs ! i))
    \<and> out = map (\<lambda>r. with_id (rec_id r) (rec_data r)) rs
    \<and> committed s' = work s' \<and> fresh_ids s' \<and> (\<exists>cs. audited (work s) (work s') cs)"
proof -
  let ?tbl = "normalize_table_id T" and ?n = "max 1 (min 999 count)"
  let ?flds = "ordered_fields (work s) ?tbl"
  from run creation_fields[OF flds, of blank] obtain autos s0 rs s1 row s2 where
    al: "allocate_fields ?flds ?n s = (Inr autos, s0)"
    and add: "map_op (add_record ?tbl creator (max_order (work s0) ?tbl) ?flds autos) (enumerate 0 (replicate (nat ?n) [])) s0 = (Inr rs, s1)"
    and ap: "append_change_set (record_req ?tbl creator ''create'' aty src tr (''Create '' @ dec_int ?n @ '' records'')) (map created_in rs) s1 = (Inr row, s2)"
    and s': "s' = s2\<lparr>committed := work s2\<rparr>" "out = map (\<lambda>r. with_id (rec_id r) (rec_data r)) rs"
    by (auto simp: create_records_def Let_def bind_op_Inr basic_eval then_op_def with_id_def)
  note A = allocate_fields_run[OF al] and B = add_records_run[OF add]
  have mo: "max_order (work s0) ?tbl = max_order (work s) ?tbl" using A by (simp add: max_order_def select_def)
  have L: "log_step s s1" using A B log_step_trans by blast
  have N: "(\<forall>r\<in>set rs. rec_table r = ?tbl \<and> rec_version r = 1) \<and> length rs = nat ?n
      \<and> (\<forall>i<length rs. new_row ?tbl creator (max_order (work s) ?tbl) ?flds autos i [] (rs ! i))"
    using new_rows_all[of ?tbl creator "max_order (work s0) ?tbl" ?flds autos 0 "replicate (nat ?n) []" rs] B by (auto simp: mo)
  then have ne: "rs \<noteq> []" by auto
  have C: "fresh_ids s2 \<and> audited (work s) (work s2) (cs_id row) \<and> log_step s s2 \<and> t_records (work s2) = t_records (work s1)
    \<and> t_fields (work s2) = t_fields (work s1)"
    by (rule created_tail[OF ap L fresh _ _ ne]) (use A B N in auto)
  from audited_commit[of s2 "work s" "cs_id row" s'] C s'(1)
  have D: "committed s' = work s'" "fresh_ids s'" "audited (work s) (work s') (cs_id row)" "work s' = work s2" by auto
  show ?thesis
    by (rule exI[of _ autos], rule exI[of _ rs], rule exI[of _ s0])
       (use al A B C D N s'(2) in auto)
qed

lemma create_record_run:
  assumes run: "create_record T creator aty src tr blank s = (Inr out, s')"
    and fresh: "fresh_ids s" and flds: "table_has_data (work s) (normalize_table_id T)"
  shows "\<exists>autos r s0 s1. allocate_fields (ordered_fields (work s) (normalize_table_id T)) 1 s0 = (Inr autos, s1)
    \<and> work s0 = work s \<and> t_records (work s') = t_records (work s) @ [r] \<and> t_fields (work s') = t_fields (work s1)
    \<and> rows_added (t_records (work s)) [r]
    \<and> new_row (normalize_table_id T) creator (max_order (work s) (normalize_table_id T))
          (ordered_fields (work s) (normalize_table_id T)) autos 0 [] r
    \<and> out = with_id (rec_id r) (rec_data r)
    \<and> committed s' = work s' \<and> fresh_ids s' \<and> (\<exists>cs. audited (work s) (work s') cs)"
proof -
  let ?tbl = "normalize_table_id T"
  let ?flds = "ordered_fields (work s) ?tbl"
  let ?s0 = "s\<lparr>uuid_pos := Suc (uuid_pos s)\<rparr>"
  let ?rid = "''r'' @ uuids s (uuid_pos s)"
  let ?r = "\<lambda>autos s1. new_record ?tbl creator (max_order (work s1) ?tbl) ?flds autos 0 [] ?rid"
  from run creation_fields[OF flds, of blank] obtain autos s1 row s2 where
    al: "allocate_fields ?flds 1 ?s0 = (Inr autos, s1)"
    and nk': "rec_key (?r autos s1) \<notin> rec_key ` set (t_records (work s1))"
    and ap': "append_change_set (record_req ?tbl creator ''create'' aty src tr (''Create record '' @ ?rid)) (map created_in [?r autos s1])
        (s1\<lparr>work := t_records_update (\<lambda>rs. rs @ [?r autos s1]) (work s1)\<rparr>) = (Inr row, s2)"
    and s'': "s' = s2\<lparr>committed := work s2\<rparr>" "out = with_id ?rid (rec_data (?r autos s1))"
    by (auto simp: create_record_def Let_def bind_op_Inr basic_eval then_op_def with_id_def new_record_id_run insert_row_Inr)
  define r where "r = ?r autos s1"
  have rid: "rec_id r = ?rid" and nr: "new_row ?tbl creator (max_order (work s1) ?tbl) ?flds autos 0 [] r"
    by (simp_all add: r_def new_row_new)
  note nk = nk'[folded r_def] and ap = ap'[folded r_def] and s' = s''[folded r_def, folded rid]
  have ls0: "log_step s ?s0" by (rule log_step_same_log) auto
  note A = allocate_fields_run[OF al]
  have ls1: "log_step s1 (s1\<lparr>work := t_records_update (\<lambda>rs. rs @ [r]) (work s1)\<rparr>)"
    by (rule log_step_same_log) (auto simp: log_ids_def)
  have mo: "max_order (work s1) ?tbl = max_order (work s) ?tbl" using A by (simp add: max_order_def select_def)
  have L: "log_step s (s1\<lparr>work := t_records_update (\<lambda>rs. rs @ [r]) (work s1)\<rparr>)"
    using A ls0 ls1 log_step_trans by blast
  have add: "rows_added (t_records (work s)) [r]" using nk A by (simp add: rows_added_def)
  have C: "fresh_ids s2 \<and> audited (work s) (work s2) (cs_id row) \<and> log_step s s2
    \<and> t_records (work s2) = t_records (work (s1\<lparr>work := t_records_update (\<lambda>rs. rs @ [r]) (work s1)\<rparr>))
    \<and> t_fields (work s2) = t_fields (work (s1\<lparr>work := t_records_update (\<lambda>rs. rs @ [r]) (work s1)\<rparr>))"
    by (rule created_tail[OF ap L fresh _ add]) (use A nr in \<open>auto simp: new_row_def\<close>)
  from audited_commit[of s2 "work s" "cs_id row" s'] C s'(1)
  have D: "committed s' = work s'" "fresh_ids s'" "audited (work s) (work s') (cs_id row)" "work s' = work s2" by auto
  show ?thesis
    by (rule exI[of _ autos], rule exI[of _ r], rule exI[of _ ?s0], rule exI[of _ s1])
       (use al A C D nr mo add s'(2) in auto)
qed

lemma create_with_data_run:
  assumes run: "create_records_with_data T recs creator aty src tr blank s = (Inr out, s')"
    and fresh: "fresh_ids s" and flds: "table_has_data (work s) (normalize_table_id T)"
  shows "\<exists>autos rows rs s0. normalize_member_values_in_payloads (work s) (normalize_table_id T) recs = Inr rows
    \<and> allocate_fields (ordered_fields (work s) (normalize_table_id T)) (int (length recs)) s = (Inr autos, s0)
    \<and> t_records (work s') = t_records (work s) @ rs \<and> t_fields (work s') = t_fields (work s0)
    \<and> rows_added (t_records (work s)) rs \<and> length rs = length rows
    \<and> (\<forall>i<length rs. new_row (normalize_table_id T) creator (max_order (work s) (normalize_table_id T))
          (ordered_fields (work s) (normalize_table_id T)) autos i (rows ! i) (rs ! i))
    \<and> committed s' = work s' \<and> fresh_ids s' \<and> (rs = [] \<or> (\<exists>cs. audited (work s) (work s') cs))"
proof -
  let ?tbl = "normalize_table_id T"
  let ?flds = "ordered_fields (work s) ?tbl"
  from run creation_fields[OF flds, of blank] obtain rows autos s0 rs s1 s2 u where
    nm: "normalize_member_values_in_payloads (work s) ?tbl recs = Inr rows"
    and al: "allocate_fields ?flds (int (length recs)) s = (Inr autos, s0)"
    and add: "map_op (add_record ?tbl creator (max_order (work s0) ?tbl) ?flds autos) (enumerate 0 rows) s0 = (Inr rs, s1)"
    and ap: "(if rs = [] then ret () else bind_op (append_change_set (record_req ?tbl creator ''create'' aty src tr
          (''Create '' @ dec_nat (length rs) @ '' records with data'')) (map created_in rs)) (\<lambda>_. ret ())) s1 = (Inr u, s2)"
    and s': "s' = s2\<lparr>committed := work s2\<rparr>"
    by (auto simp: create_records_with_data_def Let_def bind_op_Inr basic_eval then_op_def)
  note A = allocate_fields_run[OF al] and B = add_records_run[OF add]
  have mo: "max_order (work s0) ?tbl = max_order (work s) ?tbl" using A by (simp add: max_order_def select_def)
  have L: "log_step s s1" using A B log_step_trans by blast
  have N: "(\<forall>r\<in>set rs. rec_table r = ?tbl \<and> rec_version r = 1) \<and> length rs = length rows
      \<and> (\<forall>i<length rs. new_row ?tbl creator (max_order (work s) ?tbl) ?flds autos i (rows ! i) (rs ! i))"
    using new_rows_all[of ?tbl creator "max_order (work s0) ?tbl" ?flds autos 0 rows rs] B by (simp add: mo)
  have C: "fresh_ids s2 \<and> (rs = [] \<or> (\<exists>cs. audited (work s) (work s2) cs)) \<and> t_records (work s2) = t_records (work s1)
    \<and> t_fields (work s2) = t_fields (work s1)"
  proof (cases "rs = []")
    case True
    with ap log_step_fresh[OF L fresh] show ?thesis by (simp add: basic_eval)
  next
    case False
    with ap obtain row where ap': "append_change_set (record_req ?tbl creator ''create'' aty src tr
          (''Create '' @ dec_nat (length rs) @ '' records with data'')) (map created_in rs) s1 = (Inr row, s2)"
      by (auto simp: bind_op_Inr basic_eval)
    have "fresh_ids s2 \<and> audited (work s) (work s2) (cs_id row) \<and> log_step s s2 \<and> t_records (work s2) = t_records (work s1)
      \<and> t_fields (work s2) = t_fields (work s1)"
      by (rule created_tail[OF ap' L fresh _ _ False]) (use A B N in auto)
    then show ?thesis by blast
  qed
  have D: "committed s' = work s'" "fresh_ids s'" "work s' = work s2" using C s' by (simp_all add: fresh_ids_def gen_id_def)
  show ?thesis
    by (rule exI[of _ autos], rule exI[of _ rows], rule exI[of _ rs], rule exI[of _ s0])
       (use nm al A B C D N in auto)
qed

section \<open>Deletion\<close>

lemma look_map: "(\<And>x. tkey (h x) = tkey x) \<Longrightarrow> look (map h rs) k = map_option h (look rs k)"
  by (induction rs) (auto simp: look_tkey)

text \<open>A record after the cleanup of the links to \<open>(tbl, i)\<close>.\<close>

definition unlink :: "tables \<Rightarrow> string \<times> string \<Rightarrow> table_record \<Rightarrow> table_record" where
  "unlink t del x = fst (cleaned (links_to t (fst del) (rec_table x)) del x)"

definition unlink_items :: "tables \<Rightarrow> string \<times> string \<Rightarrow> table_record \<Rightarrow> change_in list" where
  "unlink_items t del x = snd (cleaned (links_to t (fst del) (rec_table x)) del x)"

lemma unlink_key [simp]: "tkey (unlink t del x) = tkey x" "rec_key (unlink t del x) = rec_key x"
  by (simp_all add: unlink_def)

lemma unlink_same: "unlink_items t del x = [] \<Longrightarrow> unlink t del x = x"
  by (auto simp: unlink_def unlink_items_def cleaned_def split: sum.splits if_splits prod.splits)

lemma unlink_deleted: "tkey x = del \<Longrightarrow> unlink_items t del x = []"
  by (simp add: unlink_items_def cleaned_def)

lemma unlink_items_cases:
  assumes "it \<in> set (unlink_items t del x)"
  shows "in_key it = tkey x" "unlink_items t del x = [it]" "rec_table x \<noteq> []" "tkey x \<noteq> del" "in_table it = rec_table x"
    "in_etype it = ''record''" "in_before it = Some (rec_data x)" "in_after it = Some (rec_data (unlink t del x))"
    "in_vafter it = Some (record_version x + 1)" "record_version (unlink t del x) = record_version x + 1"
proof -
  from assms obtain nd ch where c: "cleaned (links_to t (fst del) (rec_table x)) del x
      = (x\<lparr>rec_data := nd, rec_version := record_version x + 1\<rparr>, [unlinked_in x nd ch])" "tkey x \<noteq> del"
    by (auto simp: unlink_items_def cleaned_def split: sum.splits if_splits prod.splits)
  have ne: "links_to t (fst del) (rec_table x) \<noteq> []"
    using assms by (auto simp: unlink_items_def)
  have it: "it = unlinked_in x nd ch" "unlink_items t del x = [it]" "unlink t del x = x\<lparr>rec_data := nd, rec_version := record_version x + 1\<rparr>"
    using assms c by (auto simp: unlink_items_def unlink_def)
  show "rec_table x \<noteq> []" using ne by (auto simp: links_to_def)
  show "in_key it = tkey x" "in_table it = rec_table x" "in_etype it = ''record''" "in_before it = Some (rec_data x)"
    "in_after it = Some (rec_data (unlink t del x))" "in_vafter it = Some (record_version x + 1)"
    using it by (simp_all add: unlinked_in_def in_key_def tkey_def)
  show "unlink_items t del x = [it]" "tkey x \<noteq> del" using it c by simp_all
  show "record_version (unlink t del x) = record_version x + 1" using version_pos[of x] by (simp add: it(3)) (simp add: record_version_def)
qed

lemma distinct_grouped:
  "distinct gs \<Longrightarrow> distinct (map key R) \<Longrightarrow> distinct (concat (map (\<lambda>g. map key (filter (\<lambda>x. P x \<and> grp x = g) R)) gs))"
proof (induction gs)
  case (Cons g gs)
  have "distinct (map key (filter (\<lambda>x. P x \<and> grp x = g) R))" using Cons.prems(2) by (rule distinct_map_filterI)
  moreover have "key ` {x \<in> set R. P x \<and> grp x = g} \<inter> (\<Union>g'\<in>set gs. key ` {x \<in> set R. P x \<and> grp x = g'}) = {}"
    using Cons.prems by (auto simp: distinct_map inj_on_def)
  ultimately show ?case using Cons by auto
qed simp

lemma links_to_listed:
  assumes "links_to t target tbl \<noteq> []"
  shows "tbl \<in> fst ` set (group_by_table [] (targeting_fields t target))"
proof -
  have "(case map_of (group_by_table [] (targeting_fields t target)) tbl of None \<Rightarrow> [] | Some ys \<Rightarrow> ys) = links_to t target tbl"
    using map_of_group_by[of "[]" "targeting_fields t target" tbl] by (simp add: links_to_def)
  with assms obtain ys where "map_of (group_by_table [] (targeting_fields t target)) tbl = Some ys"
    by (cases "map_of (group_by_table [] (targeting_fields t target)) tbl") auto
  then show ?thesis by (metis fst_conv image_eqI map_of_SomeD)
qed

text \<open>The entries the cleanup collects, as a set and without repeated keys.\<close>

lemma related_items:
  assumes "distinct (map rec_key (t_records t))"
    and its: "its = concat (map (\<lambda>tbl. concat (map (\<lambda>r. snd (cleaned (links_to t (fst del) tbl) del r))
          (filter (\<lambda>r. rec_table r = tbl) (t_records t)))) (map fst (group_by_table [] (targeting_fields t (fst del)))))"
  shows "set its = (\<Union>x\<in>set (t_records t). set (unlink_items t del x))" "distinct (map in_key its)"
proof -
  let ?gs = "map fst (group_by_table [] (targeting_fields t (fst del)))"
  have dg: "distinct ?gs" by (rule group_by_distinct) simp
  have e: "map (\<lambda>r. snd (cleaned (links_to t (fst del) tbl) del r)) (filter (\<lambda>r. rec_table r = tbl) (t_records t))
      = map (unlink_items t del) (filter (\<lambda>r. rec_table r = tbl) (t_records t))" for tbl
    by (auto simp: unlink_items_def)
  have its': "its = concat (map (\<lambda>tbl. concat (map (unlink_items t del) (filter (\<lambda>r. rec_table r = tbl) (t_records t)))) ?gs)"
    unfolding its e ..
  show "set its = (\<Union>x\<in>set (t_records t). set (unlink_items t del x))"
  proof (rule set_eqI, rule iffI)
    fix it assume "it \<in> (\<Union>x\<in>set (t_records t). set (unlink_items t del x))"
    then obtain x where x: "x \<in> set (t_records t)" "it \<in> set (unlink_items t del x)" by blast
    then have "links_to t (fst del) (rec_table x) \<noteq> []" by (auto simp: unlink_items_def)
    from links_to_listed[OF this] x show "it \<in> set its" by (auto simp: its' intro!: bexI[of _ x])
  qed (auto simp: its')
  have one: "map in_key (unlink_items t del x) = (if unlink_items t del x \<noteq> [] then [tkey x] else [])" for x
  proof (cases "unlink_items t del x")
    case (Cons it rest)
    then have "it \<in> set (unlink_items t del x)" by simp
    from unlink_items_cases(1,2)[OF this] show ?thesis by simp
  qed simp
  have k: "map in_key its = concat (map (\<lambda>tbl. map tkey (filter (\<lambda>x. unlink_items t del x \<noteq> [] \<and> rec_table x = tbl) (t_records t))) ?gs)"
    by (simp add: its' map_concat comp_def one concat_map_if conj_commute)
  have dt: "distinct (map tkey (t_records t))" using assms(1) by (simp add: distinct_map inj_on_def rec_key_tkey)
  show "distinct (map in_key its)" unfolding k by (rule distinct_grouped[OF dg dt])
qed

lemma delete_audited:
  assumes r: "look (t_records t) k = Some r" "fst k \<noteq> []" and d: "distinct (map rec_key (t_records t))"
    and its: "set its = (\<Union>x\<in>set (t_records t). set (unlink_items t k x))"
    and R: "t_records t' = filter (\<lambda>x. \<not> rec_key x = rec_key r) (map (unlink t k) (t_records t))"
    and e: "entry_at t' cs k = Some (recycled r user cs rid now)"
    and it: "it \<in> set (deleted_in r # its)"
  shows "in_fits t t' cs it"
proof -
  from look_Some[OF r(1)] have k: "tkey r = k" by simp
  then have kk: "k = (rec_table r, rec_id r)" by (simp add: tkey_def)
  have L: "look (t_records t') k' = (if k' = k then None else map_option (unlink t k) (look (t_records t) k'))" for k'
    using look_delete[of r "map (unlink t k) (t_records t)" k'] look_map[of "unlink t k" "t_records t" k'] k by (simp add: R)
  show ?thesis
  proof (cases "it = deleted_in r")
    case True
    have "int_or (Some (record_version r + 1)) v = record_version r + 1" for v
      using version_pos[of r] by (simp add: int_or_def)
    moreover have "rec_table r \<noteq> []" using r(2) kk by simp
    ultimately show ?thesis unfolding True in_fits_def in_key_simps k
      using L r(1) e by (simp add: deleted_in_def data_at_def recycled_def)
  next
    case False
    with it its obtain x where x: "x \<in> set (t_records t)" "it \<in> set (unlink_items t k x)" by auto
    note c = unlink_items_cases[OF x(2)]
    have "look (t_records t) (tkey x) = Some x" using look_unique[OF d x(1)] .
    with L[of "tkey x"] c(4) have "look (t_records t') (tkey x) = Some (unlink t k x)" by simp
    then show ?thesis using c \<open>look (t_records t) (tkey x) = Some x\<close> version_pos[of x]
      by (auto simp: in_fits_def data_at_def int_or_def)
  qed
qed

lemma delete_record_run:
  assumes run: "delete_record T i user aty src tr s = (Inr y, s')" and fresh: "fresh_ids s" and keys: "keys_ok (work s)"
  shows "(look (t_records (work s)) (normalize_table_id T, i) = None \<and> y = False \<and> s' = s)
    \<or> (\<exists>r cs rid now. look (t_records (work s)) (normalize_table_id T, i) = Some r \<and> y = True
        \<and> committed s' = work s' \<and> fresh_ids s' \<and> audited (work s) (work s') cs
        \<and> t_records (work s') = filter (\<lambda>x. \<not> rec_key x = rec_key r) (map (unlink (work s) (normalize_table_id T, i)) (t_records (work s)))
        \<and> t_recycle (work s') = t_recycle (work s) @ [recycled r user cs rid now] \<and> cs \<noteq> [] \<and> Some cs \<notin> rb_set ` set (t_recycle (work s))
        \<and> t_fields (work s') = t_fields (work s)
        \<and> (\<forall>x\<in>set (t_records (work s)). links_ok (links_to (work s) (normalize_table_id T) (rec_table x)) (normalize_table_id T, i) x))"
proof (cases "look (t_records (work s)) (normalize_table_id T, i)")
  case None
  with run show ?thesis by (simp add: delete_record_def Let_def find_record_look op_eval)
next
  case (Some r)
  let ?k = "(normalize_table_id T, i)"
  from look_Some[OF Some] have tk: "tkey r = ?k" by simp
  then have ne: "rec_table r \<noteq> []" by (simp add: tkey_def)
  from run Some obtain related s1 row s2 rid now s3 where
    cl: "cleanup_deleted_relation_references_db (normalize_table_id T) i s = (Inr related, s1)"
    and ap: "append_change_set (record_req (normalize_table_id T) user ''delete'' aty src tr (''Delete record '' @ i)) (deleted_in r # related) s1 = (Inr row, s2)"
    and rid: "rid = gen_id s2 ''rcy'' (uuid_pos s2)"
    and s3: "s3 = s2\<lparr>uuid_pos := Suc (uuid_pos s2), clock_pos := Suc (clock_pos s2),
        work := t_records_update (filter (\<lambda>x. \<not> rec_key x = rec_key r)) (t_recycle_update (\<lambda>rs. rs @ [recycled r user (cs_id row) rid now]) (work s2))\<rparr>"
    and s': "s' = s3\<lparr>committed := work s3\<rparr>" "y = True"
    by (auto simp: delete_record_def Let_def find_record_look bind_op_Inr basic_eval new_id_eval then_op_def insert_row_Inr
        delete_rows_eval gen_id_def)
  have d: "distinct (map rec_key (t_records (work s)))" by (rule tr.keys_get[OF keys])
  note c = cleanup_run[OF cl d]
  have s1: "s1 = on_records (unlink (work s) ?k) s" unfolding c(1) unlink_def by simp
  note rel = related_items[OF d, of related ?k] 
  have rel1: "set related = (\<Union>x\<in>set (t_records (work s)). set (unlink_items (work s) ?k x))" and rel2: "distinct (map in_key related)"
    using rel c(2) by simp_all
  have ls1: "log_step s s1" unfolding s1 by (rule log_step_same_log) (auto simp: log_ids_def)
  have f1: "fresh_ids s1" by (rule log_step_fresh[OF ls1 fresh])
  note st = append_step[OF ap f1 record_req_simps(1)]
  from st(5) have w2: "t_records (work s2) = t_records (work s1)" "t_recycle (work s2) = t_recycle (work s)" "t_fields (work s2) = t_fields (work s)"
    by (auto simp: s1)
  have nu: "Some (cs_id row) \<notin> rb_set ` set (t_recycle (work s))" using st(4) by (auto simp: log_ids_def s1)
  have w3: "t_records (work s3) = filter (\<lambda>x. \<not> rec_key x = rec_key r) (map (unlink (work s) ?k) (t_records (work s)))"
    "t_recycle (work s3) = t_recycle (work s) @ [recycled r user (cs_id row) rid now]"
    "t_sets (work s3) = t_sets (work s2)" "t_changes (work s3) = t_changes (work s2)" "t_fields (work s3) = t_fields (work s)"
    by (simp_all add: s3 w2 s1)
  have f3: "fresh_ids s3"
  proof (rule fresh_grow[OF st(2)])
    have "rid \<in> issued_ids s3" using gen_issued[of "''rcy''" "uuid_pos s2" s3] by (simp add: rid s3 gen_id_def)
    moreover have "cs_id row \<in> log_ids (work s2)" using st(5) by (auto simp: log_ids_def)
    ultimately show "log_ids (work s3) \<subseteq> log_ids (work s2) \<union> issued_ids s3"
      by (auto simp: log_ids_def s3 recycled_def)
  qed (simp_all add: s3)
  have e: "entry_at (work s3) (cs_id row) ?k = Some (recycled r user (cs_id row) rid now)"
  proof -
    have "find (\<lambda>x. rb_table x = fst ?k \<and> rb_record x = snd ?k \<and> rb_set x = Some (cs_id row) \<and> rb_status x = ''deleted'') (t_recycle (work s)) = None"
      using nu by (auto simp: find_None_iff image_iff)
    then show ?thesis using tk
      by (simp add: entry_at_def deleted_entry_for_change_def select_first_def w3 find_append recycled_def tkey_def)
  qed
  have L: "look (t_records (work s3)) k' = (if k' = ?k then None else map_option (unlink (work s) ?k) (look (t_records (work s)) k'))" for k'
    using look_delete[of r "map (unlink (work s) ?k) (t_records (work s))" k'] look_map[of "unlink (work s) ?k" "t_records (work s)" k'] tk
    by (simp add: w3)
  have "audited (work s) (work s3) (cs_id row)"
  proof (rule append_audited[OF ap f1 record_req_simps(1)])
    have "?k \<notin> in_key ` set related"
      using unlink_items_cases(1,4) by (fastforce simp: rel1)
    then show "distinct (map in_key (deleted_in r # related))" using rel2 tk by simp
    show "\<forall>it\<in>set (deleted_in r # related). in_fits (work s) (work s3) (cs_id row) it"
      using delete_audited[OF Some _ d rel1 w3(1) e] by auto
    show "\<forall>k. k \<notin> in_key ` set (deleted_in r # related) \<longrightarrow> data_at (work s3) k = data_at (work s) k"
    proof (intro allI impI)
      fix k assume nk: "k \<notin> in_key ` set (deleted_in r # related)"
      then have kk: "k \<noteq> ?k" using tk by auto
      show "data_at (work s3) k = data_at (work s) k"
      proof (cases "look (t_records (work s)) k")
        case None
        with L[of k] show ?thesis by (simp add: data_at_def)
      next
        case (Some x)
        from look_Some[OF this] have x: "x \<in> set (t_records (work s))" "tkey x = k" by auto
        have "unlink_items (work s) ?k x = []"
        proof (rule ccontr)
          assume "unlink_items (work s) ?k x \<noteq> []"
          then obtain it where it: "it \<in> set (unlink_items (work s) ?k x)" by (cases "unlink_items (work s) ?k x") auto
          with unlink_items_cases(1)[OF it] x rel1 nk show False by (metis UN_I image_eqI list.set_intros(2))
        qed
        with unlink_same L[of k] kk Some show ?thesis by (simp add: data_at_def)
      qed
    qed
  qed (use w3 in auto)
  from audited_commit[OF f3 this s'(1)]
  have D: "committed s' = work s' \<and> fresh_ids s' \<and> audited (work s) (work s') (cs_id row)" .
  have "work s' = work s3" using s' by simp
  with D w3 c(3) s'(2) st(6) nu Some show ?thesis
    by (intro disjI2 exI[of _ r] exI[of _ "cs_id row"] exI[of _ rid] exI[of _ now]) auto
qed

section \<open>All record writes\<close>

text \<open>The seven writes of the record store, with their arguments.\<close>

datatype record_write =
    CreateOne "string option" "int option"
  | CreateMany "string option" int "int option"
  | CreateWith "string option" "dict list" "int option"
  | UpdateOne "string option" string string pyval "int option"
  | UpdateFields "string option" string dict "int option"
  | Patch "string option" "dict list" "int option"
  | Delete "string option" string "int option"

definition ignore :: "'a op \<Rightarrow> unit op" where
  "ignore m = bind_op m (\<lambda>_. ret ())"

fun run_write :: "string \<Rightarrow> string \<Rightarrow> string option \<Rightarrow> template \<Rightarrow> record_write \<Rightarrow> unit op" where
  "run_write aty src tr blank (CreateOne T u) = ignore (create_record T u aty src tr blank)"
| "run_write aty src tr blank (CreateMany T n u) = ignore (create_records T n u aty src tr blank)"
| "run_write aty src tr blank (CreateWith T rows u) = ignore (create_records_with_data T rows u aty src tr blank)"
| "run_write aty src tr blank (UpdateOne T i f v u) = ignore (update_record T i f v u aty src tr)"
| "run_write aty src tr blank (UpdateFields T i d u) = ignore (update_record_fields T i d u aty src tr)"
| "run_write aty src tr blank (Patch T ps u) = ignore (apply_record_patches T ps u aty src tr)"
| "run_write aty src tr blank (Delete T i u) = ignore (delete_record T i u aty src tr)"

fun creates_in :: "record_write \<Rightarrow> string option option" where
  "creates_in (CreateOne T u) = Some T"
| "creates_in (CreateMany T n u) = Some T"
| "creates_in (CreateWith T rows u) = Some T"
| "creates_in _ = None"

text \<open>
  Unused identifiers, unique keys, and the table of a creation has its fields (a table
  without fields is initialised first, in a transaction of its own).
\<close>

definition write_ready :: "record_write \<Rightarrow> session \<Rightarrow> bool" where
  "write_ready w s \<longleftrightarrow> fresh_ids s \<and> keys_ok (work s)
     \<and> (case creates_in w of None \<Rightarrow> True | Some T \<Rightarrow> table_has_data (work s) (normalize_table_id T))"

lemma ignore_Inr: "ignore m s = (Inr x, s') \<longleftrightarrow> (\<exists>y. m s = (Inr y, s'))"
  by (auto simp: ignore_def bind_op_Inr basic_eval)

lemma ignore_Inl: "ignore m s = (Inl e, s') \<longleftrightarrow> m s = (Inl e, s')"
  by (auto simp: ignore_def bind_op_Inl basic_eval)

lemma same_data: "(\<And>k. look (t_records t') k = look (t_records t) k) \<Longrightarrow> data_at t' = data_at t"
  by (simp add: data_at_def fun_eq_iff)

lemma write_audited:
  assumes "write_ready w s" "run_write aty src tr blank w s = (Inr x, s')"
  shows "fresh_ids s' \<and> (s' = s \<or> committed s' = work s' \<and>
      (data_at (work s') = data_at (work s) \<or> (\<exists>cs. audited (work s) (work s') cs)))"
proof (cases w)
  case (CreateOne T u)
  with assms create_record_run[of T u aty src tr blank s _ s'] show ?thesis
    by (auto simp: ignore_Inr write_ready_def)
next
  case (CreateMany T n u)
  with assms create_records_run[of T n u aty src tr blank s _ s'] show ?thesis
    by (auto simp: ignore_Inr write_ready_def)
next
  case (CreateWith T rows u)
  with assms create_with_data_run[of T rows u aty src tr blank s _ s'] show ?thesis
    by (auto simp: ignore_Inr write_ready_def intro!: same_data)
next
  case (UpdateOne T i f v u)
  with assms update_record_run[of T i f v u aty src tr s _ s'] show ?thesis
    by (auto simp: ignore_Inr write_ready_def split: if_splits)
next
  case (UpdateFields T i d u)
  with assms update_fields_run[of T i d u aty src tr s _ s'] show ?thesis
    by (auto simp: ignore_Inr write_ready_def Let_def split: if_splits)
next
  case (Patch T ps u)
  with assms apply_patches_run[of T ps u aty src tr s _ s'] show ?thesis
    by (auto simp: ignore_Inr write_ready_def intro!: same_data)
next
  case (Delete T i u)
  with assms delete_record_run[of T i u aty src tr s _ s'] show ?thesis
    by (auto simp: ignore_Inr write_ready_def)
qed

lemma new_record_id_no_commit [no_commit_intro, keeps_intro]:
  "no_commit new_record_id" "keeps I new_record_id"
  unfolding new_record_id_def by (auto intro!: no_commit_intro keeps_intro)

lemma allocate_fields_rules [no_commit_intro, keeps_intro]:
  "no_commit (allocate_fields flds n)" "keeps keys_ok (allocate_fields flds n)"
  by (induction flds) (auto intro!: no_commit_intro keeps_intro simp: fld_key_def split: prod.splits)

lemma add_record_rules [no_commit_intro, keeps_intro]:
  "no_commit (add_record tbl c mx flds autos ir)" "keeps keys_ok (add_record tbl c mx flds autos ir)"
  unfolding add_record_def Let_def by (auto intro!: no_commit_intro keeps_intro split: prod.splits)

lemma write_record_rules [no_commit_intro]: "no_commit (write_record r)"
  unfolding write_record_def by (rule no_commit_rows)

lemma write_record_keeps [keeps_intro]: "keeps keys_ok (write_record r)"
proof -
  have "keys_ok (t_records_update (map (\<lambda>x. if rec_key x = rec_key r then r else x)) t)" if k: "keys_ok t" for t
  proof (rule tr.keys_upd[OF k])
    have "map rec_key (map (\<lambda>x. if rec_key x = rec_key r then r else x) (t_records t)) = map rec_key (t_records t)" by simp
    then show "distinct (map rec_key (map (\<lambda>x. if rec_key x = rec_key r then r else x) (t_records t)))"
      using tr.keys_get[OF k] by (simp only:)
  qed
  then show ?thesis by (simp add: keeps_def write_record_run)
qed

lemma patch_record_rules [no_commit_intro, keeps_intro]:
  "no_commit (patch_record rs ps i)" "keeps keys_ok (patch_record rs ps i)"
  unfolding patch_record_def Let_def by (auto intro!: no_commit_intro keeps_intro split: option.splits)

lemmas record_write_defs = update_record_def update_record_fields_def apply_record_patches_def delete_record_def
  create_record_def create_records_def create_records_with_data_def Let_def

lemma write_keeps_keys: "keeps keys_ok (run_write aty src tr blank w)"
  by (cases w) (auto simp: ignore_def record_write_defs intro!: keeps_intro split: option.splits)

lemma ignore_atomic: "atomic_op m \<Longrightarrow> ignore m s = (Inl e, s') \<Longrightarrow> committed s' = committed s"
  by (auto simp: ignore_Inl atomic_op_def)

lemma creation_atomic:
  "bind_op (get_record_creation_fields tbl blank) f s = (Inl e, s') \<Longrightarrow> table_has_data (work s) tbl \<Longrightarrow> (\<And>x. atomic_op (f x))
    \<Longrightarrow> committed s' = committed s"
  by (auto simp: creation_fields bind_op_Inl atomic_op_def)

lemma write_atomic:
  assumes "write_ready w s" "run_write aty src tr blank w s = (Inl e, s')"
  shows "committed s' = committed s"
proof -
  have upd: "atomic_op (update_record T i f v u aty src tr)" "atomic_op (update_record_fields T i d u aty src tr)"
    "atomic_op (apply_record_patches T ps u aty src tr)" "atomic_op (delete_record T i u aty src tr)" for T i f v u d ps
    unfolding record_write_defs
    by (rule atomic_steps | rule no_commit_intro no_commit_cases | rule atomic_no_commit)+
  show ?thesis
  proof (cases w)
    case (CreateOne T u)
    with assms have r: "create_record T u aty src tr blank s = (Inl e, s')" and t: "table_has_data (work s) (normalize_table_id T)"
      by (auto simp: ignore_Inl write_ready_def)
    show ?thesis
      by (rule creation_atomic[OF r[unfolded create_record_def Let_def] t])
        (rule atomic_steps | rule no_commit_intro no_commit_cases | rule atomic_no_commit)+
  next
    case (CreateMany T n u)
    with assms have r: "create_records T n u aty src tr blank s = (Inl e, s')" and t: "table_has_data (work s) (normalize_table_id T)"
      by (auto simp: ignore_Inl write_ready_def)
    show ?thesis
      by (rule creation_atomic[OF r[unfolded create_records_def Let_def] t])
        (rule atomic_steps | rule no_commit_intro no_commit_cases | rule atomic_no_commit)+
  next
    case (CreateWith T rows u)
    with assms have r: "create_records_with_data T rows u aty src tr blank s = (Inl e, s')" and t: "table_has_data (work s) (normalize_table_id T)"
      by (auto simp: ignore_Inl write_ready_def)
    show ?thesis
      by (rule creation_atomic[OF r[unfolded create_records_with_data_def Let_def] t])
        (rule atomic_steps | rule no_commit_intro no_commit_cases | rule atomic_no_commit)+
  qed (use assms in \<open>auto dest: ignore_atomic[OF upd(1)] ignore_atomic[OF upd(2)] ignore_atomic[OF upd(3)] ignore_atomic[OF upd(4)]\<close>)
qed

interpretation rw: audited_write "run_write aty src tr blank w" "write_ready w" for aty src tr blank w
  using write_audited write_atomic by unfold_locales

subsection \<open>The table a creation writes to\<close>

text \<open>
  A creation first reads the fields of its table. A table without fields is initialised there from the
  template and committed before the creation goes on: its records get the template's field ids as
  empty values, and no change set says so.
\<close>

definition open_table :: "template \<Rightarrow> record_write \<Rightarrow> unit op" where
  "open_table blank w = (case creates_in w of
       None \<Rightarrow> ret ()
     | Some T \<Rightarrow> ignore (get_record_creation_fields (normalize_table_id T) blank))"

text \<open>What the initialisation of table \<open>T\<close> leaves as it was: the log, every other table, and in the
  records of \<open>T\<close> every value they have.\<close>

definition row_kept :: "bool \<Rightarrow> dict option \<Rightarrow> dict option \<Rightarrow> bool" where
  "row_kept other old new \<longleftrightarrow> (if other then new = old else case old of
       None \<Rightarrow> True
     | Some d \<Rightarrow> (\<exists>d'. new = Some d' \<and> (\<forall>i. dhas d i \<longrightarrow> dhas d' i \<and> dget d' i = dget d i)))"

definition opened :: "string \<Rightarrow> tables \<Rightarrow> tables \<Rightarrow> bool" where
  "opened T t t' \<longleftrightarrow> t_sets t' = t_sets t \<and> t_changes t' = t_changes t \<and> t_recycle t' = t_recycle t
     \<and> (\<forall>k. row_kept (fst k \<noteq> T) (data_at t k) (data_at t' k))"

definition opens :: "record_write \<Rightarrow> session \<Rightarrow> session \<Rightarrow> bool" where
  "opens w s s0 \<longleftrightarrow> (case creates_in w of
       None \<Rightarrow> s0 = s
     | Some T \<Rightarrow> table_has_data (work s0) (normalize_table_id T)
         \<and> (if table_has_data (work s) (normalize_table_id T) then s0 = s
            else committed s0 = work s0 \<and> opened (normalize_table_id T) (work s) (work s0)))"

lemma row_kept_refl [simp]: "row_kept b x x"
  by (simp add: row_kept_def split: option.splits)

lemma row_kept_trans: "row_kept b x y \<Longrightarrow> row_kept b y z \<Longrightarrow> row_kept b x z"
  by (cases b; cases x; cases y) (auto simp: row_kept_def)

lemma opened_refl: "opened T t t"
  by (simp add: opened_def)

lemma opened_step:
  assumes "opened T t0 t" "t_sets t' = t_sets t" "t_changes t' = t_changes t" "t_recycle t' = t_recycle t"
    and "\<And>k. row_kept (fst k \<noteq> T) (data_at t k) (data_at t' k)"
  shows "opened T t0 t'"
  using assms row_kept_trans unfolding opened_def by metis

lemma opened_other [simp]:
  "opened T t0 (t_fields_update f t) = opened T t0 t" "opened T t0 (t_views_update g t) = opened T t0 t"
  "opened T t0 (t_filters_update h t) = opened T t0 t" "opened T t0 (t_sorts_update i t) = opened T t0 t"
  "opened T t0 (t_groups_update j t) = opened T t0 t"
  by (simp_all add: opened_def data_at_def)

lemma opened_insert:
  assumes "opened T t0 t" "rec_table r = T"
  shows "opened T t0 (t_records_update (\<lambda>rs. rs @ [r]) t)"
proof (rule opened_step[OF assms(1)])
  fix k
  show "row_kept (fst k \<noteq> T) (data_at t k) (data_at (t_records_update (\<lambda>rs. rs @ [r]) t) k)"
    using assms(2) by (auto simp: row_kept_def data_at_def look_append tkey_def split: option.splits)
qed simp_all

lemma foldl_keeps: "(\<And>d x. P d \<Longrightarrow> P (g d x)) \<Longrightarrow> P d \<Longrightarrow> P (foldl g d xs)"
  by (induction xs arbitrary: d) simp_all

lemma backfill_keeps: "dhas d i \<Longrightarrow> dhas (backfill flds d) i \<and> dget (backfill flds d) i = dget d i"
  unfolding backfill_def by (rule foldl_keeps[where P = "\<lambda>e. dhas e i \<and> dget e i = dget d i"]) (auto split: prod.splits)

lemma opened_backfill:
  assumes "opened T t0 t"
  shows "opened T t0 (t_records_update (map (\<lambda>r. if rec_table r = T then r\<lparr>rec_data := backfill flds (rec_data r)\<rparr> else r)) t)"
proof (rule opened_step[OF assms])
  fix k
  let ?h = "\<lambda>r. if rec_table r = T then r\<lparr>rec_data := backfill flds (rec_data r)\<rparr> else r"
  have l: "look (map ?h (t_records t)) k = map_option ?h (look (t_records t) k)"
    by (rule look_map) (simp add: tkey_def)
  show "row_kept (fst k \<noteq> T) (data_at t k) (data_at (t_records_update (map ?h) t) k)"
  proof (cases "look (t_records t) k")
    case None
    then show ?thesis by (simp add: row_kept_def data_at_def l)
  next
    case (Some x)
    from look_Some[OF this] have "rec_table x = fst k" by (auto simp: tkey_def)
    with Some backfill_keeps[of "rec_data x" _ flds] show ?thesis by (auto simp: row_kept_def data_at_def l)
  qed
qed simp_all

lemma init_opened: "inv_ok (opened T t0) (init_table_db T st)"
  unfolding init_table_db_def init_content_def init_record_def init_filter_def init_sort_def new_record_id_def millis_def
    init_field_def init_view_def Let_def
  by (auto intro!: inv_intro opened_insert opened_backfill split: prod.splits pyval.splits)

text \<open>An operation that only draws further ids.\<close>

definition advances :: "'a op \<Rightarrow> bool" where
  "advances m \<longleftrightarrow> (\<forall>s. uuids (snd (m s)) = uuids s \<and> uuid_pos s \<le> uuid_pos (snd (m s)))"

named_theorems advances_intro \<open>operations that only draw further ids\<close>

lemma advances_bind [advances_intro]:
  assumes "advances m" "\<And>x. advances (f x)"
  shows "advances (bind_op m f)"
  unfolding advances_def
proof
  fix s
  obtain r s1 where m: "m s = (r, s1)" by fastforce
  then have "uuids s1 = uuids s" "uuid_pos s \<le> uuid_pos s1" using assms(1) by (metis advances_def snd_conv)+
  with m assms(2) show "uuids (snd (bind_op m f s)) = uuids s \<and> uuid_pos s \<le> uuid_pos (snd (bind_op m f s))"
    by (cases r) (auto simp: bind_op_def advances_def intro: order_trans)
qed

lemma advances_then [advances_intro]: "advances m \<Longrightarrow> advances n \<Longrightarrow> advances (then_op m n)"
  unfolding then_op_def by (rule advances_bind)

lemma advances_basic [advances_intro]:
  "advances (ret x)" "advances (throw e)" "advances (reads q)" "advances (of_res r)" "advances commit" "advances uuid_hex" "advances utcnow"
  "advances (insert_row get upd key y)" "advances (update_rows upd P g)"
  by (auto simp: advances_def op_eval insert_row_def split: sum.splits)

lemma advances_map_op [advances_intro]: "(\<And>x. advances (f x)) \<Longrightarrow> advances (map_op f xs)"
  by (induction xs) (auto intro!: advances_intro)

lemma init_advances: "advances (init_table_db T st)"
  unfolding init_table_db_def init_content_def init_record_def init_filter_def init_sort_def new_record_id_def millis_def
    init_field_def init_view_def Let_def
  by (auto intro!: advances_intro split: prod.splits pyval.splits)

lemma init_commits: "init_table_db T st s = (Inr b, s') \<Longrightarrow> \<not> table_has_data (work s) T \<Longrightarrow> committed s' = work s'"
  by (auto simp: init_table_db_def Let_def bind_op_Inr then_op_def basic_eval table_has_data_def select_first_def select_def
      find_None_iff filter_empty_conv split: if_splits)

lemma creation_fields_run:
  assumes run: "get_record_creation_fields tbl blank s = (Inr flds, s0)" and k: "fresh_ids s" "keys_ok (work s)" "keys_ok (committed s)"
  shows "flds = ordered_fields (work s0) tbl" "fresh_ids s0" "keys_ok (work s0)" "table_has_data (work s0) tbl"
    "if table_has_data (work s) tbl then s0 = s else committed s0 = work s0 \<and> opened tbl (work s) (work s0)"
proof -
  have "flds = ordered_fields (work s0) tbl \<and> fresh_ids s0 \<and> keys_ok (work s0) \<and> table_has_data (work s0) tbl
    \<and> (if table_has_data (work s) tbl then s0 = s else committed s0 = work s0 \<and> opened tbl (work s) (work s0))"
  proof (cases "table_has_data (work s) tbl")
    case True
    with creation_fields[OF True, of blank] run k show ?thesis by simp
  next
    case False
    then have "ordered_fields (work s) tbl = []"
      by (auto simp: table_has_data_def ordered_fields_def select_first_def select_def find_None_iff filter_empty_conv simp flip: set_empty)
    with run obtain b where i: "init_table_db tbl blank s = (Inr b, s0)" and f: "flds = ordered_fields (work s0) tbl"
      by (auto simp: get_record_creation_fields_def bind_op_Inr then_op_def basic_eval)
    have o: "opened tbl (work s) (work s0)" using inv_okD[OF init_opened i opened_refl] .
    then have "log_ids (work s0) = log_ids (work s)" by (simp add: opened_def log_ids_def)
    moreover have "uuids s0 = uuids s" "uuid_pos s \<le> uuid_pos s0"
      using init_advances[of tbl blank] i unfolding advances_def by (metis snd_conv)+
    ultimately have "fresh_ids s0" using fresh_grow[OF k(1)] by simp
    with f o False init_commits[OF i False] keepsD[OF init_table_db_keeps i k(2,3)] init_idempotent[OF i, of blank] show ?thesis by simp
  qed
  then show "flds = ordered_fields (work s0) tbl" "fresh_ids s0" "keys_ok (work s0)" "table_has_data (work s0) tbl"
    "if table_has_data (work s) tbl then s0 = s else committed s0 = work s0 \<and> opened tbl (work s) (work s0)" by blast+
qed

lemma late_commit_error:
  fixes X :: "'x op" and Y :: "'y op" and Z :: "'z op"
  assumes "no_commit X" "no_commit Y" "no_commit Z"
    and run: "then_op X (then_op Y (bind_op Z (\<lambda>a. then_op (if c a then commit else ret ()) (ret (c a))))) s = (Inl e, s')"
  shows "committed s' = committed s"
proof -
  obtain x s1 where x: "X s = (x, s1)" by fastforce
  obtain y s2 where y: "Y s1 = (y, s2)" by fastforce
  obtain z s3 where z: "Z s2 = (z, s3)" by fastforce
  have "committed s1 = committed s" "committed s2 = committed s1" "committed s3 = committed s2"
    using assms(1-3) x y z by (metis no_commit_def snd_conv)+
  with run x y z show ?thesis
    by (cases x; cases y; cases z) (auto simp: then_op_eval bind_op_eval basic_eval split: if_splits)
qed

lemma init_error:
  assumes "init_table_db T st s = (Inl e, s')"
  shows "committed s' = committed s"
proof -
  have X: "no_commit (if b then then_op (map_op (init_field T) xs) (update_rows t_records_update P g) else ret ())" for b xs P g
    unfolding init_field_def by (auto intro!: no_commit_intro split: prod.splits)
  have Y: "no_commit (if b then bind_op (map_op (init_view T) xs) (\<lambda>_. ret ()) else ret ())" for b xs
    unfolding init_view_def by (auto intro!: no_commit_intro)
  have Z: "no_commit (if b then init_content T st else ret False)" for b
    unfolding init_content_def init_record_def init_filter_def init_sort_def new_record_id_def millis_def
    by (auto intro!: no_commit_intro split: prod.splits pyval.splits)
  have rd: "bind_op (reads q) h s = h (q (work s)) s" for q :: "tables \<Rightarrow> 'q" and h :: "'q \<Rightarrow> bool op" by (simp add: op_eval)
  note run = assms[unfolded init_table_db_def Let_def rd prod.case]
  show ?thesis by (rule late_commit_error[OF X Y Z run])
qed

lemma creation_fields_atomic: "get_record_creation_fields tbl blank s = (Inl e, s0) \<Longrightarrow> committed s0 = committed s"
  by (auto simp: get_record_creation_fields_def bind_op_Inl bind_op_Inr then_op_def basic_eval dest: init_error split: if_splits)

lemma ignore_bind: "ignore (bind_op m f) = bind_op m (\<lambda>x. ignore (f x))"
  by (rule ext) (auto simp: ignore_def bind_op_def split: prod.splits sum.splits)

lemma creation_as_open:
  assumes "creates_in w = Some T"
  shows "\<exists>f. run_write aty src tr blank w = bind_op (get_record_creation_fields (normalize_table_id T) blank) f"
proof (cases w)
  case (CreateOne T' u)
  with assms have T: "T' = T" by simp
  show ?thesis unfolding CreateOne T run_write.simps create_record_def Let_def ignore_bind by (intro exI) (rule refl)
next
  case (CreateMany T' n u)
  with assms have T: "T' = T" by simp
  show ?thesis unfolding CreateMany T run_write.simps create_records_def Let_def ignore_bind by (intro exI) (rule refl)
next
  case (CreateWith T' rows u)
  with assms have T: "T' = T" by simp
  show ?thesis unfolding CreateWith T run_write.simps create_records_with_data_def Let_def ignore_bind by (intro exI) (rule refl)
qed (use assms in simp_all)

text \<open>A write is the write of the session in which its table has been opened.\<close>

lemma run_opened:
  assumes run: "run_write aty src tr blank w s = (r, s')" and k: "fresh_ids s" "keys_ok (work s)" "keys_ok (committed s)"
  shows "\<exists>q s0. open_table blank w s = (q, s0) \<and> (case q of
      Inl e \<Rightarrow> r = Inl e \<and> s' = s0 \<and> committed s0 = committed s
    | Inr _ \<Rightarrow> opens w s s0 \<and> write_ready w s0 \<and> run_write aty src tr blank w s0 = (r, s'))"
proof (cases "creates_in w")
  case None
  with assms show ?thesis by (simp add: open_table_def opens_def write_ready_def basic_eval)
next
  case (Some T)
  let ?G = "get_record_creation_fields (normalize_table_id T) blank"
  obtain f where f: "run_write aty src tr blank w = bind_op ?G f" using creation_as_open[OF Some] by blast
  have o: "open_table blank w = ignore ?G" by (simp add: open_table_def Some)
  obtain g s0 where g: "?G s = (g, s0)" by fastforce
  show ?thesis
  proof (cases g)
    case (Inl e)
    with g run f creation_fields_atomic have "r = Inl e" "s' = s0" "committed s0 = committed s" "open_table blank w s = (Inl e, s0)"
      by (auto simp: o ignore_def bind_op_eval)
    then show ?thesis by auto
  next
    case (Inr flds)
    from creation_fields_run[OF g[unfolded Inr] k] have c: "flds = ordered_fields (work s0) (normalize_table_id T)" "write_ready w s0" "opens w s s0"
      and d: "table_has_data (work s0) (normalize_table_id T)" by (simp_all add: write_ready_def opens_def Some)
    have "?G s0 = (Inr flds, s0)" using creation_fields[OF d] c(1) by simp
    then have "run_write aty src tr blank w s0 = run_write aty src tr blank w s"
      unfolding f by (simp add: ignore_def bind_op_eval g Inr)
    moreover have "open_table blank w s = (Inr (), s0)" by (simp add: o ignore_def bind_op_eval g Inr basic_eval)
    ultimately show ?thesis using c run by auto
  qed
qed

text \<open>C8: every write of the record store (create one, many or with data, update one field or several, a patch batch, delete) is all or nothing and can be undone. A creation first opens its table: nothing happens when the table has fields; a table without fields is initialised and committed on its own (opens), which is outside the change log, keeps every value of every record, and is not taken back by what follows; if this raises, the write raises the same and the durable state is as before. From the session in which the table is open: when the write raises, the durable state is as it was there; when it returns, it either did nothing or its result is durable, and it either changed no record or left a change set whose undo always succeeds and gives every record of every table the data it had there. Identifiers still to be drawn are unused and keys are unique.\<close>

theorem record_writes_undoable:
  assumes "fresh_ids s" "keys_ok (work s)" "keys_ok (committed s)" "run_write aty src tr blank w s = (r, s')"
  shows "\<exists>q s0. open_table blank w s = (q, s0) \<and> (case q of
      Inl e \<Rightarrow> r = Inl e \<and> committed s' = committed s
    | Inr _ \<Rightarrow> opens w s s0
        \<and> (\<forall>e. r = Inl e \<longrightarrow> committed s' = committed s0)
        \<and> (\<forall>x. r = Inr x \<longrightarrow> s' = s0 \<or> committed s' = work s' \<and> (data_at (work s') = data_at (work s0)
            \<or> (\<exists>cs. \<forall>a aty src tr. \<exists>res s''. undo_change_set cs a aty src tr s' = (Inr res, s'')
                  \<and> committed s'' = work s'' \<and> (\<forall>k. data_at (work s'') k = data_at (work s0) k)))))"
proof -
  from run_opened[OF assms(4,1-3)] obtain q s0 where o: "open_table blank w s = (q, s0)" and
    c: "case q of Inl e \<Rightarrow> r = Inl e \<and> s' = s0 \<and> committed s0 = committed s
      | Inr _ \<Rightarrow> opens w s s0 \<and> write_ready w s0 \<and> run_write aty src tr blank w s0 = (r, s')" by blast
  show ?thesis
  proof (cases q)
    case (Inl e)
    with o c show ?thesis by auto
  next
    case (Inr u)
    with c have c': "opens w s s0" "write_ready w s0" "run_write aty src tr blank w s0 = (r, s')" by auto
    have "committed s' = committed s0" if "r = Inl e" for e using rw.fails c'(2,3) that by blast
    moreover have "s' = s0 \<or> committed s' = work s' \<and> (data_at (work s') = data_at (work s0)
        \<or> (\<exists>cs. \<forall>a aty src tr. \<exists>res s''. undo_change_set cs a aty src tr s' = (Inr res, s'')
              \<and> committed s'' = work s'' \<and> (\<forall>k. data_at (work s'') k = data_at (work s0) k)))" if "r = Inr x" for x
      using c' that rw.undone[of w s0 aty src tr blank x s'] rw.run[of w s0 aty src tr blank x s'] by blast
    ultimately show ?thesis using o Inr c'(1) by auto
  qed
qed

end
