(* ===== verification/RecordProps.thy ===== *)
theory RecordProps
  imports RecordStore
begin

text \<open>
  What the writes of the record store promise: the refinement of a map from record keys to
  data, the auto numbers, and deletion with its way back.
\<close>

declare split_paired_All [simp del] split_paired_Ex [simp del]

section \<open>A small world\<close>

text \<open>Table \<open>t\<close> with a text and an auto-number field, table \<open>u\<close> with links into \<open>t\<close>.\<close>

definition example_world :: tables where
  "example_world = empty_tables\<lparr>
     t_items := [\<lparr>itm_id = ''t'', itm_ws = ''w'', itm_type = ''table'', itm_name = ''A'', itm_parent = None, itm_order = 0, itm_view = None\<rparr>,
                 \<lparr>itm_id = ''u'', itm_ws = ''w'', itm_type = ''table'', itm_name = ''B'', itm_parent = None, itm_order = 1, itm_view = None\<rparr>],
     t_fields := [\<lparr>fld_id = ''f'', fld_table = ''t'', fld_name = ''F'', fld_type = ''text'', fld_options = PNone, fld_property = PNone, fld_order = 0\<rparr>,
                  \<lparr>fld_id = ''n'', fld_table = ''t'', fld_name = ''N'', fld_type = ''autoNumber'', fld_options = PNone,
                    fld_property = PDict [(''start'', PInt 5), (''nextNumber'', PInt 7)], fld_order = 1\<rparr>,
                  \<lparr>fld_id = ''l'', fld_table = ''u'', fld_name = ''L'', fld_type = ''relation'', fld_options = PNone,
                    fld_property = PDict [(''targetTableId'', PStr ''t'')], fld_order = 0\<rparr>],
     t_records := [\<lparr>rec_id = ''ra'', rec_table = ''t'', rec_data = [(''f'', PStr ''x''), (''n'', PInt 5)], rec_order = 1, rec_creator = Some 1, rec_version = 1\<rparr>,
                   \<lparr>rec_id = ''rb'', rec_table = ''t'', rec_data = [(''f'', PStr ''y''), (''n'', PInt 6)], rec_order = 2, rec_creator = Some 1, rec_version = 1\<rparr>,
                   \<lparr>rec_id = ''rc'', rec_table = ''u'', rec_data = [(''l'', PList [PStr ''ra'', PStr ''rb''])], rec_order = 1, rec_creator = None, rec_version = 1\<rparr>]\<rparr>"

definition example_session :: session where
  "example_session = session_of example_world"

lemma example_work [simp]: "work example_session = example_world"
  by (simp add: example_session_def)

lemma example_committed: "committed example_session = example_world"
  by (simp add: example_session_def session_of_def)

lemma example_fresh: "fresh_ids example_session"
  unfolding example_session_def by (rule fresh_session) (simp add: log_ids_def example_world_def empty_tables_def)

lemma example_keys: "keys_ok example_world"
  by (simp add: keys_ok_def example_world_def empty_tables_def fld_key_def rec_key_def)

lemma example_ready: "write_ready (Delete (Some ''t'') i a) example_session"
  by (simp add: write_ready_def example_fresh example_keys)

theorem record_writes_undoable_witness:
  "\<exists>s' cs res s''. run_write ''user'' ''api'' None example_template (Delete (Some ''t'') ''ra'' (Some 1)) example_session = (Inr (), s')
     \<and> undo_change_set cs None ''user'' ''undo'' None s' = (Inr res, s'')
     \<and> data_at (work s') (''u'', ''rc'') = Some [(''l'', PList [PStr ''rb''])]
     \<and> data_at (work s'') (''u'', ''rc'') = Some [(''l'', PList [PStr ''ra'', PStr ''rb''])]"
proof -
  let ?m = "run_write ''user'' ''api'' None example_template (Delete (Some ''t'') ''ra'' (Some 1))"
  obtain r s' where r: "?m example_session = (r, s')" by fastforce
  have "fst (?m example_session) = Inr ()" by code_simp
  with r have ok: "r = Inr ()" by simp
  have "data_at (work (snd (?m example_session))) (''u'', ''rc'') = Some [(''l'', PList [PStr ''rb''])]" by code_simp
  with r have d: "data_at (work s') (''u'', ''rc'') = Some [(''l'', PList [PStr ''rb''])]" by simp
  have b: "data_at example_world (''u'', ''rc'') = Some [(''l'', PList [PStr ''ra'', PStr ''rb''])]" by code_simp
  have "s' \<noteq> example_session" "data_at (work s') \<noteq> data_at example_world" using b d by auto
  with record_writes_undoable[OF example_fresh _ _ r] example_keys example_committed ok obtain cs where
    "\<forall>a aty src tr. \<exists>res s''. undo_change_set cs a aty src tr s' = (Inr res, s'')
       \<and> committed s'' = work s'' \<and> (\<forall>k. data_at (work s'') k = data_at example_world k)" by (auto simp: open_table_def opens_def basic_eval)
  then obtain res s'' where "undo_change_set cs None ''user'' ''undo'' None s' = (Inr res, s'')"
    "\<forall>k. data_at (work s'') k = data_at example_world k" by blast
  with r ok d b show ?thesis by metis
qed

section \<open>Auto numbers of created records\<close>

abbreviation is_auto :: "table_field \<Rightarrow> bool" where
  "is_auto f \<equiv> is_auto_number_field [(''type'', PStr (fld_type f))]"

abbreviation next_of :: "table_field \<Rightarrow> int" where
  "next_of f \<equiv> next_number (fld_property f)"

text \<open>A field of the table after an allocation of \<open>n\<close> numbers for the fields \<open>flds\<close>.\<close>

definition advanced :: "table_field list \<Rightarrow> int \<Rightarrow> table_field \<Rightarrow> table_field \<Rightarrow> bool" where
  "advanced flds n x y \<longleftrightarrow> fld_key y = fld_key x \<and> fld_type y = fld_type x
     \<and> (if \<exists>f\<in>set flds. is_auto f \<and> fld_key f = fld_key x
        then \<forall>f\<in>set flds. is_auto f \<and> fld_key f = fld_key x \<longrightarrow> next_of y = next_of f + max 0 n else y = x)"

lemma allocate_fields_spec:
  assumes "allocate_fields flds n s = (Inr autos, s1)" "distinct (map fld_key flds)"
  shows "map fst autos = map fld_id (filter is_auto flds)
    \<and> list_all2 (\<lambda>f a. snd a = [next_of f..next_of f + max 0 n - 1] \<and> 1 \<le> next_of f) (filter is_auto flds) autos
    \<and> list_all2 (advanced flds n) (t_fields (work s)) (t_fields (work s1))"
  using assms
proof (induction flds arbitrary: s autos)
  case Nil
  then show ?case by (auto simp: basic_eval advanced_def list_all2_same)
next
  case (Cons f flds)
  show ?case
  proof (cases "is_auto f")
    case False
    with Cons.prems have r: "allocate_fields flds n s = (Inr autos, s1)" and d: "distinct (map fld_key flds)" by simp_all
    have "advanced flds n x y \<Longrightarrow> advanced (f # flds) n x y" for x y using False by (auto simp: advanced_def split: if_splits)
    with Cons.IH[OF r d] False show ?thesis by (auto elim: list_all2_mono)
  next
    case True
    let ?g = "\<lambda>p x. if fld_key x = fld_key f then x\<lparr>fld_property := PDict p\<rparr> else x"
    from True Cons.prems(1) obtain nums p autos' where al: "allocate_auto_number_values (fld_property f) n = Inr (nums, p)"
      and rest: "allocate_fields flds n (s\<lparr>work := t_fields_update (map (?g p)) (work s)\<rparr>) = (Inr autos', s1)"
      and e: "autos = (fld_id f, nums) # autos'"
      by (auto simp: bind_op_Inr then_op_def basic_eval update_rows_eval)
    from al have "allocate_stored (fld_property f) n = Inr (nums, PDict p)" by (simp add: allocate_stored_def)
    note b = allocate_stored_block[OF this]
    have d: "distinct (map fld_key flds)" and nf: "\<forall>g\<in>set flds. fld_key g \<noteq> fld_key f" using Cons.prems(2) by (auto simp: image_iff)
    note ih = Cons.IH[OF rest d]
    have adv: "advanced (f # flds) n x y" if "advanced flds n (?g p x) y" for x y
    proof (cases "fld_key x = fld_key f")
      case kx: True
      with that nf have "y = ?g p x" by (auto simp: advanced_def fld_key_def split: if_splits)
      with kx b nf True show ?thesis by (auto simp: advanced_def fld_key_def)
    next
      case False
      with that True show ?thesis by (auto simp: advanced_def split: if_splits)
    qed
    have "list_all2 (\<lambda>x y. advanced flds n (?g p x) y) (t_fields (work s)) (t_fields (work s1))"
      using ih by (simp add: list.rel_map)
    then have "list_all2 (advanced (f # flds) n) (t_fields (work s)) (t_fields (work s1))"
      by (rule list_all2_mono) (rule adv)
    with ih True b e show ?thesis by simp
  qed
qed


lemma row_data_get:
  "dhas (row_data flds autos i row) k \<longleftrightarrow> k \<in> fld_id ` set flds"
  "distinct (map fld_id flds) \<Longrightarrow> f \<in> set flds \<Longrightarrow> dget (row_data flds autos i row) (fld_id f)
     = (case map_of autos (fld_id f) of Some nums \<Rightarrow> PInt (nums ! i) | None \<Rightarrow> dget row (fld_id f))"
proof -
  have h: "dhas (foldl (\<lambda>d f. dset (fld_id f) (h f) d) d flds) k \<longleftrightarrow> dhas d k \<or> k \<in> fld_id ` set flds" for h d
    by (induction flds arbitrary: d) auto
  show "dhas (row_data flds autos i row) k \<longleftrightarrow> k \<in> fld_id ` set flds" by (simp add: row_data_def h)
  have o: "k \<notin> fld_id ` set flds \<Longrightarrow> dget (foldl (\<lambda>d f. dset (fld_id f) (h f) d) d flds) k = dget d k" for h d k flds
    by (induction flds arbitrary: d) auto
  have g: "distinct (map fld_id flds) \<Longrightarrow> f \<in> set flds \<Longrightarrow> dget (foldl (\<lambda>d f. dset (fld_id f) (h f) d) d flds) (fld_id f) = h f" for h d
    by (induction flds arbitrary: d) (auto simp: o)
  show "distinct (map fld_id flds) \<Longrightarrow> f \<in> set flds \<Longrightarrow> dget (row_data flds autos i row) (fld_id f)
     = (case map_of autos (fld_id f) of Some nums \<Rightarrow> PInt (nums ! i) | None \<Rightarrow> dget row (fld_id f))"
    by (simp add: row_data_def g)
qed

lemma ordered_fields_keys:
  assumes "keys_ok t"
  shows "distinct (map fld_key (ordered_fields t tbl))" "distinct (map fld_id (ordered_fields t tbl))"
    "set (ordered_fields t tbl) = {f \<in> set (t_fields t). fld_table f = tbl}"
proof -
  have d: "distinct (map fld_key (t_fields t))" using assms by (rule tf.keys_get)
  have s: "set (ordered_fields t tbl) = {f \<in> set (t_fields t). fld_table f = tbl}"
    by (auto simp: ordered_fields_def select_def)
  have "distinct (ordered_fields t tbl)"
    using d by (simp add: ordered_fields_def select_def distinct_map)
  with d s show "distinct (map fld_key (ordered_fields t tbl))" "distinct (map fld_id (ordered_fields t tbl))"
    by (auto simp: distinct_map inj_on_def fld_key_def)
  show "set (ordered_fields t tbl) = {f \<in> set (t_fields t). fld_table f = tbl}" by (rule s)
qed

lemma created_values:
  assumes k: "keys_ok t" and flds: "flds = ordered_fields t tbl"
    and al: "map fst autos = map fld_id (filter is_auto flds)"
      "list_all2 (\<lambda>f a. snd a = [next_of f..next_of f + max 0 n - 1] \<and> 1 \<le> next_of f) (filter is_auto flds) autos"
    and f: "f \<in> set (t_fields t)" "fld_table f = tbl" and i: "int i < n"
  shows "dget (row_data flds autos i row) (fld_id f) = (if is_auto f then PInt (next_of f + int i) else dget row (fld_id f))"
proof -
  have fin: "f \<in> set flds" and d: "distinct (map fld_id flds)" using ordered_fields_keys[OF k] flds f by auto
  note g = row_data_get(2)[OF d fin, of autos i row]
  show ?thesis
  proof (cases "is_auto f")
    case False
    have "fld_id f \<notin> fst ` set autos"
    proof
      assume "fld_id f \<in> fst ` set autos"
      then have "fld_id f \<in> fld_id ` set (filter is_auto flds)" using al(1) by (metis list.set_map)
      with d fin False show False by (auto simp: distinct_map inj_on_def)
    qed
    then have "map_of autos (fld_id f) = None" by (simp add: map_of_eq_None_iff)
    with g False show ?thesis by simp
  next
    case True
    then have "f \<in> set (filter is_auto flds)" using fin by simp
    then obtain j where j: "j < length (filter is_auto flds)" "filter is_auto flds ! j = f" by (metis in_set_conv_nth)
    with al(2) have a: "j < length autos" "snd (autos ! j) = [next_of f..next_of f + max 0 n - 1]"
      by (auto simp: list_all2_conv_all_nth)
    have "fst (autos ! j) = fld_id f" using arg_cong[OF al(1), of "\<lambda>xs. xs ! j"] a j by simp
    moreover have "distinct (map fst autos)" unfolding al(1) using d by (rule distinct_map_filterI)
    ultimately have "map_of autos (fld_id f) = Some [next_of f..next_of f + max 0 n - 1]"
      using a by (metis map_of_is_SomeI nth_mem surjective_pairing)
    with g True i show ?thesis by simp
  qed
qed

text \<open>Every stored number of an auto-number field is below its counter and belongs to one record.\<close>

definition numbers_ok :: "tables \<Rightarrow> bool" where
  "numbers_ok t \<longleftrightarrow> (\<forall>f\<in>set (t_fields t). is_auto f \<longrightarrow>
     (\<forall>r\<in>set (t_records t). \<forall>m. rec_table r = fld_table f \<longrightarrow> dget (rec_data r) (fld_id f) = PInt m \<longrightarrow> m < next_of f
        \<and> (\<forall>r'\<in>set (t_records t). rec_table r' = fld_table f \<longrightarrow> dget (rec_data r') (fld_id f) = PInt m \<longrightarrow> rec_key r' = rec_key r)))"

lemma numbers_created:
  assumes ok: "numbers_ok t" and k: "keys_ok t" and flds: "flds = ordered_fields t tbl"
    and al: "map fst autos = map fld_id (filter is_auto flds)"
      "list_all2 (\<lambda>f a. snd a = [next_of f..next_of f + max 0 n - 1] \<and> 1 \<le> next_of f) (filter is_auto flds) autos"
      "list_all2 (advanced flds n) (t_fields t) (t_fields t')"
    and R: "t_records t' = t_records t @ rs" "int (length rs) \<le> n"
      "\<forall>i<length rs. new_row tbl creator mx flds autos i (rows i) (rs ! i)"
  shows "numbers_ok t'"
  unfolding numbers_ok_def
proof (intro ballI impI allI)
  fix f' r m
  assume f': "f' \<in> set (t_fields t')" "is_auto f'" and r: "r \<in> set (t_records t')" "rec_table r = fld_table f'" "dget (rec_data r) (fld_id f') = PInt m"
  from f'(1) al(3) obtain f where f: "f \<in> set (t_fields t)" "advanced flds n f f'"
    by (metis in_set_conv_nth list_all2_conv_all_nth)
  then have e: "fld_id f' = fld_id f" "fld_table f' = fld_table f" "is_auto f" using f'(2) by (auto simp: advanced_def fld_key_def)
  have old: "m' < next_of f \<and> (\<forall>y\<in>set (t_records t). rec_table y = fld_table f \<longrightarrow> dget (rec_data y) (fld_id f) = PInt m' \<longrightarrow> rec_key y = rec_key x)"
    if "x \<in> set (t_records t)" "rec_table x = fld_table f" "dget (rec_data x) (fld_id f) = PInt m'" for x m'
    using ok f(1) e(3) that unfolding numbers_ok_def by blast
  have new: "\<exists>i<length rs. x = rs ! i \<and> rec_table x = tbl \<and> (fld_table f = tbl \<longrightarrow> dget (rec_data x) (fld_id f) = PInt (next_of f + int i))"
    if "x \<in> set rs" for x
  proof -
    from that obtain i where i: "i < length rs" "x = rs ! i" by (auto simp: in_set_conv_nth)
    with R(3) have n: "new_row tbl creator mx flds autos i (rows i) x" by simp
    from i R(2) have "int i < n" by simp
    from created_values[OF k flds al(1,2) f(1) _ this] n i e(3) show ?thesis by (auto simp: new_row_def)
  qed
  have up: "next_of f' = (if fld_table f = tbl then next_of f + max 0 n else next_of f)"
  proof -
    have "f \<in> set flds" if "fld_table f = tbl" using ordered_fields_keys(3)[OF k] f(1) flds that by simp
    moreover have "fld_table g = tbl" if "g \<in> set flds" for g using ordered_fields_keys(3)[OF k] flds that by simp
    ultimately show ?thesis using f(2) e(3) by (auto simp: advanced_def fld_key_def split: if_splits)
  qed
  from r(1) R(1) have split: "r \<in> set (t_records t) \<or> r \<in> set rs" by auto
  have bound: "m < next_of f'"
  proof (cases "r \<in> set (t_records t)")
    case True
    with old[OF True] r e up show ?thesis by auto
  next
    case False
    with split new[of r] r e up R(2) show ?thesis by auto
  qed
  have "rec_key r' = rec_key r" if r': "r' \<in> set (t_records t')" "rec_table r' = fld_table f" "dget (rec_data r') (fld_id f) = PInt m" for r'
  proof -
    from r'(1) R(1) have split': "r' \<in> set (t_records t) \<or> r' \<in> set rs" by auto
    have rm: "rec_table r = fld_table f" "dget (rec_data r) (fld_id f) = PInt m" using r e by simp_all
    have high: "next_of f \<le> m" if x: "x \<in> set rs" "rec_table x = fld_table f" "dget (rec_data x) (fld_id f) = PInt m" for x
      using new[OF x(1)] x by auto
    show ?thesis
    proof (cases "r \<in> set (t_records t)")
      case True
      with old[OF True rm] have "r' \<notin> set rs" using high[of r'] r' by auto
      with old[OF True rm] r' split' show ?thesis by auto
    next
      case False
      with split have rr: "r \<in> set rs" by simp
      with old[of r' m] high[of r] rm r' have "r' \<notin> set (t_records t)" by auto
      with split' new[of r'] new[OF rr] rm r' show ?thesis by auto
    qed
  qed
  with bound e show "m < next_of f' \<and> (\<forall>r'\<in>set (t_records t'). rec_table r' = fld_table f' \<longrightarrow>
      dget (rec_data r') (fld_id f') = PInt m \<longrightarrow> rec_key r' = rec_key r)" by auto
qed

lemma normalize_payloads_length: "normalize_member_values_in_payloads t tbl ps = Inr qs \<Longrightarrow> length qs = length ps"
  by (auto simp: normalize_member_values_in_payloads_def Let_def dest: map_res_Inr_length split: if_splits)

text \<open>The writes that create or delete; an update may put any value under any key.\<close>

fun numbering :: "record_write \<Rightarrow> bool" where
  "numbering (UpdateOne T i f v u) \<longleftrightarrow> False"
| "numbering (UpdateFields T i d u) \<longleftrightarrow> False"
| "numbering (Patch T ps u) \<longleftrightarrow> False"
| "numbering _ \<longleftrightarrow> True"

text \<open>
  A step that changes the data of records in place and drops some: a field keeps its numbers,
  or every record of its table gets a new one.
\<close>

lemma numbers_mapped:
  assumes ok: "numbers_ok t" and R: "t_records t' = filter P (map h (t_records t))"
    and h: "\<And>x. rec_key (h x) = rec_key x"
    and f: "\<And>f'. f' \<in> set (t_fields t') \<Longrightarrow> is_auto f' \<Longrightarrow>
        (\<exists>f\<in>set (t_fields t). is_auto f \<and> fld_key f' = fld_key f \<and> next_of f \<le> next_of f'
           \<and> (\<forall>x\<in>set (t_records t). rec_table x = fld_table f \<longrightarrow> dget (rec_data (h x)) (fld_id f) = dget (rec_data x) (fld_id f)))
      \<or> (\<exists>m. \<forall>x\<in>set (t_records t). rec_table x = fld_table f' \<longrightarrow> dget (rec_data (h x)) (fld_id f') = PInt (m x) \<and> m x < next_of f'
           \<and> (\<forall>y\<in>set (t_records t). rec_table y = fld_table f' \<longrightarrow> m y = m x \<longrightarrow> rec_key y = rec_key x))"
  shows "numbers_ok t'"
  unfolding numbers_ok_def
proof (intro ballI impI allI)
  fix f' r m
  assume f': "f' \<in> set (t_fields t')" "is_auto f'" and r: "r \<in> set (t_records t')" "rec_table r = fld_table f'" "dget (rec_data r) (fld_id f') = PInt m"
  have src: "\<exists>x\<in>set (t_records t). y = h x \<and> rec_table x = rec_table y" if "y \<in> set (t_records t')" for y
  proof -
    from that R obtain x where "x \<in> set (t_records t)" "y = h x" by auto
    with h[of x] show ?thesis by (auto simp: rec_key_def)
  qed
  from src[OF r(1)] r(2) obtain x where x: "x \<in> set (t_records t)" "r = h x" "rec_table x = fld_table f'" by auto
  have old: "m < next_of f' \<and> (\<forall>y\<in>set (t_records t). rec_table y = fld_table f' \<longrightarrow> dget (rec_data (h y)) (fld_id f') = PInt m \<longrightarrow> rec_key y = rec_key x)"
    using f[OF f']
  proof (elim disjE bexE exE conjE)
    fix f assume g: "f \<in> set (t_fields t)" "is_auto f" "fld_key f' = fld_key f" "next_of f \<le> next_of f'"
      "\<forall>x\<in>set (t_records t). rec_table x = fld_table f \<longrightarrow> dget (rec_data (h x)) (fld_id f) = dget (rec_data x) (fld_id f)"
    then have e: "fld_table f' = fld_table f" "fld_id f' = fld_id f" by (simp_all add: fld_key_def)
    have "m < next_of f \<and> (\<forall>y\<in>set (t_records t). rec_table y = fld_table f \<longrightarrow> dget (rec_data y) (fld_id f) = PInt m \<longrightarrow> rec_key y = rec_key x)"
    proof -
      have "rec_table x = fld_table f" "dget (rec_data x) (fld_id f) = PInt m" using g(5) x r(3) e by auto
      with ok g(1,2) x(1) show ?thesis unfolding numbers_ok_def by blast
    qed
    with g(4,5) e show ?thesis by auto
  next
    fix q assume q: "\<forall>x\<in>set (t_records t). rec_table x = fld_table f' \<longrightarrow> dget (rec_data (h x)) (fld_id f') = PInt (q x) \<and> q x < next_of f'
           \<and> (\<forall>y\<in>set (t_records t). rec_table y = fld_table f' \<longrightarrow> q y = q x \<longrightarrow> rec_key y = rec_key x)"
    have qx: "q x = m" "m < next_of f'" using q x r(3) by auto
    moreover have "rec_key y = rec_key x" if "y \<in> set (t_records t)" "rec_table y = fld_table f'" "dget (rec_data (h y)) (fld_id f') = PInt m" for y
    proof -
      have "q y = q x" using q that qx(1) by auto
      with q that x(1,3) show ?thesis by blast
    qed
    ultimately show ?thesis by blast
  qed
  have "rec_key y = rec_key r" if y: "y \<in> set (t_records t')" "rec_table y = fld_table f'" "dget (rec_data y) (fld_id f') = PInt m" for y
  proof -
    from src[OF y(1)] y obtain z where "z \<in> set (t_records t)" "y = h z" "rec_table z = fld_table f'" by auto
    with old y(3) x(2) h show ?thesis by simp
  qed
  with old show "m < next_of f' \<and> (\<forall>y\<in>set (t_records t'). rec_table y = fld_table f' \<longrightarrow> dget (rec_data y) (fld_id f') = PInt m \<longrightarrow> rec_key y = rec_key r)"
    by blast
qed

lemma auto_not_linked:
  assumes k: "keys_ok t" and f: "f \<in> set (t_fields t)" "is_auto f" "rec_table x = fld_table f"
  shows "dget (rec_data (unlink t del x)) (fld_id f) = dget (rec_data x) (fld_id f)"
proof -
  let ?fl = "links_to t (fst del) (rec_table x)"
  have "fld_id f \<notin> {py_str (dget g ''id'') | g. g \<in> set ?fl}"
  proof
    assume "fld_id f \<in> {py_str (dget g ''id'') | g. g \<in> set ?fl}"
    then obtain g where g: "g \<in> set (targeting_fields t (fst del))" "fld_table g = rec_table x" "fld_id g = fld_id f"
      by (auto simp: links_to_def py_str_def)
    then have gf: "g \<in> set (t_fields t)" by (auto simp: targeting_fields_def select_def)
    have "g = f" by (rule tf.unique[OF k gf f(1)]) (use g f in \<open>simp add: fld_key_def\<close>)
    with targeting_relation[OF g(1)] f(2) show False
      by (auto simp: is_relation_field_def field_to_dict_def is_auto_number_field_def lower_def lower_char_def)
  qed
  then show ?thesis
    by (auto simp: unlink_def cleaned_def dest: remove_links_other split: sum.splits prod.splits)
qed

text \<open>C31: creating records (one, many, or with data) and deleting a record keep the auto numbers of every table sound: each stored number is below the counter of its field, and no two records of a table have the same number.\<close>

theorem auto_numbers_unique:
  assumes "write_ready w s" "numbering w" "run_write aty src tr blank w s = (Inr x, s')" "numbers_ok (work s)"
  shows "numbers_ok (work s')"
proof -
  from assms(1) have k: "keys_ok (work s)" and fr: "fresh_ids s" by (auto simp: write_ready_def)
  note created = numbers_created[OF assms(4) k refl]
  note spec = allocate_fields_spec[OF _ ordered_fields_keys(1)[OF k]]
  show ?thesis
  proof (cases w)
    case (CreateOne T u)
    with assms obtain y where r: "create_record T u aty src tr blank s = (Inr y, s')" and h: "table_has_data (work s) (normalize_table_id T)"
      by (auto simp: ignore_Inr write_ready_def)
    from create_record_run[OF r fr h] obtain autos x s0 s1 where
      al: "allocate_fields (ordered_fields (work s) (normalize_table_id T)) 1 s0 = (Inr autos, s1)" "work s0 = work s"
      and R: "t_records (work s') = t_records (work s) @ [x]" "t_fields (work s') = t_fields (work s1)"
      and n: "new_row (normalize_table_id T) u (max_order (work s) (normalize_table_id T))
          (ordered_fields (work s) (normalize_table_id T)) autos 0 [] x" by blast
    note sp = spec[OF al(1), unfolded al(2), folded R(2)]
    show ?thesis
      by (rule created[OF conjunct1[OF sp] conjunct1[OF conjunct2[OF sp]] conjunct2[OF conjunct2[OF sp]] R(1), where rows = "\<lambda>_. []" and creator = u])
        (use n in auto)
  next
    case (CreateMany T c u)
    with assms obtain y where r: "create_records T c u aty src tr blank s = (Inr y, s')" and h: "table_has_data (work s) (normalize_table_id T)"
      by (auto simp: ignore_Inr write_ready_def)
    from create_records_run[OF r fr h] obtain autos rs s1 where
      al: "allocate_fields (ordered_fields (work s) (normalize_table_id T)) (max 1 (min 999 c)) s = (Inr autos, s1)"
      and R: "t_records (work s') = t_records (work s) @ rs" "t_fields (work s') = t_fields (work s1)" "length rs = nat (max 1 (min 999 c))"
      and n: "\<forall>i<length rs. new_row (normalize_table_id T) u (max_order (work s) (normalize_table_id T))
          (ordered_fields (work s) (normalize_table_id T)) autos i [] (rs ! i)" by blast
    note sp = spec[OF al, folded R(2)]
    show ?thesis
      by (rule created[OF conjunct1[OF sp] conjunct1[OF conjunct2[OF sp]] conjunct2[OF conjunct2[OF sp]] R(1), where rows = "\<lambda>_. []" and creator = u])
        (use n R(3) in auto)
  next
    case (CreateWith T recs u)
    with assms obtain y where r: "create_records_with_data T recs u aty src tr blank s = (Inr y, s')" and h: "table_has_data (work s) (normalize_table_id T)"
      by (auto simp: ignore_Inr write_ready_def)
    from create_with_data_run[OF r fr h] obtain autos rows rs s1 where
      nm: "normalize_member_values_in_payloads (work s) (normalize_table_id T) recs = Inr rows"
      and al: "allocate_fields (ordered_fields (work s) (normalize_table_id T)) (int (length recs)) s = (Inr autos, s1)"
      and R: "t_records (work s') = t_records (work s) @ rs" "t_fields (work s') = t_fields (work s1)" "length rs = length rows"
      and n: "\<forall>i<length rs. new_row (normalize_table_id T) u (max_order (work s) (normalize_table_id T))
          (ordered_fields (work s) (normalize_table_id T)) autos i (rows ! i) (rs ! i)" by blast
    note sp = spec[OF al, folded R(2)]
    show ?thesis
      by (rule created[OF conjunct1[OF sp] conjunct1[OF conjunct2[OF sp]] conjunct2[OF conjunct2[OF sp]] R(1), where rows = "\<lambda>i. rows ! i" and creator = u])
        (use n R(3) normalize_payloads_length[OF nm] in auto)
  next
    case (Delete T i u)
    with assms obtain y where r: "delete_record T i u aty src tr s = (Inr y, s')" by (auto simp: ignore_Inr)
    from delete_record_run[OF r fr k] show ?thesis
    proof (elim disjE exE conjE)
      fix x cs rid now
      assume "t_fields (work s') = t_fields (work s)"
        "t_records (work s') = filter (\<lambda>y. rec_key y \<noteq> rec_key x) (map (unlink (work s) (normalize_table_id T, i)) (t_records (work s)))"
      then show ?thesis
        by (intro numbers_mapped[OF assms(4), where h = "unlink (work s) (normalize_table_id T, i)"]) (auto simp: auto_not_linked[OF k])
    qed (use assms(4) in simp)
  qed (use assms(2) in auto)
qed

theorem auto_numbers_unique_witness:
  "\<exists>s'. run_write ''user'' ''api'' None example_template (CreateMany (Some ''t'') 2 None) example_session = (Inr (), s')
     \<and> numbers_ok (work s') \<and> map (\<lambda>r. dget (rec_data r) ''n'') (drop 3 (t_records (work s'))) = [PInt 7, PInt 8]"
proof -
  let ?m = "run_write ''user'' ''api'' None example_template (CreateMany (Some ''t'') 2 None)"
  obtain r s' where r: "?m example_session = (r, s')" by fastforce
  have "fst (?m example_session) = Inr ()" by code_simp
  with r have ok: "?m example_session = (Inr (), s')" by simp
  have w: "write_ready (CreateMany (Some ''t'') 2 None) example_session"
    using example_fresh example_keys
    by (simp add: write_ready_def table_has_data_def select_first_def example_world_def normalize_table_id_def)
  have "next_number (PDict [(''start'', PInt 5), (''nextNumber'', PInt 7)]) = 7"
    "is_auto_number_field [(''type'', PStr ''autoNumber'')]" by code_simp+
  then have n: "numbers_ok (work example_session)"
    by (simp add: numbers_ok_def example_world_def empty_tables_def rec_key_def)
  have "map (\<lambda>r. dget (rec_data r) ''n'') (drop 3 (t_records (work (snd (?m example_session))))) = [PInt 7, PInt 8]" by code_simp
  with auto_numbers_unique[OF w _ ok n] ok show ?thesis by simp
qed

section \<open>Deletion and its way back\<close>

text \<open>C32: deleting a record that is not in the bin puts it there: the call returns true exactly when the record existed; then the record is gone, no relation field anywhere in the workspace that targets the table links to it any more, and restoring it from the bin succeeds and gives every record of every table, the unlinked ones included, the data it had before.\<close>

theorem delete_then_restore:
  assumes "delete_record T i user aty src tr s = (Inr y, s')" "fresh_ids s" "keys_ok (work s)"
    and "\<forall>e\<in>set (t_recycle (work s)). rb_table e = normalize_table_id T \<longrightarrow> rb_record e = i \<longrightarrow> rb_status e \<noteq> ''deleted''"
  shows "y = (data_at (work s) (normalize_table_id T, i) \<noteq> None)
    \<and> (y \<longrightarrow> data_at (work s') (normalize_table_id T, i) = None
      \<and> (\<forall>r f. r \<in> set (t_records (work s')) \<longrightarrow> f \<in> set (targeting_fields (work s) (normalize_table_id T)) \<longrightarrow>
            fld_table f = rec_table r \<longrightarrow> fld_table f \<noteq> [] \<longrightarrow> unlinked (field_to_dict f) (dget (rec_data r) (fld_id f)) i)
      \<and> (\<exists>res s''. restore_recycled_record (normalize_table_id T) i a s' = (Inr (Some res), s'')
            \<and> committed s'' = work s'' \<and> (\<forall>k. data_at (work s'') k = data_at (work s) k)))"
proof -
  let ?k = "(normalize_table_id T, i)"
  from delete_record_run[OF assms(1,2,3)] show ?thesis
  proof (elim disjE exE conjE)
    assume "look (t_records (work s)) ?k = None" "y = False"
    then show ?thesis by (simp add: data_at_def)
  next
    fix r cs rid now
    assume r: "look (t_records (work s)) ?k = Some r" and y: "y = True" and fr: "fresh_ids s'" and au: "audited (work s) (work s') cs"
      and R: "t_records (work s') = filter (\<lambda>x. rec_key x \<noteq> rec_key r) (map (unlink (work s) ?k) (t_records (work s)))"
      and B: "t_recycle (work s') = t_recycle (work s) @ [recycled r user cs rid now]" "cs \<noteq> []"
      and ok: "\<forall>x\<in>set (t_records (work s)). links_ok (links_to (work s) (normalize_table_id T) (rec_table x)) ?k x"
    from look_Some[OF r] have tk: "tkey r = ?k" by simp
    have gone: "look (t_records (work s')) ?k = None"
      using look_delete[of r "map (unlink (work s) ?k) (t_records (work s))" ?k] tk by (simp add: R)
    have links: "unlinked (field_to_dict f) (dget (rec_data x) (fld_id f)) i"
      if x: "x \<in> set (t_records (work s'))" and f: "f \<in> set (targeting_fields (work s) (normalize_table_id T))" "fld_table f = rec_table x" "fld_table f \<noteq> []" for x f
    proof -
      from x R obtain z where z: "z \<in> set (t_records (work s))" "x = unlink (work s) ?k z" "rec_key z \<noteq> rec_key r" by auto
      then have "rec_table x = rec_table z" using unlink_key(2)[of "work s" ?k z] by (simp add: rec_key_def)
      with cleaned_no_links[OF assms(3) ok[rule_format, OF z(1)] _ f(1)] f(2,3) z tk show ?thesis
        by (simp add: unlink_def rec_key_tkey)
    qed
    have "filter (\<lambda>e. rb_table e = normalize_table_id T \<and> rb_record e = i \<and> rb_status e = ''deleted'') (t_recycle (work s)) = []"
      using assms(4) by (auto simp: filter_empty_conv)
    then have "latest_deleted (work s') (normalize_table_id T) i = Some (recycled r user cs rid now)"
      using tk by (simp add: latest_deleted_def newest_first_def select_def B recycled_def tkey_def sort_key_sorted)
    moreover have "none_if_empty (rb_set (recycled r user cs rid now)) = Some cs" using B(2) by (simp add: recycled_def none_if_empty_def)
    moreover obtain res s'' where u: "undo_change_set cs a ''user'' ''recycle_restore'' None s' = (Inr res, s'')" "committed s'' = work s''"
      "\<forall>k. data_at (work s'') k = data_at (work s) k" using audited_undo[OF au fr] by blast
    ultimately have "restore_recycled_record (normalize_table_id T) i a s' = (Inr (Some res), s'')"
      by (simp add: restore_recycled_record_def op_eval)
    with u y r gone links show ?thesis by (auto simp: data_at_def)
  qed
qed

theorem delete_then_restore_witness:
  "\<exists>s' res s''. delete_record (Some ''t'') ''ra'' (Some 1) ''user'' ''api'' None example_session = (Inr True, s')
     \<and> data_at (work s') (''t'', ''ra'') = None
     \<and> restore_recycled_record ''t'' ''ra'' (Some 1) s' = (Inr (Some res), s'')
     \<and> data_at (work s'') (''t'', ''ra'') = Some [(''f'', PStr ''x''), (''n'', PInt 5)]"
proof -
  let ?m = "delete_record (Some ''t'') ''ra'' (Some 1) ''user'' ''api'' None"
  obtain r s' where r: "?m example_session = (r, s')" by fastforce
  have "fst (?m example_session) = Inr True" by code_simp
  with r have ok: "?m example_session = (Inr True, s')" by simp
  have n: "normalize_table_id (Some ''t'') = ''t''" by (simp add: normalize_table_id_def)
  have d: "data_at example_world (''t'', ''ra'') = Some [(''f'', PStr ''x''), (''n'', PInt 5)]" by code_simp
  have b: "\<forall>e\<in>set (t_recycle (work example_session)). rb_table e = normalize_table_id (Some ''t'') \<longrightarrow> rb_record e = ''ra'' \<longrightarrow> rb_status e \<noteq> ''deleted''"
    by (simp add: example_world_def empty_tables_def)
  from delete_then_restore[OF ok example_fresh _ b, of "Some 1"] ok d example_keys n show ?thesis by (auto simp: n)
qed

section \<open>Refinement of a map\<close>

text \<open>
  The contract of the record store: a map from (table, record id) to data. Each write is
  described on that map, given the schema and the members \<open>t\<close> the write reads.
\<close>

type_synonym contents = "string \<times> string \<Rightarrow> dict option"

text \<open>Row number \<open>i\<close> of a creation: the fields' keys, the given values, the next auto numbers.\<close>

definition row_spec :: "tables \<Rightarrow> string \<Rightarrow> nat \<Rightarrow> dict \<Rightarrow> dict \<Rightarrow> bool" where
  "row_spec t tbl i row d \<longleftrightarrow> (\<forall>k. dhas d k \<longleftrightarrow> (\<exists>f\<in>set (t_fields t). fld_table f = tbl \<and> fld_id f = k))
     \<and> (\<forall>f\<in>set (t_fields t). fld_table f = tbl \<longrightarrow>
          dget d (fld_id f) = (if is_auto f then PInt (next_of f + int i) else dget row (fld_id f)))"

definition added_rows :: "tables \<Rightarrow> string \<Rightarrow> dict list \<Rightarrow> contents \<Rightarrow> contents \<Rightarrow> bool" where
  "added_rows t tbl rows m m' \<longleftrightarrow> (\<exists>ids. distinct ids \<and> length ids = length rows
     \<and> (\<forall>i<length rows. m (tbl, ids ! i) = None \<and> (\<exists>d. m' (tbl, ids ! i) = Some d \<and> row_spec t tbl i (rows ! i) d))
     \<and> (\<forall>k. k \<notin> Pair tbl ` set ids \<longrightarrow> m' k = m k))"

text \<open>A value that is equal in the sense of Python leaves the stored one.\<close>

definition set_value :: "string \<Rightarrow> pyval \<Rightarrow> dict \<Rightarrow> dict" where
  "set_value k v d = (if py_eq (dget d k) v then d else dset k v d)"

definition set_values :: "dict \<Rightarrow> dict \<Rightarrow> dict" where
  "set_values d' d = (if changed_fields (Some d) (Some d') = [] then d else d')"

fun abstract_write :: "tables \<Rightarrow> record_write \<Rightarrow> contents \<Rightarrow> contents \<Rightarrow> bool" where
  "abstract_write t (CreateOne T u) m m' \<longleftrightarrow> added_rows t (normalize_table_id T) [[]] m m'"
| "abstract_write t (CreateMany T n u) m m' \<longleftrightarrow> added_rows t (normalize_table_id T) (replicate (nat (max 1 (min 999 n))) []) m m'"
| "abstract_write t (CreateWith T recs u) m m' \<longleftrightarrow> (\<exists>rows. normalize_member_values_in_payloads t (normalize_table_id T) recs = Inr rows
      \<and> added_rows t (normalize_table_id T) rows m m')"
| "abstract_write t (UpdateOne T i f v u) m m' \<longleftrightarrow> (case m (normalize_table_id T, i) of None \<Rightarrow> m' = m
      | Some d \<Rightarrow> (case normalize_member_value_for_field t (normalize_table_id T) f v of Inl _ \<Rightarrow> False
          | Inr w \<Rightarrow> m' = m((normalize_table_id T, i) \<mapsto> set_value f w d)))"
| "abstract_write t (UpdateFields T i vals u) m m' \<longleftrightarrow> (case m (normalize_table_id T, i) of None \<Rightarrow> m' = m
      | Some d \<Rightarrow> (case normalize_member_values_in_payloads t (normalize_table_id T) [vals] of Inl _ \<Rightarrow> False
          | Inr rows \<Rightarrow> m' = m((normalize_table_id T, i) \<mapsto> set_values (merge_given d (hd rows)) d)))"
| "abstract_write t (Patch T patches u) m m' \<longleftrightarrow> (\<exists>ps. patch_triples t (normalize_table_id T) patches = Inr ps
      \<and> (\<forall>k. m' k = (if fst k = normalize_table_id T
           then map_option (\<lambda>d. set_values (dupdate d (patches_for (snd k) ps)) d) (m k) else m k)))"
| "abstract_write t (Delete T i u) m m' \<longleftrightarrow> (if m (normalize_table_id T, i) = None then m' = m
      else \<forall>k. m' k = (if k = (normalize_table_id T, i) then None
        else map_option (\<lambda>d. case remove_links (links_to t (normalize_table_id T) (fst k)) i (d, []) of
               Inl _ \<Rightarrow> d | Inr (d', _) \<Rightarrow> d') (m k)))"

lemma added_rows_run:
  assumes k: "keys_ok t" and al: "allocate_fields (ordered_fields t tbl) n s = (Inr autos, s1)" "work s = t"
    and R: "t_records t' = t_records t @ rs" "rows_added (t_records t) rs" "length rs = length rows" "int (length rows) \<le> n"
    and n: "\<forall>i<length rs. new_row tbl creator mx (ordered_fields t tbl) autos i (rows ! i) (rs ! i)"
  shows "added_rows t tbl rows (data_at t) (data_at t')"
proof -
  note sp = allocate_fields_spec[OF al(1) ordered_fields_keys(1)[OF k]]
  let ?ids = "map rec_id rs"
  have tb: "rec_table r = tbl" if "r \<in> set rs" for r using n that by (auto simp: in_set_conv_nth new_row_def)
  have tk: "tkey r = (tbl, rec_id r)" if "r \<in> set rs" for r using tb[OF that] by (simp add: tkey_def)
  have "distinct ?ids" using R(2) tb by (auto simp: rows_added_def distinct_map inj_on_def rec_key_def)
  moreover have "data_at t (tbl, ?ids ! i) = None \<and> (\<exists>d. data_at t' (tbl, ?ids ! i) = Some d \<and> row_spec t tbl i (rows ! i) d)"
    if i: "i < length rows" for i
  proof -
    from i R(3) have r: "rs ! i \<in> set rs" "(tbl, ?ids ! i) = tkey (rs ! i)" using tk by simp_all
    have d: "rec_data (rs ! i) = row_data (ordered_fields t tbl) autos i (rows ! i)" using n i R(3) by (simp add: new_row_def)
    have "row_spec t tbl i (rows ! i) (rec_data (rs ! i))"
      unfolding row_spec_def d row_data_get(1)
      using created_values[OF k refl conjunct1[OF sp] conjunct1[OF conjunct2[OF sp]], of _ i "rows ! i"] ordered_fields_keys(3)[OF k, of tbl] i R(4)
      by auto
    with look_added(1,2)[OF R(2) r(1)] r(2) R(1) show ?thesis by (simp add: data_at_def)
  qed
  moreover have "data_at t' x = data_at t x" if "x \<notin> Pair tbl ` set ?ids" for x
  proof -
    have "x \<notin> tkey ` set rs" using that tk by (auto simp: image_iff)
    from look_added(3)[OF R(2) this] R(1) show ?thesis by (simp add: data_at_def)
  qed
  ultimately show ?thesis unfolding added_rows_def using R(3) by (intro exI[of _ ?ids]) simp
qed
lemma data_at_upd:
  "\<forall>k'. look (t_records t') k' = (if k' = k then Some r' else look (t_records t) k') \<Longrightarrow> data_at t' = (data_at t)(k \<mapsto> rec_data r')"
  by (rule ext) (simp add: data_at_def)

lemma remove_links_unchanged:
  "remove_links flds i (d, ch) = Inr (d', ch') \<Longrightarrow> length ch \<le> length ch' \<and> (length ch' = length ch \<longrightarrow> d' = d)"
proof (induction flds arbitrary: d ch)
  case (Cons f flds)
  then obtain w c where "remove_links flds i (if c then (dset (py_str (dget f ''id'')) w d, ch @ [py_str (dget f ''id'')]) else (d, ch)) = Inr (d', ch')"
    by (auto simp: Let_def)
  with Cons.IH[of "if c then dset (py_str (dget f ''id'')) w d else d" "if c then ch @ [py_str (dget f ''id'')] else ch"]
  show ?case by (auto split: if_splits)
qed simp

lemma ready_write_refines:
  assumes "write_ready w s" "run_write aty src tr blank w s = (Inr x, s')"
  shows "abstract_write (work s) w (data_at (work s)) (data_at (work s'))"
proof -
  from assms(1) have k: "keys_ok (work s)" and fr: "fresh_ids s" by (auto simp: write_ready_def)
  show ?thesis
  proof (cases w)
    case (CreateOne T u)
    with assms obtain y where r: "create_record T u aty src tr blank s = (Inr y, s')" and h: "table_has_data (work s) (normalize_table_id T)"
      by (auto simp: ignore_Inr write_ready_def)
    from create_record_run[OF r fr h] obtain autos z s0 s1 where
      al: "allocate_fields (ordered_fields (work s) (normalize_table_id T)) 1 s0 = (Inr autos, s1)" "work s0 = work s"
      and R: "t_records (work s') = t_records (work s) @ [z]" "rows_added (t_records (work s)) [z]"
      and n: "new_row (normalize_table_id T) u (max_order (work s) (normalize_table_id T))
          (ordered_fields (work s) (normalize_table_id T)) autos 0 [] z" by blast
    have "added_rows (work s) (normalize_table_id T) [[]] (data_at (work s)) (data_at (work s'))"
      by (rule added_rows_run[OF k al R]) (use n in auto)
    with CreateOne show ?thesis by simp
  next
    case (CreateMany T c u)
    with assms obtain y where r: "create_records T c u aty src tr blank s = (Inr y, s')" and h: "table_has_data (work s) (normalize_table_id T)"
      by (auto simp: ignore_Inr write_ready_def)
    from create_records_run[OF r fr h] obtain autos rs s1 where
      al: "allocate_fields (ordered_fields (work s) (normalize_table_id T)) (max 1 (min 999 c)) s = (Inr autos, s1)"
      and R: "t_records (work s') = t_records (work s) @ rs" "rows_added (t_records (work s)) rs" "length rs = nat (max 1 (min 999 c))"
      and n: "\<forall>i<length rs. new_row (normalize_table_id T) u (max_order (work s) (normalize_table_id T))
          (ordered_fields (work s) (normalize_table_id T)) autos i [] (rs ! i)" by blast
    have "added_rows (work s) (normalize_table_id T) (replicate (nat (max 1 (min 999 c))) []) (data_at (work s)) (data_at (work s'))"
      by (rule added_rows_run[OF k al refl R(1,2)]) (use n R(3) in auto)
    with CreateMany show ?thesis by simp
  next
    case (CreateWith T recs u)
    with assms obtain y where r: "create_records_with_data T recs u aty src tr blank s = (Inr y, s')" and h: "table_has_data (work s) (normalize_table_id T)"
      by (auto simp: ignore_Inr write_ready_def)
    from create_with_data_run[OF r fr h] obtain autos rows rs s1 where
      nm: "normalize_member_values_in_payloads (work s) (normalize_table_id T) recs = Inr rows"
      and al: "allocate_fields (ordered_fields (work s) (normalize_table_id T)) (int (length recs)) s = (Inr autos, s1)"
      and R: "t_records (work s') = t_records (work s) @ rs" "rows_added (t_records (work s)) rs" "length rs = length rows"
      and n: "\<forall>i<length rs. new_row (normalize_table_id T) u (max_order (work s) (normalize_table_id T))
          (ordered_fields (work s) (normalize_table_id T)) autos i (rows ! i) (rs ! i)" by blast
    have "added_rows (work s) (normalize_table_id T) rows (data_at (work s)) (data_at (work s'))"
      by (rule added_rows_run[OF k al refl R]) (use n normalize_payloads_length[OF nm] in auto)
    with CreateWith nm show ?thesis by auto
  next
    case (UpdateOne T i f v u)
    with assms obtain y where r: "update_record T i f v u aty src tr s = (Inr y, s')" by (auto simp: ignore_Inr)
    let ?k = "(normalize_table_id T, i)"
    from update_record_run[OF r fr] show ?thesis unfolding UpdateOne abstract_write.simps
    proof (elim disjE exE conjE)
      fix z :: table_record and v'
      assume z: "look (t_records (work s)) ?k = Some z" and n: "normalize_member_value_for_field (work s) (normalize_table_id T) f v = Inr v'"
        and c: "if py_eq (dget (rec_data z) f) v' then s' = s \<and> y = Some (with_id (rec_id z) (rec_data z))
           else y = Some (with_id (rec_id z) (dset f v' (rec_data z))) \<and> committed s' = work s' \<and> fresh_ids s'
             \<and> (\<exists>cs. audited (work s) (work s') cs)
             \<and> (\<forall>k'. look (t_records (work s')) k' = (if k' = ?k then Some (with_data z (dset f v' (rec_data z))) else look (t_records (work s)) k'))
             \<and> t_fields (work s') = t_fields (work s)"
      from c data_at_upd[of "work s'" ?k "with_data z (dset f v' (rec_data z))" "work s"] z
      have "data_at (work s') = (data_at (work s))(?k \<mapsto> set_value f v' (rec_data z))"
        by (cases "py_eq (dget (rec_data z) f) v'") (auto simp: set_value_def data_at_def)
      with z n show "case data_at (work s) ?k of None \<Rightarrow> data_at (work s') = data_at (work s)
          | Some d \<Rightarrow> (case normalize_member_value_for_field (work s) (normalize_table_id T) f v of Inl _ \<Rightarrow> False
              | Inr w \<Rightarrow> data_at (work s') = (data_at (work s))(?k \<mapsto> set_value f w d))" by (simp add: data_at_def)
    qed (simp add: data_at_def)
  next
    case (UpdateFields T i vals u)
    with assms obtain y where r: "update_record_fields T i vals u aty src tr s = (Inr y, s')" by (auto simp: ignore_Inr)
    let ?k = "(normalize_table_id T, i)"
    from update_fields_run[OF r fr] show ?thesis unfolding UpdateFields abstract_write.simps
    proof (elim disjE exE conjE)
      fix z :: table_record and rows
      let ?d = "merge_given (rec_data z) (hd rows)"
      assume z: "look (t_records (work s)) ?k = Some z" and n: "normalize_member_values_in_payloads (work s) (normalize_table_id T) [vals] = Inr rows"
        and c: "let d = ?d in if changed_fields (Some (rec_data z)) (Some d) = [] then s' = s \<and> y = Some (with_id (rec_id z) (rec_data z))
           else y = Some (with_id (rec_id z) d) \<and> committed s' = work s' \<and> fresh_ids s' \<and> (\<exists>cs. audited (work s) (work s') cs)
             \<and> (\<forall>k'. look (t_records (work s')) k' = (if k' = ?k then Some (with_data z d) else look (t_records (work s)) k'))
             \<and> t_fields (work s') = t_fields (work s)"
      from c data_at_upd[of "work s'" ?k "with_data z ?d" "work s"] z
      have "data_at (work s') = (data_at (work s))(?k \<mapsto> set_values ?d (rec_data z))"
        by (cases "changed_fields (Some (rec_data z)) (Some ?d) = []") (auto simp: set_values_def data_at_def Let_def)
      with z n show "case data_at (work s) ?k of None \<Rightarrow> data_at (work s') = data_at (work s)
          | Some d \<Rightarrow> (case normalize_member_values_in_payloads (work s) (normalize_table_id T) [vals] of Inl _ \<Rightarrow> False
              | Inr rows \<Rightarrow> data_at (work s') = (data_at (work s))(?k \<mapsto> set_values (merge_given d (hd rows)) d))" by (simp add: data_at_def)
    qed (simp add: data_at_def)
  next
    case (Patch T patches u)
    with assms obtain n where r: "apply_record_patches T patches u aty src tr s = (Inr n, s')" by (auto simp: ignore_Inr)
    from apply_patches_run[OF r fr] obtain ps where ps: "patch_triples (work s) (normalize_table_id T) patches = Inr ps"
      and L: "\<And>k. look (t_records (work s')) k = (if fst k = normalize_table_id T \<and> snd k \<in> set (map fst ps)
        then map_option (patched ps) (look (t_records (work s)) k) else look (t_records (work s)) k)" by blast
    have "data_at (work s') k = (if fst k = normalize_table_id T
        then map_option (\<lambda>d. set_values (dupdate d (patches_for (snd k) ps)) d) (data_at (work s) k) else data_at (work s) k)" for k
    proof (cases "look (t_records (work s)) k")
      case (Some x)
      from look_Some[OF Some] have "rec_id x = snd k" by (auto simp: tkey_def)
      moreover have "patches_for (snd k) ps = []" if "snd k \<notin> set (map fst ps)"
        using that by (force simp: patches_for_def filter_empty_conv)
      ultimately show ?thesis using L[of k] Some
        by (auto simp: data_at_def patched_def Let_def set_values_def dupdate_def)
    qed (simp add: data_at_def L)
    with ps show ?thesis unfolding Patch by auto
  next
    case (Delete T i u)
    with assms obtain y where r: "delete_record T i u aty src tr s = (Inr y, s')" by (auto simp: ignore_Inr)
    let ?k = "(normalize_table_id T, i)"
    from delete_record_run[OF r fr k] show ?thesis
    proof (elim disjE exE conjE)
      fix z :: table_record and cs rid now
      assume z: "look (t_records (work s)) ?k = Some z"
        and R: "t_records (work s') = filter (\<lambda>y. rec_key y \<noteq> rec_key z) (map (unlink (work s) ?k) (t_records (work s)))"
      from look_Some[OF z] have tk: "tkey z = ?k" by simp
      have "data_at (work s') x = (if x = ?k then None
        else map_option (\<lambda>d. case remove_links (links_to (work s) (normalize_table_id T) (fst x)) i (d, []) of
               Inl _ \<Rightarrow> d | Inr (d', _) \<Rightarrow> d') (data_at (work s) x))" for x
      proof (cases "look (t_records (work s)) x")
        case None
        with look_delete[of z "map (unlink (work s) ?k) (t_records (work s))" x] look_map[of "unlink (work s) ?k" "t_records (work s)" x] tk
        show ?thesis by (simp add: R data_at_def)
      next
        case (Some q)
        from look_Some[OF this] have q: "tkey q = x" "rec_table q = fst x" by (auto simp: tkey_def)
        have "rec_data (unlink (work s) ?k q) = (case remove_links (links_to (work s) (normalize_table_id T) (fst x)) i (rec_data q, []) of
               Inl _ \<Rightarrow> rec_data q | Inr (d', _) \<Rightarrow> d')" if "x \<noteq> ?k"
          using that q remove_links_unchanged[of "links_to (work s) (normalize_table_id T) (fst x)" i "rec_data q" "[]"]
          by (auto simp: unlink_def cleaned_def split: sum.splits prod.splits)
        with look_delete[of z "map (unlink (work s) ?k) (t_records (work s))" x] look_map[of "unlink (work s) ?k" "t_records (work s)" x] tk Some
        show ?thesis by (auto simp: R data_at_def)
      qed
      with z show ?thesis by (simp add: Delete data_at_def)
    qed (simp add: Delete data_at_def)
  qed
qed

text \<open>C7: the record store refines a map from record keys to data. In any session with unused identifiers and unique keys, each of its seven writes that succeeds has opened its table (a creation in a table without fields first initialises and commits it, which keeps every value of every record and every other table; otherwise nothing happens here), and from there changes the stored data exactly as the abstract write describes: creations add rows under unused ids with one value per field and the next auto numbers, updates change one record, a patch batch applies its patches in order, a deletion removes one record and the links to it, and no write touches anything else.\<close>

theorem record_store_refines_map:
  assumes "fresh_ids s" "keys_ok (work s)" "keys_ok (committed s)" "run_write aty src tr blank w s = (Inr x, s')"
  shows "\<exists>s0. open_table blank w s = (Inr (), s0) \<and> opens w s s0
    \<and> abstract_write (work s0) w (data_at (work s0)) (data_at (work s'))"
proof -
  from run_opened[OF assms(4,1-3)] obtain q s0 where o: "open_table blank w s = (q, s0)" and
    c: "case q of Inl e \<Rightarrow> (Inr x :: unit res) = Inl e \<and> s' = s0 \<and> committed s0 = committed s
      | Inr _ \<Rightarrow> opens w s s0 \<and> write_ready w s0 \<and> run_write aty src tr blank w s0 = (Inr x, s')" by blast
  from c have "q = Inr ()" by (cases q) auto
  with o c ready_write_refines[of w s0 aty src tr blank x s'] show ?thesis by auto
qed

theorem record_store_refines_map_witness:
  "(\<exists>s'. run_write ''user'' ''api'' None example_template (UpdateOne (Some ''t'') ''ra'' ''f'' (PInt 9) None) example_session = (Inr (), s')
     \<and> data_at (work s') (''t'', ''ra'') = Some [(''f'', PInt 9), (''n'', PInt 5)]
     \<and> data_at (work s') (''t'', ''rb'') = Some [(''f'', PStr ''y''), (''n'', PInt 6)])
   \<and> (\<exists>s0 s'. run_write ''user'' ''api'' None example_template (CreateOne (Some ''v'') None) example_session = (Inr (), s')
     \<and> open_table example_template (CreateOne (Some ''v'') None) example_session = (Inr (), s0)
     \<and> opened ''v'' example_world (work s0) \<and> added_rows (work s0) ''v'' [[]] (data_at (work s0)) (data_at (work s')))"
proof -
  let ?w = "UpdateOne (Some ''t'') ''ra'' ''f'' (PInt 9) None" and ?c = "CreateOne (Some ''v'') None"
  let ?m = "run_write ''user'' ''api'' None example_template ?w" and ?n = "run_write ''user'' ''api'' None example_template ?c"
  note ready = example_fresh example_keys[folded example_work] example_keys[folded example_committed]
  obtain r s' where r: "?m example_session = (r, s')" by fastforce
  have "fst (?m example_session) = Inr ()" by code_simp
  with r have ok: "?m example_session = (Inr (), s')" by simp
  obtain q s2 where q: "?n example_session = (q, s2)" by fastforce
  have "fst (?n example_session) = Inr ()" by code_simp
  with q have ok2: "?n example_session = (Inr (), s2)" by simp
  have d: "data_at example_world (''t'', ''ra'') = Some [(''f'', PStr ''x''), (''n'', PInt 5)]"
    "data_at example_world (''t'', ''rb'') = Some [(''f'', PStr ''y''), (''n'', PInt 6)]"
    "normalize_member_value_for_field example_world ''t'' ''f'' (PInt 9) = Inr (PInt 9)"
    "set_value ''f'' (PInt 9) [(''f'', PStr ''x''), (''n'', PInt 5)] = [(''f'', PInt 9), (''n'', PInt 5)]" by code_simp+
  have "\<not> table_has_data example_world ''v''" by (simp add: table_has_data_def select_first_def example_world_def)
  with record_store_refines_map[OF ready ok2] obtain s0 where s0: "open_table example_template ?c example_session = (Inr (), s0)"
    "opened ''v'' example_world (work s0)" "added_rows (work s0) ''v'' [[]] (data_at (work s0)) (data_at (work s2))"
    by (auto simp: opens_def normalize_table_id_def)
  from record_store_refines_map[OF ready ok] d have
    "data_at (work s') (''t'', ''ra'') = Some [(''f'', PInt 9), (''n'', PInt 5)]"
    "data_at (work s') (''t'', ''rb'') = Some [(''f'', PStr ''y''), (''n'', PInt 6)]"
    by (auto simp: opens_def normalize_table_id_def)
  with ok ok2 s0 show ?thesis by blast
qed

end
