(* ===== verification/SchemaStore.thy ===== *)
theory SchemaStore
  imports RecordProps
begin

text \<open>
  The schema of a table in \<open>smart_table_store/db_backend.py\<close>: its fields, filters, sorts,
  grouping and views. A value written to a text column is a string (\<open>text_value\<close>); JSON
  columns take any value.
\<close>

declare split_paired_All [simp del] split_paired_Ex [simp del]

text \<open>The attributes of the loaded row are those of \<open>r\<close>.\<close>

definition put_row :: "(('r list \<Rightarrow> 'r list) \<Rightarrow> tables \<Rightarrow> tables) \<Rightarrow> ('r \<Rightarrow> 'k) \<Rightarrow> 'r \<Rightarrow> unit op" where
  "put_row upd key r = update_rows upd (\<lambda>x. key x = key r) (\<lambda>_. r)"

section \<open>Fields\<close>

definition find_field :: "tables \<Rightarrow> string \<Rightarrow> string \<Rightarrow> table_field option" where
  "find_field t tbl field_id = select_first t_fields (\<lambda>f. fld_id f = field_id \<and> fld_table f = tbl) t"

text \<open>\<open>order_by(TableRecord.order_index, TableRecord.id)\<close>.\<close>

definition numbered_records :: "tables \<Rightarrow> string \<Rightarrow> table_record list" where
  "numbered_records t tbl = sort_key (\<lambda>r. (rec_order r, rec_id r)) (select t_records (\<lambda>r. rec_table r = tbl) t)"

definition write_number :: "string \<Rightarrow> table_record \<times> int \<Rightarrow> unit op" where
  "write_number field_id = (\<lambda>(r, n). update_rows t_records_update (\<lambda>x. rec_key x = rec_key r)
     (\<lambda>x. x\<lparr>rec_data := dset field_id (PInt n) (rec_data x)\<rparr>))"

text \<open>One pass over the records of a field that has become an auto-number field.\<close>

definition number_records :: "string \<Rightarrow> string \<Rightarrow> dict \<Rightarrow> dict op" where
  "number_records tbl field_id prop =
     bind_op (reads (\<lambda>t. numbered_records t tbl)) (\<lambda>records.
     bind_op (of_res (allocate_auto_number_values (PDict prop) (int (length records)))) (\<lambda>(nums, next_property).
     then_op (map_op (write_number field_id) (zip records nums)) (ret next_property)))"

definition restart_counter :: "dict \<Rightarrow> dict" where
  "restart_counter prop = dset ''nextNumber'' (dget prop ''start'') prop"

definition shift_fields :: "table_field list \<Rightarrow> int \<Rightarrow> unit op" where
  "shift_fields existing index = update_rows t_fields_update
     (\<lambda>x. fld_key x \<in> set (map fld_key (drop (nat index) existing))) (\<lambda>x. x\<lparr>fld_order := fld_order x + 1\<rparr>)"

definition place_new :: "table_field list \<Rightarrow> int option \<Rightarrow> int op" where
  "place_new existing index = (case index of
       Some i \<Rightarrow> if 0 \<le> i \<and> i \<le> int (length existing) then then_op (shift_fields existing i) (ret i)
         else ret (int (length existing))
     | None \<Rightarrow> ret (int (length existing)))"

text \<open>\<open>nextNumber\<close> is owned by the server: a counter the client sends is ignored.\<close>

definition new_property :: "dict \<Rightarrow> pyval res" where
  "new_property field_data =
     (if is_auto_number_field field_data
      then bind_res (normalize_auto_number_property (dget field_data ''property'') None) (\<lambda>p. Inr (PDict (restart_counter p)))
      else Inr (dget field_data ''property''))"

definition field_row :: "string \<Rightarrow> dict \<Rightarrow> pyval \<Rightarrow> int \<Rightarrow> table_field res" where
  "field_row tbl field_data property_value order =
     bind_res (text_item field_data ''id'') (\<lambda>fid.
     bind_res (text_item field_data ''name'') (\<lambda>name.
     bind_res (text_item field_data ''type'') (\<lambda>ftype.
       Inr \<lparr>fld_id = fid, fld_table = tbl, fld_name = name, fld_type = ftype,
            fld_options = dget field_data ''options'', fld_property = property_value, fld_order = order\<rparr>)))"

definition number_new_field :: "string \<Rightarrow> table_field \<Rightarrow> dict \<Rightarrow> dict op" where
  "number_new_field tbl f field_data =
     (case fld_property f of
        PDict prop \<Rightarrow>
          if is_auto_number_field field_data
          then bind_op (number_records tbl (fld_id f) prop) (\<lambda>next_property.
            then_op (update_rows t_fields_update (\<lambda>x. fld_key x = fld_key f) (\<lambda>x. x\<lparr>fld_property := PDict next_property\<rparr>))
            (ret (dset ''property'' (PDict next_property) field_data)))
          else ret field_data
      | _ \<Rightarrow> ret field_data)"

definition add_field :: "string option \<Rightarrow> dict \<Rightarrow> int option \<Rightarrow> dict op" where
  "add_field table_id field_data0 index =
     (let tbl = normalize_table_id table_id in
      bind_op (of_res (normalize_member_field_definition field_data0)) (\<lambda>field_data.
      bind_op (reads (\<lambda>t. ordered_fields t tbl)) (\<lambda>existing.
      bind_op (place_new existing index) (\<lambda>new_order.
      bind_op (of_res (new_property field_data)) (\<lambda>property_value.
      bind_op (of_res (field_row tbl field_data property_value new_order)) (\<lambda>f.
      then_op (insert_row t_fields t_fields_update fld_key f)
      (bind_op (number_new_field tbl f field_data) (\<lambda>result.
       then_op commit (ret result)))))))))"

text \<open>The property an update gives to an auto-number field that was one before.\<close>

definition kept_counter :: "pyval \<Rightarrow> pyval \<Rightarrow> dict res" where
  "kept_counter old_property next_property =
     bind_res (normalize_auto_number_property old_property None) (\<lambda>current.
     bind_res (py_dict next_property) (\<lambda>requested.
     bind_res (py_int (dget current ''nextNumber'')) (\<lambda>n.
       normalize_auto_number_property (PDict (dset ''start'' (dget current ''start'') requested)) (Some n))))"

definition member_update :: "string \<Rightarrow> table_field \<Rightarrow> dict \<Rightarrow> (dict \<times> pyval) op" where
  "member_update tbl f updates =
     bind_op (of_res (normalize_member_field_definition
       [(''type'', PStr ''member''), (''options'', dget_default updates ''options'' (fld_options f)),
        (''property'', dget_default updates ''property'' (fld_property f))])) (\<lambda>normalized.
     let next_property = dget normalized ''property'' in
     bind_op (reads (\<lambda>t. ensure_member_field_change_safe t tbl (fld_id f) (fld_type f) ''member'' next_property)) (\<lambda>safe.
     then_op (of_res safe)
       (ret (dset ''property'' next_property (dset ''options'' PNone updates), next_property))))"

definition auto_update :: "string \<Rightarrow> table_field \<Rightarrow> pyval \<Rightarrow> pyval op" where
  "auto_update tbl f next_property =
     (if fld_type f = ''autoNumber''
      then bind_op (of_res (kept_counter (fld_property f) next_property)) (\<lambda>p. ret (PDict p))
      else bind_op (of_res (normalize_auto_number_property next_property None)) (\<lambda>p.
           bind_op (number_records tbl (fld_id f) (restart_counter p)) (\<lambda>p'. ret (PDict p'))))"

text \<open>The attributes of the row, once the checks passed.\<close>

definition field_update :: "dict \<Rightarrow> pyval \<Rightarrow> pyval \<Rightarrow> table_field \<Rightarrow> table_field res" where
  "field_update updates next_type next_property f =
     bind_res (if dhas updates ''name'' then text_value (dget updates ''name'') else Inr (fld_name f)) (\<lambda>name.
     bind_res (if dhas updates ''type'' then text_value next_type else Inr (fld_type f)) (\<lambda>ftype.
       Inr (f\<lparr>fld_name := name, fld_type := ftype,
              fld_options := (if dhas updates ''options'' then dget updates ''options'' else fld_options f),
              fld_property := (if dhas updates ''property'' \<or> next_type = PStr ''autoNumber'' then next_property else fld_property f)\<rparr>)))"

definition update_field :: "string option \<Rightarrow> string \<Rightarrow> dict \<Rightarrow> dict option op" where
  "update_field table_id field_id updates0 =
     (let tbl = normalize_table_id table_id in
      bind_op (reads (\<lambda>t. find_field t tbl field_id)) (\<lambda>found.
      case found of
        None \<Rightarrow> ret None
      | Some f \<Rightarrow>
          let next_type = dget_default updates0 ''type'' (PStr (fld_type f)) in
          bind_op (if next_type = PStr ''member'' then member_update tbl f updates0
                   else ret (updates0, dget_default updates0 ''property'' (fld_property f))) (\<lambda>(updates, next_property0).
          bind_op (if next_type = PStr ''autoNumber'' then auto_update tbl f next_property0 else ret next_property0) (\<lambda>next_property.
          bind_op (of_res (field_update updates next_type next_property f)) (\<lambda>f'.
          then_op (put_row t_fields_update fld_key f')
          (then_op commit (ret (Some (field_dict f')))))))))"

definition delete_field :: "string option \<Rightarrow> string \<Rightarrow> bool op" where
  "delete_field table_id field_id =
     (let tbl = normalize_table_id table_id in
      bind_op (reads (\<lambda>t. find_field t tbl field_id)) (\<lambda>found.
      case found of
        None \<Rightarrow> ret False
      | Some f \<Rightarrow>
          then_op (delete_rows t_fields_update (\<lambda>x. fld_key x = fld_key f))
          (then_op (update_rows t_records_update (\<lambda>r. rec_table r = tbl \<and> dhas (rec_data r) field_id)
             (\<lambda>r. r\<lparr>rec_data := ddel field_id (rec_data r)\<rparr>))
          (then_op commit (ret True)))))"

definition place_field :: "string \<Rightarrow> nat \<times> string \<Rightarrow> unit op" where
  "place_field tbl = (\<lambda>(idx, field_id). update_rows t_fields_update
     (\<lambda>x. fld_id x = field_id \<and> fld_table x = tbl) (\<lambda>x. x\<lparr>fld_order := int idx\<rparr>))"

definition reorder_fields :: "string option \<Rightarrow> string list \<Rightarrow> bool op" where
  "reorder_fields table_id field_order =
     then_op (map_op (place_field (normalize_table_id table_id)) (enumerate 0 field_order))
     (then_op commit (ret True))"

definition hide_field :: "string list \<Rightarrow> table_field \<Rightarrow> unit op" where
  "hide_field hidden_field_ids f =
     bind_op (of_res (py_dict (fld_property f))) (\<lambda>current.
       update_rows t_fields_update (\<lambda>x. fld_key x = fld_key f)
         (\<lambda>x. x\<lparr>fld_property := PDict (dset ''hidden'' (PBool (fld_id f \<in> set hidden_field_ids)) current)\<rparr>))"

definition update_field_visibility :: "string option \<Rightarrow> string list \<Rightarrow> bool op" where
  "update_field_visibility table_id hidden_field_ids =
     (let tbl = normalize_table_id table_id in
      bind_op (reads (select t_fields (\<lambda>f. fld_table f = tbl))) (\<lambda>flds.
      then_op (map_op (hide_field hidden_field_ids) flds)
      (then_op commit (ret True))))"

section \<open>Filters and sorts\<close>

definition ordered_filters :: "tables \<Rightarrow> string \<Rightarrow> table_filter list" where
  "ordered_filters t tbl = sort_key flt_order (select t_filters (\<lambda>f. flt_table f = tbl) t)"

definition ordered_sorts :: "tables \<Rightarrow> string \<Rightarrow> table_sort list" where
  "ordered_sorts t tbl = sort_key srt_order (select t_sorts (\<lambda>x. srt_table x = tbl) t)"

text \<open>\<open>func.max(...).scalar() or 0\<close>.\<close>

definition max_or_zero :: "int list \<Rightarrow> int" where
  "max_or_zero xs = (case xs of [] \<Rightarrow> 0 | y # ys \<Rightarrow> fold max ys y)"

definition get_filters :: "tables \<Rightarrow> string option \<Rightarrow> dict list" where
  "get_filters t table_id = map filter_dict (ordered_filters t (normalize_table_id table_id))"

definition new_filter :: "string \<Rightarrow> int \<Rightarrow> dict \<Rightarrow> table_filter res" where
  "new_filter tbl idx d = bind_res (text_item d ''id'') (\<lambda>fid. filter_row tbl fid idx d)"

definition add_filter :: "string option \<Rightarrow> dict \<Rightarrow> dict op" where
  "add_filter table_id filter_data =
     (let tbl = normalize_table_id table_id in
      bind_op (reads (\<lambda>t. max_or_zero (map flt_order (select t_filters (\<lambda>f. flt_table f = tbl) t)))) (\<lambda>mx.
      bind_op (of_res (new_filter tbl (mx + 1) filter_data)) (\<lambda>row.
      then_op (insert_row t_filters t_filters_update flt_key row)
      (then_op commit (ret filter_data)))))"

definition filter_update :: "dict \<Rightarrow> table_filter \<Rightarrow> table_filter res" where
  "filter_update updates f =
     bind_res (if dhas updates ''fieldId'' then text_value (dget updates ''fieldId'') else Inr (flt_field f)) (\<lambda>field_id.
     bind_res (if dhas updates ''operator'' then text_value (dget updates ''operator'') else Inr (flt_operator f)) (\<lambda>opr.
     bind_res (if dhas updates ''logic'' then text_value (dget updates ''logic'') else Inr (flt_logic f)) (\<lambda>logic.
       Inr (f\<lparr>flt_field := field_id, flt_operator := opr,
              flt_value := (if dhas updates ''value'' then dget updates ''value'' else flt_value f), flt_logic := logic\<rparr>))))"

definition update_filter :: "string option \<Rightarrow> string \<Rightarrow> dict \<Rightarrow> dict option op" where
  "update_filter table_id filter_id updates =
     (let tbl = normalize_table_id table_id in
      bind_op (reads (select_first t_filters (\<lambda>f. flt_id f = filter_id \<and> flt_table f = tbl))) (\<lambda>found.
      case found of
        None \<Rightarrow> ret None
      | Some f \<Rightarrow>
          bind_op (of_res (filter_update updates f)) (\<lambda>f'.
          then_op (put_row t_filters_update flt_key f')
          (then_op commit (ret (Some (filter_dict f')))))))"

definition delete_filter :: "string option \<Rightarrow> string \<Rightarrow> bool op" where
  "delete_filter table_id filter_id =
     (let tbl = normalize_table_id table_id in
      bind_op (reads (select_first t_filters (\<lambda>f. flt_id f = filter_id \<and> flt_table f = tbl))) (\<lambda>found.
      case found of
        None \<Rightarrow> ret False
      | Some f \<Rightarrow> then_op (delete_rows t_filters_update (\<lambda>x. flt_key x = flt_key f)) (then_op commit (ret True))))"

definition update_filters :: "string option \<Rightarrow> dict list \<Rightarrow> bool op" where
  "update_filters table_id filters =
     (let tbl = normalize_table_id table_id in
      then_op (delete_rows t_filters_update (\<lambda>f. flt_table f = tbl))
      (bind_op (of_res (map_res (\<lambda>(idx, d). new_filter tbl (int idx) d) (enumerate 0 filters))) (\<lambda>rows.
       then_op (insert_all t_filters t_filters_update flt_key rows)
       (then_op commit (ret True)))))"

definition clear_filters :: "string option \<Rightarrow> bool op" where
  "clear_filters table_id =
     then_op (delete_rows t_filters_update (\<lambda>f. flt_table f = normalize_table_id table_id))
     (then_op commit (ret True))"

definition get_sorts :: "tables \<Rightarrow> string option \<Rightarrow> dict list" where
  "get_sorts t table_id = map sort_dict (ordered_sorts t (normalize_table_id table_id))"

definition add_sort :: "string option \<Rightarrow> dict \<Rightarrow> dict op" where
  "add_sort table_id sort_data =
     (let tbl = normalize_table_id table_id in
      bind_op (reads (\<lambda>t. max_or_zero (map srt_order (select t_sorts (\<lambda>x. srt_table x = tbl) t)))) (\<lambda>mx.
      bind_op millis (\<lambda>ms.
      bind_op (of_res (sort_row tbl (''s'' @ ms) (mx + 1) sort_data)) (\<lambda>row.
      then_op (insert_row t_sorts t_sorts_update srt_key row)
      (then_op commit (ret sort_data))))))"

definition delete_sort :: "string option \<Rightarrow> string \<Rightarrow> bool op" where
  "delete_sort table_id sort_id =
     (let tbl = normalize_table_id table_id in
      bind_op (reads (select_first t_sorts (\<lambda>x. srt_id x = sort_id \<and> srt_table x = tbl))) (\<lambda>found.
      case found of
        None \<Rightarrow> ret False
      | Some x \<Rightarrow> then_op (delete_rows t_sorts_update (\<lambda>y. srt_key y = srt_key x)) (then_op commit (ret True))))"

definition new_sort :: "string \<Rightarrow> nat \<times> dict \<Rightarrow> table_sort op" where
  "new_sort tbl = (\<lambda>(idx, d). bind_op millis (\<lambda>ms.
     of_res (sort_row tbl (''s'' @ ms @ ''_'' @ dec_nat idx) (int idx) d)))"

definition update_sorts :: "string option \<Rightarrow> dict list \<Rightarrow> bool op" where
  "update_sorts table_id sorts =
     (let tbl = normalize_table_id table_id in
      then_op (delete_rows t_sorts_update (\<lambda>x. srt_table x = tbl))
      (bind_op (map_op (new_sort tbl) (enumerate 0 sorts)) (\<lambda>rows.
       then_op (insert_all t_sorts t_sorts_update srt_key rows)
       (then_op commit (ret True)))))"

definition clear_sorts :: "string option \<Rightarrow> bool op" where
  "clear_sorts table_id =
     then_op (delete_rows t_sorts_update (\<lambda>x. srt_table x = normalize_table_id table_id))
     (then_op commit (ret True))"

definition update_group_config :: "string option \<Rightarrow> dict \<Rightarrow> dict op" where
  "update_group_config table_id config =
     (let tbl = normalize_table_id table_id in
      bind_op (reads (select_first t_groups (\<lambda>g. grp_table g = tbl))) (\<lambda>existing.
      bind_op (of_res (group_row tbl config)) (\<lambda>g'.
      then_op (case existing of
          Some g \<Rightarrow> update_rows t_groups_update (\<lambda>x. grp_key x = grp_key g)
            (\<lambda>x. x\<lparr>grp_field := grp_field g', grp_dir := grp_dir g'\<rparr>)
        | None \<Rightarrow> insert_row t_groups t_groups_update grp_key g')
      (then_op commit
      (ret [(''fieldId'', dget config ''fieldId''), (''order'', dget_default config ''order'' (PStr ''asc''))])))))"

section \<open>Views\<close>

definition find_view :: "tables \<Rightarrow> string \<Rightarrow> string \<Rightarrow> table_view option" where
  "find_view t tbl view_id = select_first t_views (\<lambda>v. vw_id v = view_id \<and> vw_table v = tbl) t"

definition change_view :: "string option \<Rightarrow> string \<Rightarrow> (table_view \<Rightarrow> table_view) \<Rightarrow> dict option op" where
  "change_view table_id view_id g =
     (let tbl = normalize_table_id table_id in
      bind_op (reads (\<lambda>t. find_view t tbl view_id)) (\<lambda>found.
      case found of
        None \<Rightarrow> ret None
      | Some v \<Rightarrow>
          then_op (put_row t_views_update vw_key (g v))
          (then_op commit (ret (Some (view_dict (g v)))))))"

definition update_view_config :: "string option \<Rightarrow> string \<Rightarrow> dict \<Rightarrow> dict option op" where
  "update_view_config table_id view_id config = change_view table_id view_id (\<lambda>v. v\<lparr>vw_config := PDict config\<rparr>)"

definition set_db_table_default_view_id :: "string \<Rightarrow> string \<Rightarrow> unit op" where
  "set_db_table_default_view_id tbl view_id =
     bind_op (reads (select_first t_items (\<lambda>i. itm_id i = tbl \<and> itm_type i = ''table''))) (\<lambda>item.
     case item of
       None \<Rightarrow> ret ()
     | Some i \<Rightarrow>
         if itm_view i = Some view_id then ret ()
         else then_op (update_rows t_items_update (\<lambda>x. itm_id x = itm_id i) (\<lambda>x. x\<lparr>itm_view := Some view_id\<rparr>)) commit)"

definition view_row :: "string \<Rightarrow> dict \<Rightarrow> table_view res" where
  "view_row tbl d =
     bind_res (text_item d ''id'') (\<lambda>vid.
     bind_res (text_item d ''name'') (\<lambda>name.
     bind_res (text_item d ''type'') (\<lambda>vtype.
       Inr \<lparr>vw_id = vid, vw_table = tbl, vw_name = name, vw_type = vtype, vw_config = dget d ''config''\<rparr>)))"

definition create_view :: "string option \<Rightarrow> dict \<Rightarrow> dict op" where
  "create_view table_id view_data =
     (let tbl = normalize_table_id table_id in
      bind_op (of_res (view_row tbl view_data)) (\<lambda>v.
      then_op (insert_row t_views t_views_update vw_key v)
      (then_op commit
      (bind_op (reads (\<lambda>t. length (select t_views (\<lambda>v. vw_table v = tbl) t))) (\<lambda>count.
       then_op (if count = 1 then set_db_table_default_view_id tbl (vw_id v) else ret ())
       (ret view_data))))))"

definition rename_view :: "string option \<Rightarrow> string \<Rightarrow> string \<Rightarrow> dict option op" where
  "rename_view table_id view_id name = change_view table_id view_id (\<lambda>v. v\<lparr>vw_name := name\<rparr>)"

definition copy_view :: "string option \<Rightarrow> string \<Rightarrow> dict \<Rightarrow> dict option op" where
  "copy_view table_id source_view_id new_view_data =
     (let tbl = normalize_table_id table_id in
      bind_op (reads (\<lambda>t. find_view t tbl source_view_id)) (\<lambda>found.
      case found of
        None \<Rightarrow> ret None
      | Some _ \<Rightarrow>
          bind_op (of_res (view_row tbl new_view_data)) (\<lambda>v.
          then_op (insert_row t_views t_views_update vw_key v)
          (then_op commit (ret (Some new_view_data))))))"

definition delete_view :: "string option \<Rightarrow> string \<Rightarrow> bool op" where
  "delete_view table_id view_id =
     (let tbl = normalize_table_id table_id in
      bind_op (reads (\<lambda>t. length (select t_views (\<lambda>v. vw_table v = tbl) t))) (\<lambda>count.
      if count \<le> 1 then ret False
      else
        bind_op (reads (\<lambda>t. find_view t tbl view_id)) (\<lambda>found.
        case found of
          None \<Rightarrow> ret False
        | Some v \<Rightarrow>
            then_op (delete_rows t_views_update (\<lambda>x. vw_key x = vw_key v))
            (then_op commit
            (bind_op (reads (select_first t_views (\<lambda>v. vw_table v = tbl))) (\<lambda>first_view.
             then_op (case first_view of None \<Rightarrow> ret () | Some w \<Rightarrow> set_db_table_default_view_id tbl (vw_id w))
             (ret True)))))))"

section \<open>What every schema operation keeps\<close>

lemmas schema_defs = add_field_def update_field_def delete_field_def reorder_fields_def update_field_visibility_def
  add_filter_def update_filter_def delete_filter_def update_filters_def clear_filters_def add_sort_def delete_sort_def
  update_sorts_def clear_sorts_def update_group_config_def update_view_config_def change_view_def create_view_def rename_view_def
  copy_view_def delete_view_def set_db_table_default_view_id_def number_records_def write_number_def shift_fields_def place_new_def number_new_field_def
  member_update_def auto_update_def place_field_def hide_field_def new_sort_def millis_def insert_all_def

text \<open>The operations of the schema, with their arguments.\<close>

datatype schema_write =
    AddField "string option" dict "int option"
  | UpdateField "string option" string dict
  | DeleteField "string option" string
  | ReorderFields "string option" "string list"
  | HideFields "string option" "string list"
  | AddFilter "string option" dict
  | UpdateFilter "string option" string dict
  | DeleteFilter "string option" string
  | SetFilters "string option" "dict list"
  | ClearFilters "string option"
  | AddSort "string option" dict
  | DeleteSort "string option" string
  | SetSorts "string option" "dict list"
  | ClearSorts "string option"
  | SetGroup "string option" dict
  | ConfigureView "string option" string dict
  | CreateView "string option" dict
  | RenameView "string option" string string
  | CopyView "string option" string dict
  | DeleteView "string option" string

fun run_schema :: "schema_write \<Rightarrow> unit op" where
  "run_schema (AddField T d i) = ignore (add_field T d i)"
| "run_schema (UpdateField T f d) = ignore (update_field T f d)"
| "run_schema (DeleteField T f) = ignore (delete_field T f)"
| "run_schema (ReorderFields T fs) = ignore (reorder_fields T fs)"
| "run_schema (HideFields T fs) = ignore (update_field_visibility T fs)"
| "run_schema (AddFilter T d) = ignore (add_filter T d)"
| "run_schema (UpdateFilter T i d) = ignore (update_filter T i d)"
| "run_schema (DeleteFilter T i) = ignore (delete_filter T i)"
| "run_schema (SetFilters T ds) = ignore (update_filters T ds)"
| "run_schema (ClearFilters T) = ignore (clear_filters T)"
| "run_schema (AddSort T d) = ignore (add_sort T d)"
| "run_schema (DeleteSort T i) = ignore (delete_sort T i)"
| "run_schema (SetSorts T ds) = ignore (update_sorts T ds)"
| "run_schema (ClearSorts T) = ignore (clear_sorts T)"
| "run_schema (SetGroup T d) = ignore (update_group_config T d)"
| "run_schema (ConfigureView T v d) = ignore (update_view_config T v d)"
| "run_schema (CreateView T d) = ignore (create_view T d)"
| "run_schema (RenameView T v n) = ignore (rename_view T v n)"
| "run_schema (CopyView T v d) = ignore (copy_view T v d)"
| "run_schema (DeleteView T v) = ignore (delete_view T v)"

lemma put_row_keeps:
  assumes "\<And>t f. keys_ok t \<Longrightarrow> distinct (map key (f (get t))) \<Longrightarrow> keys_ok (upd f t)" "\<And>t. keys_ok t \<Longrightarrow> distinct (map key (get t))"
  shows "keeps keys_ok (put_row upd key r)"
proof -
  have "keys_ok (upd (map (\<lambda>x. if key x = key r then r else x)) t)" if t: "keys_ok t" for t
  proof (rule assms(1)[OF t])
    have "map key (map (\<lambda>x. if key x = key r then r else x) (get t)) = map key (get t)" by simp
    then show "distinct (map key (map (\<lambda>x. if key x = key r then r else x) (get t)))" using assms(2)[OF t] by (simp only:)
  qed
  then show ?thesis by (simp add: keeps_def put_row_def op_eval)
qed

lemmas put_rows_keep [keeps_intro] =
  put_row_keeps[of fld_key t_fields t_fields_update, OF tf.keys_upd tf.keys_get]
  put_row_keeps[of flt_key t_filters t_filters_update, OF tfl.keys_upd tfl.keys_get]
  put_row_keeps[of vw_key t_views t_views_update, OF tv.keys_upd tv.keys_get]

lemma schema_keeps_keys: "keeps keys_ok (run_schema w)"
  by (cases w)
    (auto simp: ignore_def schema_defs Let_def fld_key_def rec_key_def vw_key_def flt_key_def grp_key_def
      intro!: keeps_intro split: option.splits prod.splits pyval.splits)

lemma put_row_no_commit [no_commit_intro]: "no_commit (put_row upd key r)"
  unfolding put_row_def by (rule no_commit_rows)

section \<open>Auto numbers under schema changes\<close>

lemma is_auto_iff [simp]: "is_auto_number_field [(''type'', PStr s)] \<longleftrightarrow> s = ''autoNumber''"
  by (auto simp: is_auto_number_field_def str_or_empty_def py_str_def)

text \<open>The records after the numbering pass.\<close>

definition numbered :: "string \<Rightarrow> ((string \<times> string) \<times> int) list \<Rightarrow> table_record \<Rightarrow> table_record" where
  "numbered field_id nums x = (case map_of nums (rec_key x) of None \<Rightarrow> x
     | Some n \<Rightarrow> x\<lparr>rec_data := dset field_id (PInt n) (rec_data x)\<rparr>)"

lemma numbered_key [simp]: "rec_key (numbered i nums x) = rec_key x"
  by (simp add: numbered_def rec_key_def split: option.splits)

lemma write_numbers_run:
  assumes "map_op (write_number i) (zip rs nums) s = (Inr ys, s')" "distinct (map rec_key rs)" "length nums = length rs"
  shows "s' = on_records (numbered i (zip (map rec_key rs) nums)) s"
  using assms
proof (induction rs arbitrary: nums s ys)
  case Nil
  then show ?case by (simp add: basic_eval) (rule on_records_id[symmetric], simp add: numbered_def)
next
  case (Cons r rs)
  then obtain n ns where nums: "nums = n # ns" by (cases nums) auto
  let ?g = "\<lambda>x. if rec_key x = rec_key r then x\<lparr>rec_data := dset i (PInt n) (rec_data x)\<rparr> else x"
  from Cons.prems(1) nums obtain zs where rest: "map_op (write_number i) (zip rs ns) (on_records ?g s) = (Inr zs, s')"
    by (auto simp: bind_op_Inr write_number_def update_rows_eval basic_eval on_records_def)
  have "s' = on_records (numbered i (zip (map rec_key rs) ns)) (on_records ?g s)"
    by (rule Cons.IH[OF rest]) (use Cons.prems(2,3) nums in auto)
  also have "\<dots> = on_records (numbered i (zip (map rec_key (r # rs)) nums)) s"
    unfolding on_records_comp nums
  proof (rule on_records_cong)
    fix x
    have "map_of (zip (map rec_key rs) ns) (rec_key r) = None"
      using Cons.prems(2,3) nums by (simp add: map_of_zip_is_None)
    then show "numbered i (zip (map rec_key rs) ns) (?g x) = numbered i (zip (map rec_key (r # rs)) (n # ns)) x"
      by (auto simp: numbered_def rec_key_def split: option.splits)
  qed
  finally show ?case .
qed

lemma numbered_records_keys:
  assumes "keys_ok t"
  shows "distinct (map rec_key (numbered_records t tbl))" "set (numbered_records t tbl) = {r \<in> set (t_records t). rec_table r = tbl}"
proof -
  show s: "set (numbered_records t tbl) = {r \<in> set (t_records t). rec_table r = tbl}"
    by (auto simp: numbered_records_def select_def)
  have "distinct (numbered_records t tbl)" "inj_on rec_key (set (t_records t))"
    using tr.keys_get[OF assms] by (simp_all add: numbered_records_def select_def distinct_map)
  then show "distinct (map rec_key (numbered_records t tbl))" using s by (auto simp: distinct_map inj_on_def)
qed

text \<open>Every record of the table has its own number under \<open>i\<close>, below the counter; nothing else changed.\<close>

definition renumbered :: "string \<Rightarrow> string \<Rightarrow> int \<Rightarrow> table_record list \<Rightarrow> (table_record \<Rightarrow> table_record) \<Rightarrow> bool" where
  "renumbered tbl i nxt R h \<longleftrightarrow> (\<forall>x. rec_key (h x) = rec_key x) \<and> (\<forall>x. rec_table x \<noteq> tbl \<longrightarrow> h x = x)
     \<and> (\<exists>m. \<forall>x\<in>set R. rec_table x = tbl \<longrightarrow> rec_data (h x) = dset i (PInt (m x)) (rec_data x) \<and> m x < nxt
          \<and> (\<forall>y\<in>set R. rec_table y = tbl \<longrightarrow> m y = m x \<longrightarrow> rec_key y = rec_key x))"

lemma number_records_run:
  assumes run: "number_records tbl i prop s = (Inr p', s')" and k: "keys_ok (work s)"
  shows "\<exists>h. s' = on_records h s \<and> renumbered tbl i (next_number (PDict p')) (t_records (work s)) h"
proof -
  let ?rs = "numbered_records (work s) tbl"
  from run obtain nums ys where al: "allocate_auto_number_values (PDict prop) (int (length ?rs)) = Inr (nums, p')"
    and w: "map_op (write_number i) (zip ?rs nums) s = (Inr ys, s')"
    by (auto simp: number_records_def bind_op_Inr then_op_def basic_eval)
  from al have "allocate_stored (PDict prop) (int (length ?rs)) = Inr (nums, PDict p')" by (simp add: allocate_stored_def)
  note b = allocate_stored_block[OF this]
  let ?n = "next_number (PDict prop)"
  have len: "length nums = length ?rs" using b by simp
  note d = numbered_records_keys(1)[OF k, of tbl] and set = numbered_records_keys(2)[OF k, of tbl]
  have s': "s' = on_records (numbered i (zip (map rec_key ?rs) nums)) s" by (rule write_numbers_run[OF w d len])
  let ?h = "numbered i (zip (map rec_key ?rs) nums)"
  have dz: "distinct (map fst (zip (map rec_key ?rs) nums))" using d len by simp
  have at: "map_of (zip (map rec_key ?rs) nums) (rec_key (?rs ! j)) = Some (?n + int j)" if "j < length ?rs" for j
  proof -
    have "nums ! j = ?n + int j" using b that by simp
    then have "(rec_key (?rs ! j), ?n + int j) \<in> set (zip (map rec_key ?rs) nums)"
      using that len by (auto simp: in_set_zip intro!: exI[of _ j])
    with dz show ?thesis by (rule map_of_is_SomeI)
  qed
  define m where "m x = the (map_of (zip (map rec_key ?rs) nums) (rec_key x))" for x :: table_record
  have row: "\<exists>j<length ?rs. x = ?rs ! j \<and> m x = ?n + int j \<and> rec_data (?h x) = dset i (PInt (m x)) (rec_data x)"
    if "x \<in> set (t_records (work s))" "rec_table x = tbl" for x
  proof -
    from that set have "x \<in> set ?rs" by simp
    then obtain j where j: "j < length ?rs" "x = ?rs ! j" by (auto simp: in_set_conv_nth)
    with at[OF j(1)] show ?thesis by (auto simp: m_def numbered_def)
  qed
  have other: "?h x = x" if "rec_table x \<noteq> tbl" for x
  proof -
    have "rec_key x \<notin> rec_key ` set ?rs" using that set by (auto simp: rec_key_def)
    then have "map_of (zip (map rec_key ?rs) nums) (rec_key x) = None"
      using len by (auto simp: map_of_zip_is_None)
    then show ?thesis by (simp add: numbered_def)
  qed
  have np: "next_number (PDict p') = ?n + int (length ?rs)" using b by simp
  have "renumbered tbl i (next_number (PDict p')) (t_records (work s)) ?h"
    unfolding renumbered_def
  proof (intro conjI exI[of _ m] ballI impI allI)
    fix x assume x: "x \<in> set (t_records (work s))" "rec_table x = tbl"
    from row[OF x] show "rec_data (?h x) = dset i (PInt (m x)) (rec_data x)" by blast
    from row[OF x] np show "m x < next_number (PDict p')" by auto
    fix y assume y: "y \<in> set (t_records (work s))" "rec_table y = tbl" "m y = m x"
    from row[OF x] row[OF y(1,2)] y(3) show "rec_key y = rec_key x" by auto
  qed (use other in simp_all)
  with s' show ?thesis by blast
qed

lemma kept_counter_next:
  assumes "kept_counter old new = Inr p"
  shows "next_number old \<le> next_number (PDict p)"
proof -
  from assms obtain current requested n where c: "normalize_auto_number_property old None = Inr current"
    and n: "py_int (dget current ''nextNumber'') = Inr n"
    and p: "normalize_auto_number_property (PDict (dset ''start'' (dget current ''start'') requested)) (Some n) = Inr p"
    by (auto simp: kept_counter_def)
  from next_number_stored[OF c] n have "n = next_number old" by (simp add: dget_def)
  moreover from p have "n \<le> next_number (PDict p)"
  proof (rule normalize_auto_number_cases)
    fix pr start
    assume "map_of p ''nextNumber'' = Some (PInt (auto_number_next pr start (Some n)))"
    then show ?thesis using normalize_auto_number_idem[OF p] by (simp add: next_number_def dget_def auto_number_next_def)
  qed
  ultimately show ?thesis by simp
qed

text \<open>How a field of the table looks to the numbers after a schema change.\<close>

lemma numbers_schema:
  assumes ok: "numbers_ok t" and R: "t_records t' = map h (t_records t)" and h: "\<And>x. rec_key (h x) = rec_key x"
    and f: "\<And>f'. f' \<in> set (t_fields t') \<Longrightarrow> fld_type f' = ''autoNumber'' \<Longrightarrow>
        (\<exists>f\<in>set (t_fields t). fld_type f = ''autoNumber'' \<and> fld_key f' = fld_key f \<and> next_of f \<le> next_of f'
           \<and> (\<forall>x\<in>set (t_records t). rec_table x = fld_table f \<longrightarrow> dget (rec_data (h x)) (fld_id f) = dget (rec_data x) (fld_id f)))
      \<or> renumbered (fld_table f') (fld_id f') (next_of f') (t_records t) h"
  shows "numbers_ok t'"
proof (rule numbers_mapped[OF ok, where h = h and P = "\<lambda>_. True"])
  fix f' assume "f' \<in> set (t_fields t')" "is_auto f'"
  then have "f' \<in> set (t_fields t')" "fld_type f' = ''autoNumber''" by simp_all
  from f[OF this] show "(\<exists>f\<in>set (t_fields t). is_auto f \<and> fld_key f' = fld_key f \<and> next_of f \<le> next_of f'
           \<and> (\<forall>x\<in>set (t_records t). rec_table x = fld_table f \<longrightarrow> dget (rec_data (h x)) (fld_id f) = dget (rec_data x) (fld_id f)))
      \<or> (\<exists>m. \<forall>x\<in>set (t_records t). rec_table x = fld_table f' \<longrightarrow> dget (rec_data (h x)) (fld_id f') = PInt (m x) \<and> m x < next_of f'
           \<and> (\<forall>y\<in>set (t_records t). rec_table y = fld_table f' \<longrightarrow> m y = m x \<longrightarrow> rec_key y = rec_key x))"
  proof (elim disjE)
    assume "renumbered (fld_table f') (fld_id f') (next_of f') (t_records t) h"
    then obtain m where "\<forall>x\<in>set (t_records t). rec_table x = fld_table f' \<longrightarrow> rec_data (h x) = dset (fld_id f') (PInt (m x)) (rec_data x) \<and> m x < next_of f'
          \<and> (\<forall>y\<in>set (t_records t). rec_table y = fld_table f' \<longrightarrow> m y = m x \<longrightarrow> rec_key y = rec_key x)"
      unfolding renumbered_def by blast
    note M = this
    show ?thesis
    proof (intro disjI2 exI[of _ m] ballI impI)
      fix x assume x: "x \<in> set (t_records t)" "rec_table x = fld_table f'"
      from M x have a: "rec_data (h x) = dset (fld_id f') (PInt (m x)) (rec_data x)" and b: "m x < next_of f'"
        and c: "\<forall>y\<in>set (t_records t). rec_table y = fld_table f' \<longrightarrow> m y = m x \<longrightarrow> rec_key y = rec_key x" by blast+
      have "dget (rec_data (h x)) (fld_id f') = PInt (m x)" unfolding a by simp
      with b c show "dget (rec_data (h x)) (fld_id f') = PInt (m x) \<and> m x < next_of f'
          \<and> (\<forall>y\<in>set (t_records t). rec_table y = fld_table f' \<longrightarrow> m y = m x \<longrightarrow> rec_key y = rec_key x)" by blast
    qed
  next
    assume "\<exists>f\<in>set (t_fields t). fld_type f = ''autoNumber'' \<and> fld_key f' = fld_key f \<and> next_of f \<le> next_of f'
           \<and> (\<forall>x\<in>set (t_records t). rec_table x = fld_table f \<longrightarrow> dget (rec_data (h x)) (fld_id f) = dget (rec_data x) (fld_id f))"
    then show ?thesis unfolding is_auto_iff by blast
  qed
qed (use R h in simp_all)

lemma shift_fields_run:
  "shift_fields ex i s = (Inr (), s\<lparr>work := t_fields_update (map (\<lambda>x. if fld_key x \<in> set (map fld_key (drop (nat i) ex))
      then x\<lparr>fld_order := fld_order x + 1\<rparr> else x)) (work s)\<rparr>)"
  by (simp add: shift_fields_def update_rows_eval)

lemma delete_field_run:
  assumes "delete_field T i s = (Inr b, s')" "keys_ok (work s)"
  shows "(b = False \<and> s' = s \<and> find_field (work s) (normalize_table_id T) i = None)
    \<or> (b = True \<and> committed s' = work s' \<and> find_field (work s) (normalize_table_id T) i \<noteq> None
       \<and> work s' = (work s)\<lparr>t_fields := filter (\<lambda>f. fld_key f \<noteq> (i, normalize_table_id T)) (t_fields (work s)),
           t_records := map (\<lambda>r. if rec_table r = normalize_table_id T \<and> dhas (rec_data r) i
             then r\<lparr>rec_data := ddel i (rec_data r)\<rparr> else r) (t_records (work s))\<rparr>)"
proof (cases "find_field (work s) (normalize_table_id T) i")
  case None
  with assms show ?thesis by (simp add: delete_field_def Let_def op_eval)
next
  case (Some f)
  then have "fld_key f = (i, normalize_table_id T)"
    by (auto simp: find_field_def select_first_def fld_key_def dest!: find_SomeD)
  with assms Some show ?thesis by (auto simp: delete_field_def Let_def op_eval)
qed

lemma renumbered_simps:
  assumes "renumbered tbl i nxt R h"
  shows "rec_key (h x) = rec_key x" "x \<in> set R \<Longrightarrow> k \<noteq> i \<or> rec_table x \<noteq> tbl \<Longrightarrow> dget (rec_data (h x)) k = dget (rec_data x) k"
proof -
  show "rec_key (h x) = rec_key x" using assms by (simp add: renumbered_def)
  assume "x \<in> set R" "k \<noteq> i \<or> rec_table x \<noteq> tbl"
  with assms show "dget (rec_data (h x)) k = dget (rec_data x) k" by (cases "rec_table x = tbl") (auto simp: renumbered_def)
qed

text \<open>A new field, and how the records change when it is an auto-number field.\<close>

text \<open>The row keeps the id and the type sent, and the property unless its type normalises it.\<close>

definition stored_as :: "dict \<Rightarrow> table_field \<Rightarrow> bool" where
  "stored_as d f \<longleftrightarrow> dget d ''id'' = PStr (fld_id f) \<and> dget d ''type'' = PStr (fld_type f)
     \<and> (fld_type f \<notin> {''autoNumber'', ''member''} \<longrightarrow> fld_property f = dget d ''property'')"

lemma add_field_run:
  assumes run: "add_field T d idx s = (Inr out, s')" and k: "keys_ok (work s)"
  shows "\<exists>\<sigma> nf h. t_fields (work s') = map \<sigma> (t_fields (work s)) @ [nf] \<and> t_records (work s') = map h (t_records (work s))
    \<and> committed s' = work s' \<and> fld_table nf = normalize_table_id T
    \<and> fld_key nf \<notin> fld_key ` set (t_fields (work s))
    \<and> (\<forall>x. \<sigma> x = x \<or> \<sigma> x = x\<lparr>fld_order := fld_order x + 1\<rparr>) \<and> stored_as d nf
    \<and> (if fld_type nf = ''autoNumber'' then renumbered (fld_table nf) (fld_id nf) (next_of nf) (t_records (work s)) h else h = (\<lambda>x. x))"
proof -
  let ?tbl = "normalize_table_id T"
  define ex where "ex = ordered_fields (work s) ?tbl"
  from run obtain fd new_order s1 pv nf s2 s3 res u where
    fd: "normalize_member_field_definition d = Inr fd" and ord: "place_new ex idx s = (Inr new_order, s1)"
    and pv: "new_property fd = Inr pv" and row: "field_row ?tbl fd pv new_order = Inr nf"
    and ins: "insert_row t_fields t_fields_update fld_key nf s1 = (Inr u, s2)"
    and tail: "number_new_field ?tbl nf fd s2 = (Inr res, s3)"
    and s': "s' = s3\<lparr>committed := work s3\<rparr>"
    unfolding add_field_def Let_def ex_def
    by (auto simp: bind_op_Inr then_op_def basic_eval)
  from row have nf: "fld_table nf = ?tbl" "fld_property nf = pv" "text_item fd ''type'' = Inr (fld_type nf)" "text_item fd ''id'' = Inr (fld_id nf)"
    by (auto simp: field_row_def)
  have au: "is_auto_number_field fd \<longleftrightarrow> fld_type nf = ''autoNumber''"
    using nf(3) by (auto simp: text_item_def text_value_def is_auto_number_field_def str_or_empty_def dget_def py_str_def split: option.splits pyval.splits)
  from nf(3,4) have fd_get: "dget fd ''type'' = PStr (fld_type nf)" "dget fd ''id'' = PStr (fld_id nf)"
    by (auto simp: text_item_def text_value_def dget_def split: option.splits pyval.splits)
  have keep: "dget d ''type'' = dget fd ''type''" "dget d ''id'' = dget fd ''id''"
    "fld_type nf \<noteq> ''member'' \<Longrightarrow> dget d ''property'' = dget fd ''property''"
    using fd fd_get(1) by (auto simp: normalize_member_field_definition_def str_or_empty_def py_str_def split: if_splits)
  have pr: "fld_type nf \<noteq> ''autoNumber'' \<Longrightarrow> pv = dget fd ''property''" using pv au by (auto simp: new_property_def)
  have st: "stored_as d nf" "fld_type nf = ''autoNumber'' \<Longrightarrow> stored_as d (nf\<lparr>fld_property := v\<rparr>)" for v
    using keep fd_get pr nf(2) by (simp_all add: stored_as_def)
  define \<sigma> where "\<sigma> = (case idx of Some i \<Rightarrow> if 0 \<le> i \<and> i \<le> int (length ex)
      then (\<lambda>x :: table_field. if fld_key x \<in> set (map fld_key (drop (nat i) ex)) then x\<lparr>fld_order := fld_order x + 1\<rparr> else x) else (\<lambda>x. x)
    | None \<Rightarrow> (\<lambda>x. x))"
  have same: "t_fields_update (map (\<lambda>x. x)) t = t" for t :: tables by (cases t) simp
  have s1: "s1 = s\<lparr>work := t_fields_update (map \<sigma>) (work s)\<rparr>"
    using ord by (auto simp: \<sigma>_def place_new_def shift_fields_run then_op_def bind_op_Inr basic_eval same split: option.splits if_splits)
  have \<sigma>: "\<sigma> x = x \<or> \<sigma> x = x\<lparr>fld_order := fld_order x + 1\<rparr>" for x by (simp add: \<sigma>_def split: option.splits)
  have \<sigma>k: "fld_key (\<sigma> x) = fld_key x" for x using \<sigma>[of x] by (auto simp: fld_key_def)
  from ins have s2: "s2 = s1\<lparr>work := t_fields_update (\<lambda>rs. rs @ [nf]) (work s1)\<rparr>" and nk: "fld_key nf \<notin> fld_key ` set (t_fields (work s1))"
    by (auto simp: insert_row_Inr)
  have nk': "fld_key nf \<notin> fld_key ` set (t_fields (work s))" using nk \<sigma>k by (auto simp: s1 image_iff)
  have w2: "t_fields (work s2) = map \<sigma> (t_fields (work s)) @ [nf]" "t_records (work s2) = t_records (work s)"
    by (simp_all add: s2 s1)
  have c: "committed s' = work s'" "work s' = work s3" by (simp_all add: s')
  show ?thesis
  proof (cases "fld_type nf = ''autoNumber''")
    case False
    then have "s3 = s2" using tail au by (auto simp: number_new_field_def basic_eval split: pyval.splits)
    with w2 c nk' \<sigma> False show ?thesis
      by (intro exI[of _ \<sigma>] exI[of _ nf] exI[of _ "\<lambda>x. x"]) (simp add: nf st)
  next
    case True
    from pv True au obtain p where "pv = PDict (restart_counter p)" by (auto simp: new_property_def)
    with tail True au nf obtain np s4 where nr: "number_records ?tbl (fld_id nf) (restart_counter p) s2 = (Inr np, s4)"
      and s3: "s3 = s4\<lparr>work := t_fields_update (map (\<lambda>x. if fld_key x = fld_key nf then x\<lparr>fld_property := PDict np\<rparr> else x)) (work s4)\<rparr>"
      by (auto simp: number_new_field_def bind_op_Inr then_op_def basic_eval update_rows_eval)
    have k2: "keys_ok (work s2)"
    proof -
      have d: "distinct (map fld_key (t_fields (work s)))" using tf.keys_get[OF k] .
      have "keys_ok (t_fields_update (\<lambda>rs. map \<sigma> rs @ [nf]) (work s))"
        by (rule tf.keys_upd[OF k]) (use d nk' \<sigma>k in \<open>simp add: comp_def\<close>)
      then show ?thesis by (simp add: s2 s1 comp_def)
    qed
    from number_records_run[OF nr k2] obtain h where h: "s4 = on_records h s2" "renumbered ?tbl (fld_id nf) (next_number (PDict np)) (t_records (work s2)) h" by blast
    let ?nf = "nf\<lparr>fld_property := PDict np\<rparr>"
    have "map (\<lambda>x. if fld_key x = fld_key nf then x\<lparr>fld_property := PDict np\<rparr> else x) (map \<sigma> (t_fields (work s))) = map \<sigma> (t_fields (work s))"
      using nk' \<sigma>k by (auto simp: image_iff)
    then have "t_fields (work s3) = map \<sigma> (t_fields (work s)) @ [?nf]" by (simp add: s3 h(1) w2)
    moreover have "t_records (work s3) = map h (t_records (work s))" by (simp add: s3 h(1) w2)
    ultimately show ?thesis using c nk' \<sigma> True h(2) w2(2)
      by (intro exI[of _ \<sigma>] exI[of _ ?nf] exI[of _ h]) (simp add: nf fld_key_def st(2))
  qed
qed

lemma member_update_same: "member_update tbl f u s = (Inr x, s') \<Longrightarrow> s' = s"
  by (auto simp: member_update_def Let_def bind_op_Inr then_op_def basic_eval)

lemma auto_update_run:
  assumes "auto_update tbl f p s = (Inr q, s1)" "keys_ok (work s)"
  shows "\<exists>h. s1 = on_records h s \<and> (if fld_type f = ''autoNumber'' then h = (\<lambda>x. x) \<and> next_of f \<le> next_number q
      else renumbered tbl (fld_id f) (next_number q) (t_records (work s)) h)"
proof (cases "fld_type f = ''autoNumber''")
  case True
  with assms obtain p' where "kept_counter (fld_property f) p = Inr p'" "q = PDict p'" "s1 = s"
    by (auto simp: auto_update_def bind_op_Inr basic_eval)
  with kept_counter_next True on_records_id[of s "\<lambda>x. x"] show ?thesis by auto
next
  case False
  with assms obtain p' p'' where "number_records tbl (fld_id f) p' s = (Inr p'', s1)" "q = PDict p''"
    by (auto simp: auto_update_def bind_op_Inr basic_eval)
  with number_records_run[OF _ assms(2)] False show ?thesis by auto
qed

lemma update_field_run:
  assumes run: "update_field T i upd s = (Inr out, s')" and k: "keys_ok (work s)"
  shows "(find_field (work s) (normalize_table_id T) i = None \<and> out = None \<and> s' = s)
    \<or> (\<exists>f f' h. find_field (work s) (normalize_table_id T) i = Some f \<and> fld_key f' = fld_key f
        \<and> t_fields (work s') = map (\<lambda>x. if fld_key x = fld_key f then f' else x) (t_fields (work s))
        \<and> t_records (work s') = map h (t_records (work s)) \<and> committed s' = work s' \<and> out = Some (field_dict f')
        \<and> PStr (fld_type f') = dget_default upd ''type'' (PStr (fld_type f))
        \<and> (fld_type f' \<notin> {''autoNumber'', ''member''} \<longrightarrow> fld_property f' = dget_default upd ''property'' (fld_property f))
        \<and> (if fld_type f' = ''autoNumber'' \<and> fld_type f \<noteq> ''autoNumber'' then renumbered (fld_table f) (fld_id f) (next_of f') (t_records (work s)) h
           else h = (\<lambda>x. x) \<and> (fld_type f' = ''autoNumber'' \<longrightarrow> next_of f \<le> next_of f')))"
proof (cases "find_field (work s) (normalize_table_id T) i")
  case None
  with run show ?thesis by (simp add: update_field_def Let_def op_eval)
next
  case (Some f)
  let ?tbl = "normalize_table_id T"
  let ?nt = "dget_default upd ''type'' (PStr (fld_type f))"
  have ft: "fld_table f = ?tbl" using Some by (auto simp: find_field_def select_first_def dest!: find_SomeD)
  from run Some obtain u np0 s0 np s1 f' where
    m: "(if ?nt = PStr ''member'' then member_update ?tbl f upd else ret (upd, dget_default upd ''property'' (fld_property f))) s = (Inr (u, np0), s0)"
    and a: "(if ?nt = PStr ''autoNumber'' then auto_update ?tbl f np0 else ret np0) s0 = (Inr np, s1)"
    and fu: "field_update u ?nt np f = Inr f'"
    and s': "s' = s1\<lparr>work := t_fields_update (map (\<lambda>x. if fld_key x = fld_key f' then f' else x)) (work s1),
        committed := t_fields_update (map (\<lambda>x. if fld_key x = fld_key f' then f' else x)) (work s1)\<rparr>" "out = Some (field_dict f')"
    unfolding update_field_def Let_def
    by (auto simp: bind_op_Inr then_op_def basic_eval put_row_def update_rows_eval)
  have s0: "s0 = s" using m member_update_same by (auto simp: basic_eval split: if_splits)
  have fk: "fld_key f' = fld_key f" using fu by (auto simp: field_update_def fld_key_def)
  have ut: "dhas u ''type'' \<longleftrightarrow> dhas upd ''type''"
    using m by (auto simp: member_update_def Let_def bind_op_Inr then_op_def basic_eval split: if_splits)
  have ty: "?nt = PStr (fld_type f')"
  proof (cases "dhas upd ''type''")
    case True
    with fu ut have "text_value ?nt = Inr (fld_type f')" by (auto simp: field_update_def)
    then show ?thesis by (simp add: text_value_def split: pyval.splits)
  next
    case False
    with fu ut have "fld_type f' = fld_type f" by (auto simp: field_update_def)
    moreover have "?nt = PStr (fld_type f)"
      using False by (simp add: dget_default_def dhas_def flip: map_of_eq_None_iff)
    ultimately show ?thesis by simp
  qed
  have h: "\<exists>h. s1 = on_records h s \<and> (if fld_type f' = ''autoNumber'' \<and> fld_type f \<noteq> ''autoNumber'' then renumbered (fld_table f) (fld_id f) (next_of f') (t_records (work s)) h
           else h = (\<lambda>x. x) \<and> (fld_type f' = ''autoNumber'' \<longrightarrow> next_of f \<le> next_of f'))"
  proof (cases "fld_type f' = ''autoNumber''")
    case True
    then have nt: "?nt = PStr ''autoNumber''" using ty by simp
    then have au: "auto_update ?tbl f np0 s = (Inr np, s1)" using a s0 by simp
    have "fld_property f' = np" using fu nt by (auto simp: field_update_def)
    with auto_update_run[OF au k] ft True show ?thesis by auto
  next
    case False
    then have "?nt \<noteq> PStr ''autoNumber''" using ty by simp
    with a s0 have "s1 = s" by (simp add: basic_eval)
    with False on_records_id[of s "\<lambda>x. x"] show ?thesis by auto
  qed
  then obtain h where h: "s1 = on_records h s" and hp: "if fld_type f' = ''autoNumber'' \<and> fld_type f \<noteq> ''autoNumber'' then renumbered (fld_table f) (fld_id f) (next_of f') (t_records (work s)) h
           else h = (\<lambda>x. x) \<and> (fld_type f' = ''autoNumber'' \<longrightarrow> next_of f \<le> next_of f')" by blast
  have "t_fields (work s') = map (\<lambda>x. if fld_key x = fld_key f then f' else x) (t_fields (work s))"
    "t_records (work s') = map h (t_records (work s))" "committed s' = work s'"
    by (simp_all add: s' h fk)
  moreover have "fld_property f' = dget_default upd ''property'' (fld_property f)" if "fld_type f' \<notin> {''autoNumber'', ''member''}"
  proof -
    have "?nt \<noteq> PStr ''autoNumber''" "?nt \<noteq> PStr ''member''" using that ty by simp_all
    with m a have "u = upd" "np = dget_default upd ''property'' (fld_property f)" by (auto simp: basic_eval)
    with fu \<open>?nt \<noteq> PStr ''autoNumber''\<close> show ?thesis
      by (auto simp: field_update_def dget_default_def dhas_def simp flip: map_of_eq_None_iff split: if_splits option.splits)
  qed
  ultimately show ?thesis using hp fk Some s'(2) ty
    by (intro disjI2 exI[of _ f] exI[of _ f'] exI[of _ h] conjI) simp_all
qed

fun changes_fields :: "schema_write \<Rightarrow> bool" where
  "changes_fields (AddField T d i) \<longleftrightarrow> True"
| "changes_fields (UpdateField T f d) \<longleftrightarrow> True"
| "changes_fields (DeleteField T f) \<longleftrightarrow> True"
| "changes_fields _ \<longleftrightarrow> False"

lemma schema_shape:
  assumes "run_schema w s = (Inr x, s')" "changes_fields w" "keys_ok (work s)"
  shows "\<exists>h. t_records (work s') = map h (t_records (work s)) \<and> (\<forall>y. rec_key (h y) = rec_key y)
    \<and> (\<forall>f'\<in>set (t_fields (work s')). fld_type f' = ''autoNumber'' \<longrightarrow>
      (\<exists>f\<in>set (t_fields (work s)). fld_type f = ''autoNumber'' \<and> fld_key f' = fld_key f \<and> next_of f \<le> next_of f'
           \<and> (\<forall>x\<in>set (t_records (work s)). rec_table x = fld_table f \<longrightarrow> dget (rec_data (h x)) (fld_id f) = dget (rec_data x) (fld_id f)))
      \<or> renumbered (fld_table f') (fld_id f') (next_of f') (t_records (work s)) h
         \<and> (\<forall>f\<in>set (t_fields (work s)). fld_type f = ''autoNumber'' \<longrightarrow> fld_key f \<noteq> fld_key f'))"
proof (cases w)
  case (AddField T d i)
  with assms obtain out where r: "add_field T d i s = (Inr out, s')" by (auto simp: ignore_Inr)
  from add_field_run[OF r assms(3)] obtain \<sigma> nf h where F: "t_fields (work s') = map \<sigma> (t_fields (work s)) @ [nf]"
    and R: "t_records (work s') = map h (t_records (work s))" and nk: "fld_key nf \<notin> fld_key ` set (t_fields (work s))"
    and \<sigma>: "\<And>x. \<sigma> x = x \<or> \<sigma> x = x\<lparr>fld_order := fld_order x + 1\<rparr>"
    and h: "if fld_type nf = ''autoNumber'' then renumbered (fld_table nf) (fld_id nf) (next_of nf) (t_records (work s)) h else h = (\<lambda>x. x)" by blast
  have hk: "rec_key (h y) = rec_key y" for y using h renumbered_simps(1) by (auto split: if_splits)
  show ?thesis
  proof (intro exI[of _ h] conjI allI ballI impI)
    fix f' assume f': "f' \<in> set (t_fields (work s'))" "fld_type f' = ''autoNumber''"
    show "(\<exists>f\<in>set (t_fields (work s)). fld_type f = ''autoNumber'' \<and> fld_key f' = fld_key f \<and> next_of f \<le> next_of f'
           \<and> (\<forall>x\<in>set (t_records (work s)). rec_table x = fld_table f \<longrightarrow> dget (rec_data (h x)) (fld_id f) = dget (rec_data x) (fld_id f)))
      \<or> renumbered (fld_table f') (fld_id f') (next_of f') (t_records (work s)) h
        \<and> (\<forall>f\<in>set (t_fields (work s)). fld_type f = ''autoNumber'' \<longrightarrow> fld_key f \<noteq> fld_key f')"
    proof (cases "f' = nf")
      case True
      with h f'(2) nk show ?thesis by (auto simp: image_iff)
    next
      case False
      with f'(1) F obtain f where f: "f \<in> set (t_fields (work s))" "f' = \<sigma> f" by auto
      then have e: "fld_key f' = fld_key f" "fld_type f' = fld_type f" "next_of f' = next_of f" using \<sigma>[of f] by (auto simp: fld_key_def)
      have "fld_key f \<noteq> fld_key nf" using nk f(1) by (auto simp: image_iff)
      then have "dget (rec_data (h x)) (fld_id f) = dget (rec_data x) (fld_id f)" if "x \<in> set (t_records (work s))" "rec_table x = fld_table f" for x
        using h renumbered_simps(2)[of "fld_table nf" "fld_id nf" "next_of nf" "t_records (work s)" h x "fld_id f"] that
        by (auto simp: fld_key_def split: if_splits)
      with f(1) e f'(2) show ?thesis by auto
    qed
  qed (use R hk in simp_all)
next
  case (UpdateField T i upd)
  with assms obtain out where r: "update_field T i upd s = (Inr out, s')" by (auto simp: ignore_Inr)
  from update_field_run[OF r assms(3)] show ?thesis
  proof (elim disjE exE conjE)
    fix f f' h
    assume fnd: "find_field (work s) (normalize_table_id T) i = Some f" and fk: "fld_key f' = fld_key f"
      and F: "t_fields (work s') = map (\<lambda>x. if fld_key x = fld_key f then f' else x) (t_fields (work s))"
      and R: "t_records (work s') = map h (t_records (work s))"
      and h: "if fld_type f' = ''autoNumber'' \<and> fld_type f \<noteq> ''autoNumber'' then renumbered (fld_table f) (fld_id f) (next_of f') (t_records (work s)) h
           else h = (\<lambda>x. x) \<and> (fld_type f' = ''autoNumber'' \<longrightarrow> next_of f \<le> next_of f')"
    have fin: "f \<in> set (t_fields (work s))" using fnd by (auto simp: find_field_def select_first_def dest!: find_SomeD)
    have hk: "rec_key (h y) = rec_key y" for y using h renumbered_simps(1) by (auto split: if_splits)
    show ?thesis
    proof (intro exI[of _ h] conjI allI ballI impI)
      fix g' assume g': "g' \<in> set (t_fields (work s'))" "fld_type g' = ''autoNumber''"
      from g'(1) F obtain g where g: "g \<in> set (t_fields (work s))" "g' = (if fld_key g = fld_key f then f' else g)" by auto
      show "(\<exists>f\<in>set (t_fields (work s)). fld_type f = ''autoNumber'' \<and> fld_key g' = fld_key f \<and> next_of f \<le> next_of g'
           \<and> (\<forall>x\<in>set (t_records (work s)). rec_table x = fld_table f \<longrightarrow> dget (rec_data (h x)) (fld_id f) = dget (rec_data x) (fld_id f)))
        \<or> renumbered (fld_table g') (fld_id g') (next_of g') (t_records (work s)) h
          \<and> (\<forall>f\<in>set (t_fields (work s)). fld_type f = ''autoNumber'' \<longrightarrow> fld_key f \<noteq> fld_key g')"
      proof (cases "fld_key g = fld_key f")
        case True
        with g have e: "g' = f'" by simp
        show ?thesis
        proof (cases "fld_type f = ''autoNumber''")
          case True
          with h e g'(2) fk fin show ?thesis by (intro disjI1 bexI[of _ f]) auto
        next
          case False
          have "x = f" if "x \<in> set (t_fields (work s))" "fld_key x = fld_key f" for x
            using tf.keys_get[OF assms(3)] that fin by (auto simp: distinct_map inj_on_def)
          with False have "\<forall>x\<in>set (t_fields (work s)). fld_type x = ''autoNumber'' \<longrightarrow> fld_key x \<noteq> fld_key g'" using e fk by metis
          with False h e g'(2) fk show ?thesis by (simp add: fld_key_def)
        qed
      next
        case False
        with g have e: "g' = g" by simp
        have "dget (rec_data (h x)) (fld_id g) = dget (rec_data x) (fld_id g)" if "x \<in> set (t_records (work s))" "rec_table x = fld_table g" for x
          using h renumbered_simps(2)[of "fld_table f" "fld_id f" "next_of f'" "t_records (work s)" h x "fld_id g"] that False
          by (auto simp: fld_key_def split: if_splits)
        with g(1) e g'(2) show ?thesis by auto
      qed
    qed (use R hk in simp_all)
  qed (intro exI[of _ "\<lambda>x. x"], auto)
next
  case (DeleteField T i)
  with assms obtain out where r: "delete_field T i s = (Inr out, s')" by (auto simp: ignore_Inr)
  from delete_field_run[OF r assms(3)] show ?thesis
  proof (elim disjE conjE)
    let ?h = "\<lambda>r. if rec_table r = normalize_table_id T \<and> dhas (rec_data r) i then r\<lparr>rec_data := ddel i (rec_data r)\<rparr> else r"
    assume w: "work s' = (work s)\<lparr>t_fields := filter (\<lambda>f. fld_key f \<noteq> (i, normalize_table_id T)) (t_fields (work s)),
           t_records := map ?h (t_records (work s))\<rparr>"
    then have R: "t_records (work s') = map ?h (t_records (work s))" by simp
    have "rec_key (?h y) = rec_key y" for y by (simp add: rec_key_def)
    then show ?thesis
      by (intro exI[of _ ?h]) (auto simp: w fld_key_def)
  qed (intro exI[of _ "\<lambda>x. x"], auto)
qed (use assms(2) in simp_all)

text \<open>The cells of a field with the keys of their records, in storage order; a field all of whose cells hold a number below the counter, no two the same.\<close>

definition cells_of :: "tables \<Rightarrow> table_field \<Rightarrow> ((string \<times> string) \<times> pyval) list" where
  "cells_of t f = map (\<lambda>r. (rec_key r, dget (rec_data r) (fld_id f))) (filter (\<lambda>r. rec_table r = fld_table f) (t_records t))"

definition all_numbered :: "tables \<Rightarrow> table_field \<Rightarrow> bool" where
  "all_numbered t f \<longleftrightarrow> (\<exists>ns. map snd (cells_of t f) = map PInt ns \<and> distinct ns \<and> (\<forall>n\<in>set ns. n < next_of f))"

lemma cells_of_mapped:
  assumes "t_records t' = map h (t_records t)" "\<And>y. rec_key (h y) = rec_key y"
  shows "cells_of t' f = map (\<lambda>r. (rec_key r, dget (rec_data (h r)) (fld_id f))) (filter (\<lambda>r. rec_table r = fld_table f) (t_records t))"
proof -
  have "rec_table (h y) = rec_table y" for y using assms(2)[of y] by (simp add: rec_key_def)
  then show ?thesis using assms by (simp add: cells_of_def filter_map comp_def)
qed

lemma renumbered_all:
  assumes "renumbered (fld_table f) (fld_id f) (next_of f) (t_records t) h" "keys_ok t" "t_records t' = map h (t_records t)"
  shows "all_numbered t' f"
proof -
  let ?rs = "filter (\<lambda>r. rec_table r = fld_table f) (t_records t)"
  from assms(1) have hk: "\<And>y. rec_key (h y) = rec_key y" by (simp add: renumbered_def)
  from assms(1) obtain m where m: "\<And>x. x \<in> set ?rs \<Longrightarrow> rec_data (h x) = dset (fld_id f) (PInt (m x)) (rec_data x)"
    "\<And>x. x \<in> set ?rs \<Longrightarrow> m x < next_of f" "\<And>x y. x \<in> set ?rs \<Longrightarrow> y \<in> set ?rs \<Longrightarrow> m y = m x \<Longrightarrow> rec_key y = rec_key x"
    unfolding renumbered_def by auto
  have "distinct ?rs" "inj_on rec_key (set ?rs)"
    using tr.keys_get[OF assms(2)] by (auto simp: distinct_map inj_on_def)
  with m(3) have "distinct (map m ?rs)" unfolding distinct_map inj_on_def by blast
  moreover have "map snd (cells_of t' f) = map PInt (map m ?rs)"
    using m(1) by (simp add: cells_of_mapped[OF assms(3) hk] comp_def)
  ultimately show ?thesis using m(2) unfolding all_numbered_def by (intro exI[of _ "map m ?rs"]) simp
qed

text \<open>C33: adding, changing and deleting a field keep the auto numbers of every table sound, whatever counter the client sends. A new auto-number field, and a field that becomes one, gives every existing record of its table a number of its own below the counter. A field that was an auto-number field and still is one keeps every number, and its counter is not moved back. So no number of an auto-number field is used twice or could be given again.\<close>

theorem schema_keeps_numbers:
  assumes "run_schema w s = (Inr x, s')" "changes_fields w" "keys_ok (work s)" "numbers_ok (work s)"
  shows "numbers_ok (work s')
    \<and> (\<forall>f'\<in>set (t_fields (work s')). is_auto f' \<longrightarrow>
         (case find (\<lambda>f. fld_key f = fld_key f' \<and> is_auto f) (t_fields (work s)) of
            None \<Rightarrow> all_numbered (work s') f'
          | Some f \<Rightarrow> next_of f \<le> next_of f' \<and> cells_of (work s') f' = cells_of (work s) f))"
proof -
  from schema_shape[OF assms(1-3)] obtain h where R: "t_records (work s') = map h (t_records (work s))"
    and hk: "\<And>y. rec_key (h y) = rec_key y"
    and F: "\<And>f'. f' \<in> set (t_fields (work s')) \<Longrightarrow> fld_type f' = ''autoNumber'' \<Longrightarrow>
      (\<exists>f\<in>set (t_fields (work s)). fld_type f = ''autoNumber'' \<and> fld_key f' = fld_key f \<and> next_of f \<le> next_of f'
           \<and> (\<forall>x\<in>set (t_records (work s)). rec_table x = fld_table f \<longrightarrow> dget (rec_data (h x)) (fld_id f) = dget (rec_data x) (fld_id f)))
      \<or> renumbered (fld_table f') (fld_id f') (next_of f') (t_records (work s)) h
         \<and> (\<forall>f\<in>set (t_fields (work s)). fld_type f = ''autoNumber'' \<longrightarrow> fld_key f \<noteq> fld_key f')" by blast
  have "case find (\<lambda>f. fld_key f = fld_key f' \<and> is_auto f) (t_fields (work s)) of
      None \<Rightarrow> all_numbered (work s') f'
    | Some f \<Rightarrow> next_of f \<le> next_of f' \<and> cells_of (work s') f' = cells_of (work s) f"
    if f': "f' \<in> set (t_fields (work s'))" "is_auto f'" for f'
  proof -
    have "fld_type f' = ''autoNumber''" using f'(2) by (simp add: is_auto_iff)
    from F[OF f'(1) this] show ?thesis
    proof (elim disjE conjE bexE)
      fix f assume f: "f \<in> set (t_fields (work s))" "fld_type f = ''autoNumber''" "fld_key f' = fld_key f" "next_of f \<le> next_of f'"
        and d: "\<forall>x\<in>set (t_records (work s)). rec_table x = fld_table f \<longrightarrow> dget (rec_data (h x)) (fld_id f) = dget (rec_data x) (fld_id f)"
      have one: "g = f" if "g \<in> set (t_fields (work s))" "fld_key g = fld_key f" for g
        using tf.keys_get[OF assms(3)] that f(1) by (auto simp: distinct_map inj_on_def)
      have fnd: "find (\<lambda>g. fld_key g = fld_key f' \<and> is_auto g) (t_fields (work s)) = Some f"
      proof (cases "find (\<lambda>g. fld_key g = fld_key f' \<and> is_auto g) (t_fields (work s))")
        case None
        with f(1-3) show ?thesis unfolding find_None_iff is_auto_iff by auto
      next
        case (Some g)
        then have "g \<in> set (t_fields (work s))" "fld_key g = fld_key f'" by (auto dest: find_SomeD)
        with one f(3) Some show ?thesis by simp
      qed
      have "cells_of (work s') f' = cells_of (work s') f" using f(3) by (simp add: cells_of_def fld_key_def)
      also have "\<dots> = cells_of (work s) f" unfolding cells_of_mapped[OF R hk] using d by (simp add: cells_of_def)
      finally show ?thesis using fnd f(4) by simp
    next
      assume n: "renumbered (fld_table f') (fld_id f') (next_of f') (t_records (work s)) h"
        and "\<forall>f\<in>set (t_fields (work s)). fld_type f = ''autoNumber'' \<longrightarrow> fld_key f \<noteq> fld_key f'"
      then have "find (\<lambda>f. fld_key f = fld_key f' \<and> is_auto f) (t_fields (work s)) = None"
        unfolding find_None_iff is_auto_iff by auto
      with renumbered_all[OF n assms(3) R] show ?thesis by simp
    qed
  qed
  moreover have "numbers_ok (work s')" by (rule numbers_schema[OF assms(4) R hk]) (use F in blast)
  ultimately show ?thesis by blast
qed


theorem schema_keeps_numbers_witness:
  "(\<exists>s'. run_schema (UpdateField (Some ''t'') ''n'' [(''property'', PDict [(''nextNumber'', PInt 1)])]) example_session = (Inr (), s')
     \<and> numbers_ok (work s')
     \<and> map next_of (filter is_auto (t_fields (work s'))) = [7])
   \<and> (\<exists>s' g. run_schema (AddField (Some ''t'') [(''id'', PStr ''m''), (''name'', PStr ''No''), (''type'', PStr ''autoNumber'')] None) example_session = (Inr (), s')
     \<and> find_field (work s') ''t'' ''m'' = Some g \<and> all_numbered (work s') g \<and> cells_of (work s') g \<noteq> [])"
proof -
  let ?w = "UpdateField (Some ''t'') ''n'' [(''property'', PDict [(''nextNumber'', PInt 1)])]"
  let ?v = "AddField (Some ''t'') [(''id'', PStr ''m''), (''name'', PStr ''No''), (''type'', PStr ''autoNumber'')] None"
  obtain r s' where r: "run_schema ?w example_session = (r, s')" by fastforce
  have "fst (run_schema ?w example_session) = Inr ()" by code_simp
  with r have ok: "run_schema ?w example_session = (Inr (), s')" by simp
  obtain q s2 where q: "run_schema ?v example_session = (q, s2)" by fastforce
  have "fst (run_schema ?v example_session) = Inr ()" by code_simp
  with q have ok2: "run_schema ?v example_session = (Inr (), s2)" by simp
  have "next_number (PDict [(''start'', PInt 5), (''nextNumber'', PInt 7)]) = 7" by code_simp
  then have n: "numbers_ok (work example_session)"
    by (simp add: numbers_ok_def example_world_def empty_tables_def rec_key_def)
  have m: "map next_of (filter is_auto (t_fields (work (snd (run_schema ?w example_session))))) = [7]" by code_simp
  have "find_field (work (snd (run_schema ?v example_session))) ''t'' ''m'' \<noteq> None
    \<and> (\<forall>g\<in>set_option (find_field (work (snd (run_schema ?v example_session))) ''t'' ''m'').
         is_auto g \<and> fld_key g = (''m'', ''t'') \<and> cells_of (work (snd (run_schema ?v example_session))) g \<noteq> [])
    \<and> find (\<lambda>f. fld_key f = (''m'', ''t'') \<and> is_auto f) (t_fields (work example_session)) = None" by code_simp
  with q obtain g where g: "find_field (work s2) ''t'' ''m'' = Some g" "is_auto g" "fld_key g = (''m'', ''t'')" "cells_of (work s2) g \<noteq> []"
    "find (\<lambda>f. fld_key f = (''m'', ''t'') \<and> is_auto f) (t_fields (work example_session)) = None" by auto
  from g(1) have "g \<in> set (t_fields (work s2))" by (auto simp: find_field_def select_first_def dest!: find_SomeD)
  with schema_keeps_numbers[OF ok2 _ _ n] example_keys g have "all_numbered (work s2) g" by fastforce
  with schema_keeps_numbers[OF ok _ _ n] ok ok2 example_keys m g show ?thesis by auto
qed

section \<open>Deleting a field\<close>

text \<open>deleting a field returns true exactly when the table has it; it then leaves no trace of the field in the table: the field is gone, no record of the table has its key, and every other field, every other key and every record of another table is unchanged; the records keep their keys, order and versions.\<close>

theorem delete_field_erases:
  assumes "delete_field T i s = (Inr b, s')" "keys_ok (work s)"
  shows "(b \<longleftrightarrow> find_field (work s) (normalize_table_id T) i \<noteq> None)
    \<and> (b \<longrightarrow> find_field (work s') (normalize_table_id T) i = None
      \<and> (\<forall>f. fld_key f \<noteq> (i, normalize_table_id T) \<longrightarrow> (f \<in> set (t_fields (work s')) \<longleftrightarrow> f \<in> set (t_fields (work s))))
      \<and> map (\<lambda>r. (rec_key r, rec_order r, rec_version r)) (t_records (work s')) = map (\<lambda>r. (rec_key r, rec_order r, rec_version r)) (t_records (work s))
      \<and> (\<forall>k d'. data_at (work s') k = Some d' \<longrightarrow> (\<exists>d. data_at (work s) k = Some d
           \<and> (fst k = normalize_table_id T \<longrightarrow> \<not> dhas d' i)
           \<and> (\<forall>j. fst k \<noteq> normalize_table_id T \<or> j \<noteq> i \<longrightarrow> dhas d' j = dhas d j \<and> dget d' j = dget d j))))"
proof -
  let ?tbl = "normalize_table_id T"
  let ?h = "\<lambda>r. if rec_table r = ?tbl \<and> dhas (rec_data r) i then r\<lparr>rec_data := ddel i (rec_data r)\<rparr> else r"
  from delete_field_run[OF assms] show ?thesis
  proof (elim disjE conjE)
    assume b: "b = True" "find_field (work s) ?tbl i \<noteq> None"
      and w: "work s' = (work s)\<lparr>t_fields := filter (\<lambda>f. fld_key f \<noteq> (i, ?tbl)) (t_fields (work s)), t_records := map ?h (t_records (work s))\<rparr>"
    have "find_field (work s') ?tbl i = None"
      by (auto simp: w find_field_def select_first_def find_None_iff fld_key_def)
    moreover have "\<exists>d. data_at (work s) k = Some d \<and> (fst k = ?tbl \<longrightarrow> \<not> dhas d' i)
           \<and> (\<forall>j. fst k \<noteq> ?tbl \<or> j \<noteq> i \<longrightarrow> dhas d' j = dhas d j \<and> dget d' j = dget d j)" if d: "data_at (work s') k = Some d'" for k d'
    proof -
      have "look (map ?h (t_records (work s))) k = map_option ?h (look (t_records (work s)) k)" by (rule look_map) (simp add: tkey_def)
      with d obtain r where r: "look (t_records (work s)) k = Some r" "d' = rec_data (?h r)" by (auto simp: data_at_def w)
      from look_Some[OF r(1)] have "rec_table r = fst k" by (auto simp: tkey_def)
      with r show ?thesis by (auto simp: data_at_def)
    qed
    ultimately show ?thesis using b by (simp add: w) (simp add: rec_key_def)
  qed auto
qed

theorem delete_field_erases_witness:
  "\<exists>s'. delete_field (Some ''t'') ''f'' example_session = (Inr True, s')
     \<and> data_at (work s') (''t'', ''ra'') = Some [(''n'', PInt 5)] \<and> find_field (work s') ''t'' ''f'' = None"
proof -
  obtain r s' where r: "delete_field (Some ''t'') ''f'' example_session = (r, s')" by fastforce
  have "fst (delete_field (Some ''t'') ''f'' example_session) = Inr True" by code_simp
  with r have ok: "delete_field (Some ''t'') ''f'' example_session = (Inr True, s')" by simp
  have "data_at (work (snd (delete_field (Some ''t'') ''f'' example_session))) (''t'', ''ra'') = Some [(''n'', PInt 5)]" by code_simp
  with delete_field_erases[OF ok] ok example_keys show ?thesis by (simp add: normalize_table_id_def)
qed

section \<open>Filters and sorts read back\<close>

definition filter_view :: "dict \<Rightarrow> dict" where
  "filter_view d = [(''id'', dget d ''id''), (''fieldId'', dget d ''fieldId''), (''operator'', dget d ''operator''),
     (''value'', dget d ''value''), (''logic'', dget_default d ''logic'' (PStr ''and''))]"

definition sort_view :: "dict \<Rightarrow> dict" where
  "sort_view d = [(''fieldId'', dget d ''fieldId''), (''order'', dget d ''order'')]"

lemma text_item_Inr: "text_item d k = Inr s \<Longrightarrow> dget d k = PStr s"
  by (auto simp: text_item_def text_value_def dget_def split: option.splits pyval.splits)

lemma text_default_Inr: "text_default d k v = Inr s \<Longrightarrow> dget_default d k (PStr v) = PStr s"
  by (auto simp: text_default_def text_value_def split: pyval.splits)

lemma new_filter_spec: "new_filter tbl n d = Inr f \<Longrightarrow> filter_dict f = filter_view d \<and> flt_table f = tbl \<and> flt_order f = n"
  by (auto simp: new_filter_def filter_row_def filter_dict_def filter_view_def dest!: text_item_Inr text_default_Inr)

lemma sort_row_spec: "sort_row tbl sid n d = Inr x \<Longrightarrow> sort_dict x = sort_view d \<and> srt_table x = tbl \<and> srt_order x = n"
  by (auto simp: sort_row_def sort_dict_def sort_view_def dest!: text_item_Inr)

lemma enumerated_rows:
  assumes "list_all2 (\<lambda>(n, d) r. Q n d r) (enumerate m ds) rs"
    and "\<And>n d r. Q n d r \<Longrightarrow> view r = g d \<and> tab r = tbl \<and> ord r = int n"
  shows "map view rs = map g ds \<and> (\<forall>r\<in>set rs. tab r = tbl) \<and> map ord rs = map int [m..<m + length ds]"
  using assms(1)
proof (induction ds arbitrary: m rs)
  case (Cons d ds)
  then obtain r rs' where rs: "rs = r # rs'" "Q m d r" "list_all2 (\<lambda>(n, d) r. Q n d r) (enumerate (Suc m) ds) rs'"
    by (auto simp: list_all2_Cons1)
  have "[m..<m + length (d # ds)] = m # [Suc m..<Suc m + length ds]" by (simp add: upt_conv_Cons del: upt_Suc)
  with Cons.IH[OF rs(3)] assms(2)[OF rs(2)] rs(1) show ?case by (simp del: upt_Suc)
qed simp

lemma stored_rows:
  assumes "\<forall>r\<in>set rs. tab r = tbl" "map ord rs = map int [0..<n]"
  shows "sort_key ord (filter (\<lambda>r. tab r = tbl) (filter (\<lambda>r. \<not> tab r = tbl) old @ rs)) = rs"
    and "u \<noteq> tbl \<Longrightarrow> filter (\<lambda>r. tab r = u) (filter (\<lambda>r. \<not> tab r = tbl) old @ rs) = filter (\<lambda>r. tab r = u) old"
proof -
  have "sorted (map ord rs)" unfolding assms(2) by (simp add: sorted_map)
  moreover have "filter (\<lambda>r. tab r = tbl) rs = rs" using assms(1) by (simp add: filter_id_conv)
  ultimately show "sort_key ord (filter (\<lambda>r. tab r = tbl) (filter (\<lambda>r. \<not> tab r = tbl) old @ rs)) = rs"
    by (simp add: sort_key_sorted)
  assume u: "u \<noteq> tbl"
  then have "filter (\<lambda>r. tab r = u) rs = []" using assms(1) by (auto simp: filter_empty_conv)
  moreover have "filter (\<lambda>r. tab r = u) (filter (\<lambda>r. \<not> tab r = tbl) old) = filter (\<lambda>r. tab r = u) old"
    using u by (auto simp: filter_filter intro: filter_cong)
  ultimately show "filter (\<lambda>r. tab r = u) (filter (\<lambda>r. \<not> tab r = tbl) old @ rs) = filter (\<lambda>r. tab r = u) old" by simp
qed

lemma update_filters_run:
  assumes "update_filters T fs s = (Inr b, s')"
  shows "\<exists>rows. work s' = t_filters_update (\<lambda>xs. filter (\<lambda>f. \<not> flt_table f = normalize_table_id T) xs @ rows) (work s) \<and> committed s' = work s'
    \<and> map filter_dict rows = map filter_view fs \<and> (\<forall>r\<in>set rows. flt_table r = normalize_table_id T) \<and> map flt_order rows = map int [0..<length fs]"
proof -
  let ?tbl = "normalize_table_id T"
  from assms obtain rows u s1 where m: "map_res (\<lambda>(idx, d). new_filter ?tbl (int idx) d) (enumerate 0 fs) = Inr rows"
    and ins: "insert_all t_filters t_filters_update flt_key rows (s\<lparr>work := t_filters_update (filter (\<lambda>f. \<not> flt_table f = ?tbl)) (work s)\<rparr>) = (Inr u, s1)"
    and s': "s' = s1\<lparr>committed := work s1\<rparr>"
    by (auto simp: update_filters_def Let_def bind_op_Inr then_op_def basic_eval delete_rows_eval)
  have "list_all2 (\<lambda>(n, d) r. new_filter ?tbl (int n) d = Inr r) (enumerate 0 fs) rows"
    using m by (auto simp: map_res_Inr elim: list_all2_mono)
  from enumerated_rows[OF this, of filter_dict filter_view flt_table ?tbl flt_order] new_filter_spec
  have e: "map filter_dict rows = map filter_view fs \<and> (\<forall>r\<in>set rows. flt_table r = ?tbl) \<and> map flt_order rows = map int [0..<length fs]" by simp
  from insert_all_run[OF ins] have "work s1 = t_filters_update (\<lambda>xs. filter (\<lambda>f. \<not> flt_table f = ?tbl) xs @ rows) (work s)"
    by (simp add: comp_def)
  with e s' show ?thesis by (intro exI[of _ rows]) simp
qed

lemma new_sorts_run:
  assumes "map_op (new_sort tbl) (enumerate m ds) s = (Inr rows, s')"
  shows "work s' = work s \<and> list_all2 (\<lambda>(n, d) r. \<exists>sid. sort_row tbl sid (int n) d = Inr r) (enumerate m ds) rows"
  using assms
proof (induction ds arbitrary: m s rows)
  case (Cons d ds)
  from Cons.prems obtain r s1 rs where one: "new_sort tbl (m, d) s = (Inr r, s1)"
    and rest: "map_op (new_sort tbl) (enumerate (Suc m) ds) s1 = (Inr rs, s')" and rows: "rows = r # rs"
    by (auto simp: bind_op_Inr basic_eval)
  from one have "work s1 = work s" "\<exists>sid. sort_row tbl sid (int m) d = Inr r"
    by (auto simp: new_sort_def millis_def bind_op_Inr basic_eval)
  with Cons.IH[OF rest] rows show ?case by simp
qed (simp add: basic_eval)

lemma update_sorts_run:
  assumes "update_sorts T ds s = (Inr b, s')"
  shows "\<exists>rows. work s' = t_sorts_update (\<lambda>xs. filter (\<lambda>f. \<not> srt_table f = normalize_table_id T) xs @ rows) (work s) \<and> committed s' = work s'
    \<and> map sort_dict rows = map sort_view ds \<and> (\<forall>r\<in>set rows. srt_table r = normalize_table_id T) \<and> map srt_order rows = map int [0..<length ds]"
proof -
  let ?tbl = "normalize_table_id T"
  from assms obtain rows s0 u s1 where m: "map_op (new_sort ?tbl) (enumerate 0 ds) (s\<lparr>work := t_sorts_update (filter (\<lambda>f. \<not> srt_table f = ?tbl)) (work s)\<rparr>) = (Inr rows, s0)"
    and ins: "insert_all t_sorts t_sorts_update srt_key rows s0 = (Inr u, s1)"
    and s': "s' = s1\<lparr>committed := work s1\<rparr>"
    by (auto simp: update_sorts_def Let_def bind_op_Inr then_op_def basic_eval delete_rows_eval)
  note n = new_sorts_run[OF m]
  have e: "map sort_dict rows = map sort_view ds \<and> (\<forall>r\<in>set rows. srt_table r = ?tbl) \<and> map srt_order rows = map int [0..<length ds]"
  proof -
    have "sort_dict r = sort_view d \<and> srt_table r = ?tbl \<and> srt_order r = int n" if "\<exists>sid. sort_row ?tbl sid (int n) d = Inr r" for n d r
      using that sort_row_spec by blast
    from enumerated_rows[OF conjunct2[OF n], of sort_dict sort_view srt_table ?tbl srt_order, OF this] show ?thesis by simp
  qed
  from insert_all_run[OF ins] n have "work s1 = t_sorts_update (\<lambda>xs. filter (\<lambda>f. \<not> srt_table f = ?tbl) xs @ rows) (work s)"
    by (simp add: comp_def)
  with e s' show ?thesis by (intro exI[of _ rows]) simp
qed

text \<open>the filters and the sorts a table is given are read back as given and in order: after its filters and then its sorts were replaced, both are durable, get_filters returns the given filters (with the word and as the default logic) and get_sorts the given sorts, also when the lists are empty, and every other table has the filters and sorts it had.\<close>

theorem filters_sorts_roundtrip:
  assumes "update_filters T fs s = (Inr b1, s1)" "update_sorts T ds s1 = (Inr b2, s2)"
  shows "get_filters (work s2) T = map filter_view fs \<and> get_sorts (work s2) T = map sort_view ds \<and> committed s2 = work s2
    \<and> (\<forall>U. normalize_table_id U \<noteq> normalize_table_id T \<longrightarrow>
         get_filters (work s2) U = get_filters (work s) U \<and> get_sorts (work s2) U = get_sorts (work s) U)"
proof -
  from update_filters_run[OF assms(1)] obtain rows where
    w1: "work s1 = t_filters_update (\<lambda>xs. filter (\<lambda>f. \<not> flt_table f = normalize_table_id T) xs @ rows) (work s)"
    and r1: "map filter_dict rows = map filter_view fs" "\<forall>r\<in>set rows. flt_table r = normalize_table_id T" "map flt_order rows = map int [0..<length fs]" by blast
  from update_sorts_run[OF assms(2)] obtain rows' where
    w2: "work s2 = t_sorts_update (\<lambda>xs. filter (\<lambda>f. \<not> srt_table f = normalize_table_id T) xs @ rows') (work s1)" and c: "committed s2 = work s2"
    and r2: "map sort_dict rows' = map sort_view ds" "\<forall>r\<in>set rows'. srt_table r = normalize_table_id T" "map srt_order rows' = map int [0..<length ds]" by blast
  have f: "t_filters (work s2) = filter (\<lambda>f. \<not> flt_table f = normalize_table_id T) (t_filters (work s)) @ rows"
    "t_sorts (work s2) = filter (\<lambda>f. \<not> srt_table f = normalize_table_id T) (t_sorts (work s)) @ rows'"
    by (simp_all add: w2 w1)
  have "get_filters (work s2) T = map filter_view fs" "get_sorts (work s2) T = map sort_view ds"
    unfolding get_filters_def ordered_filters_def get_sorts_def ordered_sorts_def select_def f
      stored_rows(1)[OF r1(2,3)] stored_rows(1)[OF r2(2,3)] by (rule r1(1), rule r2(1))
  moreover have "get_filters (work s2) U = get_filters (work s) U \<and> get_sorts (work s2) U = get_sorts (work s) U"
    if "normalize_table_id U \<noteq> normalize_table_id T" for U
    unfolding get_filters_def ordered_filters_def get_sorts_def ordered_sorts_def select_def f
      stored_rows(2)[OF r1(2,3) that] stored_rows(2)[OF r2(2,3) that] by simp
  ultimately show ?thesis using c by blast
qed

theorem filters_sorts_roundtrip_witness:
  "\<exists>s1 s2. update_filters (Some ''t'') [[(''id'', PStr ''a''), (''fieldId'', PStr ''f''), (''operator'', PStr ''is'')]] example_session = (Inr True, s1)
     \<and> update_sorts (Some ''t'') [] s1 = (Inr True, s2)
     \<and> get_filters (work s2) (Some ''t'') = [[(''id'', PStr ''a''), (''fieldId'', PStr ''f''), (''operator'', PStr ''is''), (''value'', PNone), (''logic'', PStr ''and'')]]
     \<and> get_sorts (work s2) (Some ''t'') = []"
proof -
  let ?f = "[(''id'', PStr ''a''), (''fieldId'', PStr ''f''), (''operator'', PStr ''is'')]"
  obtain r s1 where r: "update_filters (Some ''t'') [?f] example_session = (r, s1)" by fastforce
  have "fst (update_filters (Some ''t'') [?f] example_session) = Inr True" by code_simp
  with r have one: "update_filters (Some ''t'') [?f] example_session = (Inr True, s1)" by simp
  obtain s2 where two: "update_sorts (Some ''t'') [] s1 = (Inr True, s2)"
    by (simp add: update_sorts_def Let_def insert_all_def op_eval)
  from filters_sorts_roundtrip[OF one two] one two show ?thesis by (auto simp: filter_view_def dget_default_def)
qed


section \<open>Views\<close>

text \<open>The default view of the table item \<open>i\<close> is one of its views.\<close>

definition default_ok :: "tables \<Rightarrow> workspace_item \<Rightarrow> bool" where
  "default_ok t i \<longleftrightarrow> (itm_type i = ''table'' \<longrightarrow>
     (\<forall>v. itm_view i = Some v \<longrightarrow> (\<exists>w\<in>set (t_views t). vw_table w = itm_id i \<and> vw_id w = v)))"

definition has_view :: "tables \<Rightarrow> string \<Rightarrow> bool" where
  "has_view t tbl \<longleftrightarrow> (\<exists>v\<in>set (t_views t). vw_table v = tbl)"

text \<open>What the views satisfy over a run: every default view exists, and the tables \<open>tbls\<close> have a view.\<close>

definition views_ok :: "string set \<Rightarrow> tables \<Rightarrow> bool" where
  "views_ok tbls t \<longleftrightarrow> (\<forall>i\<in>set (t_items t). default_ok t i) \<and> (\<forall>tbl\<in>tbls. has_view t tbl)"

lemma views_ok_frame:
  "views_ok V (t_fields_update f1 t) = views_ok V t" "views_ok V (t_records_update f2 t) = views_ok V t"
  "views_ok V (t_filters_update f3 t) = views_ok V t" "views_ok V (t_sorts_update f4 t) = views_ok V t"
  "views_ok V (t_groups_update f5 t) = views_ok V t"
  by (simp_all add: views_ok_def default_ok_def has_view_def)

lemma keeps_frame:
  assumes "\<And>f t. I (upd f t) = I t"
  shows "keeps I (insert_row get upd key r)" "keeps I (update_rows upd P g)" "keeps I (delete_rows upd P)" "keeps I (put_row upd key r)"
  using assms by (auto simp: keeps_def op_eval insert_row_def put_row_def)

lemmas views_keep = keeps_frame[of "views_ok V" t_fields_update, OF views_ok_frame(1)] keeps_frame[of "views_ok V" t_records_update, OF views_ok_frame(2)]
  keeps_frame[of "views_ok V" t_filters_update, OF views_ok_frame(3)] keeps_frame[of "views_ok V" t_sorts_update, OF views_ok_frame(4)]
  keeps_frame[of "views_ok V" t_groups_update, OF views_ok_frame(5)] for V

lemma views_mono:
  assumes "views_ok V t" "t_items t' = t_items t"
    and "\<And>w. w \<in> set (t_views t) \<Longrightarrow> \<exists>w'\<in>set (t_views t'). vw_key w' = vw_key w"
  shows "views_ok V t'"
proof -
  have "\<exists>w'\<in>set (t_views t'). vw_table w' = vw_table w \<and> vw_id w' = vw_id w" if "w \<in> set (t_views t)" for w
    using assms(3)[OF that] by (auto simp: vw_key_def)
  with assms(1,2) show ?thesis unfolding views_ok_def default_ok_def has_view_def by (metis (no_types, lifting))
qed

lemma views_keep_rows: "keeps (views_ok V) (insert_row t_views t_views_update vw_key v)" "keeps (views_ok V) (put_row t_views_update vw_key v)"
proof -
  have "views_ok V (t_views_update (\<lambda>rs. rs @ [v]) t)" if "views_ok V t" for t by (rule views_mono[OF that]) auto
  then show "keeps (views_ok V) (insert_row t_views t_views_update vw_key v)" by (auto simp: keeps_def insert_row_def)
  have "views_ok V (t_views_update (map (\<lambda>x. if vw_key x = vw_key v then v else x)) t)" if "views_ok V t" for t
  proof (rule views_mono[OF that])
    fix w assume "w \<in> set (t_views t)"
    then show "\<exists>w'\<in>set (t_views (t_views_update (map (\<lambda>x. if vw_key x = vw_key v then v else x)) t)). vw_key w' = vw_key w"
      by (intro bexI[of _ "if vw_key w = vw_key v then v else w"]) auto
  qed simp
  then show "keeps (views_ok V) (put_row t_views_update vw_key v)" by (simp add: keeps_def put_row_def op_eval)
qed

text \<open>Pointing a table to one of its views repairs its default view.\<close>

lemma set_default_run:
  assumes run: "set_db_table_default_view_id tbl v s = (r, s')" and k: "keys_ok (work s)"
    and v: "\<exists>w\<in>set (t_views (work s)). vw_table w = tbl \<and> vw_id w = v" and c: "committed s = work s"
    and rest: "\<And>i. i \<in> set (t_items (work s)) \<Longrightarrow> itm_id i \<noteq> tbl \<Longrightarrow> default_ok (work s) i" and V: "\<And>x. x \<in> V \<Longrightarrow> has_view (work s) x"
  shows "r = Inr () \<and> committed s' = work s' \<and> views_ok V (work s') \<and> t_views (work s') = t_views (work s)"
proof (cases "select_first t_items (\<lambda>i. itm_id i = tbl \<and> itm_type i = ''table'') (work s)")
  case None
  then have "itm_type i \<noteq> ''table''" if "i \<in> set (t_items (work s))" "itm_id i = tbl" for i
    using that by (auto simp: select_first_def find_None_iff)
  then have "default_ok (work s) i" if "i \<in> set (t_items (work s))" for i using rest[OF that] that by (auto simp: default_ok_def)
  with run None c V show ?thesis by (auto simp: set_db_table_default_view_id_def op_eval views_ok_def)
next
  case (Some i)
  then have i: "i \<in> set (t_items (work s))" "itm_id i = tbl" by (auto simp: select_first_def dest!: find_SomeD)
  show ?thesis
  proof (cases "itm_view i = Some v")
    case True
    have "default_ok (work s) j" if "j \<in> set (t_items (work s))" for j
    proof (cases "itm_id j = tbl")
      case same: True
      then have "j = i" using tit.unique[OF k that i(1)] i by simp
      with True v i show ?thesis by (auto simp: default_ok_def)
    qed (use rest that in blast)
    with run Some True c V show ?thesis by (auto simp: set_db_table_default_view_id_def op_eval views_ok_def)
  next
    case False
    let ?t' = "t_items_update (map (\<lambda>x. if itm_id x = tbl then x\<lparr>itm_view := Some v\<rparr> else x)) (work s)"
    from run Some False i have s': "r = Inr ()" "work s' = ?t'" "committed s' = work s'"
      by (auto simp: set_db_table_default_view_id_def op_eval)
    have "default_ok ?t' j" if "j \<in> set (t_items ?t')" for j
    proof -
      from that obtain j0 where j0: "j0 \<in> set (t_items (work s))" "j = (if itm_id j0 = tbl then j0\<lparr>itm_view := Some v\<rparr> else j0)" by auto
      show ?thesis using v rest[OF j0(1)] j0(2) by (auto simp: default_ok_def)
    qed
    with s' V show ?thesis by (simp add: views_ok_def has_view_def)
  qed
qed

lemma create_view_views:
  assumes run: "create_view T d s = (r, s')" and I: "keys_ok (work s)" "views_ok V (work s)" "views_ok V (committed s)"
  shows "views_ok V (work s') \<and> views_ok V (committed s')"
proof (cases "view_row (normalize_table_id T) d")
  case (Inl e)
  with run I show ?thesis by (auto simp: create_view_def Let_def op_eval)
next
  case (Inr v)
  then have vt: "vw_table v = normalize_table_id T" by (auto simp: view_row_def)
  show ?thesis
  proof (cases "vw_key v \<in> vw_key ` set (t_views (work s))")
    case True
    with run Inr I show ?thesis by (auto simp: create_view_def Let_def op_eval insert_row_def)
  next
    case False
    define t1 where "t1 = t_views_update (\<lambda>rs. rs @ [v]) (work s)"
    define s1 where "s1 = s\<lparr>work := t1, committed := t1\<rparr>"
    have k1: "keys_ok t1" unfolding t1_def by (rule tv.keys_upd[OF I(1)]) (use tv.keys_get[OF I(1)] False in auto)
    have v1: "views_ok V t1" unfolding t1_def by (rule views_mono[OF I(2)]) auto
    have vin: "\<exists>w\<in>set (t_views t1). vw_table w = normalize_table_id T \<and> vw_id w = vw_id v" using vt by (auto simp: t1_def)
    show ?thesis
    proof (cases "length (select t_views (\<lambda>v. vw_table v = normalize_table_id T) t1) = 1")
      case True
      obtain r1 s2 where sd: "set_db_table_default_view_id (normalize_table_id T) (vw_id v) s1 = (r1, s2)" by fastforce
      from set_default_run[OF sd, of V] k1 v1 vin have d: "r1 = Inr ()" "committed s2 = work s2" "views_ok V (work s2)"
        by (auto simp: s1_def views_ok_def)
      from run Inr False True sd d(1) have "s' = s2"
        by (auto simp: create_view_def Let_def op_eval insert_row_def t1_def s1_def)
      with d show ?thesis by simp
    next
      case F: False
      with run Inr False have "s' = s1" by (auto simp: create_view_def Let_def op_eval insert_row_def t1_def s1_def)
      with v1 show ?thesis by (simp add: s1_def)
    qed
  qed
qed

lemma delete_view_views:
  assumes run: "delete_view T i s = (r, s')" and I: "keys_ok (work s)" "views_ok V (work s)" "views_ok V (committed s)"
  shows "views_ok V (work s') \<and> views_ok V (committed s')"
proof (cases "length (select t_views (\<lambda>v. vw_table v = normalize_table_id T) (work s)) \<le> 1 \<or> find_view (work s) (normalize_table_id T) i = None")
  case True
  then have "s' = s" using run by (auto simp: delete_view_def Let_def op_eval split: if_splits)
  with I show ?thesis by simp
next
  case False
  let ?tbl = "normalize_table_id T"
  from False obtain v where v: "find_view (work s) ?tbl i = Some v" by auto
  then have vin: "v \<in> set (t_views (work s))" "vw_table v = ?tbl" by (auto simp: find_view_def select_first_def dest!: find_SomeD)
  define t1 where "t1 = t_views_update (filter (\<lambda>x. \<not> vw_key x = vw_key v)) (work s)"
  define s1 where "s1 = s\<lparr>work := t1, committed := t1\<rparr>"
  have k1: "keys_ok t1" unfolding t1_def by (rule tv.keys_upd[OF I(1)]) (rule distinct_map_filterI[OF tv.keys_get[OF I(1)]])
  obtain w where w: "w \<in> set (t_views t1)" "vw_table w = ?tbl"
  proof -
    let ?L = "filter (\<lambda>v. vw_table v = ?tbl) (t_views (work s))"
    have d: "distinct (map vw_key ?L)" by (rule distinct_map_filterI[OF tv.keys_get[OF I(1)]])
    have "v \<in> set ?L" using vin by simp
    moreover have "\<not> length ?L \<le> 1" using False by (simp add: select_def)
    ultimately have "\<exists>w\<in>set ?L. w \<noteq> v" using d by (cases ?L; cases "tl ?L") (auto simp: distinct_map)
    then obtain w where "w \<in> set ?L" "w \<noteq> v" by blast
    then have "vw_key w \<noteq> vw_key v" using tv.unique[OF I(1) _ vin(1)] by auto
    with \<open>w \<in> set ?L\<close> that show thesis by (auto simp: t1_def)
  qed
  then have "select_first t_views (\<lambda>v. vw_table v = ?tbl) t1 \<noteq> None" by (auto simp: select_first_def find_None_iff)
  then obtain u where u: "select_first t_views (\<lambda>v. vw_table v = ?tbl) t1 = Some u" by blast
  then have uin: "u \<in> set (t_views t1)" "vw_table u = ?tbl" by (auto simp: select_first_def dest!: find_SomeD)
  have rest: "default_ok t1 j" if "j \<in> set (t_items t1)" "itm_id j \<noteq> ?tbl" for j
    using I(2) that vin(2) by (fastforce simp: views_ok_def default_ok_def t1_def vw_key_def)
  have V: "has_view t1 x" if "x \<in> V" for x
  proof (cases "x = ?tbl")
    case False
    then show ?thesis using I(2) that vin(2) by (fastforce simp: views_ok_def has_view_def t1_def vw_key_def)
  qed (use w in \<open>auto simp: has_view_def\<close>)
  obtain r1 s2 where sd: "set_db_table_default_view_id ?tbl (vw_id u) s1 = (r1, s2)" by fastforce
  have "keys_ok (work s1)" "\<exists>w\<in>set (t_views (work s1)). vw_table w = ?tbl \<and> vw_id w = vw_id u" "committed s1 = work s1"
    using k1 uin by (auto simp: s1_def)
  from set_default_run[OF sd this, of V] rest V have d: "r1 = Inr ()" "committed s2 = work s2" "views_ok V (work s2)"
    by (auto simp: s1_def)
  from run False v sd d(1) u have "s' = s2"
    by (auto simp: delete_view_def Let_def op_eval t1_def s1_def)
  with d show ?thesis by simp
qed

lemma schema_views:
  assumes "run_schema w s = (r, s')" "keys_ok (work s)" "views_ok V (work s)" "views_ok V (committed s)"
  shows "views_ok V (work s') \<and> views_ok V (committed s')"
proof -
  have k: "keeps (views_ok V) (run_schema w)" if "\<forall>T d. w \<noteq> CreateView T d" "\<forall>T i. w \<noteq> DeleteView T i"
    using that by (cases w) (auto simp: ignore_def schema_defs Let_def intro!: views_keep views_keep_rows keeps_intro
      split: option.splits prod.splits pyval.splits)
  have ig: "\<exists>q. m s = (q, s')" if "run_schema w = ignore m" for m :: "'z op"
    using assms(1) that by (auto simp: ignore_def bind_op_def ret_def split: prod.splits sum.splits)
  show ?thesis
  proof (cases w)
    case (CreateView T d)
    with ig[of "create_view T d"] create_view_views[OF _ assms(2,3,4)] show ?thesis by auto
  next
    case (DeleteView T i)
    with ig[of "delete_view T i"] delete_view_views[OF _ assms(2,3,4)] show ?thesis by auto
  qed (use keepsD[OF k assms(1,3,4)] in simp_all)
qed

text \<open>The states a store reaches by schema operations, failed ones included.\<close>

inductive schema_reach :: "session \<Rightarrow> session \<Rightarrow> bool" for s0 where
  start: "schema_reach s0 s0"
| step: "schema_reach s0 s \<Longrightarrow> run_schema w s = (r, s') \<Longrightarrow> schema_reach s0 s'"

text \<open>over any sequence of schema operations (fields, filters, sorts, grouping, views), successful or failed, the keys of every table stay unique, the default view of every table is one of its views, and a table that has a view never loses its last one.\<close>

theorem default_view_exists:
  assumes "schema_reach s0 s" "keys_ok (work s0)" "keys_ok (committed s0)" "views_ok V (work s0)" "views_ok V (committed s0)"
  shows "keys_ok (work s) \<and> views_ok V (work s)"
proof -
  have "keys_ok (work s) \<and> keys_ok (committed s) \<and> views_ok V (work s) \<and> views_ok V (committed s)"
    using assms(1)
  proof (induction rule: schema_reach.induct)
    case (step s w r s')
    with keepsD[OF schema_keeps_keys step(2)] schema_views[OF step(2)] show ?case by blast
  qed (use assms in simp)
  then show ?thesis by blast
qed

definition example_views :: tables where
  "example_views = example_world\<lparr>
     t_items := [\<lparr>itm_id = ''t'', itm_ws = ''w'', itm_type = ''table'', itm_name = ''A'', itm_parent = None, itm_order = 0, itm_view = Some ''v1''\<rparr>],
     t_views := [\<lparr>vw_id = ''v1'', vw_table = ''t'', vw_name = ''V'', vw_type = ''grid'', vw_config = PNone\<rparr>,
                 \<lparr>vw_id = ''v2'', vw_table = ''t'', vw_name = ''W'', vw_type = ''grid'', vw_config = PNone\<rparr>]\<rparr>"

theorem default_view_exists_witness:
  "\<exists>s1 s2. run_schema (DeleteView (Some ''t'') ''v1'') (session_of example_views) = (Inr (), s1)
     \<and> run_schema (DeleteView (Some ''t'') ''v2'') s1 = (Inr (), s2)
     \<and> views_ok {''t''} (work s2) \<and> map itm_view (t_items (work s2)) = [Some ''v2''] \<and> map vw_id (t_views (work s2)) = [''v2'']"
proof -
  let ?d = "\<lambda>i. run_schema (DeleteView (Some ''t'') i)"
  obtain r1 s1 where r1: "?d ''v1'' (session_of example_views) = (r1, s1)" by fastforce
  obtain r2 s2 where r2: "?d ''v2'' s1 = (r2, s2)" by fastforce
  have "fst (?d ''v1'' (session_of example_views)) = Inr ()" by code_simp
  moreover have "fst (?d ''v2'' (snd (?d ''v1'' (session_of example_views)))) = Inr ()" by code_simp
  moreover have "map itm_view (t_items (work (snd (?d ''v2'' (snd (?d ''v1'' (session_of example_views))))))) = [Some ''v2'']" by code_simp
  moreover have "map vw_id (t_views (work (snd (?d ''v2'' (snd (?d ''v1'' (session_of example_views))))))) = [''v2'']" by code_simp
  moreover have "schema_reach (session_of example_views) s2"
    by (rule schema_reach.step[OF schema_reach.step[OF schema_reach.start r1] r2])
  moreover have k: "keys_ok example_views" "views_ok {''t''} example_views"
    by (simp_all add: example_views_def example_world_def empty_tables_def keys_ok_def views_ok_def default_ok_def has_view_def
        fld_key_def rec_key_def vw_key_def)
  moreover have "committed (session_of example_views) = example_views" by (simp add: session_of_def)
  ultimately show ?thesis using default_view_exists[of "session_of example_views" s2 "{''t''}"] r1 r2 by simp
qed

end
