(* ===== verification/Dashboards.thy ===== *)
theory Dashboards
  imports SchemaStore
begin

text \<open>
  Dashboards and their widgets (\<open>dashboard_store/db_backend.py\<close>). A new public token is the
  next random string of the session's stream; a token in use by another dashboard violates the
  unique index.
\<close>

declare split_paired_All [simp del] split_paired_Ex [simp del]

section \<open>Definitions\<close>

text \<open>\<open>_generate_id\<close> and \<open>_gen_id\<close>: a prefix and the milliseconds of the clock.\<close>

definition gen_id :: "string \<Rightarrow> string op" where
  "gen_id prefix = bind_op millis (\<lambda>ms. ret (prefix @ ms))"

definition generate_public_token :: "string op" where
  "generate_public_token = uuid_hex"

definition find_dashboard :: "tables \<Rightarrow> string \<Rightarrow> dashboard option" where
  "find_dashboard t i = select_first t_dashboards (\<lambda>d. dsh_id d = i) t"

definition ensure_dashboard_db :: "string \<Rightarrow> string \<Rightarrow> dashboard op" where
  "ensure_dashboard_db dashboard_id workspace_id =
     bind_op (reads (\<lambda>t. find_dashboard t dashboard_id)) (\<lambda>found.
     case found of
       Some row \<Rightarrow> ret row
     | None \<Rightarrow>
         let row = \<lparr>dsh_id = dashboard_id, dsh_ws = workspace_id, dsh_description = None, dsh_public = False, dsh_token = None\<rparr> in
         then_op (insert_row t_dashboards t_dashboards_update dsh_id row) (then_op commit (ret row)))"

definition get_dashboard_db :: "string \<Rightarrow> dashboard option op" where
  "get_dashboard_db dashboard_id = reads (\<lambda>t. find_dashboard t dashboard_id)"

text \<open>The flush of a changed row: the token of another row is refused.\<close>

definition put_dashboard :: "dashboard \<Rightarrow> unit op" where
  "put_dashboard d = bind_op (reads (\<lambda>t. dsh_token d \<noteq> None \<and> (\<exists>x\<in>set (t_dashboards t). dsh_id x \<noteq> dsh_id d \<and> dsh_token x = dsh_token d)))
     (\<lambda>clash. if clash then then_op rollback (throw (Exn IntegrityError ''UNIQUE constraint failed''))
       else put_row t_dashboards_update dsh_id d)"

definition dashboard_changes :: "dict \<Rightarrow> dashboard \<Rightarrow> dashboard res" where
  "dashboard_changes updates d =
     bind_res (if dhas updates ''description'' then text_or_null (dget updates ''description'') else Inr (dsh_description d)) (\<lambda>description.
     bind_res (if dhas updates ''publicToken'' then text_or_null (dget updates ''publicToken'') else Inr (dsh_token d)) (\<lambda>token.
       Inr (d\<lparr>dsh_description := description,
              dsh_public := (if dhas updates ''isPublic'' then py_truth (dget updates ''isPublic'') else dsh_public d),
              dsh_token := token\<rparr>)))"

definition update_dashboard_meta_db :: "string \<Rightarrow> dict \<Rightarrow> dashboard option op" where
  "update_dashboard_meta_db dashboard_id updates =
     bind_op (get_dashboard_db dashboard_id) (\<lambda>found.
     case found of
       None \<Rightarrow> ret None
     | Some d \<Rightarrow>
         bind_op (of_res (dashboard_changes updates d)) (\<lambda>d'.
         then_op (put_dashboard d') (then_op commit (ret (Some d')))))"

definition ensure_public_token_db :: "string \<Rightarrow> string option op" where
  "ensure_public_token_db dashboard_id =
     bind_op (get_dashboard_db dashboard_id) (\<lambda>found.
     case found of
       None \<Rightarrow> ret None
     | Some d \<Rightarrow>
         if dsh_token d \<noteq> None \<and> dsh_token d \<noteq> Some [] then ret (dsh_token d)
         else bind_op generate_public_token (\<lambda>token.
           then_op (put_dashboard (d\<lparr>dsh_token := Some token\<rparr>)) (then_op commit (ret (Some token)))))"

definition list_widgets_db :: "tables \<Rightarrow> string \<Rightarrow> dashboard_widget list" where
  "list_widgets_db t dashboard_id =
     sort_key (\<lambda>w. (wdg_order w, wdg_created w)) (select t_widgets (\<lambda>w. wdg_dashboard w = dashboard_id) t)"

definition default_layout :: pyval where
  "default_layout = PDict [(''x'', PInt 0), (''y'', PInt 0), (''w'', PInt 6), (''h'', PInt 8)]"

definition create_widget_db :: "string \<Rightarrow> dict \<Rightarrow> dashboard_widget op" where
  "create_widget_db dashboard_id widget =
     bind_op (reads (\<lambda>t. max_or_zero (map wdg_order (select t_widgets (\<lambda>w. wdg_dashboard w = dashboard_id) t)))) (\<lambda>max_order.
     bind_op (gen_id ''wdg'') (\<lambda>widget_id.
     bind_op (of_res (text_or_null (py_or (dget widget ''title'') (PStr [])))) (\<lambda>title.
     bind_op utcnow (\<lambda>now.
     let row = \<lparr>wdg_id = widget_id, wdg_dashboard = dashboard_id,
          wdg_type = py_str (py_or (dget widget ''type'') (PStr ''bar'')), wdg_title = title,
          wdg_scheme = dget widget ''colorScheme'', wdg_layout = py_or (dget widget ''layout'') default_layout,
          wdg_config = py_or (dget widget ''config'') (PDict []), wdg_order = max_order + 1, wdg_created = now\<rparr> in
     then_op (insert_row t_widgets t_widgets_update wdg_id row) (then_op commit (ret row))))))"

definition is_dict :: "pyval \<Rightarrow> bool" where
  "is_dict v \<longleftrightarrow> (case v of PDict _ \<Rightarrow> True | _ \<Rightarrow> False)"

definition widget_changes :: "dict \<Rightarrow> dashboard_widget \<Rightarrow> dashboard_widget res" where
  "widget_changes updates w =
     bind_res (if dhas updates ''title'' then text_or_null (dget updates ''title'') else Inr (wdg_title w)) (\<lambda>title.
       Inr (w\<lparr>wdg_type := (if dhas updates ''type'' then py_str (py_or (dget updates ''type'') (PStr (wdg_type w))) else wdg_type w),
              wdg_title := title,
              wdg_scheme := (if dhas updates ''colorScheme'' then dget updates ''colorScheme'' else wdg_scheme w),
              wdg_layout := (if is_dict (dget updates ''layout'') then dget updates ''layout'' else wdg_layout w),
              wdg_config := (if is_dict (dget updates ''config'') then dget updates ''config'' else wdg_config w)\<rparr>))"

definition update_widget_db :: "string \<Rightarrow> dict \<Rightarrow> dashboard_widget option op" where
  "update_widget_db widget_id updates =
     bind_op (reads (select_first t_widgets (\<lambda>w. wdg_id w = widget_id))) (\<lambda>found.
     case found of
       None \<Rightarrow> ret None
     | Some w \<Rightarrow>
         bind_op (of_res (widget_changes updates w)) (\<lambda>w'.
         then_op (put_row t_widgets_update wdg_id w') (then_op commit (ret (Some w')))))"

definition delete_widget_db :: "string \<Rightarrow> bool op" where
  "delete_widget_db widget_id =
     bind_op (reads (select t_widgets (\<lambda>w. wdg_id w = widget_id))) (\<lambda>rows.
     then_op (delete_rows t_widgets_update (\<lambda>w. wdg_id w = widget_id))
     (then_op commit (ret (rows \<noteq> []))))"

definition delete_dashboard_db :: "string \<Rightarrow> unit op" where
  "delete_dashboard_db dashboard_id =
     then_op (delete_rows t_widgets_update (\<lambda>w. wdg_dashboard w = dashboard_id))
     (then_op (delete_rows t_dashboards_update (\<lambda>d. dsh_id d = dashboard_id)) commit)"

text \<open>One copied widget; the flush at the end inserts them in this order.\<close>

definition copy_widget :: "string \<Rightarrow> nat \<times> dashboard_widget \<Rightarrow> dashboard_widget op" where
  "copy_widget target = (\<lambda>(idx, w).
     bind_op (gen_id ''wdg'') (\<lambda>i.
       ret (w\<lparr>wdg_id := i, wdg_dashboard := target, wdg_order := int idx + 1\<rparr>)))"

definition insert_widget :: "dashboard_widget \<Rightarrow> unit op" where
  "insert_widget w = bind_op utcnow (\<lambda>now. insert_row t_widgets t_widgets_update wdg_id (w\<lparr>wdg_created := now\<rparr>))"

definition copy_dashboard_db :: "string \<Rightarrow> string \<Rightarrow> string \<Rightarrow> unit op" where
  "copy_dashboard_db source_id target_id workspace_id =
     bind_op (get_dashboard_db source_id) (\<lambda>source.
     then_op (insert_row t_dashboards t_dashboards_update dsh_id
       \<lparr>dsh_id = target_id, dsh_ws = workspace_id,
        dsh_description = (case source of Some d \<Rightarrow> dsh_description d | None \<Rightarrow> Some []), dsh_public = False, dsh_token = None\<rparr>)
     (then_op commit
     (bind_op (reads (\<lambda>t. list_widgets_db t source_id)) (\<lambda>widgets.
      bind_op (map_op (copy_widget target_id) (enumerate 0 widgets)) (\<lambda>copies.
      then_op (map_op insert_widget copies) commit)))))"

end
