(* ===== verification/WorkspaceTree.thy ===== *)
theory WorkspaceTree
  imports Dashboards
begin

text \<open>
  Workspaces and the tree of their items (\<open>workspace/db_ops.py\<close>): folders, tables and
  dashboards under one root folder. An operation with a loop that may not end gives \<open>None\<close>
  where it does not return. Every operation first makes sure that the workspace exists;
  \<open>projects\<close> is the template of the table this creates.
\<close>

declare split_paired_All [simp del] split_paired_Ex [simp del]

section \<open>Definitions\<close>

definition normalize_workspace_id :: "string option \<Rightarrow> string" where
  "normalize_workspace_id workspace_id = (case workspace_id of
       None \<Rightarrow> ''wkbDefault'' | Some i \<Rightarrow> if i = [] then ''wkbDefault'' else i)"

definition get_default_workspace_id :: "int \<Rightarrow> string" where
  "get_default_workspace_id user_id = ''wkbUser'' @ dec_int user_id"

text \<open>The names in Chinese, as their UTF-8 bytes: "default space" and "my space".\<close>

definition default_space_name :: string where
  "default_space_name = map char_of [233, 187, 152, 232, 174, 164, 231, 169, 186, 233, 151, 180 :: nat]"

definition my_space_name :: string where
  "my_space_name = map char_of [230, 136, 145, 231, 154, 132, 231, 169, 186, 233, 151, 180 :: nat]"

definition or_default :: "string option \<Rightarrow> string \<Rightarrow> string" where
  "or_default s d = (case s of None \<Rightarrow> d | Some x \<Rightarrow> if x = [] then d else x)"

definition item_row :: "string \<Rightarrow> string \<Rightarrow> string \<Rightarrow> string \<Rightarrow> string option \<Rightarrow> int \<Rightarrow> string option \<Rightarrow> workspace_item" where
  "item_row i ws ty name parent ord view =
     \<lparr>itm_id = i, itm_ws = ws, itm_type = ty, itm_name = name, itm_parent = parent, itm_order = ord, itm_view = view\<rparr>"

definition insert_item :: "workspace_item \<Rightarrow> unit op" where
  "insert_item = insert_row t_items t_items_update itm_id"

definition root_of :: "tables \<Rightarrow> string \<Rightarrow> workspace_item option" where
  "root_of t ws = select_first t_items (\<lambda>i. itm_ws i = ws \<and> itm_parent i = None) t"

text \<open>The root folder and its first table, in one transaction with the schema of the table.\<close>

definition create_root :: "string \<Rightarrow> string option \<Rightarrow> template \<Rightarrow> workspace_item op" where
  "create_root ws workspace_name projects =
     bind_op (gen_id ''fld'') (\<lambda>root_id.
     bind_op (gen_id ''dst'') (\<lambda>table_id.
     let root = item_row root_id ws ''folder'' (or_default workspace_name default_space_name) None 0 None;
         table = item_row table_id ws ''table'' ''Projects'' (Some root_id) 0 (Some ''v1'') in
     then_op (catch
         (then_op (insert_item root) (then_op (insert_item table) (bind_op (init_table_db table_id projects) (\<lambda>_. ret ()))))
         (\<lambda>e. then_op rollback (throw e)))
       (ret root)))"

definition ensure_workspace_db :: "string option \<Rightarrow> string option \<Rightarrow> template \<Rightarrow> workspace_item op" where
  "ensure_workspace_db workspace_id workspace_name projects =
     (let ws = normalize_workspace_id workspace_id in
      bind_op (reads (select_first t_workspaces (\<lambda>w. wsp_id w = ws))) (\<lambda>found.
      then_op (if found = None
        then insert_row t_workspaces t_workspaces_update wsp_id \<lparr>wsp_id = ws, wsp_name = Some (or_default workspace_name default_space_name)\<rparr>
        else ret ())
      (bind_op (reads (\<lambda>t. root_of t ws)) (\<lambda>root.
       case root of
         Some r \<Rightarrow> then_op (if found = None then commit else ret ()) (ret r)
       | None \<Rightarrow> create_root ws workspace_name projects))))"

definition ensure_user_default_workspace :: "int \<Rightarrow> string option \<Rightarrow> template \<Rightarrow> string op" where
  "ensure_user_default_workspace user_id user_name projects =
     bind_op (reads (select t_members (\<lambda>m. mb_user m = user_id))) (\<lambda>members.
     case find (\<lambda>m. mb_role m = Owner) members of
       Some m \<Rightarrow> ret (mb_ws m)
     | None \<Rightarrow>
         let ws = get_default_workspace_id user_id in
         then_op (bind_op (ensure_workspace_db (Some ws) (Some (or_default user_name my_space_name)) projects) (\<lambda>_. ret ()))
         (then_op (if find (\<lambda>m. mb_ws m = ws) members = None
            then then_op (insert_row t_members t_members_update mb_key \<lparr>mb_user = user_id, mb_ws = ws, mb_role = Owner\<rparr>) commit
            else ret ())
          (ret ws)))"

subsection \<open>Listing\<close>

text \<open>The loop from a parent upwards, until it meets an item that is listed already.\<close>

function add_parents :: "workspace_item list \<Rightarrow> string list \<Rightarrow> string option \<Rightarrow> string list" where
  "add_parents items visible p = (case p of
       None \<Rightarrow> visible
     | Some q \<Rightarrow> if q = [] \<or> q \<in> set visible then visible else add_parents items (q # visible) (item_parent items q))"
  by pat_completeness auto
termination
proof (relation "measure (\<lambda>(items, visible, p). case p of None \<Rightarrow> 0
    | Some q \<Rightarrow> if q \<in> itm_id ` set items then 2 + card (itm_id ` set items - set visible) else 1)", goal_cases)
  case (2 items visible p q)
  show ?case
  proof (cases "item_parent items q")
    case (Some r)
    then have q: "q \<in> itm_id ` set items" by (auto simp: item_parent_def bind_eq_Some_conv find_Some_iff)
    then have "itm_id ` set items - set (q # visible) \<subset> itm_id ` set items - set visible" using 2 by auto
    then have "card (itm_id ` set items - set (q # visible)) < card (itm_id ` set items - set visible)"
      by (simp add: psubset_card_mono)
    with 2 Some q show ?thesis by simp
  qed (use 2 in simp)
qed auto

text \<open>A node of the answer; its children are references to other nodes, \<open>None\<close> where the key is missing.\<close>

record tree_node =
  nd_type :: string
  nd_id :: string
  nd_name :: string
  nd_view :: "string option"
  nd_children :: "string list option"

record listing =
  ls_ws :: string
  ls_root :: string
  ls_root_name :: string
  ls_root_children :: "string list"
  ls_nodes :: "tree_node list"

definition visible_from :: "workspace_item list \<Rightarrow> (string \<times> string) list \<Rightarrow> string list" where
  "visible_from items perms =
     (let readable = filter (\<lambda>i. permission_allows (map_of perms (itm_id i)) ''read'') items in
      foldl (\<lambda>vis i. add_parents items vis (itm_parent i)) (map itm_id readable) readable)"

text \<open>\<open>visible_ids\<close>: all items when no user is given, none for a user who is not a member.\<close>

definition visible_ids :: "tables \<Rightarrow> string \<Rightarrow> workspace_item list \<Rightarrow> int option \<Rightarrow> string list option option" where
  "visible_ids t ws items user_id = (case user_id of
       None \<Rightarrow> Some None
     | Some u \<Rightarrow>
         (case get_workspace_member t u ws of
            None \<Rightarrow> Some (Some [])
          | Some m \<Rightarrow> map_option (\<lambda>perms. Some (visible_from items perms))
              (resolve_all (item_parent items) (get_user_permission_overrides t ws u) (role_permission (mb_role m))
                (map itm_id items) Map.empty)))"

definition shown_items :: "workspace_item list \<Rightarrow> string list option \<Rightarrow> workspace_item list" where
  "shown_items items visible = filter (\<lambda>i. case visible of None \<Rightarrow> True | Some v \<Rightarrow> itm_id i \<in> set v) items"

definition children_ids :: "workspace_item list \<Rightarrow> string \<Rightarrow> string list" where
  "children_ids shown p = map itm_id (sort_key itm_order (filter (\<lambda>c. itm_parent c = Some p) shown))"

definition item_node :: "workspace_item list \<Rightarrow> workspace_item \<Rightarrow> tree_node" where
  "item_node shown i =
     (let children = children_ids shown (itm_id i);
          found = (if children = [] then None else Some children) in
      if itm_type i = ''table''
      then \<lparr>nd_type = ''table'', nd_id = itm_id i, nd_name = itm_name i, nd_view = Some (or_default (itm_view i) ''v1''), nd_children = found\<rparr>
      else if itm_type i = ''dashboard''
      then \<lparr>nd_type = ''dashboard'', nd_id = itm_id i, nd_name = itm_name i, nd_view = None, nd_children = found\<rparr>
      else \<lparr>nd_type = ''folder'', nd_id = itm_id i, nd_name = itm_name i, nd_view = None, nd_children = Some children\<rparr>)"

definition workspace_listing :: "string \<Rightarrow> workspace_item list \<Rightarrow> string list option \<Rightarrow> listing op" where
  "workspace_listing ws items visible =
     (let nodes = map (item_node (shown_items items visible)) (shown_items items visible) in
      case Option.bind (find (\<lambda>i. itm_parent i = None) items) (\<lambda>r. find (\<lambda>n. nd_id n = itm_id r) nodes) of
        None \<Rightarrow> bind_op (gen_id ''fld'') (\<lambda>i.
          ret \<lparr>ls_ws = ws, ls_root = i, ls_root_name = ''Root'', ls_root_children = [], ls_nodes = nodes\<rparr>)
      | Some n \<Rightarrow> ret \<lparr>ls_ws = ws, ls_root = nd_id n, ls_root_name = nd_name n,
          ls_root_children = (case nd_children n of None \<Rightarrow> [] | Some c \<Rightarrow> c), ls_nodes = nodes\<rparr>)"

definition list_workspace_db ::
  "string option \<Rightarrow> int option \<Rightarrow> template \<Rightarrow> session \<Rightarrow> (listing res \<times> session) option" where
  "list_workspace_db workspace_id user_id projects s =
     (let ws = normalize_workspace_id workspace_id in
      case ensure_workspace_db (Some ws) None projects s of
        (Inl e, s1) \<Rightarrow> Some (Inl e, s1)
      | (Inr _, s1) \<Rightarrow>
          let items = select t_items (\<lambda>i. itm_ws i = ws) (work s1) in
          map_option (\<lambda>visible. workspace_listing ws items visible s1) (visible_ids (work s1) ws items user_id))"

record root_entry =
  re_ws :: string
  re_name :: string
  re_root :: string

definition root_entry_of :: "workspace_item \<Rightarrow> root_entry" where
  "root_entry_of r = \<lparr>re_ws = itm_ws r, re_name = itm_name r, re_root = itm_id r\<rparr>"

definition list_workspaces_db :: "template \<Rightarrow> root_entry list op" where
  "list_workspaces_db projects =
     then_op (bind_op (ensure_workspace_db (Some ''wkbDefault'') None projects) (\<lambda>_. ret ()))
       (reads (\<lambda>t. map root_entry_of (sort_key itm_order (select t_items (\<lambda>i. itm_parent i = None) t))))"

definition membership_roots :: "tables \<Rightarrow> int \<Rightarrow> (workspace_member \<times> workspace_item) list" where
  "membership_roots t user_id =
     concat (map (\<lambda>m. map (Pair m) (select t_items (\<lambda>i. itm_ws i = mb_ws m \<and> itm_parent i = None) t))
       (select t_members (\<lambda>m. mb_user m = user_id) t))"

text \<open>The iteration order of Python's set of ids is not fixed; here it is the storage order.\<close>

definition list_user_workspaces_db :: "int \<Rightarrow> string option \<Rightarrow> template \<Rightarrow> (root_entry list \<times> root_entry list) op" where
  "list_user_workspaces_db user_id user_name projects =
     bind_op (ensure_user_default_workspace user_id user_name projects) (\<lambda>_.
     bind_op (reads (\<lambda>t. remdups (map mb_ws (select t_members (\<lambda>m. mb_user m = user_id) t)))) (\<lambda>ids.
     then_op (map_op (\<lambda>ws. ensure_workspace_db (Some ws) None projects) ids)
     (reads (\<lambda>t.
        let rows = membership_roots t user_id;
            payload = (\<lambda>rs. map (root_entry_of \<circ> snd) (sort_key (itm_order \<circ> snd) rs)) in
        (payload (filter (\<lambda>(m, _). mb_role m = Owner) rows), payload (filter (\<lambda>(m, _). mb_role m \<noteq> Owner) rows))))))"

subsection \<open>Creating, renaming and moving\<close>

definition find_item :: "tables \<Rightarrow> string \<Rightarrow> string \<Rightarrow> workspace_item option" where
  "find_item t ws i = select_first t_items (\<lambda>x. itm_id x = i \<and> itm_ws x = ws) t"

definition next_order :: "tables \<Rightarrow> string \<Rightarrow> string \<Rightarrow> int" where
  "next_order t ws parent_id =
     max_or_zero (map itm_order (select t_items (\<lambda>x. itm_parent x = Some parent_id \<and> itm_ws x = ws) t)) + 1"

definition is_container :: "workspace_item option \<Rightarrow> bool" where
  "is_container parent = (case parent of None \<Rightarrow> False | Some p \<Rightarrow> itm_type p \<notin> {''table'', ''dashboard''})"

text \<open>The first lines of every operation.\<close>

definition in_workspace :: "string option \<Rightarrow> template \<Rightarrow> (string \<Rightarrow> 'a op) \<Rightarrow> 'a op" where
  "in_workspace workspace_id projects f =
     (let ws = normalize_workspace_id workspace_id in
      bind_op (ensure_workspace_db (Some ws) None projects) (\<lambda>_. f ws))"

text \<open>The checked parent and the place behind its children.\<close>

definition place_under :: "string \<Rightarrow> string \<Rightarrow> string \<Rightarrow> int op" where
  "place_under what ws parent_id =
     bind_op (reads (\<lambda>t. (find_item t ws parent_id, next_order t ws parent_id))) (\<lambda>(parent, ord).
     then_op (throw_if (\<not> is_container parent) (Exn ValueError (''Invalid parent for '' @ what))) (ret ord))"

definition create_folder_db :: "string \<Rightarrow> string \<Rightarrow> string option \<Rightarrow> template \<Rightarrow> tree_node op" where
  "create_folder_db name parent_id workspace_id projects =
     in_workspace workspace_id projects (\<lambda>ws.
     bind_op (place_under ''folder'' ws parent_id) (\<lambda>ord.
     bind_op (gen_id ''fld'') (\<lambda>i.
     then_op (insert_item (item_row i ws ''folder'' name (Some parent_id) ord None))
     (then_op commit
     (ret \<lparr>nd_type = ''folder'', nd_id = i, nd_name = name, nd_view = None, nd_children = Some []\<rparr>)))))"

text \<open>\<open>chosen\<close> is what the template catalog gives for a template id and the new table, when one was asked for.\<close>

definition template_default_view :: "template \<Rightarrow> string \<Rightarrow> string" where
  "template_default_view tpl default_view_id =
     (case tp_views tpl of [] \<Rightarrow> default_view_id | v # _ \<Rightarrow> py_str (py_or (dget v ''id'') (PStr default_view_id)))"

definition create_table_item_db ::
  "string \<Rightarrow> string \<Rightarrow> string \<Rightarrow> string option \<Rightarrow> (tables \<Rightarrow> string \<Rightarrow> template res) option \<Rightarrow> template \<Rightarrow> tree_node op" where
  "create_table_item_db name parent_id default_view_id workspace_id chosen projects =
     in_workspace workspace_id projects (\<lambda>ws.
     bind_op (place_under ''table'' ws parent_id) (\<lambda>ord.
     bind_op (gen_id ''dst'') (\<lambda>i.
     bind_op (reads (\<lambda>t. case chosen of
          None \<Rightarrow> Inr (projects, default_view_id)
        | Some resolve \<Rightarrow> bind_res (resolve t i) (\<lambda>tpl. Inr (tpl, template_default_view tpl default_view_id)))) (\<lambda>found.
     bind_op (of_res found) (\<lambda>(tpl, view).
     then_op (catch
         (then_op (insert_item (item_row i ws ''table'' name (Some parent_id) ord (Some view))) (bind_op (init_table_db i tpl) (\<lambda>_. ret ())))
         (\<lambda>e. then_op rollback (throw e)))
     (ret \<lparr>nd_type = ''table'', nd_id = i, nd_name = name, nd_view = Some view, nd_children = None\<rparr>))))))"

definition create_dashboard_db :: "string \<Rightarrow> string \<Rightarrow> string option \<Rightarrow> template \<Rightarrow> tree_node op" where
  "create_dashboard_db name parent_id workspace_id projects =
     in_workspace workspace_id projects (\<lambda>ws.
     bind_op (place_under ''dashboard'' ws parent_id) (\<lambda>ord.
     bind_op (gen_id ''dsb'') (\<lambda>i.
     then_op (insert_item (item_row i ws ''dashboard'' name (Some parent_id) ord None))
     (then_op commit
     (bind_op (ensure_dashboard_db i ws) (\<lambda>_.
      ret \<lparr>nd_type = ''dashboard'', nd_id = i, nd_name = name, nd_view = None, nd_children = None\<rparr>))))))"

text \<open>The update of a loaded item.\<close>

definition set_item :: "string \<Rightarrow> (workspace_item \<Rightarrow> workspace_item) \<Rightarrow> unit op" where
  "set_item i f = update_rows t_items_update (\<lambda>x. itm_id x = i) f"

definition rename_item_db :: "string \<Rightarrow> string \<Rightarrow> string option \<Rightarrow> template \<Rightarrow> bool op" where
  "rename_item_db item_id name workspace_id projects =
     in_workspace workspace_id projects (\<lambda>ws.
     bind_op (reads (\<lambda>t. find_item t ws item_id)) (\<lambda>item.
     if item = None then ret False
     else then_op (set_item item_id (\<lambda>x. x\<lparr>itm_name := name\<rparr>)) (then_op commit (ret True))))"

definition move_item_db :: "string \<Rightarrow> string \<Rightarrow> string option \<Rightarrow> template \<Rightarrow> bool op" where
  "move_item_db item_id new_parent_id workspace_id projects =
     in_workspace workspace_id projects (\<lambda>ws.
     bind_op (reads (\<lambda>t. (find_item t ws item_id, find_item t ws new_parent_id, next_order t ws new_parent_id)))
       (\<lambda>(item, new_parent, ord).
     if item = None \<or> \<not> is_container new_parent then ret False
     else then_op (set_item item_id (\<lambda>x. x\<lparr>itm_parent := Some new_parent_id, itm_order := ord\<rparr>)) (then_op commit (ret True))))"

subsection \<open>Copying\<close>

definition copy_table_item_db :: "string \<Rightarrow> string \<Rightarrow> string option \<Rightarrow> string option \<Rightarrow> template \<Rightarrow> tree_node option op" where
  "copy_table_item_db table_id new_parent_id new_name workspace_id projects =
     in_workspace workspace_id projects (\<lambda>ws.
     bind_op (reads (\<lambda>t. (find_item t ws table_id, find_item t ws new_parent_id, next_order t ws new_parent_id)))
       (\<lambda>(item, new_parent, ord).
     case (item, new_parent) of
       (Some it, Some p) \<Rightarrow>
         if itm_type it \<noteq> ''table'' \<or> itm_type p = ''table'' then ret None
         else
           bind_op (gen_id ''dst'') (\<lambda>i.
           let name = or_default new_name (itm_name it @ '' Copy''); view = or_default (itm_view it) ''v1'' in
           then_op (insert_item (item_row i ws ''table'' name (Some new_parent_id) ord (Some view)))
           (then_op commit
           (then_op (copy_table_db table_id i)
           (ret (Some \<lparr>nd_type = ''table'', nd_id = i, nd_name = name, nd_view = Some view, nd_children = None\<rparr>)))))
     | _ \<Rightarrow> ret None))"

definition copy_dashboard_item_db :: "string \<Rightarrow> string \<Rightarrow> string option \<Rightarrow> string option \<Rightarrow> template \<Rightarrow> tree_node option op" where
  "copy_dashboard_item_db dashboard_id new_parent_id new_name workspace_id projects =
     in_workspace workspace_id projects (\<lambda>ws.
     bind_op (reads (\<lambda>t. (find_item t ws dashboard_id, find_item t ws new_parent_id, next_order t ws new_parent_id)))
       (\<lambda>(item, new_parent, ord).
     case item of
       Some it \<Rightarrow>
         if itm_type it \<noteq> ''dashboard'' \<or> \<not> is_container new_parent then ret None
         else
           bind_op (gen_id ''dsb'') (\<lambda>i.
           let name = or_default new_name (itm_name it @ '' Copy'') in
           then_op (insert_item (item_row i ws ''dashboard'' name (Some new_parent_id) ord None))
           (then_op commit
           (then_op (copy_dashboard_db dashboard_id i ws)
           (ret (Some \<lparr>nd_type = ''dashboard'', nd_id = i, nd_name = name, nd_view = None, nd_children = None\<rparr>)))))
     | None \<Rightarrow> ret None))"

subsection \<open>Deleting\<close>

text \<open>The stack of \<open>delete_item_db\<close>, its top first: the children of an item are pushed in storage order.\<close>

definition child_ids :: "workspace_item list \<Rightarrow> string \<Rightarrow> string list" where
  "child_ids items p = map itm_id (filter (\<lambda>i. itm_parent i = Some p) items)"

partial_function (option) collect_subtree :: "workspace_item list \<Rightarrow> string list \<Rightarrow> string list \<Rightarrow> string list option" where
  "collect_subtree items stack to_delete = (case stack of
       [] \<Rightarrow> Some to_delete
     | current # rest \<Rightarrow> collect_subtree items (rev (child_ids items current) @ rest) (to_delete @ [current]))"

definition delete_item_data :: "workspace_item list \<Rightarrow> string \<Rightarrow> unit op" where
  "delete_item_data items i = (case find (\<lambda>x. itm_id x = i) items of
       None \<Rightarrow> ret ()
     | Some item \<Rightarrow>
         then_op (if itm_type item = ''table'' then delete_table_data_db i else ret ())
           (if itm_type item = ''dashboard'' then delete_dashboard_db i else ret ()))"

definition delete_items :: "workspace_item list \<Rightarrow> string list \<Rightarrow> bool op" where
  "delete_items items to_delete =
     then_op (map_op (delete_item_data items) to_delete)
     (then_op (delete_rows t_items_update (\<lambda>i. itm_id i \<in> set to_delete))
     (then_op commit (ret True)))"

definition delete_item_db :: "string \<Rightarrow> string option \<Rightarrow> template \<Rightarrow> session \<Rightarrow> (bool res \<times> session) option" where
  "delete_item_db item_id workspace_id projects s =
     (let ws = normalize_workspace_id workspace_id in
      case ensure_workspace_db (Some ws) None projects s of
        (Inl e, s1) \<Rightarrow> Some (Inl e, s1)
      | (Inr _, s1) \<Rightarrow>
          let items = select t_items (\<lambda>i. itm_ws i = ws) (work s1) in
          if item_id \<notin> itm_id ` set items then Some (Inr False, s1)
          else map_option (\<lambda>to_delete. delete_items items to_delete s1) (collect_subtree items [item_id] []))"

subsection \<open>Workspaces\<close>

definition create_workspace_db :: "string \<Rightarrow> template \<Rightarrow> root_entry op" where
  "create_workspace_db name projects =
     bind_op (gen_id ''wkb'') (\<lambda>ws.
     bind_op (ensure_workspace_db (Some ws) (Some name) projects) (\<lambda>root.
     ret \<lparr>re_ws = ws, re_name = itm_name root, re_root = itm_id root\<rparr>))"

definition rename_workspace_db :: "string \<Rightarrow> string \<Rightarrow> template \<Rightarrow> bool op" where
  "rename_workspace_db workspace_id name projects =
     bind_op (ensure_workspace_db (Some workspace_id) None projects) (\<lambda>root.
     then_op (set_item (itm_id root) (\<lambda>x. x\<lparr>itm_name := name\<rparr>)) (then_op commit (ret True)))"

definition delete_workspace_db :: "string \<Rightarrow> template \<Rightarrow> bool op" where
  "delete_workspace_db workspace_id projects =
     bind_op (ensure_workspace_db (Some workspace_id) None projects) (\<lambda>_.
     bind_op (reads (select t_items (\<lambda>i. itm_ws i = workspace_id))) (\<lambda>items.
     if items = [] then ret False
     else
       then_op (map_op (\<lambda>i. if itm_type i = ''table'' then delete_table_data_db (itm_id i) else ret ()) items)
       (then_op (delete_rows t_items_update (\<lambda>i. itm_ws i = workspace_id))
       (then_op commit (ret True)))))"

section \<open>The shape of the tree\<close>

text \<open>
  The parent of an item is an item of the same workspace and no table; a workspace has one
  root; no item lies below itself (\<open>depth\<close> grows from parent to child).
\<close>

definition parents_ok :: "workspace_item list \<Rightarrow> bool" where
  "parents_ok items \<longleftrightarrow> (\<forall>x\<in>set items. \<forall>p. itm_parent x = Some p \<longrightarrow>
     (\<exists>y\<in>set items. itm_id y = p \<and> itm_ws y = itm_ws x \<and> itm_type y \<noteq> ''table''))"

definition one_root :: "workspace_item list \<Rightarrow> bool" where
  "one_root items \<longleftrightarrow> (\<forall>x\<in>set items. \<forall>y\<in>set items.
     itm_parent x = None \<longrightarrow> itm_parent y = None \<longrightarrow> itm_ws x = itm_ws y \<longrightarrow> x = y)"

definition well_nested :: "workspace_item list \<Rightarrow> bool" where
  "well_nested items \<longleftrightarrow> (\<exists>depth :: string \<Rightarrow> nat. \<forall>x\<in>set items. \<forall>p. itm_parent x = Some p \<longrightarrow> depth p < depth (itm_id x))"

definition tree_ok :: "tables \<Rightarrow> bool" where
  "tree_ok t \<longleftrightarrow> distinct (map itm_id (t_items t)) \<and> parents_ok (t_items t) \<and> one_root (t_items t) \<and> well_nested (t_items t)"

definition child_rel :: "workspace_item list \<Rightarrow> (string \<times> string) set" where
  "child_rel items = {(itm_id x, p) | x p. x \<in> set items \<and> itm_parent x = Some p}"

text \<open>\<open>i\<close> is \<open>r\<close> or lies below it.\<close>

inductive below :: "workspace_item list \<Rightarrow> string \<Rightarrow> string \<Rightarrow> bool" for items r where
  itself: "below items r r"
| child: "below items r p \<Longrightarrow> x \<in> set items \<Longrightarrow> itm_parent x = Some p \<Longrightarrow> below items r (itm_id x)"

lemma below_rtrancl: "below items r i \<longleftrightarrow> (i, r) \<in> (child_rel items)\<^sup>*"
proof
  assume "below items r i"
  then show "(i, r) \<in> (child_rel items)\<^sup>*"
    by induction (auto simp: child_rel_def intro: converse_rtrancl_into_rtrancl)
next
  assume "(i, r) \<in> (child_rel items)\<^sup>*"
  then show "below items r i"
    by (induction rule: converse_rtrancl_induct) (auto simp: child_rel_def intro: below.intros)
qed

lemma below_trans: "below items r p \<Longrightarrow> below items p i \<Longrightarrow> below items r i"
  unfolding below_rtrancl by (rule rtrancl_trans)

lemma finite_child_rel: "finite (child_rel items)"
proof (rule finite_subset)
  show "child_rel items \<subseteq> (\<lambda>x. (itm_id x, the (itm_parent x))) ` set items" by (force simp: child_rel_def)
qed simp

lemma nested_acyclic:
  assumes "well_nested items" shows "acyclic (child_rel items)"
proof -
  from assms obtain depth :: "string \<Rightarrow> nat" where
    d: "\<And>x p. x \<in> set items \<Longrightarrow> itm_parent x = Some p \<Longrightarrow> depth p < depth (itm_id x)"
    unfolding well_nested_def by blast
  have "depth q < depth c" if "(c, q) \<in> (child_rel items)\<^sup>+" for c q
    using that by (induction rule: trancl_induct) (auto simp: child_rel_def dest!: d)
  then show ?thesis by (meson acyclicI less_irrefl)
qed

lemma nested_wf: "well_nested items \<Longrightarrow> wf (child_rel items)"
  using finite_acyclic_wf[OF finite_child_rel] nested_acyclic by blast

lemma nested_subset: "well_nested items \<Longrightarrow> set xs \<subseteq> set items \<Longrightarrow> well_nested xs"
  unfolding well_nested_def by (meson subsetD)

subsection \<open>Changes of the items\<close>

text \<open>A new item under a parent that is there, or as the root of a workspace without one.\<close>

definition may_insert :: "workspace_item list \<Rightarrow> workspace_item \<Rightarrow> bool" where
  "may_insert items r \<longleftrightarrow> itm_id r \<notin> itm_id ` set items \<and> (case itm_parent r of
       None \<Rightarrow> \<forall>x\<in>set items. itm_ws x = itm_ws r \<longrightarrow> itm_parent x \<noteq> None
     | Some p \<Rightarrow> \<exists>y\<in>set items. itm_id y = p \<and> itm_ws y = itm_ws r \<and> itm_type y \<noteq> ''table'')"

lemma insert_tree:
  assumes t: "tree_ok t" and m: "may_insert (t_items t) r"
  shows "tree_ok (t_items_update (\<lambda>rs. rs @ [r]) t)"
proof -
  let ?it = "t_items t"
  from t have "distinct (map itm_id ?it)" and p: "parents_ok ?it" and o: "one_root ?it" and n: "well_nested ?it"
    by (auto simp: tree_ok_def)
  with m have "distinct (map itm_id (?it @ [r]))" by (auto simp: may_insert_def)
  moreover have "parents_ok (?it @ [r])"
  proof -
    have "\<exists>y\<in>set (?it @ [r]). itm_id y = q \<and> itm_ws y = itm_ws x \<and> itm_type y \<noteq> ''table''"
      if x: "x \<in> set (?it @ [r])" "itm_parent x = Some q" for x q
    proof (cases "x = r")
      case True
      with x m obtain y where "y \<in> set ?it" "itm_id y = q \<and> itm_ws y = itm_ws x \<and> itm_type y \<noteq> ''table''"
        by (auto simp: may_insert_def)
      then show ?thesis by (intro bexI[of _ y]) simp_all
    next
      case False
      with x p obtain y where "y \<in> set ?it" "itm_id y = q \<and> itm_ws y = itm_ws x \<and> itm_type y \<noteq> ''table''"
        unfolding parents_ok_def by auto
      then show ?thesis by (intro bexI[of _ y]) simp_all
    qed
    then show ?thesis unfolding parents_ok_def by blast
  qed
  moreover have "one_root (?it @ [r])" 
  proof -
    have "x = y" if "x \<in> set (?it @ [r])" "y \<in> set (?it @ [r])" "itm_parent x = None" "itm_parent y = None" "itm_ws x = itm_ws y" for x y
    proof (cases "itm_parent r")
      case None
      with m have "\<forall>z\<in>set ?it. itm_ws z = itm_ws r \<longrightarrow> itm_parent z \<noteq> None" by (simp add: may_insert_def)
      with that have "x = r \<and> y = r \<or> x \<in> set ?it \<and> y \<in> set ?it" by fastforce
      with o that show ?thesis unfolding one_root_def by blast
    next
      case (Some p)
      with that have "x \<in> set ?it" "y \<in> set ?it" by auto
      with o that show ?thesis unfolding one_root_def by blast
    qed
    then show ?thesis unfolding one_root_def by blast
  qed
  moreover have "well_nested (?it @ [r])"
  proof -
    from n obtain depth :: "string \<Rightarrow> nat" where
      d: "\<forall>x\<in>set ?it. \<forall>p. itm_parent x = Some p \<longrightarrow> depth p < depth (itm_id x)" unfolding well_nested_def by blast
    have r: "itm_id r \<notin> itm_id ` set ?it" "itm_parent r \<noteq> Some (itm_id r)"
      using m unfolding may_insert_def by (auto simp: image_iff) metis
    have q: "itm_parent x \<noteq> Some (itm_id r)" if "x \<in> set ?it" for x
    proof
      assume "itm_parent x = Some (itm_id r)"
      with p that obtain y where "y \<in> set ?it" "itm_id y = itm_id r" unfolding parents_ok_def by blast
      with r(1) show False by (metis image_eqI)
    qed
    define D where "D = depth(itm_id r := Suc (case itm_parent r of None \<Rightarrow> 0 | Some p \<Rightarrow> depth p))"
    have "D p < D (itm_id x)" if "x \<in> set ?it" "itm_parent x = Some p" for x p
    proof -
      from that q[of x] have "p \<noteq> itm_id r" by auto
      moreover from that(1) r(1) have "itm_id x \<noteq> itm_id r" by (metis image_eqI)
      moreover note d
      ultimately show ?thesis using that by (simp add: D_def)
    qed
    moreover have "D p < D (itm_id r)" if "itm_parent r = Some p" for p using that r(2) by (auto simp: D_def)
    ultimately have "\<forall>x\<in>set (?it @ [r]). \<forall>p. itm_parent x = Some p \<longrightarrow> D p < D (itm_id x)" by auto
    then show ?thesis unfolding well_nested_def by blast
  qed
  ultimately show ?thesis by (simp add: tree_ok_def)
qed

text \<open>Removing a set of ids that is closed under children.\<close>

lemma filter_tree:
  assumes t: "tree_ok t" and cl: "\<And>x p. x \<in> set (t_items t) \<Longrightarrow> itm_parent x = Some p \<Longrightarrow> P x \<Longrightarrow>
      \<exists>y\<in>set (t_items t). itm_id y = p \<and> itm_ws y = itm_ws x \<and> itm_type y \<noteq> ''table'' \<and> P y"
  shows "tree_ok (t_items_update (filter P) t)"
proof -
  from t have "parents_ok (filter P (t_items t))" using cl unfolding parents_ok_def by fastforce
  moreover have "one_root (filter P (t_items t))" "well_nested (filter P (t_items t))"
    using t nested_subset[of "t_items t" "filter P (t_items t)"] by (auto simp: tree_ok_def one_root_def)
  moreover have "distinct (map itm_id (filter P (t_items t)))" using t by (intro distinct_map_filterI) (simp add: tree_ok_def)
  ultimately show ?thesis by (simp add: tree_ok_def)
qed

text \<open>Changing names and views leaves the tree alone.\<close>

lemma map_tree:
  assumes t: "tree_ok t" and g: "\<And>x. itm_id (g x) = itm_id x" "\<And>x. itm_ws (g x) = itm_ws x"
    "\<And>x. itm_type (g x) = itm_type x" "\<And>x. itm_parent (g x) = itm_parent x"
  shows "tree_ok (t_items_update (map g) t)"
proof -
  have "itm_id \<circ> g = itm_id" using g(1) by auto
  then have "distinct (map itm_id (map g (t_items t)))" using t by (simp add: tree_ok_def)
  moreover have "parents_ok (map g (t_items t))" using t unfolding tree_ok_def parents_ok_def by (simp add: g)
  moreover have "one_root (map g (t_items t))" using t unfolding tree_ok_def one_root_def by (auto simp: g)
  moreover have "well_nested (map g (t_items t))" using t unfolding tree_ok_def well_nested_def by (simp add: g)
  ultimately show ?thesis unfolding tree_ok_def by simp
qed

subsection \<open>Operations that do not touch the items\<close>

definition keeps_at :: "(tables \<Rightarrow> bool) \<Rightarrow> 'a op \<Rightarrow> session \<Rightarrow> bool" where
  "keeps_at I m s \<longleftrightarrow> (I (work s) \<longrightarrow> I (committed s) \<longrightarrow> I (work (snd (m s))) \<and> I (committed (snd (m s))))"

lemma keeps_at_keeps: "keeps I m \<longleftrightarrow> (\<forall>s. keeps_at I m s)"
  by (simp add: keeps_def keeps_at_def)

lemma keeps_at_bind:
  assumes "keeps_at I m s" "\<And>x s'. m s = (Inr x, s') \<Longrightarrow> I (work s') \<Longrightarrow> keeps_at I (f x) s'"
  shows "keeps_at I (bind_op m f) s"
proof (cases "m s")
  case (Pair r s')
  then show ?thesis
    using assms by (cases r) (auto simp: keeps_at_def op_eval)
qed

lemma keeps_at_seq:
  assumes "keeps_at I m s" "\<And>x s'. m s = (Inr x, s') \<Longrightarrow> I (work s') \<Longrightarrow> keeps_at I n s'"
  shows "keeps_at I (then_op m n) s"
  unfolding then_op_def by (rule keeps_at_bind) (use assms in auto)

lemma keeps_at_then: "keeps_at I m s \<Longrightarrow> keeps I n \<Longrightarrow> keeps_at I (then_op m n) s"
  unfolding keeps_at_def then_op_def bind_op_def keeps_def
  by (cases "m s") (auto split: sum.splits)

lemma keeps_at_mono: "keeps I m \<Longrightarrow> keeps_at I m s"
  by (simp add: keeps_at_keeps)

lemma keeps_at_catch: "keeps_at I m s \<Longrightarrow> (\<And>e. keeps I (h e)) \<Longrightarrow> keeps_at I (catch m h) s"
  unfolding keeps_at_def catch_def keeps_def
  by (cases "m s") (auto split: sum.splits)

definition items_kept :: "(('r list \<Rightarrow> 'r list) \<Rightarrow> tables \<Rightarrow> tables) \<Rightarrow> bool" where
  "items_kept upd \<longleftrightarrow> (\<forall>f t. t_items (upd f t) = t_items t)"

lemma items_kept_upd:
  "items_kept t_fields_update" "items_kept t_records_update" "items_kept t_views_update" "items_kept t_filters_update"
  "items_kept t_sorts_update" "items_kept t_groups_update" "items_kept t_policies_update" "items_kept t_members_update"
  "items_kept t_sets_update" "items_kept t_changes_update" "items_kept t_recycle_update" "items_kept t_workspaces_update"
  "items_kept t_dashboards_update" "items_kept t_widgets_update"
  by (simp_all add: items_kept_def)

lemma tree_ok_items: "t_items t = t_items t' \<Longrightarrow> tree_ok t = tree_ok t'"
  by (simp add: tree_ok_def)

lemma keeps_tree_rows:
  assumes "items_kept upd"
  shows "keeps tree_ok (insert_row get upd key r)" "keeps tree_ok (update_rows upd P f)" "keeps tree_ok (delete_rows upd P)"
proof -
  have "tree_ok (upd f t) = tree_ok t" for f t by (rule tree_ok_items) (use assms in \<open>simp add: items_kept_def\<close>)
  then show "keeps tree_ok (insert_row get upd key r)" "keeps tree_ok (update_rows upd P f)" "keeps tree_ok (delete_rows upd P)"
    by (simp_all add: keeps_def op_eval insert_row_def)
qed

lemmas tree_rows = items_kept_upd[THEN keeps_tree_rows(1)] items_kept_upd[THEN keeps_tree_rows(2)] items_kept_upd[THEN keeps_tree_rows(3)]

lemma millis_keeps [keeps_intro]: "keeps I millis" "keeps I (gen_id p)"
  unfolding millis_def gen_id_def by (intro keeps_intro)+

lemma insert_all_keeps: "(\<And>r. keeps I (insert_row get upd key r)) \<Longrightarrow> keeps I (insert_all get upd key rs)"
  unfolding insert_all_def by (intro keeps_intro)

lemma keeps_if: "keeps I m \<Longrightarrow> keeps I n \<Longrightarrow> keeps I (if b then m else n)"
  by simp

lemma keeps_case_option: "keeps I k \<Longrightarrow> (\<And>y. keeps I (g y)) \<Longrightarrow> keeps I (case v of None \<Rightarrow> k | Some y \<Rightarrow> g y)"
  by (simp split: option.splits)

lemmas tree_steps = keeps_if keeps_case_option tree_rows insert_all_keeps[OF tree_rows(1)] keeps_intro

lemma tree_init_content: "keeps tree_ok (init_content T st)"
  unfolding init_content_def init_record_def init_filter_def init_sort_def new_record_id_def
  by (intro keeps_bind keeps_then keeps_map_op keeps_basic keeps_if)
     (auto intro!: keeps_bind keeps_then keeps_basic keeps_if tree_rows millis_keeps split: prod.splits pyval.splits)

lemma tree_init [keeps_intro]: "keeps tree_ok (init_table_db T st)"
  unfolding init_table_db_def Let_def init_field_def init_view_def
  by (auto intro!: keeps_bind keeps_then keeps_basic keeps_map_op tree_rows tree_init_content split: prod.splits)

lemma tree_delete_data [keeps_intro]: "keeps tree_ok (delete_table_data_db T)"
  unfolding delete_table_data_db_def
  by (auto intro!: keeps_bind keeps_then keeps_basic tree_rows)

lemma tree_copy_data [keeps_intro]: "keeps tree_ok (copy_table_db S T)"
  unfolding copy_table_db_def insert_all_def
  by (auto intro!: keeps_bind keeps_then keeps_map_op keeps_basic tree_rows split: option.splits)

lemma tree_dashboards [keeps_intro]:
  "keeps tree_ok (ensure_dashboard_db i ws)" "keeps tree_ok (delete_dashboard_db i)" "keeps tree_ok (copy_dashboard_db i j ws)"
  unfolding ensure_dashboard_db_def delete_dashboard_db_def copy_dashboard_db_def Let_def get_dashboard_db_def copy_widget_def insert_widget_def
  by (auto intro!: keeps_bind keeps_then keeps_map_op keeps_basic tree_rows millis_keeps split: option.splits)

subsection \<open>Every operation keeps the shape\<close>

lemma insert_item_at:
  "(itm_id r \<notin> itm_id ` set (t_items (work s)) \<Longrightarrow> may_insert (t_items (work s)) r) \<Longrightarrow> keeps_at tree_ok (insert_item r) s"
  using insert_tree unfolding keeps_at_def insert_item_def insert_row_def by auto

lemma gen_id_work: "gen_id p s = (Inr i, s') \<Longrightarrow> work s' = work s"
  by (auto simp: gen_id_def millis_def op_eval)

lemma place_under_run: "place_under what ws p s = (Inr ord, s') \<longleftrightarrow> s' = s \<and> is_container (find_item (work s) ws p) \<and> ord = next_order (work s) ws p"
  by (auto simp: place_under_def op_eval)

lemma place_under_keeps: "keeps I (place_under what ws p)"
  unfolding place_under_def by (auto intro!: keeps_bind keeps_then keeps_basic)

lemma set_item_keeps:
  assumes "\<And>x. itm_id (f x) = itm_id x \<and> itm_ws (f x) = itm_ws x \<and> itm_type (f x) = itm_type x \<and> itm_parent (f x) = itm_parent x"
  shows "keeps tree_ok (set_item i f)"
  unfolding set_item_def update_rows_def by (rule keeps_writes, rule map_tree) (use assms in auto)

lemma keeps_at_gen: "(\<And>i s'. work s' = work s \<Longrightarrow> keeps_at I (f i) s') \<Longrightarrow> keeps_at I (bind_op (gen_id p) f) s"
  by (rule keeps_at_bind) (auto intro: keeps_at_mono millis_keeps dest: gen_id_work)

lemma create_root_at:
  assumes "\<forall>x\<in>set (t_items (work s)). itm_ws x = ws \<longrightarrow> itm_parent x \<noteq> None"
  shows "keeps_at tree_ok (create_root ws name tpl) s"
proof -
  have "keeps_at tree_ok (then_op (catch (then_op (insert_item (item_row i ws ''folder'' nm None 0 None))
      (then_op (insert_item (item_row j ws ''table'' ''Projects'' (Some i) 0 (Some ''v1''))) (bind_op (init_table_db j tpl) (\<lambda>_. ret ()))))
         (\<lambda>e. then_op rollback (throw e))) (ret r)) s2"
    if w: "work s2 = work s" for i j nm r s2
  proof (rule keeps_at_then[OF keeps_at_catch keeps_basic(1)])
    have "keeps tree_ok (bind_op (init_table_db j tpl) (\<lambda>_. ret ()))" by (intro keeps_bind tree_init keeps_basic)
    then show "keeps_at tree_ok (then_op (insert_item (item_row i ws ''folder'' nm None 0 None))
      (then_op (insert_item (item_row j ws ''table'' ''Projects'' (Some i) 0 (Some ''v1''))) (bind_op (init_table_db j tpl) (\<lambda>_. ret ())))) s2"
      by (intro keeps_at_seq[OF insert_item_at] keeps_at_then[OF insert_item_at])
         (use assms in \<open>auto simp: may_insert_def item_row_def w insert_item_def insert_row_Inr\<close>)
  qed (intro keeps_intro)
  then show ?thesis unfolding create_root_def Let_def by (intro keeps_at_gen) simp
qed

lemma ensure_keeps [keeps_intro]: "keeps tree_ok (ensure_workspace_db w n tpl)"
  unfolding keeps_at_keeps
proof
  fix s
  let ?ws = "normalize_workspace_id w"
  have r: "keeps_at tree_ok (then_op commit (ret r)) s1" "keeps_at tree_ok (then_op (ret ()) (ret r)) s1" for r :: workspace_item and s1
    by (rule keeps_at_mono, intro keeps_intro)+
  have c: "keeps_at tree_ok (create_root ?ws n tpl) s1" if "root_of (work s1) ?ws = None" for s1
    by (rule create_root_at) (use that in \<open>auto simp: root_of_def select_first_def find_None_iff\<close>)
  show "keeps_at tree_ok (ensure_workspace_db w n tpl) s"
    unfolding ensure_workspace_db_def Let_def
  proof (intro keeps_at_bind keeps_at_seq)
    fix root s3 s2 found
    assume "reads (\<lambda>t. root_of t ?ws) s2 = (Inr root, s3)"
    then show "keeps_at tree_ok (case root of None \<Rightarrow> create_root ?ws n tpl
        | Some r \<Rightarrow> then_op (if found = None then commit else ret ()) (ret r)) s3" for found :: "workspace option"
      using r c by (auto simp: basic_eval split: option.splits)
  qed (auto intro!: keeps_at_mono keeps_if tree_rows keeps_basic)
qed

lemma ensure_default_keeps [keeps_intro]: "keeps tree_ok (ensure_user_default_workspace u n tpl)"
  unfolding ensure_user_default_workspace_def Let_def
  by (auto intro!: keeps_bind keeps_then keeps_basic ensure_keeps keeps_if tree_rows split: option.splits)

lemma in_workspace_keeps: "(\<And>s. keeps_at tree_ok (f (normalize_workspace_id w)) s) \<Longrightarrow> keeps tree_ok (in_workspace w tpl f)"
  unfolding in_workspace_def Let_def by (intro keeps_bind ensure_keeps) (simp add: keeps_at_keeps)

lemma container_may_insert:
  assumes "is_container (find_item t ws p)" "itm_id r \<notin> itm_id ` set (t_items t)" "itm_parent r = Some p" "itm_ws r = ws"
  shows "may_insert (t_items t) r"
  using assms by (auto simp: may_insert_def is_container_def find_item_def select_first_def find_Some_iff split: option.splits)

lemma child_at:
  assumes "is_container (find_item t ws p)" "work s = t"
  shows "keeps_at tree_ok (insert_item (item_row i ws ty nm (Some p) ord v)) s"
  by (rule insert_item_at) (use container_may_insert[OF assms(1), of "item_row i ws ty nm (Some p) ord v"] assms(2) in \<open>simp add: item_row_def\<close>)

lemma keeps_at_basic: "keeps_at I (ret x) s" "keeps_at I (throw e) s" "keeps_at I (reads q) s" "keeps_at I (of_res r) s"
  by (intro keeps_at_mono keeps_basic)+

lemma keeps_at_place:
  assumes "\<And>ord. is_container (find_item (work s) ws p) \<Longrightarrow> keeps_at tree_ok (f ord) s"
  shows "keeps_at tree_ok (bind_op (place_under what ws p) f) s"
  by (rule keeps_at_bind) (use assms in \<open>auto simp: place_under_run intro: keeps_at_mono place_under_keeps\<close>)

lemma keeps_at_reads: "keeps_at I (f (q (work s))) s \<Longrightarrow> keeps_at I (bind_op (reads q) f) s"
  by (simp add: keeps_at_def op_eval)

lemma create_folder_keeps: "keeps tree_ok (create_folder_db name p w tpl)"
  unfolding create_folder_db_def
  by (intro in_workspace_keeps keeps_at_place keeps_at_gen keeps_at_then[OF child_at]) (auto intro!: keeps_intro)

lemma create_dashboard_keeps: "keeps tree_ok (create_dashboard_db name p w tpl)"
  unfolding create_dashboard_db_def
  by (intro in_workspace_keeps keeps_at_place keeps_at_gen keeps_at_then[OF child_at]) (auto intro!: keeps_intro)

lemma create_table_keeps: "keeps tree_ok (create_table_item_db name p v w chosen tpl)"
proof -
  have "keeps_at tree_ok (then_op (catch (then_op (insert_item (item_row i ws ''table'' name (Some p) ord (Some view)))
      (bind_op (init_table_db i st) (\<lambda>_. ret ()))) (\<lambda>e. then_op rollback (throw e))) (ret r)) s"
    if "is_container (find_item t ws p)" "work s = t" for i ws ord view st s t and r :: tree_node
    by (intro keeps_at_then[OF keeps_at_catch] keeps_at_then[OF child_at[OF that]] keeps_intro)
  then show ?thesis
    unfolding create_table_item_db_def
    by (intro in_workspace_keeps keeps_at_place keeps_at_gen keeps_at_reads keeps_at_bind)
       (auto simp: basic_eval keeps_at_basic)
qed

lemma rename_keeps: "keeps tree_ok (rename_item_db i n w tpl)"
  unfolding rename_item_db_def
  by (intro in_workspace_keeps keeps_at_reads keeps_at_mono keeps_if keeps_then set_item_keeps keeps_basic) auto

lemma copy_table_item_keeps: "keeps tree_ok (copy_table_item_db i p n w tpl)"
proof -
  have "keeps_at tree_ok (then_op (insert_item (item_row j ws ''table'' nm (Some p) ord v)) (then_op commit (then_op (copy_table_db i j) (ret r)))) s"
    if "find_item t ws p = Some x" "itm_type x \<noteq> ''table''" "work s = t" for j ws nm ord v s t x and r :: "tree_node option"
  proof (rule keeps_at_then[OF insert_item_at])
    show "may_insert (t_items (work s)) (item_row j ws ''table'' nm (Some p) ord v)"
      if "itm_id (item_row j ws ''table'' nm (Some p) ord v) \<notin> itm_id ` set (t_items (work s))"
      using that \<open>find_item t ws p = Some x\<close> \<open>itm_type x \<noteq> ''table''\<close> \<open>work s = t\<close>
      by (auto simp: may_insert_def item_row_def find_item_def select_first_def find_Some_iff)
  qed (intro keeps_intro)
  then show ?thesis
    unfolding copy_table_item_db_def Let_def
    by (intro in_workspace_keeps keeps_at_reads) (auto intro!: keeps_at_gen keeps_at_basic split: option.splits)
qed

lemma copy_dashboard_item_keeps: "keeps tree_ok (copy_dashboard_item_db i p n w tpl)"
  unfolding copy_dashboard_item_db_def Let_def
  by (intro in_workspace_keeps keeps_at_reads)
     (auto intro!: keeps_at_gen keeps_at_basic keeps_at_then[OF child_at] keeps_intro split: option.splits)

subsection \<open>The stack that collects a subtree\<close>

lemma child_ids_iff: "c \<in> set (child_ids items p) \<longleftrightarrow> (c, p) \<in> child_rel items"
  by (auto simp: child_ids_def child_rel_def)

lemma below_children: "below items r i \<longleftrightarrow> i = r \<or> (\<exists>c\<in>set (child_ids items r). below items c i)"
  unfolding below_rtrancl Bex_def child_ids_iff by (auto elim: rtranclE intro: rtrancl_into_rtrancl)

lemma collect_prefix:
  assumes "\<And>c. c \<in> set cs \<Longrightarrow> \<exists>sub. set sub = {i. below items c i} \<and>
      (\<forall>rest acc. collect_subtree items (c # rest) acc = collect_subtree items rest (acc @ sub))"
  shows "\<exists>sub. set sub = {i. \<exists>c\<in>set cs. below items c i} \<and>
      (\<forall>rest acc. collect_subtree items (cs @ rest) acc = collect_subtree items rest (acc @ sub))"
  using assms
proof (induction cs)
  case (Cons c cs)
  then obtain sub where s: "set sub = {i. \<exists>c\<in>set cs. below items c i}"
      "\<And>rest acc. collect_subtree items (cs @ rest) acc = collect_subtree items rest (acc @ sub)" by auto
  from Cons.prems[of c] obtain sub0 where s0: "set sub0 = {i. below items c i}"
      "\<And>rest acc. collect_subtree items (c # rest) acc = collect_subtree items rest (acc @ sub0)" by auto
  show ?case by (rule exI[of _ "sub0 @ sub"]) (use s s0 in auto)
qed auto

lemma collect_one:
  assumes "well_nested items"
  shows "\<exists>sub. set sub = {i. below items r i} \<and>
      (\<forall>rest acc. collect_subtree items (r # rest) acc = collect_subtree items rest (acc @ sub))"
  using nested_wf[OF assms]
proof (induction r rule: wf_induct_rule)
  case (less r)
  have "\<exists>sub. set sub = {i. \<exists>c\<in>set (rev (child_ids items r)). below items c i} \<and>
      (\<forall>rest acc. collect_subtree items (rev (child_ids items r) @ rest) acc = collect_subtree items rest (acc @ sub))"
    by (rule collect_prefix, rule less.IH) (simp add: child_ids_iff)
  then obtain sub where s: "set sub = {i. \<exists>c\<in>set (child_ids items r). below items c i}"
      "\<And>rest acc. collect_subtree items (rev (child_ids items r) @ rest) acc = collect_subtree items rest (acc @ sub)" by auto
  have "collect_subtree items (r # rest) acc = collect_subtree items rest (acc @ r # sub)" for rest acc
    by (subst collect_subtree.simps) (simp add: s(2))
  moreover have "set (r # sub) = {i. below items r i}"
    using s(1) by (auto simp: below_children[of items r])
  ultimately show ?case by (intro exI[of _ "r # sub"]) simp
qed

lemma collect_returns:
  assumes "well_nested items"
  obtains ids where "collect_subtree items [r] [] = Some ids" "set ids = {i. below items r i}"
proof -
  from collect_one[OF assms, of r] obtain sub where "set sub = {i. below items r i}"
      "collect_subtree items [r] [] = collect_subtree items [] ([] @ sub)" by blast
  then show ?thesis by (intro that[of sub]) (simp_all add: collect_subtree.simps)
qed

text \<open>On a cycle the stack never empties.\<close>

lemma collect_diverges:
  assumes "(c, c) \<in> (child_rel items)\<^sup>+" "c \<in> set stack"
  shows "collect_subtree items stack acc = None"
proof (rule ccontr)
  assume "collect_subtree items stack acc \<noteq> None"
  then obtain y where y: "collect_subtree items stack acc = Some y" by auto
  have "\<not> (\<exists>c\<in>set stack. (c, c) \<in> (child_rel items)\<^sup>+)"
  proof (rule collect_subtree.raw_induct[where P = "\<lambda>items stack acc y. \<not> (\<exists>c\<in>set stack. (c, c) \<in> (child_rel items)\<^sup>+)", OF _ y], goal_cases)
    case (1 f items stack acc y)
    show ?case
    proof
      assume "\<exists>c\<in>set stack. (c, c) \<in> (child_rel items)\<^sup>+"
      then obtain c cur rest where c: "stack = cur # rest" "c = cur \<or> c \<in> set rest" "(c, c) \<in> (child_rel items)\<^sup>+"
        by (cases stack) auto
      from 1(2) c(1) have "f items (rev (child_ids items cur) @ rest) (acc @ [cur]) = Some y" by simp
      from 1(1)[OF this] have n: "\<not> (\<exists>z\<in>set (child_ids items cur) \<union> set rest. (z, z) \<in> (child_rel items)\<^sup>+)" by simp
      with c have cur: "(cur, cur) \<in> (child_rel items)\<^sup>+" by auto
      then obtain z where z: "(cur, z) \<in> (child_rel items)\<^sup>*" "(z, cur) \<in> child_rel items" by (meson tranclD2)
      then have "(z, z) \<in> (child_rel items)\<^sup>+" by (meson rtrancl_into_trancl2)
      with n z(2) show False by (auto simp: child_ids_iff)
    qed
  qed
  with assms show False by blast
qed

lemma set_of_collect:
  assumes "collect_subtree items stack acc = Some ids" "\<forall>i\<in>set acc. \<forall>c. (c, i) \<in> child_rel items \<longrightarrow> c \<in> set acc \<union> set stack"
  shows "\<forall>i\<in>set ids. \<forall>c. (c, i) \<in> child_rel items \<longrightarrow> c \<in> set ids"
proof -
  have "(\<forall>i\<in>set acc. \<forall>c. (c, i) \<in> child_rel items \<longrightarrow> c \<in> set acc \<union> set stack) \<longrightarrow>
      (\<forall>i\<in>set ids. \<forall>c. (c, i) \<in> child_rel items \<longrightarrow> c \<in> set ids)"
  proof (rule collect_subtree.raw_induct[where P = "\<lambda>items stack acc ids.
      (\<forall>i\<in>set acc. \<forall>c. (c, i) \<in> child_rel items \<longrightarrow> c \<in> set acc \<union> set stack) \<longrightarrow>
      (\<forall>i\<in>set ids. \<forall>c. (c, i) \<in> child_rel items \<longrightarrow> c \<in> set ids)", OF _ assms(1)], goal_cases)
    case (1 f items stack acc ids)
    show ?case
    proof (cases stack)
      case Nil
      with 1(2) show ?thesis by auto
    next
      case (Cons cur rest)
      with 1(2) have "f items (rev (child_ids items cur) @ rest) (acc @ [cur]) = Some ids" by simp
      from 1(1)[OF this] show ?thesis by (auto simp: child_ids_iff Cons)
    qed
  qed
  with assms(2) show ?thesis by blast
qed

subsection \<open>Deleting items\<close>

text \<open>What the loop does to the tables, item by item.\<close>

definition without_dashboard :: "string \<Rightarrow> tables \<Rightarrow> tables" where
  "without_dashboard i t = t_dashboards_update (filter (\<lambda>d. dsh_id d \<noteq> i)) (t_widgets_update (filter (\<lambda>w. wdg_dashboard w \<noteq> i)) t)"

definition wipe_item :: "workspace_item list \<Rightarrow> string \<Rightarrow> tables \<Rightarrow> tables" where
  "wipe_item items i t = (case find (\<lambda>x. itm_id x = i) items of
       None \<Rightarrow> t
     | Some item \<Rightarrow> if itm_type item = ''table'' then deleted_tables i t
         else if itm_type item = ''dashboard'' then without_dashboard i t else t)"

lemma delete_item_data_run:
  "\<exists>c. delete_item_data items i s = (Inr (), s\<lparr>work := wipe_item items i (work s), committed := c\<rparr>)"
  by (cases "find (\<lambda>x. itm_id x = i) items")
     (auto simp: delete_item_data_def wipe_item_def op_eval delete_table_data_run delete_dashboard_db_def without_dashboard_def
        intro: exI[of _ "committed s"] exI[of _ "without_dashboard i (work s)"])

lemma delete_loop_run:
  "\<exists>ys c. map_op (delete_item_data items) ids s = (Inr ys, s\<lparr>work := fold (wipe_item items) ids (work s), committed := c\<rparr>)"
proof (induction ids arbitrary: s)
  case (Cons i ids)
  obtain c where c: "delete_item_data items i s = (Inr (), s\<lparr>work := wipe_item items i (work s), committed := c\<rparr>)"
    using delete_item_data_run by blast
  from Cons[of "s\<lparr>work := wipe_item items i (work s), committed := c\<rparr>"] show ?case
    by (auto simp: op_eval c)
next
  case Nil
  show ?case by (rule exI[of _ "[]"], rule exI[of _ "committed s"]) (simp add: op_eval)
qed

definition without_items :: "workspace_item list \<Rightarrow> string list \<Rightarrow> tables \<Rightarrow> tables" where
  "without_items items ids t = t_items_update (filter (\<lambda>x. itm_id x \<notin> set ids)) (fold (wipe_item items) ids t)"

lemma delete_items_run:
  "delete_items items ids s = (Inr True, s\<lparr>work := without_items items ids (work s), committed := without_items items ids (work s)\<rparr>)"
proof -
  obtain ys c where "map_op (delete_item_data items) ids s = (Inr ys, s\<lparr>work := fold (wipe_item items) ids (work s), committed := c\<rparr>)"
    using delete_loop_run by blast
  then show ?thesis by (simp add: delete_items_def op_eval without_items_def)
qed

lemma wipe_items [simp]: "t_items (fold (wipe_item items) ids t) = t_items t"
proof (induction ids arbitrary: t)
  case (Cons i ids)
  have "t_items (wipe_item items i t) = t_items t"
    by (auto simp: wipe_item_def deleted_tables_def without_dashboard_def split: option.splits)
  with Cons show ?case by simp
qed simp

lemma without_items_tree:
  assumes t: "tree_ok t"
    and cl: "\<And>x p. x \<in> set (t_items t) \<Longrightarrow> itm_parent x = Some p \<Longrightarrow> p \<in> set ids \<Longrightarrow> itm_id x \<in> set ids"
  shows "tree_ok (without_items items ids t)"
proof -
  have "tree_ok (t_items_update (filter (\<lambda>x. itm_id x \<notin> set ids)) t)"
  proof (rule filter_tree[OF t])
    fix x p assume x: "x \<in> set (t_items t)" "itm_parent x = Some p" "itm_id x \<notin> set ids"
    then have "p \<notin> set ids" using cl by blast
    moreover obtain y where "y \<in> set (t_items t)" "itm_id y = p \<and> itm_ws y = itm_ws x \<and> itm_type y \<noteq> ''table''"
      using t x unfolding tree_ok_def parents_ok_def by blast
    ultimately show "\<exists>y\<in>set (t_items t). itm_id y = p \<and> itm_ws y = itm_ws x \<and> itm_type y \<noteq> ''table'' \<and> itm_id y \<notin> set ids" by auto
  qed
  moreover have "t_items (without_items items ids t) = t_items (t_items_update (filter (\<lambda>x. itm_id x \<notin> set ids)) t)"
    by (simp add: without_items_def)
  ultimately show ?thesis using tree_ok_items by metis
qed

text \<open>The items below one item of a workspace are closed under children, in the workspace and outside.\<close>

lemma subtree_closed:
  assumes t: "tree_ok t" and items: "items = filter (\<lambda>x. itm_ws x = ws) (t_items t)" and i: "i \<in> itm_id ` set items"
    and x: "x \<in> set (t_items t)" "itm_parent x = Some p" "below items i p"
  shows "below items i (itm_id x)"
proof -
  have "p \<in> itm_id ` set items" using x(3) i by (cases rule: below.cases) auto
  then obtain z where z: "z \<in> set (t_items t)" "itm_id z = p" "itm_ws z = ws" by (auto simp: items)
  obtain y where y: "y \<in> set (t_items t)" "itm_id y = p" "itm_ws y = itm_ws x"
    using t x unfolding tree_ok_def parents_ok_def by blast
  have "z = y" using t z y by (intro inj_onD[of itm_id "set (t_items t)"]) (auto simp: tree_ok_def distinct_map)
  with x z y items show ?thesis by (intro below.child[of items i p x]) auto
qed

lemma tree_nested: "tree_ok t \<Longrightarrow> well_nested (filter P (t_items t))"
  by (auto simp: tree_ok_def intro: nested_subset)

text \<open>The two ways \<open>delete_item_db\<close> goes on after the workspace is there.\<close>

lemma delete_item_run:
  assumes t: "tree_ok (work s)" "tree_ok (committed s)"
    and e: "ensure_workspace_db (Some (normalize_workspace_id w)) None tpl s = (Inr r, s1)"
    and items: "items = filter (\<lambda>x. itm_ws x = normalize_workspace_id w) (t_items (work s1))"
  obtains "i \<notin> itm_id ` set items" "delete_item_db i w tpl s = Some (Inr False, s1)"
  | ids where "i \<in> itm_id ` set items" "set ids = {j. below items i j}"
      "delete_item_db i w tpl s = Some (Inr True, s1\<lparr>work := without_items items ids (work s1), committed := without_items items ids (work s1)\<rparr>)"
proof (cases "i \<in> itm_id ` set items")
  case False
  then show ?thesis using that(1) e by (simp add: delete_item_db_def Let_def select_def items)
next
  case True
  have "tree_ok (work s1)" using keepsD[OF ensure_keeps e] t by blast
  then have "well_nested items" unfolding items by (rule tree_nested)
  then obtain ids where "collect_subtree items [i] [] = Some ids" "set ids = {j. below items i j}" by (rule collect_returns)
  with True that(2)[of ids] e show ?thesis by (simp add: delete_item_db_def Let_def select_def items delete_items_run)
qed

lemma delete_item_keeps:
  assumes d: "delete_item_db i w tpl s = Some (r, s')" and t: "tree_ok (work s)" "tree_ok (committed s)"
  shows "tree_ok (work s') \<and> tree_ok (committed s')"
proof (cases "ensure_workspace_db (Some (normalize_workspace_id w)) None tpl s")
  case (Pair r0 s1)
  note s1 = keepsD[OF ensure_keeps Pair t]
  show ?thesis
  proof (cases r0)
    case (Inl e)
    with Pair d have "s' = s1" by (simp add: delete_item_db_def Let_def)
    with s1 show ?thesis by simp
  next
    case (Inr x)
    with Pair have e: "ensure_workspace_db (Some (normalize_workspace_id w)) None tpl s = (Inr x, s1)" by simp
    define items where "items = filter (\<lambda>x. itm_ws x = normalize_workspace_id w) (t_items (work s1))"
    from t e items_def show ?thesis
    proof (cases rule: delete_item_run[where i = i])
      case (2 ids)
      with d have s': "work s' = without_items items ids (work s1)" "committed s' = without_items items ids (work s1)" by auto
      have "tree_ok (without_items items ids (work s1))"
        by (rule without_items_tree) (use s1 2 subtree_closed[OF _ items_def] in auto)
      with s' show ?thesis by simp
    qed (use d s1 in auto)
  qed
qed

lemma find_item_Some: "find_item t ws i = Some x \<Longrightarrow> x \<in> set (t_items t)" "find_item t ws i = Some x \<Longrightarrow> itm_id x = i"
  "find_item t ws i = Some x \<Longrightarrow> itm_ws x = ws"
  by (auto simp: find_item_def select_first_def find_Some_iff)

lemma move_below_tree:
  assumes t: "tree_ok t" and i: "find_item t ws i = Some x" and p: "is_container (find_item t ws p)"
    and nb: "\<not> below (t_items t) i p"
  shows "tree_ok (t_items_update (map (\<lambda>x. if itm_id x = i then x\<lparr>itm_parent := Some p, itm_order := ord\<rparr> else x)) t)"
proof -
  let ?it = "t_items t"
  define g :: "workspace_item \<Rightarrow> workspace_item" where "g = (\<lambda>x. if itm_id x = i then x\<lparr>itm_parent := Some p, itm_order := ord\<rparr> else x)"
  have g: "itm_id (g y) = itm_id y" "itm_ws (g y) = itm_ws y" "itm_type (g y) = itm_type y"
    "itm_parent (g y) = (if itm_id y = i then Some p else itm_parent y)" for y by (auto simp: g_def)
  note x = find_item_Some[OF i]
  from p obtain y where y: "find_item t ws p = Some y" "itm_type y \<noteq> ''table''" by (auto simp: is_container_def split: option.splits)
  note y = find_item_Some[OF y(1)] y(2)
  have u: "z = z'" if "z \<in> set ?it" "z' \<in> set ?it" "itm_id z = itm_id z'" for z z'
    using t that by (intro inj_onD[of itm_id "set ?it"]) (auto simp: tree_ok_def distinct_map)
  have "itm_id \<circ> g = itm_id" using g(1) by auto
  then have "distinct (map itm_id (map g ?it))" using t by (simp add: tree_ok_def)
  moreover have "parents_ok (map g ?it)"
  proof -
    have "\<exists>z'\<in>set ?it. itm_id z' = q \<and> itm_ws z' = itm_ws z \<and> itm_type z' \<noteq> ''table''"
      if z: "z \<in> set ?it" "itm_parent (g z) = Some q" for z q
    proof (cases "itm_id z = i")
      case True
      with z x u[of z x] y show ?thesis by (auto simp: g)
    next
      case False
      with z t show ?thesis unfolding tree_ok_def parents_ok_def by (simp add: g)
    qed
    then show ?thesis unfolding parents_ok_def by (simp add: g)
  qed
  moreover have "one_root (map g ?it)"
  proof -
    have "z = z'" if "z \<in> set ?it" "z' \<in> set ?it" "itm_parent (g z) = None" "itm_parent (g z') = None" "itm_ws z = itm_ws z'" for z z'
    proof -
      from that have "itm_parent z = None" "itm_parent z' = None" by (auto simp: g split: if_splits)
      with that t show ?thesis unfolding tree_ok_def one_root_def by blast
    qed
    then show ?thesis unfolding one_root_def by (auto simp: g(2))
  qed
  moreover have "well_nested (map g ?it)"
  proof -
    from t obtain depth :: "string \<Rightarrow> nat" where
      d: "\<And>z q. z \<in> set ?it \<Longrightarrow> itm_parent z = Some q \<Longrightarrow> depth q < depth (itm_id z)" unfolding tree_ok_def well_nested_def by blast
    define D where "D z = depth z + (if below ?it i z then Suc (depth p) else 0)" for z
    have "D q < D (itm_id z)" if z: "z \<in> set ?it" "itm_parent (g z) = Some q" for z q
    proof (cases "itm_id z = i")
      case True
      with z nb show ?thesis by (simp add: D_def g below.itself)
    next
      case False
      with z have q: "itm_parent z = Some q" by (simp add: g)
      have "below ?it i (itm_id z) \<longleftrightarrow> below ?it i q"
      proof
        assume "below ?it i (itm_id z)"
        then show "below ?it i q"
        proof cases
          case (child r z')
          then show ?thesis using u[of z z'] z q by simp
        qed (use False in simp)
      qed (use z q below.child in blast)
      with d[OF z(1) q] show ?thesis by (simp add: D_def)
    qed
    then show ?thesis unfolding well_nested_def by (intro exI[of _ D]) (auto simp: g(1))
  qed
  ultimately show ?thesis unfolding tree_ok_def by (simp add: g_def[symmetric])
qed

definition move_is_proper :: "string \<Rightarrow> string \<Rightarrow> string option \<Rightarrow> template \<Rightarrow> session \<Rightarrow> bool" where
  "move_is_proper i p w tpl s \<longleftrightarrow>
     (\<forall>r s1. ensure_workspace_db (Some (normalize_workspace_id w)) None tpl s = (r, s1) \<longrightarrow> \<not> below (t_items (work s1)) i p)"

lemma move_keeps:
  assumes "move_is_proper i p w tpl s"
  shows "keeps_at tree_ok (move_item_db i p w tpl) s"
  unfolding move_item_db_def in_workspace_def Let_def
proof (rule keeps_at_bind[OF keeps_at_mono[OF ensure_keeps]])
  fix r s1 assume e: "ensure_workspace_db (Some (normalize_workspace_id w)) None tpl s = (Inr r, s1)" and t: "tree_ok (work s1)"
  have "keeps_at tree_ok (then_op (set_item i (\<lambda>x. x\<lparr>itm_parent := Some p, itm_order := ord\<rparr>)) (then_op commit (ret True))) s1"
    if "find_item (work s1) (normalize_workspace_id w) i = Some x" "is_container (find_item (work s1) (normalize_workspace_id w) p)" for x ord
  proof -
    have "\<not> below (t_items (work s1)) i p" using assms e unfolding move_is_proper_def by blast
    from move_below_tree[OF t that this, of ord]
    show ?thesis by (simp add: keeps_at_def set_item_def op_eval)
  qed
  then show "keeps_at tree_ok (bind_op (reads (\<lambda>t. (find_item t (normalize_workspace_id w) i, find_item t (normalize_workspace_id w) p,
        next_order t (normalize_workspace_id w) p))) (\<lambda>(item, new_parent, ord).
     if item = None \<or> \<not> is_container new_parent then ret False
     else then_op (set_item i (\<lambda>x. x\<lparr>itm_parent := Some p, itm_order := ord\<rparr>)) (then_op commit (ret True)))) s1"
    by (intro keeps_at_reads) (auto simp: keeps_at_basic)
qed

lemma create_workspace_keeps: "keeps tree_ok (create_workspace_db n tpl)"
  unfolding create_workspace_db_def by (intro keeps_bind millis_keeps ensure_keeps keeps_basic)

lemma rename_workspace_keeps: "keeps tree_ok (rename_workspace_db i n tpl)"
  unfolding rename_workspace_db_def
  by (intro keeps_bind keeps_then set_item_keeps ensure_keeps keeps_basic) auto

lemma delete_workspace_keeps: "keeps tree_ok (delete_workspace_db i tpl)"
proof -
  have "keeps tree_ok (delete_rows t_items_update (\<lambda>x. itm_ws x = i))"
    unfolding delete_rows_def
  proof (rule keeps_writes, rule filter_tree)
    fix t x p assume "tree_ok t" "x \<in> set (t_items t)" "itm_parent x = Some p" "\<not> itm_ws x = i"
    then show "\<exists>y\<in>set (t_items t). itm_id y = p \<and> itm_ws y = itm_ws x \<and> itm_type y \<noteq> ''table'' \<and> \<not> itm_ws y = i"
      unfolding tree_ok_def parents_ok_def by fastforce
  qed
  then show ?thesis unfolding delete_workspace_db_def
    by (intro keeps_bind keeps_then keeps_if keeps_map_op ensure_keeps tree_delete_data keeps_basic)
qed

section \<open>Every history of operations keeps the tree\<close>

inductive tree_step :: "template \<Rightarrow> session \<Rightarrow> session \<Rightarrow> bool" for tpl where
  open_space: "ensure_workspace_db w n tpl s = (r, s') \<Longrightarrow> tree_step tpl s s'"
| first_visit: "ensure_user_default_workspace u nm tpl s = (r1, s') \<Longrightarrow> tree_step tpl s s'"
| create_space: "create_workspace_db name tpl s = (r2, s') \<Longrightarrow> tree_step tpl s s'"
| rename_space: "rename_workspace_db i name tpl s = (r3, s') \<Longrightarrow> tree_step tpl s s'"
| delete_space: "delete_workspace_db i tpl s = (r4, s') \<Longrightarrow> tree_step tpl s s'"
| create_folder: "create_folder_db name p w tpl s = (r5, s') \<Longrightarrow> tree_step tpl s s'"
| create_table: "create_table_item_db name p v w chosen tpl s = (r6, s') \<Longrightarrow> tree_step tpl s s'"
| create_dashboard: "create_dashboard_db name p w tpl s = (r7, s') \<Longrightarrow> tree_step tpl s s'"
| rename: "rename_item_db i name w tpl s = (r8, s') \<Longrightarrow> tree_step tpl s s'"
| move: "move_is_proper i p w tpl s \<Longrightarrow> move_item_db i p w tpl s = (r9, s') \<Longrightarrow> tree_step tpl s s'"
| copy_table: "copy_table_item_db i p nm w tpl s = (r10, s') \<Longrightarrow> tree_step tpl s s'"
| copy_dashboard: "copy_dashboard_item_db i p nm w tpl s = (r11, s') \<Longrightarrow> tree_step tpl s s'"
| delete: "delete_item_db i w tpl s = Some (r12, s') \<Longrightarrow> tree_step tpl s s'"

inductive tree_run :: "template \<Rightarrow> session \<Rightarrow> session \<Rightarrow> bool" for tpl where
  start: "tree_run tpl s s"
| step: "tree_run tpl s s' \<Longrightarrow> tree_step tpl s' s'' \<Longrightarrow> tree_run tpl s s''"

definition tree_inv :: "session \<Rightarrow> bool" where
  "tree_inv s \<longleftrightarrow> tree_ok (work s) \<and> tree_ok (committed s)"

lemma keeps_inv: "keeps tree_ok m \<Longrightarrow> m s = (r, s') \<Longrightarrow> tree_inv s \<Longrightarrow> tree_inv s'"
  unfolding tree_inv_def using keepsD by blast

lemmas tree_op_keeps = ensure_keeps ensure_default_keeps create_workspace_keeps rename_workspace_keeps
  delete_workspace_keeps create_folder_keeps create_table_keeps create_dashboard_keeps rename_keeps
  copy_table_item_keeps copy_dashboard_item_keeps

lemma step_keeps: "tree_step tpl s s' \<Longrightarrow> tree_inv s \<Longrightarrow> tree_inv s'"
proof (induction rule: tree_step.induct)
  case (move i p w s r s')
  then show ?case using move_keeps[of i p w tpl s] by (simp add: keeps_at_def tree_inv_def)
next
  case (delete i w s r s')
  then show ?case using delete_item_keeps[of i w tpl s r s'] by (simp add: tree_inv_def)
qed (blast intro: tree_op_keeps[THEN keeps_inv])+

text \<open>C11: from a state whose item tree is well formed, every sequence of workspace operations (creating, renaming and deleting workspaces, creating folders, tables and dashboards, renaming, moving, copying and deleting items), errors included, leaves a well-formed tree, in the session and durably: ids are unique, every parent is an item of the same workspace and no table, a workspace has at most one root, and no item lies below itself. The only restriction is on moves: an item is not moved below itself, which the code does not check.\<close>

theorem workspace_tree_kept:
  assumes "tree_run tpl s s'" "tree_ok (work s)" "tree_ok (committed s)"
  shows "tree_ok (work s') \<and> tree_ok (committed s')"
proof -
  have "tree_inv s'" using assms
  proof (induction rule: tree_run.induct)
    case (step s' s'')
    then show ?case using step_keeps by blast
  qed (simp add: tree_inv_def)
  then show ?thesis by (simp add: tree_inv_def)
qed

end
