(* ===== verification/TreeProps.thy ===== *)
theory TreeProps
  imports WorkspaceTree
begin

text \<open>
  What deleting, moving and listing items do on a well-formed tree: a deletion returns and
  erases exactly the subtree, a listing returns and is complete for members, and the one move
  that breaks the tree, an item below itself, which makes the next deletion run for ever.
\<close>

declare split_paired_All [simp del] split_paired_Ex [simp del]

section \<open>Deleting an item\<close>

lemma load_cong:
  "t_fields t = t_fields t' \<Longrightarrow> t_records t = t_records t' \<Longrightarrow> t_views t = t_views t' \<Longrightarrow> t_filters t = t_filters t' \<Longrightarrow>
   t_sorts t = t_sorts t' \<Longrightarrow> t_groups t = t_groups t' \<Longrightarrow> get_full_store t U = get_full_store t' U"
  by (simp add: get_full_store_def ordered_fields_def ordered_records_def select_def select_first_def)

lemma mentions_wipe: "mentions (wipe_item items i t) T \<Longrightarrow> mentions t T"
  by (auto simp: wipe_item_def deleted_tables_def without_dashboard_def mentions_def split: option.splits if_splits)

lemma mentions_wipes: "mentions (fold (wipe_item items) ids t) T \<Longrightarrow> mentions t T"
  by (induction ids arbitrary: t) (auto dest: mentions_wipe)

definition typed :: "workspace_item list \<Rightarrow> string \<Rightarrow> string \<Rightarrow> bool" where
  "typed items ty i \<longleftrightarrow> (\<exists>x. find (\<lambda>x. itm_id x = i) items = Some x \<and> itm_type x = ty)"

lemma wipes_table:
  "i \<in> set ids \<Longrightarrow> typed items ''table'' i \<Longrightarrow> \<not> mentions (fold (wipe_item items) ids t) i"
proof (induction ids arbitrary: t)
  case (Cons j ids)
  show ?case
  proof (cases "i = j")
    case True
    with Cons.prems have "\<not> mentions (wipe_item items j t) i"
      by (auto simp: typed_def wipe_item_def deleted_tables_def mentions_def)
    with mentions_wipes show ?thesis by auto
  qed (use Cons in simp)
qed simp

lemma wipes_dashboards:
  "t_dashboards (fold (wipe_item items) ids t) = filter (\<lambda>d. \<not> (dsh_id d \<in> set ids \<and> typed items ''dashboard'' (dsh_id d))) (t_dashboards t)
   \<and> t_widgets (fold (wipe_item items) ids t) = filter (\<lambda>w. \<not> (wdg_dashboard w \<in> set ids \<and> typed items ''dashboard'' (wdg_dashboard w))) (t_widgets t)"
proof (induction ids arbitrary: t)
  case (Cons i ids)
  have "t_dashboards (wipe_item items i t) = filter (\<lambda>d. \<not> (dsh_id d = i \<and> typed items ''dashboard'' i)) (t_dashboards t)"
    "t_widgets (wipe_item items i t) = filter (\<lambda>w. \<not> (wdg_dashboard w = i \<and> typed items ''dashboard'' i)) (t_widgets t)"
    by (auto simp: wipe_item_def typed_def deleted_tables_def without_dashboard_def split: option.splits)
  with Cons[of "wipe_item items i t"] show ?case by (auto intro: filter_cong)
qed simp

lemma wipes_load:
  "\<not> (normalize_table_id U \<in> set ids \<and> typed items ''table'' (normalize_table_id U)) \<Longrightarrow>
   get_full_store (fold (wipe_item items) ids t) U = get_full_store t U"
proof (induction ids arbitrary: t)
  case (Cons i ids)
  have "get_full_store (wipe_item items i t) U = get_full_store t U"
    using Cons.prems by (auto simp: wipe_item_def typed_def without_dashboard_def split: option.splits intro!: load_deleted load_cong)
  with Cons.IH[of "wipe_item items i t"] Cons.prems show ?case by auto
qed simp

text \<open>C12: deleting an item of a well-formed tree always returns. When the item is in the workspace, exactly the items at or below it are gone; of each deleted table no field, record, view, filter, sort, group, row policy, recycle-bin entry, change set or change item is left; the dashboards below it and their widgets are gone, every other dashboard and widget is there, every other table loads as before, and all this is durable. Rows of other kinds that name a deleted table (permission overrides, automation rules, comments, notifications, relation fields elsewhere) are not covered and may remain. When the item is not in the workspace, the call does no more than open the workspace, which creates its rows if they are missing, as every operation on the tree does first.\<close>

theorem delete_item_removes_subtree:
  assumes t: "tree_ok (work s)" "tree_ok (committed s)"
    and e: "ensure_workspace_db (Some (normalize_workspace_id w)) None tpl s = (Inr r, s1)"
    and items: "items = filter (\<lambda>x. itm_ws x = normalize_workspace_id w) (t_items (work s1))"
  shows "\<exists>s'. delete_item_db i w tpl s = Some (Inr (i \<in> itm_id ` set items), s')
    \<and> (if i \<notin> itm_id ` set items then s' = s1
       else committed s' = work s'
         \<and> t_items (work s') = filter (\<lambda>x. \<not> below items i (itm_id x)) (t_items (work s1))
         \<and> (\<forall>x\<in>set items. below items i (itm_id x) \<longrightarrow> itm_type x = ''table'' \<longrightarrow> \<not> mentions (work s') (itm_id x))
         \<and> t_dashboards (work s') = filter (\<lambda>d. \<not> (below items i (dsh_id d) \<and> typed items ''dashboard'' (dsh_id d))) (t_dashboards (work s1))
         \<and> t_widgets (work s') = filter (\<lambda>v. \<not> (below items i (wdg_dashboard v) \<and> typed items ''dashboard'' (wdg_dashboard v))) (t_widgets (work s1))
         \<and> (\<forall>U. \<not> (below items i (normalize_table_id U) \<and> typed items ''table'' (normalize_table_id U)) \<longrightarrow>
             get_full_store (work s') U = get_full_store (work s1) U))"
  using t e items
proof (cases rule: delete_item_run[where i = i])
  case (2 ids)
  let ?W = "without_items items ids (work s1)"
  have m: "j \<in> set ids \<longleftrightarrow> below items i j" for j using 2(2) by simp
  have d: "tree_ok (work s1)" using keepsD[OF ensure_keeps e] t by blast
  have ty: "typed items (itm_type x) (itm_id x)" if "x \<in> set items" for x
  proof -
    have "distinct (map itm_id items)" using d unfolding items tree_ok_def by (intro distinct_map_filterI) simp
    from find_distinct_key[OF this that] show ?thesis by (simp add: typed_def)
  qed
  have "t_items ?W = filter (\<lambda>x. \<not> below items i (itm_id x)) (t_items (work s1))" by (simp add: without_items_def m)
  moreover have "\<forall>x\<in>set items. below items i (itm_id x) \<longrightarrow> itm_type x = ''table'' \<longrightarrow> \<not> mentions ?W (itm_id x)"
  proof (intro ballI impI)
    fix x assume x: "x \<in> set items" "below items i (itm_id x)" "itm_type x = ''table''"
    then have "\<not> mentions (fold (wipe_item items) ids (work s1)) (itm_id x)" using ty[of x] m by (intro wipes_table) auto
    then show "\<not> mentions ?W (itm_id x)" by (simp add: without_items_def mentions_def)
  qed
  moreover have "t_dashboards ?W = filter (\<lambda>d. \<not> (below items i (dsh_id d) \<and> typed items ''dashboard'' (dsh_id d))) (t_dashboards (work s1))"
    "t_widgets ?W = filter (\<lambda>v. \<not> (below items i (wdg_dashboard v) \<and> typed items ''dashboard'' (wdg_dashboard v))) (t_widgets (work s1))"
    by (simp_all add: without_items_def wipes_dashboards m)
  moreover have "get_full_store ?W U = get_full_store (work s1) U"
    if "\<not> (below items i (normalize_table_id U) \<and> typed items ''table'' (normalize_table_id U))" for U
  proof -
    have "get_full_store ?W U = get_full_store (fold (wipe_item items) ids (work s1)) U"
      by (rule load_cong) (simp_all add: without_items_def)
    with wipes_load[of U ids items] that m show ?thesis by simp
  qed
  ultimately show ?thesis using 2(1,3) by simp
qed simp

text \<open>A workspace with its row and its root is left alone by \<open>ensure_workspace_db\<close>.\<close>

definition workspace_open :: "tables \<Rightarrow> string \<Rightarrow> bool" where
  "workspace_open t ws \<longleftrightarrow> select_first t_workspaces (\<lambda>w. wsp_id w = ws) t \<noteq> None \<and> root_of t ws \<noteq> None"

lemma normalize_twice [simp]: "normalize_workspace_id (Some (normalize_workspace_id w)) = normalize_workspace_id w"
  by (auto simp: normalize_workspace_id_def split: option.splits)

lemma ensure_open:
  "workspace_open (work s) (normalize_workspace_id w) \<Longrightarrow> ensure_workspace_db w n tpl s = (Inr (the (root_of (work s) (normalize_workspace_id w))), s)"
  by (auto simp: ensure_workspace_db_def workspace_open_def op_eval Let_def split: option.splits)

text \<open>C37: a folder can be moved into a folder below it: the move reports success and is durable, and from then on deleting it does not return, because the loop that collects its subtree goes round the new cycle for ever.\<close>

theorem move_below_itself_hangs:
  assumes ws: "ws = normalize_workspace_id w" "workspace_open (work s) ws" and d: "distinct (map itm_id (t_items (work s)))"
    and i: "find_item (work s) ws i = Some x" "itm_parent x \<noteq> None"
    and p: "is_container (find_item (work s) ws p)" and b: "below (filter (\<lambda>x. itm_ws x = ws) (t_items (work s))) i p"
  shows "\<exists>s'. move_item_db i p w tpl s = (Inr True, s') \<and> committed s' = work s' \<and> delete_item_db i w tpl s' = None"
proof -
  define g :: "workspace_item \<Rightarrow> workspace_item" where
    "g = (\<lambda>x. if itm_id x = i then x\<lparr>itm_parent := Some p, itm_order := next_order (work s) ws p\<rparr> else x)"
  have g: "itm_id (g y) = itm_id y" "itm_ws (g y) = itm_ws y" "itm_parent (g y) = (if itm_id y = i then Some p else itm_parent y)" for y
    by (auto simp: g_def)
  define s' where "s' = s\<lparr>work := t_items_update (map g) (work s), committed := t_items_update (map g) (work s)\<rparr>"
  have u: "z = z'" if "z \<in> set (t_items (work s))" "z' \<in> set (t_items (work s))" "itm_id z = itm_id z'" for z z'
    using d that by (intro inj_onD[of itm_id "set (t_items (work s))"]) (auto simp: distinct_map)
  have "move_item_db i p w tpl s = (Inr True, s')"
    using ws i p by (simp add: move_item_db_def in_workspace_def Let_def bind_op_eval ensure_open then_op_eval basic_eval set_item_def update_rows_eval s'_def g_def)
  moreover have "delete_item_db i w tpl s' = None"
  proof -
    let ?items = "filter (\<lambda>x. itm_ws x = ws) (t_items (work s))"
    let ?items' = "filter (\<lambda>x. itm_ws x = ws) (t_items (work s'))"
    have it': "?items' = map g ?items" by (simp add: s'_def filter_map comp_def g)
    have "workspace_open (work s') ws"
    proof -
      from ws(2) obtain r where r: "r \<in> set (t_items (work s))" "itm_ws r = ws" "itm_parent r = None"
        unfolding workspace_open_def root_of_def select_first_def find_None_iff by blast
      then have "itm_id r \<noteq> i" using u[OF r(1) find_item_Some(1)[OF i(1)]] find_item_Some(2)[OF i(1)] i(2) by auto
      then have "g r \<in> set (t_items (work s')) \<and> itm_ws (g r) = ws \<and> itm_parent (g r) = None" using r by (simp add: s'_def g)
      then have "root_of (work s') ws \<noteq> None" unfolding root_of_def select_first_def find_None_iff by blast
      with ws(2) show ?thesis by (simp add: workspace_open_def s'_def select_first_def)
    qed
    then have e: "ensure_workspace_db (Some ws) None tpl s' = (Inr (the (root_of (work s') ws)), s')"
      using ensure_open[of s' "Some ws" None tpl] by (simp add: ws(1))
    have way: "(q, i) \<in> (child_rel ?items')\<^sup>*" if "below ?items i q" for q
      using that
    proof induction
      case (child q z)
      show ?case
      proof (cases "itm_id z = i")
        case False
        then have "itm_parent (g z) = Some q \<and> g z \<in> set ?items'" using child it' by (simp add: g)
        then have "(itm_id (g z), q) \<in> child_rel ?items'" unfolding child_rel_def by blast
        then have "(itm_id z, q) \<in> child_rel ?items'" by (simp add: g(1))
        with child.IH show ?thesis by (meson converse_rtrancl_into_rtrancl)
      qed simp
    qed simp
    have "x \<in> set ?items" "itm_id x = i" using find_item_Some[OF i(1)] by auto
    then have gx: "g x \<in> set ?items'" "itm_id (g x) = i" "itm_parent (g x) = Some p" using it' by (auto simp: g)
    then have "(i, p) \<in> child_rel ?items'" unfolding child_rel_def by blast
    with way[OF b] have "(i, i) \<in> (child_rel ?items')\<^sup>+" by (meson rtrancl_into_trancl2)
    then have "collect_subtree ?items' [i] [] = None" by (rule collect_diverges) simp
    moreover have "i \<in> itm_id ` set ?items'" using gx by force
    ultimately show ?thesis using e ws(1) by (simp add: delete_item_db_def Let_def select_def)
  qed
  ultimately show ?thesis by (simp add: s'_def)
qed

section \<open>The listing\<close>

lemma init_items: "inv_ok (\<lambda>t. t_items t = X) (init_table_db T st)"
  unfolding init_table_db_def Let_def init_content_def init_record_def init_filter_def init_sort_def new_record_id_def
    millis_def init_field_def init_view_def
  by (auto intro!: inv_intro split: prod.splits pyval.splits)

lemma catch_Inr: "catch m h s = (Inr x, s') \<longleftrightarrow> m s = (Inr x, s') \<or> (\<exists>e s1. m s = (Inl e, s1) \<and> h e s1 = (Inr x, s'))"
  by (auto simp: catch_def split: prod.splits sum.splits)

lemma create_root_run:
  assumes "create_root ws n tpl s = (Inr r, s')"
  shows "itm_ws r = ws \<and> itm_parent r = None \<and> (\<exists>rest. t_items (work s') = t_items (work s) @ r # rest)"
proof -
  from assms obtain i j s1 s2 s3 s4 s5 b where
    g: "gen_id ''fld'' s = (Inr i, s1)" "gen_id ''dst'' s1 = (Inr j, s2)"
    and r: "r = item_row i ws ''folder'' (or_default n default_space_name) None 0 None"
    and a: "insert_item r s2 = (Inr (), s3)" "insert_item (item_row j ws ''table'' ''Projects'' (Some i) 0 (Some ''v1'')) s3 = (Inr (), s4)"
    and init: "init_table_db j tpl s4 = (Inr b, s5)" and s': "s' = s5"
    by (auto simp: create_root_def Let_def bind_op_Inr then_op_def basic_eval catch_Inr split: if_splits)
  have "work s2 = work s" using g gen_id_work by metis
  moreover have "t_items (work s5) = t_items (work s4)" using inv_okD[OF init_items init refl] .
  ultimately show ?thesis using a r s' by (auto simp: insert_item_def insert_row_Inr item_row_def)
qed

lemma ensure_root:
  assumes e: "ensure_workspace_db w n tpl s = (Inr r, s')" and t: "tree_ok (work s')"
  shows "r \<in> set (t_items (work s')) \<and> itm_ws r = normalize_workspace_id w \<and> itm_parent r = None"
proof -
  let ?ws = "normalize_workspace_id w"
  define found where "found = select_first t_workspaces (\<lambda>x. wsp_id x = ?ws) (work s)"
  from e obtain s1 where c: "(case root_of (work s1) ?ws of
         Some r' \<Rightarrow> then_op (if found = None then commit else ret ()) (ret r')
       | None \<Rightarrow> create_root ?ws n tpl) s1 = (Inr r, s')"
    unfolding ensure_workspace_db_def Let_def bind_op_Inr then_op_def[of "if _ then insert_row _ _ _ _ else _"] by (auto simp: basic_eval found_def[symmetric])
  show ?thesis
  proof (cases "root_of (work s1) ?ws")
    case None
    with c have "create_root ?ws n tpl s1 = (Inr r, s')" by simp
    from create_root_run[OF this] show ?thesis by auto
  next
    case (Some r')
    with c have "r' = r" "work s' = work s1" by (auto simp: then_op_eval basic_eval split: if_splits)
    with Some show ?thesis by (auto simp: root_of_def select_first_def dest!: find_SomeD)
  qed
qed

lemma nested_rooted:
  assumes "well_nested items" shows "rooted (item_parent items) i"
proof -
  from assms obtain depth :: "string \<Rightarrow> nat" where
    d: "\<And>x p. x \<in> set items \<Longrightarrow> itm_parent x = Some p \<Longrightarrow> depth p < depth (itm_id x)" unfolding well_nested_def by blast
  show ?thesis
  proof (induction "depth i" arbitrary: i rule: less_induct)
    case less
    show ?case
    proof (cases "item_parent items i")
      case (Some p)
      then obtain x where "x \<in> set items" "itm_id x = i" "itm_parent x = Some p"
        by (auto simp: item_parent_def bind_eq_Some_conv dest!: find_SomeD)
      with d less have "rooted (item_parent items) p" by blast
      with Some show ?thesis by (cases "p = []") (auto intro: rooted.intros)
    qed (auto intro: rooted.intros)
  qed
qed

lemma level_known:
  assumes "level_at pm ov fb i p n" "\<And>c q. ov c = Some q \<Longrightarrow> permission_order q \<noteq> None" "permission_order fb \<noteq> None"
  shows "permission_order p \<noteq> None"
  using assms by (induction rule: level_at.induct) auto

lemma resolve_all_known:
  assumes "\<And>i. rooted pm i" "\<forall>c q. ov c = Some q \<longrightarrow> permission_order q \<noteq> None" "permission_order fb \<noteq> None"
    and "\<forall>k p. memo k = Some p \<longrightarrow> level_of pm ov fb k p"
  shows "\<exists>ps. resolve_all pm ov fb xs memo = Some ps \<and> map fst ps = xs \<and> (\<forall>(i, p)\<in>set ps. permission_order p \<noteq> None)"
  using assms(4)
proof (induction xs arbitrary: memo)
  case (Cons i xs)
  from resolve_returns[OF assms(1), of i ov fb memo] obtain p memo' where
    r: "resolve_permission_for_item i pm ov fb memo = Some (p, memo')" by blast
  from resolve_sound[OF r Cons.prems] have l: "level_of pm ov fb i p" "\<forall>k p. memo' k = Some p \<longrightarrow> level_of pm ov fb k p" by auto
  from l(1) have "permission_order p \<noteq> None" unfolding level_of_def using level_known assms(2,3) by blast
  with Cons.IH[OF l(2)] r show ?case by auto
qed simp

lemma add_parents_mono: "set visible \<subseteq> set (add_parents items visible p)"
proof (induction items visible p rule: add_parents.induct)
  case (1 items visible p)
  show ?case
  proof (cases p)
    case (Some q)
    with 1 show ?thesis by (subst add_parents.simps) auto
  qed (simp add: add_parents.simps)
qed

declare add_parents.simps [simp del]

lemma visible_from_mono: "permission_allows (map_of ps (itm_id x)) ''read'' \<Longrightarrow> x \<in> set items \<Longrightarrow> itm_id x \<in> set (visible_from items ps)"
proof -
  have "set vis \<subseteq> set (foldl (\<lambda>vis i. add_parents items vis (itm_parent i)) vis xs)" for vis and xs :: "workspace_item list"
  proof (induction xs arbitrary: vis)
    case (Cons x xs)
    then show ?case using add_parents_mono[of vis items "itm_parent x"] by fastforce
  qed simp
  then show "permission_allows (map_of ps (itm_id x)) ''read'' \<Longrightarrow> x \<in> set items \<Longrightarrow> itm_id x \<in> set (visible_from items ps)"
    unfolding visible_from_def Let_def by (rule subsetD) auto
qed

lemma visible_for_member:
  assumes n: "well_nested items" and m: "get_workspace_member t ws_user ws = Some mb"
  shows "\<exists>v. visible_ids t ws items (Some ws_user) = Some (Some v) \<and> itm_id ` set items \<subseteq> set v"
proof -
  let ?ov = "get_user_permission_overrides t ws ws_user"
  have ov: "\<forall>c q. ?ov c = Some q \<longrightarrow> permission_order q \<noteq> None"
    using normalize_permission_known by (auto simp: get_user_permission_overrides_def dest!: map_of_SomeD)
  have fb: "permission_order (role_permission (mb_role mb)) \<noteq> None" using role_permission_known by auto
  from resolve_all_known[where ov = ?ov and memo = Map.empty and xs = "map itm_id items", OF nested_rooted[OF n] ov fb] obtain ps where
    ps: "resolve_all (item_parent items) ?ov (role_permission (mb_role mb)) (map itm_id items) Map.empty = Some ps"
      "map fst ps = map itm_id items" "\<forall>(i, p)\<in>set ps. permission_order p \<noteq> None" by auto
  have "itm_id x \<in> set (visible_from items ps)" if x: "x \<in> set items" for x
  proof (rule visible_from_mono[OF _ x])
    have "itm_id x \<in> fst ` set ps" using ps(2) x by (metis image_eqI image_set)
    then obtain p where "map_of ps (itm_id x) = Some p" by (metis map_of_eq_None_iff not_None_eq)
    moreover from map_of_SomeD[OF this] ps(3) have "permission_order p \<noteq> None" by auto
    ultimately show "permission_allows (map_of ps (itm_id x)) ''read''" by (simp add: allows_read_iff)
  qed
  with m ps(1) show ?thesis by (auto simp: visible_ids_def)
qed

text \<open>The nodes a client reaches from the root of the answer.\<close>

inductive reached :: "listing \<Rightarrow> string \<Rightarrow> bool" for l where
  top: "reached l (ls_root l)"
| below_root: "c \<in> set (ls_root_children l) \<Longrightarrow> reached l c"
| below_node: "reached l i \<Longrightarrow> n \<in> set (ls_nodes l) \<Longrightarrow> nd_id n = i \<Longrightarrow> nd_children n = Some cs \<Longrightarrow> c \<in> set cs \<Longrightarrow> reached l c"

lemma item_node_simps [simp]: "nd_id (item_node items x) = itm_id x" "nd_name (item_node items x) = itm_name x"
  by (simp_all add: item_node_def Let_def)

lemma item_node_children: "c \<in> set items \<Longrightarrow> itm_parent c = Some (itm_id x) \<Longrightarrow> \<exists>cs. nd_children (item_node items x) = Some cs \<and> itm_id c \<in> set cs"
proof -
  assume "c \<in> set items" "itm_parent c = Some (itm_id x)"
  then have "itm_id c \<in> set (children_ids items (itm_id x))" by (auto simp: children_ids_def)
  then show ?thesis by (auto simp: item_node_def Let_def)
qed

lemma listing_complete:
  assumes t: "tree_ok t" and items: "items = filter (\<lambda>x. itm_ws x = ws) (t_items t)" "shown_items items visible = items"
    and r: "r \<in> set items" "itm_parent r = None"
  shows "\<exists>l. workspace_listing ws items visible s = (Inr l, s) \<and> ls_root l = itm_id r \<and> ls_root_name l = itm_name r
    \<and> map nd_id (ls_nodes l) = map itm_id items \<and> (\<forall>x\<in>set items. reached l (itm_id x))"
proof -
  have one: "x = r" if "x \<in> set items" "itm_parent x = None" for x
    using t r that unfolding tree_ok_def one_root_def items(1) by auto
  have dist: "distinct (map itm_id items)" unfolding items(1) using t by (intro distinct_map_filterI) (simp add: tree_ok_def)
  have "find (\<lambda>i. itm_parent i = None) items \<noteq> None" unfolding find_None_iff using r by blast
  then obtain r' where r': "find (\<lambda>i. itm_parent i = None) items = Some r'" by auto
  then have "r' = r" using one by (auto dest!: find_SomeD)
  have "find (\<lambda>n. nd_id n = itm_id r) (map (item_node items) items) = Some (item_node items r)"
    using find_distinct_key[of nd_id "map (item_node items) items" "item_node items r"] dist r by (simp add: comp_def)
  then obtain l where l: "workspace_listing ws items visible s = (Inr l, s)" "ls_root l = itm_id r" "ls_root_name l = itm_name r"
      "ls_nodes l = map (item_node items) items"
    using r' \<open>r' = r\<close> by (simp add: workspace_listing_def items(2) Let_def basic_eval)
  from t obtain depth :: "string \<Rightarrow> nat" where
    d: "\<And>x p. x \<in> set (t_items t) \<Longrightarrow> itm_parent x = Some p \<Longrightarrow> depth p < depth (itm_id x)" unfolding tree_ok_def well_nested_def by blast
  have "reached l (itm_id x)" if "x \<in> set items" for x
    using that
  proof (induction "depth (itm_id x)" arbitrary: x rule: less_induct)
    case less
    show ?case
    proof (cases "itm_parent x")
      case None
      with one less.prems have "x = r" by blast
      with l(2) reached.top[of l] show ?thesis by simp
    next
      case (Some p)
      with t less.prems obtain y where y: "y \<in> set items" "itm_id y = p" unfolding tree_ok_def parents_ok_def items(1) by fastforce
      from less.prems have "x \<in> set (t_items t)" by (simp add: items(1))
      from d[OF this Some] y less.hyps have py: "reached l (itm_id y)" by blast
      from item_node_children[of x items y] less.prems Some y obtain cs where
        cs: "nd_children (item_node items y) = Some cs" "itm_id x \<in> set cs" by auto
      show ?thesis by (rule reached.below_node[OF py _ _ cs]) (use l(4) y in auto)
    qed
  qed
  with l show ?thesis by (simp add: comp_def)
qed

text \<open>C13: listing a workspace with a well-formed tree always returns. A caller without a user and every member gets the whole tree: one node per item of the workspace, its root, and every node is reached from the root by following children (an override can lower a member's level, it never hides an item). A user who is not a member gets no node at all.\<close>

theorem list_workspace_complete:
  assumes t: "tree_ok (work s)" "tree_ok (committed s)"
    and e: "ensure_workspace_db (Some (normalize_workspace_id w)) None tpl s = (Inr r, s1)"
    and items: "items = filter (\<lambda>x. itm_ws x = normalize_workspace_id w) (t_items (work s1))"
  shows "\<exists>l s'. list_workspace_db w u tpl s = Some (Inr l, s') \<and> work s' = work s1
    \<and> (if u = None \<or> get_workspace_member (work s1) (the u) (normalize_workspace_id w) \<noteq> None
       then ls_root l = itm_id r \<and> ls_root_name l = itm_name r \<and> map nd_id (ls_nodes l) = map itm_id items
         \<and> (\<forall>x\<in>set items. reached l (itm_id x))
       else ls_nodes l = [] \<and> ls_root_children l = [])"
proof -
  let ?ws = "normalize_workspace_id w"
  have t1: "tree_ok (work s1)" using keepsD[OF ensure_keeps e] t by blast
  from ensure_root[OF e t1] have r: "r \<in> set items" "itm_parent r = None" by (auto simp: items)
  have n: "well_nested items" unfolding items using t1 by (rule tree_nested)
  have L: "list_workspace_db w u tpl s = map_option (\<lambda>visible. workspace_listing ?ws items visible s1) (visible_ids (work s1) ?ws items u)"
    using e by (simp add: list_workspace_db_def Let_def select_def items)
  show ?thesis
  proof (cases "u = None \<or> get_workspace_member (work s1) (the u) ?ws \<noteq> None")
    case True
    have "\<exists>visible. visible_ids (work s1) ?ws items u = Some visible \<and> shown_items items visible = items"
    proof (cases u)
      case None
      then show ?thesis by (simp add: visible_ids_def shown_items_def)
    next
      case (Some v)
      with True obtain mb where "get_workspace_member (work s1) v ?ws = Some mb" by auto
      from visible_for_member[OF n this] obtain ids where
        ids: "visible_ids (work s1) ?ws items (Some v) = Some (Some ids)" "itm_id ` set items \<subseteq> set ids" by blast
      then have "shown_items items (Some ids) = items" by (auto simp: shown_items_def filter_id_conv)
      with ids Some show ?thesis by auto
    qed
    then obtain visible where v: "visible_ids (work s1) ?ws items u = Some visible" "shown_items items visible = items" by blast
    from listing_complete[OF t1 items v(2) r, of s1] L v(1) True show ?thesis by auto
  next
    case False
    then obtain v where u: "u = Some v" "get_workspace_member (work s1) v ?ws = None" by auto
    then have "visible_ids (work s1) ?ws items u = Some (Some [])" by (simp add: visible_ids_def)
    moreover have "shown_items items (Some []) = []" by (simp add: shown_items_def)
    ultimately show ?thesis using L False
      by (auto simp: workspace_listing_def gen_id_def millis_def op_eval Let_def split: option.splits)
  qed
qed

section \<open>Witnesses\<close>

definition no_template :: template where
  "no_template = \<lparr>tp_fields = [], tp_views = [], tp_records = [], tp_filters = [], tp_sorts = [], tp_group = []\<rparr>"

text \<open>A root, two folders one inside the other, a table in the inner one; user 1 is a viewer.\<close>

definition example_space :: tables where
  "example_space = empty_tables\<lparr>
     t_workspaces := [\<lparr>wsp_id = ''w'', wsp_name = Some ''W''\<rparr>],
     t_items := [item_row ''r'' ''w'' ''folder'' ''Root'' None 0 None, item_row ''a'' ''w'' ''folder'' ''A'' (Some ''r'') 1 None,
                 item_row ''b'' ''w'' ''folder'' ''B'' (Some ''a'') 1 None, item_row ''t2'' ''w'' ''table'' ''T'' (Some ''b'') 1 None],
     t_fields := [\<lparr>fld_id = ''f1'', fld_table = ''t2'', fld_name = ''N'', fld_type = ''text'', fld_options = PNone, fld_property = PNone, fld_order = 0\<rparr>],
     t_members := [\<lparr>mb_user = 1, mb_ws = ''w'', mb_role = Viewer\<rparr>]\<rparr>"

lemma example_space_tree: "tree_ok (work (session_of example_space))" "tree_ok (committed (session_of example_space))"
proof -
  have "well_nested (t_items example_space)"
    unfolding well_nested_def by (rule exI[of _ "(\<lambda>_. 0)(''a'' := 1, ''b'' := 2, ''t2'' := 3)"]) (simp add: example_space_def item_row_def)
  then have "tree_ok example_space"
    by (simp add: tree_ok_def example_space_def item_row_def parents_ok_def one_root_def)
  then show "tree_ok (work (session_of example_space))" "tree_ok (committed (session_of example_space))"
    by (simp_all add: session_of_def)
qed

lemma example_space_open: "workspace_open (work (session_of example_space)) (normalize_workspace_id (Some ''w''))"
  by (simp add: workspace_open_def select_first_def root_of_def normalize_workspace_id_def example_space_def item_row_def)

lemma example_space_ensure:
  "ensure_workspace_db (Some (normalize_workspace_id (Some ''w''))) None no_template (session_of example_space)
    = (Inr (item_row ''r'' ''w'' ''folder'' ''Root'' None 0 None), session_of example_space)"
  using ensure_open[OF example_space_open, of None no_template]
  by (simp add: normalize_workspace_id_def root_of_def select_first_def example_space_def item_row_def)

theorem workspace_tree_kept_witness:
  "case create_folder_db ''New'' ''b'' (Some ''w'') no_template (session_of example_space) of (r, s') \<Rightarrow>
     tree_ok (work s') \<and> map itm_parent (t_items (work s')) = [None, Some ''r'', Some ''a'', Some ''b'', Some ''b'']"
proof -
  obtain r s' where c: "create_folder_db ''New'' ''b'' (Some ''w'') no_template (session_of example_space) = (r, s')" by fastforce
  have "tree_run no_template (session_of example_space) s'"
    by (rule tree_run.step[OF tree_run.start tree_step.create_folder[OF c]])
  note k = workspace_tree_kept[OF this example_space_tree]
  have "map itm_parent (t_items (work (snd (create_folder_db ''New'' ''b'' (Some ''w'') no_template (session_of example_space)))))
      = [None, Some ''r'', Some ''a'', Some ''b'', Some ''b'']"
    by code_simp
  with k c show ?thesis by simp
qed

theorem delete_item_removes_subtree_witness:
  "\<exists>s'. delete_item_db ''a'' (Some ''w'') no_template (session_of example_space) = Some (Inr True, s')
     \<and> map itm_id (t_items (work s')) = [''r''] \<and> \<not> mentions (work s') ''t2''"
proof -
  define items where "items = filter (\<lambda>x. itm_ws x = normalize_workspace_id (Some ''w'')) (t_items (work (session_of example_space)))"
  have it: "items = t_items example_space" by (simp add: items_def normalize_workspace_id_def example_space_def item_row_def)
  note d = delete_item_removes_subtree[OF example_space_tree example_space_ensure items_def, of "''a''"]
  have a: "''a'' \<in> itm_id ` set items" by (simp add: it example_space_def item_row_def)
  have b: "below items ''a'' ''a''" "below items ''a'' ''b''" "below items ''a'' ''t2''"
  proof -
    show a: "below items ''a'' ''a''" by (rule below.itself)
    show b: "below items ''a'' ''b''"
      using below.child[OF a, of "item_row ''b'' ''w'' ''folder'' ''B'' (Some ''a'') 1 None"] by (simp add: it example_space_def item_row_def)
    show "below items ''a'' ''t2''"
      using below.child[OF b, of "item_row ''t2'' ''w'' ''table'' ''T'' (Some ''b'') 1 None"] by (simp add: it example_space_def item_row_def)
  qed
  have r: "\<not> below items ''a'' ''r''"
  proof
    have top: "\<forall>x\<in>set items. itm_id x = ''r'' \<longrightarrow> itm_parent x = None" by (simp add: it example_space_def item_row_def)
    assume "below items ''a'' ''r''"
    then show False
    proof cases
      case (child p x)
      with top show False by (metis option.distinct(1))
    qed simp
  qed
  from d a obtain s' where s': "delete_item_db ''a'' (Some ''w'') no_template (session_of example_space) = Some (Inr True, s')"
    "t_items (work s') = filter (\<lambda>x. \<not> below items ''a'' (itm_id x)) (t_items example_space)"
    "\<forall>x\<in>set items. below items ''a'' (itm_id x) \<longrightarrow> itm_type x = ''table'' \<longrightarrow> \<not> mentions (work s') (itm_id x)" by auto
  have "map itm_id (t_items (work s')) = [''r'']" using b r by (simp add: s'(2) example_space_def item_row_def)
  moreover have "\<not> mentions (work s') ''t2''" using s'(3) b(3) by (simp add: it example_space_def item_row_def)
  ultimately show ?thesis using s'(1) by (intro exI[of _ s'] conjI)
qed

theorem move_below_itself_hangs_witness:
  "\<exists>s'. move_item_db ''a'' ''b'' (Some ''w'') no_template (session_of example_space) = (Inr True, s')
     \<and> delete_item_db ''a'' (Some ''w'') no_template s' = None"
proof -
  define items where "items = filter (\<lambda>x. itm_ws x = ''w'') (t_items (work (session_of example_space)))"
  have ws: "''w'' = normalize_workspace_id (Some ''w'')" by (simp add: normalize_workspace_id_def)
  have f: "find_item (work (session_of example_space)) ''w'' ''a'' = Some (item_row ''a'' ''w'' ''folder'' ''A'' (Some ''r'') 1 None)"
    "is_container (find_item (work (session_of example_space)) ''w'' ''b'')"
    by (simp_all add: find_item_def select_first_def is_container_def example_space_def item_row_def)
  have "below items ''a'' ''b''"
    using below.child[OF below.itself[of items "''a''"], of "item_row ''b'' ''w'' ''folder'' ''B'' (Some ''a'') 1 None"]
    by (simp add: items_def example_space_def item_row_def)
  then show ?thesis
    using move_below_itself_hangs[OF ws example_space_open[folded ws] _ f(1) _ f(2)] example_space_tree(1)
    by (fastforce simp: items_def tree_ok_def item_row_def)
qed

theorem list_workspace_complete_witness:
  "(\<exists>l s'. list_workspace_db (Some ''w'') (Some 1) no_template (session_of example_space) = Some (Inr l, s')
      \<and> map nd_id (ls_nodes l) = [''r'', ''a'', ''b'', ''t2''] \<and> reached l ''t2'')
   \<and> (\<exists>l s'. list_workspace_db (Some ''w'') (Some 2) no_template (session_of example_space) = Some (Inr l, s') \<and> ls_nodes l = [])"
proof -
  define items where "items = filter (\<lambda>x. itm_ws x = normalize_workspace_id (Some ''w'')) (t_items (work (session_of example_space)))"
  have it: "map itm_id items = [''r'', ''a'', ''b'', ''t2'']" "item_row ''t2'' ''w'' ''table'' ''T'' (Some ''b'') 1 None \<in> set items"
    by (simp_all add: items_def normalize_workspace_id_def example_space_def item_row_def)
  have m: "get_workspace_member (work (session_of example_space)) 1 (normalize_workspace_id (Some ''w'')) \<noteq> None"
    "get_workspace_member (work (session_of example_space)) 2 (normalize_workspace_id (Some ''w'')) = None"
    by (simp_all add: get_workspace_member_def select_first_def normalize_workspace_id_def example_space_def)
  note l = list_workspace_complete[OF example_space_tree example_space_ensure items_def]
  from l[of "Some 1"] m(1) it obtain l s' where
    "list_workspace_db (Some ''w'') (Some 1) no_template (session_of example_space) = Some (Inr l, s')"
    "map nd_id (ls_nodes l) = [''r'', ''a'', ''b'', ''t2'']" "\<forall>x\<in>set items. reached l (itm_id x)" by auto
  then have "\<exists>l s'. list_workspace_db (Some ''w'') (Some 1) no_template (session_of example_space) = Some (Inr l, s')
      \<and> map nd_id (ls_nodes l) = [''r'', ''a'', ''b'', ''t2''] \<and> reached l ''t2''"
    using it(2) by (auto simp: item_row_def dest!: bspec)
  moreover from l[of "Some 2"] m(2) obtain l' s'' where
    "list_workspace_db (Some ''w'') (Some 2) no_template (session_of example_space) = Some (Inr l', s'')" "ls_nodes l' = []" by auto
  ultimately show ?thesis by (intro conjI) blast+
qed

end
