(* ===== verification/AutoValidate.thy ===== *)
theory AutoValidate
  imports Dashboards
begin

text \<open>
  Automation definitions (\<open>automation/validation.py\<close>): how a trigger, the conditions and the
  actions of a rule are normalised before they are stored, and how the conditions are
  evaluated on a record. Python's \<open>float(...)\<close>, \<open>datetime.fromisoformat\<close> and the time zone
  database are arguments: the float with its \<open>repr\<close>, the wall clock in microseconds with the
  offset from UTC when the text has one, and the exception of an unknown zone.
\<close>

declare split_paired_All [simp del] split_paired_Ex [simp del]

section \<open>Constants\<close>

definition trigger_types :: "string list" where
  "trigger_types = [''record.created'', ''record.updated'', ''scheduled'', ''due_date'', ''manual'']"

definition base_operators :: "string list" where
  "base_operators = [''equals'', ''not_equals'', ''in'', ''not_in'', ''empty'', ''not_empty'']"

definition text_operators :: "string list" where
  "text_operators = base_operators @ [''contains'', ''not_contains'']"

definition order_operators :: "string list" where
  "order_operators = base_operators @ [''gt'', ''gte'', ''lt'', ''lte'']"

definition numeric_field_types :: "string list" where
  "numeric_field_types = [''number'', ''progress'', ''rating'', ''autoNumber'', ''auto_number'']"

definition date_field_types :: "string list" where
  "date_field_types = [''date'', ''datetime'', ''createdTime'', ''modifiedTime'']"

definition non_writable_field_types :: "string list" where
  "non_writable_field_types =
     [''formula'', ''autoNumber'', ''auto_number'', ''createdTime'', ''modifiedTime'', ''createdBy'', ''modifiedBy'']"

definition action_types :: "string list" where
  "action_types = [''update_record'', ''create_record'', ''notify'']"

definition automation_notification_types :: "string list" where
  "automation_notification_types =
     [''automation'', ''due_3d'', ''due_24h'', ''task_assigned'', ''ai_action_required'', ''automation_failed'']"

definition sensitive_key_parts :: "string list" where
  "sensitive_key_parts = [''secret'', ''token'', ''password'', ''credential'', ''api_key'', ''apikey'']"

definition max_condition_depth :: nat where "max_condition_depth = 8"
definition max_condition_items :: nat where "max_condition_items = 64"
definition max_actions :: nat where "max_actions = 32"
definition max_interval_minutes :: int where "max_interval_minutes = 60 * 24 * 30"
definition max_due_offset_minutes :: int where "max_due_offset_minutes = 60 * 24 * 365"
definition max_retries :: int where "max_retries = 10"

section \<open>Normalising a definition\<close>

type_synonym float_reader = "pyval \<Rightarrow> (rat \<times> string) res"
type_synonym time_reader = "string \<Rightarrow> (int \<times> int option) option"
type_synonym zone_reader = "string \<Rightarrow> exn option"

definition invalid :: "string \<Rightarrow> 'a res" where
  "invalid msg = Inl (Exn AutomationValidationError msg)"

text \<open>\<open>except (TypeError, ValueError) as exc: raise AutomationValidationError(...)\<close>.\<close>

definition or_invalid :: "string \<Rightarrow> 'a res \<Rightarrow> 'a res" where
  "or_invalid msg r = (case r of
       Inr x \<Rightarrow> Inr x
     | Inl e \<Rightarrow> if exn_class e = TypeError \<or> is_value_error (exn_class e) then invalid msg else Inl e)"

definition normalize_timezone :: "zone_reader \<Rightarrow> pyval \<Rightarrow> string res" where
  "normalize_timezone zones v =
     (let stripped = strip (py_str (py_or v (PStr ''UTC'')));
          zone = (if stripped = [] then ''UTC'' else stripped) in
      case zones zone of
        None \<Rightarrow> Inr zone
      | Some e \<Rightarrow> if exn_class e = KeyError then invalid (''Unknown timezone: '' @ zone) else Inl e)"

definition normalize_max_retries :: "pyval \<Rightarrow> int res" where
  "normalize_max_retries v =
     bind_res (or_invalid ''maxRetries must be an integer'' (py_int v)) (\<lambda>retries.
       if retries < 0 \<or> retries > max_retries then invalid ''maxRetries must be between 0 and 10'' else Inr retries)"

fun redact_sensitive :: "pyval \<Rightarrow> pyval" where
  "redact_sensitive (PDict d) =
     PDict (map (\<lambda>(k, v). (k, if list_ex (\<lambda>part. substring part (lower k)) sensitive_key_parts
       then PStr ''[REDACTED]'' else redact_sensitive v)) d)"
| "redact_sensitive (PList xs) = PList (map redact_sensitive xs)"
| "redact_sensitive v = v"

definition is_list_value :: "pyval \<Rightarrow> bool" where
  "is_list_value v \<longleftrightarrow> (case v of PList _ \<Rightarrow> True | _ \<Rightarrow> False)"

definition is_bool_value :: "pyval \<Rightarrow> bool" where
  "is_bool_value v \<longleftrightarrow> (case v of PBool _ \<Rightarrow> True | _ \<Rightarrow> False)"

definition field_with :: "table_field list \<Rightarrow> string \<Rightarrow> table_field option" where
  "field_with flds i = find (\<lambda>f. fld_id f = i) flds"

definition require_field :: "table_field list \<Rightarrow> pyval \<Rightarrow> table_field res" where
  "require_field flds v =
     (let key = strip (str_or_empty v) in
      case field_with flds key of
        None \<Rightarrow> invalid (''Unknown field: '' @ (if key = [] then ''<empty>'' else key))
      | Some f \<Rightarrow> Inr f)"

definition add_once :: "'a list \<Rightarrow> 'a \<Rightarrow> 'a list" where
  "add_once xs x = (if x \<in> set xs then xs else xs @ [x])"

definition normalize_field_ids :: "pyval \<Rightarrow> table_field list \<Rightarrow> string list res" where
  "normalize_field_ids v flds = (case v of
       PNone \<Rightarrow> Inr []
     | PList items \<Rightarrow> bind_res (map_res (require_field flds) items) (\<lambda>fs. Inr (foldl add_once [] (map fld_id fs)))
     | _ \<Rightarrow> invalid ''fieldIds must be a list'')"

definition parse_datetime_value :: "time_reader \<Rightarrow> pyval \<Rightarrow> (int \<times> int option) option" where
  "parse_datetime_value read_time v = (case v of
       PStr s \<Rightarrow>
         let text = strip s in
         if text = [] then None
         else read_time (if last text = CHR ''Z'' then butlast text @ ''+00:00'' else text)
     | _ \<Rightarrow> None)"

definition number_value :: "rat \<times> string \<Rightarrow> pyval" where
  "number_value = (\<lambda>(q, r). if of_int \<lfloor>q\<rfloor> = q then PInt \<lfloor>q\<rfloor> else PFloat q r)"

definition normalize_typed_scalar ::
  "float_reader \<Rightarrow> time_reader \<Rightarrow> table_field \<Rightarrow> pyval \<Rightarrow> string \<Rightarrow> bool \<Rightarrow> pyval res" where
  "normalize_typed_scalar read_float read_time f v label allow_none =
     (if v = PNone \<and> allow_none then Inr PNone
      else if fld_type f \<in> set numeric_field_types then
        let msg = label @ '' for field '' @ fld_name f @ '' must be numeric'' in
        if v = PNone \<or> is_bool_value v then invalid msg
        else bind_res (or_invalid msg (read_float v)) (\<lambda>x. Inr (number_value x))
      else if fld_type f \<in> set date_field_types \<and> parse_datetime_value read_time v = None
        then invalid (label @ '' for field '' @ fld_name f @ '' must be an ISO date/datetime'')
      else Inr v)"

definition typed_condition_value ::
  "float_reader \<Rightarrow> time_reader \<Rightarrow> table_field \<Rightarrow> string \<Rightarrow> pyval \<Rightarrow> pyval res" where
  "typed_condition_value read_float read_time f operator v =
     (let scalar = (\<lambda>x. normalize_typed_scalar read_float read_time f x (''Condition value ('' @ operator @ '')'') False) in
      case v of
        PList xs \<Rightarrow> if operator \<in> {''in'', ''not_in''} then bind_res (map_res scalar xs) (\<lambda>ys. Inr (PList ys)) else scalar v
      | _ \<Rightarrow> scalar v)"

subsection \<open>Triggers\<close>

definition transition_value ::
  "float_reader \<Rightarrow> time_reader \<Rightarrow> table_field list \<Rightarrow> dict \<Rightarrow> string list \<Rightarrow> string \<Rightarrow> string \<Rightarrow> dict res" where
  "transition_value read_float read_time flds trigger ids k label =
     (if \<not> dhas trigger k then Inr []
      else case field_with flds (hd ids) of
        None \<Rightarrow> Inl (Exn KeyError (hd ids))
      | Some f \<Rightarrow> bind_res (normalize_typed_scalar read_float read_time f (dget trigger k) label True) (\<lambda>v. Inr [(k, v)]))"

definition updated_trigger :: "float_reader \<Rightarrow> time_reader \<Rightarrow> table_field list \<Rightarrow> dict \<Rightarrow> dict res" where
  "updated_trigger read_float read_time flds trigger =
     bind_res (normalize_field_ids (dget trigger ''fieldIds'') flds) (\<lambda>listed.
     bind_res (if dget trigger ''fieldId'' = PNone then Inr listed
               else bind_res (require_field flds (dget trigger ''fieldId'')) (\<lambda>f. Inr (add_once listed (fld_id f)))) (\<lambda>ids.
     if (dhas trigger ''from'' \<or> dhas trigger ''to'') \<and> length ids \<noteq> 1
       then invalid ''record.updated from/to matching requires exactly one field''
     else
       bind_res (transition_value read_float read_time flds trigger ids ''from'' ''Trigger from value'') (\<lambda>from.
       bind_res (transition_value read_float read_time flds trigger ids ''to'' ''Trigger to value'') (\<lambda>to.
         Inr ((if ids = [] then [] else [(''fieldIds'', PList (map PStr ids))]) @ from @ to)))))"

definition scheduled_trigger :: "dict \<Rightarrow> dict res" where
  "scheduled_trigger trigger =
     bind_res (or_invalid ''scheduled trigger requires intervalMinutes'' (py_int (dget trigger ''intervalMinutes''))) (\<lambda>interval.
       if interval < 1 \<or> interval > max_interval_minutes then invalid ''intervalMinutes must be between 1 and 43200''
       else Inr [(''intervalMinutes'', PInt interval)])"

definition due_trigger :: "table_field list \<Rightarrow> dict \<Rightarrow> dict res" where
  "due_trigger flds trigger =
     bind_res (require_field flds (dget trigger ''fieldId'')) (\<lambda>f.
     if fld_type f \<notin> set date_field_types then invalid ''due_date trigger requires a date field''
     else
       bind_res (or_invalid ''due_date offsets must be integers'' (py_int (dget_default trigger ''offsetMinutes'' (PInt 0)))) (\<lambda>offset.
       bind_res (or_invalid ''due_date offsets must be integers'' (py_int (dget_default trigger ''scanIntervalMinutes'' (PInt 5)))) (\<lambda>scan.
       if offset < 0 \<or> offset > max_due_offset_minutes then invalid ''offsetMinutes must be between 0 and 525600''
       else if scan < 1 \<or> scan > 1440 then invalid ''scanIntervalMinutes must be between 1 and 1440''
       else Inr [(''fieldId'', PStr (fld_id f)), (''offsetMinutes'', PInt offset), (''scanIntervalMinutes'', PInt scan)])))"

definition normalize_trigger :: "float_reader \<Rightarrow> time_reader \<Rightarrow> pyval \<Rightarrow> table_field list \<Rightarrow> dict res" where
  "normalize_trigger read_float read_time v flds = (case v of
       PDict trigger \<Rightarrow>
         let ty = strip (str_or_empty (dget trigger ''type'')) in
         if ty \<notin> set trigger_types then invalid (''Unsupported trigger type: '' @ ty)
         else bind_res
           (if ty = ''record.updated'' then updated_trigger read_float read_time flds trigger
            else if ty = ''scheduled'' then scheduled_trigger trigger
            else if ty = ''due_date'' then due_trigger flds trigger
            else Inr []) (\<lambda>more. Inr ((''type'', PStr ty) # more))
     | _ \<Rightarrow> invalid ''trigger must be an object'')"

subsection \<open>Conditions\<close>

definition allowed_operators :: "table_field \<Rightarrow> string list" where
  "allowed_operators f = (if fld_type f \<in> set numeric_field_types \<or> fld_type f \<in> set date_field_types
     then order_operators else text_operators)"

definition normalize_leaf :: "float_reader \<Rightarrow> time_reader \<Rightarrow> table_field list \<Rightarrow> dict \<Rightarrow> dict res" where
  "normalize_leaf read_float read_time flds c =
     bind_res (require_field flds (dget c ''fieldId'')) (\<lambda>f.
     let operator = lower (strip (str_or_empty (dget c ''operator''))) in
     if operator \<notin> set (allowed_operators f)
       then invalid (''Operator '' @ operator @ '' is not valid for field '' @ fld_name f)
     else if operator \<in> {''empty'', ''not_empty''} then Inr [(''fieldId'', PStr (fld_id f)), (''operator'', PStr operator)]
     else if \<not> dhas c ''value'' then invalid (''Operator '' @ operator @ '' requires value'')
     else if operator \<in> {''in'', ''not_in''} \<and> \<not> is_list_value (dget c ''value'')
       then invalid (''Operator '' @ operator @ '' requires a list value'')
     else bind_res (typed_condition_value read_float read_time f operator (dget c ''value'')) (\<lambda>v.
       Inr [(''fieldId'', PStr (fld_id f)), (''operator'', PStr operator), (''value'', v)]))"

definition condition_group :: "dict \<Rightarrow> bool" where
  "condition_group c \<longleftrightarrow> dhas c ''items'' \<or> lower (str_or_empty (dget c ''op'')) \<in> {''and'', ''or''}"

text \<open>The counter of all items is threaded through the groups, as the shared list of the code.\<close>

function normalize_conditions ::
    "float_reader \<Rightarrow> time_reader \<Rightarrow> table_field list \<Rightarrow> nat \<Rightarrow> pyval \<Rightarrow> nat \<Rightarrow> (dict \<times> nat) res"
  and normalize_items ::
    "float_reader \<Rightarrow> time_reader \<Rightarrow> table_field list \<Rightarrow> nat \<Rightarrow> pyval list \<Rightarrow> nat \<Rightarrow> (pyval list \<times> nat) res" where
  "normalize_conditions read_float read_time flds depth v counter =
     (if v \<in> {PNone, PDict [], PList []} then Inr ([(''op'', PStr ''and''), (''items'', PList [])], counter)
      else if depth > max_condition_depth then invalid ''Condition nesting is too deep''
      else case v of
        PDict c \<Rightarrow>
          if condition_group c then
            let op = lower (strip (py_str (py_or (dget c ''op'') (PStr ''and'')))) in
            if op \<notin> {''and'', ''or''} then invalid ''Condition group op must be and or or''
            else (case py_or (dget c ''items'') (PList []) of
                PList items \<Rightarrow>
                  bind_res (normalize_items read_float read_time flds (Suc depth) items counter) (\<lambda>(ys, n).
                    Inr ([(''op'', PStr op), (''items'', PList ys)], n))
              | _ \<Rightarrow> invalid ''Condition group items must be a list'')
          else bind_res (normalize_leaf read_float read_time flds c) (\<lambda>leaf. Inr (leaf, counter))
      | _ \<Rightarrow> invalid ''conditions must be an object'')"
| "normalize_items read_float read_time flds depth [] counter = Inr ([], counter)"
| "normalize_items read_float read_time flds depth (item # items) counter =
     (if Suc counter > max_condition_items then invalid ''Too many conditions''
      else bind_res (normalize_conditions read_float read_time flds depth item (Suc counter)) (\<lambda>(y, n).
           bind_res (normalize_items read_float read_time flds depth items n) (\<lambda>(ys, m). Inr (PDict y # ys, m))))"
  by pat_completeness auto
termination
  by (relation "measures [\<lambda>q. case q of Inl (_, _, _, depth, _, _) \<Rightarrow> 10 - depth | Inr (_, _, _, depth, _, _) \<Rightarrow> 10 - depth,
      \<lambda>q. case q of Inl _ \<Rightarrow> 0 | Inr (_, _, _, _, items, _) \<Rightarrow> Suc (length items)]") (auto simp: max_condition_depth_def)

declare normalize_conditions.simps [simp del] normalize_items.simps [simp del]

subsection \<open>Actions\<close>

definition write_field :: "table_field list \<Rightarrow> string \<times> pyval \<Rightarrow> (string \<times> pyval) res" where
  "write_field flds = (\<lambda>(raw, v).
     bind_res (require_field flds (PStr raw)) (\<lambda>f.
       if fld_type f \<in> set non_writable_field_types
       then invalid (''Field '' @ fld_name f @ '' cannot be written by automation'')
       else Inr (fld_id f, v)))"

definition normalize_write_fields :: "pyval \<Rightarrow> table_field list \<Rightarrow> string \<Rightarrow> dict res" where
  "normalize_write_fields v flds action_name =
     (case v of
        PDict d \<Rightarrow>
          if d = [] then invalid (action_name @ '' requires a non-empty fields object'')
          else bind_res (map_res (write_field flds) d) (\<lambda>kvs. Inr (dupdate [] kvs))
      | _ \<Rightarrow> invalid (action_name @ '' requires a non-empty fields object''))"

definition normalize_recipients :: "pyval \<Rightarrow> int list res" where
  "normalize_recipients v = (case py_or v (PList []) of
       PList xs \<Rightarrow>
         bind_res (map_res (\<lambda>x. or_invalid ''recipientUserIds must contain integers'' (py_int x)) xs) (\<lambda>ns.
           Inr (foldl add_once [] (filter (\<lambda>n. n > 0) ns)))
     | _ \<Rightarrow> invalid ''recipientUserIds must be a list'')"

definition default_message :: string where
  "default_message = map char_of [232, 135, 170, 229, 138, 168, 229, 140, 150, 232, 167, 132, 229, 136, 153, 229, 183,
     178, 232, 167, 166, 229, 143, 145 :: nat]"

definition normalize_notify :: "dict \<Rightarrow> table_field list \<Rightarrow> dict res" where
  "normalize_notify raw flds =
     bind_res (normalize_recipients (dget raw ''recipientUserIds'')) (\<lambda>recipients.
     bind_res (if dget raw ''recipientFieldId'' = PNone then Inr []
               else bind_res (require_field flds (dget raw ''recipientFieldId'')) (\<lambda>f.
                 if fld_type f \<noteq> ''member'' then invalid ''recipientFieldId must reference a member field''
                 else Inr [(''recipientFieldId'', PStr (fld_id f))])) (\<lambda>field.
     if recipients = [] \<and> field = [] then invalid ''notify requires recipientUserIds or recipientFieldId''
     else
       let notification_type = strip (py_str (py_or (dget raw ''notificationType'') (PStr ''automation'')));
           message = strip (py_str (py_or (dget raw ''message'') (PStr default_message))) in
       if notification_type \<notin> set automation_notification_types
         then invalid (''Unsupported notificationType: '' @ notification_type)
       else if message = [] then invalid ''notify message cannot be empty''
       else if length message > 500 then invalid ''notify message cannot exceed 500 characters''
       else Inr ((if recipients = [] then [] else [(''recipientUserIds'', PList (map PInt recipients))]) @ field
              @ [(''notificationType'', PStr notification_type), (''message'', PStr message)])))"

definition normalize_action :: "table_field list \<Rightarrow> nat \<times> pyval \<Rightarrow> dict res" where
  "normalize_action flds = (\<lambda>(index, v). case v of
       PDict raw \<Rightarrow>
         let ty = strip (str_or_empty (dget raw ''type'')) in
         if ty \<notin> set action_types then invalid (''Unsupported action type: '' @ ty)
         else if ty = ''notify'' then bind_res (normalize_notify raw flds) (\<lambda>more. Inr ((''type'', PStr ty) # more))
         else bind_res (normalize_write_fields (dget raw ''fields'') flds ty) (\<lambda>d. Inr [(''type'', PStr ty), (''fields'', PDict d)])
     | _ \<Rightarrow> invalid (''Action '' @ dec_nat (Suc index) @ '' must be an object''))"

definition normalize_actions :: "pyval \<Rightarrow> table_field list \<Rightarrow> dict list res" where
  "normalize_actions v flds = (case v of
       PList xs \<Rightarrow>
         if xs = [] then invalid ''At least one action is required''
         else if length xs > max_actions then invalid ''No more than 32 actions are allowed''
         else map_res (normalize_action flds) (enumerate 0 xs)
     | _ \<Rightarrow> invalid ''actions must be a list'')"

definition required_permission_for_actions :: "dict list \<Rightarrow> string" where
  "required_permission_for_actions actions =
     (if list_ex (\<lambda>a. dget a ''type'' \<in> {PStr ''update_record'', PStr ''create_record''}) actions then ''update'' else ''read'')"

record automation_definition =
  def_trigger :: dict
  def_conditions :: dict
  def_actions :: "dict list"
  def_timezone :: string
  def_retries :: int

definition validate_automation_definition ::
  "float_reader \<Rightarrow> time_reader \<Rightarrow> zone_reader \<Rightarrow> tables \<Rightarrow> string \<Rightarrow> pyval \<Rightarrow> pyval \<Rightarrow> pyval \<Rightarrow> pyval \<Rightarrow> pyval
    \<Rightarrow> automation_definition res" where
  "validate_automation_definition read_float read_time zones t table_id trigger conditions actions tz retries =
     (let flds = ordered_fields t table_id in
      if flds = [] then invalid ''Table has no fields''
      else
        bind_res (normalize_trigger read_float read_time trigger flds) (\<lambda>tr.
        bind_res (normalize_conditions read_float read_time flds 0 conditions 0) (\<lambda>(co, _).
        bind_res (normalize_actions actions flds) (\<lambda>ac.
        bind_res (normalize_timezone zones tz) (\<lambda>zone.
        bind_res (normalize_max_retries retries) (\<lambda>n.
          Inr \<lparr>def_trigger = tr, def_conditions = co, def_actions = ac, def_timezone = zone, def_retries = n\<rparr>))))))"

section \<open>Evaluating the conditions\<close>

definition type_error :: "'a res" where
  "type_error = Inl (Exn TypeError ''unsupported operand'')"

text \<open>Iteration and \<open>in\<close>, where the value may be any JSON value.\<close>

definition py_iter :: "pyval \<Rightarrow> pyval list res" where
  "py_iter v = (case v of
       PList xs \<Rightarrow> Inr xs
     | PStr s \<Rightarrow> Inr (map (\<lambda>c. PStr [c]) s)
     | PDict d \<Rightarrow> Inr (map (\<lambda>kv. PStr (fst kv)) d)
     | _ \<Rightarrow> type_error)"

definition py_in :: "pyval \<Rightarrow> pyval \<Rightarrow> bool res" where
  "py_in x container = (case container of
       PList ys \<Rightarrow> Inr (list_ex (py_eq x) ys)
     | PStr s \<Rightarrow> (case x of PStr p \<Rightarrow> Inr (substring p s) | _ \<Rightarrow> type_error)
     | PDict d \<Rightarrow> (case x of PList _ \<Rightarrow> type_error | PDict _ \<Rightarrow> type_error | PStr k \<Rightarrow> Inr (dhas d k) | _ \<Rightarrow> Inr False)
     | _ \<Rightarrow> type_error)"

datatype order_op = GT | GTE | LT | LTE

fun by_op :: "order_op \<Rightarrow> 'a::linorder \<Rightarrow> 'a \<Rightarrow> bool" where
  "by_op GT x y = (x > y)"
| "by_op GTE x y = (x \<ge> y)"
| "by_op LT x y = (x < y)"
| "by_op LTE x y = (x \<le> y)"

fun py_compare :: "order_op \<Rightarrow> pyval \<Rightarrow> pyval \<Rightarrow> bool res"
  and py_compare_list :: "order_op \<Rightarrow> pyval list \<Rightarrow> pyval list \<Rightarrow> bool res" where
  "py_compare op (PStr s) w = (case w of PStr s' \<Rightarrow> Inr (by_op op s s') | _ \<Rightarrow> type_error)"
| "py_compare op (PList xs) w = (case w of PList ys \<Rightarrow> py_compare_list op xs ys | _ \<Rightarrow> type_error)"
| "py_compare op v w = (case (num_of v, num_of w) of (Some a, Some b) \<Rightarrow> Inr (by_op op a b) | _ \<Rightarrow> type_error)"
| "py_compare_list op [] ys = Inr (by_op op 0 (length ys))"
| "py_compare_list op (x # xs) ys = (case ys of
       [] \<Rightarrow> Inr (by_op op (Suc (length xs)) 0)
     | y # ys' \<Rightarrow> if py_eq x y then py_compare_list op xs ys' else py_compare op x y)"

text \<open>\<open>_coerce_order_value\<close>: a number, an instant in UTC, or the value itself.\<close>

datatype order_value = ONum rat | OTime int | ORaw pyval

fun same_value :: "order_value \<Rightarrow> order_value \<Rightarrow> bool" where
  "same_value (ONum a) (ONum b) = (a = b)"
| "same_value (OTime a) (OTime b) = (a = b)"
| "same_value (ORaw v) (ORaw w) = py_eq v w"
| "same_value _ _ = False"

definition is_empty_value :: "pyval \<Rightarrow> bool" where
  "is_empty_value v \<longleftrightarrow> v \<in> {PNone, PStr [], PList [], PDict []}"

definition utc_of :: "int \<times> int option \<Rightarrow> int" where
  "utc_of = (\<lambda>(wall, offset). case offset of None \<Rightarrow> wall | Some z \<Rightarrow> wall - z)"

definition coerce_order_value :: "float_reader \<Rightarrow> time_reader \<Rightarrow> pyval \<Rightarrow> string \<Rightarrow> order_value option res" where
  "coerce_order_value read_float read_time v field_type =
     (if field_type \<in> set numeric_field_types then
        (case read_float v of
           Inr (q, _) \<Rightarrow> Inr (Some (ONum q))
         | Inl e \<Rightarrow> if exn_class e = TypeError \<or> is_value_error (exn_class e) then Inr None else Inl e)
      else if field_type \<in> set date_field_types then Inr (map_option (OTime \<circ> utc_of) (parse_datetime_value read_time v))
      else Inr (if v = PNone then None else Some (ORaw v)))"

definition typed_field :: "string \<Rightarrow> bool" where
  "typed_field ty \<longleftrightarrow> ty \<in> set numeric_field_types \<or> ty \<in> set date_field_types"

definition same_coerced :: "order_value option \<Rightarrow> order_value option \<Rightarrow> bool" where
  "same_coerced a b \<longleftrightarrow> (case (a, b) of (Some x, Some y) \<Rightarrow> same_value x y | _ \<Rightarrow> False)"

definition compare_coerced :: "order_op \<Rightarrow> order_value option \<Rightarrow> order_value option \<Rightarrow> bool res" where
  "compare_coerced op a b = (case (a, b) of
       (Some (ONum x), Some (ONum y)) \<Rightarrow> Inr (by_op op x y)
     | (Some (OTime x), Some (OTime y)) \<Rightarrow> Inr (by_op op x y)
     | (Some (ORaw x), Some (ORaw y)) \<Rightarrow> py_compare op x y
     | _ \<Rightarrow> Inr False)"

definition order_op_of :: "string \<Rightarrow> order_op option" where
  "order_op_of operator = (if operator = ''gt'' then Some GT else if operator = ''gte'' then Some GTE
     else if operator = ''lt'' then Some LT else if operator = ''lte'' then Some LTE else None)"

definition negate_if :: "bool \<Rightarrow> bool res \<Rightarrow> bool res" where
  "negate_if b r = bind_res r (\<lambda>x. Inr (if b then \<not> x else x))"

definition evaluate_leaf ::
  "float_reader \<Rightarrow> time_reader \<Rightarrow> string \<Rightarrow> string \<Rightarrow> pyval \<Rightarrow> pyval \<Rightarrow> bool res" where
  "evaluate_leaf read_float read_time field_type operator actual expected =
     (let coerce = (\<lambda>v. coerce_order_value read_float read_time v field_type) in
      if operator = ''empty'' then Inr (is_empty_value actual)
      else if operator = ''not_empty'' then Inr (\<not> is_empty_value actual)
      else if operator \<in> {''equals'', ''not_equals''} then
        negate_if (operator = ''not_equals'')
          (if typed_field field_type
           then bind_res (coerce actual) (\<lambda>a. bind_res (coerce expected) (\<lambda>b. Inr (same_coerced a b)))
           else Inr (py_eq actual expected))
      else if operator \<in> {''in'', ''not_in''} then
        negate_if (operator = ''not_in'')
          (if typed_field field_type
           then bind_res (coerce actual) (\<lambda>a.
                bind_res (py_iter (py_or expected (PList []))) (\<lambda>xs.
                bind_res (map_res coerce xs) (\<lambda>bs. Inr (list_ex (same_coerced a) bs))))
           else py_in actual (py_or expected (PList [])))
      else if operator \<in> {''contains'', ''not_contains''} then
        negate_if (operator = ''not_contains'')
          (case actual of
             PList xs \<Rightarrow> Inr (list_ex (py_eq expected) xs)
           | _ \<Rightarrow> Inr (substring (str_or_empty expected) (str_or_empty actual)))
      else
        bind_res (coerce actual) (\<lambda>a. bind_res (coerce expected) (\<lambda>b.
          if a = None \<or> b = None then Inr False
          else case order_op_of operator of None \<Rightarrow> Inr False | Some op \<Rightarrow> compare_coerced op a b)))"

lemma py_iter_size: "py_iter (py_or v (PList [])) = Inr xs \<Longrightarrow> x \<in> set xs \<Longrightarrow> size x < size v \<or> (\<exists>s. x = PStr s)"
proof -
  assume h: "py_iter (py_or v (PList [])) = Inr xs" "x \<in> set xs"
  have "x \<in> set ys \<Longrightarrow> size x < size (PList ys)" for ys by (induction ys) auto
  with h show ?thesis by (cases v) (auto simp: py_or_def py_iter_def type_error_def split: if_splits)
qed

text \<open>The list of results is complete before \<open>all\<close> or \<open>any\<close> looks at it.\<close>

function evaluate_conditions ::
  "float_reader \<Rightarrow> time_reader \<Rightarrow> table_field list \<Rightarrow> dict \<Rightarrow> dict \<Rightarrow> bool res" where
  "evaluate_conditions read_float read_time flds rec c =
     (if dhas c ''items'' then
        case py_iter (py_or (dget c ''items'') (PList [])) of
          Inl e \<Rightarrow> Inl e
        | Inr items \<Rightarrow>
            bind_res (map_res (\<lambda>item. case item of PDict d \<Rightarrow> evaluate_conditions read_float read_time flds rec d | _ \<Rightarrow> type_error) items)
              (\<lambda>results. Inr (if py_str (py_or (dget c ''op'') (PStr ''and'')) = ''and'' then list_all (\<lambda>b. b) results
                 else list_ex (\<lambda>b. b) results))
      else
        let field_id = str_or_empty (dget c ''fieldId'') in
        case field_with flds field_id of
          None \<Rightarrow> Inr False
        | Some f \<Rightarrow> evaluate_leaf read_float read_time (fld_type f) (str_or_empty (dget c ''operator''))
            (dget rec field_id) (dget c ''value''))"
  by pat_completeness auto
termination
proof (relation "measure (\<lambda>(_, _, _, _, c). size (PDict c))", goal_cases)
  case (2 read_float read_time flds rec c items item d)
  then show ?case using py_iter_size[of "dget c ''items''" items item] dget_size[of c "''items''"]
    by auto
qed simp

declare evaluate_conditions.simps [simp del]

section \<open>What a stored definition guarantees\<close>

text \<open>
  A normalised condition with at most \<open>k\<close> levels of groups: every group is \<open>and\<close> or \<open>or\<close>,
  every leaf names a field of the table with an operator its type allows and the value that
  operator needs.
\<close>

inductive good_cond :: "table_field list \<Rightarrow> nat \<Rightarrow> dict \<Rightarrow> bool" for flds where
  group: "op \<in> {''and'', ''or''} \<Longrightarrow> \<forall>y\<in>set ys. \<exists>d. y = PDict d \<and> good_cond flds k d
     \<Longrightarrow> good_cond flds (Suc k) [(''op'', PStr op), (''items'', PList ys)]"
| test: "field_with flds i = Some f \<Longrightarrow> operator \<in> set (allowed_operators f) \<Longrightarrow> operator \<in> {''empty'', ''not_empty''}
     \<Longrightarrow> good_cond flds k [(''fieldId'', PStr i), (''operator'', PStr operator)]"
| compare: "field_with flds i = Some f \<Longrightarrow> operator \<in> set (allowed_operators f) \<Longrightarrow> operator \<notin> {''empty'', ''not_empty''}
     \<Longrightarrow> operator \<in> {''in'', ''not_in''} \<longrightarrow> (\<exists>xs. v = PList xs)
     \<Longrightarrow> good_cond flds k [(''fieldId'', PStr i), (''operator'', PStr operator), (''value'', v)]"

text \<open>All items of all groups.\<close>

fun cond_items :: "pyval \<Rightarrow> nat" where
  "cond_items (PDict d) = sum_list (map (\<lambda>(k, v). if k = ''items'' then cond_items v else 0) d)"
| "cond_items (PList ys) = sum_list (map (\<lambda>y. Suc (cond_items y)) ys)"
| "cond_items _ = 0"

lemma require_field_found: "require_field flds v = Inr f \<Longrightarrow> field_with flds (fld_id f) = Some f \<and> f \<in> set flds"
proof -
  assume "require_field flds v = Inr f"
  then have s: "find (\<lambda>x. fld_id x = strip (str_or_empty v)) flds = Some f"
    by (auto simp: require_field_def field_with_def invalid_def Let_def split: option.splits if_splits)
  from find_SomeD[OF this] have "f \<in> set flds" "fld_id f = strip (str_or_empty v)" by auto
  with s show ?thesis by (simp add: field_with_def)
qed

lemma normalize_leaf_good:
  assumes "normalize_leaf rf rt flds c = Inr leaf"
  shows "good_cond flds k leaf" "cond_items (PDict leaf) = 0"
proof -
  from assms obtain f where f: "require_field flds (dget c ''fieldId'') = Inr f" by (auto simp: normalize_leaf_def)
  let ?op = "lower (strip (str_or_empty (dget c ''operator'')))"
  from assms f have op: "?op \<in> set (allowed_operators f)"
    by (auto simp: normalize_leaf_def Let_def invalid_def split: if_splits)
  have shape: "(?op \<in> {''empty'', ''not_empty''} \<and> leaf = [(''fieldId'', PStr (fld_id f)), (''operator'', PStr ?op)])
    \<or> (\<exists>v. ?op \<notin> {''empty'', ''not_empty''} \<and> leaf = [(''fieldId'', PStr (fld_id f)), (''operator'', PStr ?op), (''value'', v)]
        \<and> (?op \<in> {''in'', ''not_in''} \<longrightarrow> (\<exists>xs. v = PList xs)))"
    using assms f op unfolding normalize_leaf_def Let_def
    by (auto simp: invalid_def typed_condition_value_def is_list_value_def Let_def split: if_splits pyval.splits)
  then show "good_cond flds k leaf" using require_field_found[OF f] op by (auto intro: good_cond.intros)
  from shape show "cond_items (PDict leaf) = 0" by auto
qed

lemma normalize_good:
  "normalize_conditions rf rt flds depth v counter = Inr (c, n) \<Longrightarrow> depth \<le> 9 \<Longrightarrow> counter \<le> 64 \<Longrightarrow>
     good_cond flds (10 - depth) c \<and> n = counter + cond_items (PDict c) \<and> n \<le> 64"
  "normalize_items rf rt flds depth xs counter = Inr (ys, n) \<Longrightarrow> depth \<le> 9 \<Longrightarrow> counter \<le> 64 \<Longrightarrow>
     (\<forall>y\<in>set ys. \<exists>d. y = PDict d \<and> good_cond flds (10 - depth) d) \<and> n = counter + cond_items (PList ys) \<and> n \<le> 64"
proof (induction rf rt flds depth v counter and rf rt flds depth xs counter arbitrary: c n and ys n
    rule: normalize_conditions_normalize_items.induct)
  case (1 rf rt flds depth v counter)
  show ?case
  proof (cases "v \<in> {PNone, PDict [], PList []}")
    case True
    with 1(2,3) have "c = [(''op'', PStr ''and''), (''items'', PList [])]" "n = counter"
      by (simp_all add: normalize_conditions.simps[of _ _ _ _ v])
    moreover have "good_cond flds (Suc (9 - depth)) [(''op'', PStr ''and''), (''items'', PList [])]"
      by (rule good_cond.group) auto
    moreover have "10 - depth = Suc (9 - depth)" using 1(3) by arith
    ultimately show ?thesis using 1(4) by simp
  next
    case False
    then obtain d where d: "v = PDict d" "depth \<le> 8" and r: "(if condition_group d then
            let op = lower (strip (py_str (py_or (dget d ''op'') (PStr ''and'')))) in
            if op \<notin> {''and'', ''or''} then invalid ''Condition group op must be and or or''
            else (case py_or (dget d ''items'') (PList []) of
                PList items \<Rightarrow>
                  bind_res (normalize_items rf rt flds (Suc depth) items counter) (\<lambda>(ys, n).
                    Inr ([(''op'', PStr op), (''items'', PList ys)], n))
              | _ \<Rightarrow> invalid ''Condition group items must be a list'')
          else bind_res (normalize_leaf rf rt flds d) (\<lambda>leaf. Inr (leaf, counter))) = Inr (c, n)"
      using 1(2) unfolding normalize_conditions.simps[of rf rt flds depth v counter]
      by (cases v) (simp_all add: max_condition_depth_def invalid_def split: if_splits)
    show ?thesis
    proof (cases "condition_group d")
      case True
      let ?op = "lower (strip (py_str (py_or (dget d ''op'') (PStr ''and''))))"
      from r True obtain items ys where i: "?op \<in> {''and'', ''or''}" "py_or (dget d ''items'') (PList []) = PList items"
        "normalize_items rf rt flds (Suc depth) items counter = Inr (ys, n)" "c = [(''op'', PStr ?op), (''items'', PList ys)]"
        by (auto simp: Let_def invalid_def split: if_splits pyval.splits)
      have "(\<forall>y\<in>set ys. \<exists>d. y = PDict d \<and> good_cond flds (10 - Suc depth) d) \<and> n = counter + cond_items (PList ys) \<and> n \<le> 64"
        by (rule 1(1)[OF False _ d(1) True refl _ i(2,3)]) (use d(2) i(1) 1(4) in \<open>auto simp: max_condition_depth_def\<close>)
      moreover from this have "good_cond flds (Suc (10 - Suc depth)) c" unfolding i(4) by (intro good_cond.group i(1)) simp
      moreover have "10 - depth = Suc (10 - Suc depth)" using d(2) by arith
      ultimately show ?thesis by (simp add: i(4))
    next
      case False
      with r obtain leaf where "normalize_leaf rf rt flds d = Inr leaf" "c = leaf" "n = counter" by auto
      with normalize_leaf_good[of rf rt flds d leaf] 1(4) show ?thesis by simp
    qed
  qed
next
  case (2 rf rt flds depth counter)
  then show ?case by (simp add: normalize_items.simps)
next
  case (3 rf rt flds depth item items counter)
  from 3(3) obtain y m zs where r: "Suc counter \<le> 64" "normalize_conditions rf rt flds depth item (Suc counter) = Inr (y, m)"
    "normalize_items rf rt flds depth items m = Inr (zs, n)" "ys = PDict y # zs"
    by (auto simp: normalize_items.simps max_condition_items_def invalid_def split: if_splits)
  have a: "good_cond flds (10 - depth) y \<and> m = Suc counter + cond_items (PDict y) \<and> m \<le> 64"
    by (rule 3(1)) (use r 3(4) in \<open>auto simp: max_condition_items_def\<close>)
  have "(\<forall>y\<in>set zs. \<exists>d. y = PDict d \<and> good_cond flds (10 - depth) d) \<and> n = m + cond_items (PList zs) \<and> n \<le> 64"
    by (rule 3(2)) (use r 3(4) a in \<open>auto simp: max_condition_items_def\<close>)
  with a r(4) show ?case by auto
qed

text \<open>A reader of floats that raises what Python's \<open>float\<close> raises on everything but too large integers.\<close>

definition reader_ok :: "float_reader \<Rightarrow> bool" where
  "reader_ok read_float \<longleftrightarrow> (\<forall>v e. read_float v = Inl e \<longrightarrow> exn_class e = TypeError \<or> is_value_error (exn_class e))"

lemma coerce_total: "reader_ok rf \<Longrightarrow> \<exists>a. coerce_order_value rf rt v ty = Inr a"
  by (auto simp: coerce_order_value_def reader_ok_def split: sum.splits)

lemma coerce_typed:
  assumes "coerce_order_value rf rt v ty = Inr (Some a)" "coerce_order_value rf rt w ty = Inr (Some b)" "typed_field ty"
  shows "(\<exists>x y. a = ONum x \<and> b = ONum y) \<or> (\<exists>x y. a = OTime x \<and> b = OTime y)"
  using assms by (auto simp: coerce_order_value_def typed_field_def split: if_splits sum.splits)

lemma map_res_total: "(\<And>x. x \<in> set xs \<Longrightarrow> \<exists>y. f x = Inr y) \<Longrightarrow> \<exists>ys. map_res f xs = Inr ys"
proof (induction xs)
  case (Cons x xs)
  then obtain y ys where "f x = Inr y" "map_res f xs = Inr ys" by (metis list.set_intros)
  then show ?case by simp
qed simp

lemma negate_total: "\<exists>b. r = Inr b \<Longrightarrow> \<exists>b'. negate_if n r = Inr b'"
  by (auto simp: negate_if_def)

definition eq_ops :: "string set" where "eq_ops = {''equals'', ''not_equals''}"
definition in_ops :: "string set" where "in_ops = {''in'', ''not_in''}"
definition test_ops :: "string set" where "test_ops = {''empty'', ''not_empty''}"
definition contains_ops :: "string set" where "contains_ops = {''contains'', ''not_contains''}"
definition compare_ops :: "string set" where "compare_ops = {''gt'', ''gte'', ''lt'', ''lte''}"

lemma operator_sets:
  "set order_operators = eq_ops \<union> in_ops \<union> test_ops \<union> compare_ops" "set text_operators = eq_ops \<union> in_ops \<union> test_ops \<union> contains_ops"
  by (simp_all add: order_operators_def text_operators_def base_operators_def eq_ops_def in_ops_def test_ops_def contains_ops_def compare_ops_def insert_commute)

lemma allowed_cases:
  "operator \<in> set (allowed_operators f) \<Longrightarrow> operator \<in> test_ops \<or> operator \<in> eq_ops \<or> operator \<in> in_ops
    \<or> operator \<in> contains_ops \<or> operator \<in> compare_ops \<and> typed_field (fld_type f)"
  by (auto simp: allowed_operators_def typed_field_def operator_sets split: if_splits)

lemma evaluate_leaf_total:
  assumes rf: "reader_ok rf" and op: "operator \<in> set (allowed_operators f)"
    and v: "operator \<in> {''in'', ''not_in''} \<longrightarrow> (\<exists>xs. expected = PList xs)"
  shows "\<exists>b. evaluate_leaf rf rt (fld_type f) operator actual expected = Inr b"
proof -
  let ?ty = "fld_type f"
  have c: "\<exists>a. coerce_order_value rf rt x ?ty = Inr a" for x by (rule coerce_total[OF rf])
  obtain a b where ab: "coerce_order_value rf rt actual ?ty = Inr a" "coerce_order_value rf rt expected ?ty = Inr b" using c by metis
  consider (simple) "operator \<in> test_ops" | (eq) "operator \<in> eq_ops" | (inn) "operator \<in> in_ops"
    | (contains) "operator \<in> contains_ops" | (ord) "operator \<in> compare_ops" "typed_field ?ty"
    using allowed_cases[OF op] by blast
  then show ?thesis
  proof cases
    case simple
    then show ?thesis by (auto simp: evaluate_leaf_def test_ops_def)
  next
    case eq
    have "\<exists>r. (if typed_field ?ty then bind_res (coerce_order_value rf rt actual ?ty) (\<lambda>a. bind_res (coerce_order_value rf rt expected ?ty)
        (\<lambda>b. Inr (same_coerced a b))) else Inr (py_eq actual expected)) = Inr r" using ab by simp
    from negate_total[OF this] eq show ?thesis by (auto simp: evaluate_leaf_def eq_ops_def)
  next
    case inn
    then have "operator \<in> {''in'', ''not_in''}" by (simp add: in_ops_def)
    with v obtain xs where "expected = PList xs" by blast
    then have xs: "py_iter (py_or expected (PList [])) = Inr xs" "py_or expected (PList []) = PList xs"
      by (simp_all add: py_or_def py_iter_def)
    obtain bs where "map_res (\<lambda>v. coerce_order_value rf rt v ?ty) xs = Inr bs"
      using map_res_total[of xs "\<lambda>v. coerce_order_value rf rt v ?ty"] c by blast
    with ab xs have "\<exists>r. (if typed_field ?ty then bind_res (coerce_order_value rf rt actual ?ty) (\<lambda>a.
                bind_res (py_iter (py_or expected (PList []))) (\<lambda>xs.
                bind_res (map_res (\<lambda>v. coerce_order_value rf rt v ?ty) xs) (\<lambda>bs. Inr (list_ex (same_coerced a) bs))))
           else py_in actual (py_or expected (PList []))) = Inr r" by (simp add: py_in_def)
    from negate_total[OF this] inn show ?thesis by (auto simp: evaluate_leaf_def in_ops_def Let_def)
  next
    case contains
    have "\<exists>r. (case actual of PList xs \<Rightarrow> Inr (list_ex (py_eq expected) xs)
           | _ \<Rightarrow> Inr (substring (str_or_empty expected) (str_or_empty actual))) = (Inr r :: bool res)" by (cases actual) auto
    from negate_total[OF this] contains show ?thesis by (auto simp: evaluate_leaf_def contains_ops_def)
  next
    case ord
    have "\<exists>r. compare_coerced x a b = Inr r" if "a \<noteq> None" "b \<noteq> None" for x
      using coerce_typed[OF _ _ ord(2)] ab that by (fastforce simp: compare_coerced_def)
    with ord(1) ab show ?thesis by (auto simp: evaluate_leaf_def order_op_of_def compare_ops_def)
  qed
qed

lemma good_cond_evaluates:
  assumes rf: "reader_ok rf" and g: "good_cond flds k c"
  shows "\<exists>b. evaluate_conditions rf rt flds rec c = Inr b"
  using g
proof (induction rule: good_cond.induct)
  case (group op ys k)
  have "\<exists>bs. map_res (\<lambda>item. case item of PDict d \<Rightarrow> evaluate_conditions rf rt flds rec d | _ \<Rightarrow> type_error) ys = Inr bs"
    by (rule map_res_total) (use group(2) in fastforce)
  then show ?case by (auto simp: evaluate_conditions.simps[of _ _ _ _ "[(''op'', PStr op), (''items'', PList ys)]"] py_iter_def py_or_def)
next
  case (test i f operator k)
  with evaluate_leaf_total[OF rf test(2), where expected = PNone] show ?case
    by (auto simp: evaluate_conditions.simps[of _ _ _ _ "[(''fieldId'', PStr i), (''operator'', PStr operator)]"] str_or_empty_def py_str_def Let_def)
next
  case (compare i f operator v k)
  with evaluate_leaf_total[OF rf compare(2,4)] show ?case
    by (auto simp: evaluate_conditions.simps[of _ _ _ _ "[(''fieldId'', PStr i), (''operator'', PStr operator), (''value'', v)]"]
        str_or_empty_def py_str_def Let_def)
qed

definition good_trigger :: "table_field list \<Rightarrow> dict \<Rightarrow> bool" where
  "good_trigger flds tr \<longleftrightarrow> (\<exists>ty. dget tr ''type'' = PStr ty \<and> ty \<in> set trigger_types
     \<and> (ty = ''record.updated'' \<longrightarrow> (\<exists>ids. dget tr ''fieldIds'' = (if ids = [] then PNone else PList (map PStr ids))
          \<and> (\<forall>i\<in>set ids. field_with flds i \<noteq> None) \<and> distinct ids \<and> (dhas tr ''from'' \<or> dhas tr ''to'' \<longrightarrow> length ids = 1)))
     \<and> (ty = ''scheduled'' \<longrightarrow> (\<exists>n. dget tr ''intervalMinutes'' = PInt n \<and> 1 \<le> n \<and> n \<le> max_interval_minutes))
     \<and> (ty = ''due_date'' \<longrightarrow> (\<exists>i f n m. dget tr ''fieldId'' = PStr i \<and> field_with flds i = Some f \<and> fld_type f \<in> set date_field_types
          \<and> dget tr ''offsetMinutes'' = PInt n \<and> 0 \<le> n \<and> n \<le> max_due_offset_minutes
          \<and> dget tr ''scanIntervalMinutes'' = PInt m \<and> 1 \<le> m \<and> m \<le> 1440)))"

definition good_action :: "table_field list \<Rightarrow> dict \<Rightarrow> bool" where
  "good_action flds a \<longleftrightarrow>
     (\<exists>ty d. a = [(''type'', PStr ty), (''fields'', PDict d)] \<and> ty \<in> {''update_record'', ''create_record''} \<and> d \<noteq> [] \<and> wf_dict d
        \<and> (\<forall>k\<in>set (map fst d). \<exists>f. field_with flds k = Some f \<and> fld_type f \<notin> set non_writable_field_types))
   \<or> (\<exists>m. dget a ''type'' = PStr ''notify'' \<and> dget a ''message'' = PStr m \<and> m \<noteq> [] \<and> length m \<le> 500
        \<and> ((\<exists>ns. dget a ''recipientUserIds'' = PList (map PInt ns) \<and> ns \<noteq> [] \<and> (\<forall>n\<in>set ns. n > 0))
         \<or> (\<exists>i f. dget a ''recipientFieldId'' = PStr i \<and> field_with flds i = Some f \<and> fld_type f = ''member'')))"

lemma foldl_add_once: "set (foldl add_once acc xs) = set acc \<union> set xs" "distinct acc \<Longrightarrow> distinct (foldl add_once acc xs)"
  by (induction xs arbitrary: acc) (auto simp: add_once_def)

lemma map_res_in: "map_res f xs = Inr ys \<Longrightarrow> y \<in> set ys \<Longrightarrow> \<exists>x\<in>set xs. f x = Inr y"
  by (induction xs arbitrary: ys) auto

lemma normalize_field_ids_good:
  assumes "normalize_field_ids v flds = Inr ids"
  shows "(\<forall>i\<in>set ids. field_with flds i \<noteq> None) \<and> distinct ids"
proof (cases v)
  case (PList xs)
  with assms obtain fs where fs: "map_res (require_field flds) xs = Inr fs" "ids = foldl add_once [] (map fld_id fs)"
    by (auto simp: normalize_field_ids_def)
  have "field_with flds (fld_id f) \<noteq> None" if "f \<in> set fs" for f
    using map_res_in[OF fs(1) that] require_field_found by fastforce
  then show ?thesis by (auto simp: fs(2) foldl_add_once)
qed (use assms in \<open>auto simp: normalize_field_ids_def invalid_def\<close>)

lemma or_invalid_Inr [simp]: "or_invalid msg r = Inr x \<longleftrightarrow> r = Inr x"
  by (auto simp: or_invalid_def invalid_def split: sum.splits)

lemma if_Inr: "(if b then Inl e else r) = Inr x \<longleftrightarrow> \<not> b \<and> r = Inr x"
  by auto

lemma updated_trigger_good:
  assumes "updated_trigger rf rt flds d = Inr extra"
  shows "\<exists>ids. dget extra ''fieldIds'' = (if ids = [] then PNone else PList (map PStr ids)) \<and> (\<forall>i\<in>set ids. field_with flds i \<noteq> None)
    \<and> distinct ids \<and> (dhas extra ''from'' \<or> dhas extra ''to'' \<longrightarrow> length ids = 1)"
proof -
  from assms obtain listed ids fr tt where
    l: "normalize_field_ids (dget d ''fieldIds'') flds = Inr listed"
    and ids: "(if dget d ''fieldId'' = PNone then Inr listed
               else bind_res (require_field flds (dget d ''fieldId'')) (\<lambda>f. Inr (add_once listed (fld_id f)))) = Inr ids"
    and one: "dhas d ''from'' \<or> dhas d ''to'' \<longrightarrow> length ids = 1"
    and r: "transition_value rf rt flds d ids ''from'' ''Trigger from value'' = Inr fr"
      "transition_value rf rt flds d ids ''to'' ''Trigger to value'' = Inr tt"
    and extra: "extra = (if ids = [] then [] else [(''fieldIds'', PList (map PStr ids))]) @ fr @ tt"
    unfolding updated_trigger_def invalid_def bind_res_Inr if_Inr by blast
  have fr: "if dhas d ''from'' then \<exists>v. fr = [(''from'', v)] else fr = []" and tt: "if dhas d ''to'' then \<exists>v. tt = [(''to'', v)] else tt = []"
    using r by (auto simp: transition_value_def split: option.splits)
  from normalize_field_ids_good[OF l] ids have "(\<forall>i\<in>set ids. field_with flds i \<noteq> None) \<and> distinct ids"
    using require_field_found by (auto simp: add_once_def split: if_splits)
  moreover have "dget extra ''fieldIds'' = (if ids = [] then PNone else PList (map PStr ids))"
    using fr tt by (auto simp: extra split: if_splits)
  moreover have "dhas extra ''from'' \<or> dhas extra ''to'' \<longrightarrow> length ids = 1" using fr tt one by (auto simp: extra split: if_splits)
  ultimately show ?thesis by blast
qed

lemma normalize_trigger_good:
  assumes "normalize_trigger rf rt v flds = Inr tr" shows "good_trigger flds tr"
proof -
  from assms obtain d ty extra where ty: "ty \<in> set trigger_types" and tr: "tr = (''type'', PStr ty) # extra"
    and m: "(if ty = ''record.updated'' then updated_trigger rf rt flds d
            else if ty = ''scheduled'' then scheduled_trigger d
            else if ty = ''due_date'' then due_trigger flds d else Inr []) = Inr extra"
    unfolding normalize_trigger_def Let_def invalid_def by (auto split: pyval.splits if_splits)
  have 1: "ty = ''record.updated'' \<longrightarrow> (\<exists>ids. dget tr ''fieldIds'' = (if ids = [] then PNone else PList (map PStr ids))
          \<and> (\<forall>i\<in>set ids. field_with flds i \<noteq> None) \<and> distinct ids \<and> (dhas tr ''from'' \<or> dhas tr ''to'' \<longrightarrow> length ids = 1))"
    using m updated_trigger_good by (auto simp: tr split del: if_split)
  have 2: "ty = ''scheduled'' \<longrightarrow> (\<exists>n. dget tr ''intervalMinutes'' = PInt n \<and> 1 \<le> n \<and> n \<le> max_interval_minutes)"
    using m by (auto simp: tr scheduled_trigger_def invalid_def split: if_splits)
  have 3: "ty = ''due_date'' \<longrightarrow> (\<exists>i f n m. dget tr ''fieldId'' = PStr i \<and> field_with flds i = Some f \<and> fld_type f \<in> set date_field_types
          \<and> dget tr ''offsetMinutes'' = PInt n \<and> 0 \<le> n \<and> n \<le> max_due_offset_minutes
          \<and> dget tr ''scanIntervalMinutes'' = PInt m \<and> 1 \<le> m \<and> m \<le> 1440)"
    using m require_field_found by (auto simp: tr due_trigger_def invalid_def split: if_splits)
  show ?thesis unfolding good_trigger_def using 1 2 3 ty by (intro exI[of _ ty]) (simp add: tr)
qed

lemma normalize_write_fields_good:
  assumes "normalize_write_fields v flds nm = Inr d"
  shows "d \<noteq> [] \<and> wf_dict d \<and> (\<forall>k\<in>set (map fst d). \<exists>f. field_with flds k = Some f \<and> fld_type f \<notin> set non_writable_field_types)"
proof -
  from assms obtain raw kvs where r: "raw \<noteq> []" "map_res (write_field flds) raw = Inr kvs" "d = dupdate [] kvs"
    by (auto simp: normalize_write_fields_def invalid_def split: pyval.splits if_splits)
  have k: "\<exists>f. field_with flds (fst kv) = Some f \<and> fld_type f \<notin> set non_writable_field_types" if "kv \<in> set kvs" for kv
  proof -
    from map_res_in[OF r(2) that] obtain x where "write_field flds x = Inr kv" by blast
    then show ?thesis using require_field_found by (auto simp: write_field_def invalid_def split: prod.splits if_splits)
  qed
  have d: "set (map fst (dupdate acc kvs)) = set (map fst acc) \<union> fst ` set kvs \<and> (wf_dict acc \<longrightarrow> wf_dict (dupdate acc kvs))" for acc kvs
    unfolding dupdate_def
  proof (induction kvs arbitrary: acc)
    case (Cons kv kvs)
    have "set (map fst (dset (fst kv) (snd kv) acc)) = insert (fst kv) (set (map fst acc))" by (simp add: dset_def dom_update)
    with Cons[of "dset (fst kv) (snd kv) acc"] show ?case by (auto simp: case_prod_beta)
  qed simp
  have "kvs \<noteq> []" using r(1,2) by (auto simp: map_res_Inr)
  with d[of "[]" kvs] k r(3) show ?thesis by auto
qed

lemma normalize_notify_good:
  assumes "normalize_notify raw flds = Inr extra"
  shows "\<exists>m. dget extra ''message'' = PStr m \<and> m \<noteq> [] \<and> length m \<le> 500
        \<and> ((\<exists>ns. dget extra ''recipientUserIds'' = PList (map PInt ns) \<and> ns \<noteq> [] \<and> (\<forall>n\<in>set ns. n > 0))
         \<or> (\<exists>i f. dget extra ''recipientFieldId'' = PStr i \<and> field_with flds i = Some f \<and> fld_type f = ''member''))"
proof -
  from assms obtain ns field nt m where ns: "normalize_recipients (dget raw ''recipientUserIds'') = Inr ns"
    and field: "field = [] \<or> (\<exists>i f. field = [(''recipientFieldId'', PStr i)] \<and> field_with flds i = Some f \<and> fld_type f = ''member'')"
    and ne: "ns \<noteq> [] \<or> field \<noteq> []" and m: "m \<noteq> []" "length m \<le> 500"
    and extra: "extra = (if ns = [] then [] else [(''recipientUserIds'', PList (map PInt ns))]) @ field
              @ [(''notificationType'', PStr nt), (''message'', PStr m)]"
    using require_field_found unfolding normalize_notify_def Let_def invalid_def by (fastforce split: if_splits)
  have pos: "\<forall>n\<in>set ns. n > 0"
    using ns by (auto simp: normalize_recipients_def invalid_def foldl_add_once split: pyval.splits)
  show ?thesis
  proof (cases "ns = []")
    case True
    with ne field obtain i f where "field = [(''recipientFieldId'', PStr i)]" "field_with flds i = Some f" "fld_type f = ''member''" by auto
    with m show ?thesis by (simp add: extra True)
  next
    case False
    have "dget extra ''message'' = PStr m" using field by (auto simp: extra False)
    with m pos False show ?thesis by (auto simp: extra)
  qed
qed

lemma normalize_action_good:
  assumes "normalize_action flds x = Inr a" shows "good_action flds a"
proof -
  from assms obtain raw ty where ty: "ty \<in> set action_types"
    and r: "(if ty = ''notify'' then bind_res (normalize_notify raw flds) (\<lambda>extra. Inr ((''type'', PStr ty) # extra))
         else bind_res (normalize_write_fields (dget raw ''fields'') flds ty) (\<lambda>d. Inr [(''type'', PStr ty), (''fields'', PDict d)])) = Inr a"
    by (auto simp: normalize_action_def Let_def invalid_def split: prod.splits pyval.splits if_splits)
  show ?thesis
  proof (cases "ty = ''notify''")
    case True
    with r normalize_notify_good[of raw flds] show ?thesis by (fastforce simp: good_action_def)
  next
    case False
    with ty have "ty \<in> {''update_record'', ''create_record''}" by (auto simp: action_types_def)
    with False r normalize_write_fields_good[of "dget raw ''fields''" flds ty] show ?thesis by (auto simp: good_action_def)
  qed
qed

lemma validate_run:
  assumes "validate_automation_definition rf rt zones t table_id trigger conditions actions tz retries = Inr def"
  obtains n where "normalize_trigger rf rt trigger (ordered_fields t table_id) = Inr (def_trigger def)"
    "normalize_conditions rf rt (ordered_fields t table_id) 0 conditions 0 = Inr (def_conditions def, n)"
    "normalize_actions actions (ordered_fields t table_id) = Inr (def_actions def)"
    "normalize_timezone zones tz = Inr (def_timezone def)" "normalize_max_retries retries = Inr (def_retries def)"
  using assms by (auto simp: validate_automation_definition_def Let_def invalid_def split: if_splits prod.splits)

text \<open>C40: an automation definition that validation accepts is well formed and bounded: its trigger has a known type with intervals and offsets in range and fields of the table, its conditions nest at most ten levels deep with at most 64 items in all and every leaf names a field with an operator its type allows, it has one to 32 actions, each writes only existing fields that are not computed or notifies somebody with a text of one to 500 characters, and the retries are between 0 and 10.\<close>

theorem validated_definition:
  assumes "validate_automation_definition rf rt zones t table_id trigger conditions actions tz retries = Inr def"
    and "flds = ordered_fields t table_id"
  shows "good_trigger flds (def_trigger def) \<and> good_cond flds 10 (def_conditions def) \<and> cond_items (PDict (def_conditions def)) \<le> 64
    \<and> 1 \<le> length (def_actions def) \<and> length (def_actions def) \<le> 32 \<and> (\<forall>a\<in>set (def_actions def). good_action flds a)
    \<and> zones (def_timezone def) = None \<and> 0 \<le> def_retries def \<and> def_retries def \<le> 10"
proof -
  from assms(1) obtain n where v: "normalize_trigger rf rt trigger flds = Inr (def_trigger def)"
    "normalize_conditions rf rt flds 0 conditions 0 = Inr (def_conditions def, n)"
    "normalize_actions actions flds = Inr (def_actions def)"
    "normalize_timezone zones tz = Inr (def_timezone def)" "normalize_max_retries retries = Inr (def_retries def)"
    unfolding assms(2) by (rule validate_run)
  note t = normalize_trigger_good[OF v(1)] and c = normalize_good(1)[OF v(2)]
  from v(3) obtain xs where xs: "xs \<noteq> []" "length xs \<le> 32" "map_res (normalize_action flds) (enumerate 0 xs) = Inr (def_actions def)"
    by (auto simp: normalize_actions_def invalid_def max_actions_def split: pyval.splits if_splits)
  then have len: "length (def_actions def) = length xs" using map_res_Inr_length by fastforce
  have a: "\<forall>a\<in>set (def_actions def). good_action flds a"
    using map_res_in[OF xs(3)] normalize_action_good by blast
  have z: "zones (def_timezone def) = None"
    using v(4) by (auto simp: normalize_timezone_def invalid_def Let_def split: option.splits if_splits)
  have r: "0 \<le> def_retries def" "def_retries def \<le> 10"
    using v(5) by (auto simp: normalize_max_retries_def max_retries_def invalid_def split: if_splits)
  from xs(1) have "1 \<le> length xs" by (cases xs) auto
  with t c xs(2) len a z r show ?thesis by simp
qed

text \<open>the conditions of an accepted definition always evaluate to a boolean, on every record, as long as the fields are those they were validated against and no value is an integer too large for a float.\<close>

theorem validated_conditions_evaluate:
  assumes "validate_automation_definition rf rt zones t table_id trigger conditions actions tz retries = Inr def"
    and "reader_ok rf"
  shows "\<exists>b. evaluate_conditions rf rt (ordered_fields t table_id) rec (def_conditions def) = Inr b"
proof -
  from assms(1) obtain n where "normalize_conditions rf rt (ordered_fields t table_id) 0 conditions 0 = Inr (def_conditions def, n)"
    by (rule validate_run)
  from normalize_good(1)[OF this] good_cond_evaluates[OF assms(2)] show ?thesis by fastforce
qed

section \<open>Witnesses\<close>

definition plain_float :: float_reader where
  "plain_float v = (case v of
       PInt n \<Rightarrow> Inr (of_int n, dec_int n)
     | PFloat q r \<Rightarrow> Inr (q, r)
     | PBool b \<Rightarrow> Inr (if b then (1, ''1.0'') else (0, ''0.0''))
     | PStr _ \<Rightarrow> Inl (Exn ValueError ''could not convert string to float'')
     | _ \<Rightarrow> Inl (Exn TypeError ''float() argument must be a string or a number''))"

lemma plain_float_ok: "reader_ok plain_float"
  by (auto simp: reader_ok_def plain_float_def split: pyval.splits)

definition example_rule_tables :: tables where
  "example_rule_tables = empty_tables\<lparr>
     t_fields := [\<lparr>fld_id = ''f1'', fld_table = ''t'', fld_name = ''N'', fld_type = ''number'', fld_options = PNone, fld_property = PNone, fld_order = 0\<rparr>,
                  \<lparr>fld_id = ''f2'', fld_table = ''t'', fld_name = ''S'', fld_type = ''text'', fld_options = PNone, fld_property = PNone, fld_order = 1\<rparr>]\<rparr>"

definition example_trigger :: pyval where
  "example_trigger = PDict [(''type'', PStr ''record.updated''), (''fieldId'', PStr '' f1 ''), (''to'', PInt 3)]"

definition example_conditions :: pyval where
  "example_conditions = PDict [(''op'', PStr ''OR''), (''items'', PList
     [PDict [(''fieldId'', PStr ''f1''), (''operator'', PStr ''GT''), (''value'', PInt 10)],
      PDict [(''fieldId'', PStr ''f2''), (''operator'', PStr ''contains''), (''value'', PStr ''x'')]])]"

definition example_actions :: pyval where
  "example_actions = PList [PDict [(''type'', PStr ''update_record''), (''fields'', PDict [(''f2'', PStr ''done'')])],
     PDict [(''type'', PStr ''notify''), (''recipientUserIds'', PList [PInt 7, PStr ''7''])]]"

definition example_automation :: automation_definition where
  "example_automation = \<lparr>def_trigger = [(''type'', PStr ''record.updated''), (''fieldIds'', PList [PStr ''f1'']), (''to'', PInt 3)],
     def_conditions = [(''op'', PStr ''or''), (''items'', PList
       [PDict [(''fieldId'', PStr ''f1''), (''operator'', PStr ''gt''), (''value'', PInt 10)],
        PDict [(''fieldId'', PStr ''f2''), (''operator'', PStr ''contains''), (''value'', PStr ''x'')]])],
     def_actions = [[(''type'', PStr ''update_record''), (''fields'', PDict [(''f2'', PStr ''done'')])],
       [(''type'', PStr ''notify''), (''recipientUserIds'', PList [PInt 7]), (''notificationType'', PStr ''automation''),
        (''message'', PStr default_message)]],
     def_timezone = ''UTC'', def_retries = 3\<rparr>"

lemma example_validated:
  "validate_automation_definition plain_float (\<lambda>_. None) (\<lambda>_. None) example_rule_tables ''t''
     example_trigger example_conditions example_actions PNone (PInt 3) = Inr example_automation"
  by code_simp

theorem validated_definition_witness:
  "good_cond (ordered_fields example_rule_tables ''t'') 10 (def_conditions example_automation)
   \<and> list_all (good_action (ordered_fields example_rule_tables ''t'')) (def_actions example_automation)"
  using validated_definition[OF example_validated refl] by (simp only: list_all_iff) blast

theorem validated_conditions_evaluate_witness:
  "evaluate_conditions plain_float (\<lambda>_. None) (ordered_fields example_rule_tables ''t'') [(''f1'', PInt 11)] (def_conditions example_automation) = Inr True"
proof -
  from validated_conditions_evaluate[OF example_validated plain_float_ok] obtain b where
    "evaluate_conditions plain_float (\<lambda>_. None) (ordered_fields example_rule_tables ''t'') [(''f1'', PInt 11)] (def_conditions example_automation) = Inr b"
    by blast
  moreover have "evaluate_conditions plain_float (\<lambda>_. None) (ordered_fields example_rule_tables ''t'') [(''f1'', PInt 11)] (def_conditions example_automation) = Inr True"
    by code_simp
  ultimately show ?thesis by simp
qed

section \<open>A definition that is accepted once\<close>

text \<open>
  \<open>update_automation\<close> validates the stored parts again. An empty condition below nine groups
  is accepted and stored as an empty group, and that group is refused for its depth.
\<close>

fun nested_groups :: "nat \<Rightarrow> pyval" where
  "nested_groups 0 = PDict []"
| "nested_groups (Suc n) = PDict [(''op'', PStr ''and''), (''items'', PList [nested_groups n])]"

lemma deep_empty_condition_refused_later:
  "case normalize_conditions plain_float (\<lambda>_. None) [] 0 (nested_groups 9) 0 of
     Inl _ \<Rightarrow> False
   | Inr (stored, _) \<Rightarrow> normalize_conditions plain_float (\<lambda>_. None) [] 0 (PDict stored) 0 = invalid ''Condition nesting is too deep''"
  by code_simp

end
