(* ===== verification/Formula.thy ===== *)
theory Formula
  imports RelationEngine
begin

text \<open>
  Formula fields (\<open>services/formula_engine.py\<close>): the references in an expression, the
  whitelist check of its syntax tree, the search for dependency cycles, and the evaluation of
  the formula fields of a record with a memo and a guard against cycles.

  Python's expression grammar (\<open>ast.parse\<close>) and the evaluator of the package \<open>simpleeval\<close>
  are parameters: \<open>parse\<close> gives the tree or the message of the \<open>SyntaxError\<close>, \<open>evaluate\<close>
  the outcome of an expression under given names. The dependencies of a field are a set in
  the code; here they are listed in the order of the expression.
\<close>

section \<open>Definitions\<close>

definition formula_error :: pyval where "formula_error = PStr ''#ERROR!''"
definition formula_ref_error :: pyval where "formula_ref_error = PStr ''#REF!''"
definition formula_cycle_error :: pyval where "formula_cycle_error = PStr ''#CYCLE!''"
definition formula_div_zero_error :: pyval where "formula_div_zero_error = PStr ''#DIV/0!''"
definition formula_num_error :: pyval where "formula_num_error = PStr ''#NUM!''"

definition max_formula_length :: nat where "max_formula_length = 2000"
definition max_field_references :: nat where "max_field_references = 64"
definition max_string_result_length :: nat where "max_string_result_length = 10000"

definition fx_error :: "string \<Rightarrow> 'a res" where
  "fx_error m = Inl (Exn FormulaValidationError m)"

text \<open>The functions and the syntax nodes a formula may use.\<close>

definition base_functions :: "string list" where
  "base_functions = [''IF'', ''CONCAT'', ''SUM'', ''AVERAGE'', ''MIN'', ''MAX'', ''ROUND'', ''ABS'', ''LEN'',
     ''LOWER'', ''UPPER'', ''COALESCE'', ''AND'', ''OR'', ''NOT'']"

definition safe_functions :: "string list" where
  "safe_functions = base_functions @ map lower base_functions"

definition safe_operator_nodes :: "string list" where
  "safe_operator_nodes = [''Add'', ''Sub'', ''Mult'', ''Div'', ''FloorDiv'', ''Mod'', ''Pow'', ''USub'', ''UAdd'', ''Eq'', ''NotEq'',
     ''Lt'', ''LtE'', ''Gt'', ''GtE'', ''And'', ''Or'', ''Not'', ''In'', ''NotIn'']"

definition allowed_ast_nodes :: "string list" where
  "allowed_ast_nodes = [''Expression'', ''BinOp'', ''UnaryOp'', ''BoolOp'', ''Compare'', ''IfExp'', ''Call'', ''Name'', ''Load'',
     ''Constant'', ''List'']"

text \<open>A node of Python's tree: names and calls with the parts the check reads, any other by its class.\<close>

datatype py_ast =
    AName string "py_ast list"
  | ACall py_ast "py_ast list" "py_ast list"
  | ANode string "py_ast list"

fun ast_class :: "py_ast \<Rightarrow> string" where
  "ast_class (AName _ _) = ''Name''"
| "ast_class (ACall _ _ _) = ''Call''"
| "ast_class (ANode c _) = c"

fun ast_children :: "py_ast \<Rightarrow> py_ast list" where
  "ast_children (AName _ cs) = cs"
| "ast_children (ACall f args kws) = f # args @ kws"
| "ast_children (ANode _ cs) = cs"

lemma ast_children_size: "sum_list (map size (ast_children a)) < size a"
proof -
  have "sum_list (map size cs) \<le> size_list size cs" for cs :: "py_ast list" by (induction cs) auto
  then show ?thesis by (cases a) (auto simp: le_imp_less_Suc add_mono)
qed

text \<open>\<open>ast.walk\<close>: a queue, children appended.\<close>

function ast_walk :: "py_ast list \<Rightarrow> py_ast list" where
  "ast_walk [] = []"
| "ast_walk (a # queue) = a # ast_walk (queue @ ast_children a)"
  by pat_completeness auto
termination
  by (relation "measure (\<lambda>q. sum_list (map size q))") (use ast_children_size in \<open>auto simp: add.commute\<close>)

subsection \<open>Expressions\<close>

definition is_formula_field :: "dict \<Rightarrow> bool" where
  "is_formula_field field \<longleftrightarrow> lower (str_or_empty (dget field ''type'')) = ''formula''"

definition get_formula_expression :: "dict \<Rightarrow> string" where
  "get_formula_expression field = (case dget field ''property'' of
       PDict prop \<Rightarrow> (case dget prop ''formula'' of PStr f \<Rightarrow> strip f | _ \<Rightarrow> [])
     | _ \<Rightarrow> [])"

text \<open>The characters of the pattern \<open>[A-Za-z0-9_.:-]\<close>.\<close>

definition ref_char :: "char \<Rightarrow> bool" where
  "ref_char c \<longleftrightarrow> (let n = (of_char c :: nat) in (65 \<le> n \<and> n \<le> 90) \<or> (97 \<le> n \<and> n \<le> 122) \<or> (48 \<le> n \<and> n \<le> 57)
     \<or> c = CHR ''_'' \<or> c = CHR ''.'' \<or> c = CHR '':'' \<or> c = CHR ''-'')"

text \<open>A match of the reference pattern at the start of the text: the id and what follows.\<close>

definition match_ref :: "string \<Rightarrow> (string \<times> string) option" where
  "match_ref s = (if is_prefix ''{{'' s
     then let i = takeWhile ref_char (drop 2 s); rest = dropWhile ref_char (drop 2 s)
       in if i \<noteq> [] \<and> is_prefix ''}}'' rest then Some (i, drop 2 rest) else None
     else None)"

datatype piece = Text char | Ref string

lemma match_ref_shorter: "match_ref s = Some (i, rest) \<Longrightarrow> length rest < length s"
proof -
  assume "match_ref s = Some (i, rest)"
  then have "is_prefix ''{{'' s" "rest = drop 2 (dropWhile ref_char (drop 2 s))" by (auto simp: match_ref_def Let_def split: if_splits)
  moreover from this(1) have "s \<noteq> []" by auto
  moreover have "length (dropWhile ref_char (drop 2 s)) \<le> length (drop 2 s)" by (rule length_dropWhile_le)
  ultimately show ?thesis by (cases s) auto
qed

function pieces :: "string \<Rightarrow> piece list" where
  "pieces [] = []"
| "pieces (c # cs) = (case match_ref (c # cs) of
       Some (i, rest) \<Rightarrow> Ref i # pieces rest
     | None \<Rightarrow> Text c # pieces cs)"
  by pat_completeness auto
termination by (relation "measure length") (use match_ref_shorter in fastforce)+

fun piece_refs :: "piece list \<Rightarrow> string list" where
  "piece_refs [] = []"
| "piece_refs (Text _ # ps) = piece_refs ps"
| "piece_refs (Ref i # ps) = i # piece_refs ps"

definition get_formula_references :: "string \<Rightarrow> string list" where
  "get_formula_references expression = piece_refs (pieces expression)"

text \<open>\<open>ref_to_name\<close>: one variable per referenced field, in order of first occurrence.\<close>

definition ref_names :: "string list \<Rightarrow> (string \<times> string) list" where
  "ref_names refs = map (\<lambda>(n, i). (i, ''__field_'' @ dec_nat n)) (enumerate 0 (dedup refs))"

definition substitute :: "(string \<times> string) list \<Rightarrow> piece list \<Rightarrow> string" where
  "substitute names ps = concat (map (\<lambda>p. case p of Text c \<Rightarrow> [c]
     | Ref i \<Rightarrow> (case map_of names i of None \<Rightarrow> [] | Some v \<Rightarrow> v)) ps)"

definition check_ast_node :: "string list \<Rightarrow> py_ast \<Rightarrow> unit res" where
  "check_ast_node variables a =
     (if ast_class a \<in> set safe_operator_nodes then Inr ()
      else if ast_class a \<notin> set allowed_ast_nodes then fx_error (''Unsupported formula expression: '' @ ast_class a)
      else case a of
          ACall f args kws \<Rightarrow>
            if (case f of AName n _ \<Rightarrow> n \<notin> set safe_functions | _ \<Rightarrow> True) then fx_error ''Formula function is not allowed''
            else if kws \<noteq> [] then fx_error ''Formula functions do not support named arguments''
            else Inr ()
        | AName n _ \<Rightarrow>
            if n \<notin> set safe_functions \<and> n \<notin> set variables then fx_error (''Unknown formula name: '' @ n) else Inr ()
        | ANode _ _ \<Rightarrow> Inr ())"

fun check_ast :: "string list \<Rightarrow> py_ast list \<Rightarrow> unit res" where
  "check_ast variables [] = Inr ()"
| "check_ast variables (a # as) = bind_res (check_ast_node variables a) (\<lambda>_. check_ast variables as)"

type_synonym parser = "string \<Rightarrow> string + py_ast"

definition compile_formula :: "parser \<Rightarrow> string \<Rightarrow> (string \<times> (string \<times> string) list) res" where
  "compile_formula parse raw =
     (let expression = strip raw in
      if expression = [] then fx_error ''Formula expression is required''
      else if length expression > max_formula_length then fx_error ''Formula expression exceeds 2000 characters''
      else
        let ps = pieces expression; names = ref_names (piece_refs ps); transformed = substitute names ps in
        if length names > max_field_references then fx_error ''Formula references more than 64 fields''
        else case parse transformed of
            Inl msg \<Rightarrow> fx_error (''Invalid formula syntax: '' @ msg)
          | Inr tree \<Rightarrow> bind_res (check_ast (map snd names) (ast_walk [tree])) (\<lambda>_. Inr (transformed, names)))"

subsection \<open>The schema\<close>

type_synonym field_map = "(string \<times> dict) list"

fun formula_field_map :: "dict list \<Rightarrow> field_map \<Rightarrow> field_map res" where
  "formula_field_map [] fm = Inr fm"
| "formula_field_map (f # fs) fm =
     (case dget f ''id'' of
        PStr i \<Rightarrow>
          if i = [] then fx_error ''Every field must have a stable field id''
          else if map_of fm i \<noteq> None then fx_error (''Duplicate field id: '' @ i)
          else formula_field_map fs (fm @ [(i, f)])
      | _ \<Rightarrow> fx_error ''Every field must have a stable field id'')"

definition field_label :: "string \<Rightarrow> dict \<Rightarrow> string" where
  "field_label i f = py_str (py_or (dget f ''name'') (PStr i))"

definition formula_at :: "field_map \<Rightarrow> string \<Rightarrow> bool" where
  "formula_at fm i \<longleftrightarrow> (case map_of fm i of None \<Rightarrow> False | Some f \<Rightarrow> is_formula_field f)"

type_synonym deps = "(string \<times> string list) list"

fun dependency_map :: "parser \<Rightarrow> field_map \<Rightarrow> field_map \<Rightarrow> deps res" where
  "dependency_map parse fm [] = Inr []"
| "dependency_map parse fm ((i, f) # rest) =
     (if \<not> is_formula_field f then dependency_map parse fm rest
      else let expression = get_formula_expression f in
        bind_res (compile_formula parse expression) (\<lambda>_.
        let references = dedup (get_formula_references expression);
            missing = sort (filter (\<lambda>r. map_of fm r = None) references) in
        if missing \<noteq> [] then fx_error (''Formula field '' @ [CHR 0x27] @ field_label i f @ [CHR 0x27]
            @ '' references missing field: '' @ hd missing)
        else bind_res (dependency_map parse fm rest) (\<lambda>ds. Inr ((i, filter (formula_at fm) references) # ds))))"

definition deps_of :: "deps \<Rightarrow> string \<Rightarrow> string list" where
  "deps_of ds i = (case map_of ds i of None \<Rightarrow> [] | Some rs \<Rightarrow> rs)"

definition dep_nodes :: "deps \<Rightarrow> string set" where
  "dep_nodes ds = fst ` set ds"

definition cycle_error :: "string list \<Rightarrow> string \<Rightarrow> 'a res" where
  "cycle_error path i = fx_error (''Formula dependency cycle detected: ''
     @ join '' -> '' (dropWhile (\<lambda>x. x \<noteq> i) path @ [i]))"

text \<open>
  The nested function \<open>visit\<close> and its loop; \<open>path\<close> is also the set \<open>visiting\<close>. The result
  is \<open>visited\<close>.
\<close>

function visit :: "deps \<Rightarrow> string list \<Rightarrow> string list \<Rightarrow> string \<Rightarrow> string list res"
  and visit_all :: "deps \<Rightarrow> string list \<Rightarrow> string list \<Rightarrow> string list \<Rightarrow> string list res" where
  "visit ds path visited i =
     (if i \<in> set visited then Inr visited
      else if i \<in> set path then cycle_error path i
      else bind_res (visit_all ds (path @ [i]) visited (deps_of ds i)) (\<lambda>v. Inr (i # v)))"
| "visit_all ds path visited [] = Inr visited"
| "visit_all ds path visited (d # rest) = bind_res (visit ds path visited d) (\<lambda>v. visit_all ds path v rest)"
  by pat_completeness auto
termination
proof (relation "measures [\<lambda>x. case x of Inl (ds, path, _) \<Rightarrow> card (dep_nodes ds - set path) | Inr (ds, path, _) \<Rightarrow> card (dep_nodes ds - set path),
    \<lambda>x. case x of Inl _ \<Rightarrow> 1 | Inr (_, _, _, rest) \<Rightarrow> 2 * length rest]", goal_cases)
  case (2 ds path visited i)
  show ?case
  proof (cases "i \<in> dep_nodes ds")
    case True
    with 2 have "card (dep_nodes ds - set (path @ [i])) < card (dep_nodes ds - set path)"
      by (intro psubset_card_mono) (auto simp: dep_nodes_def)
    then show ?thesis by simp
  next
    case False
    then have "deps_of ds i = []" by (auto simp: deps_of_def dep_nodes_def split: option.splits dest!: map_of_SomeD) (metis fst_conv image_eqI)
    moreover have "dep_nodes ds - set (path @ [i]) = dep_nodes ds - set path" using False by auto
    ultimately show ?thesis by simp
  qed
qed auto

definition validate_formula_schema :: "parser \<Rightarrow> dict list \<Rightarrow> unit res" where
  "validate_formula_schema parse fields =
     bind_res (formula_field_map fields []) (\<lambda>fm.
     bind_res (dependency_map parse fm fm) (\<lambda>ds.
     bind_res (visit_all ds [] [] (map fst ds)) (\<lambda>_. Inr ())))"

definition formula_dependents :: "dict list \<Rightarrow> string \<Rightarrow> string list" where
  "formula_dependents fields field_id =
     map (\<lambda>f. py_str (py_or (dget f ''name'') (py_or (dget f ''id'') (PStr ''formula''))))
       (filter (\<lambda>f. is_formula_field f \<and> field_id \<in> set (get_formula_references (get_formula_expression f))) fields)"

subsection \<open>Evaluation\<close>

text \<open>What an evaluation of \<open>simpleeval\<close> ends in; a float that is not finite has its own case.\<close>

datatype outcome = Value pyval | NonFinite | ZeroDivision | Arithmetic | Failure

type_synonym evaluator = "string \<Rightarrow> (string \<times> pyval) list \<Rightarrow> outcome"

fun normalize_result :: "pyval \<Rightarrow> pyval" where
  "normalize_result (PStr s) = PStr (take max_string_result_length s)"
| "normalize_result (PList xs) = PList (map normalize_result xs)"
| "normalize_result (PDict d) = PStr (py_str (PDict d))"
| "normalize_result v = v"

definition result_of :: "outcome \<Rightarrow> pyval" where
  "result_of r = (case r of Value v \<Rightarrow> normalize_result v | NonFinite \<Rightarrow> formula_num_error
     | ZeroDivision \<Rightarrow> formula_div_zero_error | Arithmetic \<Rightarrow> formula_num_error | Failure \<Rightarrow> formula_error)"

definition is_error_value :: "pyval \<Rightarrow> bool" where
  "is_error_value v \<longleftrightarrow> v \<in> {formula_error, formula_ref_error, formula_cycle_error, formula_div_zero_error, formula_num_error}"

text \<open>
  \<open>_evaluate_formula_field\<close> and its loop over the referenced fields. The loop ends with the
  names and values, or with the value the field takes at once. The result comes with the memo.
\<close>

type_synonym memo = "(string \<times> pyval) list"

function eval_field :: "parser \<Rightarrow> evaluator \<Rightarrow> field_map \<Rightarrow> dict \<Rightarrow> memo \<Rightarrow> string list \<Rightarrow> string \<Rightarrow> pyval \<times> memo"
  and eval_refs :: "parser \<Rightarrow> evaluator \<Rightarrow> field_map \<Rightarrow> dict \<Rightarrow> memo \<Rightarrow> string list \<Rightarrow> (string \<times> string) list
    \<Rightarrow> (pyval + (string \<times> pyval) list) \<times> memo" where
  "eval_field parse ev fm row memo visiting i =
     (case map_of memo i of
        Some v \<Rightarrow> (v, memo)
      | None \<Rightarrow>
          (case map_of fm i of
             None \<Rightarrow> (formula_ref_error, memo)
           | Some f \<Rightarrow>
               if \<not> is_formula_field f then (dget row i, memo)
               else if i \<in> set visiting then (formula_cycle_error, memo)
               else case compile_formula parse (get_formula_expression f) of
                   Inl _ \<Rightarrow> (formula_error, (i, formula_error) # memo)
                 | Inr (transformed, names) \<Rightarrow>
                     let (r, memo') = eval_refs parse ev fm row memo (i # visiting) names;
                         v = (case r of Inl e \<Rightarrow> e | Inr env \<Rightarrow> result_of (ev transformed env))
                     in (v, (i, v) # memo')))"
| "eval_refs parse ev fm row memo visiting [] = (Inr [], memo)"
| "eval_refs parse ev fm row memo visiting ((i, x) # names) =
     (case map_of fm i of
        None \<Rightarrow> (Inl formula_ref_error, memo)
      | Some f \<Rightarrow>
          let (v, memo') = (if is_formula_field f then eval_field parse ev fm row memo visiting i else (dget row i, memo))
          in if is_error_value v then (Inl v, memo')
             else let (r, memo'') = eval_refs parse ev fm row memo' visiting names
               in (case r of Inl e \<Rightarrow> Inl e | Inr env \<Rightarrow> Inr ((x, v) # env), memo''))"
  by pat_completeness auto
termination
proof (relation "measures [\<lambda>x. case x of Inl (_, _, fm, _, _, visiting, _) \<Rightarrow> card (fst ` set fm - set visiting)
      | Inr (_, _, fm, _, _, visiting, _) \<Rightarrow> card (fst ` set fm - set visiting),
    \<lambda>x. case x of Inl _ \<Rightarrow> 0 | Inr (_, _, _, _, _, _, names) \<Rightarrow> Suc (length names)]", goal_cases)
  case (2 parse ev fm row memo visiting i f)
  then have "i \<in> fst ` set fm" by (metis fst_conv image_eqI map_of_SomeD)
  with 2 have "card (fst ` set fm - set (i # visiting)) < card (fst ` set fm - set visiting)"
    by (intro psubset_card_mono) auto
  then show ?case by simp
qed auto

declare eval_field.simps [simp del] visit.simps [simp del]

text \<open>\<open>{str(field["id"]): field ...}\<close>: a later field replaces an earlier one with its id.\<close>

definition materialize_map :: "dict list \<Rightarrow> field_map" where
  "materialize_map fields = foldl (\<lambda>fm f. case dget f ''id'' of PStr i \<Rightarrow> if i = [] then fm else AList.update i f fm | _ \<Rightarrow> fm) [] fields"

fun materialize_ids :: "parser \<Rightarrow> evaluator \<Rightarrow> field_map \<Rightarrow> dict \<Rightarrow> memo \<Rightarrow> string list \<Rightarrow> dict \<Rightarrow> dict" where
  "materialize_ids parse ev fm row memo [] next_row = next_row"
| "materialize_ids parse ev fm row memo (i # is) next_row =
     (let (v, memo') = eval_field parse ev fm row memo [] i
      in materialize_ids parse ev fm row memo' is (dset i v next_row))"

definition materialize_records :: "parser \<Rightarrow> evaluator \<Rightarrow> dict list \<Rightarrow> dict list \<Rightarrow> dict list" where
  "materialize_records parse ev fields records =
     (let fm = materialize_map fields; formula_ids = map fst (filter (\<lambda>(i, f). is_formula_field f) fm) in
      if formula_ids = [] then records
      else map (\<lambda>r. materialize_ids parse ev fm r [] formula_ids r) records)"

section \<open>The cycle check\<close>

definition dep_rel :: "deps \<Rightarrow> (string \<times> string) set" where
  "dep_rel ds = {(a, b). b \<in> set (deps_of ds a)}"

lemma visit_accessible:
  "visit ds path V i = Inr V' \<Longrightarrow> (\<forall>a\<in>set V. a \<in> Wellfounded.acc ((dep_rel ds)\<inverse>)) \<Longrightarrow>
     set V \<subseteq> set V' \<and> i \<in> set V' \<and> (\<forall>a\<in>set V'. a \<in> Wellfounded.acc ((dep_rel ds)\<inverse>))"
  "visit_all ds path V rest = Inr V' \<Longrightarrow> (\<forall>a\<in>set V. a \<in> Wellfounded.acc ((dep_rel ds)\<inverse>)) \<Longrightarrow>
     set V \<subseteq> set V' \<and> set rest \<subseteq> set V' \<and> (\<forall>a\<in>set V'. a \<in> Wellfounded.acc ((dep_rel ds)\<inverse>))"
proof (induction ds path V i and ds path V rest arbitrary: V' and V' rule: visit_visit_all.induct)
  case (1 ds path visited i)
  show ?case
  proof (cases "i \<in> set visited")
    case True
    with 1 show ?thesis by (simp add: visit.simps)
  next
    case False
    with 1(2) obtain v where p: "i \<notin> set path" and v: "visit_all ds (path @ [i]) visited (deps_of ds i) = Inr v" "V' = i # v"
      by (auto simp: visit.simps cycle_error_def fx_error_def split: if_splits)
    from 1(1)[OF False p v(1) 1(3)]
    have ih: "set visited \<subseteq> set v" "set (deps_of ds i) \<subseteq> set v" "\<forall>a\<in>set v. a \<in> Wellfounded.acc ((dep_rel ds)\<inverse>)" by auto
    have "i \<in> Wellfounded.acc ((dep_rel ds)\<inverse>)" by (rule accI) (use ih in \<open>auto simp: dep_rel_def\<close>)
    with ih v(2) show ?thesis by auto
  qed
next
  case (3 ds path visited d rest)
  from 3(3) obtain v where v: "visit ds path visited d = Inr v" "visit_all ds path v rest = Inr V'" by auto
  from 3(1)[OF v(1) 3(4)] 3(2)[OF v(2)] show ?case by auto
qed auto

definition is_cycle :: "(string \<times> string) set \<Rightarrow> string list \<Rightarrow> bool" where
  "is_cycle r c \<longleftrightarrow> 2 \<le> length c \<and> hd c = last c \<and> successively (\<lambda>a b. (a, b) \<in> r) c"

lemma successively_trancl: "successively (\<lambda>a b. (a, b) \<in> r) (x # xs) \<Longrightarrow> xs \<noteq> [] \<Longrightarrow> (x, last xs) \<in> r\<^sup>+"
proof (induction xs arbitrary: x)
  case (Cons y ys)
  then have "(x, y) \<in> r" by simp
  with Cons show ?case by (cases "ys = []") (auto intro: trancl_into_trancl2)
qed simp

lemma is_cycle_trancl: "is_cycle r c \<Longrightarrow> (hd c, hd c) \<in> r\<^sup>+"
  using successively_trancl[of r "hd c" "tl c"] by (cases c) (auto simp: is_cycle_def split: if_splits)

text \<open>A refusal names a cycle that exists.\<close>

definition cycle_message :: "string list \<Rightarrow> exn" where
  "cycle_message c = Exn FormulaValidationError (''Formula dependency cycle detected: '' @ join '' -> '' c)"

lemma dropWhile_to: "i \<notin> set xs \<Longrightarrow> dropWhile (\<lambda>x. x \<noteq> i) (xs @ i # ys) = i # ys"
  by (induction xs) auto

lemma visit_cycle:
  "visit ds path V i = Inl e \<Longrightarrow> successively (\<lambda>a b. (a, b) \<in> dep_rel ds) (path @ [i]) \<Longrightarrow>
     \<exists>c. is_cycle (dep_rel ds) c \<and> e = cycle_message c"
  "visit_all ds path V rest = Inl e \<Longrightarrow> successively (\<lambda>a b. (a, b) \<in> dep_rel ds) path \<Longrightarrow>
     (path \<noteq> [] \<Longrightarrow> set rest \<subseteq> set (deps_of ds (last path))) \<Longrightarrow> \<exists>c. is_cycle (dep_rel ds) c \<and> e = cycle_message c"
proof (induction ds path V i and ds path V rest arbitrary: e and e rule: visit_visit_all.induct)
  case (1 ds path visited i)
  from 1(2) have nv: "i \<notin> set visited" by (auto simp: visit.simps)
  show ?case
  proof (cases "i \<in> set path")
    case True
    from split_list_first[OF True] obtain xs ys where p: "path = xs @ i # ys" "i \<notin> set xs" by blast
    have d: "dropWhile (\<lambda>x. x \<noteq> i) path = i # ys" unfolding p(1) by (rule dropWhile_to[OF p(2)])
    from 1(2) nv True have e0: "e = Exn FormulaValidationError (''Formula dependency cycle detected: ''
        @ join '' -> '' (dropWhile (\<lambda>x. x \<noteq> i) path @ [i]))"
      unfolding visit.simps[of ds path visited i] cycle_error_def fx_error_def by simp
    then have e: "e = cycle_message (i # ys @ [i])"
      unfolding d cycle_message_def by simp
    have "successively (\<lambda>a b. (a, b) \<in> dep_rel ds) (i # ys @ [i])"
      using 1(3) p(1) by (simp add: successively_append_iff)
    with e show ?thesis by (intro exI[of _ "i # ys @ [i]"]) (simp add: is_cycle_def)
  next
    case False
    with 1(2) nv have "visit_all ds (path @ [i]) visited (deps_of ds i) = Inl e" by (auto simp: visit.simps bind_res_Inl)
    from 1(1)[OF nv False this 1(3)] show ?thesis by simp
  qed
next
  case (3 ds path visited d rest)
  from 3(3) consider "visit ds path visited d = Inl e" | v where "visit ds path visited d = Inr v" "visit_all ds path v rest = Inl e"
    by (auto simp: bind_res_Inl)
  then show ?case
  proof cases
    case 1
    have "successively (\<lambda>a b. (a, b) \<in> dep_rel ds) (path @ [d])"
      using 3(4,5) by (cases "path = []") (auto simp: successively_append_iff dep_rel_def)
    with 3(1)[OF 1] show ?thesis by blast
  next
    case 2
    from 3(2)[OF 2(2) 3(4)] 3(5) show ?thesis by auto
  qed
qed auto

lemma deps_of_known: "deps_of ds a \<noteq> [] \<Longrightarrow> a \<in> set (map fst ds)"
  by (cases "map_of ds a") (auto simp: deps_of_def dest!: map_of_SomeD intro: rev_image_eqI)

lemma cycle_check:
  "(\<exists>v. visit_all ds [] [] (map fst ds) = Inr v) \<longleftrightarrow> acyclic (dep_rel ds)"
  "visit_all ds [] [] (map fst ds) = Inl e \<Longrightarrow> \<exists>c. is_cycle (dep_rel ds) c \<and> e = cycle_message c"
proof -
  have err: "\<exists>c. is_cycle (dep_rel ds) c \<and> e = cycle_message c" if "visit_all ds [] [] (map fst ds) = Inl e" for e
    by (rule visit_cycle(2)[OF that]) auto
  then show "visit_all ds [] [] (map fst ds) = Inl e \<Longrightarrow> \<exists>c. is_cycle (dep_rel ds) c \<and> e = cycle_message c" .
  show "(\<exists>v. visit_all ds [] [] (map fst ds) = Inr v) \<longleftrightarrow> acyclic (dep_rel ds)"
  proof
    assume "\<exists>v. visit_all ds [] [] (map fst ds) = Inr v"
    then obtain v where v: "visit_all ds [] [] (map fst ds) = Inr v" by blast
    have "x \<in> Wellfounded.acc ((dep_rel ds)\<inverse>)" for x
    proof (cases "deps_of ds x = []")
      case True
      then show ?thesis by - (rule accI, simp add: dep_rel_def)
    next
      case False
      with deps_of_known have "x \<in> set (map fst ds)" by blast
      with visit_accessible(2)[OF v] show ?thesis by auto
    qed
    then have "wf ((dep_rel ds)\<inverse>)" by (simp add: acc_wfI)
    then have "acyclic ((dep_rel ds)\<inverse>)" by (rule wf_acyclic)
    then show "acyclic (dep_rel ds)" by (simp only: acyclic_converse)
  next
    assume ac: "acyclic (dep_rel ds)"
    show "\<exists>v. visit_all ds [] [] (map fst ds) = Inr v"
    proof (cases "visit_all ds [] [] (map fst ds)")
      case (Inl e)
      from err[OF this] obtain c where "is_cycle (dep_rel ds) c" by blast
      from is_cycle_trancl[OF this] ac show ?thesis by (simp add: acyclic_def)
    qed blast
  qed
qed
subsection \<open>The schema as a whole\<close>

text \<open>What the two loops before the search ask of the fields, stated on the list of fields itself.\<close>

definition field_key :: "dict \<Rightarrow> string" where
  "field_key f = (case dget f ''id'' of PStr i \<Rightarrow> i | _ \<Rightarrow> [])"

definition stable_ids :: "dict list \<Rightarrow> bool" where
  "stable_ids fields \<longleftrightarrow> [] \<notin> set (map field_key fields) \<and> distinct (map field_key fields)"

definition refs_of :: "dict \<Rightarrow> string list" where
  "refs_of f = get_formula_references (get_formula_expression f)"

definition compiles :: "parser \<Rightarrow> dict \<Rightarrow> bool" where
  "compiles parse f \<longleftrightarrow> \<not> isl (compile_formula parse (get_formula_expression f))"

definition formulas_ok :: "parser \<Rightarrow> dict list \<Rightarrow> bool" where
  "formulas_ok parse fields \<longleftrightarrow> (\<forall>f\<in>set fields. is_formula_field f \<longrightarrow> compiles parse f \<and> set (refs_of f) \<subseteq> set (map field_key fields))"

definition formula_deps :: "dict list \<Rightarrow> (string \<times> string) set" where
  "formula_deps fields = {(field_key f, field_key g) | f g. f \<in> set fields \<and> g \<in> set fields
     \<and> is_formula_field f \<and> is_formula_field g \<and> field_key g \<in> set (refs_of f)}"

abbreviation keyed :: "dict list \<Rightarrow> field_map" where
  "keyed fields \<equiv> map (\<lambda>f. (field_key f, f)) fields"

lemma formula_field_map_Inr:
  "formula_field_map fs acc = Inr fm \<longleftrightarrow> fm = acc @ keyed fs \<and> stable_ids fs \<and> set (map field_key fs) \<inter> fst ` set acc = {}"
proof (induction fs arbitrary: acc)
  case (Cons f fs)
  show ?case
  proof (cases "field_key f = [] \<or> field_key f \<in> fst ` set acc")
    case True
    then show ?thesis
      by (auto simp: field_key_def stable_ids_def fx_error_def map_of_eq_None_iff split: pyval.splits)
  next
    case False
    then have "formula_field_map (f # fs) acc = formula_field_map fs (acc @ [(field_key f, f)])"
      by (auto simp: field_key_def map_of_eq_None_iff split: pyval.splits)
    with False Cons.IH show ?thesis by (auto simp: stable_ids_def)
  qed
qed (auto simp: stable_ids_def)

lemma dependency_map_Inr:
  "dependency_map parse fm l = Inr ds \<longleftrightarrow>
     (\<forall>(i, f)\<in>set l. is_formula_field f \<longrightarrow> compiles parse f \<and> set (refs_of f) \<subseteq> fst ` set fm)
     \<and> ds = map (\<lambda>(i, f). (i, filter (formula_at fm) (dedup (refs_of f)))) (filter (\<lambda>(i, f). is_formula_field f) l)"
proof (induction l arbitrary: ds)
  case (Cons p l)
  obtain i f where p: "p = (i, f)" by (cases p)
  have missing: "sort (filter (\<lambda>r. map_of fm r = None) (dedup (refs_of f))) = [] \<longleftrightarrow> set (refs_of f) \<subseteq> fst ` set fm"
  proof -
    have "sort xs = [] \<longleftrightarrow> xs = []" for xs :: "string list" by (metis set_empty set_sort)
    then show ?thesis by (auto simp: filter_empty_conv map_of_eq_None_iff)
  qed
  show ?case
  proof (cases "is_formula_field f")
    case True
    then have "dependency_map parse fm (p # l) = Inr ds \<longleftrightarrow> compiles parse f \<and> set (refs_of f) \<subseteq> fst ` set fm
        \<and> (\<exists>ds'. dependency_map parse fm l = Inr ds' \<and> ds = (i, filter (formula_at fm) (dedup (refs_of f))) # ds')"
      using missing by (cases "compile_formula parse (get_formula_expression f)")
        (auto simp: p compiles_def fx_error_def refs_of_def Let_def)
    then show ?thesis using Cons.IH True by (simp add: p)
  qed (use Cons.IH in \<open>auto simp: p\<close>)
qed auto

lemma map_of_keyed: "distinct (map field_key fs) \<Longrightarrow> map_of (keyed fs) i = Some f \<longleftrightarrow> f \<in> set fs \<and> field_key f = i"
  by (induction fs) (auto simp: rev_image_eqI)

lemma deps_keyed:
  assumes "stable_ids fields"
  defines "ds \<equiv> map (\<lambda>(i, f). (i, filter (formula_at (keyed fields)) (dedup (refs_of f)))) (filter (\<lambda>(i, f). is_formula_field f) (keyed fields))"
  shows "dep_rel ds = formula_deps fields"
proof -
  have d: "distinct (map field_key fields)" using assms by (simp add: stable_ids_def)
  have ds: "ds = map (\<lambda>f. (field_key f, filter (formula_at (keyed fields)) (dedup (refs_of f)))) (filter is_formula_field fields)"
    unfolding ds_def by (simp add: filter_map comp_def)
  have look: "map_of ds a = Some rs \<longleftrightarrow> (\<exists>f\<in>set fields. is_formula_field f \<and> field_key f = a
      \<and> rs = filter (formula_at (keyed fields)) (dedup (refs_of f)))" for a rs
  proof -
    have "map fst ds = map field_key (filter is_formula_field fields)" by (simp add: ds)
    then have "distinct (map fst ds)" using d by (simp only: distinct_map_filter)
    then show ?thesis by (auto simp: map_of_eq_Some_iff ds)
  qed
  have fat: "formula_at (keyed fields) b \<longleftrightarrow> (\<exists>g\<in>set fields. is_formula_field g \<and> field_key g = b)" for b
  proof (cases "map_of (keyed fields) b")
    case None
    then have "b \<notin> field_key ` set fields" by (simp add: map_of_eq_None_iff image_image)
    with None show ?thesis by (auto simp: formula_at_def)
  next
    case (Some g)
    with map_of_keyed[OF d] have "g \<in> set fields" "field_key g = b" by blast+
    moreover have "g' = g" if "g' \<in> set fields" "field_key g' = b" for g'
      using d that calculation unfolding distinct_map inj_on_def by metis
    ultimately show ?thesis unfolding formula_at_def Some option.case by metis
  qed
  have r: "(a, b) \<in> dep_rel ds \<longleftrightarrow> (\<exists>rs. map_of ds a = Some rs \<and> b \<in> set rs)" for a b
    by (cases "map_of ds a") (simp_all add: dep_rel_def deps_of_def)
  have rel: "(a, b) \<in> dep_rel ds \<longleftrightarrow> (\<exists>f\<in>set fields. is_formula_field f \<and> field_key f = a \<and> b \<in> set (refs_of f)
      \<and> (\<exists>g\<in>set fields. is_formula_field g \<and> field_key g = b))" for a b
  proof -
    have q: "b \<in> set (filter (formula_at (keyed fields)) (dedup rs)) \<longleftrightarrow> b \<in> set rs \<and> (\<exists>g\<in>set fields. is_formula_field g \<and> field_key g = b)" for rs
      by (simp add: fat)
    have "(a, b) \<in> dep_rel ds \<longleftrightarrow> (\<exists>f\<in>set fields. is_formula_field f \<and> field_key f = a
        \<and> b \<in> set (filter (formula_at (keyed fields)) (dedup (refs_of f))))"
      unfolding r look by blast
    then show ?thesis unfolding q by simp
  qed
  show "dep_rel ds = formula_deps fields"
    unfolding set_eq_iff split_paired_All formula_deps_def mem_Collect_eq rel prod.inject by blast
qed

lemma validate_steps:
  "validate_formula_schema parse fields = Inr () \<longleftrightarrow>
     stable_ids fields \<and> formulas_ok parse fields \<and> acyclic (formula_deps fields)"
  "stable_ids fields \<Longrightarrow> formulas_ok parse fields \<Longrightarrow> validate_formula_schema parse fields = Inl e \<Longrightarrow>
     \<exists>c. is_cycle (formula_deps fields) c \<and> e = cycle_message c"
proof -
  let ?ds = "map (\<lambda>(i, f). (i, filter (formula_at (keyed fields)) (dedup (refs_of f)))) (filter (\<lambda>(i, f). is_formula_field f) (keyed fields))"
  have fm: "formula_field_map fields [] = Inr (keyed fields) \<longleftrightarrow> stable_ids fields"
    "formula_field_map fields [] = Inr fm \<Longrightarrow> fm = keyed fields" for fm by (auto simp: formula_field_map_Inr)
  have dm: "dependency_map parse (keyed fields) (keyed fields) = Inr ?ds \<longleftrightarrow> formulas_ok parse fields"
    "dependency_map parse (keyed fields) (keyed fields) = Inr ds \<Longrightarrow> ds = ?ds" for ds
    unfolding dependency_map_Inr formulas_ok_def by (auto simp: image_image)
  have run: "validate_formula_schema parse fields = bind_res (visit_all ?ds [] [] (map fst ?ds)) (\<lambda>_. Inr ())"
    if "stable_ids fields" "formulas_ok parse fields"
    using fm(1) dm(1) that unfolding validate_formula_schema_def by simp
  have check: "(\<exists>v. visit_all ?ds [] [] (map fst ?ds) = Inr v) \<longleftrightarrow> acyclic (formula_deps fields)"
    "visit_all ?ds [] [] (map fst ?ds) = Inl e \<Longrightarrow> \<exists>c. is_cycle (formula_deps fields) c \<and> e = cycle_message c"
    if "stable_ids fields" for e
    using cycle_check[of ?ds, unfolded deps_keyed[OF that]] by blast+
  have ok: "stable_ids fields \<and> formulas_ok parse fields" if "validate_formula_schema parse fields = Inr ()"
  proof -
    from that obtain fm ds where m: "formula_field_map fields [] = Inr fm" "dependency_map parse fm fm = Inr ds"
      unfolding validate_formula_schema_def by auto
    from fm(2)[OF m(1)] m(1) fm(1) have "stable_ids fields" "fm = keyed fields" by simp_all
    with dm(2) m(2) dm(1) show ?thesis by simp
  qed
  show "validate_formula_schema parse fields = Inr () \<longleftrightarrow>
      stable_ids fields \<and> formulas_ok parse fields \<and> acyclic (formula_deps fields)" (is "?l \<longleftrightarrow> ?r")
  proof (cases "stable_ids fields \<and> formulas_ok parse fields")
    case True
    then have "?l \<longleftrightarrow> (\<exists>v. visit_all ?ds [] [] (map fst ?ds) = Inr v)" using run by simp
    with check(1) True show ?thesis by blast
  qed (use ok in blast)
  show "stable_ids fields \<Longrightarrow> formulas_ok parse fields \<Longrightarrow> validate_formula_schema parse fields = Inl e \<Longrightarrow>
     \<exists>c. is_cycle (formula_deps fields) c \<and> e = cycle_message c"
    using run check(2) by (auto simp: bind_res_Inl)
qed
section \<open>Properties of the schema check\<close>

definition name_parser :: parser where
  "name_parser s = (if is_prefix ''__field_'' s then Inr (ANode ''Expression'' [AName s [ANode ''Load'' []]]) else Inl ''invalid syntax'')"

definition plain_field :: "string \<Rightarrow> dict" where
  "plain_field i = [(''id'', PStr i), (''type'', PStr ''number'')]"

definition formula_field :: "string \<Rightarrow> string \<Rightarrow> dict" where
  "formula_field i e = [(''id'', PStr i), (''type'', PStr ''formula''), (''property'', PDict [(''formula'', PStr e)])]"

definition linked_fields :: "dict list" where
  "linked_fields = [formula_field ''c'' ''{{b}}'', plain_field ''a'', formula_field ''b'' '' {{a}} '']"

definition looped_fields :: "dict list" where
  "looped_fields = [plain_field ''a'', formula_field ''b'' ''{{c}}'', formula_field ''c'' ''{{b}}'']"

text \<open>C35: A schema is accepted exactly when every field has a non-empty id of its own, every
  formula compiles and refers to existing fields only, and no formula field depends on itself,
  directly or through others. When the cycle is what the check refuses, the message names
  fields that do form a cycle.
\<close>
theorem formula_schema_check:
  "(validate_formula_schema parse fields = Inr () \<longleftrightarrow>
      stable_ids fields \<and> formulas_ok parse fields \<and> acyclic (formula_deps fields))
   \<and> (stable_ids fields \<and> formulas_ok parse fields \<and> validate_formula_schema parse fields = Inl e \<longrightarrow>
      (\<exists>c. is_cycle (formula_deps fields) c \<and> e = cycle_message c))"
  using validate_steps by blast

lemma linked_ok: "validate_formula_schema name_parser linked_fields = Inr ()"
  by code_simp

lemma looped_refused: "validate_formula_schema name_parser looped_fields = Inl (cycle_message [''b'', ''c'', ''b''])"
  by code_simp

lemma looped_compiles: "stable_ids looped_fields" "formulas_ok name_parser looped_fields"
  by code_simp+

theorem formula_schema_check_witness:
  "acyclic (formula_deps linked_fields) \<and>
   (\<exists>c. is_cycle (formula_deps looped_fields) c \<and> cycle_message [''b'', ''c'', ''b''] = cycle_message c)"
  using formula_schema_check[of name_parser linked_fields] formula_schema_check[of name_parser looped_fields]
    linked_ok looped_refused looped_compiles by blast

section \<open>Evaluation\<close>

text \<open>
  The meaning of a formula field, with neither memo nor guard: the value of a field is that of
  its expression under the values of the fields it refers to, and the first of these that is
  an error is the value.
\<close>

inductive value_of :: "parser \<Rightarrow> evaluator \<Rightarrow> field_map \<Rightarrow> dict \<Rightarrow> string \<Rightarrow> pyval \<Rightarrow> bool"
  and env_of :: "parser \<Rightarrow> evaluator \<Rightarrow> field_map \<Rightarrow> dict \<Rightarrow> (string \<times> string) list \<Rightarrow> pyval + (string \<times> pyval) list \<Rightarrow> bool"
  for parse ev fm row where
  missing: "map_of fm i = None \<Longrightarrow> value_of parse ev fm row i formula_ref_error"
| plain: "map_of fm i = Some f \<Longrightarrow> \<not> is_formula_field f \<Longrightarrow> value_of parse ev fm row i (dget row i)"
| bad: "map_of fm i = Some f \<Longrightarrow> is_formula_field f \<Longrightarrow> compile_formula parse (get_formula_expression f) = Inl e \<Longrightarrow>
    value_of parse ev fm row i formula_error"
| run: "map_of fm i = Some f \<Longrightarrow> is_formula_field f \<Longrightarrow> compile_formula parse (get_formula_expression f) = Inr (t, names) \<Longrightarrow>
    env_of parse ev fm row names r \<Longrightarrow> value_of parse ev fm row i (case r of Inl e \<Rightarrow> e | Inr env \<Rightarrow> result_of (ev t env))"
| none: "env_of parse ev fm row [] (Inr [])"
| stop: "value_of parse ev fm row i v \<Longrightarrow> is_error_value v \<Longrightarrow> env_of parse ev fm row ((i, x) # names) (Inl v)"
| go_on: "value_of parse ev fm row i v \<Longrightarrow> \<not> is_error_value v \<Longrightarrow> env_of parse ev fm row names r \<Longrightarrow>
    env_of parse ev fm row ((i, x) # names) (case r of Inl e \<Rightarrow> Inl e | Inr env \<Rightarrow> Inr ((x, v) # env))"

inductive_cases env_NilE: "env_of parse ev fm row [] r"
inductive_cases env_ConsE: "env_of parse ev fm row ((i, x) # names) r"
inductive_cases value_ofE: "value_of parse ev fm row i v"

lemma value_of_unique:
  "value_of parse ev fm row i v \<Longrightarrow> (\<forall>v'. value_of parse ev fm row i v' \<longrightarrow> v' = v)"
  "env_of parse ev fm row names r \<Longrightarrow> (\<forall>r'. env_of parse ev fm row names r' \<longrightarrow> r' = r)"
proof (induction rule: value_of_env_of.inducts)
  case (run i f t names r)
  show ?case
  proof (intro allI impI)
    fix v' assume "value_of parse ev fm row i v'"
    then show "v' = (case r of Inl e \<Rightarrow> e | Inr env \<Rightarrow> result_of (ev t env))"
    proof cases
      case r': (run f' t' names' r')
      with run(1-3,5) have "t' = t" "env_of parse ev fm row names r'" by simp_all
      with run(4) r'(1) show ?thesis by blast
    qed (use run(1-3,5) in simp_all)
  qed
next
  case (stop i v x names)
  then show ?case by (blast elim: env_ConsE)
next
  case (go_on i v names r x)
  then show ?case by (blast elim: env_ConsE)
qed (auto elim: value_ofE env_NilE)

definition names_of :: "parser \<Rightarrow> dict \<Rightarrow> (string \<times> string) list" where
  "names_of parse f = (case compile_formula parse (get_formula_expression f) of Inl _ \<Rightarrow> [] | Inr (t, names) \<Rightarrow> names)"

text \<open>The edges the evaluation follows: from a formula field to the formula fields it names.\<close>

definition eval_deps :: "parser \<Rightarrow> field_map \<Rightarrow> (string \<times> string) set" where
  "eval_deps parse fm = {(a, b). \<exists>f. map_of fm a = Some f \<and> is_formula_field f \<and> b \<in> fst ` set (names_of parse f) \<and> formula_at fm b}"

definition memo_ok :: "parser \<Rightarrow> evaluator \<Rightarrow> field_map \<Rightarrow> dict \<Rightarrow> memo \<Rightarrow> bool" where
  "memo_ok parse ev fm row memo \<longleftrightarrow> (\<forall>i v. map_of memo i = Some v \<longrightarrow> value_of parse ev fm row i v)"

lemma memo_ok_add: "memo_ok parse ev fm row memo \<Longrightarrow> value_of parse ev fm row i v \<Longrightarrow> memo_ok parse ev fm row ((i, v) # memo)"
  by (auto simp: memo_ok_def)

lemma eval_correct:
  "acyclic (eval_deps parse fm) \<Longrightarrow> memo_ok parse ev fm row memo \<Longrightarrow> formula_at fm i \<longrightarrow> (\<forall>a\<in>set visiting. (a, i) \<in> (eval_deps parse fm)\<^sup>+) \<Longrightarrow>
     eval_field parse ev fm row memo visiting i = (v, memo') \<Longrightarrow> value_of parse ev fm row i v \<and> memo_ok parse ev fm row memo'"
  "acyclic (eval_deps parse fm) \<Longrightarrow> memo_ok parse ev fm row memo \<Longrightarrow>
     \<forall>b\<in>fst ` set names. formula_at fm b \<longrightarrow> (\<forall>a\<in>set visiting. (a, b) \<in> (eval_deps parse fm)\<^sup>+) \<Longrightarrow>
     eval_refs parse ev fm row memo visiting names = (r, memo') \<Longrightarrow> env_of parse ev fm row names r \<and> memo_ok parse ev fm row memo'"
proof (induction parse ev fm row memo visiting i and parse ev fm row memo visiting names arbitrary: v memo' and r memo' rule: eval_field_eval_refs.induct)
  case (1 parse ev fm row memo visiting i)
  show ?case
  proof (cases "map_of memo i")
    case (Some w)
    with 1 show ?thesis by (auto simp: eval_field.simps memo_ok_def)
  next
    case m: None
    show ?thesis
    proof (cases "map_of fm i")
      case None
      with 1 m show ?thesis by (auto simp: eval_field.simps intro: missing)
    next
      case (Some f)
      show ?thesis
      proof (cases "is_formula_field f")
        case False
        with 1 m Some show ?thesis by (auto simp: eval_field.simps intro: plain)
      next
        case True
        then have at_i: "formula_at fm i" using Some by (simp add: formula_at_def)
        have nv: "i \<notin> set visiting" using 1(2,4) at_i by (auto simp: acyclic_def)
        show ?thesis
        proof (cases "compile_formula parse (get_formula_expression f)")
          case (Inl e)
          from 1(5) have "v = formula_error" "memo' = (i, formula_error) # memo" using m Some True nv Inl by (simp_all add: eval_field.simps)
          then show ?thesis using bad[OF Some True Inl] memo_ok_add[OF 1(3)] by simp
        next
          case (Inr p)
          obtain t names where p: "p = (t, names)" by (cases p)
          obtain r mm where r: "eval_refs parse ev fm row memo (i # visiting) names = (r, mm)" by fastforce
          have v: "v = (case r of Inl e \<Rightarrow> e | Inr env \<Rightarrow> result_of (ev t env))" "memo' = (i, v) # mm"
            using 1(5) m Some True nv Inr p r by (auto simp: eval_field.simps Let_def)
          have "\<forall>b\<in>fst ` set names. formula_at fm b \<longrightarrow> (\<forall>a\<in>set (i # visiting). (a, b) \<in> (eval_deps parse fm)\<^sup>+)"
          proof (intro ballI impI)
            fix b a assume b: "b \<in> fst ` set names" "formula_at fm b" and a: "a \<in> set (i # visiting)"
            have e: "(i, b) \<in> eval_deps parse fm" using b Some True Inr p by (auto simp: eval_deps_def names_of_def)
            from a show "(a, b) \<in> (eval_deps parse fm)\<^sup>+"
              using 1(4) at_i e by (auto intro: trancl_into_trancl)
          qed
          from 1(1)[OF m Some _ nv Inr p[symmetric] 1(2,3) this r] True
          have "env_of parse ev fm row names r" "memo_ok parse ev fm row mm" by simp_all
          then show ?thesis using run[OF Some True Inr[unfolded p]] memo_ok_add v by blast
        qed
      qed
    qed
  qed
next
  case (2 parse ev fm row memo visiting)
  then show ?case by (auto intro: none)
next
  case (3 parse ev fm row memo visiting i x names)
  show ?case
  proof (cases "map_of fm i")
    case None
    have "is_error_value formula_ref_error" by (simp add: is_error_value_def)
    with None 3 show ?thesis using stop[OF missing[OF None]] by auto
  next
    case (Some f)
    obtain w m1 where w: "(if is_formula_field f then eval_field parse ev fm row memo visiting i else (dget row i, memo)) = (w, m1)"
      by fastforce
    have w_ok: "value_of parse ev fm row i w" "memo_ok parse ev fm row m1"
      using 3(1)[OF Some _ 3(3,4), of w m1] 3(5) w plain[OF Some] 3(4) by (auto split: if_splits)
    show ?thesis
    proof (cases "is_error_value w")
      case True
      with 3(6) Some w have "r = Inl w" "memo' = m1" by auto
      then show ?thesis using stop[OF w_ok(1) True] w_ok(2) by simp
    next
      case False
      obtain r2 m2 where r2: "eval_refs parse ev fm row m1 visiting names = (r2, m2)" by fastforce
      have r: "r = (case r2 of Inl e \<Rightarrow> Inl e | Inr env \<Rightarrow> Inr ((x, w) # env))" "memo' = m2"
        using 3(6) Some w False r2 by auto
      have "env_of parse ev fm row names r2 \<and> memo_ok parse ev fm row m2"
        using 3(2)[OF Some w[symmetric] refl False 3(3) w_ok(2) _ r2] 3(5) by auto
      then show ?thesis using go_on[OF w_ok(1) False] r by blast
    qed
  qed
qed

lemma compile_names: "compile_formula parse (get_formula_expression f) = Inr (t, names) \<Longrightarrow> fst ` set names = set (refs_of f)"
proof -
  assume "compile_formula parse (get_formula_expression f) = Inr (t, names)"
  then have "names = ref_names (refs_of f)"
    by (auto simp: compile_formula_def refs_of_def get_formula_references_def get_formula_expression_def fx_error_def Let_def
        split: if_splits sum.splits pyval.splits)
  moreover have "map fst (ref_names rs) = dedup rs" for rs by (simp add: ref_names_def comp_def split_beta)
  ultimately show ?thesis by (metis set_map set_dedup)
qed

lemma eval_deps_keyed:
  assumes "stable_ids fields"
  shows "eval_deps parse (keyed fields) \<subseteq> formula_deps fields"
proof (rule subrelI)
  fix a b assume "(a, b) \<in> eval_deps parse (keyed fields)"
  then obtain f g where f: "map_of (keyed fields) a = Some f" "is_formula_field f" "b \<in> fst ` set (names_of parse f)"
    and g: "map_of (keyed fields) b = Some g" "is_formula_field g"
    by (auto simp: eval_deps_def formula_at_def split: option.splits)
  have "b \<in> set (refs_of f)"
  proof (cases "compile_formula parse (get_formula_expression f)")
    case (Inr p)
    obtain t names where "p = (t, names)" by (cases p)
    with f(3) Inr compile_names[of parse f t names] show ?thesis by (simp add: names_of_def)
  qed (use f(3) in \<open>simp add: names_of_def\<close>)
  moreover have "distinct (map field_key fields)" using assms by (simp add: stable_ids_def)
  note look = map_of_keyed[OF this]
  from look f(1) g(1) have "f \<in> set fields" "field_key f = a" "g \<in> set fields" "field_key g = b" by blast+
  ultimately show "(a, b) \<in> formula_deps fields" using f(2) g(2) unfolding formula_deps_def by blast
qed

lemma update_new: "i \<notin> fst ` set al \<Longrightarrow> AList.update i f al = al @ [(i, f)]"
  by (induction al) auto

lemma materialize_map_keyed: "stable_ids fields \<Longrightarrow> materialize_map fields = keyed fields"
proof -
  have "foldl (\<lambda>fm f. case dget f ''id'' of PStr i \<Rightarrow> if i = [] then fm else AList.update i f fm | _ \<Rightarrow> fm) acc fields = acc @ keyed fields"
    if "stable_ids fields" "set (map field_key fields) \<inter> fst ` set acc = {}" for acc
    using that
  proof (induction fields arbitrary: acc)
    case (Cons f fs)
    have st: "stable_ids fs" "field_key f \<noteq> []" "field_key f \<notin> set (map field_key fs)" using Cons.prems(1) by (auto simp: stable_ids_def)
    then have "(case dget f ''id'' of PStr i \<Rightarrow> if i = [] then acc else AList.update i f acc | _ \<Rightarrow> acc) = acc @ [(field_key f, f)]"
      using Cons.prems(2) by (auto simp: field_key_def update_new split: pyval.splits)
    then show ?case using Cons.IH[OF st(1), of "acc @ [(field_key f, f)]"] st(3) Cons.prems(2) by auto
  qed simp
  from this[of "[]"] show "stable_ids fields \<Longrightarrow> materialize_map fields = keyed fields" by (simp add: materialize_map_def)
qed

lemma materialize_ids_spec:
  assumes "acyclic (eval_deps parse fm)"
  shows "memo_ok parse ev fm row memo \<Longrightarrow>
     (i \<in> set is \<longrightarrow> value_of parse ev fm row i (dget (materialize_ids parse ev fm row memo is next_row) i))
     \<and> (i \<notin> set is \<longrightarrow> map_of (materialize_ids parse ev fm row memo is next_row) i = map_of next_row i)"
proof (induction "is" arbitrary: memo next_row)
  case (Cons j js)
  obtain v m where e: "eval_field parse ev fm row memo [] j = (v, m)" by fastforce
  from eval_correct(1)[OF assms Cons.prems _ e] have v: "value_of parse ev fm row j v" "memo_ok parse ev fm row m" by simp_all
  let ?r = "materialize_ids parse ev fm row m js (dset j v next_row)"
  have r: "materialize_ids parse ev fm row memo (j # js) next_row = ?r" by (simp add: e)
  note ih = Cons.IH[OF v(2), of "dset j v next_row"]
  show ?case
  proof (cases "i \<in> set js")
    case False
    with ih have "map_of ?r i = map_of (dset j v next_row) i" by blast
    moreover from this have "dget ?r i = dget (dset j v next_row) i" unfolding dget_def by simp
    ultimately show ?thesis unfolding r using v(1) False by (cases "i = j") (simp_all add: map_of_dset)
  qed (use ih r in simp)
qed simp

definition formula_ids :: "dict list \<Rightarrow> string set" where
  "formula_ids fields = field_key ` {f \<in> set fields. is_formula_field f}"

lemma materialize_spec:
  assumes "stable_ids fields" "acyclic (formula_deps fields)" "n < length records"
  shows "if i \<in> formula_ids fields
     then value_of parse ev (keyed fields) (records ! n) i (dget (materialize_records parse ev fields records ! n) i)
     else map_of (materialize_records parse ev fields records ! n) i = map_of (records ! n) i"
proof -
  have ac: "acyclic (eval_deps parse (keyed fields))"
    using acyclic_subset[OF assms(2) eval_deps_keyed[OF assms(1)]] .
  have ids: "set (map fst (filter (\<lambda>(i, f). is_formula_field f) (keyed fields))) = formula_ids fields"
    by (auto simp: formula_ids_def filter_map comp_def image_image)
  note spec = materialize_ids_spec[OF ac, of ev "records ! n" "[]" i
      "map fst (filter (\<lambda>(i, f). is_formula_field f) (keyed fields))" "records ! n"]
  show ?thesis
  proof (cases "map fst (filter (\<lambda>(i, f). is_formula_field f) (keyed fields)) = []")
    case True
    then have "i \<notin> formula_ids fields" using ids by auto
    with True show ?thesis by (simp add: materialize_records_def Let_def materialize_map_keyed[OF assms(1)])
  next
    case False
    then have "materialize_records parse ev fields records ! n = materialize_ids parse ev (keyed fields) (records ! n) []
        (map fst (filter (\<lambda>(i, f). is_formula_field f) (keyed fields))) (records ! n)"
      using assms(3) by (simp add: materialize_records_def Let_def materialize_map_keyed[OF assms(1)])
    with spec ids show ?thesis by (simp add: memo_ok_def)
  qed
qed

definition name_eval :: evaluator where
  "name_eval s env = (case map_of env s of Some v \<Rightarrow> Value v | None \<Rightarrow> Failure)"

text \<open>C34: Under an accepted schema the evaluation with its memo and its guard against cycles gives
  every formula field of every record the one value its expression has under the values of the
  fields it refers to, whatever the parser and the evaluator, and leaves every other key of the
  record as it is.
\<close>
theorem formula_values:
  assumes "validate_formula_schema parse fields = Inr ()" and "n < length records"
  shows "if i \<in> formula_ids fields
     then value_of parse ev (keyed fields) (records ! n) i (dget (materialize_records parse ev fields records ! n) i)
       \<and> (\<forall>v. value_of parse ev (keyed fields) (records ! n) i v \<longrightarrow> v = dget (materialize_records parse ev fields records ! n) i)
     else map_of (materialize_records parse ev fields records ! n) i = map_of (records ! n) i"
proof -
  from assms(1) have "stable_ids fields" "acyclic (formula_deps fields)" by (simp_all add: validate_steps)
  from materialize_spec[OF this assms(2), where parse = parse and ev = ev and i = i]
  show ?thesis using value_of_unique(1) by (simp split: if_splits)
qed

lemma linked_out: "dget (materialize_records name_parser name_eval linked_fields [[(''a'', PInt 7)]] ! 0) ''c'' = PInt 7"
  by code_simp

lemma linked_formula_ids: "''c'' \<in> formula_ids linked_fields"
proof -
  have "is_formula_field (formula_field ''c'' ''{{b}}'')" "field_key (formula_field ''c'' ''{{b}}'') = ''c''" by code_simp+
  moreover have "formula_field ''c'' ''{{b}}'' \<in> set linked_fields" by (simp add: linked_fields_def)
  ultimately show ?thesis unfolding formula_ids_def by force
qed

theorem formula_values_witness:
  "value_of name_parser name_eval (keyed linked_fields) [(''a'', PInt 7)] ''c'' (PInt 7)"
  using formula_values[OF linked_ok, of 0 "[[(''a'', PInt 7)]]" "''c''" name_eval] linked_out linked_formula_ids by simp

end
