(* ===== verification/StoreFacade.thy ===== *)
theory StoreFacade
  imports SchemaStore Formula
begin

text \<open>
  The operations the rest of the server calls on a database table
  (\<open>smart_table_store/__init__.py\<close>): each reads the fields of the table, checks or normalises
  what the client sent (read-only fields, surrounding blanks of text, links), calls the
  operation of \<open>db_backend.py\<close> and returns its records with the formula values. \<open>parse\<close> and
  \<open>ev\<close> are the parameters of \<open>Formula\<close>. A definition that shares its name with the operation
  it wraps has the suffix \<open>_checked\<close>.
\<close>

declare split_paired_All [simp del] split_paired_Ex [simp del]

section \<open>Definitions\<close>

text \<open>\<open>_field_to_dict\<close> builds the dictionary of \<open>field_dict\<close>.\<close>

definition db_fields :: "tables \<Rightarrow> string option \<Rightarrow> dict list" where
  "db_fields t table_id = map field_dict (ordered_fields t (normalize_table_id table_id))"

definition formula_field_ids :: "dict list \<Rightarrow> string list" where
  "formula_field_ids flds = map (\<lambda>f. py_str (dget f ''id'')) (filter (\<lambda>f. py_truth (dget f ''id'') \<and> is_formula_field f) flds)"

definition ensure_field_is_writable :: "dict list \<Rightarrow> string \<Rightarrow> unit res" where
  "ensure_field_is_writable flds field_id =
     (case find (\<lambda>f. dget f ''id'' = PStr field_id) flds of
        None \<Rightarrow> Inr ()
      | Some f \<Rightarrow>
          if is_formula_field f then fx_error (''Formula field '' @ [CHR 0x27] @ field_label field_id f @ [CHR 0x27] @ '' is read-only'')
          else if is_auto_number_field f then an_error (''Auto-number field '' @ [CHR 0x27] @ field_label field_id f @ [CHR 0x27] @ '' is read-only'')
          else Inr ())"

definition readonly_ids :: "dict list \<Rightarrow> string list" where
  "readonly_ids flds = formula_field_ids flds
     @ map (\<lambda>f. py_str (dget f ''id'')) (filter (\<lambda>f. py_truth (dget f ''id'') \<and> is_auto_number_field f) flds)"

definition strip_formula_values :: "dict \<Rightarrow> dict list \<Rightarrow> dict" where
  "strip_formula_values vals flds = filter (\<lambda>(k, v). k \<notin> set (readonly_ids flds)) vals"

definition normalize_text_value :: "pyval \<Rightarrow> pyval" where
  "normalize_text_value v = (case v of PStr s \<Rightarrow> PStr (strip s) | _ \<Rightarrow> v)"

definition text_field_types :: "dict list \<Rightarrow> (string \<times> string) list" where
  "text_field_types flds = rev (map (\<lambda>f. (py_str (dget f ''id''), str_or_empty (dget f ''type''))) (filter (\<lambda>f. dget f ''id'' \<noteq> PNone) flds))"

definition normalize_text_payload :: "dict \<Rightarrow> dict list \<Rightarrow> dict" where
  "normalize_text_payload vals flds =
     map (\<lambda>(k, v). (k, if map_of (text_field_types flds) k = Some ''text'' then normalize_text_value v else v)) vals"

subsection \<open>Schema changes\<close>

definition validate_candidates :: "parser \<Rightarrow> dict list \<Rightarrow> dict \<Rightarrow> unit res" where
  "validate_candidates parse candidates field =
     bind_res (validate_formula_schema parse candidates) (\<lambda>_.
     bind_res (validate_relation_schema candidates) (\<lambda>_. validate_auto_number_field field))"

definition validate_field_add :: "parser \<Rightarrow> dict list \<Rightarrow> dict \<Rightarrow> unit res" where
  "validate_field_add parse flds field_data = validate_candidates parse (flds @ [field_data]) field_data"

text \<open>\<open>candidate[key] = value\<close> for every update (\<open>ignore_none\<close> is \<open>False\<close> on this backend).\<close>

definition updated_candidate :: "string \<Rightarrow> dict \<Rightarrow> dict \<Rightarrow> dict" where
  "updated_candidate field_id updates f = (if dget f ''id'' = PStr field_id then dupdate f updates else f)"

definition field_update_candidates :: "dict list \<Rightarrow> string \<Rightarrow> dict \<Rightarrow> dict list \<times> dict option" where
  "field_update_candidates flds field_id updates =
     (map (updated_candidate field_id updates) flds,
      case filter (\<lambda>f. dget f ''id'' = PStr field_id) flds of [] \<Rightarrow> None | fs \<Rightarrow> Some (dupdate (last fs) updates))"

definition validate_field_update :: "parser \<Rightarrow> dict list \<Rightarrow> string \<Rightarrow> dict \<Rightarrow> dict option res" where
  "validate_field_update parse flds field_id updates =
     (case field_update_candidates flds field_id updates of
        (_, None) \<Rightarrow> Inr None
      | (candidates, Some f) \<Rightarrow> bind_res (validate_candidates parse candidates f) (\<lambda>_. Inr (Some f)))"

definition ensure_field_can_be_deleted :: "dict list \<Rightarrow> string \<Rightarrow> unit res" where
  "ensure_field_can_be_deleted flds field_id =
     (let dependents = formula_dependents flds field_id in
      if dependents = [] then Inr ()
      else fx_error (''Field '' @ [CHR 0x27] @ field_id @ [CHR 0x27] @ '' is referenced by formula field(s): ''
        @ join '', '' (take 3 dependents)
        @ (if length dependents > 3 then '' and '' @ dec_nat (length dependents - 3) @ '' more'' else [])))"

subsection \<open>Reading\<close>

definition materialize_one :: "parser \<Rightarrow> evaluator \<Rightarrow> dict list \<Rightarrow> dict option \<Rightarrow> dict option" where
  "materialize_one parse ev flds r = (case r of
       None \<Rightarrow> None
     | Some d \<Rightarrow> (case materialize_records parse ev flds [d] of [] \<Rightarrow> Some d | d' # _ \<Rightarrow> Some d'))"

definition materialize_store :: "parser \<Rightarrow> evaluator \<Rightarrow> store \<Rightarrow> store" where
  "materialize_store parse ev st = st\<lparr>so_records := materialize_records parse ev (so_fields st) (so_records st)\<rparr>"

definition get_full_store_checked :: "parser \<Rightarrow> evaluator \<Rightarrow> tables \<Rightarrow> string option \<Rightarrow> store" where
  "get_full_store_checked parse ev t table_id = materialize_store parse ev (get_full_store t table_id)"

subsection \<open>Writing\<close>

definition create_record_checked ::
  "parser \<Rightarrow> evaluator \<Rightarrow> string option \<Rightarrow> int option \<Rightarrow> string \<Rightarrow> string \<Rightarrow> string option \<Rightarrow> template \<Rightarrow> dict op" where
  "create_record_checked parse ev table_id creator aty src tr blank =
     bind_op (create_record table_id creator aty src tr blank) (\<lambda>created.
     bind_op (reads (\<lambda>t. db_fields t table_id)) (\<lambda>flds.
       ret (case materialize_one parse ev flds (Some created) of Some d \<Rightarrow> if d = [] then created else d | None \<Rightarrow> created)))"

definition create_records_checked ::
  "parser \<Rightarrow> evaluator \<Rightarrow> string option \<Rightarrow> int \<Rightarrow> int option \<Rightarrow> string \<Rightarrow> string \<Rightarrow> string option \<Rightarrow> template \<Rightarrow> dict list op" where
  "create_records_checked parse ev table_id count creator aty src tr blank =
     bind_op (create_records table_id count creator aty src tr blank) (\<lambda>created.
     bind_op (reads (\<lambda>t. db_fields t table_id)) (\<lambda>flds.
       ret (materialize_records parse ev flds created)))"

text \<open>What a client sends, once cleaned; the links are checked in the second step.\<close>

definition clean_payload :: "dict list \<Rightarrow> dict \<Rightarrow> dict" where
  "clean_payload flds vals = normalize_text_payload (strip_formula_values vals flds) flds"

definition create_records_with_data_checked ::
  "parser \<Rightarrow> evaluator \<Rightarrow> string option \<Rightarrow> dict list \<Rightarrow> int option \<Rightarrow> string \<Rightarrow> string \<Rightarrow> string option \<Rightarrow> template \<Rightarrow> dict list op" where
  "create_records_with_data_checked parse ev table_id records_data creator aty src tr blank =
     bind_op (reads (\<lambda>t. db_fields t table_id)) (\<lambda>flds.
     bind_op (reads (\<lambda>t. normalize_relation_rows_db t flds (map (clean_payload flds) records_data) creator)) (\<lambda>checked.
     bind_op (of_res checked) (\<lambda>normalized.
     bind_op (create_records_with_data table_id normalized creator aty src tr blank) (\<lambda>created.
       ret (materialize_records parse ev flds created)))))"

text \<open>The value of one field on its way to \<open>update_record\<close> and \<open>apply_record_patches\<close>.\<close>

definition normalized_cell :: "tables \<Rightarrow> dict list \<Rightarrow> string \<Rightarrow> pyval \<Rightarrow> int option \<Rightarrow> pyval res" where
  "normalized_cell t flds field_id v user =
     (let text_normalized = normalize_text_payload [(field_id, v)] flds in
      bind_res (normalize_relation_payload_db t flds text_normalized user) (\<lambda>normalized.
        Inr (dget_default normalized field_id (dget_default text_normalized field_id v))))"

definition update_record_checked ::
  "parser \<Rightarrow> evaluator \<Rightarrow> string option \<Rightarrow> string \<Rightarrow> string \<Rightarrow> pyval \<Rightarrow> int option \<Rightarrow> string \<Rightarrow> string \<Rightarrow> string option \<Rightarrow> dict option op" where
  "update_record_checked parse ev table_id record_id field_id v user aty src tr =
     bind_op (reads (\<lambda>t. db_fields t table_id)) (\<lambda>flds.
     then_op (of_res (ensure_field_is_writable flds field_id))
     (bind_op (reads (\<lambda>t. normalized_cell t flds field_id v user)) (\<lambda>checked.
      bind_op (of_res checked) (\<lambda>w.
      bind_op (update_record table_id record_id field_id w user aty src tr) (\<lambda>updated.
        ret (materialize_one parse ev flds updated))))))"

definition update_record_fields_checked ::
  "parser \<Rightarrow> evaluator \<Rightarrow> string option \<Rightarrow> string \<Rightarrow> dict \<Rightarrow> int option \<Rightarrow> string \<Rightarrow> string \<Rightarrow> string option \<Rightarrow> dict option op" where
  "update_record_fields_checked parse ev table_id record_id fields_data user aty src tr =
     bind_op (reads (\<lambda>t. db_fields t table_id)) (\<lambda>flds.
     bind_op (reads (\<lambda>t. normalize_relation_payload_db t flds (clean_payload flds fields_data) user)) (\<lambda>checked.
     bind_op (of_res checked) (\<lambda>normalized.
     bind_op (update_record_fields table_id record_id normalized user aty src tr) (\<lambda>updated.
       ret (materialize_one parse ev flds updated)))))"

definition normalized_patch :: "dict list \<Rightarrow> int option \<Rightarrow> dict \<Rightarrow> dict op" where
  "normalized_patch flds user patch = (case dget patch ''fieldId'' of
       PStr field_id \<Rightarrow>
         then_op (of_res (ensure_field_is_writable flds field_id))
         (bind_op (reads (\<lambda>t. normalized_cell t flds field_id (dget patch ''value'') user)) (\<lambda>checked.
          bind_op (of_res checked) (\<lambda>w. ret (dset ''value'' w patch))))
     | _ \<Rightarrow> ret patch)"

definition apply_record_patches_checked ::
  "string option \<Rightarrow> dict list \<Rightarrow> int option \<Rightarrow> string \<Rightarrow> string \<Rightarrow> string option \<Rightarrow> nat op" where
  "apply_record_patches_checked table_id patches user aty src tr =
     bind_op (reads (\<lambda>t. db_fields t table_id)) (\<lambda>flds.
     bind_op (map_op (normalized_patch flds user) patches) (\<lambda>normalized_patches.
       apply_record_patches table_id normalized_patches user aty src tr))"

definition add_field_checked :: "parser \<Rightarrow> string option \<Rightarrow> dict \<Rightarrow> int option \<Rightarrow> dict op" where
  "add_field_checked parse table_id field_data index =
     bind_op (reads (\<lambda>t. db_fields t table_id)) (\<lambda>flds.
     then_op (of_res (validate_field_add parse flds field_data))
     (then_op (validate_relation_field_db table_id field_data)
      (add_field table_id field_data index)))"

definition update_field_checked :: "parser \<Rightarrow> string option \<Rightarrow> string \<Rightarrow> dict \<Rightarrow> dict option op" where
  "update_field_checked parse table_id field_id updates =
     bind_op (reads (\<lambda>t. db_fields t table_id)) (\<lambda>flds.
     let next_type = (if dget updates ''type'' \<noteq> PNone then Some (py_str (dget updates ''type'')) else None) in
     bind_op (reads (\<lambda>t. ensure_permission_field_change_safe t (normalize_table_id table_id) field_id False next_type)) (\<lambda>safe.
     then_op (of_res safe)
     (bind_op (of_res (validate_field_update parse flds field_id updates)) (\<lambda>updated_field.
      then_op (case updated_field of None \<Rightarrow> ret () | Some f \<Rightarrow> validate_relation_field_db table_id f)
        (update_field table_id field_id updates)))))"

definition delete_field_checked :: "string option \<Rightarrow> string \<Rightarrow> bool op" where
  "delete_field_checked table_id field_id =
     bind_op (reads (\<lambda>t. db_fields t table_id)) (\<lambda>flds.
     bind_op (reads (\<lambda>t. ensure_permission_field_change_safe t (normalize_table_id table_id) field_id True None)) (\<lambda>safe.
     then_op (of_res safe)
     (then_op (of_res (ensure_field_can_be_deleted flds field_id))
       (delete_field table_id field_id))))"

definition delete_record_checked ::
  "string option \<Rightarrow> string \<Rightarrow> int option \<Rightarrow> string \<Rightarrow> string \<Rightarrow> string option \<Rightarrow> bool op" where
  "delete_record_checked table_id record_id user aty src tr =
     delete_record (Some (normalize_table_id table_id)) record_id user aty src tr"

section \<open>What the schema check depends on\<close>

definition schema_ok :: "parser \<Rightarrow> dict list \<Rightarrow> bool" where
  "schema_ok parse flds \<longleftrightarrow> stable_ids flds \<and> formulas_ok parse flds \<and> acyclic (formula_deps flds)"

lemma validate_schema_ok: "validate_formula_schema parse flds = Inr () \<longleftrightarrow> schema_ok parse flds"
  by (simp add: schema_ok_def validate_steps)

lemma schema_ok_sorted: "schema_ok parse (map g (sort_key k xs)) = schema_ok parse (map g xs)"
proof -
  have "distinct (map field_key (map g (sort_key k xs))) = distinct (map field_key (map g xs))"
    unfolding map_map distinct_map by simp
  then show ?thesis by (simp add: schema_ok_def stable_ids_def formulas_ok_def formula_deps_def)
qed

text \<open>Two lists that agree, field by field, on what the check reads.\<close>

definition same_formula :: "dict \<Rightarrow> dict \<Rightarrow> bool" where
  "same_formula f g \<longleftrightarrow> is_formula_field f = is_formula_field g
     \<and> (is_formula_field f \<longrightarrow> get_formula_expression f = get_formula_expression g)"

lemma same_formula_simps:
  assumes "same_formula f g"
  shows "is_formula_field f = is_formula_field g" "is_formula_field g \<Longrightarrow> refs_of f = refs_of g"
    "is_formula_field g \<Longrightarrow> compiles parse f = compiles parse g"
  using assms by (auto simp: same_formula_def refs_of_def compiles_def)

lemma acyclic_hom:
  assumes "acyclic S" "\<And>a b. (a, b) \<in> R \<Longrightarrow> (h a, h b) \<in> S"
  shows "acyclic R"
proof -
  have "(h a, h b) \<in> S\<^sup>+" if "(a, b) \<in> R\<^sup>+" for a b
    using that by (induction rule: trancl_induct) (auto intro: assms(2) trancl_into_trancl)
  with assms(1) show ?thesis unfolding acyclic_def by blast
qed

lemma schema_ok_same:
  assumes "list_all2 (\<lambda>f g. field_key f = field_key g \<and> same_formula f g) xs ys" "schema_ok parse ys"
  shows "schema_ok parse xs"
proof -
  have keys: "map field_key xs = map field_key ys" using assms(1) by (induction rule: list_all2_induct) auto
  have elem: "\<exists>g\<in>set ys. field_key f = field_key g \<and> same_formula f g" if "f \<in> set xs" for f
    using assms(1) that by (induction rule: list_all2_induct) auto
  have "formula_deps xs \<subseteq> formula_deps ys"
  proof (rule subrelI)
    fix a b assume "(a, b) \<in> formula_deps xs"
    then obtain f g where f: "f \<in> set xs" "a = field_key f" "is_formula_field f" "field_key g \<in> set (refs_of f)"
      and g: "g \<in> set xs" "b = field_key g" "is_formula_field g"
      unfolding formula_deps_def by blast
    from elem[OF f(1)] elem[OF g(1)] obtain f' g' where
      f': "f' \<in> set ys" "field_key f = field_key f'" "same_formula f f'" and g': "g' \<in> set ys" "field_key g = field_key g'" "same_formula g g'"
      by blast
    have fm: "is_formula_field f'" "is_formula_field g'" using f(3) g(3) same_formula_simps(1)[OF f'(3)] same_formula_simps(1)[OF g'(3)] by auto
    have "field_key g' \<in> set (refs_of f')" using f(4) same_formula_simps(2)[OF f'(3) fm(1)] g'(2) by simp
    with f(2) g(2) f' g' fm show "(a, b) \<in> formula_deps ys"
      unfolding formula_deps_def by auto
  qed
  moreover have "formulas_ok parse xs"
    unfolding formulas_ok_def
  proof (intro ballI impI)
    fix f assume f: "f \<in> set xs" "is_formula_field f"
    from elem[OF f(1)] obtain f' where f': "f' \<in> set ys" "same_formula f f'" by blast
    have fm: "is_formula_field f'" using f(2) same_formula_simps(1)[OF f'(2)] by simp
    with assms(2) f'(1) have "compiles parse f'" "set (refs_of f') \<subseteq> set (map field_key ys)"
      by (auto simp: schema_ok_def formulas_ok_def)
    with same_formula_simps[OF f'(2)] fm keys show "compiles parse f \<and> set (refs_of f) \<subseteq> set (map field_key xs)" by simp
  qed
  moreover have "stable_ids xs" using assms(2) keys by (simp add: schema_ok_def stable_ids_def)
  ultimately show ?thesis using assms(2) by (auto simp: schema_ok_def intro: acyclic_subset)
qed

text \<open>Taking out a field no formula refers to.\<close>

lemma schema_ok_filter:
  assumes "schema_ok parse flds" "\<And>f g. f \<in> set flds \<Longrightarrow> g \<in> set flds \<Longrightarrow> P f \<Longrightarrow> is_formula_field f \<Longrightarrow> \<not> P g \<Longrightarrow> field_key g \<notin> set (refs_of f)"
  shows "schema_ok parse (filter P flds)"
proof -
  have "formula_deps (filter P flds) \<subseteq> formula_deps flds" unfolding formula_deps_def by auto
  moreover have "formulas_ok parse (filter P flds)"
    unfolding formulas_ok_def
  proof (intro ballI impI)
    fix f assume f: "f \<in> set (filter P flds)" "is_formula_field f"
    with assms(1) have c: "compiles parse f" "set (refs_of f) \<subseteq> field_key ` set flds" by (auto simp: schema_ok_def formulas_ok_def)
    have "r \<in> field_key ` set (filter P flds)" if "r \<in> set (refs_of f)" for r
    proof -
      from that c(2) obtain g where "g \<in> set flds" "field_key g = r" by blast
      with assms(2)[of f g] f that show ?thesis by auto
    qed
    with c(1) show "compiles parse f \<and> set (refs_of f) \<subseteq> set (map field_key (filter P flds))" by auto
  qed
  moreover have "stable_ids (filter P flds)"
    using assms(1) by (auto simp: schema_ok_def stable_ids_def distinct_map_filter)
  ultimately show ?thesis using assms(1) by (auto simp: schema_ok_def intro: acyclic_subset)
qed

text \<open>
  Replacing the field \<open>i\<close>: \<open>ys\<close> is the checked list, where the replaced field may carry
  another id than \<open>i\<close>; \<open>zs\<close> is the stored list, where it keeps \<open>i\<close>.
\<close>

lemma schema_ok_replaced:
  assumes old: "schema_ok parse (map a flds)" and new: "schema_ok parse (map c flds)"
    and f: "f \<in> set flds" "field_key (a f) = i" and keys: "\<And>x. field_key (b x) = field_key (a x)"
    and same: "\<And>x. x \<in> set flds \<Longrightarrow> same_formula (b x) (c x)"
    and rest: "\<And>x. x \<in> set flds \<Longrightarrow> x \<noteq> f \<Longrightarrow> c x = a x"
  shows "schema_ok parse (map b flds)"
proof -
  define j where "j = field_key (c f)"
  define h where "h = id(i := j)"
  have d: "distinct (map (\<lambda>x. field_key (a x)) flds)" "distinct (map (\<lambda>x. field_key (c x)) flds)"
    using old new by (simp_all add: schema_ok_def stable_ids_def comp_def)
  have ik: "x = f" if "x \<in> set flds" "field_key (a x) = i" for x
    using d(1) f that inj_onD[of "\<lambda>x. field_key (a x)" "set flds" x f] by (simp add: distinct_map)
  have key_c: "field_key (c x) = h (field_key (a x))" if "x \<in> set flds" for x
  proof (cases "x = f")
    case True
    then show ?thesis using f(2) by (simp add: h_def j_def)
  next
    case False
    with ik[OF that] have "field_key (a x) \<noteq> i" by blast
    with rest[OF that False] show ?thesis by (simp add: h_def)
  qed
  have ref_c: "refs_of (b x) = refs_of (c x)" "compiles parse (b x)" "set (refs_of (c x)) \<subseteq> (\<lambda>x. field_key (c x)) ` set flds"
    "is_formula_field (c x)"
    if "x \<in> set flds" "is_formula_field (b x)" for x
  proof -
    show fc: "is_formula_field (c x)" using same_formula_simps(1)[OF same[OF that(1)]] that(2) by simp
    then show "refs_of (b x) = refs_of (c x)" by (rule same_formula_simps(2)[OF same[OF that(1)]])
    have "compiles parse (c x) \<and> set (refs_of (c x)) \<subseteq> (\<lambda>x. field_key (c x)) ` set flds"
      using new fc that(1) by (auto simp: schema_ok_def formulas_ok_def image_image)
    then show "compiles parse (b x)" "set (refs_of (c x)) \<subseteq> (\<lambda>x. field_key (c x)) ` set flds"
      using same_formula_simps(3)[OF same[OF that(1)] fc] by auto
  qed
  have no_i: "i \<notin> set (refs_of (c x))" if "x \<in> set flds" "is_formula_field (b x)" "j \<noteq> i" for x
  proof
    assume "i \<in> set (refs_of (c x))"
    with ref_c(3)[OF that(1,2)] obtain g where g: "g \<in> set flds" "field_key (c g) = i" by blast
    with that(3) j_def have "g \<noteq> f" by blast
    with rest[OF g(1)] g(2) ik[OF g(1)] show False by simp
  qed
  have edge: "(h p, h q) \<in> formula_deps (map c flds)" if "(p, q) \<in> formula_deps (map b flds)" for p q
  proof -
    from that obtain x y where x: "x \<in> set flds" "p = field_key (a x)" "is_formula_field (b x)" "field_key (a y) \<in> set (refs_of (b x))"
      and y: "y \<in> set flds" "q = field_key (a y)" "is_formula_field (b y)"
      unfolding formula_deps_def by (auto simp: keys)
    have "h q = q"
      using no_i[OF x(1,3)] x(4) ref_c(1)[OF x(1,3)] y(2) by (cases "j = i") (auto simp: h_def)
    moreover have k: "field_key (c y) = h q" "field_key (c x) = h p" using key_c[OF x(1)] key_c[OF y(1)] x(2) y(2) by simp_all
    ultimately have "field_key (c y) \<in> set (refs_of (c x))" using x(4) ref_c(1)[OF x(1,3)] y(2) by simp
    moreover have "c x \<in> set (map c flds)" "c y \<in> set (map c flds)" using x(1) y(1) by simp_all
    ultimately have "(field_key (c x), field_key (c y)) \<in> formula_deps (map c flds)"
      using ref_c(4)[OF x(1,3)] ref_c(4)[OF y(1,3)] unfolding formula_deps_def by blast
    then show ?thesis unfolding k .
  qed
  have "formulas_ok parse (map b flds)"
    unfolding formulas_ok_def
  proof (intro ballI impI)
    fix z assume z: "z \<in> set (map b flds)" "is_formula_field z"
    then obtain x where x: "x \<in> set flds" "z = b x" by auto
    have fx: "is_formula_field (b x)" using z(2) x(2) by simp
    have "r \<in> (\<lambda>x. field_key (a x)) ` set flds" if r: "r \<in> set (refs_of (c x))" for r
    proof -
      from ref_c(3)[OF x(1) fx] r obtain g where g: "g \<in> set flds" "field_key (c g) = r" by blast
      show ?thesis
      proof (cases "g = f")
        case False
        with rest[OF g(1)] g show ?thesis by force
      next
        case gf: True
        show ?thesis
        proof (cases "x = f")
          case True
          have "c f \<in> set (map c flds)" "field_key (c f) = r" using f(1) g(2) gf by simp_all
          with r True ref_c(4)[OF x(1) fx] have "(r, r) \<in> formula_deps (map c flds)" unfolding formula_deps_def by blast
          with new show ?thesis by (auto simp: schema_ok_def acyclic_def)
        next
          case False
          with rest[OF x(1)] ref_c(4)[OF x(1) fx] old x(1) r show ?thesis
            by (fastforce simp: schema_ok_def formulas_ok_def image_image)
        qed
      qed
    qed
    then show "compiles parse z \<and> set (refs_of z) \<subseteq> set (map field_key (map b flds))"
      using ref_c(1,2)[OF x(1) fx] x(2) by (auto simp: keys image_image)
  qed
  moreover have "stable_ids (map b flds)"
    using old by (simp add: schema_ok_def stable_ids_def comp_def image_image keys)
  ultimately show ?thesis
    using acyclic_hom[OF _ edge] new by (simp add: schema_ok_def)
qed

section \<open>Every schema change keeps the formulas valid\<close>

definition table_schema :: "tables \<Rightarrow> string \<Rightarrow> dict list" where
  "table_schema t T = map field_dict (select t_fields (\<lambda>f. fld_table f = T) t)"

definition schemas_ok :: "parser \<Rightarrow> tables \<Rightarrow> bool" where
  "schemas_ok parse t \<longleftrightarrow> (\<forall>T. schema_ok parse (table_schema t T))"

lemma db_fields_ok: "schema_ok parse (db_fields t T) = schema_ok parse (table_schema t (normalize_table_id T))"
  by (simp add: db_fields_def ordered_fields_def table_schema_def schema_ok_sorted)

lemma field_dict_simps [simp]:
  "field_key (field_dict f) = fld_id f" "dget (field_dict f) ''id'' = PStr (fld_id f)"
  "dget (field_dict f) ''type'' = PStr (fld_type f)" "dget (field_dict f) ''property'' = fld_property f"
  by (simp_all add: field_dict_def field_key_def dget_def)

lemma is_formula_type: "dget d ''type'' = PStr ty \<Longrightarrow> is_formula_field d \<longleftrightarrow> lower ty = ''formula''"
  by (auto simp: is_formula_field_def str_or_empty_def py_str_def lower_def)

lemma formula_not_special: "lower ty = ''formula'' \<Longrightarrow> ty \<notin> {''autoNumber'', ''member''}"
  by (auto simp: lower_def lower_char_def)

lemma same_formula_property:
  assumes "dget d ''type'' = PStr (fld_type f)" "lower (fld_type f) = ''formula'' \<Longrightarrow> fld_property f = dget d ''property''"
  shows "same_formula (field_dict f) d"
  using assms by (auto simp: same_formula_def is_formula_type get_formula_expression_def)

lemma schemas_ok_all2:
  assumes "schemas_ok parse t"
    and "list_all2 (\<lambda>x y. fld_key y = fld_key x \<and> same_formula (field_dict y) (field_dict x)) (t_fields t) (t_fields t')"
  shows "schemas_ok parse t'"
  unfolding schemas_ok_def
proof
  fix T
  have "list_all2 (\<lambda>f g. field_key f = field_key g \<and> same_formula f g)
      (map field_dict (filter (\<lambda>f. fld_table f = T) ys)) (map field_dict (filter (\<lambda>f. fld_table f = T) xs))"
    if "list_all2 (\<lambda>x y. fld_key y = fld_key x \<and> same_formula (field_dict y) (field_dict x)) xs ys" for xs ys
    using that by (induction rule: list_all2_induct) (auto simp: fld_key_def)
  from this[OF assms(2)] show "schema_ok parse (table_schema t' T)"
    using assms(1) unfolding table_schema_def schemas_ok_def select_def by (auto intro: schema_ok_same)
qed

lemma schemas_ok_map:
  assumes "schemas_ok parse t" "t_fields t' = map g (t_fields t)"
    and "\<And>x. x \<in> set (t_fields t) \<Longrightarrow> fld_key (g x) = fld_key x \<and> same_formula (field_dict (g x)) (field_dict x)"
  shows "schemas_ok parse t'"
  by (rule schemas_ok_all2[OF assms(1)]) (use assms(3) in \<open>simp add: assms(2) list_all2_map2 list_all2_same\<close>)

lemma same_formula_order [simp]: "same_formula (field_dict (f\<lparr>fld_order := n\<rparr>)) (field_dict f)" "same_formula d d"
  by (simp_all add: same_formula_property) (simp add: same_formula_def)

lemma schemas_ok_tables:
  assumes "schemas_ok parse t" "\<And>U. U \<noteq> T \<Longrightarrow> schema_ok parse (table_schema t' U)" "schema_ok parse (table_schema t' T)"
  shows "schemas_ok parse t'"
  using assms unfolding schemas_ok_def by metis

text \<open>The check of a relation field may rewrite values, never fields.\<close>

lemma write_normalized_fields: "write_normalized i rows s = (r, s') \<Longrightarrow> t_fields (work s') = t_fields (work s)"
proof (induction i rows arbitrary: s s' r rule: write_normalized.induct)
  case (2 i r0 n rows)
  then show ?case by (auto simp: then_op_def bind_op_def update_rows_eval basic_eval split: if_splits prod.splits sum.splits)
qed (simp add: basic_eval)

lemma write_normalized_keys: "write_normalized i rows s = (r, s') \<Longrightarrow> keys_ok (work s) \<Longrightarrow> keys_ok (work s')"
proof (induction i rows arbitrary: s s' r rule: write_normalized.induct)
  case (2 i r0 n rows)
  have same: "map rec_key (map (\<lambda>x. if rec_key x = rec_key r0 then x\<lparr>rec_data := D x\<rparr> else x) xs) = map rec_key xs" for D xs
    by (simp add: rec_key_def)
  have "keys_ok (t_records_update (map (\<lambda>x. if rec_key x = rec_key r0 then x\<lparr>rec_data := D x\<rparr> else x)) (work s))" for D
    by (rule tr.keys_upd[OF 2(4)]) (use tr.keys_get[OF 2(4)] in \<open>simp only: same\<close>)
  then show ?case using 2
    by (auto simp: then_op_def bind_op_def update_rows_eval basic_eval split: if_splits prod.splits sum.splits)
qed (simp add: basic_eval)

lemma validate_relation_fields:
  assumes "validate_relation_field_db T d s = (Inr x, s')" "keys_ok (work s)"
  shows "t_fields (work s') = t_fields (work s) \<and> keys_ok (work s')"
proof (cases "s' = s")
  case False
  with assms(1) obtain y n where "normalize_existing_relation_field_db (normalize_table_id T) d s = (Inr (y :: nat), s')"
    unfolding validate_relation_field_db_def Let_def
    by (auto simp: then_op_def bind_op_Inr basic_eval split: if_splits option.splits)
  with False obtain i rows where "write_normalized i rows s = (Inr y, s')"
    unfolding normalize_existing_relation_field_db_def Let_def by (auto simp: bind_op_Inr basic_eval rel_error_def split: if_splits)
  from write_normalized_fields[OF this] write_normalized_keys[OF this assms(2)] show ?thesis by simp
qed (use assms in simp)
lemma schema_ok_snoc: "schema_ok parse (map g (sort_key k xs) @ [d]) = schema_ok parse (map g xs @ [d])"
proof -
  have "distinct (map field_key (map g (sort_key k xs))) = distinct (map field_key (map g xs))"
    unfolding map_map distinct_map by simp
  then have "distinct (map field_key (map g (sort_key k xs) @ [d])) = distinct (map field_key (map g xs @ [d]))" by simp
  then show ?thesis by (simp add: schema_ok_def stable_ids_def formulas_ok_def formula_deps_def)
qed

lemma writable_table:
  assumes "schemas_ok parse t" "keys_ok t"
  shows "schema_ok parse (table_schema t T)" "distinct (map fld_key (t_fields t))"
  using assms tf.keys_get by (auto simp: schemas_ok_def)

lemma add_field_checked_run:
  assumes run: "add_field_checked parse T d idx s = (Inr out, s')" and k: "keys_ok (work s)" and ok: "schemas_ok parse (work s)"
  shows "schemas_ok parse (work s')"
proof -
  let ?tbl = "normalize_table_id T"
  from run obtain s1 u where v: "validate_field_add parse (db_fields (work s) T) d = Inr ()"
    and rel: "validate_relation_field_db T d s = (Inr u, s1)" and add: "add_field T d idx s1 = (Inr out, s')"
    unfolding add_field_checked_def by (auto simp: bind_op_Inr then_op_def basic_eval)
  have s1: "t_fields (work s1) = t_fields (work s)" "keys_ok (work s1)" using validate_relation_fields[OF rel k] by auto
  from v have cand: "schema_ok parse (db_fields (work s) T @ [d])"
    by (auto simp: validate_field_add_def validate_candidates_def simp flip: validate_schema_ok)
  from add_field_run[OF add s1(2)] obtain \<sigma> nf where F: "t_fields (work s') = map \<sigma> (t_fields (work s)) @ [nf]"
    and \<sigma>: "\<And>x. \<sigma> x = x \<or> \<sigma> x = x\<lparr>fld_order := fld_order x + 1\<rparr>" and nf: "fld_table nf = ?tbl" "stored_as d nf"
    unfolding s1(1) by blast
  define t1 where "t1 = t_fields_update (map \<sigma>) (work s)"
  have \<sigma>f: "fld_key (\<sigma> x) = fld_key x \<and> same_formula (field_dict (\<sigma> x)) (field_dict x)" for x
    using \<sigma>[of x] by (auto simp: fld_key_def)
  have t1: "schemas_ok parse t1" by (rule schemas_ok_map[OF ok, of _ \<sigma>]) (use \<sigma>f in \<open>simp_all add: t1_def\<close>)
  have tabs: "table_schema (work s') U = table_schema t1 U @ (if U = ?tbl then [field_dict nf] else [])" for U
    by (auto simp: table_schema_def select_def F t1_def nf(1))
  show ?thesis
  proof (rule schemas_ok_tables[OF t1, of ?tbl])
    fix U assume "U \<noteq> ?tbl"
    with t1 show "schema_ok parse (table_schema (work s') U)" by (simp add: tabs schemas_ok_def)
  next
    have fk: "field_key d = fld_id nf" "same_formula (field_dict nf) d"
      using nf(2) formula_not_special by (auto simp: stored_as_def field_key_def intro!: same_formula_property)
    have old: "schema_ok parse (map field_dict (select t_fields (\<lambda>f. fld_table f = ?tbl) (work s)) @ [d])"
      using cand unfolding db_fields_def ordered_fields_def schema_ok_snoc .
    have sel: "select t_fields (\<lambda>f. fld_table f = ?tbl) t1 = map \<sigma> (select t_fields (\<lambda>f. fld_table f = ?tbl) (work s))"
      unfolding select_def t1_def by (simp add: filter_map comp_def) (metis (no_types, lifting) \<sigma>f fld_key_def prod.inject)
    have pw: "list_all2 (\<lambda>f g. field_key f = field_key g \<and> same_formula f g)
        (map field_dict (map \<sigma> xs) @ [field_dict nf]) (map field_dict xs @ [d])" for xs
      using \<sigma>f fk by (induction xs) (auto simp: fld_key_def)
    have "table_schema (work s') ?tbl = map field_dict (map \<sigma> (select t_fields (\<lambda>f. fld_table f = ?tbl) (work s))) @ [field_dict nf]"
      using tabs[of ?tbl] sel by (simp add: table_schema_def)
    then show "schema_ok parse (table_schema (work s') ?tbl)" using schema_ok_same[OF pw old] by simp
  qed
qed
lemma dget_dupdate: "distinct (map fst new) \<Longrightarrow> dget (dupdate d new) k = dget_default new k (dget d k)"
proof (induction new arbitrary: d)
  case (Cons p new)
  obtain k' v where p: "p = (k', v)" by (cases p)
  with Cons.prems have "map_of new k' = None" by (auto simp: map_of_eq_None_iff)
  with Cons p show ?case by (auto simp: dupdate_def dget_default_def split: option.splits)
qed (simp add: dupdate_def dget_default_def)

lemma update_field_checked_run:
  assumes run: "update_field_checked parse T i upd s = (Inr out, s')" and k: "keys_ok (work s)" and ok: "schemas_ok parse (work s)"
    and wf: "wf_dict upd"
  shows "schemas_ok parse (work s')"
proof -
  let ?tbl = "normalize_table_id T"
  let ?xs = "ordered_fields (work s) ?tbl"
  from run obtain s1 u uf where v: "validate_field_update parse (db_fields (work s) T) i upd = Inr uf"
    and rel: "(case uf of None \<Rightarrow> ret () | Some f \<Rightarrow> validate_relation_field_db T f) s = (Inr u, s1)"
    and up: "update_field T i upd s1 = (Inr out, s')"
    unfolding update_field_checked_def Let_def by (auto simp: bind_op_Inr then_op_def basic_eval)
  have s1: "t_fields (work s1) = t_fields (work s)" "keys_ok (work s1)"
    using rel validate_relation_fields k by (auto simp: basic_eval split: option.splits)
  have ff: "find_field (work s1) ?tbl i = find_field (work s) ?tbl i" by (simp add: find_field_def select_first_def s1(1))
  from update_field_run[OF up s1(2), unfolded ff]
  show ?thesis
  proof
    assume "find_field (work s) ?tbl i = None \<and> out = None \<and> s' = s1"
    with ok s1(1) show ?thesis by (simp add: schemas_ok_def table_schema_def select_def)
  next
    assume "\<exists>f f' h. find_field (work s) ?tbl i = Some f \<and> fld_key f' = fld_key f
        \<and> t_fields (work s') = map (\<lambda>x. if fld_key x = fld_key f then f' else x) (t_fields (work s1))
        \<and> t_records (work s') = map h (t_records (work s1)) \<and> committed s' = work s' \<and> out = Some (field_dict f')
        \<and> PStr (fld_type f') = dget_default upd ''type'' (PStr (fld_type f))
        \<and> (fld_type f' \<notin> {''autoNumber'', ''member''} \<longrightarrow> fld_property f' = dget_default upd ''property'' (fld_property f))
        \<and> (if fld_type f' = ''autoNumber'' \<and> fld_type f \<noteq> ''autoNumber'' then renumbered (fld_table f) (fld_id f) (next_of f') (t_records (work s1)) h
           else h = (\<lambda>x. x) \<and> (fld_type f' = ''autoNumber'' \<longrightarrow> next_of f \<le> next_of f'))"
    then obtain f f' where f: "find_field (work s) ?tbl i = Some f" and fk: "fld_key f' = fld_key f"
      and F: "t_fields (work s') = map (\<lambda>x. if fld_key x = fld_key f then f' else x) (t_fields (work s))"
      and ty: "PStr (fld_type f') = dget_default upd ''type'' (PStr (fld_type f))"
      and pr: "fld_type f' \<notin> {''autoNumber'', ''member''} \<Longrightarrow> fld_property f' = dget_default upd ''property'' (fld_property f)"
      unfolding s1(1) by blast
    have fi: "fld_id f = i" "fld_table f = ?tbl" "f \<in> set (t_fields (work s))"
      using f by (auto simp: find_field_def select_first_def dest: find_SomeD)
    have fx: "f \<in> set ?xs" using fi ordered_fields_keys(3)[OF k] by simp
    define g where "g = (\<lambda>x. if fld_key x = fld_key f then f' else x)"
    have gk: "fld_key (g x) = fld_key x" for x by (simp add: g_def fk)
    have key1: "x = f" if "x \<in> set ?xs" "fld_id x = i" for x
      using that fx fi ordered_fields_keys(2)[OF k, of ?tbl] by (auto simp: distinct_map inj_on_def)
    define c where "c = (\<lambda>x. updated_candidate i upd (field_dict x))"
    have "filter (\<lambda>d. dget d ''id'' = PStr i) (db_fields (work s) T) \<noteq> []"
      using fx fi by (auto simp: db_fields_def filter_empty_conv)
    with v obtain x where "validate_candidates parse (map c ?xs) x = Inr ()"
      by (auto simp: validate_field_update_def field_update_candidates_def db_fields_def comp_def c_def split: list.splits)
    then have new: "schema_ok parse (map c ?xs)"
      by (auto simp: validate_candidates_def simp flip: validate_schema_ok)
    have old: "schema_ok parse (map field_dict ?xs)"
      using ok db_fields_ok[of parse "work s" T] by (simp add: schemas_ok_def db_fields_def)
    have same: "same_formula (field_dict (g x)) (c x)" if "x \<in> set ?xs" for x
    proof (cases "x = f")
      case True
      have "dget (c f) ''type'' = PStr (fld_type f')" "dget (c f) ''property'' = dget_default upd ''property'' (fld_property f)"
        using fi(1) dget_dupdate[OF wf] ty by (simp_all add: c_def updated_candidate_def)
      moreover have "g f = f'" by (simp add: g_def)
      ultimately show ?thesis using True pr formula_not_special by (auto intro!: same_formula_property)
    next
      case False
      with key1[OF that] have "fld_id x \<noteq> i" by blast
      then have "c x = field_dict x" "g x = x" using fi(1) by (auto simp: c_def updated_candidate_def g_def fld_key_def)
      then show ?thesis by simp
    qed
    have "schema_ok parse (map (\<lambda>x. field_dict (g x)) ?xs)"
    proof (rule schema_ok_replaced[OF old new fx])
      show "field_key (field_dict f) = i" using fi by simp
      show "field_key (field_dict (g x)) = field_key (field_dict x)" for x using gk[of x] by (simp add: fld_key_def)
      show "c x = field_dict x" if "x \<in> set ?xs" "x \<noteq> f" for x
        using key1[OF that(1)] that(2) by (auto simp: c_def updated_candidate_def)
    qed (use same in blast)
    then have t: "schema_ok parse (map (\<lambda>x. field_dict (g x)) (select t_fields (\<lambda>f. fld_table f = ?tbl) (work s)))"
      unfolding ordered_fields_def by (simp only: schema_ok_sorted)
    have tabs: "table_schema (work s') U = map (\<lambda>x. field_dict (g x)) (select t_fields (\<lambda>f. fld_table f = U) (work s))" for U
    proof -
      have "fld_table (g x) = fld_table x" for x using gk[of x] by (simp add: fld_key_def)
      then show ?thesis by (simp add: table_schema_def select_def F filter_map comp_def flip: g_def)
    qed
    show ?thesis
    proof (rule schemas_ok_tables[OF ok, of ?tbl])
      fix U assume U: "U \<noteq> ?tbl"
      have "map (\<lambda>x. field_dict (g x)) (select t_fields (\<lambda>f. fld_table f = U) (work s)) = table_schema (work s) U"
        unfolding table_schema_def using U fi(2) by (intro map_cong) (auto simp: g_def select_def fld_key_def)
      with ok show "schema_ok parse (table_schema (work s') U)" by (simp add: tabs schemas_ok_def)
    qed (use t tabs in simp)
  qed
qed

lemma dependents_none:
  "ensure_field_can_be_deleted flds i = Inr () \<Longrightarrow> f \<in> set flds \<Longrightarrow> is_formula_field f \<Longrightarrow> i \<notin> set (refs_of f)"
  by (auto simp: ensure_field_can_be_deleted_def formula_dependents_def refs_of_def fx_error_def filter_empty_conv Let_def split: if_splits)

lemma delete_field_checked_run:
  assumes run: "delete_field_checked T i s = (Inr out, s')" and k: "keys_ok (work s)" and ok: "schemas_ok parse (work s)"
  shows "schemas_ok parse (work s')"
proof -
  let ?tbl = "normalize_table_id T"
  from run have d: "ensure_field_can_be_deleted (db_fields (work s) T) i = Inr ()" and del: "delete_field T i s = (Inr out, s')"
    unfolding delete_field_checked_def by (auto simp: bind_op_Inr then_op_def basic_eval)
  from delete_field_run[OF del k]
  have "t_fields (work s') = t_fields (work s) \<or> t_fields (work s') = filter (\<lambda>f. fld_key f \<noteq> (i, ?tbl)) (t_fields (work s))" by auto
  then show ?thesis
  proof
    assume F: "t_fields (work s') = filter (\<lambda>f. fld_key f \<noteq> (i, ?tbl)) (t_fields (work s))"
    have tabs: "table_schema (work s') U = (if U = ?tbl then filter (\<lambda>d. field_key d \<noteq> i) (table_schema (work s) U) else table_schema (work s) U)" for U
      by (auto simp: table_schema_def select_def F filter_map comp_def fld_key_def intro!: filter_cong arg_cong[of _ _ "map field_dict"])
    show ?thesis
    proof (rule schemas_ok_tables[OF ok, of ?tbl])
      have "schema_ok parse (filter (\<lambda>d. field_key d \<noteq> i) (table_schema (work s) ?tbl))"
      proof (rule schema_ok_filter)
        fix f g assume f: "f \<in> set (table_schema (work s) ?tbl)" "is_formula_field f" "\<not> field_key g \<noteq> i"
        then have "f \<in> set (db_fields (work s) T)" by (auto simp: db_fields_def table_schema_def ordered_fields_def)
        with dependents_none[OF d _ f(2)] f(3) show "field_key g \<notin> set (refs_of f)" by simp
      qed (use ok in \<open>simp add: schemas_ok_def\<close>)
      then show "schema_ok parse (table_schema (work s') ?tbl)" by (simp add: tabs)
    qed (use ok in \<open>simp add: tabs schemas_ok_def\<close>)
  qed (use ok in \<open>simp add: schemas_ok_def table_schema_def select_def\<close>)
qed
lemma reorder_fields_run:
  assumes "reorder_fields T order s = (Inr b, s')" "schemas_ok parse (work s)"
  shows "schemas_ok parse (work s')"
proof -
  have loop: "schemas_ok parse (work s1)" if "map_op (place_field tbl) ps s = (Inr ys, s1)" "schemas_ok parse (work s)" for tbl ps ys s s1
    using that
  proof (induction ps arbitrary: s ys)
    case (Cons p ps)
    obtain n i where p: "p = (n, i)" by (cases p)
    define g :: "table_field \<Rightarrow> table_field" where "g = (\<lambda>x. if fld_id x = i \<and> fld_table x = tbl then x\<lparr>fld_order := int n\<rparr> else x)"
    from Cons.prems p obtain ys' where "map_op (place_field tbl) ps (s\<lparr>work := t_fields_update (map g) (work s)\<rparr>) = (Inr ys', s1)"
      by (auto simp: place_field_def bind_op_Inr update_rows_eval basic_eval g_def)
    moreover have "schemas_ok parse (t_fields_update (map g) (work s))"
      by (rule schemas_ok_map[OF Cons.prems(2), of _ g]) (auto simp: g_def fld_key_def)
    ultimately show ?case using Cons.IH by simp
  qed (simp add: basic_eval)
  from assms(1) obtain ys s1 where "map_op (place_field (normalize_table_id T)) (enumerate 0 order) s = (Inr ys, s1)" "work s' = work s1"
    unfolding reorder_fields_def by (auto simp: then_op_def bind_op_Inr basic_eval)
  with loop assms(2) show ?thesis by metis
qed

lemma hidden_same:
  assumes "py_dict (fld_property f) = Inr current"
  shows "same_formula (field_dict (f\<lparr>fld_property := PDict (dset ''hidden'' v current)\<rparr>)) (field_dict f)"
proof -
  let ?g = "f\<lparr>fld_property := PDict (dset ''hidden'' v current)\<rparr>"
  have d0: "dget [] k = PNone" for k by (simp add: dget_def)
  have e: "get_formula_expression (field_dict f) = (case dget current ''formula'' of PStr e \<Rightarrow> strip e | _ \<Rightarrow> [])"
  proof (cases "fld_property f")
    case (PDict d)
    with assms have "d = current" by (simp add: py_dict_def)
    with PDict show ?thesis by (simp add: get_formula_expression_def)
  qed (use assms d0 in \<open>simp_all add: get_formula_expression_def py_dict_def split: if_splits\<close>)
  have "get_formula_expression (field_dict ?g) = (case dget current ''formula'' of PStr e \<Rightarrow> strip e | _ \<Rightarrow> [])"
    by (simp add: get_formula_expression_def)
  with e show ?thesis by (simp add: same_formula_def is_formula_field_def)
qed

lemma hide_fields_run:
  assumes "map_op (hide_field hs) flds s = (Inr ys, s1)" "schemas_ok parse (work s)"
    and "distinct (map fld_key (t_fields (work s)))" "set flds \<subseteq> set (t_fields (work s))" "distinct (map fld_key flds)"
  shows "schemas_ok parse (work s1)"
  using assms
proof (induction flds arbitrary: s ys)
  case (Cons f flds)
  from Cons.prems(1) obtain current ys' where c: "py_dict (fld_property f) = Inr current"
    and r: "map_op (hide_field hs) flds (s\<lparr>work := t_fields_update (map (\<lambda>x. if fld_key x = fld_key f
        then x\<lparr>fld_property := PDict (dset ''hidden'' (PBool (fld_id f \<in> set hs)) current)\<rparr> else x)) (work s)\<rparr>) = (Inr ys', s1)"
    unfolding map_op.simps(2) hide_field_def by (auto simp: bind_op_Inr update_rows_eval basic_eval)
  define g :: "table_field \<Rightarrow> table_field" where "g = (\<lambda>x. if fld_key x = fld_key f then x\<lparr>fld_property := PDict (dset ''hidden'' (PBool (fld_id f \<in> set hs)) current)\<rparr> else x)"
  have gk: "fld_key (g x) = fld_key x" for x by (simp add: g_def fld_key_def)
  have fx: "x = f" if "x \<in> set (t_fields (work s))" "fld_key x = fld_key f" for x
    using that Cons.prems(3,4) inj_onD[of fld_key "set (t_fields (work s))" x f] by (simp add: distinct_map)
  have "schemas_ok parse (t_fields_update (map g) (work s))"
  proof (rule schemas_ok_map[OF Cons.prems(2), of _ g])
    fix x assume "x \<in> set (t_fields (work s))"
    note x = this
    have "same_formula (field_dict (g x)) (field_dict x)"
    proof (cases "fld_key x = fld_key f")
      case True
      with fx[OF x] have "x = f" by blast
      with hidden_same[OF c] show ?thesis by (simp add: g_def)
    qed (simp add: g_def)
    with gk[of x] show "fld_key (g x) = fld_key x \<and> same_formula (field_dict (g x)) (field_dict x)" by simp
  qed simp
  moreover have "distinct (map fld_key (map g xs)) = distinct (map fld_key xs)" for xs by (simp add: comp_def gk)
  moreover have "set flds \<subseteq> set (map g (t_fields (work s)))"
  proof
    fix x assume x: "x \<in> set flds"
    then have "fld_key x \<noteq> fld_key f" using imageI[OF x, of fld_key] Cons.prems(5) by (metis distinct.simps(2) list.simps(9) set_map)
    then have "x = g x" by (simp add: g_def)
    with x Cons.prems(4) show "x \<in> set (map g (t_fields (work s)))" by force
  qed
  ultimately show ?case using Cons.IH[OF r[folded g_def]] Cons.prems(3,5) by simp
qed (simp add: basic_eval)

lemma update_visibility_run:
  assumes "update_field_visibility T hs s = (Inr b, s')" "schemas_ok parse (work s)" "keys_ok (work s)"
  shows "schemas_ok parse (work s')"
proof -
  from assms(1) obtain ys s1 where r: "map_op (hide_field hs) (select t_fields (\<lambda>f. fld_table f = normalize_table_id T) (work s)) s = (Inr ys, s1)"
    and s': "work s' = work s1"
    unfolding update_field_visibility_def by (auto simp: Let_def then_op_def bind_op_Inr basic_eval)
  have d: "distinct (map fld_key (t_fields (work s)))" by (rule tf.keys_get[OF assms(3)])
  show ?thesis unfolding s'
    by (rule hide_fields_run[OF r assms(2) d]) (use d in \<open>auto simp: select_def distinct_map_filter\<close>)
qed

lemma allocate_schemas:
  assumes "allocate_fields (ordered_fields t T) n s = (Inr autos, s1)" "work s = t" "keys_ok t" "schemas_ok parse t" "t_fields t' = t_fields (work s1)"
  shows "schemas_ok parse t'"
proof (rule schemas_ok_all2[OF assms(4)])
  from allocate_fields_spec[OF assms(1) ordered_fields_keys(1)[OF assms(3)]]
  have "list_all2 (advanced (ordered_fields t T) n) (t_fields t) (t_fields (work s1))" by (simp add: assms(2))
  moreover have "fld_key y = fld_key x \<and> same_formula (field_dict y) (field_dict x)"
    if "advanced (ordered_fields t T) n x y" "x \<in> set (t_fields t)" for x y
  proof (cases "y = x")
    case False
    with that(1) obtain f where f: "f \<in> set (ordered_fields t T)" "is_auto f" "fld_key f = fld_key x"
      by (auto simp: advanced_def split: if_splits)
    have "f = x" using tf.unique[OF assms(3) _ that(2) f(3)] f(1) ordered_fields_keys(3)[OF assms(3), of T] by simp
    with f(2) have "fld_type x = ''autoNumber''" by simp
    then have "\<not> lower (fld_type x) = ''formula''" using formula_not_special by blast
    with that(1) show ?thesis by (auto simp: advanced_def intro!: same_formula_property)
  qed (use that in simp)
  ultimately show "list_all2 (\<lambda>x y. fld_key y = fld_key x \<and> same_formula (field_dict y) (field_dict x)) (t_fields t) (t_fields t')"
    unfolding assms(5) by (metis (mono_tags, lifting) list.rel_mono_strong)
qed
section \<open>The writes of the facade as one type\<close>

definition run_checked_record ::
  "parser \<Rightarrow> evaluator \<Rightarrow> string \<Rightarrow> string \<Rightarrow> string option \<Rightarrow> template \<Rightarrow> record_write \<Rightarrow> unit op" where
  "run_checked_record parse ev aty src tr blank w = (case w of
       CreateOne T u \<Rightarrow> ignore (create_record_checked parse ev T u aty src tr blank)
     | CreateMany T n u \<Rightarrow> ignore (create_records_checked parse ev T n u aty src tr blank)
     | CreateWith T rows u \<Rightarrow> ignore (create_records_with_data_checked parse ev T rows u aty src tr blank)
     | UpdateOne T i f v u \<Rightarrow> ignore (update_record_checked parse ev T i f v u aty src tr)
     | UpdateFields T i d u \<Rightarrow> ignore (update_record_fields_checked parse ev T i d u aty src tr)
     | Patch T ps u \<Rightarrow> ignore (apply_record_patches_checked T ps u aty src tr)
     | Delete T i u \<Rightarrow> ignore (delete_record_checked T i u aty src tr))"

definition run_checked_schema :: "parser \<Rightarrow> schema_write \<Rightarrow> unit op" where
  "run_checked_schema parse w = (case w of
       AddField T d i \<Rightarrow> ignore (add_field_checked parse T d i)
     | UpdateField T f d \<Rightarrow> ignore (update_field_checked parse T f d)
     | DeleteField T f \<Rightarrow> ignore (delete_field_checked T f)
     | _ \<Rightarrow> run_schema w)"

text \<open>The schema writes that touch fields; the dictionary of an update has each key once.\<close>

definition field_write :: "schema_write \<Rightarrow> bool" where
  "field_write w \<longleftrightarrow> (case w of AddField T d i \<Rightarrow> True | UpdateField T f d \<Rightarrow> wf_dict d | DeleteField T f \<Rightarrow> True
     | ReorderFields T fs \<Rightarrow> True | HideFields T fs \<Rightarrow> True | _ \<Rightarrow> False)"

lemma record_write_schemas:
  assumes run: "run_checked_record parse ev aty src tr blank w s = (Inr x, s')" and ready: "write_ready w s"
    and ok: "schemas_ok parse' (work s)"
  shows "schemas_ok parse' (work s')"
proof -
  have k: "keys_ok (work s)" and fresh: "fresh_ids s" using ready by (auto simp: write_ready_def)
  have eq: "schemas_ok parse' (work s')" if "t_fields (work s') = t_fields (work s)"
    using ok that by (simp add: schemas_ok_def table_schema_def select_def)
  show ?thesis
  proof (cases w)
    case (CreateOne T u)
    then have d: "table_has_data (work s) (normalize_table_id T)" using ready by (simp add: write_ready_def)
    from run CreateOne obtain out where "create_record T u aty src tr blank s = (Inr out, s')"
      by (auto simp: run_checked_record_def ignore_Inr create_record_checked_def bind_op_Inr basic_eval)
    from create_record_run[OF this fresh d] allocate_schemas[OF _ _ k ok] show ?thesis by metis
  next
    case (CreateMany T n u)
    then have d: "table_has_data (work s) (normalize_table_id T)" using ready by (simp add: write_ready_def)
    from run CreateMany obtain out where "create_records T n u aty src tr blank s = (Inr out, s')"
      by (auto simp: run_checked_record_def ignore_Inr create_records_checked_def bind_op_Inr basic_eval)
    from create_records_run[OF this fresh d] allocate_schemas[OF _ refl k ok] show ?thesis by metis
  next
    case (CreateWith T rows u)
    then have d: "table_has_data (work s) (normalize_table_id T)" using ready by (simp add: write_ready_def)
    from run CreateWith obtain rows' out where "create_records_with_data T rows' u aty src tr blank s = (Inr out, s')"
      by (auto simp: run_checked_record_def ignore_Inr create_records_with_data_checked_def bind_op_Inr basic_eval)
    from create_with_data_run[OF this fresh d] allocate_schemas[OF _ refl k ok] show ?thesis by metis
  next
    case (UpdateOne T i f v u)
    with run obtain v' y where "update_record T i f v' u aty src tr s = (Inr y, s')"
      by (auto simp: run_checked_record_def ignore_Inr update_record_checked_def bind_op_Inr then_op_def basic_eval)
    from update_record_run[OF this fresh] eq show ?thesis by (metis)
  next
    case (UpdateFields T i d u)
    with run obtain d' y where "update_record_fields T i d' u aty src tr s = (Inr y, s')"
      by (auto simp: run_checked_record_def ignore_Inr update_record_fields_checked_def bind_op_Inr then_op_def basic_eval)
    from update_fields_run[OF this fresh] eq show ?thesis by (metis (no_types, lifting))
  next
    case (Patch T ps u)
    have same: "s1 = s" if "map_op (normalized_patch flds u) qs s = (Inr ys, s1)" for flds qs ys s s1
      using that
    proof (induction qs arbitrary: ys)
      case (Cons q qs)
      then show ?case by (auto simp: bind_op_Inr basic_eval normalized_patch_def then_op_def split: pyval.splits)
    qed (simp add: basic_eval)
    from Patch run obtain ps' y where "apply_record_patches T ps' u aty src tr s = (Inr y, s')"
      by (auto simp: run_checked_record_def ignore_Inr apply_record_patches_checked_def bind_op_Inr basic_eval dest!: same)
    from apply_patches_run[OF this fresh] eq show ?thesis by metis
  next
    case (Delete T i u)
    with run obtain y where "delete_record (Some (normalize_table_id T)) i u aty src tr s = (Inr y, s')"
      by (auto simp: run_checked_record_def ignore_Inr delete_record_checked_def)
    from delete_record_run[OF this fresh k] eq ok show ?thesis by metis
  qed
qed

lemma schema_write_schemas:
  assumes "run_checked_schema parse w s = (Inr x, s')" "field_write w" "keys_ok (work s)" "schemas_ok parse (work s)"
  shows "schemas_ok parse (work s')"
proof (cases w)
  case (AddField T d i)
  with assms show ?thesis by (auto simp: run_checked_schema_def ignore_Inr intro: add_field_checked_run)
next
  case (UpdateField T f d)
  with assms show ?thesis by (auto simp: run_checked_schema_def ignore_Inr field_write_def intro: update_field_checked_run)
next
  case (DeleteField T f)
  with assms show ?thesis by (auto simp: run_checked_schema_def ignore_Inr intro: delete_field_checked_run)
next
  case (ReorderFields T fs)
  with assms show ?thesis by (auto simp: run_checked_schema_def ignore_Inr intro: reorder_fields_run)
next
  case (HideFields T fs)
  with assms show ?thesis by (auto simp: run_checked_schema_def ignore_Inr intro: update_visibility_run)
qed (use assms(2) in \<open>simp_all add: field_write_def\<close>)

section \<open>Derived values are never written by a client\<close>

definition readonly_field :: "tables \<Rightarrow> string \<Rightarrow> string \<Rightarrow> bool" where
  "readonly_field t T i \<longleftrightarrow> i \<noteq> [] \<and> (\<exists>f\<in>set (t_fields t). fld_key f = (i, T) \<and> (is_formula_field (field_dict f) \<or> is_auto f))"

lemma readonly_listed:
  assumes "keys_ok t" "readonly_field t (normalize_table_id T) i"
  shows "i \<in> set (readonly_ids (db_fields t T))"
proof -
  from assms(2) obtain f where f: "f \<in> set (t_fields t)" "fld_id f = i" "fld_table f = normalize_table_id T" "i \<noteq> []"
    "is_formula_field (field_dict f) \<or> is_auto f" by (auto simp: readonly_field_def fld_key_def)
  then have "field_dict f \<in> set (db_fields t T)" using ordered_fields_keys(3)[OF assms(1)] by (simp add: db_fields_def)
  moreover have "is_auto_number_field (field_dict f) \<longleftrightarrow> is_auto f" by (simp add: is_auto_number_field_def str_or_empty_def py_str_def)
  moreover have "py_str (dget (field_dict f) ''id'') = i" "py_truth (dget (field_dict f) ''id'')"
    using f(2,4) by (simp_all add: py_str_def)
  ultimately show ?thesis using f(5) unfolding readonly_ids_def formula_field_ids_def by force
qed

lemma readonly_not_clean:
  assumes "keys_ok t" "readonly_field t (normalize_table_id T) i"
  shows "\<not> dhas (clean_payload (db_fields t T) d) i"
  using readonly_listed[OF assms]
  by (auto simp: clean_payload_def normalize_text_payload_def strip_formula_values_def dhas_def dom_map_of_conv_image_fst)

lemma clean_wf: "wf_dict d \<Longrightarrow> wf_dict (clean_payload flds d)"
proof -
  assume "wf_dict d"
  then have "wf_dict (strip_formula_values d flds)" unfolding strip_formula_values_def by (rule distinct_map_filterI)
  then show ?thesis by (simp add: clean_payload_def normalize_text_payload_def comp_def split_beta)
qed

lemma readonly_not_writable:
  assumes "keys_ok t" "ensure_field_is_writable (db_fields t T) i = Inr ()"
  shows "\<not> readonly_field t (normalize_table_id T) i"
proof
  assume "readonly_field t (normalize_table_id T) i"
  then obtain f where f: "f \<in> set (t_fields t)" "fld_id f = i" "fld_table f = normalize_table_id T"
    "is_formula_field (field_dict f) \<or> is_auto f" by (auto simp: readonly_field_def fld_key_def)
  let ?xs = "ordered_fields t (normalize_table_id T)"
  have fx: "f \<in> set ?xs" using f ordered_fields_keys(3)[OF assms(1)] by simp
  have "find (\<lambda>d. dget d ''id'' = PStr i) (map field_dict ?xs) = Some (field_dict f)"
  proof -
    have "find (\<lambda>d. dget d ''id'' = PStr i) (map field_dict xs) = Some (field_dict f)"
      if "f \<in> set xs" "distinct (map fld_id xs)" for xs
      using that f(2) by (induction xs) (auto simp: rev_image_eqI)
    with fx ordered_fields_keys(2)[OF assms(1)] show ?thesis by blast
  qed
  moreover have "is_auto_number_field (field_dict f) \<longleftrightarrow> is_auto f" by (simp add: is_auto_number_field_def str_or_empty_def py_str_def)
  ultimately show False using assms(2) f(4)
    by (auto simp: ensure_field_is_writable_def db_fields_def fx_error_def an_error_def split: if_splits)
qed

lemma payloads_keys:
  assumes "normalize_member_values_in_payloads t T ps = Inr rows" "keys_ok t"
  shows "length rows = length ps \<and> (\<forall>n<length ps. \<forall>k. dhas (rows ! n) k = dhas (ps ! n) k)"
proof (cases "member_fields_in t T ps = []")
  case False
  with assms(1) obtain allowed where m: "map_res (normalize_member_payload (member_fields_in t T ps) allowed) ps = Inr rows"
    by (auto simp: normalize_member_values_in_payloads_def Let_def)
  have d: "distinct (map fld_id (member_fields_in t T ps))"
    using tf.keys_get[OF assms(2)]
    by (auto simp: member_fields_in_def Let_def select_def distinct_map inj_on_def fld_key_def)
  have "length ys = length xs \<and> (\<forall>n<length xs. \<forall>k. dhas (ys ! n) k = dhas (xs ! n) k)"
    if "map_res (normalize_member_payload (member_fields_in t T ps) allowed) xs = Inr ys" for xs ys
    using that
  proof (induction xs arbitrary: ys)
    case (Cons x xs)
    then obtain y ys' where y: "normalize_member_payload (member_fields_in t T ps) allowed x = Inr y" "ys = y # ys'"
      "map_res (normalize_member_payload (member_fields_in t T ps) allowed) xs = Inr ys'" by auto
    from Cons.IH[OF y(3)] normalize_member_payload_spec[OF y(1) d] y(2) show ?case
      by (auto simp: nth_Cons split: nat.splits)
  qed auto
  from this[OF m] show ?thesis .
qed (use assms(1) in \<open>auto simp: normalize_member_values_in_payloads_def\<close>)

lemma merge_given_other: "\<not> dhas new k \<Longrightarrow> dget (merge_given d new) k = dget d k"
proof (induction new arbitrary: d)
  case (Cons p new)
  obtain k' v where p: "p = (k', v)" by (cases p)
  with Cons.prems have "k \<noteq> k'" "\<not> dhas new k" by (auto simp: dhas_def)
  with Cons.IH p show ?case by (auto simp: merge_given_def)
qed (simp add: merge_given_def)

lemma link_rows_keys:
  assumes "normalize_link_rows flds rows g = Inr (out, g')" "\<forall>row\<in>set rows. wf_dict row"
  shows "length out = length rows \<and> (\<forall>n<length rows. \<forall>k. dhas (out ! n) k = dhas (rows ! n) k)"
  using assms
proof (induction rows arbitrary: g out)
  case (Cons row rows)
  from Cons.prems(1) obtain r g1 out1 where r: "normalize_links flds row (row, g) = Inr (r, g1)"
    "normalize_link_rows flds rows g1 = Inr (out1, g')" "out = r # out1"
    by (auto split: prod.splits)
  from normalize_links_spec[OF r(1)] Cons.prems(2) have "\<forall>k. dhas r k = dhas row k" by auto
  with Cons.IH[OF r(2)] Cons.prems(2) r(3) show ?case by (auto simp: nth_Cons split: nat.splits)
qed auto

lemma readonly_not_linked:
  assumes k: "keys_ok t" and i: "readonly_field t (rec_table x) i"
  shows "dget (rec_data (unlink t del x)) i = dget (rec_data x) i"
proof -
  let ?fl = "links_to t (fst del) (rec_table x)"
  from i obtain f where f: "f \<in> set (t_fields t)" "fld_key f = (i, rec_table x)" "is_formula_field (field_dict f) \<or> is_auto f"
    by (auto simp: readonly_field_def)
  have "i \<notin> {py_str (dget g ''id'') | g. g \<in> set ?fl}"
  proof
    assume "i \<in> {py_str (dget g ''id'') | g. g \<in> set ?fl}"
    then obtain g where g: "g \<in> set (targeting_fields t (fst del))" "fld_table g = rec_table x" "fld_id g = i"
      by (auto simp: links_to_def py_str_def)
    then have gf: "g \<in> set (t_fields t)" by (auto simp: targeting_fields_def select_def)
    have "g = f" by (rule tf.unique[OF k gf f(1)]) (use g f in \<open>simp add: fld_key_def\<close>)
    have "dget (field_to_dict g) ''type'' = PStr (fld_type f)" using \<open>g = f\<close> by (simp add: field_to_dict_def dget_def)
    with targeting_relation[OF g(1)] have "lower (fld_type f) = ''relation''"
      by (auto simp: is_relation_field_def str_or_empty_def py_str_def lower_def split: if_splits)
    moreover have "lower ''autoNumber'' \<noteq> ''relation''" by code_simp
    ultimately show False using f(3) is_formula_type[of "field_dict f" "fld_type f"] by auto
  qed
  then show ?thesis
    by (auto simp: unlink_def cleaned_def dest: remove_links_other split: sum.splits prod.splits)
qed
text \<open>What a client may send: dictionaries with each key once, field ids as strings.\<close>

definition payload_ok :: "record_write \<Rightarrow> bool" where
  "payload_ok w \<longleftrightarrow> (case w of CreateWith T rows u \<Rightarrow> \<forall>row\<in>set rows. wf_dict row | UpdateFields T i d u \<Rightarrow> wf_dict d
     | Patch T ps u \<Rightarrow> \<forall>p\<in>set ps. \<exists>f. dget p ''fieldId'' = PStr f | _ \<Rightarrow> True)"

lemma looked_updated:
  assumes "\<forall>k'. look R' k' = (if k' = k then Some r1 else look R k')" "look R k = Some r0" "dget (rec_data r1) i = dget (rec_data r0) i"
    and "look R key = Some r" "look R' key = Some r'"
  shows "dget (rec_data r') i = dget (rec_data r) i"
  using assms by (cases "key = k") auto

lemma normalized_patches:
  assumes "map_op (normalized_patch flds u) ps s = (Inr qs, s1)" "\<forall>p\<in>set ps. \<exists>f. dget p ''fieldId'' = PStr f"
  shows "s1 = s \<and> (\<forall>q\<in>set qs. \<exists>f. dget q ''fieldId'' = PStr f \<and> ensure_field_is_writable flds f = Inr ())"
  using assms
proof (induction ps arbitrary: qs)
  case (Cons p ps)
  then obtain f where f: "dget p ''fieldId'' = PStr f" by auto
  with Cons.prems(1) obtain w qs' where "ensure_field_is_writable flds f = Inr ()" "qs = dset ''value'' w p # qs'"
    "map_op (normalized_patch flds u) ps s = (Inr qs', s1)"
    unfolding map_op.simps(2) normalized_patch_def[of flds u p] by (auto simp: bind_op_Inr basic_eval then_op_def)
  with Cons f show ?case by auto
qed (simp add: basic_eval)

lemma patch_field_ids:
  assumes "patch_triples t T qs = Inr ps" "(rid, f, v) \<in> set ps"
  shows "\<exists>q\<in>set qs. py_str (dget q ''fieldId'') = f"
proof -
  from assms(1) obtain payloads normalized ids where
    p: "map_res (\<lambda>p. bind_res (patch_item ''fieldId'' p) (\<lambda>f. Inr [(f, dget p ''value'')])) qs = Inr payloads"
    and ps: "ps = zip ids (map2 (\<lambda>payload row. (fst (hd payload), dget row (fst (hd payload)))) payloads normalized)"
    by (auto simp: patch_triples_def)
  have "(f, v) \<in> set (map2 (\<lambda>payload row. (fst (hd payload), dget row (fst (hd payload)))) payloads normalized)"
    using assms(2) unfolding ps by (rule set_zip_rightD)
  then obtain payload where m: "payload \<in> set payloads" "f = fst (hd payload)"
    by (auto dest: set_zip_leftD)
  have "\<exists>q\<in>set qs. py_str (dget q ''fieldId'') = fst (hd payload)"
    if "map_res (\<lambda>p. bind_res (patch_item ''fieldId'' p) (\<lambda>f. Inr [(f, dget p ''value'')])) qs = Inr payloads" "payload \<in> set payloads" for qs payloads
    using that
  proof (induction qs arbitrary: payloads)
    case (Cons q qs)
    then show ?case by (auto simp: patch_item_def dget_def split: option.splits)
  qed simp
  from this[OF p m(1)] m(2) show ?thesis by simp
qed

lemma dupdate_other: "k \<notin> fst ` set new \<Longrightarrow> dget (dupdate d new) k = dget d k"
proof (induction new arbitrary: d)
  case (Cons p new)
  then show ?case by (cases p) (auto simp: dupdate_def)
qed (simp add: dupdate_def)

lemma patched_other: "\<forall>p\<in>set ps. fst (snd p) \<noteq> i \<Longrightarrow> dget (rec_data (patched ps r)) i = dget (rec_data r) i"
  using dupdate_other[of i "patches_for (rec_id r) ps" "rec_data r"]
  by (auto simp: patched_def Let_def patches_for_def)

lemma old_rows_kept: "rows_added R rs \<Longrightarrow> look R key = Some r \<Longrightarrow> look (R @ rs) key = Some r"
  using look_added(2)[of R rs] look_added(3)[of R rs key]
  by (metis imageE option.distinct(1))

lemma update_readonly:
  assumes run: "run_checked_record parse ev aty src tr blank w s = (Inr x, s')" and ready: "write_ready w s" and pay: "payload_ok w"
    and i: "readonly_field (work s) T i"
    and r: "look (t_records (work s)) (T, k) = Some r" and r': "look (t_records (work s')) (T, k) = Some r'"
  shows "dget (rec_data r') i = dget (rec_data r) i"
proof -
  have keys: "keys_ok (work s)" and fresh: "fresh_ids s" using ready by (auto simp: write_ready_def)
  have same: "s' = s \<Longrightarrow> ?thesis" using r r' by simp
  have added: ?thesis if "rows_added (t_records (work s)) rs" "t_records (work s') = t_records (work s) @ rs" for rs
    using old_rows_kept[OF that(1) r] r' that(2) by simp
  show ?thesis
  proof (cases w)
    case (CreateOne U u)
    then have d: "table_has_data (work s) (normalize_table_id U)" using ready by (simp add: write_ready_def)
    from run CreateOne obtain out where "create_record U u aty src tr blank s = (Inr out, s')"
      by (auto simp: run_checked_record_def ignore_Inr create_record_checked_def bind_op_Inr basic_eval)
    from create_record_run[OF this fresh d] added show ?thesis by metis
  next
    case (CreateMany U n u)
    then have d: "table_has_data (work s) (normalize_table_id U)" using ready by (simp add: write_ready_def)
    from run CreateMany obtain out where "create_records U n u aty src tr blank s = (Inr out, s')"
      by (auto simp: run_checked_record_def ignore_Inr create_records_checked_def bind_op_Inr basic_eval)
    from create_records_run[OF this fresh d] added show ?thesis by metis
  next
    case (CreateWith U rows u)
    then have d: "table_has_data (work s) (normalize_table_id U)" using ready by (simp add: write_ready_def)
    from run CreateWith obtain rows' out where "create_records_with_data U rows' u aty src tr blank s = (Inr out, s')"
      by (auto simp: run_checked_record_def ignore_Inr create_records_with_data_checked_def bind_op_Inr basic_eval)
    from create_with_data_run[OF this fresh d] added show ?thesis by metis
  next
    case (UpdateOne U j f v u)
    with run obtain v' y where w: "ensure_field_is_writable (db_fields (work s) U) f = Inr ()"
      and up: "update_record U j f v' u aty src tr s = (Inr y, s')"
      by (auto simp: run_checked_record_def ignore_Inr update_record_checked_def bind_op_Inr then_op_def basic_eval)
    have nf: "T = normalize_table_id U \<Longrightarrow> f \<noteq> i" using readonly_not_writable[OF keys w] i by blast
    from update_record_run[OF up fresh] consider "s' = s"
      | r0 w' where "look (t_records (work s)) (normalize_table_id U, j) = Some r0"
        "\<forall>k'. look (t_records (work s')) k' = (if k' = (normalize_table_id U, j)
            then Some (with_data r0 (dset f w' (rec_data r0))) else look (t_records (work s)) k')" by metis
    then show ?thesis
    proof cases
      case 2
      show ?thesis
      proof (cases "(T, k) = (normalize_table_id U, j)")
        case True
        with 2 r r' nf show ?thesis by auto
      next
        case False
        with 2(2) have "look (t_records (work s')) (T, k) = look (t_records (work s)) (T, k)" by metis
        with r r' show ?thesis by simp
      qed
    qed (rule same)
  next
    case (UpdateFields U j d u)
    with run obtain d' y where n: "normalize_relation_payload_db (work s) (db_fields (work s) U) (clean_payload (db_fields (work s) U) d) u = Inr d'"
      and up: "update_record_fields U j d' u aty src tr s = (Inr y, s')"
      by (auto simp: run_checked_record_def ignore_Inr update_record_fields_checked_def bind_op_Inr then_op_def basic_eval)
    have nd: "\<not> dhas d' i" if "T = normalize_table_id U"
    proof -
      have "wf_dict (clean_payload (db_fields (work s) U) d)" using pay UpdateFields by (simp add: payload_ok_def clean_wf)
      with n readonly_not_clean[OF keys, of U i d] i that normalize_links_spec show ?thesis
        by (fastforce simp: normalize_relation_payload_db_def)
    qed
    from update_fields_run[OF up fresh] consider "s' = s"
      | r0 rows where "look (t_records (work s)) (normalize_table_id U, j) = Some r0"
        "normalize_member_values_in_payloads (work s) (normalize_table_id U) [d'] = Inr rows"
        "\<forall>k'. look (t_records (work s')) k' = (if k' = (normalize_table_id U, j)
            then Some (with_data r0 (merge_given (rec_data r0) (hd rows))) else look (t_records (work s)) k')"
      by (metis (no_types, lifting))
    then show ?thesis
    proof cases
      case 2
      show ?thesis
      proof (cases "(T, k) = (normalize_table_id U, j)")
        case True
        from payloads_keys[OF 2(2) keys] have "length rows = 1" "\<forall>k. dhas (rows ! 0) k = dhas d' k" by auto
        then have "\<not> dhas (hd rows) i" using nd True by (cases rows) auto
        with merge_given_other 2 r r' True show ?thesis by auto
      next
        case False
        with 2(3) have "look (t_records (work s')) (T, k) = look (t_records (work s)) (T, k)" by metis
        with r r' show ?thesis by simp
      qed
    qed (rule same)
  next
    case (Patch U qs u)
    from run Patch obtain ys s1 n where m: "map_op (normalized_patch (db_fields (work s) U) u) qs s = (Inr ys, s1)"
      and ap: "apply_record_patches U ys u aty src tr s1 = (Inr n, s')"
      by (auto simp: run_checked_record_def ignore_Inr apply_record_patches_checked_def bind_op_Inr basic_eval)
    from normalized_patches[OF m] pay Patch have s1: "s1 = s"
      and ys: "\<forall>q\<in>set ys. \<exists>f. dget q ''fieldId'' = PStr f \<and> ensure_field_is_writable (db_fields (work s) U) f = Inr ()"
      by (auto simp: payload_ok_def)
    from apply_patches_run[OF ap[unfolded s1] fresh] obtain ps where ps: "patch_triples (work s) (normalize_table_id U) ys = Inr ps"
      and l: "\<forall>k. look (t_records (work s')) k = (if fst k = normalize_table_id U \<and> snd k \<in> set (map fst ps)
        then map_option (patched ps) (look (t_records (work s)) k) else look (t_records (work s)) k)" by metis
    show ?thesis
    proof (cases "T = normalize_table_id U")
      case True
      have "\<forall>p\<in>set ps. fst (snd p) \<noteq> i"
      proof
        fix p assume p: "p \<in> set ps"
        obtain rid f v where q: "p = (rid, f, v)" by (cases p)
        with patch_field_ids[OF ps] p ys obtain f' where "py_str (PStr f') = f" "ensure_field_is_writable (db_fields (work s) U) f' = Inr ()" by metis
        with readonly_not_writable[OF keys] i True q show "fst (snd p) \<noteq> i" by (auto simp: py_str_def)
      qed
      with patched_other l r r' show ?thesis by (auto split: if_splits)
    qed (use l r r' in simp)
  next
    case (Delete U j u)
    with run obtain y where "delete_record (Some (normalize_table_id U)) j u aty src tr s = (Inr y, s')"
      by (auto simp: run_checked_record_def ignore_Inr delete_record_checked_def)
    from delete_record_run[OF this fresh keys] consider "s' = s"
      | r0 del where "t_records (work s') = filter (\<lambda>x. \<not> rec_key x = rec_key r0) (map (unlink (work s) del) (t_records (work s)))" by metis
    then show ?thesis
    proof cases
      case 2
      let ?R = "map (unlink (work s) del) (t_records (work s))"
      have d: "distinct (map rec_key ?R)" using tr.keys_get[OF keys] by (simp add: comp_def)
      have "r' \<in> set ?R" "tkey r' = (T, k)" using look_Some[OF r'] 2 by simp_all
      moreover from this(1) obtain x where x: "x \<in> set (t_records (work s))" "r' = unlink (work s) del x" by auto
      moreover from calculation have kx: "tkey x = (T, k)" using unlink_key(1)[of "work s" del x] by simp
      moreover have "r \<in> set (t_records (work s))" "tkey r = (T, k)" using look_Some[OF r] by simp_all
      ultimately have "x = r" using tr.unique[OF keys, of x r] by (simp add: rec_key_def tkey_def)
      with x kx readonly_not_linked[OF keys, of r i del] i show ?thesis by (simp add: tkey_def)
    qed (rule same)
  qed
qed
lemma created_formula:
  assumes run: "run_checked_record parse ev aty src tr blank w s = (Inr x, s')" and ready: "write_ready w s" and pay: "payload_ok w"
    and f: "f \<in> set (t_fields (work s))" "fld_table f = T" "fld_id f \<noteq> []" "is_formula_field (field_dict f)"
    and r: "look (t_records (work s)) (T, k) = None" and r': "look (t_records (work s')) (T, k) = Some r'"
  shows "dget (rec_data r') (fld_id f) = PNone"
proof -
  have keys: "keys_ok (work s)" and fresh: "fresh_ids s" using ready by (auto simp: write_ready_def)
  have created: "dget (rec_data r') (fld_id f) = PNone"
    if al: "allocate_fields (ordered_fields (work s) U) m s0 = (Inr autos, s1)" and R: "t_records (work s') = t_records (work s) @ rs"
      and new: "\<And>n. n < length rs \<Longrightarrow> new_row U creator mx (ordered_fields (work s) U) autos n (rows n) (rs ! n)"
      and rows: "\<And>n. n < length rs \<Longrightarrow> T = U \<Longrightarrow> dget (rows n) (fld_id f) = PNone"
    for U m s0 autos s1 rs creator mx rows
  proof -
    from r r' R have "look rs (T, k) = Some r'" by (auto simp: look_def find_append split: option.splits)
    then have "r' \<in> set rs" "tkey r' = (T, k)" using look_Some by blast+
    then obtain n where n: "n < length rs" "r' = rs ! n" by (auto simp: in_set_conv_nth)
    from new[OF n(1)] n(2) \<open>tkey r' = (T, k)\<close> have U: "T = U"
      and d: "rec_data r' = row_data (ordered_fields (work s) U) autos n (rows n)" by (auto simp: new_row_def tkey_def)
    note o = ordered_fields_keys[OF keys, of U]
    have fo: "f \<in> set (ordered_fields (work s) U)" using f U o(3) by simp
    have "lower (fld_type f) = ''formula''" using f(4) is_formula_type[of "field_dict f"] by simp
    then have na: "\<not> is_auto f" using formula_not_special by auto
    have "fld_id f \<notin> fst ` set autos"
    proof
      assume "fld_id f \<in> fst ` set autos"
      moreover have "map fst autos = map fld_id (filter is_auto (ordered_fields (work s) U))" using allocate_fields_spec[OF al o(1)] by simp
      ultimately have "fld_id f \<in> fld_id ` set (filter is_auto (ordered_fields (work s) U))" by (metis set_map)
      then obtain g where g: "g \<in> set (ordered_fields (work s) U)" "is_auto g" "fld_id g = fld_id f" by auto
      with fo o(2) have "g = f" by (auto simp: distinct_map inj_on_def)
      with na g(2) show False by simp
    qed
    then have "map_of autos (fld_id f) = None" by (simp add: map_of_eq_None_iff)
    with row_data_get(2)[OF o(2) fo] rows[OF n(1) U] d show ?thesis by simp
  qed
  have e: "dget [] i = PNone" for i by (simp add: dget_def)
  show ?thesis
  proof (cases w)
    case (CreateOne U u)
    then have d: "table_has_data (work s) (normalize_table_id U)" using ready by (simp add: write_ready_def)
    from run CreateOne obtain out where "create_record U u aty src tr blank s = (Inr out, s')"
      by (auto simp: run_checked_record_def ignore_Inr create_record_checked_def bind_op_Inr basic_eval)
    from create_record_run[OF this fresh d] obtain autos q s0 s1 where
      "allocate_fields (ordered_fields (work s) (normalize_table_id U)) 1 s0 = (Inr autos, s1)" "t_records (work s') = t_records (work s) @ [q]"
      "new_row (normalize_table_id U) u (max_order (work s) (normalize_table_id U)) (ordered_fields (work s) (normalize_table_id U)) autos 0 [] q" by metis
    from created[OF this(1,2), of u "max_order (work s) (normalize_table_id U)" "\<lambda>_. []"] this(3) e show ?thesis by simp
  next
    case (CreateMany U n u)
    then have d: "table_has_data (work s) (normalize_table_id U)" using ready by (simp add: write_ready_def)
    from run CreateMany obtain out where "create_records U n u aty src tr blank s = (Inr out, s')"
      by (auto simp: run_checked_record_def ignore_Inr create_records_checked_def bind_op_Inr basic_eval)
    from create_records_run[OF this fresh d] obtain autos rs s0 where
      "allocate_fields (ordered_fields (work s) (normalize_table_id U)) (max 1 (min 999 n)) s = (Inr autos, s0)" "t_records (work s') = t_records (work s) @ rs"
      "\<forall>i<length rs. new_row (normalize_table_id U) u (max_order (work s) (normalize_table_id U)) (ordered_fields (work s) (normalize_table_id U)) autos i [] (rs ! i)"
      by metis
    from created[OF this(1,2), of u "max_order (work s) (normalize_table_id U)" "\<lambda>_. []"] this(3) e show ?thesis by simp
  next
    case (CreateWith U rows u)
    then have d: "table_has_data (work s) (normalize_table_id U)" using ready by (simp add: write_ready_def)
    let ?flds = "db_fields (work s) U"
    from run CreateWith obtain sent out where n: "normalize_relation_rows_db (work s) ?flds (map (clean_payload ?flds) rows) u = Inr sent"
      and c: "create_records_with_data U sent u aty src tr blank s = (Inr out, s')"
      by (auto simp: run_checked_record_def ignore_Inr create_records_with_data_checked_def bind_op_Inr basic_eval)
    from n obtain g' where lr: "normalize_link_rows ?flds (map (clean_payload ?flds) rows) [] = Inr (sent, g')"
      by (auto simp: normalize_relation_rows_db_def)
    have "\<forall>row\<in>set (map (clean_payload ?flds) rows). wf_dict row" using pay CreateWith clean_wf by (auto simp: payload_ok_def)
    note ks = link_rows_keys[OF lr this]
    from create_with_data_run[OF c fresh d] obtain autos rows' rs s0 where
      m: "normalize_member_values_in_payloads (work s) (normalize_table_id U) sent = Inr rows'"
      and al: "allocate_fields (ordered_fields (work s) (normalize_table_id U)) (int (length sent)) s = (Inr autos, s0)"
      and R: "t_records (work s') = t_records (work s) @ rs" and len: "length rs = length rows'"
      and new: "\<forall>i<length rs. new_row (normalize_table_id U) u (max_order (work s) (normalize_table_id U))
          (ordered_fields (work s) (normalize_table_id U)) autos i (rows' ! i) (rs ! i)" by metis
    note km = payloads_keys[OF m keys]
    show ?thesis
    proof (rule created[OF al R, of _ _ "\<lambda>i. rows' ! i"])
      fix j assume j: "j < length rs" and T: "T = normalize_table_id U"
      have "readonly_field (work s) (normalize_table_id U) (fld_id f)"
        using f T by (auto simp: readonly_field_def fld_key_def)
      from readonly_not_clean[OF keys this, of "rows ! j"]
      have "\<not> dhas (rows' ! j) (fld_id f)" using ks km j len by simp
      then show "dget (rows' ! j) (fld_id f) = PNone" by (simp add: dhas_def dget_def flip: map_of_eq_None_iff split: option.splits)
    qed (use new in blast)
  next
    case (UpdateOne U j g v u)
    with run obtain v' y where up: "update_record U j g v' u aty src tr s = (Inr y, s')"
      by (auto simp: run_checked_record_def ignore_Inr update_record_checked_def bind_op_Inr then_op_def basic_eval)
    from update_record_run[OF up fresh] r r' show ?thesis by (metis option.distinct(1))
  next
    case (UpdateFields U j d u)
    with run obtain d' y where up: "update_record_fields U j d' u aty src tr s = (Inr y, s')"
      by (auto simp: run_checked_record_def ignore_Inr update_record_fields_checked_def bind_op_Inr then_op_def basic_eval)
    from update_fields_run[OF up fresh] r r' show ?thesis by (metis (no_types, lifting) option.distinct(1))
  next
    case (Patch U qs u)
    from run Patch obtain ys s1 n where m: "map_op (normalized_patch (db_fields (work s) U) u) qs s = (Inr ys, s1)"
      and ap: "apply_record_patches U ys u aty src tr s1 = (Inr n, s')"
      by (auto simp: run_checked_record_def ignore_Inr apply_record_patches_checked_def bind_op_Inr basic_eval)
    from normalized_patches[OF m] pay Patch have "s1 = s" by (auto simp: payload_ok_def)
    from apply_patches_run[OF ap[unfolded this] fresh] obtain ps where
      "\<forall>k. look (t_records (work s')) k = (if fst k = normalize_table_id U \<and> snd k \<in> set (map fst ps)
        then map_option (patched ps) (look (t_records (work s)) k) else look (t_records (work s)) k)" by metis
    from this[rule_format, of "(T, k)"] r r' show ?thesis by (simp split: if_splits)
  next
    case (Delete U j u)
    with run obtain y where "delete_record (Some (normalize_table_id U)) j u aty src tr s = (Inr y, s')"
      by (auto simp: run_checked_record_def ignore_Inr delete_record_checked_def)
    from delete_record_run[OF this fresh keys] consider "s' = s"
      | r0 del where "t_records (work s') = filter (\<lambda>x. \<not> rec_key x = rec_key r0) (map (unlink (work s) del) (t_records (work s)))" by metis
    then show ?thesis
    proof cases
      case 2
      have m: "look (map (unlink (work s) del) (t_records (work s))) (T, k) = None"
        using look_map[of "unlink (work s) del"] unlink_key(1) r by simp
      from r' 2 have "r' \<in> set (map (unlink (work s) del) (t_records (work s)))" "tkey r' = (T, k)"
        using look_Some[OF r'] by simp_all
      with m show ?thesis unfolding look_None by blast
    qed (use r r' in simp)
  qed
qed
section \<open>Properties\<close>

text \<open>Sequences of writes that go through. Records and fields only change through these.\<close>

inductive facade_reach :: "parser \<Rightarrow> evaluator \<Rightarrow> session \<Rightarrow> session \<Rightarrow> bool" for parse ev s0 where
  start: "facade_reach parse ev s0 s0"
| record_step: "facade_reach parse ev s0 s \<Longrightarrow> run_checked_record parse ev aty src tr blank w s = (Inr (), s') \<Longrightarrow> write_ready w s \<Longrightarrow>
    facade_reach parse ev s0 s'"
| schema_step: "facade_reach parse ev s0 s \<Longrightarrow> run_checked_schema parse w s = (Inr (), s') \<Longrightarrow> field_write w \<Longrightarrow> keys_ok (work s) \<Longrightarrow>
    facade_reach parse ev s0 s'"

lemma reach_schemas: "facade_reach parse ev s0 s \<Longrightarrow> schemas_ok parse (work s0) \<Longrightarrow> schemas_ok parse (work s)"
  by (induction rule: facade_reach.induct) (auto intro: record_write_schemas schema_write_schemas)

lemma full_store_values:
  assumes "schemas_ok parse t" "n < length (so_records (get_full_store t T))" "i \<in> formula_ids (so_fields (get_full_store t T))"
  shows "value_of parse ev (keyed (so_fields (get_full_store t T))) (so_records (get_full_store t T) ! n) i
    (dget (so_records (get_full_store_checked parse ev t T) ! n) i)"
proof -
  have "so_fields (get_full_store t T) = db_fields t T" by (simp add: get_full_store_def Let_def db_fields_def)
  moreover have "schema_ok parse (db_fields t T)" using assms(1) by (simp add: db_fields_ok schemas_ok_def)
  ultimately have "stable_ids (so_fields (get_full_store t T))" "acyclic (formula_deps (so_fields (get_full_store t T)))"
    by (simp_all add: schema_ok_def)
  from materialize_spec[OF this assms(2), where i = i and parse = parse and ev = ev] assms(3)
  show ?thesis by (simp add: get_full_store_checked_def materialize_store_def)
qed

text \<open>C9: However records and fields of the tables are changed through the facade, the formula fields of every table stay valid: their ids are unique, every formula compiles, refers to existing fields and depends on no cycle. So in every reachable state the value a reader sees in a formula field is the one its expression defines.\<close>

theorem formulas_stay_valid:
  assumes "facade_reach parse ev s0 s" "schemas_ok parse (work s0)"
  shows "schemas_ok parse (work s)
    \<and> (\<forall>T n i. n < length (so_records (get_full_store (work s) T)) \<longrightarrow> i \<in> formula_ids (so_fields (get_full_store (work s) T)) \<longrightarrow>
        value_of parse ev (keyed (so_fields (get_full_store (work s) T))) (so_records (get_full_store (work s) T) ! n) i
          (dget (so_records (get_full_store_checked parse ev (work s) T) ! n) i))"
  using reach_schemas[OF assms] full_store_values by blast

definition example_formula :: dict where
  "example_formula = [(''id'', PStr ''c''), (''name'', PStr ''C''), (''type'', PStr ''formula''), (''property'', PDict [(''formula'', PStr ''{{f}}'')])]"

lemma example_schemas: "schemas_ok name_parser example_world"
  unfolding schemas_ok_def
proof
  fix T
  consider "T = ''t''" | "T = ''u''" | "T \<noteq> ''t''" "T \<noteq> ''u''" by blast
  then show "schema_ok name_parser (table_schema example_world T)"
  proof cases
    case 1
    have "validate_formula_schema name_parser (table_schema example_world ''t'') = Inr ()" by code_simp
    with 1 show ?thesis by (simp add: validate_schema_ok)
  next
    case 2
    have "validate_formula_schema name_parser (table_schema example_world ''u'') = Inr ()" by code_simp
    with 2 show ?thesis by (simp add: validate_schema_ok)
  next
    case 3
    then have "table_schema example_world T = []" by (simp add: table_schema_def select_def example_world_def)
    moreover have "validate_formula_schema name_parser [] = Inr ()" by code_simp
    ultimately show ?thesis by (simp add: validate_schema_ok)
  qed
qed

theorem formulas_stay_valid_witness:
  "\<exists>s'. run_checked_schema name_parser (AddField (Some ''t'') example_formula None) example_session = (Inr (), s')
     \<and> schemas_ok name_parser (work s')
     \<and> fst (run_checked_schema name_parser (UpdateField (Some ''t'') ''c'' [(''property'', PDict [(''formula'', PStr ''{{c}}'')])]) s') = Inl (cycle_message [''c'', ''c''])"
proof -
  let ?m = "run_checked_schema name_parser (AddField (Some ''t'') example_formula None)"
  let ?u = "run_checked_schema name_parser (UpdateField (Some ''t'') ''c'' [(''property'', PDict [(''formula'', PStr ''{{c}}'')])])"
  obtain r s' where r: "?m example_session = (r, s')" by fastforce
  have "fst (?m example_session) = Inr ()" by code_simp
  with r have ok: "?m example_session = (Inr (), s')" by simp
  have "facade_reach name_parser name_eval example_session s'"
    by (rule schema_step[OF start ok]) (simp_all add: field_write_def example_keys)
  from formulas_stay_valid[OF this] example_schemas have v: "schemas_ok name_parser (work s')" by simp
  have "fst (?u (snd (?m example_session))) = Inl (cycle_message [''c'', ''c''])" by code_simp
  with ok v show ?thesis by simp
qed

text \<open>C10: No write of a client reaches a derived value: a record keeps the values of its formula and auto-number fields under every record write of the facade, whatever the payload says, and a record that is created has no stored value in its formula fields.\<close>

theorem readonly_values_kept:
  assumes "run_checked_record parse ev aty src tr blank w s = (Inr x, s')" "write_ready w s" "payload_ok w"
  shows "(\<forall>T k i r r'. readonly_field (work s) T i \<longrightarrow> look (t_records (work s)) (T, k) = Some r \<longrightarrow>
       look (t_records (work s')) (T, k) = Some r' \<longrightarrow> dget (rec_data r') i = dget (rec_data r) i)
    \<and> (\<forall>f k r'. f \<in> set (t_fields (work s)) \<longrightarrow> fld_id f \<noteq> [] \<longrightarrow> is_formula_field (field_dict f) \<longrightarrow>
       look (t_records (work s)) (fld_table f, k) = None \<longrightarrow> look (t_records (work s')) (fld_table f, k) = Some r' \<longrightarrow>
       dget (rec_data r') (fld_id f) = PNone)"
  using update_readonly[OF assms] created_formula[OF assms] by blast

theorem readonly_values_kept_witness:
  "\<exists>s'. run_checked_record name_parser name_eval ''user'' ''api'' None example_template
       (UpdateFields (Some ''t'') ''ra'' [(''f'', PStr '' z ''), (''n'', PInt 99)] None) example_session = (Inr (), s')
     \<and> map_option (\<lambda>r. (dget (rec_data r) ''f'', dget (rec_data r) ''n'')) (look (t_records (work s')) (''t'', ''ra'')) = Some (PStr ''z'', PInt 5)"
proof -
  let ?w = "UpdateFields (Some ''t'') ''ra'' [(''f'', PStr '' z ''), (''n'', PInt 99)] None"
  let ?m = "run_checked_record name_parser name_eval ''user'' ''api'' None example_template ?w"
  obtain r s' where r: "?m example_session = (r, s')" by fastforce
  have "fst (?m example_session) = Inr ()" by code_simp
  with r have ok: "?m example_session = (Inr (), s')" by simp
  have "map_option (\<lambda>r. dget (rec_data r) ''f'') (look (t_records (work (snd (?m example_session)))) (''t'', ''ra'')) = Some (PStr ''z'')" by code_simp
  with r obtain r' where r': "look (t_records (work s')) (''t'', ''ra'') = Some r'" "dget (rec_data r') ''f'' = PStr ''z''" by auto
  have "map_option (\<lambda>r. dget (rec_data r) ''n'') (look (t_records example_world) (''t'', ''ra'')) = Some (PInt 5)" by code_simp
  then obtain r0 where r0: "look (t_records (work example_session)) (''t'', ''ra'') = Some r0" "dget (rec_data r0) ''n'' = PInt 5" by auto
  have "readonly_field (work example_session) ''t'' ''n''"
    by (simp add: readonly_field_def example_world_def fld_key_def)
  moreover have "write_ready ?w example_session" "payload_ok ?w"
    using example_fresh example_keys by (simp_all add: write_ready_def payload_ok_def)
  ultimately have "dget (rec_data r') ''n'' = dget (rec_data r0) ''n''"
    using readonly_values_kept[OF ok] r0(1) r'(1) by blast
  with ok r' r0 show ?thesis by simp
qed

end
