(* ===== verification/AutoEvents.thy ===== *)
theory AutoEvents
  imports AutoValidate StoreFacade WorkspaceTree
begin

text \<open>
  The durable queue of automation events (\<open>automation/events.py\<close>), the scheduler that fills it
  from the clock (\<open>automation/scheduler.py\<close>) and the rules themselves
  (\<open>automation/repository.py\<close>). What is outside the code is one record: Python's readers of
  numbers, times and zones, \<open>isoformat\<close>, SHA-256, the formula parser and evaluator, the
  blank table template.
\<close>

declare split_paired_All [simp del] split_paired_Ex [simp del]

record env =
  en_float :: float_reader
  en_time :: time_reader
  en_zones :: zone_reader
  en_local :: "string \<Rightarrow> int \<Rightarrow> int option"
  en_iso :: "int \<Rightarrow> string"
  en_sha :: "string \<Rightarrow> string"
  en_parse :: parser
  en_eval :: evaluator
  en_blank :: template

section \<open>Events\<close>

definition record_event_types :: "string list" where
  "record_event_types = [''record.created'', ''record.updated'']"

definition max_automation_depth :: int where "max_automation_depth = 8"

definition new_event_id :: "string op" where
  "new_event_id = new_id ''evt''"

definition table_workspace :: "tables \<Rightarrow> string \<Rightarrow> string option" where
  "table_workspace t table_id = map_option itm_ws (select_first t_items (\<lambda>i. itm_id i = table_id) t)"

text \<open>
  A \<open>flush\<close> inside \<open>begin_nested\<close>: a row that clashes with a stored one (primary key or a
  \<open>UniqueConstraint\<close>) undoes the savepoint only.
\<close>

definition insert_nested ::
  "(tables \<Rightarrow> 'r list) \<Rightarrow> (('r list \<Rightarrow> 'r list) \<Rightarrow> tables \<Rightarrow> tables) \<Rightarrow> ('r \<Rightarrow> 'r \<Rightarrow> bool) \<Rightarrow> 'r \<Rightarrow> unit op" where
  "insert_nested get upd clash r = (\<lambda>s.
     if list_ex (clash r) (get (work s)) then (Inl (Exn IntegrityError ''UNIQUE constraint failed''), s)
     else (Inr (), s\<lparr>work := upd (\<lambda>rs. rs @ [r]) (work s)\<rparr>))"

text \<open>The row inserted, or the one that is there after all.\<close>

definition insert_or_find ::
  "(tables \<Rightarrow> 'r list) \<Rightarrow> (('r list \<Rightarrow> 'r list) \<Rightarrow> tables \<Rightarrow> tables) \<Rightarrow> ('r \<Rightarrow> 'r \<Rightarrow> bool) \<Rightarrow> 'r
    \<Rightarrow> (tables \<Rightarrow> 'r option) \<Rightarrow> ('r \<times> bool) op" where
  "insert_or_find get upd clash r existing =
     catch (then_op (insert_nested get upd clash r) (ret (r, True)))
       (\<lambda>exc. bind_op (reads existing) (\<lambda>found. case found of None \<Rightarrow> throw exc | Some x \<Rightarrow> ret (x, False)))"

definition event_clash :: "automation_event \<Rightarrow> automation_event \<Rightarrow> bool" where
  "event_clash e e' \<longleftrightarrow> ev_id e' = ev_id e \<or> (ev_source_item e \<noteq> None \<and> ev_source_item e' = ev_source_item e)"

definition parent_context :: "tables \<Rightarrow> string option \<Rightarrow> string option \<Rightarrow> string option \<times> string option \<times> int" where
  "parent_context t source trace_id =
     (case (source, trace_id) of
        (Some src, Some tr) \<Rightarrow>
          if src \<noteq> ''automation'' \<or> tr = [] then (None, None, 0)
          else (case select_first t_execs (\<lambda>x. ex_trace x = tr) t of
              None \<Rightarrow> (None, None, 0)
            | Some x \<Rightarrow> (Some (ex_root x), Some (ex_id x), ex_depth x + 1))
      | _ \<Rightarrow> (None, None, 0))"

definition event_for_item :: "tables \<Rightarrow> string \<Rightarrow> automation_event option" where
  "event_for_item t i = select_first t_events (\<lambda>e. ev_source_item e = Some i) t"

text \<open>\<open>str(x)[:n] if x else None\<close>.\<close>

definition cut :: "nat \<Rightarrow> string option \<Rightarrow> string option" where
  "cut n x = (case x of None \<Rightarrow> None | Some s \<Rightarrow> if s = [] then None else Some (take n s))"

record record_change =
  rc_table :: string
  rc_type :: string
  rc_record :: string
  rc_before :: "dict option"
  rc_after :: "dict option"
  rc_changed :: "string list"
  rc_actor :: "int option"
  rc_source :: "string option"
  rc_trace :: "string option"
  rc_item :: "string option"
  rc_created :: "int option"

definition has_text :: "string option \<Rightarrow> bool" where
  "has_text x \<longleftrightarrow> x \<noteq> None \<and> x \<noteq> Some []"

definition event_row :: "string \<Rightarrow> string \<Rightarrow> record_change \<Rightarrow> string option \<times> string option \<times> int \<Rightarrow> int \<Rightarrow> int \<Rightarrow> automation_event" where
  "event_row event_id ws rc = (\<lambda>(root_id, parent, depth) available created.
     \<lparr>ev_id = take 128 event_id, ev_ws = ws, ev_table = rc_table rc, ev_record = Some (rc_record rc),
      ev_source_item = cut 64 (rc_item rc), ev_target = None, ev_type = strip (rc_type rc),
      ev_before = rc_before rc, ev_after = rc_after rc, ev_changed = sort (remdups (rc_changed rc)),
      ev_actor = rc_actor rc, ev_source = cut 64 (rc_source rc), ev_trace = cut 128 (rc_trace rc),
      ev_root = take 128 (or_default root_id event_id), ev_parent_exec = parent, ev_depth = max 0 depth,
      ev_status = ''queued'', ev_available_at = available, ev_error_code = None, ev_error_message = None,
      ev_created_at = created, ev_processed_at = None\<rparr>)"

definition insert_event :: "automation_event \<Rightarrow> (tables \<Rightarrow> automation_event option) \<Rightarrow> automation_event op" where
  "insert_event e existing =
     bind_op (insert_or_find t_events t_events_update event_clash e existing) (\<lambda>(x, _). ret x)"

definition queue_record_automation_event :: "record_change \<Rightarrow> automation_event option op" where
  "queue_record_automation_event rc =
     (let normalized_type = strip (rc_type rc) in
      then_op (throw_if (normalized_type \<notin> set record_event_types)
        (Exn ValueError (''Unsupported record automation event: '' @ normalized_type)))
      (bind_op (reads (\<lambda>t. table_workspace t (rc_table rc))) (\<lambda>ws.
       if \<not> has_text ws then ret None
       else
         bind_op (if has_text (rc_item rc) then ret (''evt_change_'' @ the (rc_item rc)) else new_event_id) (\<lambda>event_id.
         bind_op (reads (\<lambda>t. if has_text (rc_item rc) then event_for_item t (the (rc_item rc)) else None)) (\<lambda>existing.
         case existing of
           Some e \<Rightarrow> ret (Some e)
         | None \<Rightarrow>
             bind_op (reads (\<lambda>t. parent_context t (rc_source rc) (rc_trace rc))) (\<lambda>ctx.
             bind_op utcnow (\<lambda>available.
             bind_op (case rc_created rc of Some c \<Rightarrow> ret c | None \<Rightarrow> utcnow) (\<lambda>created.
             bind_op (insert_event (event_row event_id (the ws) rc ctx available created)
               (\<lambda>t. if has_text (rc_item rc) then event_for_item t (the (rc_item rc)) else None)) (\<lambda>e.
               ret (Some e))))))))))"

subsection \<open>From the change log to the queue\<close>

text \<open>
  The query joins the record changes of applied change sets that no event refers to. Its condition
  \<open>after_data IS NOT NULL\<close> holds for every row: the column is of type \<open>JSON\<close> and the row is added with an
  explicit value, so the \<open>None\<close> of a deletion is stored as the JSON text \<open>null\<close>, which is not the \<open>NULL\<close>
  of the database. The loop passes over such a row, whose \<open>after_data\<close> reads as \<open>None\<close>.
\<close>

definition pending_changes :: "tables \<Rightarrow> (change_item \<times> change_set) list" where
  "pending_changes t =
     sort_key (\<lambda>(i, c). (cs_created c, ci_order i, ci_id i))
       (concat (map (\<lambda>i. map (Pair i) (select t_sets (\<lambda>c. cs_id c = ci_set i \<and> cs_status c = ''applied'') t))
         (select t_changes (\<lambda>i. ci_etype i = ''record'' \<and> (\<forall>e\<in>set (t_events t). ev_source_item e \<noteq> Some (ci_id i))) t)))"

definition change_of :: "change_item \<times> change_set \<Rightarrow> record_change" where
  "change_of = (\<lambda>(i, c).
     \<lparr>rc_table = ci_table i, rc_type = (if ci_before i = None then ''record.created'' else ''record.updated''),
      rc_record = ci_entity i, rc_before = ci_before i, rc_after = ci_after i, rc_changed = ci_changed i,
      rc_actor = cs_actor c, rc_source = cs_source c, rc_trace = cs_trace c, rc_item = Some (ci_id i),
      rc_created = Some (cs_created c)\<rparr>)"

definition materialize_record_events_from_changesets :: "int \<Rightarrow> nat op" where
  "materialize_record_events_from_changesets limit =
     (let safe_limit = nat (max 1 (min 1000 limit)) in
      bind_op (reads (\<lambda>t. take safe_limit (pending_changes t))) (\<lambda>rows.
      bind_op (map_op (\<lambda>row. if ci_after (fst row) = None then ret None
          else queue_record_automation_event (change_of row)) rows) (\<lambda>found.
      let created = length (filter (\<lambda>e. e \<noteq> None) found) in
      then_op (if created > 0 then commit else ret ()) (ret created))))"

record synthetic_event =
  se_id :: string
  se_ws :: string
  se_table :: string
  se_target :: string
  se_type :: string
  se_record :: "string option"
  se_after :: "dict option"
  se_actor :: "int option"
  se_source :: string

definition synthetic_row :: "synthetic_event \<Rightarrow> int \<Rightarrow> int \<Rightarrow> automation_event" where
  "synthetic_row se available created =
     \<lparr>ev_id = take 128 (se_id se), ev_ws = se_ws se, ev_table = se_table se, ev_record = se_record se,
      ev_source_item = None, ev_target = Some (take 64 (se_target se)), ev_type = take 32 (se_type se),
      ev_before = None, ev_after = se_after se, ev_changed = [], ev_actor = se_actor se,
      ev_source = Some (take 64 (se_source se)), ev_trace = None, ev_root = take 128 (se_id se),
      ev_parent_exec = None, ev_depth = 0, ev_status = ''queued'', ev_available_at = available,
      ev_error_code = None, ev_error_message = None, ev_created_at = created, ev_processed_at = None\<rparr>"

definition find_event :: "tables \<Rightarrow> string \<Rightarrow> automation_event option" where
  "find_event t i = select_first t_events (\<lambda>e. ev_id e = i) t"

definition queue_synthetic_automation_event :: "synthetic_event \<Rightarrow> automation_event op" where
  "queue_synthetic_automation_event se =
     bind_op (reads (\<lambda>t. find_event t (se_id se))) (\<lambda>existing.
     case existing of
       Some e \<Rightarrow> ret e
     | None \<Rightarrow>
         bind_op utcnow (\<lambda>available.
         bind_op utcnow (\<lambda>created.
           insert_event (synthetic_row se available created) (\<lambda>t. find_event t (se_id se)))))"

definition trigger_matches :: "automation_rule \<Rightarrow> automation_event \<Rightarrow> bool res" where
  "trigger_matches rule e =
     (let trigger = ar_trigger rule; ty = str_or_empty (dget trigger ''type'') in
      if has_text (ev_target e) \<and> ev_target e \<noteq> Some (ar_id rule) then Inr False
      else if ty \<noteq> ev_type e then Inr False
      else if ty \<noteq> ''record.updated'' then Inr True
      else bind_res (py_iter (py_or (dget trigger ''fieldIds'') (PList []))) (\<lambda>vs.
        let configured = remdups (map py_str vs) in
        if configured \<noteq> [] \<and> set configured \<inter> set (ev_changed e) = {} then Inr False
        else if dhas trigger ''from'' \<or> dhas trigger ''to'' then
          if length configured \<noteq> 1 then Inr False
          else
            let i = hd configured;
                before = (case ev_before e of None \<Rightarrow> PNone | Some d \<Rightarrow> dget d i);
                after = (case ev_after e of None \<Rightarrow> PNone | Some d \<Rightarrow> dget d i) in
            Inr (\<not> (dhas trigger ''from'' \<and> \<not> py_eq before (dget trigger ''from''))
               \<and> \<not> (dhas trigger ''to'' \<and> \<not> py_eq after (dget trigger ''to'')))
        else Inr True))"

section \<open>The scheduler\<close>

definition due_value_utc :: "env \<Rightarrow> pyval \<Rightarrow> string \<Rightarrow> int option" where
  "due_value_utc env v timezone_name =
     (case parse_datetime_value (en_time env) v of
        None \<Rightarrow> None
      | Some (wall, Some offset) \<Rightarrow> Some (wall - offset)
      | Some (wall, None) \<Rightarrow> en_local env (if timezone_name = [] then ''UTC'' else timezone_name) wall)"

definition schedule_event_id :: "env \<Rightarrow> string list \<Rightarrow> string" where
  "schedule_event_id env parts = ''evt_sched_'' @ take 96 (en_sha env (join ''|'' parts))"

definition minutes :: "int \<Rightarrow> int" where
  "minutes n = n * 60 * 1000000"

definition advance_next_run :: "automation_rule \<Rightarrow> int \<Rightarrow> int res" where
  "advance_next_run rule now =
     (let trigger = ar_trigger rule; ty = str_or_empty (dget trigger ''type'') in
      bind_res
        (if ty = ''scheduled'' then bind_res (py_int (py_or (dget trigger ''intervalMinutes'') (PInt 1))) (\<lambda>n. Inr (max 1 n))
         else if ty = ''due_date'' then bind_res (py_int (py_or (dget trigger ''scanIntervalMinutes'') (PInt 5))) (\<lambda>n. Inr (max 1 n))
         else Inr 60) (\<lambda>interval. Inr (now + minutes interval)))"

definition runtime_permission :: "tables \<Rightarrow> automation_rule \<Rightarrow> string option" where
  "runtime_permission t rule = (case ar_run_as rule of
       None \<Rightarrow> None
     | Some u \<Rightarrow>
         let permission = get_effective_permission_for_item t u (ar_table rule) in
         if permission_allows permission (required_permission_for_actions (ar_actions rule)) then permission else None)"

definition rule_version :: "automation_rule \<Rightarrow> int" where
  "rule_version rule = (if ar_version rule = 0 then 1 else ar_version rule)"

definition queue_scheduled_rule :: "env \<Rightarrow> automation_rule \<Rightarrow> int \<Rightarrow> int op" where
  "queue_scheduled_rule env rule scheduled_for =
     (let event_id = schedule_event_id env [''scheduled'', ar_id rule, dec_int (rule_version rule), en_iso env scheduled_for] in
      bind_op (queue_synthetic_automation_event
        \<lparr>se_id = event_id, se_ws = ar_ws rule, se_table = ar_table rule, se_target = ar_id rule, se_type = ''scheduled'',
         se_record = None, se_after = None, se_actor = None, se_source = ''automation_scheduler''\<rparr>) (\<lambda>_. ret 1))"

definition due_event :: "env \<Rightarrow> automation_rule \<Rightarrow> string \<Rightarrow> int \<Rightarrow> int \<Rightarrow> table_record \<Rightarrow> synthetic_event option" where
  "due_event env rule field_id offset now r =
     (case due_value_utc env (dget (rec_data r) field_id) (ar_timezone rule) of
        None \<Rightarrow> None
      | Some due \<Rightarrow>
          if due - minutes offset \<le> now \<and> now \<le> due
          then Some \<lparr>se_id = schedule_event_id env [''due_date'', ar_id rule, dec_int (rule_version rule), rec_id r, field_id,
                       en_iso env due, dec_int offset],
             se_ws = ar_ws rule, se_table = ar_table rule, se_target = ar_id rule, se_type = ''due_date'',
             se_record = Some (rec_id r), se_after = Some (rec_data r), se_actor = None, se_source = ''automation_scheduler''\<rparr>
          else None)"

definition queue_due_rule :: "env \<Rightarrow> automation_rule \<Rightarrow> int \<Rightarrow> int op" where
  "queue_due_rule env rule now =
     (let field_id = str_or_empty (dget (ar_trigger rule) ''fieldId'') in
      case ar_run_as rule of
        None \<Rightarrow> ret 0
      | Some u \<Rightarrow>
          if field_id = [] then ret 0
          else case py_int (py_or (dget (ar_trigger rule) ''offsetMinutes'') (PInt 0)) of
            Inl e \<Rightarrow> if exn_class e = TypeError \<or> is_value_error (exn_class e) then ret 0 else throw e
          | Inr n \<Rightarrow>
              bind_op (reads (\<lambda>t. runtime_permission t rule)) (\<lambda>permission.
              if permission = None then ret 0
              else
                bind_op (reads (\<lambda>t. filter (row_visible (get_row_permission_policy t (ar_table rule)) u permission)
                  (select t_records (\<lambda>r. rec_table r = ar_table rule) t))) (\<lambda>rows.
                let events = List.map_filter (due_event env rule field_id (max 0 n) now) rows in
                bind_op (map_op queue_synthetic_automation_event events) (\<lambda>es. ret (int (length es))))))"

definition due_rules :: "tables \<Rightarrow> int \<Rightarrow> automation_rule list" where
  "due_rules t now = sort_key (\<lambda>r. (the (ar_next_run r), ar_id r))
     (select t_rules (\<lambda>r. ar_enabled r \<and> ar_deleted_at r = None \<and> (case ar_next_run r of None \<Rightarrow> False | Some n \<Rightarrow> n \<le> now)) t)"

definition set_rule :: "string \<Rightarrow> (automation_rule \<Rightarrow> automation_rule) \<Rightarrow> unit op" where
  "set_rule i f = update_rows t_rules_update (\<lambda>r. ar_id r = i) f"

definition scan_rule :: "env \<Rightarrow> int \<Rightarrow> automation_rule \<Rightarrow> (int \<times> int) op" where
  "scan_rule env now rule =
     (let ty = str_or_empty (dget (ar_trigger rule) ''type'') in
      bind_op (if ty = ''scheduled'' then bind_op (queue_scheduled_rule env rule (the (ar_next_run rule))) (\<lambda>n. ret (n, 0))
               else if ty = ''due_date'' then bind_op (queue_due_rule env rule now) (\<lambda>n. ret (0, n))
               else ret (0, 0)) (\<lambda>counts.
      bind_op (of_res (advance_next_run rule now)) (\<lambda>next_run.
      then_op (set_rule (ar_id rule) (\<lambda>r. r\<lparr>ar_next_run := Some next_run, ar_updated_at := now\<rparr>)) (ret counts))))"

record scan_result =
  sc_rules :: nat
  sc_scheduled :: int
  sc_due :: int

definition scan_due_automations :: "env \<Rightarrow> int \<Rightarrow> int \<Rightarrow> scan_result op" where
  "scan_due_automations env now limit =
     (let safe_limit = nat (max 1 (min 500 limit)) in
      bind_op (reads (\<lambda>t. take safe_limit (due_rules t now))) (\<lambda>rules.
      bind_op (map_op (scan_rule env now) rules) (\<lambda>counts.
      then_op (if rules = [] then ret () else commit)
        (ret \<lparr>sc_rules = length rules, sc_scheduled = sum_list (map fst counts), sc_due = sum_list (map snd counts)\<rparr>))))"

section \<open>Rules\<close>

definition automation_error :: "string \<Rightarrow> exn" where
  "automation_error msg = Exn AutomationError msg"

definition schedule_from_trigger :: "dict \<Rightarrow> bool \<Rightarrow> int option op" where
  "schedule_from_trigger trigger enabled =
     (if \<not> enabled then ret None
      else let ty = str_or_empty (dget trigger ''type'') in
        bind_op utcnow (\<lambda>now.
          if ty = ''scheduled'' then
            bind_op (of_res (py_int (py_or (dget trigger ''intervalMinutes'') (PInt 1)))) (\<lambda>n. ret (Some (now + minutes n)))
          else if ty = ''due_date'' then ret (Some now)
          else ret None))"

definition table_item :: "tables \<Rightarrow> string \<Rightarrow> workspace_item res" where
  "table_item t table_id = (case select_first t_items (\<lambda>i. itm_id i = table_id) t of
       None \<Rightarrow> Inl (automation_error ''Table not found'')
     | Some i \<Rightarrow> if itm_type i \<noteq> ''table'' then Inl (automation_error ''Table not found'') else Inr i)"

definition require_permission :: "tables \<Rightarrow> int \<Rightarrow> string \<Rightarrow> string \<Rightarrow> string res" where
  "require_permission t user_id table_id required =
     (let permission = get_effective_permission_for_item t user_id table_id in
      if permission_allows permission required then Inr (the permission)
      else Inl (Exn PermissionError ''Table not found or no access''))"

definition get_automation :: "tables \<Rightarrow> int \<Rightarrow> string \<Rightarrow> string \<Rightarrow> automation_rule res" where
  "get_automation t user_id automation_id required =
     (case select_first t_rules (\<lambda>r. ar_id r = automation_id \<and> ar_deleted_at r = None) t of
        None \<Rightarrow> Inl (automation_error ''Automation not found'')
      | Some rule \<Rightarrow> bind_res (require_permission t user_id (ar_table rule) required) (\<lambda>_. Inr rule))"

definition list_automations :: "tables \<Rightarrow> int \<Rightarrow> string option \<Rightarrow> string option \<Rightarrow> automation_rule list res" where
  "list_automations t user_id workspace_id table_id =
     (if \<not> has_text workspace_id \<and> \<not> has_text table_id then Inl (automation_error ''workspaceId or tableId is required'')
      else Inr (filter (\<lambda>r. permission_allows (get_effective_permission_for_item t user_id (ar_table r)) ''read'')
        (rev (sort_key (\<lambda>r. (ar_updated_at r, ar_id r)) (select t_rules (\<lambda>r. ar_deleted_at r = None
           \<and> (has_text workspace_id \<longrightarrow> Some (ar_ws r) = workspace_id) \<and> (has_text table_id \<longrightarrow> Some (ar_table r) = table_id)) t)))))"

definition checked_name :: "string \<Rightarrow> string res" where
  "checked_name name = (let n = strip name in
     if n = [] then Inl (automation_error ''Automation name is required'')
     else if length n > 191 then Inl (automation_error ''Automation name is too long'')
     else Inr n)"

record automation_input =
  ai_trigger :: pyval
  ai_conditions :: pyval
  ai_actions :: pyval
  ai_timezone :: pyval
  ai_retries :: pyval

definition validate_input :: "env \<Rightarrow> tables \<Rightarrow> string \<Rightarrow> automation_input \<Rightarrow> automation_definition res" where
  "validate_input env t table_id i =
     validate_automation_definition (en_float env) (en_time env) (en_zones env) t table_id
       (ai_trigger i) (ai_conditions i) (ai_actions i) (ai_timezone i) (ai_retries i)"

definition create_automation ::
  "env \<Rightarrow> int \<Rightarrow> string \<Rightarrow> string \<Rightarrow> automation_input \<Rightarrow> string option \<Rightarrow> bool \<Rightarrow> automation_rule op" where
  "create_automation env user_id table_id name input description enabled =
     bind_op (reads (\<lambda>t. table_item t table_id)) (\<lambda>found. bind_op (of_res found) (\<lambda>item.
     bind_op (reads (\<lambda>t. require_permission t user_id table_id ''edit'')) (\<lambda>allowed. bind_op (of_res allowed) (\<lambda>_.
     bind_op (of_res (checked_name name)) (\<lambda>normalized_name.
     bind_op (reads (\<lambda>t. validate_input env t table_id input)) (\<lambda>checked. bind_op (of_res checked) (\<lambda>normalized.
     bind_op utcnow (\<lambda>now.
     bind_op (new_id ''aut'') (\<lambda>i.
     bind_op (schedule_from_trigger (def_trigger normalized) enabled) (\<lambda>next_run.
     let rule = \<lparr>ar_id = i, ar_ws = itm_ws item, ar_table = table_id, ar_name = normalized_name,
          ar_description = map_option strip description, ar_enabled = enabled, ar_trigger = def_trigger normalized,
          ar_conditions = def_conditions normalized, ar_actions = def_actions normalized, ar_timezone = def_timezone normalized,
          ar_max_retries = def_retries normalized, ar_version = 1, ar_run_as = Some user_id, ar_next_run = next_run,
          ar_created_by = Some user_id, ar_updated_by = Some user_id, ar_created_at = now, ar_updated_at = now,
          ar_deleted_at = None\<rparr> in
     then_op (insert_row t_rules t_rules_update ar_id rule) (then_op commit (ret rule))))))))))))"

text \<open>\<open>x if x is not None else stored\<close>.\<close>

definition given :: "pyval \<Rightarrow> pyval \<Rightarrow> pyval" where
  "given x stored = (if x = PNone then stored else x)"

definition stored_input :: "automation_rule \<Rightarrow> automation_input \<Rightarrow> automation_input" where
  "stored_input rule i =
     \<lparr>ai_trigger = given (ai_trigger i) (PDict (ar_trigger rule)), ai_conditions = given (ai_conditions i) (PDict (ar_conditions rule)),
      ai_actions = given (ai_actions i) (PList (map PDict (ar_actions rule))),
      ai_timezone = given (ai_timezone i) (PStr (ar_timezone rule)), ai_retries = given (ai_retries i) (PInt (ar_max_retries rule))\<rparr>"

definition semantic_change :: "automation_input \<Rightarrow> bool" where
  "semantic_change i \<longleftrightarrow> (\<exists>v\<in>{ai_trigger i, ai_conditions i, ai_actions i, ai_timezone i, ai_retries i}. v \<noteq> PNone)"

text \<open>The new definition of a rule, in the order the attributes are set.\<close>

definition redefine :: "env \<Rightarrow> int \<Rightarrow> automation_rule \<Rightarrow> automation_input \<Rightarrow> unit op" where
  "redefine env user_id rule i =
     bind_op (reads (\<lambda>t. validate_input env t (ar_table rule) (stored_input rule i))) (\<lambda>checked. bind_op (of_res checked) (\<lambda>n.
     then_op (set_rule (ar_id rule) (\<lambda>r. r\<lparr>ar_trigger := def_trigger n, ar_conditions := def_conditions n, ar_actions := def_actions n,
       ar_timezone := def_timezone n, ar_max_retries := def_retries n, ar_version := rule_version r + 1, ar_run_as := Some user_id\<rparr>))
     (bind_op (schedule_from_trigger (def_trigger n) (ar_enabled rule)) (\<lambda>next_run.
        set_rule (ar_id rule) (\<lambda>r. r\<lparr>ar_next_run := next_run\<rparr>)))))"

definition touch_rule :: "int \<Rightarrow> string \<Rightarrow> automation_rule op" where
  "touch_rule user_id i =
     bind_op utcnow (\<lambda>now.
     then_op (set_rule i (\<lambda>r. r\<lparr>ar_updated_by := Some user_id, ar_updated_at := now\<rparr>))
     (then_op commit (reads (\<lambda>t. the (select_first t_rules (\<lambda>r. ar_id r = i) t)))))"

definition update_automation ::
  "env \<Rightarrow> int \<Rightarrow> string \<Rightarrow> string option \<Rightarrow> string option \<Rightarrow> automation_input \<Rightarrow> automation_rule op" where
  "update_automation env user_id automation_id name description i =
     bind_op (reads (\<lambda>t. get_automation t user_id automation_id ''edit'')) (\<lambda>found. bind_op (of_res found) (\<lambda>rule.
     then_op (case name of None \<Rightarrow> ret ()
        | Some n \<Rightarrow> bind_op (of_res (checked_name n)) (\<lambda>n'. set_rule automation_id (\<lambda>r. r\<lparr>ar_name := n'\<rparr>)))
     (then_op (case description of None \<Rightarrow> ret ()
        | Some d \<Rightarrow> set_rule automation_id (\<lambda>r. r\<lparr>ar_description := (if strip d = [] then None else Some (strip d))\<rparr>))
     (then_op (if semantic_change i then redefine env user_id rule i else ret ())
      (touch_rule user_id automation_id)))))"

definition set_automation_enabled :: "int \<Rightarrow> string \<Rightarrow> bool \<Rightarrow> automation_rule op" where
  "set_automation_enabled user_id automation_id enabled =
     bind_op (reads (\<lambda>t. get_automation t user_id automation_id ''edit'')) (\<lambda>found. bind_op (of_res found) (\<lambda>rule.
     then_op (set_rule automation_id (\<lambda>r. r\<lparr>ar_enabled := enabled,
        ar_run_as := (if enabled \<and> ar_run_as r = None then Some user_id else ar_run_as r)\<rparr>))
     (bind_op (schedule_from_trigger (ar_trigger rule) enabled) (\<lambda>next_run.
      then_op (set_rule automation_id (\<lambda>r. r\<lparr>ar_next_run := next_run\<rparr>)) (touch_rule user_id automation_id)))))"

definition delete_automation :: "int \<Rightarrow> string \<Rightarrow> bool op" where
  "delete_automation user_id automation_id =
     bind_op (reads (\<lambda>t. get_automation t user_id automation_id ''edit'')) (\<lambda>found. bind_op (of_res found) (\<lambda>rule.
     bind_op utcnow (\<lambda>now.
     then_op (set_rule automation_id (\<lambda>r. r\<lparr>ar_enabled := False, ar_next_run := None, ar_deleted_at := Some now,
        ar_updated_by := Some user_id, ar_updated_at := now\<rparr>))
     (then_op commit (ret True)))))"

end
