(* ===== verification/AutoRun.thy ===== *)
theory AutoRun
  imports AutoEvents
begin

text \<open>
  Running the rules: one execution per rule version and event with its status, attempts, action
  results and retries (\<open>automation/executor.py\<close>), the notifications it stages
  (\<open>stage_notification\<close> of \<open>collaboration/notifications.py\<close>), and the worker's cycle with the
  leases on events and retries (\<open>automation/runtime.py\<close>).
\<close>

declare split_paired_All [simp del] split_paired_Ex [simp del]

section \<open>Executions\<close>

definition terminal_statuses :: "string list" where
  "terminal_statuses = [''succeeded'', ''skipped'', ''failed'', ''partially_failed'']"

definition retryable_statuses :: "string list" where
  "retryable_statuses = [''queued'', ''retry_scheduled'']"

definition error_code :: "exn \<Rightarrow> string" where
  "error_code e = (if exn_class e = PermissionError then ''permission_denied''
     else if is_value_error (exn_class e) then ''validation_error'' else ''action_error'')"

definition requires_session_rollback :: "exn \<Rightarrow> bool" where
  "requires_session_rollback e \<longleftrightarrow> \<not> (exn_class e = PermissionError \<or> is_value_error (exn_class e))"

definition set_exec :: "string \<Rightarrow> (automation_execution \<Rightarrow> automation_execution) \<Rightarrow> unit op" where
  "set_exec i f = update_rows t_execs_update (\<lambda>x. ex_id x = i) f"

definition find_exec :: "tables \<Rightarrow> string \<Rightarrow> automation_execution option" where
  "find_exec t i = select_first t_execs (\<lambda>x. ex_id x = i) t"

text \<open>\<open>scalars().one()\<close>.\<close>

definition the_row :: "(tables \<Rightarrow> 'r option) \<Rightarrow> 'r op" where
  "the_row q = bind_op (reads q) (\<lambda>found. case found of
       None \<Rightarrow> throw (Exn NoResultFound ''No row was found when one was required'') | Some x \<Rightarrow> ret x)"

definition exec_for :: "tables \<Rightarrow> automation_rule \<Rightarrow> automation_event \<Rightarrow> automation_execution option" where
  "exec_for t rule e = select_first t_execs
     (\<lambda>x. ex_rule x = ar_id rule \<and> ex_rule_version x = rule_version rule \<and> ex_event x = ev_id e) t"

definition exec_clash :: "automation_execution \<Rightarrow> automation_execution \<Rightarrow> bool" where
  "exec_clash x y \<longleftrightarrow> ex_id y = ex_id x \<or> ex_trace y = ex_trace x
     \<or> (ex_rule y = ex_rule x \<and> ex_rule_version y = ex_rule_version x \<and> ex_event y = ex_event x)"

definition new_execution :: "automation_rule \<Rightarrow> automation_event \<Rightarrow> int \<Rightarrow> string \<Rightarrow> string \<Rightarrow> automation_execution" where
  "new_execution rule e now i trace_id =
     \<lparr>ex_id = i, ex_rule = ar_id rule, ex_rule_version = rule_version rule, ex_event = ev_id e, ex_root = ev_root e,
      ex_parent = (if has_text (ev_parent_exec e) then ev_parent_exec e else None), ex_record = ev_record e,
      ex_depth = ev_depth e, ex_status = ''queued'', ex_trace = trace_id, ex_attempt = 0, ex_results = [],
      ex_change_sets = [], ex_error_code = None, ex_error_message = None, ex_next_retry = None, ex_started_at = None,
      ex_finished_at = None, ex_created_at = now, ex_updated_at = now\<rparr>"

definition get_or_create_execution :: "automation_rule \<Rightarrow> automation_event \<Rightarrow> (automation_execution \<times> bool) op" where
  "get_or_create_execution rule e =
     bind_op (reads (\<lambda>t. exec_for t rule e)) (\<lambda>existing.
     case existing of
       Some x \<Rightarrow> ret (x, False)
     | None \<Rightarrow>
         bind_op utcnow (\<lambda>now.
         bind_op (new_id ''aex'') (\<lambda>i.
         bind_op (new_id ''atr'') (\<lambda>trace_id.
         bind_op (insert_or_find t_execs t_execs_update exec_clash (new_execution rule e now i trace_id)
           (\<lambda>t. exec_for t rule e)) (\<lambda>(x, created).
         then_op (if created then commit else ret ()) (ret (x, created)))))))"

definition validate_runtime_permission ::
  "tables \<Rightarrow> automation_rule \<Rightarrow> automation_event \<Rightarrow> (int \<times> string option \<times> table_record option) res" where
  "validate_runtime_permission t rule e =
     (case ar_run_as rule of
        None \<Rightarrow> Inl (Exn PermissionError ''Automation run-as user no longer exists'')
      | Some u \<Rightarrow>
          let required = required_permission_for_actions (ar_actions rule);
              permission = get_effective_permission_for_item t u (ar_table rule) in
          if \<not> permission_allows permission required
            then Inl (Exn PermissionError (''Automation run-as user no longer has required permission: '' @ required))
          else if \<not> has_text (ev_record e) then Inr (u, permission, None)
          else bind_res (require_record_access t (ar_table rule) (the (ev_record e)) u permission)
            (\<lambda>r. Inr (u, permission, Some r)))"

definition change_set_ids :: "tables \<Rightarrow> string \<Rightarrow> string list" where
  "change_set_ids t trace_id = map cs_id (sort_key (\<lambda>c. (cs_created c, cs_id c)) (select t_sets (\<lambda>c. cs_trace c = Some trace_id) t))"

section \<open>Notifications\<close>

text \<open>\<open>int(candidate)\<close>, nothing if it raises \<open>TypeError\<close> or \<open>ValueError\<close>.\<close>

definition int_of_value :: "pyval \<Rightarrow> int list" where
  "int_of_value v = (case py_int v of Inl _ \<Rightarrow> [] | Inr n \<Rightarrow> [n])"

fun member_ids :: "pyval \<Rightarrow> int list" where
  "member_ids (PList xs) = concat (map member_ids xs)"
| "member_ids (PDict d) =
     (case List.find (\<lambda>k. dget d k \<noteq> PNone) [''id'', ''userId'', ''user_id'', ''value''] of
        None \<Rightarrow> [] | Some k \<Rightarrow> int_of_value (dget d k))"
| "member_ids (PBool b) = []"
| "member_ids v = int_of_value v"

definition workspace_recipient_ids :: "tables \<Rightarrow> string \<Rightarrow> int list \<Rightarrow> int list" where
  "workspace_recipient_ids t ws candidates =
     (let allowed = map mb_user (select t_members (\<lambda>m. mb_ws m = ws) t) in
      filter (\<lambda>u. u \<in> set allowed) (sort (remdups (filter (\<lambda>u. 0 < u) candidates))))"

definition notification_types :: "string list" where
  "notification_types = [''comment_mention'', ''comment_reply'', ''task_assigned'', ''due_3d'', ''due_24h'',
     ''ai_action_required'', ''automation'', ''automation_failed'']"

definition note_clash :: "notification \<Rightarrow> notification \<Rightarrow> bool" where
  "note_clash n m \<longleftrightarrow> nt_id m = nt_id n \<or> (nt_recipient m = nt_recipient n \<and> nt_dedupe m = nt_dedupe n)"

record note_request =
  nq_recipient :: int
  nq_type :: string
  nq_actor :: "int option"
  nq_ws :: "string option"
  nq_table :: "string option"
  nq_record :: "string option"
  nq_comment :: "string option"
  nq_event :: string
  nq_dedupe :: string
  nq_payload :: dict

definition stage_notification :: "note_request \<Rightarrow> (notification \<times> bool) op" where
  "stage_notification q =
     (let ty = strip (nq_type q);
          existing = (\<lambda>t. select_first t_notes (\<lambda>n. nt_recipient n = nq_recipient q \<and> nt_dedupe n = nq_dedupe q) t) in
      then_op (throw_if (ty \<notin> set notification_types) (Exn CollaborationError (''Unsupported notification type: '' @ ty)))
      (bind_op (reads existing) (\<lambda>found.
       case found of
         Some n \<Rightarrow> ret (n, False)
       | None \<Rightarrow>
           bind_op (new_id ''ntf'') (\<lambda>i.
           bind_op utcnow (\<lambda>now.
             insert_or_find t_notes t_notes_update note_clash
               \<lparr>nt_id = i, nt_recipient = nq_recipient q, nt_type = ty, nt_actor = nq_actor q, nt_ws = nq_ws q,
                nt_table = nq_table q, nt_record = nq_record q, nt_comment = nq_comment q, nt_event = take 128 (nq_event q),
                nt_dedupe = take 191 (nq_dedupe q), nt_payload = nq_payload q, nt_created = now,
                nt_read = None\<rparr> existing)))))"

definition action_note ::
  "automation_rule \<Rightarrow> automation_execution \<Rightarrow> automation_event \<Rightarrow> dict \<Rightarrow> nat \<Rightarrow> int \<Rightarrow> int \<Rightarrow> note_request" where
  "action_note rule x e action index actor recipient =
     (let suffix = ex_id x @ '':'' @ dec_nat index @ '':'' @ dec_int recipient in
      \<lparr>nq_recipient = recipient, nq_type = py_str (py_or (dget action ''notificationType'') (PStr ''automation'')),
       nq_actor = Some actor, nq_ws = Some (ar_ws rule), nq_table = Some (ar_table rule), nq_record = ev_record e, nq_comment = None,
       nq_event = suffix, nq_dedupe = ''automation:'' @ suffix,
       nq_payload = [(''automationId'', PStr (ar_id rule)), (''executionId'', PStr (ex_id x)),
         (''message'', PStr (py_str (py_or (dget action ''message'') (PStr default_message))))]\<rparr>)"

definition execute_notify_action ::
  "automation_rule \<Rightarrow> automation_execution \<Rightarrow> automation_event \<Rightarrow> dict \<Rightarrow> dict \<Rightarrow> nat \<Rightarrow> int \<Rightarrow> dict op" where
  "execute_notify_action rule x e action record_data index actor =
     (let field = dget action ''recipientFieldId'' in
      bind_op (of_res (bind_res (py_iter (py_or (dget action ''recipientUserIds'') (PList []))) (map_res py_int))) (\<lambda>explicit.
      bind_op (reads (\<lambda>t. workspace_recipient_ids t (ar_ws rule)
        (explicit @ (if py_truth field then member_ids (dget record_data (py_str field)) else [])))) (\<lambda>recipients.
      then_op (throw_if (recipients = []) (Exn ValueError ''Automation notification has no accessible workspace recipient''))
      (bind_op (map_op (\<lambda>u. stage_notification (action_note rule x e action index actor u)) recipients) (\<lambda>notes.
      then_op commit
        (ret [(''notificationIds'', PList (map (\<lambda>(n, _). PStr (nt_id n)) notes)), (''recipientCount'', PInt (int (length recipients)))]))))))"

section \<open>Actions\<close>

text \<open>\<open>dict(action.get("fields") or {})\<close>; a validated action holds a dictionary there.\<close>

definition action_fields :: "dict \<Rightarrow> dict res" where
  "action_fields action = (case py_or (dget action ''fields'') (PDict []) of
       PDict d \<Rightarrow> Inr d
     | _ \<Rightarrow> Inl (Exn TypeError ''object is not a dictionary''))"

definition execute_action ::
  "env \<Rightarrow> automation_rule \<Rightarrow> automation_execution \<Rightarrow> automation_event \<Rightarrow> dict \<Rightarrow> nat \<Rightarrow> int \<Rightarrow> string option \<Rightarrow> table_record option \<Rightarrow> dict op" where
  "execute_action env rule x e action index run_as permission rec =
     (let ty = str_or_empty (dget action ''type'') in
      if ty = ''update_record'' then
        (case (rec, ev_record e) of
           (Some _, Some i) \<Rightarrow>
             bind_op (reads (\<lambda>t. require_record_access t (ar_table rule) i run_as permission)) (\<lambda>found.
             bind_op (of_res found) (\<lambda>_.
             bind_op (of_res (action_fields action)) (\<lambda>fs.
             bind_op (apply_record_patches_checked (Some (ar_table rule))
               (map (\<lambda>(k, v). [(''recordId'', PStr i), (''fieldId'', PStr k), (''value'', v)]) fs)
               (Some run_as) ''automation'' ''automation'' (Some (ex_trace x))) (\<lambda>_.
               ret [(''recordId'', PStr i), (''changedFieldIds'', PList (map PStr (sort (dkeys fs))))]))))
         | _ \<Rightarrow> throw (Exn ValueError ''update_record requires a record-triggered execution''))
      else if ty = ''create_record'' then
        bind_op (of_res (action_fields action)) (\<lambda>fs.
        bind_op (create_records_with_data_checked (en_parse env) (en_eval env) (Some (ar_table rule)) [fs]
          (Some run_as) ''automation'' ''automation'' (Some (ex_trace x)) (en_blank env)) (\<lambda>created.
          ret [(''recordIds'', PList (map (\<lambda>d. PStr (py_str (dget d ''id''))) created))]))
      else if ty = ''notify'' then
        bind_op (reads (\<lambda>t. case rec of
            None \<Rightarrow> (case ev_after e of None \<Rightarrow> [] | Some d \<Rightarrow> d)
          | Some r \<Rightarrow> (case select_first t_records (\<lambda>r'. rec_key r' = rec_key r) t of None \<Rightarrow> rec_data r | Some r' \<Rightarrow> rec_data r')))
          (\<lambda>record_data. execute_notify_action rule x e action record_data index run_as)
      else throw (Exn ValueError (''Unsupported automation action: '' @ ty)))"

subsection \<open>The results of the actions\<close>

definition result_at :: "action_result list \<Rightarrow> nat \<Rightarrow> action_result option" where
  "result_at results i = List.find (\<lambda>r. ax_index r = i) results"

definition succeeded_at :: "action_result list \<Rightarrow> nat \<Rightarrow> bool" where
  "succeeded_at results i = (case result_at results i of None \<Rightarrow> False | Some r \<Rightarrow> ax_status r = ''succeeded'')"

definition put_result :: "action_result list \<Rightarrow> action_result \<Rightarrow> action_result list" where
  "put_result results r = sort_key ax_index (r # filter (\<lambda>q. ax_index q \<noteq> ax_index r) results)"

definition action_type :: "dict \<Rightarrow> string" where
  "action_type action = str_or_empty (dget action ''type'')"

definition success_result :: "nat \<Rightarrow> dict \<Rightarrow> dict \<Rightarrow> action_result" where
  "success_result index action detail = \<lparr>ax_index = index, ax_type = action_type action, ax_status = ''succeeded'',
     ax_error_code = None, ax_error_message = None, ax_detail = detail\<rparr>"

definition failure_result :: "nat \<Rightarrow> dict \<Rightarrow> string \<Rightarrow> string \<Rightarrow> action_result" where
  "failure_result index action code message = \<lparr>ax_index = index, ax_type = action_type action, ax_status = ''failed'',
     ax_error_code = Some code, ax_error_message = Some (take 500 message), ax_detail = []\<rparr>"

text \<open>One turn of the loop over the actions: the results so far, the new results.\<close>

definition run_action ::
  "automation_execution \<Rightarrow> (dict \<Rightarrow> nat \<Rightarrow> dict op) \<Rightarrow> action_result list \<Rightarrow> nat \<times> dict \<Rightarrow> action_result list op" where
  "run_action x exe results = (\<lambda>(index, action).
     if succeeded_at results index then ret results
     else
       catch
         (bind_op (exe action index) (\<lambda>detail.
          let results' = put_result results (success_result index action detail) in
          then_op (set_exec (ex_id x) (\<lambda>y. y\<lparr>ex_results := results'\<rparr>))
          (bind_op (reads (\<lambda>t. change_set_ids t (ex_trace x))) (\<lambda>ids.
           then_op (set_exec (ex_id x) (\<lambda>y. y\<lparr>ex_change_sets := ids\<rparr>))
           (bind_op utcnow (\<lambda>now.
            then_op (set_exec (ex_id x) (\<lambda>y. y\<lparr>ex_updated_at := now\<rparr>)) (then_op commit (ret results'))))))))
         (\<lambda>exc.
          then_op (set_exec (ex_id x) (\<lambda>y. y\<lparr>ex_results :=
              put_result results (failure_result index action (error_code exc) (exn_msg exc))\<rparr>))
            (throw exc)))"

fun run_actions ::
  "automation_execution \<Rightarrow> (dict \<Rightarrow> nat \<Rightarrow> dict op) \<Rightarrow> action_result list \<Rightarrow> (nat \<times> dict) list \<Rightarrow> unit op" where
  "run_actions x exe results [] = ret ()"
| "run_actions x exe results (a # as) = bind_op (run_action x exe results a) (\<lambda>results'. run_actions x exe results' as)"

section \<open>One execution\<close>

definition skip_execution :: "string \<Rightarrow> string \<Rightarrow> string option \<Rightarrow> unit op" where
  "skip_execution i code message =
     bind_op utcnow (\<lambda>now.
     then_op (set_exec i (\<lambda>y. y\<lparr>ex_status := ''skipped'', ex_error_code := Some code, ex_error_message := message,
       ex_finished_at := Some now, ex_updated_at := now\<rparr>)) commit)"

definition start_execution :: "string \<Rightarrow> unit op" where
  "start_execution i =
     bind_op utcnow (\<lambda>now.
     then_op (set_exec i (\<lambda>y. y\<lparr>ex_status := ''running'', ex_attempt := ex_attempt y + 1, ex_started_at := Some now,
       ex_finished_at := None, ex_next_retry := None, ex_error_code := None, ex_error_message := None, ex_updated_at := now\<rparr>))
       commit)"

definition finish_execution :: "automation_execution \<Rightarrow> unit op" where
  "finish_execution x =
     bind_op (reads (\<lambda>t. change_set_ids t (ex_trace x))) (\<lambda>ids.
     bind_op utcnow (\<lambda>now.
     then_op (set_exec (ex_id x) (\<lambda>y. y\<lparr>ex_status := ''succeeded'', ex_change_sets := ids, ex_error_code := None,
       ex_error_message := None, ex_next_retry := None, ex_finished_at := Some now, ex_updated_at := now\<rparr>)) commit))"

text \<open>The \<open>try\<close> block of \<open>execute_rule_for_event\<close>.\<close>

definition run_rule :: "env \<Rightarrow> automation_rule \<Rightarrow> automation_event \<Rightarrow> automation_execution \<Rightarrow> unit op" where
  "run_rule env rule e x =
     (if ev_depth e > max_automation_depth
        then skip_execution (ex_id x) ''loop_guard'' (Some (''Automation chain depth exceeded '' @ dec_int max_automation_depth))
      else if \<not> ar_enabled rule \<or> ar_deleted_at rule \<noteq> None
        then skip_execution (ex_id x) ''automation_disabled'' (Some ''Automation is disabled'')
      else
        bind_op (reads (\<lambda>t. validate_runtime_permission t rule e)) (\<lambda>allowed. bind_op (of_res allowed) (\<lambda>(run_as, permission, rec).
        bind_op (reads (select t_fields (\<lambda>f. fld_table f = ar_table rule))) (\<lambda>flds.
        let record_data = (case rec of Some r \<Rightarrow> rec_data r | None \<Rightarrow> (case ev_after e of None \<Rightarrow> [] | Some d \<Rightarrow> d));
            conditions = ar_conditions rule in
        if py_truth (dget conditions ''items'') \<and> record_data = []
          then skip_execution (ex_id x) ''condition_record_missing'' (Some ''Conditions require a record context'')
        else
          bind_op (of_res (evaluate_conditions (en_float env) (en_time env) flds record_data conditions)) (\<lambda>met.
          if \<not> met then skip_execution (ex_id x) ''conditions_not_met'' None
          else
            then_op (run_actions x (\<lambda>action index. execute_action env rule x e action index run_as permission rec)
              (ex_results x) (enumerate 0 (ar_actions rule)))
              (finish_execution x))))))"

definition retry_delay_seconds :: "int \<Rightarrow> int" where
  "retry_delay_seconds attempt = min 300 (5 * 2 ^ nat (max 0 ((if attempt = 0 then 1 else attempt) - 1)))"

definition seconds :: "int \<Rightarrow> int" where
  "seconds n = n * 1000000"

definition notify_final_failure :: "automation_rule \<Rightarrow> automation_event \<Rightarrow> string \<Rightarrow> string option \<Rightarrow> unit op" where
  "notify_final_failure rule e execution_id code =
     (case ar_run_as rule of
        None \<Rightarrow> ret ()
      | Some u \<Rightarrow>
          catch
            (bind_op (stage_notification
               \<lparr>nq_recipient = u, nq_type = ''automation_failed'', nq_actor = None, nq_ws = Some (ar_ws rule),
                nq_table = Some (ar_table rule), nq_record = ev_record e, nq_comment = None,
                nq_event = ''automation-failed:'' @ execution_id, nq_dedupe = ''automation-failed:'' @ execution_id,
                nq_payload = [(''automationId'', PStr (ar_id rule)), (''executionId'', PStr execution_id),
                  (''errorCode'', case code of None \<Rightarrow> PNone | Some c \<Rightarrow> PStr c)]\<rparr>)
             (\<lambda>_. commit))
            (\<lambda>exc. if requires_session_rollback exc then rollback else ret ()))"

text \<open>The \<open>except\<close> block: the failure is recorded, and retried or final.\<close>

definition failed_execution :: "exn \<Rightarrow> int \<Rightarrow> int \<Rightarrow> string list \<Rightarrow> automation_execution \<Rightarrow> automation_execution" where
  "failed_execution exc retries now ids y =
     (let succeeded = list_ex (\<lambda>r. ax_status r = ''succeeded'') (ex_results y);
          z = y\<lparr>ex_error_code := Some (error_code exc), ex_error_message := Some (take 1000 (exn_msg exc)), ex_change_sets := ids\<rparr> in
      if ex_attempt y \<le> retries
      then z\<lparr>ex_status := ''retry_scheduled'', ex_next_retry := Some (now + seconds (retry_delay_seconds (ex_attempt y))),
        ex_finished_at := None\<rparr>
      else z\<lparr>ex_status := (if succeeded then ''partially_failed'' else ''failed''), ex_next_retry := None, ex_finished_at := Some now\<rparr>)"

definition recover_execution :: "automation_rule \<Rightarrow> automation_event \<Rightarrow> automation_execution \<Rightarrow> exn \<Rightarrow> unit op" where
  "recover_execution rule e x exc =
     then_op (if requires_session_rollback exc then rollback else ret ())
     (bind_op (the_row (\<lambda>t. find_exec t (ex_id x))) (\<lambda>y.
      bind_op (reads (\<lambda>t. change_set_ids t (ex_trace y))) (\<lambda>ids.
      bind_op utcnow (\<lambda>now.
      let z = failed_execution exc (ar_max_retries rule) now ids y in
      then_op (set_exec (ex_id x) (\<lambda>_. z))
      (bind_op utcnow (\<lambda>updated.
       then_op (set_exec (ex_id x) (\<lambda>q. q\<lparr>ex_updated_at := updated\<rparr>))
       (then_op commit
        (if ex_status z \<in> {''failed'', ''partially_failed''}
         then notify_final_failure rule e (ex_id x) (ex_error_code z) else ret ()))))))))"

definition execute_rule_for_event :: "env \<Rightarrow> automation_rule \<Rightarrow> automation_event \<Rightarrow> automation_execution op" where
  "execute_rule_for_event env rule e =
     bind_op (get_or_create_execution rule e) (\<lambda>(x, created).
     if \<not> created \<and> ex_status x \<in> set terminal_statuses then ret x
     else if \<not> created \<and> ex_status x \<notin> set retryable_statuses then ret x
     else
       then_op (start_execution (ex_id x))
       (then_op (catch (run_rule env rule e x) (recover_execution rule e x))
        (the_row (\<lambda>t. find_exec t (ex_id x)))))"

end
