(* ===== verification/AutoWorker.thy ===== *)
theory AutoWorker
  imports AutoRun
begin

text \<open>
  The worker's cycle (\<open>automation/runtime.py\<close>): events and retries are claimed in batches with a
  lease, dispatched to the rules they match and settled; manual runs, previews and the reading of
  executions (\<open>automation/executor.py\<close>).
\<close>

declare split_paired_All [simp del] split_paired_Ex [simp del]

section \<open>Claiming events\<close>

definition event_lease_seconds :: int where "event_lease_seconds = 300"
definition retry_lease_seconds :: int where "retry_lease_seconds = 300"

definition set_event :: "(automation_event \<Rightarrow> bool) \<Rightarrow> (automation_event \<Rightarrow> automation_event) \<Rightarrow> unit op" where
  "set_event P f = update_rows t_events_update P f"

definition claimable :: "int \<Rightarrow> automation_event \<Rightarrow> bool" where
  "claimable now e \<longleftrightarrow> (ev_status e = ''queued'' \<or> ev_status e = ''processing'') \<and> ev_available_at e \<le> now"

definition claimed :: "int \<Rightarrow> automation_event \<Rightarrow> automation_event" where
  "claimed lease e = e\<lparr>ev_status := ''processing'', ev_available_at := lease, ev_error_code := None, ev_error_message := None\<rparr>"

definition claim_events :: "int \<Rightarrow> int \<Rightarrow> automation_event list op" where
  "claim_events now limit =
     (let safe_limit = nat (max 1 (min 500 limit)); lease = now + seconds event_lease_seconds in
      bind_op (reads (\<lambda>t. take safe_limit (sort_key (\<lambda>e. (ev_available_at e, ev_created_at e)) (select t_events (claimable now) t)))) (\<lambda>es.
      then_op (set_event (\<lambda>e. ev_id e \<in> ev_id ` set es) (claimed lease))
      (then_op (if es = [] then ret () else commit) (ret (map (claimed lease) es)))))"

section \<open>Dispatching one event\<close>

definition keep_matching :: "('a \<Rightarrow> bool res) \<Rightarrow> 'a list \<Rightarrow> 'a list res" where
  "keep_matching f xs = bind_res (map_res f xs) (\<lambda>bs. Inr (map fst (filter snd (zip xs bs))))"

definition rules_for_event :: "tables \<Rightarrow> automation_event \<Rightarrow> automation_rule list res" where
  "rules_for_event t e = keep_matching (\<lambda>r. trigger_matches r e) (sort_key ar_id
     (select t_rules (\<lambda>r. ar_table r = ev_table e \<and> ar_enabled r \<and> ar_deleted_at r = None
        \<and> ar_created_at r \<le> ev_created_at e \<and> (has_text (ev_target e) \<longrightarrow> ev_target e = Some (ar_id r))) t))"

definition persist_failed_action_result :: "dict list \<Rightarrow> automation_execution \<Rightarrow> automation_execution op" where
  "persist_failed_action_result actions x =
     (if ex_status x \<notin> {''retry_scheduled'', ''failed'', ''partially_failed''} then ret x
      else if ex_error_code x = Some ''permission_denied'' then ret x
      else case List.find (\<lambda>i. \<not> succeeded_at (ex_results x) i) [0..<length actions] of
        None \<Rightarrow> ret x
      | Some i \<Rightarrow>
          let results = put_result (ex_results x) (failure_result i (actions ! i)
                (case ex_error_code x of None \<Rightarrow> ''action_error'' | Some c \<Rightarrow> if c = [] then ''action_error'' else c)
                (case ex_error_message x of None \<Rightarrow> ''Automation action failed''
                 | Some m \<Rightarrow> if m = [] then ''Automation action failed'' else m)) in
          bind_op utcnow (\<lambda>now.
          then_op (set_exec (ex_id x) (\<lambda>y. y\<lparr>ex_results := results, ex_updated_at := now\<rparr>))
          (then_op commit (the_row (\<lambda>t. find_exec t (ex_id x))))))"

definition find_rule :: "tables \<Rightarrow> string \<Rightarrow> automation_rule option" where
  "find_rule t i = select_first t_rules (\<lambda>r. ar_id r = i) t"

definition dispatch_rule :: "env \<Rightarrow> string \<Rightarrow> string \<times> dict list \<Rightarrow> automation_execution op" where
  "dispatch_rule env event_id = (\<lambda>(rule_id, actions).
     bind_op (reads (\<lambda>t. (find_rule t rule_id, find_event t event_id))) (\<lambda>found.
     case found of
       (Some rule, Some e) \<Rightarrow> bind_op (execute_rule_for_event env rule e) (persist_failed_action_result actions)
     | _ \<Rightarrow> throw (Exn RuntimeError ''Automation dispatch context disappeared'')))"

record event_result =
  er_event :: string
  er_matched :: nat
  er_executions :: "automation_execution list"
  er_error :: "string option"

definition settle_event :: "string \<Rightarrow> unit op" where
  "settle_event event_id =
     bind_op (the_row (\<lambda>t. find_event t event_id)) (\<lambda>_.
     bind_op utcnow (\<lambda>now.
     then_op (set_event (\<lambda>e. ev_id e = event_id) (\<lambda>e. e\<lparr>ev_status := ''processed'', ev_processed_at := Some now,
       ev_available_at := now, ev_error_code := None, ev_error_message := None\<rparr>)) commit))"

definition dispatch_event :: "env \<Rightarrow> automation_event \<Rightarrow> event_result op" where
  "dispatch_event env e =
     bind_op (reads (\<lambda>t. rules_for_event t e)) (\<lambda>found. bind_op (of_res found) (\<lambda>rules.
     let matched = map (\<lambda>r. (ar_id r, ar_actions r)) rules in
     bind_op (map_op (dispatch_rule env (ev_id e)) matched) (\<lambda>xs.
     then_op (settle_event (ev_id e))
       (ret \<lparr>er_event = ev_id e, er_matched = length matched, er_executions = xs, er_error = None\<rparr>))))"

definition requeue_event :: "string \<Rightarrow> exn \<Rightarrow> event_result op" where
  "requeue_event event_id exc =
     then_op rollback
     (bind_op (reads (\<lambda>t. find_event t event_id)) (\<lambda>current.
      then_op (if current = None then ret ()
        else bind_op utcnow (\<lambda>now.
          then_op (set_event (\<lambda>e. ev_id e = event_id) (\<lambda>e. e\<lparr>ev_status := ''queued'', ev_error_code := Some ''dispatch_error'',
            ev_error_message := Some (take 1000 (exn_msg exc)), ev_processed_at := None, ev_available_at := now + seconds 30\<rparr>))
            commit))
        (ret \<lparr>er_event = event_id, er_matched = 0, er_executions = [], er_error = Some (exn_msg exc)\<rparr>)))"

definition process_event :: "env \<Rightarrow> automation_event \<Rightarrow> event_result op" where
  "process_event env e = catch (dispatch_event env e) (requeue_event (ev_id e))"

section \<open>Retries\<close>

definition fail_retry_context :: "string \<Rightarrow> int \<Rightarrow> string \<Rightarrow> string \<Rightarrow> unit op" where
  "fail_retry_context execution_id now code message =
     bind_op (the_row (\<lambda>t. find_exec t execution_id)) (\<lambda>_.
     then_op (set_exec execution_id (\<lambda>x. x\<lparr>ex_status := ''failed'', ex_error_code := Some code,
       ex_error_message := Some (take 1000 message), ex_finished_at := Some now, ex_next_retry := None, ex_updated_at := now\<rparr>))
       commit)"

definition due_retries :: "tables \<Rightarrow> int \<Rightarrow> automation_execution list" where
  "due_retries t now = sort_key (\<lambda>x. (the (ex_next_retry x), ex_created_at x))
     (select t_execs (\<lambda>x. ex_status x = ''retry_scheduled'' \<and> (case ex_next_retry x of None \<Rightarrow> False | Some n \<Rightarrow> n \<le> now)) t)"

definition retry_one :: "env \<Rightarrow> int \<Rightarrow> automation_execution \<Rightarrow> unit op" where
  "retry_one env now x =
     bind_op (reads (\<lambda>t. (find_rule t (ex_rule x), find_event t (ex_event x)))) (\<lambda>found.
     case found of
       (Some rule, Some e) \<Rightarrow>
         if rule_version rule \<noteq> (if ex_rule_version x = 0 then 1 else ex_rule_version x)
         then fail_retry_context (ex_id x) now ''automation_version_changed''
           ''Automation changed after this execution; retry requires a fresh run''
         else bind_op (execute_rule_for_event env rule e) (\<lambda>y.
              then_op (persist_failed_action_result (ar_actions rule) y) (ret ()))
     | _ \<Rightarrow> fail_retry_context (ex_id x) now ''retry_context_missing'' ''Automation rule or trigger event is missing'')"

definition process_due_retries :: "env \<Rightarrow> int \<Rightarrow> int \<Rightarrow> nat op" where
  "process_due_retries env now limit =
     (let safe_limit = nat (max 1 (min 500 limit)); lease = now + seconds retry_lease_seconds in
      bind_op (reads (\<lambda>t. take safe_limit (due_retries t now))) (\<lambda>xs.
      then_op (if xs = [] then ret ()
        else then_op (update_rows t_execs_update (\<lambda>x. ex_id x \<in> ex_id ` set xs)
               (\<lambda>x. x\<lparr>ex_next_retry := Some lease, ex_updated_at := now\<rparr>)) commit)
      (bind_op (map_op (retry_one env now) xs) (\<lambda>finished. ret (length finished)))))"

section \<open>The cycle\<close>

record cycle_result =
  cy_materialized :: nat
  cy_schedule :: scan_result
  cy_retries :: nat
  cy_events :: "event_result list"

definition process_automation_cycle :: "env \<Rightarrow> int \<Rightarrow> int \<Rightarrow> int \<Rightarrow> int option \<Rightarrow> cycle_result op" where
  "process_automation_cycle env event_limit retry_limit schedule_limit now =
     bind_op (case now of Some n \<Rightarrow> ret n | None \<Rightarrow> utcnow) (\<lambda>current.
     bind_op (materialize_record_events_from_changesets (max (event_limit * 4) 100)) (\<lambda>materialized.
     bind_op (scan_due_automations env current schedule_limit) (\<lambda>schedule.
     bind_op (process_due_retries env current retry_limit) (\<lambda>retries.
     bind_op utcnow (\<lambda>later.
     bind_op (claim_events (max current later) event_limit) (\<lambda>es.
     bind_op (map_op (process_event env) es) (\<lambda>results.
       ret \<lparr>cy_materialized = materialized, cy_schedule = schedule, cy_retries = retries, cy_events = results\<rparr>)))))))"

section \<open>Manual runs, previews and reading\<close>

definition execute_manual_automation :: "env \<Rightarrow> int \<Rightarrow> string \<Rightarrow> string option \<Rightarrow> automation_execution op" where
  "execute_manual_automation env user_id automation_id record_id =
     bind_op (reads (\<lambda>t. get_automation t user_id automation_id ''edit'')) (\<lambda>found. bind_op (of_res found) (\<lambda>rule.
     bind_op (reads (\<lambda>t. if has_text record_id then map_option rec_data
         (select_first t_records (\<lambda>r. rec_table r = ar_table rule \<and> rec_id r = the record_id) t) else None)) (\<lambda>after.
     bind_op (new_id ''evt_manual'') (\<lambda>event_id.
     bind_op (queue_synthetic_automation_event
       \<lparr>se_id = event_id, se_ws = ar_ws rule, se_table = ar_table rule, se_target = ar_id rule, se_type = ''manual'',
        se_record = record_id, se_after = after, se_actor = Some user_id, se_source = ''automation_manual''\<rparr>) (\<lambda>e.
     then_op commit
     (bind_op (execute_rule_for_event env rule e) (\<lambda>x.
      bind_op (persist_failed_action_result (ar_actions rule) x) (\<lambda>y.
      bind_op (the_row (\<lambda>t. find_event t event_id)) (\<lambda>_.
      bind_op utcnow (\<lambda>now.
      then_op (set_event (\<lambda>e. ev_id e = event_id) (\<lambda>e. e\<lparr>ev_status := ''processed'', ev_processed_at := Some now, ev_available_at := now\<rparr>))
      (then_op commit (ret y))))))))))))"

record action_summary =
  as_index :: nat
  as_type :: string
  as_fields :: "string list"
  as_notification :: "(string \<times> bool \<times> nat) option"

definition summarize_action :: "nat \<times> dict \<Rightarrow> action_summary res" where
  "summarize_action = (\<lambda>(index, action).
     let ty = action_type action in
     if ty = ''update_record'' \<or> ty = ''create_record'' then
       bind_res (action_fields action) (\<lambda>fs. Inr \<lparr>as_index = index, as_type = ty, as_fields = sort (dkeys fs), as_notification = None\<rparr>)
     else if ty = ''notify'' then
       bind_res (py_iter (py_or (dget action ''recipientUserIds'') (PList []))) (\<lambda>us.
         Inr \<lparr>as_index = index, as_type = ty, as_fields = [], as_notification =
           Some (py_str (py_or (dget action ''notificationType'') (PStr ''automation'')), py_truth (dget action ''recipientFieldId''), length us)\<rparr>)
     else Inr \<lparr>as_index = index, as_type = ty, as_fields = [], as_notification = None\<rparr>)"

record rule_preview =
  pr_rule :: string
  pr_version :: int
  pr_record :: "string option"
  pr_match :: bool
  pr_execute :: bool
  pr_required :: string
  pr_actions :: "action_summary list"

definition preview_rule_for_record :: "env \<Rightarrow> tables \<Rightarrow> automation_rule \<Rightarrow> string option \<Rightarrow> rule_preview res" where
  "preview_rule_for_record env t rule record_id =
     (case ar_run_as rule of
        None \<Rightarrow> Inl (Exn PermissionError ''Automation run-as user no longer exists'')
      | Some u \<Rightarrow>
          let permission = get_effective_permission_for_item t u (ar_table rule);
              required = required_permission_for_actions (ar_actions rule) in
          if \<not> permission_allows permission required
            then Inl (Exn PermissionError (''Automation run-as user lacks required permission: '' @ required))
          else
            bind_res (if has_text record_id then bind_res (require_record_access t (ar_table rule) (the record_id) u permission) (\<lambda>r. Inr (rec_data r))
                      else Inr []) (\<lambda>record_data.
            let conditions = ar_conditions rule in
            bind_res (if record_data \<noteq> [] \<or> \<not> py_truth (dget conditions ''items'')
                      then evaluate_conditions (en_float env) (en_time env) (select t_fields (\<lambda>f. fld_table f = ar_table rule) t) record_data conditions
                      else Inr False) (\<lambda>met.
            bind_res (map_res summarize_action (enumerate 0 (ar_actions rule))) (\<lambda>summaries.
              Inr \<lparr>pr_rule = ar_id rule, pr_version = rule_version rule, pr_record = (if has_text record_id then record_id else None),
                   pr_match = met, pr_execute = (ar_enabled rule \<and> met), pr_required = required, pr_actions = summaries\<rparr>))))"

definition preview_automation :: "env \<Rightarrow> tables \<Rightarrow> int \<Rightarrow> string \<Rightarrow> string option \<Rightarrow> rule_preview res" where
  "preview_automation env t user_id automation_id record_id =
     bind_res (get_automation t user_id automation_id ''read'') (\<lambda>rule. preview_rule_for_record env t rule record_id)"

record execution_page =
  pg_items :: "automation_execution list"
  pg_offset :: int
  pg_limit :: int
  pg_more :: bool

definition list_executions :: "tables \<Rightarrow> int \<Rightarrow> string \<Rightarrow> string option \<Rightarrow> int \<Rightarrow> int \<Rightarrow> execution_page res" where
  "list_executions t user_id automation_id status offset limit =
     bind_res (get_automation t user_id automation_id ''read'') (\<lambda>_.
     let safe_offset = max 0 offset; safe_limit = max 1 (min 200 limit);
         found = rev (sort_key (\<lambda>x. (ex_created_at x, ex_id x)) (select t_execs
           (\<lambda>x. ex_rule x = automation_id \<and> (has_text status \<longrightarrow> Some (ex_status x) = status)) t));
         rows = take (nat (safe_limit + 1)) (drop (nat safe_offset) found) in
     Inr \<lparr>pg_items = take (nat safe_limit) rows, pg_offset = safe_offset, pg_limit = safe_limit,
          pg_more = (safe_limit < int (length rows))\<rparr>)"

definition get_execution :: "tables \<Rightarrow> int \<Rightarrow> string \<Rightarrow> automation_execution res" where
  "get_execution t user_id execution_id =
     (case find_exec t execution_id of
        None \<Rightarrow> Inl (Exn ValueError ''Automation execution not found'')
      | Some x \<Rightarrow> bind_res (get_automation t user_id (ex_rule x) ''read'') (\<lambda>_. Inr x))"

definition retry_execution :: "int \<Rightarrow> string \<Rightarrow> automation_execution op" where
  "retry_execution user_id execution_id =
     bind_op (reads (\<lambda>t. get_execution t user_id execution_id)) (\<lambda>found. bind_op (of_res found) (\<lambda>x.
     bind_op (reads (\<lambda>t. get_automation t user_id (ex_rule x) ''edit'')) (\<lambda>allowed. bind_op (of_res allowed) (\<lambda>_.
     then_op (throw_if (ex_status x \<notin> {''failed'', ''partially_failed''}) (Exn ValueError ''Only failed automation executions can be retried''))
     (bind_op utcnow (\<lambda>now.
      bind_op utcnow (\<lambda>updated.
      then_op (set_exec execution_id (\<lambda>y. y\<lparr>ex_status := ''retry_scheduled'', ex_next_retry := Some now, ex_finished_at := None,
        ex_error_code := None, ex_error_message := None, ex_updated_at := updated\<rparr>))
      (then_op commit (the_row (\<lambda>t. find_exec t execution_id))))))))))"

end
