(* ===== verification/AutoProps.thy ===== *)
theory AutoProps
  imports AutoWorker
begin

text \<open>
  What the automation engine guarantees: a run always settles its execution within the retry
  bound, an action that has succeeded is not invoked again, chains of automations end, claims are
  exclusive, a change becomes exactly one event.
\<close>

declare split_paired_All [simp del] split_paired_Ex [simp del]

section \<open>What the actions leave alone\<close>

lemma execs_frame:
  assumes "\<And>f t. t_execs (upd f t) = t_execs t"
  shows "keeps (\<lambda>t. P (t_execs t)) (insert_row get upd key r)" "keeps (\<lambda>t. P (t_execs t)) (update_rows upd Q g)"
    "keeps (\<lambda>t. P (t_execs t)) (delete_rows upd Q)" "keeps (\<lambda>t. P (t_execs t)) (insert_nested get upd clash r)"
  using assms by (auto simp: keeps_def op_eval insert_row_def insert_nested_def)

lemmas execs_keep = execs_frame[of t_fields_update, simplified] execs_frame[of t_records_update, simplified]
  execs_frame[of t_views_update, simplified] execs_frame[of t_filters_update, simplified]
  execs_frame[of t_sorts_update, simplified] execs_frame[of t_groups_update, simplified] execs_frame[of t_sets_update, simplified]
  execs_frame[of t_changes_update, simplified] execs_frame[of t_notes_update, simplified]

lemma creation_fields_keep_execs: "keeps (\<lambda>t. P (t_execs t)) (get_record_creation_fields T st)"
proof -
  have "keeps (\<lambda>t. P (t_execs t)) (init_table_db T st)"
    unfolding init_table_db_def init_content_def init_record_def init_filter_def init_sort_def new_record_id_def millis_def
      init_field_def init_view_def Let_def
    by (auto intro!: keeps_intro execs_keep split: prod.splits pyval.splits)
  then show ?thesis unfolding get_record_creation_fields_def by (auto intro!: keeps_intro)
qed

lemma record_parts_keep_execs:
  "keeps (\<lambda>t. P (t_execs t)) (allocate_fields flds n)"
  "keeps (\<lambda>t. P (t_execs t)) (add_record tbl c mx flds autos ir)"
  "keeps (\<lambda>t. P (t_execs t)) (patch_record rs ps i)"
  "keeps (\<lambda>t. P (t_execs t)) (append_change_set rq items)"
proof -
  show "keeps (\<lambda>t. P (t_execs t)) (allocate_fields flds n)"
    by (induction flds) (auto intro!: keeps_intro execs_keep split: prod.splits)
  show "keeps (\<lambda>t. P (t_execs t)) (add_record tbl c mx flds autos ir)"
    unfolding add_record_def Let_def by (auto intro!: keeps_intro execs_keep split: prod.splits)
  show "keeps (\<lambda>t. P (t_execs t)) (patch_record rs ps i)"
    unfolding patch_record_def write_record_def Let_def by (auto intro!: keeps_intro execs_keep split: option.splits)
  show "keeps (\<lambda>t. P (t_execs t)) (append_change_set rq items)"
    unfolding append_change_set_def add_change_item_def Let_def
    by (auto intro!: keeps_intro execs_keep split: option.splits prod.splits)
qed

lemma record_writes_keep_execs:
  "keeps (\<lambda>t. P (t_execs t)) (apply_record_patches_checked T ps u a b c)"
  "keeps (\<lambda>t. P (t_execs t)) (create_records_with_data_checked pa ev T ds u a b c bl)"
  unfolding apply_record_patches_checked_def create_records_with_data_checked_def apply_record_patches_def
    create_records_with_data_def normalized_patch_def Let_def
  by (auto intro!: keeps_intro execs_keep creation_fields_keep_execs record_parts_keep_execs
      split: option.splits prod.splits pyval.splits)

lemma insert_or_find_keeps: "keeps I (insert_nested get upd clash r) \<Longrightarrow> keeps I (insert_or_find get upd clash r q)"
  unfolding insert_or_find_def by (auto intro!: keeps_intro split: option.splits)

lemma stage_notification_keeps_execs: "keeps (\<lambda>t. P (t_execs t)) (stage_notification q)"
  unfolding stage_notification_def Let_def
  by (auto intro!: keeps_intro execs_keep insert_or_find_keeps split: option.splits)

lemma actions_keep_execs: "keeps (\<lambda>t. P (t_execs t)) (execute_action env rule x e action index u p rec)"
  unfolding execute_action_def execute_notify_action_def Let_def
  by (auto intro!: keeps_intro record_writes_keep_execs stage_notification_keeps_execs split: option.splits prod.splits)

section \<open>Every run settles its execution\<close>

text \<open>The row of an execution, found by its id and by its key, with its number of attempts.\<close>

definition exec_matches :: "automation_rule \<Rightarrow> automation_event \<Rightarrow> automation_execution \<Rightarrow> bool" where
  "exec_matches rule e q \<longleftrightarrow> ex_rule q = ar_id rule \<and> ex_rule_version q = rule_version rule \<and> ex_event q = ev_id e"

definition run_row :: "automation_rule \<Rightarrow> automation_event \<Rightarrow> string \<Rightarrow> automation_execution \<Rightarrow> automation_execution list \<Rightarrow> bool" where
  "run_row rule e i y xs \<longleftrightarrow> List.find (\<lambda>q. ex_id q = i) xs = Some y \<and> List.find (exec_matches rule e) xs = Some y"

abbreviation has_run :: "automation_rule \<Rightarrow> automation_event \<Rightarrow> string \<Rightarrow> int \<Rightarrow> tables \<Rightarrow> bool" where
  "has_run rule e i n \<equiv> (\<lambda>t. (\<lambda>xs. \<exists>y. run_row rule e i y xs \<and> ex_attempt y = n) (t_execs t))"

lemma find_map_same:
  "(\<And>q. P (f q) = P q) \<Longrightarrow> List.find P (map f xs) = map_option f (List.find P xs)"
  by (induction xs) auto

definition keeps_key :: "(automation_execution \<Rightarrow> automation_execution) \<Rightarrow> bool" where
  "keeps_key f \<longleftrightarrow> (\<forall>q. ex_id (f q) = ex_id q \<and> ex_rule (f q) = ex_rule q \<and> ex_rule_version (f q) = ex_rule_version q
     \<and> ex_event (f q) = ex_event q)"

lemma run_row_map:
  assumes "keeps_key f" "run_row rule e i y xs"
  shows "run_row rule e i (if ex_id y = j then f y else y) (map (\<lambda>q. if ex_id q = j then f q else q) xs)"
proof -
  let ?g = "\<lambda>q. if ex_id q = j then f q else q"
  have "ex_id (?g q) = ex_id q" "exec_matches rule e (?g q) = exec_matches rule e q" for q
    using assms(1) by (auto simp: keeps_key_def exec_matches_def)
  then show ?thesis using assms(2) unfolding run_row_def
    by (subst (1 2) find_map_same) auto
qed

lemma run_row_id: "run_row rule e i y xs \<Longrightarrow> ex_id y = i"
  by (auto simp: run_row_def dest: find_SomeD)

lemma run_row_set: "keeps_key f \<Longrightarrow> run_row rule e i y xs \<Longrightarrow> run_row rule e i (f y) (map (\<lambda>q. if ex_id q = i then f q else q) xs)"
  using run_row_map[of f rule e i y xs i] run_row_id[of rule e i y xs] by simp

lemma run_row_const:
  assumes "run_row rule e i y xs"
    and "ex_id z = ex_id y \<and> ex_rule z = ex_rule y \<and> ex_rule_version z = ex_rule_version y \<and> ex_event z = ex_event y"
  shows "run_row rule e i z (map (\<lambda>q. if ex_id q = i then z else q) xs)"
proof -
  have y: "ex_id y = i" "exec_matches rule e y" using assms(1) by (auto simp: run_row_def dest: find_SomeD)
  then have z: "ex_id z = i" "exec_matches rule e z" using assms(2) by (auto simp: exec_matches_def)
  show ?thesis using assms(1) by (induction xs) (auto simp: run_row_def z y split: if_splits)
qed

lemma set_exec_keeps:
  assumes "keeps_key f" "\<And>q. ex_attempt (f q) = ex_attempt q"
  shows "keeps (has_run rule e i n) (set_exec j f)"
proof -
  have "\<exists>y'. run_row rule e i y' (map (\<lambda>q. if ex_id q = j then f q else q) xs) \<and> ex_attempt y' = n"
    if "run_row rule e i y xs" "ex_attempt y = n" for y xs
    by (rule exI, rule conjI, rule run_row_map[OF assms(1) that(1)]) (use assms(2) that(2) in auto)
  then show ?thesis by (fastforce simp: keeps_def set_exec_def op_eval)
qed

lemma actions_keep_run: "keeps (has_run rule e i n) (execute_action env rule x ev a j u p rec)"
  by (rule actions_keep_execs[of "\<lambda>xs. \<exists>y. run_row rule e i y xs \<and> ex_attempt y = n"])

lemma run_actions_keep:
  "(\<And>a j. keeps (has_run rule e i n) (exe a j)) \<Longrightarrow> keeps (has_run rule e i n) (run_actions x exe results as)"
proof (induction as arbitrary: results)
  case Nil
  then show ?case by (simp add: keeps_basic)
next
  case (Cons a as)
  then have "keeps (has_run rule e i n) (run_action x exe results a)"
    unfolding run_action_def Let_def
    by (auto intro!: keeps_intro set_exec_keeps simp: keeps_key_def split: prod.splits)
  with Cons show ?case by (auto intro!: keeps_intro)
qed

subsection \<open>The try block\<close>

definition settled :: "automation_rule \<Rightarrow> automation_event \<Rightarrow> automation_execution \<Rightarrow> session \<Rightarrow> bool" where
  "settled rule e y s \<longleftrightarrow> run_row rule e (ex_id y) y (t_execs (work s)) \<and> run_row rule e (ex_id y) y (t_execs (committed s))"

text \<open>A step that, started on a stored row, ends with the row settled or with an error and the row still there.\<close>

definition settles :: "automation_rule \<Rightarrow> automation_event \<Rightarrow> string \<Rightarrow> int \<Rightarrow> unit op \<Rightarrow> bool" where
  "settles rule e i n m \<longleftrightarrow> (\<forall>s r s'. has_run rule e i n (work s) \<longrightarrow> has_run rule e i n (committed s) \<longrightarrow> m s = (r, s') \<longrightarrow>
     (case r of Inr _ \<Rightarrow> \<exists>y. ex_id y = i \<and> ex_attempt y = n \<and> ex_status y \<in> {''skipped'', ''succeeded''} \<and> settled rule e y s'
      | Inl _ \<Rightarrow> has_run rule e i n (work s') \<and> has_run rule e i n (committed s')))"

lemma settles_bind: "keeps (has_run rule e i n) m \<Longrightarrow> (\<And>x. settles rule e i n (f x)) \<Longrightarrow> settles rule e i n (bind_op m f)"
proof -
  assume m: "keeps (has_run rule e i n) m" and f: "\<And>x. settles rule e i n (f x)"
  show ?thesis unfolding settles_def
  proof (intro allI impI)
    fix s r s'
    assume w: "has_run rule e i n (work s)" and c: "has_run rule e i n (committed s)" and run: "bind_op m f s = (r, s')"
    obtain q s1 where ms: "m s = (q, s1)" by (cases "m s") auto
    from keepsD[OF m ms w c] have s1: "has_run rule e i n (work s1)" "has_run rule e i n (committed s1)" by blast+
    show "case r of Inr _ \<Rightarrow> \<exists>y. ex_id y = i \<and> ex_attempt y = n \<and> ex_status y \<in> {''skipped'', ''succeeded''} \<and> settled rule e y s'
      | Inl _ \<Rightarrow> has_run rule e i n (work s') \<and> has_run rule e i n (committed s')"
    proof (cases q)
      case (Inl exc)
      with run ms have "r = Inl exc" "s' = s1" by (auto simp: bind_op_eval)
      with s1 show ?thesis by simp
    next
      case (Inr x)
      with run ms have "f x s1 = (r, s')" by (simp add: bind_op_eval)
      with f[of x] s1 show ?thesis unfolding settles_def by blast
    qed
  qed
qed

lemma settles_then: "keeps (has_run rule e i n) m \<Longrightarrow> settles rule e i n k \<Longrightarrow> settles rule e i n (then_op m k)"
  unfolding then_op_def by (rule settles_bind)

lemma settles_set_commit:
  assumes "keeps_key f" "\<And>q. ex_attempt (f q) = ex_attempt q" "\<And>q. ex_status (f q) \<in> {''skipped'', ''succeeded''}"
  shows "settles rule e i n (then_op (set_exec i f) commit)"
proof -
  have "\<exists>y'. ex_id y' = i \<and> ex_attempt y' = ex_attempt y \<and> ex_status y' \<in> {''skipped'', ''succeeded''}
      \<and> run_row rule e (ex_id y') y' (map (\<lambda>q. if ex_id q = i then f q else q) xs)" if "run_row rule e i y xs" for y xs
    using run_row_set[OF assms(1) that] assms(1,2,3) run_row_id[OF that]
    by (intro exI[of _ "f y"]) (auto simp: keeps_key_def)
  then show ?thesis by (fastforce simp: settles_def settled_def set_exec_def op_eval)
qed

lemma skip_settles: "settles rule e i n (skip_execution i c m)"
  unfolding skip_execution_def by (intro settles_bind settles_set_commit keeps_intro) (auto simp: keeps_key_def)

lemma finish_settles: "settles rule e (ex_id x) n (finish_execution x)"
  unfolding finish_execution_def by (intro settles_bind settles_set_commit keeps_intro) (auto simp: keeps_key_def)

lemma run_rule_settles: "settles rule e (ex_id x) n (run_rule env rule e x)"
proof -
  have acts: "keeps (has_run rule e (ex_id x) n) (run_actions x exe rs as)"
    if "\<And>a j. exe a j = execute_action env rule x e a j u p rec" for exe rs as u p rec
    by (rule run_actions_keep) (simp only: that actions_keep_run)
  show ?thesis unfolding run_rule_def Let_def
    by (auto intro!: settles_bind settles_then skip_settles finish_settles keeps_intro acts split: prod.splits)
qed

subsection \<open>The except block\<close>

lemma retry_delay_bounds: "5 \<le> retry_delay_seconds n \<and> retry_delay_seconds n \<le> 300"
  by (simp add: retry_delay_seconds_def)

lemma notify_total: "\<exists>s'. notify_final_failure rule e i c s = (Inr (), s')"
  by (cases "ar_run_as rule") (auto simp: notify_final_failure_def op_eval catch_def split: prod.splits sum.splits)

lemma notify_keeps_settled:
  assumes "settled rule e y s" "notify_final_failure rule ev i c s = (r, s')"
  shows "settled rule e y s'"
proof -
  have "keeps (\<lambda>t. run_row rule e (ex_id y) y (t_execs t)) (notify_final_failure rule ev i c)"
    unfolding notify_final_failure_def
    by (auto intro!: keeps_intro stage_notification_keeps_execs[of "run_row rule e (ex_id y) y"] split: option.splits)
  from keepsD[OF this assms(2)] assms(1) show ?thesis by (simp add: settled_def)
qed

text \<open>What a run that has failed may look like.\<close>

definition failed_ok :: "automation_rule \<Rightarrow> automation_execution \<Rightarrow> session \<Rightarrow> bool" where
  "failed_ok rule y s \<longleftrightarrow> (ex_status y \<in> {''failed'', ''partially_failed''} \<and> ar_max_retries rule < ex_attempt y)
     \<or> (ex_status y = ''retry_scheduled'' \<and> ex_attempt y \<le> ar_max_retries rule
        \<and> (\<exists>k d. ex_next_retry y = Some (clock s k + seconds d) \<and> 5 \<le> d \<and> d \<le> 300))"

lemma recover_settles:
  assumes "has_run rule e (ex_id x) n (work s)" "has_run rule e (ex_id x) n (committed s)"
    and "recover_execution rule e x exc s = (r, s')"
  shows "r = Inr () \<and> (\<exists>y. ex_id y = ex_id x \<and> ex_attempt y = n \<and> failed_ok rule y s' \<and> settled rule e y s')"
proof -
  define s0 where "s0 = (if requires_session_rollback exc then s\<lparr>work := committed s\<rparr> else s)"
  obtain y where y: "run_row rule e (ex_id x) y (t_execs (work s0))" and n: "ex_attempt y = n"
    using assms(1,2) by (cases "requires_session_rollback exc") (auto simp: s0_def)
  have roll: "(if requires_session_rollback exc then rollback else ret ()) s = (Inr (), s0)"
    by (simp add: s0_def op_eval)
  have found: "find_exec (work s0) (ex_id x) = Some y"
    using y by (simp add: find_exec_def select_first_def run_row_def)
  define now where "now = clock s0 (clock_pos s0)"
  define z where "z = failed_execution exc (ar_max_retries rule) now (change_set_ids (work s0) (ex_trace y)) y"
  define z2 where "z2 = z\<lparr>ex_updated_at := clock s0 (Suc (clock_pos s0))\<rparr>"
  define t where "t = t_execs_update (map (\<lambda>q. if ex_id q = ex_id x then q\<lparr>ex_updated_at := clock s0 (Suc (clock_pos s0))\<rparr> else q))
    (t_execs_update (map (\<lambda>q. if ex_id q = ex_id x then z else q)) (work s0))"
  define s1 where "s1 = s0\<lparr>clock_pos := Suc (Suc (clock_pos s0)), work := t, committed := t\<rparr>"
  have zk: "ex_id z = ex_id y \<and> ex_rule z = ex_rule y \<and> ex_rule_version z = ex_rule_version y \<and> ex_event z = ex_event y"
    by (simp add: z_def failed_execution_def Let_def)
  have "run_row rule e (ex_id x) z2 (t_execs t)"
    using run_row_set[OF _ run_row_const[OF y zk], of "\<lambda>q. q\<lparr>ex_updated_at := clock s0 (Suc (clock_pos s0))\<rparr>"]
    by (simp add: keeps_key_def t_def z2_def)
  moreover have id: "ex_id z2 = ex_id x" using zk run_row_id[OF y] by (simp add: z2_def)
  ultimately have set1: "settled rule e z2 s1" by (simp add: settled_def s1_def)
  have a: "ex_attempt z2 = n" by (simp add: z2_def z_def n failed_execution_def Let_def)
  have "failed_ok rule z2 s1"
    using retry_delay_bounds[of n] n
    by (auto simp: failed_ok_def z2_def z_def failed_execution_def Let_def s1_def now_def)
  then have ok: "failed_ok rule z2 s2" if "clock s2 = clock s1 \<or> ex_status z2 \<in> {''failed'', ''partially_failed''}" for s2
    using that by (auto simp: failed_ok_def) blast+
  have run: "recover_execution rule e x exc s = (if ex_status z \<in> {''failed'', ''partially_failed''}
      then notify_final_failure rule e (ex_id x) (ex_error_code z) else ret ()) s1"
    unfolding z_def now_def s1_def t_def
    by (simp add: recover_execution_def op_eval roll the_row_def found Let_def set_exec_def cong: if_cong)
  have st: "ex_status z2 = ex_status z" by (simp add: z2_def)
  show ?thesis
  proof (cases "ex_status z \<in> {''failed'', ''partially_failed''}")
    case True
    with run assms(3) have nt: "notify_final_failure rule e (ex_id x) (ex_error_code z) s1 = (r, s')" by simp
    with notify_total[of rule e "ex_id x" "ex_error_code z" s1] have "r = Inr ()" by auto
    with notify_keeps_settled[OF set1 nt] ok[of s'] True st id a show ?thesis by auto
  next
    case False
    with run assms(3) have "r = Inr ()" "s' = s1" by (auto simp: op_eval)
    with set1 ok[of s1] id a show ?thesis by auto
  qed
qed

subsection \<open>A whole run\<close>

lemma exec_for_iff: "exec_for t rule e = List.find (exec_matches rule e) (t_execs t)"
  by (simp add: exec_for_def select_first_def exec_matches_def[abs_def])

lemma run_row_current: "keys_ok t \<Longrightarrow> exec_for t rule e = Some x \<Longrightarrow> run_row rule e (ex_id x) x (t_execs t)"
  using find_distinct_key[of ex_id "t_execs t" x] tex.keys_get[of t]
  by (auto simp: run_row_def exec_for_iff dest: find_SomeD)

lemma start_run:
  assumes "run_row rule e (ex_id x) x (t_execs (work s))"
  obtains s1 where "start_execution (ex_id x) s = (Inr (), s1)" "has_run rule e (ex_id x) (ex_attempt x + 1) (work s1)"
    "has_run rule e (ex_id x) (ex_attempt x + 1) (committed s1)"
proof -
  define f where "f = (\<lambda>y::automation_execution. y\<lparr>ex_status := ''running'', ex_attempt := ex_attempt y + 1, ex_started_at := Some (clock s (clock_pos s)),
       ex_finished_at := None, ex_next_retry := None, ex_error_code := None, ex_error_message := None,
       ex_updated_at := clock s (clock_pos s)\<rparr>)"
  have "keeps_key f" by (simp add: f_def keeps_key_def)
  from run_row_set[OF this assms] have "\<exists>y. run_row rule e (ex_id x) y (map (\<lambda>q. if ex_id q = ex_id x then f q else q) (t_execs (work s)))
      \<and> ex_attempt y = ex_attempt x + 1" by (intro exI[of _ "f x"]) (simp add: f_def)
  then show ?thesis using that unfolding f_def by (simp add: start_execution_def set_exec_def op_eval)
qed

lemma run_progress:
  assumes x: "run_row rule e (ex_id x) x (t_execs (work s))" and st: "ex_status x \<in> set retryable_statuses"
  obtains y s' where "execute_rule_for_event env rule e s = (Inr y, s')" "ex_id y = ex_id x" "ex_attempt y = ex_attempt x + 1"
    "settled rule e y s'" "ex_status y \<in> {''skipped'', ''succeeded''} \<or> failed_ok rule y s'"
proof -
  let ?n = "ex_attempt x + 1"
  have got: "get_or_create_execution rule e s = (Inr (x, False), s)"
    using x by (simp add: get_or_create_execution_def op_eval exec_for_iff run_row_def)
  have st': "ex_status x \<notin> set terminal_statuses" using st by (auto simp: retryable_statuses_def terminal_statuses_def)
  obtain s1 where s1: "start_execution (ex_id x) s = (Inr (), s1)" "has_run rule e (ex_id x) ?n (work s1)"
    "has_run rule e (ex_id x) ?n (committed s1)" using start_run[OF x] .
  obtain r s2 where rr: "run_rule env rule e x s1 = (r, s2)" by (cases "run_rule env rule e x s1") auto
  have "\<exists>y s3. catch (run_rule env rule e x) (recover_execution rule e x) s1 = (Inr (), s3) \<and> ex_id y = ex_id x \<and>
      ex_attempt y = ?n \<and> settled rule e y s3 \<and> (ex_status y \<in> {''skipped'', ''succeeded''} \<or> failed_ok rule y s3)"
  proof (cases r)
    case (Inr u)
    with run_rule_settles[of rule e x ?n env] s1 rr show ?thesis
      unfolding settles_def catch_def by (fastforce split: prod.splits)
  next
    case (Inl exc)
    with run_rule_settles[of rule e x ?n env] s1 rr
    have s2: "has_run rule e (ex_id x) ?n (work s2)" "has_run rule e (ex_id x) ?n (committed s2)"
      unfolding settles_def by fastforce+
    obtain r3 s3 where rc: "recover_execution rule e x exc s2 = (r3, s3)" by (cases "recover_execution rule e x exc s2") auto
    from recover_settles[OF s2 rc] rc rr Inl show ?thesis by (auto simp: catch_def)
  qed
  then obtain y s3 where y: "catch (run_rule env rule e x) (recover_execution rule e x) s1 = (Inr (), s3)" "ex_id y = ex_id x"
      "ex_attempt y = ?n" "settled rule e y s3" "ex_status y \<in> {''skipped'', ''succeeded''} \<or> failed_ok rule y s3" by blast
  have "find_exec (work s3) (ex_id x) = Some y" using y(2,4) by (simp add: settled_def run_row_def find_exec_def select_first_def)
  then have "execute_rule_for_event env rule e s = (Inr y, s3)"
    using got st st' s1(1) y(1) by (simp add: execute_rule_for_event_def then_op_eval bind_op_eval the_row_def basic_eval)
  with y that show ?thesis by blast
qed

text \<open>C14: a run of an execution that is queued or due for a retry always returns, counts exactly one more attempt and leaves the execution durably settled: finished (skipped, succeeded, failed or partially failed), or scheduled for a retry that is 5 to 300 seconds away and only while the attempts do not exceed the rule's retries.\<close>

theorem run_settles_execution:
  assumes "keys_ok (work s)" "exec_for (work s) rule e = Some x" "ex_status x \<in> set retryable_statuses"
  shows "\<exists>y s'. execute_rule_for_event env rule e s = (Inr y, s') \<and> ex_id y = ex_id x \<and> ex_attempt y = ex_attempt x + 1
    \<and> exec_for (committed s') rule e = Some y
    \<and> (ex_status y \<in> set terminal_statuses
       \<or> ex_status y = ''retry_scheduled'' \<and> ex_attempt y \<le> ar_max_retries rule
         \<and> (\<exists>k d. ex_next_retry y = Some (clock s' k + seconds d) \<and> 5 \<le> d \<and> d \<le> 300))"
proof -
  obtain y s' where y: "execute_rule_for_event env rule e s = (Inr y, s')" "ex_id y = ex_id x" "ex_attempt y = ex_attempt x + 1"
    "settled rule e y s'" "ex_status y \<in> {''skipped'', ''succeeded''} \<or> failed_ok rule y s'"
    using run_progress[OF run_row_current[OF assms(1,2)] assms(3)] .
  then have "exec_for (committed s') rule e = Some y" by (simp add: settled_def run_row_def exec_for_iff)
  moreover have "ex_status y \<in> set terminal_statuses \<or> ex_status y = ''retry_scheduled'' \<and> ex_attempt y \<le> ar_max_retries rule
         \<and> (\<exists>k d. ex_next_retry y = Some (clock s' k + seconds d) \<and> 5 \<le> d \<and> d \<le> 300)"
    using y(5) by (auto simp: terminal_statuses_def failed_ok_def)
  ultimately show ?thesis using y by blast
qed

text \<open>The runs of one execution, each when its retry is due.\<close>

fun repeat_runs :: "env \<Rightarrow> automation_rule \<Rightarrow> automation_event \<Rightarrow> nat \<Rightarrow> automation_execution op" where
  "repeat_runs env rule e 0 = the_row (\<lambda>t. exec_for t rule e)"
| "repeat_runs env rule e (Suc n) = bind_op (execute_rule_for_event env rule e) (\<lambda>_. repeat_runs env rule e n)"

lemma runs_end:
  assumes "run_row rule e (ex_id x) x (t_execs (work s))" "ex_status x \<in> set retryable_statuses"
    and "n = nat (ar_max_retries rule + 1 - ex_attempt x)"
  shows "\<exists>k y s'. k \<le> max 1 n \<and> repeat_runs env rule e k s = (Inr y, s') \<and> ex_id y = ex_id x \<and> ex_status y \<in> set terminal_statuses"
  using assms
proof (induction n arbitrary: x s rule: less_induct)
  case (less n)
  obtain y s1 where y: "execute_rule_for_event env rule e s = (Inr y, s1)" "ex_id y = ex_id x" "ex_attempt y = ex_attempt x + 1"
    "settled rule e y s1" "ex_status y \<in> {''skipped'', ''succeeded''} \<or> failed_ok rule y s1"
    using run_progress[OF less.prems(1,2)] .
  show ?case
  proof (cases "ex_status y = ''retry_scheduled''")
    case False
    then have "ex_status y \<in> set terminal_statuses" using y(5) by (auto simp: terminal_statuses_def failed_ok_def)
    moreover have "repeat_runs env rule e 1 s = (Inr y, s1)"
      using y(1,4) by (simp add: op_eval the_row_def exec_for_iff settled_def run_row_def)
    ultimately show ?thesis using y(2) by (intro exI[of _ 1]) auto
  next
    case True
    then have le: "ex_attempt y \<le> ar_max_retries rule" using y(5) by (auto simp: failed_ok_def)
    let ?n = "nat (ar_max_retries rule + 1 - ex_attempt y)"
    have "?n < n" "1 \<le> ?n" using le y(3) less.prems(3) by auto
    moreover have "run_row rule e (ex_id y) y (t_execs (work s1))" using y(4) by (simp add: settled_def)
    ultimately obtain k z s2 where k: "k \<le> max 1 ?n" "repeat_runs env rule e k s1 = (Inr z, s2)" "ex_id z = ex_id y"
        "ex_status z \<in> set terminal_statuses"
      using less.IH[of ?n y s1] True by (auto simp: retryable_statuses_def)
    have "repeat_runs env rule e (Suc k) s = (Inr z, s2)" using y(1) k(2) by (simp add: bind_op_eval)
    moreover have "Suc k \<le> max 1 n" using k(1) \<open>?n < n\<close> \<open>1 \<le> ?n\<close> by auto
    moreover have "ex_id z = ex_id x" using k(3) y(2) by simp
    ultimately show ?thesis using k(4) by (intro exI conjI)
  qed
qed

text \<open>C15: retries end: a queued or scheduled execution is finished after at most as many runs as the rule has retries left, plus one.\<close>

theorem retries_end:
  assumes "keys_ok (work s)" "exec_for (work s) rule e = Some x" "ex_status x \<in> set retryable_statuses"
  shows "\<exists>k y s'. k \<le> max 1 (nat (ar_max_retries rule + 1 - ex_attempt x)) \<and> repeat_runs env rule e k s = (Inr y, s')
    \<and> ex_id y = ex_id x \<and> ex_status y \<in> set terminal_statuses"
  using runs_end[OF run_row_current[OF assms(1,2)] assms(3) refl] .

section \<open>An action that has succeeded is not invoked again\<close>

lemma find_of_filter: "List.find P xs = (case filter P xs of [] \<Rightarrow> None | y # _ \<Rightarrow> Some y)"
  by (induction xs) auto

lemma result_at_put: "result_at (put_result rs r) i = (if i = ax_index r then Some r else result_at rs i)"
proof -
  have "result_at (put_result rs r) i = result_at (r # filter (\<lambda>q. ax_index q \<noteq> ax_index r) rs) i"
    unfolding result_at_def put_result_def find_of_filter[of _ "sort_key _ _"]
    by (subst sort_key_stable) (simp only: find_of_filter[symmetric])
  moreover have "i \<noteq> ax_index r \<Longrightarrow> List.find (\<lambda>q. ax_index q = i) (filter (\<lambda>q. ax_index q \<noteq> ax_index r) rs) = List.find (\<lambda>q. ax_index q = i) rs"
    by (induction rs) auto
  ultimately show ?thesis by (auto simp: result_at_def)
qed

lemma succeeded_at_put:
  "succeeded_at (put_result rs r) i \<longleftrightarrow> (if i = ax_index r then ax_status r = ''succeeded'' else succeeded_at rs i)"
  by (simp add: succeeded_at_def result_at_put)

lemma run_action_result:
  "run_action x exe rs (j, a) s = (Inr rs', s') \<Longrightarrow> (\<forall>i. succeeded_at rs i \<longrightarrow> succeeded_at rs' i) \<and> succeeded_at rs' j"
  by (auto simp: run_action_def Let_def catch_def op_eval set_exec_def succeeded_at_put success_result_def
      split: if_splits prod.splits sum.splits)

text \<open>C16: the loop over the actions never invokes an action whose result is recorded as succeeded: it behaves the same whatever the code of those actions does, in a first run as in a retry.\<close>

theorem succeeded_action_not_invoked:
  assumes "\<And>action i. \<not> succeeded_at results i \<Longrightarrow> exe action i = exe' action i"
  shows "run_actions x exe results as = run_actions x exe' results as"
  using assms
proof (induction as arbitrary: results)
  case Nil
  show ?case by simp
next
  case (Cons ja as)
  obtain j a where ja: "ja = (j, a)" by (cases ja)
  have same: "run_action x exe results ja = run_action x exe' results ja"
    using Cons.prems[of j a] by (simp add: run_action_def ja)
  have "run_actions x exe results (ja # as) s = run_actions x exe' results (ja # as) s" for s
  proof (cases "run_action x exe' results ja s")
    case (Pair r s')
    show ?thesis
    proof (cases r)
      case (Inl e)
      then show ?thesis using Pair by (simp add: bind_op_eval same)
    next
      case (Inr rs')
      with Pair run_action_result[of x exe' results j a s rs' s'] ja
      have "run_actions x exe rs' as = run_actions x exe' rs' as" by (intro Cons.IH Cons.prems) blast
      then show ?thesis using Pair Inr by (simp add: bind_op_eval same)
    qed
  qed
  then show ?case by (rule ext)
qed

section \<open>Claims are exclusive\<close>

lemma take_sort_subset: "y \<in> set (take n (sort_key f xs)) \<Longrightarrow> y \<in> set xs"
  by (metis in_set_takeD set_sort)

lemma claim_run:
  assumes "claim_events now limit s = (r, s')"
  obtains es0 where "set es0 \<subseteq> {e \<in> set (t_events (work s)). claimable now e}" "length es0 \<le> nat (max 1 (min 500 limit))"
    "r = Inr (map (claimed (now + seconds event_lease_seconds)) es0)"
    "t_events (work s') = map (\<lambda>e. if ev_id e \<in> ev_id ` set es0 then claimed (now + seconds event_lease_seconds) e else e) (t_events (work s))"
    "es0 \<noteq> [] \<Longrightarrow> committed s' = work s'"
proof -
  let ?es = "take (nat (max 1 (min 500 limit))) (sort_key (\<lambda>e. (ev_available_at e, ev_created_at e)) (select t_events (claimable now) (work s)))"
  have "set ?es \<subseteq> {e \<in> set (t_events (work s)). claimable now e}"
    by (auto simp: select_def dest!: take_sort_subset)
  then show ?thesis using that[of ?es] assms
    by (auto simp: claim_events_def Let_def op_eval set_event_def split: if_splits)
qed

text \<open>C19: a batch of events a worker claims is at most as large as the limit, consists of events that were queued or whose lease had run out, and belongs to that worker alone: it is durable before any rule runs, and a worker that claims from the stored tables before the lease of 300 seconds has passed gets none of these events; afterwards it may get them, so a crashed worker loses none.\<close>

theorem claims_exclusive:
  assumes "claim_events now limit s = (Inr es, s1)" "es \<noteq> []"
    and "work s2 = committed s1" "claim_events now' limit' s2 = (Inr es', s3)"
  shows "int (length es) \<le> max 1 (min 500 limit)
    \<and> (\<forall>e\<in>set es. \<exists>e0\<in>set (t_events (work s)). ev_id e0 = ev_id e \<and> claimable now e0)
    \<and> (now' < now + seconds event_lease_seconds \<longrightarrow> ev_id ` set es \<inter> ev_id ` set es' = {})
    \<and> (now + seconds event_lease_seconds \<le> now' \<longrightarrow> (\<forall>e\<in>set es. e \<in> set (t_events (committed s1)) \<and> claimable now' e))"
proof -
  let ?l = "now + seconds event_lease_seconds"
  obtain es0 where a: "set es0 \<subseteq> {e \<in> set (t_events (work s)). claimable now e}" "length es0 \<le> nat (max 1 (min 500 limit))"
    "es = map (claimed ?l) es0" "t_events (work s1) = map (\<lambda>e. if ev_id e \<in> ev_id ` set es0 then claimed ?l e else e) (t_events (work s))"
    "es0 \<noteq> [] \<Longrightarrow> committed s1 = work s1"
    using claim_run[OF assms(1)] by blast
  obtain es0' where b: "set es0' \<subseteq> {e \<in> set (t_events (work s2)). claimable now' e}" "es' = map (claimed (now' + seconds event_lease_seconds)) es0'"
    using claim_run[OF assms(4)] by blast
  have c: "t_events (work s2) = map (\<lambda>e. if ev_id e \<in> ev_id ` set es0 then claimed ?l e else e) (t_events (work s))"
    using a(3,4,5) assms(2,3) by simp
  have len: "int (length es) \<le> max 1 (min 500 limit)" using a(2,3) by simp
  have from0: "\<forall>e\<in>set es. \<exists>e0\<in>set (t_events (work s)). ev_id e0 = ev_id e \<and> claimable now e0"
    using a(1,3) by (auto simp: claimed_def)
  have excl: "ev_id ` set es \<inter> ev_id ` set es' = {}" if "now' < ?l"
  proof (rule ccontr)
    assume "ev_id ` set es \<inter> ev_id ` set es' \<noteq> {}"
    then obtain e e' where e: "e \<in> set es0" "e' \<in> set es0'" "ev_id e = ev_id e'"
      using a(3) b(2) by (auto simp: claimed_def)
    have m: "e' \<in> set (t_events (work s2))" "claimable now' e'" using b(1) e(2) by auto
    have i: "ev_id e' \<in> ev_id ` set es0" using e by (metis imageI)
    from m(1) c i obtain q where "e' = claimed ?l q" by (auto simp: image_iff split: if_splits)
    with m(2) have "claimable now' (claimed ?l q)" by simp
    with that show False by (simp add: claimable_def claimed_def)
  qed
  have again: "\<forall>e\<in>set es. e \<in> set (t_events (committed s1)) \<and> claimable now' e" if "?l \<le> now'"
    using a(1,3) c assms(3) that by (auto simp: claimable_def claimed_def)
  from len from0 excl again show ?thesis by blast
qed

section \<open>From a change to its event\<close>

definition change_event :: "change_item \<times> change_set \<Rightarrow> automation_event \<Rightarrow> bool" where
  "change_event = (\<lambda>(i, c) e. ev_source_item e = Some (ci_id i) \<and> ev_table e = ci_table i \<and> ev_record e = Some (ci_entity i)
     \<and> ev_type e = (if ci_before i = None then ''record.created'' else ''record.updated'')
     \<and> ev_before e = ci_before i \<and> ev_after e = ci_after i \<and> ev_created_at e = cs_created c \<and> ev_status e = ''queued'')"

definition short_id :: "change_item \<Rightarrow> bool" where
  "short_id i \<longleftrightarrow> ci_id i \<noteq> [] \<and> length (ci_id i) \<le> 64"

definition on_board :: "tables \<Rightarrow> change_item \<times> change_set \<Rightarrow> bool" where
  "on_board t = (\<lambda>(i, c). has_text (table_workspace t (ci_table i)))"

lemma event_for_item_None: "event_for_item t i = None \<longleftrightarrow> (\<forall>e\<in>set (t_events t). ev_source_item e \<noteq> Some i)"
  by (auto simp: event_for_item_def select_first_def find_None_iff)

lemma strip_event_type [simp]: "strip ''record.created'' = ''record.created''" "strip ''record.updated'' = ''record.updated''"
  by code_simp+

lemma insert_or_find_None:
  "q (work s) = None \<Longrightarrow> insert_or_find get upd clash r q s = (Inr (x, b), s') \<Longrightarrow>
     x = r \<and> b \<and> \<not> list_ex (clash r) (get (work s)) \<and> s' = s\<lparr>work := upd (\<lambda>rs. rs @ [r]) (work s)\<rparr>"
  by (auto simp: insert_or_find_def insert_nested_def catch_def op_eval split: if_splits)

lemma queue_change:
  assumes "queue_record_automation_event (change_of (i, c)) s = (Inr r, s')" "short_id i"
    and "event_for_item (work s) (ci_id i) = None"
  shows "(\<not> on_board (work s) (i, c) \<longrightarrow> r = None \<and> s' = s)
    \<and> (on_board (work s) (i, c) \<longrightarrow> (\<exists>e k. r = Some e \<and> change_event (i, c) e
         \<and> s' = s\<lparr>work := t_events_update (\<lambda>es. es @ [e]) (work s), clock_pos := k\<rparr>))"
proof (cases "on_board (work s) (i, c)")
  case False
  with assms(1) show ?thesis
    by (auto simp: queue_record_automation_event_def change_of_def record_event_types_def op_eval on_board_def Let_def split: if_splits)
next
  case True
  have it: "has_text (Some (ci_id i))" "cut 64 (Some (ci_id i)) = Some (ci_id i)"
    using assms(2) by (auto simp: has_text_def cut_def short_id_def)
  have ty: "(if ci_before i = None then ''record.created'' else ''record.updated'') \<in> set record_event_types"
    by (simp add: record_event_types_def)
  let ?e = "event_row (''evt_change_'' @ ci_id i) (the (table_workspace (work s) (ci_table i))) (change_of (i, c))
     (parent_context (work s) (cs_source c) (cs_trace c)) (clock s (clock_pos s)) (cs_created c)"
  let ?s = "s\<lparr>clock_pos := Suc (clock_pos s)\<rparr>"
  have e: "change_event (i, c) ?e"
    by (auto simp: change_event_def event_row_def change_of_def it split: prod.splits)
  have ws: "has_text (table_workspace (work s) (ci_table i))" using True by (simp add: on_board_def)
  have "rc_type (change_of (i, c)) = (if ci_before i = None then ''record.created'' else ''record.updated'')"
    "rc_item (change_of (i, c)) = Some (ci_id i)" "rc_table (change_of (i, c)) = ci_table i"
    "rc_created (change_of (i, c)) = Some (cs_created c)" "rc_source (change_of (i, c)) = cs_source c"
    "rc_trace (change_of (i, c)) = cs_trace c" by (simp_all add: change_of_def)
  moreover have "strip (if ci_before i = None then ''record.created'' else ''record.updated'')
      = (if ci_before i = None then ''record.created'' else ''record.updated'')" by simp
  ultimately have "queue_record_automation_event (change_of (i, c)) s
      = bind_op (insert_event ?e (\<lambda>t. event_for_item t (ci_id i))) (\<lambda>e. ret (Some e)) ?s"
    using ty it(1) ws assms(3)
    by (simp only: queue_record_automation_event_def Let_def then_op_eval bind_op_eval basic_eval prod.case sum.case
        not_True_eq_False not_False_eq_True if_True if_False option.case option.sel)
  with assms(1) have "bind_op (insert_event ?e (\<lambda>t. event_for_item t (ci_id i))) (\<lambda>e. ret (Some e)) ?s = (Inr r, s')" by simp
  then obtain x where x: "insert_event ?e (\<lambda>t. event_for_item t (ci_id i)) ?s = (Inr x, s')" "r = Some x"
    by (auto simp: bind_op_Inr basic_eval simp del: session.simps)
  then obtain b where b: "insert_or_find t_events t_events_update event_clash ?e (\<lambda>t. event_for_item t (ci_id i)) ?s = (Inr (x, b), s')"
    unfolding insert_event_def bind_op_Inr by (auto simp: basic_eval simp del: session.simps split: prod.splits)
  have "event_for_item (work ?s) (ci_id i) = None" using assms(3) by simp
  from insert_or_find_None[OF this b] have s': "x = ?e" "s' = ?s\<lparr>work := t_events_update (\<lambda>rs. rs @ [?e]) (work ?s)\<rparr>" by blast+
  have "s' = s\<lparr>work := t_events_update (\<lambda>es. es @ [?e]) (work s), clock_pos := Suc (clock_pos s)\<rparr>" by (simp add: s'(2))
  with x(2) s'(1) e True show ?thesis by blast
qed

text \<open>A row that becomes an event: it has new data and its table is on the tree.\<close>

definition to_queue :: "tables \<Rightarrow> change_item \<times> change_set \<Rightarrow> bool" where
  "to_queue t r \<longleftrightarrow> ci_after (fst r) \<noteq> None \<and> on_board t r"

definition queue_pending :: "change_item \<times> change_set \<Rightarrow> automation_event option op" where
  "queue_pending row = (if ci_after (fst row) = None then ret None else queue_record_automation_event (change_of row))"

lemma queue_changes:
  assumes "map_op queue_pending rows s = (Inr found, s')"
    and "distinct (map (\<lambda>r. ci_id (fst r)) rows)" "\<forall>r\<in>set rows. short_id (fst r) \<and> event_for_item (work s) (ci_id (fst r)) = None"
  shows "\<exists>new k. s' = s\<lparr>work := t_events_update (\<lambda>es. es @ new) (work s), clock_pos := k\<rparr>
    \<and> list_all2 change_event (filter (to_queue (work s)) rows) new \<and> length (filter (\<lambda>e. e \<noteq> None) found) = length new"
  using assms
proof (induction rows arbitrary: s found)
  case Nil
  then have "s' = s\<lparr>work := t_events_update (\<lambda>es. es @ []) (work s), clock_pos := clock_pos s\<rparr>" "found = []"
    by (simp_all add: op_eval)
  then show ?case by (intro exI[of _ "[]"] exI[of _ "clock_pos s"]) simp
next
  case (Cons row rows)
  obtain i c where row: "row = (i, c)" by (cases row)
  from Cons.prems(1) obtain r s1 fs where step: "queue_pending (i, c) s = (Inr r, s1)"
    and rest: "map_op queue_pending rows s1 = (Inr fs, s')" and found: "found = r # fs"
    by (auto simp: row bind_op_Inr basic_eval)
  have i: "short_id i" "event_for_item (work s) (ci_id i) = None" using Cons.prems(3) row by auto
  show ?case
  proof (cases "to_queue (work s) (i, c)")
    case False
    have "r = None \<and> s1 = s"
    proof (cases "ci_after i = None")
      case True
      with step show ?thesis by (simp add: queue_pending_def basic_eval)
    next
      case dat: False
      with step have "queue_record_automation_event (change_of (i, c)) s = (Inr r, s1)" by (simp add: queue_pending_def)
      from queue_change[OF this i] False dat show ?thesis by (simp add: to_queue_def)
    qed
    then have "r = None" "s1 = s" by blast+
    with Cons.IH[OF rest] Cons.prems(2,3) found False row show ?thesis by (auto simp del: session.simps)
  next
    case True
    then have ob: "on_board (work s) (i, c)" "ci_after i \<noteq> None" by (simp_all add: to_queue_def)
    with step have "queue_record_automation_event (change_of (i, c)) s = (Inr r, s1)" by (simp add: queue_pending_def)
    from queue_change[OF this i] ob(1) obtain e k where e: "r = Some e" "change_event (i, c) e"
      "s1 = s\<lparr>work := t_events_update (\<lambda>es. es @ [e]) (work s), clock_pos := k\<rparr>" by blast
    have w: "work s1 = t_events_update (\<lambda>es. es @ [e]) (work s)" by (simp add: e(3))
    have src: "ev_source_item e = Some (ci_id i)" using e(2) by (simp add: change_event_def)
    have fresh: "\<forall>r\<in>set rows. short_id (fst r) \<and> event_for_item (work s1) (ci_id (fst r)) = None"
    proof
      fix r assume r: "r \<in> set rows"
      then have "ci_id (fst r) \<noteq> ci_id i" using Cons.prems(2) row by (auto simp: image_iff)
      then show "short_id (fst r) \<and> event_for_item (work s1) (ci_id (fst r)) = None"
        using Cons.prems(3) r src by (simp add: w event_for_item_None)
    qed
    have ob: "to_queue (work s1) = to_queue (work s)"
      by (simp add: w to_queue_def[abs_def] on_board_def table_workspace_def select_first_def fun_eq_iff split: prod.splits)
    obtain new k' where n: "s' = s1\<lparr>work := t_events_update (\<lambda>es. es @ new) (work s1), clock_pos := k'\<rparr>"
      "list_all2 change_event (filter (to_queue (work s)) rows) new" "length (filter (\<lambda>e. e \<noteq> None) fs) = length new"
      using Cons.IH[OF rest _ fresh] Cons.prems(2) ob by auto
    have "s' = s\<lparr>work := t_events_update (\<lambda>es. es @ (e # new)) (work s), clock_pos := k'\<rparr>"
      by (simp add: n(1) e(3) comp_def)
    moreover have "list_all2 change_event (filter (to_queue (work s)) (row # rows)) (e # new)"
      using n(2) e(2) True by (simp add: row)
    ultimately show ?thesis using n(3) found e(1) by (intro exI[of _ "e # new"] exI[of _ k']) simp
  qed
qed

lemma distinct_pairs:
  assumes "distinct (map f xs)" "\<And>x. length (F x) \<le> 1"
  shows "distinct (map (\<lambda>r. f (fst r)) (concat (map (\<lambda>x. map (Pair x) (F x)) xs)))"
  using assms(1)
proof (induction xs)
  case Nil
  then show ?case by simp
next
  case (Cons x xs)
  have "F x = [] \<or> (\<exists>y. F x = [y])" using assms(2)[of x] by (cases "F x") auto
  with Cons show ?case by auto
qed

lemma distinct_map_sort: "distinct (map g (sort_key f xs)) \<longleftrightarrow> distinct (map g xs)"
  by (metis distinct_map distinct_sort set_sort)

lemma distinct_filter_key: "distinct (map f xs) \<Longrightarrow> length (filter (\<lambda>x. f x = k \<and> P x) xs) \<le> 1"
proof (induction xs)
  case (Cons x xs)
  have "f x = k \<Longrightarrow> filter (\<lambda>x. f x = k \<and> P x) xs = []" using Cons.prems by (auto simp: filter_empty_conv image_iff)
  with Cons show ?case by auto
qed simp

lemma pending_changes_distinct:
  assumes "keys_ok t"
  shows "distinct (map (\<lambda>r. ci_id (fst r)) (take n (pending_changes t)))"
proof -
  have d: "distinct (map ci_id (select t_changes Q t))" for Q
    unfolding select_def by (rule distinct_map_filterI[OF tci.keys_get[OF assms]])
  have l: "length (select t_sets (\<lambda>c. cs_id c = k \<and> cs_status c = ''applied'') t) \<le> 1" for k
    unfolding select_def by (rule distinct_filter_key[OF tcs.keys_get[OF assms]])
  have "distinct (map (\<lambda>r. ci_id (fst r)) (pending_changes t))"
    unfolding pending_changes_def distinct_map_sort by (rule distinct_pairs[OF d l])
  then show ?thesis by (metis distinct_take take_map)
qed

lemma pending_changes_pending:
  "(i, c) \<in> set (pending_changes t) \<Longrightarrow> i \<in> set (t_changes t) \<and> event_for_item t (ci_id i) = None"
  by (auto simp: pending_changes_def select_def event_for_item_None)

text \<open>A poll whose rows are all deletions (or otherwise without new data) queues nothing and leaves the session as it is, so the next poll reads the same rows again.\<close>

lemma deletions_block_the_poll:
  assumes "\<forall>r\<in>set (take (nat (max 1 (min 1000 limit))) (pending_changes (work s))). ci_after (fst r) = None"
  shows "materialize_record_events_from_changesets limit s = (Inr 0, s)"
proof -
  have "map_op (\<lambda>row. if ci_after (fst row) = None then ret None else queue_record_automation_event (change_of row)) rows s
      = (Inr (map (\<lambda>_. None) rows), s)" if "\<forall>r\<in>set rows. ci_after (fst r) = None" for rows
    using that by (induction rows) (simp_all add: op_eval)
  from this[OF assms] show ?thesis
    by (simp add: materialize_record_events_from_changesets_def Let_def bind_op_eval then_op_eval basic_eval)
qed

text \<open>C17: a poll of the change log reads the oldest record changes that no event refers to yet, up to the limit, deletions among them. It turns each of these that has new data and whose table is on the tree into exactly one queued event with the change's table, record, old and new data, passes over the others (they stay pending and are read again by the next poll), and adds nothing else: the new events stand in the order of the changes, no other event of the queue refers to the same change, and they are durable.\<close>

theorem changes_materialized_once:
  assumes "materialize_record_events_from_changesets limit s = (Inr n, s')" "keys_ok (work s)"
    and "\<forall>i\<in>set (t_changes (work s)). short_id i"
  shows "\<exists>new. t_events (work s') = t_events (work s) @ new \<and> n = length new
    \<and> list_all2 change_event (filter (to_queue (work s)) (take (nat (max 1 (min 1000 limit))) (pending_changes (work s)))) new
    \<and> (\<forall>e\<in>set new. \<forall>e'\<in>set (t_events (work s')). ev_source_item e' = ev_source_item e \<longrightarrow> e' = e)
    \<and> (new \<noteq> [] \<longrightarrow> committed s' = work s')"
proof -
  let ?rows = "take (nat (max 1 (min 1000 limit))) (pending_changes (work s))"
  from assms(1) obtain found s1 where loop: "map_op queue_pending ?rows s = (Inr found, s1)"
    and n: "n = length (filter (\<lambda>e. e \<noteq> None) found)" and s': "s' = (if n > 0 then s1\<lparr>committed := work s1\<rparr> else s1)"
    by (auto simp: materialize_record_events_from_changesets_def queue_pending_def[abs_def] Let_def bind_op_Inr then_op_def basic_eval split: if_splits)
  have "\<forall>r\<in>set ?rows. short_id (fst r) \<and> event_for_item (work s) (ci_id (fst r)) = None"
    using pending_changes_pending assms(3) by (metis in_set_takeD prod.collapse)
  from queue_changes[OF loop pending_changes_distinct[OF assms(2)] this]
  obtain new k where new: "s1 = s\<lparr>work := t_events_update (\<lambda>es. es @ new) (work s), clock_pos := k\<rparr>"
    "list_all2 change_event (filter (to_queue (work s)) ?rows) new" "length (filter (\<lambda>e. e \<noteq> None) found) = length new" by blast
  let ?fr = "filter (to_queue (work s)) ?rows"
  have ev: "t_events (work s') = t_events (work s) @ new" by (simp add: s' new(1))
  have src: "map ev_source_item new = map (\<lambda>r. Some (ci_id (fst r))) ?fr"
    using new(2) by (induction rule: list_all2_induct) (auto simp: change_event_def)
  have "distinct (map (\<lambda>r. ci_id (fst r)) ?fr)" by (rule distinct_map_filterI[OF pending_changes_distinct[OF assms(2)]])
  then have "distinct (map ev_source_item new)"
    unfolding src by (metis (no_types, lifting) distinct_map inj_Some comp_inj_on inj_on_subset list.map_comp map_eq_conv comp_def subset_UNIV)
  then have inj: "e' = e" if "e \<in> set new" "e' \<in> set new" "ev_source_item e' = ev_source_item e" for e e'
    using that by (metis distinct_map inj_onD)
  have old: "ev_source_item e' \<noteq> ev_source_item e" if "e \<in> set new" "e' \<in> set (t_events (work s))" for e e'
  proof -
    have "ev_source_item e \<in> set (map (\<lambda>r. Some (ci_id (fst r))) ?fr)" using that(1) by (simp add: src[symmetric])
    then obtain r where "r \<in> set (pending_changes (work s))" "ev_source_item e = Some (ci_id (fst r))"
      by (auto dest: in_set_takeD)
    with pending_changes_pending[of "fst r" "snd r"] that(2) show ?thesis by (auto simp: event_for_item_None)
  qed
  have uniq: "\<forall>e\<in>set new. \<forall>e'\<in>set (t_events (work s')). ev_source_item e' = ev_source_item e \<longrightarrow> e' = e"
    using inj old by (auto simp: ev)
  have "new \<noteq> [] \<longrightarrow> committed s' = work s'" using s' n new(3) by auto
  with ev new uniq n show ?thesis by (intro exI[of _ new]) simp
qed

section \<open>Chains of automations end\<close>

lemma parent_of:
  assumes "select_first t_execs (\<lambda>y. ex_trace y = ex_trace x) t = Some x" "ex_trace x \<noteq> []"
  shows "parent_context t (Some ''automation'') (Some (ex_trace x)) = (Some (ex_root x), Some (ex_id x), ex_depth x + 1)"
  using assms by (simp add: parent_context_def)

lemma start_frame: "start_execution i s = (r, s') \<Longrightarrow> (work s')\<lparr>t_execs := t_execs (work s)\<rparr> = work s"
  by (auto simp: start_execution_def set_exec_def op_eval)

lemma queued_row:
  assumes "queue_record_automation_event rc s = (Inr (Some ev), s')" "rc_item rc = Some i" "i \<noteq> []"
    and "event_for_item (work s) i = None"
  shows "\<exists>ws k c. ev = event_row (''evt_change_'' @ i) ws rc (parent_context (work s) (rc_source rc) (rc_trace rc)) k c"
proof -
  have it: "has_text (rc_item rc)" using assms(2,3) by (simp add: has_text_def)
  define row where "row = (\<lambda>k c. event_row (''evt_change_'' @ i) (the (table_workspace (work s) (rc_table rc))) rc
     (parent_context (work s) (rc_source rc) (rc_trace rc)) k c)"
  from assms(1) obtain k c s0 where run: "bind_op (insert_event (row k c) (\<lambda>t. event_for_item t i)) (\<lambda>e. ret (Some e)) s0 = (Inr (Some ev), s')"
    and w: "work s0 = work s"
  proof (cases "rc_created rc")
    case None
    with assms(1) it assms(2,4) that show thesis
      by (simp add: queue_record_automation_event_def Let_def then_op_eval bind_op_eval basic_eval row_def del: bind_op_Inr
          split: if_splits)
  next
    case (Some c)
    with assms(1) it assms(2,4) that show thesis
      by (simp add: queue_record_automation_event_def Let_def then_op_eval bind_op_eval basic_eval row_def del: bind_op_Inr
          split: if_splits)
  qed
  then obtain b where "insert_or_find t_events t_events_update event_clash (row k c) (\<lambda>t. event_for_item t i) s0 = (Inr (ev, b), s')"
    unfolding insert_event_def bind_op_Inr by (auto simp: basic_eval simp del: session.simps split: prod.splits)
  from insert_or_find_None[OF _ this] w assms(4) have "ev = row k c" by auto
  then show ?thesis unfolding row_def by blast
qed

lemma loop_guard_run:
  assumes got: "get_or_create_execution rule e s = (Inr (q, new), s0)" and row: "run_row rule e (ex_id q) q (t_execs (work s0))"
    and "ex_status q \<in> set retryable_statuses" "max_automation_depth < ev_depth e"
  shows "\<exists>y s'. execute_rule_for_event env rule e s = (Inr y, s') \<and> ex_status y = ''skipped'' \<and> ex_error_code y = Some ''loop_guard''
    \<and> (work s')\<lparr>t_execs := t_execs (work s0)\<rparr> = work s0 \<and> committed s' = work s'"
proof -
  have st: "ex_status q \<notin> set terminal_statuses" using assms(3) by (auto simp: retryable_statuses_def terminal_statuses_def)
  obtain s1 where s1: "start_execution (ex_id q) s0 = (Inr (), s1)" "has_run rule e (ex_id q) (ex_attempt q + 1) (work s1)"
    "has_run rule e (ex_id q) (ex_attempt q + 1) (committed s1)" "(work s1)\<lparr>t_execs := t_execs (work s0)\<rparr> = work s0"
    using start_run[OF row] by (metis start_frame)
  obtain y where y: "run_row rule e (ex_id q) y (t_execs (work s1))" using s1(2) by blast
  define g where "g = (\<lambda>y::automation_execution. y\<lparr>ex_status := ''skipped'', ex_error_code := Some ''loop_guard'',
    ex_error_message := Some (''Automation chain depth exceeded '' @ dec_int max_automation_depth),
    ex_finished_at := Some (clock s1 (clock_pos s1)), ex_updated_at := clock s1 (clock_pos s1)\<rparr>)"
  define t where "t = t_execs_update (map (\<lambda>x. if ex_id x = ex_id q then g x else x)) (work s1)"
  have "keeps_key g" by (simp add: g_def keeps_key_def)
  from run_row_set[OF this y] have z: "run_row rule e (ex_id q) (g y) (t_execs t)" by (simp add: t_def)
  have "run_rule env rule e q s1 = (Inr (), s1\<lparr>clock_pos := Suc (clock_pos s1), work := t, committed := t\<rparr>)"
    using assms(4) unfolding t_def g_def by (simp add: run_rule_def skip_execution_def set_exec_def op_eval)
  then have c: "catch (run_rule env rule e q) (recover_execution rule e q) s1 = (Inr (), s1\<lparr>clock_pos := Suc (clock_pos s1), work := t, committed := t\<rparr>)"
    by (simp add: catch_def)
  have "find_exec t (ex_id q) = Some (g y)" using z by (simp add: run_row_def find_exec_def select_first_def)
  then have "execute_rule_for_event env rule e s = (Inr (g y), s1\<lparr>clock_pos := Suc (clock_pos s1), work := t, committed := t\<rparr>)"
    using got st assms(3) s1(1) c by (simp add: execute_rule_for_event_def then_op_eval bind_op_eval the_row_def basic_eval)
  moreover have "t\<lparr>t_execs := t_execs (work s0)\<rparr> = work s0" using s1(4) by (simp add: t_def)
  ultimately show ?thesis by (simp add: g_def)
qed

text \<open>The execution row a run creates, and the ids of it that the table may already hold.\<close>

definition first_execution :: "automation_rule \<Rightarrow> automation_event \<Rightarrow> session \<Rightarrow> automation_execution" where
  "first_execution rule e s = new_execution rule e (clock s (clock_pos s))
     (''aex_'' @ uuids s (uuid_pos s)) (''atr_'' @ uuids s (Suc (uuid_pos s)))"

definition id_taken :: "automation_execution \<Rightarrow> tables \<Rightarrow> bool" where
  "id_taken x t \<longleftrightarrow> (\<exists>z\<in>set (t_execs t). ex_id z = ex_id x \<or> ex_trace z = ex_trace x)"

lemma first_execution_clash:
  assumes "exec_for (work s) rule e = None"
  shows "list_ex (exec_clash (first_execution rule e s)) (t_execs (work s)) \<longleftrightarrow> id_taken (first_execution rule e s) (work s)"
  using assms by (auto simp: exec_for_def select_first_def find_None_iff list_ex_iff exec_clash_def id_taken_def
      first_execution_def new_execution_def)

lemma create_execution:
  assumes "exec_for (work s) rule e = None"
  shows "\<exists>s0. get_or_create_execution rule e s
       = (if id_taken (first_execution rule e s) (work s) then Inl (Exn IntegrityError ''UNIQUE constraint failed'')
          else Inr (first_execution rule e s, True), s0)
    \<and> work s0 = (if id_taken (first_execution rule e s) (work s) then work s
        else t_execs_update (\<lambda>xs. xs @ [first_execution rule e s]) (work s))"
  unfolding first_execution_clash[OF assms, symmetric]
  using assms by (simp add: get_or_create_execution_def new_id_def uuid_hex_def utcnow_def insert_or_find_def insert_nested_def
      catch_def op_eval first_execution_def)

lemma appended_run_row:
  assumes "exec_for t rule e = None" "\<not> id_taken x t" "exec_matches rule e x"
  shows "run_row rule e (ex_id x) x (t_execs t @ [x])"
proof -
  have "List.find (\<lambda>q. ex_id q = ex_id x) (t_execs t) = None" "List.find (exec_matches rule e) (t_execs t) = None"
    using assms(1,2) by (auto simp: id_taken_def find_None_iff exec_for_iff)
  then show ?thesis using assms(3) by (simp add: run_row_def find_append)
qed

lemma first_execution_matches: "exec_matches rule e (first_execution rule e s)"
  by (simp add: exec_matches_def first_execution_def new_execution_def)

definition guarded :: "automation_rule \<Rightarrow> automation_event \<Rightarrow> session \<Rightarrow> automation_execution res \<times> session \<Rightarrow> bool" where
  "guarded rule e s = (\<lambda>(r, s').
     (work s')\<lparr>t_execs := t_execs (work s)\<rparr> = work s
     \<and> (case exec_for (work s) rule e of
          None \<Rightarrow> (if id_taken (first_execution rule e s) (work s) then work s' = work s \<and> (\<exists>exc. r = Inl exc)
             else \<exists>y. r = Inr y \<and> ex_status y = ''skipped'' \<and> ex_error_code y = Some ''loop_guard'')
        | Some q \<Rightarrow> (if ex_status q \<in> set retryable_statuses
             then \<exists>y. r = Inr y \<and> ex_status y = ''skipped'' \<and> ex_error_code y = Some ''loop_guard''
             else r = Inr q \<and> s' = s)))"

lemma guarded_run:
  assumes "keys_ok (work s)" "max_automation_depth < ev_depth e"
  shows "guarded rule e s (execute_rule_for_event env rule e s)"
proof (cases "exec_for (work s) rule e")
  case (Some q)
  then have got: "get_or_create_execution rule e s = (Inr (q, False), s)"
    by (simp add: get_or_create_execution_def op_eval)
  show ?thesis
  proof (cases "ex_status q \<in> set retryable_statuses")
    case True
    from loop_guard_run[OF got run_row_current[OF assms(1) Some] True assms(2), of env] Some True
    show ?thesis by (auto simp: guarded_def)
  next
    case False
    then have "execute_rule_for_event env rule e s = (Inr q, s)"
      using got by (simp add: execute_rule_for_event_def bind_op_eval basic_eval)
    with Some False show ?thesis by (simp add: guarded_def)
  qed
next
  case None
  let ?x = "first_execution rule e s"
  show ?thesis
  proof (cases "id_taken ?x (work s)")
    case True
    with create_execution[OF None] obtain s0 where
      "get_or_create_execution rule e s = (Inl (Exn IntegrityError ''UNIQUE constraint failed''), s0)" "work s0 = work s" by auto
    then have "execute_rule_for_event env rule e s = (Inl (Exn IntegrityError ''UNIQUE constraint failed''), s0)"
      by (simp add: execute_rule_for_event_def bind_op_eval)
    with None True \<open>work s0 = work s\<close> show ?thesis by (simp add: guarded_def)
  next
    case False
    with create_execution[OF None] obtain s0 where got: "get_or_create_execution rule e s = (Inr (?x, True), s0)"
      and w: "work s0 = t_execs_update (\<lambda>xs. xs @ [?x]) (work s)" by auto
    have row: "run_row rule e (ex_id ?x) ?x (t_execs (work s0))"
      using appended_run_row[OF None False first_execution_matches] by (simp add: w)
    have "ex_status ?x \<in> set retryable_statuses" by (simp add: first_execution_def new_execution_def retryable_statuses_def)
    from loop_guard_run[OF got row this assms(2), of env] obtain y s' where
      y: "execute_rule_for_event env rule e s = (Inr y, s')" "ex_status y = ''skipped''" "ex_error_code y = Some ''loop_guard''"
      "(work s')\<lparr>t_execs := t_execs (work s0)\<rparr> = work s0" by blast
    have "(work s')\<lparr>t_execs := t_execs (work s)\<rparr> = ((work s')\<lparr>t_execs := t_execs (work s0)\<rparr>)\<lparr>t_execs := t_execs (work s)\<rparr>" by simp
    also have "\<dots> = work s" by (simp only: y(4)) (simp add: w)
    finally show ?thesis using y(1-3) None False by (auto simp: guarded_def)
  qed
qed

text \<open>C18: chains of automations end: a change an automation run makes becomes an event one level deeper than the run, with the run as its parent and the same root, and an event of a run that is already eight levels deep runs no action, in any later state of the session and whatever the rule: the execution the call creates for it, or the queued or retry_scheduled one that is there, ends as skipped with the code loop_guard; one that is finished or running is returned with the session as it was; when an id drawn for the new row is taken the call raises and stores nothing. Every other table stays as it is.\<close>

theorem chains_end:
  assumes "queue_record_automation_event rc s = (Inr (Some ev), s1)"
    and "rc_source rc = Some ''automation''" "rc_trace rc = Some (ex_trace x)" "ex_trace x \<noteq> []" "0 \<le> ex_depth x"
    and "select_first t_execs (\<lambda>y. ex_trace y = ex_trace x) (work s) = Some x" "rc_item rc = Some i" "i \<noteq> []"
    and "event_for_item (work s) i = None"
    and "keys_ok (work s2)"
  shows "ev_depth ev = ex_depth x + 1 \<and> ev_parent_exec ev = Some (ex_id x) \<and> (ex_root x \<noteq> [] \<longrightarrow> ev_root ev = take 128 (ex_root x))
    \<and> (8 \<le> ex_depth x \<longrightarrow> guarded rule ev s2 (execute_rule_for_event env rule ev s2))"
proof -
  have ctx: "parent_context (work s) (rc_source rc) (rc_trace rc) = (Some (ex_root x), Some (ex_id x), ex_depth x + 1)"
    using parent_of[OF assms(6,4)] assms(2,3) by simp
  obtain ws k c where ev: "ev = event_row (''evt_change_'' @ i) ws rc (Some (ex_root x), Some (ex_id x), ex_depth x + 1) k c"
    using queued_row[OF assms(1,7,8,9)] ctx by metis
  have d: "ev_depth ev = ex_depth x + 1" "ev_parent_exec ev = Some (ex_id x)" "ex_root x \<noteq> [] \<longrightarrow> ev_root ev = take 128 (ex_root x)"
    using assms(5) by (auto simp: ev event_row_def or_default_def)
  have "guarded rule ev s2 (execute_rule_for_event env rule ev s2)" if "8 \<le> ex_depth x"
    using that d(1) by (intro guarded_run assms(10)) (simp add: max_automation_depth_def)
  with d show ?thesis by blast
qed

section \<open>The properties on a small database\<close>

text \<open>One table on the tree, a rule without a run-as user and with one retry, a change that waits.\<close>

definition example_env :: env where
  "example_env = \<lparr>en_float = plain_float, en_time = (\<lambda>_. None), en_zones = (\<lambda>_. None), en_local = (\<lambda>_ w. Some w),
     en_iso = dec_int, en_sha = id, en_parse = (\<lambda>_. Inl ''''), en_eval = undefined, en_blank = undefined\<rparr>"

definition example_auto_rule :: automation_rule where
  "example_auto_rule = \<lparr>ar_id = ''r'', ar_ws = ''w'', ar_table = ''t'', ar_name = ''n'', ar_description = None, ar_enabled = True,
     ar_trigger = [(''type'', PStr ''record.created'')], ar_conditions = [], ar_actions = [[(''type'', PStr ''notify'')]],
     ar_timezone = ''UTC'', ar_max_retries = 1, ar_version = 1, ar_run_as = None, ar_next_run = None, ar_created_by = None,
     ar_updated_by = None, ar_created_at = 0, ar_updated_at = 0, ar_deleted_at = None\<rparr>"

definition example_event :: "string \<Rightarrow> string \<Rightarrow> automation_event" where
  "example_event i st = \<lparr>ev_id = i, ev_ws = ''w'', ev_table = ''t'', ev_record = Some ''1'', ev_source_item = None,
     ev_target = None, ev_type = ''record.created'', ev_before = None, ev_after = Some [], ev_changed = [], ev_actor = None,
     ev_source = None, ev_trace = None, ev_root = i, ev_parent_exec = None, ev_depth = 0, ev_status = st, ev_available_at = 5,
     ev_error_code = None, ev_error_message = None, ev_created_at = 5, ev_processed_at = None\<rparr>"

definition example_exec :: "string \<Rightarrow> string \<Rightarrow> int \<Rightarrow> automation_execution" where
  "example_exec i e d = \<lparr>ex_id = i, ex_rule = ''r'', ex_rule_version = 1, ex_event = e, ex_root = ''e'', ex_parent = None,
     ex_record = Some ''1'', ex_depth = d, ex_status = ''queued'', ex_trace = ''tr'' @ i, ex_attempt = 0, ex_results = [],
     ex_change_sets = [], ex_error_code = None, ex_error_message = None, ex_next_retry = None, ex_started_at = None,
     ex_finished_at = None, ex_created_at = 5, ex_updated_at = 5\<rparr>"

definition example_change :: "change_set \<times> change_item" where
  "example_change =
     (\<lparr>cs_id = ''c'', cs_ws = Some ''w'', cs_table = Some ''t'', cs_actor_type = ''user'', cs_actor = Some 1, cs_operation = ''create'',
        cs_source = Some ''automation'', cs_trace = Some ''trx'', cs_summary = [], cs_status = ''applied'', cs_parent = None,
        cs_undone_at = None, cs_undone_by = None, cs_created = 7\<rparr>,
      \<lparr>ci_id = ''i'', ci_set = ''c'', ci_table = ''t'', ci_etype = ''record'', ci_entity = ''1'', ci_before = None, ci_after = Some [],
        ci_bmeta = None, ci_ameta = None, ci_vbefore = None, ci_vafter = None, ci_changed = [''a''], ci_order = 0\<rparr>)"

definition example_auto_tables :: tables where
  "example_auto_tables = empty_tables\<lparr>
     t_items := [\<lparr>itm_id = ''t'', itm_ws = ''w'', itm_type = ''table'', itm_name = ''T'', itm_parent = None, itm_order = 0, itm_view = None\<rparr>],
     t_rules := [example_auto_rule], t_events := [example_event ''e'' ''queued''], t_execs := [example_exec ''x'' ''e'' 8],
     t_sets := [fst example_change], t_changes := [snd example_change]\<rparr>"

lemmas example_auto_defs = example_auto_tables_def example_auto_rule_def example_event_def example_exec_def example_change_def

lemma example_auto_keys: "keys_ok example_auto_tables"
  by (simp add: keys_ok_def example_auto_defs empty_tables_def)

lemma example_auto_exec:
  "exec_for example_auto_tables example_auto_rule (example_event ''e'' ''queued'') = Some (example_exec ''x'' ''e'' 8)"
  by (simp add: exec_for_def select_first_def example_auto_defs rule_version_def)

theorem run_settles_execution_witness:
  "\<exists>y s'. execute_rule_for_event example_env example_auto_rule (example_event ''e'' ''queued'') (session_of example_auto_tables) = (Inr y, s')
     \<and> ex_attempt y = 1"
  using run_settles_execution[of "session_of example_auto_tables" example_auto_rule "example_event ''e'' ''queued''"
      "example_exec ''x'' ''e'' 8" example_env] example_auto_keys example_auto_exec
  by (auto simp: example_exec_def retryable_statuses_def)

theorem retries_end_witness:
  "\<exists>k y s'. k \<le> 2 \<and> repeat_runs example_env example_auto_rule (example_event ''e'' ''queued'') k (session_of example_auto_tables) = (Inr y, s')
     \<and> ex_status y \<in> set terminal_statuses"
proof -
  have m: "max 1 (nat (ar_max_retries example_auto_rule + 1 - ex_attempt (example_exec ''x'' ''e'' 8))) = 2"
    by (simp add: example_auto_rule_def example_exec_def)
  have "ex_status (example_exec ''x'' ''e'' 8) \<in> set retryable_statuses" by (simp add: example_exec_def retryable_statuses_def)
  from retries_end[of "session_of example_auto_tables", unfolded work_session_of, OF example_auto_keys example_auto_exec this]
  show ?thesis unfolding m by blast
qed

theorem succeeded_action_not_invoked_witness:
  "run_actions (example_exec ''x'' ''e'' 0) (\<lambda>a i. if i = 0 then throw (Exn RuntimeError []) else ret []) [success_result 0 [] []]
       (enumerate 0 [[], []])
     = run_actions (example_exec ''x'' ''e'' 0) (\<lambda>a i. ret []) [success_result 0 [] []] (enumerate 0 [[], []])"
  by (rule succeeded_action_not_invoked) (auto simp: succeeded_at_def result_at_def success_result_def split: if_splits)

definition example_claim :: "automation_event list \<times> session" where
  "example_claim = (case claim_events 10 5 (session_of example_auto_tables) of (Inr es, s) \<Rightarrow> (es, s) | (Inl _, s) \<Rightarrow> ([], s))"

lemma example_claim_run: "claim_events 10 5 (session_of example_auto_tables) = (Inr (fst example_claim), snd example_claim)"
  "fst example_claim = [claimed (10 + seconds 300) (example_event ''e'' ''queued'')]"
  by (simp_all add: example_claim_def claim_events_def Let_def op_eval set_event_def select_def example_auto_tables_def
      claimable_def example_event_def event_lease_seconds_def empty_tables_def)

theorem claims_exclusive_witness:
  "\<exists>es' s3. claim_events 20 5 (snd example_claim) = (Inr es', s3) \<and> ev_id ` set (fst example_claim) \<inter> ev_id ` set es' = {}"
proof -
  obtain es' s3 where c: "claim_events 20 5 (snd example_claim) = (Inr es', s3)"
    using claim_run[of 20 5 "snd example_claim"] by (metis surj_pair)
  have "work (snd example_claim) = committed (snd example_claim)"
  proof -
    obtain es0 where a: "(Inr (fst example_claim) :: automation_event list res) = Inr (map (claimed (10 + seconds event_lease_seconds)) es0)"
      and c: "es0 \<noteq> [] \<Longrightarrow> committed (snd example_claim) = work (snd example_claim)"
      using claim_run[OF example_claim_run(1)] by blast
    from a example_claim_run(2) have "es0 \<noteq> []" by auto
    with c show ?thesis by simp
  qed
  from claims_exclusive[OF example_claim_run(1) _ this c] example_claim_run(2) c show ?thesis
    by (auto simp: event_lease_seconds_def seconds_def)
qed

theorem changes_materialized_once_witness:
  "\<exists>n s'. materialize_record_events_from_changesets 200 (session_of example_auto_tables) = (Inr n, s')
     \<and> (\<exists>e\<in>set (t_events (committed s')). ev_source_item e = Some ''i'')"
proof -
  have p: "pending_changes example_auto_tables = [(snd example_change, fst example_change)]"
    by (simp add: pending_changes_def select_def example_auto_defs empty_tables_def)
  have "fst (materialize_record_events_from_changesets 200 (session_of example_auto_tables)) = Inr 1" by code_simp
  then obtain n s' where m: "materialize_record_events_from_changesets 200 (session_of example_auto_tables) = (Inr n, s')"
    by (metis surjective_pairing)
  have "\<forall>i\<in>set (t_changes example_auto_tables). short_id i" by (simp add: short_id_def example_auto_defs empty_tables_def)
  from changes_materialized_once[OF m] example_auto_keys this obtain new where
    new: "t_events (work s') = t_events example_auto_tables @ new" "new \<noteq> [] \<longrightarrow> committed s' = work s'"
    "list_all2 change_event (filter (to_queue example_auto_tables) (take 200 [(snd example_change, fst example_change)])) new"
    by (auto simp: p)
  have "to_queue example_auto_tables (snd example_change, fst example_change)"
    by (simp add: to_queue_def on_board_def table_workspace_def select_first_def example_auto_defs has_text_def)
  with new(3) obtain e where "new = [e]" "change_event (snd example_change, fst example_change) e"
    by (auto simp: list_all2_Cons1)
  with new(1,2) m show ?thesis by (auto simp: change_event_def example_change_def)
qed

definition example_record_change :: record_change where
  "example_record_change = change_of (snd example_change, fst example_change)"

lemma event_row_id: "ev_id (event_row i ws rc ctx k c) = take 128 i"
  by (simp add: event_row_def split: prod.splits)

theorem chains_end_witness:
  "\<exists>e y s' z s''. ev_depth e = 9
     \<and> execute_rule_for_event example_env example_auto_rule e
         (session_of (empty_tables\<lparr>t_execs := [example_exec ''q'' ''evt_change_i'' 9]\<rparr>)) = (Inr y, s') \<and> ex_status y = ''skipped''
     \<and> execute_rule_for_event example_env example_auto_rule e (session_of example_auto_tables) = (Inr z, s'') \<and> ex_status z = ''skipped''"
proof -
  let ?x = "example_exec ''x'' ''e'' 8" and ?q = "example_exec ''q'' ''evt_change_i'' 9" and ?s = "session_of example_auto_tables"
  let ?s2 = "session_of (empty_tables\<lparr>t_execs := [?q]\<rparr>)"
  have "(case fst (queue_record_automation_event example_record_change ?s) of Inr (Some ev) \<Rightarrow> True | _ \<Rightarrow> False)" by code_simp
  then obtain ev s1 where ev: "queue_record_automation_event example_record_change ?s = (Inr (Some ev), s1)"
    by (cases "queue_record_automation_event example_record_change ?s") (auto split: sum.splits option.splits)
  have rc: "rc_source example_record_change = Some ''automation''" "rc_trace example_record_change = Some (ex_trace ?x)"
    "ex_trace ?x \<noteq> []" "0 \<le> ex_depth ?x" "rc_item example_record_change = Some ''i''" "''i'' \<noteq> []"
    by (simp_all add: example_record_change_def change_of_def example_change_def example_exec_def)
  have sel: "select_first t_execs (\<lambda>y. ex_trace y = ex_trace ?x) (work ?s) = Some ?x" "event_for_item (work ?s) ''i'' = None"
    by (simp_all add: select_first_def example_auto_defs event_for_item_def)
  have id: "ev_id ev = ''evt_change_i''"
    using queued_row[OF ev rc(5,6) sel(2)] by (auto simp: event_row_id)
  have q: "keys_ok (work ?s2)" "exec_for (work ?s2) example_auto_rule ev = Some ?q" "ex_status ?q \<in> set retryable_statuses"
    by (simp_all add: keys_ok_def empty_tables_def exec_for_def select_first_def id example_exec_def example_auto_rule_def
        rule_version_def retryable_statuses_def)
  have n: "keys_ok (work ?s)" "exec_for (work ?s) example_auto_rule ev = None" "\<not> id_taken (first_execution example_auto_rule ev ?s) (work ?s)"
    using example_auto_keys
    by (simp_all add: example_auto_defs exec_for_def select_first_def id id_taken_def first_execution_def new_execution_def session_of_def)
  note c = chains_end[OF ev rc(1-4) sel(1) rc(5,6) sel(2)]
  have d: "ev_depth ev = 9" "8 \<le> ex_depth ?x" using c[OF q(1)] by (simp_all add: example_exec_def)
  have "guarded example_auto_rule ev ?s2 (execute_rule_for_event example_env example_auto_rule ev ?s2)"
    "guarded example_auto_rule ev ?s (execute_rule_for_event example_env example_auto_rule ev ?s)"
    using c[OF q(1)] c[OF n(1)] d(2) by blast+
  then show ?thesis using q n d(1) by (auto simp: guarded_def split: prod.splits) 
qed

end
