(* ===== verification/RecordQuery.thy ===== *)
theory RecordQuery
  imports StoreFacade AutoValidate
begin

text \<open>
  Filtering, sorting and paging the records of a table (\<open>services/record_query.py\<close>): the exact
  evaluation in Python, the compilation of filters and sorts to SQL, and the query that chooses
  between a page cut by the database and the exact evaluation of the candidates it returns.
  Floats are exact rationals with the IEEE special values. What the standard library and the
  database do is an argument: \<open>float()\<close>, \<open>casefold\<close>, the readers of times, and for the
  database the text of a JSON value, \<open>lower\<close> and the cast of a text to a number.
\<close>

declare split_paired_All [simp del] split_paired_Ex [simp del]

datatype ieee = NaN | NegInf | Fin rat | PosInf

fun ieee_less :: "ieee \<Rightarrow> ieee \<Rightarrow> bool" where
  "ieee_less (Fin a) (Fin b) = (a < b)"
| "ieee_less NegInf (Fin b) = True"
| "ieee_less NegInf PosInf = True"
| "ieee_less (Fin a) PosInf = True"
| "ieee_less _ _ = False"

fun ieee_eq :: "ieee \<Rightarrow> ieee \<Rightarrow> bool" where
  "ieee_eq NaN _ = False"
| "ieee_eq a b = (a = b)"

fun is_finite :: "ieee \<Rightarrow> bool" where
  "is_finite (Fin _) = True"
| "is_finite _ = False"

text \<open>
  \<open>float(v)\<close> (nothing if it raises \<open>TypeError\<close> or \<open>ValueError\<close>), \<open>str.casefold\<close>, the instants of
  \<open>datetime.fromisoformat\<close> (nothing on \<open>ValueError\<close>; a time without a zone is UTC) and
  \<open>datetime.fromtimestamp\<close> (nothing if it raises), in seconds.
\<close>

record query_env =
  qe_float :: "pyval \<Rightarrow> ieee option"
  qe_fold :: "string \<Rightarrow> string"
  qe_iso :: "string \<Rightarrow> rat option"
  qe_epoch :: "ieee \<Rightarrow> rat option"

definition max_filters :: nat where "max_filters = 50"
definition max_sorts :: nat where "max_sorts = 20"
definition max_query_limit :: int where "max_query_limit = 1000"
definition text_sql_types :: "string list" where "text_sql_types = [''text'', ''url'', ''email'', ''phone'']"
definition number_sql_types :: "string list" where "number_sql_types = [''number'', ''progress'', ''rating'']"
definition sort_text_sql_types :: "string list" where "sort_text_sql_types = text_sql_types @ [''select'']"
definition sort_number_sql_types :: "string list" where "sort_number_sql_types = number_sql_types @ [''autoNumber'']"

section \<open>Values\<close>

definition query_field :: "dict list \<Rightarrow> string \<Rightarrow> dict option" where
  "query_field flds i = List.find (\<lambda>f. dget f ''id'' \<noteq> PNone \<and> py_str (dget f ''id'') = i) (rev flds)"

definition field_type_of :: "dict \<Rightarrow> string" where
  "field_type_of f = str_or_empty (dget f ''type'')"

definition is_blank :: "pyval \<Rightarrow> bool" where
  "is_blank v \<longleftrightarrow> v \<in> {PNone, PStr [], PList []}"

definition first_given :: "dict \<Rightarrow> string list \<Rightarrow> string" where
  "first_given d ks = (case List.find (\<lambda>k. dget d k \<notin> {PNone, PStr []}) ks of None \<Rightarrow> [] | Some k \<Rightarrow> py_str (dget d k))"

definition comparable_text :: "pyval \<Rightarrow> string" where
  "comparable_text v = (case v of
       PNone \<Rightarrow> []
     | PDict d \<Rightarrow> first_given d [''label'', ''name'', ''userName'', ''title'', ''id'']
     | _ \<Rightarrow> py_str v)"

definition query_options :: "dict \<Rightarrow> dict list" where
  "query_options f = (case dget f ''options'' of PList xs \<Rightarrow> List.map_filter (\<lambda>x. case x of PDict d \<Rightarrow> Some d | _ \<Rightarrow> None) xs | _ \<Rightarrow> [])"

definition option_id :: "dict \<Rightarrow> string" where "option_id opt = str_or_empty (dget opt ''id'')"
definition option_label :: "dict \<Rightarrow> string" where "option_label opt = str_or_empty (dget opt ''label'')"

text \<open>\<open>str(n).zfill(w)\<close>: the sign stays in front of the zeros.\<close>

definition zfill :: "nat \<Rightarrow> int \<Rightarrow> string" where
  "zfill w n = (let ds = dec_nat (nat \<bar>n\<bar>); sign = (if n < 0 then ''-'' else []) in
     sign @ replicate (w - length sign - length ds) (CHR ''0'') @ ds)"

definition truncate_rat :: "rat \<Rightarrow> int" where
  "truncate_rat q = (if q < 0 then - \<lfloor>- q\<rfloor> else \<lfloor>q\<rfloor>)"

definition auto_number_text :: "query_env \<Rightarrow> dict \<Rightarrow> pyval \<Rightarrow> string" where
  "auto_number_text env f v =
     (if v \<in> {PNone, PStr []} then []
      else
        let prop = (case dget f ''property'' of PDict d \<Rightarrow> d | _ \<Rightarrow> []);
            prefix = (case dget prop ''prefix'' of PStr s \<Rightarrow> s | _ \<Rightarrow> []);
            given_digits = (case py_int (dget_default prop ''digits'' (PInt 3)) of Inl _ \<Rightarrow> 3 | Inr n \<Rightarrow> n);
            digits = (if given_digits < 1 \<or> 12 < given_digits then 3 else given_digits) in
        case qe_float env v of
          Some (Fin q) \<Rightarrow> prefix @ zfill (nat digits) (truncate_rat q)
        | _ \<Rightarrow> py_str v)"

definition query_member_id :: "pyval \<Rightarrow> string" where
  "query_member_id v = (case v of PDict d \<Rightarrow> first_given d [''id'', ''userId'', ''user_id'', ''value''] | _ \<Rightarrow> comparable_text v)"

fun normalize_field_value :: "query_env \<Rightarrow> dict \<Rightarrow> pyval \<Rightarrow> pyval" where
  "normalize_field_value env f (PList xs) = PList (map (normalize_field_value env f) xs)"
| "normalize_field_value env f v =
     (let ty = field_type_of f in
      if ty \<in> {''select'', ''multiSelect''} then
        (let primitive = comparable_text v in
         case List.find (\<lambda>opt. primitive = option_id opt \<or> primitive = option_label opt) (query_options f) of
           None \<Rightarrow> PStr primitive | Some opt \<Rightarrow> PStr (option_label opt))
      else if ty = ''member'' then PStr (query_member_id v)
      else if ty = ''autoNumber'' then PStr (auto_number_text env f v)
      else v)"

definition folded_text :: "query_env \<Rightarrow> pyval \<Rightarrow> string" where
  "folded_text env v = qe_fold env (comparable_text v)"

definition equals_filter_value :: "query_env \<Rightarrow> pyval \<Rightarrow> pyval \<Rightarrow> bool" where
  "equals_filter_value env v expected = (case v of
       PList xs \<Rightarrow> list_ex (\<lambda>x. folded_text env x = folded_text env expected) xs
     | _ \<Rightarrow> folded_text env v = folded_text env expected)"

definition number_of :: "query_env \<Rightarrow> pyval \<Rightarrow> ieee" where
  "number_of env v = (case v of
       PNone \<Rightarrow> Fin 0
     | PBool b \<Rightarrow> Fin (if b then 1 else 0)
     | _ \<Rightarrow> if (case v of PStr s \<Rightarrow> strip s = [] | _ \<Rightarrow> False) then Fin 0
            else (case qe_float env v of None \<Rightarrow> NaN | Some x \<Rightarrow> x))"

definition instant_of :: "rat option \<Rightarrow> ieee" where
  "instant_of x = (case x of None \<Rightarrow> NaN | Some q \<Rightarrow> Fin q)"

text \<open>\<open>seconds /= 1000.0\<close> beyond \<open>abs(seconds) > 1e11\<close>.\<close>

definition scaled_seconds :: "ieee \<Rightarrow> ieee" where
  "scaled_seconds x = (case x of Fin q \<Rightarrow> if \<bar>q\<bar> > 100000000000 then Fin (q / 1000) else x | _ \<Rightarrow> x)"

definition date_timestamp :: "query_env \<Rightarrow> pyval \<Rightarrow> ieee" where
  "date_timestamp env v = (case v of
       PStr s \<Rightarrow>
         let cleaned = strip s in
         if cleaned = [] then NaN
         else instant_of (qe_iso env (if last cleaned = CHR ''Z'' then butlast cleaned @ ''+00:00'' else cleaned))
     | _ \<Rightarrow> (case num_of v of None \<Rightarrow> NaN | Some q \<Rightarrow> instant_of (qe_epoch env (scaled_seconds (Fin q)))))"

section \<open>Filters\<close>

definition compare_numbers :: "order_op \<Rightarrow> ieee \<Rightarrow> ieee \<Rightarrow> bool" where
  "compare_numbers op a b = (case op of
       GT \<Rightarrow> ieee_less b a | LT \<Rightarrow> ieee_less a b
     | GTE \<Rightarrow> ieee_less b a \<or> ieee_eq a b | LTE \<Rightarrow> ieee_less a b \<or> ieee_eq a b)"

definition check_operator :: "query_env \<Rightarrow> string \<Rightarrow> pyval \<Rightarrow> pyval \<Rightarrow> bool" where
  "check_operator env operator v expected =
     (if operator = ''contains'' then
        (let needle = folded_text env expected in
         case v of PList xs \<Rightarrow> list_ex (\<lambda>x. substring needle (folded_text env x)) xs | _ \<Rightarrow> substring needle (folded_text env v))
      else if operator = ''equals'' \<or> operator = ''is'' then equals_filter_value env v expected
      else if operator = ''is_not'' then \<not> equals_filter_value env v expected
      else if operator = ''is_empty'' then is_blank v
      else if operator = ''is_not_empty'' then \<not> is_blank v
      else (case order_op_of operator of
          Some op \<Rightarrow> compare_numbers op (number_of env v) (number_of env expected)
        | None \<Rightarrow>
            if operator = ''before'' then ieee_less (date_timestamp env v) (date_timestamp env expected)
            else if operator = ''after'' then ieee_less (date_timestamp env expected) (date_timestamp env v)
            else True))"

definition check_filter :: "query_env \<Rightarrow> dict list \<Rightarrow> dict \<Rightarrow> dict \<Rightarrow> bool" where
  "check_filter env flds rec c =
     (let field_id = str_or_empty (dget c ''fieldId'') in
      case query_field flds field_id of
        None \<Rightarrow> True
      | Some f \<Rightarrow> check_operator env (str_or_empty (dget c ''operator'')) (normalize_field_value env f (dget rec field_id)) (dget c ''value''))"

definition filter_logic :: "dict \<Rightarrow> bool" where
  "filter_logic c \<longleftrightarrow> lower (str_or_empty (dget c ''logic'')) = ''or''"

definition matches_filters :: "query_env \<Rightarrow> dict list \<Rightarrow> dict list \<Rightarrow> dict \<Rightarrow> bool" where
  "matches_filters env flds conditions rec = (case conditions of
       [] \<Rightarrow> True
     | c # cs \<Rightarrow> foldl (\<lambda>matched c'. if filter_logic c' then matched \<or> check_filter env flds rec c' else matched \<and> check_filter env flds rec c')
         (check_filter env flds rec c) cs)"

section \<open>Sorting\<close>

datatype natural_part = NumberPart ieee | TextPart string

text \<open>The matches of \<open>\d+(?:\.\d+)?\<close> and the texts between them.\<close>

function natural_split :: "string \<Rightarrow> string list" where
  "natural_split s =
     (if s = [] then []
      else if is_digit (hd s) then
        let ds = takeWhile is_digit s; r = dropWhile is_digit s in
        if r \<noteq> [] \<and> hd r = CHR ''.'' \<and> tl r \<noteq> [] \<and> is_digit (hd (tl r))
        then (ds @ ''.'' @ takeWhile is_digit (tl r)) # natural_split (dropWhile is_digit (tl r))
        else ds # natural_split r
      else takeWhile (\<lambda>c. \<not> is_digit c) s # natural_split (dropWhile (\<lambda>c. \<not> is_digit c) s))"
  by pat_completeness auto
termination
proof (relation "measure length", goal_cases)
  case (2 s ds r)
  have "length (dropWhile is_digit (tl r)) \<le> length (tl r)" by (rule length_dropWhile_le)
  also have "\<dots> < length r" using 2 by (cases r) auto
  also have "\<dots> \<le> length s" unfolding 2 by (rule length_dropWhile_le)
  finally show ?case by simp
next
  case (3 s ds r)
  then show ?case by (cases s) (auto simp: length_dropWhile_le le_imp_less_Suc)
next
  case (4 s)
  then show ?case by (cases s) (auto simp: length_dropWhile_le le_imp_less_Suc)
qed simp

definition natural_key :: "query_env \<Rightarrow> pyval \<Rightarrow> natural_part list" where
  "natural_key env v = map (\<lambda>p. case qe_float env (PStr p) of Some x \<Rightarrow> NumberPart x | None \<Rightarrow> TextPart p)
     (natural_split (qe_fold env (py_str v)))"

fun part_eq :: "natural_part \<Rightarrow> natural_part \<Rightarrow> bool" where
  "part_eq (NumberPart x) (NumberPart y) = ieee_eq x y"
| "part_eq (TextPart a) (TextPart b) = (a = b)"
| "part_eq _ _ = False"

fun part_less :: "natural_part \<Rightarrow> natural_part \<Rightarrow> bool" where
  "part_less (NumberPart x) (NumberPart y) = ieee_less x y"
| "part_less (TextPart a) (TextPart b) = (a < b)"
| "part_less (NumberPart _) (TextPart _) = True"
| "part_less (TextPart _) (NumberPart _) = False"

text \<open>\<open><\<close> on tuples: the first position that differs decides, then the length.\<close>

fun key_less :: "natural_part list \<Rightarrow> natural_part list \<Rightarrow> bool" where
  "key_less [] ys = (ys \<noteq> [])"
| "key_less (x # xs) [] = False"
| "key_less (x # xs) (y # ys) = (if part_eq x y then key_less xs ys else part_less x y)"

definition sign_of :: "bool \<Rightarrow> bool \<Rightarrow> int" where
  "sign_of up down = (if up then 1 else 0) - (if down then 1 else 0)"

definition is_number_value :: "pyval \<Rightarrow> bool" where
  "is_number_value v = (case v of PInt _ \<Rightarrow> True | PFloat _ _ \<Rightarrow> True | _ \<Rightarrow> False)"

definition numeric_pair :: "string \<Rightarrow> pyval \<Rightarrow> pyval \<Rightarrow> bool" where
  "numeric_pair ty a b \<longleftrightarrow> ty \<in> {''number'', ''progress'', ''autoNumber''} \<or> (ty = ''formula'' \<and> is_number_value a \<and> is_number_value b)"

definition compare_finite :: "ieee \<Rightarrow> ieee \<Rightarrow> int" where
  "compare_finite a b = sign_of (ieee_less b a) (ieee_less a b)"

definition compare_smart_values :: "query_env \<Rightarrow> pyval \<Rightarrow> pyval \<Rightarrow> dict option \<Rightarrow> int" where
  "compare_smart_values env a b f =
     (let ty = (case f of None \<Rightarrow> ''text'' | Some d \<Rightarrow> py_str (py_or (dget d ''type'') (PStr ''text''))) in
      if py_eq a b then 0
      else if a \<in> {PNone, PStr []} then 1
      else if b \<in> {PNone, PStr []} then - 1
      else if numeric_pair ty a b \<and> is_finite (number_of env a) \<and> is_finite (number_of env b)
        then compare_finite (number_of env a) (number_of env b)
      else if ty = ''date'' \<and> is_finite (date_timestamp env a) \<and> is_finite (date_timestamp env b)
        then compare_finite (date_timestamp env a) (date_timestamp env b)
      else case (a, b) of
          (PBool x, PBool y) \<Rightarrow> sign_of (x \<and> \<not> y) (y \<and> \<not> x)
        | _ \<Rightarrow> sign_of (key_less (natural_key env b) (natural_key env a)) (key_less (natural_key env a) (natural_key env b)))"

definition is_desc :: "dict \<Rightarrow> bool" where
  "is_desc c \<longleftrightarrow> lower (str_or_empty (dget c ''order'')) = ''desc''"

fun compare_records :: "query_env \<Rightarrow> dict list \<Rightarrow> dict list \<Rightarrow> dict \<Rightarrow> dict \<Rightarrow> int" where
  "compare_records env flds [] a b = 0"
| "compare_records env flds (c # cs) a b =
     (let i = str_or_empty (dget c ''fieldId'');
          r = compare_smart_values env (dget a i) (dget b i) (query_field flds i);
          signed = (if is_desc c then - r else r) in
      if signed \<noteq> 0 then signed else compare_records env flds cs a b)"

text \<open>\<open>sorted(xs, key=cmp_to_key(cmp))\<close>: a stable sort.\<close>

fun insert_by :: "('a \<Rightarrow> 'a \<Rightarrow> int) \<Rightarrow> 'a \<Rightarrow> 'a list \<Rightarrow> 'a list" where
  "insert_by cmp x [] = [x]"
| "insert_by cmp x (y # ys) = (if 0 < cmp x y then y # insert_by cmp x ys else x # y # ys)"

definition sorted_by :: "('a \<Rightarrow> 'a \<Rightarrow> int) \<Rightarrow> 'a list \<Rightarrow> 'a list" where
  "sorted_by cmp xs = foldr (insert_by cmp) xs []"

definition sort_records :: "query_env \<Rightarrow> dict list \<Rightarrow> dict list \<Rightarrow> dict list \<Rightarrow> dict list" where
  "sort_records env flds sorts records =
     (if sorts = [] then records else sorted_by (compare_records env flds sorts) records)"

section \<open>A page in memory\<close>

record query_page =
  qp_records :: "dict list"
  qp_total :: nat
  qp_offset :: nat
  qp_limit :: nat
  qp_more :: bool
  qp_next :: "nat option"

definition safe_offset :: "int \<Rightarrow> nat" where "safe_offset off = nat (max 0 off)"
definition safe_query_limit :: "int \<Rightarrow> nat" where "safe_query_limit n = nat (max 1 (min max_query_limit n))"

definition page_of :: "dict list \<Rightarrow> nat \<Rightarrow> nat \<Rightarrow> nat \<Rightarrow> query_page" where
  "page_of page cnt off n =
     (let next_offset = off + length page in
      \<lparr>qp_records = page, qp_total = cnt, qp_offset = off, qp_limit = n, qp_more = (next_offset < cnt),
       qp_next = (if next_offset < cnt then Some next_offset else None)\<rparr>)"

definition too_many :: "dict list \<Rightarrow> dict list \<Rightarrow> exn option" where
  "too_many conditions sorts =
     (if length conditions > max_filters then Some (Exn ValueError ''Too many filters (max 50)'')
      else if length sorts > max_sorts then Some (Exn ValueError ''Too many sorts (max 20)'')
      else None)"

definition matching_sorted :: "query_env \<Rightarrow> dict list \<Rightarrow> dict list \<Rightarrow> dict list \<Rightarrow> dict list \<Rightarrow> dict list" where
  "matching_sorted env flds records conditions sorts =
     sort_records env flds sorts (filter (matches_filters env flds conditions) records)"

definition query_records_in_memory ::
  "query_env \<Rightarrow> dict list \<Rightarrow> dict list \<Rightarrow> dict list \<Rightarrow> dict list \<Rightarrow> int \<Rightarrow> int \<Rightarrow> query_page res" where
  "query_records_in_memory env flds records conditions sorts off n =
     (case too_many conditions sorts of
        Some e \<Rightarrow> Inl e
      | None \<Rightarrow>
          let ordered = matching_sorted env flds records conditions sorts in
          Inr (page_of (take (safe_query_limit n) (drop (safe_offset off) ordered)) (length ordered) (safe_offset off) (safe_query_limit n)))"

section \<open>Compilation to SQL\<close>

text \<open>
  The boolean expressions the compiler builds over the text of one JSON key,
  \<open>TableRecord.data[field].as_string()\<close>.
\<close>

datatype sql_cond =
    SqlTrue
  | SqlFalse
  | SqlEmpty string
  | SqlNot sql_cond
  | SqlAnd sql_cond sql_cond
  | SqlOr sql_cond sql_cond
  | SqlLowerIs string string
  | SqlLowerHas string string
  | SqlNumber string order_op rat

definition select_expected :: "query_env \<Rightarrow> dict \<Rightarrow> pyval \<Rightarrow> string \<times> string" where
  "select_expected env f expected =
     (let text = comparable_text expected; folded = qe_fold env text in
      case List.find (\<lambda>opt. folded = qe_fold env (option_id opt) \<or> folded = qe_fold env (option_label opt)) (query_options f) of
        Some opt \<Rightarrow> (option_id opt, option_label opt)
      | None \<Rightarrow> (text, text))"

definition emptiness :: "string \<Rightarrow> string \<Rightarrow> sql_cond option" where
  "emptiness operator i = (if operator = ''is_empty'' then Some (SqlEmpty i)
     else if operator = ''is_not_empty'' then Some (SqlNot (SqlEmpty i)) else None)"

definition text_condition :: "string \<Rightarrow> string \<Rightarrow> string \<Rightarrow> sql_cond option" where
  "text_condition operator i expected_text =
     (if operator = ''contains'' then Some (if expected_text = [] then SqlTrue else SqlLowerHas i expected_text)
      else if operator = ''equals'' \<or> operator = ''is'' then Some (if expected_text = [] then SqlEmpty i else SqlLowerIs i expected_text)
      else emptiness operator i)"

definition select_condition :: "string \<Rightarrow> string \<Rightarrow> string \<Rightarrow> string \<Rightarrow> sql_cond option" where
  "select_condition operator i folded_id folded_label =
     (let equals_expr = (if folded_id = [] \<and> folded_label = [] then SqlEmpty i
            else if folded_id = folded_label then SqlLowerIs i folded_id
            else SqlOr (SqlLowerIs i folded_id) (SqlLowerIs i folded_label)) in
      if operator = ''equals'' \<or> operator = ''is'' then Some equals_expr
      else if operator = ''is_not'' then Some (SqlNot equals_expr)
      else emptiness operator i)"

definition number_condition :: "string \<Rightarrow> string \<Rightarrow> string \<Rightarrow> ieee \<Rightarrow> sql_cond option" where
  "number_condition operator i expected_text numeric =
     (if operator = ''equals'' then Some (if expected_text = [] then SqlEmpty i else SqlLowerIs i expected_text)
      else case emptiness operator i of
        Some c \<Rightarrow> Some c
      | None \<Rightarrow> (case order_op_of operator of
          None \<Rightarrow> None
        | Some op \<Rightarrow> Some (case numeric of Fin q \<Rightarrow> SqlNumber i op q | _ \<Rightarrow> SqlFalse)))"

definition compile_filter_condition :: "query_env \<Rightarrow> dict \<Rightarrow> dict list \<Rightarrow> sql_cond option" where
  "compile_filter_condition env c flds =
     (let i = str_or_empty (dget c ''fieldId''); operator = str_or_empty (dget c ''operator''); expected = dget c ''value'' in
      case query_field flds i of
        None \<Rightarrow> None
      | Some f \<Rightarrow>
          let ty = field_type_of f in
          if ty \<in> set text_sql_types then text_condition operator i (folded_text env expected)
          else if ty = ''select'' then
            (case select_expected env f expected of (oid, label) \<Rightarrow> select_condition operator i (qe_fold env oid) (qe_fold env label))
          else if ty \<in> set number_sql_types then number_condition operator i (folded_text env expected) (number_of env expected)
          else None)"

definition compile_filter_expression :: "query_env \<Rightarrow> dict list \<Rightarrow> dict list \<Rightarrow> sql_cond option" where
  "compile_filter_expression env conditions flds =
     (case conditions of
        [] \<Rightarrow> None
      | c # cs \<Rightarrow>
          if list_all (\<lambda>c. compile_filter_condition env c flds \<noteq> None) conditions then
            Some (foldl (\<lambda>combined c'. let e = the (compile_filter_condition env c' flds) in
                if filter_logic c' then SqlOr combined e else SqlAnd combined e)
              (the (compile_filter_condition env c flds)) cs)
          else None)"

text \<open>One sort: an empty rank and a value, ascending or descending.\<close>

record sql_sort =
  ss_field :: string
  ss_numeric :: bool
  ss_desc :: bool

definition compile_sort :: "dict list \<Rightarrow> dict \<Rightarrow> sql_sort option" where
  "compile_sort flds c =
     (let i = str_or_empty (dget c ''fieldId'') in
      case query_field flds i of
        None \<Rightarrow> None
      | Some f \<Rightarrow>
          if field_type_of f \<in> set sort_number_sql_types then Some \<lparr>ss_field = i, ss_numeric = True, ss_desc = is_desc c\<rparr>
          else if field_type_of f \<in> set sort_text_sql_types then Some \<lparr>ss_field = i, ss_numeric = False, ss_desc = is_desc c\<rparr>
          else None)"

definition compile_sort_expressions :: "dict list \<Rightarrow> dict list \<Rightarrow> sql_sort list option" where
  "compile_sort_expressions sorts flds =
     (if list_all (\<lambda>c. compile_sort flds c \<noteq> None) sorts then Some (map (\<lambda>c. the (compile_sort flds c)) sorts) else None)"

definition exact_filter :: "query_env \<Rightarrow> dict list \<Rightarrow> dict \<Rightarrow> bool" where
  "exact_filter env flds c =
     (case query_field flds (str_or_empty (dget c ''fieldId'')) of
        None \<Rightarrow> False
      | Some f \<Rightarrow>
          let ty = field_type_of f; operator = str_or_empty (dget c ''operator'') in
          (operator \<in> {''is_empty'', ''is_not_empty''} \<and> (ty \<in> set text_sql_types \<or> ty \<in> set number_sql_types \<or> ty = ''select''))
          \<or> (ty \<in> set number_sql_types \<and> order_op_of operator \<noteq> None \<and> is_finite (number_of env (dget c ''value''))))"

definition filters_support_exact_sql_paging :: "query_env \<Rightarrow> dict list \<Rightarrow> dict list \<Rightarrow> bool" where
  "filters_support_exact_sql_paging env conditions flds = list_all (exact_filter env flds) conditions"

definition sorts_support_exact_sql_paging :: "dict list \<Rightarrow> dict list \<Rightarrow> bool" where
  "sorts_support_exact_sql_paging sorts flds = list_all (\<lambda>c.
     case query_field flds (str_or_empty (dget c ''fieldId'')) of None \<Rightarrow> False | Some f \<Rightarrow> field_type_of f \<in> set sort_number_sql_types) sorts"

section \<open>What the database does with it\<close>

text \<open>
  The text of a JSON value (nothing is NULL), \<open>lower\<close>, the cast of a text to a float (taken as
  total), and whether NULL is ordered above every value.
\<close>

record sql_engine =
  sq_text :: "pyval \<Rightarrow> string option"
  sq_lower :: "string \<Rightarrow> string"
  sq_number :: "string \<Rightarrow> rat"
  sq_null_high :: bool

definition sql_text :: "sql_engine \<Rightarrow> dict \<Rightarrow> string \<Rightarrow> string option" where
  "sql_text sq d i = (if dhas d i then sq_text sq (dget d i) else None)"

definition sql_is_empty :: "sql_engine \<Rightarrow> dict \<Rightarrow> string \<Rightarrow> bool" where
  "sql_is_empty sq d i = (case sql_text sq d i of None \<Rightarrow> True | Some s \<Rightarrow> s = [])"

definition sql_value :: "sql_engine \<Rightarrow> dict \<Rightarrow> string \<Rightarrow> rat" where
  "sql_value sq d i = (case sql_text sq d i of None \<Rightarrow> 0 | Some s \<Rightarrow> if s = [] then 0 else sq_number sq s)"

text \<open>Three-valued logic: an unknown comparison is \<open>None\<close>.\<close>

fun sql_and :: "bool option \<Rightarrow> bool option \<Rightarrow> bool option" where
  "sql_and (Some False) _ = Some False"
| "sql_and (Some True) b = b"
| "sql_and None b = (if b = Some False then Some False else None)"

fun sql_or :: "bool option \<Rightarrow> bool option \<Rightarrow> bool option" where
  "sql_or (Some True) _ = Some True"
| "sql_or (Some False) b = b"
| "sql_or None b = (if b = Some True then Some True else None)"

fun sql_eval :: "sql_engine \<Rightarrow> dict \<Rightarrow> sql_cond \<Rightarrow> bool option" where
  "sql_eval sq d SqlTrue = Some True"
| "sql_eval sq d SqlFalse = Some False"
| "sql_eval sq d (SqlEmpty i) = Some (sql_is_empty sq d i)"
| "sql_eval sq d (SqlNot c) = map_option Not (sql_eval sq d c)"
| "sql_eval sq d (SqlAnd a b) = sql_and (sql_eval sq d a) (sql_eval sq d b)"
| "sql_eval sq d (SqlOr a b) = sql_or (sql_eval sq d a) (sql_eval sq d b)"
| "sql_eval sq d (SqlLowerIs i s) = map_option (\<lambda>x. sq_lower sq x = s) (sql_text sq d i)"
| "sql_eval sq d (SqlLowerHas i s) = map_option (\<lambda>x. substring s (sq_lower sq x)) (sql_text sq d i)"
| "sql_eval sq d (SqlNumber i op q) = Some (compare_numbers op (Fin (sql_value sq d i)) (Fin q))"

definition sql_where :: "sql_engine \<Rightarrow> sql_cond option \<Rightarrow> dict \<Rightarrow> bool" where
  "sql_where sq cond d = (case cond of None \<Rightarrow> True | Some c \<Rightarrow> sql_eval sq d c = Some True)"

definition sql_compare_nullable :: "sql_engine \<Rightarrow> 'a::linorder option \<Rightarrow> 'a option \<Rightarrow> int" where
  "sql_compare_nullable sq x y = (case (x, y) of
       (None, None) \<Rightarrow> 0
     | (None, Some _) \<Rightarrow> if sq_null_high sq then 1 else - 1
     | (Some _, None) \<Rightarrow> if sq_null_high sq then - 1 else 1
     | (Some a, Some b) \<Rightarrow> sign_of (b < a) (a < b))"

definition sql_compare_one :: "sql_engine \<Rightarrow> sql_sort \<Rightarrow> dict \<Rightarrow> dict \<Rightarrow> int" where
  "sql_compare_one sq x a b =
     (let i = ss_field x; ea = sql_is_empty sq a i; eb = sql_is_empty sq b i;
          r = (if ea \<noteq> eb then sign_of ea eb
               else if ss_numeric x
               then sql_compare_nullable sq (map_option (sq_number sq) (sql_text sq a i)) (map_option (sq_number sq) (sql_text sq b i))
               else sql_compare_nullable sq (map_option (sq_lower sq) (sql_text sq a i)) (map_option (sq_lower sq) (sql_text sq b i))) in
      if ss_desc x then - r else r)"

fun sql_compare :: "sql_engine \<Rightarrow> sql_sort list \<Rightarrow> dict \<Rightarrow> dict \<Rightarrow> int" where
  "sql_compare sq [] a b = 0"
| "sql_compare sq (x # xs) a b =
     (let r = sql_compare_one sq x a b in if r \<noteq> 0 then r else sql_compare sq xs a b)"

section \<open>The query\<close>

record query_result =
  qr_page :: query_page
  qr_mode :: string
  qr_sql_filter :: bool
  qr_sql_sort :: bool
  qr_paged :: bool

definition row_dict :: "table_record \<Rightarrow> dict" where
  "row_dict r = dset ''id'' (PStr (rec_id r)) (rec_data r)"

text \<open>The rows the statement selects, in its order.\<close>

definition sql_rows :: "sql_engine \<Rightarrow> tables \<Rightarrow> string \<Rightarrow> string list option \<Rightarrow> sql_cond option \<Rightarrow> sql_sort list option \<Rightarrow> table_record list" where
  "sql_rows sq t table_id allowed cond sorts =
     (let rows = sort_key (\<lambda>r. (rec_order r, rec_id r)) (select t_records (\<lambda>r. rec_table r = table_id
            \<and> (case allowed of None \<Rightarrow> True | Some ids \<Rightarrow> rec_id r \<in> set ids) \<and> sql_where sq cond (rec_data r)) t) in
      case sorts of
        None \<Rightarrow> rows
      | Some ss \<Rightarrow> sorted_by (\<lambda>a b. sql_compare sq ss (rec_data a) (rec_data b)) rows)"

definition query_records_db ::
  "query_env \<Rightarrow> sql_engine \<Rightarrow> parser \<Rightarrow> evaluator \<Rightarrow> tables \<Rightarrow> string \<Rightarrow> dict list \<Rightarrow> dict list \<Rightarrow> dict list \<Rightarrow> int \<Rightarrow> int \<Rightarrow> string list option
     \<Rightarrow> query_result res" where
  "query_records_db env sq parse ev t table_id flds conditions sorts off n allowed =
     (case too_many conditions sorts of
        Some e \<Rightarrow> Inl e
      | None \<Rightarrow>
          let cond = compile_filter_expression env conditions flds;
              order = compile_sort_expressions sorts flds;
              sql_filter = (conditions \<noteq> [] \<and> cond \<noteq> None);
              sql_order = (sorts \<noteq> [] \<and> order \<noteq> None);
              paged = ((conditions = [] \<or> cond \<noteq> None) \<and> (sorts = [] \<or> order \<noteq> None)
                \<and> filters_support_exact_sql_paging env conditions flds \<and> sorts_support_exact_sql_paging sorts flds);
              rows = sql_rows sq t table_id allowed cond order;
              exact = (\<lambda>rs. materialize_records parse ev flds (map row_dict rs)) in
          if allowed = Some [] then
            Inr \<lparr>qr_page = page_of [] 0 (safe_offset off) (safe_query_limit n), qr_mode = ''sql'', qr_sql_filter = sql_filter,
                 qr_sql_sort = sql_order, qr_paged = True\<rparr>
          else if paged then
            let page = take (safe_query_limit n) (matching_sorted env flds
                  (exact (take (safe_query_limit n) (drop (safe_offset off) rows))) conditions sorts) in
            Inr \<lparr>qr_page = page_of page (length rows) (safe_offset off) (safe_query_limit n), qr_mode = ''sql'',
                 qr_sql_filter = sql_filter, qr_sql_sort = sql_order, qr_paged = True\<rparr>
          else
            bind_res (query_records_in_memory env flds (exact rows) conditions sorts off n) (\<lambda>page.
            Inr \<lparr>qr_page = page,
                 qr_mode = (if (conditions = [] \<or> sql_filter) \<and> (sorts = [] \<or> sql_order) then ''sql''
                   else if sql_filter \<or> sql_order then ''hybrid'' else ''memory''),
                 qr_sql_filter = sql_filter, qr_sql_sort = sql_order, qr_paged = False\<rparr>))"

end
