(* ===== verification/QueryProps.thy ===== *)
theory QueryProps
  imports RecordQuery "HOL-Library.Multiset"
begin

text \<open>
  What the queries of \<open>RecordQuery\<close> promise: pages cover the ordered matches, a query that the
  database evaluates answers as the exact evaluation of the visible rows would, and where it does
  not.
\<close>

section \<open>Stable sorting by a comparison\<close>

lemma set_insert_by [simp]: "set (insert_by cmp x ys) = insert x (set ys)"
  by (induction ys) auto

lemma mset_insert_by [simp]: "mset (insert_by cmp x ys) = add_mset x (mset ys)"
  by (induction ys) auto

lemma sorted_by_simps [simp]: "sorted_by cmp [] = []" "sorted_by cmp (x # xs) = insert_by cmp x (sorted_by cmp xs)"
  by (simp_all add: sorted_by_def)

lemma mset_sorted_by [simp]: "mset (sorted_by cmp xs) = mset xs"
  by (induction xs) auto

lemma set_sorted_by [simp]: "set (sorted_by cmp xs) = set xs"
  by (induction xs) auto

lemma insert_by_map:
  "(\<And>y. y \<in> set ys \<Longrightarrow> cmp (f x) (f y) = cmp' x y) \<Longrightarrow> insert_by cmp (f x) (map f ys) = map f (insert_by cmp' x ys)"
  by (induction ys) auto

lemma sorted_by_map:
  "(\<And>x y. x \<in> set xs \<Longrightarrow> y \<in> set xs \<Longrightarrow> cmp (f x) (f y) = cmp' x y) \<Longrightarrow> sorted_by cmp (map f xs) = map f (sorted_by cmp' xs)"
  by (induction xs) (auto intro!: insert_by_map)

locale comparison =
  fixes cmp :: "'a \<Rightarrow> 'a \<Rightarrow> int"
  assumes cmp_flip: "cmp y x = - cmp x y"
    and cmp_trans: "cmp x y \<le> 0 \<Longrightarrow> cmp y z \<le> 0 \<Longrightarrow> cmp x z \<le> 0"
begin

lemma cmp_refl: "cmp x x = 0"
  using cmp_flip[of x x] by simp

lemma cmp_strict:
  assumes "cmp x y \<le> 0" "cmp y z \<le> 0" "cmp x y < 0 \<or> cmp y z < 0"
  shows "cmp x z < 0"
proof (rule ccontr)
  assume "\<not> cmp x z < 0"
  then have zx: "cmp z x \<le> 0" using cmp_flip[of x z] by simp
  from cmp_trans[OF assms(2) zx] cmp_trans[OF zx assms(1)] assms(3) show False
    using cmp_flip[of x y] cmp_flip[of y z] by auto
qed

lemma insert_front: "(\<And>y. y \<in> set ys \<Longrightarrow> cmp x y \<le> 0) \<Longrightarrow> insert_by cmp x ys = x # ys"
  by (cases ys) force+

lemma insert_ordered:
  "sorted_wrt (\<lambda>a b. cmp a b \<le> 0) ys \<Longrightarrow> sorted_wrt (\<lambda>a b. cmp a b \<le> 0) (insert_by cmp x ys)"
proof (induction ys)
  case (Cons y ys)
  show ?case
  proof (cases "0 < cmp x y")
    case True
    then have "cmp y x \<le> 0" using cmp_flip[of x y] by simp
    with True Cons show ?thesis by auto
  next
    case False
    then show ?thesis using Cons.prems by (auto simp: not_less intro: cmp_trans)
  qed
qed simp

lemma sorted_by_ordered: "sorted_wrt (\<lambda>a b. cmp a b \<le> 0) (sorted_by cmp xs)"
  by (induction xs) (auto intro: insert_ordered)

lemma sorted_by_id: "sorted_wrt (\<lambda>a b. cmp a b \<le> 0) xs \<Longrightarrow> sorted_by cmp xs = xs"
  by (induction xs) (auto intro: insert_front)

lemma filter_insert:
  "sorted_wrt (\<lambda>a b. cmp a b \<le> 0) ys \<Longrightarrow>
   filter P (insert_by cmp x ys) = (if P x then insert_by cmp x (filter P ys) else filter P ys)"
proof (induction ys)
  case (Cons y ys)
  show ?case
  proof (cases "0 < cmp x y")
    case True
    with Cons show ?thesis by auto
  next
    case False
    then have "cmp x z \<le> 0" if "z \<in> set (y # ys)" for z
      using that Cons.prems by (auto simp: not_less intro: cmp_trans)
    then have "insert_by cmp x (filter P (y # ys)) = x # filter P (y # ys)"
      by (intro insert_front) (auto split: if_splits)
    with False show ?thesis by auto
  qed
qed simp

lemma filter_sorted_by: "filter P (sorted_by cmp xs) = sorted_by cmp (filter P xs)"
proof (induction xs)
  case (Cons x xs)
  from filter_insert[OF sorted_by_ordered, of P x xs] Cons show ?case by simp
qed simp

lemma sorted_by_page: "sorted_by cmp (take n (drop k (sorted_by cmp xs))) = take n (drop k (sorted_by cmp xs))"
  by (intro sorted_by_id sorted_wrt_take sorted_wrt_drop sorted_by_ordered)

end

lemma comparison_lex:
  assumes c: "comparison c" and d: "comparison d"
  shows "comparison (\<lambda>a b. if c a b \<noteq> 0 then c a b else d a b)"
proof
  fix x y z
  note flips = comparison.cmp_flip[OF c, of y x] comparison.cmp_flip[OF d, of y x]
  show "(if c y x \<noteq> 0 then c y x else d y x) = - (if c x y \<noteq> 0 then c x y else d x y)"
    using flips by simp
  assume xy: "(if c x y \<noteq> 0 then c x y else d x y) \<le> 0" and yz: "(if c y z \<noteq> 0 then c y z else d y z) \<le> 0"
  then have le: "c x y \<le> 0" "c y z \<le> 0" by (auto split: if_splits)
  show "(if c x z \<noteq> 0 then c x z else d x z) \<le> 0"
  proof (cases "c x y < 0 \<or> c y z < 0")
    case True
    with comparison.cmp_strict[OF c le] show ?thesis by auto
  next
    case False
    with le have "c x y = 0" "c y z = 0" by auto
    with xy yz comparison.cmp_trans[OF d, of x y z] comparison.cmp_trans[OF c, of x y z] show ?thesis by auto
  qed
qed

lemma comparison_minus:
  assumes c: "comparison c"
  shows "comparison (\<lambda>a b. - c a b)"
proof
  fix x y z
  show "- c y x = - (- c x y)" using comparison.cmp_flip[OF c, of y x] by simp
  assume "- c x y \<le> 0" "- c y z \<le> 0"
  then show "- c x z \<le> 0"
    using comparison.cmp_trans[OF c, of z y x] comparison.cmp_flip[OF c] by (metis neg_le_0_iff_le minus_minus)
qed

lemma comparison_flag: "comparison (\<lambda>a b. sign_of (e a) (e b))"
  by unfold_locales (auto simp: sign_of_def split: if_splits)

lemma comparison_nullable: "comparison (\<lambda>a b. sql_compare_nullable sq (k a) (k b))"
  by unfold_locales (auto simp: sql_compare_nullable_def sign_of_def split: option.splits if_splits)

lemma comparison_one: "comparison (sql_compare_one sq s)"
proof -
  let ?e = "\<lambda>a. sql_is_empty sq a (ss_field s)"
  let ?n = "\<lambda>a b. sql_compare_nullable sq (map_option (sq_number sq) (sql_text sq a (ss_field s))) (map_option (sq_number sq) (sql_text sq b (ss_field s)))"
  let ?t = "\<lambda>a b. sql_compare_nullable sq (map_option (sq_lower sq) (sql_text sq a (ss_field s))) (map_option (sq_lower sq) (sql_text sq b (ss_field s)))"
  let ?r = "\<lambda>a b. if sign_of (?e a) (?e b) \<noteq> 0 then sign_of (?e a) (?e b) else if ss_numeric s then ?n a b else ?t a b"
  have "comparison (if ss_numeric s then ?n else ?t)" by (simp add: comparison_nullable)
  then have "comparison (\<lambda>a b. if ss_numeric s then ?n a b else ?t a b)" by (simp split: if_splits)
  from comparison_lex[OF comparison_flag this] have r: "comparison ?r" .
  have "sql_compare_one sq s = (\<lambda>a b. if ss_desc s then - ?r a b else ?r a b)"
    by (rule ext)+ (auto simp: sql_compare_one_def Let_def sign_of_def)
  with r comparison_minus[OF r] show ?thesis by (cases "ss_desc s") (simp_all only: if_True if_False)
qed

lemma comparison_sql: "comparison (sql_compare sq ss)"
proof (induction ss)
  case Nil
  show ?case by unfold_locales simp_all
next
  case (Cons s ss)
  from comparison_lex[OF comparison_one this, of sq s] show ?case by (simp add: Let_def fun_eq_iff[abs_def] cong: if_cong)
qed

interpretation sql_order: comparison "\<lambda>a b. sql_compare sq ss (rec_data a) (rec_data b)" for sq ss
  by unfold_locales (rule comparison.cmp_flip[OF comparison_sql], rule comparison.cmp_trans[OF comparison_sql])


section \<open>Cells the compiled filters read as the exact evaluation does\<close>

text \<open>
  What the queries rely on of the database and of Python: JSON null is NULL, a string is its own text,
  \<open>lower\<close> and \<open>casefold\<close> both map the letters A to Z of an ASCII text to a to z and leave the rest of it,
  and no text but the empty one is folded to the empty one. Beyond ASCII the two differ: SQLite's
  \<open>lower\<close> knows the ASCII letters only, and no database expands a sharp s.
\<close>

definition ascii_text :: "string \<Rightarrow> bool" where
  "ascii_text s \<longleftrightarrow> list_all (\<lambda>c. (of_char c :: nat) < 128) s"

definition sql_laws :: "query_env \<Rightarrow> sql_engine \<Rightarrow> bool" where
  "sql_laws env sq \<longleftrightarrow> sq_text sq PNone = None \<and> (\<forall>s. sq_text sq (PStr s) = Some s)
     \<and> (\<forall>s. ascii_text s \<longrightarrow> sq_lower sq s = lower s \<and> qe_fold env s = lower s) \<and> (\<forall>s. qe_fold env s = [] \<longleftrightarrow> s = [])"

text \<open>A text that the database lowers to what \<open>casefold\<close> makes of it: an ASCII text, or one whose other
  characters have no case, such as Chinese ones. The cells must hold such texts; filter values and
  options may hold any.\<close>

definition same_fold :: "query_env \<Rightarrow> sql_engine \<Rightarrow> string \<Rightarrow> bool" where
  "same_fold env sq s \<longleftrightarrow> sq_lower sq s = qe_fold env s"

lemma ascii_same_fold: "sql_laws env sq \<Longrightarrow> ascii_text s \<Longrightarrow> same_fold env sq s"
  by (simp add: sql_laws_def same_fold_def)

definition text_cell :: "query_env \<Rightarrow> sql_engine \<Rightarrow> pyval \<Rightarrow> bool" where
  "text_cell env sq v \<longleftrightarrow> v = PNone \<or> (\<exists>s. v = PStr s \<and> same_fold env sq s)"

definition number_cell :: "query_env \<Rightarrow> sql_engine \<Rightarrow> pyval \<Rightarrow> bool" where
  "number_cell env sq v \<longleftrightarrow> v = PNone \<or> (is_number_value v \<and> ascii_text (py_str v) \<and> (\<exists>q. num_of v = Some q \<and> number_of env v = Fin q
     \<and> sq_text sq v = Some (py_str v) \<and> py_str v \<noteq> [] \<and> sq_number sq (py_str v) = q))"

definition text_typed :: "dict \<Rightarrow> bool" where
  "text_typed f \<longleftrightarrow> field_type_of f \<in> set text_sql_types \<or> field_type_of f = ''select''"

definition number_typed :: "dict \<Rightarrow> bool" where
  "number_typed f \<longleftrightarrow> field_type_of f \<in> set number_sql_types \<or> field_type_of f = ''autoNumber''"

definition clean_row :: "query_env \<Rightarrow> sql_engine \<Rightarrow> dict list \<Rightarrow> dict \<Rightarrow> bool" where
  "clean_row env sq flds d \<longleftrightarrow> (\<forall>f\<in>set flds. (text_typed f \<longrightarrow> text_cell env sq (dget d (field_key f)))
     \<and> (number_typed f \<longrightarrow> number_cell env sq (dget d (field_key f))))"

text \<open>Options have ids and labels, and no two different ones share a text.\<close>

definition option_texts :: "query_env \<Rightarrow> dict \<Rightarrow> string set" where
  "option_texts env opt = {qe_fold env (option_id opt), qe_fold env (option_label opt)}"

definition options_ok :: "query_env \<Rightarrow> dict \<Rightarrow> bool" where
  "options_ok env f \<longleftrightarrow> (\<forall>a\<in>set (query_options f). option_id a \<noteq> [] \<and> option_label a \<noteq> []
     \<and> (\<forall>b\<in>set (query_options f). option_texts env a \<inter> option_texts env b \<noteq> {} \<longrightarrow> option_id a = option_id b \<and> option_label a = option_label b))"

definition faithful_filter :: "query_env \<Rightarrow> dict list \<Rightarrow> dict \<Rightarrow> bool" where
  "faithful_filter env flds c \<longleftrightarrow> (case query_field flds (str_or_empty (dget c ''fieldId'')) of None \<Rightarrow> True
     | Some f \<Rightarrow> \<not> (field_type_of f = ''select'' \<and> str_or_empty (dget c ''operator'') = ''is_not'')
         \<and> number_of env (dget c ''value'') \<notin> {PosInf, NegInf})"

definition queryable :: "query_env \<Rightarrow> dict list \<Rightarrow> bool" where
  "queryable env flds \<longleftrightarrow> stable_ids flds \<and> acyclic (formula_deps flds) \<and> ''id'' \<notin> set (map field_key flds)
     \<and> (\<forall>f\<in>set flds. options_ok env f)"

lemma sql_text_dget:
  assumes "sql_laws env sq"
  shows "sql_text sq d i = sq_text sq (dget d i)"
proof (cases "dhas d i")
  case False
  then have "dget d i = PNone" by (simp add: dget_def dhas_def map_of_eq_None_iff[THEN iffD2])
  with False assms show ?thesis by (simp add: sql_text_def sql_laws_def)
qed (simp add: sql_text_def)

lemma query_field_some:
  assumes "stable_ids flds" "query_field flds i = Some f"
  shows "f \<in> set flds" "field_key f = i"
proof -
  from assms(2) have f: "f \<in> set flds" "py_str (dget f ''id'') = i" "dget f ''id'' \<noteq> PNone"
    using find_SomeD[of _ "rev flds" f] by (auto simp: query_field_def)
  from f(1) assms(1) have "field_key f \<noteq> []" unfolding stable_ids_def by (metis image_eqI list.set_map)
  with f show "f \<in> set flds" "field_key f = i" by (auto simp: field_key_def py_str_def split: pyval.splits)
qed

lemma type_cases:
  "text_typed f \<Longrightarrow> field_type_of f \<in> {''text'', ''url'', ''email'', ''phone'', ''select''}"
  "number_typed f \<Longrightarrow> field_type_of f \<in> {''number'', ''progress'', ''rating'', ''autoNumber''}"
  by (auto simp: text_typed_def number_typed_def text_sql_types_def number_sql_types_def)

lemma not_formula:
  assumes "stable_ids flds" "query_field flds i = Some f" "text_typed f \<or> number_typed f"
  shows "i \<notin> formula_ids flds"
proof
  assume "i \<in> formula_ids flds"
  then obtain g where g: "g \<in> set flds" "is_formula_field g" "field_key g = i" by (auto simp: formula_ids_def)
  have "g = f"
    using query_field_some[OF assms(1,2)] g assms(1) by (auto simp: stable_ids_def distinct_map inj_on_def)
  moreover have "lower t \<noteq> ''formula''"
    if "t \<in> {''text'', ''url'', ''email'', ''phone'', ''select'', ''number'', ''progress'', ''rating'', ''autoNumber''}" for t
  proof -
    have "list_all (\<lambda>t. lower t \<noteq> ''formula'') [''text'', ''url'', ''email'', ''phone'', ''select'', ''number'', ''progress'', ''rating'', ''autoNumber'']"
      by code_simp
    with that show ?thesis by auto
  qed
  ultimately show False using g(2) assms(3) type_cases[of f] by (auto simp: is_formula_field_def field_type_of_def)
qed

lemma normalize_plain:
  "field_type_of f \<notin> {''select'', ''multiSelect'', ''member'', ''autoNumber''} \<Longrightarrow> v \<notin> range PList \<Longrightarrow> normalize_field_value env f v = v"
  by (cases v) (simp_all add: Let_def)

definition shown_option :: "dict \<Rightarrow> string \<Rightarrow> string" where
  "shown_option f s = (case List.find (\<lambda>opt. s = option_id opt \<or> s = option_label opt) (query_options f) of
     None \<Rightarrow> s | Some opt \<Rightarrow> option_label opt)"

lemma normalize_select:
  "field_type_of f = ''select'' \<Longrightarrow> v \<notin> range PList \<Longrightarrow> normalize_field_value env f v = PStr (shown_option f (comparable_text v))"
  by (cases v) (simp_all add: Let_def shown_option_def split: option.splits)

lemma shown_empty:
  assumes "options_ok env f"
  shows "shown_option f s = [] \<longleftrightarrow> s = []"
proof (cases "List.find (\<lambda>opt. s = option_id opt \<or> s = option_label opt) (query_options f)")
  case (Some a)
  from find_SomeD[OF Some] assms have "s \<noteq> []" "option_label a \<noteq> []" by (auto simp: options_ok_def)
  with Some show ?thesis by (simp add: shown_option_def)
qed (simp add: shown_option_def)

lemma text_cell_sql:
  assumes "sql_laws env sq" "text_cell env sq (dget d i)"
  shows "sql_is_empty sq d i \<longleftrightarrow> comparable_text (dget d i) = []"
    "comparable_text (dget d i) \<noteq> [] \<Longrightarrow> sql_text sq d i = Some (comparable_text (dget d i))"
    "is_blank (dget d i) \<longleftrightarrow> comparable_text (dget d i) = []"
    "dget d i \<notin> range PList"
    "sq_lower sq (comparable_text (dget d i)) = qe_fold env (comparable_text (dget d i))"
proof -
  note laws = assms(1)[unfolded sql_laws_def] sql_text_dget[OF assms(1), of d i]
  consider "dget d i = PNone" | s where "dget d i = PStr s" "same_fold env sq s" using assms(2) by (auto simp: text_cell_def)
  then have "(sql_is_empty sq d i \<longleftrightarrow> comparable_text (dget d i) = [])
      \<and> (comparable_text (dget d i) \<noteq> [] \<longrightarrow> sql_text sq d i = Some (comparable_text (dget d i)))
      \<and> (is_blank (dget d i) \<longleftrightarrow> comparable_text (dget d i) = []) \<and> dget d i \<notin> range PList
      \<and> sq_lower sq (comparable_text (dget d i)) = qe_fold env (comparable_text (dget d i))"
    by cases (use laws in \<open>auto simp: sql_is_empty_def comparable_text_def is_blank_def py_str_def same_fold_def ascii_text_def\<close>)
  then show "sql_is_empty sq d i \<longleftrightarrow> comparable_text (dget d i) = []"
    "comparable_text (dget d i) \<noteq> [] \<Longrightarrow> sql_text sq d i = Some (comparable_text (dget d i))"
    "is_blank (dget d i) \<longleftrightarrow> comparable_text (dget d i) = []"
    "dget d i \<notin> range PList"
    "sq_lower sq (comparable_text (dget d i)) = qe_fold env (comparable_text (dget d i))" by blast+
qed

lemma number_cell_sql:
  assumes "sql_laws env sq" "number_cell env sq (dget d i)"
  shows "sql_is_empty sq d i \<longleftrightarrow> dget d i = PNone"
    "dget d i \<noteq> PNone \<Longrightarrow> sql_text sq d i = Some (comparable_text (dget d i))"
    "number_of env (dget d i) = Fin (sql_value sq d i)"
    "dget d i \<noteq> PNone \<Longrightarrow> num_of (dget d i) = Some (sql_value sq d i)"
    "comparable_text (dget d i) = [] \<longleftrightarrow> dget d i = PNone"
    "is_blank (dget d i) \<longleftrightarrow> dget d i = PNone"
    "dget d i \<notin> range PList"
    "dget d i \<noteq> PNone \<Longrightarrow> sq_lower sq (comparable_text (dget d i)) = qe_fold env (comparable_text (dget d i))"
proof -
  note key = sql_text_dget[OF assms(1), of d i]
  have null: "sq_text sq PNone = None" using assms(1) by (simp add: sql_laws_def)
  have "(sql_is_empty sq d i \<longleftrightarrow> dget d i = PNone) \<and> (dget d i \<noteq> PNone \<longrightarrow> sql_text sq d i = Some (comparable_text (dget d i)))
    \<and> number_of env (dget d i) = Fin (sql_value sq d i) \<and> (dget d i \<noteq> PNone \<longrightarrow> num_of (dget d i) = Some (sql_value sq d i))
    \<and> (comparable_text (dget d i) = [] \<longleftrightarrow> dget d i = PNone) \<and> (is_blank (dget d i) \<longleftrightarrow> dget d i = PNone) \<and> dget d i \<notin> range PList
    \<and> (dget d i \<noteq> PNone \<longrightarrow> sq_lower sq (comparable_text (dget d i)) = qe_fold env (comparable_text (dget d i)))"
  proof (cases "dget d i = PNone")
    case True
    with key null show ?thesis
      by (auto simp: sql_is_empty_def sql_value_def comparable_text_def is_blank_def number_of_def)
  next
    case False
    with assms(2) have n: "is_number_value (dget d i)" "sq_text sq (dget d i) = Some (py_str (dget d i))" "py_str (dget d i) \<noteq> []" "ascii_text (py_str (dget d i))"
      "number_of env (dget d i) = Fin (sq_number sq (py_str (dget d i)))" "num_of (dget d i) = Some (sq_number sq (py_str (dget d i)))"
      by (auto simp: number_cell_def)
    have c: "comparable_text (dget d i) = py_str (dget d i)" "is_blank (dget d i) = False" "dget d i \<notin> range PList"
      using n(1) by (cases "dget d i"; auto simp: is_number_value_def comparable_text_def is_blank_def)+
    have "sq_lower sq (py_str (dget d i)) = qe_fold env (py_str (dget d i))" using assms(1) n(4) by (simp add: sql_laws_def)
    with False key n c show ?thesis by (simp add: sql_is_empty_def sql_value_def)
  qed
  then show "sql_is_empty sq d i \<longleftrightarrow> dget d i = PNone"
    "dget d i \<noteq> PNone \<Longrightarrow> sql_text sq d i = Some (comparable_text (dget d i))"
    "number_of env (dget d i) = Fin (sql_value sq d i)"
    "dget d i \<noteq> PNone \<Longrightarrow> num_of (dget d i) = Some (sql_value sq d i)"
    "comparable_text (dget d i) = [] \<longleftrightarrow> dget d i = PNone"
    "is_blank (dget d i) \<longleftrightarrow> dget d i = PNone"
    "dget d i \<notin> range PList"
    "dget d i \<noteq> PNone \<Longrightarrow> sq_lower sq (comparable_text (dget d i)) = qe_fold env (comparable_text (dget d i))" by blast+
qed

section \<open>One condition\<close>

lemma emptiness_exact:
  assumes "emptiness operator i = Some e" "sql_is_empty sq d i \<longleftrightarrow> is_blank v"
  shows "sql_eval sq d e = Some (check_operator env operator v expected)"
  using assms by (auto simp: emptiness_def check_operator_def split: if_splits)

lemma text_superset:
  assumes l: "sql_laws env sq" and t: "text_cell env sq (dget d i)" and c: "text_condition operator i (folded_text env expected) = Some e"
    and k: "check_operator env operator (dget d i) expected"
  shows "sql_eval sq d e = Some True"
proof -
  have fold: "qe_fold env s = [] \<longleftrightarrow> s = []" for s using l by (auto simp: sql_laws_def)
  have fold0: "qe_fold env [] = []" using fold[of "[]"] by simp
  have not_list: "(case dget d i of PList xs \<Rightarrow> P xs | _ \<Rightarrow> b) = b" for P and b :: bool using t by (auto simp: text_cell_def)
  note sql = text_cell_sql[OF l t]
  consider "operator = ''contains''" | "operator = ''equals'' \<or> operator = ''is''" | "emptiness operator i = Some e"
    using c by (auto simp: text_condition_def split: if_splits)
  then show ?thesis
  proof cases
    case 1
    with k have sub: "substring (folded_text env expected) (qe_fold env (comparable_text (dget d i)))"
      by (simp add: check_operator_def not_list folded_text_def)
    then have ne: "comparable_text (dget d i) \<noteq> []" if "folded_text env expected \<noteq> []" using that fold0 by auto
    from 1 c sql(2)[OF ne] sql(5) sub show ?thesis
      by (cases "folded_text env expected = []") (auto simp: text_condition_def)
  next
    case 2
    with k have eq: "folded_text env expected = qe_fold env (comparable_text (dget d i))"
      by (auto simp: check_operator_def not_list equals_filter_value_def folded_text_def)
    then have "folded_text env expected = [] \<longleftrightarrow> comparable_text (dget d i) = []" using fold by simp
    with 2 c sql(1,2) sql(5) eq show ?thesis
      by (cases "folded_text env expected = []") (auto simp: text_condition_def)
  next
    case 3
    with k emptiness_exact[OF 3, of sq d "dget d i" env expected] sql(1,3) show ?thesis by simp
  qed
qed

lemma number_superset:
  assumes l: "sql_laws env sq" and t: "number_cell env sq (dget d i)"
    and c: "number_condition operator i (folded_text env expected) (number_of env expected) = Some e"
    and inf: "number_of env expected \<notin> {PosInf, NegInf}"
    and k: "check_operator env operator (dget d i) expected"
  shows "sql_eval sq d e = Some True"
proof -
  have fold: "qe_fold env s = [] \<longleftrightarrow> s = []" for s using l by (auto simp: sql_laws_def)
  note sql = number_cell_sql[OF l t]
  have not_list: "(case dget d i of PList xs \<Rightarrow> P xs | _ \<Rightarrow> b) = b" for P and b :: bool
    using sql(7) by (cases "dget d i") auto
  consider "operator = ''equals''" | "operator \<noteq> ''equals''" "emptiness operator i = Some e"
    | op where "operator \<noteq> ''equals''" "emptiness operator i = None" "order_op_of operator = Some op"
    using c by (auto simp: number_condition_def split: if_splits option.splits)
  then show ?thesis
  proof cases
    case 1
    with k have eq: "folded_text env expected = qe_fold env (comparable_text (dget d i))"
      by (auto simp: check_operator_def not_list equals_filter_value_def folded_text_def)
    then have "folded_text env expected = [] \<longleftrightarrow> dget d i = PNone" using fold sql(5) by simp
    with 1 c sql(1,2) sql(8) eq show ?thesis
      by (cases "folded_text env expected = []") (auto simp: number_condition_def)
  next
    case 2
    with k emptiness_exact[OF 2(2), of sq d "dget d i" env expected] sql show ?thesis by simp
  next
    case 3
    then have "operator \<in> {''gt'', ''gte'', ''lt'', ''lte''}" by (auto simp: order_op_of_def split: if_splits)
    with 3 k have "compare_numbers op (number_of env (dget d i)) (number_of env expected)"
      by (auto simp: check_operator_def)
    with 3 c sql inf show ?thesis
      by (cases "number_of env expected") (auto simp: number_condition_def compare_numbers_def split: order_op.splits)
  qed
qed

lemma number_exact:
  assumes l: "sql_laws env sq" and t: "number_cell env sq (dget d i)"
    and c: "number_condition operator i x (number_of env expected) = Some e"
    and op: "operator \<in> {''is_empty'', ''is_not_empty''} \<or> (order_op_of operator \<noteq> None \<and> is_finite (number_of env expected))"
  shows "sql_eval sq d e = Some (check_operator env operator (dget d i) expected)"
proof -
  note sql = number_cell_sql[OF l t]
  have not_eq: "operator \<noteq> ''equals''" using op by (auto simp: order_op_of_def)
  show ?thesis
  proof (cases "emptiness operator i")
    case (Some y)
    with c not_eq have "emptiness operator i = Some e" by (simp add: number_condition_def)
    from emptiness_exact[OF this] sql show ?thesis by simp
  next
    case None
    then have "operator \<notin> {''is_empty'', ''is_not_empty''}" by (auto simp: emptiness_def split: if_splits)
    with op obtain b q where b: "order_op_of operator = Some b" "number_of env expected = Fin q"
      by (cases "number_of env expected") auto
    then have "operator \<in> {''gt'', ''gte'', ''lt'', ''lte''}" by (auto simp: order_op_of_def split: if_splits)
    with b have "check_operator env operator (dget d i) expected = compare_numbers b (number_of env (dget d i)) (number_of env expected)"
      by (auto simp: check_operator_def)
    with b None not_eq c sql(3) show ?thesis by (auto simp: number_condition_def)
  qed
qed

lemma comparable_str: "comparable_text (PStr s) = s"
  by (simp add: comparable_text_def py_str_def)

lemma check_equals:
  "operator = ''equals'' \<or> operator = ''is'' \<Longrightarrow> check_operator env operator (PStr s) expected \<longleftrightarrow> qe_fold env s = qe_fold env (comparable_text expected)"
  by (auto simp: check_operator_def equals_filter_value_def folded_text_def comparable_str)

lemma select_expected_covers:
  assumes o: "options_ok env f" and e: "qe_fold env (shown_option f s) = qe_fold env (comparable_text expected)"
    and x: "select_expected env f expected = (oid, label)"
  shows "qe_fold env s \<in> {qe_fold env oid, qe_fold env label}"
proof -
  let ?F = "qe_fold env (comparable_text expected)"
  let ?hit = "\<lambda>opt. ?F = qe_fold env (option_id opt) \<or> ?F = qe_fold env (option_label opt)"
  show ?thesis
  proof (cases "List.find ?hit (query_options f)")
    case None
    then have miss: "\<not> ?hit opt" if "opt \<in> set (query_options f)" for opt using that by (auto simp: find_None_iff)
    have "shown_option f s = s"
    proof (cases "List.find (\<lambda>opt. s = option_id opt \<or> s = option_label opt) (query_options f)")
      case (Some a)
      then have "a \<in> set (query_options f)" by (auto dest: find_SomeD)
      with miss[of a] e Some show ?thesis by (simp add: shown_option_def)
    qed (simp add: shown_option_def)
    with None x e show ?thesis by (simp add: select_expected_def Let_def)
  next
    case (Some b)
    then have b: "b \<in> set (query_options f)" "?hit b" by (auto dest: find_SomeD)
    from Some x have ol: "oid = option_id b" "label = option_label b" by (auto simp: select_expected_def Let_def)
    show ?thesis
    proof (cases "List.find (\<lambda>opt. s = option_id opt \<or> s = option_label opt) (query_options f)")
      case None
      with e b ol show ?thesis by (simp add: shown_option_def)
    next
      case (Some a)
      then have a: "a \<in> set (query_options f)" "s = option_id a \<or> s = option_label a" by (auto dest: find_SomeD)
      from Some e have "?F \<in> option_texts env a" by (simp add: shown_option_def option_texts_def)
      moreover have "?F \<in> option_texts env b" using b(2) by (auto simp: option_texts_def)
      ultimately have "option_id a = option_id b" "option_label a = option_label b"
        using o a(1) b(1) unfolding options_ok_def by blast+
      with a(2) ol show ?thesis by auto
    qed
  qed
qed

lemma select_expected_empty:
  assumes "options_ok env f" "\<And>s. qe_fold env s = [] \<longleftrightarrow> s = []" "select_expected env f expected = (oid, label)"
  shows "oid = [] \<longleftrightarrow> label = []"
  using assms by (auto simp: select_expected_def Let_def options_ok_def dest!: find_SomeD split: option.splits)

lemma select_superset:
  assumes l: "sql_laws env sq" and t: "text_cell env sq (dget d i)" and o: "options_ok env f"
    and x: "select_expected env f expected = (oid, label)"
    and c: "select_condition operator i (qe_fold env oid) (qe_fold env label) = Some e" and n: "operator \<noteq> ''is_not''"
    and k: "check_operator env operator (PStr (shown_option f (comparable_text (dget d i)))) expected"
  shows "sql_eval sq d e = Some True"
proof -
  let ?s = "comparable_text (dget d i)"
  have fold: "qe_fold env s = [] \<longleftrightarrow> s = []" for s using l by (auto simp: sql_laws_def)
  note sql = text_cell_sql[OF l t]
  consider "operator = ''equals'' \<or> operator = ''is''" | "emptiness operator i = Some e"
    using c n by (auto simp: select_condition_def Let_def split: if_splits)
  then show ?thesis
  proof cases
    case 1
    with k have "qe_fold env (shown_option f ?s) = qe_fold env (comparable_text expected)" using check_equals by blast
    from select_expected_covers[OF o this x] have s: "qe_fold env ?s \<in> {qe_fold env oid, qe_fold env label}" .
    show ?thesis
    proof (cases "?s = []")
      case True
      then have "qe_fold env ?s = []" using fold by blast
      with s have "qe_fold env oid = [] \<or> qe_fold env label = []" by (simp add: eq_commute)
      then have "oid = [] \<or> label = []" using fold by blast
      with select_expected_empty[OF o fold x] have "qe_fold env oid = []" "qe_fold env label = []" using fold by blast+
      with 1 c have "e = SqlEmpty i" by (auto simp only: select_condition_def Let_def option.inject if_True simp_thms)
      with True sql(1) show ?thesis by simp
    next
      case False
      then have "qe_fold env ?s \<noteq> []" using fold by blast
      with s have "\<not> (qe_fold env oid = [] \<and> qe_fold env label = [])" by force
      with 1 c have "e = (if qe_fold env oid = qe_fold env label then SqlLowerIs i (qe_fold env oid)
          else SqlOr (SqlLowerIs i (qe_fold env oid)) (SqlLowerIs i (qe_fold env label)))"
        by (auto simp only: select_condition_def Let_def option.inject if_True if_False simp_thms)
      moreover have "sql_eval sq d (SqlLowerIs i (qe_fold env oid)) = Some (qe_fold env ?s = qe_fold env oid)"
        "sql_eval sq d (SqlLowerIs i (qe_fold env label)) = Some (qe_fold env ?s = qe_fold env label)"
        using sql(2)[OF False] sql(5) by simp_all
      ultimately show ?thesis using s by (cases "qe_fold env ?s = qe_fold env oid") (simp_all del: sql_eval.simps(7))
    qed
  next
    case 2
    have "is_blank (PStr (shown_option f ?s)) \<longleftrightarrow> sql_is_empty sq d i"
      using shown_empty[OF o, of ?s] sql(1) by (auto simp: is_blank_def)
    with k emptiness_exact[OF 2, of sq d "PStr (shown_option f ?s)" env expected] show ?thesis by simp
  qed
qed

lemma condition_superset:
  assumes l: "sql_laws env sq" and qa: "queryable env flds" and r: "clean_row env sq flds d" and g: "faithful_filter env flds c"
    and x: "compile_filter_condition env c flds = Some e" and k: "check_filter env flds rec c"
    and same: "\<And>i f. query_field flds i = Some f \<Longrightarrow> text_typed f \<or> number_typed f \<Longrightarrow> dget rec i = dget d i"
  shows "sql_eval sq d e = Some True"
proof -
  let ?i = "str_or_empty (dget c ''fieldId'')"
  from x obtain f where f: "query_field flds ?i = Some f" by (auto simp: compile_filter_condition_def Let_def split: option.splits)
  have st: "stable_ids flds" using qa by (simp add: queryable_def)
  note fk = query_field_some[OF st f]
  have cells: "text_typed f \<Longrightarrow> text_cell env sq (dget d ?i)" "number_typed f \<Longrightarrow> number_cell env sq (dget d ?i)"
    using r fk by (auto simp: clean_row_def)
  have plain: "dget d ?i \<notin> range PList" if "text_typed f \<or> number_typed f"
    using that cells by (auto simp: text_cell_def number_cell_def is_number_value_def)
  have k': "check_operator env (str_or_empty (dget c ''operator'')) (normalize_field_value env f (dget rec ?i)) (dget c ''value'')"
    using k f by (simp add: check_filter_def Let_def)
  have o: "options_ok env f" using qa fk(1) by (auto simp: queryable_def)
  consider "field_type_of f \<in> set text_sql_types" | "field_type_of f = ''select''" | "field_type_of f \<in> set number_sql_types"
    using x f by (auto simp: compile_filter_condition_def Let_def split: if_splits)
  then show ?thesis
  proof cases
    case 1
    then have ty: "text_typed f" by (simp add: text_typed_def)
    have "normalize_field_value env f (dget rec ?i) = dget d ?i"
      using normalize_plain[of f "dget d ?i" env] 1 same[OF f] ty plain by (auto simp: text_sql_types_def)
    with 1 x f k' text_superset[OF l cells(1)[OF ty]] show ?thesis
      by (simp add: compile_filter_condition_def Let_def)
  next
    case 2
    then have ty: "text_typed f" by (simp add: text_typed_def)
    obtain oid label where ol: "select_expected env f (dget c ''value'') = (oid, label)" by fastforce
    have "''select'' \<notin> set text_sql_types" by (simp add: text_sql_types_def)
    with 2 x f ol have c: "select_condition (str_or_empty (dget c ''operator'')) ?i (qe_fold env oid) (qe_fold env label) = Some e"
      by (simp add: compile_filter_condition_def Let_def)
    have "normalize_field_value env f (dget rec ?i) = PStr (shown_option f (comparable_text (dget d ?i)))"
      using normalize_select[OF 2, of "dget rec ?i"] same[OF f] ty plain by auto
    with k' g f 2 select_superset[OF l cells(1)[OF ty] o ol c] show ?thesis by (simp add: faithful_filter_def)
  next
    case 3
    then have ty: "number_typed f" by (simp add: number_typed_def)
    have n: "field_type_of f \<notin> set text_sql_types" "field_type_of f \<noteq> ''select''" "field_type_of f \<notin> {''select'', ''multiSelect'', ''member'', ''autoNumber''}"
      using 3 by (auto simp: number_sql_types_def text_sql_types_def)
    have "normalize_field_value env f (dget rec ?i) = dget d ?i"
      using normalize_plain[OF n(3)] same[OF f] ty plain by auto
    with 3 n x f k' g number_superset[OF l cells(2)[OF ty]] show ?thesis
      by (simp add: compile_filter_condition_def Let_def faithful_filter_def)
  qed
qed

lemma condition_exact:
  assumes l: "sql_laws env sq" and qa: "queryable env flds" and r: "clean_row env sq flds d" and ex: "exact_filter env flds c"
    and x: "compile_filter_condition env c flds = Some e"
    and same: "\<And>i f. query_field flds i = Some f \<Longrightarrow> text_typed f \<or> number_typed f \<Longrightarrow> dget rec i = dget d i"
  shows "sql_eval sq d e = Some (check_filter env flds rec c)"
proof -
  let ?i = "str_or_empty (dget c ''fieldId'')" and ?op = "str_or_empty (dget c ''operator'')"
  from x obtain f where f: "query_field flds ?i = Some f" by (auto simp: compile_filter_condition_def Let_def split: option.splits)
  have st: "stable_ids flds" using qa by (simp add: queryable_def)
  note fk = query_field_some[OF st f]
  have cells: "text_typed f \<Longrightarrow> text_cell env sq (dget d ?i)" "number_typed f \<Longrightarrow> number_cell env sq (dget d ?i)"
    using r fk by (auto simp: clean_row_def)
  have plain: "dget d ?i \<notin> range PList" if "text_typed f \<or> number_typed f"
    using that cells by (auto simp: text_cell_def number_cell_def is_number_value_def)
  have chk: "check_filter env flds rec c = check_operator env ?op (normalize_field_value env f (dget rec ?i)) (dget c ''value'')"
    using f by (simp add: check_filter_def Let_def)
  have o: "options_ok env f" using qa fk(1) by (auto simp: queryable_def)
  consider "text_typed f" "?op \<in> {''is_empty'', ''is_not_empty''}" | "field_type_of f \<in> set number_sql_types"
      "?op \<in> {''is_empty'', ''is_not_empty''} \<or> (order_op_of ?op \<noteq> None \<and> is_finite (number_of env (dget c ''value'')))"
    using ex f by (auto simp: exact_filter_def Let_def text_typed_def)
  then show ?thesis
  proof cases
    case 1
    have em: "emptiness ?op ?i = Some e"
      using x f 1 by (auto simp: compile_filter_condition_def Let_def text_condition_def select_condition_def text_typed_def split: if_splits prod.splits)
    have "is_blank (normalize_field_value env f (dget rec ?i)) \<longleftrightarrow> comparable_text (dget d ?i) = []"
    proof (cases "field_type_of f = ''select''")
      case True
      with normalize_select[OF True, of "dget rec ?i"] same[OF f] 1 plain shown_empty[OF o, of "comparable_text (dget d ?i)"]
      show ?thesis by (auto simp: is_blank_def)
    next
      case False
      have ty: "field_type_of f \<notin> {''select'', ''multiSelect'', ''member'', ''autoNumber''}"
        using type_cases(1)[OF 1(1)] False by auto
      have "dget rec ?i = dget d ?i" using same[OF f] 1 by auto
      with normalize_plain[OF ty, of "dget d ?i" env] plain 1 text_cell_sql(3)[OF l cells(1)[OF 1(1)]] show ?thesis by simp
    qed
    with text_cell_sql(1)[OF l cells(1)[OF 1(1)]] emptiness_exact[OF em] chk show ?thesis by simp
  next
    case 2
    then have ty: "number_typed f" by (simp add: number_typed_def)
    have n: "field_type_of f \<notin> set text_sql_types" "field_type_of f \<noteq> ''select''" "field_type_of f \<notin> {''select'', ''multiSelect'', ''member'', ''autoNumber''}"
      using 2 by (auto simp: number_sql_types_def text_sql_types_def)
    have "normalize_field_value env f (dget rec ?i) = dget d ?i"
      using normalize_plain[OF n(3)] same[OF f] ty plain by auto
    moreover have "number_condition ?op ?i (folded_text env (dget c ''value'')) (number_of env (dget c ''value'')) = Some e"
      using 2 n x f by (simp add: compile_filter_condition_def Let_def)
    ultimately show ?thesis using number_exact[OF l cells(2)[OF ty] _ 2(2)] chk by simp
  qed
qed

section \<open>All conditions\<close>

lemma sql_or_True: "a = Some True \<or> b = Some True \<Longrightarrow> sql_or a b = Some True"
  by (cases "(a, b)" rule: sql_or.cases) auto

lemma where_superset:
  assumes one: "\<And>c e. c \<in> set conditions \<Longrightarrow> compile_filter_condition env c flds = Some e \<Longrightarrow> check_filter env flds rec c \<Longrightarrow> sql_eval sq d e = Some True"
    and m: "matches_filters env flds conditions rec"
  shows "sql_where sq (compile_filter_expression env conditions flds) d"
proof (cases conditions)
  case Nil
  then show ?thesis by (simp add: compile_filter_expression_def sql_where_def)
next
  case (Cons c cs)
  let ?e = "\<lambda>c. the (compile_filter_condition env c flds)"
  let ?step = "\<lambda>combined c'. let e = ?e c' in if filter_logic c' then SqlOr combined e else SqlAnd combined e"
  let ?chk = "\<lambda>matched c'. if filter_logic c' then matched \<or> check_filter env flds rec c' else matched \<and> check_filter env flds rec c'"
  show ?thesis
  proof (cases "list_all (\<lambda>c. compile_filter_condition env c flds \<noteq> None) conditions")
    case True
    have each: "sql_eval sq d (?e c') = Some True" if "c' \<in> set conditions" "check_filter env flds rec c'" for c'
      using that True one[of c'] by (auto simp: list_all_iff)
    have run: "set ds \<subseteq> set conditions \<Longrightarrow> (b \<Longrightarrow> sql_eval sq d e = Some True) \<Longrightarrow> foldl ?chk b ds \<Longrightarrow> sql_eval sq d (foldl ?step e ds) = Some True" for ds b e
    proof (induction ds arbitrary: b e)
      case (Cons x ds)
      have "sql_eval sq d (?step e x) = Some True" if "?chk b x"
        using that Cons.prems(1,2) each[of x] by (auto simp: Let_def sql_or_True split: if_splits)
      from Cons.IH[OF _ this] Cons.prems show ?case by simp
    qed simp
    have "sql_eval sq d (foldl ?step (?e c) cs) = Some True"
      by (rule run[of cs "check_filter env flds rec c"]) (use m Cons each in \<open>auto simp: matches_filters_def\<close>)
    with True Cons show ?thesis by (simp add: compile_filter_expression_def sql_where_def)
  next
    case False
    with Cons show ?thesis by (auto simp: compile_filter_expression_def sql_where_def)
  qed
qed

lemma where_exact:
  assumes one: "\<And>c e. c \<in> set conditions \<Longrightarrow> compile_filter_condition env c flds = Some e \<Longrightarrow> sql_eval sq d e = Some (check_filter env flds rec c)"
    and comp: "conditions = [] \<or> compile_filter_expression env conditions flds \<noteq> None"
  shows "sql_where sq (compile_filter_expression env conditions flds) d \<longleftrightarrow> matches_filters env flds conditions rec"
proof (cases conditions)
  case Nil
  then show ?thesis by (simp add: compile_filter_expression_def sql_where_def matches_filters_def)
next
  case (Cons c cs)
  let ?e = "\<lambda>c. the (compile_filter_condition env c flds)"
  let ?step = "\<lambda>combined c'. let e = ?e c' in if filter_logic c' then SqlOr combined e else SqlAnd combined e"
  let ?chk = "\<lambda>matched c'. if filter_logic c' then matched \<or> check_filter env flds rec c' else matched \<and> check_filter env flds rec c'"
  have all: "list_all (\<lambda>c. compile_filter_condition env c flds \<noteq> None) conditions"
    using comp Cons by (auto simp: compile_filter_expression_def split: if_splits)
  have each: "sql_eval sq d (?e c') = Some (check_filter env flds rec c')" if "c' \<in> set conditions" for c'
    using that all one[of c'] by (auto simp: list_all_iff)
  have run: "set ds \<subseteq> set conditions \<Longrightarrow> sql_eval sq d e = Some b \<Longrightarrow> sql_eval sq d (foldl ?step e ds) = Some (foldl ?chk b ds)" for ds b e
  proof (induction ds arbitrary: b e)
    case (Cons x ds)
    have "sql_eval sq d (?step e x) = Some (?chk b x)"
      using Cons.prems each[of x] by (cases b; cases "check_filter env flds rec x") (auto simp: Let_def)
    from Cons.IH[OF _ this] Cons.prems show ?case by simp
  qed simp
  have "sql_eval sq d (foldl ?step (?e c) cs) = Some (foldl ?chk (check_filter env flds rec c) cs)"
    by (rule run) (use Cons each in auto)
  with all Cons show ?thesis by (simp add: compile_filter_expression_def sql_where_def matches_filters_def)
qed

section \<open>Rows and their exact form\<close>

definition shown_row :: "parser \<Rightarrow> evaluator \<Rightarrow> dict list \<Rightarrow> table_record \<Rightarrow> dict" where
  "shown_row parse ev flds r = hd (materialize_records parse ev flds [row_dict r])"

lemma materialize_shown: "materialize_records parse ev flds (map row_dict rs) = map (shown_row parse ev flds) rs"
  by (auto simp: materialize_records_def shown_row_def Let_def)

lemma shown_get:
  assumes "queryable env flds" "query_field flds i = Some f" "text_typed f \<or> number_typed f"
  shows "dget (shown_row parse ev flds r) i = dget (rec_data r) i"
proof -
  have st: "stable_ids flds" "acyclic (formula_deps flds)" using assms(1) by (simp_all add: queryable_def)
  have "i \<in> set (map field_key flds)" using query_field_some[OF st(1) assms(2)] by auto
  with assms(1) have "i \<noteq> ''id''" unfolding queryable_def by metis
  moreover from materialize_spec[OF st, of 0 "[row_dict r]" i] not_formula[OF st(1) assms(2,3)]
  have "map_of (materialize_records parse ev flds [row_dict r] ! 0) i = map_of (row_dict r) i" by simp
  moreover have "shown_row parse ev flds r = materialize_records parse ev flds [row_dict r] ! 0"
    unfolding shown_row_def by (rule hd_conv_nth) (simp add: materialize_records_def Let_def)
  ultimately show ?thesis by (simp add: dget_def row_dict_def map_of_dset)
qed

definition exact_sort :: "dict list \<Rightarrow> dict \<Rightarrow> bool" where
  "exact_sort flds c \<longleftrightarrow> (case query_field flds (str_or_empty (dget c ''fieldId'')) of None \<Rightarrow> False
     | Some f \<Rightarrow> field_type_of f \<in> {''number'', ''progress'', ''autoNumber''})"

lemma compare_none:
  "compare_smart_values env PNone w f = (if w = PNone then 0 else 1)"
  "v \<notin> {PNone, PStr []} \<Longrightarrow> \<not> py_eq v PNone \<Longrightarrow> compare_smart_values env v PNone f = - 1"
  by (simp_all add: compare_smart_values_def Let_def)

lemma compare_numbers_smart:
  assumes "v \<notin> {PNone, PStr []}" "w \<notin> {PNone, PStr []}" "py_eq v w \<longleftrightarrow> a = b" "number_of env v = Fin a" "number_of env w = Fin b"
    "py_str (py_or (dget f ''type'') (PStr ''text'')) \<in> {''number'', ''progress'', ''autoNumber''}"
  shows "compare_smart_values env v w (Some f) = sign_of (b < a) (a < b)"
proof -
  have n: "numeric_pair (py_str (py_or (dget f ''type'') (PStr ''text''))) v w" using assms(6) by (simp add: numeric_pair_def)
  show ?thesis
  proof (cases "a = b")
    case True
    with assms(3) show ?thesis by (simp add: compare_smart_values_def Let_def sign_of_def)
  next
    case False
    with assms(1-5) n show ?thesis by (simp add: compare_smart_values_def Let_def compare_finite_def)
  qed
qed

lemma sql_compare_numeric:
  "sql_compare_one sq \<lparr>ss_field = i, ss_numeric = True, ss_desc = False\<rparr> d e
   = (if sql_is_empty sq d i \<noteq> sql_is_empty sq e i then sign_of (sql_is_empty sq d i) (sql_is_empty sq e i)
      else sql_compare_nullable sq (map_option (sq_number sq) (sql_text sq d i)) (map_option (sq_number sq) (sql_text sq e i)))"
  by (simp add: sql_compare_one_def Let_def)

lemma number_compare:
  assumes l: "sql_laws env sq" and a: "number_cell env sq (dget d i)" and b: "number_cell env sq (dget e i)"
    and f: "field_type_of f \<in> {''number'', ''progress'', ''autoNumber''}"
  shows "compare_smart_values env (dget d i) (dget e i) (Some f) = sql_compare_one sq \<lparr>ss_field = i, ss_numeric = True, ss_desc = False\<rparr> d e"
proof -
  have "py_str (py_or (dget f ''type'') (PStr ''text'')) = field_type_of f" if "field_type_of f \<noteq> []"
    using that by (auto simp: field_type_of_def str_or_empty_def py_or_def)
  then have ty: "py_str (py_or (dget f ''type'') (PStr ''text'')) \<in> {''number'', ''progress'', ''autoNumber''}" using f by auto
  note A = number_cell_sql[OF l a] and B = number_cell_sql[OF l b]
  have num: "v \<notin> {PNone, PStr []} \<and> (\<forall>w. py_eq v w \<longleftrightarrow> num_of w = num_of v)" if "number_cell env sq v" "v \<noteq> PNone" for v
    using that by (cases v) (auto simp: number_cell_def is_number_value_def)
  have null: "sql_text sq x i = None" if "dget x i = PNone" for x
    using that l by (simp add: sql_text_dget[OF l] sql_laws_def)
  consider "dget d i = PNone" | "dget d i \<noteq> PNone" "dget e i = PNone" | "dget d i \<noteq> PNone" "dget e i \<noteq> PNone" by blast
  then show ?thesis
  proof cases
    case 1
    with null A(1) B(1) show ?thesis
      by (cases "dget e i = PNone") (simp_all add: compare_none sql_compare_numeric sign_of_def sql_compare_nullable_def)
  next
    case 2
    then have "\<not> py_eq (dget d i) PNone" using num[OF a] A(4) by auto
    with 2 num[OF a] A(1) B(1) show ?thesis by (simp add: compare_none sql_compare_numeric sign_of_def)
  next
    case 3
    have v: "sq_number sq (comparable_text (dget d i)) = sql_value sq d i" "sq_number sq (comparable_text (dget e i)) = sql_value sq e i"
      using 3 A(1,2) B(1,2) by (auto simp: sql_value_def sql_is_empty_def)
    have "py_eq (dget d i) (dget e i) \<longleftrightarrow> sql_value sq d i = sql_value sq e i" using num[OF a] 3 A(4) B(4) by auto
    with 3 num[OF a] num[OF b] compare_numbers_smart[OF _ _ _ A(3) B(3) ty]
    have "compare_smart_values env (dget d i) (dget e i) (Some f) = sign_of (sql_value sq e i < sql_value sq d i) (sql_value sq d i < sql_value sq e i)"
      by blast
    with 3 A(1,2) B(1,2) v show ?thesis by (simp add: sql_compare_numeric sql_compare_nullable_def)
  qed
qed

lemma sorts_agree:
  assumes l: "sql_laws env sq" and qa: "queryable env flds"
    and a: "clean_row env sq flds (rec_data r)" and b: "clean_row env sq flds (rec_data s)"
  shows "list_all (exact_sort flds) sorts \<Longrightarrow> compile_sort_expressions sorts flds = Some ss \<Longrightarrow>
    compare_records env flds sorts (shown_row parse ev flds r) (shown_row parse ev flds s) = sql_compare sq ss (rec_data r) (rec_data s)"
proof (induction sorts arbitrary: ss)
  case Nil
  then show ?case by (simp add: compile_sort_expressions_def)
next
  case (Cons c cs)
  let ?i = "str_or_empty (dget c ''fieldId'')"
  from Cons.prems(1) obtain f where f: "query_field flds ?i = Some f" "field_type_of f \<in> {''number'', ''progress'', ''autoNumber''}"
    by (auto simp: exact_sort_def split: option.splits)
  then have ty: "number_typed f" by (auto simp: number_typed_def number_sql_types_def)
  have st: "stable_ids flds" using qa by (simp add: queryable_def)
  note fk = query_field_some[OF st f(1)]
  have cells: "number_cell env sq (dget (rec_data r) ?i)" "number_cell env sq (dget (rec_data s) ?i)"
    using a b fk ty by (auto simp: clean_row_def)
  have "compile_sort flds c = Some \<lparr>ss_field = ?i, ss_numeric = True, ss_desc = is_desc c\<rparr>"
    using f by (auto simp: compile_sort_def Let_def sort_number_sql_types_def number_sql_types_def)
  with Cons.prems(2) obtain ss' where ss: "ss = \<lparr>ss_field = ?i, ss_numeric = True, ss_desc = is_desc c\<rparr> # ss'" "compile_sort_expressions cs flds = Some ss'"
    by (auto simp: compile_sort_expressions_def split: if_splits)
  have g: "dget (shown_row parse ev flds r) ?i = dget (rec_data r) ?i" "dget (shown_row parse ev flds s) ?i = dget (rec_data s) ?i"
    using shown_get[OF qa f(1)] ty by auto
  have "sql_compare_one sq \<lparr>ss_field = ?i, ss_numeric = True, ss_desc = is_desc c\<rparr> (rec_data r) (rec_data s)
      = (let k = compare_smart_values env (dget (rec_data r) ?i) (dget (rec_data s) ?i) (Some f) in if is_desc c then - k else k)"
    unfolding number_compare[OF l cells f(2)] by (simp add: sql_compare_one_def Let_def)
  with ss g f Cons.IH[OF _ ss(2)] Cons.prems(1) show ?case by (simp add: Let_def)
qed

section \<open>The query\<close>

definition visible_rows :: "tables \<Rightarrow> string \<Rightarrow> string list option \<Rightarrow> table_record list" where
  "visible_rows t table_id allowed = sort_key (\<lambda>r. (rec_order r, rec_id r)) (select t_records (\<lambda>r. rec_table r = table_id
     \<and> (case allowed of None \<Rightarrow> True | Some ids \<Rightarrow> rec_id r \<in> set ids)) t)"

lemma sql_rows_visible:
  "sql_rows sq t table_id allowed cond (Some ss) =
   sorted_by (\<lambda>a b. sql_compare sq ss (rec_data a) (rec_data b)) (filter (\<lambda>r. sql_where sq cond (rec_data r)) (visible_rows t table_id allowed))"
  by (simp add: sql_rows_def visible_rows_def select_def filter_sort[symmetric] conj_assoc Let_def)

lemma exact_sort_compiles: "exact_sort flds c \<Longrightarrow> compile_sort flds c \<noteq> None"
  by (auto simp: exact_sort_def compile_sort_def Let_def sort_number_sql_types_def number_sql_types_def split: option.splits)

lemma exact_sorts_compile:
  assumes "list_all (exact_sort flds) sorts"
  shows "\<exists>ss. compile_sort_expressions sorts flds = Some ss"
proof -
  have "list_all (\<lambda>c. compile_sort flds c \<noteq> None) sorts"
    using list.pred_mono_strong[OF assms exact_sort_compiles] .
  then show ?thesis by (simp add: compile_sort_expressions_def del: not_None_eq)
qed

lemma exact_sorts_nil: "compile_sort_expressions sorts flds = Some ss \<Longrightarrow> sorts = [] \<longleftrightarrow> ss = []"
  by (auto simp: compile_sort_expressions_def split: if_splits)

text \<open>The tables, filters and sorts for which the database can be relied on.\<close>

definition query_setting :: "query_env \<Rightarrow> sql_engine \<Rightarrow> dict list \<Rightarrow> table_record list \<Rightarrow> dict list \<Rightarrow> dict list \<Rightarrow> bool" where
  "query_setting env sq flds rows conditions sorts \<longleftrightarrow> sql_laws env sq \<and> queryable env flds
     \<and> list_all (\<lambda>r. clean_row env sq flds (rec_data r)) rows \<and> list_all (faithful_filter env flds) conditions \<and> list_all (exact_sort flds) sorts"

lemma query_settingD:
  assumes "query_setting env sq flds rows conditions sorts"
  shows "sql_laws env sq" "queryable env flds" "r \<in> set rows \<Longrightarrow> clean_row env sq flds (rec_data r)"
    "c \<in> set conditions \<Longrightarrow> faithful_filter env flds c" "list_all (exact_sort flds) sorts"
  using assms by (auto simp: query_setting_def list_all_iff)

lemma where_covers:
  assumes st: "query_setting env sq flds rows conditions sorts" and "r \<in> set rows" "matches_filters env flds conditions (shown_row parse ev flds r)"
  shows "sql_where sq (compile_filter_expression env conditions flds) (rec_data r)"
  using assms(3)
proof (rule where_superset[rotated])
  fix c e
  assume "c \<in> set conditions" "compile_filter_condition env c flds = Some e" "check_filter env flds (shown_row parse ev flds r) c"
  then show "sql_eval sq (rec_data r) e = Some True"
    using condition_superset[OF query_settingD(1,2)[OF st] query_settingD(3)[OF st assms(2)] query_settingD(4)[OF st]]
      shown_get[OF query_settingD(2)[OF st]] by metis
qed

lemma where_is_match:
  assumes st: "query_setting env sq flds rows conditions sorts" and "r \<in> set rows" "filters_support_exact_sql_paging env conditions flds"
    "conditions = [] \<or> compile_filter_expression env conditions flds \<noteq> None"
  shows "sql_where sq (compile_filter_expression env conditions flds) (rec_data r)
    \<longleftrightarrow> matches_filters env flds conditions (shown_row parse ev flds r)"
  using assms(4)
proof (rule where_exact[rotated])
  fix c e
  assume "c \<in> set conditions" "compile_filter_condition env c flds = Some e"
  moreover from this assms(3) have "exact_filter env flds c" by (auto simp: filters_support_exact_sql_paging_def list_all_iff)
  ultimately show "sql_eval sq (rec_data r) e = Some (check_filter env flds (shown_row parse ev flds r) c)"
    using condition_exact[OF query_settingD(1,2)[OF st] query_settingD(3)[OF st assms(2)]]
      shown_get[OF query_settingD(2)[OF st]] by metis
qed

lemma shown_sorted:
  assumes st: "query_setting env sq flds rows conditions sorts" and ss: "compile_sort_expressions sorts flds = Some ss"
    and "set rs \<subseteq> set rows"
  shows "sort_records env flds sorts (map (shown_row parse ev flds) rs)
    = map (shown_row parse ev flds) (sorted_by (\<lambda>a b. sql_compare sq ss (rec_data a) (rec_data b)) rs)"
proof (cases "sorts = []")
  case True
  then have "ss = []" using exact_sorts_nil[OF ss] by simp
  with True sql_order.sorted_by_id[of sq "[]" rs] show ?thesis by (simp add: sort_records_def sorted_wrt_iff_nth_less)
next
  case False
  have "sorted_by (compare_records env flds sorts) (map (shown_row parse ev flds) rs)
      = map (shown_row parse ev flds) (sorted_by (\<lambda>a b. sql_compare sq ss (rec_data a) (rec_data b)) rs)"
    using assms(3) query_settingD(3)[OF st]
    by (intro sorted_by_map sorts_agree[OF query_settingD(1,2)[OF st] _ _ query_settingD(5)[OF st] ss]) auto
  with False show ?thesis by (simp add: sort_records_def)
qed

lemma matching_shown:
  assumes st: "query_setting env sq flds rows conditions sorts" and ss: "compile_sort_expressions sorts flds = Some ss"
    and "set rs \<subseteq> set rows"
  shows "matching_sorted env flds (map (shown_row parse ev flds) rs) conditions sorts
    = map (shown_row parse ev flds) (sorted_by (\<lambda>a b. sql_compare sq ss (rec_data a) (rec_data b))
        (filter (\<lambda>r. matches_filters env flds conditions (shown_row parse ev flds r)) rs))"
  using shown_sorted[OF st ss, of "filter (\<lambda>r. matches_filters env flds conditions (shown_row parse ev flds r)) rs"] assms(3)
  by (auto simp: matching_sorted_def filter_map comp_def)


definition statement_rows :: "query_env \<Rightarrow> sql_engine \<Rightarrow> dict list \<Rightarrow> table_record list \<Rightarrow> dict list \<Rightarrow> sql_sort list \<Rightarrow> table_record list" where
  "statement_rows env sq flds rows conditions ss = sorted_by (\<lambda>a b. sql_compare sq ss (rec_data a) (rec_data b))
     (filter (\<lambda>r. sql_where sq (compile_filter_expression env conditions flds) (rec_data r)) rows)"

lemma statement_rows_again:
  assumes st: "query_setting env sq flds rows conditions sorts" and ss: "compile_sort_expressions sorts flds = Some ss"
  shows "matching_sorted env flds (map (shown_row parse ev flds) (statement_rows env sq flds rows conditions ss)) conditions sorts
    = matching_sorted env flds (map (shown_row parse ev flds) rows) conditions sorts"
proof -
  let ?cmp = "\<lambda>a b. sql_compare sq ss (rec_data a) (rec_data b)" and ?M = "\<lambda>r. matches_filters env flds conditions (shown_row parse ev flds r)"
  let ?W = "filter (\<lambda>r. sql_where sq (compile_filter_expression env conditions flds) (rec_data r)) rows"
  have sub: "filter ?M ?W = filter ?M rows" using where_covers[OF st] by (auto intro: filter_cong)
  have "sorted_by ?cmp (filter ?M (sorted_by ?cmp ?W)) = sorted_by ?cmp (filter ?M rows)"
    by (simp only: sql_order.filter_sorted_by sub sql_order.sorted_by_id[OF sql_order.sorted_by_ordered])
  moreover have "set (sorted_by ?cmp ?W) \<subseteq> set rows" by auto
  ultimately show ?thesis
    by (simp add: matching_shown[OF st ss] statement_rows_def del: filter_filter)
qed

lemma statement_rows_page:
  assumes st: "query_setting env sq flds rows conditions sorts" and ss: "compile_sort_expressions sorts flds = Some ss"
    and pg: "filters_support_exact_sql_paging env conditions flds" "conditions = [] \<or> compile_filter_expression env conditions flds \<noteq> None"
  shows "matching_sorted env flds (map (shown_row parse ev flds) (take k (drop l (statement_rows env sq flds rows conditions ss)))) conditions sorts
      = map (shown_row parse ev flds) (take k (drop l (statement_rows env sq flds rows conditions ss)))"
    "matching_sorted env flds (map (shown_row parse ev flds) rows) conditions sorts
      = map (shown_row parse ev flds) (statement_rows env sq flds rows conditions ss)"
proof -
  let ?cmp = "\<lambda>a b. sql_compare sq ss (rec_data a) (rec_data b)" and ?M = "\<lambda>r. matches_filters env flds conditions (shown_row parse ev flds r)"
  let ?W = "filter (\<lambda>r. sql_where sq (compile_filter_expression env conditions flds) (rec_data r)) rows"
  let ?R = "sorted_by ?cmp ?W"
  have M: "?M r" if "r \<in> set ?R" for r using that where_is_match[OF st _ pg] by auto
  have part: "set (take k (drop l ?R)) \<subseteq> set ?R" by (meson set_drop_subset set_take_subset subset_trans)
  then have "filter ?M (take k (drop l ?R)) = take k (drop l ?R)" using M by (intro filter_True) auto
  with matching_shown[OF st ss, of "take k (drop l ?R)" parse ev] part sql_order.sorted_by_page[of sq ss k l ?W]
  show "matching_sorted env flds (map (shown_row parse ev flds) (take k (drop l (statement_rows env sq flds rows conditions ss)))) conditions sorts
      = map (shown_row parse ev flds) (take k (drop l (statement_rows env sq flds rows conditions ss)))"
    unfolding statement_rows_def by auto
  have "sorted_by ?cmp (filter ?M rows) = ?R"
    using where_is_match[OF st _ pg] by (intro arg_cong[where f = "sorted_by ?cmp"] filter_cong) auto
  with matching_shown[OF st ss, of rows parse ev]
  show "matching_sorted env flds (map (shown_row parse ev flds) rows) conditions sorts
      = map (shown_row parse ev flds) (statement_rows env sq flds rows conditions ss)"
    unfolding statement_rows_def by simp
qed

text \<open>C20: The database answers exactly. Where it can be relied on (query_setting: null is NULL, lower and
  casefold agree on ASCII text, cells hold strings or numbers as their fields say, the strings in the
  cells of text and select fields are ones the database lowers to what casefold makes of them (all ASCII
  strings are; the filter values and the options may be any), options are told apart by their
  texts, no is_not on a select field, no infinite bound, sorts only by number, progress or auto
  number), the page, the total and the next offset that the query returns
  are those of the exact evaluation over all records the user may see, formula values included,
  whether the page is cut in SQL, only filtered there, or evaluated in memory.
\<close>
theorem sql_query_exact:
  assumes st: "query_setting env sq flds (visible_rows t table_id allowed) conditions sorts"
  shows "map_sum id qr_page (query_records_db env sq parse ev t table_id flds conditions sorts off n allowed)
    = query_records_in_memory env flds (materialize_records parse ev flds (map row_dict (visible_rows t table_id allowed))) conditions sorts off n"
proof (cases "too_many conditions sorts")
  case (Some e)
  then show ?thesis by (simp add: query_records_db_def query_records_in_memory_def)
next
  case None
  let ?V = "visible_rows t table_id allowed" and ?cond = "compile_filter_expression env conditions flds"
  obtain ss where ss: "compile_sort_expressions sorts flds = Some ss" using exact_sorts_compile[OF query_settingD(5)[OF st]] by blast
  let ?R = "statement_rows env sq flds ?V conditions ss"
  have rows: "sql_rows sq t table_id allowed ?cond (Some ss) = ?R" by (simp only: sql_rows_visible statement_rows_def)
  note defs = query_records_db_def query_records_in_memory_def Let_def option.case if_True if_False ss rows materialize_shown
    simp_thms map_sum.simps id_apply query_result.simps
  consider "allowed = Some []" | "allowed \<noteq> Some []" "filters_support_exact_sql_paging env conditions flds"
      "conditions = [] \<or> ?cond \<noteq> None" "sorts_support_exact_sql_paging sorts flds"
    | "allowed \<noteq> Some []" "\<not> ((conditions = [] \<or> ?cond \<noteq> None) \<and> (sorts = [] \<or> Some ss \<noteq> None)
        \<and> filters_support_exact_sql_paging env conditions flds \<and> sorts_support_exact_sql_paging sorts flds)" by blast
  then show ?thesis
  proof cases
    case 1
    then have "?V = []" by (simp add: visible_rows_def select_def)
    with 1 None materialize_shown[of parse ev flds "[]"] show ?thesis
      by (simp add: query_records_db_def query_records_in_memory_def Let_def matching_sorted_def sort_records_def page_of_def)
  next
    case 2
    have P: "(conditions = [] \<or> ?cond \<noteq> None) \<and> (sorts = [] \<or> Some ss \<noteq> None)
        \<and> filters_support_exact_sql_paging env conditions flds \<and> sorts_support_exact_sql_paging sorts flds" using 2 by blast
    from None 2(1) P statement_rows_page(1)[OF st ss 2(2,3), of parse ev "safe_query_limit n" "safe_offset off"]
      statement_rows_page(2)[OF st ss 2(2,3), of parse ev]
    show ?thesis by (simp only: defs length_map take_map drop_map take_take min.idem refl)
  next
    case 3
    from None 3 statement_rows_again[OF st ss, of parse ev]
    show ?thesis by (simp only: defs bind_res.simps refl)
  qed
qed

section \<open>Paging through a result\<close>

text \<open>A client that asks for the next offset until there is none.\<close>

fun follow_pages :: "(int \<Rightarrow> query_page res) \<Rightarrow> nat \<Rightarrow> int \<Rightarrow> dict list option" where
  "follow_pages query 0 off = None"
| "follow_pages query (Suc k) off = (case query off of
     Inl e \<Rightarrow> None
   | Inr p \<Rightarrow> (case qp_next p of
       None \<Rightarrow> Some (qp_records p)
     | Some next_offset \<Rightarrow> map_option (\<lambda>rs. qp_records p @ rs) (follow_pages query k (int next_offset))))"

lemma safe_query_limit_bounds: "1 \<le> safe_query_limit n" "safe_query_limit n \<le> 1000"
  by (auto simp: safe_query_limit_def max_query_limit_def)

lemma follow_pages_rest:
  assumes q: "\<And>off. 0 \<le> off \<Longrightarrow> query off = Inr (page_of (take l (drop (nat off) xs)) (length xs) (nat off) l)" and l: "1 \<le> l"
  shows "length xs - off < k \<Longrightarrow> follow_pages query k (int off) = Some (drop off xs)"
proof (induction k arbitrary: off)
  case (Suc k)
  let ?next = "off + length (take l (drop off xs))"
  show ?case
  proof (cases "?next < length xs")
    case True
    then have l': "length (take l (drop off xs)) = l" by simp
    then have "length xs - (off + l) < k" using Suc.prems l True by auto
    from Suc.IH[OF this] have "follow_pages query k (int (off + l)) = Some (drop (off + l) xs)" .
    with True l' q[of "int off"] show ?thesis
      by (simp add: page_of_def Let_def) (metis add.commute append_take_drop_id drop_drop)
  next
    case False
    then have "take l (drop off xs) = drop off xs" by auto
    with False q[of "int off"] show ?thesis by (simp add: page_of_def Let_def)
  qed
qed simp

text \<open>C21: Pages cover a result. A client that starts at offset 0 and follows the next offset until
  there is none comes to an end within one request more than there are records, and has then read
  the whole ordered result: every record that matches the filters, no more often than it is there.
  A page has at most 1000 records whatever limit is asked for.
\<close>
theorem pages_cover:
  assumes "length conditions \<le> max_filters" "length sorts \<le> max_sorts"
  shows "follow_pages (\<lambda>off. query_records_in_memory env flds records conditions sorts off n) (Suc (length records)) 0
      = Some (matching_sorted env flds records conditions sorts)
    \<and> mset (matching_sorted env flds records conditions sorts) = filter_mset (matches_filters env flds conditions) (mset records)
    \<and> (\<forall>off. length (qp_records (projr (query_records_in_memory env flds records conditions sorts off n))) \<le> 1000)"
proof -
  let ?M = "matching_sorted env flds records conditions sorts"
  have m: "mset ?M = filter_mset (matches_filters env flds conditions) (mset records)"
    by (simp add: matching_sorted_def sort_records_def)
  then have "length ?M \<le> length records" by (metis mset_filter size_mset length_filter_le)
  moreover have q: "query_records_in_memory env flds records conditions sorts off n
      = Inr (page_of (take (safe_query_limit n) (drop (safe_offset off) ?M)) (length ?M) (safe_offset off) (safe_query_limit n))" for off
    using assms by (simp add: query_records_in_memory_def too_many_def Let_def)
  ultimately have "follow_pages (\<lambda>off. query_records_in_memory env flds records conditions sorts off n) (Suc (length records)) (int 0) = Some (drop 0 ?M)"
    by (intro follow_pages_rest[where l = "safe_query_limit n"] safe_query_limit_bounds) (simp_all add: safe_offset_def)
  moreover have "length (qp_records (projr (query_records_in_memory env flds records conditions sorts off n))) \<le> 1000" for off
    using safe_query_limit_bounds(2)[of n] by (simp add: q page_of_def Let_def)
  ultimately show ?thesis using m by simp
qed

text \<open>is_not on a select field loses the records without a value. The exact filter keeps a record
  whose select field is unset when it asks for "not this option"; the compiled SQL compares NULL,
  which negates to NULL, so the statement never returns the record, and the exact filter that
  runs on the returned rows cannot bring it back.
\<close>
theorem select_is_not_drops_unset:
  assumes "sql_laws env sq" "query_field flds (str_or_empty (dget c ''fieldId'')) = Some f" "field_type_of f = ''select''"
    "options_ok env f" "str_or_empty (dget c ''operator'') = ''is_not''"
    "select_expected env f (dget c ''value'') = (oid, label)" "oid \<noteq> []" "label \<noteq> []"
    "comparable_text (dget c ''value'') \<noteq> []"
    "dget (rec_data r) (str_or_empty (dget c ''fieldId'')) = PNone"
  shows "matches_filters env flds [c] (rec_data r)
    \<and> r \<notin> set (sql_rows sq t table_id allowed (compile_filter_expression env [c] flds) order)"
proof -
  let ?i = "str_or_empty (dget c ''fieldId'')"
  have fold: "qe_fold env s = [] \<longleftrightarrow> s = []" for s using assms(1) by (simp add: sql_laws_def)
  have "shown_option f (comparable_text PNone) = []" using shown_empty[OF assms(4)] by (simp add: comparable_text_def)
  then have v: "normalize_field_value env f (dget (rec_data r) ?i) = PStr []"
    using normalize_select[OF assms(3), of "dget (rec_data r) ?i" env] assms(10) by auto
  have "qe_fold env (comparable_text (dget c ''value'')) \<noteq> qe_fold env []"
    using fold[of "[]"] fold[of "comparable_text (dget c ''value'')"] assms(9) by simp
  then have keep: "check_filter env flds (rec_data r) c"
    using assms(2,5) v by (simp add: check_filter_def Let_def check_operator_def equals_filter_value_def folded_text_def comparable_str)
  have null: "sql_text sq (rec_data r) ?i = None" using assms(1,10) sql_text_dget[OF assms(1)] by (simp add: sql_laws_def)
  have "''select'' \<notin> set text_sql_types" by (simp add: text_sql_types_def)
  then have "compile_filter_condition env c flds = Some (SqlNot (if qe_fold env oid = qe_fold env label then SqlLowerIs ?i (qe_fold env oid)
      else SqlOr (SqlLowerIs ?i (qe_fold env oid)) (SqlLowerIs ?i (qe_fold env label))))"
    using assms(2,3,5,6,7,8) fold by (simp add: compile_filter_condition_def Let_def select_condition_def)
  then have "\<not> sql_where sq (compile_filter_expression env [c] flds) (rec_data r)"
    using null by (simp add: compile_filter_expression_def sql_where_def)
  then have "r \<notin> set (sql_rows sq t table_id allowed (compile_filter_expression env [c] flds) order)"
    by (auto simp: sql_rows_def select_def Let_def split: option.splits)
  with keep show ?thesis by (simp add: matches_filters_def)
qed

section \<open>Witnesses\<close>

lemma text_cell_code [code]: "text_cell env sq v = (case v of PNone \<Rightarrow> True | PStr s \<Rightarrow> same_fold env sq s | _ \<Rightarrow> False)"
  by (auto simp: text_cell_def split: pyval.splits)

lemma number_cell_code [code]:
  "number_cell env sq v = (case num_of v of
     None \<Rightarrow> v = PNone
   | Some q \<Rightarrow> is_number_value v \<and> ascii_text (py_str v) \<and> number_of env v = Fin q \<and> sq_text sq v = Some (py_str v) \<and> py_str v \<noteq> [] \<and> sq_number sq (py_str v) = q)"
  by (cases "v = PNone") (auto simp: number_cell_def split: option.splits)

text \<open>A fold that expands the sharp s, and a database whose \<open>lower\<close> changes the ASCII letters only: they differ on other texts.\<close>

definition example_fold :: "string \<Rightarrow> string" where
  "example_fold s = concat (map (\<lambda>c. if (of_char c :: nat) = 223 then ''ss'' else [lower_char c]) s)"

definition ascii_lower :: "string \<Rightarrow> string" where
  "ascii_lower s = map (\<lambda>c. if (of_char c :: nat) < 128 then lower_char c else c) s"

lemma example_fold_ascii: "ascii_text s \<Longrightarrow> example_fold s = lower s"
  by (induction s) (auto simp: example_fold_def ascii_text_def lower_def)

lemma example_fold_empty: "example_fold s = [] \<longleftrightarrow> s = []"
  by (cases s) (auto simp: example_fold_def)

lemma ascii_lower_ascii: "ascii_text s \<Longrightarrow> ascii_lower s = lower s"
  by (induction s) (auto simp: ascii_lower_def ascii_text_def lower_def)

definition example_query_env :: query_env where
  "example_query_env = \<lparr>qe_float = (\<lambda>v. map_option Fin (num_of v)), qe_fold = example_fold, qe_iso = (\<lambda>_. None), qe_epoch = (\<lambda>_. None)\<rparr>"

definition example_engine :: sql_engine where
  "example_engine = \<lparr>sq_text = (\<lambda>v. case v of PNone \<Rightarrow> None | _ \<Rightarrow> Some (py_str v)), sq_lower = ascii_lower,
     sq_number = (\<lambda>s. case py_int (PStr s) of Inl _ \<Rightarrow> 0 | Inr n \<Rightarrow> of_int n), sq_null_high = True\<rparr>"

definition example_state_field :: dict where
  "example_state_field = [(''id'', PStr ''s''), (''type'', PStr ''select''),
     (''options'', PList [PDict [(''id'', PStr ''o1''), (''label'', PStr ''Todo'')], PDict [(''id'', PStr ''o2''), (''label'', PStr ''Done'')]])]"

definition query_example_fields :: "dict list" where
  "query_example_fields = [plain_field ''n'', example_state_field, formula_field ''b'' ''{{n}}'']"

definition example_row :: "string \<Rightarrow> dict \<Rightarrow> int \<Rightarrow> table_record" where
  "example_row i d k = \<lparr>rec_id = i, rec_table = ''t'', rec_data = d, rec_order = k, rec_creator = None, rec_version = 1\<rparr>"

definition query_example_rows :: "table_record list" where
  "query_example_rows = [example_row ''r1'' [(''n'', PInt 2), (''s'', PStr ''o1'')] 1, example_row ''r2'' [(''n'', PInt 5)] 2,
     example_row ''r3'' [(''s'', PStr ''Todo'')] 3]"

definition query_example_tables :: tables where
  "query_example_tables = empty_tables\<lparr>t_records := query_example_rows\<rparr>"

definition condition_on :: "string \<Rightarrow> string \<Rightarrow> pyval \<Rightarrow> dict" where
  "condition_on i operator v = [(''fieldId'', PStr i), (''operator'', PStr operator), (''value'', v)]"

definition example_sort :: dict where
  "example_sort = [(''fieldId'', PStr ''n''), (''order'', PStr ''desc'')]"

lemma example_laws: "sql_laws example_query_env example_engine"
  by (simp add: sql_laws_def example_query_env_def example_engine_def py_str_def example_fold_ascii example_fold_empty ascii_lower_ascii)

text \<open>They differ on a sharp s, so the laws do not make the two functions one.\<close>

lemma example_laws_apart: "\<not> same_fold example_query_env example_engine [char_of (223 :: nat)]"
  by code_simp

lemma query_example_queryable: "queryable example_query_env query_example_fields"
proof -
  have "validate_formula_schema name_parser query_example_fields = Inr ()" by code_simp
  then have "stable_ids query_example_fields \<and> acyclic (formula_deps query_example_fields)" using validate_steps(1) by blast
  moreover have "''id'' \<notin> set (map field_key query_example_fields)" by code_simp
  moreover have "\<forall>f\<in>set query_example_fields. options_ok example_query_env f" by code_simp
  ultimately show ?thesis by (simp add: queryable_def)
qed

lemma query_example_visible: "visible_rows query_example_tables ''t'' None = query_example_rows"
  by code_simp

lemma query_example_setting:
  "query_setting example_query_env example_engine query_example_fields (visible_rows query_example_tables ''t'' None)
     [condition_on ''n'' ''gt'' (PInt 1)] [example_sort]"
proof -
  have "list_all (\<lambda>r. clean_row example_query_env example_engine query_example_fields (rec_data r)) query_example_rows" by code_simp
  moreover have "list_all (faithful_filter example_query_env query_example_fields) [condition_on ''n'' ''gt'' (PInt 1)]" by code_simp
  moreover have "list_all (exact_sort query_example_fields) [example_sort]" by code_simp
  ultimately show ?thesis
    using example_laws query_example_queryable by (simp add: query_setting_def query_example_visible)
qed

lemma query_example_exact:
  "map_sum id (map (\<lambda>d. dget d ''id'') \<circ> qp_records) (query_records_in_memory example_query_env query_example_fields
     (materialize_records name_parser name_eval query_example_fields (map row_dict (visible_rows query_example_tables ''t'' None)))
     [condition_on ''n'' ''gt'' (PInt 1)] [example_sort] 0 10) = Inr [PStr ''r2'', PStr ''r1'']"
  by code_simp

theorem sql_query_exact_witness:
  "map_sum id (map (\<lambda>d. dget d ''id'') \<circ> qp_records) (map_sum id qr_page (query_records_db example_query_env example_engine name_parser name_eval
     query_example_tables ''t'' query_example_fields [condition_on ''n'' ''gt'' (PInt 1)] [example_sort] 0 10 None)) = Inr [PStr ''r2'', PStr ''r1'']"
  unfolding sql_query_exact[OF query_example_setting] by (rule query_example_exact)

theorem pages_cover_witness:
  "follow_pages (\<lambda>off. query_records_in_memory example_query_env query_example_fields (map rec_data query_example_rows)
      [condition_on ''n'' ''gt'' (PInt 1)] [example_sort] off 1) 4 0
   = Some [[(''n'', PInt 5)], [(''n'', PInt 2), (''s'', PStr ''o1'')]]"
proof -
  have "length [condition_on ''n'' ''gt'' (PInt 1)] \<le> max_filters" "length [example_sort] \<le> max_sorts"
    by (simp_all add: max_filters_def max_sorts_def)
  note pages_cover[OF this, of example_query_env query_example_fields "map rec_data query_example_rows" 1]
  moreover have "matching_sorted example_query_env query_example_fields (map rec_data query_example_rows) [condition_on ''n'' ''gt'' (PInt 1)] [example_sort]
     = [[(''n'', PInt 5)], [(''n'', PInt 2), (''s'', PStr ''o1'')]]" by code_simp
  moreover have "Suc (length (map rec_data query_example_rows)) = 4" by (simp add: query_example_rows_def)
  ultimately show ?thesis by (simp only: )
qed

theorem select_is_not_drops_unset_witness:
  "matches_filters example_query_env query_example_fields [condition_on ''s'' ''is_not'' (PStr ''Todo'')] (rec_data (example_row ''r2'' [(''n'', PInt 5)] 2))
   \<and> example_row ''r2'' [(''n'', PInt 5)] 2 \<notin> set (sql_rows example_engine query_example_tables ''t'' None
       (compile_filter_expression example_query_env [condition_on ''s'' ''is_not'' (PStr ''Todo'')] query_example_fields) None)"
  by (rule select_is_not_drops_unset[of example_query_env example_engine query_example_fields _ example_state_field "''o1''" "''Todo''", OF example_laws])
     code_simp+

end
