(* ===== verification/TaskProfile.thy ===== *)
theory TaskProfile
  imports TreeProps
begin

text \<open>
  Task profiles (\<open>task_profile.py\<close>, \<open>task_profile_portable.py\<close>, \<open>task_profile_copy.py\<close>): which
  fields of a table play the title, the status, the assignee and so on; the check of a profile
  against the fields, its row, the annotations of the fields that carry it through a copy of the
  table, and the entry points of \<open>workspace/__init__.py\<close> that keep profiles with their tables.
  The suggestion of a profile from field names is not modelled.
\<close>

declare split_paired_All [simp del] split_paired_Ex [simp del]

section \<open>Profiles\<close>

definition profile_field_keys :: "string list" where
  "profile_field_keys = [''titleFieldId'', ''statusFieldId'', ''assigneeFieldId'', ''priorityFieldId'', ''startDateFieldId'',
     ''dueDateFieldId'', ''progressFieldId'', ''parentFieldId'', ''dependencyFieldId'', ''workloadFieldId'']"

definition profile_value_keys :: "string list" where
  "profile_value_keys = [''completedStatusValues'', ''blockedStatusValues'', ''notStartedStatusValues'']"

definition allowed_profile_keys :: "string list" where
  "allowed_profile_keys = profile_field_keys @ profile_value_keys @ [''schemaVersion'']"

definition type_rules :: "string \<Rightarrow> string list" where
  "type_rules key =
     (if key = ''titleFieldId'' then [''text'', ''long_text'', ''textarea'', ''email'', ''url'', ''formula'']
      else if key = ''statusFieldId'' then [''select'', ''single_select'']
      else if key = ''assigneeFieldId'' then [''member'']
      else if key = ''priorityFieldId'' then [''select'', ''single_select'', ''rating'', ''number'']
      else if key = ''startDateFieldId'' \<or> key = ''dueDateFieldId'' then [''date'', ''datetime'']
      else if key = ''progressFieldId'' then [''progress'', ''number'', ''rating'']
      else if key = ''parentFieldId'' \<or> key = ''dependencyFieldId'' then [''relation'']
      else [''number'', ''progress'', ''rating'', ''duration''])"

abbreviation profile_error :: "string \<Rightarrow> 'a res" where
  "profile_error m \<equiv> Inl (Exn TaskProfileValidationError m)"

definition normalize_field_role :: "dict \<Rightarrow> string \<Rightarrow> (string \<times> pyval) res" where
  "normalize_field_role raw key = (case dget raw key of
       PNone \<Rightarrow> Inr (key, PNone)
     | PStr s \<Rightarrow> Inr (key, if strip s = [] then PNone else PStr (strip s))
     | _ \<Rightarrow> profile_error (key @ '' must be a field id string or null''))"

definition is_scalar_value :: "pyval \<Rightarrow> bool" where
  "is_scalar_value v = (case v of PStr _ \<Rightarrow> True | PInt _ \<Rightarrow> True | PFloat _ _ \<Rightarrow> True | PBool _ \<Rightarrow> True | _ \<Rightarrow> False)"

text \<open>The first of every text, in order: \<open>seen\<close> and \<open>cleaned\<close>.\<close>

fun clean_values :: "string list \<Rightarrow> pyval list \<Rightarrow> string list" where
  "clean_values acc [] = acc"
| "clean_values acc (v # vs) =
     (let x = strip (py_str v) in clean_values (if x \<noteq> [] \<and> x \<notin> set acc then acc @ [x] else acc) vs)"

definition normalize_status_values :: "dict \<Rightarrow> string \<Rightarrow> (string \<times> pyval) res" where
  "normalize_status_values raw key = (case py_or (dget raw key) (PList []) of
       PList xs \<Rightarrow> if list_all is_scalar_value xs then Inr (key, PList (map PStr (clean_values [] xs)))
         else profile_error (key @ '' values must be scalar option values'')
     | _ \<Rightarrow> profile_error (key @ '' must be a list''))"

definition normalize_task_profile_config :: "pyval \<Rightarrow> dict res" where
  "normalize_task_profile_config raw = (case raw of
       PDict d \<Rightarrow>
         let unknown = filter (\<lambda>k. k \<notin> set allowed_profile_keys) (dkeys d) in
         if unknown \<noteq> [] then profile_error (''Unsupported task profile keys: '' @ join '', '' (sort unknown))
         else bind_res (map_res (normalize_field_role d) profile_field_keys) (\<lambda>roles.
           bind_res (map_res (normalize_status_values d) profile_value_keys) (\<lambda>values.
             Inr ((''schemaVersion'', PInt 1) # roles @ values)))
     | _ \<Rightarrow> profile_error ''Task profile must be an object'')"

section \<open>The check against the fields\<close>

record profile_issue =
  is_key :: string
  is_code :: string
  is_message :: string
  is_field :: "string option"

definition field_named :: "dict list \<Rightarrow> string \<Rightarrow> dict option" where
  "field_named flds i = List.find (\<lambda>f. dget f ''id'' \<noteq> PNone \<and> py_str (dget f ''id'') = i) (rev flds)"

definition status_option_values :: "pyval \<Rightarrow> string list" where
  "status_option_values v = (case v of
       PDict d \<Rightarrow> filter (\<lambda>x. x \<noteq> []) (map (\<lambda>k. strip (py_str (dget d k))) (filter (\<lambda>k. dget d k \<noteq> PNone) [''id'', ''value'', ''label'', ''name'']))
     | PNone \<Rightarrow> []
     | _ \<Rightarrow> [strip (py_str v)])"

definition select_values :: "dict \<Rightarrow> string list" where
  "select_values f = (case dget f ''options'' of PList xs \<Rightarrow> concat (map status_option_values xs) | _ \<Rightarrow> [])"

definition role_of :: "dict \<Rightarrow> string \<Rightarrow> string option" where
  "role_of config key = (case dget config key of PStr s \<Rightarrow> if s = [] then None else Some s | _ \<Rightarrow> None)"

definition values_of :: "dict \<Rightarrow> string \<Rightarrow> string list" where
  "values_of config key = (case dget config key of PList xs \<Rightarrow> map py_str xs | _ \<Rightarrow> [])"

definition relation_issues :: "string option \<Rightarrow> string \<Rightarrow> string \<Rightarrow> dict \<Rightarrow> profile_issue list" where
  "relation_issues table_id key i f =
     (let target = get_target_table_id f; multiple = relation_allows_multiple f in
      (case table_id of
         None \<Rightarrow> []
       | Some tid \<Rightarrow> if tid \<noteq> [] \<and> target \<noteq> [] \<and> target \<notin> {tid, ''$SELF''}
           then [\<lparr>is_key = key, is_code = ''RELATION_TARGET_MISMATCH'', is_message = key @ '' must point to the same table'', is_field = Some i\<rparr>] else [])
      @ (if key = ''parentFieldId'' \<and> multiple
         then [\<lparr>is_key = key, is_code = ''RELATION_CARDINALITY_MISMATCH'', is_message = ''parentFieldId must be a single-value relation'', is_field = Some i\<rparr>] else [])
      @ (if key = ''dependencyFieldId'' \<and> \<not> multiple
         then [\<lparr>is_key = key, is_code = ''RELATION_CARDINALITY_MISMATCH'', is_message = ''dependencyFieldId must allow multiple values'', is_field = Some i\<rparr>] else []))"

definition role_issues :: "string option \<Rightarrow> dict list \<Rightarrow> dict \<Rightarrow> string \<Rightarrow> profile_issue list" where
  "role_issues table_id flds config key = (case role_of config key of
       None \<Rightarrow> []
     | Some i \<Rightarrow> (case field_named flds i of
           None \<Rightarrow> [\<lparr>is_key = key, is_code = ''FIELD_MISSING'', is_message = ''Mapped field no longer exists: '' @ i, is_field = Some i\<rparr>]
         | Some f \<Rightarrow>
             let actual_type = lower (str_or_empty (dget f ''type'')) in
             if actual_type \<notin> set (type_rules key) then
               [\<lparr>is_key = key, is_code = ''FIELD_TYPE_MISMATCH'',
                 is_message = key @ '' does not accept field type '' @ [CHR 0x27] @ actual_type @ [CHR 0x27], is_field = Some i\<rparr>]
             else if key = ''parentFieldId'' \<or> key = ''dependencyFieldId'' then relation_issues table_id key i f
             else []))"

definition status_value_issues :: "dict list \<Rightarrow> dict \<Rightarrow> string \<Rightarrow> profile_issue list" where
  "status_value_issues flds config key =
     (let vals = values_of config key in
      if vals = [] then []
      else case role_of config ''statusFieldId'' of
        None \<Rightarrow> [\<lparr>is_key = key, is_code = ''STATUS_FIELD_REQUIRED'', is_message = key @ '' requires statusFieldId'', is_field = None\<rparr>]
      | Some status_id \<Rightarrow> (case field_named flds status_id of
            None \<Rightarrow> []
          | Some f \<Rightarrow>
              let allowed = select_values f; bad = filter (\<lambda>x. x \<notin> set allowed) vals in
              if allowed \<noteq> [] \<and> bad \<noteq> []
              then [\<lparr>is_key = key, is_code = ''STATUS_VALUE_INVALID'', is_message = ''Unknown status values: '' @ join '', '' bad, is_field = Some status_id\<rparr>]
              else []))"

definition overlap_issues :: "dict \<Rightarrow> string \<times> string \<Rightarrow> profile_issue list" where
  "overlap_issues config = (\<lambda>(l, r).
     let overlap = sort (remdups (filter (\<lambda>x. x \<in> set (values_of config r)) (values_of config l))) in
     if overlap = [] then []
     else [\<lparr>is_key = r, is_code = ''STATUS_VALUE_OVERLAP'',
       is_message = ''Status values cannot belong to both '' @ l @ '' and '' @ r @ '': '' @ join '', '' overlap, is_field = role_of config ''statusFieldId''\<rparr>])"

definition profile_issues :: "string option \<Rightarrow> dict list \<Rightarrow> dict \<Rightarrow> profile_issue list" where
  "profile_issues table_id flds config =
     concat (map (role_issues table_id flds config) profile_field_keys)
     @ concat (map (status_value_issues flds config) profile_value_keys)
     @ concat (map (overlap_issues config) [(''completedStatusValues'', ''blockedStatusValues''),
         (''completedStatusValues'', ''notStartedStatusValues''), (''blockedStatusValues'', ''notStartedStatusValues'')])"

definition inspect_task_profile_config :: "pyval \<Rightarrow> dict list \<Rightarrow> string option \<Rightarrow> (dict \<times> profile_issue list) res" where
  "inspect_task_profile_config config flds table_id =
     bind_res (normalize_task_profile_config config) (\<lambda>normalized. Inr (normalized, profile_issues table_id flds normalized))"

definition require_valid :: "dict \<times> profile_issue list \<Rightarrow> dict res" where
  "require_valid inspected = (case inspected of (config, issues) \<Rightarrow>
     if issues = [] then Inr config else profile_error (join ''; '' (map is_message issues)))"

definition validate_task_profile_snapshot :: "pyval \<Rightarrow> dict list \<Rightarrow> dict res" where
  "validate_task_profile_snapshot raw_profile flds =
     bind_res (inspect_task_profile_config raw_profile flds (Some ''$SELF'')) require_valid"

section \<open>The row of a table\<close>

definition profile_field_dict :: "table_field \<Rightarrow> dict" where
  "profile_field_dict f = [(''id'', PStr (fld_id f)), (''tableId'', PStr (fld_table f)), (''name'', PStr (fld_name f)),
     (''type'', PStr (lower (fld_type f))), (''options'', fld_options f), (''property'', fld_property f)]"

definition table_fields :: "tables \<Rightarrow> string \<Rightarrow> table_field list" where
  "table_fields t table_id = sort_key (\<lambda>f. (fld_order f, fld_id f)) (select t_fields (\<lambda>f. fld_table f = table_id) t)"

definition require_table :: "tables \<Rightarrow> string \<Rightarrow> workspace_item res" where
  "require_table t table_id = (case select_first t_items (\<lambda>i. itm_id i = table_id \<and> itm_type i = ''table'') t of
       None \<Rightarrow> profile_error ''Table not found'' | Some i \<Rightarrow> Inr i)"

definition get_task_profile_record :: "tables \<Rightarrow> string \<Rightarrow> task_profile option" where
  "get_task_profile_record t table_id = select_first t_profiles (\<lambda>p. tpf_table p = table_id) t"

record profile_view =
  pv_table :: string
  pv_version :: int
  pv_config :: dict
  pv_valid :: bool
  pv_issues :: "profile_issue list"
  pv_user :: "int option"

definition or_zero :: "int \<Rightarrow> int \<Rightarrow> int" where
  "or_zero n d = (if n = 0 then d else n)"

definition serialize_task_profile :: "tables \<Rightarrow> string \<Rightarrow> profile_view option res" where
  "serialize_task_profile t table_id =
     bind_res (require_table t table_id) (\<lambda>_.
     case get_task_profile_record t table_id of
       None \<Rightarrow> Inr None
     | Some p \<Rightarrow> bind_res (inspect_task_profile_config (PDict (tpf_config p)) (map profile_field_dict (table_fields t table_id)) (Some table_id))
         (\<lambda>(config, issues). Inr (Some \<lparr>pv_table = table_id, pv_version = or_zero (tpf_version p) 1, pv_config = config,
            pv_valid = (issues = []), pv_issues = issues, pv_user = tpf_user p\<rparr>)))"

definition store_profile :: "string \<Rightarrow> dict \<Rightarrow> int option \<Rightarrow> unit op" where
  "store_profile table_id config user_id =
     bind_op (reads (\<lambda>t. get_task_profile_record t table_id)) (\<lambda>existing.
     case existing of
       None \<Rightarrow> insert_row t_profiles t_profiles_update tpf_table \<lparr>tpf_table = table_id, tpf_config = config, tpf_version = 1, tpf_user = user_id\<rparr>
     | Some p \<Rightarrow> put_row t_profiles_update tpf_table (p\<lparr>tpf_config := config, tpf_version := tpf_version p + 1, tpf_user := user_id\<rparr>))"

definition save_task_profile :: "string \<Rightarrow> pyval \<Rightarrow> int option \<Rightarrow> bool \<Rightarrow> profile_view op" where
  "save_task_profile table_id config user_id commits =
     bind_op (reads (\<lambda>t. bind_res (require_table t table_id) (\<lambda>_.
       bind_res (inspect_task_profile_config config (map profile_field_dict (table_fields t table_id)) (Some table_id)) require_valid))) (\<lambda>checked.
     bind_op (of_res checked) (\<lambda>normalized.
     then_op (store_profile table_id normalized user_id)
     (then_op (if commits then commit else ret ())
     (bind_op (reads (\<lambda>t. serialize_task_profile t table_id)) (\<lambda>payload.
      bind_op (of_res payload) (\<lambda>view.
      case view of None \<Rightarrow> throw (Exn RuntimeError ''AssertionError'') | Some v \<Rightarrow> ret v))))))"

definition clear_task_profile :: "string \<Rightarrow> bool \<Rightarrow> bool op" where
  "clear_task_profile table_id commits =
     bind_op (reads (\<lambda>t. require_table t table_id)) (\<lambda>found.
     bind_op (of_res found) (\<lambda>_.
     bind_op (reads (\<lambda>t. get_task_profile_record t table_id)) (\<lambda>profile.
     if profile = None then ret False
     else then_op (delete_rows t_profiles_update (\<lambda>p. tpf_table p = table_id))
       (then_op (if commits then commit else ret ()) (ret True)))))"

definition copy_task_profile :: "string \<Rightarrow> string \<Rightarrow> int option \<Rightarrow> bool \<Rightarrow> profile_view option op" where
  "copy_task_profile source_table_id target_table_id user_id commits =
     bind_op (reads (\<lambda>t. get_task_profile_record t source_table_id)) (\<lambda>source.
     case source of
       None \<Rightarrow> ret None
     | Some p \<Rightarrow> bind_op (save_task_profile target_table_id (PDict (tpf_config p)) user_id commits) (\<lambda>v. ret (Some v)))"

section \<open>Annotations of the fields\<close>

definition role_by_key :: "(string \<times> string) list" where
  "role_by_key = [(''titleFieldId'', ''title''), (''statusFieldId'', ''status''), (''assigneeFieldId'', ''assignee''),
     (''priorityFieldId'', ''priority''), (''startDateFieldId'', ''startDate''), (''dueDateFieldId'', ''dueDate''),
     (''progressFieldId'', ''progress''), (''parentFieldId'', ''parent''), (''dependencyFieldId'', ''dependency''),
     (''workloadFieldId'', ''workload'')]"

definition key_by_role :: "string \<Rightarrow> string option" where
  "key_by_role r = map_of (map (\<lambda>(k, v). (v, k)) role_by_key) r"

abbreviation role_property :: string where "role_property \<equiv> ''taskProfileRole''"
abbreviation completed_property :: string where "completed_property \<equiv> ''taskProfileCompletedValues''"
abbreviation blocked_property :: string where "blocked_property \<equiv> ''taskProfileBlockedValues''"
abbreviation not_started_property :: string where "not_started_property \<equiv> ''taskProfileNotStartedValues''"

text \<open>\<open>dict(field.property or {})\<close>; a property is a dictionary or nothing. \<open>prop or None\<close>.\<close>

definition property_of :: "table_field \<Rightarrow> dict" where
  "property_of f = (case fld_property f of PDict d \<Rightarrow> d | _ \<Rightarrow> [])"

definition property_or_none :: "dict \<Rightarrow> pyval" where
  "property_or_none d = (if d = [] then PNone else PDict d)"

definition without_annotations :: "dict \<Rightarrow> dict" where
  "without_annotations d = ddel not_started_property (ddel blocked_property (ddel completed_property (ddel role_property d)))"

definition annotated :: "dict \<Rightarrow> string \<Rightarrow> dict \<Rightarrow> dict" where
  "annotated config key d =
     (let d1 = dset role_property (PStr (the (map_of role_by_key key))) d in
      if key = ''statusFieldId''
      then dset not_started_property (py_or (dget config ''notStartedStatusValues'') (PList []))
        (dset blocked_property (py_or (dget config ''blockedStatusValues'') (PList []))
        (dset completed_property (py_or (dget config ''completedStatusValues'') (PList [])) d1))
      else d1)"

definition annotate_field :: "string \<Rightarrow> dict \<Rightarrow> string \<Rightarrow> unit op" where
  "annotate_field table_id config key = (case role_of config key of
       None \<Rightarrow> ret ()
     | Some i \<Rightarrow>
         bind_op (reads (select_first t_fields (\<lambda>f. fld_key f = (i, table_id)))) (\<lambda>found.
         case found of
           None \<Rightarrow> throw (Exn TaskProfileValidationError (''Mapped field no longer exists: '' @ i))
         | Some f \<Rightarrow> put_row t_fields_update fld_key (f\<lparr>fld_property := PDict (annotated config key (property_of f))\<rparr>)))"

definition sync_profile_annotations :: "string \<Rightarrow> dict \<Rightarrow> unit op" where
  "sync_profile_annotations table_id config =
     then_op (update_rows t_fields_update (\<lambda>f. fld_table f = table_id)
       (\<lambda>f. f\<lparr>fld_property := property_or_none (without_annotations (property_of f))\<rparr>))
     (bind_op (map_op (annotate_field table_id config) profile_field_keys) (\<lambda>_. ret ()))"

definition clear_profile_annotations :: "string \<Rightarrow> unit op" where
  "clear_profile_annotations table_id =
     update_rows t_fields_update
       (\<lambda>f. fld_table f = table_id \<and> list_ex (dhas (property_of f)) [role_property, completed_property, blocked_property, not_started_property])
       (\<lambda>f. f\<lparr>fld_property := property_or_none (without_annotations (property_of f))\<rparr>)"

text \<open>\<open>prop.get(...) or []\<close>.\<close>

definition status_annotation :: "dict \<Rightarrow> string \<Rightarrow> pyval" where
  "status_annotation d k = py_or (dget d k) (PList [])"

definition is_list_value :: "pyval \<Rightarrow> bool" where
  "is_list_value v = (case v of PList _ \<Rightarrow> True | _ \<Rightarrow> False)"

definition blank_config :: dict where
  "blank_config = (''schemaVersion'', PInt 1) # map (\<lambda>k. (k, PNone)) profile_field_keys @ map (\<lambda>k. (k, PList [])) profile_value_keys"

text \<open>One turn of the loop over the fields: the roles claimed so far and the configuration.\<close>

definition read_annotation :: "string list \<times> dict \<Rightarrow> table_field \<Rightarrow> (string list \<times> dict) res" where
  "read_annotation = (\<lambda>(claimed, config) f.
     let prop = property_of f; role = dget prop role_property in
     if \<not> py_truth role then Inr (claimed, config)
     else case key_by_role (py_str role) of
       None \<Rightarrow> profile_error (''Unknown portable task profile role: '' @ py_str role)
     | Some key \<Rightarrow>
         if key \<in> set claimed then profile_error (''Duplicate portable task profile role: '' @ py_str role)
         else
           let config1 = dset key (PStr (fld_id f)) config;
               completed = status_annotation prop completed_property; blocked = status_annotation prop blocked_property;
               not_started = status_annotation prop not_started_property in
           if key \<noteq> ''statusFieldId'' then Inr (claimed @ [key], config1)
           else if \<not> list_all is_list_value [completed, blocked, not_started] then profile_error ''Portable status semantics must be lists''
           else Inr (claimed @ [key], dset ''notStartedStatusValues'' not_started (dset ''blockedStatusValues'' blocked
             (dset ''completedStatusValues'' completed config1))))"

fun fold_res :: "('b \<Rightarrow> 'a \<Rightarrow> 'b res) \<Rightarrow> 'b \<Rightarrow> 'a list \<Rightarrow> 'b res" where
  "fold_res f b [] = Inr b"
| "fold_res f b (x # xs) = bind_res (f b x) (\<lambda>b'. fold_res f b' xs)"

definition config_from_annotated_fields :: "table_field list \<Rightarrow> string \<Rightarrow> dict option res" where
  "config_from_annotated_fields flds table_id =
     bind_res (fold_res read_annotation ([], blank_config) flds) (\<lambda>(claimed, config).
     if claimed = [] then Inr None
     else bind_res (inspect_task_profile_config (PDict config) (map (\<lambda>f. dset ''type'' (PStr (fld_type f)) (profile_field_dict f)) flds) (Some table_id)) (\<lambda>inspected.
       bind_res (require_valid inspected) (\<lambda>c. Inr (Some c))))"

definition install_profile_from_annotations :: "string \<Rightarrow> int option \<Rightarrow> bool \<Rightarrow> profile_view option op" where
  "install_profile_from_annotations table_id user_id commits =
     bind_op (reads (\<lambda>t. get_task_profile_record t table_id)) (\<lambda>existing.
     if existing \<noteq> None then ret None
     else bind_op (reads (\<lambda>t. config_from_annotated_fields (table_fields t table_id) table_id)) (\<lambda>found.
       bind_op (of_res found) (\<lambda>config.
       case config of
         None \<Rightarrow> ret None
       | Some c \<Rightarrow> bind_op (save_task_profile table_id (PDict c) user_id commits) (\<lambda>v. ret (Some v)))))"

definition remap_copied_task_profile_relations :: "string \<Rightarrow> string \<Rightarrow> unit op" where
  "remap_copied_task_profile_relations source_table_id target_table_id =
     update_rows t_fields_update
       (\<lambda>f. fld_table f = target_table_id \<and> dget (property_of f) role_property \<in> {PStr ''parent'', PStr ''dependency''}
          \<and> dget (property_of f) ''targetTableId'' = PStr source_table_id)
       (\<lambda>f. f\<lparr>fld_property := PDict (dset ''targetTableId'' (PStr target_table_id) (property_of f))\<rparr>)"

section \<open>Profiles of created, copied and deleted tables\<close>

text \<open>An operation that need not return: \<open>None\<close>. \<open>except Exception: handler; raise\<close> with such a handler.\<close>

definition reraise_after :: "(session \<Rightarrow> ('b res \<times> session) option) \<Rightarrow> 'a op \<Rightarrow> session \<Rightarrow> ('a res \<times> session) option" where
  "reraise_after handler m s = (case m s of
       (Inr x, s1) \<Rightarrow> Some (Inr x, s1)
     | (Inl e, s1) \<Rightarrow> (case handler s1 of
           None \<Rightarrow> None
         | Some (Inl e', s2) \<Rightarrow> Some (Inl e', s2)
         | Some (Inr _, s2) \<Rightarrow> Some (Inl e, s2)))"

definition undo_created :: "string \<Rightarrow> string option \<Rightarrow> template \<Rightarrow> session \<Rightarrow> (bool res \<times> session) option" where
  "undo_created table_id workspace_id projects s = (case rollback s of
     (_, s1) \<Rightarrow> delete_item_db table_id (Some (normalize_workspace_id workspace_id)) projects s1)"

definition install_created_table_profile_or_cleanup ::
  "tree_node \<Rightarrow> string option \<Rightarrow> int option \<Rightarrow> template \<Rightarrow> session \<Rightarrow> (unit res \<times> session) option" where
  "install_created_table_profile_or_cleanup created workspace_id user_id projects =
     reraise_after (undo_created (nd_id created) workspace_id projects)
       (bind_op (install_profile_from_annotations (nd_id created) user_id True) (\<lambda>_. ret ()))"

definition create_table_checked ::
  "string \<Rightarrow> string \<Rightarrow> string \<Rightarrow> string option \<Rightarrow> (tables \<Rightarrow> string \<Rightarrow> template res) option \<Rightarrow> template \<Rightarrow> int option
    \<Rightarrow> session \<Rightarrow> (tree_node res \<times> session) option" where
  "create_table_checked name parent_id default_view_id workspace_id chosen projects user_id s =
     (case create_table_item_db name parent_id default_view_id workspace_id chosen projects s of
        (Inl e, s1) \<Rightarrow> Some (Inl e, s1)
      | (Inr created, s1) \<Rightarrow> (case install_created_table_profile_or_cleanup created workspace_id user_id projects s1 of
            None \<Rightarrow> None
          | Some (Inl e, s2) \<Rightarrow> Some (Inl e, s2)
          | Some (Inr _, s2) \<Rightarrow> Some (Inr created, s2)))"

definition copy_table_checked ::
  "string \<Rightarrow> string \<Rightarrow> string option \<Rightarrow> string option \<Rightarrow> template \<Rightarrow> session \<Rightarrow> (tree_node option res \<times> session) option" where
  "copy_table_checked table_id new_parent_id new_name workspace_id projects s =
     (case copy_table_item_db table_id new_parent_id new_name workspace_id projects s of
        (Inl e, s1) \<Rightarrow> Some (Inl e, s1)
      | (Inr None, s1) \<Rightarrow> Some (Inr None, s1)
      | (Inr (Some created), s1) \<Rightarrow>
          let cleanup = undo_created (nd_id created) workspace_id projects in
          (case then_op (remap_copied_task_profile_relations table_id (nd_id created)) commit s1 of
             (Inl e, s2) \<Rightarrow> reraise_after cleanup (throw e) s2
           | (Inr _, s2) \<Rightarrow> (case install_created_table_profile_or_cleanup created workspace_id None projects s2 of
                 None \<Rightarrow> None
               | Some (Inl e, s3) \<Rightarrow> reraise_after cleanup (throw e) s3
               | Some (Inr _, s3) \<Rightarrow> Some (Inr (Some created), s3))))"

text \<open>The tables below an item; this walk keeps a visited set.\<close>

function subtree_tables :: "workspace_item list \<Rightarrow> string list \<Rightarrow> string list \<Rightarrow> string list \<Rightarrow> string list" where
  "subtree_tables items seen found [] = found"
| "subtree_tables items seen found (i # rest) =
     (if i \<in> set seen then subtree_tables items seen found rest
      else subtree_tables items (i # seen)
        (case find (\<lambda>x. itm_id x = i) items of Some x \<Rightarrow> if itm_type x = ''table'' then found @ [i] else found | None \<Rightarrow> found)
        (rev (child_ids items i) @ rest))"
  by pat_completeness auto
termination
proof (relation "measures [\<lambda>(items, seen, found, stack). card (itm_id ` set items \<union> set stack - set seen), \<lambda>(items, seen, found, stack). length stack]",
    goal_cases)
  case (2 items seen found i rest)
  have "card (itm_id ` set items \<union> set rest - set seen) \<le> card (itm_id ` set items \<union> set (i # rest) - set seen)"
    by (rule card_mono) auto
  then show ?case by auto
next
  case (3 items seen found i rest)
  have "itm_id ` set items \<union> set (rev (child_ids items i) @ rest) - set (i # seen) \<subset> itm_id ` set items \<union> set (i # rest) - set seen"
    using 3 by (auto simp: child_ids_def)
  then show ?case by (auto intro: psubset_card_mono)
qed simp

definition delete_item_checked :: "string \<Rightarrow> string option \<Rightarrow> template \<Rightarrow> session \<Rightarrow> (bool res \<times> session) option" where
  "delete_item_checked item_id workspace_id projects s =
     (let ws = normalize_workspace_id workspace_id;
          table_ids = subtree_tables (select t_items (\<lambda>i. itm_ws i = ws) (work s)) [] [] [item_id] in
      case delete_item_db item_id (Some ws) projects s of
        None \<Rightarrow> None
      | Some (Inl e, s1) \<Rightarrow> Some (Inl e, s1)
      | Some (Inr deleted, s1) \<Rightarrow>
          Some (if deleted \<and> table_ids \<noteq> []
            then then_op (delete_rows t_profiles_update (\<lambda>p. tpf_table p \<in> set table_ids)) (then_op commit (ret deleted)) s1
            else (Inr deleted, s1)))"

definition delete_workspace_checked :: "string \<Rightarrow> template \<Rightarrow> bool op" where
  "delete_workspace_checked workspace_id projects =
     bind_op (reads (\<lambda>t. map itm_id (select t_items (\<lambda>i. itm_ws i = workspace_id \<and> itm_type i = ''table'') t))) (\<lambda>table_ids.
     bind_op (delete_workspace_db workspace_id projects) (\<lambda>deleted.
     if deleted \<and> table_ids \<noteq> []
     then then_op (delete_rows t_profiles_update (\<lambda>p. tpf_table p \<in> set table_ids)) (then_op commit (ret deleted))
     else ret deleted))"

end
