(* ===== verification/TaskProps.thy ===== *)
theory TaskProps
  imports TaskProfile
begin

text \<open>
  What task profiles promise: a saved profile fits the fields it was saved for, and the
  annotations of the fields carry it, unless two roles share a field.
\<close>

section \<open>Normalised profiles\<close>

lemma clean_values_strings:
  "\<forall>x\<in>set acc. x \<noteq> [] \<and> strip x = x \<Longrightarrow> distinct acc \<Longrightarrow>
   distinct (clean_values acc vs) \<and> (\<forall>x\<in>set (clean_values acc vs). x \<noteq> [] \<and> strip x = x)"
proof (induction acc vs rule: clean_values.induct)
  case (2 acc v vs)
  let ?acc = "if strip (py_str v) \<noteq> [] \<and> strip (py_str v) \<notin> set acc then acc @ [strip (py_str v)] else acc"
  have "\<forall>x\<in>set ?acc. x \<noteq> [] \<and> strip x = x" "distinct ?acc" using "2.prems" by auto
  then show ?case unfolding clean_values.simps Let_def by (rule "2.IH"[OF refl])
qed auto

lemma clean_values_id:
  "\<forall>x\<in>set xs. x \<noteq> [] \<and> strip x = x \<Longrightarrow> distinct (acc @ xs) \<Longrightarrow> clean_values acc (map PStr xs) = acc @ xs"
  by (induction xs arbitrary: acc) (auto simp: Let_def py_str_def)

lemma map_res_keyed:
  "(\<And>k w. f k = Inr w \<Longrightarrow> fst w = k) \<Longrightarrow> map_res f ks = Inr ws \<Longrightarrow> map fst ws = ks"
  by (induction ks arbitrary: ws) (auto simp: bind_res_Inr)

lemma map_res_get:
  "(\<And>k w. f k = Inr w \<Longrightarrow> fst w = k) \<Longrightarrow> map_res f ks = Inr ws \<Longrightarrow> distinct ks \<Longrightarrow> k \<in> set ks \<Longrightarrow>
   \<exists>v. f k = Inr (k, v) \<and> map_of ws k = Some v"
  by (induction ks arbitrary: ws) (force simp: bind_res_Inr)+

lemma map_res_ok: "(\<And>k. k \<in> set ks \<Longrightarrow> f k = Inr (g k)) \<Longrightarrow> map_res f ks = Inr (map g ks)"
  by (induction ks) auto

lemma role_key: "normalize_field_role d k = Inr w \<Longrightarrow> fst w = k"
  by (auto simp: normalize_field_role_def split: pyval.splits)

lemma value_key: "normalize_status_values d k = Inr w \<Longrightarrow> fst w = k"
  by (auto simp: normalize_status_values_def split: pyval.splits if_splits)

definition profile_keys :: "string list" where
  "profile_keys = ''schemaVersion'' # profile_field_keys @ profile_value_keys"

lemma profile_keys_distinct: "distinct profile_keys"
  by code_simp

text \<open>The shape of a normalised profile.\<close>

definition profile_ok :: "dict \<Rightarrow> bool" where
  "profile_ok c \<longleftrightarrow> dkeys c = profile_keys \<and> dget c ''schemaVersion'' = PInt 1
     \<and> (\<forall>k\<in>set profile_field_keys. dget c k = PNone \<or> (\<exists>s. dget c k = PStr s \<and> s \<noteq> [] \<and> strip s = s))
     \<and> (\<forall>k\<in>set profile_value_keys. \<exists>xs. dget c k = PList (map PStr xs) \<and> distinct xs \<and> (\<forall>x\<in>set xs. x \<noteq> [] \<and> strip x = x))"

lemma alist_eq:
  "map fst d = map fst e \<Longrightarrow> distinct (map fst d) \<Longrightarrow> (\<And>k. k \<in> fst ` set d \<Longrightarrow> dget d k = dget e k) \<Longrightarrow> d = e"
proof (induction d arbitrary: e)
  case (Cons x d)
  then obtain y e' where e: "e = y # e'" "fst x = fst y" "map fst d = map fst e'" by (cases e) auto
  have "snd x = snd y" using Cons.prems(3)[of "fst x"] e by (auto simp: dget_def)
  moreover have "d = e'"
  proof (rule Cons.IH)
    show "map fst d = map fst e'" "distinct (map fst d)" using e Cons.prems(2) by auto
    fix k assume k: "k \<in> fst ` set d"
    then have "k \<noteq> fst x" using Cons.prems(2) by (metis distinct.simps(2) list.set_map list.simps(9))
    then show "dget d k = dget e' k" using Cons.prems(3)[of k] k e by (auto simp: dget_def)
  qed
  ultimately show ?case using e by (simp add: prod_eq_iff)
qed simp

lemma normalized_ok:
  assumes "normalize_task_profile_config raw = Inr c"
  shows "profile_ok c"
proof -
  from assms obtain d roles vals where d: "raw = PDict d" "map_res (normalize_field_role d) profile_field_keys = Inr roles"
    "map_res (normalize_status_values d) profile_value_keys = Inr vals" "c = (''schemaVersion'', PInt 1) # roles @ vals"
    by (auto simp: normalize_task_profile_config_def Let_def bind_res_Inr split: pyval.splits if_splits)
  have keys: "map fst roles = profile_field_keys" "map fst vals = profile_value_keys"
    using map_res_keyed[OF role_key d(2)] map_res_keyed[OF value_key d(3)] by auto
  have dk: "dkeys c = profile_keys" using keys d(4) by (simp add: dkeys_def profile_keys_def)
  have dist: "distinct profile_field_keys" "distinct profile_value_keys" "''schemaVersion'' \<notin> set (profile_field_keys @ profile_value_keys)"
    "set profile_field_keys \<inter> set profile_value_keys = {}"
    using profile_keys_distinct by (auto simp: profile_keys_def)
  have role: "\<exists>v. normalize_field_role d k = Inr (k, v) \<and> dget c k = v" if k: "k \<in> set profile_field_keys" for k
  proof -
    obtain v where "normalize_field_role d k = Inr (k, v)" "map_of roles k = Some v"
      using map_res_get[of "normalize_field_role d" profile_field_keys roles k, OF role_key[of d] d(2) dist(1) k] by blast
    with k dist(3) show ?thesis by (auto simp: d(4) dget_def)
  qed
  have val: "\<exists>v. normalize_status_values d k = Inr (k, v) \<and> dget c k = v" if k: "k \<in> set profile_value_keys" for k
  proof -
    have "map_of roles k = None" using k keys(1) dist(4) by (auto simp: map_of_eq_None_iff simp flip: set_map)
    moreover obtain v where "normalize_status_values d k = Inr (k, v)" "map_of vals k = Some v"
      using map_res_get[of "normalize_status_values d" profile_value_keys vals k, OF value_key[of d] d(3) dist(2) k] by blast
    ultimately show ?thesis using k dist(3) by (auto simp: d(4) dget_def map_add_def)
  qed
  have 1: "dget c k = PNone \<or> (\<exists>s. dget c k = PStr s \<and> s \<noteq> [] \<and> strip s = s)" if "k \<in> set profile_field_keys" for k
  proof -
    obtain v where v: "normalize_field_role d k = Inr (k, v)" "dget c k = v" using role[OF \<open>k \<in> set profile_field_keys\<close>] by blast
    then have "v = PNone \<or> (\<exists>s. v = PStr (strip s) \<and> strip s \<noteq> [])"
      by (auto simp: normalize_field_role_def split: pyval.splits if_splits)
    with v(2) show ?thesis by auto
  qed
  have 2: "\<exists>xs. dget c k = PList (map PStr xs) \<and> distinct xs \<and> (\<forall>x\<in>set xs. x \<noteq> [] \<and> strip x = x)" if "k \<in> set profile_value_keys" for k
  proof -
    obtain v where v: "normalize_status_values d k = Inr (k, v)" "dget c k = v" using val[OF \<open>k \<in> set profile_value_keys\<close>] by blast
    from v(1) have "\<exists>xs. v = PList (map PStr (clean_values [] xs))"
      by (auto simp: normalize_status_values_def split: pyval.splits if_splits)
    then obtain xs where "v = PList (map PStr (clean_values [] xs))" by blast
    with v(2) clean_values_strings[of "[]" xs] show ?thesis by auto
  qed
  show ?thesis using dk 1 2 by (auto simp: profile_ok_def d(4) dget_def)
qed

lemma ok_normalizes:
  assumes ok: "profile_ok c"
  shows "normalize_task_profile_config (PDict c) = Inr c"
proof -
  have role: "normalize_field_role c k = Inr (k, dget c k)" if "k \<in> set profile_field_keys" for k
    using ok that by (auto simp: profile_ok_def normalize_field_role_def)
  have val: "normalize_status_values c k = Inr (k, dget c k)" if k: "k \<in> set profile_value_keys" for k
  proof -
    obtain xs where xs: "dget c k = PList (map PStr xs)" "distinct xs" "\<forall>x\<in>set xs. x \<noteq> [] \<and> strip x = x"
      using ok k by (auto simp: profile_ok_def)
    have "py_or (dget c k) (PList []) = PList (map PStr xs)" using xs(1) by (cases xs) (auto simp: py_or_def)
    moreover have "list_all is_scalar_value (map PStr xs)" by (simp add: list_all_iff is_scalar_value_def)
    ultimately show ?thesis using xs clean_values_id[of xs "[]"] by (simp add: normalize_status_values_def)
  qed
  have keys: "filter (\<lambda>k. k \<notin> set allowed_profile_keys) (dkeys c) = []"
    using ok by (auto simp: profile_ok_def profile_keys_def allowed_profile_keys_def filter_empty_conv)
  have "(''schemaVersion'', PInt 1) # map (\<lambda>k. (k, dget c k)) profile_field_keys @ map (\<lambda>k. (k, dget c k)) profile_value_keys = c" (is "?d = c")
  proof (rule alist_eq)
    show "map fst ?d = map fst c" "distinct (map fst ?d)"
      using ok profile_keys_distinct by (simp_all add: profile_ok_def profile_keys_def dkeys_def comp_def)
    have get: "dget (map (\<lambda>k. (k, h k)) ks @ e) k = (if k \<in> set ks then h k else dget e k)" for h ks e and k :: string
      by (induction ks) (auto simp: dget_def)
    from get[of _ _ "[]"] have get0: "dget (map (\<lambda>k. (k, h k)) ks) k = (if k \<in> set ks then h k else PNone)" for h ks and k :: string
      by (simp add: dget_def)
    show "dget ?d k = dget c k" if "k \<in> fst ` set ?d" for k
      using that ok by (auto simp: get get0 profile_ok_def)
  qed
  with keys map_res_ok[of profile_field_keys "normalize_field_role c" "\<lambda>k. (k, dget c k)", OF role]
    map_res_ok[of profile_value_keys "normalize_status_values c" "\<lambda>k. (k, dget c k)", OF val]
  show ?thesis by (simp add: normalize_task_profile_config_def Let_def)
qed

section \<open>Saving\<close>

lemma map_res_fails: "map_res f xs = Inl e \<Longrightarrow> \<exists>x\<in>set xs. f x = Inl e"
  by (induction xs) (auto simp: bind_res_Inl)

lemma find_map_row: "find (\<lambda>x. key x = k) xs = Some p \<Longrightarrow> key r = k \<Longrightarrow> find (\<lambda>x. key x = k) (map (\<lambda>x. if key x = k then r else x) xs) = Some r"
  by (induction xs) (auto split: if_splits)

lemma store_profile_run:
  "\<exists>ps. store_profile table_id c u s = (Inr (), s\<lparr>work := t_profiles_update (\<lambda>_. ps) (work s)\<rparr>)
    \<and> find (\<lambda>p. tpf_table p = table_id) ps = Some \<lparr>tpf_table = table_id, tpf_config = c,
        tpf_version = (case get_task_profile_record (work s) table_id of None \<Rightarrow> 1 | Some p \<Rightarrow> tpf_version p + 1), tpf_user = u\<rparr>"
proof (cases "get_task_profile_record (work s) table_id")
  case None
  then have none: "\<forall>p\<in>set (t_profiles (work s)). tpf_table p \<noteq> table_id"
    by (auto simp: get_task_profile_record_def select_first_def find_None_iff)
  then have "find (\<lambda>p. tpf_table p = table_id) (t_profiles (work s)) = None" by (auto simp: find_None_iff)
  with none None show ?thesis
    by (intro exI[of _ "t_profiles (work s) @ [\<lparr>tpf_table = table_id, tpf_config = c, tpf_version = 1, tpf_user = u\<rparr>]"])
      (auto simp: store_profile_def op_eval insert_row_def find_append)
next
  case (Some p)
  then have p: "tpf_table p = table_id" "find (\<lambda>p. tpf_table p = table_id) (t_profiles (work s)) = Some p"
    using find_SomeD[of "\<lambda>p. tpf_table p = table_id"] by (auto simp: get_task_profile_record_def select_first_def)
  let ?row = "p\<lparr>tpf_config := c, tpf_version := tpf_version p + 1, tpf_user := u\<rparr>"
  have "?row = \<lparr>tpf_table = table_id, tpf_config = c, tpf_version = tpf_version p + 1, tpf_user = u\<rparr>"
    using p(1) by (cases p) simp
  with Some p find_map_row[OF p(2), of ?row] show ?thesis
    by (intro exI[of _ "map (\<lambda>x. if tpf_table x = table_id then ?row else x) (t_profiles (work s))"])
      (auto simp: store_profile_def op_eval put_row_def)
qed

lemma normalize_class: "normalize_task_profile_config raw = Inl e \<Longrightarrow> exn_class e = TaskProfileValidationError"
proof -
  assume e: "normalize_task_profile_config raw = Inl e"
  have 1: "exn_class e = TaskProfileValidationError" if "normalize_field_role d k = Inl e" for d k
    using that by (auto simp: normalize_field_role_def split: pyval.splits)
  have 2: "exn_class e = TaskProfileValidationError" if "normalize_status_values d k = Inl e" for d k
    using that by (auto simp: normalize_status_values_def split: pyval.splits if_splits)
  show ?thesis using e 1 2
    by (auto simp: normalize_task_profile_config_def Let_def bind_res_Inl split: pyval.splits if_splits dest!: map_res_fails)
qed

lemma profile_check_class:
  assumes "bind_res (require_table t table_id) (\<lambda>_. bind_res (inspect_task_profile_config config flds tid) require_valid) = Inl e"
  shows "exn_class e = TaskProfileValidationError"
  using assms normalize_class
  by (auto simp: bind_res_Inl require_table_def inspect_task_profile_config_def require_valid_def split: option.splits if_splits)

text \<open>C30: Saving a profile is all or nothing. Either it raises a validation error and the session is
  as it was, or the profile returned is the normalised one (normalising it again changes nothing),
  it has no issue with the fields of the table, it is the row of the table, with the next version,
  and no other table of the database has changed.\<close>
theorem save_profile_valid:
  assumes "save_task_profile table_id config user_id commits s = (r, s')"
  shows "(case r of
      Inl e \<Rightarrow> s' = s \<and> exn_class e = TaskProfileValidationError
    | Inr v \<Rightarrow> normalize_task_profile_config config = Inr (pv_config v)
        \<and> normalize_task_profile_config (PDict (pv_config v)) = Inr (pv_config v)
        \<and> profile_issues (Some table_id) (map profile_field_dict (table_fields (work s) table_id)) (pv_config v) = []
        \<and> pv_valid v \<and> pv_issues v = []
        \<and> get_task_profile_record (work s') table_id = Some \<lparr>tpf_table = table_id, tpf_config = pv_config v,
             tpf_version = (case get_task_profile_record (work s) table_id of None \<Rightarrow> 1 | Some p \<Rightarrow> tpf_version p + 1), tpf_user = user_id\<rparr>
        \<and> work s' = t_profiles_update (\<lambda>_. t_profiles (work s')) (work s))"
proof -
  let ?flds = "map profile_field_dict (table_fields (work s) table_id)"
  let ?old = "get_task_profile_record (work s) table_id"
  let ?checked = "bind_res (require_table (work s) table_id) (\<lambda>_. bind_res (inspect_task_profile_config config ?flds (Some table_id)) require_valid)"
  show ?thesis
  proof (cases ?checked)
    case (Inl e)
    then have "r = Inl e" "s' = s" using assms by (simp_all add: save_task_profile_def op_eval)
    moreover have "exn_class e = TaskProfileValidationError" by (rule profile_check_class[OF Inl])
    ultimately show ?thesis by simp
  next
    case (Inr c)
    then have c: "normalize_task_profile_config config = Inr c" "profile_issues (Some table_id) ?flds c = []"
      and req: "\<exists>i. require_table (work s) table_id = Inr i"
      by (auto simp: bind_res_Inr inspect_task_profile_config_def require_valid_def split: if_splits)
    have again: "normalize_task_profile_config (PDict c) = Inr c" by (rule ok_normalizes[OF normalized_ok[OF c(1)]])
    obtain ps where ps: "store_profile table_id c user_id s = (Inr (), s\<lparr>work := t_profiles_update (\<lambda>_. ps) (work s)\<rparr>)"
      "find (\<lambda>p. tpf_table p = table_id) ps = Some \<lparr>tpf_table = table_id, tpf_config = c,
        tpf_version = (case ?old of None \<Rightarrow> 1 | Some p \<Rightarrow> tpf_version p + 1), tpf_user = user_id\<rparr>"
      using store_profile_run[of table_id c user_id s] by blast
    let ?w = "t_profiles_update (\<lambda>_. ps) (work s)"
    have same: "table_fields ?w table_id = table_fields (work s) table_id" "require_table ?w table_id = require_table (work s) table_id"
      by (simp_all add: table_fields_def require_table_def select_def select_first_def)
    have rec: "get_task_profile_record ?w table_id = Some \<lparr>tpf_table = table_id, tpf_config = c,
        tpf_version = (case ?old of None \<Rightarrow> 1 | Some p \<Rightarrow> tpf_version p + 1), tpf_user = user_id\<rparr>"
      using ps(2) by (simp add: get_task_profile_record_def select_first_def)
    have "\<exists>v. serialize_task_profile ?w table_id = Inr (Some v) \<and> pv_config v = c \<and> pv_valid v \<and> pv_issues v = []"
      using req again c(2) by (auto simp: serialize_task_profile_def same rec inspect_task_profile_config_def)
    then obtain v where v: "serialize_task_profile ?w table_id = Inr (Some v)" "pv_config v = c" "pv_valid v" "pv_issues v = []" by blast
    have "r = Inr v" "work s' = ?w"
      using assms Inr ps(1) v(1) by (auto simp: save_task_profile_def op_eval split: if_splits)
    with v c again rec show ?thesis by simp
  qed
qed

section \<open>Annotations carry the profile\<close>

text \<open>The role a field has in a profile, and the field after the profile is mirrored.\<close>

definition key_for :: "dict \<Rightarrow> string list \<Rightarrow> table_field \<Rightarrow> string option" where
  "key_for config ks f = find (\<lambda>k. role_of config k = Some (fld_id f)) ks"

definition mirrored :: "dict \<Rightarrow> string list \<Rightarrow> table_field \<Rightarrow> table_field" where
  "mirrored config ks f = f\<lparr>fld_property := (let p = without_annotations (property_of f) in
     case key_for config ks f of None \<Rightarrow> property_or_none p | Some k \<Rightarrow> PDict (annotated config k p))\<rparr>"

definition one_role_each :: "dict \<Rightarrow> bool" where
  "one_role_each config \<longleftrightarrow> (\<forall>k\<in>set profile_field_keys. \<forall>k'\<in>set profile_field_keys.
     role_of config k \<noteq> None \<and> role_of config k = role_of config k' \<longrightarrow> k = k')"

lemma one_role_eachD:
  "one_role_each config \<Longrightarrow> k \<in> set profile_field_keys \<Longrightarrow> k' \<in> set profile_field_keys \<Longrightarrow>
   role_of config k = Some i \<Longrightarrow> role_of config k' = Some i \<Longrightarrow> k = k'"
  unfolding one_role_each_def by force

lemma property_or_none_of [simp]: "property_of (f\<lparr>fld_property := property_or_none p\<rparr>) = p"
  by (simp add: property_of_def property_or_none_def)

lemma annotated_frame:
  "x \<notin> {role_property, completed_property, blocked_property, not_started_property} \<Longrightarrow> map_of (annotated config k p) x = map_of p x"
  by (simp add: annotated_def Let_def map_of_dset)

lemma unannotated_frame:
  "x \<notin> {role_property, completed_property, blocked_property, not_started_property} \<Longrightarrow> map_of (without_annotations p) x = map_of p x"
  by (simp add: without_annotations_def ddel_def delete_conv')

lemma mirrored_property: "property_of (mirrored config ks f) = (case key_for config ks f of
    None \<Rightarrow> without_annotations (property_of f) | Some k \<Rightarrow> annotated config k (without_annotations (property_of f)))"
  by (cases "key_for config ks f") (simp_all add: mirrored_def Let_def property_of_def[of "f\<lparr>fld_property := PDict d\<rparr>" for d])

lemma mirrored_frame:
  assumes "x \<notin> {role_property, completed_property, blocked_property, not_started_property}"
  shows "map_of (property_of (mirrored config ks f)) x = map_of (property_of f) x"
  unfolding mirrored_property
  by (cases "key_for config ks f") (simp_all only: option.case annotated_frame[OF assms] unannotated_frame[OF assms])

lemma mirrored_same [simp]:
  "fld_id (mirrored config ks f) = fld_id f" "fld_table (mirrored config ks f) = fld_table f" "fld_name (mirrored config ks f) = fld_name f"
  "fld_type (mirrored config ks f) = fld_type f" "fld_options (mirrored config ks f) = fld_options f" "fld_order (mirrored config ks f) = fld_order f"
  "fld_key (mirrored config ks f) = fld_key f"
  by (simp_all add: mirrored_def fld_key_def)

lemma fld_key_property [simp]: "fld_key (f\<lparr>fld_property := x\<rparr>) = fld_key f"
  by (simp add: fld_key_def)

lemma annotate_step:
  assumes k: "role_of config k = Some i" and d: "k \<notin> set ks" "set (k # ks) \<subseteq> set profile_field_keys" and one: "one_role_each config"
    and uq: "distinct (map fld_key fs)" and ex: "\<exists>f\<in>set fs. fld_key f = (i, table_id)"
    and w: "t_fields (work s) = map (\<lambda>f. if fld_table f = table_id then mirrored config ks f else f) fs"
  shows "annotate_field table_id config k s
    = (Inr (), s\<lparr>work := t_fields_update (\<lambda>_. map (\<lambda>f. if fld_table f = table_id then mirrored config (ks @ [k]) f else f) fs) (work s)\<rparr>)"
proof -
  let ?m = "\<lambda>ks f. if fld_table f = table_id then mirrored config ks f else f"
  obtain f where f: "f \<in> set fs" "fld_key f = (i, table_id)" using ex by blast
  then have ft: "fld_table f = table_id" "fld_id f = i" by (auto simp: fld_key_def)
  have fresh: "key_for config ks f = None"
  proof (cases "key_for config ks f")
    case (Some k')
    then have k': "k' \<in> set ks" "role_of config k' = Some i"
      using find_SomeD[of "\<lambda>k. role_of config k = Some (fld_id f)" ks k'] ft by (simp_all add: key_for_def)
    have "k' \<in> set profile_field_keys" "k \<in> set profile_field_keys" using k'(1) d(2) by auto
    from one_role_eachD[OF one this k'(2) k] k'(1) d(1) show ?thesis by simp
  qed
  have mk: "fld_key (?m ks g) = fld_key g" for g by simp
  have found: "find (\<lambda>f. fld_key f = (i, table_id)) (map (?m ks) fs) = Some (mirrored config ks f)"
  proof -
    have "distinct (map fld_key (map (?m ks) fs))" using uq by (simp add: comp_def mk)
    moreover have "mirrored config ks f \<in> set (map (?m ks) fs)" using f(1) ft by force
    ultimately have "find (\<lambda>g. fld_key g = fld_key (mirrored config ks f)) (map (?m ks) fs) = Some (mirrored config ks f)"
      by (rule find_distinct_key)
    then show ?thesis using f(2) by simp
  qed
  have cleared: "property_of (mirrored config ks f) = without_annotations (property_of f)"
    using fresh by (simp add: mirrored_def Let_def)
  have each: "(if fld_key (?m ks g) = (i, table_id)
      then (mirrored config ks f)\<lparr>fld_property := PDict (annotated config k (without_annotations (property_of f)))\<rparr> else ?m ks g) = ?m (ks @ [k]) g"
    if g: "g \<in> set fs" for g
  proof (cases "fld_key g = (i, table_id)")
    case True
    then have "g = f" using g f uq by (metis distinct_map inj_onD)
    have "key_for config (ks @ [k]) f = Some k" using fresh k ft by (simp add: key_for_def find_append)
    with \<open>g = f\<close> True ft fresh show ?thesis by (simp add: mirrored_def Let_def)
  next
    case False
    then have "fld_table g = table_id \<Longrightarrow> key_for config (ks @ [k]) g = key_for config ks g"
      using k by (auto simp: key_for_def find_append fld_key_def split: option.splits)
    with False show ?thesis by (simp add: mirrored_def)
  qed
  have "map (\<lambda>x. if fld_key x = (i, table_id)
      then (mirrored config ks f)\<lparr>fld_property := PDict (annotated config k (without_annotations (property_of f)))\<rparr> else x) (map (?m ks) fs)
    = map (?m (ks @ [k])) fs"
    using each by (simp del: mirrored_same)
  then show ?thesis using k found cleared w ft f(2)
    by (simp add: annotate_field_def op_eval select_first_def put_row_def)
qed

lemma annotate_all:
  assumes one: "one_role_each config" and uq: "distinct (map fld_key fs)"
    and ex: "\<And>k i. k \<in> set profile_field_keys \<Longrightarrow> role_of config k = Some i \<Longrightarrow> \<exists>f\<in>set fs. fld_key f = (i, table_id)"
  shows "distinct (done_keys @ ks) \<Longrightarrow> set (done_keys @ ks) \<subseteq> set profile_field_keys \<Longrightarrow>
    t_fields (work s) = map (\<lambda>f. if fld_table f = table_id then mirrored config done_keys f else f) fs \<Longrightarrow>
    \<exists>us. map_op (annotate_field table_id config) ks s
      = (Inr us, s\<lparr>work := t_fields_update (\<lambda>_. map (\<lambda>f. if fld_table f = table_id then mirrored config (done_keys @ ks) f else f) fs) (work s)\<rparr>)"
proof (induction ks arbitrary: done_keys s)
  case Nil
  then have "t_fields_update (\<lambda>_. t_fields (work s)) (work s) = work s" by simp
  with Nil show ?case by (simp add: op_eval)
next
  case (Cons k ks)
  let ?m = "\<lambda>ks f. if fld_table f = table_id then mirrored config ks f else f"
  let ?s = "s\<lparr>work := t_fields_update (\<lambda>_. map (?m (done_keys @ [k])) fs) (work s)\<rparr>"
  have step: "annotate_field table_id config k s = (Inr (), ?s)"
  proof (cases "role_of config k")
    case None
    have "key_for config (done_keys @ [k]) f = key_for config done_keys f" for f
      using None by (simp add: key_for_def find_append split: option.splits)
    then have "map (?m (done_keys @ [k])) fs = t_fields (work s)" using Cons.prems(3) by (simp add: mirrored_def)
    then have "?s = s" by simp
    with None show ?thesis by (simp add: annotate_field_def op_eval)
  next
    case (Some i)
    show ?thesis
      by (rule annotate_step[OF Some _ _ one uq ex[OF _ Some] Cons.prems(3)]) (use Cons.prems in auto)
  qed
  have "t_fields (work ?s) = map (?m (done_keys @ [k])) fs" by simp
  from Cons.IH[of "done_keys @ [k]" ?s, OF _ _ this] Cons.prems
  obtain us where "map_op (annotate_field table_id config) ks ?s
      = (Inr us, ?s\<lparr>work := t_fields_update (\<lambda>_. map (?m (done_keys @ k # ks)) fs) (work ?s)\<rparr>)" by auto
  with step show ?case by (simp add: op_eval)
qed

lemma sync_run:
  assumes one: "one_role_each config" and uq: "distinct (map fld_key (t_fields (work s)))"
    and ex: "\<And>k i. k \<in> set profile_field_keys \<Longrightarrow> role_of config k = Some i \<Longrightarrow> \<exists>f\<in>set (t_fields (work s)). fld_key f = (i, table_id)"
  shows "sync_profile_annotations table_id config s
    = (Inr (), s\<lparr>work := t_fields_update (map (\<lambda>f. if fld_table f = table_id then mirrored config profile_field_keys f else f)) (work s)\<rparr>)"
proof -
  let ?fs = "t_fields (work s)"
  let ?s = "s\<lparr>work := t_fields_update (map (\<lambda>f. if fld_table f = table_id then mirrored config [] f else f)) (work s)\<rparr>"
  have first: "update_rows t_fields_update (\<lambda>f. fld_table f = table_id)
      (\<lambda>f. f\<lparr>fld_property := property_or_none (without_annotations (property_of f))\<rparr>) s = (Inr (), ?s)"
    by (simp add: op_eval mirrored_def key_for_def)
  have "\<exists>us. map_op (annotate_field table_id config) profile_field_keys ?s
      = (Inr us, ?s\<lparr>work := t_fields_update (\<lambda>_. map (\<lambda>f. if fld_table f = table_id then mirrored config ([] @ profile_field_keys) f else f) ?fs) (work ?s)\<rparr>)"
  proof (rule annotate_all[OF one uq])
    show "\<exists>f\<in>set ?fs. fld_key f = (i, table_id)" if "k \<in> set profile_field_keys" "role_of config k = Some i" for k i
      using ex that .
    show "distinct ([] @ profile_field_keys)" using profile_keys_distinct by (simp add: profile_keys_def)
  qed simp_all
  then obtain us where "map_op (annotate_field table_id config) profile_field_keys ?s
      = (Inr us, ?s\<lparr>work := t_fields_update (\<lambda>_. map (\<lambda>f. if fld_table f = table_id then mirrored config profile_field_keys f else f) ?fs) (work ?s)\<rparr>)"
    by auto
  then show ?thesis using first by (simp add: sync_profile_annotations_def op_eval)
qed

subsection \<open>Reading the annotations back\<close>

lemma role_table: "k \<in> set profile_field_keys \<Longrightarrow> \<exists>r. map_of role_by_key k = Some r \<and> r \<noteq> [] \<and> key_by_role r = Some k"
proof -
  have "list_all (\<lambda>k. case map_of role_by_key k of None \<Rightarrow> False | Some r \<Rightarrow> r \<noteq> [] \<and> key_by_role r = Some k) profile_field_keys"
    by code_simp
  then show "k \<in> set profile_field_keys \<Longrightarrow> ?thesis" by (auto simp: list_all_iff split: option.splits)
qed

text \<open>What reading one field adds to the configuration.\<close>

definition claim :: "dict \<Rightarrow> dict \<Rightarrow> table_field \<Rightarrow> dict" where
  "claim config c f = (case key_for config profile_field_keys f of
       None \<Rightarrow> c
     | Some k \<Rightarrow>
         let c1 = dset k (PStr (fld_id f)) c in
         if k \<noteq> ''statusFieldId'' then c1
         else dset ''notStartedStatusValues'' (dget config ''notStartedStatusValues'')
           (dset ''blockedStatusValues'' (dget config ''blockedStatusValues'') (dset ''completedStatusValues'' (dget config ''completedStatusValues'') c1)))"

lemma status_values_list:
  assumes "profile_ok config" "k \<in> set profile_value_keys"
  shows "py_or (py_or (dget config k) (PList [])) (PList []) = dget config k" "is_list_value (dget config k)"
    "py_or (dget config k) (PList []) = dget config k"
proof -
  obtain xs where "dget config k = PList xs" using assms by (force simp: profile_ok_def)
  then show "py_or (py_or (dget config k) (PList [])) (PList []) = dget config k" "is_list_value (dget config k)"
    "py_or (dget config k) (PList []) = dget config k"
    by (cases xs; simp add: py_or_def is_list_value_def)+
qed

lemma value_keys: "''completedStatusValues'' \<in> set profile_value_keys" "''blockedStatusValues'' \<in> set profile_value_keys"
    "''notStartedStatusValues'' \<in> set profile_value_keys"
  by (simp_all add: profile_value_keys_def)

lemma read_mirrored:
  assumes ok: "profile_ok config" and fresh: "\<And>k. key_for config profile_field_keys f = Some k \<Longrightarrow> k \<notin> set claimed"
  shows "read_annotation (claimed, c) (mirrored config profile_field_keys f)
    = Inr (claimed @ (case key_for config profile_field_keys f of None \<Rightarrow> [] | Some k \<Rightarrow> [k]), claim config c f)"
proof (cases "key_for config profile_field_keys f")
  case None
  have "dget (property_of (mirrored config profile_field_keys f)) role_property = PNone"
    using None by (simp add: mirrored_property without_annotations_def)
  with None show ?thesis by (simp add: read_annotation_def Let_def claim_def)
next
  case (Some k)
  then have k: "k \<in> set profile_field_keys"
    using find_SomeD[of "\<lambda>k. role_of config k = Some (fld_id f)" profile_field_keys k] by (simp add: key_for_def)
  obtain r where r: "map_of role_by_key k = Some r" "r \<noteq> []" "key_by_role r = Some k" using role_table[OF k] by blast
  let ?p = "property_of (mirrored config profile_field_keys f)"
  have p: "?p = annotated config k (without_annotations (property_of f))" using Some by (simp add: mirrored_property)
  have role: "dget ?p role_property = PStr r" by (simp add: p annotated_def Let_def r(1))
  note vals = status_values_list[OF ok value_keys(1)] status_values_list[OF ok value_keys(2)] status_values_list[OF ok value_keys(3)]
  have status: "status_annotation ?p completed_property = dget config ''completedStatusValues''"
    "status_annotation ?p blocked_property = dget config ''blockedStatusValues''"
    "status_annotation ?p not_started_property = dget config ''notStartedStatusValues''" if "k = ''statusFieldId''"
    using that vals by (simp_all add: p annotated_def status_annotation_def)
  show ?thesis
  proof (cases "k = ''statusFieldId''")
    case True
    with Some fresh[OF Some] role r status vals show ?thesis
      by (simp add: read_annotation_def Let_def claim_def py_str_def)
  next
    case False
    with Some fresh[OF Some] role r show ?thesis
      by (simp add: read_annotation_def Let_def claim_def py_str_def)
  qed
qed

lemma key_for_inj:
  assumes "one_role_each config" "key_for config profile_field_keys f = Some k" "key_for config profile_field_keys g = Some k"
  shows "fld_id f = fld_id g"
  using assms find_SomeD[of "\<lambda>k. role_of config k = Some (fld_id f)" profile_field_keys k]
    find_SomeD[of "\<lambda>k. role_of config k = Some (fld_id g)" profile_field_keys k] by (simp add: key_for_def)

lemma key_for_iff:
  assumes "one_role_each config" "k \<in> set profile_field_keys"
  shows "key_for config profile_field_keys f = Some k \<longleftrightarrow> role_of config k = Some (fld_id f)"
proof
  show "key_for config profile_field_keys f = Some k \<Longrightarrow> role_of config k = Some (fld_id f)"
    using find_SomeD[of "\<lambda>k. role_of config k = Some (fld_id f)" profile_field_keys k] by (simp add: key_for_def)
  assume r: "role_of config k = Some (fld_id f)"
  then obtain k' where k': "key_for config profile_field_keys f = Some k'"
    using assms(2) by (cases "key_for config profile_field_keys f") (auto simp: key_for_def find_None_iff)
  then have "k' \<in> set profile_field_keys" "role_of config k' = Some (fld_id f)"
    using find_SomeD[of "\<lambda>k. role_of config k = Some (fld_id f)" profile_field_keys k'] by (simp_all add: key_for_def)
  with one_role_eachD[OF assms(1) this(1) assms(2) this(2) r] k' show "key_for config profile_field_keys f = Some k" by simp
qed

lemma fold_mirrored:
  assumes ok: "profile_ok config" and one: "one_role_each config"
  shows "distinct (map fld_id fs) \<Longrightarrow> (\<And>f k. f \<in> set fs \<Longrightarrow> key_for config profile_field_keys f = Some k \<Longrightarrow> k \<notin> set claimed) \<Longrightarrow>
    fold_res read_annotation (claimed, c) (map (mirrored config profile_field_keys) fs)
    = Inr (claimed @ List.map_filter (key_for config profile_field_keys) fs, foldl (claim config) c fs)"
proof (induction fs arbitrary: claimed c)
  case (Cons f fs)
  let ?claimed = "claimed @ (case key_for config profile_field_keys f of None \<Rightarrow> [] | Some k \<Rightarrow> [k])"
  have "k \<notin> set ?claimed" if g: "g \<in> set fs" "key_for config profile_field_keys g = Some k" for g k
  proof -
    have "k \<notin> set claimed" using Cons.prems(2)[of g k] g by simp
    moreover have "key_for config profile_field_keys f \<noteq> Some k"
      using key_for_inj[OF one _ g(2), of f] g(1) Cons.prems(1) by auto
    ultimately show ?thesis by (auto split: option.splits)
  qed
  from Cons.IH[OF _ this] Cons.prems(1)
  have "fold_res read_annotation (?claimed, claim config c f) (map (mirrored config profile_field_keys) fs)
    = Inr (?claimed @ List.map_filter (key_for config profile_field_keys) fs, foldl (claim config) (claim config c f) fs)" by simp
  moreover have "read_annotation (claimed, c) (mirrored config profile_field_keys f) = Inr (?claimed, claim config c f)"
    using Cons.prems(2)[of f] by (intro read_mirrored[OF ok]) simp
  ultimately show ?case by (cases "key_for config profile_field_keys f") (simp_all add: map_filter_simps)
qed (simp add: map_filter_simps)

lemma dkeys_dset: "k \<in> set (dkeys d) \<Longrightarrow> dkeys (dset k v d) = dkeys d"
  by (simp add: dkeys_def dset_def update_keys)

lemma field_not_value: "k \<in> set profile_field_keys \<Longrightarrow> k \<notin> set profile_value_keys \<and> k \<noteq> ''schemaVersion''"
  using profile_keys_distinct by (auto simp: profile_keys_def)

lemma claim_keys: "dkeys c = profile_keys \<Longrightarrow> dkeys (claim config c f) = profile_keys"
proof -
  assume c: "dkeys c = profile_keys"
  have "k \<in> set profile_field_keys" if "key_for config profile_field_keys f = Some k" for k
    using that find_SomeD[of "\<lambda>k. role_of config k = Some (fld_id f)" profile_field_keys k] by (simp add: key_for_def)
  with c value_keys show ?thesis by (auto simp: claim_def Let_def dkeys_dset profile_keys_def split: option.splits)
qed

lemma role_not_value:
  assumes "k \<in> set profile_field_keys"
  shows "k \<noteq> ''completedStatusValues''" "k \<noteq> ''blockedStatusValues''" "k \<noteq> ''notStartedStatusValues''" "k \<noteq> ''schemaVersion''"
  using field_not_value[OF assms] value_keys by blast+

lemma key_for_role:
  assumes "key_for config profile_field_keys f = Some k"
  shows "k \<in> set profile_field_keys" "dget config k = PStr (fld_id f)"
  using assms find_SomeD[of "\<lambda>k. role_of config k = Some (fld_id f)" profile_field_keys k]
  by (auto simp: key_for_def role_of_def split: pyval.splits if_splits)

lemma claim_value:
  "dget (claim config c f) k = (case key_for config profile_field_keys f of
     None \<Rightarrow> dget c k
   | Some k' \<Rightarrow> if k = k' \<or> k' = ''statusFieldId'' \<and> k \<in> set profile_value_keys then dget config k else dget c k)"
proof (cases "key_for config profile_field_keys f")
  case (Some k')
  note k' = key_for_role[OF Some] role_not_value[OF key_for_role(1)[OF Some]]
  have vals: "k \<in> set profile_value_keys \<longleftrightarrow> k = ''completedStatusValues'' \<or> k = ''blockedStatusValues'' \<or> k = ''notStartedStatusValues''"
    by (auto simp: profile_value_keys_def)
  show ?thesis
  proof (cases "k' = ''statusFieldId''")
    case True
    with Some k'(2) show ?thesis by (simp add: claim_def Let_def vals)
  next
    case False
    with Some k' show ?thesis by (simp add: claim_def Let_def)
  qed
qed (simp add: claim_def)

lemma claim_get:
  "k \<in> set profile_field_keys \<Longrightarrow> dget (claim config c f) k = (if key_for config profile_field_keys f = Some k then dget config k else dget c k)"
  "v \<in> set profile_value_keys \<Longrightarrow> dget (claim config c f) v = (if key_for config profile_field_keys f = Some ''statusFieldId'' then dget config v else dget c v)"
  "dget (claim config c f) ''schemaVersion'' = dget c ''schemaVersion''"
proof -
  show "dget (claim config c f) k = (if key_for config profile_field_keys f = Some k then dget config k else dget c k)"
    if "k \<in> set profile_field_keys" using field_not_value[OF that] by (simp add: claim_value split: option.split)
  show "dget (claim config c f) v = (if key_for config profile_field_keys f = Some ''statusFieldId'' then dget config v else dget c v)"
    if "v \<in> set profile_value_keys"
    using that field_not_value[OF key_for_role(1)] by (auto simp: claim_value split: option.split)
  show "dget (claim config c f) ''schemaVersion'' = dget c ''schemaVersion''"
    using field_not_value[OF key_for_role(1)] profile_keys_distinct by (auto simp: claim_value profile_keys_def split: option.split)
qed

lemma fold_claim:
  "dkeys c = profile_keys \<Longrightarrow> dkeys (foldl (claim config) c fs) = profile_keys"
  "k \<in> set profile_field_keys \<Longrightarrow> dget (foldl (claim config) c fs) k
     = (if \<exists>f\<in>set fs. key_for config profile_field_keys f = Some k then dget config k else dget c k)"
  "v \<in> set profile_value_keys \<Longrightarrow> dget (foldl (claim config) c fs) v
     = (if \<exists>f\<in>set fs. key_for config profile_field_keys f = Some ''statusFieldId'' then dget config v else dget c v)"
  "dget (foldl (claim config) c fs) ''schemaVersion'' = dget c ''schemaVersion''"
  by (induction fs arbitrary: c) (auto simp: claim_keys claim_get)

lemma blank_config_get:
  "dkeys blank_config = profile_keys" "dget blank_config ''schemaVersion'' = PInt 1"
  "k \<in> set profile_field_keys \<Longrightarrow> dget blank_config k = PNone" "v \<in> set profile_value_keys \<Longrightarrow> dget blank_config v = PList []"
proof -
  have "list_all (\<lambda>k. dget blank_config k = PNone) profile_field_keys" "list_all (\<lambda>k. dget blank_config k = PList []) profile_value_keys"
    by code_simp+
  then show "k \<in> set profile_field_keys \<Longrightarrow> dget blank_config k = PNone" "v \<in> set profile_value_keys \<Longrightarrow> dget blank_config v = PList []"
    by (simp_all add: list_all_iff)
  show "dkeys blank_config = profile_keys" "dget blank_config ''schemaVersion'' = PInt 1" by code_simp+
qed

subsection \<open>The annotated fields pass the same check\<close>

lemma lower_lower: "lower (lower s) = lower s"
proof -
  have "lower_char (lower_char c) = lower_char c" for c
    by (auto simp: lower_char_def Let_def)
  then show ?thesis by (simp add: lower_def)
qed

lemma find_map: "find P (map h xs) = map_option h (find (P \<circ> h) xs)"
  by (induction xs) auto

lemma field_named_map:
  "(\<And>f. dget (h f) ''id'' = PStr (fld_id f)) \<Longrightarrow> field_named (map h fs) i = map_option h (find (\<lambda>f. fld_id f = i) (rev fs))"
  by (simp add: field_named_def rev_map find_map comp_def py_str_def)

definition same_roles :: "dict \<Rightarrow> dict \<Rightarrow> bool" where
  "same_roles f g \<longleftrightarrow> lower (str_or_empty (dget f ''type'')) = lower (str_or_empty (dget g ''type'')) \<and> dget f ''options'' = dget g ''options''
     \<and> get_target_table_id f = get_target_table_id g \<and> relation_allows_multiple f = relation_allows_multiple g"

lemma profile_issues_map:
  assumes "\<And>f. dget (h f) ''id'' = PStr (fld_id f)" "\<And>f. dget (g f) ''id'' = PStr (fld_id f)" "\<And>f. same_roles (h f) (g f)"
  shows "profile_issues tid (map h fs) config = profile_issues tid (map g fs) config"
proof -
  have role: "role_issues tid (map h fs) config = role_issues tid (map g fs) config"
    using assms(3) by (intro ext) (auto simp: role_issues_def field_named_map[of h] field_named_map[of g] assms(1,2) relation_issues_def same_roles_def Let_def
        split: option.splits)
  have val: "status_value_issues (map h fs) config = status_value_issues (map g fs) config"
    using assms(3) by (intro ext) (auto simp: status_value_issues_def field_named_map[of h] field_named_map[of g] assms(1,2) select_values_def same_roles_def Let_def
        split: option.splits)
  show ?thesis using role val by (simp add: profile_issues_def)
qed

lemma mirrored_same_roles:
  "same_roles (dset ''type'' (PStr (fld_type (mirrored config ks f))) (profile_field_dict (mirrored config ks f))) (profile_field_dict f)"
proof -
  let ?f = "mirrored config ks f" and ?g = "\<lambda>f. dset ''type'' (PStr (fld_type f)) (profile_field_dict f)"
  have type: "dget (?g ?f) ''type'' = PStr (fld_type f)" "dget (profile_field_dict f) ''type'' = PStr (lower (fld_type f))"
    by simp (simp add: profile_field_dict_def dget_def)
  have str: "str_or_empty (PStr s) = s" for s by (cases s) (auto simp: str_or_empty_def py_str_def)
  have rel: "get_relation_property (?g ?f) = property_of ?f" "get_relation_property (profile_field_dict f) = property_of f"
    by (simp_all add: get_relation_property_def property_of_def profile_field_dict_def dget_def dset_simps)
  have frame: "map_of (property_of ?f) ''targetTableId'' = map_of (property_of f) ''targetTableId''"
    "map_of (property_of ?f) ''multiple'' = map_of (property_of f) ''multiple''"
    by (rule mirrored_frame, simp)+
  have "get_target_table_id (?g ?f) = get_target_table_id (profile_field_dict f)"
    "relation_allows_multiple (?g ?f) = relation_allows_multiple (profile_field_dict f)"
    unfolding get_target_table_id_def relation_allows_multiple_def rel dget_def dget_default_def frame by (rule refl)+
  moreover have "dget (?g ?f) ''options'' = dget (profile_field_dict f) ''options''"
    by simp (simp add: profile_field_dict_def dget_def)
  ultimately show ?thesis unfolding same_roles_def type by (simp add: str lower_lower)
qed

lemma sort_key_map: "sort_key g (map h xs) = map h (sort_key (\<lambda>x. g (h x)) xs)"
proof (induction xs)
  case (Cons x xs)
  have "insort_key g (h x) (map h ys) = map h (insort_key (\<lambda>x. g (h x)) x ys)" for ys by (induction ys) auto
  with Cons show ?case by simp
qed simp

lemma mirrored_table_fields:
  "table_fields (t_fields_update (map (\<lambda>f. if fld_table f = table_id then mirrored config ks f else f)) t) table_id
   = map (mirrored config ks) (table_fields t table_id)"
proof -
  let ?m = "\<lambda>f. if fld_table f = table_id then mirrored config ks f else f"
  have m: "(\<lambda>f. fld_table f = table_id) \<circ> ?m = (\<lambda>f. fld_table f = table_id)"
    "(\<lambda>f. (fld_order (?m f), fld_id (?m f))) = (\<lambda>f. (fld_order f, fld_id f))" by (rule ext, simp)+
  have "map ?m (sort_key k (filter (\<lambda>f. fld_table f = table_id) fs)) = map (mirrored config ks) (sort_key k (filter (\<lambda>f. fld_table f = table_id) fs))"
    for k :: "table_field \<Rightarrow> int \<times> string" and fs by (rule map_cong) auto
  then show ?thesis by (simp add: table_fields_def select_def filter_map m sort_key_map)
qed

lemma fields_update_const: "t_fields_update (\<lambda>_. g (t_fields t)) t = t_fields_update g t"
  by (cases t) simp

lemma role_field_exists:
  assumes "profile_issues tid (map profile_field_dict fs) config = []" "k \<in> set profile_field_keys" "role_of config k = Some i"
  shows "\<exists>f\<in>set fs. fld_id f = i"
proof -
  have "role_issues tid (map profile_field_dict fs) config k = []" using assms(1,2) by (auto simp: profile_issues_def)
  then have "field_named (map profile_field_dict fs) i \<noteq> None" using assms(3) by (auto simp: role_issues_def split: option.splits)
  moreover have "field_named (map profile_field_dict fs) i = map_option profile_field_dict (find (\<lambda>f. fld_id f = i) (rev fs))"
    by (rule field_named_map) (simp add: profile_field_dict_def dget_def)
  ultimately obtain f where "find (\<lambda>f. fld_id f = i) (rev fs) = Some f" by auto
  from find_SomeD[OF this] show ?thesis by auto
qed

lemma table_fields_distinct:
  assumes "keys_ok t"
  shows "distinct (map fld_id (table_fields t table_id))"
proof -
  have "distinct (map fld_key (t_fields t))" using assms by (simp add: keys_ok_def)
  then have "inj_on fld_key (set (t_fields t))" "distinct (t_fields t)" by (auto simp: distinct_map)
  then show ?thesis by (auto simp: table_fields_def select_def distinct_map inj_on_def fld_key_def)
qed

lemma claimed_iff:
  assumes "profile_issues tid (map profile_field_dict fs) config = []" "one_role_each config" "k \<in> set profile_field_keys"
  shows "(\<exists>f\<in>set fs. key_for config profile_field_keys f = Some k) \<longleftrightarrow> role_of config k \<noteq> None"
  using role_field_exists[OF assms(1,3)] key_for_iff[OF assms(2,3)] by (metis not_None_eq)

lemma claims_config:
  assumes ok: "profile_ok config" and v: "profile_issues tid (map profile_field_dict fs) config = []" and one: "one_role_each config"
  shows "foldl (claim config) blank_config fs = config"
proof (rule alist_eq)
  have keys: "dkeys (foldl (claim config) blank_config fs) = profile_keys" by (rule fold_claim(1)[OF blank_config_get(1)])
  then show "map fst (foldl (claim config) blank_config fs) = map fst config" "distinct (map fst (foldl (claim config) blank_config fs))"
    using ok profile_keys_distinct by (auto simp: profile_ok_def dkeys_def)
  fix k assume "k \<in> fst ` set (foldl (claim config) blank_config fs)"
  then have "k \<in> set profile_keys" using keys by (metis dkeys_def list.set_map)
  then consider "k = ''schemaVersion''" | "k \<in> set profile_field_keys" | "k \<in> set profile_value_keys" by (auto simp: profile_keys_def)
  then show "dget (foldl (claim config) blank_config fs) k = dget config k"
  proof cases
    case 1
    then show ?thesis using ok by (simp add: fold_claim(4) blank_config_get(2) profile_ok_def)
  next
    case 2
    then have "role_of config k = None \<Longrightarrow> dget config k = PNone" using ok by (auto simp: profile_ok_def role_of_def)
    with claimed_iff[OF v one 2] show ?thesis by (auto simp: fold_claim(2)[OF 2] blank_config_get(3)[OF 2])
  next
    case 3
    have st: "''statusFieldId'' \<in> set profile_field_keys" by (simp add: profile_field_keys_def)
    have "dget config k = PList []" if "role_of config ''statusFieldId'' = None"
    proof -
      have "status_value_issues (map profile_field_dict fs) config k = []" using v 3 by (auto simp: profile_issues_def)
      then have "values_of config k = []" using that by (auto simp: status_value_issues_def Let_def split: if_splits)
      moreover obtain xs where "dget config k = PList (map PStr xs)" using ok 3 by (auto simp: profile_ok_def)
      ultimately show ?thesis by (simp add: values_of_def)
    qed
    with claimed_iff[OF v one st] show ?thesis by (auto simp: fold_claim(3)[OF 3] blank_config_get(4)[OF 3])
  qed
qed

lemma no_claims:
  assumes v: "profile_issues tid (map profile_field_dict fs) config = []" and one: "one_role_each config"
  shows "List.map_filter (key_for config profile_field_keys) fs = [] \<longleftrightarrow> \<not> (\<exists>k\<in>set profile_field_keys. role_of config k \<noteq> None)"
proof -
  have "List.map_filter (key_for config profile_field_keys) fs = [] \<longleftrightarrow> \<not> (\<exists>f\<in>set fs. \<exists>k. key_for config profile_field_keys f = Some k)"
    by (auto simp: List.map_filter_def filter_empty_conv)
  also have "\<dots> \<longleftrightarrow> \<not> (\<exists>k\<in>set profile_field_keys. \<exists>f\<in>set fs. key_for config profile_field_keys f = Some k)"
    using key_for_role(1) by blast
  finally show ?thesis using claimed_iff[OF v one] by blast
qed

section \<open>The properties\<close>

text \<open>C29: The annotations carry a profile. When a normalised profile fits the fields of a table and no
  field plays two roles, mirroring it into the fields succeeds, changes nothing but the properties
  of that table's fields, and reading the annotated fields back gives the same profile, valid
  again; a profile without roles reads back as none.\<close>
theorem annotations_carry_profile:
  assumes "keys_ok (work s)" "normalize_task_profile_config raw = Inr config"
    "profile_issues (Some table_id) (map profile_field_dict (table_fields (work s) table_id)) config = []" "one_role_each config"
  shows "\<exists>fs. sync_profile_annotations table_id config s = (Inr (), s\<lparr>work := t_fields_update (\<lambda>_. fs) (work s)\<rparr>)
    \<and> map (\<lambda>f. f\<lparr>fld_property := PNone\<rparr>) fs = map (\<lambda>f. f\<lparr>fld_property := PNone\<rparr>) (t_fields (work s))
    \<and> filter (\<lambda>f. fld_table f \<noteq> table_id) fs = filter (\<lambda>f. fld_table f \<noteq> table_id) (t_fields (work s))
    \<and> config_from_annotated_fields (table_fields (t_fields_update (\<lambda>_. fs) (work s)) table_id) table_id
      = Inr (if \<exists>k\<in>set profile_field_keys. role_of config k \<noteq> None then Some config else None)"
proof -
  let ?F = "table_fields (work s) table_id" and ?K = "profile_field_keys"
  let ?m = "\<lambda>f. if fld_table f = table_id then mirrored config ?K f else f"
  let ?t = "t_fields_update (\<lambda>_. map ?m (t_fields (work s))) (work s)"
  let ?h = "\<lambda>f. dset ''type'' (PStr (fld_type f)) (profile_field_dict f)"
  have ok: "profile_ok config" by (rule normalized_ok[OF assms(2)])
  have uq: "distinct (map fld_key (t_fields (work s)))" using assms(1) by (simp add: keys_ok_def)
  have F: "set ?F = {f \<in> set (t_fields (work s)). fld_table f = table_id}" by (auto simp: table_fields_def select_def)
  have there: "\<exists>f\<in>set ?F. fld_id f = i" if "k \<in> set ?K" "role_of config k = Some i" for k i
    by (rule role_field_exists[OF assms(3) that])
  have sync: "sync_profile_annotations table_id config s = (Inr (), s\<lparr>work := ?t\<rparr>)"
    unfolding fields_update_const[of "map ?m"]
  proof (rule sync_run[OF assms(4) uq])
    show "\<exists>f\<in>set (t_fields (work s)). fld_key f = (i, table_id)" if "k \<in> set ?K" "role_of config k = Some i" for k i
      using there[OF that] F by (auto simp: fld_key_def)
  qed
  have flds: "table_fields ?t table_id = map (mirrored config ?K) ?F"
    unfolding fields_update_const[of "map ?m"] by (rule mirrored_table_fields)
  have dist: "distinct (map fld_id ?F)"
    by (rule table_fields_distinct[OF assms(1)])
  have fold: "fold_res read_annotation ([], blank_config) (map (mirrored config ?K) ?F)
      = Inr (List.map_filter (key_for config ?K) ?F, foldl (claim config) blank_config ?F)"
    using fold_mirrored[OF ok assms(4) dist, of "[]" blank_config] by simp
  have read: "foldl (claim config) blank_config ?F = config"
    by (rule claims_config[OF ok assms(3,4)])
  have none: "List.map_filter (key_for config ?K) ?F = [] \<longleftrightarrow> \<not> (\<exists>k\<in>set ?K. role_of config k \<noteq> None)"
    by (rule no_claims[OF assms(3,4)])
  have "profile_issues (Some table_id) (map (\<lambda>f. ?h (mirrored config ?K f)) ?F) config = []"
    using profile_issues_map[of "\<lambda>f. ?h (mirrored config ?K f)" profile_field_dict "Some table_id" ?F config, OF _ _ mirrored_same_roles] assms(3)
    by (simp add: profile_field_dict_def dget_def[of "(''id'', _) # _"])
  then have check: "bind_res (inspect_task_profile_config (PDict config) (map ?h (map (mirrored config ?K) ?F)) (Some table_id)) (\<lambda>inspected.
       bind_res (require_valid inspected) (\<lambda>c. Inr (Some c))) = Inr (Some config)"
    by (simp add: inspect_task_profile_config_def ok_normalizes[OF ok] require_valid_def comp_def)
  have "config_from_annotated_fields (table_fields ?t table_id) table_id
      = Inr (if \<exists>k\<in>set ?K. role_of config k \<noteq> None then Some config else None)"
    unfolding config_from_annotated_fields_def flds fold bind_res.simps prod.case read using check none by auto
  moreover have "map (\<lambda>f. f\<lparr>fld_property := PNone\<rparr>) (map ?m (t_fields (work s))) = map (\<lambda>f. f\<lparr>fld_property := PNone\<rparr>) (t_fields (work s))"
    by (simp add: mirrored_def)
  moreover have "filter (\<lambda>f. fld_table f \<noteq> table_id) (map ?m fs) = filter (\<lambda>f. fld_table f \<noteq> table_id) fs" for fs
    by (induction fs) auto
  ultimately show ?thesis using sync by blast
qed

section \<open>Witnesses\<close>

definition profile_field :: "string \<Rightarrow> string \<Rightarrow> pyval \<Rightarrow> int \<Rightarrow> table_field" where
  "profile_field i ty opts k = \<lparr>fld_id = i, fld_table = ''t'', fld_name = i, fld_type = ty, fld_options = opts, fld_property = PNone, fld_order = k\<rparr>"

definition profile_tables :: tables where
  "profile_tables = empty_tables\<lparr>
     t_items := [\<lparr>itm_id = ''t'', itm_ws = ''w'', itm_type = ''table'', itm_name = ''T'', itm_parent = None, itm_order = 0, itm_view = None\<rparr>],
     t_fields := [profile_field ''f1'' ''text'' PNone 0,
       profile_field ''f2'' ''select'' (PList [PDict [(''id'', PStr ''o1''), (''label'', PStr ''Done'')]]) 1,
       profile_field ''f3'' ''number'' PNone 2]\<rparr>"

definition example_profile :: pyval where
  "example_profile = PDict [(''titleFieldId'', PStr '' f1 ''), (''statusFieldId'', PStr ''f2''), (''progressFieldId'', PStr ''f3''),
     (''completedStatusValues'', PList [PStr ''Done'', PStr ''Done'', PStr ''''])]"

definition normal_profile :: "pyval \<Rightarrow> dict" where
  "normal_profile raw = projr (normalize_task_profile_config raw)"

lemma example_normal: "normalize_task_profile_config example_profile = Inr (normal_profile example_profile)"
  by code_simp

theorem save_profile_valid_witness:
  "profile_issues (Some ''t'') (map profile_field_dict (table_fields profile_tables ''t''))
     (pv_config (projr (fst (save_task_profile ''t'' example_profile (Some 1) True (session_of profile_tables))))) = []
   \<and> normalize_task_profile_config example_profile
     = Inr (pv_config (projr (fst (save_task_profile ''t'' example_profile (Some 1) True (session_of profile_tables)))))"
proof -
  let ?r = "save_task_profile ''t'' example_profile (Some 1) True (session_of profile_tables)"
  have "isl (fst ?r) = False" by code_simp
  then obtain v where v: "fst ?r = Inr v" by (cases "fst ?r") auto
  then have "?r = (Inr v, snd ?r)" by (metis prod.collapse)
  from save_profile_valid[OF this] v show ?thesis by simp
qed

theorem annotations_carry_profile_witness:
  "\<exists>fs. sync_profile_annotations ''t'' (normal_profile example_profile) (session_of profile_tables)
       = (Inr (), (session_of profile_tables)\<lparr>work := t_fields_update (\<lambda>_. fs) profile_tables\<rparr>)
     \<and> config_from_annotated_fields (table_fields (t_fields_update (\<lambda>_. fs) profile_tables) ''t'') ''t'' = Inr (Some (normal_profile example_profile))"
proof -
  have k: "keys_ok (work (session_of profile_tables))" by code_simp
  have v: "profile_issues (Some ''t'') (map profile_field_dict (table_fields (work (session_of profile_tables)) ''t'')) (normal_profile example_profile) = []"
    by code_simp
  have one: "one_role_each (normal_profile example_profile)" by code_simp
  have some: "\<exists>k\<in>set profile_field_keys. role_of (normal_profile example_profile) k \<noteq> None" by code_simp
  from annotations_carry_profile[OF k example_normal v one] some show ?thesis by (simp only: work_session_of if_True) blast
qed

text \<open>Two roles on one field: the profile is valid, but the annotations keep only one of them.\<close>

definition shared_profile :: dict where
  "shared_profile = normal_profile (PDict [(''priorityFieldId'', PStr ''f3''), (''progressFieldId'', PStr ''f3'')])"

lemma shared_role_lost:
  "profile_issues (Some ''t'') (map profile_field_dict (table_fields profile_tables ''t'')) shared_profile = []"
  "config_from_annotated_fields (table_fields (work (snd (sync_profile_annotations ''t'' shared_profile (session_of profile_tables)))) ''t'') ''t''
     = Inr (Some (dset ''priorityFieldId'' PNone shared_profile))"
  by code_simp+

end
