(* ===== verification/Comments.thy ===== *)
theory Comments
  imports AutoRun TaskProfile
begin

text \<open>
  Comments on records (\<open>collaboration/comments.py\<close>) and what the collaboration services share
  (\<open>collaboration/common.py\<close>): pages by cursor, the sanitising of a Markdown body, mentions of
  current members, threads of one level, revisions, tombstones, and the visibility of a record.
  The text of a cursor (\<open>base64\<close> of JSON) is an argument; times stay microseconds.
\<close>

declare split_paired_All [simp del] split_paired_Ex [simp del]

section \<open>Shared\<close>

definition max_comment_body :: nat where "max_comment_body = 20000"
definition max_page_size :: int where "max_page_size = 100"
definition max_cursor_offset :: int where "max_cursor_offset = 100000"

abbreviation collab_error :: "string \<Rightarrow> 'a res" where
  "collab_error m \<equiv> Inl (Exn CollaborationError m)"
abbreviation collab_missing :: "string \<Rightarrow> 'a res" where
  "collab_missing m \<equiv> Inl (Exn CollaborationNotFoundError m)"
abbreviation collab_conflict :: "string \<Rightarrow> 'a res" where
  "collab_conflict m \<equiv> Inl (Exn CollaborationConflictError m)"

definition safe_limit :: "int \<Rightarrow> nat" where
  "safe_limit n = nat (max 1 (min max_page_size n))"

text \<open>
  \<open>base64.urlsafe_b64encode\<close> without its padding, and its inverse with \<open>json.loads\<close>: nothing
  when either raises.
\<close>

record cursor_codec =
  cc_text :: "string \<Rightarrow> string"
  cc_read :: "string \<Rightarrow> pyval option"

definition offset_json :: "int \<Rightarrow> string" where
  "offset_json n = ''{'' @ [CHR 0x22] @ ''o'' @ [CHR 0x22] @ '':'' @ dec_int n @ ''}''"

definition encode_offset_cursor :: "cursor_codec \<Rightarrow> int \<Rightarrow> string" where
  "encode_offset_cursor cc off = cc_text cc (offset_json (max 0 off))"

definition decode_offset_cursor :: "cursor_codec \<Rightarrow> string option \<Rightarrow> nat res" where
  "decode_offset_cursor cc cursor =
     (if cursor = None \<or> cursor = Some [] then Inr 0
      else case cc_read cc (the cursor) of
        Some (PDict d) \<Rightarrow> (case py_int (dget_default d ''o'' (PInt 0)) of
            Inl _ \<Rightarrow> collab_error ''Invalid cursor''
          | Inr off \<Rightarrow> if off < 0 \<or> off > max_cursor_offset then collab_error ''Cursor is outside the supported window'' else Inr (nat off))
      | _ \<Rightarrow> collab_error ''Invalid cursor'')"

record offset_info =
  pi_offset :: nat
  pi_more :: bool
  pi_next :: "string option"

definition page_info :: "cursor_codec \<Rightarrow> nat \<Rightarrow> nat \<Rightarrow> nat \<Rightarrow> offset_info" where
  "page_info cc off returned total_count =
     (let has_more = off + returned < total_count in
      \<lparr>pi_offset = off, pi_more = has_more, pi_next = (if has_more then Some (encode_offset_cursor cc (int (off + returned))) else None)\<rparr>)"

subsection \<open>Markdown\<close>

text \<open>\<open>html.escape(body, quote=False)\<close>.\<close>

definition escape_char :: "char \<Rightarrow> string" where
  "escape_char c = (if c = CHR ''&'' then ''&amp;'' else if c = CHR ''<'' then ''&lt;'' else if c = CHR ''>'' then ''&gt;'' else [c])"

definition html_escape :: "string \<Rightarrow> string" where
  "html_escape s = concat (map escape_char s)"

text \<open>\<open>(?:javascript|vbscript|data)\s*:\<close> without regard to case: what follows the match.\<close>

definition scheme_end :: "string \<Rightarrow> string option" where
  "scheme_end r = (case List.find (\<lambda>sc. is_prefix sc (lower r)) [''javascript'', ''vbscript'', ''data''] of
       None \<Rightarrow> None
     | Some sc \<Rightarrow> (case dropWhile py_space (drop (length sc) r) of
           [] \<Rightarrow> None
         | c # rest \<Rightarrow> if c = CHR '':'' then Some rest else None))"

lemma scheme_endD:
  assumes "scheme_end r = Some rest"
  obtains sc where "sc \<in> {''javascript'', ''vbscript'', ''data''}" "is_prefix sc (lower r)"
    "dropWhile py_space (drop (length sc) r) = CHR '':'' # rest"
proof -
  obtain sc where sc: "List.find (\<lambda>sc. is_prefix sc (lower r)) [''javascript'', ''vbscript'', ''data''] = Some sc"
    using assms by (auto simp: scheme_end_def simp del: List.find.simps split: option.splits)
  have "sc \<in> set [''javascript'', ''vbscript'', ''data'']" "is_prefix sc (lower r)"
    using find_SomeD[OF sc] by blast+
  then have "sc \<in> {''javascript'', ''vbscript'', ''data''}" "is_prefix sc (lower r)" by (simp_all only: list.set)
  moreover have "dropWhile py_space (drop (length sc) r) = CHR '':'' # rest"
    using assms sc by (auto simp: scheme_end_def simp del: List.find.simps split: list.splits if_splits)
  ultimately show thesis by (rule that)
qed

lemma scheme_end_shorter:
  assumes "scheme_end r = Some rest"
  shows "length rest < length r"
proof -
  obtain sc :: string where "dropWhile py_space (drop (length sc) r) = CHR '':'' # rest" using scheme_endD[OF assms] by metis
  then have "Suc (length rest) \<le> length (drop (length sc) r)" by (metis length_Cons length_dropWhile_le)
  then show ?thesis by simp
qed

lemma rest_shorter: "scheme_end (dropWhile py_space r) = Some rest \<Longrightarrow> length rest < length r"
  using scheme_end_shorter length_dropWhile_le order_less_le_trans by blast

definition link_start :: "string \<Rightarrow> bool" where
  "link_start s \<longleftrightarrow> is_prefix ''](''  s"

text \<open>\<open>_DANGEROUS_LINK_RE.sub(r"\1#", body)\<close>.\<close>

function neutralize_links :: "string \<Rightarrow> string" where
  "neutralize_links [] = []"
| "neutralize_links (c # s) =
     (if link_start (c # s) then
        (case scheme_end (dropWhile py_space (tl s)) of
           Some rest \<Rightarrow> ''](''  @ takeWhile py_space (tl s) @ ''#'' @ neutralize_links rest
         | None \<Rightarrow> c # neutralize_links s)
      else c # neutralize_links s)"
  by pat_completeness auto
termination
  by (relation "measure length") (auto dest!: rest_shorter)

definition sanitize_markdown :: "string \<Rightarrow> string res" where
  "sanitize_markdown v =
     (let body = strip v in
      if body = [] then collab_error ''Comment body is required''
      else if length body > max_comment_body then collab_error ''Comment body exceeds 20000 characters''
      else Inr (neutralize_links (html_escape body)))"

subsection \<open>Members\<close>

fun collect_user_ids :: "int list \<Rightarrow> pyval list \<Rightarrow> int list res" where
  "collect_user_ids output [] = Inr output"
| "collect_user_ids output (v # vs) =
     (case v of
        PBool _ \<Rightarrow> collect_user_ids output vs
      | _ \<Rightarrow> (case py_int v of
          Inl _ \<Rightarrow> collab_error ''mention user IDs must be integers''
        | Inr u \<Rightarrow> collect_user_ids (if u \<le> 0 \<or> u \<in> set output then output else output @ [u]) vs))"

definition normalize_user_ids :: "pyval list \<Rightarrow> int list res" where
  "normalize_user_ids vs = bind_res (collect_user_ids [] vs) (\<lambda>output.
     if length output > 50 then collab_error ''A comment may mention at most 50 members'' else Inr output)"

fun value_contains_user :: "pyval \<Rightarrow> int \<Rightarrow> bool" where
  "value_contains_user (PList xs) u = list_ex (\<lambda>x. value_contains_user x u) xs"
| "value_contains_user (PDict d) u =
     list_ex (\<lambda>k. dget d k \<noteq> PNone \<and> py_str (dget d k) = dec_int u) [''id'', ''userId'', ''user_id'', ''value'']"
| "value_contains_user PNone u = False"
| "value_contains_user (PBool b) u = False"
| "value_contains_user v u = (py_str v = dec_int u)"

definition collab_table_item :: "tables \<Rightarrow> string \<Rightarrow> workspace_item res" where
  "collab_table_item t table_id = (case select_first t_items (\<lambda>i. itm_id i = table_id \<and> itm_type i = ''table'') t of
       None \<Rightarrow> collab_missing ''Table not found'' | Some i \<Rightarrow> Inr i)"

text \<open>The current members among some users, or all of them; a dictionary keyed by their ids.\<close>

definition workspace_members_by_id :: "tables \<Rightarrow> string \<Rightarrow> int list \<Rightarrow> user list" where
  "workspace_members_by_id t ws ids = sort_key (\<lambda>u. (usr_name u, usr_id u)) (select t_users (\<lambda>u.
     list_ex (\<lambda>m. mb_user m = usr_id u \<and> mb_ws m = ws) (t_members t) \<and> (ids = [] \<or> usr_id u \<in> set ids)) t)"

definition validate_workspace_members :: "tables \<Rightarrow> string \<Rightarrow> int list \<Rightarrow> user list res" where
  "validate_workspace_members t ws ids =
     (if ids = [] then Inr []
      else
        let members = workspace_members_by_id t ws ids;
            missing = sort (remdups (filter (\<lambda>u. u \<notin> usr_id ` set members) ids)) in
        if missing \<noteq> [] then collab_error (''Mention recipients must be current workspace members: '' @ join '', '' (map dec_int missing))
        else Inr members)"

record actor =
  ac_id :: "int option"
  ac_name :: string
  ac_email :: "string option"

text \<open>The names shown for a user who has left, for the system, and for a record without a title (UTF-8).\<close>

definition departed_name :: string where
  "departed_name = [CHR 0xE5, CHR 0xB7, CHR 0xB2, CHR 0xE7, CHR 0xA6, CHR 0xBB, CHR 0xE5, CHR 0xBC, CHR 0x80, CHR 0xE6, CHR 0x88, CHR 0x90, CHR 0xE5, CHR 0x91, CHR 0x98]"

definition system_name :: string where
  "system_name = [CHR 0xE7, CHR 0xB3, CHR 0xBB, CHR 0xE7, CHR 0xBB, CHR 0x9F]"

definition untitled_record :: string where
  "untitled_record = [CHR 0xE8, CHR 0xAE, CHR 0xB0, CHR 0xE5, CHR 0xBD, CHR 0x95]"

definition actor_payload :: "user option \<Rightarrow> int option \<Rightarrow> actor" where
  "actor_payload u i = \<lparr>ac_id = i,
     ac_name = (case u of
         Some x \<Rightarrow> if usr_name x \<noteq> [] then usr_name x else if usr_email x \<noteq> [] then usr_email x
           else if i \<noteq> None then departed_name else system_name
       | None \<Rightarrow> if i \<noteq> None then departed_name else system_name),
     ac_email = map_option usr_email u\<rparr>"

text \<open>\<open>actor_map\<close> and the lookup in it.\<close>

definition actor_of :: "tables \<Rightarrow> int option \<Rightarrow> actor" where
  "actor_of t i = actor_payload (case i of None \<Rightarrow> None | Some u \<Rightarrow> select_first t_users (\<lambda>x. usr_id x = u) t) i"

definition record_visibility ::
  "tables \<Rightarrow> int \<Rightarrow> string \<Rightarrow> string \<Rightarrow> bool \<times> workspace_item option \<times> table_record option \<times> string option" where
  "record_visibility t user_id table_id record_id =
     (case collab_table_item t table_id of
        Inl _ \<Rightarrow> (False, None, None, None)
      | Inr item \<Rightarrow>
          let permission = get_effective_permission_for_item t user_id table_id in
          if \<not> permission_allows permission ''read'' then (False, Some item, None, permission)
          else case select_first t_records (\<lambda>r. rec_table r = table_id \<and> rec_id r = record_id) t of
            None \<Rightarrow> (False, Some item, None, permission)
          | Some r \<Rightarrow>
              let visible = record_is_visible (get_row_permission_policy t table_id) user_id permission (rec_creator r) (rec_data r) in
              (visible, Some item, if visible then Some r else None, permission))"

definition record_title :: "tables \<Rightarrow> string \<Rightarrow> table_record \<Rightarrow> string" where
  "record_title t table_id r = (case get_task_profile_record t table_id of
       None \<Rightarrow> untitled_record
     | Some p \<Rightarrow>
         let i = dget (tpf_config p) ''titleFieldId'' in
         if \<not> py_truth i then untitled_record
         else let raw = dget (rec_data r) (py_str i) in
           if raw = PNone \<or> raw = PStr [] then untitled_record else take 240 (py_str raw))"

text \<open>\<open>urllib.parse.quote(s, safe='')\<close> on the bytes of a string.\<close>

definition unreserved :: "char \<Rightarrow> bool" where
  "unreserved c \<longleftrightarrow> (let n = (of_char c :: nat) in (48 \<le> n \<and> n \<le> 57) \<or> (65 \<le> n \<and> n \<le> 90) \<or> (97 \<le> n \<and> n \<le> 122)) \<or> c \<in> set ''_.-~''"

definition upper_hex :: "nat \<Rightarrow> char" where
  "upper_hex n = char_of (if n < 10 then 48 + n else 55 + n)"

definition quote :: "string \<Rightarrow> string" where
  "quote s = concat (map (\<lambda>c. if unreserved c then [c] else [CHR ''%'', upper_hex (of_char c div 16), upper_hex (of_char c mod 16)]) s)"

definition record_deep_link :: "workspace_item \<Rightarrow> string \<Rightarrow> string option \<Rightarrow> string" where
  "record_deep_link item record_id comment_id =
     ''/workbench/'' @ quote (itm_id item)
     @ (case itm_view item of None \<Rightarrow> [] | Some v \<Rightarrow> if v = [] then [] else ''/'' @ quote v)
     @ ''?recordId='' @ quote record_id
     @ (case comment_id of None \<Rightarrow> [] | Some c \<Rightarrow> if c = [] then [] else ''&commentId='' @ quote c)"

section \<open>Comments\<close>

definition find_comment :: "tables \<Rightarrow> string \<Rightarrow> comment option" where
  "find_comment t i = select_first t_comments (\<lambda>c. cm_id c = i) t"

definition mention_ids :: "tables \<Rightarrow> string \<Rightarrow> int list" where
  "mention_ids t i = sort (remdups (map mn_user (select t_mentions (\<lambda>m. mn_comment m = i) t)))"

text \<open>The unique keys of a comment, and the flush that refuses a second row.\<close>

definition comment_clash :: "comment \<Rightarrow> comment \<Rightarrow> bool" where
  "comment_clash c d \<longleftrightarrow> cm_id d = cm_id c \<or> (cm_author c \<noteq> None \<and> cm_client c \<noteq> None \<and> cm_author d = cm_author c \<and> cm_client d = cm_client c)"

definition insert_comment :: "comment \<Rightarrow> unit op" where
  "insert_comment c = (\<lambda>s. if list_ex (comment_clash c) (t_comments (work s))
     then (Inl (Exn IntegrityError ''UNIQUE constraint failed''), s\<lparr>work := committed s\<rparr>)
     else (Inr (), s\<lparr>work := t_comments_update (\<lambda>cs. cs @ [c]) (work s)\<rparr>))"

definition add_mention :: "string \<Rightarrow> int \<Rightarrow> unit op" where
  "add_mention comment_id u =
     bind_op (new_id ''men'') (\<lambda>i. bind_op utcnow (\<lambda>now.
     insert_row t_mentions t_mentions_update mn_id \<lparr>mn_id = i, mn_comment = comment_id, mn_user = u, mn_created = now\<rparr>))"

text \<open>The mentions of a comment become the given users; the result is the users added.\<close>

definition set_mentions :: "string \<Rightarrow> string \<Rightarrow> pyval list \<Rightarrow> int list op" where
  "set_mentions comment_id ws users =
     bind_op (of_res (normalize_user_ids users)) (\<lambda>normalized.
     bind_op (reads (\<lambda>t. (validate_workspace_members t ws (sort normalized), mention_ids t comment_id))) (\<lambda>(members, existing).
     bind_op (of_res members) (\<lambda>_.
     let added = filter (\<lambda>u. u \<notin> set existing) (sort normalized) in
     then_op (delete_rows t_mentions_update (\<lambda>m. mn_comment m = comment_id \<and> mn_user m \<notin> set normalized))
     (bind_op (map_op (add_mention comment_id) added) (\<lambda>_. ret added)))))"

definition history_payload :: "comment \<Rightarrow> dict" where
  "history_payload c = [(''recordId'', PStr (cm_record c)), (''commentId'', PStr (cm_id c)),
     (''parentCommentId'', case cm_parent c of None \<Rightarrow> PNone | Some p \<Rightarrow> PStr p),
     (''revision'', PInt (or_zero (cm_revision c) 1)), (''deleted'', PBool (cm_deleted c \<noteq> None))]"

definition comment_summary :: "string \<Rightarrow> string" where
  "comment_summary operation = (if operation = ''comment.create'' then ''Create comment''
     else if operation = ''comment.update'' then ''Edit comment''
     else if operation = ''comment.delete'' then ''Delete comment'' else ''Comment changed'')"

definition append_comment_history :: "comment \<Rightarrow> int \<Rightarrow> string \<Rightarrow> dict option \<Rightarrow> dict option \<Rightarrow> string op" where
  "append_comment_history c actor_id operation before after =
     bind_op (append_change_set
       \<lparr>rq_table = Some (cm_table c), rq_actor = Some actor_id, rq_operation = operation, rq_actor_type = ''user'',
        rq_source = Some ''collaboration'', rq_trace = None, rq_summary = comment_summary operation, rq_status = ''applied'',
        rq_parent = None, rq_id = None\<rparr>
       [\<lparr>in_table = cm_table c, in_etype = ''comment'', in_entity = cm_id c, in_before = before, in_after = after,
         in_bmeta = None, in_ameta = None, in_vbefore = None, in_vafter = None, in_changed = Some [''body'']\<rparr>]) (\<lambda>cs.
     ret (cs_id cs))"

definition mention_note :: "comment \<Rightarrow> int \<Rightarrow> string \<Rightarrow> int \<Rightarrow> note_request" where
  "mention_note c actor_id event_id recipient =
     \<lparr>nq_recipient = recipient, nq_type = ''comment_mention'', nq_actor = Some actor_id, nq_ws = Some (cm_ws c), nq_table = Some (cm_table c),
      nq_record = Some (cm_record c), nq_comment = Some (cm_id c), nq_event = event_id,
      nq_dedupe = ''comment:'' @ cm_id c @ '':mention:'' @ dec_int recipient, nq_payload = []\<rparr>"

definition reply_note :: "comment \<Rightarrow> int \<Rightarrow> string \<Rightarrow> int \<Rightarrow> note_request" where
  "reply_note c actor_id event_id recipient =
     \<lparr>nq_recipient = recipient, nq_type = ''comment_reply'', nq_actor = Some actor_id, nq_ws = Some (cm_ws c), nq_table = Some (cm_table c),
      nq_record = Some (cm_record c), nq_comment = Some (cm_id c), nq_event = event_id,
      nq_dedupe = ''comment:'' @ cm_id c @ '':reply:'' @ dec_int recipient, nq_payload = []\<rparr>"

definition notify_mentions :: "comment \<Rightarrow> int \<Rightarrow> string \<Rightarrow> int list \<Rightarrow> unit op" where
  "notify_mentions c actor_id event_id added =
     bind_op (map_op (\<lambda>u. stage_notification (mention_note c actor_id event_id u)) (filter (\<lambda>u. u \<noteq> actor_id) added)) (\<lambda>_. ret ())"

record comment_view =
  cv_comment :: comment
  cv_author :: actor
  cv_body :: "string option"
  cv_mentions :: "actor list"
  cv_revision :: int
  cv_deleted :: bool

definition serialize_comment :: "tables \<Rightarrow> comment \<Rightarrow> comment_view" where
  "serialize_comment t c =
     \<lparr>cv_comment = c\<lparr>cm_body := []\<rparr>, cv_author = actor_of t (cm_author c),
      cv_body = (if cm_deleted c \<noteq> None then None else Some (cm_body c)),
      cv_mentions = map (\<lambda>u. actor_of t (Some u)) (mention_ids t (cm_id c)),
      cv_revision = or_zero (cm_revision c) 1, cv_deleted = (cm_deleted c \<noteq> None)\<rparr>"

definition client_comment :: "tables \<Rightarrow> int \<Rightarrow> string option \<Rightarrow> comment option" where
  "client_comment t author_id client_id =
     (if client_id = None \<or> client_id = Some [] then None
      else select_first t_comments (\<lambda>c. cm_author c = Some author_id \<and> cm_client c = client_id) t)"

definition parent_comment :: "tables \<Rightarrow> string \<Rightarrow> string \<Rightarrow> string option \<Rightarrow> comment option res" where
  "parent_comment t table_id record_id parent_id =
     (if parent_id = None \<or> parent_id = Some [] then Inr None
      else case find_comment t (the parent_id) of
        None \<Rightarrow> collab_missing ''Parent comment not found''
      | Some p \<Rightarrow>
          if cm_table p \<noteq> table_id \<or> cm_record p \<noteq> record_id \<or> cm_deleted p \<noteq> None then collab_missing ''Parent comment not found''
          else if cm_parent p \<noteq> None then collab_error ''Replies may be nested only one level''
          else Inr (Some p))"

definition reply_recipient :: "comment option \<Rightarrow> int \<Rightarrow> int list \<Rightarrow> int option" where
  "reply_recipient parent author_id added = (case parent of
       None \<Rightarrow> None
     | Some p \<Rightarrow> (case cm_author p of None \<Rightarrow> None | Some a \<Rightarrow> if a \<noteq> author_id \<and> a \<notin> set added then Some a else None))"

record comment_request =
  cr_ws :: string
  cr_table :: string
  cr_record :: string
  cr_author :: int
  cr_body :: string
  cr_mentions :: "pyval list"
  cr_parent :: "string option"
  cr_client :: "string option"

definition add_comment :: "comment_request \<Rightarrow> string \<Rightarrow> comment option \<Rightarrow> comment_view op" where
  "add_comment q sanitized parent =
     bind_op (new_id ''cmt'') (\<lambda>i.
     bind_op utcnow (\<lambda>now.
     bind_op utcnow (\<lambda>updated.
     let c = \<lparr>cm_id = i, cm_ws = cr_ws q, cm_table = cr_table q, cm_record = cr_record q, cm_author = Some (cr_author q),
        cm_parent = map_option cm_id parent, cm_body = sanitized, cm_format = ''markdown'',
        cm_client = (if cr_client q = Some [] then None else map_option (take 128) (cr_client q)),
        cm_revision = 1, cm_created = now, cm_updated = updated, cm_deleted = None\<rparr> in
     then_op (insert_comment c)
     (bind_op (set_mentions i (cr_ws q) (cr_mentions q)) (\<lambda>added.
     bind_op (append_comment_history c (cr_author q) ''comment.create'' None (Some (history_payload c))) (\<lambda>event_id.
     then_op (notify_mentions c (cr_author q) event_id added)
     (then_op (case reply_recipient parent (cr_author q) added of
         None \<Rightarrow> ret ()
       | Some a \<Rightarrow> bind_op (stage_notification (reply_note c (cr_author q) event_id a)) (\<lambda>_. ret ()))
     (then_op commit (reads (\<lambda>t. serialize_comment t c))))))))))"

definition create_comment :: "comment_request \<Rightarrow> comment_view op" where
  "create_comment q =
     bind_op (of_res (sanitize_markdown (cr_body q))) (\<lambda>sanitized.
     bind_op (reads (\<lambda>t. client_comment t (cr_author q) (cr_client q))) (\<lambda>existing.
     case existing of
       Some c \<Rightarrow>
         if cm_table c \<noteq> cr_table q \<or> cm_record c \<noteq> cr_record q \<or> cm_parent c \<noteq> cr_parent q \<or> cm_body c \<noteq> sanitized
         then of_res (collab_conflict ''clientMutationId was already used for another comment payload'')
         else reads (\<lambda>t. serialize_comment t c)
     | None \<Rightarrow>
         bind_op (reads (\<lambda>t. parent_comment t (cr_table q) (cr_record q) (cr_parent q))) (\<lambda>found.
         bind_op (of_res found) (\<lambda>parent. add_comment q sanitized parent))))"

text \<open>The comment a change may be made to: it is there, the actor may change it, at the revision expected.\<close>

definition changeable_comment :: "string \<Rightarrow> int \<Rightarrow> string \<Rightarrow> int option \<Rightarrow> string \<Rightarrow> tables \<Rightarrow> comment res" where
  "changeable_comment comment_id actor_id actor_permission expected_revision verb t = (case find_comment t comment_id of
       None \<Rightarrow> collab_missing ''Comment not found''
     | Some c \<Rightarrow>
         if cm_deleted c \<noteq> None then collab_missing ''Comment not found''
         else if cm_author c \<noteq> Some actor_id \<and> \<not> permission_allows (Some actor_permission) ''manage''
         then collab_error (''Only the author or a manager can '' @ verb @ '' this comment'')
         else if expected_revision \<noteq> None \<and> or_zero (cm_revision c) 1 \<noteq> the expected_revision then collab_conflict ''Comment has newer changes''
         else Inr c)"

definition update_comment :: "string \<Rightarrow> int \<Rightarrow> string \<Rightarrow> string \<Rightarrow> pyval list \<Rightarrow> int option \<Rightarrow> comment_view op" where
  "update_comment comment_id actor_id actor_permission body users expected_revision =
     bind_op (reads (changeable_comment comment_id actor_id actor_permission expected_revision ''edit'')) (\<lambda>found.
     bind_op (of_res found) (\<lambda>c.
     bind_op (of_res (sanitize_markdown body)) (\<lambda>sanitized.
     bind_op utcnow (\<lambda>now.
     let d = c\<lparr>cm_body := sanitized, cm_revision := or_zero (cm_revision c) 1 + 1, cm_updated := now\<rparr> in
     then_op (put_row t_comments_update cm_id d)
     (bind_op (set_mentions (cm_id d) (cm_ws d) users) (\<lambda>added.
     bind_op (append_comment_history d actor_id ''comment.update'' (Some (history_payload c)) (Some (history_payload d))) (\<lambda>event_id.
     then_op (notify_mentions d actor_id event_id added)
     (then_op commit (reads (\<lambda>t. serialize_comment t d))))))))))"

definition delete_comment :: "string \<Rightarrow> int \<Rightarrow> string \<Rightarrow> int option \<Rightarrow> comment_view op" where
  "delete_comment comment_id actor_id actor_permission expected_revision =
     bind_op (reads (changeable_comment comment_id actor_id actor_permission expected_revision ''delete'')) (\<lambda>found.
     bind_op (of_res found) (\<lambda>c.
     bind_op utcnow (\<lambda>now.
     let d = c\<lparr>cm_body := [], cm_deleted := Some now, cm_updated := now, cm_revision := or_zero (cm_revision c) 1 + 1\<rparr> in
     then_op (put_row t_comments_update cm_id d)
     (then_op (delete_rows t_mentions_update (\<lambda>m. mn_comment m = cm_id c))
     (bind_op (append_comment_history d actor_id ''comment.delete'' (Some (history_payload c)) (Some (history_payload d))) (\<lambda>_.
     then_op commit (reads (\<lambda>t. serialize_comment t d))))))))"

record comment_page =
  cp_items :: "comment_view list"
  cp_total :: nat
  cp_info :: offset_info

definition list_comments :: "cursor_codec \<Rightarrow> tables \<Rightarrow> string \<Rightarrow> string \<Rightarrow> string option \<Rightarrow> int \<Rightarrow> comment_page res" where
  "list_comments cc t table_id record_id cursor n =
     bind_res (decode_offset_cursor cc cursor) (\<lambda>off.
     let rows = sort_key (\<lambda>c. (cm_created c, cm_id c)) (select t_comments (\<lambda>c. cm_table c = table_id \<and> cm_record c = record_id) t);
         page = take (safe_limit n) (drop off rows) in
     Inr \<lparr>cp_items = map (serialize_comment t) page, cp_total = length rows, cp_info = page_info cc off (length page) (length rows)\<rparr>)"

definition mention_candidates :: "tables \<Rightarrow> string \<Rightarrow> actor list res" where
  "mention_candidates t table_id =
     bind_res (collab_table_item t table_id) (\<lambda>item.
     Inr (map (\<lambda>u. actor_payload (Some u) (Some (usr_id u))) (sort_key usr_id (workspace_members_by_id t (itm_ws item) []))))"

end
