(* ===== verification/Notifications.thy ===== *)
theory Notifications
  imports Comments
begin

text \<open>
  The notification centre and the activity of a record (\<open>collaboration/notifications.py\<close>,
  \<open>activity.py\<close>, \<open>assignment_repair.py\<close>): what a notification shows under the permissions its
  reader has now, pages, marks of reading, the notifications of assignments made from the change
  log, their repair after a long absence, and the activity pages of a record. A text of the
  catalogue (\<open>core/i18n.py\<close>) is its key with its arguments. Due reminders, which read \<open>my_work.py\<close>,
  and the push to listeners are not modelled.
\<close>

declare split_paired_All [simp del] split_paired_Ex [simp del]

section \<open>What a notification shows\<close>

datatype note_text =
    Translated string "(string \<times> string) list"
  | Verbatim string

record note_view =
  nv_note :: string
  nv_type :: string
  nv_actor :: actor
  nv_ws :: "string option"
  nv_table :: "string option"
  nv_record :: "string option"
  nv_comment :: "string option"
  nv_created :: int
  nv_read :: "int option"
  nv_accessible :: bool
  nv_title :: note_text
  nv_summary :: note_text
  nv_link :: "string option"
  nv_payload :: dict

definition base_view :: "tables \<Rightarrow> notification \<Rightarrow> note_view" where
  "base_view t n =
     \<lparr>nv_note = nt_id n, nv_type = nt_type n, nv_actor = actor_of t (nt_actor n), nv_ws = nt_ws n, nv_table = nt_table n,
      nv_record = nt_record n, nv_comment = nt_comment n, nv_created = nt_created n, nv_read = nt_read n, nv_accessible = True,
      nv_title = Translated ''notification.defaultTitle'' [], nv_summary = Verbatim [], nv_link = None, nv_payload = []\<rparr>"

definition inaccessible_view :: "note_view \<Rightarrow> note_view" where
  "inaccessible_view v = v\<lparr>nv_accessible := False, nv_title := Translated ''notification.inaccessibleTitle'' [],
     nv_summary := Translated ''notification.inaccessibleSummary'' [], nv_link := None, nv_payload := []\<rparr>"

definition noted_comment :: "tables \<Rightarrow> notification \<Rightarrow> string \<Rightarrow> string \<Rightarrow> comment option" where
  "noted_comment t n table_id record_id = (case nt_comment n of
       None \<Rightarrow> None
     | Some i \<Rightarrow> if i = [] then None
         else select_first t_comments (\<lambda>c. cm_id c = i \<and> cm_table c = table_id \<and> cm_record c = record_id) t)"

definition body_preview :: "string \<Rightarrow> string" where
  "body_preview body = take 120 (map (\<lambda>c. if c = CHR 0x0A then CHR '' '' else c) body)"

definition comment_text :: "string \<Rightarrow> string \<Rightarrow> string \<Rightarrow> comment option \<Rightarrow> note_text" where
  "comment_text present gone name c = (case c of
       None \<Rightarrow> Translated gone [(''actor'', name)]
     | Some x \<Rightarrow> if cm_deleted x \<noteq> None then Translated gone [(''actor'', name)]
         else Translated present [(''actor'', name), (''preview'', body_preview (cm_body x))])"

definition automation_text :: "dict \<Rightarrow> note_text" where
  "automation_text payload = (let m = dget payload ''message'' in
     if py_truth m then Verbatim (take 500 (py_str m)) else Translated ''notification.automation'' [])"

definition record_summary :: "string \<Rightarrow> string \<Rightarrow> comment option \<Rightarrow> dict \<Rightarrow> note_text" where
  "record_summary ty name c payload =
     (if ty = ''comment_mention'' then comment_text ''notification.mention'' ''notification.mentionDeleted'' name c
      else if ty = ''comment_reply'' then comment_text ''notification.reply'' ''notification.replyDeleted'' name c
      else if ty = ''task_assigned'' then Translated ''notification.taskAssigned'' [(''actor'', name)]
      else if ty = ''due_24h'' then Translated ''notification.due24h'' []
      else if ty = ''due_3d'' then Translated ''notification.due3d'' []
      else if ty = ''ai_action_required'' then Translated ''notification.aiActionRequired'' []
      else if ty = ''automation'' then automation_text payload
      else if ty = ''automation_failed'' then Translated ''notification.automationFailed'' []
      else Translated ''notification.collaboration'' [])"

definition general_summary :: "string \<Rightarrow> dict \<Rightarrow> note_text" where
  "general_summary ty payload =
     (if ty = ''automation'' then automation_text payload
      else if ty = ''automation_failed'' then Translated ''notification.automationFailed'' []
      else Translated ''notification.collaboration'' [])"

definition nonempty_text :: "string option \<Rightarrow> string option" where
  "nonempty_text x = (if x = Some [] then None else x)"

definition serialize_notification :: "tables \<Rightarrow> int \<Rightarrow> notification \<Rightarrow> note_view res" where
  "serialize_notification t user_id n =
     (if nt_recipient n \<noteq> user_id then collab_error ''Notification does not belong to current user''
      else
        let v = base_view t n in
        case (nonempty_text (nt_table n), nonempty_text (nt_record n)) of
          (Some table_id, Some record_id) \<Rightarrow>
            (case record_visibility t user_id table_id record_id of
               (True, Some item, Some r, _) \<Rightarrow> Inr (v\<lparr>
                  nv_title := Verbatim (record_title t table_id r),
                  nv_link := Some (record_deep_link item record_id (nt_comment n)),
                  nv_summary := record_summary (nt_type n) (ac_name (nv_actor v)) (noted_comment t n table_id record_id) (nt_payload n),
                  nv_payload := nt_payload n\<rparr>)
             | _ \<Rightarrow> Inr (inaccessible_view v))
        | _ \<Rightarrow> Inr (v\<lparr>nv_summary := general_summary (nt_type n) (nt_payload n), nv_payload := nt_payload n\<rparr>))"

section \<open>Pages and marks\<close>

definition unread_count :: "tables \<Rightarrow> int \<Rightarrow> nat" where
  "unread_count t user_id = length (select t_notes (\<lambda>n. nt_recipient n = user_id \<and> nt_read n = None) t)"

definition known_types :: "string list \<Rightarrow> string list" where
  "known_types types = filter (\<lambda>x. x \<in> set notification_types) types"

definition of_types :: "string list \<Rightarrow> notification \<Rightarrow> bool" where
  "of_types types n \<longleftrightarrow> known_types types = [] \<or> nt_type n \<in> set (known_types types)"

record note_page =
  np_items :: "note_view list"
  np_total :: nat
  np_unread :: nat
  np_info :: offset_info

definition list_notifications :: "cursor_codec \<Rightarrow> tables \<Rightarrow> int \<Rightarrow> string option \<Rightarrow> int \<Rightarrow> bool \<Rightarrow> string list \<Rightarrow> note_page res" where
  "list_notifications cc t user_id cursor n unread_only types =
     bind_res (decode_offset_cursor cc cursor) (\<lambda>off.
     let rows = rev (sort_key (\<lambda>x. (nt_created x, nt_id x)) (select t_notes (\<lambda>x.
           nt_recipient x = user_id \<and> (unread_only \<longrightarrow> nt_read x = None) \<and> of_types types x) t));
         page = take (safe_limit n) (drop off rows) in
     bind_res (map_res (serialize_notification t user_id) page) (\<lambda>items.
     Inr \<lparr>np_items = items, np_total = length rows, np_unread = unread_count t user_id,
       np_info = page_info cc off (length items) (length rows)\<rparr>))"

definition mark_notification_read :: "int \<Rightarrow> string \<Rightarrow> notification option op" where
  "mark_notification_read user_id notification_id =
     bind_op (reads (select_first t_notes (\<lambda>n. nt_id n = notification_id \<and> nt_recipient n = user_id))) (\<lambda>row.
     case row of
       None \<Rightarrow> ret None
     | Some n \<Rightarrow>
         if nt_read n \<noteq> None then ret (Some n)
         else bind_op utcnow (\<lambda>now.
           let m = n\<lparr>nt_read := Some now\<rparr> in
           then_op (put_row t_notes_update nt_id m) (then_op commit (ret (Some m)))))"

definition mark_all_notifications_read :: "int \<Rightarrow> string list \<Rightarrow> nat op" where
  "mark_all_notifications_read user_id types =
     (let wanted = (\<lambda>n. nt_recipient n = user_id \<and> nt_read n = None \<and> of_types types n) in
      bind_op (reads (select t_notes wanted)) (\<lambda>rows.
      if rows = [] then ret 0
      else bind_op utcnow (\<lambda>now.
        then_op (update_rows t_notes_update wanted (\<lambda>n. n\<lparr>nt_read := Some now\<rparr>))
        (then_op commit (ret (length rows))))))"

section \<open>Assignments\<close>

definition assignment_scan_limit :: nat where "assignment_scan_limit = 500"
definition assignment_repair_batch_size :: nat where "assignment_repair_batch_size = 500"

text \<open>Items of the change log with their applied change sets.\<close>

definition applied_changes :: "string \<Rightarrow> string list \<Rightarrow> tables \<Rightarrow> (change_item \<times> change_set) list" where
  "applied_changes table_id types t =
     concat (map (\<lambda>i. map (Pair i) (select t_sets (\<lambda>c. cs_id c = ci_set i \<and> cs_status c = ''applied'') t))
       (select t_changes (\<lambda>i. ci_table i = table_id \<and> ci_etype i \<in> set types) t))"

definition or_empty :: "dict option \<Rightarrow> dict" where
  "or_empty d = (case d of None \<Rightarrow> [] | Some x \<Rightarrow> x)"

text \<open>The members a change assigns, in order.\<close>

definition newly_assigned :: "string \<Rightarrow> change_item \<Rightarrow> int list" where
  "newly_assigned field i =
     (if field \<notin> set (ci_changed i) then []
      else filter (\<lambda>u. u \<notin> set (member_ids (dget (or_empty (ci_before i)) field)))
        (sort (remdups (member_ids (dget (or_empty (ci_after i)) field)))))"

definition assignment_key :: "change_set \<Rightarrow> change_item \<Rightarrow> int \<Rightarrow> string" where
  "assignment_key c i u = ''assignment:'' @ cs_id c @ '':'' @ ci_entity i @ '':'' @ dec_int u"

definition assignment_note :: "workspace_item \<Rightarrow> change_item \<times> change_set \<Rightarrow> int \<Rightarrow> note_request" where
  "assignment_note item = (\<lambda>(i, c) u.
     \<lparr>nq_recipient = u, nq_type = ''task_assigned'', nq_actor = cs_actor c, nq_ws = Some (itm_ws item), nq_table = Some (itm_id item),
      nq_record = Some (ci_entity i), nq_comment = None, nq_event = cs_id c, nq_dedupe = assignment_key c i u,
      nq_payload = [(''source'', PStr (case cs_source c of None \<Rightarrow> ''record_change'' | Some x \<Rightarrow> if x = [] then ''record_change'' else x))]\<rparr>)"

definition created_of :: "(notification \<times> bool) list \<Rightarrow> notification list" where
  "created_of xs = map fst (filter snd xs)"

definition sync_assignment_notifications_for_table :: "string \<Rightarrow> notification list op" where
  "sync_assignment_notifications_for_table table_id =
     bind_op (reads (\<lambda>t. get_task_profile_record t table_id)) (\<lambda>profile.
     case profile of
       None \<Rightarrow> ret []
     | Some p \<Rightarrow>
         let field = dget (tpf_config p) ''assigneeFieldId'' in
         if \<not> py_truth field then ret []
         else bind_op (reads (\<lambda>t. collab_table_item t table_id)) (\<lambda>found.
           bind_op (of_res found) (\<lambda>item.
           bind_op (reads (\<lambda>t. (take assignment_scan_limit (rev (sort_key (\<lambda>(i, c). (cs_created c, ci_id i)) (applied_changes table_id [''record''] t))),
             map usr_id (workspace_members_by_id t (itm_ws item) [])))) (\<lambda>(candidates, members).
           bind_op (map_op (\<lambda>(i, c). map_op (\<lambda>u. stage_notification (assignment_note item (i, c) u))
               (filter (\<lambda>u. Some u \<noteq> cs_actor c \<and> u \<in> set members) (newly_assigned (py_str field) i))) candidates) (\<lambda>staged.
           let created = created_of (concat staged) in
           then_op (if created \<noteq> [] then commit else ret ()) (ret created))))))"

definition tables_with_profiles :: "tables \<Rightarrow> (workspace_item \<times> task_profile) list" where
  "tables_with_profiles t = sort_key (\<lambda>(i, _). itm_id i)
     (concat (map (\<lambda>i. map (Pair i) (select t_profiles (\<lambda>p. tpf_table p = itm_id i) t)) (select t_items (\<lambda>i. itm_type i = ''table'') t)))"

definition sync_assignment_notifications_for_user :: "int \<Rightarrow> nat op" where
  "sync_assignment_notifications_for_user user_id =
     bind_op (reads tables_with_profiles) (\<lambda>pairs.
     bind_op (map_op (\<lambda>(item, _).
       bind_op (reads (\<lambda>t. get_effective_permission_for_item t user_id (itm_id item))) (\<lambda>permission.
       if \<not> permission_allows permission ''read'' then ret []
       else sync_assignment_notifications_for_table (itm_id item))) pairs) (\<lambda>rows.
     ret (length (filter (\<lambda>n. nt_recipient n = user_id) (concat rows)))))"

subsection \<open>The repair\<close>

definition assignment_history :: "string \<Rightarrow> tables \<Rightarrow> (change_item \<times> change_set) list" where
  "assignment_history table_id t = sort_key (\<lambda>(i, c). (cs_created c, ci_order i, ci_id i)) (applied_changes table_id [''record''] t)"

definition replay_change :: "workspace_item \<Rightarrow> string \<Rightarrow> int \<Rightarrow> change_item \<times> change_set \<Rightarrow> notification list op" where
  "replay_change item field user_id = (\<lambda>(i, c).
     if user_id \<notin> set (newly_assigned field i) \<or> cs_actor c = Some user_id then ret []
     else bind_op (stage_notification (assignment_note item (i, c) user_id)) (\<lambda>x. ret (created_of [x])))"

text \<open>The loop over the pages of the history: nothing says that the query's result stays as it was.\<close>

partial_function (option) repair_pages ::
  "workspace_item \<Rightarrow> string \<Rightarrow> int \<Rightarrow> nat \<Rightarrow> notification list \<Rightarrow> session \<Rightarrow> (notification list res \<times> session) option" where
  "repair_pages item field user_id off created s =
     (let rows = take assignment_repair_batch_size (drop off (assignment_history (itm_id item) (work s))) in
      if rows = [] then Some (Inr created, s)
      else case map_op (replay_change item field user_id) rows s of
        (Inl e, s1) \<Rightarrow> Some (Inl e, s1)
      | (Inr notes, s1) \<Rightarrow>
          if length rows < assignment_repair_batch_size then Some (Inr (created @ concat notes), s1)
          else repair_pages item field user_id (off + length rows) (created @ concat notes) s1)"

declare repair_pages.simps [code]

definition repair_table_for_user :: "workspace_item \<Rightarrow> string \<Rightarrow> int \<Rightarrow> session \<Rightarrow> (notification list res \<times> session) option" where
  "repair_table_for_user item field user_id s =
     (if user_id \<notin> usr_id ` set (workspace_members_by_id (work s) (itm_ws item) [user_id]) then Some (Inr [], s)
      else repair_pages item field user_id 0 [] s)"

definition repair_one :: "int \<Rightarrow> workspace_item \<times> task_profile \<Rightarrow> session \<Rightarrow> (notification list res \<times> session) option" where
  "repair_one user_id = (\<lambda>(item, p) s.
     if \<not> permission_allows (get_effective_permission_for_item (work s) user_id (itm_id item)) ''read'' then Some (Inr [], s)
     else
       let field = strip (py_str (py_or (dget (tpf_config p) ''assigneeFieldId'') (PStr []))) in
       if field = [] then Some (Inr [], s) else repair_table_for_user item field user_id s)"

fun repair_tables :: "int \<Rightarrow> (workspace_item \<times> task_profile) list \<Rightarrow> notification list \<Rightarrow> session \<Rightarrow> (notification list res \<times> session) option" where
  "repair_tables user_id [] created s = Some (Inr created, s)"
| "repair_tables user_id (p # ps) created s = (case repair_one user_id p s of
       None \<Rightarrow> None
     | Some (Inl e, s1) \<Rightarrow> Some (Inl e, s1)
     | Some (Inr notes, s1) \<Rightarrow> repair_tables user_id ps (created @ notes) s1)"

definition repair_assignment_notifications_for_user :: "int \<Rightarrow> session \<Rightarrow> (nat res \<times> session) option" where
  "repair_assignment_notifications_for_user user_id s =
     (case repair_tables user_id (tables_with_profiles (work s)) [] s of
        None \<Rightarrow> None
      | Some (Inl e, s1) \<Rightarrow> Some (Inl e, s1)
      | Some (Inr created, s1) \<Rightarrow> Some (then_op (if created \<noteq> [] then commit else ret ()) (ret (length created)) s1))"

section \<open>The activity of a record\<close>

definition activity_scan_cap :: nat where "activity_scan_cap = 3000"

definition stored_text :: "string \<Rightarrow> change_item \<Rightarrow> string option" where
  "stored_text k i = (if py_truth (dget (or_empty (ci_after i)) k) then Some (py_str (dget (or_empty (ci_after i)) k))
     else if py_truth (dget (or_empty (ci_before i)) k) then Some (py_str (dget (or_empty (ci_before i)) k)) else None)"

definition comment_record_id :: "change_item \<Rightarrow> string option" where
  "comment_record_id i = stored_text ''recordId'' i"

definition comment_parent_id :: "change_item \<Rightarrow> string option" where
  "comment_parent_id i = stored_text ''parentCommentId'' i"

definition semantic_keys :: "(string \<times> string) list" where
  "semantic_keys = [(''statusFieldId'', ''status''), (''assigneeFieldId'', ''assignee''), (''dueDateFieldId'', ''due''),
     (''priorityFieldId'', ''priority''), (''progressFieldId'', ''progress'')]"

text \<open>A dictionary from fields to the roles; the last role of a field wins, at the first one's place.\<close>

fun put_role :: "string \<Rightarrow> string \<Rightarrow> (string \<times> string) list \<Rightarrow> (string \<times> string) list" where
  "put_role k v [] = [(k, v)]"
| "put_role k v ((k', v') # xs) = (if k' = k then (k, v) # xs else (k', v') # put_role k v xs)"

definition semantic_fields :: "task_profile option \<Rightarrow> (string \<times> string) list" where
  "semantic_fields profile = (case profile of
       None \<Rightarrow> []
     | Some p \<Rightarrow> foldl (\<lambda>m (k, kind). let v = dget (tpf_config p) k in if py_truth v then put_role (py_str v) kind m else m) [] semantic_keys)"

datatype activity_summary = RecordCreated | RecordDeleted | RecordUpdated | FieldsUpdated "string list"
  | Replied | Commented | CommentEdited | CommentDeleted | CommentChanged

definition event_by_kind :: "string \<Rightarrow> string" where
  "event_by_kind k = ''task.'' @ k @ ''_changed''"

definition record_activity_summary :: "(string \<times> string) list \<Rightarrow> change_item \<Rightarrow> string list \<times> activity_summary" where
  "record_activity_summary semantic i =
     (if ci_before i = None \<and> ci_after i \<noteq> None then ([''record.created''], RecordCreated)
      else if ci_before i \<noteq> None \<and> ci_after i = None then ([''record.deleted''], RecordDeleted)
      else let kinds = map snd (filter (\<lambda>(f, _). f \<in> set (ci_changed i)) semantic) in
        if kinds = [] then ([''record.updated''], RecordUpdated) else (map event_by_kind kinds, FieldsUpdated kinds))"

definition comment_activity_summary :: "change_item \<Rightarrow> change_set \<Rightarrow> string list \<times> activity_summary" where
  "comment_activity_summary i c =
     (if cs_operation c = ''comment.create'' then
        (if comment_parent_id i \<noteq> None then ([''comment.reply''], Replied) else ([''comment.created''], Commented))
      else if cs_operation c = ''comment.update'' then ([''comment.updated''], CommentEdited)
      else if cs_operation c = ''comment.delete'' then ([''comment.deleted''], CommentDeleted)
      else ([''comment.changed''], CommentChanged))"

type_synonym activity_entry = "(change_item \<times> change_set) \<times> (string list \<times> activity_summary)"

text \<open>What a row of the log is in the activity of the record, if anything.\<close>

definition activity_entry_of :: "(string \<times> string) list \<Rightarrow> string \<Rightarrow> change_item \<times> change_set \<Rightarrow> activity_entry option" where
  "activity_entry_of semantic record_id = (\<lambda>(i, c).
     if ci_etype i = ''record'' then
       (if ci_entity i \<noteq> record_id then None else Some ((i, c), record_activity_summary semantic i))
     else if comment_record_id i \<noteq> Some record_id then None
     else Some ((i, c), comment_activity_summary i c))"

text \<open>The loop over the rows of a batch: what is visible so far, and the rows processed.\<close>

fun scan_rows :: "(change_item \<times> change_set \<Rightarrow> activity_entry option) \<Rightarrow> nat \<Rightarrow> nat \<Rightarrow> activity_entry list \<Rightarrow> nat
    \<Rightarrow> (change_item \<times> change_set) list \<Rightarrow> activity_entry list \<times> nat" where
  "scan_rows entry safe scanned visible processed [] = (visible, processed)"
| "scan_rows entry safe scanned visible processed (r # rs) = (case entry r of
       None \<Rightarrow> scan_rows entry safe (Suc scanned) visible (Suc processed) rs
     | Some e \<Rightarrow>
         if length (visible @ [e]) \<ge> safe \<or> Suc scanned \<ge> activity_scan_cap then (visible @ [e], Suc processed)
         else scan_rows entry safe (Suc scanned) (visible @ [e]) (Suc processed) rs)"

record activity_scan =
  as_visible :: "activity_entry list"
  as_offset :: nat
  as_scanned :: nat
  as_more :: bool

lemma scan_rows_processed:
  "snd (scan_rows entry safe scanned visible processed rs) \<le> processed + length rs"
  "rs \<noteq> [] \<Longrightarrow> processed < snd (scan_rows entry safe scanned visible processed rs)"
proof -
  have "snd (scan_rows entry safe scanned visible processed rs) \<in> {processed..processed + length rs}" for scanned visible processed rs
  proof (induction rs arbitrary: scanned visible processed)
    case (Cons r rs)
    have "snd (scan_rows entry safe (Suc scanned) v (Suc processed) rs) \<in> {Suc processed..processed + length (r # rs)}" for v
      using Cons.IH[of "Suc scanned" v "Suc processed"] by simp
    then have "snd (scan_rows entry safe (Suc scanned) v (Suc processed) rs) \<ge> processed"
      "snd (scan_rows entry safe (Suc scanned) v (Suc processed) rs) \<le> Suc (processed + length rs)" for v
      by (simp_all add: Suc_leD)
    then show ?case by (auto split: option.splits)
  qed simp
  then have bounds: "processed \<le> snd (scan_rows entry safe scanned visible processed rs)"
    "snd (scan_rows entry safe scanned visible processed rs) \<le> processed + length rs" for scanned visible processed rs
    by simp_all
  then show "snd (scan_rows entry safe scanned visible processed rs) \<le> processed + length rs" by simp
  have "Suc p \<le> snd (scan_rows entry safe n v (Suc p) xs)" for n v p xs by (rule bounds(1))
  then show "rs \<noteq> [] \<Longrightarrow> processed < snd (scan_rows entry safe scanned visible processed rs)"
    by (cases rs) (auto split: option.splits simp: Suc_le_eq)
qed

text \<open>The loop over the batches, on the rows of the query.\<close>

function scan_batches :: "(change_item \<times> change_set \<Rightarrow> activity_entry option) \<Rightarrow> nat \<Rightarrow> nat \<Rightarrow> (change_item \<times> change_set) list
    \<Rightarrow> activity_entry list \<Rightarrow> nat \<Rightarrow> nat \<Rightarrow> bool \<Rightarrow> activity_scan" where
  "scan_batches entry safe batch changes visible off scanned has_more =
     (if \<not> (length visible < safe \<and> scanned < activity_scan_cap)
      then \<lparr>as_visible = visible, as_offset = off, as_scanned = scanned, as_more = has_more\<rparr>
      else
        let rows = take batch (drop off changes) in
        if rows = [] then \<lparr>as_visible = visible, as_offset = off, as_scanned = scanned, as_more = False\<rparr>
        else
          let scan = scan_rows entry safe scanned visible 0 rows; processed = snd scan in
          if processed < length rows then \<lparr>as_visible = fst scan, as_offset = off + processed, as_scanned = scanned + processed, as_more = True\<rparr>
          else if length rows < batch then \<lparr>as_visible = fst scan, as_offset = off + processed, as_scanned = scanned + processed, as_more = False\<rparr>
          else scan_batches entry safe batch changes (fst scan) (off + processed) (scanned + processed) True)"
  by pat_completeness auto
termination
proof (relation "measure (\<lambda>(entry, safe, batch, changes, visible, off, scanned, has_more). length changes - off)", goal_cases)
  case (2 entry safe batch changes visible off scanned has_more rows scan processed)
  have "rows \<noteq> []" by fact
  then have "off < length changes" "0 < processed" using 2 scan_rows_processed(2)[of rows 0] by auto
  then show ?case by simp
qed simp

definition activity_log :: "string \<Rightarrow> tables \<Rightarrow> (change_item \<times> change_set) list" where
  "activity_log table_id t = rev (sort_key (\<lambda>(i, c). (cs_created c, ci_order i, ci_id i)) (applied_changes table_id [''record'', ''comment''] t))"

record activity_item =
  av_id :: string
  av_set :: string
  av_comment :: "string option"
  av_actor :: actor
  av_kinds :: "string list"
  av_operation :: string
  av_source :: "string option"
  av_summary :: activity_summary
  av_link :: string
  av_created :: int

definition activity_payload :: "tables \<Rightarrow> workspace_item \<Rightarrow> string \<Rightarrow> activity_entry \<Rightarrow> activity_item" where
  "activity_payload t item record_id = (\<lambda>((i, c), (kinds, summary)).
     \<lparr>av_id = cs_id c @ '':'' @ ci_id i, av_set = cs_id c, av_comment = (if ci_etype i = ''comment'' then Some (ci_entity i) else None),
      av_actor = actor_of t (cs_actor c), av_kinds = kinds, av_operation = cs_operation c, av_source = cs_source c,
      av_summary = summary, av_link = record_deep_link item record_id (if ci_etype i = ''comment'' then Some (ci_entity i) else None),
      av_created = cs_created c\<rparr>)"

record activity_page =
  ap_items :: "activity_item list"
  ap_more :: bool
  ap_next :: "string option"
  ap_scanned :: nat

definition activity_scan_of :: "tables \<Rightarrow> string \<Rightarrow> string \<Rightarrow> nat \<Rightarrow> nat \<Rightarrow> activity_scan" where
  "activity_scan_of t table_id record_id safe off =
     scan_batches (activity_entry_of (semantic_fields (get_task_profile_record t table_id)) record_id) safe
       (min 300 (max 100 (safe * 8))) (activity_log table_id t) [] off 0 False"

definition list_record_activity :: "cursor_codec \<Rightarrow> tables \<Rightarrow> string \<Rightarrow> string \<Rightarrow> string option \<Rightarrow> int \<Rightarrow> activity_page res" where
  "list_record_activity cc t table_id record_id cursor n =
     bind_res (decode_offset_cursor cc cursor) (\<lambda>off.
     bind_res (collab_table_item t table_id) (\<lambda>item.
     let safe = safe_limit n; scan = activity_scan_of t table_id record_id safe off in
     Inr \<lparr>ap_items = map (activity_payload t item record_id) (take safe (as_visible scan)), ap_more = as_more scan,
       ap_next = (if as_more scan then Some (encode_offset_cursor cc (int (as_offset scan))) else None),
       ap_scanned = as_scanned scan\<rparr>))"

end
