(* ===== verification/CollabProps.thy ===== *)
theory CollabProps
  imports Notifications
begin

text \<open>
  What the collaboration services guarantee: bodies are inert, threads stay one level deep, stale
  changes are refused, a repeated request changes nothing, a reader without access learns nothing,
  the pages of an activity cover it, and the repair of assignments returns and is complete.
\<close>

declare split_paired_All [simp del] split_paired_Ex [simp del]

section \<open>Inert bodies\<close>

text \<open>A Markdown link whose target has a dangerous scheme, as the regular expression says it.\<close>

definition dangerous_link :: "string \<Rightarrow> bool" where
  "dangerous_link s \<longleftrightarrow> (\<exists>w sc w' rest. s = ''](''  @ w @ sc @ w' @ '':'' @ rest \<and> list_all py_space w \<and> list_all py_space w'
     \<and> lower sc \<in> {''javascript'', ''vbscript'', ''data''})"

lemma is_prefix_iff: "is_prefix p s \<longleftrightarrow> (\<exists>r. s = p @ r)"
  by (induction p s rule: is_prefix.induct) auto

lemma scheme_end_iff: "scheme_end r = Some rest \<longleftrightarrow> (\<exists>sc w. r = sc @ w @ '':'' @ rest \<and> list_all py_space w
    \<and> lower sc \<in> {''javascript'', ''vbscript'', ''data''})" (is "?l \<longleftrightarrow> ?r")
proof
  assume ?l
  then obtain sc where sc: "sc \<in> {''javascript'', ''vbscript'', ''data''}" "is_prefix sc (lower r)"
    "dropWhile py_space (drop (length sc) r) = CHR '':'' # rest" by (rule scheme_endD)
  have l: "lower (take (length sc) r) = sc" using sc(2) by (auto simp: is_prefix_iff lower_def take_map[symmetric])
  have "r = take (length sc) r @ takeWhile py_space (drop (length sc) r) @ '':'' @ rest"
    using sc(3) by (metis append.left_neutral append_Cons append_take_drop_id takeWhile_dropWhile_id)
  moreover have "list_all py_space (takeWhile py_space (drop (length sc) r))" by (auto simp: list_all_iff dest: set_takeWhileD)
  moreover have "lower (take (length sc) r) \<in> {''javascript'', ''vbscript'', ''data''}" unfolding l by (rule sc(1))
  ultimately show ?r by blast
next
  assume ?r
  then obtain sc w where r: "r = sc @ w @ '':'' @ rest" "list_all py_space w" "lower sc \<in> {''javascript'', ''vbscript'', ''data''}" by blast
  have d: "dropWhile py_space (drop (length sc) r) = CHR '':'' # rest"
    using r(1,2) by (simp add: dropWhile_append2 list_all_iff py_space_def)
  have len: "length (lower sc) = length sc" by (simp add: lower_def)
  have low: "lower r = lower sc @ lower (w @ '':'' @ rest)" by (simp add: r(1) lower_def)
  from r(3) consider "lower sc = ''javascript''" | "lower sc = ''vbscript''" | "lower sc = ''data''" by blast
  then show ?l
    by cases (use d len in \<open>simp_all add: scheme_end_def low is_prefix_iff\<close>)
qed

lemma space_lower: "py_space c \<Longrightarrow> lower_char c = c"
  by (auto simp: py_space_def lower_char_def Let_def)

lemma scheme_plain:
  assumes "lower sc \<in> {''javascript'', ''vbscript'', ''data''}"
  shows "sc \<noteq> []" "\<not> py_space (hd sc)" "CHR '']'' \<notin> set sc"
proof -
  have ne: "sc \<noteq> []" using assms by (auto simp: lower_def)
  have hd: "lower_char (hd sc) = hd (lower sc)" using ne by (cases sc) (auto simp: lower_def)
  have "hd (lower sc) \<in> {CHR ''j'', CHR ''v'', CHR ''d''}" using assms by auto
  moreover have "\<not> py_space x" if "x \<in> {CHR ''j'', CHR ''v'', CHR ''d''}" for x using that by (auto simp: py_space_def)
  ultimately show "\<not> py_space (hd sc)" using space_lower[of "hd sc"] hd by metis
  have "lower_char (CHR '']'') = CHR '']''" by (simp add: lower_char_def)
  moreover have "CHR '']'' \<notin> set (lower sc)" using assms by auto
  moreover have "lower_char c \<in> set (lower sc)" if "c \<in> set sc" for c using that by (simp add: lower_def)
  ultimately show "CHR '']'' \<notin> set sc" by metis
  show "sc \<noteq> []" by (rule ne)
qed

lemma dangerous_iff: "dangerous_link s \<longleftrightarrow> link_start s \<and> (\<exists>rest. scheme_end (dropWhile py_space (tl (tl s))) = Some rest)" (is "?l \<longleftrightarrow> ?r")
proof
  assume ?l
  then obtain w sc w' rest where s: "s = ''](''  @ w @ sc @ w' @ '':'' @ rest" "list_all py_space w" "list_all py_space w'"
    and sc: "lower sc \<in> {''javascript'', ''vbscript'', ''data''}" unfolding dangerous_link_def by blast
  obtain c r where c: "sc = c # r" "\<not> py_space c" using scheme_plain(1,2)[OF sc] by (cases sc) auto
  have "tl (tl s) = w @ sc @ w' @ '':'' @ rest" using s(1) by simp
  then have "dropWhile py_space (tl (tl s)) = sc @ w' @ '':'' @ rest"
    using s(2) c by (simp add: dropWhile_append2 list_all_iff)
  then have "scheme_end (dropWhile py_space (tl (tl s))) = Some rest" using s(3) sc scheme_end_iff by metis
  moreover have "link_start s" using s(1) by (simp add: link_start_def)
  ultimately show ?r by blast
next
  assume ?r
  then obtain rest where r: "link_start s" "scheme_end (dropWhile py_space (tl (tl s))) = Some rest" by blast
  from r(2) obtain sc w' where sc: "dropWhile py_space (tl (tl s)) = sc @ w' @ '':'' @ rest" "list_all py_space w'"
    "lower sc \<in> {''javascript'', ''vbscript'', ''data''}" unfolding scheme_end_iff by blast
  let ?w = "takeWhile py_space (tl (tl s))"
  have "s = ''](''  @ tl (tl s)" using r(1) unfolding link_start_def is_prefix_iff by auto
  also have "tl (tl s) = ?w @ sc @ w' @ '':'' @ rest" using sc(1) takeWhile_dropWhile_id by metis
  finally have "s = ''](''  @ ?w @ sc @ w' @ '':'' @ rest" .
  moreover have "list_all py_space ?w" by (auto simp: list_all_iff dest: set_takeWhileD)
  ultimately show ?l using sc(2,3) unfolding dangerous_link_def by blast
qed

lemma space_not_bracket: "py_space c \<Longrightarrow> c \<noteq> CHR '']''"
  by (auto simp: py_space_def)

lemma neutralize_plain: "\<not> dangerous_link (c # s) \<Longrightarrow> neutralize_links (c # s) = c # neutralize_links s"
  by (auto simp: dangerous_iff split: option.splits)

lemma neutralize_danger:
  assumes "dangerous_link (c # s)"
  obtains w sc w' rest where "c # s = ''](''  @ w @ sc @ w' @ '':'' @ rest" "list_all py_space w"
    "neutralize_links (c # s) = CHR '']'' # (''('' @ w @ ''#'') @ neutralize_links rest" "CHR '']'' \<notin> set (''('' @ w @ ''#'')"
proof -
  obtain rest where r: "link_start (c # s)" "scheme_end (dropWhile py_space (tl s)) = Some rest"
    using assms by (auto simp: dangerous_iff)
  from r(2) obtain sc w' where sc: "dropWhile py_space (tl s) = sc @ w' @ '':'' @ rest" unfolding scheme_end_iff by blast
  let ?w = "takeWhile py_space (tl s)"
  have "tl s = ?w @ sc @ w' @ '':'' @ rest" using sc takeWhile_dropWhile_id by metis
  moreover have "c # s = ''](''  @ tl s" using r(1) unfolding link_start_def is_prefix_iff by auto
  ultimately have "c # s = ''](''  @ ?w @ sc @ w' @ '':'' @ rest" by metis
  moreover have "list_all py_space ?w" by (auto simp: list_all_iff dest: set_takeWhileD)
  moreover have "neutralize_links (c # s) = CHR '']'' # (''('' @ ?w @ ''#'') @ neutralize_links rest" using r by simp
  moreover have "CHR '']'' \<notin> set (''('' @ ?w @ ''#'')" using space_not_bracket by (auto dest: set_takeWhileD)
  ultimately show thesis by (rule that)
qed

declare neutralize_links.simps(2) [simp del]

text \<open>Up to the first bracket a text and its neutral form agree.\<close>

lemma neutralize_copy:
  assumes "neutralize_links s = p @ x" "CHR '']'' \<notin> set p"
  shows "\<exists>q. s = p @ q \<and> x = neutralize_links q"
  using assms
proof (induction p arbitrary: s)
  case (Cons c p)
  then obtain d s1 where s: "s = d # s1" by (cases s) auto
  have "\<not> dangerous_link (d # s1)"
  proof
    assume "dangerous_link (d # s1)"
    then obtain y where "neutralize_links (d # s1) = CHR '']'' # y" by (rule neutralize_danger) blast
    then show False using Cons.prems s by auto
  qed
  then have "c = d" "neutralize_links s1 = p @ x" using Cons.prems(1) s by (auto simp: neutralize_plain)
  then show ?case using Cons.IH[of s1] Cons.prems(2) s by auto
qed auto

lemma dangerous_no_bracket:
  assumes "CHR '']'' \<notin> set p" "dangerous_link (drop n (p @ q))"
  shows "\<exists>m. dangerous_link (drop m q)"
proof (cases "n < length p")
  case True
  then have "drop n (p @ q) = p ! n # drop (Suc n) (p @ q)" by (metis Cons_nth_drop_Suc length_append nth_append trans_less_add1)
  then have "p ! n = CHR '']''" using assms(2) by (simp only: dangerous_link_def) auto
  then show ?thesis using assms(1) True by (metis nth_mem)
next
  case False
  then show ?thesis using assms(2) by auto
qed

lemma neutralize_safe: "\<not> dangerous_link (drop n (neutralize_links s))"
proof (induction s arbitrary: n rule: length_induct)
  case (1 s)
  have ih: "\<not> dangerous_link (drop n (neutralize_links x))" if "length x < length s" for x n using 1 that by blast
  show ?case
  proof (cases s)
    case Nil
    then show ?thesis by (simp add: dangerous_link_def)
  next
    case (Cons c s1)
    show ?thesis
    proof (cases "dangerous_link (c # s1)")
      case True
      then obtain w sc w' rest where r: "c # s1 = ''](''  @ w @ sc @ w' @ '':'' @ rest" "list_all py_space w"
        "neutralize_links (c # s1) = CHR '']'' # (''('' @ w @ ''#'') @ neutralize_links rest" "CHR '']'' \<notin> set (''('' @ w @ ''#'')"
        by (rule neutralize_danger)
      have "length rest < length s" using arg_cong[OF r(1), of length] by (simp add: Cons)
      note safe = ih[OF this]
      show ?thesis
      proof (cases n)
        case 0
        have "\<not> py_space (CHR ''#'')" by (simp add: py_space_def)
        then have "dropWhile py_space (w @ ''#'' @ neutralize_links rest) = ''#'' @ neutralize_links rest"
          using r(2) by (simp add: dropWhile_append2 list_all_iff)
        then have "scheme_end (dropWhile py_space (tl (tl (neutralize_links s)))) = None"
          by (simp add: Cons r(3) scheme_end_def lower_def lower_char_def)
        then show ?thesis using 0 by (simp add: dangerous_iff)
      next
        case (Suc m)
        then have "drop n (neutralize_links s) = drop m ((''('' @ w @ ''#'') @ neutralize_links rest)" using Cons r(3) by simp
        then show ?thesis using dangerous_no_bracket[OF r(4)] safe by metis
      qed
    next
      case False
      then have out: "neutralize_links s = c # neutralize_links s1" using Cons by (simp add: neutralize_plain)
      have safe: "\<not> dangerous_link (drop n (neutralize_links s1))" for n by (rule ih) (simp add: Cons)
      show ?thesis
      proof (cases n)
        case 0
        have False if d: "dangerous_link (neutralize_links s)"
        proof -
          obtain w sc w' rest where o: "neutralize_links s = ''](''  @ w @ sc @ w' @ '':'' @ rest" "list_all py_space w" "list_all py_space w'"
            "lower sc \<in> {''javascript'', ''vbscript'', ''data''}" using d unfolding dangerous_link_def by blast
          have "neutralize_links s1 = (''('' @ w @ sc @ w' @ '':'') @ rest" "c = CHR '']''" using o(1) out by auto
          moreover have "CHR '']'' \<notin> set (''('' @ w @ sc @ w' @ '':'')"
            using o(2,3) scheme_plain(3)[OF o(4)] space_not_bracket by (auto simp: list_all_iff)
          ultimately obtain q where "s1 = (''('' @ w @ sc @ w' @ '':'') @ q" using neutralize_copy by blast
          then have "c # s1 = ''](''  @ w @ sc @ w' @ '':'' @ q" using \<open>c = CHR '']''\<close> by simp
          then show False using False o(2-4) unfolding dangerous_link_def by blast
        qed
        then show ?thesis using 0 by auto
      next
        case (Suc m)
        then show ?thesis using safe by (simp add: out)
      qed
    qed
  qed
qed

lemma neutralize_set: "set (neutralize_links s) \<subseteq> set s \<union> {CHR ''#''}"
proof (induction s rule: length_induct)
  case (1 s)
  show ?case
  proof (cases s)
    case (Cons c s1)
    show ?thesis
    proof (cases "dangerous_link (c # s1)")
      case True
      then obtain w sc w' rest where r: "c # s1 = ''](''  @ w @ sc @ w' @ '':'' @ rest" "list_all py_space w"
        "neutralize_links (c # s1) = CHR '']'' # (''('' @ w @ ''#'') @ neutralize_links rest" "CHR '']'' \<notin> set (''('' @ w @ ''#'')"
        by (rule neutralize_danger)
      have "length rest < length s" using arg_cong[OF r(1), of length] by (simp add: Cons)
      then have "set (neutralize_links rest) \<subseteq> set rest \<union> {CHR ''#''}" using 1 by blast
      moreover have "set s = set (''](''  @ w @ sc @ w' @ '':'' @ rest)" using r(1) Cons by simp
      ultimately show ?thesis unfolding Cons r(3) by auto
    next
      case False
      then show ?thesis using 1 Cons by (auto simp: neutralize_plain)
    qed
  qed simp
qed

lemma neutralize_id: "(\<And>n. \<not> dangerous_link (drop n s)) \<Longrightarrow> neutralize_links s = s"
proof (induction s)
  case (Cons c s)
  have "\<not> dangerous_link (drop n s)" for n using Cons.prems[of "Suc n"] by simp
  moreover have "\<not> dangerous_link (c # s)" using Cons.prems[of 0] by simp
  ultimately show ?case using Cons.IH by (simp add: neutralize_plain)
qed simp

text \<open>C25: A stored comment body holds no HTML and no dangerous inline link. It is not empty, it holds no raw
  angle bracket, and nowhere in it is the target of an inline Markdown link, the text after a closing
  square bracket and an opening round one, a URL with one of the schemes javascript, vbscript and data,
  in any case and with any white space before it and before its colon; a body that held no such link is
  stored as it was, with its HTML escaped. Reference-style link definitions are not covered: they are
  stored as they are.\<close>
theorem sanitized_inert:
  assumes "sanitize_markdown v = Inr b"
  shows "b \<noteq> [] \<and> CHR ''<'' \<notin> set b \<and> CHR ''>'' \<notin> set b \<and> (\<forall>n. \<not> dangerous_link (drop n b))
    \<and> ((\<forall>n. \<not> dangerous_link (drop n (html_escape (strip v)))) \<longrightarrow> b = html_escape (strip v))"
proof -
  let ?e = "html_escape (strip v)"
  have b: "b = neutralize_links ?e" and ne: "strip v \<noteq> []"
    using assms by (auto simp: sanitize_markdown_def Let_def split: if_splits)
  obtain c r where c: "strip v = c # r" using ne by (cases "strip v") auto
  have "?e \<noteq> []" by (simp add: html_escape_def c escape_char_def)
  then obtain d e where "?e = d # e" by (cases ?e) auto
  then have "b \<noteq> []" unfolding b by (cases "dangerous_link (d # e)") (auto simp: neutralize_plain elim!: neutralize_danger)
  moreover have "CHR ''<'' \<notin> set ?e" "CHR ''>'' \<notin> set ?e" by (auto simp: html_escape_def escape_char_def)
  then have "CHR ''<'' \<notin> set b" "CHR ''>'' \<notin> set b" using neutralize_set[of ?e] unfolding b by auto
  ultimately show ?thesis using neutralize_safe[of _ ?e] neutralize_id[of ?e] unfolding b by blast
qed

theorem sanitized_inert_witness:
  "(\<forall>n. \<not> dangerous_link (drop n ''&lt;b&gt;x [a](  #1) [b](http:y)''))
   \<and> sanitize_markdown ''  <b>x [a](  JavaScript :1) [b](http:y) '' = Inr ''&lt;b&gt;x [a](  #1) [b](http:y)''"
proof -
  have s: "sanitize_markdown ''  <b>x [a](  JavaScript :1) [b](http:y) '' = Inr ''&lt;b&gt;x [a](  #1) [b](http:y)''" by code_simp
  from sanitized_inert[OF s] s show ?thesis by blast
qed

section \<open>What operations leave alone, and triples with exceptions\<close>

text \<open>An operation that does not commit and leaves a part of the tables alone, but for a rollback at an error.\<close>

definition frame :: "(tables \<Rightarrow> 'x) \<Rightarrow> 'a op \<Rightarrow> bool" where
  "frame g m \<longleftrightarrow> (\<forall>s r s'. m s = (r, s') \<longrightarrow> g (committed s') = g (committed s)
     \<and> (g (work s') = g (work s) \<or> isl r \<and> g (work s') = g (committed s)))"

named_theorems frame_intro \<open>composition rules for \<open>frame\<close>\<close>

lemma frame_Inr: "frame g m \<Longrightarrow> m s = (Inr x, s') \<Longrightarrow> g (work s') = g (work s) \<and> g (committed s') = g (committed s)"
  by (fastforce simp: frame_def)

lemma frame_bind [frame_intro]:
  assumes "frame g m" "\<And>x. frame g (f x)"
  shows "frame g (bind_op m f)"
  unfolding frame_def
proof (intro allI impI)
  fix s r s'
  assume run: "bind_op m f s = (r, s')"
  show "g (committed s') = g (committed s) \<and> (g (work s') = g (work s) \<or> isl r \<and> g (work s') = g (committed s))"
  proof (cases "m s")
    case (Pair q s1)
    show ?thesis
    proof (cases q)
      case (Inl e)
      then show ?thesis using run Pair assms(1) by (auto simp: op_eval frame_def)
    next
      case (Inr x)
      have "g (work s1) = g (work s)" "g (committed s1) = g (committed s)" using frame_Inr[OF assms(1)] Pair Inr by auto
      moreover have "f x s1 = (r, s')" using run Pair Inr by (simp add: op_eval)
      ultimately show ?thesis using assms(2)[of x] unfolding frame_def by metis
    qed
  qed
qed

lemma frame_then [frame_intro]: "frame g m \<Longrightarrow> frame g n \<Longrightarrow> frame g (then_op m n)"
  unfolding then_op_def by (rule frame_bind)

lemma frame_basic [frame_intro]:
  "frame g (ret x)" "frame g (throw e)" "frame g (reads q)" "frame g (of_res r)" "frame g utcnow" "frame g (new_id p)" "frame g (throw_if b e)"
  by (auto simp: frame_def op_eval)

lemma frame_map_op [frame_intro]: "(\<And>x. frame g (f x)) \<Longrightarrow> frame g (map_op f xs)"
  by (induction xs) (auto intro!: frame_intro)

lemma frame_rows:
  assumes "\<And>h t. g (upd h t) = g t"
  shows "frame g (insert_row get upd key r)" "frame g (update_rows upd P h)" "frame g (delete_rows upd P)"
  using assms by (auto simp: frame_def op_eval insert_row_def)

text \<open>Staging a notification adds it, or leaves the tables as they are.\<close>

lemma stage_cases:
  assumes "stage_notification q s = (r, s')"
  obtains (staged) n where "r = Inr (n, True)" "work s' = t_notes_update (\<lambda>ns. ns @ [n]) (work s)" "committed s' = committed s"
      "nt_recipient n = nq_recipient q" "nt_dedupe n = take 191 (nq_dedupe q)" "nt_type n = strip (nq_type q)" "nt_read n = None"
      "\<And>m. m \<in> set (t_notes (work s)) \<Longrightarrow> \<not> (nt_recipient m = nq_recipient q \<and> nt_dedupe m = nq_dedupe q)"
    | (found) n where "r = Inr (n, False)" "work s' = work s" "committed s' = committed s"
      "n \<in> set (t_notes (work s))" "nt_recipient n = nq_recipient q" "nt_dedupe n = nq_dedupe q"
    | (failed) e where "r = Inl e" "work s' = work s" "committed s' = committed s"
proof (cases "strip (nq_type q) \<in> set notification_types")
  case False
  then show thesis using assms failed by (auto simp: stage_notification_def op_eval Let_def)
next
  case True
  let ?P = "\<lambda>n. nt_recipient n = nq_recipient q \<and> nt_dedupe n = nq_dedupe q"
  show thesis
  proof (cases "select_first t_notes ?P (work s)")
    case (Some n)
    then have "n \<in> set (t_notes (work s))" "?P n" by (auto simp: select_first_def dest: find_SomeD)
    then show thesis using assms True Some found[of n] by (auto simp: stage_notification_def op_eval Let_def)
  next
    case None
    then have no: "\<not> ?P m" if "m \<in> set (t_notes (work s))" for m using that by (auto simp: select_first_def find_None_iff)
    let ?s = "s\<lparr>uuid_pos := Suc (uuid_pos s), clock_pos := Suc (clock_pos s)\<rparr>"
    let ?n = "\<lparr>nt_id = ''ntf'' @ ''_'' @ uuids s (uuid_pos s), nt_recipient = nq_recipient q, nt_type = strip (nq_type q), nt_actor = nq_actor q,
      nt_ws = nq_ws q, nt_table = nq_table q, nt_record = nq_record q, nt_comment = nq_comment q, nt_event = take 128 (nq_event q),
      nt_dedupe = take 191 (nq_dedupe q), nt_payload = nq_payload q, nt_created = clock s (clock_pos s), nt_read = None\<rparr>"
    have run: "insert_or_find t_notes t_notes_update note_clash ?n (select_first t_notes ?P) ?s = (r, s')"
      using assms True None by (simp add: stage_notification_def op_eval Let_def)
    show thesis
    proof (cases "list_ex (note_clash ?n) (t_notes (work s))")
      case True
      then show thesis using run None failed by (auto simp: insert_or_find_def insert_nested_def catch_def op_eval)
    next
      case False
      then show thesis using run no staged[of ?n] by (auto simp: insert_or_find_def insert_nested_def catch_def op_eval)
    qed
  qed
qed

lemma stage_frame [frame_intro]: "(\<And>h t. g (t_notes_update h t) = g t) \<Longrightarrow> frame g (stage_notification q)"
  unfolding frame_def by (auto elim!: stage_cases)

text \<open>A triple: the invariant holds of both views of the database whatever happens, the rest of the
  precondition and the postcondition speak of the view of the session.\<close>

definition runs :: "(tables \<Rightarrow> bool) \<Rightarrow> (tables \<Rightarrow> bool) \<Rightarrow> 'a op \<Rightarrow> ('a \<Rightarrow> tables \<Rightarrow> bool) \<Rightarrow> bool" where
  "runs I J m K \<longleftrightarrow> (\<forall>s r s'. m s = (r, s') \<longrightarrow> I (committed s) \<longrightarrow> I (work s) \<longrightarrow> J (work s)
     \<longrightarrow> I (work s') \<and> I (committed s') \<and> (\<forall>x. r = Inr x \<longrightarrow> K x (work s')))"

named_theorems runs_intro \<open>composition rules for \<open>runs\<close>\<close>

lemma runs_bind [runs_intro]:
  assumes "runs I J m K" "\<And>x. runs I (K x) (f x) L"
  shows "runs I J (bind_op m f) L"
  unfolding runs_def
proof (intro allI impI)
  fix s r s'
  assume run: "bind_op m f s = (r, s')" and i: "I (committed s)" "I (work s)" "J (work s)"
  obtain q s1 where m: "m s = (q, s1)" by (cases "m s")
  then have q: "I (work s1)" "I (committed s1)" "\<forall>x. q = Inr x \<longrightarrow> K x (work s1)" using assms(1) i unfolding runs_def by blast+
  show "I (work s') \<and> I (committed s') \<and> (\<forall>x. r = Inr x \<longrightarrow> L x (work s'))"
  proof (cases q)
    case (Inl e)
    then show ?thesis using run m q by (auto simp: op_eval)
  next
    case (Inr x)
    then have "f x s1 = (r, s')" using run m by (simp add: op_eval)
    then show ?thesis using assms(2)[of x] q Inr unfolding runs_def by blast
  qed
qed

lemma runs_then [runs_intro]: "runs I J m (\<lambda>_. K) \<Longrightarrow> runs I K n L \<Longrightarrow> runs I J (then_op m n) L"
  unfolding then_op_def by (rule runs_bind)

lemma runs_ret: "(\<And>t. J t \<Longrightarrow> K x t) \<Longrightarrow> runs I J (ret x) K" by (auto simp: runs_def op_eval)
lemma runs_reads: "runs I J (reads q) (\<lambda>x t. J t \<and> x = q t)" by (auto simp: runs_def op_eval)
lemma runs_of_res: "runs I J (of_res r) (\<lambda>x t. J t \<and> r = Inr x)" by (auto simp: runs_def op_eval)
lemma runs_tick: "runs I J utcnow (\<lambda>_. J)" "runs I J (new_id p) (\<lambda>_. J)" by (auto simp: runs_def op_eval)
lemma runs_commit: "runs I J commit (\<lambda>_. J)" by (auto simp: runs_def op_eval)

lemma runs_writes: "(\<And>t. I t \<Longrightarrow> J t \<Longrightarrow> I (f t) \<and> K (f t)) \<Longrightarrow> runs I J (writes f) (\<lambda>_. K)"
  by (auto simp: runs_def op_eval)

lemma runs_post: "runs I J m K \<Longrightarrow> (\<And>x t. K x t \<Longrightarrow> L x t) \<Longrightarrow> runs I J m L"
  unfolding runs_def by blast

lemma runs_pre: "runs I J m K \<Longrightarrow> (\<And>t. I t \<Longrightarrow> L t \<Longrightarrow> J t) \<Longrightarrow> runs I L m K"
  unfolding runs_def by blast

lemma runs_frame:
  assumes "frame g m" "\<And>t t'. g t = g t' \<Longrightarrow> I t = I t'" "\<And>t t'. g t = g t' \<Longrightarrow> J t = J t'"
  shows "runs I J m (\<lambda>_. J)"
  unfolding runs_def
proof (intro allI impI)
  fix s r s'
  assume m: "m s = (r, s')" and i: "I (committed s)" "I (work s)" "J (work s)"
  have g: "g (committed s') = g (committed s)" "g (work s') = g (work s) \<or> isl r \<and> g (work s') = g (committed s)"
    using assms(1) m unfolding frame_def by blast+
  have "I (committed s')" using assms(2)[OF g(1)] i by blast
  moreover have "I (work s')" using g(2) i assms(2) by metis
  moreover have "J (work s')" if "r = Inr x" for x using g(2) that i assms(3) by (metis sum.disc(2))
  ultimately show "I (work s') \<and> I (committed s') \<and> (\<forall>x. r = Inr x \<longrightarrow> J (work s'))" by blast
qed

section \<open>Threads\<close>

text \<open>Replies are one level deep on the record of their comment, a deleted comment is an empty
  tombstone nobody is mentioned in, and the unique keys hold.\<close>

definition wf_comments :: "comment list \<Rightarrow> bool" where
  "wf_comments cs \<longleftrightarrow> distinct (map cm_id cs)
     \<and> (\<forall>c\<in>set cs. \<forall>p. cm_parent c = Some p \<longrightarrow> (\<exists>d\<in>set cs. cm_id d = p \<and> cm_parent d = None \<and> cm_table d = cm_table c \<and> cm_record d = cm_record c))
     \<and> (\<forall>c\<in>set cs. cm_deleted c \<noteq> None \<longrightarrow> cm_body c = [])
     \<and> (\<forall>c\<in>set cs. \<forall>d\<in>set cs. cm_author c \<noteq> None \<and> cm_client c \<noteq> None \<and> cm_author d = cm_author c \<and> cm_client d = cm_client c \<longrightarrow> cm_id d = cm_id c)"

definition wf_mentions :: "comment list \<Rightarrow> mention list \<Rightarrow> bool" where
  "wf_mentions cs ms \<longleftrightarrow> (\<forall>m\<in>set ms. \<exists>c\<in>set cs. cm_id c = mn_comment m \<and> cm_deleted c = None)
     \<and> distinct (map (\<lambda>m. (mn_comment m, mn_user m)) ms)"

definition threads_ok :: "comment list \<Rightarrow> mention list \<Rightarrow> bool" where
  "threads_ok cs ms \<longleftrightarrow> wf_comments cs \<and> wf_mentions cs ms"

definition comments_ok :: "tables \<Rightarrow> bool" where
  "comments_ok t \<longleftrightarrow> threads_ok (t_comments t) (t_mentions t)"

definition live :: "string \<Rightarrow> tables \<Rightarrow> bool" where
  "live i t \<longleftrightarrow> (\<exists>c\<in>set (t_comments t). cm_id c = i \<and> cm_deleted c = None)"

abbreviation talk :: "tables \<Rightarrow> comment list \<times> mention list" where
  "talk t \<equiv> (t_comments t, t_mentions t)"

lemma history_frame:
  assumes "\<And>h t. g (t_sets_update h t) = g t" "\<And>h t. g (t_changes_update h t) = g t"
  shows "frame g (append_comment_history c a op b d)"
  unfolding append_comment_history_def append_change_set_def add_change_item_def Let_def
  by (auto intro!: frame_intro frame_rows assms split: option.splits prod.splits)

lemma notify_frame: "(\<And>h t. g (t_notes_update h t) = g t) \<Longrightarrow> frame g (notify_mentions c a e us)"
  unfolding notify_mentions_def by (auto intro!: frame_intro)

lemma mentions_frame: "(\<And>h t. g (t_mentions_update h t) = g t) \<Longrightarrow> frame g (set_mentions i ws us)"
  unfolding set_mentions_def add_mention_def Let_def by (auto intro!: frame_intro frame_rows split: prod.splits)

lemma talk_frames:
  "runs comments_ok (live i) (append_comment_history c a op b d) (\<lambda>_. live i)"
  "runs comments_ok (live i) (notify_mentions c a e us) (\<lambda>_. live i)"
  "runs comments_ok (live i) (stage_notification q) (\<lambda>_. live i)"
  by (rule runs_frame[where g = talk], auto intro!: history_frame notify_frame stage_frame simp: comments_ok_def live_def)+

lemma collected_distinct: "collect_user_ids acc vs = Inr us \<Longrightarrow> distinct acc \<Longrightarrow> distinct us"
proof (induction vs arbitrary: acc)
  case (Cons v vs)
  then obtain acc' where "collect_user_ids acc' vs = Inr us" "distinct acc'"
    by (cases v) (auto split: sum.splits if_splits intro: that[of acc] that)
  then show ?case by (rule Cons.IH)
qed simp

lemma normalized_users_distinct: "normalize_user_ids vs = Inr us \<Longrightarrow> distinct us"
  using collected_distinct[of "[]" vs] by (auto simp: normalize_user_ids_def bind_res_Inr split: if_splits)

text \<open>Users who are not mentioned yet.\<close>

definition unmentioned :: "string \<Rightarrow> int list \<Rightarrow> tables \<Rightarrow> bool" where
  "unmentioned i us t \<longleftrightarrow> live i t \<and> (\<forall>m\<in>set (t_mentions t). mn_comment m = i \<longrightarrow> mn_user m \<notin> set us)"

lemma wf_mentions_add:
  assumes "wf_mentions cs ms" "\<exists>c\<in>set cs. cm_id c = mn_comment m \<and> cm_deleted c = None"
    "\<forall>x\<in>set ms. mn_comment x = mn_comment m \<longrightarrow> mn_user x \<noteq> mn_user m"
  shows "wf_mentions cs (ms @ [m])"
  using assms by (auto simp: wf_mentions_def)

lemma wf_mentions_filter: "wf_mentions cs ms \<Longrightarrow> wf_mentions cs (filter P ms)"
  by (auto simp: wf_mentions_def distinct_map_filter)

lemma insert_mention_runs:
  assumes "mn_comment m = i" "mn_user m = u" "u \<notin> set us"
  shows "runs comments_ok (unmentioned i (u # us)) (insert_row t_mentions t_mentions_update mn_id m) (\<lambda>_. unmentioned i us)"
  unfolding runs_def
proof (intro allI impI)
  fix s r s'
  assume run: "insert_row t_mentions t_mentions_update mn_id m s = (r, s')"
    and i: "comments_ok (committed s)" "comments_ok (work s)" "unmentioned i (u # us) (work s)"
  show "comments_ok (work s') \<and> comments_ok (committed s') \<and> (\<forall>x. r = Inr x \<longrightarrow> unmentioned i us (work s'))"
  proof (cases "mn_id m \<in> mn_id ` set (t_mentions (work s))")
    case True
    then show ?thesis using run i by (auto simp: insert_row_def)
  next
    case False
    then have s': "s' = s\<lparr>work := t_mentions_update (\<lambda>ms. ms @ [m]) (work s)\<rparr>" using run by (simp add: insert_row_def)
    have "wf_mentions (t_comments (work s)) (t_mentions (work s) @ [m])"
      by (rule wf_mentions_add) (use i(2,3) assms in \<open>auto simp: comments_ok_def threads_ok_def unmentioned_def live_def\<close>)
    then have "comments_ok (work s')" using i(2) by (simp add: s' comments_ok_def threads_ok_def)
    moreover have "unmentioned i us (work s')" using i(3) assms by (auto simp: s' unmentioned_def live_def)
    ultimately show ?thesis using i(1) s' by simp
  qed
qed

lemma add_mention_runs:
  "u \<notin> set us \<Longrightarrow> runs comments_ok (unmentioned i (u # us)) (add_mention i u) (\<lambda>_. unmentioned i us)"
  unfolding add_mention_def
  by (rule runs_bind[OF runs_tick(2)], rule runs_bind[OF runs_tick(1)], rule insert_mention_runs) simp_all

lemma add_mentions_runs:
  "distinct us \<Longrightarrow> runs comments_ok (unmentioned i us) (map_op (add_mention i) us) (\<lambda>_. live i)"
proof (induction us)
  case Nil
  then show ?case by (auto intro: runs_ret simp: unmentioned_def)
next
  case (Cons u us)
  show ?case unfolding map_op.simps
    by (rule runs_bind[OF add_mention_runs], use Cons.prems in simp, rule runs_bind[OF Cons.IH]) (use Cons.prems in \<open>auto intro: runs_ret\<close>)
qed

lemma set_mentions_runs: "runs comments_ok (live i) (set_mentions i ws vs) (\<lambda>_. live i)"
  unfolding set_mentions_def
proof (rule runs_bind[OF runs_of_res], rule runs_bind[OF runs_reads], clarify, rule runs_bind[OF runs_of_res], unfold Let_def)
  fix normalized members existing found
  let ?J = "\<lambda>t. ((live i t \<and> normalize_user_ids vs = Inr normalized) \<and> (members, existing) = (validate_workspace_members t ws (sort normalized), mention_ids t i))
      \<and> members = Inr found"
  let ?added = "filter (\<lambda>u. u \<notin> set existing) (sort normalized)"
  have dist: "distinct ?added" if "?J t" for t using that normalized_users_distinct by auto
  show "runs comments_ok ?J (then_op (delete_rows t_mentions_update (\<lambda>m. mn_comment m = i \<and> mn_user m \<notin> set normalized))
      (bind_op (map_op (add_mention i) ?added) (\<lambda>_. ret ?added))) (\<lambda>_. live i)"
  proof (cases "distinct ?added")
    case True
    have "runs comments_ok ?J (delete_rows t_mentions_update (\<lambda>m. mn_comment m = i \<and> mn_user m \<notin> set normalized)) (\<lambda>_. unmentioned i ?added)"
      unfolding delete_rows_def
    proof (rule runs_writes, elim conjE, intro conjI)
      fix t
      assume "comments_ok t"
      then show "comments_ok (t_mentions_update (filter (\<lambda>m. \<not> (mn_comment m = i \<and> mn_user m \<notin> set normalized))) t)"
        by (simp add: comments_ok_def threads_ok_def wf_mentions_filter)
    next
      fix t
      assume "live i t" "(members, existing) = (validate_workspace_members t ws (sort normalized), mention_ids t i)"
      then show "unmentioned i ?added (t_mentions_update (filter (\<lambda>m. \<not> (mn_comment m = i \<and> mn_user m \<notin> set normalized))) t)"
        by (auto simp: unmentioned_def live_def mention_ids_def select_def)
    qed
    then show ?thesis
      by (rule runs_then) (auto intro!: runs_bind[OF add_mentions_runs[OF True]] runs_ret)
  next
    case False
    then show ?thesis using dist unfolding runs_def by blast
  qed
qed

lemma wf_comments_add:
  assumes "wf_comments cs" "\<not> list_ex (comment_clash c) cs" "cm_deleted c = None"
    "\<And>p. cm_parent c = Some p \<Longrightarrow> \<exists>d\<in>set cs. cm_id d = p \<and> cm_parent d = None \<and> cm_table d = cm_table c \<and> cm_record d = cm_record c"
  shows "wf_comments (cs @ [c])"
proof -
  have new: "cm_id d \<noteq> cm_id c" if "d \<in> set cs" for d using assms(2) that by (auto simp: list_ex_iff comment_clash_def)
  have key: "\<not> (cm_author c \<noteq> None \<and> cm_client c \<noteq> None \<and> cm_author d = cm_author c \<and> cm_client d = cm_client c)" if "d \<in> set cs" for d
    using assms(2) that by (auto simp: list_ex_iff comment_clash_def)
  have "cm_id c \<notin> cm_id ` set cs" using new by (metis imageE)
  then have "distinct (map cm_id (cs @ [c]))" using assms(1) by (simp add: wf_comments_def)
  moreover have "\<exists>d\<in>set (cs @ [c]). cm_id d = p \<and> cm_parent d = None \<and> cm_table d = cm_table x \<and> cm_record d = cm_record x"
    if "x \<in> set (cs @ [c])" "cm_parent x = Some p" for x p
    using that assms(1,4) by (cases "x \<in> set cs") (force simp: wf_comments_def)+
  moreover have "cm_body x = []" if "x \<in> set (cs @ [c])" "cm_deleted x \<noteq> None" for x
    using that assms(1,3) by (auto simp: wf_comments_def)
  moreover have "cm_id y = cm_id x" if "x \<in> set (cs @ [c])" "y \<in> set (cs @ [c])"
    "cm_author x \<noteq> None" "cm_client x \<noteq> None" "cm_author y = cm_author x" "cm_client y = cm_client x" for x y
  proof (cases "x \<in> set cs \<and> y \<in> set cs")
    case True
    then show ?thesis using assms(1) that unfolding wf_comments_def by blast
  next
    case False
    then show ?thesis using key[of x] key[of y] that by auto
  qed
  ultimately show ?thesis unfolding wf_comments_def by blast
qed

text \<open>A comment rewritten, with its keys and its place in the threads.\<close>

definition rewritten :: "comment \<Rightarrow> comment \<Rightarrow> bool" where
  "rewritten c d \<longleftrightarrow> cm_id d = cm_id c \<and> cm_table d = cm_table c \<and> cm_record d = cm_record c \<and> cm_parent d = cm_parent c
     \<and> cm_author d = cm_author c \<and> cm_client d = cm_client c \<and> (cm_deleted d \<noteq> None \<longrightarrow> cm_body d = [])"

definition put_comment :: "comment \<Rightarrow> comment list \<Rightarrow> comment list" where
  "put_comment d cs = map (\<lambda>x. if cm_id x = cm_id d then d else x) cs"

lemma put_rewritten:
  assumes "wf_comments cs" "c \<in> set cs" "rewritten c d" "x \<in> set cs"
  shows "\<exists>y\<in>set (put_comment d cs). rewritten x y" "(if cm_id x = cm_id d then d else x) \<in> set (put_comment d cs)"
    "rewritten x (if cm_id x = cm_id d then d else x)"
proof -
  show y: "(if cm_id x = cm_id d then d else x) \<in> set (put_comment d cs)" using assms(4) by (auto simp: put_comment_def)
  show r: "rewritten x (if cm_id x = cm_id d then d else x)"
  proof (cases "cm_id x = cm_id d")
    case True
    then have "cm_id x = cm_id c" using assms(3) by (simp add: rewritten_def)
    then have "x = c" using assms(1,2,4) by (auto simp: wf_comments_def distinct_map dest: inj_onD)
    then show ?thesis using True assms(3) by simp
  next
    case False
    then show ?thesis using assms(1,4) by (auto simp: rewritten_def wf_comments_def)
  qed
  show "\<exists>y\<in>set (put_comment d cs). rewritten x y" using y r by blast
qed

lemma put_origin: "y \<in> set (put_comment d cs) \<Longrightarrow> \<exists>x\<in>set cs. y = (if cm_id x = cm_id d then d else x)"
  by (auto simp: put_comment_def)

lemma wf_comments_put:
  assumes "wf_comments cs" "c \<in> set cs" "rewritten c d"
  shows "wf_comments (put_comment d cs)"
proof -
  have "map cm_id (put_comment d cs) = map cm_id cs" by (simp add: put_comment_def comp_def)
  then have "distinct (map cm_id (put_comment d cs))" using assms(1) by (simp add: wf_comments_def)
  moreover have "\<exists>x\<in>set cs. rewritten x y" if "y \<in> set (put_comment d cs)" for y
    using put_origin[OF that] put_rewritten(3)[OF assms] by blast
  note origin = this
  have "\<exists>z\<in>set (put_comment d cs). cm_id z = p \<and> cm_parent z = None \<and> cm_table z = cm_table y \<and> cm_record z = cm_record y"
    if y: "y \<in> set (put_comment d cs)" "cm_parent y = Some p" for y p
  proof -
    obtain x where x: "x \<in> set cs" "rewritten x y" using origin[OF y(1)] by blast
    then have "cm_parent x = Some p" using y(2) by (simp add: rewritten_def)
    then obtain z where "z \<in> set cs" "cm_id z = p" "cm_parent z = None" "cm_table z = cm_table x" "cm_record z = cm_record x"
      using assms(1) x(1) unfolding wf_comments_def by blast
    then show ?thesis using put_rewritten(1)[OF assms, of z] x(2) by (auto simp: rewritten_def)
  qed
  moreover have "cm_body y = []" if "y \<in> set (put_comment d cs)" "cm_deleted y \<noteq> None" for y
    using origin[OF that(1)] that(2) by (auto simp: rewritten_def)
  moreover have "cm_id z = cm_id y" if "y \<in> set (put_comment d cs)" "z \<in> set (put_comment d cs)"
    "cm_author y \<noteq> None \<and> cm_client y \<noteq> None \<and> cm_author z = cm_author y \<and> cm_client z = cm_client y" for y z
    using origin[OF that(1)] origin[OF that(2)] that(3) assms(1) unfolding wf_comments_def rewritten_def by metis
  ultimately show ?thesis unfolding wf_comments_def by blast
qed

lemma wf_mentions_put:
  assumes "wf_comments cs" "c \<in> set cs" "rewritten c d" "wf_mentions cs ms" "cm_deleted d = None \<or> (\<forall>m\<in>set ms. mn_comment m \<noteq> cm_id d)"
  shows "wf_mentions (put_comment d cs) ms"
proof -
  have "\<exists>y\<in>set (put_comment d cs). cm_id y = mn_comment m \<and> cm_deleted y = None" if m: "m \<in> set ms" for m
  proof -
    obtain x where x: "x \<in> set cs" "cm_id x = mn_comment m" "cm_deleted x = None" using assms(4) m by (auto simp: wf_mentions_def)
    let ?y = "if cm_id x = cm_id d then d else x"
    have "cm_id ?y = mn_comment m" "cm_deleted ?y = None" using x assms(5) m by auto
    then show ?thesis using put_rewritten(2)[OF assms(1-3) x(1)] by blast
  qed
  then show ?thesis using assms(4) by (simp add: wf_mentions_def)
qed

lemma find_commentD: "find_comment t i = Some c \<Longrightarrow> c \<in> set (t_comments t) \<and> cm_id c = i"
  by (auto simp: find_comment_def select_first_def dest: find_SomeD)

lemma insert_comment_runs:
  assumes "cm_deleted c = None"
    "\<And>t p. J t \<Longrightarrow> cm_parent c = Some p \<Longrightarrow> \<exists>d\<in>set (t_comments t). cm_id d = p \<and> cm_parent d = None \<and> cm_table d = cm_table c \<and> cm_record d = cm_record c"
  shows "runs comments_ok J (insert_comment c) (\<lambda>_. live (cm_id c))"
  unfolding runs_def
proof (intro allI impI)
  fix s r s'
  assume run: "insert_comment c s = (r, s')" and i: "comments_ok (committed s)" "comments_ok (work s)" "J (work s)"
  show "comments_ok (work s') \<and> comments_ok (committed s') \<and> (\<forall>x. r = Inr x \<longrightarrow> live (cm_id c) (work s'))"
  proof (cases "list_ex (comment_clash c) (t_comments (work s))")
    case True
    then show ?thesis using run i by (auto simp: insert_comment_def)
  next
    case False
    then have s': "s' = s\<lparr>work := t_comments_update (\<lambda>cs. cs @ [c]) (work s)\<rparr>" using run by (simp add: insert_comment_def)
    have "wf_comments (t_comments (work s) @ [c])"
      by (rule wf_comments_add[OF _ False assms(1) assms(2)[OF i(3)]]) (use i(2) in \<open>simp_all add: comments_ok_def threads_ok_def\<close>)
    moreover have "wf_mentions (t_comments (work s) @ [c]) (t_mentions (work s))" using i(2) by (auto simp: comments_ok_def threads_ok_def wf_mentions_def)
    ultimately show ?thesis using i(1) assms(1) by (auto simp: s' comments_ok_def threads_ok_def live_def)
  qed
qed

lemma runs_any: "runs I J m K \<Longrightarrow> runs I J m (\<lambda>_ _. True)"
  by (rule runs_post) auto

lemma add_comment_runs: "runs comments_ok (\<lambda>t. parent_comment t (cr_table q) (cr_record q) (cr_parent q) = Inr parent) (add_comment q b parent) (\<lambda>_ _. True)"
  unfolding add_comment_def Let_def
proof (rule runs_bind[OF runs_tick(2)], rule runs_bind[OF runs_tick(1)], rule runs_bind[OF runs_tick(1)], rule runs_then)
  fix i now updated
  let ?c = "\<lparr>cm_id = i, cm_ws = cr_ws q, cm_table = cr_table q, cm_record = cr_record q, cm_author = Some (cr_author q),
        cm_parent = map_option cm_id parent, cm_body = b, cm_format = ''markdown'',
        cm_client = (if cr_client q = Some [] then None else map_option (take 128) (cr_client q)),
        cm_revision = 1, cm_created = now, cm_updated = updated, cm_deleted = None\<rparr>"
  show "runs comments_ok (\<lambda>t. parent_comment t (cr_table q) (cr_record q) (cr_parent q) = Inr parent) (insert_comment ?c) (\<lambda>_. live i)"
    using insert_comment_runs[of ?c "\<lambda>t. parent_comment t (cr_table q) (cr_record q) (cr_parent q) = Inr parent"]
    by (fastforce simp: parent_comment_def dest: find_commentD split: if_splits option.splits)
  show "runs comments_ok (live i) (bind_op (set_mentions i (cr_ws q) (cr_mentions q)) (\<lambda>added.
     bind_op (append_comment_history ?c (cr_author q) ''comment.create'' None (Some (history_payload ?c))) (\<lambda>event_id.
     then_op (notify_mentions ?c (cr_author q) event_id added)
     (then_op (case reply_recipient parent (cr_author q) added of
         None \<Rightarrow> ret ()
       | Some a \<Rightarrow> bind_op (stage_notification (reply_note ?c (cr_author q) event_id a)) (\<lambda>_. ret ()))
     (then_op commit (reads (\<lambda>t. serialize_comment t ?c))))))) (\<lambda>_ _. True)"
    apply (rule runs_bind[OF set_mentions_runs], rule runs_bind[OF talk_frames(1)], rule runs_then[OF talk_frames(2)])
    apply (rule runs_then[where K = "live i"])
    by (auto intro!: runs_ret runs_any[OF runs_reads] runs_then[OF runs_commit] runs_bind[OF talk_frames(3)] split: option.splits)
qed

lemma create_runs: "runs comments_ok (\<lambda>_. True) (create_comment q) (\<lambda>_ _. True)"
  unfolding create_comment_def
  apply (rule runs_bind[OF runs_of_res], rule runs_bind[OF runs_reads])
  subgoal for b existing
    by (cases existing) (auto intro!: runs_any[OF runs_reads] runs_any[OF runs_of_res] runs_bind[OF runs_reads] runs_bind[OF runs_of_res]
        intro: runs_pre[OF add_comment_runs])
  done

text \<open>The changes of a comment.\<close>

datatype comment_change =
    Edit int string string "pyval list" "int option"
  | Remove int string "int option"

fun change_comment :: "string \<Rightarrow> comment_change \<Rightarrow> comment_view op" where
  "change_comment i (Edit actor permission body users expected) = update_comment i actor permission body users expected"
| "change_comment i (Remove actor permission expected) = delete_comment i actor permission expected"

fun change_terms :: "comment_change \<Rightarrow> int \<times> string \<times> int option" where
  "change_terms (Edit actor permission body users expected) = (actor, permission, expected)"
| "change_terms (Remove actor permission expected) = (actor, permission, expected)"

lemma put_comment_row: "put_row t_comments_update cm_id d = writes (t_comments_update (put_comment d))"
  by (simp add: put_row_def update_rows_def put_comment_def[abs_def])

lemma changeableD: "changeable_comment i a p e verb t = Inr c \<Longrightarrow> find_comment t i = Some c \<and> c \<in> set (t_comments t) \<and> cm_id c = i
    \<and> cm_deleted c = None \<and> (cm_author c = Some a \<or> permission_allows (Some p) ''manage'') \<and> (e = None \<or> e = Some (or_zero (cm_revision c) 1))"
  by (cases e) (auto simp: changeable_comment_def split: option.splits if_splits dest: find_commentD)

lemma put_runs:
  assumes "rewritten c d" "cm_deleted d = None"
  shows "runs comments_ok (\<lambda>t. c \<in> set (t_comments t)) (put_row t_comments_update cm_id d) (\<lambda>_. live (cm_id d))"
  unfolding put_comment_row
proof (rule runs_writes, intro conjI)
  fix t
  assume t: "comments_ok t" "c \<in> set (t_comments t)"
  then have w: "wf_comments (t_comments t)" "wf_mentions (t_comments t) (t_mentions t)" by (simp_all add: comments_ok_def threads_ok_def)
  show "comments_ok (t_comments_update (put_comment d) t)"
    using wf_comments_put[OF w(1) t(2) assms(1)] wf_mentions_put[OF w(1) t(2) assms(1) w(2)] assms(2) by (simp add: comments_ok_def threads_ok_def)
  have "d \<in> set (put_comment d (t_comments t))" using put_rewritten(2)[OF w(1) t(2) assms(1) t(2)] assms(1) by (simp add: rewritten_def)
  then show "live (cm_id d) (t_comments_update (put_comment d) t)" using assms(2) by (auto simp: live_def)
qed

lemma tomb_runs:
  assumes "rewritten c d" "cm_deleted d \<noteq> None"
  shows "runs comments_ok (\<lambda>t. c \<in> set (t_comments t))
    (then_op (put_row t_comments_update cm_id d) (delete_rows t_mentions_update (\<lambda>m. mn_comment m = cm_id c))) (\<lambda>_ _. True)"
proof -
  have id: "cm_id d = cm_id c" using assms(1) by (simp add: rewritten_def)
  let ?f = "\<lambda>t. t_mentions_update (filter (\<lambda>m. mn_comment m \<noteq> cm_id d)) (t_comments_update (put_comment d) t)"
  have eq: "then_op (put_row t_comments_update cm_id d) (delete_rows t_mentions_update (\<lambda>m. mn_comment m = cm_id c)) = writes ?f"
    by (rule ext) (simp add: put_comment_row op_eval id)
  show ?thesis unfolding eq
  proof (rule runs_writes, intro conjI)
    fix t
    assume t: "comments_ok t" "c \<in> set (t_comments t)"
    then have w: "wf_comments (t_comments t)" "wf_mentions (t_comments t) (t_mentions t)" by (simp_all add: comments_ok_def threads_ok_def)
    show "comments_ok (?f t)"
      using wf_comments_put[OF w(1) t(2) assms(1)]
        wf_mentions_put[OF w(1) t(2) assms(1) wf_mentions_filter[OF w(2)], of "\<lambda>m. mn_comment m \<noteq> cm_id d"]
      by (simp add: comments_ok_def threads_ok_def)
  qed simp
qed

lemma then_assoc: "then_op m (then_op n k) = then_op (then_op m n) k"
  by (rule ext) (auto simp: op_eval split: prod.splits sum.splits)

lemma runs_when: "(\<And>t. J t \<Longrightarrow> P) \<Longrightarrow> (P \<Longrightarrow> runs I J m K) \<Longrightarrow> runs I J m K"
  unfolding runs_def by blast

lemma update_runs: "runs comments_ok (\<lambda>_. True) (update_comment i a p b us e) (\<lambda>_ _. True)"
  unfolding update_comment_def Let_def
proof (rule runs_bind[OF runs_reads], rule runs_bind[OF runs_of_res], rule runs_bind[OF runs_of_res], rule runs_bind[OF runs_tick(1)])
  fix found and c :: comment and sanitized now
  let ?d = "c\<lparr>cm_body := sanitized, cm_revision := or_zero (cm_revision c) 1 + 1, cm_updated := now\<rparr>"
  let ?J = "\<lambda>t. ((True \<and> found = changeable_comment i a p e ''edit'' t) \<and> found = Inr c) \<and> sanitize_markdown b = Inr sanitized"
  have put: "runs comments_ok ?J (put_row t_comments_update cm_id ?d) (\<lambda>_. live (cm_id ?d))"
  proof (rule runs_when[where P = "cm_deleted c = None"])
    assume "cm_deleted c = None"
    then show "runs comments_ok ?J (put_row t_comments_update cm_id ?d) (\<lambda>_. live (cm_id ?d))"
      by (intro runs_pre[OF put_runs[of c ?d]]) (auto simp: rewritten_def dest: changeableD)
  qed (auto dest: changeableD)
  show "runs comments_ok ?J (then_op (put_row t_comments_update cm_id ?d)
     (bind_op (set_mentions (cm_id ?d) (cm_ws ?d) us) (\<lambda>added.
     bind_op (append_comment_history ?d a ''comment.update'' (Some (history_payload c)) (Some (history_payload ?d))) (\<lambda>event_id.
     then_op (notify_mentions ?d a event_id added)
     (then_op commit (reads (\<lambda>t. serialize_comment t ?d))))))) (\<lambda>_ _. True)"
    by (rule runs_then[OF put], rule runs_bind[OF set_mentions_runs], rule runs_bind[OF talk_frames(1)], rule runs_then[OF talk_frames(2)],
        rule runs_then[OF runs_commit], rule runs_any[OF runs_reads])
qed

lemma delete_runs: "runs comments_ok (\<lambda>_. True) (delete_comment i a p e) (\<lambda>_ _. True)"
  unfolding delete_comment_def Let_def then_assoc
proof (rule runs_bind[OF runs_reads], rule runs_bind[OF runs_of_res], rule runs_bind[OF runs_tick(1)])
  fix found and c :: comment and now
  let ?d = "c\<lparr>cm_body := [], cm_deleted := Some now, cm_updated := now, cm_revision := or_zero (cm_revision c) 1 + 1\<rparr>"
  let ?J = "\<lambda>t. (True \<and> found = changeable_comment i a p e ''delete'' t) \<and> found = Inr c"
  have tomb: "runs comments_ok ?J (then_op (put_row t_comments_update cm_id ?d) (delete_rows t_mentions_update (\<lambda>m. mn_comment m = cm_id c))) (\<lambda>_ _. True)"
    by (rule runs_pre[OF tomb_runs[of c ?d]]) (auto simp: rewritten_def dest: changeableD)
  have history: "runs comments_ok (\<lambda>_. True) (append_comment_history ?d a op b v) (\<lambda>_ _. True)" for op b v
    by (rule runs_frame[where g = talk]) (auto intro!: history_frame simp: comments_ok_def)
  show "runs comments_ok ?J (then_op (then_op (put_row t_comments_update cm_id ?d) (delete_rows t_mentions_update (\<lambda>m. mn_comment m = cm_id c)))
     (bind_op (append_comment_history ?d a ''comment.delete'' (Some (history_payload c)) (Some (history_payload ?d))) (\<lambda>_.
     then_op commit (reads (\<lambda>t. serialize_comment t ?d))))) (\<lambda>_ _. True)"
    by (rule runs_then[OF tomb], rule runs_bind[OF history], rule runs_then[OF runs_commit], rule runs_any[OF runs_reads])
qed

text \<open>C22: Comment threads stay well formed. Creating, editing and deleting a comment, whether they succeed
  or raise, keep both the session and the database such that every reply has its comment, on the
  same record and itself no reply, a deleted comment has an empty body and mentions nobody, nobody is
  mentioned twice in a comment, and neither ids nor the client ids of an author repeat.\<close>
theorem comment_threads_kept:
  assumes "comments_ok (work s)" "comments_ok (committed s)" "m = create_comment q \<or> m = change_comment i x" "m s = (r, s')"
  shows "comments_ok (work s') \<and> comments_ok (committed s')"
proof -
  have "runs comments_ok (\<lambda>_. True) m (\<lambda>_ _. True)"
    using assms(3) create_runs[of q] update_runs delete_runs by (cases x) auto
  then show ?thesis using assms(1,2,4) unfolding runs_def by blast
qed

section \<open>Concurrent changes and repeated requests\<close>

lemma find_put: "find (\<lambda>x. cm_id x = i) cs = Some c \<Longrightarrow> cm_id d = i \<Longrightarrow> find (\<lambda>x. cm_id x = i) (put_comment d cs) = Some d"
  by (induction cs) (auto simp: put_comment_def split: if_splits)

text \<open>What a successful change makes of the comments.\<close>

definition changed_comments :: "string \<Rightarrow> comment list \<Rightarrow> tables \<Rightarrow> bool" where
  "changed_comments i cs t \<longleftrightarrow> (\<exists>c d. find (\<lambda>x. cm_id x = i) cs = Some c \<and> t_comments t = put_comment d cs \<and> cm_id d = i
     \<and> cm_author d = cm_author c \<and> cm_revision d = or_zero (cm_revision c) 1 + 1)"

lemma put_changes:
  assumes "cm_id d = cm_id c" "cm_author d = cm_author c" "cm_revision d = or_zero (cm_revision c) 1 + 1"
    "\<And>t. J t \<Longrightarrow> t_comments t = cs \<and> find_comment t i = Some c"
  shows "runs (\<lambda>_. True) J (put_row t_comments_update cm_id d) (\<lambda>_. changed_comments i cs)"
  unfolding put_comment_row
proof (rule runs_writes, intro conjI TrueI)
  fix t
  assume "J t"
  then have "t_comments t = cs" "find (\<lambda>x. cm_id x = i) cs = Some c" "cm_id c = i"
    using assms(4)[of t] find_commentD[of t i c] by (auto simp: find_comment_def select_first_def)
  then show "changed_comments i cs (t_comments_update (put_comment d) t)" using assms(1-3) by (auto simp: changed_comments_def)
qed

lemma changed_frames:
  "runs (\<lambda>_. True) (changed_comments i cs) (append_comment_history c a op b d) (\<lambda>_. changed_comments i cs)"
  "runs (\<lambda>_. True) (changed_comments i cs) (notify_mentions c a e us) (\<lambda>_. changed_comments i cs)"
  "runs (\<lambda>_. True) (changed_comments i cs) (set_mentions j ws vs) (\<lambda>_. changed_comments i cs)"
  "runs (\<lambda>_. True) (changed_comments i cs) (delete_rows t_mentions_update P) (\<lambda>_. changed_comments i cs)"
  by (rule runs_frame[where g = t_comments], auto intro!: history_frame notify_frame mentions_frame frame_rows simp: changed_comments_def)+

lemma change_runs: "runs (\<lambda>_. True) (\<lambda>t. t_comments t = cs) (change_comment i x) (\<lambda>_. changed_comments i cs)"
proof (cases x)
  case (Edit a p b us e)
  show ?thesis unfolding Edit change_comment.simps update_comment_def Let_def
    by (rule runs_bind[OF runs_reads], rule runs_bind[OF runs_of_res], rule runs_bind[OF runs_of_res], rule runs_bind[OF runs_tick(1)],
        rule runs_then[OF put_changes[where cs = cs and i = i]], auto dest: changeableD changeableD[OF sym]
        intro!: runs_bind[OF changed_frames(3)] runs_bind[OF changed_frames(1)] runs_then[OF changed_frames(2)] runs_then[OF runs_commit]
          runs_post[OF runs_reads])
next
  case (Remove a p e)
  show ?thesis unfolding Remove change_comment.simps delete_comment_def Let_def
    by (rule runs_bind[OF runs_reads], rule runs_bind[OF runs_of_res], rule runs_bind[OF runs_tick(1)], rule runs_then[OF put_changes[where cs = cs and i = i]],
        auto dest: changeableD changeableD[OF sym]
        intro!: runs_then[OF changed_frames(4)] runs_bind[OF changed_frames(1)] runs_then[OF runs_commit] runs_post[OF runs_reads])
qed

text \<open>C23: A change based on a revision that has been overtaken is refused. After an edit or a deletion of a
  comment has succeeded, any edit or deletion that expects the revision before it, by the author or a
  manager, raises a conflict (or, after a deletion, that there is no such comment) and leaves session
  and database as they are; of two changes based on the same revision at most one succeeds.\<close>
theorem stale_change_refused:
  assumes "change_comment i x s = (Inr v, s')" "find_comment (work s) i = Some c"
    "change_terms y = (actor, permission, Some (or_zero (cm_revision c) 1))" "cm_author c = Some actor \<or> permission_allows (Some permission) ''manage''"
  shows "\<exists>e. change_comment i y s' = (Inl e, s') \<and> exn_class e \<in> {CollaborationConflictError, CollaborationNotFoundError}"
proof -
  have "changed_comments i (t_comments (work s)) (work s')"
    using change_runs[of "t_comments (work s)" i x] assms(1) unfolding runs_def by blast
  then obtain d where d: "t_comments (work s') = put_comment d (t_comments (work s))" "cm_id d = i" "cm_author d = cm_author c"
    "cm_revision d = or_zero (cm_revision c) 1 + 1"
    using assms(2) by (auto simp: changed_comments_def find_comment_def select_first_def)
  have "find_comment (work s') i = Some d"
    using find_put[OF _ d(2)] assms(2) d(1) by (simp add: find_comment_def select_first_def)
  moreover have "or_zero (cm_revision d) 1 \<noteq> or_zero (cm_revision c) 1" by (auto simp: d(4) or_zero_def)
  ultimately have refused: "\<exists>e. changeable_comment i actor permission (Some (or_zero (cm_revision c) 1)) verb (work s') = Inl e
      \<and> exn_class e \<in> {CollaborationConflictError, CollaborationNotFoundError}" for verb
    using assms(4) d(3) by (auto simp: changeable_comment_def)
  show ?thesis
  proof (cases y)
    case (Edit a p b us e)
    then show ?thesis using refused[of "''edit''"] assms(3) by (auto simp: update_comment_def op_eval)
  next
    case (Remove a p e)
    then show ?thesis using refused[of "''delete''"] assms(3) by (auto simp: delete_comment_def op_eval)
  qed
qed

text \<open>A comment that is there, after its creation or before.\<close>

definition made :: "comment_request \<Rightarrow> string \<Rightarrow> comment \<Rightarrow> tables \<Rightarrow> bool" where
  "made q b c t \<longleftrightarrow> client_comment t (cr_author q) (cr_client q) = Some c \<and> cm_table c = cr_table q \<and> cm_record c = cr_record q
     \<and> cm_parent c = cr_parent q \<and> cm_body c = b"

lemma made_frames:
  "runs (\<lambda>_. True) (made q b c) (append_comment_history x a op d e) (\<lambda>_. made q b c)"
  "runs (\<lambda>_. True) (made q b c) (notify_mentions x a i us) (\<lambda>_. made q b c)"
  "runs (\<lambda>_. True) (made q b c) (set_mentions j ws vs) (\<lambda>_. made q b c)"
  "runs (\<lambda>_. True) (made q b c) (stage_notification n) (\<lambda>_. made q b c)"
  by (rule runs_frame[where g = t_comments], auto intro!: history_frame notify_frame mentions_frame stage_frame
      simp: made_def client_comment_def select_first_def)+

lemma insert_made:
  assumes "client_comment t (cr_author q) (cr_client q) = None" "cr_client q = Some k" "k \<noteq> []" "length k \<le> 128"
    "cm_author c = Some (cr_author q)" "cm_client c = Some (take 128 k)" "cm_table c = cr_table q" "cm_record c = cr_record q"
    "cm_parent c = cr_parent q" "cm_body c = b"
  shows "made q b c (t_comments_update (\<lambda>cs. cs @ [c]) t)"
  using assms by (simp add: made_def client_comment_def select_first_def find_append)

lemma parent_id: "parent_comment t tb rc p = Inr parent \<Longrightarrow> p \<noteq> Some [] \<Longrightarrow> map_option cm_id parent = p"
  by (cases p; cases parent) (auto simp: parent_comment_def dest: find_commentD split: option.splits if_splits)

lemma add_made:
  assumes "cr_client q = Some k" "k \<noteq> []" "length k \<le> 128" "cr_parent q \<noteq> Some []"
  shows "runs (\<lambda>_. True) (\<lambda>t. client_comment t (cr_author q) (cr_client q) = None \<and> parent_comment t (cr_table q) (cr_record q) (cr_parent q) = Inr parent)
    (add_comment q b parent) (\<lambda>v t. \<exists>c. made q b c t \<and> v = serialize_comment t c)"
  unfolding add_comment_def Let_def
proof (rule runs_bind[OF runs_tick(2)], rule runs_bind[OF runs_tick(1)], rule runs_bind[OF runs_tick(1)])
  fix i now updated
  let ?c = "\<lparr>cm_id = i, cm_ws = cr_ws q, cm_table = cr_table q, cm_record = cr_record q, cm_author = Some (cr_author q),
        cm_parent = map_option cm_id parent, cm_body = b, cm_format = ''markdown'',
        cm_client = (if cr_client q = Some [] then None else map_option (take 128) (cr_client q)),
        cm_revision = 1, cm_created = now, cm_updated = updated, cm_deleted = None\<rparr>"
  let ?J = "\<lambda>t. client_comment t (cr_author q) (cr_client q) = None \<and> parent_comment t (cr_table q) (cr_record q) (cr_parent q) = Inr parent"
  have ins: "runs (\<lambda>_. True) ?J (insert_comment ?c) (\<lambda>_. made q b ?c)"
    unfolding runs_def
  proof (intro allI impI conjI TrueI)
    fix s r s' x
    assume run: "insert_comment ?c s = (r, s')" "?J (work s)" "r = Inr x"
    then have "s' = s\<lparr>work := t_comments_update (\<lambda>cs. cs @ [?c]) (work s)\<rparr>" by (auto simp: insert_comment_def split: if_splits)
    then show "made q b ?c (work s')"
      using insert_made[of "work s" q k ?c b] run(2) assms parent_id[of "work s" "cr_table q" "cr_record q" "cr_parent q" parent] by simp
  qed
  show "runs (\<lambda>_. True) ?J (then_op (insert_comment ?c) (bind_op (set_mentions i (cr_ws q) (cr_mentions q)) (\<lambda>added.
     bind_op (append_comment_history ?c (cr_author q) ''comment.create'' None (Some (history_payload ?c))) (\<lambda>event_id.
     then_op (notify_mentions ?c (cr_author q) event_id added)
     (then_op (case reply_recipient parent (cr_author q) added of
         None \<Rightarrow> ret ()
       | Some a \<Rightarrow> bind_op (stage_notification (reply_note ?c (cr_author q) event_id a)) (\<lambda>_. ret ()))
     (then_op commit (reads (\<lambda>t. serialize_comment t ?c)))))))) (\<lambda>v t. \<exists>c. made q b c t \<and> v = serialize_comment t c)"
    apply (rule runs_then[OF ins], rule runs_bind[OF made_frames(3)], rule runs_bind[OF made_frames(1)], rule runs_then[OF made_frames(2)])
    apply (rule runs_then[where K = "made q b ?c"])
     apply (auto intro!: runs_ret runs_bind[OF made_frames(4)] split: option.splits)[1]
    by (rule runs_then[OF runs_commit], rule runs_post[OF runs_reads]) blast
qed

lemma create_made:
  assumes "cr_client q = Some k" "k \<noteq> []" "length k \<le> 128" "cr_parent q \<noteq> Some []"
  shows "runs (\<lambda>_. True) (\<lambda>_. True) (create_comment q)
    (\<lambda>v t. \<exists>b c. sanitize_markdown (cr_body q) = Inr b \<and> made q b c t \<and> v = serialize_comment t c)"
  unfolding create_comment_def
proof (rule runs_bind[OF runs_of_res], rule runs_bind[OF runs_reads])
  fix b existing
  let ?K = "\<lambda>v t. \<exists>b c. sanitize_markdown (cr_body q) = Inr b \<and> made q b c t \<and> v = serialize_comment t c"
  let ?J = "\<lambda>t. (True \<and> sanitize_markdown (cr_body q) = Inr b) \<and> existing = client_comment t (cr_author q) (cr_client q)"
  show "runs (\<lambda>_. True) ?J (case existing of
       Some c \<Rightarrow>
         if cm_table c \<noteq> cr_table q \<or> cm_record c \<noteq> cr_record q \<or> cm_parent c \<noteq> cr_parent q \<or> cm_body c \<noteq> b
         then of_res (collab_conflict ''clientMutationId was already used for another comment payload'')
         else reads (\<lambda>t. serialize_comment t c)
     | None \<Rightarrow>
         bind_op (reads (\<lambda>t. parent_comment t (cr_table q) (cr_record q) (cr_parent q))) (\<lambda>found.
         bind_op (of_res found) (\<lambda>parent. add_comment q b parent))) ?K"
  proof (cases existing)
    case None
    show ?thesis unfolding None option.case
    proof (rule runs_bind[OF runs_reads], rule runs_bind[OF runs_of_res])
      fix found and parent :: "comment option"
      let ?J = "\<lambda>t. (((True \<and> sanitize_markdown (cr_body q) = Inr b) \<and> None = client_comment t (cr_author q) (cr_client q))
        \<and> found = parent_comment t (cr_table q) (cr_record q) (cr_parent q)) \<and> found = Inr parent"
      show "runs (\<lambda>_. True) ?J (add_comment q b parent) ?K"
      proof (rule runs_when[where P = "sanitize_markdown (cr_body q) = Inr b"])
        assume "sanitize_markdown (cr_body q) = Inr b"
        then show "runs (\<lambda>_. True) ?J (add_comment q b parent) ?K"
          by (intro runs_post[OF runs_pre[OF add_made[OF assms]]]) auto
      qed simp
    qed
  next
    case (Some c)
    then show ?thesis by (auto simp: runs_def op_eval made_def intro!: exI[of _ c] dest: sym)
  qed
qed

text \<open>C24: Creating a comment is idempotent under its client id. When a creation with a client id of at most
  128 characters, and with a parent id that is absent or not the empty string, has succeeded, the same
  request again returns the same comment and changes nothing, and a request of the same author with the
  same id and a valid body but another table, record, parent or stored body is refused as a conflict,
  without a change.\<close>
theorem create_comment_repeats:
  assumes "create_comment q s = (Inr v, s')" "cr_client q = Some k" "k \<noteq> []" "length k \<le> 128" "cr_parent q \<noteq> Some []"
    "cr_author q' = cr_author q" "cr_client q' = cr_client q" "sanitize_markdown (cr_body q') = Inr b'"
  shows "create_comment q s' = (Inr v, s')
    \<and> ((cr_table q', cr_record q', cr_parent q', Inr b') \<noteq> (cr_table q, cr_record q, cr_parent q, sanitize_markdown (cr_body q))
      \<longrightarrow> (\<exists>msg. create_comment q' s' = (Inl (Exn CollaborationConflictError msg), s')))"
proof -
  obtain b c where m: "sanitize_markdown (cr_body q) = Inr b" "made q b c (work s')" "v = serialize_comment (work s') c"
    using create_made[OF assms(2-5)] assms(1) unfolding runs_def by blast
  have "create_comment q s' = (Inr v, s')" using m by (simp add: create_comment_def op_eval made_def)
  moreover have "\<exists>msg. create_comment q' s' = (Inl (Exn CollaborationConflictError msg), s')"
    if "(cr_table q', cr_record q', cr_parent q', Inr b') \<noteq> (cr_table q, cr_record q, cr_parent q, sanitize_markdown (cr_body q))"
  proof -
    have "cm_table c \<noteq> cr_table q' \<or> cm_record c \<noteq> cr_record q' \<or> cm_parent c \<noteq> cr_parent q' \<or> cm_body c \<noteq> b'"
      using m(1,2) that by (auto simp: made_def)
    moreover have "client_comment (work s') (cr_author q') (cr_client q') = Some c" using m(2) assms(6,7) by (simp add: made_def)
    ultimately show ?thesis using assms(8) by (simp add: create_comment_def op_eval)
  qed
  ultimately show ?thesis by blast
qed

section \<open>Witnesses\<close>

definition talk_comment :: comment where
  "talk_comment = \<lparr>cm_id = ''c1'', cm_ws = ''w'', cm_table = ''t'', cm_record = ''r1'', cm_author = Some 1, cm_parent = None, cm_body = ''first'',
     cm_format = ''markdown'', cm_client = None, cm_revision = 1, cm_created = 5, cm_updated = 5, cm_deleted = None\<rparr>"

definition talk_tables :: tables where
  "talk_tables = empty_tables\<lparr>
     t_items := [\<lparr>itm_id = ''t'', itm_ws = ''w'', itm_type = ''table'', itm_name = ''T'', itm_parent = None, itm_order = 0, itm_view = None\<rparr>],
     t_users := [\<lparr>usr_id = 1, usr_name = ''A'', usr_email = ''a''\<rparr>, \<lparr>usr_id = 2, usr_name = ''B'', usr_email = ''b''\<rparr>],
     t_members := [\<lparr>mb_user = 1, mb_ws = ''w'', mb_role = Owner\<rparr>, \<lparr>mb_user = 2, mb_ws = ''w'', mb_role = Editor\<rparr>],
     t_comments := [talk_comment]\<rparr>"

definition talk_reply :: comment_request where
  "talk_reply = \<lparr>cr_ws = ''w'', cr_table = ''t'', cr_record = ''r1'', cr_author = 2, cr_body = ''answer'', cr_mentions = [PInt 1, PInt 2],
     cr_parent = Some ''c1'', cr_client = Some ''k''\<rparr>"

theorem comment_threads_kept_witness:
  "comments_ok (work (snd (create_comment talk_reply (session_of talk_tables))))
   \<and> length (t_mentions (work (snd (create_comment talk_reply (session_of talk_tables))))) = 2"
proof -
  have "comments_ok (work (session_of talk_tables))" "comments_ok (committed (session_of talk_tables))"
    by (simp_all add: session_of_def comments_ok_def threads_ok_def wf_comments_def wf_mentions_def talk_tables_def talk_comment_def empty_tables_def)
  note kept = comment_threads_kept[OF this, of "create_comment talk_reply" talk_reply "''c1''" "Remove 1 ''read'' None"
      "fst (create_comment talk_reply (session_of talk_tables))" "snd (create_comment talk_reply (session_of talk_tables))"]
  have "length (t_mentions (work (snd (create_comment talk_reply (session_of talk_tables))))) = 2" by code_simp
  then show ?thesis using kept by simp
qed

theorem stale_change_refused_witness:
  "\<exists>e. change_comment ''c1'' (Remove 1 ''read'' (Some 1)) (snd (change_comment ''c1'' (Edit 1 ''read'' ''second'' [] (Some 1)) (session_of talk_tables)))
      = (Inl e, snd (change_comment ''c1'' (Edit 1 ''read'' ''second'' [] (Some 1)) (session_of talk_tables)))
    \<and> exn_class e \<in> {CollaborationConflictError, CollaborationNotFoundError}"
proof -
  let ?r = "change_comment ''c1'' (Edit 1 ''read'' ''second'' [] (Some 1)) (session_of talk_tables)"
  have "isl (fst ?r) = False" by code_simp
  then obtain v where "fst ?r = Inr v" by (cases "fst ?r") auto
  then have run: "?r = (Inr v, snd ?r)" by (metis prod.collapse)
  have f: "find_comment (work (session_of talk_tables)) ''c1'' = Some talk_comment" by code_simp
  have "change_terms (Remove 1 ''read'' (Some 1)) = (1, ''read'', Some (or_zero (cm_revision talk_comment) 1))" "cm_author talk_comment = Some 1" by code_simp+
  then show ?thesis using stale_change_refused[OF run f] by blast
qed

theorem create_comment_repeats_witness:
  "create_comment talk_reply (snd (create_comment talk_reply (session_of talk_tables)))
     = (fst (create_comment talk_reply (session_of talk_tables)), snd (create_comment talk_reply (session_of talk_tables)))
   \<and> (\<exists>msg. create_comment (talk_reply\<lparr>cr_record := ''r2''\<rparr>) (snd (create_comment talk_reply (session_of talk_tables)))
     = (Inl (Exn CollaborationConflictError msg), snd (create_comment talk_reply (session_of talk_tables))))"
proof -
  let ?r = "create_comment talk_reply (session_of talk_tables)"
  have "isl (fst ?r) = False" by code_simp
  then obtain v where v: "fst ?r = Inr v" by (cases "fst ?r") auto
  then have run: "?r = (Inr v, snd ?r)" by (metis prod.collapse)
  have b: "sanitize_markdown (cr_body (talk_reply\<lparr>cr_record := ''r2''\<rparr>)) = Inr ''answer''" by code_simp
  have "create_comment talk_reply (snd ?r) = (Inr v, snd ?r)
    \<and> ((cr_table (talk_reply\<lparr>cr_record := ''r2''\<rparr>), cr_record (talk_reply\<lparr>cr_record := ''r2''\<rparr>), cr_parent (talk_reply\<lparr>cr_record := ''r2''\<rparr>), Inr ''answer'')
        \<noteq> (cr_table talk_reply, cr_record talk_reply, cr_parent talk_reply, sanitize_markdown (cr_body talk_reply))
      \<longrightarrow> (\<exists>msg. create_comment (talk_reply\<lparr>cr_record := ''r2''\<rparr>) (snd ?r) = (Inl (Exn CollaborationConflictError msg), snd ?r)))"
    by (rule create_comment_repeats[OF run _ _ _ _ _ _ b, of "''k''"]) (simp_all add: talk_reply_def)
  then show ?thesis using v by (simp add: talk_reply_def)
qed

text \<open>A client id longer than its column is stored cut off and looked up whole, so its retry is refused by
  the unique key; and a body that is edited as it was stored is escaped again.\<close>

definition long_reply :: comment_request where
  "long_reply = talk_reply\<lparr>cr_mentions := [], cr_client := Some (replicate 129 (CHR ''k''))\<rparr>"

lemma long_client_id_retry:
  "(let (r, s) = create_comment long_reply (session_of talk_tables) in (isl r, exn_class (projl (fst (create_comment long_reply s))))) = (False, IntegrityError)"
  by code_simp

lemma stored_body_escaped_again:
  "sanitize_markdown ''a & b'' = Inr ''a &amp; b''" "sanitize_markdown ''a &amp; b'' = Inr ''a &amp;amp; b''"
  by code_simp+

end
