(* ===== verification/NoteProps.thy ===== *)
theory NoteProps
  imports CollabProps
begin

text \<open>
  What the notification centre guarantees: a reader without access learns nothing, the pages of the
  activity of a record cover it, and the repair of assignments returns and leaves none out.
\<close>

declare split_paired_All [simp del] split_paired_Ex [simp del]

section \<open>Readers without access\<close>

lemma hidden_view:
  assumes "nt_recipient n = u" "nt_table n = Some tb" "tb \<noteq> []" "nt_record n = Some rc" "rc \<noteq> []" "\<not> fst (record_visibility t u tb rc)"
  shows "serialize_notification t u n = Inr (inaccessible_view (base_view t n))"
  using assms by (auto simp: serialize_notification_def nonempty_text_def Let_def split: prod.splits bool.splits option.splits)

text \<open>C26: Losing access leaks nothing. When the recipient of a notification about a record may not see the
  record, because it is gone, the table is not readable or the row policy hides it, what the
  notification shows is the same in any two databases that agree on the users and in both of which
  it is hidden, whatever the record, its title, the comment, the table and the stored payload are: it is
  marked inaccessible, with no link and no payload.\<close>
theorem lost_access_leaks_nothing:
  assumes "nt_recipient n = u" "nt_table n = Some tb" "tb \<noteq> []" "nt_record n = Some rc" "rc \<noteq> []"
    "\<not> fst (record_visibility t u tb rc)" "\<not> fst (record_visibility t' u tb rc)" "t_users t' = t_users t" "n' = n\<lparr>nt_payload := d\<rparr>"
  shows "serialize_notification t' u n' = serialize_notification t u n
    \<and> (\<exists>v. serialize_notification t u n = Inr v \<and> \<not> nv_accessible v \<and> nv_link v = None \<and> nv_payload v = [])"
proof -
  have "actor_of t' = actor_of t" by (rule ext) (simp add: actor_of_def select_first_def assms(8) split: option.split)
  then have "inaccessible_view (base_view t' n') = inaccessible_view (base_view t n)"
    by (simp add: inaccessible_view_def base_view_def assms(9))
  moreover have "serialize_notification t' u n' = Inr (inaccessible_view (base_view t' n'))"
    using assms by (intro hidden_view) simp_all
  ultimately show ?thesis using hidden_view[OF assms(1-6)] by (simp add: inaccessible_view_def)
qed

section \<open>Pages of the activity\<close>

text \<open>The entries of the record in a part of the log.\<close>

definition entries :: "(change_item \<times> change_set \<Rightarrow> activity_entry option) \<Rightarrow> (change_item \<times> change_set) list \<Rightarrow> activity_entry list" where
  "entries entry rows = List.map_filter entry rows"

lemma entries_simps [simp]:
  "entries e [] = []" "entries e (r # rs) = (case e r of None \<Rightarrow> entries e rs | Some x \<Rightarrow> x # entries e rs)"
  "entries e (xs @ ys) = entries e xs @ entries e ys"
  by (auto simp: entries_def List.map_filter_def split: option.splits)

lemma scan_rows_entries:
  assumes "length visible < safe" "scan_rows entry safe scanned visible processed rows = (visible', processed')"
  shows "visible' = visible @ entries entry (take (processed' - processed) rows) \<and> processed \<le> processed'
    \<and> processed' - processed \<le> length rows \<and> length visible' \<le> safe"
  using assms
proof (induction rows arbitrary: scanned visible processed)
  case Nil
  then show ?case by auto
next
  case (Cons r rs)
  have step: "visible' = w @ entries entry (take (processed' - Suc processed) rs) \<and> Suc processed \<le> processed'
      \<and> processed' - Suc processed \<le> length rs \<and> length visible' \<le> safe"
    if "scan_rows entry safe (Suc scanned) w (Suc processed) rs = (visible', processed')" "length w < safe" for w
    using Cons.IH[OF that(2,1)] .
  have take: "take (processed' - processed) (r # rs) = r # take (processed' - Suc processed) rs" if "Suc processed \<le> processed'"
    using that by (simp add: Suc_diff_le take_Cons')
  show ?case
  proof (cases "entry r")
    case None
    then have "scan_rows entry safe (Suc scanned) visible (Suc processed) rs = (visible', processed')" using Cons.prems(2) by simp
    from step[OF this Cons.prems(1)] show ?thesis using take None by auto
  next
    case (Some e)
    show ?thesis
    proof (cases "length (visible @ [e]) \<ge> safe \<or> Suc scanned \<ge> activity_scan_cap")
      case True
      then have "visible' = visible @ [e]" "processed' = Suc processed" using Cons.prems(2) Some by auto
      then show ?thesis using Cons.prems(1) Some by auto
    next
      case False
      then have "scan_rows entry safe (Suc scanned) (visible @ [e]) (Suc processed) rs = (visible', processed')" using Cons.prems(2) Some by simp
      moreover have "length (visible @ [e]) < safe" using False by auto
      ultimately show ?thesis using step[of "visible @ [e]"] take Some by auto
    qed
  qed
qed

declare scan_batches.simps [simp del]

lemma scan_batches_entries:
  assumes "scan = scan_batches entry safe batch changes visible off scanned has_more" "0 < batch" "length visible \<le> safe" "off \<le> length changes"
    "has_more \<or> off = length changes \<or> (length visible < safe \<and> scanned < activity_scan_cap)"
  shows "as_visible scan = visible @ entries entry (take (as_offset scan - off) (drop off changes)) \<and> off \<le> as_offset scan
    \<and> as_offset scan \<le> length changes \<and> length (as_visible scan) \<le> safe \<and> as_scanned scan = scanned + (as_offset scan - off)
    \<and> (\<not> as_more scan \<longrightarrow> as_offset scan = length changes)
    \<and> (length visible < safe \<and> scanned < activity_scan_cap \<and> off < length changes \<longrightarrow> off < as_offset scan)"
  using assms
proof (induction entry safe batch changes visible off scanned has_more arbitrary: scan rule: scan_batches.induct)
  case (1 entry safe batch changes visible off scanned has_more)
  show ?case
  proof (cases "length visible < safe \<and> scanned < activity_scan_cap")
    case False
    then have "scan = \<lparr>as_visible = visible, as_offset = off, as_scanned = scanned, as_more = has_more\<rparr>"
      using "1.prems"(1) by (simp add: scan_batches.simps)
    then show ?thesis using "1.prems"(3-5) False by auto
  next
    case go: True
    let ?rows = "take batch (drop off changes)"
    show ?thesis
    proof (cases "?rows = []")
      case True
      then have "scan = \<lparr>as_visible = visible, as_offset = off, as_scanned = scanned, as_more = False\<rparr>" "off = length changes"
        using "1.prems"(1,2,4) go by (auto simp: scan_batches.simps)
      then show ?thesis using "1.prems"(3) by simp
    next
      case rows: False
      obtain v p where vp: "scan_rows entry safe scanned visible 0 ?rows = (v, p)" by force
      have v: "v = visible @ entries entry (take p ?rows)" "p \<le> length ?rows" "length v \<le> safe"
        using scan_rows_entries[OF _ vp] go by auto
      have p: "0 < p" using scan_rows_processed(2)[OF rows, of 0 entry safe scanned visible] vp by simp
      have tk: "take p ?rows = take p (drop off changes)" using v(2) by simp
      have le: "off + p \<le> length changes" using v(2) "1.prems"(4) by auto
      have unf: "scan = (if p < length ?rows then \<lparr>as_visible = v, as_offset = off + p, as_scanned = scanned + p, as_more = True\<rparr>
          else if length ?rows < batch then \<lparr>as_visible = v, as_offset = off + p, as_scanned = scanned + p, as_more = False\<rparr>
          else scan_batches entry safe batch changes v (off + p) (scanned + p) True)"
        using "1.prems"(1)[unfolded scan_batches.simps[of entry safe batch changes visible off scanned has_more]] go rows
        by (simp only: Let_def vp fst_conv snd_conv if_True if_False simp_thms)
      show ?thesis
      proof (cases "p < length ?rows \<or> length ?rows < batch")
        case True
        then have "scan = \<lparr>as_visible = v, as_offset = off + p, as_scanned = scanned + p, as_more = (p < length ?rows)\<rparr>"
          unfolding unf by (auto simp del: length_take)
        moreover have "off + p = length changes" if "\<not> p < length ?rows" using that True v(2) "1.prems"(4) by auto
        ultimately show ?thesis using v(1,3) tk le p by simp
      next
        case False
        then have scan: "scan = scan_batches entry safe batch changes v (off + p) (scanned + p) True"
          unfolding unf by (auto simp del: length_take)
        have nn: "\<not> \<not> (length visible < safe \<and> scanned < activity_scan_cap)" "\<not> snd (v, p) < length ?rows" "\<not> length ?rows < batch"
          using go False by auto
        have ih: "as_visible scan = v @ entries entry (take (as_offset scan - (off + p)) (drop (off + p) changes)) \<and> off + p \<le> as_offset scan
            \<and> as_offset scan \<le> length changes \<and> length (as_visible scan) \<le> safe \<and> as_scanned scan = scanned + p + (as_offset scan - (off + p))
            \<and> (\<not> as_more scan \<longrightarrow> as_offset scan = length changes)"
          using "1.IH"[OF nn(1) refl rows vp[symmetric] refl nn(2,3), of scan, unfolded fst_conv snd_conv, OF scan "1.prems"(2) v(3) le] by blast
        define k where "k = as_offset scan - (off + p)"
        have k: "as_offset scan = off + p + k" using ih by (simp add: k_def)
        have "take (p + k) (drop off changes) = take p (drop off changes) @ take k (drop (off + p) changes)"
          by (simp only: take_add[of p k] drop_drop add.commute[of p off])
        then show ?thesis using ih v(1) tk p unfolding k by (elim conjE, intro conjI) simp_all
      qed
    qed
  qed
qed

lemma safe_limit_positive: "0 < safe_limit n"
  by (simp add: safe_limit_def max_page_size_def)

lemma activity_scan_entries:
  fixes t tb rc safe off
  defines "changes \<equiv> activity_log tb t" and "entry \<equiv> activity_entry_of (semantic_fields (get_task_profile_record t tb)) rc"
  assumes "scan = activity_scan_of t tb rc safe off" "0 < safe"
  shows "as_visible scan = entries entry (take (as_scanned scan) (drop off changes)) \<and> length (as_visible scan) \<le> safe
    \<and> as_offset scan = off + as_scanned scan \<and> (as_more scan \<longrightarrow> 0 < as_scanned scan) \<and> (\<not> as_more scan \<longrightarrow> drop (as_offset scan) changes = [])"
proof (cases "off < length changes")
  case True
  have cap: "0 < activity_scan_cap" by (simp add: activity_scan_cap_def)
  have s: "scan = scan_batches entry safe (min 300 (max 100 (safe * 8))) changes [] off 0 False"
    using assms(3) by (simp add: activity_scan_of_def changes_def entry_def)
  have pre: "0 < min 300 (max 100 (safe * 8))" "length ([] :: activity_entry list) \<le> safe" "off \<le> length changes"
    "False \<or> off = length changes \<or> length ([] :: activity_entry list) < safe \<and> 0 < activity_scan_cap"
    using True cap assms(4) by simp_all
  show ?thesis using scan_batches_entries[OF s pre] True cap assms(4) by (elim conjE, intro conjI) simp_all
next
  case False
  then have "scan = \<lparr>as_visible = [], as_offset = off, as_scanned = 0, as_more = False\<rparr>"
    using assms(3,4) by (simp add: activity_scan_of_def scan_batches.simps activity_scan_cap_def changes_def)
  then show ?thesis using False by simp
qed

text \<open>C28: The pages of an activity cover it. A page of the activity of a record holds, in the order of the
  log, exactly the entries of that record among the rows scanned, at most the limit asked for; if
  there may be more, some row was scanned and the cursor of the page continues after the last one (up to
  the largest offset a cursor may have, past which it is refused); if not, nothing of the log is left.\<close>
theorem activity_pages_cover:
  assumes "list_record_activity cc t tb rc cursor n = Inr page" "decode_offset_cursor cc cursor = Inr off"
    "\<And>k. cc_read cc (cc_text cc (offset_json k)) = Some (PDict [(''o'', PInt k)])" "\<And>k. cc_text cc (offset_json k) \<noteq> []"
  shows "\<exists>item. collab_table_item t tb = Inr item
    \<and> ap_items page = map (activity_payload t item rc) (entries (activity_entry_of (semantic_fields (get_task_profile_record t tb)) rc)
        (take (ap_scanned page) (drop off (activity_log tb t))))
    \<and> length (ap_items page) \<le> safe_limit n
    \<and> (if ap_more page
       then 0 < ap_scanned page \<and> (\<exists>c. ap_next page = Some c
         \<and> (if off + ap_scanned page \<le> nat max_cursor_offset then decode_offset_cursor cc (Some c) = Inr (off + ap_scanned page)
            else \<exists>e. decode_offset_cursor cc (Some c) = Inl e))
       else ap_next page = None \<and> drop (off + ap_scanned page) (activity_log tb t) = [])"
proof -
  define scan where "scan = activity_scan_of t tb rc (safe_limit n) off"
  obtain item where item: "collab_table_item t tb = Inr item" and page: "page = \<lparr>ap_items = map (activity_payload t item rc) (take (safe_limit n) (as_visible scan)),
      ap_more = as_more scan, ap_next = (if as_more scan then Some (encode_offset_cursor cc (int (as_offset scan))) else None), ap_scanned = as_scanned scan\<rparr>"
    using assms(1,2) by (auto simp: list_record_activity_def bind_res_Inr Let_def scan_def)
  note e = activity_scan_entries[OF scan_def safe_limit_positive]
  have dec: "decode_offset_cursor cc (Some (encode_offset_cursor cc (int k)))
      = (if int k > max_cursor_offset then collab_error ''Cursor is outside the supported window'' else Inr k)" for k
    by (simp add: decode_offset_cursor_def encode_offset_cursor_def assms(3,4) dget_default_def dhas_def dget_def)
  have "if off + as_scanned scan \<le> nat max_cursor_offset
     then decode_offset_cursor cc (Some (encode_offset_cursor cc (int (as_offset scan)))) = Inr (off + as_scanned scan)
     else \<exists>e. decode_offset_cursor cc (Some (encode_offset_cursor cc (int (as_offset scan)))) = Inl e"
    using e dec[of "off + as_scanned scan"] by (simp add: max_cursor_offset_def del: of_nat_add)
  then show ?thesis using item e by (intro exI[of _ item]) (auto simp: page)
qed

section \<open>The repair of assignments\<close>

text \<open>Only notifications of assignments to one user were added.\<close>

definition noted :: "int \<Rightarrow> session \<Rightarrow> notification list \<Rightarrow> session \<Rightarrow> bool" where
  "noted u s xs s' \<longleftrightarrow> work s' = t_notes_update (\<lambda>ns. ns @ xs) (work s) \<and> committed s' = committed s
     \<and> (\<forall>n\<in>set xs. nt_recipient n = u \<and> nt_type n = ''task_assigned'')"

lemma noted_refl: "noted u s [] s" by (simp add: noted_def)

lemma noted_trans: "noted u s xs s1 \<Longrightarrow> noted u s1 ys s2 \<Longrightarrow> noted u s (xs @ ys) s2"
  by (auto simp: noted_def)

lemma noted_queries:
  assumes "noted u s xs s'"
  shows "assignment_history tb (work s') = assignment_history tb (work s)" "workspace_members_by_id (work s') ws ids = workspace_members_by_id (work s) ws ids"
    "get_effective_permission_for_item (work s') v i = get_effective_permission_for_item (work s) v i"
    "tables_with_profiles (work s') = tables_with_profiles (work s)" "set (t_notes (work s)) \<subseteq> set (t_notes (work s'))"
  using assms by (simp_all add: noted_def assignment_history_def applied_changes_def select_def workspace_members_by_id_def
      get_effective_permission_for_item_def select_first_def get_workspace_member_def chain_overrides_def tables_with_profiles_def cong: option.case_cong split: option.split)

text \<open>A change that the history of a table says the user should know of, and that the user does.\<close>

definition concerns :: "string \<Rightarrow> int \<Rightarrow> change_item \<times> change_set \<Rightarrow> bool" where
  "concerns field u = (\<lambda>(i, c). u \<in> set (newly_assigned field i) \<and> cs_actor c \<noteq> Some u)"

definition known :: "int \<Rightarrow> tables \<Rightarrow> change_item \<times> change_set \<Rightarrow> bool" where
  "known u t = (\<lambda>(i, c). \<exists>n\<in>set (t_notes t). nt_recipient n = u \<and> nt_dedupe n \<in> {assignment_key c i u, take 191 (assignment_key c i u)})"

lemma known_mono: "known u t r \<Longrightarrow> set (t_notes t) \<subseteq> set (t_notes t') \<Longrightarrow> known u t' r"
  by (auto simp: known_def)

lemma replay_run:
  assumes "replay_change item field u row s = (r, s')"
  shows "\<exists>xs. noted u s xs s' \<and> (\<forall>ys. r = Inr ys \<longrightarrow> ys = xs \<and> (concerns field u row \<longrightarrow> known u (work s') row))"
proof (cases "concerns field u row")
  case False
  then show ?thesis using assms by (auto simp: replay_change_def concerns_def op_eval intro!: exI[of _ "[]"] noted_refl split: prod.splits)
next
  case True
  obtain i c where row: "row = (i, c)" by (cases row)
  obtain q s1 where st: "stage_notification (assignment_note item (i, c) u) s = (q, s1)" by force
  have run: "(r, s') = (case q of Inl e \<Rightarrow> (Inl e, s1) | Inr x \<Rightarrow> (Inr (created_of [x]), s1))"
    using assms True st by (simp add: replay_change_def concerns_def row op_eval split: sum.splits)
  show ?thesis using st
  proof (cases rule: stage_cases)
    case (staged n)
    then show ?thesis using run row
      by (intro exI[of _ "[n]"]) (auto simp: noted_def known_def created_of_def assignment_note_def strip_def py_space_def)
  next
    case (found n)
    then show ?thesis using run row
      by (intro exI[of _ "[]"]) (auto simp: noted_def known_def created_of_def assignment_note_def)
  next
    case (failed e)
    then show ?thesis using run by (intro exI[of _ "[]"]) (auto simp: noted_def)
  qed
qed

lemma replays_run:
  assumes "map_op (replay_change item field u) rows s = (r, s')"
  shows "\<exists>xs. noted u s xs s' \<and> (\<forall>ys. r = Inr ys \<longrightarrow> concat ys = xs \<and> (\<forall>row\<in>set rows. concerns field u row \<longrightarrow> known u (work s') row))"
  using assms
proof (induction rows arbitrary: s r s')
  case Nil
  then show ?case by (auto simp: op_eval intro: noted_refl)
next
  case (Cons row rows)
  obtain q s1 where one: "replay_change item field u row s = (q, s1)" by force
  then obtain xs where xs: "noted u s xs s1" "\<forall>ys. q = Inr ys \<longrightarrow> ys = xs \<and> (concerns field u row \<longrightarrow> known u (work s1) row)"
    using replay_run[OF one] by blast
  show ?case
  proof (cases q)
    case (Inl e)
    then show ?thesis using Cons.prems one xs(1) by (auto simp: op_eval)
  next
    case (Inr y)
    obtain p s2 where more: "map_op (replay_change item field u) rows s1 = (p, s2)" by force
    from Cons.IH[OF this] obtain zs where zs: "noted u s1 zs s2"
      "\<forall>ys. p = Inr ys \<longrightarrow> concat ys = zs \<and> (\<forall>row\<in>set rows. concerns field u row \<longrightarrow> known u (work s2) row)" by blast
    have run: "(r, s') = (case p of Inl e \<Rightarrow> (Inl e, s2) | Inr ys \<Rightarrow> (Inr (y # ys), s2))"
      using Cons.prems one more Inr by (cases p) (auto simp: op_eval)
    have "known u (work s2) row" if "concerns field u row"
      using xs(2) Inr that known_mono noted_queries(5)[OF zs(1)] by blast
    moreover have "noted u s (xs @ zs) s'" using run noted_trans[OF xs(1) zs(1)] by (cases p) auto
    moreover have "concat ws = xs @ zs \<and> (\<forall>row\<in>set rows. concerns field u row \<longrightarrow> known u (work s') row) \<and> s' = s2" if "r = Inr ws" for ws
      using that run zs(2) xs(2) Inr by (cases p) auto
    ultimately show ?thesis by (intro exI[of _ "xs @ zs"]) auto
  qed
qed

lemma repair_pages_run:
  "\<exists>r s' xs. repair_pages item field u off created s = Some (r, s') \<and> noted u s xs s'
    \<and> (\<forall>ys. r = Inr ys \<longrightarrow> ys = created @ xs \<and> (\<forall>row\<in>set (drop off (assignment_history (itm_id item) (work s))). concerns field u row \<longrightarrow> known u (work s') row))"
proof (induction "length (assignment_history (itm_id item) (work s)) - off" arbitrary: off created s rule: less_induct)
  case less
  let ?h = "assignment_history (itm_id item) (work s)"
  let ?rows = "take assignment_repair_batch_size (drop off ?h)"
  note step = repair_pages.simps[of item field u off created s]
  show ?case
  proof (cases "?rows = []")
    case True
    then have "drop off ?h = []" by (auto simp: assignment_repair_batch_size_def)
    then show ?thesis using noted_refl[of u s] by (auto simp: step)
  next
    case rows: False
    obtain q s1 where m: "map_op (replay_change item field u) ?rows s = (q, s1)" by force
    then obtain xs where xs: "noted u s xs s1"
      "\<forall>ys. q = Inr ys \<longrightarrow> concat ys = xs \<and> (\<forall>row\<in>set ?rows. concerns field u row \<longrightarrow> known u (work s1) row)" using replays_run[OF m] by blast
    show ?thesis
    proof (cases q)
      case (Inl e)
      then have "repair_pages item field u off created s = Some (Inl e, s1)" using step rows m by (simp add: Let_def)
      then show ?thesis using xs(1) by blast
    next
      case (Inr ys)
      show ?thesis
      proof (cases "length ?rows < assignment_repair_batch_size")
        case True
        then have "?rows = drop off ?h" by auto
        moreover have "repair_pages item field u off created s = Some (Inr (created @ concat ys), s1)"
          by (simp only: step Let_def rows m Inr True if_True if_False prod.case sum.case)
        ultimately show ?thesis using xs Inr by auto
      next
        case False
        have next_page: "repair_pages item field u off created s = repair_pages item field u (off + length ?rows) (created @ concat ys) s1"
          by (simp only: step Let_def rows m Inr False if_True if_False prod.case sum.case)
        have h: "assignment_history (itm_id item) (work s1) = ?h" by (rule noted_queries(1)[OF xs(1)])
        have "length ?h - (off + length ?rows) < length ?h - off" using rows by auto
        then obtain r s' zs where ih: "repair_pages item field u (off + length ?rows) (created @ concat ys) s1 = Some (r, s')" "noted u s1 zs s'"
          "\<forall>w. r = Inr w \<longrightarrow> w = (created @ concat ys) @ zs \<and> (\<forall>row\<in>set (drop (off + length ?rows) ?h). concerns field u row \<longrightarrow> known u (work s') row)"
          using less[of s1 "off + length ?rows" "created @ concat ys"] unfolding h by blast
        have "set (drop off ?h) = set ?rows \<union> set (drop (off + length ?rows) ?h)"
        proof -
          have "drop off ?h = ?rows @ drop (length ?rows) (drop off ?h)" by (metis append_take_drop_id length_take min.cobounded2 take_all_iff linear min_def)
          then have "set (drop off ?h) = set ?rows \<union> set (drop (length ?rows) (drop off ?h))" by (metis set_append)
          then show ?thesis by (simp add: add.commute)
        qed
        moreover have "known u (work s') row" if "row \<in> set ?rows" "concerns field u row" for row
          using xs(2) Inr that known_mono noted_queries(5)[OF ih(2)] by blast
        ultimately show ?thesis using ih noted_trans[OF xs(1) ih(2)] xs(2) Inr next_page
          by (intro exI[of _ r] exI[of _ s'] exI[of _ "xs @ zs"]) auto
      qed
    qed
  qed
qed

text \<open>The field of the assignee in a profile; what the repair of a table has to make known.\<close>

definition assignee_field :: "task_profile \<Rightarrow> string" where
  "assignee_field p = strip (py_str (py_or (dget (tpf_config p) ''assigneeFieldId'') (PStr [])))"

definition assigned :: "int \<Rightarrow> tables \<Rightarrow> workspace_item \<times> task_profile \<Rightarrow> change_item \<times> change_set \<Rightarrow> bool" where
  "assigned u t = (\<lambda>(item, p) row. permission_allows (get_effective_permission_for_item t u (itm_id item)) ''read''
     \<and> assignee_field p \<noteq> [] \<and> u \<in> usr_id ` set (workspace_members_by_id t (itm_ws item) [u])
     \<and> row \<in> set (assignment_history (itm_id item) t) \<and> concerns (assignee_field p) u row)"

lemma assigned_noted: "noted u s xs s' \<Longrightarrow> assigned u (work s') = assigned u (work s)"
  by (rule ext)+ (simp add: assigned_def noted_queries split: prod.split)

lemma repair_one_run:
  "\<exists>r s' xs. repair_one u ip s = Some (r, s') \<and> noted u s xs s'
    \<and> (\<forall>ys. r = Inr ys \<longrightarrow> ys = xs \<and> (\<forall>row. assigned u (work s) ip row \<longrightarrow> known u (work s') row))"
proof (cases ip)
  case (Pair item p)
  show ?thesis
  proof (cases "permission_allows (get_effective_permission_for_item (work s) u (itm_id item)) ''read'' \<and> assignee_field p \<noteq> []
      \<and> u \<in> usr_id ` set (workspace_members_by_id (work s) (itm_ws item) [u])")
    case False
    then have "repair_one u ip s = Some (Inr [], s)" by (auto simp: Pair repair_one_def repair_table_for_user_def assignee_field_def Let_def)
    then show ?thesis using False noted_refl by (auto simp: Pair assigned_def)
  next
    case True
    then have "repair_one u ip s = repair_pages item (assignee_field p) u 0 [] s"
      by (simp add: Pair repair_one_def repair_table_for_user_def assignee_field_def Let_def)
    moreover obtain r s' xs where "repair_pages item (assignee_field p) u 0 [] s = Some (r, s')" "noted u s xs s'"
      "\<forall>ys. r = Inr ys \<longrightarrow> ys = xs \<and> (\<forall>row\<in>set (assignment_history (itm_id item) (work s)). concerns (assignee_field p) u row \<longrightarrow> known u (work s') row)"
      using repair_pages_run[of item "assignee_field p" u 0 "[]" s] by auto
    ultimately show ?thesis by (intro exI[of _ r] exI[of _ s'] exI[of _ xs]) (simp add: Pair assigned_def)
  qed
qed

lemma repair_tables_run:
  "\<exists>r s' xs. repair_tables u ips created s = Some (r, s') \<and> noted u s xs s'
    \<and> (\<forall>ys. r = Inr ys \<longrightarrow> ys = created @ xs \<and> (\<forall>ip\<in>set ips. \<forall>row. assigned u (work s) ip row \<longrightarrow> known u (work s') row))"
proof (induction ips arbitrary: created s)
  case Nil
  then show ?case using noted_refl by auto
next
  case (Cons ip ips)
  obtain q s1 xs where one: "repair_one u ip s = Some (q, s1)" "noted u s xs s1"
    "\<forall>ys. q = Inr ys \<longrightarrow> ys = xs \<and> (\<forall>row. assigned u (work s) ip row \<longrightarrow> known u (work s1) row)" using repair_one_run by blast
  show ?case
  proof (cases q)
    case (Inl e)
    then show ?thesis using one by auto
  next
    case (Inr ys)
    obtain r s' zs where more: "repair_tables u ips (created @ ys) s1 = Some (r, s')" "noted u s1 zs s'"
      "\<forall>w. r = Inr w \<longrightarrow> w = (created @ ys) @ zs \<and> (\<forall>ip\<in>set ips. \<forall>row. assigned u (work s1) ip row \<longrightarrow> known u (work s') row)"
      using Cons.IH by blast
    have "known u (work s') row" if "assigned u (work s) ip row" for row
      using one(3) Inr that known_mono noted_queries(5)[OF more(2)] by blast
    then show ?thesis using more one Inr noted_trans[OF one(2) more(2)] assigned_noted[OF one(2)]
      by (intro exI[of _ r] exI[of _ s'] exI[of _ "xs @ zs"]) auto
  qed
qed

subsection \<open>A second repair\<close>

lemma replay_known:
  assumes "\<And>i c. row = (i, c) \<Longrightarrow> concerns field u row \<Longrightarrow> length (assignment_key c i u) \<le> 191" "concerns field u row \<Longrightarrow> known u (work s) row"
  shows "replay_change item field u row s = (Inr [], s)"
proof (cases "concerns field u row")
  case False
  then show ?thesis by (auto simp: replay_change_def concerns_def op_eval split: prod.split)
next
  case True
  obtain i c where row: "row = (i, c)" by (cases row)
  let ?q = "assignment_note item (i, c) u"
  have "assignment_key c i u = take 191 (assignment_key c i u)" using assms(1)[OF row True] by simp
  then obtain n where "n \<in> set (t_notes (work s))" "nt_recipient n = nq_recipient ?q" "nt_dedupe n = nq_dedupe ?q"
    using assms(2)[OF True] by (auto simp: known_def row assignment_note_def)
  then obtain m where "select_first t_notes (\<lambda>n. nt_recipient n = nq_recipient ?q \<and> nt_dedupe n = nq_dedupe ?q) (work s) = Some m"
    by (cases "find (\<lambda>n. nt_recipient n = nq_recipient ?q \<and> nt_dedupe n = nq_dedupe ?q) (t_notes (work s))")
      (auto simp: select_first_def find_None_iff)
  moreover have "strip (nq_type ?q) \<in> set notification_types" by (simp add: assignment_note_def notification_types_def strip_def py_space_def)
  ultimately have "stage_notification ?q s = (Inr (m, False), s)" by (simp add: stage_notification_def op_eval Let_def)
  then show ?thesis using True by (simp add: replay_change_def concerns_def row op_eval created_of_def)
qed

lemma replays_known:
  assumes "\<And>row. row \<in> set rows \<Longrightarrow> replay_change item field u row s = (Inr [], s)"
  shows "\<exists>ys. map_op (replay_change item field u) rows s = (Inr ys, s) \<and> concat ys = []"
  using assms
proof (induction rows)
  case (Cons row rows)
  then obtain ys where "map_op (replay_change item field u) rows s = (Inr ys, s)" "concat ys = []" by auto
  then show ?case using Cons.prems[of row] by (auto simp: op_eval)
qed (simp add: op_eval)

lemma repair_pages_known:
  assumes "\<And>row. row \<in> set (assignment_history (itm_id item) (work s)) \<Longrightarrow> replay_change item field u row s = (Inr [], s)"
  shows "repair_pages item field u off created s = Some (Inr created, s)"
proof (induction "length (assignment_history (itm_id item) (work s)) - off" arbitrary: off rule: less_induct)
  case less
  let ?rows = "take assignment_repair_batch_size (drop off (assignment_history (itm_id item) (work s)))"
  note step = repair_pages.simps[of item field u off created s]
  show ?case
  proof (cases "?rows = []")
    case True
    then show ?thesis by (simp add: step)
  next
    case False
    have "\<exists>ys. map_op (replay_change item field u) ?rows s = (Inr ys, s) \<and> concat ys = []"
      by (rule replays_known, rule assms) (meson in_set_dropD in_set_takeD)
    then obtain ys where ys: "map_op (replay_change item field u) ?rows s = (Inr ys, s)" "concat ys = []" by blast
    have "length (assignment_history (itm_id item) (work s)) - (off + length ?rows) < length (assignment_history (itm_id item) (work s)) - off"
      using False by auto
    then have "repair_pages item field u (off + length ?rows) created s = Some (Inr created, s)" by (rule less)
    then show ?thesis by (simp only: step Let_def False ys append_Nil2 if_False prod.case sum.case if_cancel)
  qed
qed

lemma repair_tables_known:
  assumes "\<And>ip row. ip \<in> set ips \<Longrightarrow> assigned u (work s) ip row \<Longrightarrow> known u (work s) row"
    "\<And>ip i c. ip \<in> set ips \<Longrightarrow> assigned u (work s) ip (i, c) \<Longrightarrow> length (assignment_key c i u) \<le> 191"
  shows "repair_tables u ips created s = Some (Inr created, s)"
  using assms
proof (induction ips arbitrary: created)
  case (Cons ip ips)
  have "repair_one u ip s = Some (Inr [], s)"
  proof (cases ip)
    case (Pair item p)
    show ?thesis
    proof (cases "permission_allows (get_effective_permission_for_item (work s) u (itm_id item)) ''read'' \<and> assignee_field p \<noteq> []
        \<and> u \<in> usr_id ` set (workspace_members_by_id (work s) (itm_ws item) [u])")
      case False
      then show ?thesis by (auto simp: Pair repair_one_def repair_table_for_user_def assignee_field_def Let_def)
    next
      case True
      have "repair_pages item (assignee_field p) u 0 [] s = Some (Inr [], s)"
      proof (rule repair_pages_known, rule replay_known)
        fix row
        assume row: "row \<in> set (assignment_history (itm_id item) (work s))" "concerns (assignee_field p) u row"
        then have a: "assigned u (work s) ip row" using True by (simp add: assigned_def Pair)
        then show "known u (work s) row" using Cons.prems(1)[of ip row] by simp
        show "length (assignment_key c i u) \<le> 191" if "row = (i, c)" for i c using Cons.prems(2)[of ip i c] a that by simp
      qed
      then show ?thesis using True by (simp add: Pair repair_one_def repair_table_for_user_def assignee_field_def Let_def)
    qed
  qed
  moreover have "repair_tables u ips created s = Some (Inr created, s)"
    by (rule Cons.IH) (blast intro: Cons.prems list.set_intros(2))+
  ultimately show ?case by simp
qed simp

text \<open>C27: The repair of assignments returns, is complete, and is done once. Whatever the database holds, the
  loops over the pages of the histories end; all that changes is that notifications of assignments to the
  user are added. When no error was raised, the number of them is returned, they are durable, and for
  every applied change in the history of a readable table that assigns the user as a current member, by
  somebody else, there is a notification; a second repair then adds nothing, if the keys of these
  assignments fit their column.\<close>
theorem repair_complete:
  "\<exists>r s' xs. repair_assignment_notifications_for_user u s = Some (r, s') \<and> work s' = t_notes_update (\<lambda>ns. ns @ xs) (work s)
    \<and> (\<forall>n\<in>set xs. nt_recipient n = u \<and> nt_type n = ''task_assigned'')
    \<and> (\<forall>k. r = Inr k \<longrightarrow> k = length xs \<and> (xs \<noteq> [] \<longrightarrow> committed s' = work s')
      \<and> (\<forall>ip\<in>set (tables_with_profiles (work s)). \<forall>row. assigned u (work s) ip row \<longrightarrow> known u (work s') row)
      \<and> ((\<forall>ip\<in>set (tables_with_profiles (work s)). \<forall>i c. assigned u (work s) ip (i, c) \<longrightarrow> length (assignment_key c i u) \<le> 191)
        \<longrightarrow> repair_assignment_notifications_for_user u s' = Some (Inr 0, s')))"
proof -
  let ?ips = "tables_with_profiles (work s)"
  obtain r s1 xs where run: "repair_tables u ?ips [] s = Some (r, s1)" "noted u s xs s1"
    "\<forall>ys. r = Inr ys \<longrightarrow> ys = xs \<and> (\<forall>ip\<in>set ?ips. \<forall>row. assigned u (work s) ip row \<longrightarrow> known u (work s1) row)"
    using repair_tables_run[of u ?ips "[]" s] by auto
  have w: "work s1 = t_notes_update (\<lambda>ns. ns @ xs) (work s)" "\<forall>n\<in>set xs. nt_recipient n = u \<and> nt_type n = ''task_assigned''"
    using run(2) by (simp_all add: noted_def)
  show ?thesis
  proof (cases r)
    case (Inl e)
    then show ?thesis using run(1) w
      by (intro exI[of _ "Inl e"] exI[of _ s1] exI[of _ xs]) (simp add: repair_assignment_notifications_for_user_def)
  next
    case (Inr ys)
    define s2 where "s2 = (if xs = [] then s1 else s1\<lparr>committed := work s1\<rparr>)"
    have s2: "work s2 = work s1" by (simp add: s2_def)
    have ended: "repair_assignment_notifications_for_user u s = Some (Inr (length xs), s2)"
      using run(1,3) Inr by (auto simp: repair_assignment_notifications_for_user_def op_eval s2_def)
    have same: "tables_with_profiles (work s2) = ?ips" "assigned u (work s2) = assigned u (work s)"
      using noted_queries(4)[OF run(2)] assigned_noted[OF run(2)] by (simp_all add: s2)
    have all: "known u (work s2) row" if "ip \<in> set ?ips" "assigned u (work s) ip row" for ip row
      using run(3) Inr that by (simp add: s2)
    have "repair_assignment_notifications_for_user u s2 = Some (Inr 0, s2)"
      if "\<forall>ip\<in>set ?ips. \<forall>i c. assigned u (work s) ip (i, c) \<longrightarrow> length (assignment_key c i u) \<le> 191"
    proof -
      have "repair_tables u ?ips [] s2 = Some (Inr [], s2)"
        by (rule repair_tables_known) (use all that in \<open>simp_all add: same\<close>)
      then show ?thesis by (simp add: repair_assignment_notifications_for_user_def same op_eval)
    qed
    moreover have "xs \<noteq> [] \<longrightarrow> committed s2 = work s2" by (simp add: s2_def)
    ultimately show ?thesis using ended w all
      by (intro exI[of _ "Inr (length xs)"] exI[of _ s2] exI[of _ xs]) (simp add: s2)
  qed
qed

section \<open>Witnesses\<close>

definition note_tables :: tables where
  "note_tables = talk_tables\<lparr>
     t_records := [\<lparr>rec_id = ''r1'', rec_table = ''t'', rec_data = [(''f'', PList [PInt 2])], rec_order = 0, rec_creator = Some 1, rec_version = 1\<rparr>],
     t_profiles := [\<lparr>tpf_table = ''t'', tpf_config = [(''assigneeFieldId'', PStr ''f'')], tpf_version = 1, tpf_user = None\<rparr>],
     t_sets := [\<lparr>cs_id = ''s1'', cs_ws = Some ''w'', cs_table = Some ''t'', cs_actor_type = ''user'', cs_actor = Some 1, cs_operation = ''update'',
        cs_source = None, cs_trace = None, cs_summary = '''', cs_status = ''applied'', cs_parent = None, cs_undone_at = None, cs_undone_by = None, cs_created = 9\<rparr>],
     t_changes := [\<lparr>ci_id = ''i1'', ci_set = ''s1'', ci_table = ''t'', ci_etype = ''record'', ci_entity = ''r1'', ci_before = Some [],
        ci_after = Some [(''f'', PList [PInt 2])], ci_bmeta = None, ci_ameta = None, ci_vbefore = None, ci_vafter = None, ci_changed = [''f''], ci_order = 0\<rparr>]\<rparr>"

definition hidden_note :: notification where
  "hidden_note = \<lparr>nt_id = ''n1'', nt_recipient = 3, nt_type = ''comment_mention'', nt_actor = Some 1, nt_ws = Some ''w'', nt_table = Some ''t'',
     nt_record = Some ''r1'', nt_comment = Some ''c1'', nt_event = ''s1'', nt_dedupe = ''k'', nt_payload = [(''secret'', PStr ''x'')], nt_created = 9, nt_read = None\<rparr>"

theorem lost_access_leaks_nothing_witness:
  "serialize_notification talk_tables 3 (hidden_note\<lparr>nt_payload := []\<rparr>) = serialize_notification note_tables 3 hidden_note
   \<and> \<not> fst (record_visibility note_tables 3 ''t'' ''r1'') \<and> fst (record_visibility note_tables 2 ''t'' ''r1'')"
proof -
  have h: "\<not> fst (record_visibility note_tables 3 ''t'' ''r1'')" "\<not> fst (record_visibility talk_tables 3 ''t'' ''r1'')" by code_simp+
  have v: "fst (record_visibility note_tables 2 ''t'' ''r1'')" by code_simp
  have "t_users talk_tables = t_users note_tables" by (simp add: note_tables_def)
  from lost_access_leaks_nothing[of hidden_note 3 "''t''" "''r1''" note_tables talk_tables _ "[]", OF _ _ _ _ _ h this refl] h v show ?thesis
    by (simp add: hidden_note_def)
qed

text \<open>A codec of cursors that leaves their JSON readable.\<close>

definition plain_codec :: cursor_codec where
  "plain_codec = \<lparr>cc_text = (\<lambda>s. s), cc_read = (\<lambda>s. map_option (\<lambda>k. PDict [(''o'', PInt k)]) (parse_int (butlast (drop 5 s))))\<rparr>"

theorem activity_pages_cover_witness:
  "length (ap_items (projr (list_record_activity plain_codec note_tables ''t'' ''r1'' None 50))) \<le> 50
   \<and> ap_scanned (projr (list_record_activity plain_codec note_tables ''t'' ''r1'' None 50)) = 1
   \<and> ap_next (projr (list_record_activity plain_codec note_tables ''t'' ''r1'' None 50)) = None"
proof -
  let ?l = "list_record_activity plain_codec note_tables ''t'' ''r1'' None 50"
  have "isl ?l = False" "ap_scanned (projr ?l) = 1" "ap_more (projr ?l) = False" "safe_limit 50 = 50" by code_simp+
  note f = this
  then have l: "?l = Inr (projr ?l)" by (cases ?l) auto
  have c: "cc_read plain_codec (cc_text plain_codec (offset_json k)) = Some (PDict [(''o'', PInt k)])" "cc_text plain_codec (offset_json k) \<noteq> []" for k
    by (simp_all add: plain_codec_def offset_json_def parse_int_dec_int butlast_append)
  have off: "decode_offset_cursor plain_codec None = Inr 0" by (simp add: decode_offset_cursor_def)
  from activity_pages_cover[OF l off c] f show ?thesis by auto
qed

theorem repair_complete_witness:
  "\<exists>s' n. repair_assignment_notifications_for_user 2 (session_of note_tables) = Some (Inr 1, s')
     \<and> n \<in> set (t_notes (work s')) \<and> nt_recipient n = 2 \<and> repair_assignment_notifications_for_user 2 s' = Some (Inr 0, s')"
proof -
  have one: "map_option fst (repair_assignment_notifications_for_user 2 (session_of note_tables)) = Some (Inr 1)" by code_simp
  have "list_all (\<lambda>ip. list_all (\<lambda>(i, c). length (assignment_key c i 2) \<le> 191) (assignment_history (itm_id (fst ip)) note_tables)) (tables_with_profiles note_tables)"
    by code_simp
  then have short: "\<forall>ip\<in>set (tables_with_profiles (work (session_of note_tables))). \<forall>i c. assigned 2 (work (session_of note_tables)) ip (i, c)
      \<longrightarrow> length (assignment_key c i 2) \<le> 191"
    by (fastforce simp: list_all_iff assigned_def)
  obtain r s' xs where run: "repair_assignment_notifications_for_user 2 (session_of note_tables) = Some (r, s')"
    "work s' = t_notes_update (\<lambda>ns. ns @ xs) (work (session_of note_tables))" "\<forall>n\<in>set xs. nt_recipient n = 2 \<and> nt_type n = ''task_assigned''"
    "\<forall>k. r = Inr k \<longrightarrow> k = length xs \<and> repair_assignment_notifications_for_user 2 s' = Some (Inr 0, s')"
    using repair_complete[of 2 "session_of note_tables"] short by blast
  have r: "r = Inr 1" using one run(1) by simp
  then have "length xs = 1" using run(4) by simp
  then obtain n where "xs = [n]" by (cases xs) auto
  then show ?thesis using run r by (intro exI[of _ s'] exI[of _ n]) auto
qed

end
