(* ===== verification/Spec2Isabelle.thy ===== *)
theory Spec2Isabelle
  imports TreeProps AutoProps QueryProps TaskProps CollabProps NoteProps
begin

text \<open>
  A verification development for the server of QTable, a multidimensional-table work manager:
  the service layer below \<open>src/app/services\<close> that keeps workspaces, tables, records, their
  history and the automations that act on them. The API layers call these services; language
  models, file storage and the asyncio loops stand around them and are not modelled.

  \<^bold>\<open>How the program is modelled.\<close>
  The rows of the database are records, one per ORM class of \<open>src/app/models\<close>, kept in lists, one
  per table (\<open>Session\<close>). A service function that talks to the \<open>AsyncSession\<close> is an operation
  \<open>session \<Rightarrow> (exn + result) \<times> session\<close>: \<open>work\<close> is what its queries see, \<open>committed\<close> what a
  rollback returns to; \<open>bind_op\<close>, \<open>then_op\<close>, \<open>catch\<close> and \<open>map_op\<close> compose operations in the
  order of the Python statements, so every raise and early return is a branch, and an error
  leaves the session the code leaves. A function that only reads takes the tables and returns
  \<open>exn + result\<close>. \<open>uuid4\<close> and the clock are streams of the session. JSON values are the
  datatype \<open>pyval\<close>, dictionaries association lists in insertion order, Python integers \<open>int\<close>,
  times microseconds since the epoch. Queries without an order return rows in storage order.

  \<^bold>\<open>The theories.\<close>
  \<^item> \<open>PyBase\<close>: Python values, strings, integers and exceptions the services use.
    \<open>Session\<close>, \<open>Operations\<close>: rows, sessions, and the rules by which invariants (\<open>keeps\<close>),
    durability (\<open>no_commit\<close>, \<open>atomic_op\<close>) and exceptions (\<open>raises_in\<close>) pass through composed
    operations; the interface \<open>orm_table\<close> is interpreted for every table.
  \<^item> \<open>Permissions\<close> (\<open>workspace/permissions.py\<close>): levels, roles, overrides, the two resolvers and
    their agreement over a listing with its shared memo. \<open>RowPermissions\<close> (\<open>row_permissions.py\<close>): the row policy, what a user may
    see, and that nothing hidden leaks through a filtered store or a record access.
  \<^item> \<open>AutoNumber\<close>, \<open>RelationEngine\<close>, \<open>MemberField\<close>, \<open>Formula\<close>: the field types with logic of
    their own (\<open>auto_number_engine.py\<close>, \<open>relation_engine.py\<close>, \<open>member_field.py\<close>,
    \<open>formula_engine.py\<close>): numbers that never repeat, canonical links, members that exist,
    formulas whose checked schema evaluates without a cycle.
  \<^item> \<open>ChangeHistory\<close>, \<open>ChangeLog\<close>, \<open>Undo\<close>, \<open>ChangeAudit\<close> (\<open>change_history.py\<close>): change sets, the
    recycle bin, undo, restore and purge; undo restores, undo of an undo redoes, an error changes
    nothing durable.
  \<^item> \<open>TableInit\<close>, \<open>RecordStore\<close>, \<open>RecordProps\<close>, \<open>SchemaStore\<close>, \<open>RelationStore\<close>
    (\<open>smart_table_store/db_backend.py\<close>, \<open>relation_store.py\<close>): the life of a table, its records and
    its schema. The record store refines a map from record ids to data with its history;
    a creation in a table without fields first initialises the table, committed on its own and
    outside the change log (\<open>open_table\<close>, \<open>opens\<close>).
    \<open>StoreFacade\<close> (\<open>smart_table_store/__init__.py\<close>): the checked entry points.
  \<^item> \<open>Dashboards\<close>, \<open>WorkspaceTree\<close>, \<open>TreeProps\<close> (\<open>dashboard_store/db_backend.py\<close>,
    \<open>workspace/db_ops.py\<close>): workspaces and the tree of folders, tables and dashboards. Every
    operation keeps the tree a tree, except a move of an item below itself, after which a
    deletion does not return.
  \<^item> \<open>AutoValidate\<close>, \<open>AutoEvents\<close>, \<open>AutoRun\<close>, \<open>AutoWorker\<close>, \<open>AutoProps\<close>
    (\<open>automation/*.py\<close>): the definition of a rule, the durable event queue and the scheduler, one
    execution per rule version and event, the worker's cycle. Runs settle and retries end,
    succeeded actions are not invoked again, chains of automations end, claims are exclusive, a
    change with new data becomes one event (the deletions in the log are read and passed over by
    every poll).
  \<^item> \<open>RecordQuery\<close>, \<open>QueryProps\<close> (\<open>record_query.py\<close>): filters, sorts and pages of records in memory,
    their compilation to SQL, and the query that pages in the database where the compiled form is
    exact. Pages cover a result; the database answers as the exact evaluation does, except on the
    filters named there. Floats are exact rationals with the special values, \<open>sorted\<close> is a stable
    insertion (the interface \<open>comparison\<close>), SQL has three truth values, and the text of a JSON
    value, \<open>lower\<close> and the cast to a number are arguments (\<open>sql_laws\<close>: \<open>lower\<close> is known on ASCII texts;
    other cells must hold texts on which it does what \<open>casefold\<close> does).
  \<^item> \<open>TaskProfile\<close>, \<open>TaskProps\<close> (\<open>task_profile*.py\<close>, \<open>workspace/__init__.py\<close>): which fields of a table
    play the title, the status, the assignee and so on. What is saved is normal and fits the
    fields; the annotations of the fields carry a profile to a copy of the table, when no field
    plays two roles.
  \<^item> \<open>Comments\<close>, \<open>CollabProps\<close> (\<open>collaboration/comments.py\<close>, \<open>common.py\<close>): comments with mentions,
    replies, revisions and tombstones. Stored bodies hold no HTML and no dangerous inline link, threads stay well formed, stale
    changes are refused and a repeated request changes nothing. \<open>runs\<close> and \<open>frame\<close> are the triples
    these proofs compose: the invariant holds of session and database also after an exception.
  \<^item> \<open>Notifications\<close>, \<open>NoteProps\<close> (\<open>collaboration/notifications.py\<close>, \<open>assignment_repair.py\<close>,
    \<open>activity.py\<close>): what a notification shows under present permissions, pages and marks, the
    notifications of assignments and their repair, the activity of a record. A reader who has lost
    access learns nothing, the repair returns and leaves no assignment out, the pages cover the
    activity.

  \<^bold>\<open>How the parts meet.\<close>
  A write of the facade normalises the payload (member, relation and text fields), calls the
  record store, which appends a change set; the event queue turns change items into events; the
  worker claims events and runs rules, whose actions are writes of the facade again, under the
  permissions of the rule's user and the row policy. The model composes the same definitions.

  \<^bold>\<open>Arguments and bounds.\<close>
  What is outside the code is an argument of the definitions that use it: Python's readers of
  floats, times and time zones, \<open>isoformat\<close>, SHA-256, the expression parser and simpleeval,
  table templates. Hypotheses on them are named in the theorems (\<open>reader_ok\<close>). Loops are
  structural recursion, or functions with a termination proof; the walks over parent links,
  which need not end, are \<open>partial_function (option)\<close> and their return is proved on
  well-formed trees (\<open>tree_ok\<close>). No fuel is used. Bounds of the code (conditions, actions,
  retries, delays, leases, chain depth) are definitions with the code's values.

  \<^bold>\<open>What is left out of the model.\<close>
  Strings hold bytes, texts outside Latin-1 appear in UTF-8. Messages of exceptions are
  abbreviated. Foreign keys and their cascades, the flush hook that tracks attachments, the
  expiry of ORM objects at a rollback and the push of notifications to listeners are not
  modelled; neither are concurrent transactions: operations interleave, each runs on its own.

  \<^bold>\<open>Not modelled.\<close>
  Due reminders and the push of notifications, the windows of calendar views, the JSON-file
  backends, dashboard analytics, attachments, the board, cross-table task views, the suggestion
  of task profiles, search, import and export, template data, accounts and OAuth, the GraphQL and
  HTTP layer: they read through or call the services modelled here. The AI services, the agent runtime and the
  skills consist of prompts, calls of a language model and plans around them, which no
  definition can evaluate.
\<close>

end
